(* ===== verification/T81_Prelude.thy ===== *)
theory T81_Prelude
  imports Main "HOL-Library.Word" "HOL-Library.Monad_Syntax" "HOL-Library.Char_ord"
begin

unbundle bit_operations_syntax

text \<open>
  Shared vocabulary of the development: the machine integer types of the C++ sources and
  their casts, decimal printing as done by \<open>std::ostringstream\<close>, the substring search of
  \<open>std::string_view::find\<close>, and the option monad used for undefined behaviour.

  A value of type \<open>'a option\<close> that is the result of a modelled C++ computation reads
  \<open>None\<close> as \emph{undefined behaviour}: an index outside an array, a signed overflow, a
  division whose quotient is not representable, or unbounded native recursion.  A trap of
  the virtual machine is never \<open>None\<close>; it is an ordinary value (see \<open>T81_Machine\<close>).
\<close>

section \<open>Fact collections\<close>

named_theorems frame_simps \<open>what an operation leaves unchanged\<close>
named_theorems wf_intros \<open>an operation preserves the well-formedness of a state\<close>
named_theorems ub_free \<open>an operation has no undefined behaviour under its precondition\<close>

section \<open>Machine integers\<close>

type_synonym i64 = "64 word"
type_synonym u64 = "64 word"
type_synonym i32 = "32 word"
type_synonym u32 = "32 word"
type_synonym u8 = "8 word"

text \<open>\<open>static_cast<std::size_t>(std::int64_t)\<close>\<close>
definition size_of_i64 :: "i64 \<Rightarrow> nat" where
  "size_of_i64 w = unat w"

text \<open>\<open>static_cast<std::int64_t>(std::size_t)\<close>; C++20 defines it modulo 2^64.\<close>
definition i64_of_size :: "nat \<Rightarrow> i64" where
  "i64_of_size n = word_of_nat n"

text \<open>\<open>static_cast<int>(std::int64_t)\<close>: the low 32 bits.\<close>
definition i32_of_i64 :: "i64 \<Rightarrow> i32" where
  "i32_of_i64 w = ucast w"

text \<open>\<open>static_cast<int>(std::size_t)\<close>\<close>
definition i32_of_size :: "nat \<Rightarrow> i32" where
  "i32_of_size n = word_of_nat n"

text \<open>The implicit conversion of an \<open>int\<close> to \<open>std::int64_t\<close>: sign extension.\<close>
definition i64_of_i32 :: "i32 \<Rightarrow> i64" where
  "i64_of_i32 w = scast w"

text \<open>\<open>static_cast<std::size_t>(int)\<close>: sign extension to 64 bits, read unsigned.\<close>
definition size_of_i32 :: "i32 \<Rightarrow> nat" where
  "size_of_i32 w = unat (scast w :: u64)"

text \<open>The values an \<open>std::int64_t\<close> can hold.\<close>
definition in_i64 :: "int \<Rightarrow> bool" where
  "in_i64 x \<longleftrightarrow> - (2 ^ 63) \<le> x \<and> x < 2 ^ 63"

text \<open>
  The result of a signed 64-bit operation whose mathematical value is \<open>x\<close>: signed
  overflow is undefined behaviour in C++20.
\<close>
definition signed_result :: "int \<Rightarrow> i64 option" where
  "signed_result x = (if in_i64 x then Some (word_of_int x) else None)"

text \<open>Truncating division and remainder of C++ on mathematical integers.\<close>
definition trunc_div :: "int \<Rightarrow> int \<Rightarrow> int" where
  "trunc_div a b = (if (0 \<le> a) = (0 \<le> b) then \<bar>a\<bar> div \<bar>b\<bar> else - (\<bar>a\<bar> div \<bar>b\<bar>))"

definition trunc_mod :: "int \<Rightarrow> int \<Rightarrow> int" where
  "trunc_mod a b = a - b * trunc_div a b"

lemma sint_i64_range: "- (2 ^ 63) \<le> sint (w :: i64)" "sint (w :: i64) < 2 ^ 63"
  using sint_ge [of w] sint_lt [of w] by simp_all

lemma sint_eq_0_iff [simp]: "sint (w :: 'a :: len word) = 0 \<longleftrightarrow> w = 0"
  using signed_eq_0_iff by blast

lemma in_i64_sint [simp]: "in_i64 (sint (w :: i64))"
  using sint_i64_range [of w] by (simp add: in_i64_def)

lemma sint_of_in_i64: "in_i64 x \<Longrightarrow> sint (word_of_int x :: i64) = x"
  by (simp add: in_i64_def sint_sbintrunc' signed_take_bit_int_eq_self)

lemma signed_result_SomeD:
  "signed_result x = Some w \<Longrightarrow> in_i64 x \<and> sint w = x"
  by (auto simp: signed_result_def sint_of_in_i64 split: if_splits)

lemma signed_result_eq_None: "signed_result x = None \<longleftrightarrow> \<not> in_i64 x"
  by (simp add: signed_result_def)

lemma sint_i32_range: "- (2 ^ 31) \<le> sint (w :: i32)" "sint (w :: i32) < 2 ^ 31"
  using sint_ge [of w] sint_lt [of w] by simp_all

lemma trunc_div_mult_mod: "b * trunc_div a b + trunc_mod a b = a"
  by (simp add: trunc_mod_def)

text \<open>The remainder takes the sign of the dividend.\<close>
lemma trunc_mod_eq:
  "trunc_mod a b = (if 0 \<le> a then \<bar>a\<bar> mod \<bar>b\<bar> else - (\<bar>a\<bar> mod \<bar>b\<bar>))"
proof -
  have *: "\<bar>a\<bar> mod \<bar>b\<bar> = \<bar>a\<bar> - \<bar>b\<bar> * (\<bar>a\<bar> div \<bar>b\<bar>)"
    by (rule minus_mult_div_eq_mod [symmetric])
  show ?thesis
    unfolding trunc_mod_def trunc_div_def *
    by (cases "0 \<le> a"; cases "0 \<le> b") (simp_all add: algebra_simps)
qed

lemma abs_mod_nonneg: "0 \<le> \<bar>a\<bar> mod \<bar>b :: int\<bar>"
  by (cases "b = 0") simp_all

lemma abs_trunc_mod: "\<bar>trunc_mod a b\<bar> = \<bar>a\<bar> mod \<bar>b\<bar>"
  using abs_mod_nonneg [of a b] by (simp only: trunc_mod_eq split: if_split) simp

lemma trunc_mod_sign: "0 \<le> a * trunc_mod a b"
  using abs_mod_nonneg [of a b] by (simp only: trunc_mod_eq zero_le_mult_iff split: if_split) auto

section \<open>Decimal printing\<close>

text \<open>\<open>operator<<\<close> of an unsigned integer, and of a signed one.\<close>

definition digit_char :: "nat \<Rightarrow> char" where
  "digit_char d = char_of (48 + d)"

fun show_nat :: "nat \<Rightarrow> string" where
  "show_nat n = (if n < 10 then [digit_char n] else show_nat (n div 10) @ [digit_char (n mod 10)])"

declare show_nat.simps [simp del]

definition show_int :: "int \<Rightarrow> string" where
  "show_int x = (if x < 0 then CHR ''-'' # show_nat (nat (- x)) else show_nat (nat x))"

text \<open>\<open>operator<<\<close> of an unsigned and of a signed word.\<close>

abbreviation (input) show_uint :: "'a :: len word \<Rightarrow> string" where
  "show_uint w \<equiv> show_nat (unat w)"

abbreviation (input) show_sint :: "'a :: len word \<Rightarrow> string" where
  "show_sint w \<equiv> show_int (sint w)"

lemma show_nat_not_Nil [simp]: "show_nat n \<noteq> []"
  by (subst show_nat.simps) simp

section \<open>Strings\<close>

text \<open>
  A \<open>std::string\<close> is its list of bytes.  \<open>std::string_view::operator<\<close> compares bytes as
  \<open>unsigned char\<close>, lexicographically.
\<close>

fun str_less :: "string \<Rightarrow> string \<Rightarrow> bool" where
  "str_less _ [] = False"
| "str_less [] (_ # _) = True"
| "str_less (x # xs) (y # ys) =
     (if of_char x = (of_char y :: nat) then str_less xs ys else of_char x < (of_char y :: nat))"

definition starts_with :: "string \<Rightarrow> string \<Rightarrow> bool" where
  "starts_with p s \<longleftrightarrow> length p \<le> length s \<and> take (length p) s = p"

text \<open>The scan of \<open>hay.find(needle, from)\<close> over what is left of \<open>hay\<close>, at absolute offset \<open>k\<close>.\<close>

fun find_scan :: "string \<Rightarrow> string \<Rightarrow> nat \<Rightarrow> nat option" where
  "find_scan needle [] k = (if needle = [] then Some k else None)"
| "find_scan needle (c # cs) k =
     (if starts_with needle (c # cs) then Some k else find_scan needle cs (Suc k))"

text \<open>\<open>None\<close> is \<open>std::string::npos\<close>.\<close>
definition str_find :: "string \<Rightarrow> string \<Rightarrow> nat \<Rightarrow> nat option" where
  "str_find hay needle from =
     (if from \<le> length hay then find_scan needle (drop from hay) from else None)"

definition str_contains :: "string \<Rightarrow> string \<Rightarrow> bool" where
  "str_contains hay needle \<longleftrightarrow> str_find hay needle 0 \<noteq> None"

lemma str_less_irrefl [simp]: "\<not> str_less s s"
  by (induction s) auto

lemma str_less_trans: "str_less a b \<Longrightarrow> str_less b c \<Longrightarrow> str_less a c"
proof (induction a b arbitrary: c rule: str_less.induct)
  case (2 y ys)
  then show ?case by (cases c) auto
next
  case (3 x xs y ys)
  then show ?case by (cases c) (auto split: if_splits)
qed simp

lemma str_less_total: "a \<noteq> b \<Longrightarrow> str_less a b \<or> str_less b a"
proof (induction a b rule: str_less.induct)
  case (1 a)
  then show ?case by (cases a) auto
next
  case (3 x xs y ys)
  then show ?case
    by (metis linorder_neqE_nat of_char_eq_iff str_less.simps(3))
qed simp

lemma find_scan_Some:
  "find_scan needle hay k = Some p \<Longrightarrow>
     k \<le> p \<and> p - k \<le> length hay \<and> starts_with needle (drop (p - k) hay)"
proof (induction needle hay k rule: find_scan.induct)
  case (1 needle k)
  then show ?case by (auto simp: starts_with_def split: if_splits)
next
  case (2 needle c cs k)
  show ?case
  proof (cases "starts_with needle (c # cs)")
    case True
    with "2.prems" show ?thesis by simp
  next
    case False
    with 2 have "Suc k \<le> p \<and> p - Suc k \<le> length cs \<and> starts_with needle (drop (p - Suc k) cs)"
      by simp
    then have *: "Suc k \<le> p" "p - Suc k \<le> length cs"
      "starts_with needle (drop (p - Suc k) cs)" by simp_all
    then have "p - k = Suc (p - Suc k)" by (simp add: Suc_diff_Suc Suc_le_eq)
    with * show ?thesis by simp
  qed
qed

lemma find_scan_None:
  "find_scan needle hay k = None \<Longrightarrow> q \<le> length hay \<Longrightarrow> \<not> starts_with needle (drop q hay)"
proof (induction needle hay k arbitrary: q rule: find_scan.induct)
  case (1 needle k)
  then show ?case by (auto simp: starts_with_def split: if_splits)
next
  case (2 needle c cs k)
  then show ?case by (cases q) (auto split: if_splits)
qed

lemma find_scan_first:
  "find_scan needle hay k = Some p \<Longrightarrow> q < p - k \<Longrightarrow> \<not> starts_with needle (drop q hay)"
proof (induction needle hay k arbitrary: q rule: find_scan.induct)
  case (1 needle k)
  then show ?case by (auto split: if_splits)
next
  case (2 needle c cs k)
  then show ?case by (cases q) (auto split: if_splits)
qed

lemma str_find_Some:
  assumes "str_find hay needle from = Some p"
  shows "from \<le> p" "p + length needle \<le> length hay" "take (length needle) (drop p hay) = needle"
proof -
  from assms have f: "from \<le> length hay" and s: "find_scan needle (drop from hay) from = Some p"
    by (auto simp: str_find_def split: if_splits)
  from find_scan_Some [OF s] show "from \<le> p" by simp
  then have "drop (p - from) (drop from hay) = drop p hay" by simp
  with find_scan_Some [OF s] f have *: "starts_with needle (drop p hay)" "p \<le> length hay"
    by auto
  then show "p + length needle \<le> length hay" "take (length needle) (drop p hay) = needle"
    by (auto simp: starts_with_def)
qed

lemma str_find_first:
  assumes "str_find hay needle from = Some p" "from \<le> q" "q < p"
  shows "\<not> starts_with needle (drop q hay)"
proof -
  from assms have s: "find_scan needle (drop from hay) from = Some p"
    by (auto simp: str_find_def split: if_splits)
  from assms(2,3) have "q - from < p - from" and e: "drop (q - from) (drop from hay) = drop q hay"
    by auto
  from find_scan_first [OF s this(1)] e show ?thesis by simp
qed

lemma str_find_None:
  assumes "str_find hay needle from = None" "from \<le> q" "q \<le> length hay"
  shows "\<not> starts_with needle (drop q hay)"
proof -
  from assms have s: "find_scan needle (drop from hay) from = None"
    by (auto simp: str_find_def split: if_splits)
  from assms(2,3) have "q - from \<le> length (drop from hay)"
    and e: "drop (q - from) (drop from hay) = drop q hay" by auto
  from find_scan_None [OF s this(1)] e show ?thesis by simp
qed

section \<open>Arrays\<close>

text \<open>\<open>std::vector\<close> and \<open>std::array\<close> subscripts: out of range is undefined behaviour.\<close>

definition arr_get :: "'a list \<Rightarrow> nat \<Rightarrow> 'a option" where
  "arr_get xs i = (if i < length xs then Some (xs ! i) else None)"

definition arr_set :: "'a list \<Rightarrow> nat \<Rightarrow> 'a \<Rightarrow> 'a list option" where
  "arr_set xs i v = (if i < length xs then Some (xs[i := v]) else None)"

text \<open>A handle is an index plus one; \<open>handle_idx\<close> is the shared shape of the \<open>*_ptr\<close> lookups.\<close>

definition handle_get :: "'a list \<Rightarrow> i64 \<Rightarrow> 'a option" where
  "handle_get tbl h =
     (if sint h \<le> 0 then None
      else let idx = size_of_i64 (h - 1) in if length tbl \<le> idx then None else Some (tbl ! idx))"

lemma arr_get_Some [simp]: "i < length xs \<Longrightarrow> arr_get xs i = Some (xs ! i)"
  by (simp add: arr_get_def)

lemma arr_set_Some [simp]: "i < length xs \<Longrightarrow> arr_set xs i v = Some (xs[i := v])"
  by (simp add: arr_set_def)

lemma arr_get_eq_Some: "arr_get xs i = Some v \<longleftrightarrow> i < length xs \<and> xs ! i = v"
  by (simp add: arr_get_def)

lemma arr_set_eq_Some: "arr_set xs i v = Some ys \<longleftrightarrow> i < length xs \<and> ys = xs[i := v]"
  by (auto simp: arr_set_def)

lemma arr_get_eq_None: "arr_get xs i = None \<longleftrightarrow> length xs \<le> i"
  by (simp add: arr_get_def)

end
