(* ===== verification/T81_Isa.thy ===== *)
theory T81_Isa
  imports T81_Prelude
begin

text \<open>
  The TISC instruction set (\<open>include/t81/isa/opcodes.hpp\<close>, \<open>include/t81/isa/program.hpp\<close>) and
  its interchange encoding (\<open>core/isa/encoding.cpp\<close>).

  The C++ enumerations \<open>Opcode\<close>, \<open>LiteralKind\<close> and \<open>ValueTag\<close> have a fixed underlying type and
  are filled by unchecked casts (\<open>read_insn_vector\<close>, \<open>MetaRefine\<close>), so an object of the type
  can hold any value of the underlying type.  They are modelled as that type, and every
  enumerator is an abbreviation of its value.
\<close>

section \<open>Opcodes\<close>

type_synonym opcode = u8

abbreviation (input) Op_Nop :: opcode where "Op_Nop \<equiv> 0"
abbreviation (input) Op_Halt :: opcode where "Op_Halt \<equiv> 1"
abbreviation (input) Op_LoadImm :: opcode where "Op_LoadImm \<equiv> 2"
abbreviation (input) Op_Load :: opcode where "Op_Load \<equiv> 3"
abbreviation (input) Op_Store :: opcode where "Op_Store \<equiv> 4"
abbreviation (input) Op_Add :: opcode where "Op_Add \<equiv> 5"
abbreviation (input) Op_Sub :: opcode where "Op_Sub \<equiv> 6"
abbreviation (input) Op_Mul :: opcode where "Op_Mul \<equiv> 7"
abbreviation (input) Op_Div :: opcode where "Op_Div \<equiv> 8"
abbreviation (input) Op_Mod :: opcode where "Op_Mod \<equiv> 9"
abbreviation (input) Op_Jump :: opcode where "Op_Jump \<equiv> 10"
abbreviation (input) Op_JumpIfZero :: opcode where "Op_JumpIfZero \<equiv> 11"
abbreviation (input) Op_Mov :: opcode where "Op_Mov \<equiv> 12"
abbreviation (input) Op_Inc :: opcode where "Op_Inc \<equiv> 13"
abbreviation (input) Op_Dec :: opcode where "Op_Dec \<equiv> 14"
abbreviation (input) Op_Cmp :: opcode where "Op_Cmp \<equiv> 15"
abbreviation (input) Op_Push :: opcode where "Op_Push \<equiv> 16"
abbreviation (input) Op_Pop :: opcode where "Op_Pop \<equiv> 17"
abbreviation (input) Op_TNot :: opcode where "Op_TNot \<equiv> 18"
abbreviation (input) Op_TAnd :: opcode where "Op_TAnd \<equiv> 19"
abbreviation (input) Op_TOr :: opcode where "Op_TOr \<equiv> 20"
abbreviation (input) Op_TXor :: opcode where "Op_TXor \<equiv> 21"
abbreviation (input) Op_AxRead :: opcode where "Op_AxRead \<equiv> 22"
abbreviation (input) Op_AxSet :: opcode where "Op_AxSet \<equiv> 23"
abbreviation (input) Op_AxVerify :: opcode where "Op_AxVerify \<equiv> 24"
abbreviation (input) Op_JumpIfNotZero :: opcode where "Op_JumpIfNotZero \<equiv> 25"
abbreviation (input) Op_Call :: opcode where "Op_Call \<equiv> 26"
abbreviation (input) Op_Ret :: opcode where "Op_Ret \<equiv> 27"
abbreviation (input) Op_Trap :: opcode where "Op_Trap \<equiv> 28"
abbreviation (input) Op_I2F :: opcode where "Op_I2F \<equiv> 29"
abbreviation (input) Op_F2I :: opcode where "Op_F2I \<equiv> 30"
abbreviation (input) Op_I2Frac :: opcode where "Op_I2Frac \<equiv> 31"
abbreviation (input) Op_Frac2I :: opcode where "Op_Frac2I \<equiv> 32"
abbreviation (input) Op_TVecAdd :: opcode where "Op_TVecAdd \<equiv> 33"
abbreviation (input) Op_TMatMul :: opcode where "Op_TMatMul \<equiv> 34"
abbreviation (input) Op_TTenDot :: opcode where "Op_TTenDot \<equiv> 35"
abbreviation (input) Op_FAdd :: opcode where "Op_FAdd \<equiv> 36"
abbreviation (input) Op_FSub :: opcode where "Op_FSub \<equiv> 37"
abbreviation (input) Op_FMul :: opcode where "Op_FMul \<equiv> 38"
abbreviation (input) Op_FDiv :: opcode where "Op_FDiv \<equiv> 39"
abbreviation (input) Op_FracAdd :: opcode where "Op_FracAdd \<equiv> 40"
abbreviation (input) Op_FracSub :: opcode where "Op_FracSub \<equiv> 41"
abbreviation (input) Op_FracMul :: opcode where "Op_FracMul \<equiv> 42"
abbreviation (input) Op_FracDiv :: opcode where "Op_FracDiv \<equiv> 43"
abbreviation (input) Op_SetF :: opcode where "Op_SetF \<equiv> 44"
abbreviation (input) Op_ChkShape :: opcode where "Op_ChkShape \<equiv> 45"
abbreviation (input) Op_MakeOptionSome :: opcode where "Op_MakeOptionSome \<equiv> 46"
abbreviation (input) Op_MakeOptionNone :: opcode where "Op_MakeOptionNone \<equiv> 47"
abbreviation (input) Op_MakeResultOk :: opcode where "Op_MakeResultOk \<equiv> 48"
abbreviation (input) Op_MakeResultErr :: opcode where "Op_MakeResultErr \<equiv> 49"
abbreviation (input) Op_OptionIsSome :: opcode where "Op_OptionIsSome \<equiv> 50"
abbreviation (input) Op_OptionUnwrap :: opcode where "Op_OptionUnwrap \<equiv> 51"
abbreviation (input) Op_ResultIsOk :: opcode where "Op_ResultIsOk \<equiv> 52"
abbreviation (input) Op_ResultUnwrapOk :: opcode where "Op_ResultUnwrapOk \<equiv> 53"
abbreviation (input) Op_ResultUnwrapErr :: opcode where "Op_ResultUnwrapErr \<equiv> 54"
abbreviation (input) Op_MakeEnumVariant :: opcode where "Op_MakeEnumVariant \<equiv> 55"
abbreviation (input) Op_MakeEnumVariantPayload :: opcode where "Op_MakeEnumVariantPayload \<equiv> 56"
abbreviation (input) Op_EnumIsVariant :: opcode where "Op_EnumIsVariant \<equiv> 57"
abbreviation (input) Op_EnumUnwrapPayload :: opcode where "Op_EnumUnwrapPayload \<equiv> 58"
abbreviation (input) Op_Neg :: opcode where "Op_Neg \<equiv> 59"
abbreviation (input) Op_JumpIfNegative :: opcode where "Op_JumpIfNegative \<equiv> 60"
abbreviation (input) Op_JumpIfPositive :: opcode where "Op_JumpIfPositive \<equiv> 61"
abbreviation (input) Op_Less :: opcode where "Op_Less \<equiv> 62"
abbreviation (input) Op_LessEqual :: opcode where "Op_LessEqual \<equiv> 63"
abbreviation (input) Op_Greater :: opcode where "Op_Greater \<equiv> 64"
abbreviation (input) Op_GreaterEqual :: opcode where "Op_GreaterEqual \<equiv> 65"
abbreviation (input) Op_Equal :: opcode where "Op_Equal \<equiv> 66"
abbreviation (input) Op_NotEqual :: opcode where "Op_NotEqual \<equiv> 67"
abbreviation (input) Op_StackAlloc :: opcode where "Op_StackAlloc \<equiv> 68"
abbreviation (input) Op_StackFree :: opcode where "Op_StackFree \<equiv> 69"
abbreviation (input) Op_HeapAlloc :: opcode where "Op_HeapAlloc \<equiv> 70"
abbreviation (input) Op_HeapFree :: opcode where "Op_HeapFree \<equiv> 71"
abbreviation (input) Op_WeightsLoad :: opcode where "Op_WeightsLoad \<equiv> 72"
abbreviation (input) Op_TExp :: opcode where "Op_TExp \<equiv> 73"
abbreviation (input) Op_TSqrt :: opcode where "Op_TSqrt \<equiv> 74"
abbreviation (input) Op_TSiLU :: opcode where "Op_TSiLU \<equiv> 75"
abbreviation (input) Op_TSoftmax :: opcode where "Op_TSoftmax \<equiv> 76"
abbreviation (input) Op_TRMSNorm :: opcode where "Op_TRMSNorm \<equiv> 77"
abbreviation (input) Op_TRoPE :: opcode where "Op_TRoPE \<equiv> 78"
abbreviation (input) Op_TVecMul :: opcode where "Op_TVecMul \<equiv> 79"
abbreviation (input) Op_TTranspose :: opcode where "Op_TTranspose \<equiv> 80"
abbreviation (input) Op_FSin :: opcode where "Op_FSin \<equiv> 81"
abbreviation (input) Op_FCos :: opcode where "Op_FCos \<equiv> 82"
abbreviation (input) Op_FTan :: opcode where "Op_FTan \<equiv> 83"
abbreviation (input) Op_FAsin :: opcode where "Op_FAsin \<equiv> 84"
abbreviation (input) Op_FAcos :: opcode where "Op_FAcos \<equiv> 85"
abbreviation (input) Op_FAtan :: opcode where "Op_FAtan \<equiv> 86"
abbreviation (input) Op_FSinh :: opcode where "Op_FSinh \<equiv> 87"
abbreviation (input) Op_FCosh :: opcode where "Op_FCosh \<equiv> 88"
abbreviation (input) Op_FTanh :: opcode where "Op_FTanh \<equiv> 89"
abbreviation (input) Op_FSqrt :: opcode where "Op_FSqrt \<equiv> 90"
abbreviation (input) Op_FExp :: opcode where "Op_FExp \<equiv> 91"
abbreviation (input) Op_FLog :: opcode where "Op_FLog \<equiv> 92"
abbreviation (input) Op_FPow :: opcode where "Op_FPow \<equiv> 93"
abbreviation (input) Op_MetaRead :: opcode where "Op_MetaRead \<equiv> 94"
abbreviation (input) Op_MetaWrite :: opcode where "Op_MetaWrite \<equiv> 95"
abbreviation (input) Op_MetaReflect :: opcode where "Op_MetaReflect \<equiv> 96"
abbreviation (input) Op_MetaRefine :: opcode where "Op_MetaRefine \<equiv> 97"
abbreviation (input) Op_Print :: opcode where "Op_Print \<equiv> 98"
abbreviation (input) Op_StrLen :: opcode where "Op_StrLen \<equiv> 99"
abbreviation (input) Op_StrEmpty :: opcode where "Op_StrEmpty \<equiv> 100"
abbreviation (input) Op_VecLen :: opcode where "Op_VecLen \<equiv> 101"
abbreviation (input) Op_VecEmpty :: opcode where "Op_VecEmpty \<equiv> 102"
abbreviation (input) Op_VecFirst :: opcode where "Op_VecFirst \<equiv> 103"
abbreviation (input) Op_VecLast :: opcode where "Op_VecLast \<equiv> 104"
abbreviation (input) Op_VecPush :: opcode where "Op_VecPush \<equiv> 105"
abbreviation (input) Op_VecPop :: opcode where "Op_VecPop \<equiv> 106"
abbreviation (input) Op_TGet :: opcode where "Op_TGet \<equiv> 107"
abbreviation (input) Op_TNew :: opcode where "Op_TNew \<equiv> 108"
abbreviation (input) Op_TSet :: opcode where "Op_TSet \<equiv> 109"
abbreviation (input) Op_StrConcat :: opcode where "Op_StrConcat \<equiv> 110"
abbreviation (input) Op_StrStartsWith :: opcode where "Op_StrStartsWith \<equiv> 111"
abbreviation (input) Op_StrEndsWith :: opcode where "Op_StrEndsWith \<equiv> 112"
abbreviation (input) Op_StrContains :: opcode where "Op_StrContains \<equiv> 113"
abbreviation (input) Op_StrIndexOf :: opcode where "Op_StrIndexOf \<equiv> 114"
abbreviation (input) Op_StrReplace :: opcode where "Op_StrReplace \<equiv> 115"
abbreviation (input) Op_StrVecNew :: opcode where "Op_StrVecNew \<equiv> 116"
abbreviation (input) Op_StrVecPush :: opcode where "Op_StrVecPush \<equiv> 117"
abbreviation (input) Op_StrSplit :: opcode where "Op_StrSplit \<equiv> 118"
abbreviation (input) Op_StrJoin :: opcode where "Op_StrJoin \<equiv> 119"
abbreviation (input) Op_MakeComplex :: opcode where "Op_MakeComplex \<equiv> 120"
abbreviation (input) Op_TLoadHash :: opcode where "Op_TLoadHash \<equiv> 121"
abbreviation (input) Op_TID :: opcode where "Op_TID \<equiv> 122"
abbreviation (input) Op_NSend :: opcode where "Op_NSend \<equiv> 123"
abbreviation (input) Op_NRecv :: opcode where "Op_NRecv \<equiv> 124"
abbreviation (input) Op_VWait :: opcode where "Op_VWait \<equiv> 125"
abbreviation (input) Op_VYield :: opcode where "Op_VYield \<equiv> 126"
abbreviation (input) Op_TNorm :: opcode where "Op_TNorm \<equiv> 127"
abbreviation (input) Op_Canon :: opcode where "Op_Canon \<equiv> 128"
abbreviation (input) Op_MemZero :: opcode where "Op_MemZero \<equiv> 129"
abbreviation (input) Op_Copy :: opcode where "Op_Copy \<equiv> 130"
abbreviation (input) Op_AxHalt :: opcode where "Op_AxHalt \<equiv> 131"
abbreviation (input) Op_Assert :: opcode where "Op_Assert \<equiv> 132"
abbreviation (input) Op_SymLoad :: opcode where "Op_SymLoad \<equiv> 133"
abbreviation (input) Op_SymRewrite :: opcode where "Op_SymRewrite \<equiv> 134"
abbreviation (input) Op_SymConfluence :: opcode where "Op_SymConfluence \<equiv> 135"
abbreviation (input) Op_SymCanon :: opcode where "Op_SymCanon \<equiv> 136"
abbreviation (input) Op_SymBind :: opcode where "Op_SymBind \<equiv> 137"
abbreviation (input) Op_ReflCap :: opcode where "Op_ReflCap \<equiv> 138"
abbreviation (input) Op_ReflJustify :: opcode where "Op_ReflJustify \<equiv> 139"
abbreviation (input) Op_ReflCheck :: opcode where "Op_ReflCheck \<equiv> 140"
abbreviation (input) Op_ReflTrace :: opcode where "Op_ReflTrace \<equiv> 141"
abbreviation (input) Op_ReflSeal :: opcode where "Op_ReflSeal \<equiv> 142"
abbreviation (input) Op_Recurse :: opcode where "Op_Recurse \<equiv> 143"
abbreviation (input) Op_Contract :: opcode where "Op_Contract \<equiv> 144"
abbreviation (input) Op_Entropy :: opcode where "Op_Entropy \<equiv> 145"
abbreviation (input) Op_Depth :: opcode where "Op_Depth \<equiv> 146"
abbreviation (input) Op_Terminate :: opcode where "Op_Terminate \<equiv> 147"
abbreviation (input) Op_Merge :: opcode where "Op_Merge \<equiv> 148"
abbreviation (input) Op_Gossip :: opcode where "Op_Gossip \<equiv> 149"
abbreviation (input) Op_TickSync :: opcode where "Op_TickSync \<equiv> 150"
abbreviation (input) Op_Coherence :: opcode where "Op_Coherence \<equiv> 151"
abbreviation (input) Op_DistSeal :: opcode where "Op_DistSeal \<equiv> 152"
abbreviation (input) Op_InfSeed :: opcode where "Op_InfSeed \<equiv> 153"
abbreviation (input) Op_InfExpand :: opcode where "Op_InfExpand \<equiv> 154"
abbreviation (input) Op_InfCollapse :: opcode where "Op_InfCollapse \<equiv> 155"
abbreviation (input) Op_InfConverge :: opcode where "Op_InfConverge \<equiv> 156"
abbreviation (input) Op_InfSignature :: opcode where "Op_InfSignature \<equiv> 157"
abbreviation (input) Op_AxCheck :: opcode where "Op_AxCheck \<equiv> 158"
abbreviation (input) Op_AxSign :: opcode where "Op_AxSign \<equiv> 159"
abbreviation (input) Op_AxLineage :: opcode where "Op_AxLineage \<equiv> 160"
abbreviation (input) Op_AxCanon :: opcode where "Op_AxCanon \<equiv> 161"
abbreviation (input) Op_AxReport :: opcode where "Op_AxReport \<equiv> 162"
abbreviation (input) Op_F2Frac :: opcode where "Op_F2Frac \<equiv> 163"
abbreviation (input) Op_Frac2F :: opcode where "Op_Frac2F \<equiv> 164"
abbreviation (input) Op_TNeuralFwd :: opcode where "Op_TNeuralFwd \<equiv> 165"
abbreviation (input) Op_TNeuralBwd :: opcode where "Op_TNeuralBwd \<equiv> 166"
abbreviation (input) Op_BitAnd :: opcode where "Op_BitAnd \<equiv> 167"
abbreviation (input) Op_BitOr :: opcode where "Op_BitOr \<equiv> 168"
abbreviation (input) Op_BitXor :: opcode where "Op_BitXor \<equiv> 169"
abbreviation (input) Op_BitNot :: opcode where "Op_BitNot \<equiv> 170"
abbreviation (input) Op_BitShl :: opcode where "Op_BitShl \<equiv> 171"
abbreviation (input) Op_BitShr :: opcode where "Op_BitShr \<equiv> 172"
abbreviation (input) Op_BitUShr :: opcode where "Op_BitUShr \<equiv> 173"
abbreviation (input) Op_MapNew :: opcode where "Op_MapNew \<equiv> 174"
abbreviation (input) Op_MapPut :: opcode where "Op_MapPut \<equiv> 175"
abbreviation (input) Op_MapGet :: opcode where "Op_MapGet \<equiv> 176"
abbreviation (input) Op_MapHas :: opcode where "Op_MapHas \<equiv> 177"
abbreviation (input) Op_MapRemove :: opcode where "Op_MapRemove \<equiv> 178"
abbreviation (input) Op_MapKeys :: opcode where "Op_MapKeys \<equiv> 179"
abbreviation (input) Op_MapSize :: opcode where "Op_MapSize \<equiv> 180"
abbreviation (input) Op_SetNew :: opcode where "Op_SetNew \<equiv> 181"
abbreviation (input) Op_SetAdd :: opcode where "Op_SetAdd \<equiv> 182"
abbreviation (input) Op_SetRemove :: opcode where "Op_SetRemove \<equiv> 183"
abbreviation (input) Op_SetHas :: opcode where "Op_SetHas \<equiv> 184"
abbreviation (input) Op_SetSize :: opcode where "Op_SetSize \<equiv> 185"

text \<open>The enumerators in declaration order, each with the text \<open>opcode_name\<close> returns.\<close>

definition opcode_names :: "string list" where
  "opcode_names = [
     ''Nop'', ''Halt'', ''LoadImm'', ''Load'', ''Store'', ''Add'',
     ''Sub'', ''Mul'', ''Div'', ''Mod'', ''Jump'', ''JumpIfZero'',
     ''Mov'', ''Inc'', ''Dec'', ''Cmp'', ''Push'', ''Pop'',
     ''TNot'', ''TAnd'', ''TOr'', ''TXor'', ''AxRead'', ''AxSet'',
     ''AxVerify'', ''JumpIfNotZero'', ''Call'', ''Ret'', ''Trap'', ''I2F'',
     ''F2I'', ''I2Frac'', ''Frac2I'', ''TVecAdd'', ''TMatMul'', ''TTenDot'',
     ''FAdd'', ''FSub'', ''FMul'', ''FDiv'', ''FracAdd'', ''FracSub'',
     ''FracMul'', ''FracDiv'', ''SetF'', ''ChkShape'', ''MakeOptionSome'', ''MakeOptionNone'',
     ''MakeResultOk'', ''MakeResultErr'', ''OptionIsSome'', ''OptionUnwrap'', ''ResultIsOk'', ''ResultUnwrapOk'',
     ''ResultUnwrapErr'', ''MakeEnumVariant'', ''MakeEnumVariantPayload'', ''EnumIsVariant'', ''EnumUnwrapPayload'', ''Neg'',
     ''JumpIfNegative'', ''JumpIfPositive'', ''Less'', ''LessEqual'', ''Greater'', ''GreaterEqual'',
     ''Equal'', ''NotEqual'', ''StackAlloc'', ''StackFree'', ''HeapAlloc'', ''HeapFree'',
     ''WeightsLoad'', ''TExp'', ''TSqrt'', ''TSiLU'', ''TSoftmax'', ''TRMSNorm'',
     ''TRoPE'', ''TVecMul'', ''TTranspose'', ''FSin'', ''FCos'', ''FTan'',
     ''FAsin'', ''FAcos'', ''FAtan'', ''FSinh'', ''FCosh'', ''FTanh'',
     ''FSqrt'', ''FExp'', ''FLog'', ''FPow'', ''MetaRead'', ''MetaWrite'',
     ''MetaReflect'', ''MetaRefine'', ''Print'', ''StrLen'', ''StrEmpty'', ''VecLen'',
     ''VecEmpty'', ''VecFirst'', ''VecLast'', ''VecPush'', ''VecPop'', ''TGet'',
     ''TNew'', ''TSet'', ''StrConcat'', ''StrStartsWith'', ''StrEndsWith'', ''StrContains'',
     ''StrIndexOf'', ''StrReplace'', ''StrVecNew'', ''StrVecPush'', ''StrSplit'', ''StrJoin'',
     ''MakeComplex'', ''TLoadHash'', ''TID'', ''NSend'', ''NRecv'', ''VWait'',
     ''VYield'', ''TNorm'', ''Canon'', ''MemZero'', ''Copy'', ''AxHalt'',
     ''Assert'', ''SymLoad'', ''SymRewrite'', ''SymConfluence'', ''SymCanon'', ''SymBind'',
     ''ReflCap'', ''ReflJustify'', ''ReflCheck'', ''ReflTrace'', ''ReflSeal'', ''Recurse'',
     ''Contract'', ''Entropy'', ''Depth'', ''Terminate'', ''Merge'', ''Gossip'',
     ''TickSync'', ''Coherence'', ''DistSeal'', ''InfSeed'', ''InfExpand'', ''InfCollapse'',
     ''InfConverge'', ''InfSignature'', ''AxCheck'', ''AxSign'', ''AxLineage'', ''AxCanon'',
     ''AxReport'', ''F2Frac'', ''Frac2F'', ''TNeuralFwd'', ''TNeuralBwd'', ''BitAnd'',
     ''BitOr'', ''BitXor'', ''BitNot'', ''BitShl'', ''BitShr'', ''BitUShr'',
     ''MapNew'', ''MapPut'', ''MapGet'', ''MapHas'', ''MapRemove'', ''MapKeys'',
     ''MapSize'', ''SetNew'', ''SetAdd'', ''SetRemove'', ''SetHas'', ''SetSize'']"

definition opcode_name :: "opcode \<Rightarrow> string" where
  "opcode_name op = (if unat op < length opcode_names then opcode_names ! unat op else ''Unknown'')"

definition is_valid_opcode :: "u8 \<Rightarrow> bool" where
  "is_valid_opcode raw \<longleftrightarrow> raw \<le> Op_SetSize"

lemma length_opcode_names [simp]: "length opcode_names = 186"
  by (simp add: opcode_names_def)

lemma is_valid_opcode_iff: "is_valid_opcode op \<longleftrightarrow> unat op < length opcode_names"
  by (simp add: is_valid_opcode_def word_le_nat_alt less_Suc_eq_le [symmetric])

section \<open>Literal kinds, instructions and programs\<close>

type_synonym literal_kind = u8

abbreviation (input) LK_Int :: literal_kind where "LK_Int \<equiv> 0"
abbreviation (input) LK_Bool :: literal_kind where "LK_Bool \<equiv> 1"
abbreviation (input) LK_FloatHandle :: literal_kind where "LK_FloatHandle \<equiv> 2"
abbreviation (input) LK_FractionHandle :: literal_kind where "LK_FractionHandle \<equiv> 3"
abbreviation (input) LK_SymbolHandle :: literal_kind where "LK_SymbolHandle \<equiv> 4"
abbreviation (input) LK_TensorHandle :: literal_kind where "LK_TensorHandle \<equiv> 5"
abbreviation (input) LK_ShapeHandle :: literal_kind where "LK_ShapeHandle \<equiv> 6"

text \<open>\<open>struct Insn\<close>: the middle operand is 64 bits wide, the others 32.\<close>

record insn =
  opcode :: opcode
  op_a :: i32
  op_b :: i64
  op_c :: i32
  literal_kind :: literal_kind

definition default_insn :: insn where
  "default_insn = \<lparr>opcode = Op_Nop, op_a = 0, op_b = 0, op_c = 0, literal_kind = LK_Int\<rparr>"

record enum_variant_metadata =
  variant_name :: string
  variant_payload :: "string option"
  meta_variant_id :: i32

record enum_metadata =
  meta_enum_id :: i32
  meta_name :: string
  meta_variants :: "enum_variant_metadata list"

text \<open>
  \<open>T729DynamicTensor\<close>: a shape and row-major \<open>float\<close> data.  A \<open>float\<close> or \<open>double\<close> is stored as
  its IEEE-754 bit pattern; a \<open>T81Fraction\<close> as its numerator and denominator.
\<close>

record tensor =
  tshape :: "i32 list"
  tdata :: "u32 list"

type_synonym f64 = u64
type_synonym fraction = "int \<times> int"

record program =
  insns :: "insn list"
  float_pool :: "f64 list"
  fraction_pool :: "fraction list"
  symbol_pool :: "string list"
  tensor_pool :: "tensor list"
  shape_pool :: "i32 list list"
  axion_policy_text :: string
  match_metadata_text :: string
  prog_enum_metadata :: "enum_metadata list"

definition empty_program :: program where
  "empty_program = \<lparr>insns = [], float_pool = [], fraction_pool = [], symbol_pool = [],
     tensor_pool = [], shape_pool = [], axion_policy_text = [], match_metadata_text = [],
     prog_enum_metadata = []\<rparr>"

section \<open>The 13-byte interchange encoding\<close>

datatype encoding_error = Truncated | InvalidOpcode

text \<open>\<open>append\<close>: the four low bytes of an operand, least significant first.\<close>

definition append_i32 :: "i32 \<Rightarrow> u8 list" where
  "append_i32 v = map (\<lambda>i. ucast (signed_drop_bit (i * 8) v AND 0xFF)) [0, 1, 2, 3]"

definition encode_insn :: "insn \<Rightarrow> u8 list" where
  "encode_insn i =
     [opcode i] @ append_i32 (op_a i) @ append_i32 (i32_of_i64 (op_b i)) @ append_i32 (op_c i)"

definition encode :: "program \<Rightarrow> u8 list" where
  "encode p = concat (map encode_insn (insns p))"

definition kInsnSize :: nat where "kInsnSize = 1 + 4 * 3"

text \<open>\<open>read(index)\<close> at the record starting at \<open>offset\<close>.\<close>

definition read_i32 :: "u8 list \<Rightarrow> nat \<Rightarrow> nat \<Rightarrow> i32" where
  "read_i32 bytes offset index =
     fold (\<lambda>i value. value OR push_bit (i * 8) (ucast (bytes ! (offset + 1 + index * 4 + i))))
       [0, 1, 2, 3] 0"

definition decode_insn :: "u8 list \<Rightarrow> nat \<Rightarrow> insn" where
  "decode_insn bytes offset =
     default_insn\<lparr>opcode := bytes ! offset, op_a := read_i32 bytes offset 0,
       op_b := i64_of_i32 (read_i32 bytes offset 1), op_c := read_i32 bytes offset 2\<rparr>"

text \<open>The loop over records, with \<open>n\<close> records left from \<open>offset\<close> on.\<close>

fun decode_loop :: "u8 list \<Rightarrow> nat \<Rightarrow> nat \<Rightarrow> encoding_error + insn list" where
  "decode_loop bytes offset 0 = Inr []"
| "decode_loop bytes offset (Suc n) =
     (if \<not> is_valid_opcode (bytes ! offset) then Inl InvalidOpcode
      else case decode_loop bytes (offset + kInsnSize) n of
             Inl e \<Rightarrow> Inl e
           | Inr is \<Rightarrow> Inr (decode_insn bytes offset # is))"

definition decode :: "u8 list \<Rightarrow> encoding_error + program" where
  "decode bytes =
     (if length bytes mod kInsnSize \<noteq> 0 then Inl Truncated
      else case decode_loop bytes 0 (length bytes div kInsnSize) of
             Inl e \<Rightarrow> Inl e
           | Inr is \<Rightarrow> Inr (empty_program\<lparr>insns := is\<rparr>))"

text \<open>The instructions that the encoding represents without loss.\<close>

definition encodable :: "insn \<Rightarrow> bool" where
  "encodable i \<longleftrightarrow> is_valid_opcode (opcode i) \<and> literal_kind i = LK_Int \<and>
     op_b i = i64_of_i32 (i32_of_i64 (op_b i))"

text \<open>What is left of an instruction after the encoding: the literal kind is dropped and the
  middle operand is cut to 32 bits.\<close>

definition encoded_view :: "insn \<Rightarrow> insn" where
  "encoded_view i = i\<lparr>op_b := i64_of_i32 (i32_of_i64 (op_b i)), literal_kind := LK_Int\<rparr>"

lemma length_append_i32 [simp]: "length (append_i32 v) = 4"
  by (simp add: append_i32_def)

lemma length_encode_insn [simp]: "length (encode_insn i) = kInsnSize"
  by (simp add: encode_insn_def kInsnSize_def)

lemma and_0xFF: "(x :: 'a :: len word) AND 0xFF = take_bit 8 x"
  by (simp add: take_bit_eq_mask mask_eq_exp_minus_1)

lemma append_i32_Cons:
  "append_i32 v = [ucast v, ucast (signed_drop_bit 8 v), ucast (signed_drop_bit 16 v),
     ucast (signed_drop_bit 24 v)]"
  unfolding append_i32_def and_0xFF
  by (simp; intro conjI; rule bit_word_eqI; auto simp: bit_simps)

lemma bytes_rebuild_i32:
  "(ucast (ucast v :: u8) :: i32) OR push_bit 8 (ucast (ucast (signed_drop_bit 8 v) :: u8))
     OR push_bit 16 (ucast (ucast (signed_drop_bit 16 v) :: u8))
     OR push_bit 24 (ucast (ucast (signed_drop_bit 24 v) :: u8)) = (v :: i32)"
proof (rule bit_word_eqI)
  fix n :: nat
  assume "n < LENGTH(32)"
  then consider "n < 8" | "8 \<le> n" "n < 16" | "16 \<le> n" "n < 24" | "24 \<le> n" "n < 32"
    by fastforce
  then show "bit (ucast (ucast v :: u8) OR push_bit 8 (ucast (ucast (signed_drop_bit 8 v) :: u8))
     OR push_bit 16 (ucast (ucast (signed_drop_bit 16 v) :: u8))
     OR push_bit 24 (ucast (ucast (signed_drop_bit 24 v) :: u8)) :: i32) n = bit v n"
    by cases (auto simp: bit_simps)
qed

lemma read_i32_append:
  assumes "bytes ! (offset + 1 + index * 4) = append_i32 v ! 0"
    "bytes ! (offset + 1 + index * 4 + 1) = append_i32 v ! 1"
    "bytes ! (offset + 1 + index * 4 + 2) = append_i32 v ! 2"
    "bytes ! (offset + 1 + index * 4 + 3) = append_i32 v ! 3"
  shows "read_i32 bytes offset index = v"
  using assms bytes_rebuild_i32 [of v]
  by (simp add: read_i32_def append_i32_Cons or.assoc or.commute or.left_commute)

lemma nth_shift: "k < length ys \<Longrightarrow> (xs @ ys @ zs) ! (length xs + k) = ys ! k"
  by (simp add: nth_append)

lemma decode_insn_encode:
  assumes "n = length pre"
  shows "decode_insn (pre @ encode_insn i @ post) n = encoded_view i"
proof -
  have nth: "(pre @ encode_insn i @ post) ! (n + k) = encode_insn i ! k" if "k < 13" for k
    using that assms by (simp add: nth_append kInsnSize_def)
  note nths = nth [of 0] nth [of 1] nth [of 2] nth [of 3] nth [of 4] nth [of 5] nth [of 6]
    nth [of 7] nth [of 8] nth [of 9] nth [of 10] nth [of 11] nth [of 12]
  have "read_i32 (pre @ encode_insn i @ post) n 0 = op_a i"
    "read_i32 (pre @ encode_insn i @ post) n 1 = i32_of_i64 (op_b i)"
    "read_i32 (pre @ encode_insn i @ post) n 2 = op_c i"
    by (rule read_i32_append; use nths in \<open>simp add: encode_insn_def append_i32_Cons eval_nat_numeral\<close>)+
  moreover have "(pre @ encode_insn i @ post) ! n = opcode i"
    using nth [of 0] by (simp add: encode_insn_def)
  ultimately show ?thesis
    by (simp add: decode_insn_def encoded_view_def default_insn_def)
qed

lemma decode_loop_encode:
  "length pre = offset \<Longrightarrow> list_all (\<lambda>i. is_valid_opcode (opcode i)) is \<Longrightarrow>
     decode_loop (pre @ concat (map encode_insn is)) offset (length is) = Inr (map encoded_view is)"
proof (induction "is" arbitrary: pre offset)
  case Nil
  then show ?case by simp
next
  case (Cons i "is")
  let ?rest = "concat (map encode_insn is)"
  have "decode_loop ((pre @ encode_insn i) @ ?rest) (offset + kInsnSize) (length is)
      = Inr (map encoded_view is)"
    by (rule Cons.IH) (use Cons.prems in simp_all)
  moreover have "(pre @ encode_insn i @ ?rest) ! offset = opcode i"
    using Cons.prems(1) by (simp add: encode_insn_def nth_append)
  moreover have "decode_insn (pre @ encode_insn i @ ?rest) offset = encoded_view i"
    by (rule decode_insn_encode) (simp add: Cons.prems(1))
  ultimately show ?case using Cons.prems(2) by simp
qed

lemma length_encode: "length (encode p) = length (insns p) * kInsnSize"
  by (simp add: encode_def length_concat sum_list_triv o_def)

lemma encoded_view_id: "encodable i \<Longrightarrow> encoded_view i = i"
  by (simp add: encodable_def encoded_view_def)

lemma decode_encode_view:
  assumes "list_all (\<lambda>i. is_valid_opcode (opcode i)) (insns p)"
  shows "decode (encode p) = Inr (empty_program\<lparr>insns := map encoded_view (insns p)\<rparr>)"
  using decode_loop_encode [of "[]" 0 "insns p"] assms
  by (simp add: decode_def length_encode) (simp add: encode_def kInsnSize_def)

lemma decode_encode:
  assumes "list_all encodable (insns p)"
  shows "decode (encode p) = Inr (empty_program\<lparr>insns := insns p\<rparr>)"
proof -
  have "list_all (\<lambda>i. is_valid_opcode (opcode i)) (insns p)"
    using assms by (auto simp: list_all_iff encodable_def)
  moreover have "map encoded_view (insns p) = insns p"
    using assms by (intro map_idI encoded_view_id) (auto simp: list_all_iff)
  ultimately show ?thesis using decode_encode_view by simp
qed

text \<open>The decoder rejects what it cannot decode: a wrong length, or an unknown opcode byte.\<close>

lemma decode_truncated: "length bytes mod kInsnSize \<noteq> 0 \<Longrightarrow> decode bytes = Inl Truncated"
  by (simp add: decode_def)

lemma decode_loop_valid:
  "decode_loop bytes offset n = Inr is \<Longrightarrow>
     length is = n \<and> (\<forall>k < n. is_valid_opcode (bytes ! (offset + k * kInsnSize)) \<and>
       is ! k = decode_insn bytes (offset + k * kInsnSize))"
proof (induction bytes offset n arbitrary: "is" rule: decode_loop.induct)
  case (1 bytes offset)
  then show ?case by simp
next
  case (2 bytes offset n)
  then obtain tl where v: "is_valid_opcode (bytes ! offset)"
    and t: "decode_loop bytes (offset + kInsnSize) n = Inr tl"
    and i: "is = decode_insn bytes offset # tl"
    by (auto split: if_splits sum.splits)
  from "2.IH" v t have IH: "length tl = n" "\<And>k. k < n \<Longrightarrow>
      is_valid_opcode (bytes ! (offset + kInsnSize + k * kInsnSize)) \<and>
      tl ! k = decode_insn bytes (offset + kInsnSize + k * kInsnSize)" by auto
  show ?case
  proof (intro conjI allI impI)
    fix k assume k: "k < Suc n"
    show "is_valid_opcode (bytes ! (offset + k * kInsnSize))"
      using v IH(2) [of "k - 1"] k by (cases k) (auto simp: algebra_simps)
    show "is ! k = decode_insn bytes (offset + k * kInsnSize)"
      using i IH(2) [of "k - 1"] k by (cases k) (auto simp: algebra_simps)
  qed (use i IH(1) in simp)
qed

lemma decode_loop_InvalidOpcode:
  "decode_loop bytes offset n = Inl e \<Longrightarrow>
     e = InvalidOpcode \<and> (\<exists>k < n. \<not> is_valid_opcode (bytes ! (offset + k * kInsnSize)))"
proof (induction bytes offset n rule: decode_loop.induct)
  case (1 bytes offset)
  then show ?case by simp
next
  case (2 bytes offset n)
  show ?case
  proof (cases "is_valid_opcode (bytes ! offset)")
    case False
    with "2.prems" show ?thesis by force
  next
    case True
    with "2.prems" have "decode_loop bytes (offset + kInsnSize) n = Inl e"
      by (auto split: sum.splits)
    with "2.IH" True obtain k where "e = InvalidOpcode" "k < n"
      "\<not> is_valid_opcode (bytes ! (offset + kInsnSize + k * kInsnSize))" by auto
    then show ?thesis by (intro conjI exI [of _ "Suc k"]) (auto simp: algebra_simps)
  qed
qed

end
