(* ===== verification/T81_Values.thy ===== *)
theory T81_Values
  imports T81_Prelude
begin

text \<open>
  Integer primitives of the interpreter: \<open>core/vm/value_ops.cpp\<close> and the bitwise and ternary
  lambdas of \<open>core/vm/vm.cpp\<close>.  Signed overflow is undefined behaviour (\<open>None\<close>); the out
  parameter of \<open>div_int\<close> and \<open>mod_int\<close> is never null at their call sites.
\<close>

section \<open>Arithmetic\<close>

definition add_int :: "i64 \<Rightarrow> i64 \<Rightarrow> i64 option" where
  "add_int lhs rhs = signed_result (sint lhs + sint rhs)"

definition sub_int :: "i64 \<Rightarrow> i64 \<Rightarrow> i64 option" where
  "sub_int lhs rhs = signed_result (sint lhs - sint rhs)"

definition mul_int :: "i64 \<Rightarrow> i64 \<Rightarrow> i64 option" where
  "mul_int lhs rhs = signed_result (sint lhs * sint rhs)"

definition neg_int :: "i64 \<Rightarrow> i64 option" where
  "neg_int value = signed_result (- sint value)"

text \<open>The inner option is the boolean result together with \<open>*out\<close>.\<close>

definition div_int :: "i64 \<Rightarrow> i64 \<Rightarrow> i64 option option" where
  "div_int lhs rhs =
     (if rhs = 0 then Some None
      else map_option Some (signed_result (trunc_div (sint lhs) (sint rhs))))"

definition mod_int :: "i64 \<Rightarrow> i64 \<Rightarrow> i64 option option" where
  "mod_int lhs rhs =
     (if rhs = 0 then Some None
      else if in_i64 (trunc_div (sint lhs) (sint rhs))
      then Some (Some (word_of_int (trunc_mod (sint lhs) (sint rhs))))
      else None)"

section \<open>Trits\<close>

text \<open>\<open>clamp_trit\<close>: the sign of a register, as a trit.\<close>

definition clamp_trit :: "i64 \<Rightarrow> int" where
  "clamp_trit v = (if sint v > 0 then 1 else if sint v < 0 then -1 else 0)"

definition trit_not :: "int \<Rightarrow> int" where
  "trit_not t = - t"

definition trit_and :: "int \<Rightarrow> int \<Rightarrow> int" where
  "trit_and lhs rhs = (if lhs < rhs then lhs else rhs)"

definition trit_or :: "int \<Rightarrow> int \<Rightarrow> int" where
  "trit_or lhs rhs = (if lhs > rhs then lhs else rhs)"

definition trit_xor :: "int \<Rightarrow> int \<Rightarrow> int" where
  "trit_xor lhs rhs =
     (let result = lhs - rhs;
          result = (if result > 1 then -1 else result)
      in if result < -1 then 1 else result)"

definition is_trit :: "int \<Rightarrow> bool" where
  "is_trit t \<longleftrightarrow> t = -1 \<or> t = 0 \<or> t = 1"

section \<open>Bits\<close>

definition bit_shl :: "i64 \<Rightarrow> i64 \<Rightarrow> i64" where
  "bit_shl val amt = push_bit (unat (amt AND 0x3F)) val"

definition bit_shr :: "i64 \<Rightarrow> i64 \<Rightarrow> i64" where
  "bit_shr val amt = signed_drop_bit (unat (amt AND 0x3F)) val"

definition bit_ushr :: "i64 \<Rightarrow> i64 \<Rightarrow> i64" where
  "bit_ushr val amt = drop_bit (unat (amt AND 0x3F)) val"

section \<open>What the primitives compute\<close>

lemma add_int_exact: "add_int a b = Some c \<Longrightarrow> sint c = sint a + sint b"
  unfolding add_int_def by (drule signed_result_SomeD) simp

lemma sub_int_exact: "sub_int a b = Some c \<Longrightarrow> sint c = sint a - sint b"
  unfolding sub_int_def by (drule signed_result_SomeD) simp

lemma mul_int_exact: "mul_int a b = Some c \<Longrightarrow> sint c = sint a * sint b"
  unfolding mul_int_def by (drule signed_result_SomeD) simp

lemma neg_int_exact: "neg_int a = Some c \<Longrightarrow> sint c = - sint a"
  unfolding neg_int_def by (drule signed_result_SomeD) simp

lemma neg_int_ub_iff: "neg_int a = None \<longleftrightarrow> sint a = - (2 ^ 63)"
  using sint_i64_range [of a] by (auto simp: neg_int_def signed_result_eq_None in_i64_def)

lemma trunc_div_bound: "\<bar>trunc_div a b\<bar> \<le> \<bar>a\<bar>"
proof (cases "b = 0")
  case False
  have "\<bar>a\<bar> div \<bar>b\<bar> \<le> \<bar>a\<bar>" "0 \<le> \<bar>a\<bar> div \<bar>b\<bar>"
    using False by (auto intro!: zdiv_mono2 [where b' = 1, simplified] simp: pos_imp_zdiv_nonneg_iff)
  then show ?thesis by (simp add: trunc_div_def)
qed (simp add: trunc_div_def)

text \<open>The only quotient of two 64-bit integers that is not one is \<open>INT64_MIN / -1\<close>.\<close>

lemma trunc_div_overflow_iff:
  assumes "b \<noteq> (0 :: i64)"
  shows "\<not> in_i64 (trunc_div (sint a) (sint b)) \<longleftrightarrow> sint (a :: i64) = - (2 ^ 63) \<and> sint b = -1"
proof -
  let ?a = "sint a" and ?b = "sint b"
  have b0: "?b \<noteq> 0" using assms by simp
  have ab: "- (2 ^ 63) \<le> ?a" "?a < 2 ^ 63" by (rule sint_i64_range)+
  show ?thesis
  proof
    assume n: "\<not> in_i64 (trunc_div ?a ?b)"
    have a: "\<bar>trunc_div ?a ?b\<bar> \<le> \<bar>?a\<bar>" by (rule trunc_div_bound)
    from n a ab have min: "?a = - (2 ^ 63)" by (auto simp: in_i64_def abs_if split: if_splits)
    from n have "trunc_div ?a ?b = 2 ^ 63 \<or> 2 ^ 63 < \<bar>trunc_div ?a ?b\<bar>"
      by (auto simp: in_i64_def)
    with a min have q: "trunc_div ?a ?b = 2 ^ 63" by simp
    have nn: "0 \<le> (2 ^ 63 :: int) div \<bar>?b\<bar>"
      using b0 by (subst pos_imp_zdiv_nonneg_iff) simp_all
    have neg: "?b < 0"
    proof (rule ccontr)
      assume "\<not> ?b < 0"
      with q min nn show False by (simp add: trunc_div_def)
    qed
    with q min have d: "2 ^ 63 div \<bar>?b\<bar> = (2 ^ 63 :: int)" by (simp add: trunc_div_def)
    have "\<bar>?b\<bar> = 1"
    proof (rule ccontr)
      assume "\<bar>?b\<bar> \<noteq> 1"
      then have "2 \<le> \<bar>?b\<bar>" using b0 by arith
      then have "2 ^ 63 div \<bar>?b\<bar> \<le> 2 ^ 63 div (2 :: int)" by (intro zdiv_mono2) simp_all
      with d show False by simp
    qed
    with neg min show "?a = - (2 ^ 63) \<and> ?b = -1" by simp
  next
    assume "?a = - (2 ^ 63) \<and> ?b = -1"
    then show "\<not> in_i64 (trunc_div ?a ?b)" by (simp add: trunc_div_def in_i64_def)
  qed
qed

lemma div_int_ub_iff:
  "div_int a b = None \<longleftrightarrow> sint a = - (2 ^ 63) \<and> sint b = -1"
  using trunc_div_overflow_iff [of b a]
  by (cases "b = 0") (auto simp: div_int_def signed_result_eq_None)

lemma mod_int_ub_iff:
  "mod_int a b = None \<longleftrightarrow> sint a = - (2 ^ 63) \<and> sint b = -1"
  using trunc_div_overflow_iff [of b a] by (cases "b = 0") (auto simp: mod_int_def)

lemma trunc_mod_in_i64:
  assumes "b \<noteq> (0 :: i64)"
  shows "in_i64 (trunc_mod (sint a) (sint b))"
proof -
  have "\<bar>trunc_mod (sint a) (sint b)\<bar> = \<bar>sint a\<bar> mod \<bar>sint b\<bar>" by (rule abs_trunc_mod)
  moreover have "\<bar>sint a\<bar> mod \<bar>sint b\<bar> < \<bar>sint b\<bar>" using assms by simp
  moreover have "\<bar>sint b\<bar> \<le> 2 ^ 63" using sint_i64_range [of b] by auto
  ultimately show ?thesis by (auto simp: in_i64_def)
qed

lemma div_mod_int_euclid:
  assumes "div_int a b = Some (Some q)" "mod_int a b = Some (Some r)"
  shows "sint a = sint b * sint q + sint r" "\<bar>sint r\<bar> < \<bar>sint b\<bar>"
proof -
  from assms have b: "b \<noteq> 0" by (auto simp: div_int_def)
  from assms b have q: "sint q = trunc_div (sint a) (sint b)"
    by (auto simp: div_int_def dest: signed_result_SomeD)
  from assms b have r: "sint r = trunc_mod (sint a) (sint b)"
    by (auto simp: mod_int_def sint_of_in_i64 trunc_mod_in_i64 split: if_splits)
  show "sint a = sint b * sint q + sint r" by (simp add: q r trunc_div_mult_mod)
  show "\<bar>sint r\<bar> < \<bar>sint b\<bar>" using b by (simp add: r abs_trunc_mod)
qed

lemma clamp_trit_is_trit [simp]: "is_trit (clamp_trit v)"
  by (simp add: clamp_trit_def is_trit_def)

lemma clamp_trit_sgn: "clamp_trit v = sgn (sint v)"
  by (simp add: clamp_trit_def)

lemma trit_closed:
  assumes "is_trit a" "is_trit b"
  shows "is_trit (trit_not a)" "is_trit (trit_and a b)" "is_trit (trit_or a b)"
    "is_trit (trit_xor a b)"
  using assms by (auto simp: is_trit_def trit_not_def trit_and_def trit_or_def trit_xor_def)

text \<open>The ternary connectives are Kleene's: conjunction is the minimum, disjunction the
  maximum, and they are De Morgan duals; \<open>TXor\<close> is subtraction modulo three.\<close>

lemma trit_and_min: "trit_and a b = min a b"
  by (simp add: trit_and_def)

lemma trit_or_max: "trit_or a b = max a b"
  by (simp add: trit_or_def)

lemma trit_de_morgan: "trit_not (trit_and a b) = trit_or (trit_not a) (trit_not b)"
  by (simp add: trit_not_def trit_and_def trit_or_def)

lemma trit_xor_mod3:
  assumes "is_trit a" "is_trit b"
  shows "(trit_xor a b - (a - b)) mod 3 = 0"
  using assms by (auto simp: is_trit_def trit_xor_def)

end
