(* ===== verification/T81_State.thy ===== *)
theory T81_State
  imports T81_Isa
begin

text \<open>
  The state of the virtual machine (\<open>include/t81/vm/state.hpp\<close>, \<open>include/t81/vm/traps.hpp\<close>), with the
  record types it is made of: cognitive-tier status and recursor, reflective frames, symbolic
  graphs, infinite forms, the distributed node, Axion verdicts and policies.

  Positions and sizes (\<open>std::size_t\<close>) are natural numbers, with \<open>size_sub\<close> for subtractions;
  the resource counters that the code decrements are 64-bit words.  The weights model and its
  handle tables are not part of the model.
\<close>

section \<open>Traps and value tags\<close>

text \<open>\<open>Trap::None\<close> is \<open>None\<close> of \<open>trap option\<close>.\<close>

datatype trap =
    DecodeFault | TypeFault | BoundsFault | StackFault | DivisionFault | SecurityFault
  | TierFault | ShapeFault | TrapInstruction | Unimplemented | AssertionFailed

fun trap_name :: "trap \<Rightarrow> string" where
  "trap_name DecodeFault = ''DecodeFault''"
| "trap_name TypeFault = ''TypeFault''"
| "trap_name BoundsFault = ''BoundsFault''"
| "trap_name StackFault = ''StackFault''"
| "trap_name DivisionFault = ''DivisionFault''"
| "trap_name SecurityFault = ''SecurityFault''"
| "trap_name TierFault = ''TierFault''"
| "trap_name ShapeFault = ''ShapeFault''"
| "trap_name TrapInstruction = ''TrapInstruction''"
| "trap_name Unimplemented = ''Unimplemented''"
| "trap_name AssertionFailed = ''AssertionFailed''"

type_synonym value_tag = u8

abbreviation (input) VT_Int :: value_tag where "VT_Int \<equiv> 0"
abbreviation (input) VT_Bool :: value_tag where "VT_Bool \<equiv> 1"
abbreviation (input) VT_FloatHandle :: value_tag where "VT_FloatHandle \<equiv> 2"
abbreviation (input) VT_FractionHandle :: value_tag where "VT_FractionHandle \<equiv> 3"
abbreviation (input) VT_SymbolHandle :: value_tag where "VT_SymbolHandle \<equiv> 4"
abbreviation (input) VT_WeightsTensorHandle :: value_tag where "VT_WeightsTensorHandle \<equiv> 5"
abbreviation (input) VT_TensorHandle :: value_tag where "VT_TensorHandle \<equiv> 6"
abbreviation (input) VT_ShapeHandle :: value_tag where "VT_ShapeHandle \<equiv> 7"
abbreviation (input) VT_OptionHandle :: value_tag where "VT_OptionHandle \<equiv> 8"
abbreviation (input) VT_ResultHandle :: value_tag where "VT_ResultHandle \<equiv> 9"
abbreviation (input) VT_EnumHandle :: value_tag where "VT_EnumHandle \<equiv> 10"
abbreviation (input) VT_ComplexHandle :: value_tag where "VT_ComplexHandle \<equiv> 11"
abbreviation (input) VT_ReflectionHandle :: value_tag where "VT_ReflectionHandle \<equiv> 12"
abbreviation (input) VT_ProofHandle :: value_tag where "VT_ProofHandle \<equiv> 13"
abbreviation (input) VT_IoStreamHandle :: value_tag where "VT_IoStreamHandle \<equiv> 14"
abbreviation (input) VT_IoNetHandle :: value_tag where "VT_IoNetHandle \<equiv> 15"
abbreviation (input) VT_AsyncThreadHandle :: value_tag where "VT_AsyncThreadHandle \<equiv> 16"
abbreviation (input) VT_AsyncPromiseHandle :: value_tag where "VT_AsyncPromiseHandle \<equiv> 17"
abbreviation (input) VT_StringVectorHandle :: value_tag where "VT_StringVectorHandle \<equiv> 18"
abbreviation (input) VT_SymbolicGraphHandle :: value_tag where "VT_SymbolicGraphHandle \<equiv> 19"
abbreviation (input) VT_Tier2FrameHandle :: value_tag where "VT_Tier2FrameHandle \<equiv> 20"
abbreviation (input) VT_InfiniteHandle :: value_tag where "VT_InfiniteHandle \<equiv> 21"

text \<open>\<open>std::size_t\<close> subtraction wraps modulo 2^64.\<close>
definition size_sub :: "nat \<Rightarrow> nat \<Rightarrow> nat" where
  "size_sub a b = (if b \<le> a then a - b else 2 ^ 64 + a - b)"

lemma size_sub_le [simp]: "b \<le> a \<Longrightarrow> size_sub a b = a - b"
  by (simp add: size_sub_def)

section \<open>Flags and tagged values\<close>

record flags =
  flag_zero :: bool
  flag_negative :: bool
  flag_positive :: bool

definition init_flags :: flags where
  "init_flags = \<lparr>flag_zero = False, flag_negative = False, flag_positive = False\<rparr>"

record option_value =
  has_value :: bool
  opt_payload_tag :: value_tag
  opt_payload :: i64

record result_value =
  is_ok :: bool
  res_payload_tag :: value_tag
  res_payload :: i64

record enum_value =
  variant_id :: i32
  has_payload :: bool
  enum_payload_tag :: value_tag
  enum_payload :: i64
  enum_id :: i32

record complex_value =
  cplx_real :: i64
  cplx_imag :: i64

section \<open>Memory segments\<close>

text \<open>\<open>MemorySegmentKind\<close> is an enumeration over \<open>std::int32_t\<close>.\<close>

type_synonym segment_kind = i32

abbreviation (input) Seg_Unknown :: segment_kind where "Seg_Unknown \<equiv> 0"
abbreviation (input) Seg_Code :: segment_kind where "Seg_Code \<equiv> 1"
abbreviation (input) Seg_Stack :: segment_kind where "Seg_Stack \<equiv> 2"
abbreviation (input) Seg_Heap :: segment_kind where "Seg_Heap \<equiv> 3"
abbreviation (input) Seg_Tensor :: segment_kind where "Seg_Tensor \<equiv> 4"
abbreviation (input) Seg_Meta :: segment_kind where "Seg_Meta \<equiv> 5"
abbreviation (input) Seg_Registers :: segment_kind where "Seg_Registers \<equiv> 100"

definition segment_name :: "segment_kind \<Rightarrow> string" where
  "segment_name k =
     (if k = Seg_Code then ''code'' else if k = Seg_Stack then ''stack''
      else if k = Seg_Heap then ''heap'' else if k = Seg_Tensor then ''tensor''
      else if k = Seg_Meta then ''meta'' else if k = Seg_Registers then ''registers''
      else ''unknown'')"

text \<open>\<open>limit\<close> is exclusive.\<close>

record memory_segment =
  seg_start :: nat
  seg_limit :: nat

definition seg_valid :: "memory_segment \<Rightarrow> bool" where
  "seg_valid s \<longleftrightarrow> seg_start s < seg_limit s"

definition seg_size :: "memory_segment \<Rightarrow> nat" where
  "seg_size s = (if seg_valid s then seg_limit s - seg_start s else 0)"

definition seg_contains :: "memory_segment \<Rightarrow> nat \<Rightarrow> bool" where
  "seg_contains s addr \<longleftrightarrow> seg_valid s \<and> seg_start s \<le> addr \<and> addr < seg_limit s"

record memory_layout =
  code_seg :: memory_segment
  stack_seg :: memory_segment
  heap_seg :: memory_segment
  tensor_seg :: memory_segment
  meta_seg :: memory_segment

definition total_size :: "memory_layout \<Rightarrow> nat" where
  "total_size l = seg_limit (meta_seg l)"

section \<open>Axion verdicts and events\<close>

datatype verdict_kind = Allow | Deny | Defer | Warn

record verdict =
  vkind :: verdict_kind
  vreason :: string

record structured_event =
  se_reason :: string
  se_policy_id :: u32
  se_pc :: u64
  se_handle_id :: i64
  se_decision :: string

record axion_event =
  ev_opcode :: opcode
  ev_tag :: i32
  ev_value :: i64
  ev_verdict :: verdict
  ev_structured :: structured_event

definition default_structured :: structured_event where
  "default_structured = \<lparr>se_reason = [], se_policy_id = 0, se_pc = 0, se_handle_id = 0,
     se_decision = []\<rparr>"

record trace_entry =
  te_pc :: nat
  te_opcode :: opcode
  te_trap :: "trap option"

section \<open>Axion policies\<close>

record loop_hint =
  loop_id :: i32
  loop_file :: string
  loop_line :: i32
  loop_column :: i32
  loop_annotated :: bool
  loop_depth :: i32
  bound_infinite :: bool
  bound_value :: "i64 option"

record match_guard_req =
  mg_enum_name :: string
  mg_variant_name :: string
  mg_payload :: "string option"
  mg_result :: string

record segment_event_req =
  sr_segment :: string
  sr_action :: string
  sr_addr :: "i64 option"

record policy =
  pol_tier :: i32
  max_stack :: "i64 option"
  max_instructions :: "i64 option"
  max_recursion :: "i64 option"
  max_reflections :: "i64 option"
  max_meta_writes :: "i64 option"
  max_tensors :: "i64 option"
  max_tensor_elements :: "i64 option"
  max_symbolic_nodes :: "i64 option"
  max_symbolic_graphs :: "i64 option"
  max_infinite_forms :: "i64 option"
  allowed_tensor_hashes :: "string list"
  pol_loops :: "loop_hint list"
  match_guards :: "match_guard_req list"
  segment_requirements :: "segment_event_req list"
  axion_event_requirements :: "string list"
  alignment_requirements :: "string list"
  bytecode :: "u8 list"
  symbol_table :: "string list"

definition default_policy :: policy where
  "default_policy = \<lparr>pol_tier = 1, max_stack = None, max_instructions = None,
     max_recursion = None, max_reflections = None, max_meta_writes = None, max_tensors = None,
     max_tensor_elements = None, max_symbolic_nodes = None, max_symbolic_graphs = None,
     max_infinite_forms = None, allowed_tensor_hashes = [], pol_loops = [], match_guards = [],
     segment_requirements = [], axion_event_requirements = [], alignment_requirements = [],
     bytecode = [], symbol_table = []\<rparr>"

section \<open>Cognitive tiers\<close>

datatype tier_id = Tier0 | Tier1 | Tier2 | Tier3 | Tier4 | Tier5

record tier_status =
  tier_current :: tier_id
  tier_label :: string

record contraction_proof =
  cp_verified :: bool
  cp_initial_entropy :: f64
  cp_final_entropy :: f64

record recursor =
  max_depth :: i32
  current_depth :: i32
  proofs :: "contraction_proof list"

record reflective_frame =
  rf_pc :: nat
  rf_registers :: "i64 list"
  rf_description :: string
  rf_justification :: "string list"
  rf_sealed :: bool
  rf_hash :: u64

text \<open>A \<open>T81Symbol\<close> is represented by its numeric identity.\<close>

record symbolic_graph =
  sg_nodes :: "(u64 \<times> string) list"
  sg_edges :: "(u64 \<times> u64 \<times> string) list"

record infinite_form =
  is_convergent :: bool
  convergence_signature :: string
  is_geometric :: bool
  first_term :: fraction
  ratio :: fraction
  inf_sum :: fraction
  lazy_terms :: "fraction list"

record network_message =
  nm_payload :: i64
  nm_tag :: i32
  nm_tick :: u64
  nm_sender :: string

record node_state =
  global_tick :: u64
  inbox :: "network_message list"
  outbox :: "network_message list"

section \<open>The machine state\<close>

record reflection_snapshot =
  snap_pc :: nat
  snap_registers :: "i64 list"
  snap_register_tags :: "value_tag list"
  snap_flags :: flags
  snap_trace :: "trace_entry list"
  snap_code_hash :: u64

record fault_injection =
  fi_instruction_count :: nat
  fi_trap :: trap

record resource_metrics =
  met_tensor_elements :: u64
  met_tensors :: u64
  met_symbolic_nodes :: u64
  met_symbolic_graphs :: u64
  met_infinite_forms :: u64

text \<open>\<open>std::array<std::int64_t, 243>\<close>\<close>
definition kRegisters :: nat where "kRegisters = 243"

record thread_ctx =
  registers :: "i64 list"
  register_tags :: "value_tag list"
  flags :: flags
  pc :: nat
  sp :: nat
  stack_frames :: "(i64 \<times> i64) list"
  call_depth :: nat
  ctx_halted :: bool
  active :: bool
  stack_base :: nat
  stack_limit :: nat
  tier2_frames :: "reflective_frame list"
  tier3_recursor :: recursor
  tier_status :: tier_status

record state =
  metrics :: resource_metrics
  contexts :: "thread_ctx list"
  current_context :: nat
  memory :: "i64 list"
  memory_tags :: "value_tag list"
  layout :: memory_layout
  tensors :: "tensor option list"
  free_tensor_indices :: "nat list"
  total_tensor_elements :: u64
  floats :: "f64 list"
  fractions :: "fraction list"
  symbols :: "string list"
  string_vectors :: "string list list"
  printed_output :: "string list"
  shapes :: "i32 list list"
  options :: "option_value list"
  results :: "result_value list"
  enums :: "enum_value list"
  complexes :: "complex_value list"
  trace :: "trace_entry list"
  axion_log :: "axion_event list"
  halted :: bool
  gc_cycles :: nat
  policy_opt :: "policy option"
  contradiction_events :: nat
  heap_frames :: "(i64 \<times> i64) list"
  heap_ptr :: nat
  meta_ptr :: nat
  enum_metadata :: "enum_metadata list"
  enum_metadata_index :: "i32 \<rightharpoonup> nat"
  reflection_snapshots :: "reflection_snapshot list"
  reflection_count :: nat
  meta_write_count :: nat
  symbolic_graphs :: "symbolic_graph list"
  total_symbolic_nodes :: u64
  tier4_state :: node_state
  infinite_forms :: "infinite_form option list"
  free_infinite_indices :: "nat list"
  pending_faults :: "fault_injection list"

definition init_metrics :: resource_metrics where
  "init_metrics = \<lparr>met_tensor_elements = 0, met_tensors = 0, met_symbolic_nodes = 0,
     met_symbolic_graphs = 0, met_infinite_forms = 0\<rparr>"

definition init_recursor :: recursor where
  "init_recursor = \<lparr>max_depth = 81, current_depth = 0, proofs = []\<rparr>"

definition init_ctx :: thread_ctx where
  "init_ctx = \<lparr>registers = replicate kRegisters 0, register_tags = replicate kRegisters VT_Int,
     flags = init_flags, pc = 0, sp = 0, stack_frames = [], call_depth = 0, ctx_halted = False,
     active = True, stack_base = 0, stack_limit = 0, tier2_frames = [],
     tier3_recursor = init_recursor,
     tier_status = \<lparr>tier_current = Tier0, tier_label = []\<rparr>\<rparr>"

definition empty_segment :: memory_segment where
  "empty_segment = \<lparr>seg_start = 0, seg_limit = 0\<rparr>"

definition empty_layout :: memory_layout where
  "empty_layout = \<lparr>code_seg = empty_segment, stack_seg = empty_segment,
     heap_seg = empty_segment, tensor_seg = empty_segment, meta_seg = empty_segment\<rparr>"

text \<open>\<open>State{}\<close>\<close>
definition init_state :: state where
  "init_state = \<lparr>metrics = init_metrics, contexts = [], current_context = 0, memory = [],
     memory_tags = [], layout = empty_layout, tensors = [], free_tensor_indices = [],
     total_tensor_elements = 0, floats = [], fractions = [], symbols = [], string_vectors = [],
     printed_output = [], shapes = [], options = [], results = [], enums = [], complexes = [],
     trace = [], axion_log = [], halted = False, gc_cycles = 0, policy_opt = None,
     contradiction_events = 0, heap_frames = [], heap_ptr = 0, meta_ptr = 0, enum_metadata = [],
     enum_metadata_index = (\<lambda>_. None), reflection_snapshots = [], reflection_count = 0,
     meta_write_count = 0, symbolic_graphs = [], total_symbolic_nodes = 0,
     tier4_state = \<lparr>global_tick = 0, inbox = [], outbox = []\<rparr>, infinite_forms = [],
     free_infinite_indices = [], pending_faults = []\<rparr>"

end
