(* ===== verification/T81_Fraction.thy ===== *)
theory T81_Fraction
  imports Complex_Main T81_State
begin

text \<open>
  Exact rationals: \<open>include/t81/fraction.hpp\<close>.  Numerator and denominator are \<open>T81BigInt\<close>s; they
  are modelled by the integers they denote.  \<open>None\<close> is the exception thrown for a zero denominator
  or a division by zero.
\<close>

definition frac_normalize :: "int \<Rightarrow> int \<Rightarrow> fraction option" where
  "frac_normalize n d =
     (if d = 0 then None
      else let (n, d) = (if d < 0 then (- n, - d) else (n, d)) in
        if n = 0 then Some (n, 1)
        else let g = gcd \<bar>n\<bar> d in
          if g \<noteq> 1 then Some (trunc_div n g, trunc_div d g) else Some (n, d))"

definition frac_add :: "fraction \<Rightarrow> fraction \<Rightarrow> fraction option" where
  "frac_add a b = (let ad = fst a * snd b; bc = fst b * snd a
     in frac_normalize (ad + bc) (snd a * snd b))"

definition frac_sub :: "fraction \<Rightarrow> fraction \<Rightarrow> fraction option" where
  "frac_sub a b = (let ad = fst a * snd b; bc = fst b * snd a
     in frac_normalize (ad - bc) (snd a * snd b))"

definition frac_mul :: "fraction \<Rightarrow> fraction \<Rightarrow> fraction option" where
  "frac_mul a b = frac_normalize (fst a * fst b) (snd a * snd b)"

definition frac_div :: "fraction \<Rightarrow> fraction \<Rightarrow> fraction option" where
  "frac_div a b = (if fst b = 0 then None else frac_normalize (fst a * snd b) (snd a * fst b))"

definition frac_neg :: "fraction \<Rightarrow> fraction option" where
  "frac_neg x = frac_normalize (- fst x) (snd x)"

definition frac_cmp :: "fraction \<Rightarrow> fraction \<Rightarrow> int" where
  "frac_cmp a b = (let l = fst a * snd b; r = fst b * snd a
     in if l < r then -1 else if r < l then 1 else 0)"

section \<open>Canonical form and value\<close>

definition frac_canonical :: "fraction \<Rightarrow> bool" where
  "frac_canonical x \<longleftrightarrow> 0 < snd x \<and> gcd (fst x) (snd x) = 1"

definition frac_value :: "fraction \<Rightarrow> rat" where
  "frac_value x = of_int (fst x) / of_int (snd x)"

lemma trunc_div_dvd:
  assumes "g dvd n" "0 < g"
  shows "trunc_div n g = n div g"
proof -
  from assms obtain k where k: "n = g * k" by blast
  have "- (g * k) div g = - k"
    using assms(2) by (metis mult_minus_right nonzero_mult_div_cancel_left less_irrefl)
  with k assms(2) show ?thesis
    by (cases "0 \<le> k") (auto simp: trunc_div_def abs_mult zero_le_mult_iff)
qed

lemma frac_normalize_pos:
  assumes "0 < d" "n \<noteq> 0"
  shows "(if gcd \<bar>n\<bar> d \<noteq> 1 then Some (trunc_div n (gcd \<bar>n\<bar> d), trunc_div d (gcd \<bar>n\<bar> d)) else Some (n, d)) =
    Some (n div gcd n d, d div gcd n d)"
  using assms by (auto simp: trunc_div_dvd gcd_pos_int)

lemma frac_normalize_canonical:
  assumes "d \<noteq> 0"
  obtains x where "frac_normalize n d = Some x" "frac_canonical x"
    "frac_value x = of_int n / of_int d"
proof -
  define m e where "m = (if d < 0 then - n else n)" and "e = \<bar>d\<bar>"
  have e: "0 < e" using assms by (simp add: e_def)
  have v: "of_int m / of_int e = (of_int n / of_int d :: rat)"
    using assms by (auto simp: m_def e_def)
  have eq: "frac_normalize n d = (if m = 0 then Some (m, 1) else Some (m div gcd m e, e div gcd m e))"
    using assms frac_normalize_pos [OF e, of m]
    by (auto simp: frac_normalize_def m_def e_def Let_def split: if_splits)
  show thesis
  proof (cases "m = 0")
    case True
    with eq v that [of "(0, 1)"] show ?thesis by (simp add: frac_canonical_def frac_value_def)
  next
    case False
    let ?g = "gcd m e"
    have g: "0 < ?g" "?g dvd m" "?g dvd e" using e by (simp_all add: gcd_pos_int)
    have c: "frac_canonical (m div ?g, e div ?g)"
      using g e by (simp add: frac_canonical_def div_gcd_coprime pos_imp_zdiv_pos_iff zdvd_imp_le)
    have "of_int (m div ?g) = (of_int m / of_int ?g :: rat)" "of_int (e div ?g) = (of_int e / of_int ?g :: rat)"
      using g by (simp_all add: of_int_div)
    then have "frac_value (m div ?g, e div ?g) = of_int m / of_int e"
      using g by (simp add: frac_value_def)
    with c eq False v that show ?thesis by simp
  qed
qed

lemma frac_ops_value:
  assumes "snd a \<noteq> 0" "snd b \<noteq> 0"
  shows "\<exists>x. frac_add a b = Some x \<and> frac_canonical x \<and> frac_value x = frac_value a + frac_value b"
    "\<exists>x. frac_sub a b = Some x \<and> frac_canonical x \<and> frac_value x = frac_value a - frac_value b"
    "\<exists>x. frac_mul a b = Some x \<and> frac_canonical x \<and> frac_value x = frac_value a * frac_value b"
    "fst b \<noteq> 0 \<Longrightarrow> \<exists>x. frac_div a b = Some x \<and> frac_canonical x \<and> frac_value x = frac_value a / frac_value b"
    "\<exists>x. frac_neg a = Some x \<and> frac_canonical x \<and> frac_value x = - frac_value a"
proof -
  have d: "snd a * snd b \<noteq> 0" using assms by simp
  obtain x where "frac_add a b = Some x" "frac_canonical x"
    "frac_value x = of_int (fst a * snd b + fst b * snd a) / of_int (snd a * snd b)"
    unfolding frac_add_def Let_def by (rule frac_normalize_canonical [OF d])
  with assms show "\<exists>x. frac_add a b = Some x \<and> frac_canonical x \<and> frac_value x = frac_value a + frac_value b"
    by (simp add: frac_value_def add_frac_eq)
  obtain x where "frac_sub a b = Some x" "frac_canonical x"
    "frac_value x = of_int (fst a * snd b - fst b * snd a) / of_int (snd a * snd b)"
    unfolding frac_sub_def Let_def by (rule frac_normalize_canonical [OF d])
  with assms show "\<exists>x. frac_sub a b = Some x \<and> frac_canonical x \<and> frac_value x = frac_value a - frac_value b"
    by (simp add: frac_value_def diff_frac_eq)
  obtain x where "frac_mul a b = Some x" "frac_canonical x"
    "frac_value x = of_int (fst a * fst b) / of_int (snd a * snd b)"
    unfolding frac_mul_def Let_def by (rule frac_normalize_canonical [OF d])
  with assms show "\<exists>x. frac_mul a b = Some x \<and> frac_canonical x \<and> frac_value x = frac_value a * frac_value b"
    by (simp add: frac_value_def)
  obtain x where "frac_neg a = Some x" "frac_canonical x" "frac_value x = of_int (- fst a) / of_int (snd a)"
    unfolding frac_neg_def Let_def by (rule frac_normalize_canonical [OF assms(1)])
  then show "\<exists>x. frac_neg a = Some x \<and> frac_canonical x \<and> frac_value x = - frac_value a"
    by (simp add: frac_value_def)
  assume "fst b \<noteq> 0"
  with assms have d': "snd a * fst b \<noteq> 0" by simp
  obtain x where "frac_normalize (fst a * snd b) (snd a * fst b) = Some x" "frac_canonical x"
    "frac_value x = of_int (fst a * snd b) / of_int (snd a * fst b)"
    by (rule frac_normalize_canonical [OF d'])
  with \<open>fst b \<noteq> 0\<close> show "\<exists>x. frac_div a b = Some x \<and> frac_canonical x \<and> frac_value x = frac_value a / frac_value b"
    by (simp add: frac_div_def frac_value_def)
qed

lemma frac_cmp_value:
  assumes "0 < snd a" "0 < snd b"
  shows "frac_cmp a b = (if frac_value a < frac_value b then -1 else if frac_value b < frac_value a then 1 else 0)"
proof -
  have "frac_value p < frac_value q \<longleftrightarrow> fst p * snd q < fst q * snd p"
    if "0 < snd p" "0 < snd q" for p q
  proof -
    have "frac_value p < frac_value q \<longleftrightarrow>
        (of_int (fst p * snd q) :: rat) < of_int (fst q * snd p)"
      using that by (simp add: frac_value_def divide_simps)
    then show ?thesis by (simp only: of_int_less_iff)
  qed
  from this [OF assms] this [OF assms(2,1)] show ?thesis by (simp add: frac_cmp_def Let_def)
qed

text \<open>Two canonical fractions with the same value are the same.\<close>

lemma frac_canonical_unique:
  assumes "frac_canonical a" "frac_canonical b" "frac_value a = frac_value b"
  shows "a = b"
proof -
  have pos: "0 < snd a" "0 < snd b" and cop: "coprime (fst a) (snd a)" "coprime (fst b) (snd b)"
    using assms by (simp_all add: frac_canonical_def coprime_iff_gcd_eq_1)
  have "(of_int (fst a * snd b) :: rat) = of_int (fst b * snd a)"
    using assms(3) pos by (simp add: frac_value_def divide_simps)
  then have eq: "fst a * snd b = fst b * snd a" by (simp only: of_int_eq_iff)
  then have "snd a dvd snd b" "snd b dvd snd a"
    using cop by (metis coprime_commute coprime_dvd_mult_right_iff dvd_triv_right)+
  with pos have "snd a = snd b" by (simp add: zdvd_antisym_nonneg)
  with eq pos show ?thesis by (simp add: prod_eq_iff)
qed

end
