(* ===== verification/T81_Tables.thy ===== *)
theory T81_Tables
  imports T81_Fraction
begin

text \<open>
  The value tables of the virtual machine and the lambdas of \<open>core/vm/vm.cpp\<close> that work on them:
  handle lookups, interning, the order \<open>compare_value\<close> and the printer \<open>format_value\<close>.  A handle is an
  index plus one.  The interface \<open>intern_table\<close> states what interning promises; it is interpreted on
  the symbol, option, result, enum and complex tables.
\<close>

section \<open>Interning\<close>

fun find_index :: "('a \<Rightarrow> bool) \<Rightarrow> 'a list \<Rightarrow> nat option" where
  "find_index P [] = None"
| "find_index P (x # xs) = (if P x then Some 0 else map_option Suc (find_index P xs))"

definition handle_of_index :: "nat \<Rightarrow> i64" where
  "handle_of_index i = i64_of_size (i + 1)"

text \<open>The shape shared by the \<open>intern_*\<close> lambdas: the handle of the first entry that matches, or of
  the value appended at the end.\<close>

definition intern_by :: "('a \<Rightarrow> 'a \<Rightarrow> bool) \<Rightarrow> 'a list \<Rightarrow> 'a \<Rightarrow> i64 \<times> 'a list" where
  "intern_by same tbl v =
     (case find_index (\<lambda>e. same e v) tbl of
        Some i \<Rightarrow> (handle_of_index i, tbl)
      | None \<Rightarrow> (i64_of_size (length (tbl @ [v])), tbl @ [v]))"

lemma find_index_Some: "find_index P xs = Some i \<Longrightarrow> i < length xs \<and> P (xs ! i) \<and> (\<forall>j < i. \<not> P (xs ! j))"
proof (induction xs arbitrary: i)
  case (Cons x xs)
  then show ?case by (auto simp: nth_Cons split: if_splits nat.splits)
qed simp

lemma find_index_None: "find_index P xs = None \<longleftrightarrow> (\<forall>x \<in> set xs. \<not> P x)"
  by (induction xs) auto

lemma find_index_append:
  "find_index P (xs @ [x]) = (case find_index P xs of Some i \<Rightarrow> Some i
     | None \<Rightarrow> if P x then Some (length xs) else None)"
  by (induction xs) (auto split: option.splits)

lemma handle_get_handle:
  assumes "i < length tbl" "length tbl < 2 ^ 63"
  shows "handle_get tbl (handle_of_index i) = Some (tbl ! i)"
proof -
  from assms have i': "i + 1 < 2 ^ 63" by simp
  then have "int (i + 1) < int (2 ^ 63)" by (simp only: of_nat_less_iff)
  then have i: "int i + 1 < 2 ^ 63" by simp
  have "in_i64 (int i + 1)" using i by (simp add: in_i64_def)
  then have "sint (handle_of_index i) = int i + 1"
    using sint_of_in_i64 [of "int i + 1"] by (simp add: handle_of_index_def i64_of_size_def add.commute)
  moreover have "handle_of_index i - 1 = word_of_nat i"
    by (simp add: handle_of_index_def i64_of_size_def)
  moreover have "unat (word_of_nat i :: i64) = i"
    using i' by (simp add: unsigned_of_nat take_bit_nat_eq_self)
  ultimately show ?thesis using assms(1) by (simp add: handle_get_def size_of_i64_def Let_def)
qed

lemma handle_get_append: "handle_get tbl h = Some w \<Longrightarrow> handle_get (tbl @ xs) h = Some w"
  by (auto simp: handle_get_def Let_def nth_append split: if_splits)

text \<open>What a client of a table relies on; \<open>same\<close> is the identity of entries that the table keeps.\<close>

locale intern_table =
  fixes intern :: "'v list \<Rightarrow> 'v \<Rightarrow> i64 \<times> 'v list"
    and same :: "'v \<Rightarrow> 'v \<Rightarrow> bool"
  assumes same_refl: "same v v"
    and intern_lookup: "intern tbl v = (h, tbl') \<Longrightarrow> length tbl < 2 ^ 63 - 1 \<Longrightarrow>
      \<exists>w. handle_get tbl' h = Some w \<and> same w v"
    and intern_keeps: "intern tbl v = (h, tbl') \<Longrightarrow> handle_get tbl h' = Some w \<Longrightarrow> handle_get tbl' h' = Some w"
    and intern_again: "intern tbl v = (h, tbl') \<Longrightarrow> intern tbl' v = (h, tbl')"
    and intern_grows: "intern tbl v = (h, tbl') \<Longrightarrow> length tbl' \<le> Suc (length tbl)"
begin

text \<open>Interning a list of values one after the other.\<close>

lemma intern_stable:
  assumes "intern tbl v = (h, tbl1)" "intern tbl1 u = (k, tbl2)" "length tbl < 2 ^ 63 - 1"
  shows "\<exists>w. handle_get tbl2 h = Some w \<and> same w v"
  using intern_lookup [OF assms(1,3)] intern_keeps [OF assms(2)] by blast

lemma intern_idem_lookup:
  assumes "intern tbl v = (h, tbl1)" "intern tbl1 v = (k, tbl2)"
  shows "k = h \<and> tbl2 = tbl1"
  using intern_again [OF assms(1)] assms(2) by simp

end

lemma intern_by_lookup:
  assumes "\<And>v. same v v" "intern_by same tbl v = (h, tbl')" "length tbl < 2 ^ 63 - 1"
  shows "\<exists>w. handle_get tbl' h = Some w \<and> same w v"
proof (cases "find_index (\<lambda>e. same e v) tbl")
  case None
  with assms(2) have "h = handle_of_index (length tbl)" "tbl' = tbl @ [v]"
    by (simp_all add: intern_by_def handle_of_index_def)
  with assms handle_get_handle [of "length tbl" tbl'] show ?thesis by (simp add: nth_append)
next
  case (Some j)
  with assms(2) have "h = handle_of_index j" "tbl' = tbl" by (simp_all add: intern_by_def)
  with assms(3) find_index_Some [OF Some] handle_get_handle [of j tbl] show ?thesis by auto
qed

lemma intern_by_keeps:
  "intern_by same tbl v = (h, tbl') \<Longrightarrow> handle_get tbl h' = Some w \<Longrightarrow> handle_get tbl' h' = Some w"
  by (auto simp: intern_by_def handle_get_append split: option.splits)

lemma intern_by_again:
  "same v v \<Longrightarrow> intern_by same tbl v = (h, tbl') \<Longrightarrow> intern_by same tbl' v = (h, tbl')"
  by (auto simp: intern_by_def find_index_append handle_of_index_def split: option.splits)

lemma intern_by_grows: "intern_by same tbl v = (h, tbl') \<Longrightarrow> length tbl' \<le> Suc (length tbl)"
  by (auto simp: intern_by_def split: option.splits)

lemma intern_by_laws: "(\<And>v. same v v) \<Longrightarrow> intern_table (intern_by same) same"
  by (rule intern_table.intro)
    (blast intro: intern_by_lookup intern_by_keeps intern_by_again intern_by_grows)+

text \<open>\<open>intern_symbol\<close>\<close>
definition intern_symbol :: "string list \<Rightarrow> string \<Rightarrow> i64 \<times> string list" where
  "intern_symbol = intern_by (=)"

text \<open>\<open>intern_option\<close>: two empty options are the same whatever their payload fields.\<close>
definition same_option :: "option_value \<Rightarrow> option_value \<Rightarrow> bool" where
  "same_option existing v \<longleftrightarrow> has_value existing = has_value v \<and>
     (\<not> has_value v \<or> opt_payload_tag existing = opt_payload_tag v \<and> opt_payload existing = opt_payload v)"

definition intern_option :: "option_value list \<Rightarrow> option_value \<Rightarrow> i64 \<times> option_value list" where
  "intern_option = intern_by same_option"

definition same_result :: "result_value \<Rightarrow> result_value \<Rightarrow> bool" where
  "same_result existing v \<longleftrightarrow> is_ok existing = is_ok v \<and>
     res_payload_tag existing = res_payload_tag v \<and> res_payload existing = res_payload v"

definition intern_result :: "result_value list \<Rightarrow> result_value \<Rightarrow> i64 \<times> result_value list" where
  "intern_result = intern_by same_result"

definition same_enum :: "enum_value \<Rightarrow> enum_value \<Rightarrow> bool" where
  "same_enum existing v \<longleftrightarrow> variant_id existing = variant_id v \<and> enum_id existing = enum_id v \<and>
     has_payload existing = has_payload v \<and>
     (\<not> has_payload v \<or>
      enum_payload_tag existing = enum_payload_tag v \<and> enum_payload existing = enum_payload v)"

text \<open>\<open>decode_enum_id\<close> of \<open>include/t81/enum_meta.hpp\<close>\<close>
definition decode_enum_id :: "i32 \<Rightarrow> i32" where
  "decode_enum_id encoded = (if sint encoded < 0 then -1 else signed_drop_bit 16 encoded AND 0xFFFF)"

text \<open>A negative variant is not interned: the handle is zero.\<close>
definition intern_enum ::
    "enum_value list \<Rightarrow> i32 \<Rightarrow> bool \<Rightarrow> value_tag \<Rightarrow> i64 \<Rightarrow> i64 \<times> enum_value list" where
  "intern_enum tbl global_variant_id has_pl tag pl =
     (if sint global_variant_id < 0 then (0, tbl)
      else intern_by same_enum tbl \<lparr>variant_id = global_variant_id, has_payload = has_pl,
             enum_payload_tag = tag, enum_payload = pl, enum_id = decode_enum_id global_variant_id\<rparr>)"

definition intern_complex :: "complex_value list \<Rightarrow> complex_value \<Rightarrow> i64 \<times> complex_value list" where
  "intern_complex = intern_by (=)"

interpretation symbol_table: intern_table intern_symbol "(=)"
  unfolding intern_symbol_def by (rule intern_by_laws) simp

interpretation option_table: intern_table intern_option same_option
  unfolding intern_option_def by (rule intern_by_laws) (simp add: same_option_def)

interpretation result_table: intern_table intern_result same_result
  unfolding intern_result_def by (rule intern_by_laws) (simp add: same_result_def)

interpretation enum_table: intern_table "intern_by same_enum" same_enum
  by (rule intern_by_laws) (simp add: same_enum_def)

interpretation complex_table: intern_table intern_complex "(=)"
  unfolding intern_complex_def by (rule intern_by_laws) simp

section \<open>Texts and tokens\<close>

definition runtime_token_text :: "value_tag \<Rightarrow> string option" where
  "runtime_token_text tag =
     (if tag = VT_ProofHandle then Some ''std.sys.proof''
      else if tag = VT_IoStreamHandle then Some ''std.io.stream''
      else if tag = VT_IoNetHandle then Some ''std.io.net''
      else if tag = VT_AsyncThreadHandle then Some ''std.async.thread''
      else if tag = VT_AsyncPromiseHandle then Some ''std.async.promise''
      else None)"

definition symbol_like_text :: "state \<Rightarrow> value_tag \<Rightarrow> i64 \<Rightarrow> string option" where
  "symbol_like_text s tag v =
     (if tag = VT_SymbolHandle then handle_get (symbols s) v else runtime_token_text tag)"

definition runtime_token_tag_from_symbol_handle :: "state \<Rightarrow> i64 \<Rightarrow> value_tag option" where
  "runtime_token_tag_from_symbol_handle s h =
     (case handle_get (symbols s) h of
        None \<Rightarrow> None
      | Some symbol \<Rightarrow>
          if symbol = ''std.sys.proof'' then Some VT_ProofHandle
          else if symbol = ''std.io.stream'' then Some VT_IoStreamHandle
          else if symbol = ''std.io.net'' then Some VT_IoNetHandle
          else if symbol = ''std.async.thread'' then Some VT_AsyncThreadHandle
          else if symbol = ''std.async.promise'' then Some VT_AsyncPromiseHandle
          else None)"

section \<open>Doubles\<close>

text \<open>The order of IEEE-754 binary64 values, on their bit patterns: magnitudes are ordered like the
  63 low bits, both zeros are equal, and a NaN is neither equal to nor less than anything.\<close>

definition f64_is_nan :: "f64 \<Rightarrow> bool" where
  "f64_is_nan x \<longleftrightarrow> take_bit 63 x > 0x7FF0000000000000"

definition f64_key :: "f64 \<Rightarrow> int" where
  "f64_key x = (if bit x 63 then - uint (take_bit 63 x) else uint (take_bit 63 x))"

definition f64_eq :: "f64 \<Rightarrow> f64 \<Rightarrow> bool" where
  "f64_eq x y \<longleftrightarrow> \<not> f64_is_nan x \<and> \<not> f64_is_nan y \<and> f64_key x = f64_key y"

definition f64_less :: "f64 \<Rightarrow> f64 \<Rightarrow> bool" where
  "f64_less x y \<longleftrightarrow> \<not> f64_is_nan x \<and> \<not> f64_is_nan y \<and> f64_key x < f64_key y"

section \<open>The order on values\<close>

definition cmp_i64 :: "i64 \<Rightarrow> i64 \<Rightarrow> int" where
  "cmp_i64 l r = (if l = r then 0 else if sint l < sint r then -1 else 1)"

text \<open>The cases of \<open>compare_value\<close> that do not recurse.\<close>

definition compare_symbols :: "state \<Rightarrow> value_tag \<Rightarrow> string \<Rightarrow> i64 \<Rightarrow> int option" where
  "compare_symbols s tag lt r =
     (case symbol_like_text s tag r of
        None \<Rightarrow> None
      | Some rt \<Rightarrow> Some (if lt = rt then 0 else if str_less lt rt then -1 else 1))"

definition compare_floats :: "f64 \<Rightarrow> f64 \<Rightarrow> int" where
  "compare_floats x y = (if f64_eq x y then 0 else if f64_less x y then -1 else 1)"

definition compare_complex :: "complex_value \<Rightarrow> complex_value \<Rightarrow> int" where
  "compare_complex x y =
     (if cplx_real x = cplx_real y \<and> cplx_imag x = cplx_imag y then 0
      else if cplx_real x = cplx_real y then (if sint (cplx_imag x) < sint (cplx_imag y) then -1 else 1)
      else if sint (cplx_real x) < sint (cplx_real y) then -1 else 1)"

definition compare_entries :: "('a \<Rightarrow> 'a \<Rightarrow> int) \<Rightarrow> 'a list \<Rightarrow> i64 \<Rightarrow> i64 \<Rightarrow> int option" where
  "compare_entries f tbl l r =
     (case handle_get tbl l of None \<Rightarrow> None
      | Some x \<Rightarrow> (case handle_get tbl r of None \<Rightarrow> None | Some y \<Rightarrow> Some (f x y)))"

text \<open>The tags whose values are compared as integers, handles included.\<close>
definition compared_as_int :: "value_tag \<Rightarrow> bool" where
  "compared_as_int tag \<longleftrightarrow>
     tag \<in> {VT_Int, VT_Bool, VT_StringVectorHandle, VT_SymbolicGraphHandle,
            VT_Tier2FrameHandle, VT_InfiniteHandle, VT_TensorHandle, VT_ShapeHandle,
            VT_WeightsTensorHandle, VT_ReflectionHandle, VT_ProofHandle, VT_IoStreamHandle,
            VT_IoNetHandle, VT_AsyncThreadHandle, VT_AsyncPromiseHandle}"

definition compare_leaf :: "state \<Rightarrow> value_tag \<Rightarrow> i64 \<Rightarrow> i64 \<Rightarrow> int option" where
  "compare_leaf s tag l r =
     (case symbol_like_text s tag l of
        Some lt \<Rightarrow> compare_symbols s tag lt r
      | None \<Rightarrow>
          if tag = VT_FloatHandle then compare_entries compare_floats (floats s) l r
          else if tag = VT_FractionHandle then compare_entries frac_cmp (fractions s) l r
          else if tag = VT_ComplexHandle then compare_entries compare_complex (complexes s) l r
          else if compared_as_int tag then Some (cmp_i64 l r)
          else None)"

text \<open>
  \<open>compare_value\<close> follows the payloads of options and results.  The recursion has no bound in the
  code; \<open>fuel\<close> counts its calls, and \<open>None\<close> means that they did not suffice.  The inner option is
  the result of the code.
\<close>

fun compare_value :: "nat \<Rightarrow> state \<Rightarrow> value_tag \<Rightarrow> i64 \<Rightarrow> i64 \<Rightarrow> int option option" where
  "compare_value 0 s tag l r = None"
| "compare_value (Suc fuel) s tag l r =
     (if tag = VT_OptionHandle then
        case handle_get (options s) l of None \<Rightarrow> Some None | Some x \<Rightarrow>
        case handle_get (options s) r of None \<Rightarrow> Some None | Some y \<Rightarrow>
          if has_value x \<noteq> has_value y then Some (Some (if has_value x then 1 else -1))
          else if \<not> has_value x then Some (Some 0)
          else if opt_payload_tag x \<noteq> opt_payload_tag y then Some None
          else compare_value fuel s (opt_payload_tag x) (opt_payload x) (opt_payload y)
      else if tag = VT_ResultHandle then
        case handle_get (results s) l of None \<Rightarrow> Some None | Some x \<Rightarrow>
        case handle_get (results s) r of None \<Rightarrow> Some None | Some y \<Rightarrow>
          if is_ok x \<noteq> is_ok y then Some (Some (if is_ok x then 1 else -1))
          else if res_payload_tag x \<noteq> res_payload_tag y then Some None
          else compare_value fuel s (res_payload_tag x) (res_payload x) (res_payload y)
      else Some (compare_leaf s tag l r))"

declare compare_value.simps [simp del]

text \<open>
  The fuel given by the handlers.  A chain of payloads longer than the two tables visits an entry
  twice, so the recursion of the code would not end.
\<close>
definition compare_fuel :: "state \<Rightarrow> nat" where
  "compare_fuel s = length (options s) + length (results s) + 1"

section \<open>The printer\<close>

text \<open>\<open>operator<<\<close> of a double in the classic locale with 17 significant digits (the \<open>%.17g\<close> of C).\<close>

definition round_half_even :: "nat \<Rightarrow> nat \<Rightarrow> nat" where
  "round_half_even a b =
     (let q = a div b; r = a mod b in if 2 * r > b \<or> 2 * r = b \<and> odd q then q + 1 else q)"

fun strip_zeros :: "string \<Rightarrow> string" where
  "strip_zeros [] = []"
| "strip_zeros (c # cs) = (let t = strip_zeros cs in if t = [] \<and> c = CHR ''0'' then [] else c # t)"

text \<open>The least \<open>k\<close> up to \<open>fuel\<close> with \<open>b \<le> a * 10 ^ k\<close>; 400 exceeds the exponent of every double.\<close>
fun leading_zeros :: "nat \<Rightarrow> nat \<Rightarrow> nat \<Rightarrow> nat" where
  "leading_zeros 0 a b = 0"
| "leading_zeros (Suc fuel) a b = (if b \<le> a then 0 else Suc (leading_zeros fuel (10 * a) b))"

definition decimal_exponent :: "nat \<Rightarrow> nat \<Rightarrow> int" where
  "decimal_exponent a b =
     (if b \<le> a then int (length (show_nat (a div b))) - 1 else - int (leading_zeros 400 a b))"

definition scale10 :: "nat \<Rightarrow> nat \<Rightarrow> int \<Rightarrow> nat" where
  "scale10 a b e = (if 0 \<le> e then round_half_even (a * 10 ^ nat e) b
     else round_half_even a (b * 10 ^ nat (- e)))"

definition show_exponent :: "int \<Rightarrow> string" where
  "show_exponent x = (let d = show_nat (nat \<bar>x\<bar>) in
     (if x < 0 then ''e-'' else ''e+'') @ (if length d < 2 then CHR ''0'' # d else d))"

text \<open>The positive rational \<open>a / b\<close>.\<close>
definition show_positive17 :: "nat \<Rightarrow> nat \<Rightarrow> string" where
  "show_positive17 a b =
     (let x0 = decimal_exponent a b;
          d0 = scale10 a b (16 - x0);
          (x, d) = (if d0 = 10 ^ 17 then (x0 + 1, 10 ^ 16) else (x0, d0));
          ds = show_nat d;
          with_point = (\<lambda>whole frac. if strip_zeros frac = [] then whole
                          else whole @ ''.'' @ strip_zeros frac)
      in if -4 \<le> x \<and> x < 17 then
           if 0 \<le> x then with_point (take (nat x + 1) ds) (drop (nat x + 1) ds)
           else with_point ''0'' (replicate (nat (- x) - 1) (CHR ''0'') @ ds)
         else with_point (take 1 ds) (drop 1 ds) @ show_exponent x)"

definition show_f64 :: "f64 \<Rightarrow> string" where
  "show_f64 w =
     (let sign = (if bit w 63 then ''-'' else []);
          e = unat (drop_bit 52 (take_bit 63 w));
          m = unat (take_bit 52 w)
      in if e = 2047 then sign @ (if m = 0 then ''inf'' else ''nan'')
         else if e = 0 \<and> m = 0 then sign @ ''0''
         else let (n, k) = (if e = 0 then (m, 1074 :: int) else (m + 2 ^ 52, 1075 - int e)) in
           sign @ show_positive17 (n * 2 ^ nat (- k)) (2 ^ nat k))"

text \<open>\<open>format_value\<close>; the depth counts up to 8, here \<open>fuel\<close> is \<open>9 - depth\<close>.\<close>

definition angle :: "string \<Rightarrow> i64 \<Rightarrow> string" where
  "angle name v = ''<'' @ name @ ''#'' @ show_sint v @ ''>''"

fun format_value :: "nat \<Rightarrow> state \<Rightarrow> value_tag \<Rightarrow> i64 \<Rightarrow> string option" where
  "format_value 0 s tag v = None"
| "format_value (Suc fuel) s tag v =
     (case symbol_like_text s tag v of
        Some t \<Rightarrow> Some t
      | None \<Rightarrow>
          if tag = VT_Int then Some (show_sint v)
          else if tag = VT_Bool then Some (if v \<noteq> 0 then ''true'' else ''false'')
          else if tag = VT_FloatHandle then
            (case handle_get (floats s) v of
               None \<Rightarrow> None
             | Some x \<Rightarrow> Some (show_f64 (if f64_eq x 0 then 0 else x) @ ''t81''))
          else if tag = VT_FractionHandle then
            (case handle_get (fractions s) v of
               None \<Rightarrow> None
             | Some x \<Rightarrow> Some (show_int (fst x) @ ''/'' @ show_int (snd x) @ ''t81''))
          else if tag = VT_StringVectorHandle then
            (case handle_get (string_vectors s) v of
               None \<Rightarrow> None | Some _ \<Rightarrow> Some (angle ''strvec'' v))
          else if tag = VT_SymbolicGraphHandle then Some (angle ''graph'' v)
          else if tag = VT_Tier2FrameHandle then Some (angle ''tier2_frame'' v)
          else if tag = VT_InfiniteHandle then Some (angle ''infinite'' v)
          else if tag = VT_TensorHandle then Some (angle ''tensor'' v)
          else if tag = VT_ShapeHandle then Some (angle ''shape'' v)
          else if tag = VT_WeightsTensorHandle then Some (angle ''weights'' v)
          else if tag = VT_ReflectionHandle then Some (angle ''reflection'' v)
          else if tag = VT_ComplexHandle then
            (case handle_get (complexes s) v of
               None \<Rightarrow> None
             | Some c \<Rightarrow> Some (''<complex('' @ show_sint (cplx_real c) @ '','' @
                 show_sint (cplx_imag c) @ '')>''))
          else if tag = VT_OptionHandle then
            (case handle_get (options s) v of
               None \<Rightarrow> None
             | Some x \<Rightarrow>
                 if \<not> has_value x then Some ''None''
                 else map_option (\<lambda>p. ''Some('' @ p @ '')'')
                        (format_value fuel s (opt_payload_tag x) (opt_payload x)))
          else if tag = VT_ResultHandle then
            (case handle_get (results s) v of
               None \<Rightarrow> None
             | Some x \<Rightarrow> map_option (\<lambda>p. (if is_ok x then ''Ok('' else ''Err('') @ p @ '')'')
                   (format_value fuel s (res_payload_tag x) (res_payload x)))
          else if tag = VT_EnumHandle then
            (case handle_get (enums s) v of
               None \<Rightarrow> None
             | Some x \<Rightarrow>
                 if \<not> has_payload x then Some (''<enum#'' @ show_sint (variant_id x) @ ''>'')
                 else map_option (\<lambda>p. ''<enum#'' @ show_sint (variant_id x) @ ''('' @ p @ '')>'')
                        (format_value fuel s (enum_payload_tag x) (enum_payload x)))
          else None)"

declare format_value.simps [simp del]

section \<open>Facts about the order\<close>

lemma handle_get_SomeE:
  assumes "handle_get tbl h = Some w"
  obtains i where "i < length tbl" "h = handle_of_index i" "w = tbl ! i"
proof -
  let ?i = "size_of_i64 (h - 1)"
  from assms have "?i < length tbl" "w = tbl ! ?i"
    by (auto simp: handle_get_def Let_def split: if_splits)
  moreover have "h = handle_of_index ?i"
    by (simp add: handle_of_index_def i64_of_size_def size_of_i64_def)
  ultimately show thesis using that by blast
qed

text \<open>The payload of a filled option or of a result.\<close>

definition compared_payload :: "state \<Rightarrow> value_tag \<times> i64 \<Rightarrow> (value_tag \<times> i64) option" where
  "compared_payload s tv = (case tv of (tag, h) \<Rightarrow>
     if tag = VT_OptionHandle then
       (case handle_get (options s) h of
          Some x \<Rightarrow> if has_value x then Some (opt_payload_tag x, opt_payload x) else None | None \<Rightarrow> None)
     else if tag = VT_ResultHandle then
       (case handle_get (results s) h of
          Some x \<Rightarrow> Some (res_payload_tag x, res_payload x) | None \<Rightarrow> None)
     else None)"

text \<open>The tables are acyclic: some ranking decreases from every value to its payload.\<close>

definition ranked :: "state \<Rightarrow> (value_tag \<times> i64 \<Rightarrow> nat) \<Rightarrow> bool" where
  "ranked s rank \<longleftrightarrow> (\<forall>tv tw. compared_payload s tv = Some tw \<longrightarrow> rank tw < rank tv)"

definition value_nodes :: "state \<Rightarrow> (value_tag \<times> i64) set" where
  "value_nodes s = (\<lambda>i. (VT_OptionHandle, handle_of_index i)) ` {..<length (options s)} \<union>
     (\<lambda>i. (VT_ResultHandle, handle_of_index i)) ` {..<length (results s)}"

lemma finite_value_nodes [simp]: "finite (value_nodes s)"
  by (simp add: value_nodes_def)

lemma card_value_nodes: "card (value_nodes s) \<le> length (options s) + length (results s)"
  unfolding value_nodes_def
  by (rule order.trans [OF card_Un_le], intro add_mono; rule order.trans [OF card_image_le]; simp)

lemma compared_payload_node: "compared_payload s tv = Some tw \<Longrightarrow> tv \<in> value_nodes s"
  by (cases tv)
    (auto simp: compared_payload_def value_nodes_def split: if_splits option.splits
      elim!: handle_get_SomeE)

text \<open>A call that does not return at once continues with the payload.\<close>

lemma compare_value_cases:
  "compare_value (Suc fuel) s tag l r \<noteq> None \<or>
   (\<exists>t v w. compared_payload s (tag, l) = Some (t, v) \<and>
      compare_value (Suc fuel) s tag l r = compare_value fuel s t v w)"
  unfolding compare_value.simps
  by (cases "tag = VT_OptionHandle"; cases "tag = VT_ResultHandle")
    (auto simp: compared_payload_def split: option.split)

lemma compare_value_ranked:
  assumes "ranked s rank"
  shows "card {n \<in> value_nodes s. rank n \<le> rank (tag, l)} < fuel \<Longrightarrow> compare_value fuel s tag l r \<noteq> None"
proof (induction fuel arbitrary: tag l r)
  case (Suc fuel)
  consider "compare_value (Suc fuel) s tag l r \<noteq> None"
    | t v w where "compared_payload s (tag, l) = Some (t, v)"
      "compare_value (Suc fuel) s tag l r = compare_value fuel s t v w"
    using compare_value_cases by blast
  then show ?case
  proof cases
    case 2
    let ?below = "\<lambda>tv. {n \<in> value_nodes s. rank n \<le> rank tv}"
    from 2(1) assms have less: "rank (t, v) < rank (tag, l)" by (auto simp: ranked_def)
    have "?below (t, v) \<subset> ?below (tag, l)"
    proof (rule psubsetI)
      show "?below (t, v) \<subseteq> ?below (tag, l)" using less by auto
      have "(tag, l) \<in> ?below (tag, l)" "(tag, l) \<notin> ?below (t, v)"
        using less compared_payload_node [OF 2(1)] by auto
      then show "?below (t, v) \<noteq> ?below (tag, l)" by blast
    qed
    then have "card (?below (t, v)) < card (?below (tag, l))" by (intro psubset_card_mono) auto
    with Suc.prems have "card (?below (t, v)) < fuel" by simp
    from Suc.IH [OF this] 2(2) show ?thesis by simp
  qed
qed simp

lemma compare_value_fuel_enough:
  assumes "ranked s rank"
  shows "compare_value (compare_fuel s) s tag l r \<noteq> None"
proof (rule compare_value_ranked [OF assms])
  have "card {n \<in> value_nodes s. rank n \<le> rank (tag, l)} \<le> card (value_nodes s)"
    by (intro card_mono) auto
  with card_value_nodes [of s] show "card {n \<in> value_nodes s. rank n \<le> rank (tag, l)} < compare_fuel s"
    by (simp add: compare_fuel_def)
qed

lemma sint_inject: "sint l = sint r \<longleftrightarrow> l = (r :: i64)"
  by (auto intro: signed_word_eqI)

lemma cmp_i64_swap: "cmp_i64 r l = - cmp_i64 l r"
  by (auto simp: cmp_i64_def simp flip: sint_inject)

lemma compare_floats_swap:
  "\<not> f64_is_nan x \<Longrightarrow> \<not> f64_is_nan y \<Longrightarrow> compare_floats y x = - compare_floats x y"
  by (auto simp: compare_floats_def f64_eq_def f64_less_def)

lemma compare_complex_swap: "compare_complex y x = - compare_complex x y"
  unfolding compare_complex_def sint_inject [symmetric] by simp

lemma frac_cmp_swap: "frac_cmp y x = - frac_cmp x y"
  by (auto simp: frac_cmp_def Let_def)

lemma handle_get_in_set: "handle_get tbl h = Some w \<Longrightarrow> w \<in> set tbl"
  by (auto elim!: handle_get_SomeE)

lemma compare_entries_swap:
  assumes "\<And>x y. x \<in> set tbl \<Longrightarrow> y \<in> set tbl \<Longrightarrow> f y x = - f x y"
    "compare_entries f tbl l r = Some k"
  shows "compare_entries f tbl r l = Some (- k)"
  using assms by (auto simp: compare_entries_def dest!: handle_get_in_set split: option.splits)

lemma symbol_like_text_tag:
  "symbol_like_text s tag l = Some lt \<Longrightarrow> symbol_like_text s tag r = None \<Longrightarrow> tag = VT_SymbolHandle"
  by (auto simp: symbol_like_text_def runtime_token_text_def split: if_splits)

lemma compare_symbols_swap:
  assumes "symbol_like_text s tag l = Some lt" "compare_symbols s tag lt r = Some k"
  obtains rt where "symbol_like_text s tag r = Some rt" "compare_symbols s tag rt l = Some (- k)"
proof -
  from assms(2) obtain rt where rt: "symbol_like_text s tag r = Some rt"
    and k: "k = (if lt = rt then 0 else if str_less lt rt then -1 else 1)"
    by (auto simp: compare_symbols_def split: option.splits)
  have "compare_symbols s tag rt l = Some (- k)"
    using str_less_total [of lt rt] str_less_trans [of lt rt lt] assms(1)
    by (auto simp: compare_symbols_def k)
  with rt show thesis by (rule that)
qed

lemma compare_leaf_swap:
  assumes "\<forall>x \<in> set (floats s). \<not> f64_is_nan x" "compare_leaf s tag l r = Some k"
  shows "compare_leaf s tag r l = Some (- k)"
proof (cases "symbol_like_text s tag l")
  case (Some lt)
  with assms(2) have "compare_symbols s tag lt r = Some k" by (simp add: compare_leaf_def)
  with Some obtain rt where "symbol_like_text s tag r = Some rt" "compare_symbols s tag rt l = Some (- k)"
    by (rule compare_symbols_swap)
  then show ?thesis by (simp add: compare_leaf_def)
next
  case None
  show ?thesis
  proof (cases "symbol_like_text s tag r")
    case (Some rt)
    then have "tag = VT_SymbolHandle" using None by (rule symbol_like_text_tag)
    moreover have "\<not> compared_as_int VT_SymbolHandle" by (simp add: compared_as_int_def)
    ultimately show ?thesis using None assms(2) by (simp add: compare_leaf_def)
  next
    case r: None
    consider "tag = VT_FloatHandle" | "tag = VT_FractionHandle" | "tag = VT_ComplexHandle"
      | "tag \<noteq> VT_FloatHandle" "tag \<noteq> VT_FractionHandle" "tag \<noteq> VT_ComplexHandle" by blast
    then show ?thesis
    proof cases
      case 1
      have "compare_entries compare_floats (floats s) r l = Some (- k)"
        by (rule compare_entries_swap [OF compare_floats_swap])
          (use assms 1 None in \<open>auto simp: compare_leaf_def\<close>)
      with 1 r show ?thesis by (simp add: compare_leaf_def)
    next
      case 2
      have "compare_entries frac_cmp (fractions s) r l = Some (- k)"
        by (rule compare_entries_swap [OF frac_cmp_swap]) (use assms 2 None in \<open>simp add: compare_leaf_def\<close>)
      with 2 r show ?thesis by (simp add: compare_leaf_def)
    next
      case 3
      have "compare_entries compare_complex (complexes s) r l = Some (- k)"
        by (rule compare_entries_swap [OF compare_complex_swap]) (use assms 3 None in \<open>simp add: compare_leaf_def\<close>)
      with 3 r show ?thesis by (simp add: compare_leaf_def)
    next
      case 4
      with None r have "compare_leaf s tag l r = (if compared_as_int tag then Some (cmp_i64 l r) else None)"
        "compare_leaf s tag r l = (if compared_as_int tag then Some (cmp_i64 r l) else None)"
        by (simp_all add: compare_leaf_def)
      with assms(2) cmp_i64_swap [of r l] show ?thesis by (simp split: if_splits)
    qed
  qed
qed

text \<open>The order is antisymmetric on tables without NaN: exchanging the operands negates the result.\<close>

lemma compare_value_swap:
  assumes "\<forall>x \<in> set (floats s). \<not> f64_is_nan x"
  shows "compare_value fuel s tag l r = Some (Some k) \<Longrightarrow> compare_value fuel s tag r l = Some (Some (- k))"
proof (induction fuel arbitrary: tag l r)
  case (Suc fuel)
  then show ?case
    using compare_leaf_swap [OF assms, of tag l r]
    by (auto simp: compare_value.simps split: if_split_asm option.split_asm)
qed (simp add: compare_value.simps)

end
