(* ===== verification/T81_Segments.thy ===== *)
theory T81_Segments
  imports T81_State
begin

text \<open>
  Address checks and the machine stack: \<open>core/vm/memory_segments.cpp\<close>.  The context \<open>ctx\<close> is
  passed beside the state, as in the code; writing it back into \<open>contexts\<close> is left to the caller.
  The interface \<open>word_stack\<close> states what a client of the stack may rely on, and is interpreted on
  \<open>push_stack_word\<close> and \<open>pop_stack_word\<close>.
\<close>

section \<open>Address checks\<close>

definition mem_ok :: "state \<Rightarrow> i32 \<Rightarrow> bool \<Rightarrow> bool" where
  "mem_ok s addr code_segment \<longleftrightarrow>
     (if sint addr < 0 then False
      else let a = size_of_i32 addr; l = layout s in
        if code_segment then seg_start (code_seg l) \<le> a \<and> a \<le> seg_limit (code_seg l)
        else if length (memory s) \<le> a then False
        else seg_contains (stack_seg l) a \<or> seg_contains (heap_seg l) a \<or>
             seg_contains (tensor_seg l) a \<or> seg_contains (meta_seg l) a)"

definition segment_for_address :: "state \<Rightarrow> nat \<Rightarrow> segment_kind" where
  "segment_for_address s addr =
     (let l = layout s in
      if seg_contains (stack_seg l) addr then Seg_Stack
      else if seg_contains (heap_seg l) addr then Seg_Heap
      else if seg_contains (tensor_seg l) addr then Seg_Tensor
      else if seg_contains (meta_seg l) addr then Seg_Meta
      else Seg_Unknown)"

definition align_block81 :: "nat \<Rightarrow> nat" where
  "align_block81 sz = (if sz mod 81 \<noteq> 0 then (sz div 81 + 1) * 81 else sz)"

text \<open>The segments are disjoint and follow each other, as \<open>load_program\<close> lays them out.\<close>

definition layout_ok :: "memory_layout \<Rightarrow> bool" where
  "layout_ok l \<longleftrightarrow>
     seg_start (code_seg l) \<le> seg_limit (code_seg l) \<and>
     seg_limit (code_seg l) = seg_start (stack_seg l) \<and>
     seg_start (stack_seg l) \<le> seg_limit (stack_seg l) \<and>
     seg_limit (stack_seg l) = seg_start (heap_seg l) \<and>
     seg_start (heap_seg l) \<le> seg_limit (heap_seg l) \<and>
     seg_limit (heap_seg l) = seg_start (tensor_seg l) \<and>
     seg_start (tensor_seg l) \<le> seg_limit (tensor_seg l) \<and>
     seg_limit (tensor_seg l) = seg_start (meta_seg l) \<and>
     seg_start (meta_seg l) \<le> seg_limit (meta_seg l)"

lemma size_of_i32_nonneg:
  assumes "0 \<le> sint (addr :: i32)"
  shows "size_of_i32 addr = nat (sint addr)"
proof -
  have "0 \<le> sint addr" "sint addr < 2 ^ 64"
    using assms sint_i32_range(2) [of addr] by simp_all
  then have "take_bit 64 (sint addr) = sint addr"
    by (rule take_bit_int_eq_self)
  moreover have "uint (scast addr :: u64) = take_bit 64 (sint addr)"
    by (simp only: scast_eq uint_word_of_int_eq) simp
  ultimately show ?thesis
    by (simp only: size_of_i32_def unat_eq_nat_uint)
qed

lemma mem_ok_in_memory: "mem_ok s addr False \<Longrightarrow> size_of_i32 addr < length (memory s)"
  by (simp add: mem_ok_def Let_def split: if_splits)

lemma segment_for_address_unique:
  assumes "layout_ok (layout s)"
  shows "segment_for_address s a = Seg_Stack \<longleftrightarrow> seg_contains (stack_seg (layout s)) a"
    "segment_for_address s a = Seg_Heap \<longleftrightarrow> seg_contains (heap_seg (layout s)) a"
    "segment_for_address s a = Seg_Tensor \<longleftrightarrow> seg_contains (tensor_seg (layout s)) a"
    "segment_for_address s a = Seg_Meta \<longleftrightarrow> seg_contains (meta_seg (layout s)) a"
  using assms
  by (auto simp: segment_for_address_def layout_ok_def seg_contains_def Let_def)

lemma align_block81_mult: "81 dvd align_block81 n"
  by (simp add: align_block81_def mod_eq_0_iff_dvd)

lemma align_block81_ge: "n \<le> align_block81 n"
  and align_block81_less: "align_block81 n < n + 81"
proof -
  have d: "n = 81 * (n div 81) + n mod 81" "n mod 81 < 81" by simp_all
  show "n \<le> align_block81 n"
    unfolding align_block81_def using d by presburger
  show "align_block81 n < n + 81"
    unfolding align_block81_def using d by presburger
qed

lemma align_block81_idem: "align_block81 (align_block81 n) = align_block81 n"
  using align_block81_mult [of n] by (simp add: align_block81_def dvd_eq_mod_eq_0)

section \<open>The stack\<close>

text \<open>The inner option is the returned address.\<close>

definition push_stack_word ::
    "state \<Rightarrow> thread_ctx \<Rightarrow> i64 \<Rightarrow> value_tag \<Rightarrow> (nat option \<times> state \<times> thread_ctx) option" where
  "push_stack_word s ctx value tag =
     (if sp ctx \<le> stack_limit ctx then Some (None, s, ctx)
      else let new_sp = sp ctx - 1 in
        if (case policy_opt s of None \<Rightarrow> False
            | Some p \<Rightarrow> (case max_stack p of None \<Rightarrow> False
                | Some m \<Rightarrow> sint (i64_of_size (size_sub (stack_base ctx) new_sp)) > sint m))
        then Some (None, s, ctx)
        else do {
          mem \<leftarrow> arr_set (memory s) new_sp value;
          tags \<leftarrow> arr_set (memory_tags s) new_sp tag;
          Some (Some new_sp, s\<lparr>memory := mem, memory_tags := tags\<rparr>, ctx\<lparr>sp := new_sp\<rparr>)
        })"

definition pop_stack_word ::
    "state \<Rightarrow> thread_ctx \<Rightarrow> ((nat \<times> i64 \<times> value_tag) option \<times> thread_ctx) option" where
  "pop_stack_word s ctx =
     (if stack_base ctx \<le> sp ctx then Some (None, ctx)
      else let addr = sp ctx in do {
        value \<leftarrow> arr_get (memory s) addr;
        tag \<leftarrow> arr_get (memory_tags s) addr;
        Some (Some (addr, value, tag), ctx\<lparr>sp := sp ctx + 1\<rparr>)
      })"

text \<open>The stack pointer moves inside a region of the memory, and each cell has a tag.\<close>

definition stack_ok :: "state \<Rightarrow> thread_ctx \<Rightarrow> bool" where
  "stack_ok s ctx \<longleftrightarrow> stack_limit ctx \<le> sp ctx \<and> sp ctx \<le> stack_base ctx \<and>
     stack_base ctx \<le> length (memory s) \<and> length (memory_tags s) = length (memory s)"

text \<open>The words on the stack, the top first.\<close>

definition stack_words :: "state \<Rightarrow> thread_ctx \<Rightarrow> (i64 \<times> value_tag) list" where
  "stack_words s ctx = map (\<lambda>i. (memory s ! i, memory_tags s ! i)) [sp ctx ..< stack_base ctx]"

lemma push_stack_word_defined: "stack_ok s ctx \<Longrightarrow> push_stack_word s ctx v t \<noteq> None"
  by (auto simp: push_stack_word_def stack_ok_def Let_def)

lemma pop_stack_word_defined: "stack_ok s ctx \<Longrightarrow> pop_stack_word s ctx \<noteq> None"
  by (auto simp: pop_stack_word_def stack_ok_def Let_def)

lemma push_stack_word_Some:
  assumes "push_stack_word s ctx v t = Some (Some a, s', ctx')"
  shows "a = sp ctx - 1" "stack_limit ctx < sp ctx" "a < length (memory s)"
    "s' = s\<lparr>memory := (memory s)[a := v], memory_tags := (memory_tags s)[a := t]\<rparr>"
    "ctx' = ctx\<lparr>sp := a\<rparr>"
  using assms
  by (auto simp: push_stack_word_def Let_def arr_set_eq_Some
      split: if_splits option.splits bind_splits)

lemma push_stack_word_None:
  "push_stack_word s ctx v t = Some (None, s', ctx') \<Longrightarrow> s' = s \<and> ctx' = ctx"
  by (auto simp: push_stack_word_def Let_def split: if_splits option.splits bind_splits)

lemma pop_stack_word_Some:
  assumes "pop_stack_word s ctx = Some (Some (a, v, t), ctx')"
  shows "a = sp ctx" "sp ctx < stack_base ctx" "v = memory s ! a" "t = memory_tags s ! a"
    "ctx' = ctx\<lparr>sp := sp ctx + 1\<rparr>"
  using assms
  by (auto simp: pop_stack_word_def Let_def arr_get_eq_Some split: if_splits bind_splits)

text \<open>Pushing a list of words and popping a number of them, for any push and pop.\<close>

fun push_all :: "('w \<Rightarrow> 'c \<Rightarrow> 'c option) \<Rightarrow> 'w list \<Rightarrow> 'c \<Rightarrow> 'c option" where
  "push_all psh [] c = Some c"
| "push_all psh (w # ws) c = do { c' \<leftarrow> psh w c; push_all psh ws c' }"

fun pop_all :: "('c \<Rightarrow> ('w \<times> 'c) option) \<Rightarrow> nat \<Rightarrow> 'c \<Rightarrow> ('w list \<times> 'c) option" where
  "pop_all pp 0 c = Some ([], c)"
| "pop_all pp (Suc n) c = do { (w, c1) \<leftarrow> pp c; (ws, c2) \<leftarrow> pop_all pp n c1; Some (w # ws, c2) }"

text \<open>
  The contract of a machine stack, over an abstract configuration: the words it holds, a push
  that either refuses or adds its word on top, and a pop that returns the top word exactly when
  there is one.
\<close>

locale word_stack =
  fixes stk_ok :: "'c \<Rightarrow> bool"
    and words :: "'c \<Rightarrow> 'w list"
    and push :: "'w \<Rightarrow> 'c \<Rightarrow> 'c option"
    and pop :: "'c \<Rightarrow> ('w \<times> 'c) option"
  assumes push_ok: "stk_ok c \<Longrightarrow> push w c = Some c' \<Longrightarrow> stk_ok c'"
    and push_words: "stk_ok c \<Longrightarrow> push w c = Some c' \<Longrightarrow> words c' = w # words c"
    and pop_ok: "stk_ok c \<Longrightarrow> pop c = Some (w, c') \<Longrightarrow> stk_ok c'"
    and pop_words: "stk_ok c \<Longrightarrow> pop c = Some (w, c') \<Longrightarrow> words c = w # words c'"
    and pop_empty: "stk_ok c \<Longrightarrow> pop c = None \<longleftrightarrow> words c = []"
begin

lemma pop_after_push:
  assumes "stk_ok c" "push w c = Some c1"
  obtains c2 where "pop c1 = Some (w, c2)" "words c2 = words c" "stk_ok c2"
proof -
  have ok: "stk_ok c1" and ws: "words c1 = w # words c"
    using assms by (rule push_ok, rule push_words)
  then obtain w' c2 where p: "pop c1 = Some (w', c2)" using pop_empty [OF ok] by fastforce
  with ws pop_words [OF ok p] pop_ok [OF ok p] that show thesis by simp
qed

lemma push_all_words:
  "stk_ok c \<Longrightarrow> push_all push ws c = Some c' \<Longrightarrow> stk_ok c' \<and> words c' = rev ws @ words c"
proof (induction ws arbitrary: c)
  case (Cons w ws)
  then obtain c1 where p: "push w c = Some c1" and r: "push_all push ws c1 = Some c'"
    by (auto split: bind_splits)
  from Cons.IH [OF push_ok [OF Cons.prems(1) p] r] push_words [OF Cons.prems(1) p]
  show ?case by simp
qed simp

lemma pop_all_words:
  "stk_ok c \<Longrightarrow> n \<le> length (words c) \<Longrightarrow>
     \<exists>c'. pop_all pop n c = Some (take n (words c), c') \<and> stk_ok c' \<and> words c' = drop n (words c)"
proof (induction n arbitrary: c)
  case (Suc n)
  then have "words c \<noteq> []" by auto
  with pop_empty Suc.prems obtain w c1 where p: "pop c = Some (w, c1)" by fastforce
  have w: "words c = w # words c1" by (rule pop_words [OF Suc.prems(1) p])
  with Suc.IH [OF pop_ok [OF Suc.prems(1) p]] Suc.prems obtain c' where
    "pop_all pop n c1 = Some (take n (words c1), c')" "stk_ok c'" "words c' = drop n (words c1)"
    by auto
  with p w show ?case by auto
qed simp

lemma pop_all_push_all:
  assumes "stk_ok c" "push_all push ws c = Some c1"
  shows "\<exists>c2. pop_all pop (length ws) c1 = Some (rev ws, c2) \<and> stk_ok c2 \<and> words c2 = words c"
  using pop_all_words [of c1 "length ws"] push_all_words [OF assms] by simp

end

text \<open>A configuration of the interpretation is the state with the context that owns the stack.\<close>

definition vm_push :: "i64 \<times> value_tag \<Rightarrow> state \<times> thread_ctx \<Rightarrow> (state \<times> thread_ctx) option" where
  "vm_push w c = (case push_stack_word (fst c) (snd c) (fst w) (snd w) of
      Some (Some a, s', ctx') \<Rightarrow> Some (s', ctx') | _ \<Rightarrow> None)"

definition vm_pop :: "state \<times> thread_ctx \<Rightarrow> ((i64 \<times> value_tag) \<times> (state \<times> thread_ctx)) option" where
  "vm_pop c = (case pop_stack_word (fst c) (snd c) of
      Some (Some (a, v, t), ctx') \<Rightarrow> Some ((v, t), (fst c, ctx')) | _ \<Rightarrow> None)"

lemma vm_push_eq_Some:
  "vm_push w c = Some c' \<longleftrightarrow>
     (\<exists>a. push_stack_word (fst c) (snd c) (fst w) (snd w) = Some (Some a, fst c', snd c'))"
  by (cases c') (auto simp: vm_push_def split: option.splits)

lemma vm_pop_eq_Some:
  "vm_pop c = Some (w, c') \<longleftrightarrow>
     (\<exists>a. pop_stack_word (fst c) (snd c) = Some (Some (a, fst w, snd w), snd c') \<and> fst c' = fst c)"
  by (cases c'; cases w) (auto simp: vm_pop_def split: option.splits)

lemma push_stack_ok:
  "stack_ok s ctx \<Longrightarrow> push_stack_word s ctx v t = Some (Some a, s', ctx') \<Longrightarrow> stack_ok s' ctx'"
  by (frule push_stack_word_Some(1), frule push_stack_word_Some(2), frule push_stack_word_Some(4),
      drule push_stack_word_Some(5)) (auto simp: stack_ok_def)

lemma pop_stack_ok:
  "stack_ok s ctx \<Longrightarrow> pop_stack_word s ctx = Some (Some (a, v, t), ctx') \<Longrightarrow> stack_ok s ctx'"
  by (frule pop_stack_word_Some(2), drule pop_stack_word_Some(5)) (auto simp: stack_ok_def)

lemma push_stack_words:
  assumes "stack_ok s ctx" "push_stack_word s ctx v t = Some (Some a, s', ctx')"
  shows "stack_words s' ctx' = (v, t) # stack_words s ctx"
proof -
  note p = push_stack_word_Some [OF assms(2)]
  from p assms(1) have a: "Suc a = sp ctx" "a < stack_base ctx" "stack_base ctx \<le> length (memory s)"
    "length (memory_tags s) = length (memory s)" by (auto simp: stack_ok_def)
  then have "[sp ctx' ..< stack_base ctx'] = a # [sp ctx ..< stack_base ctx]"
    using p(5) by (simp add: upt_conv_Cons)
  moreover have "map (\<lambda>i. (memory s' ! i, memory_tags s' ! i)) [sp ctx ..< stack_base ctx] =
      stack_words s ctx"
    unfolding stack_words_def using p(4) a by (auto intro!: map_cong)
  ultimately show ?thesis using p(3,4) a by (simp add: stack_words_def)
qed

lemma pop_stack_words:
  assumes "pop_stack_word s ctx = Some (Some (a, v, t), ctx')"
  shows "stack_words s ctx = (v, t) # stack_words s ctx'"
  using pop_stack_word_Some [OF assms] by (simp add: stack_words_def upt_conv_Cons)

lemma pop_stack_empty:
  "stack_ok s ctx \<Longrightarrow> (\<exists>r. pop_stack_word s ctx = Some (None, r)) \<longleftrightarrow> stack_words s ctx = []"
  by (auto simp: pop_stack_word_def stack_words_def stack_ok_def Let_def)

interpretation machine_stack: word_stack "\<lambda>c. stack_ok (fst c) (snd c)"
  "\<lambda>c. stack_words (fst c) (snd c)" vm_push vm_pop
proof unfold_locales
  fix c :: "state \<times> thread_ctx"
  assume ok: "stack_ok (fst c) (snd c)"
  show "vm_pop c = None \<longleftrightarrow> stack_words (fst c) (snd c) = []"
    using pop_stack_word_defined [OF ok] pop_stack_empty [OF ok]
    by (auto simp: vm_pop_def split: option.splits)
qed (auto simp: vm_push_eq_Some vm_pop_eq_Some push_stack_words
       dest: push_stack_ok pop_stack_ok pop_stack_words)

text \<open>
  C-independent statement of the round trip on the model: pushing words and then popping as many
  returns them in reverse order and leaves the words that were below.
\<close>

lemma push_all_pop_all:
  assumes "stack_ok s ctx" "push_all vm_push ws (s, ctx) = Some (s1, ctx1)"
  shows "\<exists>s2 ctx2. pop_all vm_pop (length ws) (s1, ctx1) = Some (rev ws, (s2, ctx2)) \<and>
     stack_words s2 ctx2 = stack_words s ctx \<and> stack_ok s2 ctx2"
  using machine_stack.pop_all_push_all [of "(s, ctx)" ws "(s1, ctx1)"] assms by auto

end
