(* ===== verification/Properties_Data.thy ===== *)
theory Properties_Data
  imports T81_Isa T81_Values T81_Fraction T81_Tables T81_Segments
begin

text \<open>
  Properties of the data layer: the binary encoding of programs, the integer and trit primitives,
  exact fractions, the interned tables and the order on tagged values, and the machine stack.
\<close>

section \<open>The binary encoding\<close>

text \<open>Decoding is exact: a byte string decodes precisely when its length is a multiple of the
  13-byte record and every record starts with a valid opcode byte; the program then holds the
  instruction of each record, in order.  Otherwise the error is \<open>Truncated\<close> for a bad length and
  \<open>InvalidOpcode\<close> for a bad byte.\<close>
theorem decode_exact:
  "decode bytes =
     (if length bytes mod kInsnSize \<noteq> 0 then Inl Truncated
      else let offsets = map (\<lambda>k. k * kInsnSize) [0 ..< length bytes div kInsnSize]
      in if list_all (\<lambda>off. is_valid_opcode (bytes ! off)) offsets
         then Inr (empty_program\<lparr>insns := map (decode_insn bytes) offsets\<rparr>)
         else Inl InvalidOpcode)"
proof (cases "length bytes mod kInsnSize = 0")
  case False
  then show ?thesis by (simp add: decode_truncated)
next
  case True
  let ?n = "length bytes div kInsnSize"
  show ?thesis
  proof (cases "decode_loop bytes 0 ?n")
    case (Inl e)
    with decode_loop_InvalidOpcode [OF Inl] True show ?thesis
      by (auto simp: decode_def list_all_iff Let_def)
  next
    case (Inr "is")
    note v = decode_loop_valid [OF Inr]
    then have "is = map (decode_insn bytes) (map (\<lambda>k. k * kInsnSize) [0 ..< ?n])"
      by (intro nth_equalityI) simp_all
    with v True Inr show ?thesis by (auto simp: decode_def list_all_iff Let_def)
  qed
qed

text \<open>C12: Round trip: a program whose instructions have valid opcodes, no literal kind and middle
  operands that fit in 32 bits is decoded back from its encoding, instruction by instruction.\<close>
theorem encode_decode_roundtrip:
  assumes "list_all encodable (insns p)"
  shows "decode (encode p) = Inr (empty_program\<lparr>insns := insns p\<rparr>)"
  by (rule decode_encode [OF assms])

theorem encode_decode_roundtrip_witness:
  "decode (encode (empty_program\<lparr>insns := [default_insn\<lparr>opcode := Op_LoadImm, op_a := 3, op_b := - 5\<rparr>,
      default_insn\<lparr>opcode := Op_Halt\<rparr>]\<rparr>)) =
   Inr (empty_program\<lparr>insns := [default_insn\<lparr>opcode := Op_LoadImm, op_a := 3, op_b := - 5\<rparr>,
      default_insn\<lparr>opcode := Op_Halt\<rparr>]\<rparr>)"
  using encode_decode_roundtrip [of "empty_program\<lparr>insns := [default_insn\<lparr>opcode := Op_LoadImm,
      op_a := 3, op_b := - 5\<rparr>, default_insn\<lparr>opcode := Op_Halt\<rparr>]\<rparr>"]
  by (simp add: encodable_def is_valid_opcode_iff default_insn_def i64_of_i32_def i32_of_i64_def)

section \<open>Integers, trits and fractions\<close>

text \<open>Division and remainder of two registers: outside division by zero, which is reported, and
  \<open>INT64_MIN / -1\<close>, the only undefined case, the quotient and remainder exist, satisfy Euclid's
  equation, and the remainder is smaller than the divisor and takes the sign of the dividend.\<close>
theorem div_mod_int_exact:
  assumes "b \<noteq> 0" "\<not> (sint a = - (2 ^ 63) \<and> sint b = - 1)"
  shows "\<exists>q r. div_int a b = Some (Some q) \<and> mod_int a b = Some (Some r) \<and>
    sint a = sint b * sint q + sint r \<and> \<bar>sint r\<bar> < \<bar>sint b\<bar> \<and> 0 \<le> sint a * sint r"
proof -
  from assms obtain q r where q: "div_int a b = Some (Some q)" and r: "mod_int a b = Some (Some r)"
    using div_int_ub_iff [of a b] mod_int_ub_iff [of a b]
    by (cases "div_int a b"; cases "mod_int a b") (auto simp: div_int_def mod_int_def split: if_splits)
  from r assms(1) have rem: "sint r = trunc_mod (sint a) (sint b)"
    by (auto simp: mod_int_def sint_of_in_i64 trunc_mod_in_i64 split: if_splits)
  have "0 \<le> sint a * sint r" unfolding rem by (rule trunc_mod_sign)
  with q r div_mod_int_euclid [OF q r] show ?thesis by blast
qed

theorem div_mod_int_exact_witness:
  "\<exists>q r. div_int (- 7) 2 = Some (Some q) \<and> mod_int (- 7) 2 = Some (Some r) \<and>
    sint (- 7 :: i64) = sint (2 :: i64) * sint q + sint r \<and> \<bar>sint r\<bar> < \<bar>sint (2 :: i64)\<bar> \<and>
    0 \<le> sint (- 7 :: i64) * sint r"
  by (rule div_mod_int_exact [of 2 "- 7"]) simp_all

text \<open>The ternary instructions implement Kleene's logic on the signs of their operands: \<open>TAnd\<close> and
  \<open>TOr\<close> are De Morgan duals, \<open>TXor\<close> is subtraction modulo three, and all of them return trits.\<close>
theorem trit_logic_exact:
  "trit_not (trit_and (clamp_trit x) (clamp_trit y)) = trit_or (trit_not (clamp_trit x)) (trit_not (clamp_trit y)) \<and>
   (trit_xor (clamp_trit x) (clamp_trit y) - (sgn (sint x) - sgn (sint y))) mod 3 = 0 \<and>
   list_all is_trit [trit_not (clamp_trit x), trit_and (clamp_trit x) (clamp_trit y),
     trit_or (clamp_trit x) (clamp_trit y), trit_xor (clamp_trit x) (clamp_trit y)]"
  using trit_xor_mod3 [of "clamp_trit x" "clamp_trit y"] trit_closed [of "clamp_trit x" "clamp_trit y"]
  by (simp add: trit_de_morgan clamp_trit_sgn [symmetric])



section \<open>Tables and values\<close>

text \<open>Interning a list of strings, one after the other.\<close>
definition intern_symbols :: "string list \<Rightarrow> string list \<Rightarrow> string list" where
  "intern_symbols vs tbl = fold (\<lambda>v t. snd (intern_symbol t v)) vs tbl"

lemma intern_symbol_extends: "intern_symbol tbl v = (h, tbl') \<Longrightarrow> \<exists>ext. tbl' = tbl @ ext"
  by (auto simp: intern_symbol_def intern_by_def split: option.splits)

lemma intern_symbols_extends: "\<exists>ext. intern_symbols vs tbl = tbl @ ext"
proof (induction vs arbitrary: tbl)
  case (Cons v vs)
  obtain h tbl1 where i: "intern_symbol tbl v = (h, tbl1)" by (cases "intern_symbol tbl v") auto
  from intern_symbol_extends [OF i] Cons.IH [of tbl1] i show ?case by (auto simp: intern_symbols_def)
qed (simp add: intern_symbols_def)

lemma find_index_found: "find_index P xs = Some i \<Longrightarrow> find_index P (xs @ ys) = Some i"
  by (induction xs arbitrary: i) (auto split: if_splits option.splits)

lemma intern_symbol_append:
  assumes "intern_symbol tbl w = (h, tbl1)"
  shows "intern_symbol (tbl1 @ ext) w = (h, tbl1 @ ext)"
  using symbol_table.intern_again [OF assms] find_index_found [of "\<lambda>e. e = w" tbl1 _ ext]
  by (auto simp: intern_symbol_def intern_by_def split: option.splits)

text \<open>Interned symbols: the handle of a string denotes it and keeps denoting it however many
  strings are interned afterwards; interning an equal string again returns the same handle and
  leaves the table as it is.\<close>
theorem intern_symbol_stable:
  assumes "intern_symbol tbl w = (h, tbl1)" "length tbl < 2 ^ 63 - 1"
  shows "(handle_get (intern_symbols vs tbl1) h = Some w) \<and>
    (intern_symbol (intern_symbols vs tbl1) w = (h, intern_symbols vs tbl1))"
proof -
  obtain ext where ext: "intern_symbols vs tbl1 = tbl1 @ ext" using intern_symbols_extends by blast
  from symbol_table.intern_lookup [OF assms] have "handle_get tbl1 h = Some w" by auto
  then have r1: "handle_get (intern_symbols vs tbl1) h = Some w" by (simp add: ext handle_get_append)
  have r2: "intern_symbol (intern_symbols vs tbl1) w = (h, intern_symbols vs tbl1)"
    unfolding ext by (rule intern_symbol_append [OF assms(1)])
  from r1 r2 show ?thesis by blast
qed

theorem intern_symbol_stable_witness:
  "handle_get (intern_symbols [''b'', ''c''] [''x'', ''a'']) 2 = Some ''a''"
  using intern_symbol_stable [of "[''x'']" "''a''" 2 "[''x'', ''a'']" "[''b'', ''c'']"]
  by (simp add: intern_symbol_def intern_by_def handle_of_index_def i64_of_size_def)

text \<open>C11: The comparison of two values of the same kind always returns on acyclic option and result
  tables, and on tables without NaN it is antisymmetric: exchanging the operands negates the answer,
  so that exactly one of less, equal and greater holds.\<close>
theorem compare_value_total_order:
  assumes "ranked s rank" "list_all (\<lambda>x. \<not> f64_is_nan x) (floats s)"
  shows "(compare_value (compare_fuel s) s tag l r \<noteq> None) \<and>
    (compare_value (compare_fuel s) s tag l r = Some (Some k) \<longleftrightarrow>
     compare_value (compare_fuel s) s tag r l = Some (Some (- k)))"
proof -
  have r1: "compare_value (compare_fuel s) s tag l r \<noteq> None"
    by (rule compare_value_fuel_enough [OF assms(1)])
  have nan: "\<forall>x \<in> set (floats s). \<not> f64_is_nan x" using assms(2) by (simp add: list_all_iff)
  have r2: "compare_value (compare_fuel s) s tag l r = Some (Some k) \<longleftrightarrow>
      compare_value (compare_fuel s) s tag r l = Some (Some (- k))"
    using compare_value_swap [OF nan, of "compare_fuel s" tag l r k]
      compare_value_swap [OF nan, of "compare_fuel s" tag r l "- k"] by auto
  from r1 r2 show ?thesis by blast
qed

theorem compare_value_total_order_witness:
  "compare_value (compare_fuel (init_state\<lparr>symbols := [''b'', ''a'']\<rparr>)) (init_state\<lparr>symbols := [''b'', ''a'']\<rparr>)
     VT_SymbolHandle 2 1 \<noteq> None"
  using compare_value_total_order [of "init_state\<lparr>symbols := [''b'', ''a'']\<rparr>" "\<lambda>_. 0" VT_SymbolHandle 2 1]
  by (auto simp: ranked_def compared_payload_def init_state_def handle_get_def Let_def
      split: if_splits prod.splits)

section \<open>The machine stack\<close>

text \<open>Push and pop are last-in first-out: whatever is pushed comes back in reverse order with its
  tags, and the words that were on the stack before are untouched.\<close>
theorem stack_lifo:
  assumes "stack_ok s ctx" "push_all vm_push ws (s, ctx) = Some (s1, ctx1)"
  shows "\<exists>s2 ctx2. pop_all vm_pop (length ws) (s1, ctx1) = Some (rev ws, (s2, ctx2)) \<and>
     stack_words s2 ctx2 = stack_words s ctx \<and> stack_ok s2 ctx2"
  using machine_stack.pop_all_push_all [of "(s, ctx)" ws "(s1, ctx1)"] assms by auto

definition demo_stack_state :: state where
  "demo_stack_state = init_state\<lparr>memory := replicate 4 0, memory_tags := replicate 4 VT_Int\<rparr>"

definition demo_stack_ctx :: thread_ctx where
  "demo_stack_ctx = init_ctx\<lparr>sp := 4, stack_base := 4, stack_limit := 0\<rparr>"

theorem stack_lifo_witness:
  "\<exists>s1 ctx1 s2 ctx2. push_all vm_push [(7, VT_Int), (1, VT_Bool)] (demo_stack_state, demo_stack_ctx) = Some (s1, ctx1) \<and>
     pop_all vm_pop 2 (s1, ctx1) = Some ([(1, VT_Bool), (7, VT_Int)], (s2, ctx2))"
proof -
  let ?r = "push_all vm_push [(7, VT_Int), (1, VT_Bool)] (demo_stack_state, demo_stack_ctx)"
  obtain s1 ctx1 where p: "?r = Some (s1, ctx1)"
    by (simp add: vm_push_def push_stack_word_def demo_stack_state_def demo_stack_ctx_def init_state_def
        init_ctx_def arr_set_def eval_nat_numeral Let_def)
  have "stack_ok demo_stack_state demo_stack_ctx"
    by (simp add: stack_ok_def demo_stack_state_def demo_stack_ctx_def)
  from stack_lifo [OF this p] p show ?thesis
    by (auto simp: numeral_2_eq_2 simp del: pop_all.simps push_all.simps)
qed

end
