(* ===== verification/T81_Policy.thy ===== *)
theory T81_Policy
  imports T81_State
begin

text \<open>
  The Axion policy language: the lexer and recursive-descent parser \<open>parse_policy\<close> of
  \<open>include/t81/axion/policy.hpp\<close>.  The state of the lexer is the text it has not read.
  A parse error is \<open>Inl (Parse_error msg)\<close>; \<open>Inl Std_exception\<close> is the exception that
  \<open>std::stoll\<close> throws for an integer token without digits or outside \<open>std::int64_t\<close>, which no
  caller in the virtual machine catches.  The loops terminate because each token but the last one
  consumes text.
\<close>

section \<open>Character classes of the C locale\<close>

definition isdigit :: "char \<Rightarrow> bool" where
  "isdigit c \<longleftrightarrow> 48 \<le> (of_char c :: nat) \<and> (of_char c :: nat) \<le> 57"

definition isalpha :: "char \<Rightarrow> bool" where
  "isalpha c \<longleftrightarrow> 65 \<le> (of_char c :: nat) \<and> (of_char c :: nat) \<le> 90 \<or>
     97 \<le> (of_char c :: nat) \<and> (of_char c :: nat) \<le> 122"

definition isalnum :: "char \<Rightarrow> bool" where
  "isalnum c \<longleftrightarrow> isalpha c \<or> isdigit c"

definition isspace :: "char \<Rightarrow> bool" where
  "isspace c \<longleftrightarrow> (of_char c :: nat) = 32 \<or> 9 \<le> (of_char c :: nat) \<and> (of_char c :: nat) \<le> 13"

section \<open>Errors\<close>

datatype parse_failure = Parse_error string | Std_exception

definition err_bind :: "'e + 'a \<Rightarrow> ('a \<Rightarrow> 'e + 'b) \<Rightarrow> 'e + 'b" where
  "err_bind r f = (case r of Inl e \<Rightarrow> Inl e | Inr x \<Rightarrow> f x)"

lemma err_bind_simps [simp]:
  "err_bind (Inl e) f = Inl e"
  "err_bind (Inr x) f = f x"
  by (simp_all add: err_bind_def)

lemma err_bind_cong [fundef_cong]:
  "r = r' \<Longrightarrow> (\<And>x. r' = Inr x \<Longrightarrow> f x = g x) \<Longrightarrow> err_bind r f = err_bind r' g"
  by (cases r') simp_all

lemma err_bind_eq_Inr:
  "err_bind r f = Inr y \<longleftrightarrow> (\<exists>x. r = Inr x \<and> f x = Inr y)"
  by (cases r) simp_all

section \<open>Lexer\<close>

datatype policy_token =
    LParen | RParen | LBracket | RBracket
  | Integer_tok string i64 | Symbol_tok string | String_tok string | End_tok

definition token_text :: "policy_token \<Rightarrow> string" where
  "token_text t = (case t of Integer_tok s _ \<Rightarrow> s | Symbol_tok s \<Rightarrow> s | String_tok s \<Rightarrow> s | _ \<Rightarrow> [])"

definition digits_value :: "string \<Rightarrow> int" where
  "digits_value ds = foldl (\<lambda>n c. 10 * n + (int (of_char c) - 48)) 0 ds"

text \<open>\<open>std::stoll\<close> on an optional sign followed by digits.\<close>
definition stoll :: "string \<Rightarrow> parse_failure + i64" where
  "stoll s =
     (let (neg, ds) = (case s of [] \<Rightarrow> (False, [])
            | c # cs \<Rightarrow> if c = CHR ''-'' then (True, cs) else if c = CHR ''+'' then (False, cs)
                        else (False, s));
          v = (if neg then - digits_value ds else digits_value ds)
      in if ds = [] then Inl Std_exception
         else if in_i64 v then Inr (word_of_int v) else Inl Std_exception)"

definition lex_next :: "string \<Rightarrow> parse_failure + (policy_token \<times> string)" where
  "lex_next src =
     (case dropWhile isspace src of
        [] \<Rightarrow> Inr (End_tok, [])
      | c # rest \<Rightarrow>
          if c = CHR ''('' then Inr (LParen, rest)
          else if c = CHR '')'' then Inr (RParen, rest)
          else if c = CHR ''['' then Inr (LBracket, rest)
          else if c = CHR '']'' then Inr (RBracket, rest)
          else if isdigit c \<or> c = CHR ''-'' \<or> c = CHR ''+'' then
            let text = c # takeWhile isdigit rest
            in err_bind (stoll text) (\<lambda>v. Inr (Integer_tok text v, dropWhile isdigit rest))
          else if c = CHR 0x22 then
            let text = takeWhile (\<lambda>ch. ch \<noteq> CHR 0x22) rest;
                after = dropWhile (\<lambda>ch. ch \<noteq> CHR 0x22) rest
            in Inr (String_tok text, case after of [] \<Rightarrow> [] | q # cs \<Rightarrow> cs)
          else if isalpha c \<or> c = CHR ''-'' \<or> c = CHR ''_'' then
            let word = (\<lambda>ch. isalnum ch \<or> ch = CHR ''-'' \<or> ch = CHR ''_'')
            in Inr (Symbol_tok (c # takeWhile word rest), dropWhile word rest)
          else Inr (End_tok, []))"

lemma length_dropWhile_less: "dropWhile p xs = y # ys \<Longrightarrow> length ys < length xs"
  using length_dropWhile_le [of p xs] by simp

text \<open>What follows the first character of a token is no longer than what followed that character.\<close>

lemma drop_quote_le: "length (case dropWhile p cs of [] \<Rightarrow> [] | q # z \<Rightarrow> z) \<le> length cs"
  using length_dropWhile_less [of p cs] by (auto split: list.split intro: less_imp_le)

lemma lex_next_cases:
  assumes "lex_next src = Inr (t, rest)"
  shows "t = End_tok \<and> rest = [] \<or> length rest < length src"
proof (cases "dropWhile isspace src")
  case Nil
  with assms show ?thesis by (simp add: lex_next_def)
next
  case (Cons c cs)
  then have m: "length cs < length src" by (rule length_dropWhile_less)
  have d: "length (dropWhile p cs) < length src" for p
    using length_dropWhile_le m by (rule le_less_trans)
  have q: "length (case dropWhile p cs of [] \<Rightarrow> [] | q # z \<Rightarrow> z) < length src" for p
    using drop_quote_le m by (rule le_less_trans)
  note l = assms [unfolded lex_next_def Cons list.case Let_def]
  consider "rest = cs" | p where "rest = dropWhile p cs"
    | p where "rest = (case dropWhile p cs of [] \<Rightarrow> [] | q # z \<Rightarrow> z)" | "t = End_tok" "rest = []"
    using l by (simp only: err_bind_eq_Inr sum.inject prod.inject split: if_split_asm) blast+
  then show ?thesis using m d q by cases simp_all
qed

lemma lex_next_shorter: "lex_next src = Inr (t, rest) \<Longrightarrow> t \<noteq> End_tok \<Longrightarrow> length rest < length src"
  by (drule lex_next_cases) simp

lemma lex_next_le: "lex_next src = Inr (t, rest) \<Longrightarrow> length rest \<le> length src"
  by (drule lex_next_cases) auto

section \<open>Clauses with fields\<close>

text \<open>
  The shape shared by \<open>loop\<close> and the \<open>require-*\<close> clauses: a list of parenthesised fields, each a
  symbol and one value, up to the closing parenthesis.  \<open>set_field\<close> is what the clause does with
  one field; the strings are its error messages.
\<close>

function parse_fields ::
    "string \<Rightarrow> string \<Rightarrow> string \<Rightarrow> string \<Rightarrow> (string \<Rightarrow> policy_token \<Rightarrow> 'r \<Rightarrow> parse_failure + 'r) \<Rightarrow>
     'r \<Rightarrow> string \<Rightarrow> parse_failure + ('r \<times> string)" where
  "parse_fields open_msg symbol_msg end_msg close_msg set_field req src =
     err_bind (lex_next src) (\<lambda>(field_open, s1).
       if field_open = RParen then Inr (req, s1)
       else if field_open \<noteq> LParen then Inl (Parse_error open_msg)
       else err_bind (lex_next s1) (\<lambda>(field, s2).
         case field of
           Symbol_tok name \<Rightarrow>
             err_bind (lex_next s2) (\<lambda>(val, s3).
               if val = End_tok then Inl (Parse_error end_msg)
               else err_bind (set_field name val req) (\<lambda>req'.
                 err_bind (lex_next s3) (\<lambda>(field_close, s4).
                   if field_close \<noteq> RParen then Inl (Parse_error close_msg)
                   else parse_fields open_msg symbol_msg end_msg close_msg set_field req' s4)))
         | _ \<Rightarrow> Inl (Parse_error symbol_msg)))"
  by pat_completeness auto
termination
proof (relation "measure (\<lambda>(_, _, _, _, _, _, src). length src)", goal_cases)
  case 1
  then show ?case by simp
next
  case prems: (2 om sm em cm sf req src x t1 s1 y t2 s2 name z t3 s3 req' w t4 s4)
  have "length s4 < length s3" "length s3 \<le> length s2" "length s2 \<le> length s1" "length s1 < length src"
    using prems lex_next_shorter lex_next_le by (metis policy_token.distinct)+
  then show ?case by simp
qed

declare parse_fields.simps [simp del]

definition is_name :: "policy_token \<Rightarrow> bool" where
  "is_name t = (case t of Symbol_tok _ \<Rightarrow> True | String_tok _ \<Rightarrow> True | _ \<Rightarrow> False)"

definition perr :: "string \<Rightarrow> parse_failure + 'a" where
  "perr msg = Inl (Parse_error msg)"

definition set_loop_field :: "string \<Rightarrow> policy_token \<Rightarrow> loop_hint \<Rightarrow> parse_failure + loop_hint" where
  "set_loop_field name val hint =
     (if name = ''id'' then
        (case val of Integer_tok _ v \<Rightarrow> Inr (hint\<lparr>loop_id := i32_of_i64 v\<rparr>)
         | _ \<Rightarrow> perr ''loop id requires integer'')
      else if name = ''file'' then
        (if is_name val then Inr (hint\<lparr>loop_file := token_text val\<rparr>)
         else perr ''loop file requires symbol or string'')
      else if name = ''line'' then
        (case val of Integer_tok _ v \<Rightarrow> Inr (hint\<lparr>loop_line := i32_of_i64 v\<rparr>)
         | _ \<Rightarrow> perr ''loop line requires integer'')
      else if name = ''column'' then
        (case val of Integer_tok _ v \<Rightarrow> Inr (hint\<lparr>loop_column := i32_of_i64 v\<rparr>)
         | _ \<Rightarrow> perr ''loop column requires integer'')
      else if name = ''annotated'' then
        (if is_name val then Inr (hint\<lparr>loop_annotated := (token_text val = ''true'')\<rparr>)
         else perr ''loop annotated requires symbol or string'')
      else if name = ''depth'' then
        (case val of Integer_tok _ v \<Rightarrow> Inr (hint\<lparr>loop_depth := i32_of_i64 v\<rparr>)
         | _ \<Rightarrow> perr ''loop depth requires integer'')
      else if name = ''bound'' then
        (case val of
           Symbol_tok t \<Rightarrow> if t = ''infinite'' then Inr (hint\<lparr>bound_infinite := True\<rparr>)
                          else perr ''loop bound must be 'infinite' or integer''
         | Integer_tok _ v \<Rightarrow> Inr (hint\<lparr>bound_value := Some v\<rparr>)
         | _ \<Rightarrow> perr ''loop bound must be 'infinite' or integer'')
      else Inr hint)"

definition set_match_guard_field ::
    "string \<Rightarrow> policy_token \<Rightarrow> match_guard_req \<Rightarrow> parse_failure + match_guard_req" where
  "set_match_guard_field name val req =
     (if name = ''enum'' then
        (if is_name val then Inr (req\<lparr>mg_enum_name := token_text val\<rparr>)
         else perr ''match guard enum requires symbol or string'')
      else if name = ''variant'' then
        (if is_name val then Inr (req\<lparr>mg_variant_name := token_text val\<rparr>)
         else perr ''match guard variant requires symbol or string'')
      else if name = ''payload'' then
        (if is_name val then Inr (req\<lparr>mg_payload := Some (token_text val)\<rparr>)
         else perr ''match guard payload requires symbol or string'')
      else if name = ''result'' then
        (if is_name val then Inr (req\<lparr>mg_result := token_text val\<rparr>)
         else perr ''match guard result requires symbol or string'')
      else perr ''unknown match guard field'')"

definition set_segment_field ::
    "string \<Rightarrow> policy_token \<Rightarrow> segment_event_req \<Rightarrow> parse_failure + segment_event_req" where
  "set_segment_field name val req =
     (if name = ''segment'' then
        (if is_name val then Inr (req\<lparr>sr_segment := token_text val\<rparr>)
         else perr ''segment requires symbol or string'')
      else if name = ''action'' then
        (if is_name val then Inr (req\<lparr>sr_action := token_text val\<rparr>)
         else perr ''action requires symbol or string'')
      else if name = ''addr'' then
        (case val of Integer_tok _ v \<Rightarrow> Inr (req\<lparr>sr_addr := Some v\<rparr>)
         | _ \<Rightarrow> perr ''segment addr requires integer'')
      else perr ''unknown segment field'')"

definition set_axion_event_field :: "string \<Rightarrow> policy_token \<Rightarrow> string \<Rightarrow> parse_failure + string" where
  "set_axion_event_field name val reason =
     (if name = ''reason'' then
        (if is_name val then Inr (token_text val)
         else perr ''axion event reason requires symbol or string'')
      else perr ''unknown axion event field'')"

definition set_alignment_field :: "string \<Rightarrow> policy_token \<Rightarrow> string \<Rightarrow> parse_failure + string" where
  "set_alignment_field name val reason =
     (if name = ''reason'' then
        (if is_name val then Inr (token_text val)
         else perr ''alignment reason requires symbol or string'')
      else perr ''unknown alignment field'')"

section \<open>The parser\<close>

definition close_paren :: "string \<Rightarrow> parse_failure + string" where
  "close_paren src = err_bind (lex_next src) (\<lambda>(tok, rest).
     if tok \<noteq> RParen then perr (''expected ')'' @ [CHR 0x27]) else Inr rest)"

text \<open>The clauses with one integer: \<open>tier\<close> and the \<open>max-*\<close> limits.\<close>

definition integer_clause ::
    "string \<Rightarrow> (i64 \<Rightarrow> policy \<Rightarrow> policy) \<Rightarrow> policy \<Rightarrow> string \<Rightarrow> parse_failure + (policy \<times> string)" where
  "integer_clause key assign p src =
     err_bind (lex_next src) (\<lambda>(val, s1).
       case val of
         Integer_tok _ v \<Rightarrow> err_bind (close_paren s1) (\<lambda>s2. Inr (assign v p, s2))
       | _ \<Rightarrow> perr (key @ '' requires integer''))"

function parse_hashes :: "string list \<Rightarrow> string \<Rightarrow> parse_failure + (string list \<times> string)" where
  "parse_hashes hashes src =
     err_bind (lex_next src) (\<lambda>(val, s1).
       case val of
         RBracket \<Rightarrow> Inr (hashes, s1)
       | End_tok \<Rightarrow> perr ''unterminated allowed-tensor-hashes list''
       | String_tok text \<Rightarrow> parse_hashes (hashes @ [text]) s1
       | _ \<Rightarrow> perr ''allowed-tensor-hashes requires string literals'')"
  by pat_completeness auto
termination
  by (relation "measure (\<lambda>(_, src). length src)") (auto dest: lex_next_shorter)

declare parse_hashes.simps [simp del]

definition hashes_clause :: "policy \<Rightarrow> string \<Rightarrow> parse_failure + (policy \<times> string)" where
  "hashes_clause p src =
     err_bind (lex_next src) (\<lambda>(bracket, s1).
       if bracket \<noteq> LBracket then perr (''allowed-tensor-hashes requires '['' @ [CHR 0x27])
       else err_bind (parse_hashes (allowed_tensor_hashes p) s1) (\<lambda>(hashes, s2).
         err_bind (close_paren s2) (\<lambda>s3. Inr (p\<lparr>allowed_tensor_hashes := hashes\<rparr>, s3))))"

definition default_loop_hint :: loop_hint where
  "default_loop_hint = \<lparr>loop_id = 0, loop_file = [], loop_line = 0, loop_column = 0,
     loop_annotated = False, loop_depth = 0, bound_infinite = False, bound_value = None\<rparr>"

definition loop_clause :: "policy \<Rightarrow> string \<Rightarrow> parse_failure + (policy \<times> string)" where
  "loop_clause p src =
     err_bind (parse_fields ''expected '(' before loop field'' ''expected loop field symbol''
       ''unterminated loop clause'' ''expected ')' after loop field'' set_loop_field
       default_loop_hint src) (\<lambda>(hint, rest). Inr (p\<lparr>pol_loops := pol_loops p @ [hint]\<rparr>, rest))"

definition match_guard_clause :: "policy \<Rightarrow> string \<Rightarrow> parse_failure + (policy \<times> string)" where
  "match_guard_clause p src =
     err_bind (parse_fields ''expected '(' before match guard field''
       ''expected match guard field symbol'' ''unterminated match guard clause''
       ''expected ')' after match guard field'' set_match_guard_field
       \<lparr>mg_enum_name = [], mg_variant_name = [], mg_payload = None, mg_result = ''pass''\<rparr> src)
       (\<lambda>(req, rest).
         if mg_enum_name req = [] \<or> mg_variant_name req = []
         then perr ''match guard requires enum and variant names''
         else Inr (p\<lparr>match_guards := match_guards p @ [req]\<rparr>, rest))"

definition segment_clause :: "policy \<Rightarrow> string \<Rightarrow> parse_failure + (policy \<times> string)" where
  "segment_clause p src =
     err_bind (parse_fields ''expected '(' before segment field'' ''expected segment field symbol''
       ''unterminated segment clause'' ''expected ')' after segment field'' set_segment_field
       \<lparr>sr_segment = [], sr_action = [], sr_addr = None\<rparr> src)
       (\<lambda>(req, rest).
         if sr_segment req = [] \<or> sr_action req = []
         then perr ''segment event requires segment and action''
         else Inr (p\<lparr>segment_requirements := segment_requirements p @ [req]\<rparr>, rest))"

definition axion_event_clause :: "policy \<Rightarrow> string \<Rightarrow> parse_failure + (policy \<times> string)" where
  "axion_event_clause p src =
     err_bind (parse_fields ''expected '(' before axion event field''
       ''expected axion event field symbol'' ''unterminated axion event clause''
       ''expected ')' after axion event field'' set_axion_event_field [] src)
       (\<lambda>(reason, rest).
         if reason = [] then perr ''axion event requires reason''
         else Inr (p\<lparr>axion_event_requirements := axion_event_requirements p @ [reason]\<rparr>, rest))"

definition alignment_clause :: "policy \<Rightarrow> string \<Rightarrow> parse_failure + (policy \<times> string)" where
  "alignment_clause p src =
     err_bind (parse_fields ''expected '(' before alignment field''
       ''expected alignment field symbol'' ''unterminated alignment clause''
       ''expected ')' after alignment field'' set_alignment_field [] src)
       (\<lambda>(reason, rest).
         if reason = [] then perr ''alignment requires reason''
         else Inr (p\<lparr>alignment_requirements := alignment_requirements p @ [reason]\<rparr>, rest))"

text \<open>The body of one clause, after its key.\<close>

definition parse_clause :: "string \<Rightarrow> policy \<Rightarrow> string \<Rightarrow> parse_failure + (policy \<times> string)" where
  "parse_clause key =
     (if key = ''tier'' then integer_clause key (\<lambda>v p. p\<lparr>pol_tier := i32_of_i64 v\<rparr>)
      else if key = ''max-reflections'' then integer_clause key (\<lambda>v p. p\<lparr>max_reflections := Some v\<rparr>)
      else if key = ''max-meta-writes'' then integer_clause key (\<lambda>v p. p\<lparr>max_meta_writes := Some v\<rparr>)
      else if key = ''max-tensors'' then integer_clause key (\<lambda>v p. p\<lparr>max_tensors := Some v\<rparr>)
      else if key = ''max-tensor-elements''
      then integer_clause key (\<lambda>v p. p\<lparr>max_tensor_elements := Some v\<rparr>)
      else if key = ''max-symbolic-graphs''
      then integer_clause key (\<lambda>v p. p\<lparr>max_symbolic_graphs := Some v\<rparr>)
      else if key = ''max-symbolic-nodes''
      then integer_clause key (\<lambda>v p. p\<lparr>max_symbolic_nodes := Some v\<rparr>)
      else if key = ''max-infinite-forms''
      then integer_clause key (\<lambda>v p. p\<lparr>max_infinite_forms := Some v\<rparr>)
      else if key = ''max-instructions''
      then integer_clause key (\<lambda>v p. p\<lparr>max_instructions := Some v\<rparr>)
      else if key = ''max-recursion'' then integer_clause key (\<lambda>v p. p\<lparr>max_recursion := Some v\<rparr>)
      else if key = ''max-stack'' then integer_clause key (\<lambda>v p. p\<lparr>max_stack := Some v\<rparr>)
      else if key = ''allowed-tensor-hashes'' then hashes_clause
      else if key = ''loop'' then loop_clause
      else if key = ''require-match-guard'' then match_guard_clause
      else if key = ''require-segment-event'' then segment_clause
      else if key = ''require-axion-event'' then axion_event_clause
      else if key = ''require-alignment'' then alignment_clause
      else (\<lambda>_ _. perr (''unknown policy clause: '' @ key)))"

text \<open>No clause reads backwards.\<close>

lemma close_paren_le: "close_paren src = Inr rest \<Longrightarrow> length rest \<le> length src"
  by (auto simp: close_paren_def err_bind_eq_Inr perr_def dest: lex_next_le split: if_splits)

lemma integer_clause_Inr:
  assumes "integer_clause key f p src = Inr (p', rest)"
  shows "(\<exists>v. p' = f v p) \<and> length rest \<le> length src"
proof -
  from assms obtain val s1 where l: "lex_next src = Inr (val, s1)"
    by (auto simp: integer_clause_def err_bind_eq_Inr)
  with assms obtain v where c: "close_paren s1 = Inr rest" and v: "p' = f v p"
    by (cases val) (auto simp: integer_clause_def perr_def err_bind_eq_Inr)
  show ?thesis using v close_paren_le [OF c] lex_next_le [OF l] by auto
qed

lemma parse_hashes_le: "parse_hashes hs src = Inr (hs', rest) \<Longrightarrow> length rest \<le> length src"
proof (induction hs src rule: parse_hashes.induct)
  case (1 hs src)
  note p = "1.prems" [unfolded parse_hashes.simps [of hs src]]
  from p obtain val s1 where l: "lex_next src = Inr (val, s1)" by (auto simp: err_bind_eq_Inr)
  with p "1.IH" [OF l refl] lex_next_le [OF l] show ?case
    by (auto simp: perr_def split: policy_token.split_asm)
qed

lemma parse_fields_le:
  assumes "parse_fields om sm em cm f r src = Inr (r', rest)"
  shows "length rest \<le> length src"
  using assms
proof (induction om sm em cm f r src rule: parse_fields.induct)
  case (1 om sm em cm f r src)
  note p = "1.prems" [unfolded parse_fields.simps [of om sm em cm f r src]]
  from p obtain t1 s1 where l1: "lex_next src = Inr (t1, s1)" by (auto simp: err_bind_eq_Inr)
  show ?case
  proof (cases "t1 = RParen")
    case True
    with p l1 lex_next_le [OF l1] show ?thesis by simp
  next
    case False
    with p l1 have l: "t1 = LParen" by (auto split: if_splits)
    with p l1 obtain field s2 where l2': "lex_next s1 = Inr (field, s2)"
      by (auto simp: err_bind_eq_Inr)
    with p l1 l obtain name where field: "field = Symbol_tok name" by (cases field) auto
    with p l1 l l2' obtain val s3 r1 s4 where
      l3: "lex_next s2 = Inr (val, s3)" "val \<noteq> End_tok" "f name val r = Inr r1"
      "lex_next s3 = Inr (RParen, s4)" and
      rec: "parse_fields om sm em cm f r1 s4 = Inr (r', rest)"
      by (auto simp: err_bind_eq_Inr split: if_split_asm)
    note l2 = l l2' [unfolded field]
    have "length rest \<le> length s4"
      by (rule "1.IH" [OF l1 refl False _ l2(2) refl refl l3(1) refl l3(2,3,4) refl _ rec])
        (use l2 in simp_all)
    also have "\<dots> \<le> length src"
      using l1 l2(2) l3(1,4) by (meson lex_next_le order.trans)
    finally show ?thesis .
  qed
qed

lemma hashes_clause_le: "hashes_clause p src = Inr (p', rest) \<Longrightarrow> length rest \<le> length src"
  by (auto simp: hashes_clause_def err_bind_eq_Inr perr_def split: if_split_asm
      dest!: lex_next_le parse_hashes_le close_paren_le)

lemmas clause_defs = loop_clause_def match_guard_clause_def segment_clause_def
  axion_event_clause_def alignment_clause_def

lemma field_clauses_le:
  "loop_clause p src = Inr (p', rest) \<Longrightarrow> length rest \<le> length src"
  "match_guard_clause p src = Inr (p', rest) \<Longrightarrow> length rest \<le> length src"
  "segment_clause p src = Inr (p', rest) \<Longrightarrow> length rest \<le> length src"
  "axion_event_clause p src = Inr (p', rest) \<Longrightarrow> length rest \<le> length src"
  "alignment_clause p src = Inr (p', rest) \<Longrightarrow> length rest \<le> length src"
  by (auto simp: clause_defs err_bind_eq_Inr perr_def split: if_split_asm dest!: parse_fields_le)

lemma parse_clause_le:
  assumes "parse_clause key p src = Inr (p', rest)"
  shows "length rest \<le> length src"
  using assms unfolding parse_clause_def
  by (simp only: split: if_split_asm)
    (auto simp: perr_def dest: integer_clause_Inr hashes_clause_le field_clauses_le)

text \<open>The body of the policy, up to its closing parenthesis.\<close>

function parse_body :: "policy \<Rightarrow> string \<Rightarrow> parse_failure + policy" where
  "parse_body p src =
     err_bind (lex_next src) (\<lambda>(tok, s1).
       if tok = RParen then Inr p
       else if tok \<noteq> LParen then perr ''expected '(' inside policy body''
       else err_bind (lex_next s1) (\<lambda>(key, s2).
         case key of
           Symbol_tok text \<Rightarrow>
             err_bind (parse_clause text p s2) (\<lambda>(p', s3). parse_body p' s3)
         | _ \<Rightarrow> perr ''expected policy field symbol''))"
  by pat_completeness auto
termination
proof (relation "measure (\<lambda>(_, src). length src)", goal_cases)
  case 1
  then show ?case by simp
next
  case prems: (2 p src x t1 s1 y t2 s2 name z p' s3)
  have "length s3 \<le> length s2" "length s2 \<le> length s1" "length s1 < length src"
    using prems lex_next_shorter lex_next_le parse_clause_le by (metis policy_token.distinct)+
  then show ?case by simp
qed

declare parse_body.simps [simp del]

definition parse_policy :: "string \<Rightarrow> parse_failure + policy" where
  "parse_policy text =
     err_bind (lex_next text) (\<lambda>(tok, s1).
       if tok \<noteq> LParen then perr (''policy must start with '('' @ [CHR 0x27])
       else err_bind (lex_next s1) (\<lambda>(tok, s2).
         if tok \<noteq> Symbol_tok ''policy'' then perr (''root symbol must be 'policy'' @ [CHR 0x27])
         else parse_body default_policy s2))"

section \<open>What a parsed policy guarantees\<close>

text \<open>
  Every requirement of a parsed policy is non-empty, and the policy carries no bytecode: the
  engine evaluates it clause by clause.
\<close>

definition policy_wf :: "policy \<Rightarrow> bool" where
  "policy_wf p \<longleftrightarrow>
     bytecode p = [] \<and> symbol_table p = [] \<and>
     (\<forall>mg \<in> set (match_guards p). mg_enum_name mg \<noteq> [] \<and> mg_variant_name mg \<noteq> []) \<and>
     (\<forall>sr \<in> set (segment_requirements p). sr_segment sr \<noteq> [] \<and> sr_action sr \<noteq> []) \<and>
     [] \<notin> set (axion_event_requirements p) \<and> [] \<notin> set (alignment_requirements p)"

lemma policy_wf_default [simp]: "policy_wf default_policy"
  by (simp add: policy_wf_def default_policy_def)

lemma policy_wf_limits [simp]:
  "policy_wf (p\<lparr>pol_tier := t\<rparr>) = policy_wf p"
  "policy_wf (p\<lparr>max_stack := l\<rparr>) = policy_wf p"
  "policy_wf (p\<lparr>max_instructions := l\<rparr>) = policy_wf p"
  "policy_wf (p\<lparr>max_recursion := l\<rparr>) = policy_wf p"
  "policy_wf (p\<lparr>max_reflections := l\<rparr>) = policy_wf p"
  "policy_wf (p\<lparr>max_meta_writes := l\<rparr>) = policy_wf p"
  "policy_wf (p\<lparr>max_tensors := l\<rparr>) = policy_wf p"
  "policy_wf (p\<lparr>max_tensor_elements := l\<rparr>) = policy_wf p"
  "policy_wf (p\<lparr>max_symbolic_nodes := l\<rparr>) = policy_wf p"
  "policy_wf (p\<lparr>max_symbolic_graphs := l\<rparr>) = policy_wf p"
  "policy_wf (p\<lparr>max_infinite_forms := l\<rparr>) = policy_wf p"
  by (simp_all add: policy_wf_def)

lemma field_clauses_wf:
  assumes "policy_wf p"
  shows "hashes_clause p src = Inr (p', rest) \<Longrightarrow> policy_wf p'"
    "loop_clause p src = Inr (p', rest) \<Longrightarrow> policy_wf p'"
    "match_guard_clause p src = Inr (p', rest) \<Longrightarrow> policy_wf p'"
    "segment_clause p src = Inr (p', rest) \<Longrightarrow> policy_wf p'"
    "axion_event_clause p src = Inr (p', rest) \<Longrightarrow> policy_wf p'"
    "alignment_clause p src = Inr (p', rest) \<Longrightarrow> policy_wf p'"
  using assms
  by (auto simp: hashes_clause_def clause_defs err_bind_eq_Inr perr_def policy_wf_def
      split: if_split_asm)

lemma parse_clause_wf:
  assumes "parse_clause key p src = Inr (p', rest)" "policy_wf p"
  shows "policy_wf p'"
proof -
  note wf = field_clauses_wf [OF assms(2)]
  show ?thesis
    using assms unfolding parse_clause_def
    by (simp only: split: if_split_asm) (auto simp: perr_def dest: integer_clause_Inr wf)
qed

lemma parse_body_wf: "parse_body p src = Inr p' \<Longrightarrow> policy_wf p \<Longrightarrow> policy_wf p'"
proof (induction p src rule: parse_body.induct)
  case (1 p src)
  note b = "1.prems"(1) [unfolded parse_body.simps [of p src]]
  from b obtain tok s1 where l1: "lex_next src = Inr (tok, s1)" by (auto simp: err_bind_eq_Inr)
  show ?case
  proof (cases "tok = RParen")
    case True
    with b l1 "1.prems"(2) show ?thesis by simp
  next
    case False
    with b l1 have tok: "tok = LParen" by (auto simp: perr_def split: if_splits)
    with b l1 obtain key s2 where l2: "lex_next s1 = Inr (key, s2)" by (auto simp: err_bind_eq_Inr)
    with b l1 tok obtain nm where key: "key = Symbol_tok nm" by (cases key) (auto simp: perr_def)
    with b l1 l2 tok obtain q s3 where c: "parse_clause nm p s2 = Inr (q, s3)"
      and r: "parse_body q s3 = Inr p'" by (auto simp: err_bind_eq_Inr)
    have wf: "policy_wf q" by (rule parse_clause_wf [OF c "1.prems"(2)])
    show ?thesis
      by (rule "1.IH" [OF l1 refl False _ l2 refl key c refl r wf]) (simp add: tok)
  qed
qed

lemma parse_policy_wf: "parse_policy text = Inr p \<Longrightarrow> policy_wf p"
  by (auto simp: parse_policy_def err_bind_eq_Inr perr_def split: if_split_asm
      intro: parse_body_wf)

end
