(* ===== verification/T81_Engine.thy ===== *)
theory T81_Engine
  imports T81_Policy
begin

text \<open>
  The Axion engines: the ethics checks of \<open>kernel/axion/ethics.cpp\<close>, the policy engine with its
  bytecode interpreter of \<open>kernel/axion/policy_engine.cpp\<close>, and the small engines of
  \<open>kernel/axion/engine.cpp\<close> and \<open>core/vm/vm.cpp\<close>.  An engine has mutable state, so \<open>evaluate\<close>
  returns the engine after the call.  The bytecode interpreter reads its code without a bounds
  check: running past the end is undefined behaviour (\<open>None\<close>).
\<close>

section \<open>Syscall contexts\<close>

text \<open>The Hanoi snapshot of the context is never read and is left out.\<close>

record syscall_context =
  sc_caller :: string
  sc_syscall :: string
  sc_payload :: string
  sc_policy :: "policy option"
  trace_reasons :: "string list"
  sc_pc :: nat
  next_opcode :: opcode
  recursion_depth :: nat
  sc_instruction_count :: nat
  stack_usage :: nat
  sc_reflection_count :: nat
  sc_meta_write_count :: nat
  sc_current_tier :: nat

section \<open>Ethics\<close>

definition T81_HARD_RECURSION_CEILING :: nat where "T81_HARD_RECURSION_CEILING = 729"

datatype ethics_principle =
    NonHarm | NonCoercion | Truth | Interpretability | IdentityIntegrity | EthicalPriority
  | EntropyContainment | CanonicalConsistency | TransparentExecution

definition check_ethics :: "ethics_principle \<Rightarrow> syscall_context \<Rightarrow> verdict" where
  "check_ethics p ctx =
     (let passed = \<lparr>vkind = Allow, vreason = ''Ethics check passed''\<rparr> in
      case p of
        Interpretability \<Rightarrow>
          if recursion_depth ctx > 243
          then \<lparr>vkind = Warn,
                vreason = ''Theta-4: High recursion depth (interpretability risk)''\<rparr>
          else passed
      | EntropyContainment \<Rightarrow>
          if recursion_depth ctx \<ge> T81_HARD_RECURSION_CEILING
          then \<lparr>vkind = Deny,
                vreason = ''recursion ceiling exceeded'' @ '' (Theta-7 Entropy Containment)''\<rparr>
          else passed
      | TransparentExecution \<Rightarrow>
          if next_opcode ctx = Op_MetaWrite \<and> sc_policy ctx = None
          then \<lparr>vkind = Warn,
                vreason = ''Theta-9: MetaWrite without policy (transparency risk)''\<rparr>
          else passed
      | _ \<Rightarrow> passed)"

text \<open>The loop over the principles: the first denial, or the first warning.\<close>

fun ethics_loop :: "ethics_principle list \<Rightarrow> syscall_context \<Rightarrow> verdict \<Rightarrow> verdict + verdict" where
  "ethics_loop [] ctx warning = Inr warning"
| "ethics_loop (p # ps) ctx warning =
     (let v = check_ethics p ctx in
      if vkind v = Deny then Inl v
      else ethics_loop ps ctx
             (if vkind v = Warn \<and> vkind warning = Allow then v else warning))"

definition all_principles :: "ethics_principle list" where
  "all_principles = [NonHarm, NonCoercion, Truth, Interpretability, IdentityIntegrity,
     EthicalPriority, EntropyContainment, CanonicalConsistency, TransparentExecution]"

section \<open>Trace requirements\<close>

definition expected_reason :: "loop_hint \<Rightarrow> string" where
  "expected_reason hint =
     ''loop hint file='' @ loop_file hint @ '' line='' @ show_sint (loop_line hint) @
     '' column='' @ show_sint (loop_column hint) @ '' bound='' @
     (if bound_infinite hint then ''infinite''
      else case bound_value hint of Some b \<Rightarrow> show_sint b | None \<Rightarrow> ''unknown'')"

definition seen :: "syscall_context \<Rightarrow> string \<Rightarrow> bool" where
  "seen ctx needle \<longleftrightarrow> list_ex (\<lambda>entry. str_contains entry needle) (trace_reasons ctx)"

definition alignment_event_satisfied :: "syscall_context \<Rightarrow> string \<Rightarrow> bool" where
  "alignment_event_satisfied ctx reason \<longleftrightarrow>
     list_ex (\<lambda>entry. str_contains entry ''alignment'' \<and> str_contains entry reason)
       (trace_reasons ctx)"

definition match_guard_satisfied :: "syscall_context \<Rightarrow> match_guard_req \<Rightarrow> bool" where
  "match_guard_satisfied ctx req \<longleftrightarrow>
     list_ex (\<lambda>entry.
         str_contains entry ''enum guard'' \<and>
         (mg_enum_name req = [] \<or> str_contains entry (''enum='' @ mg_enum_name req)) \<and>
         (mg_variant_name req = [] \<or> str_contains entry (''variant='' @ mg_variant_name req)) \<and>
         (case mg_payload req of None \<Rightarrow> True | Some pl \<Rightarrow> str_contains entry (''payload='' @ pl)) \<and>
         str_contains entry (''match='' @ mg_result req))
       (trace_reasons ctx)"

definition segment_event_satisfied :: "syscall_context \<Rightarrow> segment_event_req \<Rightarrow> bool" where
  "segment_event_satisfied ctx req \<longleftrightarrow>
     list_ex (\<lambda>entry.
         str_contains entry (sr_action req) \<and>
         (sr_segment req = [] \<or> str_contains entry (''segment='' @ sr_segment req) \<or>
          str_contains entry ('' '' @ sr_segment req @ '' '')) \<and>
         (case sr_addr req of None \<Rightarrow> True
          | Some a \<Rightarrow> str_contains entry (''addr='' @ show_sint a)))
       (trace_reasons ctx)"

definition axion_event_satisfied :: "syscall_context \<Rightarrow> string \<Rightarrow> bool" where
  "axion_event_satisfied ctx reason \<longleftrightarrow>
     list_ex (\<lambda>entry. str_contains entry reason) (trace_reasons ctx)"

text \<open>
  A loop requirement of the engine: the text it waits for and the flag that keeps it satisfied.
\<close>

type_synonym loop_req = "string \<times> bool"

definition loop_hint_satisfied :: "syscall_context \<Rightarrow> loop_req \<Rightarrow> bool" where
  "loop_hint_satisfied ctx req \<longleftrightarrow> snd req \<or> seen ctx (fst req)"

text \<open>
  The loop of \<open>evaluate_internal\<close> over the requirements: it stops at the first one not satisfied
  (returned), and marks those before it.
\<close>

fun check_loops :: "syscall_context \<Rightarrow> loop_req list \<Rightarrow> loop_req list \<times> string option" where
  "check_loops ctx [] = ([], None)"
| "check_loops ctx (req # reqs) =
     (if loop_hint_satisfied ctx req then
        (case check_loops ctx reqs of (reqs', r) \<Rightarrow> ((fst req, True) # reqs', r))
      else (req # reqs, Some (fst req)))"

section \<open>Direct evaluation of a policy\<close>

definition deny :: "string \<Rightarrow> verdict" where "deny r = \<lparr>vkind = Deny, vreason = r\<rparr>"
definition allow :: "string \<Rightarrow> verdict" where "allow r = \<lparr>vkind = Allow, vreason = r\<rparr>"

lemma deny_allow_simps [simp]:
  "vkind (deny r) = Deny" "vreason (deny r) = r" "vkind (allow r) = Allow" "vreason (allow r) = r"
  by (simp_all add: deny_def allow_def)

text \<open>\<open>static_cast<std::size_t>(*limit)\<close> is exceeded by the counter.\<close>
definition exceeds :: "nat \<Rightarrow> i64 option \<Rightarrow> bool" where
  "exceeds count limit = (case limit of None \<Rightarrow> False | Some l \<Rightarrow> count > size_of_i64 l)"

definition limit_text :: "i64 option \<Rightarrow> string" where
  "limit_text limit = (case limit of None \<Rightarrow> [] | Some l \<Rightarrow> show_sint l)"

text \<open>The limits, in the order the code checks them.\<close>

definition check_limits :: "policy \<Rightarrow> syscall_context \<Rightarrow> verdict option" where
  "check_limits p ctx =
     (if exceeds (sc_instruction_count ctx) (max_instructions p)
      then Some (deny (''Instruction count limit exceeded: count='' @
        show_nat (sc_instruction_count ctx) @ '' limit='' @ limit_text (max_instructions p)))
      else if exceeds (recursion_depth ctx) (max_recursion p)
      then Some (deny (''Recursion depth limit exceeded: depth='' @
        show_nat (recursion_depth ctx) @ '' limit='' @ limit_text (max_recursion p)))
      else if exceeds (stack_usage ctx) (max_stack p)
      then Some (deny (''Stack usage limit exceeded: usage='' @
        show_nat (stack_usage ctx) @ '' limit='' @ limit_text (max_stack p)))
      else if exceeds (sc_reflection_count ctx) (max_reflections p)
      then Some (deny (''Reflection count limit exceeded: count='' @
        show_nat (sc_reflection_count ctx) @ '' limit='' @ limit_text (max_reflections p)))
      else if exceeds (sc_meta_write_count ctx) (max_meta_writes p)
      then Some (deny (''Meta write count limit exceeded: count='' @
        show_nat (sc_meta_write_count ctx) @ '' limit='' @ limit_text (max_meta_writes p)))
      else None)"

definition match_guard_missing :: "match_guard_req \<Rightarrow> string" where
  "match_guard_missing req =
     ''Missing match guard event: enum='' @ mg_enum_name req @ '' variant='' @ mg_variant_name req @
     (case mg_payload req of None \<Rightarrow> [] | Some pl \<Rightarrow> '' payload='' @ pl) @
     '' result='' @ mg_result req"

definition segment_missing :: "segment_event_req \<Rightarrow> string" where
  "segment_missing req =
     ''Missing segment event: action='' @ [CHR 0x22] @ sr_action req @ [CHR 0x22] @
     '' segment='' @ sr_segment req @
     (case sr_addr req of None \<Rightarrow> [] | Some a \<Rightarrow> '' addr='' @ show_sint a)"

definition axion_event_missing :: "string \<Rightarrow> string" where
  "axion_event_missing reason =
     ''Missing Axion event reason containing '' @ [CHR 0x22] @ reason @ [CHR 0x22]"

definition alignment_missing :: "string \<Rightarrow> string" where
  "alignment_missing reason =
     ''Missing alignment event: reason='' @ [CHR 0x22] @ reason @ [CHR 0x22]"

text \<open>The requirements of the last instruction: the first one that is missing denies.\<close>

definition check_final :: "policy \<Rightarrow> syscall_context \<Rightarrow> verdict option" where
  "check_final p ctx =
     (case List.find (\<lambda>req. \<not> match_guard_satisfied ctx req) (match_guards p) of
        Some req \<Rightarrow> Some (deny (match_guard_missing req))
      | None \<Rightarrow>
      case List.find (\<lambda>req. \<not> segment_event_satisfied ctx req) (segment_requirements p) of
        Some req \<Rightarrow> Some (deny (segment_missing req))
      | None \<Rightarrow>
      case List.find (\<lambda>req. \<not> axion_event_satisfied ctx req) (axion_event_requirements p) of
        Some req \<Rightarrow> Some (deny (axion_event_missing req))
      | None \<Rightarrow>
      case List.find (\<lambda>req. \<not> alignment_event_satisfied ctx req) (alignment_requirements p) of
        Some req \<Rightarrow> Some (deny (alignment_missing req))
      | None \<Rightarrow> None)"

text \<open>The hash allow-list that guards \<open>TLoadHash\<close>; \<open>None\<close> lets the evaluation go on.\<close>

definition check_tensor_hash :: "policy \<Rightarrow> syscall_context \<Rightarrow> verdict option" where
  "check_tensor_hash p ctx =
     (if next_opcode ctx = Op_TLoadHash then
        if allowed_tensor_hashes p = []
        then Some (deny ''TLOADHASH denied (allowed-tensor-hashes empty)'')
        else if sc_payload ctx \<noteq> [] \<and> sc_payload ctx \<notin> set (allowed_tensor_hashes p)
        then Some (deny (''TLOADHASH policy_violation hash='' @ sc_payload ctx))
        else None
      else None)"

text \<open>The part of \<open>evaluate_internal\<close> after the hash check, for a policy without bytecode.\<close>

definition evaluate_direct ::
    "policy \<Rightarrow> loop_req list \<Rightarrow> syscall_context \<Rightarrow> verdict \<times> loop_req list" where
  "evaluate_direct p reqs ctx =
     (case check_limits p ctx of
        Some v \<Rightarrow> (v, reqs)
      | None \<Rightarrow>
      case check_loops ctx reqs of
        (reqs', Some missing) \<Rightarrow> (deny (''Missing loop hint trace: '' @ missing), reqs')
      | (reqs', None) \<Rightarrow>
          if next_opcode ctx = Op_Halt then
            case check_final p ctx of
              Some v \<Rightarrow> (v, reqs')
            | None \<Rightarrow> (allow ''Axion policy engine (loop hints satisfied)'', reqs')
          else (allow ''Axion policy engine (loop hints satisfied)'', reqs'))"

section \<open>Bytecode\<close>

type_synonym axion_op = u8

abbreviation (input) AxCheckTier :: axion_op where "AxCheckTier \<equiv> 0x01"
abbreviation (input) AxLimitInstructions :: axion_op where "AxLimitInstructions \<equiv> 0x02"
abbreviation (input) AxLimitStack :: axion_op where "AxLimitStack \<equiv> 0x03"
abbreviation (input) AxLimitRecursion :: axion_op where "AxLimitRecursion \<equiv> 0x04"
abbreviation (input) AxRequireLoop :: axion_op where "AxRequireLoop \<equiv> 0x05"
abbreviation (input) AxRequireMatchGuard :: axion_op where "AxRequireMatchGuard \<equiv> 0x06"
abbreviation (input) AxRequireSegmentEvent :: axion_op where "AxRequireSegmentEvent \<equiv> 0x07"
abbreviation (input) AxRequireAxionEvent :: axion_op where "AxRequireAxionEvent \<equiv> 0x08"
abbreviation (input) AxRequireAlignment :: axion_op where "AxRequireAlignment \<equiv> 0x09"
abbreviation (input) AxLimitReflections :: axion_op where "AxLimitReflections \<equiv> 0x0A"
abbreviation (input) AxLimitMetaWrites :: axion_op where "AxLimitMetaWrites \<equiv> 0x0B"
abbreviation (input) AxRet :: axion_op where "AxRet \<equiv> 0xFF"

text \<open>Reading \<open>n\<close> bytes, least significant first, from byte position \<open>i\<close> of the value on.\<close>

fun read_le :: "nat \<Rightarrow> nat \<Rightarrow> 'a :: len word \<Rightarrow> u8 list \<Rightarrow> ('a word \<times> u8 list) option" where
  "read_le i 0 v bs = Some (v, bs)"
| "read_le i (Suc n) v [] = None"
| "read_le i (Suc n) v (b # bs) = read_le (Suc i) n (v OR push_bit (i * 8) (ucast b)) bs"

definition read_u8 :: "u8 list \<Rightarrow> (u8 \<times> u8 list) option" where
  "read_u8 = read_le 0 1 0"

definition read_u32 :: "u8 list \<Rightarrow> (u32 \<times> u8 list) option" where
  "read_u32 = read_le 0 4 0"

definition read_u64 :: "u8 list \<Rightarrow> (u64 \<times> u8 list) option" where
  "read_u64 = read_le 0 8 0"

definition get_sym :: "policy \<Rightarrow> u32 \<Rightarrow> string" where
  "get_sym p idx =
     (if length (symbol_table p) \<le> unat idx then [] else symbol_table p ! unat idx)"

lemma read_le_shorter: "read_le i n v bs = Some (w, rest) \<Longrightarrow> length bs = n + length rest"
  by (induction i n v bs rule: read_le.induct) auto

text \<open>The limit instructions differ in the counter and in the text of the denial.\<close>

definition exec_limit ::
    "nat \<Rightarrow> string \<Rightarrow> u8 list \<Rightarrow> (verdict option \<times> u8 list) option" where
  "exec_limit count what bs = do {
     (limit, rest) \<leftarrow> read_u64 bs;
     Some (if count > unat limit
           then Some (deny (what @ show_nat count @ '' limit='' @ show_uint limit)) else None, rest)
   }"

text \<open>One iteration of the loop of \<open>execute_bytecode\<close>, after the opcode byte is read: a verdict
  ends the execution.\<close>

definition exec_op ::
    "policy \<Rightarrow> syscall_context \<Rightarrow> axion_op \<Rightarrow> u8 list \<Rightarrow> (verdict option \<times> u8 list) option" where
  "exec_op p ctx oper bs =
     (let final = (next_opcode ctx = Op_Halt) in
      if oper = AxCheckTier then do {
        (required, rest) \<leftarrow> read_u32 bs;
        Some (if sc_current_tier ctx < unat required
              then Some (deny (''Tier check failed: current='' @ show_nat (sc_current_tier ctx) @
                     '' required='' @ show_uint required)) else None, rest) }
      else if oper = AxLimitInstructions then
        exec_limit (sc_instruction_count ctx) ''Instruction count limit exceeded: count='' bs
      else if oper = AxLimitReflections then
        exec_limit (sc_reflection_count ctx) ''Reflection count limit exceeded: count='' bs
      else if oper = AxLimitMetaWrites then
        exec_limit (sc_meta_write_count ctx) ''Meta write count limit exceeded: count='' bs
      else if oper = AxLimitStack then
        exec_limit (stack_usage ctx) ''Stack usage limit exceeded: usage='' bs
      else if oper = AxLimitRecursion then
        exec_limit (recursion_depth ctx) ''Recursion depth limit exceeded: depth='' bs
      else if oper = AxRequireLoop then do {
        (lid, r1) \<leftarrow> read_u32 bs;
        (file, r2) \<leftarrow> read_u32 r1;
        (line, r3) \<leftarrow> read_u32 r2;
        (col, r4) \<leftarrow> read_u32 r3;
        (infinite, r5) \<leftarrow> read_u8 r4;
        (bound, r6) \<leftarrow> read_u64 r5;
        let expect = ''loop hint file='' @ get_sym p file @ '' line='' @ show_uint line @
              '' column='' @ show_uint col @ '' bound='' @
              (if infinite \<noteq> 0 then ''infinite'' else show_uint bound);
        Some (if seen ctx expect then None
              else Some (deny (''Missing loop hint trace: '' @ expect)), r6) }
      else if oper = AxRequireMatchGuard then do {
        (en, r1) \<leftarrow> read_u32 bs;
        (vn, r2) \<leftarrow> read_u32 r1;
        (pl, r3) \<leftarrow> read_u32 r2;
        (res, r4) \<leftarrow> read_u32 r3;
        let req = \<lparr>mg_enum_name = get_sym p en, mg_variant_name = get_sym p vn,
                   mg_payload = (if pl \<noteq> 0xFFFFFFFF then Some (get_sym p pl) else None),
                   mg_result = get_sym p res\<rparr>;
        Some (if final \<and> \<not> match_guard_satisfied ctx req
              then Some (deny ''Missing match guard event'') else None, r4) }
      else if oper = AxRequireSegmentEvent then do {
        (seg, r1) \<leftarrow> read_u32 bs;
        (act, r2) \<leftarrow> read_u32 r1;
        (has_addr, r3) \<leftarrow> read_u8 r2;
        (addr, r4) \<leftarrow> read_u64 r3;
        let req = \<lparr>sr_segment = get_sym p seg, sr_action = get_sym p act,
                   sr_addr = (if has_addr \<noteq> 0 then Some addr else None)\<rparr>;
        Some (if final \<and> \<not> segment_event_satisfied ctx req
              then Some (deny ''Missing segment event'') else None, r4) }
      else if oper = AxRequireAxionEvent then do {
        (reason, rest) \<leftarrow> read_u32 bs;
        Some (if final \<and> \<not> axion_event_satisfied ctx (get_sym p reason)
              then Some (deny (axion_event_missing (get_sym p reason))) else None, rest) }
      else if oper = AxRequireAlignment then do {
        (reason, rest) \<leftarrow> read_u32 bs;
        Some (if final \<and> \<not> alignment_event_satisfied ctx (get_sym p reason)
              then Some (deny (alignment_missing (get_sym p reason))) else None, rest) }
      else if oper = AxRet then Some (Some (allow ''Axion bytecode executed successfully''), bs)
      else Some (Some (deny ''Unknown Axion opcode''), bs))"

lemma exec_op_shorter:
  "exec_op p ctx oper bs = Some (v, rest) \<Longrightarrow> length rest \<le> length bs"
  unfolding exec_op_def exec_limit_def Let_def read_u8_def read_u32_def read_u64_def
  by (simp only: split: if_split_asm) (auto dest!: read_le_shorter split: bind_splits)

function exec_loop :: "policy \<Rightarrow> syscall_context \<Rightarrow> u8 list \<Rightarrow> verdict option" where
  "exec_loop p ctx [] = Some (allow ''Axion bytecode end reached'')"
| "exec_loop p ctx (oper # bs) =
     (case exec_op p ctx oper bs of
        None \<Rightarrow> None
      | Some (Some v, _) \<Rightarrow> Some v
      | Some (None, rest) \<Rightarrow> exec_loop p ctx rest)"
  by pat_completeness auto
termination
  by (relation "measure (\<lambda>(_, _, bs). length bs)") (auto dest: exec_op_shorter)

definition execute_bytecode :: "policy option \<Rightarrow> syscall_context \<Rightarrow> verdict option" where
  "execute_bytecode pol ctx =
     (case pol of
        None \<Rightarrow> Some (allow ''Axion policy engine (no bytecode)'')
      | Some p \<Rightarrow> if bytecode p = [] then Some (allow ''Axion policy engine (no bytecode)'')
                  else exec_loop p ctx (bytecode p))"

section \<open>Engines\<close>

datatype engine =
    AllowAll
  | InstructionCounting (max_count: nat) (counted: nat)
  | DenyWithReason string
  | PolicyEngine "policy option" "loop_req list"

definition make_policy_engine :: "policy option \<Rightarrow> engine" where
  "make_policy_engine pol =
     PolicyEngine pol (case pol of None \<Rightarrow> []
       | Some p \<Rightarrow> map (\<lambda>hint. (expected_reason hint, False)) (pol_loops p))"

definition evaluate_internal ::
    "policy option \<Rightarrow> loop_req list \<Rightarrow> syscall_context \<Rightarrow> (verdict \<times> loop_req list) option" where
  "evaluate_internal pol reqs ctx =
     (case pol of
        None \<Rightarrow>
          if next_opcode ctx = Op_TLoadHash
          then Some (deny ''TLOADHASH requires active policy'', reqs)
          else Some (allow ''Axion policy engine (no policy)'', reqs)
      | Some p \<Rightarrow>
          case check_tensor_hash p ctx of
            Some v \<Rightarrow> Some (v, reqs)
          | None \<Rightarrow>
              if bytecode p \<noteq> []
              then map_option (\<lambda>v. (v, reqs)) (execute_bytecode pol ctx)
              else Some (evaluate_direct p reqs ctx))"

definition policy_evaluate ::
    "policy option \<Rightarrow> loop_req list \<Rightarrow> syscall_context \<Rightarrow> (verdict \<times> loop_req list) option" where
  "policy_evaluate pol reqs ctx =
     (case ethics_loop all_principles ctx (allow []) of
        Inl v \<Rightarrow> Some (v, reqs)
      | Inr warning \<Rightarrow> do {
          (v, reqs') \<leftarrow> evaluate_internal pol reqs ctx;
          Some (if vkind v = Allow \<and> vkind warning = Warn then warning else v, reqs') })"

definition evaluate :: "engine \<Rightarrow> syscall_context \<Rightarrow> (verdict \<times> engine) option" where
  "evaluate e ctx =
     (case e of
        AllowAll \<Rightarrow> Some (allow ''Default policy: allow all'', e)
      | InstructionCounting limit n \<Rightarrow>
          Some (if n + 1 > limit then deny ''Instruction limit exceeded''
                else allow ''Instruction count within limit'', InstructionCounting limit (n + 1))
      | DenyWithReason reason \<Rightarrow> Some (deny reason, e)
      | PolicyEngine pol reqs \<Rightarrow>
          map_option (\<lambda>(v, reqs'). (v, PolicyEngine pol reqs')) (policy_evaluate pol reqs ctx))"

section \<open>Ethics come first\<close>

lemma ethics_loop_result:
  "ethics_loop all_principles ctx (allow []) =
     (if recursion_depth ctx \<ge> T81_HARD_RECURSION_CEILING
      then Inl (deny ''recursion ceiling exceeded (Theta-7 Entropy Containment)'')
      else if recursion_depth ctx > 243 then Inr (check_ethics Interpretability ctx)
      else if next_opcode ctx = Op_MetaWrite \<and> sc_policy ctx = None
      then Inr (check_ethics TransparentExecution ctx)
      else Inr (allow []))"
  by (simp add: all_principles_def check_ethics_def Let_def deny_def allow_def
      T81_HARD_RECURSION_CEILING_def)

lemma ethics_deny_first:
  assumes "recursion_depth ctx \<ge> T81_HARD_RECURSION_CEILING"
  shows "policy_evaluate pol reqs ctx =
    Some (deny ''recursion ceiling exceeded (Theta-7 Entropy Containment)'', reqs)"
  using assms by (simp add: policy_evaluate_def ethics_loop_result)

lemma ethics_loop_warning:
  assumes "ethics_loop all_principles ctx (allow []) = Inr w"
  shows "vkind w \<noteq> Deny"
  using assms by (auto simp: ethics_loop_result check_ethics_def Let_def split: if_splits)

text \<open>A denial of the policy is never softened by a warning of the ethics layer.\<close>

lemma policy_evaluate_deny_iff:
  assumes "recursion_depth ctx < T81_HARD_RECURSION_CEILING"
    "evaluate_internal pol reqs ctx = Some (v, reqs1)"
    "policy_evaluate pol reqs ctx = Some (w, reqs2)"
  shows "vkind w = Deny \<longleftrightarrow> vkind v = Deny" "reqs2 = reqs1"
proof -
  obtain u where u: "ethics_loop all_principles ctx (allow []) = Inr u" "vkind u \<noteq> Deny"
    using assms(1) ethics_loop_warning [of ctx]
    by (cases "ethics_loop all_principles ctx (allow [])")
      (auto simp: ethics_loop_result split: if_splits)
  with assms(2,3) show "vkind w = Deny \<longleftrightarrow> vkind v = Deny" "reqs2 = reqs1"
    by (auto simp: policy_evaluate_def split: if_splits)
qed

section \<open>Limits and loop requirements of the direct evaluation\<close>

lemma check_limits_None:
  "check_limits p ctx = None \<longleftrightarrow>
     \<not> exceeds (sc_instruction_count ctx) (max_instructions p) \<and>
     \<not> exceeds (recursion_depth ctx) (max_recursion p) \<and>
     \<not> exceeds (stack_usage ctx) (max_stack p) \<and>
     \<not> exceeds (sc_reflection_count ctx) (max_reflections p) \<and>
     \<not> exceeds (sc_meta_write_count ctx) (max_meta_writes p)"
  by (simp add: check_limits_def)

lemma check_limits_Some: "check_limits p ctx = Some v \<Longrightarrow> vkind v = Deny"
  by (auto simp: check_limits_def split: if_splits)

lemma check_final_Some: "check_final p ctx = Some v \<Longrightarrow> vkind v = Deny"
  by (auto simp: check_final_def split: option.splits)

lemma find_not_None: "List.find (\<lambda>x. \<not> P x) xs = None \<longleftrightarrow> list_all P xs"
  by (auto simp: find_None_iff list_all_iff)

lemma check_final_None:
  "check_final p ctx = None \<longleftrightarrow>
     list_all (match_guard_satisfied ctx) (match_guards p) \<and>
     list_all (segment_event_satisfied ctx) (segment_requirements p) \<and>
     list_all (axion_event_satisfied ctx) (axion_event_requirements p) \<and>
     list_all (alignment_event_satisfied ctx) (alignment_requirements p)"
  unfolding check_final_def find_not_None [symmetric] by (simp split: option.splits)

lemma check_loops_all:
  "list_all (loop_hint_satisfied ctx) reqs \<Longrightarrow>
     check_loops ctx reqs = (map (\<lambda>r. (fst r, True)) reqs, None)"
  by (induction reqs) auto

lemma check_loops_missing:
  "snd (check_loops ctx reqs) = None \<longleftrightarrow> list_all (loop_hint_satisfied ctx) reqs"
  by (induction reqs) (auto split: prod.splits)

text \<open>The flags of the requirements only go up, and their texts do not change.\<close>

definition reqs_le :: "loop_req list \<Rightarrow> loop_req list \<Rightarrow> bool" where
  "reqs_le = list_all2 (\<lambda>a b. fst a = fst b \<and> (snd a \<longrightarrow> snd b))"

lemma reqs_le_refl [simp]: "reqs_le r r"
  by (simp add: reqs_le_def list_all2_refl)

lemma reqs_le_trans: "reqs_le a b \<Longrightarrow> reqs_le b c \<Longrightarrow> reqs_le a c"
  by (auto simp: reqs_le_def list_all2_conv_all_nth)

lemma check_loops_le: "reqs_le reqs (fst (check_loops ctx reqs))"
proof (induction reqs)
  case (Cons r reqs)
  then show ?case by (auto simp: reqs_le_def list_all2_refl split: prod.splits)
qed simp

lemma evaluate_direct_deny_iff:
  "vkind (fst (evaluate_direct p reqs ctx)) = Deny \<longleftrightarrow>
     check_limits p ctx \<noteq> None \<or> \<not> list_all (loop_hint_satisfied ctx) reqs \<or>
     (next_opcode ctx = Op_Halt \<and> check_final p ctx \<noteq> None)"
  using check_loops_missing [of ctx reqs]
  by (auto simp: evaluate_direct_def check_limits_Some check_final_Some split: option.splits prod.splits)

lemma evaluate_direct_kind:
  "vkind (fst (evaluate_direct p reqs ctx)) = Deny \<or> vkind (fst (evaluate_direct p reqs ctx)) = Allow"
  by (auto simp: evaluate_direct_def check_limits_Some check_final_Some split: option.splits prod.splits)

lemma evaluate_direct_le: "reqs_le reqs (snd (evaluate_direct p reqs ctx))"
  using check_loops_le [of reqs ctx]
  by (auto simp: evaluate_direct_def split: option.splits prod.splits)

lemma evaluate_internal_le:
  "evaluate_internal pol reqs ctx = Some (v, reqs') \<Longrightarrow> reqs_le reqs reqs'"
  using evaluate_direct_le
  by (auto simp: evaluate_internal_def split: option.splits if_splits) (metis prod.sel(2))

lemma policy_evaluate_le:
  "policy_evaluate pol reqs ctx = Some (v, reqs') \<Longrightarrow> reqs_le reqs reqs'"
  by (auto simp: policy_evaluate_def split: sum.splits bind_splits dest: evaluate_internal_le)

section \<open>The engine interface\<close>

text \<open>
  What the virtual machine and the tier promotion rely on: from an admissible engine every
  evaluation returns a verdict and leaves an admissible engine.  A guarded engine moreover denies
  every call at the recursion ceiling.
\<close>

fun eval_calls ::
    "('e \<Rightarrow> syscall_context \<Rightarrow> (verdict \<times> 'e) option) \<Rightarrow> 'e \<Rightarrow> syscall_context list \<Rightarrow>
     (verdict list \<times> 'e) option" where
  "eval_calls ev e [] = Some ([], e)"
| "eval_calls ev e (c # cs) = do { (v, e') \<leftarrow> ev e c; (vs, e'') \<leftarrow> eval_calls ev e' cs; Some (v # vs, e'') }"

locale axion_engine =
  fixes ev :: "'e \<Rightarrow> syscall_context \<Rightarrow> (verdict \<times> 'e) option"
    and admissible :: "'e \<Rightarrow> bool"
  assumes ev_total: "admissible e \<Longrightarrow> \<exists>v e'. ev e ctx = Some (v, e')"
    and ev_admissible: "admissible e \<Longrightarrow> ev e ctx = Some (v, e') \<Longrightarrow> admissible e'"
begin

lemma ev_obtain:
  assumes "admissible e"
  obtains v e' where "ev e ctx = Some (v, e')" "admissible e'"
  using ev_total [OF assms, of ctx] ev_admissible [OF assms] by blast

lemma eval_calls_total:
  "admissible e \<Longrightarrow> \<exists>vs e'. eval_calls ev e cs = Some (vs, e') \<and> length vs = length cs \<and> admissible e'"
proof (induction cs arbitrary: e)
  case (Cons c cs)
  from Cons.prems obtain v e1 where v: "ev e c = Some (v, e1)" "admissible e1" by (rule ev_obtain)
  with Cons.IH [OF v(2)] show ?case by auto
qed simp

end

locale guarded_engine = axion_engine +
  assumes ceiling: "admissible e \<Longrightarrow> recursion_depth ctx \<ge> T81_HARD_RECURSION_CEILING \<Longrightarrow>
    ev e ctx = Some (v, e') \<Longrightarrow> vkind v = Deny"
begin

lemma eval_calls_ceiling:
  "admissible e \<Longrightarrow> eval_calls ev e cs = Some (vs, e') \<Longrightarrow> i < length cs \<Longrightarrow>
     recursion_depth (cs ! i) \<ge> T81_HARD_RECURSION_CEILING \<Longrightarrow> vkind (vs ! i) = Deny"
proof (induction cs arbitrary: e vs i)
  case (Cons c cs)
  from Cons.prems(1) obtain v e1 where v: "ev e c = Some (v, e1)" "admissible e1" by (rule ev_obtain)
  with Cons.prems(2) obtain ws where w: "eval_calls ev e1 cs = Some (ws, e')" "vs = v # ws"
    by (auto split: bind_splits)
  show ?case
  proof (cases i)
    case 0
    with Cons.prems v w ceiling show ?thesis by auto
  next
    case (Suc j)
    with Cons.prems Cons.IH [OF v(2) w(1), of j] w(2) show ?thesis by auto
  qed
qed simp

end

text \<open>An engine is admissible when its policy, if it has one, carries no bytecode; this is what
  \<open>load_program\<close> installs, since the parser never compiles a policy.\<close>

definition engine_ok :: "engine \<Rightarrow> bool" where
  "engine_ok e = (case e of PolicyEngine (Some p) reqs \<Rightarrow> bytecode p = [] | _ \<Rightarrow> True)"

definition policy_engine_ok :: "engine \<Rightarrow> bool" where
  "policy_engine_ok e = (case e of PolicyEngine (Some p) reqs \<Rightarrow> bytecode p = []
     | PolicyEngine None _ \<Rightarrow> True | _ \<Rightarrow> False)"

lemma evaluate_internal_total:
  "(case pol of Some p \<Rightarrow> bytecode p = [] | None \<Rightarrow> True) \<Longrightarrow>
     \<exists>v reqs'. evaluate_internal pol reqs ctx = Some (v, reqs')"
  by (cases pol) (auto simp: evaluate_internal_def split: option.splits)

lemma policy_evaluate_total:
  assumes "case pol of Some p \<Rightarrow> bytecode p = [] | None \<Rightarrow> True"
  shows "\<exists>v reqs'. policy_evaluate pol reqs ctx = Some (v, reqs')"
  using evaluate_internal_total [OF assms, of reqs ctx]
  by (auto simp: policy_evaluate_def split: sum.splits)

lemma evaluate_total: "engine_ok e \<Longrightarrow> \<exists>v e'. evaluate e ctx = Some (v, e')"
  using policy_evaluate_total
  by (fastforce simp: evaluate_def engine_ok_def split: engine.splits option.splits)

lemma evaluate_ok: "engine_ok e \<Longrightarrow> evaluate e ctx = Some (v, e') \<Longrightarrow> engine_ok e'"
  by (cases e) (auto simp: evaluate_def engine_ok_def split: option.splits)

interpretation vm_engine: axion_engine evaluate engine_ok
  by unfold_locales (auto intro: evaluate_total evaluate_ok)

interpretation vm_policy_engine: guarded_engine evaluate policy_engine_ok
proof unfold_locales
  fix e :: engine and ctx :: syscall_context
  assume "policy_engine_ok e"
  then obtain pol reqs where e: "e = PolicyEngine pol reqs"
    and ok: "case pol of Some p \<Rightarrow> bytecode p = [] | None \<Rightarrow> True"
    by (auto simp: policy_engine_ok_def split: engine.splits option.splits)
  show "\<exists>v e'. evaluate e ctx = Some (v, e')"
    using policy_evaluate_total [OF ok] by (fastforce simp: evaluate_def e)
  fix v e'
  assume ev: "evaluate e ctx = Some (v, e')"
  show "policy_engine_ok e'"
    using ev ok by (auto simp: e evaluate_def policy_engine_ok_def split: option.splits)
  assume "recursion_depth ctx \<ge> T81_HARD_RECURSION_CEILING"
  with ev show "vkind v = Deny" by (auto simp: e evaluate_def ethics_deny_first)
qed

end
