(* ===== verification/T81_Trace.thy ===== *)
theory T81_Trace
  imports T81_Segments T81_Engine
begin

text \<open>
  The bridge between the virtual machine, its Axion engine and its event log:
  \<open>core/vm/policy_trace_bridge.cpp\<close>.  Recording an event appends to the log, and consumes a slot of
  the meta segment as long as there is one, which is itself logged.  The optional echo of the
  events on standard error is left out.
\<close>

section \<open>The context of a call\<close>

definition make_syscall_context ::
    "state \<Rightarrow> nat \<Rightarrow> string \<Rightarrow> string \<Rightarrow> string \<Rightarrow> nat \<Rightarrow> opcode \<Rightarrow> nat \<Rightarrow> nat option \<Rightarrow> syscall_context" where
  "make_syscall_context s cctx caller syscall payload prog_pc oper count override =
     (let (depth, usage, tier) =
        (if contexts s \<noteq> [] \<and> cctx < length (contexts s) then
           let t = contexts s ! cctx in
           (max (length (stack_frames t)) (call_depth t), size_sub (stack_base t) (sp t),
            (case tier_current (tier_status t) of
               Tier0 \<Rightarrow> 0 | Tier1 \<Rightarrow> 1 | Tier2 \<Rightarrow> 2 | Tier3 \<Rightarrow> 3 | Tier4 \<Rightarrow> 4 | Tier5 \<Rightarrow> 5))
         else (0, 0, 0))
      in \<lparr>sc_caller = caller, sc_syscall = syscall, sc_payload = payload, sc_policy = policy_opt s,
          trace_reasons = map (\<lambda>e. vreason (ev_verdict e)) (axion_log s), sc_pc = prog_pc,
          next_opcode = oper, recursion_depth = depth,
          sc_instruction_count = (case override of Some n \<Rightarrow> n | None \<Rightarrow> count),
          stack_usage = usage, sc_reflection_count = reflection_count s,
          sc_meta_write_count = meta_write_count s, sc_current_tier = tier\<rparr>)"

section \<open>Reasons\<close>

definition format_memory_access_reason :: "segment_kind \<Rightarrow> nat \<Rightarrow> nat \<Rightarrow> string \<Rightarrow> string" where
  "format_memory_access_reason kind addr sz action =
     action @ '' '' @ segment_name kind @ '' addr='' @ show_nat addr @
     (if kind = Seg_Stack \<or> str_contains action ''allocated'' \<or> str_contains action ''freed''
      then '' size='' @ show_nat sz
      else if sz > 1 then '' size='' @ show_nat sz
      else [])"

definition format_bounds_fault_reason :: "segment_kind \<Rightarrow> i32 \<Rightarrow> string \<Rightarrow> string" where
  "format_bounds_fault_reason kind addr action =
     ''bounds fault'' @ '' segment='' @ segment_name kind @ '' addr='' @ show_sint addr @
     '' action='' @ action"

definition append_segment_reason :: "string \<Rightarrow> segment_kind \<Rightarrow> nat \<Rightarrow> string \<Rightarrow> string" where
  "append_segment_reason action kind addr base_reason =
     action @ '' segment='' @ segment_name kind @ '' addr='' @ show_nat addr @
     (if base_reason \<noteq> [] then '' '' @ base_reason else [])"

definition apply_segment_reason :: "verdict \<Rightarrow> string \<Rightarrow> segment_kind \<Rightarrow> nat \<Rightarrow> verdict" where
  "apply_segment_reason v action kind addr =
     v\<lparr>vreason := append_segment_reason action kind addr (vreason v)\<rparr>"

section \<open>Events\<close>

definition push_axion_event :: "state \<Rightarrow> axion_event \<Rightarrow> state" where
  "push_axion_event s e = s\<lparr>axion_log := axion_log s @ [e]\<rparr>"

definition log_meta_slot :: "state \<Rightarrow> string \<Rightarrow> state" where
  "log_meta_slot s label =
     (if \<not> seg_contains (meta_seg (layout s)) (meta_ptr s) then s
      else let e = \<lparr>ev_opcode = Op_Nop, ev_tag = Seg_Meta, ev_value = i64_of_size (meta_ptr s),
               ev_verdict = allow (''meta slot '' @ label @ '' segment='' @ segment_name Seg_Meta @
                 '' addr='' @ show_nat (meta_ptr s)),
               ev_structured = default_structured\<rparr>;
             s1 = push_axion_event s e
           in s1\<lparr>meta_ptr := meta_ptr s1 + 1\<rparr>)"

definition decision_text :: "verdict_kind \<Rightarrow> string" where
  "decision_text k = (case k of Allow \<Rightarrow> ''allow'' | Warn \<Rightarrow> ''warn'' | Defer \<Rightarrow> ''defer''
     | Deny \<Rightarrow> ''deny'')"

definition record_axion_event ::
    "state \<Rightarrow> nat \<Rightarrow> opcode \<Rightarrow> i32 \<Rightarrow> i64 \<Rightarrow> verdict \<Rightarrow> state" where
  "record_axion_event s cctx oper tag_val val_data v =
     (let s1 = log_meta_slot s ''axion event'';
          e = \<lparr>ev_opcode = oper, ev_tag = tag_val, ev_value = val_data, ev_verdict = v,
               ev_structured = default_structured
                 \<lparr>se_reason := vreason v,
                  se_pc := (if contexts s1 \<noteq> [] \<and> cctx < length (contexts s1)
                            then i64_of_size (pc (contexts s1 ! cctx)) else 0),
                  se_handle_id := val_data,
                  se_decision := decision_text (vkind v)\<rparr>\<rparr>
      in push_axion_event s1 e)"

definition log_memory_segment_access ::
    "state \<Rightarrow> nat \<Rightarrow> opcode \<Rightarrow> segment_kind \<Rightarrow> nat \<Rightarrow> nat \<Rightarrow> string \<Rightarrow> state" where
  "log_memory_segment_access s cctx oper kind addr sz action =
     record_axion_event s cctx oper kind (i64_of_size addr)
       (allow (format_memory_access_reason kind addr sz action))"

definition log_bounds_fault ::
    "state \<Rightarrow> nat \<Rightarrow> opcode \<Rightarrow> segment_kind \<Rightarrow> i32 \<Rightarrow> string \<Rightarrow> state" where
  "log_bounds_fault s cctx oper kind addr action =
     record_axion_event s cctx oper kind (i64_of_i32 addr)
       (allow (format_bounds_fault_reason kind addr action))"

section \<open>What logging leaves alone\<close>

text \<open>\<open>log_ext s s'\<close>: \<open>s'\<close> is \<open>s\<close> with more events and a meta pointer that has not moved back,
  still inside its segment.\<close>

definition log_ext :: "state \<Rightarrow> state \<Rightarrow> bool" where
  "log_ext s s' \<longleftrightarrow>
     s' = s\<lparr>axion_log := axion_log s', meta_ptr := meta_ptr s'\<rparr> \<and>
     (\<exists>evs. axion_log s' = axion_log s @ evs) \<and> meta_ptr s \<le> meta_ptr s' \<and>
     (meta_ptr s' = meta_ptr s \<or> meta_ptr s' \<le> seg_limit (meta_seg (layout s)))"

lemma log_ext_refl [simp]: "log_ext s s"
  by (simp add: log_ext_def)

lemma log_ext_select:
  assumes "log_ext s s'" "\<And>l m. f (s\<lparr>axion_log := l, meta_ptr := m\<rparr>) = f s"
  shows "f s' = f s"
proof -
  have "s' = s\<lparr>axion_log := axion_log s', meta_ptr := meta_ptr s'\<rparr>"
    using assms(1) by (simp only: log_ext_def)
  then have "f s' = f (s\<lparr>axion_log := axion_log s', meta_ptr := meta_ptr s'\<rparr>)" by (rule arg_cong)
  also have "\<dots> = f s" by (rule assms(2))
  finally show ?thesis .
qed

lemma log_ext_fields:
  assumes "log_ext s s'"
  shows "layout s' = layout s" "memory s' = memory s" "memory_tags s' = memory_tags s"
    "contexts s' = contexts s" "current_context s' = current_context s" "tensors s' = tensors s"
    "free_tensor_indices s' = free_tensor_indices s" "total_tensor_elements s' = total_tensor_elements s" "policy_opt s' = policy_opt s"
    "heap_frames s' = heap_frames s" "heap_ptr s' = heap_ptr s" "symbols s' = symbols s"
    "options s' = options s" "results s' = results s" "enums s' = enums s"
    "complexes s' = complexes s" "string_vectors s' = string_vectors s" "shapes s' = shapes s"
    "floats s' = floats s" "fractions s' = fractions s" "halted s' = halted s"
    "metrics s' = metrics s" "infinite_forms s' = infinite_forms s" "free_infinite_indices s' = free_infinite_indices s"
    "trace s' = trace s" "symbolic_graphs s' = symbolic_graphs s" "reflection_snapshots s' = reflection_snapshots s"
    "reflection_count s' = reflection_count s" "meta_write_count s' = meta_write_count s" "gc_cycles s' = gc_cycles s"
    "pending_faults s' = pending_faults s" "enum_metadata s' = enum_metadata s"
    "enum_metadata_index s' = enum_metadata_index s" "tier4_state s' = tier4_state s"
    "printed_output s' = printed_output s" "total_symbolic_nodes s' = total_symbolic_nodes s"
    "contradiction_events s' = contradiction_events s"
  by (rule log_ext_select [OF assms]; simp)+

lemma log_ext_trans:
  assumes "log_ext a b" "log_ext b c"
  shows "log_ext a c"
proof -
  have b: "b = a\<lparr>axion_log := axion_log b, meta_ptr := meta_ptr b\<rparr>"
    and c: "c = b\<lparr>axion_log := axion_log c, meta_ptr := meta_ptr c\<rparr>"
    using assms by (simp_all only: log_ext_def)
  have "b\<lparr>axion_log := axion_log c, meta_ptr := meta_ptr c\<rparr> =
      a\<lparr>axion_log := axion_log b, meta_ptr := meta_ptr b, axion_log := axion_log c,
        meta_ptr := meta_ptr c\<rparr>" by (rule arg_cong [OF b])
  also have "\<dots> = a\<lparr>axion_log := axion_log c, meta_ptr := meta_ptr c\<rparr>" by simp
  finally have "c = a\<lparr>axion_log := axion_log c, meta_ptr := meta_ptr c\<rparr>" by (rule trans [OF c])
  moreover have "\<exists>evs. axion_log c = axion_log a @ evs" "meta_ptr a \<le> meta_ptr c"
    "meta_ptr c = meta_ptr a \<or> meta_ptr c \<le> seg_limit (meta_seg (layout a))"
    using assms log_ext_fields(1) [OF assms(1)] by (auto simp: log_ext_def simp del: state.surjective)
  ultimately show ?thesis by (simp only: log_ext_def)
qed

lemma log_ext_push [simp]: "log_ext s (push_axion_event s e)"
  by (simp add: push_axion_event_def log_ext_def)

lemma log_ext_meta_slot [simp]: "log_ext s (log_meta_slot s label)"
  by (simp add: log_meta_slot_def push_axion_event_def log_ext_def seg_contains_def Let_def)

lemma log_ext_record_axion_event [simp]: "log_ext s (record_axion_event s cctx oper tag v r)"
  unfolding record_axion_event_def Let_def by (rule log_ext_trans [OF log_ext_meta_slot log_ext_push])

lemma log_ext_log_memory_segment_access [simp]:
  "log_ext s (log_memory_segment_access s cctx oper kind addr sz action)"
  by (simp add: log_memory_segment_access_def)

lemma log_ext_log_bounds_fault [simp]:
  "log_ext s (log_bounds_fault s cctx oper kind addr action)"
  by (simp add: log_bounds_fault_def)

text \<open>The new event comes last, and nothing is removed.\<close>

lemma record_axion_event_last:
  "axion_log (record_axion_event s cctx oper tag v r) \<noteq> []"
  "ev_verdict (last (axion_log (record_axion_event s cctx oper tag v r))) = r"
  "ev_opcode (last (axion_log (record_axion_event s cctx oper tag v r))) = oper"
  by (simp_all add: record_axion_event_def push_axion_event_def Let_def)

end
