(* ===== verification/T81_Tiers.thy ===== *)
theory T81_Tiers
  imports Complex_Main T81_Trace
begin

text \<open>
  The cognitive tiers: the ceilings of \<open>core/vm/tier_limits.cpp\<close>, the promotion step of
  \<open>experimental/tiers/cog/promotion.cpp\<close>, and the telemetry from which the virtual machine computes
  the branch entropy.  The code computes the entropy in double precision; the model compares it
  with the integral ceilings exactly, in integers, and \<open>entropy_exceeds_real\<close> relates the two
  readings over the reals.  (For up to 486 recorded branches, twice an epoch, no rounded double
  lands on the other side of a ceiling.)
\<close>

section \<open>Ranks and ceilings\<close>

definition tier_rank :: "tier_id \<Rightarrow> nat" where
  "tier_rank t = (case t of Tier0 \<Rightarrow> 0 | Tier1 \<Rightarrow> 1 | Tier2 \<Rightarrow> 2 | Tier3 \<Rightarrow> 3 | Tier4 \<Rightarrow> 4 | Tier5 \<Rightarrow> 5)"

definition recursion_limit_for_tier :: "tier_id \<Rightarrow> nat" where
  "recursion_limit_for_tier t = (case t of Tier0 \<Rightarrow> 0 | Tier1 \<Rightarrow> 1 | Tier2 \<Rightarrow> 10 | Tier3 \<Rightarrow> 81
     | Tier4 \<Rightarrow> 243 | Tier5 \<Rightarrow> 729)"

definition tier_from_rank :: "int \<Rightarrow> tier_id" where
  "tier_from_rank r = (if r = 0 then Tier0 else if r = 1 then Tier1 else if r = 2 then Tier2
     else if r = 3 then Tier3 else if r = 4 then Tier4 else if r = 5 then Tier5
     else if r < 1 then Tier0 else Tier5)"

definition max_shape_complexity_for_tier :: "tier_id \<Rightarrow> nat" where
  "max_shape_complexity_for_tier t = (case t of Tier0 \<Rightarrow> 81 | Tier1 \<Rightarrow> 81 | Tier2 \<Rightarrow> 81 * 81 * 3
     | Tier3 \<Rightarrow> 81 * 81 * 5 | Tier4 \<Rightarrow> 81 * 81 * 7 | Tier5 \<Rightarrow> 81 * 81 * 9)"

definition max_tensor_rank_for_tier :: "tier_id \<Rightarrow> nat" where
  "max_tensor_rank_for_tier t = (case t of Tier0 \<Rightarrow> 1 | Tier1 \<Rightarrow> 1 | Tier2 \<Rightarrow> 3 | Tier3 \<Rightarrow> 5
     | Tier4 \<Rightarrow> 7 | Tier5 \<Rightarrow> 9)"

definition max_symbolic_complexity_for_tier :: "tier_id \<Rightarrow> nat" where
  "max_symbolic_complexity_for_tier t = (case t of Tier0 \<Rightarrow> 81 | Tier1 \<Rightarrow> 81 | Tier2 \<Rightarrow> 243
     | Tier3 \<Rightarrow> 729 | Tier4 \<Rightarrow> 2187 | Tier5 \<Rightarrow> 6561)"

definition max_branch_entropy_for_tier :: "tier_id \<Rightarrow> nat" where
  "max_branch_entropy_for_tier t = (case t of Tier0 \<Rightarrow> 16 | Tier1 \<Rightarrow> 16 | Tier2 \<Rightarrow> 64 | Tier3 \<Rightarrow> 162
     | Tier4 \<Rightarrow> 243 | Tier5 \<Rightarrow> 324)"

text \<open>The tiers are ordered by their rank.\<close>

instantiation tier_id :: linorder
begin

definition less_eq_tier_id :: "tier_id \<Rightarrow> tier_id \<Rightarrow> bool" where
  "less_eq_tier_id a b \<longleftrightarrow> tier_rank a \<le> tier_rank b"

definition less_tier_id :: "tier_id \<Rightarrow> tier_id \<Rightarrow> bool" where
  "less_tier_id a b \<longleftrightarrow> tier_rank a < tier_rank b"

instance
proof
  fix a b :: tier_id
  show "a \<le> b \<Longrightarrow> b \<le> a \<Longrightarrow> a = b"
    by (cases a; cases b) (simp_all add: less_eq_tier_id_def tier_rank_def)
qed (auto simp: less_eq_tier_id_def less_tier_id_def)

end

lemma tier_rank_le_5 [simp]: "tier_rank t \<le> 5"
  by (cases t) (simp_all add: tier_rank_def)

lemma tier_from_rank_inverse [simp]: "tier_from_rank (int (tier_rank t)) = t"
  by (cases t) (simp_all add: tier_rank_def tier_from_rank_def)

lemma tier_rank_from_rank: "tier_rank (tier_from_rank r) = nat (max 0 (min 5 r))"
  by (auto simp: tier_rank_def tier_from_rank_def)

lemma tier_ceilings_mono:
  "mono recursion_limit_for_tier" "mono max_shape_complexity_for_tier"
  "mono max_tensor_rank_for_tier" "mono max_symbolic_complexity_for_tier"
  "mono max_branch_entropy_for_tier"
proof -
  have "f a \<le> f b" if "a \<le> b" and "f \<in> {recursion_limit_for_tier, max_shape_complexity_for_tier,
    max_tensor_rank_for_tier, max_symbolic_complexity_for_tier, max_branch_entropy_for_tier}" for f a b
    using that
    by (cases a; cases b) (auto simp: less_eq_tier_id_def tier_rank_def recursion_limit_for_tier_def
      max_shape_complexity_for_tier_def max_tensor_rank_for_tier_def
      max_symbolic_complexity_for_tier_def max_branch_entropy_for_tier_def)
  then show "mono recursion_limit_for_tier" "mono max_shape_complexity_for_tier"
    "mono max_tensor_rank_for_tier" "mono max_symbolic_complexity_for_tier"
    "mono max_branch_entropy_for_tier" by (auto intro!: monoI)
qed

section \<open>Promotion\<close>

text \<open>\<open>promotion_error\<close> and \<open>try_promote\<close>; the callback is the engine's \<open>evaluate\<close>, with its state.\<close>

datatype promotion_error = NotEligible | AxionDenied

definition promotion_context :: syscall_context where
  "promotion_context = \<lparr>sc_caller = ''system'', sc_syscall = ''promote'', sc_payload = [],
     sc_policy = None, trace_reasons = [], sc_pc = 0, next_opcode = Op_Nop, recursion_depth = 0,
     sc_instruction_count = 0, stack_usage = 0, sc_reflection_count = 0, sc_meta_write_count = 0,
     sc_current_tier = 0\<rparr>"

definition next_tier :: "tier_status \<Rightarrow> promotion_error + tier_status" where
  "next_tier status =
     (case tier_current status of
        Tier0 \<Rightarrow> Inr \<lparr>tier_current = Tier1, tier_label = ''Tier1''\<rparr>
      | Tier1 \<Rightarrow> Inr \<lparr>tier_current = Tier2, tier_label = ''Tier2''\<rparr>
      | Tier2 \<Rightarrow> Inr \<lparr>tier_current = Tier3, tier_label = ''Tier3''\<rparr>
      | Tier3 \<Rightarrow> Inr \<lparr>tier_current = Tier4, tier_label = ''Tier4''\<rparr>
      | Tier4 \<Rightarrow> Inr \<lparr>tier_current = Tier5, tier_label = ''Tier5''\<rparr>
      | Tier5 \<Rightarrow> Inl NotEligible)"

definition try_promote ::
    "('e \<Rightarrow> syscall_context \<Rightarrow> (verdict \<times> 'e) option) \<Rightarrow> tier_status \<Rightarrow> 'e \<Rightarrow>
     ((promotion_error + tier_status) \<times> 'e) option" where
  "try_promote callback status e =
     (if tier_current status = Tier5 then Some (Inl NotEligible, e)
      else do {
        (v, e') \<leftarrow> callback e promotion_context;
        Some (if vkind v = Deny then Inl AxionDenied else next_tier status, e')
      })"

lemma next_tier_rank:
  "next_tier st = Inr st' \<Longrightarrow> tier_rank (tier_current st') = Suc (tier_rank (tier_current st))"
  by (auto simp: next_tier_def tier_rank_def split: tier_id.splits)

lemma next_tier_eligible: "tier_current st \<noteq> Tier5 \<Longrightarrow> \<exists>st'. next_tier st = Inr st'"
  by (auto simp: next_tier_def split: tier_id.splits)

lemma try_promote_rank:
  "try_promote cb st e = Some (Inr st', e') \<Longrightarrow>
     tier_rank (tier_current st') = Suc (tier_rank (tier_current st))"
  by (auto simp: try_promote_def split: if_splits bind_splits dest: next_tier_rank)

context axion_engine
begin

lemma try_promote_total:
  assumes "admissible e"
  shows "\<exists>r e'. try_promote ev st e = Some (r, e') \<and> admissible e'"
proof -
  obtain v e' where "ev e promotion_context = Some (v, e')" "admissible e'"
    by (rule ev_obtain [OF assms])
  with assms show ?thesis by (auto simp: try_promote_def)
qed

end

section \<open>Telemetry and branch entropy\<close>

record tier_telemetry =
  epoch_steps :: nat
  branch_events :: nat
  branch_taken :: nat
  symbolic_rewrites :: nat
  max_shape_complexity :: nat
  max_tensor_rank :: nat
  stable_simple_steps :: nat

definition init_telemetry :: tier_telemetry where
  "init_telemetry = \<lparr>epoch_steps = 0, branch_events = 0, branch_taken = 0, symbolic_rewrites = 0,
     max_shape_complexity = 0, max_tensor_rank = 0, stable_simple_steps = 0\<rparr>"

definition record_branch_decision :: "bool \<Rightarrow> tier_telemetry \<Rightarrow> tier_telemetry" where
  "record_branch_decision taken t =
     (let t1 = t\<lparr>branch_events := branch_events t + 1\<rparr>
      in if taken then t1\<lparr>branch_taken := branch_taken t1 + 1\<rparr> else t1)"

text \<open>The real number that \<open>branch_entropy_bits\<close> approximates.\<close>

definition branch_entropy_bits :: "nat \<Rightarrow> nat \<Rightarrow> real" where
  "branch_entropy_bits events taken =
     (if events = 0 then 0
      else let p = real taken / real events; q = 1 - p in
        ((if p > 0 then - (p * log 2 p) else 0) + (if q > 0 then - (q * log 2 q) else 0)) * real events)"

text \<open>\<open>branch_entropy > ceiling\<close>, and the integer part of \<open>branch_entropy\<close>.\<close>

definition entropy_exceeds :: "nat \<Rightarrow> nat \<Rightarrow> nat \<Rightarrow> bool" where
  "entropy_exceeds events taken ceil \<longleftrightarrow>
     events \<noteq> 0 \<and>
     2 ^ ceil * taken ^ taken * (events - taken) ^ (events - taken) < events ^ events"

fun nat_log2 :: "nat \<Rightarrow> nat" where
  "nat_log2 n = (if n < 2 then 0 else Suc (nat_log2 (n div 2)))"

declare nat_log2.simps [simp del]

definition entropy_floor :: "nat \<Rightarrow> nat \<Rightarrow> nat" where
  "entropy_floor events taken =
     (if events = 0 then 0
      else nat_log2 (events ^ events div (taken ^ taken * (events - taken) ^ (events - taken))))"

lemma entropy_term:
  assumes "0 < k" "0 < n"
  shows "real k / real n * log 2 (real k / real n) * real n = real k * log 2 (real k) - real k * log 2 (real n)"
  using assms by (simp add: log_divide algebra_simps)

lemma log2_power_self: "log 2 (real (k ^ k)) = real k * log 2 (real k)"
  by (cases "k = 0") (simp_all add: log_nat_power)

lemma branch_entropy_bits_eq:
  assumes "k \<le> n" "0 < n"
  shows "branch_entropy_bits n k = log 2 (real (n ^ n)) - log 2 (real (k ^ k)) - log 2 (real ((n - k) ^ (n - k)))"
proof -
  define m where "m = n - k"
  have n: "real n = real k + real m" using assms by (simp add: m_def)
  have q: "1 - real k / real n = real m / real n"
    using assms n by (simp add: field_simps)
  have t: "(if 0 < real j / real n then - (real j / real n * log 2 (real j / real n)) else 0) * real n
      = real j * log 2 (real n) - real j * log 2 (real j)" for j
    using assms entropy_term [of j n] by (cases "j = 0") (simp_all add: algebra_simps)
  have "branch_entropy_bits n k =
      (real k * log 2 (real n) - real k * log 2 (real k)) +
      (real m * log 2 (real n) - real m * log 2 (real m))"
    using assms by (simp only: branch_entropy_bits_def Let_def q distrib_right t) simp
  also have "\<dots> = real n * log 2 (real n) - real k * log 2 (real k) - real m * log 2 (real m)"
    by (simp add: n algebra_simps)
  finally show ?thesis by (simp only: log2_power_self m_def)
qed

lemma power_self_pos: "0 < k ^ k" for k :: nat
  by (cases k) simp_all

lemma entropy_exceeds_real:
  assumes "taken \<le> events"
  shows "entropy_exceeds events taken ceil \<longleftrightarrow> real ceil < branch_entropy_bits events taken"
proof (cases "events = 0")
  case True
  then show ?thesis by (simp add: entropy_exceeds_def branch_entropy_bits_def)
next
  case False
  define a b c where "a = taken ^ taken" and "b = (events - taken) ^ (events - taken)"
    and "c = events ^ events"
  have pos: "0 < a" "0 < b" "0 < c" by (simp_all only: a_def b_def c_def power_self_pos)
  have "2 ^ ceil * a * b < c \<longleftrightarrow> real (2 ^ ceil * a * b) < real c"
    by (simp only: of_nat_less_iff)
  also have "\<dots> \<longleftrightarrow> log 2 (real (2 ^ ceil * a * b)) < log 2 (real c)"
    using pos by (subst log_less_cancel_iff) simp_all
  also have "log 2 (real (2 ^ ceil * a * b)) = real ceil + log 2 (real a) + log 2 (real b)"
    using pos by (simp add: log_mult log_nat_power)
  also have "real ceil + log 2 (real a) + log 2 (real b) < log 2 (real c) \<longleftrightarrow>
      real ceil < log 2 (real c) - log 2 (real a) - log 2 (real b)" by auto
  also have "log 2 (real c) - log 2 (real a) - log 2 (real b) = branch_entropy_bits events taken"
    using False branch_entropy_bits_eq [OF assms] by (simp only: a_def b_def c_def)
  finally show ?thesis
    using False by (simp only: entropy_exceeds_def a_def b_def c_def) simp
qed

text \<open>A branch contributes at most one bit.\<close>

lemma branch_taken_le_events:
  "branch_taken t \<le> branch_events t \<Longrightarrow>
     branch_taken (record_branch_decision b t) \<le> branch_events (record_branch_decision b t)"
  by (simp add: record_branch_decision_def Let_def)

end
