(* ===== verification/Properties_Policy.thy ===== *)
theory Properties_Policy
  imports T81_Tiers T81_Trace
begin

text \<open>
  Properties of the policy kernel: the policy parser, the Axion engines, the tiers they guard and
  the event log they read.
\<close>

section \<open>Parsing and evaluating policies\<close>

lemma engine_ok_make: "bytecode p = [] \<Longrightarrow> engine_ok (make_policy_engine (Some p))"
  by (simp add: engine_ok_def make_policy_engine_def)

text \<open>C7: A policy that parses is well-formed (no requirement is empty, and no bytecode is attached),
  and the engine built on it returns a verdict for every call of every sequence of calls.\<close>
theorem parsed_policy_evaluates:
  assumes "parse_policy src = Inr p"
  shows "policy_wf p \<and>
    (\<exists>vs e. eval_calls evaluate (make_policy_engine (Some p)) cs = Some (vs, e) \<and> length vs = length cs)"
proof
  show wf: "policy_wf p" by (rule parse_policy_wf [OF assms])
  then have "engine_ok (make_policy_engine (Some p))" by (simp add: engine_ok_make policy_wf_def)
  from vm_engine.eval_calls_total [OF this, of cs] show
    "\<exists>vs e. eval_calls evaluate (make_policy_engine (Some p)) cs = Some (vs, e) \<and> length vs = length cs"
    by blast
qed

lemma parse_example:
  "parse_policy ''(policy (tier 2) (require-axion-event (reason halt)) (max-stack 81))'' =
     Inr (default_policy\<lparr>pol_tier := 2, axion_event_requirements := [''halt''], max_stack := Some 81\<rparr>)"
  by code_simp

theorem parsed_policy_evaluates_witness:
  "policy_wf (default_policy\<lparr>pol_tier := 2, axion_event_requirements := [''halt''], max_stack := Some 81\<rparr>)"
  using parsed_policy_evaluates [OF parse_example] by blast

text \<open>The recursion ceiling cannot be argued away: whatever the policy and however long the
  sequence of calls, the engine denies every call made at a recursion depth of 729 or more.\<close>
theorem recursion_ceiling_denied:
  assumes "policy_engine_ok e" "eval_calls evaluate e cs = Some (vs, e')" "i < length cs"
    "729 \<le> recursion_depth (cs ! i)"
  shows "vkind (vs ! i) = Deny"
  by (rule vm_policy_engine.eval_calls_ceiling [OF assms(1-3)])
    (use assms(4) in \<open>simp add: T81_HARD_RECURSION_CEILING_def\<close>)

definition demo_call :: "nat \<Rightarrow> syscall_context" where
  "demo_call depth = promotion_context\<lparr>recursion_depth := depth\<rparr>"

theorem recursion_ceiling_denied_witness:
  "\<exists>vs e'. eval_calls evaluate (make_policy_engine None) [demo_call 3, demo_call 800] = Some (vs, e') \<and>
     vkind (vs ! 1) = Deny"
proof -
  have ok: "policy_engine_ok (make_policy_engine None)"
    by (simp add: policy_engine_ok_def make_policy_engine_def)
  obtain vs e' where "eval_calls evaluate (make_policy_engine None) [demo_call 3, demo_call 800] = Some (vs, e')"
    using vm_policy_engine.eval_calls_total [OF ok] by blast
  with recursion_ceiling_denied [OF ok this, of 1] show ?thesis by (auto simp: demo_call_def)
qed



text \<open>A loop requirement, once satisfied, stays satisfied: over any sequence of calls the engine
  keeps its policy, the text of every requirement, and every flag that is set.\<close>
theorem loop_requirements_sticky:
  assumes "eval_calls evaluate (PolicyEngine pol reqs) cs = Some (vs, e)"
  shows "\<exists>reqs'. e = PolicyEngine pol reqs' \<and>
    list_all2 (\<lambda>a b. fst a = fst b \<and> (\<not> snd a \<or> snd b)) reqs reqs'"
proof -
  have "\<exists>reqs'. e = PolicyEngine pol reqs' \<and> reqs_le reqs reqs'"
    using assms
  proof (induction cs arbitrary: reqs vs)
    case (Cons c cs)
    then obtain v e1 ws where v: "evaluate (PolicyEngine pol reqs) c = Some (v, e1)"
      and w: "eval_calls evaluate e1 cs = Some (ws, e)" by (auto split: bind_splits)
    from v obtain reqs1 where r: "e1 = PolicyEngine pol reqs1"
      and le: "policy_evaluate pol reqs c = Some (v, reqs1)" by (auto simp: evaluate_def)
    from Cons.IH [OF w [unfolded r]] reqs_le_trans [OF policy_evaluate_le [OF le]] show ?case by blast
  qed auto
  then show ?thesis by (simp add: reqs_le_def)
qed

theorem loop_requirements_sticky_witness:
  "\<exists>vs reqs'. eval_calls evaluate (PolicyEngine None [(''loop hint'', True)]) [demo_call 3, demo_call 5] =
     Some (vs, PolicyEngine None reqs') \<and> list_all2 (\<lambda>a b. fst a = fst b \<and> (\<not> snd a \<or> snd b)) [(''loop hint'', True)] reqs'"
proof -
  have "policy_engine_ok (PolicyEngine None [(''loop hint'', True)])" by (simp add: policy_engine_ok_def)
  then obtain vs e where
    ev: "eval_calls evaluate (PolicyEngine None [(''loop hint'', True)]) [demo_call 3, demo_call 5] = Some (vs, e)"
    using vm_policy_engine.eval_calls_total by blast
  from loop_requirements_sticky [OF ev] ev show ?thesis by blast
qed

section \<open>Tiers\<close>

text \<open>A promotion is one step up: it raises the rank by one, the recursion limit strictly and the
  other ceilings weakly, and no tier allows a recursion beyond the hard ceiling.\<close>
theorem promotion_one_step:
  assumes "try_promote evaluate status e = Some (Inr status', e')"
  shows "(tier_rank (tier_current status') = Suc (tier_rank (tier_current status))) \<and>
    (recursion_limit_for_tier (tier_current status) < recursion_limit_for_tier (tier_current status')) \<and>
    (recursion_limit_for_tier (tier_current status') \<le> T81_HARD_RECURSION_CEILING) \<and>
    (max_shape_complexity_for_tier (tier_current status) \<le> max_shape_complexity_for_tier (tier_current status') \<and>
     max_tensor_rank_for_tier (tier_current status) \<le> max_tensor_rank_for_tier (tier_current status') \<and>
     max_symbolic_complexity_for_tier (tier_current status) \<le> max_symbolic_complexity_for_tier (tier_current status') \<and>
     max_branch_entropy_for_tier (tier_current status) \<le> max_branch_entropy_for_tier (tier_current status'))"
proof -
  have rank: "tier_rank (tier_current status') = Suc (tier_rank (tier_current status))"
    by (rule try_promote_rank [OF assms])
  then have le: "tier_current status \<le> tier_current status'" by (simp add: less_eq_tier_id_def)
  then have r2: "max_shape_complexity_for_tier (tier_current status) \<le> max_shape_complexity_for_tier (tier_current status') \<and>
     max_tensor_rank_for_tier (tier_current status) \<le> max_tensor_rank_for_tier (tier_current status') \<and>
     max_symbolic_complexity_for_tier (tier_current status) \<le> max_symbolic_complexity_for_tier (tier_current status') \<and>
     max_branch_entropy_for_tier (tier_current status) \<le> max_branch_entropy_for_tier (tier_current status')"
    using tier_ceilings_mono by (simp add: mono_def)
  have r3: "recursion_limit_for_tier (tier_current status) < recursion_limit_for_tier (tier_current status')"
    using rank by (cases "tier_current status"; cases "tier_current status'")
      (simp_all add: tier_rank_def recursion_limit_for_tier_def)
  have r4: "recursion_limit_for_tier (tier_current status') \<le> T81_HARD_RECURSION_CEILING"
    by (cases "tier_current status'") (simp_all add: recursion_limit_for_tier_def T81_HARD_RECURSION_CEILING_def)
  from rank r2 r3 r4 show ?thesis by blast
qed

theorem promotion_one_step_witness:
  "try_promote evaluate \<lparr>tier_current = Tier2, tier_label = ''Tier2''\<rparr> AllowAll =
     Some (Inr \<lparr>tier_current = Tier3, tier_label = ''Tier3''\<rparr>, AllowAll) \<and>
   recursion_limit_for_tier Tier2 < recursion_limit_for_tier Tier3"
proof
  show p: "try_promote evaluate \<lparr>tier_current = Tier2, tier_label = ''Tier2''\<rparr> AllowAll =
     Some (Inr \<lparr>tier_current = Tier3, tier_label = ''Tier3''\<rparr>, AllowAll)"
    by (simp add: try_promote_def evaluate_def next_tier_def allow_def)
  from promotion_one_step [OF p] show "recursion_limit_for_tier Tier2 < recursion_limit_for_tier Tier3"
    by simp
qed

text \<open>The integer test of the branch entropy against a tier's ceiling decides the real-valued
  comparison of the code's formula, and a branch decision keeps the counters consistent.\<close>
theorem branch_entropy_test_exact:
  assumes "branch_taken t \<le> branch_events t"
  shows "(entropy_exceeds (branch_events (record_branch_decision b t)) (branch_taken (record_branch_decision b t)) bound \<longleftrightarrow>
     real bound < branch_entropy_bits (branch_events (record_branch_decision b t))
       (branch_taken (record_branch_decision b t))) \<and>
    branch_taken (record_branch_decision b t) \<le> branch_events (record_branch_decision b t)"
  using entropy_exceeds_real [OF branch_taken_le_events [OF assms]] branch_taken_le_events [OF assms]
  by simp_all

theorem branch_entropy_test_exact_witness:
  "branch_taken (record_branch_decision True init_telemetry) \<le> branch_events (record_branch_decision True init_telemetry)"
  using branch_entropy_test_exact [of init_telemetry True] by (simp add: init_telemetry_def)

section \<open>The event log\<close>

text \<open>The Axion log is append-only: recording an event adds it, with its verdict, at the end,
  after at most one notice that a meta slot was consumed, and changes nothing else of the machine
  but the meta pointer.\<close>
theorem axion_log_append_only:
  "\<exists>notice e. axion_log (record_axion_event s cctx oper tag v r) = axion_log s @ notice @ [e] \<and>
     length notice \<le> 1 \<and> ev_opcode e = oper \<and> ev_tag e = tag \<and> ev_value e = v \<and> ev_verdict e = r \<and>
     record_axion_event s cctx oper tag v r =
       s\<lparr>axion_log := axion_log s @ notice @ [e], meta_ptr := meta_ptr s + length notice\<rparr>"
  by (cases "seg_contains (meta_seg (layout s)) (meta_ptr s)")
    (simp_all add: record_axion_event_def log_meta_slot_def push_axion_event_def Let_def)

end
