(* ===== verification/T81_Sysregs.thy ===== *)
theory T81_Sysregs
  imports T81_State
begin

text \<open>
  The system registers: \<open>core/vm/runtime_state_helpers.cpp\<close>.  \<open>R0\<close> reads zero, and
  \<open>R75\<close> to \<open>R80\<close> hold the tick, the lineage and entropy signatures (FNV-1a hashes), the
  constitutional mask, the recursion depth and the seal.
\<close>

section \<open>Signatures\<close>

definition fnv1a64 :: "u64 \<Rightarrow> u64 \<Rightarrow> u64" where
  "fnv1a64 h v = fold (\<lambda>i acc. (acc XOR (drop_bit (i * 8) v AND 0xFF)) * 1099511628211) [0 ..< 8] h"

text \<open>The sign bit is cleared, and zero is avoided.\<close>
definition finish_signature :: "u64 \<Rightarrow> i64" where
  "finish_signature h = (let sig = h AND 0x7FFFFFFFFFFFFFFF in if sig = 0 then 1 else sig)"

definition hash_insn :: "u64 \<Rightarrow> insn \<Rightarrow> u64" where
  "hash_insn h i =
     (let h = fnv1a64 h (ucast (opcode i));
          h = fnv1a64 h (scast (op_a i));
          h = fnv1a64 h (op_b i);
          h = fnv1a64 h (scast (op_c i))
      in fnv1a64 h (ucast (literal_kind i)))"

definition hash_text :: "u64 \<Rightarrow> string \<Rightarrow> u64" where
  "hash_text = foldl (\<lambda>h ch. fnv1a64 h (of_char ch))"

definition compute_lineage_signature :: "program \<Rightarrow> i64" where
  "compute_lineage_signature p =
     (let h = fnv1a64 1469598103934665603 (word_of_nat (length (insns p)));
          h = foldl hash_insn h (insns p);
          h = hash_text h (axion_policy_text p);
          h = hash_text h (match_metadata_text p)
      in finish_signature h)"

definition compute_entropy_signature :: "nat \<Rightarrow> nat \<Rightarrow> thread_ctx \<Rightarrow> i64" where
  "compute_entropy_signature count contradictions ctx =
     (let h = fnv1a64 1469598103934665603 (word_of_nat count);
          h = fnv1a64 h (word_of_nat contradictions);
          h = fnv1a64 h (word_of_nat (call_depth ctx));
          h = fnv1a64 h (word_of_nat (length (stack_frames ctx)));
          h = fnv1a64 h (word_of_nat (pc ctx));
          h = fnv1a64 h (case tier_current (tier_status ctx) of Tier0 \<Rightarrow> 0 | Tier1 \<Rightarrow> 1 | Tier2 \<Rightarrow> 2
                | Tier3 \<Rightarrow> 3 | Tier4 \<Rightarrow> 4 | Tier5 \<Rightarrow> 5)
      in finish_signature h)"

definition mask_bit :: "bool \<Rightarrow> nat \<Rightarrow> i64" where
  "mask_bit b n = (if b then push_bit n 1 else 0)"

definition compute_constitutional_mask :: "state \<Rightarrow> i64" where
  "compute_constitutional_mask s =
     (case policy_opt s of
        None \<Rightarrow> 0
      | Some p \<Rightarrow>
          mask_bit True 0 OR mask_bit (max_instructions p \<noteq> None) 1 OR
          mask_bit (max_recursion p \<noteq> None) 2 OR mask_bit (max_stack p \<noteq> None) 3 OR
          mask_bit (max_reflections p \<noteq> None) 4 OR mask_bit (max_meta_writes p \<noteq> None) 5 OR
          mask_bit (allowed_tensor_hashes p \<noteq> []) 6 OR mask_bit (match_guards p \<noteq> []) 7 OR
          mask_bit (segment_requirements p \<noteq> [] \<or> axion_event_requirements p \<noteq> []) 8 OR
          mask_bit (alignment_requirements p \<noteq> []) 9)"

section \<open>Synchronisation\<close>

definition set_system_register :: "nat \<Rightarrow> i64 \<Rightarrow> thread_ctx \<Rightarrow> thread_ctx" where
  "set_system_register i v ctx =
     ctx\<lparr>registers := (registers ctx)[i := v], register_tags := (register_tags ctx)[i := VT_Int]\<rparr>"

definition sync_context :: "state \<Rightarrow> program \<Rightarrow> nat \<Rightarrow> thread_ctx \<Rightarrow> thread_ctx" where
  "sync_context s p count ctx =
     (let ctx = set_system_register 0 0 ctx;
          ctx = set_system_register 75 (i64_of_size count) ctx;
          ctx = set_system_register 76 (compute_lineage_signature p) ctx;
          ctx = set_system_register 77
                  (compute_entropy_signature count (contradiction_events s) ctx) ctx;
          ctx = set_system_register 78 (compute_constitutional_mask s) ctx;
          ctx = set_system_register 79
                  (i64_of_size (max (length (stack_frames ctx)) (call_depth ctx))) ctx
      in set_system_register 80 (if halted s then 0 else 1) ctx)"

definition sync_system_registers :: "state \<Rightarrow> program \<Rightarrow> nat \<Rightarrow> nat \<Rightarrow> state" where
  "sync_system_registers s p count cctx =
     (if contexts s = [] \<or> length (contexts s) \<le> cctx then s
      else s\<lparr>contexts := (contexts s)[cctx := sync_context s p count (contexts s ! cctx)]\<rparr>)"

section \<open>Facts\<close>

text \<open>The registers that programs cannot own.\<close>
definition reserved_reg :: "nat \<Rightarrow> bool" where
  "reserved_reg i \<longleftrightarrow> i = 0 \<or> 75 \<le> i \<and> i \<le> 80"

lemma and_mask63: "(h :: u64) AND 0x7FFFFFFFFFFFFFFF = take_bit 63 h"
  by (simp add: take_bit_eq_mask mask_eq_exp_minus_1)

lemma finish_signature_range: "0 < sint (finish_signature h)" "finish_signature h \<noteq> 0"
proof -
  have sig: "0 \<le> sint (take_bit 63 h)" for h :: u64
    by (simp add: sint_uint signed_take_bit_eq_if_positive bit_simps)
  have "sint w \<noteq> 0 \<longleftrightarrow> w \<noteq> 0" for w :: i64 by simp
  with sig [of h] show "0 < sint (finish_signature h)" "finish_signature h \<noteq> 0"
    by (simp_all add: finish_signature_def and_mask63 Let_def order_le_neq_trans)
qed

lemma set_system_register_sel [simp]:
  "registers (set_system_register i v ctx) = (registers ctx)[i := v]"
  "register_tags (set_system_register i v ctx) = (register_tags ctx)[i := VT_Int]"
  "stack_frames (set_system_register i v ctx) = stack_frames ctx"
  "call_depth (set_system_register i v ctx) = call_depth ctx"
  "pc (set_system_register i v ctx) = pc ctx"
  "sp (set_system_register i v ctx) = sp ctx"
  "flags (set_system_register i v ctx) = flags ctx"
  "tier_status (set_system_register i v ctx) = tier_status ctx"
  "stack_base (set_system_register i v ctx) = stack_base ctx"
  "stack_limit (set_system_register i v ctx) = stack_limit ctx"
  "ctx_halted (set_system_register i v ctx) = ctx_halted ctx"
  "tier2_frames (set_system_register i v ctx) = tier2_frames ctx"
  "tier3_recursor (set_system_register i v ctx) = tier3_recursor ctx"
  "active (set_system_register i v ctx) = active ctx"
  by (simp_all add: set_system_register_def)

lemma sync_context_sel [simp]:
  "stack_frames (sync_context s p n ctx) = stack_frames ctx"
  "call_depth (sync_context s p n ctx) = call_depth ctx"
  "pc (sync_context s p n ctx) = pc ctx"
  "sp (sync_context s p n ctx) = sp ctx"
  "flags (sync_context s p n ctx) = flags ctx"
  "tier_status (sync_context s p n ctx) = tier_status ctx"
  "stack_base (sync_context s p n ctx) = stack_base ctx"
  "stack_limit (sync_context s p n ctx) = stack_limit ctx"
  "ctx_halted (sync_context s p n ctx) = ctx_halted ctx"
  "tier2_frames (sync_context s p n ctx) = tier2_frames ctx"
  "tier3_recursor (sync_context s p n ctx) = tier3_recursor ctx"
  "length (registers (sync_context s p n ctx)) = length (registers ctx)"
  "length (register_tags (sync_context s p n ctx)) = length (register_tags ctx)"
  by (simp_all add: sync_context_def Let_def)

lemma sync_context_ordinary:
  "\<not> reserved_reg i \<Longrightarrow> registers (sync_context s p n ctx) ! i = registers ctx ! i"
  "\<not> reserved_reg i \<Longrightarrow> register_tags (sync_context s p n ctx) ! i = register_tags ctx ! i"
  by (auto simp: sync_context_def Let_def reserved_reg_def)

lemma sync_context_reserved:
  assumes "80 < length (registers ctx)"
  shows "registers (sync_context s p n ctx) ! 0 = 0"
    "registers (sync_context s p n ctx) ! 75 = i64_of_size n"
    "registers (sync_context s p n ctx) ! 76 = compute_lineage_signature p"
    "registers (sync_context s p n ctx) ! 78 = compute_constitutional_mask s"
    "registers (sync_context s p n ctx) ! 79 = i64_of_size (max (length (stack_frames ctx)) (call_depth ctx))"
    "registers (sync_context s p n ctx) ! 80 = (if halted s then 0 else 1)"
proof -
  from assms have "registers ctx \<noteq> []" by auto
  with assms show "registers (sync_context s p n ctx) ! 0 = 0"
    "registers (sync_context s p n ctx) ! 75 = i64_of_size n"
    "registers (sync_context s p n ctx) ! 76 = compute_lineage_signature p"
    "registers (sync_context s p n ctx) ! 78 = compute_constitutional_mask s"
    "registers (sync_context s p n ctx) ! 79 = i64_of_size (max (length (stack_frames ctx)) (call_depth ctx))"
    "registers (sync_context s p n ctx) ! 80 = (if halted s then 0 else 1)"
    by (simp_all add: sync_context_def Let_def nth_list_update)
qed

lemma sync_context_tags:
  assumes "80 < length (register_tags ctx)" "reserved_reg i"
  shows "register_tags (sync_context s p n ctx) ! i = VT_Int"
proof -
  from assms(2) have "i \<in> {0, 75, 76, 77, 78, 79, 80}" unfolding reserved_reg_def by force
  moreover from assms(1) have "register_tags ctx \<noteq> []" by auto
  ultimately show ?thesis
    using assms(1) by (elim insertE; simp add: sync_context_def Let_def nth_list_update)
qed

end
