(* ===== verification/T81_Gc.thy ===== *)
theory T81_Gc
  imports T81_State
begin

text \<open>
  The garbage collector: \<open>core/vm/gc_helpers.cpp\<close>.  The bit vectors of the marking phase are the sets
  of the indices whose bit is set.  A value points to at most one other value, the payload of the
  option, result or enum it is a handle of; the marking follows these pointers from every register,
  memory cell and snapshot register, and stops at a handle it has already visited.
\<close>

section \<open>Marking\<close>

record marks =
  marked_tensors :: "nat set"
  marked_infinite_forms :: "nat set"
  visited_options :: "nat set"
  visited_results :: "nat set"
  visited_enums :: "nat set"

definition no_marks :: marks where
  "no_marks = \<lparr>marked_tensors = {}, marked_infinite_forms = {}, visited_options = {},
     visited_results = {}, visited_enums = {}\<rparr>"

definition mark_tensor :: "state \<Rightarrow> i64 \<Rightarrow> marks \<Rightarrow> marks" where
  "mark_tensor s handle m =
     (if sint handle \<le> 0 then m
      else let idx = size_of_i64 (handle - 1) in
        if idx < length (tensors s) then m\<lparr>marked_tensors := insert idx (marked_tensors m)\<rparr> else m)"

definition mark_infinite :: "state \<Rightarrow> i64 \<Rightarrow> marks \<Rightarrow> marks" where
  "mark_infinite s handle m =
     (if sint handle \<le> 0 then m
      else let idx = size_of_i64 (handle - 1) in
        if idx < length (infinite_forms s)
        then m\<lparr>marked_infinite_forms := insert idx (marked_infinite_forms m)\<rparr> else m)"

function (sequential) scan_value :: "state \<Rightarrow> value_tag \<Rightarrow> i64 \<Rightarrow> marks \<Rightarrow> marks" where
  "scan_value s tag val m =
     (if tag = VT_TensorHandle then mark_tensor s val m
      else if tag = VT_OptionHandle then
        if sint val \<le> 0 then m
        else let idx = size_of_i64 (val - 1) in
          if idx < length (options s) \<and> idx \<notin> visited_options m
          then scan_value s (opt_payload_tag (options s ! idx)) (opt_payload (options s ! idx))
                 (m\<lparr>visited_options := insert idx (visited_options m)\<rparr>)
          else m
      else if tag = VT_ResultHandle then
        if sint val \<le> 0 then m
        else let idx = size_of_i64 (val - 1) in
          if idx < length (results s) \<and> idx \<notin> visited_results m
          then scan_value s (res_payload_tag (results s ! idx)) (res_payload (results s ! idx))
                 (m\<lparr>visited_results := insert idx (visited_results m)\<rparr>)
          else m
      else if tag = VT_EnumHandle then
        if sint val \<le> 0 then m
        else let idx = size_of_i64 (val - 1) in
          if idx < length (enums s) \<and> idx \<notin> visited_enums m
          then let m' = m\<lparr>visited_enums := insert idx (visited_enums m)\<rparr> in
            if has_payload (enums s ! idx)
            then scan_value s (enum_payload_tag (enums s ! idx)) (enum_payload (enums s ! idx)) m'
            else m'
          else m
      else if tag = VT_InfiniteHandle then mark_infinite s val m
      else m)"
  by pat_completeness auto

text \<open>Each nested scan visits a handle for the first time.\<close>

definition unvisited :: "state \<Rightarrow> marks \<Rightarrow> nat" where
  "unvisited s m = card ({..<length (options s)} - visited_options m) +
     card ({..<length (results s)} - visited_results m) + card ({..<length (enums s)} - visited_enums m)"

lemma unvisited_less:
  "i < length (options s) \<Longrightarrow> i \<notin> visited_options m \<Longrightarrow>
     unvisited s (m\<lparr>visited_options := insert i (visited_options m)\<rparr>) < unvisited s m"
  "i < length (results s) \<Longrightarrow> i \<notin> visited_results m \<Longrightarrow>
     unvisited s (m\<lparr>visited_results := insert i (visited_results m)\<rparr>) < unvisited s m"
  "i < length (enums s) \<Longrightarrow> i \<notin> visited_enums m \<Longrightarrow>
     unvisited s (m\<lparr>visited_enums := insert i (visited_enums m)\<rparr>) < unvisited s m"
proof -
  have *: "card ({..<n} - insert i V) < card ({..<n} - V)" if "i < n" "i \<notin> V" for n :: nat and V
    using that by (intro psubset_card_mono) auto
  show "i < length (options s) \<Longrightarrow> i \<notin> visited_options m \<Longrightarrow>
     unvisited s (m\<lparr>visited_options := insert i (visited_options m)\<rparr>) < unvisited s m"
  "i < length (results s) \<Longrightarrow> i \<notin> visited_results m \<Longrightarrow>
     unvisited s (m\<lparr>visited_results := insert i (visited_results m)\<rparr>) < unvisited s m"
  "i < length (enums s) \<Longrightarrow> i \<notin> visited_enums m \<Longrightarrow>
     unvisited s (m\<lparr>visited_enums := insert i (visited_enums m)\<rparr>) < unvisited s m"
    unfolding unvisited_def using * by (simp_all del: card_Diff_insert)
qed

termination scan_value
  by (relation "measure (\<lambda>(s, _, _, m). unvisited s m)") (auto simp: unvisited_less)

declare scan_value.simps [simp del]

text \<open>The roots, in the order they are scanned.\<close>

definition gc_roots :: "state \<Rightarrow> (value_tag \<times> i64) list" where
  "gc_roots s =
     concat (map (\<lambda>ctx. zip (register_tags ctx) (registers ctx)) (contexts s)) @
     zip (memory_tags s) (memory s) @
     concat (map (\<lambda>snap. zip (snap_register_tags snap) (snap_registers snap)) (reflection_snapshots s))"

definition mark_all :: "state \<Rightarrow> marks" where
  "mark_all s = fold (\<lambda>(tag, val). scan_value s tag val) (gc_roots s) no_marks"

section \<open>Sweeping\<close>

record gc_counts =
  reclaimed_tensors :: nat
  reclaimed_infinite_forms :: nat

definition sweep_tensor :: "nat set \<Rightarrow> nat \<Rightarrow> state \<times> nat \<Rightarrow> state \<times> nat" where
  "sweep_tensor marked i = (\<lambda>(s, n).
     case tensors s ! i of
       Some t \<Rightarrow> if i \<notin> marked
         then (s\<lparr>total_tensor_elements := total_tensor_elements s - word_of_nat (length (tdata t)),
                 tensors := (tensors s)[i := None],
                 free_tensor_indices := free_tensor_indices s @ [i]\<rparr>, n + 1)
         else (s, n)
     | None \<Rightarrow> (s, n))"

definition sweep_infinite :: "nat set \<Rightarrow> nat \<Rightarrow> state \<times> nat \<Rightarrow> state \<times> nat" where
  "sweep_infinite marked i = (\<lambda>(s, n).
     case infinite_forms s ! i of
       Some f \<Rightarrow> if i \<notin> marked
         then (s\<lparr>metrics := (metrics s)\<lparr>met_infinite_forms := met_infinite_forms (metrics s) - 1\<rparr>,
                 infinite_forms := (infinite_forms s)[i := None],
                 free_infinite_indices := free_infinite_indices s @ [i]\<rparr>, n + 1)
         else (s, n)
     | None \<Rightarrow> (s, n))"

definition mark_and_sweep :: "state \<Rightarrow> state \<times> gc_counts" where
  "mark_and_sweep s =
     (let m = mark_all s;
          (s1, nt) = fold (sweep_tensor (marked_tensors m)) [0 ..< length (tensors s)] (s, 0);
          (s2, ni) = fold (sweep_infinite (marked_infinite_forms m))
                       [0 ..< length (infinite_forms s1)] (s1, 0)
      in (s2, \<lparr>reclaimed_tensors = nt, reclaimed_infinite_forms = ni\<rparr>))"

text \<open>The assignment to the dropped frames has no effect that outlives the call.\<close>
definition compact_heap :: "state \<Rightarrow> nat \<Rightarrow> state" where
  "compact_heap s new_ptr =
     (let s1 = s\<lparr>heap_frames := map (\<lambda>(a, n). (i64_of_size new_ptr, n)) (heap_frames s)\<rparr>;
          s2 = s1\<lparr>heap_frames := []\<rparr>
      in s2\<lparr>heap_ptr := new_ptr\<rparr>)"

section \<open>Reachability\<close>

text \<open>The value a value points to.\<close>

definition payload_of :: "state \<Rightarrow> value_tag \<times> i64 \<Rightarrow> (value_tag \<times> i64) option" where
  "payload_of s tv =
     (case tv of (tag, val) \<Rightarrow>
       if tag = VT_OptionHandle
       then map_option (\<lambda>v. (opt_payload_tag v, opt_payload v)) (handle_get (options s) val)
       else if tag = VT_ResultHandle
       then map_option (\<lambda>v. (res_payload_tag v, res_payload v)) (handle_get (results s) val)
       else if tag = VT_EnumHandle
       then (case handle_get (enums s) val of
               Some v \<Rightarrow> if has_payload v then Some (enum_payload_tag v, enum_payload v) else None
             | None \<Rightarrow> None)
       else None)"

inductive reachable :: "state \<Rightarrow> value_tag \<times> i64 \<Rightarrow> bool" for s where
  root: "tv \<in> set (gc_roots s) \<Longrightarrow> reachable s tv"
| payload: "reachable s tv \<Longrightarrow> payload_of s tv = Some tw \<Longrightarrow> reachable s tw"

text \<open>\<open>idx\<close> is the table index that the handle \<open>val\<close> of kind \<open>k\<close> names.\<close>
definition names :: "'a list \<Rightarrow> i64 \<Rightarrow> nat \<Rightarrow> bool" where
  "names tbl val idx \<longleftrightarrow> 0 < sint val \<and> size_of_i64 (val - 1) = idx \<and> idx < length tbl"

definition tensor_reachable :: "state \<Rightarrow> nat \<Rightarrow> bool" where
  "tensor_reachable s i \<longleftrightarrow> (\<exists>val. reachable s (VT_TensorHandle, val) \<and> names (tensors s) val i)"

definition infinite_reachable :: "state \<Rightarrow> nat \<Rightarrow> bool" where
  "infinite_reachable s i \<longleftrightarrow>
     (\<exists>val. reachable s (VT_InfiniteHandle, val) \<and> names (infinite_forms s) val i)"

lemma handle_get_names: "handle_get tbl val = Some v \<longleftrightarrow> (\<exists>i. names tbl val i \<and> v = tbl ! i)"
  by (auto simp: handle_get_def names_def Let_def)

lemma names_unique: "names tbl val i \<Longrightarrow> names tbl val j \<Longrightarrow> i = j"
  by (simp add: names_def)

section \<open>The marking is exact\<close>

text \<open>A scan marks the value it starts from: \<open>handled\<close> says that nothing is left to do for it.\<close>

definition handled :: "state \<Rightarrow> marks \<Rightarrow> value_tag \<times> i64 \<Rightarrow> bool" where
  "handled s m tv \<longleftrightarrow> (case tv of (tag, val) \<Rightarrow>
     (tag = VT_TensorHandle \<longrightarrow> (\<forall>i. names (tensors s) val i \<longrightarrow> i \<in> marked_tensors m)) \<and>
     (tag = VT_InfiniteHandle \<longrightarrow> (\<forall>i. names (infinite_forms s) val i \<longrightarrow> i \<in> marked_infinite_forms m)) \<and>
     (tag = VT_OptionHandle \<longrightarrow> (\<forall>i. names (options s) val i \<longrightarrow> i \<in> visited_options m)) \<and>
     (tag = VT_ResultHandle \<longrightarrow> (\<forall>i. names (results s) val i \<longrightarrow> i \<in> visited_results m)) \<and>
     (tag = VT_EnumHandle \<longrightarrow> (\<forall>i. names (enums s) val i \<longrightarrow> i \<in> visited_enums m)))"

definition marks_le :: "marks \<Rightarrow> marks \<Rightarrow> bool" where
  "marks_le a b \<longleftrightarrow> marked_tensors a \<subseteq> marked_tensors b \<and>
     marked_infinite_forms a \<subseteq> marked_infinite_forms b \<and> visited_options a \<subseteq> visited_options b \<and>
     visited_results a \<subseteq> visited_results b \<and> visited_enums a \<subseteq> visited_enums b"

lemma marks_le_refl [simp]: "marks_le m m" by (simp add: marks_le_def)
lemma marks_le_trans: "marks_le a b \<Longrightarrow> marks_le b c \<Longrightarrow> marks_le a c"
  by (auto simp: marks_le_def)

lemma handled_mono: "handled s a tv \<Longrightarrow> marks_le a b \<Longrightarrow> handled s b tv"
  by (cases tv) (auto simp: handled_def marks_le_def)

text \<open>The marking of one value, without following its payload.\<close>

definition visit :: "state \<Rightarrow> value_tag \<times> i64 \<Rightarrow> marks \<Rightarrow> marks" where
  "visit s tv m = (case tv of (tag, val) \<Rightarrow>
     if tag = VT_TensorHandle then mark_tensor s val m
     else if tag = VT_InfiniteHandle then mark_infinite s val m
     else if sint val \<le> 0 then m
     else let idx = size_of_i64 (val - 1) in
       if tag = VT_OptionHandle \<and> idx < length (options s)
       then m\<lparr>visited_options := insert idx (visited_options m)\<rparr>
       else if tag = VT_ResultHandle \<and> idx < length (results s)
       then m\<lparr>visited_results := insert idx (visited_results m)\<rparr>
       else if tag = VT_EnumHandle \<and> idx < length (enums s)
       then m\<lparr>visited_enums := insert idx (visited_enums m)\<rparr>
       else m)"

lemmas visit_defs = visit_def mark_tensor_def mark_infinite_def names_def Let_def

lemma marks_le_visit [simp]: "marks_le m (visit s tv m)"
  by (cases tv) (auto simp: visit_defs marks_le_def)

lemma handled_visit [simp]: "handled s (visit s tv m) tv"
  by (cases tv) (auto simp: visit_defs handled_def)

lemma names_iff: "names tbl val i \<longleftrightarrow> 0 < sint val \<and> i = size_of_i64 (val - 1) \<and> i < length tbl"
  by (auto simp: names_def)

lemma handle_get_eq:
  "handle_get tbl val = (if 0 < sint val \<and> size_of_i64 (val - 1) < length tbl
     then Some (tbl ! size_of_i64 (val - 1)) else None)"
  by (simp add: handle_get_def Let_def)

lemmas scan_defs = visit_def mark_tensor_def mark_infinite_def Let_def handled_def payload_of_def
  handle_get_eq names_iff

lemma value_tag_cases:
  obtains "tag = VT_TensorHandle" | "tag = VT_OptionHandle" | "tag = VT_ResultHandle"
    | "tag = VT_EnumHandle" | "tag = VT_InfiniteHandle"
    | "tag \<noteq> VT_TensorHandle" "tag \<noteq> VT_OptionHandle" "tag \<noteq> VT_ResultHandle"
      "tag \<noteq> VT_EnumHandle" "tag \<noteq> VT_InfiniteHandle"
  by blast

lemma handled_visit_other:
  assumes "handled s (visit s (tag, val) m) (t, v)" "\<not> handled s m (t, v)"
  shows "payload_of s (t, v) = payload_of s (tag, val)"
proof (cases tag rule: value_tag_cases)
  case 1
  with assms show ?thesis by (cases t rule: value_tag_cases; simp add: scan_defs split: if_split_asm)
next
  case 2
  with assms show ?thesis by (cases t rule: value_tag_cases; simp add: scan_defs split: if_split_asm)
next
  case 3
  with assms show ?thesis by (cases t rule: value_tag_cases; simp add: scan_defs split: if_split_asm)
next
  case 4
  with assms show ?thesis by (cases t rule: value_tag_cases; simp add: scan_defs split: if_split_asm)
next
  case 5
  with assms show ?thesis by (cases t rule: value_tag_cases; simp add: scan_defs split: if_split_asm)
next
  case 6
  with assms show ?thesis by (simp add: visit_def Let_def split: if_split_asm)
qed

lemma scan_value_step:
  "scan_value s tag val m =
     (if handled s m (tag, val) then m
      else case payload_of s (tag, val) of
             None \<Rightarrow> visit s (tag, val) m
           | Some (t, v) \<Rightarrow> scan_value s t v (visit s (tag, val) m))"
  unfolding scan_value.simps [of s tag val m]
  by (cases tag rule: value_tag_cases; simp add: scan_defs insert_absorb)

lemma unvisited_visit:
  "\<not> handled s m tv \<Longrightarrow> payload_of s tv = Some tw \<Longrightarrow> unvisited s (visit s tv m) < unvisited s m"
  by (cases tv) (auto simp: visit_defs handled_def payload_of_def handle_get_def unvisited_less
      split: if_splits)

text \<open>The payload of every handled value is handled, except those in \<open>X\<close>, still to be scanned.\<close>

definition closed_but :: "state \<Rightarrow> (value_tag \<times> i64) set \<Rightarrow> marks \<Rightarrow> bool" where
  "closed_but s X m \<longleftrightarrow>
     (\<forall>tv tw. handled s m tv \<longrightarrow> payload_of s tv = Some tw \<longrightarrow> handled s m tw \<or> tw \<in> X)"

lemma closed_but_visit:
  assumes "closed_but s X m"
  shows "closed_but s (X \<union> set_option (payload_of s tv)) (visit s tv m)"
  unfolding closed_but_def
proof (intro allI impI)
  fix tu tw
  assume h: "handled s (visit s tv m) tu" and p: "payload_of s tu = Some tw"
  show "handled s (visit s tv m) tw \<or> tw \<in> X \<union> set_option (payload_of s tv)"
  proof (cases "handled s m tu")
    case True
    with assms p have "handled s m tw \<or> tw \<in> X" unfolding closed_but_def by blast
    then show ?thesis using handled_mono [OF _ marks_le_visit] by blast
  next
    case False
    with h have "payload_of s tu = payload_of s tv"
      by (cases tv; cases tu) (auto dest: handled_visit_other)
    with p show ?thesis by auto
  qed
qed

lemma scan_value_closed:
  "closed_but s X m \<Longrightarrow>
     closed_but s X (scan_value s tag val m) \<and> handled s (scan_value s tag val m) (tag, val) \<and>
     marks_le m (scan_value s tag val m)"
proof (induction m arbitrary: X tag val rule: measure_induct_rule [of "unvisited s"])
  case (less m)
  let ?m = "visit s (tag, val) m"
  show ?case
  proof (cases "handled s m (tag, val)")
    case True
    with less.prems show ?thesis by (simp add: scan_value_step [of s tag val m])
  next
    case new: False
    note vis = closed_but_visit [OF less.prems, of "(tag, val)"]
    show ?thesis
    proof (cases "payload_of s (tag, val)")
      case None
      with new vis show ?thesis by (simp add: scan_value_step [of s tag val m])
    next
      case (Some tw)
      obtain t v where tw: "tw = (t, v)" by (cases tw)
      with new Some have step: "scan_value s tag val m = scan_value s t v ?m"
        by (simp add: scan_value_step [of s tag val m])
      from vis Some tw have "closed_but s (insert (t, v) X) ?m" by simp
      from less.IH [OF unvisited_visit [OF new Some] this, of t v]
      have r: "closed_but s (insert (t, v) X) (scan_value s t v ?m)"
        "handled s (scan_value s t v ?m) (t, v)" "marks_le ?m (scan_value s t v ?m)" by simp_all
      from r(1,2) have "closed_but s X (scan_value s t v ?m)" by (auto simp: closed_but_def)
      moreover have "handled s (scan_value s t v ?m) (tag, val)"
        by (rule handled_mono [OF handled_visit r(3)])
      moreover have "marks_le m (scan_value s t v ?m)" by (rule marks_le_trans [OF marks_le_visit r(3)])
      ultimately show ?thesis by (simp only: step)
    qed
  qed
qed

lemma fold_scan_closed:
  "closed_but s {} m \<Longrightarrow>
     closed_but s {} (fold (\<lambda>(tag, val). scan_value s tag val) vs m) \<and>
     marks_le m (fold (\<lambda>(tag, val). scan_value s tag val) vs m) \<and>
     (\<forall>tv \<in> set vs. handled s (fold (\<lambda>(tag, val). scan_value s tag val) vs m) tv)"
proof (induction vs arbitrary: m)
  case (Cons tv vs)
  obtain tag val where tv: "tv = (tag, val)" by (cases tv)
  have sc: "closed_but s {} (scan_value s tag val m)" "handled s (scan_value s tag val m) tv"
    "marks_le m (scan_value s tag val m)"
    using scan_value_closed [OF Cons.prems, of tag val] by (simp_all add: tv)
  note ih = Cons.IH [OF sc(1)]
  show ?case
    using ih sc(2,3) by (auto simp: tv intro: marks_le_trans handled_mono)
qed simp

text \<open>Nothing is handled before the marking starts, unless it needs no mark.\<close>

lemma closed_but_no_marks: "closed_but s {} no_marks"
proof -
  have "\<not> (handled s no_marks (t, v) \<and> payload_of s (t, v) = Some tw)" for t v tw
    by (cases t rule: value_tag_cases; simp add: scan_defs no_marks_def)
  then show ?thesis by (fastforce simp: closed_but_def)
qed

lemma reachable_handled: "reachable s tv \<Longrightarrow> handled s (mark_all s) tv"
proof (induction rule: reachable.induct)
  case (root tv)
  then show ?case
    using fold_scan_closed [OF closed_but_no_marks, of s "gc_roots s"] by (simp add: mark_all_def)
next
  case (payload tv tw)
  then show ?case
    using fold_scan_closed [OF closed_but_no_marks, of s "gc_roots s"]
    unfolding mark_all_def closed_but_def by blast
qed

text \<open>Conversely a mark is only set on what is reachable.\<close>

definition marks_sound :: "state \<Rightarrow> marks \<Rightarrow> bool" where
  "marks_sound s m \<longleftrightarrow> (\<forall>i \<in> marked_tensors m. tensor_reachable s i) \<and>
     (\<forall>i \<in> marked_infinite_forms m. infinite_reachable s i)"

lemma visit_sound: "marks_sound s m \<Longrightarrow> reachable s (tag, val) \<Longrightarrow> marks_sound s (visit s (tag, val) m)"
  by (cases tag rule: value_tag_cases)
    (auto simp: scan_defs marks_sound_def tensor_reachable_def infinite_reachable_def)

lemma scan_value_sound:
  "marks_sound s m \<Longrightarrow> reachable s (tag, val) \<Longrightarrow> marks_sound s (scan_value s tag val m)"
proof (induction m arbitrary: tag val rule: measure_induct_rule [of "unvisited s"])
  case (less m)
  show ?case
  proof (cases "handled s m (tag, val) \<or> payload_of s (tag, val) = None")
    case True
    with less.prems visit_sound show ?thesis by (auto simp: scan_value_step [of s tag val m])
  next
    case False
    then obtain t v where p: "payload_of s (tag, val) = Some (t, v)" and n: "\<not> handled s m (tag, val)"
      by auto
    have "reachable s (t, v)" by (rule reachable.payload [OF less.prems(2) p])
    from less.IH [OF unvisited_visit [OF n p] visit_sound [OF less.prems] this] p n
    show ?thesis by (simp add: scan_value_step [of s tag val m])
  qed
qed

lemma mark_all_sound: "marks_sound s (mark_all s)"
proof -
  have "marks_sound s (fold (\<lambda>(tag, val). scan_value s tag val) vs m)"
    if "marks_sound s m" "set vs \<subseteq> set (gc_roots s)" for vs m
    using that by (induction vs arbitrary: m) (auto intro: scan_value_sound reachable.root)
  moreover have "marks_sound s no_marks" by (simp add: marks_sound_def no_marks_def)
  ultimately show ?thesis by (simp add: mark_all_def)
qed

lemma mark_all_exact:
  "marked_tensors (mark_all s) = {i. tensor_reachable s i}"
  "marked_infinite_forms (mark_all s) = {i. infinite_reachable s i}"
proof -
  have "tensor_reachable s i \<Longrightarrow> i \<in> marked_tensors (mark_all s)" for i
    using reachable_handled by (fastforce simp: tensor_reachable_def handled_def)
  then show "marked_tensors (mark_all s) = {i. tensor_reachable s i}"
    using mark_all_sound by (auto simp: marks_sound_def)
  have "infinite_reachable s i \<Longrightarrow> i \<in> marked_infinite_forms (mark_all s)" for i
    using reachable_handled by (fastforce simp: infinite_reachable_def handled_def)
  then show "marked_infinite_forms (mark_all s) = {i. infinite_reachable s i}"
    using mark_all_sound by (auto simp: marks_sound_def)
qed

section \<open>The sweep frees exactly the unreachable tensors\<close>

definition sweep_list :: "nat set \<Rightarrow> 'a option list \<Rightarrow> 'a option list" where
  "sweep_list marked xs = map (\<lambda>(i, x). if i \<in> marked then x else None) (enumerate 0 xs)"

definition freed :: "nat set \<Rightarrow> 'a option list \<Rightarrow> nat \<Rightarrow> nat list" where
  "freed marked xs n = filter (\<lambda>i. xs ! i \<noteq> None \<and> i \<notin> marked) [0 ..< n]"

lemma nth_sweep_list: "i < length xs \<Longrightarrow> sweep_list M xs ! i = (if i \<in> M then xs ! i else None)"
  by (simp add: sweep_list_def nth_enumerate_eq)

lemma length_sweep_list [simp]: "length (sweep_list M xs) = length xs"
  by (simp add: sweep_list_def)

text \<open>After \<open>n\<close> steps the first \<open>n\<close> slots are swept.\<close>

definition swept :: "nat set \<Rightarrow> 'a option list \<Rightarrow> nat \<Rightarrow> 'a option list" where
  "swept M xs n = take n (sweep_list M xs) @ drop n xs"

lemma swept_0 [simp]: "swept M xs 0 = xs"
  by (simp add: swept_def)

lemma swept_length [simp]: "swept M xs (length xs) = sweep_list M xs"
  by (simp add: swept_def)

lemma nth_swept [simp]: "n < length xs \<Longrightarrow> swept M xs n ! n = xs ! n"
  by (simp add: swept_def nth_append)

lemma swept_Suc:
  assumes "n < length xs"
  shows "swept M xs (Suc n) = (swept M xs n)[n := if n \<in> M then xs ! n else None]"
  unfolding swept_def using assms
  by (simp add: take_Suc_conv_app_nth nth_sweep_list list_update_append min_absorb2
      Cons_nth_drop_Suc [symmetric])

lemma swept_keep:
  assumes "n < length xs" "n \<in> M \<or> xs ! n = None"
  shows "swept M xs (Suc n) = swept M xs n"
  unfolding swept_Suc [OF assms(1)] using assms nth_swept [OF assms(1), of M]
  by (metis list_update_id)

lemma freed_Suc:
  "freed M xs (Suc n) = freed M xs n @ (if xs ! n \<noteq> None \<and> n \<notin> M then [n] else [])"
  by (simp add: freed_def)

lemma freed_0 [simp]: "freed M xs 0 = []"
  by (simp add: freed_def)

definition tensor_size :: "tensor option list \<Rightarrow> nat \<Rightarrow> u64" where
  "tensor_size ts i = word_of_nat (length (tdata (the (ts ! i))))"

lemma sweep_tensors_prefix:
  "n \<le> length (tensors s) \<Longrightarrow> fold (sweep_tensor M) [0 ..< n] (s, 0) =
    (s\<lparr>tensors := swept M (tensors s) n,
       free_tensor_indices := free_tensor_indices s @ freed M (tensors s) n,
       total_tensor_elements := total_tensor_elements s -
         sum_list (map (tensor_size (tensors s)) (freed M (tensors s) n))\<rparr>,
     length (freed M (tensors s) n))"
proof (induction n)
  case (Suc n)
  then have n: "n < length (tensors s)" by simp
  show ?case
  proof (cases "tensors s ! n \<noteq> None \<and> n \<notin> M")
    case True
    then obtain t where t: "tensors s ! n = Some t" by auto
    with True Suc n show ?thesis
      by (simp add: sweep_tensor_def freed_Suc swept_Suc tensor_size_def algebra_simps)
  next
    case False
    with Suc n show ?thesis
      by (cases "tensors s ! n") (simp_all add: sweep_tensor_def freed_Suc swept_keep)
  qed
qed simp

lemma sweep_infinites_prefix:
  "n \<le> length (infinite_forms s) \<Longrightarrow> fold (sweep_infinite M) [0 ..< n] (s, 0) =
    (s\<lparr>infinite_forms := swept M (infinite_forms s) n,
       free_infinite_indices := free_infinite_indices s @ freed M (infinite_forms s) n,
       metrics := (metrics s)\<lparr>met_infinite_forms :=
         met_infinite_forms (metrics s) - word_of_nat (length (freed M (infinite_forms s) n))\<rparr>\<rparr>,
     length (freed M (infinite_forms s) n))"
proof (induction n)
  case (Suc n)
  then have n: "n < length (infinite_forms s)" by simp
  show ?case
  proof (cases "infinite_forms s ! n \<noteq> None \<and> n \<notin> M")
    case True
    then obtain t where t: "infinite_forms s ! n = Some t" by auto
    with True Suc n show ?thesis
      by (simp add: sweep_infinite_def freed_Suc swept_Suc algebra_simps)
  next
    case False
    with Suc n show ?thesis
      by (cases "infinite_forms s ! n") (simp_all add: sweep_infinite_def freed_Suc swept_keep)
  qed
qed simp

lemma mark_and_sweep_eq:
  "mark_and_sweep s =
    (let T = marked_tensors (mark_all s); I = marked_infinite_forms (mark_all s);
         ft = freed T (tensors s) (length (tensors s));
         fi = freed I (infinite_forms s) (length (infinite_forms s))
     in (s\<lparr>tensors := sweep_list T (tensors s),
           free_tensor_indices := free_tensor_indices s @ ft,
           total_tensor_elements := total_tensor_elements s -
             sum_list (map (tensor_size (tensors s)) ft),
           infinite_forms := sweep_list I (infinite_forms s),
           free_infinite_indices := free_infinite_indices s @ fi,
           metrics := (metrics s)\<lparr>met_infinite_forms :=
             met_infinite_forms (metrics s) - word_of_nat (length fi)\<rparr>\<rparr>,
         \<lparr>reclaimed_tensors = length ft, reclaimed_infinite_forms = length fi\<rparr>))"
  by (simp add: mark_and_sweep_def Let_def sweep_tensors_prefix sweep_infinites_prefix)

text \<open>The state after a collection, on the fields that matter to programs.\<close>

lemma mark_and_sweep_tensors:
  "i < length (tensors s) \<Longrightarrow>
     tensors (fst (mark_and_sweep s)) ! i = (if tensor_reachable s i then tensors s ! i else None)"
  by (simp add: mark_and_sweep_eq Let_def nth_sweep_list mark_all_exact)

lemma mark_and_sweep_infinite:
  "i < length (infinite_forms s) \<Longrightarrow>
     infinite_forms (fst (mark_and_sweep s)) ! i =
       (if infinite_reachable s i then infinite_forms s ! i else None)"
  by (simp add: mark_and_sweep_eq Let_def nth_sweep_list mark_all_exact)

lemma mark_and_sweep_free:
  "set (free_tensor_indices (fst (mark_and_sweep s))) =
     set (free_tensor_indices s) \<union>
     {i. i < length (tensors s) \<and> tensors s ! i \<noteq> None \<and> \<not> tensor_reachable s i}"
  by (auto simp: mark_and_sweep_eq Let_def mark_all_exact freed_def)

lemma mark_and_sweep_frame [frame_simps]:
  "contexts (fst (mark_and_sweep s)) = contexts s"
  "memory (fst (mark_and_sweep s)) = memory s"
  "memory_tags (fst (mark_and_sweep s)) = memory_tags s"
  "layout (fst (mark_and_sweep s)) = layout s"
  "current_context (fst (mark_and_sweep s)) = current_context s"
  "length (tensors (fst (mark_and_sweep s))) = length (tensors s)"
  "length (infinite_forms (fst (mark_and_sweep s))) = length (infinite_forms s)"
  "halted (fst (mark_and_sweep s)) = halted s"
  "policy_opt (fst (mark_and_sweep s)) = policy_opt s"
  "axion_log (fst (mark_and_sweep s)) = axion_log s"
  "symbols (fst (mark_and_sweep s)) = symbols s"
  "options (fst (mark_and_sweep s)) = options s"
  "heap_ptr (fst (mark_and_sweep s)) = heap_ptr s"
  "heap_frames (fst (mark_and_sweep s)) = heap_frames s"
  "meta_ptr (fst (mark_and_sweep s)) = meta_ptr s"
  by (simp_all add: mark_and_sweep_eq Let_def)

end
