(* ===== verification/Properties_Runtime.thy ===== *)
theory Properties_Runtime
  imports T81_Sysregs T81_Gc
begin

text \<open>
  Properties of the runtime services of the interpreter: the garbage collector and the system
  registers.
\<close>

section \<open>Garbage collection\<close>

text \<open>C6: The collector is exact: a tensor or infinite form survives precisely when a register, memory
  cell or reflection snapshot reaches it through options, results and enums; the slots it clears
  are precisely the ones it adds to the free lists, each once and in increasing order; and nothing
  that a program can address besides is touched.\<close>
theorem gc_exact:
  "tensors (fst (mark_and_sweep s)) =
     map (\<lambda>i. if tensor_reachable s i then tensors s ! i else None) [0 ..< length (tensors s)] \<and>
   infinite_forms (fst (mark_and_sweep s)) =
     map (\<lambda>i. if infinite_reachable s i then infinite_forms s ! i else None) [0 ..< length (infinite_forms s)] \<and>
   free_tensor_indices (fst (mark_and_sweep s)) = free_tensor_indices s @
     filter (\<lambda>i. tensors s ! i \<noteq> None \<and> \<not> tensor_reachable s i) [0 ..< length (tensors s)] \<and>
   free_infinite_indices (fst (mark_and_sweep s)) = free_infinite_indices s @
     filter (\<lambda>i. infinite_forms s ! i \<noteq> None \<and> \<not> infinite_reachable s i) [0 ..< length (infinite_forms s)] \<and>
   contexts (fst (mark_and_sweep s)) = contexts s \<and> memory (fst (mark_and_sweep s)) = memory s \<and>
   memory_tags (fst (mark_and_sweep s)) = memory_tags s"
proof -
  have "tensors (fst (mark_and_sweep s)) =
      map (\<lambda>i. if tensor_reachable s i then tensors s ! i else None) [0 ..< length (tensors s)]"
    by (rule nth_equalityI) (simp_all add: frame_simps mark_and_sweep_tensors)
  moreover have "infinite_forms (fst (mark_and_sweep s)) =
      map (\<lambda>i. if infinite_reachable s i then infinite_forms s ! i else None) [0 ..< length (infinite_forms s)]"
    by (rule nth_equalityI) (simp_all add: frame_simps mark_and_sweep_infinite)
  ultimately show ?thesis
    by (simp add: frame_simps) (simp add: mark_and_sweep_eq Let_def freed_def mark_all_exact)
qed

text \<open>The collector never loses a reachable object, however it is nested: a second collection right
  after the first reclaims nothing.\<close>
lemma gc_idempotent:
  "snd (mark_and_sweep (fst (mark_and_sweep s))) =
     \<lparr>reclaimed_tensors = 0, reclaimed_infinite_forms = 0\<rparr>"
proof -
  let ?s = "fst (mark_and_sweep s)"
  have roots: "gc_roots ?s = gc_roots s"
    by (simp add: gc_roots_def frame_simps) (simp add: mark_and_sweep_eq Let_def)
  have payload: "payload_of ?s = payload_of s"
    by (rule ext) (simp add: payload_of_def frame_simps mark_and_sweep_eq Let_def split: prod.split)
  have reach: "reachable ?s tv \<longleftrightarrow> reachable s tv" for tv
  proof
    assume "reachable ?s tv"
    then show "reachable s tv" by induction (auto simp: roots payload intro: reachable.intros)
  next
    assume "reachable s tv"
    then show "reachable ?s tv"
      by induction (use roots payload in \<open>auto intro: reachable.intros\<close>)
  qed
  have t: "tensor_reachable ?s i \<longleftrightarrow> tensor_reachable s i"
    and f: "infinite_reachable ?s i \<longleftrightarrow> infinite_reachable s i" for i
    by (simp_all add: tensor_reachable_def infinite_reachable_def reach names_def frame_simps)
  have "freed (marked_tensors (mark_all ?s)) (tensors ?s) (length (tensors ?s)) = []"
    "freed (marked_infinite_forms (mark_all ?s)) (infinite_forms ?s) (length (infinite_forms ?s)) = []"
    by (auto simp: freed_def mark_all_exact t f frame_simps mark_and_sweep_tensors
        mark_and_sweep_infinite filter_empty_conv)
  then show ?thesis by (simp add: mark_and_sweep_eq [of ?s] Let_def)
qed

section \<open>System registers\<close>

text \<open>After a synchronisation the reserved registers of the running context hold the machine's own
  values, whatever a program wrote there: zero, the tick, positive lineage and entropy signatures,
  the constitutional mask, the recursion depth and the seal, all tagged as integers; no other
  register and no other context changes.\<close>
theorem sync_reserved_registers:
  assumes "c < length (contexts s)" "length (registers (contexts s ! c)) = kRegisters"
    "length (register_tags (contexts s ! c)) = kRegisters"
  shows "(map (\<lambda>i. registers (contexts (sync_system_registers s p n c) ! c) ! i) [0, 75, 76, 77, 78, 79, 80] =
     [0, i64_of_size n, compute_lineage_signature p,
      compute_entropy_signature n (contradiction_events s) (contexts s ! c),
      compute_constitutional_mask s,
      i64_of_size (max (length (stack_frames (contexts s ! c))) (call_depth (contexts s ! c))),
      if halted s then 0 else 1]) \<and>
    (0 < sint (compute_lineage_signature p) \<and>
     0 < sint (compute_entropy_signature n (contradiction_events s) (contexts s ! c))) \<and>
    (reserved_reg i \<longrightarrow> register_tags (contexts (sync_system_registers s p n c) ! c) ! i = VT_Int) \<and>
    (\<not> reserved_reg i \<longrightarrow>
       registers (contexts (sync_system_registers s p n c) ! c) ! i = registers (contexts s ! c) ! i \<and>
       register_tags (contexts (sync_system_registers s p n c) ! c) ! i = register_tags (contexts s ! c) ! i) \<and>
    (d \<noteq> c \<longrightarrow> contexts (sync_system_registers s p n c) ! d = contexts s ! d)"
proof -
  have ctx: "contexts (sync_system_registers s p n c) ! c = sync_context s p n (contexts s ! c)"
    using assms(1) by (auto simp: sync_system_registers_def)
  have len: "80 < length (registers (contexts s ! c))" "80 < length (register_tags (contexts s ! c))"
    using assms by (simp_all add: kRegisters_def)
  have r1: "map (\<lambda>i. registers (contexts (sync_system_registers s p n c) ! c) ! i) [0, 75, 76, 77, 78, 79, 80] =
     [0, i64_of_size n, compute_lineage_signature p,
      compute_entropy_signature n (contradiction_events s) (contexts s ! c),
      compute_constitutional_mask s,
      i64_of_size (max (length (stack_frames (contexts s ! c))) (call_depth (contexts s ! c))),
      if halted s then 0 else 1]"
    unfolding ctx list.map sync_context_reserved [OF len(1)]
    using len by (simp add: sync_context_def Let_def nth_list_update compute_entropy_signature_def)
  have r2: "0 < sint (compute_lineage_signature p) \<and>
     0 < sint (compute_entropy_signature n (contradiction_events s) (contexts s ! c))"
    by (simp add: compute_lineage_signature_def compute_entropy_signature_def finish_signature_range Let_def)
  have r3: "reserved_reg i \<Longrightarrow> register_tags (contexts (sync_system_registers s p n c) ! c) ! i = VT_Int"
    unfolding ctx by (rule sync_context_tags [OF len(2)])
  have r4: "\<not> reserved_reg i \<Longrightarrow>
       registers (contexts (sync_system_registers s p n c) ! c) ! i = registers (contexts s ! c) ! i \<and>
       register_tags (contexts (sync_system_registers s p n c) ! c) ! i = register_tags (contexts s ! c) ! i"
    unfolding ctx by (simp add: sync_context_ordinary)
  have r5: "d \<noteq> c \<Longrightarrow> contexts (sync_system_registers s p n c) ! d = contexts s ! d"
    by (simp add: sync_system_registers_def)
  from r1 r2 r3 r4 r5 show ?thesis by blast
qed

theorem sync_reserved_registers_witness:
  "register_tags (contexts (sync_system_registers (init_state\<lparr>contexts := [init_ctx]\<rparr>) empty_program 3 0) ! 0) ! 77 = VT_Int"
  using sync_reserved_registers [of 0 "init_state\<lparr>contexts := [init_ctx]\<rparr>" empty_program 3 77 0]
  by (simp add: init_ctx_def reserved_reg_def)

end
