(* ===== verification/T81_Tensor.thy ===== *)
theory T81_Tensor
  imports T81_Segments
begin

text \<open>
  Tensors: the constructors of \<open>include/t81/tensor.hpp\<close> with their exceptions (\<open>None\<close>), and the
  part of \<open>core/vm/tensor_helpers.cpp\<close> that decides, stores and accounts allocations.  The elements
  are the bit patterns of their \<open>float\<close>s; kernels that compute with them are not modelled.
\<close>

section \<open>Construction\<close>

definition valid_shape :: "i32 list \<Rightarrow> bool" where
  "valid_shape s \<longleftrightarrow> list_all (\<lambda>d. 0 < sint d) s"

fun shape_product :: "nat \<Rightarrow> i32 list \<Rightarrow> nat option" where
  "shape_product n [] = Some n"
| "shape_product n (d # s) =
     (if sint d \<le> 0 then None
      else if n \<noteq> 0 \<and> size_of_i32 d > (2 ^ 64 - 1) div n then None
      else shape_product (n * size_of_i32 d) s)"

definition size_from_shape :: "i32 list \<Rightarrow> nat option" where
  "size_from_shape s = (if s = [] then Some 0 else shape_product 1 s)"

definition make_tensor :: "i32 list \<Rightarrow> u32 list \<Rightarrow> tensor option" where
  "make_tensor shp dat =
     (if \<not> valid_shape shp then None
      else do {
        n \<leftarrow> size_from_shape shp;
        if length dat \<noteq> n then None else Some \<lparr>tshape = shp, tdata = dat\<rparr>
      })"

definition zero_tensor :: "i32 list \<Rightarrow> tensor option" where
  "zero_tensor shp = do {
     n \<leftarrow> size_from_shape shp;
     if \<not> valid_shape shp then None else Some \<lparr>tshape = shp, tdata = replicate n 0\<rparr>
   }"

definition tensor_rank :: "tensor \<Rightarrow> i32" where
  "tensor_rank t = i32_of_size (length (tshape t))"

section \<open>Access\<close>

definition tensor_new_1d :: "i64 \<Rightarrow> tensor option option" where
  "tensor_new_1d n = (if sint n \<le> 0 then Some None else map_option Some (zero_tensor [i32_of_i64 n]))"

definition tensor_get_at :: "tensor \<Rightarrow> i64 \<Rightarrow> u32 option" where
  "tensor_get_at t index =
     (if sint index < 0 \<or> size_of_i64 index \<ge> length (tdata t) then None
      else Some (tdata t ! size_of_i64 index))"

definition tensor_set_at :: "tensor \<Rightarrow> i64 \<Rightarrow> u32 \<Rightarrow> tensor option" where
  "tensor_set_at t index v =
     (if sint index < 0 \<or> size_of_i64 index \<ge> length (tdata t) then None
      else Some (t\<lparr>tdata := (tdata t)[size_of_i64 index := v]\<rparr>))"

definition tensor_identity_copy :: "tensor \<Rightarrow> tensor option" where
  "tensor_identity_copy t = make_tensor (tshape t) (tdata t)"

text \<open>\<open>transpose2d\<close>: the loops fill \<open>out[c * R + r]\<close> from \<open>data[r * C + c]\<close>.\<close>

definition transpose_data :: "nat \<Rightarrow> nat \<Rightarrow> 'a list \<Rightarrow> 'a list" where
  "transpose_data rows cols dat =
     map (\<lambda>k. dat ! ((k mod rows) * cols + k div rows)) [0 ..< cols * rows]"

definition transpose2d :: "tensor \<Rightarrow> tensor option" where
  "transpose2d t =
     (if tensor_rank t \<noteq> 2 then None
      else make_tensor [tshape t ! 1, tshape t ! 0]
        (transpose_data (size_of_i32 (tshape t ! 0)) (size_of_i32 (tshape t ! 1)) (tdata t)))"

section \<open>Allocation\<close>

definition tensor_shape_complexity :: "tensor \<Rightarrow> nat" where
  "tensor_shape_complexity t =
     (if list_ex (\<lambda>d. sint d \<le> 0) (tshape t) then 0
      else fold (\<lambda>d n. (n * size_of_i32 d) mod 2 ^ 64) (tshape t) 1 * size_of_i32 (tensor_rank t) mod 2 ^ 64)"

datatype tensor_alloc_result = AllowTensor | MaxTensorsExceeded | MaxTensorElementsExceeded

definition evaluate_tensor_alloc_policy :: "state \<Rightarrow> nat \<Rightarrow> tensor_alloc_result" where
  "evaluate_tensor_alloc_policy s n =
     (case policy_opt s of
        None \<Rightarrow> AllowTensor
      | Some p \<Rightarrow>
          let active_tensors = size_sub (length (tensors s)) (length (free_tensor_indices s)) in
          if (case max_tensors p of None \<Rightarrow> False | Some limit \<Rightarrow> active_tensors \<ge> size_of_i64 limit)
          then MaxTensorsExceeded
          else if (case max_tensor_elements p of None \<Rightarrow> False
               | Some limit \<Rightarrow> unat (total_tensor_elements s + word_of_nat n) > size_of_i64 limit)
          then MaxTensorElementsExceeded
          else AllowTensor)"

definition store_tensor_slot :: "tensor \<Rightarrow> state \<Rightarrow> (nat \<times> state) option" where
  "store_tensor_slot t s =
     (if free_tensor_indices s \<noteq> [] then do {
        let raw = last (free_tensor_indices s);
        slots \<leftarrow> arr_set (tensors s) raw (Some t);
        Some (raw + 1, s\<lparr>free_tensor_indices := butlast (free_tensor_indices s), tensors := slots\<rparr>)
      }
      else Some (length (tensors s) + 1, s\<lparr>tensors := tensors s @ [Some t]\<rparr>))"

definition account_tensor_allocation :: "nat \<Rightarrow> state \<Rightarrow> state" where
  "account_tensor_allocation n s =
     s\<lparr>total_tensor_elements := total_tensor_elements s + word_of_nat n,
       metrics := (metrics s)\<lparr>met_tensors := met_tensors (metrics s) + 1,
         met_tensor_elements := met_tensor_elements (metrics s) + word_of_nat n\<rparr>\<rparr>"

section \<open>What the constructors guarantee\<close>

text \<open>The rank of a tensor is an \<open>int\<close>.\<close>
definition tensor_ok :: "tensor \<Rightarrow> bool" where
  "tensor_ok t \<longleftrightarrow> make_tensor (tshape t) (tdata t) = Some t \<and> length (tshape t) < 2 ^ 31"

lemma make_tensor_eq_Some:
  "make_tensor shp dat = Some t \<longleftrightarrow>
     t = \<lparr>tshape = shp, tdata = dat\<rparr> \<and> valid_shape shp \<and> size_from_shape shp = Some (length dat)"
  by (auto simp: make_tensor_def split: bind_splits)

lemma make_tensor_ok: "make_tensor shp dat = Some t \<Longrightarrow> length shp < 2 ^ 31 \<Longrightarrow> tensor_ok t"
  by (simp add: tensor_ok_def make_tensor_eq_Some)

lemma zero_tensor_ok: "zero_tensor shp = Some t \<Longrightarrow> length shp < 2 ^ 31 \<Longrightarrow> tensor_ok t"
  by (auto simp: zero_tensor_def tensor_ok_def make_tensor_eq_Some split: bind_splits if_splits)

lemma tensor_ok_iff:
  "tensor_ok t \<longleftrightarrow> valid_shape (tshape t) \<and> size_from_shape (tshape t) = Some (length (tdata t)) \<and>
     length (tshape t) < 2 ^ 31"
  by (auto simp: tensor_ok_def make_tensor_eq_Some)

lemma tensor_set_at_ok: "tensor_ok t \<Longrightarrow> tensor_set_at t index v = Some t' \<Longrightarrow> tensor_ok t'"
  by (auto simp: tensor_set_at_def tensor_ok_iff split: if_splits)

lemma tensor_get_set:
  "tensor_set_at t index v = Some t' \<Longrightarrow>
     tensor_get_at t' index' = (if size_of_i64 index' = size_of_i64 index \<and> 0 \<le> sint index' then Some v
       else tensor_get_at t index')"
  by (auto simp: tensor_set_at_def tensor_get_at_def split: if_splits)

lemma shape_product_eq: "shape_product n s = Some m \<Longrightarrow> m = n * prod_list (map size_of_i32 s)"
  by (induction n s rule: shape_product.induct) (auto split: if_splits)

lemma shape_product_total:
  "list_all (\<lambda>d. 0 < sint d) s \<Longrightarrow> n * prod_list (map size_of_i32 s) < 2 ^ 64 \<Longrightarrow>
     shape_product n s = Some (n * prod_list (map size_of_i32 s))"
proof (induction s arbitrary: n)
  case (Cons d s)
  let ?d = "size_of_i32 d" and ?r = "prod_list (map size_of_i32 s)"
  from Cons.prems(1) have d: "0 < sint d" "list_all (\<lambda>d. 0 < sint d) s" by simp_all
  have r: "0 < ?r"
  proof -
    have "0 < size_of_i32 x" if "x \<in> set s" for x
      using d(2) that by (auto simp: list_all_iff size_of_i32_nonneg)
    then show ?thesis by (induction s) auto
  qed
  have "n * ?d * 1 \<le> n * ?d * ?r" using r by (intro mult_le_mono2) linarith
  also have "\<dots> < 2 ^ 64" using Cons.prems(2) by (simp add: mult.assoc)
  finally have nd: "n * ?d < 2 ^ 64" by simp
  have "\<not> (n \<noteq> 0 \<and> ?d > (2 ^ 64 - 1) div n)"
  proof
    assume a: "n \<noteq> 0 \<and> ?d > (2 ^ 64 - 1) div n"
    then have n: "0 < n" and div: "(2 ^ 64 - 1) div n < ?d" by simp_all
    from div_less_iff_less_mult [OF n] div have "2 ^ 64 - 1 < ?d * n" by blast
    with nd show False by (simp add: mult.commute)
  qed
  with d(1) Cons.IH [OF d(2), of "n * ?d"] Cons.prems(2) show ?case by (simp add: mult.assoc)
qed simp

lemma tensor_rank_eq:
  assumes "tensor_ok t" "n < 2 ^ 31"
  shows "tensor_rank t = i32_of_size n \<longleftrightarrow> length (tshape t) = n"
proof -
  have s: "sint (i32_of_size m) = int m" if "m < 2 ^ 31" for m
    using that by (simp add: i32_of_size_def signed_of_nat signed_take_bit_int_eq_self)
  have "length (tshape t) < 2 ^ 31" using assms(1) by (simp add: tensor_ok_iff)
  with s [of n] s [of "length (tshape t)"] assms(2) show ?thesis
    unfolding tensor_rank_def by (metis nat_int)
qed

lemma size_of_i32_pos: "0 < sint d \<Longrightarrow> 0 < size_of_i32 d \<and> size_of_i32 d < 2 ^ 31"
  using sint_i32_range(2) [of d] by (simp add: size_of_i32_nonneg)

lemma shape_size:
  assumes "tensor_ok t" "tshape t \<noteq> []"
  shows "length (tdata t) = prod_list (map size_of_i32 (tshape t))"
  using assms shape_product_eq [of 1 "tshape t"] by (simp add: tensor_ok_iff size_from_shape_def)

lemma transpose2d_ok:
  assumes "tensor_ok t" "tensor_rank t = 2"
  shows "\<exists>t'. transpose2d t = Some t' \<and> tensor_ok t'"
proof -
  have "length (tshape t) = 2" using tensor_rank_eq [OF assms(1), of 2] assms(2) by (simp add: i32_of_size_def)
  then obtain r c where rc: "tshape t = [r, c]" by (auto simp: length_Suc_conv numeral_2_eq_2)
  with assms(1) have pos: "0 < sint r" "0 < sint c" by (simp_all add: tensor_ok_iff valid_shape_def)
  have "size_of_i32 c * size_of_i32 r \<le> 2 ^ 31 * 2 ^ 31"
    using size_of_i32_pos [OF pos(1)] size_of_i32_pos [OF pos(2)] by (intro mult_le_mono) simp_all
  then have "size_of_i32 c * size_of_i32 r < 2 ^ 64" by simp
  with shape_product_total [of "[c, r]" 1] pos
  have sz: "size_from_shape [c, r] = Some (size_of_i32 c * size_of_i32 r)"
    by (simp add: size_from_shape_def)
  have "transpose2d t = make_tensor [c, r] (transpose_data (size_of_i32 r) (size_of_i32 c) (tdata t))"
    using assms(2) by (simp add: transpose2d_def rc)
  also have "\<dots> = Some \<lparr>tshape = [c, r], tdata = transpose_data (size_of_i32 r) (size_of_i32 c) (tdata t)\<rparr>"
    using sz pos by (simp add: make_tensor_def valid_shape_def transpose_data_def)
  finally have t: "transpose2d t = Some \<lparr>tshape = [c, r], tdata = transpose_data (size_of_i32 r) (size_of_i32 c) (tdata t)\<rparr>" .
  moreover have "tensor_ok \<lparr>tshape = [c, r], tdata = transpose_data (size_of_i32 r) (size_of_i32 c) (tdata t)\<rparr>"
    using sz pos by (simp add: tensor_ok_iff valid_shape_def transpose_data_def)
  ultimately show ?thesis by blast
qed

text \<open>Transposing twice gives the tensor back, and element \<open>(c, r)\<close> of the transpose is element \<open>(r, c)\<close>.\<close>

lemma transpose_data_nth:
  assumes "r < rows" "c < cols"
  shows "transpose_data rows cols dat ! (c * rows + r) = dat ! (r * cols + c)"
proof -
  have "c * rows + r < cols * rows"
  proof -
    have "c * rows + r < Suc c * rows" using assms(1) by simp
    also have "\<dots> \<le> cols * rows" using assms(2) by (intro mult_le_mono1) simp
    finally show ?thesis .
  qed
  with assms(1) show ?thesis by (simp add: transpose_data_def)
qed

lemma transpose_data_involution:
  assumes "length dat = rows * cols"
  shows "transpose_data cols rows (transpose_data rows cols dat) = dat"
proof (rule nth_equalityI)
  show "length (transpose_data cols rows (transpose_data rows cols dat)) = length dat"
    using assms by (simp add: transpose_data_def)
next
  fix k assume "k < length (transpose_data cols rows (transpose_data rows cols dat))"
  then have k: "k < rows * cols" by (simp add: transpose_data_def)
  then have "0 < cols" by (cases cols) auto
  then have c: "k mod cols < cols" by simp
  have r: "k div cols < rows" using k \<open>0 < cols\<close> by (simp add: div_less_iff_less_mult)
  have "transpose_data cols rows (transpose_data rows cols dat) ! k =
      transpose_data rows cols dat ! ((k mod cols) * rows + k div cols)"
    using transpose_data_nth [OF c r, of "transpose_data rows cols dat"] by simp
  also have "\<dots> = dat ! k" using transpose_data_nth [OF r c, of dat] by simp
  finally show "transpose_data cols rows (transpose_data rows cols dat) ! k = dat ! k" .
qed

end
