(* ===== verification/T81_Machine.thy ===== *)
theory T81_Machine
  imports T81_Trace T81_Tiers T81_Sysregs T81_Gc T81_Values T81_Tensor
begin

text \<open>
  The interpreter object (\<open>class Interpreter\<close> of \<open>core/vm/vm.cpp\<close>) and the local helpers that its
  instruction handlers share.  The result of a handler is an \<open>outcome\<close>: \<open>None\<close> is undefined
  behaviour, \<open>Some (t, vm)\<close> the machine after the handler with the trap it raised, if any.  A handler
  that traps after a partial effect returns the machine with that effect.
\<close>

section \<open>The interpreter\<close>

text \<open>\<open>symbol_ids\<close> is the process-wide table of \<open>T81Symbol::intern\<close>: the names in the order of their
  identities.\<close>

record vm =
  st :: state
  prog :: program
  axion_engine :: engine
  instructions_since_gc :: nat
  instruction_count :: nat
  telemetry :: "tier_telemetry list"
  symbol_ids :: "string list"

type_synonym outcome = "(trap option \<times> vm) option"

definition continue :: "vm \<Rightarrow> outcome" where "continue vm = Some (None, vm)"
definition fault :: "trap \<Rightarrow> vm \<Rightarrow> outcome" where "fault t vm = Some (Some t, vm)"

text \<open>\<open>ctx\<close>, an alias of the current context.\<close>
definition cur :: "vm \<Rightarrow> thread_ctx" where
  "cur vm = contexts (st vm) ! current_context (st vm)"

definition upd_ctx :: "(thread_ctx \<Rightarrow> thread_ctx) \<Rightarrow> vm \<Rightarrow> vm" where
  "upd_ctx f vm = vm\<lparr>st := (st vm)\<lparr>contexts :=
     (contexts (st vm))[current_context (st vm) := f (cur vm)]\<rparr>\<rparr>"

definition upd_st :: "(state \<Rightarrow> state) \<Rightarrow> vm \<Rightarrow> vm" where
  "upd_st f vm = vm\<lparr>st := f (st vm)\<rparr>"

section \<open>Registers\<close>

definition reg_ok :: "i32 \<Rightarrow> bool" where
  "reg_ok r \<longleftrightarrow> 0 \<le> sint r \<and> size_of_i32 r < kRegisters"

text \<open>
  The guards convert an operand to \<open>int\<close>, the subscripts convert it to \<open>std::size_t\<close>: for the
  64-bit middle operand the two need not agree.
\<close>
definition reg_ok_b :: "i64 \<Rightarrow> bool" where "reg_ok_b r = reg_ok (i32_of_i64 r)"
definition idx :: "i32 \<Rightarrow> nat" where "idx r = size_of_i32 r"
definition idx_b :: "i64 \<Rightarrow> nat" where "idx_b r = size_of_i64 r"

definition get_val :: "nat \<Rightarrow> vm \<Rightarrow> i64 option" where
  "get_val n vm = arr_get (registers (cur vm)) n"

definition get_tag :: "nat \<Rightarrow> vm \<Rightarrow> value_tag option" where
  "get_tag n vm = arr_get (register_tags (cur vm)) n"

text \<open>A direct assignment to \<open>ctx.registers\<close> and \<open>ctx.register_tags\<close>, and \<open>set_reg\<close>, which leaves
  the reserved registers alone.\<close>

definition put_reg :: "nat \<Rightarrow> i64 \<Rightarrow> value_tag \<Rightarrow> vm \<Rightarrow> vm option" where
  "put_reg n v tag vm = do {
     vs \<leftarrow> arr_set (registers (cur vm)) n v;
     ts \<leftarrow> arr_set (register_tags (cur vm)) n tag;
     Some (upd_ctx (\<lambda>c. c\<lparr>registers := vs, register_tags := ts\<rparr>) vm)
   }"

definition set_reg :: "i32 \<Rightarrow> i64 \<Rightarrow> value_tag \<Rightarrow> vm \<Rightarrow> vm option" where
  "set_reg r v tag vm =
     (if r = 0 \<or> 75 \<le> sint r \<and> sint r \<le> 80 then Some vm else put_reg (idx r) v tag vm)"

definition update_flags :: "i64 \<Rightarrow> vm \<Rightarrow> vm" where
  "update_flags v = upd_ctx (\<lambda>c. c\<lparr>flags := \<lparr>flag_zero = (v = 0), flag_negative = (sint v < 0),
     flag_positive = (sint v > 0)\<rparr>\<rparr>)"

text \<open>\<open>update_flags(ctx.registers[r])\<close>\<close>
definition update_flags_of :: "nat \<Rightarrow> vm \<Rightarrow> vm option" where
  "update_flags_of n vm = do { v \<leftarrow> get_val n vm; Some (update_flags v vm) }"

definition set_pc :: "nat \<Rightarrow> vm \<Rightarrow> vm" where
  "set_pc n = upd_ctx (\<lambda>c. c\<lparr>pc := n\<rparr>)"

section \<open>Events and policy calls\<close>

definition rec_event :: "opcode \<Rightarrow> i32 \<Rightarrow> i64 \<Rightarrow> verdict \<Rightarrow> vm \<Rightarrow> vm" where
  "rec_event oper tag v r vm =
     upd_st (\<lambda>s. record_axion_event s (current_context s) oper tag v r) vm"

definition log_access :: "opcode \<Rightarrow> segment_kind \<Rightarrow> nat \<Rightarrow> nat \<Rightarrow> string \<Rightarrow> vm \<Rightarrow> vm" where
  "log_access oper kind addr sz action vm =
     upd_st (\<lambda>s. log_memory_segment_access s (current_context s) oper kind addr sz action) vm"

definition log_bounds :: "opcode \<Rightarrow> segment_kind \<Rightarrow> i32 \<Rightarrow> string \<Rightarrow> vm \<Rightarrow> vm" where
  "log_bounds oper kind addr action vm =
     upd_st (\<lambda>s. log_bounds_fault s (current_context s) oper kind addr action) vm"

definition log_bounds_at :: "opcode \<Rightarrow> i32 \<Rightarrow> string \<Rightarrow> vm \<Rightarrow> vm" where
  "log_bounds_at oper addr action vm =
     (let kind = (if 0 \<le> sint addr then segment_for_address (st vm) (size_of_i32 addr) else Seg_Unknown)
      in log_bounds oper kind addr action vm)"

text \<open>\<open>check_mem\<close>: on failure the fault is logged, and the caller chooses the trap.\<close>

definition check_mem :: "opcode \<Rightarrow> i32 \<Rightarrow> string \<Rightarrow> bool \<Rightarrow> vm \<Rightarrow> bool \<times> vm" where
  "check_mem oper addr action code vm =
     (if mem_ok (st vm) addr code then (True, vm) else (False, log_bounds_at oper addr action vm))"

definition eval_axion_call ::
    "string \<Rightarrow> nat \<Rightarrow> opcode \<Rightarrow> string \<Rightarrow> vm \<Rightarrow> (verdict \<times> vm) option" where
  "eval_axion_call syscall cpc oper payload vm = do {
     (v, e) \<leftarrow> evaluate (axion_engine vm)
       (make_syscall_context (st vm) (current_context (st vm)) ''t81vm'' syscall payload cpc oper
          (instruction_count vm) None);
     Some (v, vm\<lparr>axion_engine := e\<rparr>)
   }"

section \<open>Tiers\<close>

definition cur_tier :: "vm \<Rightarrow> tier_id" where
  "cur_tier vm = tier_current (tier_status (cur vm))"

definition promotion_denied_reason :: "string \<Rightarrow> tier_id \<Rightarrow> tier_id \<Rightarrow> string" where
  "promotion_denied_reason cause current required =
     ''TierFault promotion denied cause='' @ cause @ '' current='' @ show_nat (tier_rank current) @
     '' required>='' @ show_nat (tier_rank required)"

text \<open>One iteration of the loop of \<open>ensure_min_tier\<close>; the boolean says whether it goes on.\<close>

definition promote_once :: "opcode \<Rightarrow> tier_id \<Rightarrow> string \<Rightarrow> vm \<Rightarrow> (bool \<times> vm) option" where
  "promote_once oper required cause vm = do {
     (res, e) \<leftarrow> try_promote evaluate (tier_status (cur vm)) (axion_engine vm);
     let vm1 = vm\<lparr>axion_engine := e\<rparr>;
     let tag = word_of_nat (tier_rank required);
     (case res of
        Inl _ \<Rightarrow> Some (False, rec_event oper tag (i64_of_size (tier_rank (cur_tier vm1)))
                   (deny (promotion_denied_reason cause (cur_tier vm1) required)) vm1)
      | Inr status \<Rightarrow>
          let vm2 = upd_ctx (\<lambda>c. c\<lparr>tier_status := status\<rparr>) vm1
          in Some (True, rec_event oper tag (i64_of_size (tier_rank (cur_tier vm2)))
               (allow (''Cognitive Tier Promotion: '' @ tier_label status)) vm2))
   }"

text \<open>A promotion raises the rank by one, so five iterations exhaust the loop from any tier; the
  loop is a recursion on the number of ranks missing.\<close>

fun ensure_min_tier_loop :: "nat \<Rightarrow> opcode \<Rightarrow> tier_id \<Rightarrow> string \<Rightarrow> vm \<Rightarrow> (bool \<times> vm) option" where
  "ensure_min_tier_loop 0 oper required cause vm = Some (True, vm)"
| "ensure_min_tier_loop (Suc n) oper required cause vm = do {
     (ok, vm1) \<leftarrow> promote_once oper required cause vm;
     if ok then ensure_min_tier_loop n oper required cause vm1 else Some (False, vm1)
   }"

definition ensure_min_tier :: "opcode \<Rightarrow> tier_id \<Rightarrow> string \<Rightarrow> vm \<Rightarrow> (bool \<times> vm) option" where
  "ensure_min_tier oper required cause vm =
     ensure_min_tier_loop (tier_rank required - tier_rank (cur_tier vm)) oper required cause vm"

definition record_tier_fault :: "opcode \<Rightarrow> nat \<Rightarrow> string \<Rightarrow> string \<Rightarrow> i64 \<Rightarrow> vm \<Rightarrow> vm" where
  "record_tier_fault oper cpc code detail v vm =
     (let c = cur vm;
          reason = ''TierFault code='' @ code @ '' tier='' @ show_nat (tier_rank (cur_tier vm)) @
            '' call_depth='' @ show_nat (call_depth c) @
            '' recurse_depth='' @ show_sint (current_depth (tier3_recursor c)) @
            '' pc='' @ show_nat cpc @ '' value='' @ show_sint v @
            (if trace (st vm) \<noteq> [] then
               let l = last (trace (st vm)) in
               '' recent_last_pc='' @ show_nat (te_pc l) @
               '' recent_last_op='' @ opcode_name (te_opcode l)
             else []) @
            (if detail \<noteq> [] then '' detail='' @ detail else [])
      in rec_event oper (word_of_nat (tier_rank (cur_tier vm))) v (deny reason) vm)"

definition upd_telemetry :: "(tier_telemetry \<Rightarrow> tier_telemetry) \<Rightarrow> vm \<Rightarrow> vm" where
  "upd_telemetry f vm = vm\<lparr>telemetry :=
     (telemetry vm)[current_context (st vm) := f (telemetry vm ! current_context (st vm))]\<rparr>"

definition infer_required_tier_for_recursion :: "vm \<Rightarrow> nat" where
  "infer_required_tier_for_recursion vm =
     (let depth = max (call_depth (cur vm)) (size_of_i32 (current_depth (tier3_recursor (cur vm)))) in
      if depth > recursion_limit_for_tier Tier4 then 5
      else if depth > recursion_limit_for_tier Tier3 then 4
      else if depth > recursion_limit_for_tier Tier2 then 3
      else if depth > recursion_limit_for_tier Tier1 then 2
      else 1)"

section \<open>The stack\<close>

text \<open>\<open>push_stack\<close> and \<open>pop_stack\<close> on the current context.\<close>

definition push_stack :: "i64 \<Rightarrow> value_tag \<Rightarrow> vm \<Rightarrow> (nat option \<times> vm) option" where
  "push_stack v tag vm = do {
     (r, s, ctx) \<leftarrow> push_stack_word (st vm) (cur vm) v tag;
     Some (r, upd_ctx (\<lambda>_. ctx) (vm\<lparr>st := s\<rparr>))
   }"

definition pop_stack :: "vm \<Rightarrow> ((nat \<times> i64 \<times> value_tag) option \<times> vm) option" where
  "pop_stack vm = do {
     (r, ctx) \<leftarrow> pop_stack_word (st vm) (cur vm);
     Some (r, upd_ctx (\<lambda>_. ctx) vm)
   }"

section \<open>Well-formed machines\<close>

text \<open>
  The invariant of the interpreter: arrays have their sizes, the stack pointer and the stack frames
  of every context stay inside the stack segment, the live heap blocks tile the heap segment from
  its start to the heap pointer, and a tensor slot on the free list is free.
\<close>

fun tiles :: "nat \<Rightarrow> (i64 \<times> i64) list \<Rightarrow> nat \<Rightarrow> bool" where
  "tiles a [] b \<longleftrightarrow> a = b"
| "tiles a ((x, n) # blocks) b \<longleftrightarrow> unat x = a \<and> tiles (a + unat n) blocks b"

definition ctx_wf :: "state \<Rightarrow> thread_ctx \<Rightarrow> bool" where
  "ctx_wf s c \<longleftrightarrow>
     length (registers c) = kRegisters \<and> length (register_tags c) = kRegisters \<and>
     stack_ok s c \<and> stack_limit c = seg_start (stack_seg (layout s)) \<and>
     stack_base c = seg_limit (stack_seg (layout s)) \<and>
     (\<forall>(a, n) \<in> set (stack_frames c). seg_start (stack_seg (layout s)) \<le> unat a \<and>
        unat a + unat n \<le> seg_limit (stack_seg (layout s)))"

definition free_list_ok :: "nat list \<Rightarrow> 'a option list \<Rightarrow> bool" where
  "free_list_ok fr xs \<longleftrightarrow> distinct fr \<and> (\<forall>i \<in> set fr. i < length xs \<and> xs ! i = None)"

definition state_wf :: "state \<Rightarrow> bool" where
  "state_wf s \<longleftrightarrow>
     layout_ok (layout s) \<and> seg_limit (meta_seg (layout s)) < 2 ^ 31 \<and>
     length (memory s) = seg_limit (meta_seg (layout s)) \<and>
     length (memory_tags s) = seg_limit (meta_seg (layout s)) \<and>
     current_context s < length (contexts s) \<and> (\<forall>c \<in> set (contexts s). ctx_wf s c) \<and>
     tiles (seg_start (heap_seg (layout s))) (heap_frames s) (heap_ptr s) \<and>
     heap_ptr s \<le> seg_limit (heap_seg (layout s)) \<and>
     free_list_ok (free_tensor_indices s) (tensors s) \<and>
     free_list_ok (free_infinite_indices s) (infinite_forms s) \<and>
     (\<forall>t. Some t \<in> set (tensors s) \<longrightarrow> tensor_ok t) \<and>
     (\<forall>n \<in> ran (enum_metadata_index s). n < length (enum_metadata s))"

text \<open>The program and the layout of the memory are fixed when a program is loaded: \<open>k\<close> is what they
  are in every later state.\<close>

definition vm_wf :: "program \<times> memory_layout \<Rightarrow> vm \<Rightarrow> bool" where
  "vm_wf k vm \<longleftrightarrow> prog vm = fst k \<and> layout (st vm) = snd k \<and> state_wf (st vm) \<and> length (contexts (st vm)) \<le> length (telemetry vm) \<and>
     engine_ok (axion_engine vm)"

text \<open>No undefined behaviour, the invariant afterwards, and the program and layout unchanged.\<close>
definition safe :: "program \<times> memory_layout \<Rightarrow> outcome \<Rightarrow> bool" where
  "safe k r \<longleftrightarrow> (case r of None \<Rightarrow> False | Some (t, vm) \<Rightarrow> vm_wf k vm)"

text \<open>Fields on which the invariant depends.\<close>

lemma ctx_wf_cong:
  "length (memory s') = length (memory s) \<Longrightarrow> length (memory_tags s') = length (memory_tags s) \<Longrightarrow>
     layout s' = layout s \<Longrightarrow> ctx_wf s' c = ctx_wf s c"
  by (simp add: ctx_wf_def stack_ok_def)

lemma ctx_wf_same:
  "ctx_wf s c \<Longrightarrow> length (registers c') = length (registers c) \<Longrightarrow>
     length (register_tags c') = length (register_tags c) \<Longrightarrow> sp c' = sp c \<Longrightarrow>
     stack_limit c' = stack_limit c \<Longrightarrow> stack_base c' = stack_base c \<Longrightarrow>
     stack_frames c' = stack_frames c \<Longrightarrow> ctx_wf s c'"
  by (simp add: ctx_wf_def stack_ok_def)

lemma state_wf_cong:
  assumes "length (memory s') = length (memory s)" "length (memory_tags s') = length (memory_tags s)"
    "layout s' = layout s" "contexts s' = contexts s" "current_context s' = current_context s"
    "heap_ptr s' = heap_ptr s" "heap_frames s' = heap_frames s" "free_tensor_indices s' = free_tensor_indices s" "tensors s' = tensors s"
    "free_infinite_indices s' = free_infinite_indices s" "infinite_forms s' = infinite_forms s"
    "enum_metadata_index s' = enum_metadata_index s" "enum_metadata s' = enum_metadata s"
  shows "state_wf s' = state_wf s"
  using assms ctx_wf_cong [of s' s] by (simp add: state_wf_def)

lemma state_wf_log_ext: "log_ext s s' \<Longrightarrow> state_wf s' = state_wf s"
  by (rule state_wf_cong) (simp_all add: log_ext_fields)

lemma vm_wf_state: "vm_wf k vm \<Longrightarrow> state_wf (st vm)"
  by (simp add: vm_wf_def)

lemma cur_wf: "vm_wf k vm \<Longrightarrow> ctx_wf (st vm) (cur vm)"
  by (simp add: vm_wf_def state_wf_def cur_def)

lemma cur_upd_ctx: "vm_wf k vm \<Longrightarrow> cur (upd_ctx f vm) = f (cur vm)"
  by (simp add: vm_wf_def state_wf_def cur_def upd_ctx_def)

lemma upd_ctx_wf:
  assumes "vm_wf k vm" "ctx_wf (st vm) (f (cur vm))"
  shows "vm_wf k (upd_ctx f vm)"
proof -
  let ?s = "(st vm)\<lparr>contexts := (contexts (st vm))[current_context (st vm) := f (cur vm)]\<rparr>"
  have "ctx_wf ?s c = ctx_wf (st vm) c" for c by (rule ctx_wf_cong) simp_all
  moreover have "set (contexts ?s) \<subseteq> insert (f (cur vm)) (set (contexts (st vm)))"
    by (simp add: set_update_subset_insert)
  ultimately have "state_wf ?s" using assms by (auto simp: vm_wf_def state_wf_def)
  then show ?thesis using assms(1) by (simp add: vm_wf_def upd_ctx_def)
qed

lemma upd_st_wf:
  "vm_wf k vm \<Longrightarrow> state_wf (f (st vm)) \<Longrightarrow> length (contexts (f (st vm))) = length (contexts (st vm)) \<Longrightarrow>
     layout (f (st vm)) = layout (st vm) \<Longrightarrow> vm_wf k (upd_st f vm)"
  by (simp add: vm_wf_def upd_st_def)

lemma log_upd_st_wf: "vm_wf k vm \<Longrightarrow> log_ext (st vm) (f (st vm)) \<Longrightarrow> vm_wf k (upd_st f vm)"
  by (rule upd_st_wf) (auto simp: vm_wf_def state_wf_log_ext log_ext_fields)

lemma wf_rec_event [wf_intros]: "vm_wf k vm \<Longrightarrow> vm_wf k (rec_event oper tag v r vm)"
  unfolding rec_event_def by (rule log_upd_st_wf) simp_all

lemma wf_log_access [wf_intros]: "vm_wf k vm \<Longrightarrow> vm_wf k (log_access oper kind addr sz action vm)"
  unfolding log_access_def by (rule log_upd_st_wf) simp_all

lemma wf_log_bounds [wf_intros]: "vm_wf k vm \<Longrightarrow> vm_wf k (log_bounds oper kind addr action vm)"
  unfolding log_bounds_def by (rule log_upd_st_wf) simp_all

lemma wf_log_bounds_at [wf_intros]: "vm_wf k vm \<Longrightarrow> vm_wf k (log_bounds_at oper addr action vm)"
  by (simp add: log_bounds_at_def wf_intros Let_def)

lemma wf_update_flags [wf_intros]: "vm_wf k vm \<Longrightarrow> vm_wf k (update_flags v vm)"
  unfolding update_flags_def 
  by (rule upd_ctx_wf, assumption, rule ctx_wf_same [OF cur_wf], assumption) simp_all

lemma wf_set_pc [wf_intros]: "vm_wf k vm \<Longrightarrow> vm_wf k (set_pc n vm)"
  unfolding set_pc_def 
  by (rule upd_ctx_wf, assumption, rule ctx_wf_same [OF cur_wf], assumption) simp_all

lemma wf_upd_telemetry [wf_intros]: "vm_wf k vm \<Longrightarrow> vm_wf k (upd_telemetry f vm)"
  by (simp add: vm_wf_def upd_telemetry_def)

lemma wf_engine: "vm_wf k vm \<Longrightarrow> engine_ok e \<Longrightarrow> vm_wf k (vm\<lparr>axion_engine := e\<rparr>)"
  by (simp add: vm_wf_def)

section \<open>Rules for handlers\<close>

lemma safe_continue [ub_free]: "vm_wf k vm \<Longrightarrow> safe k (continue vm)"
  by (simp add: safe_def continue_def)

lemma safe_fault [ub_free]: "vm_wf k vm \<Longrightarrow> safe k (fault t vm)"
  by (simp add: safe_def fault_def)

lemma safe_if [ub_free]: "(b \<Longrightarrow> safe k x) \<Longrightarrow> (\<not> b \<Longrightarrow> safe k y) \<Longrightarrow> safe k (if b then x else y)"
  by simp

lemma safe_let [ub_free]: "(\<And>x. x = e \<Longrightarrow> safe k (f x)) \<Longrightarrow> safe k (let x = e in f x)"
  by (simp add: Let_def)

lemma safe_bind: "m = Some x \<Longrightarrow> safe k (f x) \<Longrightarrow> safe k (m \<bind> f)"
  by simp

lemma reg_ok_idx [simp]: "reg_ok r \<Longrightarrow> idx r < kRegisters"
  by (simp add: reg_ok_def idx_def)

lemma safe_get_val [ub_free]:
  assumes "vm_wf k vm" "n < kRegisters" "\<And>v. v = registers (cur vm) ! n \<Longrightarrow> safe k (f v)"
  shows "safe k (get_val n vm \<bind> f)"
  using assms cur_wf [OF assms(1)] by (simp add: get_val_def ctx_wf_def)

lemma safe_get_tag [ub_free]:
  assumes "vm_wf k vm" "n < kRegisters" "\<And>v. v = register_tags (cur vm) ! n \<Longrightarrow> safe k (f v)"
  shows "safe k (get_tag n vm \<bind> f)"
  using assms cur_wf [OF assms(1)] by (simp add: get_tag_def ctx_wf_def)

lemma put_reg_wf:
  assumes "vm_wf k vm" "n < kRegisters"
  shows "\<exists>vm'. put_reg n v tag vm = Some vm' \<and> vm_wf k vm'"
proof -
  have c: "ctx_wf (st vm) (cur vm)" by (rule cur_wf [OF assms(1)])
  then have "put_reg n v tag vm = Some (upd_ctx (\<lambda>c. c\<lparr>registers := (registers (cur vm))[n := v],
      register_tags := (register_tags (cur vm))[n := tag]\<rparr>) vm)"
    using assms(2) by (simp add: put_reg_def ctx_wf_def)
  moreover have "vm_wf k (upd_ctx (\<lambda>c. c\<lparr>registers := (registers (cur vm))[n := v],
      register_tags := (register_tags (cur vm))[n := tag]\<rparr>) vm)"
    by (rule upd_ctx_wf [OF assms(1)], rule ctx_wf_same [OF c]) simp_all
  ultimately show ?thesis by blast
qed

lemma safe_put_reg [ub_free]:
  assumes "vm_wf k vm" "n < kRegisters" "\<And>vm'. vm_wf k vm' \<Longrightarrow> safe k (f vm')"
  shows "safe k (put_reg n v tag vm \<bind> f)"
  using put_reg_wf [OF assms(1,2), of v tag] assms(3) by auto

lemma safe_set_reg [ub_free]:
  assumes "vm_wf k vm" "idx r < kRegisters" "\<And>vm'. vm_wf k vm' \<Longrightarrow> safe k (f vm')"
  shows "safe k (set_reg r v tag vm \<bind> f)"
  unfolding set_reg_def using put_reg_wf [OF assms(1,2), of v tag] assms(1,3) by auto

lemma safe_update_flags_of [ub_free]:
  assumes "vm_wf k vm" "n < kRegisters" "\<And>vm'. vm_wf k vm' \<Longrightarrow> safe k (f vm')"
  shows "safe k (update_flags_of n vm \<bind> f)"
  using assms cur_wf [OF assms(1)] by (simp add: update_flags_of_def get_val_def ctx_wf_def wf_intros)

lemma eval_axion_call_total:
  assumes "vm_wf k vm"
  shows "\<exists>v vm'. eval_axion_call syscall cpc oper payload vm = Some (v, vm') \<and> vm_wf k vm' \<and>
    st vm' = st vm \<and> prog vm' = prog vm \<and> instruction_count vm' = instruction_count vm"
proof -
  from assms have "engine_ok (axion_engine vm)" by (simp add: vm_wf_def)
  then obtain v e where "evaluate (axion_engine vm) (make_syscall_context (st vm)
      (current_context (st vm)) ''t81vm'' syscall payload cpc oper (instruction_count vm) None) =
      Some (v, e)" "engine_ok e" by (rule vm_engine.ev_obtain)
  with wf_engine [OF assms] show ?thesis by (simp add: eval_axion_call_def)
qed

lemma safe_eval_axion_call [ub_free]:
  assumes "vm_wf k vm" "\<And>v vm'. vm_wf k vm' \<Longrightarrow> st vm' = st vm \<Longrightarrow> safe k (f (v, vm'))"
  shows "safe k (eval_axion_call syscall cpc oper payload vm \<bind> f)"
  using eval_axion_call_total [OF assms(1), of syscall cpc oper payload] assms(2) by auto

end
