(* ===== verification/T81_Exec_Core.thy ===== *)
theory T81_Exec_Core
  imports T81_Tables T81_Machine
begin

text \<open>
  Instruction handlers of \<open>core/vm/vm.cpp\<close>, first part: loads of constants, moves, arithmetic,
  memory access, jumps, comparisons, trits and bits.  A handler takes the instruction, the address
  it was fetched from (\<open>current_pc\<close>) and the machine.  Each comes with the proof that it has no
  undefined behaviour and keeps the invariant of the machine, when the middle operand fits in 32
  bits and its arithmetic does not overflow.
\<close>

type_synonym handler = "insn \<Rightarrow> nat \<Rightarrow> vm \<Rightarrow> outcome"

section \<open>Operand guards\<close>

definition bad_a :: "insn \<Rightarrow> bool" where "bad_a i \<longleftrightarrow> \<not> reg_ok (op_a i)"
definition bad_ab :: "insn \<Rightarrow> bool" where "bad_ab i \<longleftrightarrow> \<not> reg_ok (op_a i) \<or> \<not> reg_ok_b (op_b i)"
definition bad_abc :: "insn \<Rightarrow> bool" where
  "bad_abc i \<longleftrightarrow> \<not> reg_ok (op_a i) \<or> \<not> reg_ok_b (op_b i) \<or> \<not> reg_ok (op_c i)"

abbreviation (input) ia :: "insn \<Rightarrow> nat" where "ia i \<equiv> idx (op_a i)"
abbreviation (input) ib :: "insn \<Rightarrow> nat" where "ib i \<equiv> idx_b (op_b i)"
abbreviation (input) ic :: "insn \<Rightarrow> nat" where "ic i \<equiv> idx (op_c i)"

text \<open>
  The middle operand survives its conversion to \<open>int\<close>.  The 13-byte encoding gives only such
  operands; a program built in memory may hold others.
\<close>
definition operand_fits :: "insn \<Rightarrow> bool" where
  "operand_fits i \<longleftrightarrow> op_b i = i64_of_i32 (i32_of_i64 (op_b i))"

lemma idx_b_fits:
  assumes "operand_fits i"
  shows "idx_b (op_b i) = idx (i32_of_i64 (op_b i))"
proof -
  have "idx_b (op_b i) = idx_b (i64_of_i32 (i32_of_i64 (op_b i)))"
    using assms unfolding operand_fits_def by (rule arg_cong)
  then show ?thesis by (simp add: idx_b_def idx_def size_of_i64_def size_of_i32_def i64_of_i32_def)
qed

lemma reg_ok_b_idx: "operand_fits i \<Longrightarrow> reg_ok_b (op_b i) \<Longrightarrow> idx_b (op_b i) < kRegisters"
  by (simp add: idx_b_fits reg_ok_b_def)

lemma good_regs:
  "\<not> bad_a i \<Longrightarrow> ia i < kRegisters"
  "operand_fits i \<Longrightarrow> \<not> bad_ab i \<Longrightarrow> ia i < kRegisters"
  "operand_fits i \<Longrightarrow> \<not> bad_ab i \<Longrightarrow> ib i < kRegisters"
  "operand_fits i \<Longrightarrow> \<not> bad_abc i \<Longrightarrow> ia i < kRegisters"
  "operand_fits i \<Longrightarrow> \<not> bad_abc i \<Longrightarrow> ib i < kRegisters"
  "\<not> bad_abc i \<Longrightarrow> ic i < kRegisters"
  by (auto simp: bad_a_def bad_ab_def bad_abc_def reg_ok_b_idx)

definition bool_word :: "bool \<Rightarrow> i64" where "bool_word b = (if b then 1 else 0)"

text \<open>The shape of the handlers with two source registers and one target.\<close>

definition alu2 :: "(i64 \<Rightarrow> i64 \<Rightarrow> i64 option) \<Rightarrow> handler" where
  "alu2 f i cpc vm =
     (if bad_abc i then fault DecodeFault vm
      else do {
        x \<leftarrow> get_val (ib i) vm;
        y \<leftarrow> get_val (ic i) vm;
        v \<leftarrow> f x y;
        vm \<leftarrow> put_reg (ia i) v VT_Int vm;
        vm \<leftarrow> update_flags_of (ia i) vm;
        continue vm
      })"

definition alu1 :: "(i64 \<Rightarrow> i64 option) \<Rightarrow> handler" where
  "alu1 f i cpc vm =
     (if bad_ab i then fault DecodeFault vm
      else do {
        x \<leftarrow> get_val (ib i) vm;
        v \<leftarrow> f x;
        vm \<leftarrow> put_reg (ia i) v VT_Int vm;
        vm \<leftarrow> update_flags_of (ia i) vm;
        continue vm
      })"

section \<open>Handlers\<close>

definition exec_nop :: handler where
  "exec_nop i cpc vm =
     (let n = size_of_i64 (op_b i) in
      if literal_kind i = LK_SymbolHandle \<and> 0 < sint (op_b i) \<and> n \<le> length (symbols (st vm))
      then continue (upd_st (\<lambda>s. s\<lparr>axion_log := axion_log s @
             [\<lparr>ev_opcode = opcode i, ev_tag = i32_of_i64 (op_b i), ev_value = 0,
               ev_verdict = allow (symbols s ! (n - 1)), ev_structured = default_structured\<rparr>]\<rparr>) vm)
      else continue vm)"

definition exec_halt :: handler where
  "exec_halt i cpc vm = continue (upd_st (\<lambda>s. s\<lparr>halted := True\<rparr>) vm)"

definition literal_kind_to_tag :: "literal_kind \<Rightarrow> value_tag" where
  "literal_kind_to_tag k =
     (if k = LK_Bool then VT_Bool else if k = LK_FloatHandle then VT_FloatHandle
      else if k = LK_FractionHandle then VT_FractionHandle
      else if k = LK_SymbolHandle then VT_SymbolHandle
      else if k = LK_TensorHandle then VT_TensorHandle
      else if k = LK_ShapeHandle then VT_ShapeHandle else VT_Int)"

definition exec_load_imm :: handler where
  "exec_load_imm i cpc vm =
     (if bad_a i then fault DecodeFault vm
      else let tag = literal_kind_to_tag (literal_kind i);
               (tag, v) = (if tag = VT_SymbolHandle then
                  (case runtime_token_tag_from_symbol_handle (st vm) (op_b i) of
                     Some rt \<Rightarrow> (rt, 1) | None \<Rightarrow> (tag, op_b i))
                else (tag, op_b i))
           in do {
             vm \<leftarrow> set_reg (op_a i) v tag vm;
             vm \<leftarrow> update_flags_of (ia i) vm;
             continue vm
           })"

definition copy_reg :: "i32 \<Rightarrow> i32 \<Rightarrow> vm \<Rightarrow> vm option" where
  "copy_reg dst src vm =
     (if dst = 0 \<or> 75 \<le> sint dst \<and> sint dst \<le> 80 then Some vm
      else do {
        v \<leftarrow> get_val (idx src) vm;
        t \<leftarrow> get_tag (idx src) vm;
        put_reg (idx dst) v t vm
      })"

definition exec_mov :: handler where
  "exec_mov i cpc vm =
     (if bad_ab i then fault DecodeFault vm
      else do {
        vm \<leftarrow> copy_reg (op_a i) (i32_of_i64 (op_b i)) vm;
        vm \<leftarrow> update_flags_of (ia i) vm;
        continue vm
      })"

definition inc_by :: "i64 \<Rightarrow> handler" where
  "inc_by d i cpc vm =
     (if bad_a i then fault DecodeFault vm
      else do {
        x \<leftarrow> get_val (ia i) vm;
        v \<leftarrow> add_int x d;
        vm \<leftarrow> put_reg (ia i) v VT_Int vm;
        vm \<leftarrow> update_flags_of (ia i) vm;
        continue vm
      })"

definition exec_inc :: handler where "exec_inc = inc_by 1"
definition exec_dec :: handler where "exec_dec = inc_by (- 1)"
definition exec_add :: handler where "exec_add = alu2 add_int"
definition exec_sub :: handler where "exec_sub = alu2 sub_int"
definition exec_mul :: handler where "exec_mul = alu2 mul_int"
definition exec_neg :: handler where "exec_neg = alu1 neg_int"

definition exec_load :: handler where
  "exec_load i cpc vm =
     (if bad_a i then fault DecodeFault vm
      else case check_mem (opcode i) (i32_of_i64 (op_b i)) ''memory load'' False vm of
        (False, vm) \<Rightarrow> fault BoundsFault vm
      | (True, vm) \<Rightarrow>
          let addr = size_of_i64 (op_b i) in do {
            v \<leftarrow> arr_get (memory (st vm)) addr;
            t \<leftarrow> arr_get (memory_tags (st vm)) addr;
            vm \<leftarrow> put_reg (ia i) v t vm;
            let vm = log_access (opcode i) (segment_for_address (st vm) addr) addr 1 ''memory load'' vm;
            vm \<leftarrow> update_flags_of (ia i) vm;
            continue vm
          })"

definition put_mem :: "nat \<Rightarrow> i64 \<Rightarrow> value_tag \<Rightarrow> vm \<Rightarrow> vm option" where
  "put_mem addr v tag vm = do {
     mem \<leftarrow> arr_set (memory (st vm)) addr v;
     tags \<leftarrow> arr_set (memory_tags (st vm)) addr tag;
     Some (upd_st (\<lambda>s. s\<lparr>memory := mem, memory_tags := tags\<rparr>) vm)
   }"

definition exec_store :: handler where
  "exec_store i cpc vm =
     (if \<not> reg_ok_b (op_b i) then fault DecodeFault vm
      else case check_mem (opcode i) (op_a i) ''memory store'' False vm of
        (False, vm) \<Rightarrow> fault BoundsFault vm
      | (True, vm) \<Rightarrow>
          let addr = size_of_i32 (op_a i) in do {
            v \<leftarrow> get_val (ib i) vm;
            t \<leftarrow> get_tag (ib i) vm;
            vm \<leftarrow> put_mem addr v t vm;
            continue (log_access (opcode i) (segment_for_address (st vm) addr) addr 1 ''memory store'' vm)
          })"

definition exec_divmod :: handler where
  "exec_divmod i cpc vm =
     (if bad_abc i then fault DecodeFault vm
      else do {
        divisor \<leftarrow> get_val (ic i) vm;
        lhs \<leftarrow> get_val (ib i) vm;
        r \<leftarrow> (if opcode i = Op_Div then div_int lhs divisor else mod_int lhs divisor);
        (case r of
           None \<Rightarrow> fault DivisionFault vm
         | Some result \<Rightarrow> do {
             vm \<leftarrow> put_reg (ia i) result VT_Int vm;
             vm \<leftarrow> update_flags_of (ia i) vm;
             continue vm
           })
      })"

section \<open>Jumps\<close>

text \<open>The check of the target and the assignment to the program counter.\<close>

definition jump_to :: "insn \<Rightarrow> string \<Rightarrow> vm \<Rightarrow> outcome" where
  "jump_to i action vm =
     (case check_mem (opcode i) (op_a i) action True vm of
        (False, vm) \<Rightarrow> fault DecodeFault vm
      | (True, vm) \<Rightarrow> continue (set_pc (size_of_i32 (op_a i)) vm))"

definition jump_if :: "bool \<Rightarrow> insn \<Rightarrow> string \<Rightarrow> vm \<Rightarrow> outcome" where
  "jump_if taken i action vm =
     (let vm = upd_telemetry (record_branch_decision taken) vm
      in if taken then jump_to i action vm else continue vm)"

definition exec_jump :: handler where
  "exec_jump i cpc vm = jump_to i ''jump'' vm"

definition exec_jump_if_zero :: handler where
  "exec_jump_if_zero i cpc vm =
     (if \<not> reg_ok_b (op_b i) then fault DecodeFault vm
      else do { v \<leftarrow> get_val (ib i) vm; jump_if (v = 0) i ''jump if zero'' vm })"

definition exec_jump_if_not_zero :: handler where
  "exec_jump_if_not_zero i cpc vm =
     (if \<not> reg_ok_b (op_b i) then fault DecodeFault vm
      else do { v \<leftarrow> get_val (ib i) vm; jump_if (v \<noteq> 0) i ''jump if not zero'' vm })"

definition exec_jump_if_negative :: handler where
  "exec_jump_if_negative i cpc vm =
     jump_if (flag_negative (flags (cur vm))) i ''jump if negative'' vm"

definition exec_jump_if_positive :: handler where
  "exec_jump_if_positive i cpc vm =
     jump_if (flag_positive (flags (cur vm))) i ''jump if positive'' vm"

section \<open>Comparisons\<close>

definition relation_holds :: "opcode \<Rightarrow> int \<Rightarrow> bool" where
  "relation_holds oper relation =
     (if oper = Op_Less then relation < 0 else if oper = Op_LessEqual then relation \<le> 0
      else if oper = Op_Greater then relation > 0 else if oper = Op_GreaterEqual then relation \<ge> 0
      else if oper = Op_Equal then relation = 0 else if oper = Op_NotEqual then relation \<noteq> 0
      else False)"

definition exec_compare :: handler where
  "exec_compare i cpc vm =
     (if bad_abc i then fault DecodeFault vm
      else do {
        tag_b \<leftarrow> get_tag (ib i) vm;
        tag_c \<leftarrow> get_tag (ic i) vm;
        (if tag_b \<noteq> tag_c then fault TypeFault vm
         else do {
           x \<leftarrow> get_val (ib i) vm;
           y \<leftarrow> get_val (ic i) vm;
           relation \<leftarrow> compare_value (compare_fuel (st vm)) (st vm) tag_b x y;
           (case relation of
              None \<Rightarrow> fault DecodeFault vm
            | Some r \<Rightarrow> do {
                vm \<leftarrow> put_reg (ia i) (bool_word (relation_holds (opcode i) r)) VT_Int vm;
                vm \<leftarrow> update_flags_of (ia i) vm;
                continue vm
              })
         })
      })"

definition exec_cmp :: handler where
  "exec_cmp i cpc vm =
     (if bad_ab i then fault DecodeFault vm
      else do {
        tag_a \<leftarrow> get_tag (ia i) vm;
        tag_b \<leftarrow> get_tag (ib i) vm;
        (if tag_a \<noteq> tag_b then fault TypeFault vm
         else do {
           x \<leftarrow> get_val (ia i) vm;
           y \<leftarrow> get_val (ib i) vm;
           relation \<leftarrow> compare_value (compare_fuel (st vm)) (st vm) tag_a x y;
           (case relation of
              None \<Rightarrow> fault DecodeFault vm
            | Some r \<Rightarrow> continue (upd_ctx (\<lambda>c. c\<lparr>flags := \<lparr>flag_zero = (r = 0),
                  flag_negative = (r < 0), flag_positive = (r > 0)\<rparr>\<rparr>) vm))
         })
      })"

definition exec_setf :: handler where
  "exec_setf i cpc vm =
     (if bad_a i then fault DecodeFault vm
      else let fl = flags (cur vm);
               v = (if flag_negative fl then - 1 else if \<not> flag_zero fl then 1 else 0)
           in do {
             vm \<leftarrow> set_reg (op_a i) v VT_Int vm;
             continue (update_flags v vm)
           })"

section \<open>Trits and bits\<close>

definition exec_tnot :: handler where
  "exec_tnot = alu1 (\<lambda>x. Some (word_of_int (trit_not (clamp_trit x))))"

definition exec_trit_binary :: handler where
  "exec_trit_binary i = alu2 (\<lambda>x y.
     let lhs = clamp_trit x; rhs = clamp_trit y in
     Some (word_of_int (if opcode i = Op_TAnd then trit_and lhs rhs
       else if opcode i = Op_TOr then trit_or lhs rhs else trit_xor lhs rhs))) i"

definition exec_bitwise_binary :: handler where
  "exec_bitwise_binary i = alu2 (\<lambda>x y. Some
     (if opcode i = Op_BitAnd then x AND y else if opcode i = Op_BitOr then x OR y else x XOR y)) i"

definition exec_bitwise_not :: handler where
  "exec_bitwise_not = alu1 (\<lambda>x. Some (NOT x))"

definition exec_bitwise_shift :: handler where
  "exec_bitwise_shift i = alu2 (\<lambda>x y. Some
     (if opcode i = Op_BitShl then bit_shl x y else if opcode i = Op_BitShr then bit_shr x y
      else bit_ushr x y)) i"

section \<open>Safety\<close>

lemma vm_wf_memory:
  assumes "vm_wf k vm" "addr < length (memory (st vm))"
  shows "arr_get (memory (st vm)) addr = Some (memory (st vm) ! addr)"
    "arr_get (memory_tags (st vm)) addr = Some (memory_tags (st vm) ! addr)"
  using assms by (simp_all add: vm_wf_def state_wf_def)

lemma put_mem_wf:
  assumes "vm_wf k vm" "addr < length (memory (st vm))"
  shows "\<exists>vm'. put_mem addr v tag vm = Some vm' \<and> vm_wf k vm'"
proof -
  let ?f = "\<lambda>s. s\<lparr>memory := (memory (st vm))[addr := v], memory_tags := (memory_tags (st vm))[addr := tag]\<rparr>"
  have "state_wf (?f (st vm)) = state_wf (st vm)" by (rule state_wf_cong) simp_all
  with assms(1) have "vm_wf k (upd_st ?f vm)" by (intro upd_st_wf) (simp_all add: vm_wf_def)
  moreover have "put_mem addr v tag vm = Some (upd_st ?f vm)"
    using assms by (simp add: put_mem_def vm_wf_def state_wf_def)
  ultimately show ?thesis by blast
qed

lemma safe_put_mem [ub_free]:
  assumes "vm_wf k vm" "addr < length (memory (st vm))" "\<And>vm'. vm_wf k vm' \<Longrightarrow> safe k (f vm')"
  shows "safe k (put_mem addr v tag vm \<bind> f)"
  using put_mem_wf [OF assms(1,2), of v tag] assms(3) by auto

lemma safe_check_mem [ub_free]:
  assumes "vm_wf k vm" "mem_ok (st vm) addr code \<Longrightarrow> safe k (f True vm)"
    "\<And>vm'. vm_wf k vm' \<Longrightarrow> safe k (f False vm')"
  shows "safe k (case check_mem oper addr action code vm of (b, vm') \<Rightarrow> f b vm')"
  using assms by (simp add: check_mem_def wf_intros)

lemma safe_some_bind [ub_free]: "safe k (f x) \<Longrightarrow> safe k (Some x \<bind> f)"
  by simp

lemma safe_case_opt [ub_free]:
  "(r = None \<Longrightarrow> safe k x) \<Longrightarrow> (\<And>v. r = Some v \<Longrightarrow> safe k (f v)) \<Longrightarrow>
     safe k (case r of None \<Rightarrow> x | Some v \<Rightarrow> f v)"
  by (cases r) simp_all

lemma safe_case_prod [ub_free]: "(\<And>a b. p = (a, b) \<Longrightarrow> safe k (f a b)) \<Longrightarrow> safe k (case p of (a, b) \<Rightarrow> f a b)"
  by (cases p) simp

lemma safe_alu2:
  assumes "vm_wf k vm" "operand_fits i"
    "\<not> bad_abc i \<Longrightarrow> f (registers (cur vm) ! ib i) (registers (cur vm) ! ic i) \<noteq> None"
  shows "safe k (alu2 f i cpc vm)"
  unfolding alu2_def using assms good_regs [of i]
  by (intro ub_free) (auto intro!: ub_free wf_intros)

lemma safe_alu1:
  assumes "vm_wf k vm" "operand_fits i"
    "\<not> bad_ab i \<Longrightarrow> f (registers (cur vm) ! ib i) \<noteq> None"
  shows "safe k (alu1 f i cpc vm)"
  unfolding alu1_def using assms good_regs [of i]
  by (intro ub_free) (auto intro!: ub_free wf_intros)

lemma safe_exec_nop: "vm_wf k vm \<Longrightarrow> safe k (exec_nop i cpc vm)"
  unfolding exec_nop_def Let_def
  by (intro ub_free upd_st_wf, assumption)
    (auto simp: vm_wf_def elim!: state_wf_cong [THEN iffD2, rotated -1])

lemma safe_exec_halt: "vm_wf k vm \<Longrightarrow> safe k (exec_halt i cpc vm)"
  unfolding exec_halt_def
  by (intro ub_free upd_st_wf, assumption)
    (auto simp: vm_wf_def elim!: state_wf_cong [THEN iffD2, rotated -1])

lemma safe_exec_load_imm: "vm_wf k vm \<Longrightarrow> safe k (exec_load_imm i cpc vm)"
  unfolding exec_load_imm_def using good_regs(1) [of i] by (intro ub_free; simp)

lemma copy_reg_wf:
  assumes "vm_wf k vm" "idx dst < kRegisters" "idx src < kRegisters"
  shows "\<exists>vm'. copy_reg dst src vm = Some vm' \<and> vm_wf k vm'"
  using assms cur_wf [OF assms(1)] put_reg_wf [OF assms(1,2)]
  by (auto simp: copy_reg_def get_val_def get_tag_def ctx_wf_def)

lemma safe_exec_mov:
  assumes "vm_wf k vm"
  shows "safe k (exec_mov i cpc vm)"
proof (cases "bad_ab i")
  case False
  then have r: "ia i < kRegisters" "idx (i32_of_i64 (op_b i)) < kRegisters"
    by (simp_all add: bad_ab_def reg_ok_b_def)
  from copy_reg_wf [OF assms r] obtain vm' where
    "copy_reg (op_a i) (i32_of_i64 (op_b i)) vm = Some vm'" "vm_wf k vm'" by blast
  with False r(1) show ?thesis by (auto simp: exec_mov_def intro!: ub_free)
qed (use assms in \<open>simp add: exec_mov_def ub_free\<close>)

lemma safe_inc_by:
  "vm_wf k vm \<Longrightarrow> (\<not> bad_a i \<Longrightarrow> add_int (registers (cur vm) ! ia i) d \<noteq> None) \<Longrightarrow> safe k (inc_by d i cpc vm)"
  unfolding inc_by_def using good_regs(1) [of i]
  by (intro ub_free) (auto intro!: ub_free wf_intros)


lemma safe_check_mem_cases [ub_free]:
  assumes "vm_wf k vm" "mem_ok (st vm) addr code \<Longrightarrow> safe k (g vm)"
    "\<And>vm'. vm_wf k vm' \<Longrightarrow> safe k (f vm')"
  shows "safe k (case check_mem oper addr action code vm of (True, vm') \<Rightarrow> g vm' | (False, vm') \<Rightarrow> f vm')"
  using assms by (simp add: check_mem_def wf_intros)

lemma memory_size: "vm_wf k vm \<Longrightarrow> seg_limit (meta_seg (layout (st vm))) = length (memory (st vm))"
  by (simp add: vm_wf_def state_wf_def)

lemma mem_ok_addr:
  "vm_wf k vm \<Longrightarrow> mem_ok (st vm) a False \<Longrightarrow> size_of_i32 a < length (memory (st vm))"
  "vm_wf k vm \<Longrightarrow> operand_fits i \<Longrightarrow> mem_ok (st vm) (i32_of_i64 (op_b i)) False \<Longrightarrow>
     size_of_i64 (op_b i) < length (memory (st vm))"
  using mem_ok_in_memory [of "st vm"] idx_b_fits [of i]
  by (auto simp: idx_def idx_b_def memory_size)

lemma safe_exec_load:
  assumes "vm_wf k vm" "operand_fits i"
  shows "safe k (exec_load i cpc vm)"
  unfolding exec_load_def using assms good_regs(1) [of i]
  by (intro ub_free; simp add: vm_wf_memory mem_ok_addr Let_def; intro ub_free wf_intros; simp)

lemma safe_exec_store:
  assumes "vm_wf k vm" "operand_fits i"
  shows "safe k (exec_store i cpc vm)"
  unfolding exec_store_def Let_def using assms reg_ok_b_idx [of i]
  by (intro ub_free wf_intros; simp add: mem_ok_addr)

lemma safe_exec_divmod:
  assumes "vm_wf k vm" "operand_fits i"
    "\<not> bad_abc i \<Longrightarrow> div_int (registers (cur vm) ! ib i) (registers (cur vm) ! ic i) \<noteq> None \<and>
       mod_int (registers (cur vm) ! ib i) (registers (cur vm) ! ic i) \<noteq> None"
  shows "safe k (exec_divmod i cpc vm)"
proof (cases "bad_abc i")
  case True
  then show ?thesis using assms(1) by (simp add: exec_divmod_def ub_free)
next
  case False
  then obtain d m where "div_int (registers (cur vm) ! ib i) (registers (cur vm) ! ic i) = Some d"
    "mod_int (registers (cur vm) ! ib i) (registers (cur vm) ! ic i) = Some m"
    using assms(3) by auto
  then show ?thesis
    unfolding exec_divmod_def using assms(1,2) good_regs [of i] False
    by (intro ub_free; simp) (intro ub_free conjI impI; simp)
qed

lemma safe_jump_to [ub_free]: "vm_wf k vm \<Longrightarrow> safe k (jump_to i action vm)"
  unfolding jump_to_def by (intro ub_free wf_intros)

lemma safe_jump_if [ub_free]: "vm_wf k vm \<Longrightarrow> safe k (jump_if taken i action vm)"
  unfolding jump_if_def Let_def by (intro ub_free wf_intros)

lemma safe_exec_jumps:
  assumes "vm_wf k vm" "operand_fits i"
  shows "safe k (exec_jump i cpc vm)" "safe k (exec_jump_if_zero i cpc vm)"
    "safe k (exec_jump_if_not_zero i cpc vm)" "safe k (exec_jump_if_negative i cpc vm)"
    "safe k (exec_jump_if_positive i cpc vm)"
  unfolding exec_jump_def exec_jump_if_zero_def exec_jump_if_not_zero_def
    exec_jump_if_negative_def exec_jump_if_positive_def using assms
  by (intro ub_free reg_ok_b_idx; simp)+

text \<open>The comparisons: an acyclic option/result table is what lets the recursion of
  \<open>compare_value\<close> return.\<close>

definition comparable :: "vm \<Rightarrow> bool" where
  "comparable vm \<longleftrightarrow> (\<forall>tag l r. compare_value (compare_fuel (st vm)) (st vm) tag l r \<noteq> None)"

lemma ranked_comparable: "ranked (st vm) rank \<Longrightarrow> comparable vm"
  by (simp add: comparable_def compare_value_fuel_enough)

lemma safe_compare_bind [ub_free]:
  assumes "comparable vm" "\<And>x. safe k (f x)"
  shows "safe k (compare_value (compare_fuel (st vm)) (st vm) tag l r \<bind> f)"
proof -
  obtain x where "compare_value (compare_fuel (st vm)) (st vm) tag l r = Some x"
    using assms(1) unfolding comparable_def by blast
  with assms(2) show ?thesis by simp
qed

lemma safe_exec_compare:
  assumes "vm_wf k vm" "operand_fits i" "comparable vm"
  shows "safe k (exec_compare i cpc vm)"
  unfolding exec_compare_def using assms good_regs [of i] by (intro ub_free; simp)

lemma flags_wf [wf_intros]: "vm_wf k vm \<Longrightarrow> vm_wf k (upd_ctx (\<lambda>c. c\<lparr>flags := fl\<rparr>) vm)"
  by (rule upd_ctx_wf, assumption, rule ctx_wf_same [OF cur_wf], assumption) simp_all

lemma safe_exec_cmp:
  assumes "vm_wf k vm" "operand_fits i" "comparable vm"
  shows "safe k (exec_cmp i cpc vm)"
  unfolding exec_cmp_def using assms good_regs [of i] by (intro ub_free wf_intros; simp)

lemma safe_exec_setf: "vm_wf k vm \<Longrightarrow> safe k (exec_setf i cpc vm)"
  unfolding exec_setf_def Let_def using good_regs(1) [of i] by (intro ub_free wf_intros; simp)

lemma safe_exec_bits:
  assumes "vm_wf k vm" "operand_fits i"
  shows "safe k (exec_tnot i cpc vm)" "safe k (exec_trit_binary i cpc vm)"
    "safe k (exec_bitwise_binary i cpc vm)" "safe k (exec_bitwise_not i cpc vm)"
    "safe k (exec_bitwise_shift i cpc vm)"
  unfolding exec_tnot_def exec_trit_binary_def exec_bitwise_binary_def exec_bitwise_not_def
    exec_bitwise_shift_def using assms
  by (auto intro!: safe_alu1 safe_alu2 simp: Let_def)

text \<open>The arithmetic instruction does not overflow on the current registers.\<close>

definition arith_ok :: "insn \<Rightarrow> vm \<Rightarrow> bool" where
  "arith_ok i vm \<longleftrightarrow>
     (let r = registers (cur vm); x = r ! ib i; y = r ! ic i in
      (opcode i = Op_Inc \<longrightarrow> add_int (r ! ia i) 1 \<noteq> None) \<and>
      (opcode i = Op_Dec \<longrightarrow> add_int (r ! ia i) (- 1) \<noteq> None) \<and>
      (opcode i = Op_Add \<longrightarrow> add_int x y \<noteq> None) \<and> (opcode i = Op_Sub \<longrightarrow> sub_int x y \<noteq> None) \<and>
      (opcode i = Op_Mul \<longrightarrow> mul_int x y \<noteq> None) \<and> (opcode i = Op_Neg \<longrightarrow> neg_int x \<noteq> None) \<and>
      (opcode i = Op_Div \<or> opcode i = Op_Mod \<longrightarrow> div_int x y \<noteq> None \<and> mod_int x y \<noteq> None))"

lemma safe_exec_arith:
  assumes "vm_wf k vm" "operand_fits i" "arith_ok i vm"
  shows "opcode i = Op_Inc \<Longrightarrow> safe k (exec_inc i cpc vm)" "opcode i = Op_Dec \<Longrightarrow> safe k (exec_dec i cpc vm)"
    "opcode i = Op_Add \<Longrightarrow> safe k (exec_add i cpc vm)" "opcode i = Op_Sub \<Longrightarrow> safe k (exec_sub i cpc vm)"
    "opcode i = Op_Mul \<Longrightarrow> safe k (exec_mul i cpc vm)" "opcode i = Op_Neg \<Longrightarrow> safe k (exec_neg i cpc vm)"
    "opcode i = Op_Div \<or> opcode i = Op_Mod \<Longrightarrow> safe k (exec_divmod i cpc vm)"
  using assms by (auto simp: arith_ok_def Let_def exec_inc_def exec_dec_def exec_add_def exec_sub_def
      exec_mul_def exec_neg_def intro!: safe_alu2 safe_alu1 safe_inc_by safe_exec_divmod)

end
