(* ===== verification/T81_Exec_Memory.thy ===== *)
theory T81_Exec_Memory
  imports T81_Exec_Core
begin

text \<open>
  Instruction handlers of \<open>core/vm/vm.cpp\<close>, second part: the stack, stack frames, heap blocks,
  calls and returns, and the block operations on memory.
\<close>

section \<open>Stack\<close>

definition sp_i32 :: "vm \<Rightarrow> i32" where "sp_i32 vm = i32_of_size (sp (cur vm))"

definition exec_push :: handler where
  "exec_push i cpc vm =
     (if bad_a i then fault DecodeFault vm
      else do {
        v \<leftarrow> get_val (ia i) vm;
        t \<leftarrow> get_tag (ia i) vm;
        (r, vm) \<leftarrow> push_stack v t vm;
        (case r of
           None \<Rightarrow> fault StackFault (log_bounds (opcode i) Seg_Stack (sp_i32 vm) ''stack push'' vm)
         | Some addr \<Rightarrow> continue (log_access (opcode i) Seg_Stack addr 1 ''memory store'' vm))
      })"

definition exec_pop :: handler where
  "exec_pop i cpc vm =
     (if bad_a i then fault DecodeFault vm
      else do {
        (r, vm) \<leftarrow> pop_stack vm;
        (case r of
           None \<Rightarrow> fault StackFault (log_bounds (opcode i) Seg_Stack (sp_i32 vm) ''stack pop'' vm)
         | Some (addr, v, t) \<Rightarrow> do {
             vm \<leftarrow> put_reg (ia i) v t vm;
             vm \<leftarrow> update_flags_of (ia i) vm;
             continue (log_access (opcode i) Seg_Stack addr 1 ''memory load'' vm)
           })
      })"

text \<open>\<open>static_cast<std::int64_t>(stack.limit - new_sp) > *state_.policy->max_stack\<close>\<close>

definition over_max_stack :: "state \<Rightarrow> nat \<Rightarrow> bool" where
  "over_max_stack s new_sp =
     (case policy_opt s of
        None \<Rightarrow> False
      | Some p \<Rightarrow> (case max_stack p of
          None \<Rightarrow> False
        | Some m \<Rightarrow> sint (i64_of_size (size_sub (seg_limit (stack_seg (layout s))) new_sp)) > sint m))"

definition exec_stack_alloc :: handler where
  "exec_stack_alloc i cpc vm =
     (let stack = stack_seg (layout (st vm)) in
      if bad_a i then fault DecodeFault vm
      else if sint (op_b i) < 0 then fault DecodeFault vm
      else if \<not> seg_valid stack then fault DecodeFault vm
      else let sz = align_block81 (size_of_i64 (op_b i));
               available = size_sub (sp (cur vm)) (seg_start stack) in
        if sz > available then
          fault StackFault (log_bounds (opcode i) Seg_Stack (sp_i32 vm) ''stack frame allocate'' vm)
        else let new_sp = size_sub (sp (cur vm)) sz in
          if new_sp < seg_start stack then
            fault StackFault (log_bounds (opcode i) Seg_Stack (i32_of_size new_sp) ''stack frame allocate'' vm)
          else if over_max_stack (st vm) new_sp then
            fault StackFault (log_bounds (opcode i) Seg_Stack (i32_of_size new_sp) ''stack frame allocate'' vm)
          else let addr = i64_of_size new_sp;
                   vm = upd_ctx (\<lambda>c. c\<lparr>stack_frames := stack_frames c @ [(addr, i64_of_size sz)],
                          sp := new_sp\<rparr>) vm in do {
            vm \<leftarrow> set_reg (op_a i) addr VT_Int vm;
            continue (log_access (opcode i) Seg_Stack (size_of_i64 addr) sz ''stack frame allocated''
              (update_flags addr vm))
          })"

definition exec_stack_free :: handler where
  "exec_stack_free i cpc vm =
     (let stack = stack_seg (layout (st vm)); frames = stack_frames (cur vm) in
      if bad_a i then fault DecodeFault vm
      else if sint (op_b i) < 0 then fault DecodeFault vm
      else let sz = align_block81 (size_of_i64 (op_b i)) in
        if \<not> seg_valid stack then fault StackFault (log_bounds (opcode i) Seg_Stack 0 ''stack frame free'' vm)
        else if frames = [] then
          fault StackFault (log_bounds (opcode i) Seg_Stack (sp_i32 vm) ''stack frame free'' vm)
        else do {
          ptr \<leftarrow> get_val (ia i) vm;
          let (expected_addr, expected_size) = last frames;
          (if \<not> seg_contains stack (size_of_i64 ptr) then
             fault DecodeFault (log_bounds (opcode i) Seg_Stack (i32_of_i64 ptr) ''stack frame free'' vm)
           else if expected_addr \<noteq> ptr \<or> expected_size \<noteq> i64_of_size sz then
             fault StackFault (log_bounds (opcode i) Seg_Stack (i32_of_i64 ptr) ''stack frame free'' vm)
           else continue (log_access (opcode i) Seg_Stack (size_of_i64 ptr) sz ''stack frame freed''
             (upd_ctx (\<lambda>c. c\<lparr>stack_frames := butlast (stack_frames c), sp := size_of_i64 ptr + sz\<rparr>) vm)))
        })"

section \<open>Heap\<close>

definition exec_heap_alloc :: handler where
  "exec_heap_alloc i cpc vm =
     (let heap = heap_seg (layout (st vm)) in
      if bad_a i then fault DecodeFault vm
      else if \<not> seg_valid heap then fault DecodeFault vm
      else if sint (op_b i) < 0 then fault DecodeFault vm
      else let sz = align_block81 (size_of_i64 (op_b i)) in
        if sz > seg_size heap then
          fault BoundsFault (log_bounds (opcode i) Seg_Heap (i32_of_size (seg_limit heap)) ''heap block allocate'' vm)
        else let addr = heap_ptr (st vm) in
          if addr < seg_start heap \<or> addr + sz > seg_limit heap then
            fault BoundsFault (log_bounds (opcode i) Seg_Heap (i32_of_size addr) ''heap block allocate'' vm)
          else do {
            v \<leftarrow> get_val (ia i) vm;
            (if v \<noteq> 0 then fault DecodeFault vm
             else let vm = upd_st (\<lambda>s. s\<lparr>
                        heap_frames := heap_frames s @ [(i64_of_size addr, i64_of_size sz)],
                        heap_ptr := addr + sz\<rparr>) vm in do {
               vm \<leftarrow> set_reg (op_a i) (i64_of_size addr) VT_Int vm;
               vm \<leftarrow> update_flags_of (ia i) vm;
               continue (log_access (opcode i) Seg_Heap addr sz ''heap block allocated'' vm)
             })
          })"

definition exec_heap_free :: handler where
  "exec_heap_free i cpc vm =
     (let heap = heap_seg (layout (st vm)); frames = heap_frames (st vm) in
      if bad_a i then fault DecodeFault vm
      else if \<not> seg_valid heap then fault BoundsFault (log_bounds (opcode i) Seg_Heap 0 ''heap block free'' vm)
      else if sint (op_b i) < 0 then fault DecodeFault vm
      else if frames = [] then
        fault BoundsFault (log_bounds (opcode i) Seg_Heap (i32_of_size (heap_ptr (st vm))) ''heap block free'' vm)
      else let sz = align_block81 (size_of_i64 (op_b i)) in do {
        ptr \<leftarrow> get_val (ia i) vm;
        let (expected_addr, expected_size) = last frames;
        (if \<not> seg_contains heap (size_of_i64 ptr) then
           fault DecodeFault (log_bounds (opcode i) Seg_Heap (i32_of_i64 ptr) ''heap block free'' vm)
         else if expected_addr \<noteq> ptr \<or> expected_size \<noteq> i64_of_size sz then
           fault DecodeFault (log_bounds (opcode i) Seg_Heap (i32_of_i64 ptr) ''heap block free'' vm)
         else continue (log_access (opcode i) Seg_Heap (size_of_i64 ptr) sz ''heap block freed''
           (upd_st (\<lambda>s. s\<lparr>heap_frames := butlast (heap_frames s), heap_ptr := size_of_i64 ptr\<rparr>) vm)))
      })"

section \<open>Calls\<close>

definition kHardRecursionCeiling :: nat where "kHardRecursionCeiling = 729"

text \<open>The promotion loop of \<open>Call\<close>.  Every successful iteration raises the tier, so that it makes
  at most as many as there are ranks above the current one; the boolean is false after a tier
  fault.\<close>

fun call_tier_loop :: "nat \<Rightarrow> opcode \<Rightarrow> nat \<Rightarrow> vm \<Rightarrow> (bool \<times> vm) option" where
  "call_tier_loop n oper next_depth vm =
     (if next_depth > recursion_limit_for_tier (cur_tier vm) \<and> cur_tier vm \<noteq> Tier5 then
        (case n of
           0 \<Rightarrow> Some (True, vm)
         | Suc m \<Rightarrow> do {
             (ok, vm) \<leftarrow> ensure_min_tier oper (tier_from_rank (int (tier_rank (cur_tier vm)) + 1)) ''call-depth'' vm;
             if ok then call_tier_loop m oper next_depth vm else Some (False, vm)
           })
      else Some (True, vm))"

declare call_tier_loop.simps [simp del]

definition call_depth_reason :: "nat \<Rightarrow> vm \<Rightarrow> string" where
  "call_depth_reason next_depth vm =
     ''TierFault recursion depth exceeded depth='' @ show_nat next_depth @ '' tier='' @
     show_nat (tier_rank (cur_tier vm)) @ '' limit='' @ show_nat (recursion_limit_for_tier (cur_tier vm))"

definition bump_contradictions :: "vm \<Rightarrow> vm" where
  "bump_contradictions = upd_st (\<lambda>s. s\<lparr>contradiction_events := contradiction_events s + 1\<rparr>)"

definition exec_call :: handler where
  "exec_call i cpc vm =
     (if \<not> reg_ok_b (op_b i) then fault DecodeFault vm
      else let next_depth = call_depth (cur vm) + 1 in do {
        (ok, vm) \<leftarrow> call_tier_loop (5 - tier_rank (cur_tier vm)) (opcode i) next_depth vm;
        (if \<not> ok then fault TierFault vm
         else if next_depth > recursion_limit_for_tier (cur_tier vm) then
           fault TierFault (record_tier_fault (opcode i) cpc ''recursion-limit''
             (call_depth_reason next_depth vm) (i64_of_size next_depth) vm)
         else if call_depth (cur vm) \<ge> kHardRecursionCeiling then
           (let vm = bump_contradictions vm; depth = call_depth (cur vm)
            in fault SecurityFault (rec_event (opcode i) (i32_of_i64 (op_b i)) (i64_of_size depth)
              (deny (''recursion ceiling exceeded depth='' @ show_nat depth @ '' limit='' @
                 show_nat kHardRecursionCeiling)) vm))
         else do {
           target \<leftarrow> get_val (ib i) vm;
           (case check_mem (opcode i) (i32_of_i64 target) ''call'' True vm of
              (False, vm) \<Rightarrow> fault DecodeFault vm
            | (True, vm) \<Rightarrow> do {
                (r, vm) \<leftarrow> push_stack (i64_of_size (pc (cur vm))) VT_Int vm;
                (if r = None then
                   fault StackFault (log_bounds (opcode i) Seg_Stack (sp_i32 vm) ''stack call'' vm)
                 else continue (upd_ctx (\<lambda>c. c\<lparr>call_depth := call_depth c + 1,
                   pc := size_of_i64 target\<rparr>) vm))
              })
         })
      })"

definition exec_ret :: handler where
  "exec_ret i cpc vm = do {
     (r, vm) \<leftarrow> pop_stack vm;
     (case r of
        None \<Rightarrow> fault StackFault (log_bounds (opcode i) Seg_Stack (sp_i32 vm) ''stack return'' vm)
      | Some (_, addr, tag) \<Rightarrow>
          if tag \<noteq> VT_Int then fault TypeFault vm
          else (case check_mem (opcode i) (i32_of_i64 addr) ''return'' True vm of
              (False, vm) \<Rightarrow> fault DecodeFault vm
            | (True, vm) \<Rightarrow>
                let vm = (if call_depth (cur vm) > 0
                          then upd_ctx (\<lambda>c. c\<lparr>call_depth := call_depth c - 1\<rparr>) vm
                          else rec_event (opcode i) (op_a i) addr
                            (allow ''contradiction detected return-without-call'') (bump_contradictions vm))
                in continue (set_pc (size_of_i64 addr) vm)))
   }"

section \<open>Blocks of memory\<close>

text \<open>The loop of \<open>MemZero\<close>, with \<open>n\<close> cells to go from \<open>addr\<close>; the boolean is false after a fault.
  Addresses are computed modulo 2^64 and checked modulo 2^32.\<close>

fun zero_range :: "nat \<Rightarrow> nat \<Rightarrow> vm \<Rightarrow> (bool \<times> vm) option" where
  "zero_range 0 addr vm = Some (True, vm)"
| "zero_range (Suc n) addr vm =
     (if \<not> mem_ok (st vm) (i32_of_size addr) False then Some (False, vm)
      else do { vm \<leftarrow> put_mem addr 0 VT_Int vm; zero_range n ((addr + 1) mod 2 ^ 64) vm })"

definition exec_mem_zero :: handler where
  "exec_mem_zero i cpc vm =
     (if bad_ab i then fault DecodeFault vm
      else do {
        a \<leftarrow> get_val (ia i) vm;
        b \<leftarrow> get_val (ib i) vm;
        let addr = size_of_i64 a;
        let sz = size_of_i64 b;
        (ok, vm) \<leftarrow> zero_range sz addr vm;
        if ok then continue (log_access (opcode i) (segment_for_address (st vm) addr) addr sz ''MemZero'' vm)
        else fault BoundsFault vm
      })"

text \<open>\<open>Copy\<close> checks both ranges before it moves a word, and then copies upwards.\<close>

fun copy_check :: "state \<Rightarrow> nat \<Rightarrow> nat \<Rightarrow> nat \<Rightarrow> bool" where
  "copy_check s 0 src dst \<longleftrightarrow> True"
| "copy_check s (Suc n) src dst \<longleftrightarrow>
     mem_ok s (i32_of_size src) False \<and> mem_ok s (i32_of_size dst) False \<and>
     copy_check s n ((src + 1) mod 2 ^ 64) ((dst + 1) mod 2 ^ 64)"

fun copy_range :: "nat \<Rightarrow> nat \<Rightarrow> nat \<Rightarrow> vm \<Rightarrow> vm option" where
  "copy_range 0 src dst vm = Some vm"
| "copy_range (Suc n) src dst vm = do {
     v \<leftarrow> arr_get (memory (st vm)) src;
     t \<leftarrow> arr_get (memory_tags (st vm)) src;
     vm \<leftarrow> put_mem dst v t vm;
     copy_range n ((src + 1) mod 2 ^ 64) ((dst + 1) mod 2 ^ 64) vm
   }"

definition exec_copy :: handler where
  "exec_copy i cpc vm =
     (if bad_abc i then fault DecodeFault vm
      else do {
        a \<leftarrow> get_val (ia i) vm;
        b \<leftarrow> get_val (ib i) vm;
        c \<leftarrow> get_val (ic i) vm;
        let dst = size_of_i64 a;
        let src = size_of_i64 b;
        let sz = size_of_i64 c;
        (if \<not> copy_check (st vm) sz src dst then fault BoundsFault vm
         else do {
           vm \<leftarrow> copy_range sz src dst vm;
           continue (log_access (opcode i) (segment_for_address (st vm) dst) dst sz ''Copy'' vm)
         })
      })"

section \<open>Safety\<close>

lemma push_stack_total:
  assumes "vm_wf k vm"
  shows "\<exists>r vm'. push_stack v t vm = Some (r, vm') \<and> vm_wf k vm'"
proof -
  have c: "ctx_wf (st vm) (cur vm)" by (rule cur_wf [OF assms])
  then have ok: "stack_ok (st vm) (cur vm)" by (simp add: ctx_wf_def)
  obtain r s' ctx' where p: "push_stack_word (st vm) (cur vm) v t = Some (r, s', ctx')"
    using push_stack_word_defined [OF ok, of v t] by (cases "push_stack_word (st vm) (cur vm) v t") auto
  have "vm_wf k (upd_ctx (\<lambda>_. ctx') (vm\<lparr>st := s'\<rparr>))"
  proof (cases r)
    case None
    with p have "s' = st vm" "ctx' = cur vm" by (auto dest: push_stack_word_None)
    with assms c show ?thesis by (auto intro: upd_ctx_wf)
  next
    case (Some a)
    note P = push_stack_word_Some [OF p [unfolded Some]]
    have s: "state_wf s' = state_wf (st vm)" by (rule state_wf_cong) (simp_all add: P(4))
    then have w: "vm_wf k (vm\<lparr>st := s'\<rparr>)" using assms P(4) by (simp add: vm_wf_def)
    have "stack_ok s' ctx'" by (rule push_stack_ok [OF ok p [unfolded Some]])
    then have "ctx_wf s' ctx'" using c P(4,5) by (simp add: ctx_wf_def)
    with upd_ctx_wf [OF w, of "\<lambda>_. ctx'"] show ?thesis by simp
  qed
  with p show ?thesis by (auto simp: push_stack_def)
qed

lemma pop_stack_total:
  assumes "vm_wf k vm"
  shows "\<exists>r vm'. pop_stack vm = Some (r, vm') \<and> vm_wf k vm'"
proof -
  have c: "ctx_wf (st vm) (cur vm)" by (rule cur_wf [OF assms])
  then have ok: "stack_ok (st vm) (cur vm)" by (simp add: ctx_wf_def)
  obtain r ctx' where p: "pop_stack_word (st vm) (cur vm) = Some (r, ctx')"
    using pop_stack_word_defined [OF ok] by (cases "pop_stack_word (st vm) (cur vm)") auto
  have "ctx_wf (st vm) ctx'"
  proof (cases r)
    case None
    with p c show ?thesis by (auto simp: pop_stack_word_def Let_def split: if_splits bind_splits)
  next
    case (Some x)
    then obtain a v t where x: "r = Some (a, v, t)" by (cases x) auto
    have "stack_ok (st vm) ctx'" by (rule pop_stack_ok [OF ok p [unfolded x]])
    then show ?thesis using c pop_stack_word_Some(5) [OF p [unfolded x]] by (simp add: ctx_wf_def)
  qed
  with assms have "vm_wf k (upd_ctx (\<lambda>_. ctx') vm)" by (auto intro: upd_ctx_wf)
  with p show ?thesis by (auto simp: pop_stack_def)
qed

lemma safe_push_stack [ub_free]:
  assumes "vm_wf k vm" "\<And>r vm'. vm_wf k vm' \<Longrightarrow> safe k (f (r, vm'))"
  shows "safe k (push_stack v t vm \<bind> f)"
  using push_stack_total [OF assms(1), of v t] assms(2) by auto

lemma safe_pop_stack [ub_free]:
  assumes "vm_wf k vm" "\<And>r vm'. vm_wf k vm' \<Longrightarrow> safe k (f (r, vm'))"
  shows "safe k (pop_stack vm \<bind> f)"
  using pop_stack_total [OF assms(1)] assms(2) by auto

lemma safe_exec_push: "vm_wf k vm \<Longrightarrow> safe k (exec_push i cpc vm)"
  unfolding exec_push_def using good_regs(1) [of i] by (intro ub_free wf_intros; simp)

lemma safe_exec_pop: "vm_wf k vm \<Longrightarrow> safe k (exec_pop i cpc vm)"
  unfolding exec_pop_def using good_regs(1) [of i] by (intro ub_free wf_intros; simp)

lemma unat_i64_of_size [simp]: "n < 2 ^ 64 \<Longrightarrow> unat (i64_of_size n) = n"
  by (simp add: i64_of_size_def unat_of_nat)

lemma size_of_i64_of_size [simp]: "n < 2 ^ 64 \<Longrightarrow> size_of_i64 (i64_of_size n) = n"
  by (simp add: size_of_i64_def)

lemma tiles_snoc [simp]:
  "tiles a (blocks @ [(x, n)]) b \<longleftrightarrow> tiles a blocks (unat x) \<and> b = unat x + unat n"
  by (induction blocks arbitrary: a) auto

lemma tiles_le: "tiles a blocks b \<Longrightarrow> a \<le> b"
  by (induction blocks arbitrary: a) (auto, force)

lemma small_layout:
  assumes "vm_wf k vm"
  shows "seg_limit (stack_seg (layout (st vm))) < 2 ^ 31" "seg_limit (heap_seg (layout (st vm))) < 2 ^ 31"
  using assms by (auto simp: vm_wf_def state_wf_def layout_ok_def)

lemma stack_ptr_range:
  assumes "vm_wf k vm"
  shows "seg_start (stack_seg (layout (st vm))) \<le> sp (cur vm)" "sp (cur vm) \<le> seg_limit (stack_seg (layout (st vm)))"
  using cur_wf [OF assms] by (simp_all add: ctx_wf_def stack_ok_def)

lemma stack_frames_wf:
  assumes "vm_wf k vm" "seg_start (stack_seg (layout (st vm))) \<le> a" "a \<le> seg_limit (stack_seg (layout (st vm)))"
    "\<forall>(x, n) \<in> set frames. (x, n) \<in> set (stack_frames (cur vm)) \<or>
       seg_start (stack_seg (layout (st vm))) \<le> unat x \<and>
       unat x + unat n \<le> seg_limit (stack_seg (layout (st vm)))"
  shows "vm_wf k (upd_ctx (\<lambda>c. c\<lparr>stack_frames := frames, sp := a\<rparr>) vm)"
  using assms(1)
proof (rule upd_ctx_wf)
  show "ctx_wf (st vm) ((cur vm)\<lparr>stack_frames := frames, sp := a\<rparr>)"
    using cur_wf [OF assms(1)] assms(2-4) by (auto simp: ctx_wf_def stack_ok_def)
qed

lemma upd_ctx_cong: "f (cur vm) = g (cur vm) \<Longrightarrow> upd_ctx f vm = upd_ctx g vm"
  by (simp add: upd_ctx_def)

lemma alloc_frame_wf:
  assumes "vm_wf k vm" "sz \<le> sp (cur vm) - seg_start (stack_seg (layout (st vm)))"
  shows "vm_wf k (upd_ctx (\<lambda>c. c\<lparr>stack_frames := stack_frames c @ [(i64_of_size (sp (cur vm) - sz), i64_of_size sz)],
     sp := sp (cur vm) - sz\<rparr>) vm)" (is "vm_wf k ?vm")
proof -
  note r = stack_ptr_range [OF assms(1)]
  have small: "sp (cur vm) < 2 ^ 31" using r(2) small_layout(1) [OF assms(1)] by simp
  have "vm_wf k (upd_ctx (\<lambda>c. c\<lparr>stack_frames := stack_frames (cur vm) @
     [(i64_of_size (sp (cur vm) - sz), i64_of_size sz)], sp := sp (cur vm) - sz\<rparr>) vm)"
    by (rule stack_frames_wf [OF assms(1)]) (use assms(2) r small in auto)
  then show ?thesis by (rule iffD1 [OF arg_cong [where f = "vm_wf k"], rotated]) (rule upd_ctx_cong, simp)
qed

lemma free_frame_wf:
  assumes "vm_wf k vm" "stack_frames (cur vm) \<noteq> []" "last (stack_frames (cur vm)) = (ptr, n)"
  shows "vm_wf k (upd_ctx (\<lambda>c. c\<lparr>stack_frames := butlast (stack_frames c), sp := unat ptr + unat n\<rparr>) vm)"
    (is "vm_wf k ?vm")
proof -
  have "(ptr, n) \<in> set (stack_frames (cur vm))" using assms(2,3) last_in_set by metis
  then have r: "seg_start (stack_seg (layout (st vm))) \<le> unat ptr"
    "unat ptr + unat n \<le> seg_limit (stack_seg (layout (st vm)))"
    using cur_wf [OF assms(1)] by (auto simp: ctx_wf_def)
  have "vm_wf k (upd_ctx (\<lambda>c. c\<lparr>stack_frames := butlast (stack_frames (cur vm)), sp := unat ptr + unat n\<rparr>) vm)"
    by (rule stack_frames_wf [OF assms(1)]) (use r in \<open>auto dest: in_set_butlastD\<close>)
  then show ?thesis by (rule iffD1 [OF arg_cong [where f = "vm_wf k"], rotated]) (rule upd_ctx_cong, simp)
qed

lemma safe_exec_stack_alloc: 
  assumes "vm_wf k vm"
  shows "safe k (exec_stack_alloc i cpc vm)"
  unfolding exec_stack_alloc_def Let_def
  using assms good_regs(1) [of i] stack_ptr_range [OF assms]
    alloc_frame_wf [OF assms, of "align_block81 (size_of_i64 (op_b i))"]
  by (intro ub_free wf_intros; simp)

lemma nonneg_i64:
  assumes "0 \<le> sint (w :: i64)"
  shows "unat w = nat (sint w)" "unat w < 2 ^ 63"
proof -
  have "uint w = sint w"
    using assms sint_i64_range(2) [of w] by (simp add: uint_sint take_bit_int_eq_self)
  then show "unat w = nat (sint w)" by (simp only: unat_eq_nat_uint)
  with sint_i64_range(2) [of w] assms show "unat w < 2 ^ 63" by simp
qed

lemma safe_exec_stack_free:
  assumes "vm_wf k vm"
  shows "safe k (exec_stack_free i cpc vm)"
proof -
  have "vm_wf k (upd_ctx (\<lambda>c. c\<lparr>stack_frames := butlast (stack_frames c), sp := size_of_i64 ptr +
      align_block81 (size_of_i64 (op_b i))\<rparr>) vm)"
    if "stack_frames (cur vm) \<noteq> []"
      "last (stack_frames (cur vm)) = (ptr, i64_of_size (align_block81 (size_of_i64 (op_b i))))"
      "\<not> sint (op_b i) < 0" for ptr
  proof -
    have "align_block81 (size_of_i64 (op_b i)) < 2 ^ 64"
      using align_block81_less [of "size_of_i64 (op_b i)"] nonneg_i64(2) [of "op_b i"] that(3)
      by (simp add: size_of_i64_def)
    with free_frame_wf [OF assms that(1,2)] show ?thesis by (simp add: size_of_i64_def)
  qed
  then show ?thesis
    unfolding exec_stack_free_def Let_def using assms good_regs(1) [of i]
    by (intro ub_free wf_intros; simp)
qed

lemma heap_wf:
  assumes "vm_wf k vm" "tiles (seg_start (heap_seg (layout (st vm)))) blocks p"
    "p \<le> seg_limit (heap_seg (layout (st vm)))"
  shows "vm_wf k (upd_st (\<lambda>s. s\<lparr>heap_frames := blocks, heap_ptr := p\<rparr>) vm)"
proof (rule upd_st_wf [OF assms(1)])
  let ?s = "(st vm)\<lparr>heap_frames := blocks, heap_ptr := p\<rparr>"
  have "ctx_wf ?s c = ctx_wf (st vm) c" for c by (rule ctx_wf_cong) simp_all
  then show "state_wf ?s" using vm_wf_state [OF assms(1)] assms(2,3) by (simp add: state_wf_def)
qed simp_all

lemma heap_tiles:
  assumes "vm_wf k vm"
  shows "tiles (seg_start (heap_seg (layout (st vm)))) (heap_frames (st vm)) (heap_ptr (st vm))"
    "heap_ptr (st vm) \<le> seg_limit (heap_seg (layout (st vm)))"
  using vm_wf_state [OF assms] by (simp_all add: state_wf_def)

lemma upd_st_cong: "f (st vm) = g (st vm) \<Longrightarrow> upd_st f vm = upd_st g vm"
  by (simp add: upd_st_def)

lemma alloc_block_wf:
  assumes "vm_wf k vm" "heap_ptr (st vm) + sz \<le> seg_limit (heap_seg (layout (st vm)))"
  shows "vm_wf k (upd_st (\<lambda>s. s\<lparr>heap_frames := heap_frames s @ [(i64_of_size (heap_ptr (st vm)), i64_of_size sz)],
     heap_ptr := heap_ptr (st vm) + sz\<rparr>) vm)" (is "vm_wf k ?vm")
proof -
  have small: "heap_ptr (st vm) < 2 ^ 64" "sz < 2 ^ 64"
    using assms(2) small_layout(2) [OF assms(1)] by simp_all
  have "vm_wf k (upd_st (\<lambda>s. s\<lparr>heap_frames := heap_frames (st vm) @
      [(i64_of_size (heap_ptr (st vm)), i64_of_size sz)], heap_ptr := heap_ptr (st vm) + sz\<rparr>) vm)"
    using small assms(2) heap_tiles(1) [OF assms(1)] by (intro heap_wf [OF assms(1)]) simp_all
  then show ?thesis by (rule iffD1 [OF arg_cong [where f = "vm_wf k"], rotated]) (rule upd_st_cong, simp)
qed

lemma free_block_wf:
  assumes "vm_wf k vm" "heap_frames (st vm) \<noteq> []" "last (heap_frames (st vm)) = (ptr, n)"
  shows "vm_wf k (upd_st (\<lambda>s. s\<lparr>heap_frames := butlast (heap_frames s), heap_ptr := unat ptr\<rparr>) vm)"
    (is "vm_wf k ?vm")
proof -
  have "heap_frames (st vm) = butlast (heap_frames (st vm)) @ [(ptr, n)]"
    using assms(2,3) append_butlast_last_id by metis
  with heap_tiles(1) [OF assms(1)] have
    t: "tiles (seg_start (heap_seg (layout (st vm)))) (butlast (heap_frames (st vm))) (unat ptr)"
    "heap_ptr (st vm) = unat ptr + unat n" by (metis tiles_snoc)+
  have "vm_wf k (upd_st (\<lambda>s. s\<lparr>heap_frames := butlast (heap_frames (st vm)), heap_ptr := unat ptr\<rparr>) vm)"
    using t heap_tiles(2) [OF assms(1)] by (intro heap_wf [OF assms(1)]) simp_all
  then show ?thesis by (rule iffD1 [OF arg_cong [where f = "vm_wf k"], rotated]) (rule upd_st_cong, simp)
qed

lemma safe_exec_heap_alloc:
  assumes "vm_wf k vm"
  shows "safe k (exec_heap_alloc i cpc vm)"
  unfolding exec_heap_alloc_def Let_def
  using assms good_regs(1) [of i] alloc_block_wf [OF assms, of "align_block81 (size_of_i64 (op_b i))"]
  by (intro ub_free wf_intros; simp)

lemma safe_exec_heap_free:
  assumes "vm_wf k vm"
  shows "safe k (exec_heap_free i cpc vm)"
proof -
  have "vm_wf k (upd_st (\<lambda>s. s\<lparr>heap_frames := butlast (heap_frames s), heap_ptr := size_of_i64 ptr\<rparr>) vm)"
    if "heap_frames (st vm) \<noteq> []" "last (heap_frames (st vm)) = (ptr, n)" for ptr n
    using free_block_wf [OF assms that] by (simp add: size_of_i64_def)
  then show ?thesis
    unfolding exec_heap_free_def Let_def using assms good_regs(1) [of i]
    by (intro ub_free wf_intros; simp)
qed

text \<open>The promotion loops.\<close>

lemma cur_rec_event [simp]: "cur (rec_event oper tag v r vm) = cur vm"
  using log_ext_fields(4,5) [OF log_ext_record_axion_event]
  by (simp add: rec_event_def upd_st_def cur_def)

lemma tier_status_wf:
  "vm_wf k vm \<Longrightarrow> vm_wf k (upd_ctx (\<lambda>c. c\<lparr>tier_status := status\<rparr>) vm)"
  by (rule upd_ctx_wf, assumption, rule ctx_wf_same [OF cur_wf], assumption) simp_all

lemma promote_once_total:
  assumes "vm_wf k vm"
  shows "\<exists>b vm'. promote_once oper required cause vm = Some (b, vm') \<and> vm_wf k vm' \<and>
    (b \<longrightarrow> tier_rank (cur_tier vm') = Suc (tier_rank (cur_tier vm)))"
proof -
  from assms have "engine_ok (axion_engine vm)" by (simp add: vm_wf_def)
  then obtain r e where p: "try_promote evaluate (tier_status (cur vm)) (axion_engine vm) = Some (r, e)"
    and e: "engine_ok e" using vm_engine.try_promote_total by blast
  have w1: "vm_wf k (vm\<lparr>axion_engine := e\<rparr>)" by (rule wf_engine [OF assms e])
  show ?thesis
  proof (cases r)
    case (Inl x)
    with p w1 show ?thesis by (intro exI [of _ False]) (simp add: promote_once_def Let_def wf_rec_event)
  next
    case (Inr status)
    have rank: "tier_rank (tier_current status) = Suc (tier_rank (cur_tier vm))"
      using try_promote_rank p Inr unfolding cur_tier_def by metis
    from p Inr show ?thesis
      by (intro exI [of _ True], simp add: promote_once_def Let_def wf_rec_event tier_status_wf w1)
        (simp add: cur_tier_def cur_upd_ctx [OF w1] rank [unfolded cur_tier_def])
  qed
qed

lemma ensure_min_tier_loop_total:
  "vm_wf k vm \<Longrightarrow> \<exists>b vm'. ensure_min_tier_loop n oper required cause vm = Some (b, vm') \<and> vm_wf k vm' \<and>
     (b \<longrightarrow> tier_rank (cur_tier vm') = tier_rank (cur_tier vm) + n)"
proof (induction n arbitrary: vm)
  case (Suc n)
  obtain b vm1 where p: "promote_once oper required cause vm = Some (b, vm1)" "vm_wf k vm1"
    "b \<longrightarrow> tier_rank (cur_tier vm1) = Suc (tier_rank (cur_tier vm))"
    using promote_once_total [OF Suc.prems] by blast
  with Suc.IH [OF p(2)] show ?case by (cases b) auto
qed auto

lemma ensure_min_tier_total:
  assumes "vm_wf k vm"
  shows "\<exists>b vm'. ensure_min_tier oper required cause vm = Some (b, vm') \<and> vm_wf k vm' \<and>
     (b \<longrightarrow> tier_rank (cur_tier vm') = max (tier_rank (cur_tier vm)) (tier_rank required))"
  using ensure_min_tier_loop_total [OF assms, of "tier_rank required - tier_rank (cur_tier vm)" oper required cause]
  by (fastforce simp: ensure_min_tier_def)

lemma call_tier_loop_total:
  "vm_wf k vm \<Longrightarrow> 5 - tier_rank (cur_tier vm) \<le> n \<Longrightarrow>
     \<exists>b vm'. call_tier_loop n oper d vm = Some (b, vm') \<and> vm_wf k vm' \<and>
       (b \<longrightarrow> d \<le> recursion_limit_for_tier (cur_tier vm') \<or> cur_tier vm' = Tier5)"
proof (induction n arbitrary: vm)
  case 0
  then have "cur_tier vm = Tier5" by (cases "cur_tier vm") (simp_all add: tier_rank_def)
  with 0 show ?case by (auto simp: call_tier_loop.simps)
next
  case (Suc n)
  show ?case
  proof (cases "d > recursion_limit_for_tier (cur_tier vm) \<and> cur_tier vm \<noteq> Tier5")
    case False
    then have "call_tier_loop (Suc n) oper d vm = Some (True, vm)"
      by (rule trans [OF call_tier_loop.simps if_not_P])
    moreover have "d \<le> recursion_limit_for_tier (cur_tier vm) \<or> cur_tier vm = Tier5"
      using False by (simp add: not_less)
    ultimately show ?thesis using Suc.prems(1) by blast
  next
    case True
    let ?req = "tier_from_rank (int (tier_rank (cur_tier vm)) + 1)"
    obtain b vm1 where e: "ensure_min_tier oper ?req ''call-depth'' vm = Some (b, vm1)" "vm_wf k vm1"
      "b \<longrightarrow> tier_rank (cur_tier vm1) = max (tier_rank (cur_tier vm)) (tier_rank ?req)"
      using ensure_min_tier_total [OF Suc.prems(1)] by blast
    have "tier_rank ?req = Suc (tier_rank (cur_tier vm))"
      using True by (cases "cur_tier vm") (simp_all add: tier_rank_def tier_from_rank_def)
    with e Suc.prems(2) have "b \<longrightarrow> 5 - tier_rank (cur_tier vm1) \<le> n" by auto
    have step: "call_tier_loop (Suc n) oper d vm =
        (if b then call_tier_loop n oper d vm1 else Some (False, vm1))"
      using e(1) by (intro trans [OF call_tier_loop.simps trans [OF if_P [OF True]]]) simp
    show ?thesis
    proof (cases b)
      case True
      with step Suc.IH [OF e(2)] \<open>b \<longrightarrow> 5 - tier_rank (cur_tier vm1) \<le> n\<close> show ?thesis by simp
    next
      case False
      with step e(2) show ?thesis by auto
    qed
  qed
qed

lemma safe_call_tier_loop [ub_free]:
  assumes "vm_wf k vm" "\<And>b vm'. vm_wf k vm' \<Longrightarrow>
      (b \<Longrightarrow> d \<le> recursion_limit_for_tier (cur_tier vm') \<or> cur_tier vm' = Tier5) \<Longrightarrow> safe k (f (b, vm'))"
  shows "safe k (call_tier_loop (5 - tier_rank (cur_tier vm)) oper d vm \<bind> f)"
  using call_tier_loop_total [OF assms(1) order.refl, of oper d] assms(2) by auto

lemma wf_record_tier_fault [wf_intros]: "vm_wf k vm \<Longrightarrow> vm_wf k (record_tier_fault oper cpc code detail v vm)"
  by (simp add: record_tier_fault_def wf_rec_event Let_def)

lemma wf_bump_contradictions [wf_intros]: "vm_wf k vm \<Longrightarrow> vm_wf k (bump_contradictions vm)"
  unfolding bump_contradictions_def
proof (rule upd_st_wf)
  assume "vm_wf k vm"
  then have "state_wf (st vm)" by (simp add: vm_wf_def)
  then show "state_wf ((st vm)\<lparr>contradiction_events := contradiction_events (st vm) + 1\<rparr>)"
    by (rule iffD1 [OF state_wf_cong, rotated -1]) simp_all
qed simp_all

lemma wf_call_depth [wf_intros]:
  "vm_wf k vm \<Longrightarrow> vm_wf k (upd_ctx (\<lambda>c. c\<lparr>call_depth := f c, pc := n\<rparr>) vm)"
  "vm_wf k vm \<Longrightarrow> vm_wf k (upd_ctx (\<lambda>c. c\<lparr>call_depth := f c\<rparr>) vm)"
  by (rule upd_ctx_wf, assumption, rule ctx_wf_same [OF cur_wf], assumption; simp)+

lemma safe_exec_call: "vm_wf k vm \<Longrightarrow> operand_fits i \<Longrightarrow> safe k (exec_call i cpc vm)"
  unfolding exec_call_def Let_def using reg_ok_b_idx [of i]
  by (intro ub_free wf_intros; simp)

lemma safe_exec_ret: "vm_wf k vm \<Longrightarrow> safe k (exec_ret i cpc vm)"
  unfolding exec_ret_def Let_def
  by (intro ub_free wf_intros; simp) (auto intro!: ub_free wf_intros)

lemma size_of_i32_of_size:
  assumes "0 \<le> sint (i32_of_size n)" "n < 2 ^ 32"
  shows "size_of_i32 (i32_of_size n) = n"
proof -
  have "uint (i32_of_size n) = sint (i32_of_size n)"
    using assms(1) sint_i32_range(2) [of "i32_of_size n"] by (simp add: uint_sint take_bit_int_eq_self)
  then have "size_of_i32 (i32_of_size n) = unat (i32_of_size n)"
    using size_of_i32_nonneg [OF assms(1)] by (simp add: unat_eq_nat_uint)
  also have "\<dots> = n" using assms(2) by (simp add: i32_of_size_def unat_of_nat)
  finally show ?thesis .
qed

lemma mem_ok_of_size:
  assumes "mem_ok s (i32_of_size n) False" "n < 2 ^ 32"
  shows "n < length (memory s)"
proof -
  have "0 \<le> sint (i32_of_size n)" using assms(1) by (simp add: mem_ok_def split: if_splits)
  with mem_ok_in_memory [OF assms(1)] size_of_i32_of_size assms(2) show ?thesis by simp
qed

lemma memory_small: "vm_wf k vm \<Longrightarrow> length (memory (st vm)) < 2 ^ 31"
  by (drule vm_wf_state) (simp add: state_wf_def)

lemma zero_range_total:
  "vm_wf k vm \<Longrightarrow> addr < 2 ^ 32 \<Longrightarrow> \<exists>b vm'. zero_range n addr vm = Some (b, vm') \<and> vm_wf k vm'"
proof (induction n arbitrary: addr vm)
  case (Suc n)
  show ?case
  proof (cases "mem_ok (st vm) (i32_of_size addr) False")
    case True
    then have addr: "addr < length (memory (st vm))" using Suc.prems(2) by (rule mem_ok_of_size)
    from put_mem_wf [OF Suc.prems(1) this] obtain vm1
      where p: "put_mem addr 0 VT_Int vm = Some vm1" "vm_wf k vm1" by blast
    have "(addr + 1) mod 2 ^ 64 < 2 ^ 32" using addr memory_small [OF Suc.prems(1)] by simp
    from Suc.IH [OF p(2) this] p True show ?thesis by simp
  next
    case False
    with Suc.prems(1) show ?thesis by auto
  qed
qed auto

lemma copy_range_total:
  "vm_wf k vm \<Longrightarrow> src < 2 ^ 32 \<Longrightarrow> dst < 2 ^ 32 \<Longrightarrow> layout s = layout (st vm) \<Longrightarrow>
     length (memory s) = length (memory (st vm)) \<Longrightarrow> copy_check s n src dst \<Longrightarrow>
     \<exists>vm'. copy_range n src dst vm = Some vm' \<and> vm_wf k vm'"
proof (induction n arbitrary: src dst vm)
  case (Suc n)
  from Suc.prems have src: "src < length (memory (st vm))" and dst: "dst < length (memory (st vm))"
    and rest: "copy_check s n ((src + 1) mod 2 ^ 64) ((dst + 1) mod 2 ^ 64)"
    using mem_ok_of_size [of s] by auto
  note get = vm_wf_memory [OF Suc.prems(1) src]
  from put_mem_wf [OF Suc.prems(1) dst] obtain vm1 where
    p: "put_mem dst (memory (st vm) ! src) (memory_tags (st vm) ! src) vm = Some vm1" "vm_wf k vm1" by blast
  then have "layout (st vm1) = layout (st vm)" "length (memory (st vm1)) = length (memory (st vm))"
    by (auto simp: put_mem_def upd_st_def arr_set_eq_Some split: bind_splits)
  moreover have "(src + 1) mod 2 ^ 64 < 2 ^ 32" "(dst + 1) mod 2 ^ 64 < 2 ^ 32"
    using src dst memory_small [OF Suc.prems(1)] by simp_all
  ultimately show ?case using Suc.IH [OF p(2) _ _ _ _ rest] Suc.prems(4,5) get p(1) by simp
qed auto

text \<open>The address operands of the block operations fit in 32 bits, so that the check on their
  truncation is a check on them.\<close>
definition block_operands_fit :: "insn \<Rightarrow> vm \<Rightarrow> bool" where
  "block_operands_fit i vm \<longleftrightarrow>
     (let r = registers (cur vm) in
      (opcode i = Op_MemZero \<longrightarrow> unat (r ! ia i) < 2 ^ 32) \<and>
      (opcode i = Op_Copy \<longrightarrow> unat (r ! ia i) < 2 ^ 32 \<and> unat (r ! ib i) < 2 ^ 32))"

lemma safe_exec_mem_zero:
  assumes "vm_wf k vm" "operand_fits i" "unat (registers (cur vm) ! ia i) < 2 ^ 32"
  shows "safe k (exec_mem_zero i cpc vm)"
proof (cases "bad_ab i")
  case True
  with assms(1) show ?thesis by (simp add: exec_mem_zero_def ub_free)
next
  case False
  obtain b vm' where "zero_range (size_of_i64 (registers (cur vm) ! ib i))
      (size_of_i64 (registers (cur vm) ! ia i)) vm = Some (b, vm')" "vm_wf k vm'"
    using zero_range_total [OF assms(1,3)] unfolding size_of_i64_def by blast
  then show ?thesis
    unfolding exec_mem_zero_def Let_def using False assms good_regs [of i]
    by (intro ub_free; simp) (cases b; simp add: safe_continue safe_fault wf_intros)
qed

lemma safe_exec_copy:
  assumes "vm_wf k vm" "operand_fits i" "unat (registers (cur vm) ! ia i) < 2 ^ 32"
    "unat (registers (cur vm) ! ib i) < 2 ^ 32"
  shows "safe k (exec_copy i cpc vm)"
proof -
  have "copy_check (st vm) n (unat (registers (cur vm) ! ib i)) (unat (registers (cur vm) ! ia i)) \<Longrightarrow>
      \<exists>vm'. copy_range n (unat (registers (cur vm) ! ib i)) (unat (registers (cur vm) ! ia i)) vm = Some vm' \<and> vm_wf k vm'"
    for n using copy_range_total [OF assms(1,4,3) refl refl] by blast
  then show ?thesis
    unfolding exec_copy_def Let_def size_of_i64_def using assms(1,2) good_regs [of i]
    by (intro ub_free; simp) (fastforce intro!: safe_continue wf_intros)
qed

end
