(* ===== verification/T81_Distributed.thy ===== *)
theory T81_Distributed
  imports T81_State "HOL-Library.Product_Lexorder" "HOL-Library.List_Lexorder" "HOL-Library.Char_ord"
    "HOL-Library.Multiset"
begin

text \<open>
  The distributed node of the machine: \<open>src/experimental/distributed/distributed.cpp\<close>.  A node has a logical
  clock, an outbox of broadcast messages and an inbox; merging takes the newest message of the
  inbox.  The order in which messages arrived does not matter.
\<close>

section \<open>The logical clock\<close>

definition is_coherent :: "u64 \<Rightarrow> u64 \<Rightarrow> bool" where
  "is_coherent a b = (if b \<le> a then a - b \<le> 1 else b - a \<le> 1)"

definition update_tick :: "node_state \<Rightarrow> node_state" where
  "update_tick n = n\<lparr>global_tick := global_tick n + 1\<rparr>"

definition sync_tick :: "u64 \<Rightarrow> node_state \<Rightarrow> node_state" where
  "sync_tick remote_tick n =
     (if remote_tick > global_tick n then n\<lparr>global_tick := remote_tick\<rparr> else n)"

section \<open>Messages\<close>

definition gossip :: "i64 \<Rightarrow> i32 \<Rightarrow> u64 \<Rightarrow> string \<Rightarrow> node_state \<Rightarrow> node_state" where
  "gossip v tag tick sender n =
     (let n1 = update_tick (sync_tick tick n)
      in n1\<lparr>outbox := outbox n1 @ [\<lparr>nm_payload = v, nm_tag = tag, nm_tick = global_tick n1,
           nm_sender = (if sender = [] then ''local'' else sender)\<rparr>]\<rparr>)"

definition newer_first :: "network_message \<Rightarrow> network_message \<Rightarrow> bool" where
  "newer_first lhs rhs =
     (if nm_tick lhs \<noteq> nm_tick rhs then nm_tick lhs > nm_tick rhs
      else if nm_sender lhs \<noteq> nm_sender rhs then str_less (nm_sender lhs) (nm_sender rhs)
      else if nm_tag lhs \<noteq> nm_tag rhs then sint (nm_tag lhs) < sint (nm_tag rhs)
      else sint (nm_payload lhs) < sint (nm_payload rhs))"

text \<open>\<open>std::stable_sort\<close>: an element goes before the elements that are not less than it.\<close>

fun insert_by :: "('a \<Rightarrow> 'a \<Rightarrow> bool) \<Rightarrow> 'a \<Rightarrow> 'a list \<Rightarrow> 'a list" where
  "insert_by lt x [] = [x]"
| "insert_by lt x (y # ys) = (if lt y x then y # insert_by lt x ys else x # y # ys)"

definition stable_sort :: "('a \<Rightarrow> 'a \<Rightarrow> bool) \<Rightarrow> 'a list \<Rightarrow> 'a list" where
  "stable_sort lt xs = foldr (insert_by lt) xs []"

text \<open>\<open>std::unique\<close> with \<open>same_message\<close>, which compares every field, is \<open>remdups_adj\<close>.\<close>

definition merge_inbox :: "node_state \<Rightarrow> network_message option \<times> node_state" where
  "merge_inbox n =
     (if inbox n = [] then (None, n)
      else let sorted = remdups_adj (stable_sort newer_first (inbox n));
               msg = hd sorted;
               n1 = n\<lparr>inbox := tl sorted\<rparr>
           in (Some msg, update_tick (sync_tick (nm_tick msg) n1)))"

section \<open>Merging is independent of the order of arrival\<close>

definition message_key :: "network_message \<Rightarrow> int \<times> string \<times> int \<times> int" where
  "message_key m = (- uint (nm_tick m), nm_sender m, sint (nm_tag m), sint (nm_payload m))"

lemma str_less_iff: "str_less xs ys \<longleftrightarrow> xs < ys"
  by (induction xs ys rule: str_less.induct) (auto simp: less_char_def)

lemma word_inject:
  "uint a = uint b \<longleftrightarrow> a = b" "sint a = sint b \<longleftrightarrow> a = b" for a b :: "'a :: len word"
  by (metis word_of_int_uint) (auto intro: signed_word_eqI)

lemma newer_first_key: "newer_first lhs rhs \<longleftrightarrow> message_key lhs < message_key rhs"
  by (auto simp: newer_first_def message_key_def less_prod_def' str_less_iff word_less_def word_inject)

lemma message_key_inj: "message_key a = message_key b \<longleftrightarrow> a = b"
  by (cases a; cases b) (auto simp: message_key_def word_inject)

lemma insert_by_insort: "insert_by newer_first x ys = insort_key message_key x ys"
  by (induction ys) (auto simp: newer_first_key)

lemma stable_sort_sort_key: "stable_sort newer_first xs = sort_key message_key xs"
  by (induction xs) (simp_all add: stable_sort_def insert_by_insort)

lemma remdups_adj_sorted:
  "sorted xs \<Longrightarrow> sorted (remdups_adj xs) \<and> distinct (remdups_adj xs)" for xs :: "'a :: linorder list"
  by (induction xs rule: remdups_adj.induct) (auto simp: order.order_iff_strict)

text \<open>The cleaned inbox depends on the set of messages only.\<close>

lemma merged_unique:
  assumes "set xs = set ys"
  shows "remdups_adj (stable_sort newer_first xs) = remdups_adj (stable_sort newer_first ys)"
proof -
  let ?m = "\<lambda>zs. remdups_adj (stable_sort newer_first zs)"
  have inj: "inj message_key" by (rule injI) (simp add: message_key_inj)
  have key: "map message_key (?m zs) = remdups_adj (sort (map message_key zs))" for zs
  proof -
    have "map message_key (?m zs) = remdups_adj (map message_key (sort_key message_key zs))"
      by (simp add: stable_sort_sort_key remdups_adj_map_injective [OF inj])
    also have "map message_key (sort_key message_key zs) = sort (map message_key zs)"
      by (rule properties_for_sort [symmetric]) simp_all
    finally show ?thesis .
  qed
  have "map message_key (?m xs) = map message_key (?m ys)"
    unfolding key using assms by (intro sorted_distinct_set_unique) (simp_all add: remdups_adj_sorted)
  with inj show ?thesis by (simp add: inj_map_eq_map)
qed

lemma merge_inbox_set:
  assumes "set ms = set (inbox n)"
  shows "merge_inbox (n\<lparr>inbox := ms\<rparr>) = merge_inbox n"
  using merged_unique [OF assms] assms by (auto simp: merge_inbox_def Let_def)

text \<open>The message taken is minimal in the order, and it is gone from the inbox.\<close>

lemma merge_inbox_newest:
  assumes "inbox n \<noteq> []"
  obtains msg n' where "merge_inbox n = (Some msg, n')" "msg \<in> set (inbox n)"
    "\<forall>m \<in> set (inbox n). \<not> newer_first m msg" "set (inbox n') = set (inbox n) - {msg}"
    "outbox n' = outbox n" "global_tick n' = max (global_tick n) (nm_tick msg) + 1"
proof -
  let ?m = "remdups_adj (stable_sort newer_first (inbox n))"
  have set_m: "set ?m = set (inbox n)" by (simp add: stable_sort_sort_key)
  with assms obtain msg rest where m: "?m = msg # rest" by (cases ?m) auto
  have inj: "inj message_key" by (rule injI) (simp add: message_key_inj)
  have k: "map message_key ?m = remdups_adj (map message_key (sort_key message_key (inbox n)))"
    by (simp add: stable_sort_sort_key remdups_adj_map_injective [OF inj])
  have sd: "sorted (map message_key ?m)" "distinct (map message_key ?m)"
    using remdups_adj_sorted [of "map message_key (sort_key message_key (inbox n))"] by (simp_all add: k)
  then have "msg \<notin> set rest" "\<forall>x \<in> set ?m. message_key msg \<le> message_key x" by (auto simp: m)
  with set_m m have facts: "msg \<in> set (inbox n)" "\<forall>x \<in> set (inbox n). \<not> newer_first x msg"
    "set rest = set (inbox n) - {msg}" by (auto simp: newer_first_key not_less)
  show thesis
    by (rule that [of msg "update_tick (sync_tick (nm_tick msg) (n\<lparr>inbox := rest\<rparr>))"])
      (use assms m facts in \<open>auto simp: merge_inbox_def Let_def update_tick_def sync_tick_def max_def\<close>)
qed

end
