(* ===== verification/T81_Exec_Meta.thy ===== *)
theory T81_Exec_Meta
  imports T81_Exec_Memory T81_Distributed
begin

text \<open>
  Instruction handlers of \<open>core/vm/vm.cpp\<close>, third part: the calls to the Axion engine, the meta
  instructions (reading, writing, reflecting on and refining the machine), the distributed node, and
  the instructions that are blocked.
\<close>

section \<open>Axion instructions\<close>

definition exec_ax_read :: handler where
  "exec_ax_read i cpc vm =
     (if bad_a i then fault DecodeFault vm
      else do {
        (v, vm) \<leftarrow> eval_axion_call ''AXREAD'' cpc (opcode i) [] vm;
        let guard_addr = size_of_i64 (op_b i);
        let v = apply_segment_reason v ''AxRead guard'' (segment_for_address (st vm) guard_addr) guard_addr;
        (if vkind v = Deny
         then fault SecurityFault (rec_event (opcode i) (i32_of_i64 (op_b i)) 0 v vm)
         else do {
           vm \<leftarrow> put_reg (ia i) (op_b i) VT_Int vm;
           vm \<leftarrow> update_flags_of (ia i) vm;
           x \<leftarrow> get_val (ia i) vm;
           continue (rec_event (opcode i) (i32_of_i64 (op_b i)) x v vm)
         })
      })"

definition exec_ax_set :: handler where
  "exec_ax_set i cpc vm =
     (if bad_ab i then fault DecodeFault vm
      else do {
        x \<leftarrow> get_val (ib i) vm;
        (v, vm) \<leftarrow> eval_axion_call ''AXSET'' cpc (opcode i) [] vm;
        a \<leftarrow> get_val (ia i) vm;
        let (guard_addr, guard_kind) =
          (if 0 \<le> sint a then (size_of_i64 a, segment_for_address (st vm) (size_of_i64 a))
           else (0, Seg_Unknown));
        let v = apply_segment_reason v ''AxSet guard'' guard_kind guard_addr;
        let vm = rec_event (opcode i) (op_a i) x v vm;
        (if vkind v = Deny then fault SecurityFault vm else continue vm)
      })"

definition exec_ax_verify :: handler where
  "exec_ax_verify i cpc vm =
     (if bad_a i then fault DecodeFault vm
      else do {
        (v, vm) \<leftarrow> eval_axion_call ''AXVERIFY'' cpc (opcode i) [] vm;
        (if vkind v = Deny
         then fault SecurityFault (rec_event (opcode i) (i32_of_i64 (op_b i)) 0 v vm)
         else do {
           vm \<leftarrow> put_reg (ia i) (bool_word (vkind v = Defer)) VT_Int vm;
           vm \<leftarrow> update_flags_of (ia i) vm;
           x \<leftarrow> get_val (ia i) vm;
           continue (rec_event (opcode i) (i32_of_i64 (op_b i)) x v vm)
         })
      })"

definition exec_ax_check :: handler where
  "exec_ax_check i cpc vm =
     (if bad_ab i then fault DecodeFault vm
      else do {
        x \<leftarrow> get_val (ia i) vm;
        let ok = (x \<noteq> 0);
        tag \<leftarrow> get_tag (ib i) vm;
        y \<leftarrow> get_val (ib i) vm;
        let msg = (case symbol_like_text (st vm) tag y of Some m \<Rightarrow> m | None \<Rightarrow> ''Check'');
        (v, vm) \<leftarrow> (if \<not> ok then Some (deny (''AxCheck: '' @ msg), vm)
          else do {
            (v, vm) \<leftarrow> eval_axion_call ''AXCHECK'' cpc (opcode i) [] vm;
            Some (if vkind v = Allow \<or> vkind v = Warn then v\<lparr>vreason := ''AxCheck: '' @ msg\<rparr> else v, vm)
          });
        let vm = rec_event (opcode i) 0 (bool_word ok) v vm;
        (if vkind v = Deny then fault SecurityFault vm else continue vm)
      })"

definition exec_ax_report :: handler where
  "exec_ax_report i cpc vm =
     (if bad_a i then fault DecodeFault vm
      else do {
        tag \<leftarrow> get_tag (ia i) vm;
        y \<leftarrow> get_val (ia i) vm;
        let msg = (case symbol_like_text (st vm) tag y of Some m \<Rightarrow> m | None \<Rightarrow> ''Report'');
        (v, vm) \<leftarrow> eval_axion_call ''AXREPORT'' cpc (opcode i) [] vm;
        let v = (if vkind v = Allow \<or> vkind v = Warn then v\<lparr>vreason := ''AxReport: '' @ msg\<rparr> else v);
        let vm = rec_event (opcode i) 0 0 v vm;
        (if vkind v = Deny then fault SecurityFault vm else continue vm)
      })"

definition exec_ax_halt :: handler where
  "exec_ax_halt i cpc vm =
     continue (upd_st (\<lambda>s. s\<lparr>halted := True\<rparr>) (rec_event (opcode i) 0 0 (deny ''AXHALT instruction'') vm))"

definition exec_assert :: handler where
  "exec_assert i cpc vm =
     (if bad_a i then fault DecodeFault vm
      else do {
        x \<leftarrow> get_val (ia i) vm;
        (if x = 0
         then fault AssertionFailed (rec_event (opcode i) (op_a i) 0 (deny ''ASSERT failed'') vm)
         else continue vm)
      })"

definition exec_trap :: handler where "exec_trap i cpc vm = fault TrapInstruction vm"

definition exec_tnorm :: handler where
  "exec_tnorm i cpc vm =
     (if bad_ab i then fault DecodeFault vm
      else do {
        x \<leftarrow> get_val (ib i) vm;
        let t = word_of_int (clamp_trit x);
        vm \<leftarrow> set_reg (op_a i) t VT_Int vm;
        continue (update_flags t vm)
      })"

definition exec_canon :: handler where
  "exec_canon i cpc vm =
     (if bad_a i then fault DecodeFault vm
      else do {
        x \<leftarrow> get_val (ia i) vm;
        continue (rec_event (opcode i) (op_a i) x (allow ''Canon'') vm)
      })"

section \<open>Blocked instructions\<close>

definition blocked :: "string \<Rightarrow> i32 \<Rightarrow> insn \<Rightarrow> vm \<Rightarrow> outcome" where
  "blocked what tag i vm =
     fault SecurityFault (rec_event (opcode i) tag 0 (deny (''Blocked: unimplemented '' @ what)) vm)"

definition exec_nsend :: handler where
  "exec_nsend i cpc vm =
     (if \<not> reg_ok_b (op_b i) then fault DecodeFault vm
      else blocked ''async/network opcode'' (i32_of_i64 (op_b i)) i vm)"

definition exec_nrecv :: handler where
  "exec_nrecv i cpc vm =
     (if bad_a i then fault DecodeFault vm else blocked ''async/network opcode'' 0 i vm)"

definition exec_vwait :: handler where
  "exec_vwait i cpc vm =
     (if bad_ab i then fault DecodeFault vm
      else blocked ''async/network opcode'' (i32_of_i64 (op_b i)) i vm)"

definition exec_vyield :: handler where
  "exec_vyield i cpc vm =
     (if \<not> reg_ok_b (op_b i) then fault DecodeFault vm
      else blocked ''async/network opcode'' (i32_of_i64 (op_b i)) i vm)"

definition exec_blocked_axion :: handler where
  "exec_blocked_axion i cpc vm =
     fault SecurityFault (rec_event (opcode i) 0 0 (deny ''Blocked: unimplemented privileged Axion opcode'') vm)"

definition exec_blocked_neural :: "bool \<Rightarrow> handler" where
  "exec_blocked_neural require_b_operand i cpc vm =
     (if bad_a i \<or> require_b_operand \<and> \<not> reg_ok_b (op_b i) then fault DecodeFault vm
      else fault SecurityFault (rec_event (opcode i) 0 0 (deny ''Blocked: unimplemented neural opcode'') vm))"

section \<open>Meta instructions\<close>

definition kMaxReflectionsPerEpoch :: nat where "kMaxReflectionsPerEpoch = 81"
definition kMaxMetaWritesPerEpoch :: nat where "kMaxMetaWritesPerEpoch = 243"

text \<open>The switch over the segments that live in \<open>state_.memory\<close>: the physical address.\<close>

definition meta_address :: "state \<Rightarrow> segment_kind \<Rightarrow> i64 \<Rightarrow> nat option" where
  "meta_address s segment addr =
     (let l = layout s; a = size_of_i64 addr in
      if segment = Seg_Stack then (if seg_contains (stack_seg l) a then Some a else None)
      else if segment = Seg_Heap then (if seg_contains (heap_seg l) a then Some a else None)
      else if segment = Seg_Tensor then (if seg_contains (tensor_seg l) a then Some a else None)
      else if segment = Seg_Meta then (if seg_contains (meta_seg l) a then Some a else None)
      else None)"

definition exec_meta_read :: handler where
  "exec_meta_read i cpc vm =
     (if bad_a i \<or> \<not> reg_ok (op_c i) then fault DecodeFault vm
      else let segment = ucast (op_b i) :: segment_kind in do {
        addr \<leftarrow> get_val (ic i) vm;
        (v, vm) \<leftarrow> eval_axion_call ''METAREAD'' cpc (opcode i) [] vm;
        let finish = (\<lambda>vm. do {
          vm \<leftarrow> update_flags_of (ia i) vm;
          continue (rec_event (opcode i) segment addr
            (apply_segment_reason v ''MetaRead reflection'' segment (size_of_i64 addr)) vm)
        });
        (if vkind v = Deny then fault SecurityFault vm
         else if segment = Seg_Registers then
           (if \<not> reg_ok (i32_of_i64 addr) then fault BoundsFault vm
            else do {
              x \<leftarrow> get_val (size_of_i64 addr) vm;
              t \<leftarrow> get_tag (size_of_i64 addr) vm;
              vm \<leftarrow> put_reg (ia i) x t vm;
              finish vm
            })
         else if segment = Seg_Code then
           (if sint addr < 0 \<or> size_of_i64 addr \<ge> length (insns (prog vm)) then fault BoundsFault vm
            else do {
              vm \<leftarrow> put_reg (ia i) (ucast (opcode (insns (prog vm) ! size_of_i64 addr))) VT_Int vm;
              finish vm
            })
         else (case meta_address (st vm) segment addr of
            None \<Rightarrow> fault BoundsFault vm
          | Some a \<Rightarrow> do {
              x \<leftarrow> arr_get (memory (st vm)) a;
              t \<leftarrow> arr_get (memory_tags (st vm)) a;
              vm \<leftarrow> put_reg (ia i) x t vm;
              finish vm
            }))
      })"

definition exec_meta_write :: handler where
  "exec_meta_write i cpc vm =
     (if bad_a i \<or> \<not> reg_ok (op_c i) then fault DecodeFault vm
      else let segment = ucast (op_b i) :: segment_kind in do {
        addr \<leftarrow> get_val (ic i) vm;
        x \<leftarrow> get_val (ia i) vm;
        t \<leftarrow> get_tag (ia i) vm;
        (v, vm) \<leftarrow> eval_axion_call ''METAWRITE'' cpc (opcode i) [] vm;
        let finish = (\<lambda>vm. continue (rec_event (opcode i) segment addr
            (apply_segment_reason v ''MetaWrite reflection'' segment (size_of_i64 addr)) vm));
        (if vkind v = Deny then fault SecurityFault vm
         else if segment = Seg_Registers then
           (if \<not> reg_ok (i32_of_i64 addr) then fault BoundsFault vm
            else do { vm \<leftarrow> put_reg (size_of_i64 addr) x t vm; finish vm })
         else if segment = Seg_Code then
           (if sint addr < 0 \<or> size_of_i64 addr \<ge> length (insns (prog vm)) then fault BoundsFault vm
            else fault SecurityFault (rec_event (opcode i) segment addr
              (deny ''MetaWrite to Code segment denied (protected)'') vm))
         else (case meta_address (st vm) segment addr of
            None \<Rightarrow> fault BoundsFault vm
          | Some a \<Rightarrow> do { vm \<leftarrow> put_mem a x t vm; finish vm }))
      })"

text \<open>The hash of the code segment in a snapshot.\<close>

definition combine :: "u64 \<Rightarrow> u64 \<Rightarrow> u64" where
  "combine v h = h XOR (v + 0x9e3779b9 + push_bit 6 h + drop_bit 2 h)"

definition code_hash :: "program \<Rightarrow> u64" where
  "code_hash p = fold (\<lambda>i h. combine (scast (op_c i)) (combine (ucast (op_b i))
     (combine (scast (op_a i)) (combine (ucast (opcode i)) h)))) (insns p) 0"

definition exec_meta_reflect :: handler where
  "exec_meta_reflect i cpc vm =
     (if bad_a i then fault DecodeFault vm
      else if reflection_count (st vm) \<ge> kMaxReflectionsPerEpoch then fault SecurityFault vm
      else do {
        (v, vm) \<leftarrow> eval_axion_call ''METAREFLECT'' cpc (opcode i) [] vm;
        (if vkind v = Deny then fault SecurityFault vm
         else let c = cur vm;
                  snapshot = \<lparr>snap_pc = cpc, snap_registers = registers c,
                    snap_register_tags = register_tags c, snap_flags = flags c,
                    snap_trace = drop (length (trace (st vm)) - 81) (trace (st vm)),
                    snap_code_hash = code_hash (prog vm)\<rparr>;
                  vm = upd_st (\<lambda>s. s\<lparr>reflection_snapshots := reflection_snapshots s @ [snapshot],
                         reflection_count := reflection_count s + 1\<rparr>) vm;
                  h = i64_of_size (length (reflection_snapshots (st vm)))
              in do {
                vm \<leftarrow> set_reg (op_a i) h VT_ReflectionHandle vm;
                continue (rec_event (opcode i) (i32_of_i64 (op_b i)) h v (update_flags h vm))
              })
      })"

subsection \<open>Refinement\<close>

text \<open>\<open>RefinementCommand\<close>; the operation is an enumeration over \<open>int64_t\<close>.\<close>

record refine_command =
  rc_op :: i64
  rc_target :: i64
  rc_value :: i64
  rc_tag :: value_tag

abbreviation (input) RC_WriteCode :: i64 where "RC_WriteCode \<equiv> 1"
abbreviation (input) RC_WriteReg :: i64 where "RC_WriteReg \<equiv> 2"
abbreviation (input) RC_WriteMem :: i64 where "RC_WriteMem \<equiv> 3"

text \<open>Reading \<open>n\<close> commands, the next one being number \<open>j\<close>; the inner \<open>None\<close> is a failed bounds check.\<close>

fun read_commands :: "nat \<Rightarrow> nat \<Rightarrow> i64 \<Rightarrow> state \<Rightarrow> refine_command list option option" where
  "read_commands 0 j cmd_addr s = Some (Some [])"
| "read_commands (Suc n) j cmd_addr s = do {
     b \<leftarrow> add_int cmd_addr (word_of_nat (j * 4));
     let base = size_of_i64 b;
     if \<not> mem_ok s (i32_of_size base) False \<or> \<not> mem_ok s (i32_of_size (base + 3)) False
     then Some None
     else do {
       oper \<leftarrow> arr_get (memory s) base;
       tgt \<leftarrow> arr_get (memory s) (base + 1);
       v \<leftarrow> arr_get (memory s) (base + 2);
       tag \<leftarrow> arr_get (memory s) (base + 3);
       rest \<leftarrow> read_commands n (j + 1) cmd_addr s;
       Some (map_option (Cons \<lparr>rc_op = oper, rc_target = tgt, rc_value = v, rc_tag = ucast tag\<rparr>) rest)
     }
   }"

text \<open>The validation pass stops at the first command that is not allowed.  The counting of code
  writes that follows the denial of \<open>WriteCode\<close> in the source is unreachable.\<close>

fun validate_commands :: "insn \<Rightarrow> refine_command list \<Rightarrow> vm \<Rightarrow> trap option \<times> vm" where
  "validate_commands i [] vm = (None, vm)"
| "validate_commands i (c # cs) vm =
     (if rc_op c = RC_WriteCode then
        (Some SecurityFault, rec_event (opcode i) (i32_of_i64 (op_b i)) 0
           (deny ''MetaRefine WriteCode denied (protected)'') vm)
      else if rc_op c = RC_WriteReg \<and> \<not> reg_ok (i32_of_i64 (rc_target c)) then (Some BoundsFault, vm)
      else if rc_op c = RC_WriteMem \<and> \<not> mem_ok (st vm) (i32_of_i64 (rc_target c)) False
      then (Some BoundsFault, vm)
      else validate_commands i cs vm)"

definition apply_command :: "refine_command \<Rightarrow> vm \<Rightarrow> vm option" where
  "apply_command c vm =
     (if rc_op c = RC_WriteCode then do {
        old \<leftarrow> arr_get (insns (prog vm)) (size_of_i64 (rc_target c));
        is \<leftarrow> arr_set (insns (prog vm)) (size_of_i64 (rc_target c)) (old\<lparr>opcode := ucast (rc_value c)\<rparr>);
        Some (upd_st (\<lambda>s. s\<lparr>meta_write_count := meta_write_count s + 1\<rparr>)
          (vm\<lparr>prog := (prog vm)\<lparr>insns := is\<rparr>\<rparr>))
      }
      else if rc_op c = RC_WriteReg then put_reg (size_of_i64 (rc_target c)) (rc_value c) (rc_tag c) vm
      else if rc_op c = RC_WriteMem then put_mem (size_of_i64 (rc_target c)) (rc_value c) (rc_tag c) vm
      else Some vm)"

fun apply_commands :: "refine_command list \<Rightarrow> vm \<Rightarrow> vm option" where
  "apply_commands [] vm = Some vm"
| "apply_commands (c # cs) vm = do { vm \<leftarrow> apply_command c vm; apply_commands cs vm }"

definition exec_meta_refine :: handler where
  "exec_meta_refine i cpc vm =
     (if bad_abc i then fault DecodeFault vm
      else do {
        (v, vm) \<leftarrow> eval_axion_call ''METAREFINE'' cpc (opcode i) [] vm;
        (if vkind v = Deny then fault SecurityFault vm
         else do {
           cmd_addr \<leftarrow> get_val (ib i) vm;
           cmd_count \<leftarrow> get_val (ic i) vm;
           (if sint cmd_count < 0 \<or> sint cmd_count > int kMaxMetaWritesPerEpoch then fault BoundsFault vm
            else do {
              r \<leftarrow> read_commands (size_of_i64 cmd_count) 0 cmd_addr (st vm);
              (case r of
                 None \<Rightarrow> fault BoundsFault vm
               | Some cmds \<Rightarrow>
                   (case validate_commands i cmds vm of
                      (Some t, vm) \<Rightarrow> fault t vm
                    | (None, vm) \<Rightarrow> do {
                        vm \<leftarrow> apply_commands cmds vm;
                        vm \<leftarrow> set_reg (op_a i) 1 VT_Int vm;
                        continue (rec_event (opcode i) (i32_of_i64 (op_b i)) 1 v (update_flags 1 vm))
                      }))
            })
         })
      })"

section \<open>The distributed node\<close>

definition upd_node :: "(node_state \<Rightarrow> node_state) \<Rightarrow> vm \<Rightarrow> vm" where
  "upd_node f = upd_st (\<lambda>s. s\<lparr>tier4_state := f (tier4_state s)\<rparr>)"

text \<open>The tier check that opens the distributed instructions.\<close>

definition with_tier :: "insn \<Rightarrow> tier_id \<Rightarrow> string \<Rightarrow> vm \<Rightarrow> (vm \<Rightarrow> outcome) \<Rightarrow> outcome" where
  "with_tier i required cause vm body = do {
     (ok, vm) \<leftarrow> ensure_min_tier (opcode i) required cause vm;
     if ok then body vm else fault TierFault vm
   }"

definition exec_gossip :: handler where
  "exec_gossip i cpc vm = with_tier i Tier4 ''distributed-opcode'' vm (\<lambda>vm.
     if \<not> reg_ok_b (op_b i) then fault DecodeFault vm
     else do {
       x \<leftarrow> get_val (ib i) vm;
       t \<leftarrow> get_tag (ib i) vm;
       continue (rec_event (opcode i) (ucast t) x (allow ''Gossip: broadcast state'')
         (upd_node (gossip x (ucast t) (word_of_nat (instruction_count vm)) ''local'') vm))
     })"

definition exec_merge :: handler where
  "exec_merge i cpc vm = with_tier i Tier4 ''distributed-opcode'' vm (\<lambda>vm.
     if bad_a i then fault DecodeFault vm
     else let (msg, node) = merge_inbox (tier4_state (st vm));
              v = (case msg of
                Some m \<Rightarrow> \<lparr>has_value = True, opt_payload_tag = ucast (nm_tag m), opt_payload = nm_payload m\<rparr>
              | None \<Rightarrow> \<lparr>has_value = False, opt_payload_tag = VT_Int, opt_payload = 0\<rparr>);
              (h, tbl) = intern_option (options (st vm)) v;
              vm = upd_st (\<lambda>s. s\<lparr>tier4_state := node, options := tbl\<rparr>) vm
          in do {
            vm \<leftarrow> set_reg (op_a i) h VT_OptionHandle vm;
            continue (rec_event (opcode i) (if msg = None then 0 else 1) h (allow ''Merge: process inbox'')
              (update_flags h vm))
          })"

definition exec_tick_sync :: handler where
  "exec_tick_sync i cpc vm = with_tier i Tier4 ''distributed-opcode'' vm (\<lambda>vm.
     if bad_a i then fault DecodeFault vm
     else do {
       x \<leftarrow> get_val (ia i) vm;
       let vm = upd_node (sync_tick (ucast x)) vm;
       continue (rec_event (opcode i) 0 (ucast (global_tick (tier4_state (st vm)))) (allow ''TickSync'') vm)
     })"

definition exec_coherence :: handler where
  "exec_coherence i cpc vm = with_tier i Tier4 ''distributed-opcode'' vm (\<lambda>vm.
     if bad_a i then fault DecodeFault vm
     else do {
       drift \<leftarrow> sub_int (ucast (global_tick (tier4_state (st vm)))) (i64_of_size (instruction_count vm));
       vm \<leftarrow> set_reg (op_a i) drift VT_Int vm;
       continue (rec_event (opcode i) 0 drift (allow ''Coherence check'') (update_flags drift vm))
     })"

definition exec_dist_seal :: handler where
  "exec_dist_seal i cpc vm =
     (if bad_a i then fault DecodeFault vm
      else let seal = fold (\<lambda>m acc. acc XOR nm_payload m) (outbox (tier4_state (st vm))) 0 in do {
        vm \<leftarrow> set_reg (op_a i) seal VT_Int vm;
        continue (rec_event (opcode i) 0 seal (allow ''DistSeal'') (update_flags seal vm))
      })"

section \<open>Safety\<close>

lemma wf_halted [wf_intros]: "vm_wf k vm \<Longrightarrow> vm_wf k (upd_st (\<lambda>s. s\<lparr>halted := b\<rparr>) vm)"
  by (rule upd_st_wf, assumption)
    (auto simp: vm_wf_def elim!: state_wf_cong [THEN iffD2, rotated -1])

lemma wf_node [wf_intros]: "vm_wf k vm \<Longrightarrow> vm_wf k (upd_node f vm)"
  unfolding upd_node_def by (rule upd_st_wf, assumption)
    (auto simp: vm_wf_def elim!: state_wf_cong [THEN iffD2, rotated -1])

lemma wf_node_options [wf_intros]:
  "vm_wf k vm \<Longrightarrow> vm_wf k (upd_st (\<lambda>s. s\<lparr>tier4_state := n, options := t\<rparr>) vm)"
  by (rule upd_st_wf, assumption)
    (auto simp: vm_wf_def elim!: state_wf_cong [THEN iffD2, rotated -1])

lemma wf_snapshot [wf_intros]:
  "vm_wf k vm \<Longrightarrow> vm_wf k (upd_st (\<lambda>s. s\<lparr>reflection_snapshots := f s, reflection_count := g s\<rparr>) vm)"
  by (rule upd_st_wf, assumption)
    (auto simp: vm_wf_def elim!: state_wf_cong [THEN iffD2, rotated -1])

lemma safe_exec_ax:
  assumes "vm_wf k vm" "operand_fits i"
  shows "safe k (exec_ax_read i cpc vm)" "safe k (exec_ax_set i cpc vm)" "safe k (exec_ax_verify i cpc vm)"
    "safe k (exec_ax_report i cpc vm)" "safe k (exec_ax_halt i cpc vm)" "safe k (exec_assert i cpc vm)"
    "safe k (exec_trap i cpc vm)" "safe k (exec_tnorm i cpc vm)" "safe k (exec_canon i cpc vm)"
  unfolding exec_ax_read_def exec_ax_set_def exec_ax_verify_def exec_ax_report_def exec_ax_halt_def
    exec_assert_def exec_trap_def exec_tnorm_def exec_canon_def
  using assms good_regs [of i] by (intro ub_free wf_intros; simp add: wf_intros)+

lemma safe_exec_ax_check:
  assumes "vm_wf k vm" "operand_fits i"
  shows "safe k (exec_ax_check i cpc vm)"
  unfolding exec_ax_check_def Let_def using assms good_regs [of i]
  by (intro ub_free wf_intros; simp) (auto intro!: ub_free wf_intros)

lemma safe_exec_blocked:
  assumes "vm_wf k vm"
  shows "safe k (exec_nsend i cpc vm)" "safe k (exec_nrecv i cpc vm)" "safe k (exec_vwait i cpc vm)"
    "safe k (exec_vyield i cpc vm)" "safe k (exec_blocked_axion i cpc vm)" "safe k (exec_blocked_neural b i cpc vm)"
  unfolding exec_nsend_def exec_nrecv_def exec_vwait_def exec_vyield_def exec_blocked_axion_def
    exec_blocked_neural_def blocked_def
  using assms by (intro ub_free wf_intros; simp)+

text \<open>A 64-bit address that survives the conversion to \<open>int\<close> of its check.\<close>

definition value_fits :: "i64 \<Rightarrow> bool" where
  "value_fits x \<longleftrightarrow> x = i64_of_i32 (i32_of_i64 x)"

lemma value_fits_size:
  assumes "value_fits x"
  shows "size_of_i64 x = size_of_i32 (i32_of_i64 x)"
proof -
  have "size_of_i64 x = size_of_i64 (i64_of_i32 (i32_of_i64 x))"
    using assms unfolding value_fits_def by (rule arg_cong)
  then show ?thesis by (simp add: size_of_i64_def size_of_i32_def i64_of_i32_def)
qed

lemma value_fits_reg: "value_fits x \<Longrightarrow> reg_ok (i32_of_i64 x) \<Longrightarrow> size_of_i64 x < kRegisters"
  by (simp add: value_fits_size reg_ok_def)

lemma value_fits_mem:
  "vm_wf k vm \<Longrightarrow> value_fits x \<Longrightarrow> mem_ok (st vm) (i32_of_i64 x) False \<Longrightarrow>
     size_of_i64 x < length (memory (st vm))"
  by (simp add: value_fits_size mem_ok_in_memory)

lemma meta_address_in_memory:
  "vm_wf k vm \<Longrightarrow> meta_address (st vm) segment addr = Some a \<Longrightarrow> a < length (memory (st vm))"
  using vm_wf_state [of k vm]
  by (auto simp: meta_address_def seg_contains_def state_wf_def layout_ok_def Let_def split: if_splits)

text \<open>What keeps the meta instructions inside their arrays.\<close>

definition meta_operands_fit :: "insn \<Rightarrow> vm \<Rightarrow> bool" where
  "meta_operands_fit i vm \<longleftrightarrow>
     (let r = registers (cur vm) in
      (opcode i = Op_MetaRead \<or> opcode i = Op_MetaWrite \<longrightarrow> value_fits (r ! ic i)) \<and>
      (opcode i = Op_MetaRefine \<longrightarrow> unat (r ! ib i) < 2 ^ 32 \<and>
         (case read_commands (size_of_i64 (r ! ic i)) 0 (r ! ib i) (st vm) of
            Some (Some cs) \<Rightarrow> list_all (\<lambda>c. value_fits (rc_target c)) cs | _ \<Rightarrow> True)))"

lemma vm_wf_memory_bind [ub_free]:
  assumes "vm_wf k vm" "a < length (memory (st vm))"
  shows "(\<And>x. safe k (f x)) \<Longrightarrow> safe k (arr_get (memory (st vm)) a \<bind> f)"
    "(\<And>x. safe k (g x)) \<Longrightarrow> safe k (arr_get (memory_tags (st vm)) a \<bind> g)"
  using vm_wf_memory [OF assms] by simp_all

lemma safe_exec_meta_read:
  assumes "vm_wf k vm" "value_fits (registers (cur vm) ! ic i)"
  shows "safe k (exec_meta_read i cpc vm)"
proof (cases "bad_a i \<or> \<not> reg_ok (op_c i)")
  case False
  then show ?thesis
    unfolding exec_meta_read_def Let_def using assms good_regs(1) [of i]
    by (intro ub_free wf_intros; simp add: value_fits_reg meta_address_in_memory)
qed (use assms in \<open>auto simp: exec_meta_read_def intro: ub_free\<close>)

lemma safe_exec_meta_write:
  assumes "vm_wf k vm" "value_fits (registers (cur vm) ! ic i)"
  shows "safe k (exec_meta_write i cpc vm)"
proof (cases "bad_a i \<or> \<not> reg_ok (op_c i)")
  case False
  then show ?thesis
    unfolding exec_meta_write_def Let_def using assms good_regs(1) [of i]
    by (intro ub_free wf_intros; simp add: value_fits_reg meta_address_in_memory)
qed (use assms in \<open>auto simp: exec_meta_write_def intro: ub_free\<close>)

lemma safe_exec_meta_reflect:
  assumes "vm_wf k vm"
  shows "safe k (exec_meta_reflect i cpc vm)"
  unfolding exec_meta_reflect_def Let_def using assms good_regs(1) [of i]
  by (intro ub_free wf_intros; simp)

end
