(* ===== verification/T81_Exec_Refine.thy ===== *)
theory T81_Exec_Refine
  imports T81_Exec_Meta
begin

text \<open>Safety of the reflective and distributed instructions of \<open>T81_Exec_Meta\<close>: the command list
  that \<open>MetaRefine\<close> has validated can be applied without leaving the arrays and without touching
  the program, and the instructions of the distributed node keep the machine well formed.\<close>

text \<open>Refinement: a validated list of commands can be applied, and never touches the program.\<close>

definition command_ok :: "state \<Rightarrow> refine_command \<Rightarrow> bool" where
  "command_ok s c \<longleftrightarrow> rc_op c \<noteq> RC_WriteCode \<and>
     (rc_op c = RC_WriteReg \<longrightarrow> reg_ok (i32_of_i64 (rc_target c))) \<and>
     (rc_op c = RC_WriteMem \<longrightarrow> mem_ok s (i32_of_i64 (rc_target c)) False)"

lemma validate_commands_None:
  "validate_commands i cs vm = (None, vm') \<longleftrightarrow> vm' = vm \<and> list_all (command_ok (st vm)) cs"
  by (induction cs) (auto simp: command_ok_def)

lemma validate_commands_wf:
  "vm_wf k vm \<Longrightarrow> validate_commands i cs vm = (r, vm') \<Longrightarrow> vm_wf k vm'"
  by (induction cs) (auto simp: wf_intros split: if_splits)

lemma put_mem_shape:
  "put_mem a v t vm = Some vm' \<Longrightarrow> length (memory (st vm')) = length (memory (st vm))"
  by (auto simp: put_mem_def upd_st_def arr_set_eq_Some split: bind_splits)

lemma put_reg_st:
  "put_reg n v t vm = Some vm' \<Longrightarrow> \<exists>c. st vm' = (st vm)\<lparr>contexts := c\<rparr>"
  by (auto simp: put_reg_def upd_ctx_def split: bind_splits)

lemma mem_ok_cong:
  "layout s' = layout s \<Longrightarrow> length (memory s') = length (memory s) \<Longrightarrow> mem_ok s' = mem_ok s"
  by (intro ext) (simp add: mem_ok_def)

lemma apply_commands_total:
  "vm_wf k vm \<Longrightarrow> list_all (command_ok s) cs \<Longrightarrow> list_all (\<lambda>c. value_fits (rc_target c)) cs \<Longrightarrow>
     mem_ok s = mem_ok (st vm) \<Longrightarrow> \<exists>vm'. apply_commands cs vm = Some vm' \<and> vm_wf k vm'"
proof (induction cs arbitrary: vm)
  case (Cons c cs)
  have step: "\<exists>vm1. apply_command c vm = Some vm1 \<and> vm_wf k vm1 \<and>
      length (memory (st vm1)) = length (memory (st vm))"
  proof -
    consider (reg) "rc_op c = RC_WriteReg" | (mem) "rc_op c = RC_WriteMem"
      | (noop) "rc_op c \<noteq> RC_WriteReg" "rc_op c \<noteq> RC_WriteMem" by blast
    then show ?thesis
    proof cases
      case reg
      with Cons.prems(2,3) have "size_of_i64 (rc_target c) < kRegisters"
        by (simp add: command_ok_def value_fits_reg)
      from put_reg_wf [OF Cons.prems(1) this] obtain vm1 where
        p: "put_reg (size_of_i64 (rc_target c)) (rc_value c) (rc_tag c) vm = Some vm1" "vm_wf k vm1"
        by blast
      with put_reg_st [OF p(1)] reg show ?thesis by (auto simp: apply_command_def)
    next
      case mem
      with Cons.prems have "size_of_i64 (rc_target c) < length (memory (st vm))"
        by (auto simp: command_ok_def intro: value_fits_mem)
      from put_mem_wf [OF Cons.prems(1) this] obtain vm1 where
        p: "put_mem (size_of_i64 (rc_target c)) (rc_value c) (rc_tag c) vm = Some vm1" "vm_wf k vm1"
        by blast
      with put_mem_shape [OF p(1)] mem show ?thesis by (auto simp: apply_command_def)
    next
      case noop
      with Cons.prems(1,2) show ?thesis by (auto simp: apply_command_def command_ok_def)
    qed
  qed
  then obtain vm1 where vm1: "apply_command c vm = Some vm1" "vm_wf k vm1"
    "length (memory (st vm1)) = length (memory (st vm))" by blast
  have "layout (st vm1) = layout (st vm)" using vm1(2) Cons.prems(1) by (simp add: vm_wf_def)
  then have m: "mem_ok s = mem_ok (st vm1)" using mem_ok_cong vm1(3) Cons.prems(4) by metis
  have c: "list_all (command_ok s) cs" "list_all (\<lambda>c. value_fits (rc_target c)) cs"
    using Cons.prems(2,3) by simp_all
  show ?case unfolding apply_commands.simps vm1(1) bind.simps by (rule Cons.IH [OF vm1(2) c m])
qed simp

lemma in_i64_of_nat: "n < 2 ^ 63 \<Longrightarrow> in_i64 (int n)"
  by (simp add: in_i64_def)

lemma sint_unat_small: "unat (w :: i64) < 2 ^ 63 \<Longrightarrow> sint w = int (unat w)"
  using sint_of_in_i64 [OF in_i64_of_nat, of "unat w"] by simp

lemma add_int_offset:
  assumes "unat addr < 2 ^ 32" "unat off < 2 ^ 10"
  shows "\<exists>b. add_int addr off = Some b \<and> size_of_i64 b = unat addr + unat off"
proof -
  have s: "sint addr = int (unat addr)" "sint off = int (unat off)"
    by (rule sint_unat_small, use assms in simp)+
  have i: "in_i64 (sint addr + sint off)"
    unfolding s of_nat_add [symmetric] by (rule in_i64_of_nat) (use assms in simp)
  then obtain b where b: "add_int addr off = Some b" "sint b = sint addr + sint off"
    using that [OF _ sint_of_in_i64 [OF i]] by (simp only: add_int_def signed_result_def if_True)
  then have "0 \<le> sint b" unfolding s by simp
  from nonneg_i64(1) [OF this] have "unat b = nat (int (unat addr) + int (unat off))"
    by (simp only: b(2) s)
  then have "unat b = unat addr + unat off" by (simp only: of_nat_add [symmetric] nat_int)
  with b(1) show ?thesis by (simp add: size_of_i64_def)
qed

lemma read_commands_total:
  "vm_wf k vm \<Longrightarrow> unat addr < 2 ^ 32 \<Longrightarrow> j + n \<le> 243 \<Longrightarrow> j = 0 \<or> unat addr + 4 * j < 2 ^ 32 \<Longrightarrow>
     read_commands n j addr (st vm) \<noteq> None"
proof (induction n arbitrary: j)
  case (Suc n)
  have base: "unat addr + 4 * j < 2 ^ 32" using Suc.prems(2,4) by auto
  have j4: "j * 4 < 2 ^ 10" using Suc.prems(3) by simp
  then have off: "unat (i64_of_size (j * 4)) = j * 4" by (intro unat_i64_of_size) simp
  obtain b where b: "add_int addr (i64_of_size (j * 4)) = Some b" "size_of_i64 b = unat addr + 4 * j"
    using add_int_offset [OF Suc.prems(2), of "i64_of_size (j * 4)"] j4 unfolding off
    by (auto simp: mult.commute)
  show ?case
  proof (cases "mem_ok (st vm) (i32_of_size (size_of_i64 b)) False \<and>
      mem_ok (st vm) (i32_of_size (size_of_i64 b + 3)) False")
    case True
    then have "size_of_i64 b < length (memory (st vm))" using mem_ok_of_size base b(2) by simp
    with memory_small [OF Suc.prems(1)] have "size_of_i64 b + 3 < 2 ^ 32" by simp
    with True have m: "size_of_i64 b + 3 < length (memory (st vm))" using mem_ok_of_size by blast
    with memory_small [OF Suc.prems(1)] b(2) have "unat addr + 4 * (j + 1) < 2 ^ 32" by simp
    from Suc.IH [OF Suc.prems(1,2) _ disjI2 [OF this]] Suc.prems(3)
    have "read_commands n (j + 1) addr (st vm) \<noteq> None" by simp
    with b(1) True m show ?thesis by (auto simp: arr_get_def Let_def i64_of_size_def)
  next
    case False
    with b(1) show ?thesis by (auto simp: Let_def i64_of_size_def)
  qed
qed simp

lemma safe_exec_meta_refine:
  assumes "vm_wf k vm" "operand_fits i" "unat (registers (cur vm) ! ib i) < 2 ^ 32"
    "case read_commands (size_of_i64 (registers (cur vm) ! ic i)) 0 (registers (cur vm) ! ib i) (st vm) of
       Some (Some cs) \<Rightarrow> list_all (\<lambda>c. value_fits (rc_target c)) cs | _ \<Rightarrow> True"
  shows "safe k (exec_meta_refine i cpc vm)"
proof (cases "bad_abc i")
  case False
  let ?addr = "registers (cur vm) ! ib i" and ?n = "registers (cur vm) ! ic i"
  have r: "\<exists>r. read_commands (size_of_i64 ?n) 0 ?addr (st vm) = Some r"
    if "0 \<le> sint ?n" "sint ?n \<le> 243"
    using read_commands_total [OF assms(1,3), of 0 "size_of_i64 ?n"] nonneg_i64(1) [OF that(1)] that
    by (auto simp: size_of_i64_def)
  have ap: "\<exists>vm2. apply_commands cs vm1 = Some vm2 \<and> vm_wf k vm2"
    if "vm_wf k vm1" "st vm1 = st vm" "read_commands (size_of_i64 ?n) 0 ?addr (st vm) = Some (Some cs)"
      "list_all (command_ok (st vm)) cs" for vm1 cs
    using apply_commands_total [OF that(1,4)] assms(4) that(2,3) by simp
  have tail: "safe k (read_commands (size_of_i64 ?n) 0 ?addr (st vm1) \<bind> (\<lambda>r. case r of
       None \<Rightarrow> fault BoundsFault vm1
     | Some cmds \<Rightarrow> (case validate_commands i cmds vm1 of
          (Some t, vm) \<Rightarrow> fault t vm
        | (None, vm) \<Rightarrow> do {
            vm \<leftarrow> apply_commands cmds vm;
            vm \<leftarrow> set_reg (op_a i) 1 VT_Int vm;
            continue (rec_event (opcode i) (i32_of_i64 (op_b i)) 1 v (update_flags 1 vm))
          })))"
    if w: "vm_wf k vm1" and s: "st vm1 = st vm" and n: "0 \<le> sint ?n" "sint ?n \<le> 243" for vm1 v
  proof -
    obtain rd where rd: "read_commands (size_of_i64 ?n) 0 ?addr (st vm) = Some rd" using r [OF n] by blast
    show ?thesis
    proof (cases rd)
      case None
      with rd w s show ?thesis by (simp add: safe_fault)
    next
      case (Some cs)
      obtain t vm2 where v: "validate_commands i cs vm1 = (t, vm2)" by (cases "validate_commands i cs vm1")
      show ?thesis
      proof (cases t)
        case None
        with v s have "vm2 = vm1" "list_all (command_ok (st vm)) cs" by (auto simp: validate_commands_None)
        with ap [OF w s rd [unfolded Some]] obtain vm3 where "apply_commands cs vm1 = Some vm3" "vm_wf k vm3"
          by blast
        with rd Some v None \<open>vm2 = vm1\<close> s good_regs(4) [OF assms(2) False] show ?thesis
          by (auto intro!: ub_free wf_intros)
      next
        case (Some t')
        with v rd \<open>rd = Some cs\<close> s validate_commands_wf [OF w v] show ?thesis by (simp add: safe_fault)
      qed
    qed
  qed
  have cur: "cur vm1 = cur vm" if "st vm1 = st vm" for vm1 using that by (simp add: cur_def)
  have regs: "idx_b (op_b i) < kRegisters" "idx (op_c i) < kRegisters"
    using good_regs [of i] assms(2) False by simp_all
  have rest: "safe k (get_val (ib i) vm1 \<bind> (\<lambda>cmd_addr. get_val (ic i) vm1 \<bind> (\<lambda>cmd_count.
       if sint cmd_count < 0 \<or> sint cmd_count > int kMaxMetaWritesPerEpoch then fault BoundsFault vm1
       else read_commands (size_of_i64 cmd_count) 0 cmd_addr (st vm1) \<bind> (\<lambda>r. case r of
         None \<Rightarrow> fault BoundsFault vm1
       | Some cmds \<Rightarrow> (case validate_commands i cmds vm1 of
            (Some t, vm) \<Rightarrow> fault t vm
          | (None, vm) \<Rightarrow> do {
              vm \<leftarrow> apply_commands cmds vm;
              vm \<leftarrow> set_reg (op_a i) 1 VT_Int vm;
              continue (rec_event (opcode i) (i32_of_i64 (op_b i)) 1 v (update_flags 1 vm))
            })))))"
    if w: "vm_wf k vm1" and s: "st vm1 = st vm" for vm1 v
    using tail [OF w s] regs
    by (intro safe_get_val [OF w] safe_if)
      (simp_all add: cur [OF s] safe_fault [OF w] kMaxMetaWritesPerEpoch_def)
  show ?thesis
    unfolding exec_meta_refine_def if_not_P [OF False]
    by (intro safe_eval_axion_call [OF assms(1)])
      (unfold prod.case, intro safe_if safe_fault rest)
qed (use assms in \<open>simp add: exec_meta_refine_def ub_free\<close>)

section \<open>The distributed node\<close>

lemma tier4_state_rec_event [simp]: "tier4_state (st (rec_event oper tag v r vm)) = tier4_state (st vm)"
  "instruction_count (rec_event oper tag v r vm) = instruction_count vm"
  by (simp_all add: rec_event_def upd_st_def log_ext_select [OF log_ext_record_axion_event, of tier4_state])

lemma promote_once_node:
  "promote_once oper required cause vm = Some (b, vm') \<Longrightarrow>
     tier4_state (st vm') = tier4_state (st vm) \<and> instruction_count vm' = instruction_count vm"
  by (auto simp: promote_once_def Let_def upd_ctx_def
      split: bind_splits sum.splits prod.splits)

lemma ensure_min_tier_loop_node:
  "ensure_min_tier_loop n oper required cause vm = Some (b, vm') \<Longrightarrow>
     tier4_state (st vm') = tier4_state (st vm) \<and> instruction_count vm' = instruction_count vm"
  by (induction n arbitrary: vm) (auto split: bind_splits if_splits dest!: promote_once_node)

lemma safe_with_tier [ub_free]:
  assumes "vm_wf k vm"
    "\<And>vm'. vm_wf k vm' \<Longrightarrow> tier4_state (st vm') = tier4_state (st vm) \<Longrightarrow>
       instruction_count vm' = instruction_count vm \<Longrightarrow> safe k (body vm')"
  shows "safe k (with_tier i required cause vm body)"
proof -
  obtain b vm' where e: "ensure_min_tier (opcode i) required cause vm = Some (b, vm')" "vm_wf k vm'"
    using ensure_min_tier_total [OF assms(1)] by blast
  then have "tier4_state (st vm') = tier4_state (st vm) \<and> instruction_count vm' = instruction_count vm"
    using ensure_min_tier_loop_node by (auto simp: ensure_min_tier_def split: if_splits)
  with e assms(2) show ?thesis by (simp add: with_tier_def safe_fault)
qed

lemma safe_exec_gossip:
  assumes "vm_wf k vm" "operand_fits i"
  shows "safe k (exec_gossip i cpc vm)"
  unfolding exec_gossip_def using assms reg_ok_b_idx [of i]
  by (intro ub_free wf_intros; simp)

lemma safe_exec_merge:
  assumes "vm_wf k vm"
  shows "safe k (exec_merge i cpc vm)"
  unfolding exec_merge_def Let_def case_prod_beta using assms good_regs(1) [of i]
  by (intro ub_free wf_intros; simp)

lemma safe_exec_tick_sync:
  assumes "vm_wf k vm"
  shows "safe k (exec_tick_sync i cpc vm)"
  unfolding exec_tick_sync_def Let_def using assms good_regs(1) [of i]
  by (intro ub_free wf_intros; simp)

lemma safe_exec_dist_seal:
  assumes "vm_wf k vm"
  shows "safe k (exec_dist_seal i cpc vm)"
  unfolding exec_dist_seal_def Let_def using assms good_regs(1) [of i]
  by (intro ub_free wf_intros; simp)

text \<open>The drift is computed in \<open>int64_t\<close>.\<close>
definition drift_fits :: "vm \<Rightarrow> bool" where
  "drift_fits vm \<longleftrightarrow> in_i64 (sint (ucast (global_tick (tier4_state (st vm))) :: i64) -
     sint (i64_of_size (instruction_count vm)))"

lemma safe_exec_coherence:
  assumes "vm_wf k vm" "drift_fits vm"
  shows "safe k (exec_coherence i cpc vm)"
  unfolding exec_coherence_def
proof (intro safe_with_tier [OF assms(1)] safe_if safe_fault)
  fix vm'
  assume w: "vm_wf k vm'" and eq: "tier4_state (st vm') = tier4_state (st vm)"
    "instruction_count vm' = instruction_count vm" and a: "\<not> bad_a i"
  have "\<exists>d. sub_int (ucast (global_tick (tier4_state (st vm')))) (i64_of_size (instruction_count vm')) = Some d"
    using assms(2) by (simp only: eq sub_int_def signed_result_def drift_fits_def if_True) blast
  then obtain d where d: "sub_int (ucast (global_tick (tier4_state (st vm'))))
      (i64_of_size (instruction_count vm')) = Some d" by blast
  show "safe k (sub_int (ucast (global_tick (tier4_state (st vm')))) (i64_of_size (instruction_count vm')) \<bind>
      (\<lambda>drift. set_reg (op_a i) drift VT_Int vm' \<bind>
      (\<lambda>vm. continue (rec_event (opcode i) 0 drift (allow ''Coherence check'') (update_flags drift vm)))))"
    unfolding d using w good_regs(1) [OF a] by (intro safe_bind [OF refl] ub_free wf_intros; simp)
qed

end
