(* ===== verification/T81_Collections.thy ===== *)
theory T81_Collections
  imports T81_Prelude
begin

text \<open>
  The loops of the string, string-vector, map and set instructions of \<open>core/vm/vm.cpp\<close>, on plain
  lists.  A map of strings is a string vector that holds its keys and values in turn, a set is a
  vector of its elements.  The interfaces \<open>dictionary\<close> and \<open>element_set\<close> state what a program may rely
  on; they are interpreted on these loops.
\<close>

section \<open>Strings\<close>

text \<open>\<open>StrEndsWith\<close>\<close>
definition ends_with :: "string \<Rightarrow> string \<Rightarrow> bool" where
  "ends_with suffix s \<longleftrightarrow> length suffix \<le> length s \<and> drop (length s - length suffix) s = suffix"

text \<open>The loops of \<open>StrSplit\<close> and \<open>StrReplace\<close>.  Their handlers have returned before for an empty
  separator or needle, with which the loops would not end; the guard is that return.\<close>

function split_from :: "string \<Rightarrow> string \<Rightarrow> nat \<Rightarrow> string list" where
  "split_from s sep start =
     (if sep = [] then []
      else case str_find s sep start of
        None \<Rightarrow> [drop start s]
      | Some p \<Rightarrow> take (p - start) (drop start s) # split_from s sep (p + length sep))"
  by pat_completeness auto

termination
proof (relation "measure (\<lambda>(s, sep, start). length s - start)")
  fix s sep :: string and start p
  assume "sep \<noteq> []" "str_find s sep start = Some p"
  with str_find_Some [of s sep start p]
  show "((s, sep, p + length sep), (s, sep, start)) \<in> measure (\<lambda>(s, sep, start). length s - start)"
    by (cases sep) auto
qed simp

declare split_from.simps [simp del]

function replace_from :: "string \<Rightarrow> string \<Rightarrow> string \<Rightarrow> nat \<Rightarrow> string" where
  "replace_from source needle repl from =
     (if needle = [] then []
      else case str_find source needle from of
        None \<Rightarrow> drop from source
      | Some p \<Rightarrow> take (p - from) (drop from source) @ repl @
                  replace_from source needle repl (p + length needle))"
  by pat_completeness auto

termination
proof (relation "measure (\<lambda>(source, needle, repl, from). length source - from)")
  fix source needle repl :: string and "from" p
  assume "needle \<noteq> []" "str_find source needle from = Some p"
  with str_find_Some [of source needle "from" p]
  show "((source, needle, repl, p + length needle), (source, needle, repl, from)) \<in>
      measure (\<lambda>(source, needle, repl, from). length source - from)"
    by (cases needle) auto
qed simp

declare replace_from.simps [simp del]

text \<open>\<open>StrJoin\<close>\<close>
fun join_with :: "string \<Rightarrow> string list \<Rightarrow> string" where
  "join_with sep [] = []"
| "join_with sep (p # ps) = p @ concat (map (\<lambda>q. sep @ q) ps)"

lemma split_from_not_Nil: "sep \<noteq> [] \<Longrightarrow> split_from s sep start \<noteq> []"
  by (subst split_from.simps) (simp split: option.splits)

lemma concat_join: "ps \<noteq> [] \<Longrightarrow> concat (map ((@) sep) ps) = sep @ join_with sep ps"
  by (cases ps) simp_all

lemma found_parts:
  assumes "str_find s sep start = Some p"
  shows "drop start s = take (p - start) (drop start s) @ sep @ drop (p + length sep) s"
proof -
  note f = str_find_Some [OF assms]
  have "drop start s = take (p - start) (drop start s) @ drop (p - start) (drop start s)"
    by (rule append_take_drop_id [symmetric])
  also have "drop (p - start) (drop start s) = drop p s" using f(1) by simp
  also have "drop p s = take (length sep) (drop p s) @ drop (length sep) (drop p s)"
    by (rule append_take_drop_id [symmetric])
  also have "\<dots> = sep @ drop (p + length sep) s" by (simp add: f(3) add.commute)
  finally show ?thesis .
qed

lemma join_split_from:
  "sep \<noteq> [] \<Longrightarrow> join_with sep (split_from s sep start) = drop start s"
proof (induction s sep start rule: split_from.induct)
  case (1 s sep start)
  show ?case
  proof (cases "str_find s sep start")
    case None
    with 1 show ?thesis by (simp add: split_from.simps)
  next
    case (Some p)
    from 1 Some have "join_with sep (split_from s sep start) =
        take (p - start) (drop start s) @ sep @ drop (p + length sep) s"
      by (subst split_from.simps) (simp add: concat_join split_from_not_Nil)
    with found_parts [OF Some] show ?thesis by simp
  qed
qed

lemma replace_from_split:
  "needle \<noteq> [] \<Longrightarrow> replace_from s needle repl start = join_with repl (split_from s needle start)"
proof (induction s needle start rule: split_from.induct)
  case (1 s needle start)
  then show ?case
    by (subst replace_from.simps, subst split_from.simps)
      (auto simp: concat_join split_from_not_Nil split: option.splits)
qed

text \<open>No part of a split contains the separator.\<close>

lemma contains_occurrence:
  "str_contains s needle \<Longrightarrow> \<exists>q. q + length needle \<le> length s \<and> starts_with needle (drop q s)"
  unfolding str_contains_def using str_find_Some [of s needle 0]
  by (auto simp: starts_with_def)

lemma split_from_parts:
  "sep \<noteq> [] \<Longrightarrow> start \<le> length s \<Longrightarrow> part \<in> set (split_from s sep start) \<Longrightarrow> \<not> str_contains part sep"
proof (induction s sep start rule: split_from.induct)
  case (1 s sep start)
  show ?case
  proof (cases "str_find s sep start")
    case None
    with 1 have part: "part = drop start s" by (simp add: split_from.simps)
    show ?thesis
    proof
      assume "str_contains part sep"
      then obtain q where q: "q + length sep \<le> length part" "starts_with sep (drop q part)"
        using contains_occurrence by blast
      with part 1(3) have "starts_with sep (drop (start + q) s)" "start + q \<le> length s"
        by (auto simp: add.commute)
      with str_find_None [OF None, of "start + q"] show False by simp
    qed
  next
    case (Some p)
    note f = str_find_Some [OF Some]
    from 1 Some have cases: "part = take (p - start) (drop start s) \<or> part \<in> set (split_from s sep (p + length sep))"
      by (subst (asm) split_from.simps) simp
    show ?thesis
    proof (cases "part = take (p - start) (drop start s)")
      case True
      show ?thesis
      proof
        assume "str_contains part sep"
        then obtain q where q: "q + length sep \<le> length part" "starts_with sep (drop q part)"
          using contains_occurrence by blast
        have len: "length part = p - start" using True f 1(3) by simp
        from q have "take (length sep) (drop q part) = sep" by (simp add: starts_with_def)
        also have "take (length sep) (drop q part) = take (length sep) (drop (start + q) s)"
          using q(1) len by (simp add: True drop_take min_def add.commute)
        finally have "starts_with sep (drop (start + q) s)"
          using q(1) len f by (auto simp: starts_with_def)
        moreover have "start + q < p" using q(1) len 1(2) by (cases sep) auto
        ultimately show False using str_find_first [OF Some, of "start + q"] by simp
      qed
    next
      case False
      with cases have "part \<in> set (split_from s sep (p + length sep))" by simp
      with 1(1) [OF 1(2) Some 1(2)] f(2) show ?thesis by simp
    qed
  qed
qed

section \<open>Maps\<close>

text \<open>The loops over \<open>i + 1 < vec->size()\<close> in steps of two ignore an unpaired last element.\<close>

fun kv_put :: "'a \<Rightarrow> 'a \<Rightarrow> 'a list \<Rightarrow> 'a list" where
  "kv_put k v (x # y # r) = (if x = k then x # v # r else x # y # kv_put k v r)"
| "kv_put k v r = r @ [k, v]"

fun kv_get :: "'a \<Rightarrow> 'a list \<Rightarrow> 'a option" where
  "kv_get k (x # y # r) = (if x = k then Some y else kv_get k r)"
| "kv_get k r = None"

fun kv_remove :: "'a \<Rightarrow> 'a list \<Rightarrow> 'a list" where
  "kv_remove k (x # y # r) = (if x = k then r else x # y # kv_remove k r)"
| "kv_remove k r = r"

fun kv_keys :: "'a list \<Rightarrow> 'a list" where
  "kv_keys (x # y # r) = x # kv_keys r"
| "kv_keys r = []"

definition kv_has :: "'a \<Rightarrow> 'a list \<Rightarrow> bool" where
  "kv_has k vec \<longleftrightarrow> kv_get k vec \<noteq> None"

definition kv_size :: "'a list \<Rightarrow> nat" where
  "kv_size vec = length vec div 2"

text \<open>What the map instructions build: complete pairs with distinct keys.\<close>
definition kv_ok :: "'a list \<Rightarrow> bool" where
  "kv_ok vec \<longleftrightarrow> even (length vec) \<and> distinct (kv_keys vec)"

locale dictionary =
  fixes ok :: "'d \<Rightarrow> bool" and new :: 'd
    and put :: "'k \<Rightarrow> 'v \<Rightarrow> 'd \<Rightarrow> 'd" and get :: "'k \<Rightarrow> 'd \<Rightarrow> 'v option"
    and remove :: "'k \<Rightarrow> 'd \<Rightarrow> 'd" and keys :: "'d \<Rightarrow> 'k list" and size_of :: "'d \<Rightarrow> nat"
  assumes ok_new: "ok new"
    and ok_put: "ok d \<Longrightarrow> ok (put k v d)"
    and ok_remove: "ok d \<Longrightarrow> ok (remove k d)"
    and get_new: "get k new = None"
    and get_put: "ok d \<Longrightarrow> get k' (put k v d) = (if k' = k then Some v else get k' d)"
    and get_remove: "ok d \<Longrightarrow> get k' (remove k d) = (if k' = k then None else get k' d)"
    and keys_get: "k \<in> set (keys d) \<longleftrightarrow> get k d \<noteq> None"
    and keys_distinct: "ok d \<Longrightarrow> distinct (keys d)"
    and size_keys: "ok d \<Longrightarrow> size_of d = length (keys d)"
begin

lemma set_keys: "set (keys d) = {k. get k d \<noteq> None}"
  using keys_get by blast

lemma size_card: "ok d \<Longrightarrow> size_of d = card {k. get k d \<noteq> None}"
  using distinct_card [OF keys_distinct, of d] by (simp only: size_keys set_keys)

lemma finite_keys: "finite {k. get k d \<noteq> None}"
  unfolding set_keys [symmetric] by (rule finite_set)

lemma size_put:
  assumes "ok d"
  shows "size_of (put k v d) = (if get k d = None then Suc (size_of d) else size_of d)"
proof -
  have "{k'. get k' (put k v d) \<noteq> None} = insert k {k'. get k' d \<noteq> None}" using assms by (auto simp: get_put)
  then show ?thesis
    using assms finite_keys [of d] by (simp add: size_card ok_put card_insert_if)
qed

lemma size_remove:
  assumes "ok d"
  shows "size_of (remove k d) = (if get k d = None then size_of d else size_of d - 1)"
proof -
  have "{k'. get k' (remove k d) \<noteq> None} = {k'. get k' d \<noteq> None} - {k}"
    using assms by (auto simp: get_remove)
  then show ?thesis
    using assms finite_keys [of d] by (simp add: size_card ok_remove card_Diff_singleton_if)
qed

lemma puts_ok: "ok d \<Longrightarrow> ok (fold (\<lambda>(x, y). put x y) xs d)"
  by (induction xs arbitrary: d) (auto simp: ok_put)

lemma puts_get:
  "ok d \<Longrightarrow> get k (fold (\<lambda>(x, y). put x y) xs d) =
     (case map_of (rev xs) k of None \<Rightarrow> get k d | Some v \<Rightarrow> Some v)"
  by (induction xs rule: rev_induct) (auto simp: get_put puts_ok split: option.splits)

end

lemma set_kv_keys: "k \<in> set (kv_keys vec) \<longleftrightarrow> kv_get k vec \<noteq> None"
  by (induction vec rule: kv_keys.induct) auto

lemma kv_keys_put: "even (length vec) \<Longrightarrow>
    kv_keys (kv_put k v vec) = (if k \<in> set (kv_keys vec) then kv_keys vec else kv_keys vec @ [k])"
  by (induction k v vec rule: kv_put.induct) auto

lemma kv_keys_remove: "kv_keys (kv_remove k vec) = remove1 k (kv_keys vec)"
  by (induction k vec rule: kv_remove.induct) auto

lemma length_kv_put:
  "length (kv_put k v vec) = (if k \<in> set (kv_keys vec) then length vec else length vec + 2)"
  by (induction k v vec rule: kv_put.induct) auto

lemma even_kv_remove: "even (length (kv_remove k vec)) \<longleftrightarrow> even (length vec)"
  by (induction k vec rule: kv_remove.induct) auto

lemma length_kv_keys: "length (kv_keys vec) = length vec div 2"
  by (induction vec rule: kv_keys.induct) auto

lemma kv_ok_put: "kv_ok vec \<Longrightarrow> kv_ok (kv_put k v vec)"
  by (auto simp: kv_ok_def kv_keys_put length_kv_put)

lemma kv_ok_remove: "kv_ok vec \<Longrightarrow> kv_ok (kv_remove k vec)"
  by (simp add: kv_ok_def kv_keys_remove distinct_remove1 even_kv_remove)

lemma kv_get_put: "even (length vec) \<Longrightarrow>
    kv_get k' (kv_put k v vec) = (if k' = k then Some v else kv_get k' vec)"
  by (induction k v vec rule: kv_put.induct) auto

lemma kv_get_remove: "distinct (kv_keys vec) \<Longrightarrow>
    kv_get k' (kv_remove k vec) = (if k' = k then None else kv_get k' vec)"
  by (induction k vec rule: kv_remove.induct) (auto simp: set_kv_keys)

interpretation kv: dictionary kv_ok "[]" kv_put kv_get kv_remove kv_keys kv_size
  by unfold_locales
    (simp_all add: kv_ok_put kv_ok_remove kv_get_put kv_get_remove set_kv_keys kv_size_def length_kv_keys,
     simp_all add: kv_ok_def kv_get_put kv_get_remove)

section \<open>Sets\<close>

definition set_add :: "'a \<Rightarrow> 'a list \<Rightarrow> 'a list" where
  "set_add k vec = (if k \<in> set vec then vec else vec @ [k])"

text \<open>\<open>SetRemove\<close> erases the first occurrence.\<close>
definition set_remove :: "'a \<Rightarrow> 'a list \<Rightarrow> 'a list" where
  "set_remove k vec = remove1 k vec"

locale element_set =
  fixes ok :: "'d \<Rightarrow> bool" and new :: 'd
    and add :: "'k \<Rightarrow> 'd \<Rightarrow> 'd" and remove :: "'k \<Rightarrow> 'd \<Rightarrow> 'd"
    and elements :: "'d \<Rightarrow> 'k set" and size_of :: "'d \<Rightarrow> nat"
  assumes ok_new: "ok new" and ok_add: "ok d \<Longrightarrow> ok (add k d)" and ok_remove: "ok d \<Longrightarrow> ok (remove k d)"
    and elements_new: "elements new = {}"
    and elements_add: "elements (add k d) = insert k (elements d)"
    and elements_remove: "ok d \<Longrightarrow> elements (remove k d) = elements d - {k}"
    and size_card: "ok d \<Longrightarrow> size_of d = card (elements d)"
    and finite_elements: "finite (elements d)"
begin

lemma adds: "elements (fold add xs d) = set xs \<union> elements d"
  by (induction xs arbitrary: d) (auto simp: elements_add)

lemma adds_ok: "ok d \<Longrightarrow> ok (fold add xs d)"
  by (induction xs arbitrary: d) (auto simp: ok_add)

lemma size_adds: "size_of (fold add xs new) = card (set xs)"
  by (simp add: size_card adds_ok ok_new adds elements_new)

end

interpretation str_set: element_set distinct "[]" set_add set_remove set length
  by unfold_locales (auto simp: set_add_def set_remove_def distinct_card)

end
