(* ===== verification/T81_Floats.thy ===== *)
theory T81_Floats
  imports T81_Isa
begin

text \<open>
  The conversions between \<open>std::int64_t\<close> and the IEEE-754 formats that the instructions use
  (\<open>static_cast<double>\<close>, \<open>static_cast<float>\<close> and back), on bit patterns: to a format with \<open>p\<close> significant
  bits the integer is rounded to nearest, ties to even; back, the value is truncated, and an
  infinity, a NaN or a value out of range is undefined behaviour.
\<close>

fun bit_len :: "nat \<Rightarrow> nat" where
  "bit_len m = (if m = 0 then 0 else Suc (bit_len (m div 2)))"

declare bit_len.simps [simp del]

text \<open>The \<open>p\<close> leading bits of an integer, rounded.\<close>
definition round_even :: "nat \<Rightarrow> nat \<Rightarrow> nat" where
  "round_even p m =
     (let e = bit_len m - p; q = m div 2 ^ e; r = m mod 2 ^ e
      in if 2 * r > 2 ^ e \<or> 2 * r = 2 ^ e \<and> odd q then q + 1 else q)"

text \<open>The pattern of a positive integer; a carry out of the fraction raises the exponent field.\<close>
definition float_bits :: "nat \<Rightarrow> nat \<Rightarrow> nat \<Rightarrow> nat" where
  "float_bits p bias m =
     (if m = 0 then 0
      else (bias + bit_len m - 1) * 2 ^ (p - 1) + (round_even p m * 2 ^ (p - bit_len m) - 2 ^ (p - 1)))"

text \<open>The magnitude of a pattern without its sign, truncated; \<open>None\<close> for an infinity or a NaN.\<close>
definition float_trunc :: "nat \<Rightarrow> nat \<Rightarrow> nat \<Rightarrow> nat option" where
  "float_trunc p bias bits =
     (let frac = bits mod 2 ^ (p - 1); ex = bits div 2 ^ (p - 1) in
      if ex = 2 * bias + 1 then None
      else let m = (if ex = 0 then frac else frac + 2 ^ (p - 1)); k = max ex 1; z = bias + (p - 1)
           in Some (if z \<le> k then m * 2 ^ (k - z) else m div 2 ^ (z - k)))"

definition f64_of_i64 :: "i64 \<Rightarrow> f64" where
  "f64_of_i64 x = word_of_nat ((if sint x < 0 then 2 ^ 63 else 0) + float_bits 53 1023 (nat \<bar>sint x\<bar>))"

definition f32_of_i64 :: "i64 \<Rightarrow> u32" where
  "f32_of_i64 x = word_of_nat ((if sint x < 0 then 2 ^ 31 else 0) + float_bits 24 127 (nat \<bar>sint x\<bar>))"

definition i64_of_f64 :: "f64 \<Rightarrow> i64 option" where
  "i64_of_f64 w = (case float_trunc 53 1023 (unat w mod 2 ^ 63) of None \<Rightarrow> None
     | Some m \<Rightarrow> signed_result (if unat w < 2 ^ 63 then int m else - int m))"

definition i64_of_f32 :: "u32 \<Rightarrow> i64 option" where
  "i64_of_f32 w = (case float_trunc 24 127 (unat w mod 2 ^ 31) of None \<Rightarrow> None
     | Some m \<Rightarrow> signed_result (if unat w < 2 ^ 31 then int m else - int m))"

section \<open>Integers of at most \<open>p\<close> bits are exact\<close>

lemma bit_len_0 [simp]: "bit_len 0 = 0"
  by (simp add: bit_len.simps)

lemma bit_len_range: "0 < m \<Longrightarrow> 0 < bit_len m \<and> 2 ^ (bit_len m - 1) \<le> m \<and> m < 2 ^ bit_len m"
proof (induction m rule: bit_len.induct)
  case (1 m)
  then have L: "bit_len m = Suc (bit_len (m div 2))" by (subst bit_len.simps) simp
  show ?case
  proof (cases "m div 2 = 0")
    case True
    with 1(2) have "m = 1" by simp
    with L show ?thesis by simp
  next
    case False
    with 1 have IH: "0 < bit_len (m div 2)" "2 ^ (bit_len (m div 2) - 1) \<le> m div 2"
      "m div 2 < 2 ^ bit_len (m div 2)" by simp_all
    then have "2 * 2 ^ (bit_len (m div 2) - 1) \<le> m" by linarith
    moreover have "(2 :: nat) * 2 ^ (bit_len (m div 2) - 1) = 2 ^ bit_len (m div 2)"
      using IH(1) by (cases "bit_len (m div 2)") simp_all
    moreover have "m < 2 * 2 ^ bit_len (m div 2)" using IH(3) by linarith
    ultimately show ?thesis using L by simp
  qed
qed

lemma bit_len_le: "m < 2 ^ p \<Longrightarrow> bit_len m \<le> p"
proof (cases "m = 0")
  case False
  assume "m < 2 ^ p"
  with bit_len_range [of m] False have "(2 :: nat) ^ (bit_len m - 1) < 2 ^ p" by linarith
  then have "bit_len m - 1 < p" by (simp only: power_strict_increasing_iff)
  then show ?thesis by linarith
qed simp

lemma round_even_exact: "m < 2 ^ p \<Longrightarrow> round_even p m = m"
  by (simp add: round_even_def bit_len_le)

text \<open>The significand of an exact integer, and the field it leaves.\<close>

lemma scaled_range:
  assumes "0 < m" "m < 2 ^ p"
  shows "2 ^ (p - 1) \<le> m * 2 ^ (p - bit_len m)" "m * 2 ^ (p - bit_len m) < 2 ^ p"
proof -
  note L = bit_len_range [OF assms(1)] bit_len_le [OF assms(2)]
  have "2 ^ (p - 1) = 2 ^ (bit_len m - 1) * (2 :: nat) ^ (p - bit_len m)"
    using L by (simp add: power_add [symmetric])
  also have "\<dots> \<le> m * 2 ^ (p - bit_len m)" using L(1) by (intro mult_le_mono1) simp
  finally show "2 ^ (p - 1) \<le> m * 2 ^ (p - bit_len m)" .
  have "m * 2 ^ (p - bit_len m) < 2 ^ bit_len m * 2 ^ (p - bit_len m)"
    using L(1) by (intro mult_less_mono1) simp_all
  also have "\<dots> = 2 ^ p" using L by (simp add: power_add [symmetric])
  finally show "m * 2 ^ (p - bit_len m) < 2 ^ p" .
qed

lemma float_bits_fields:
  assumes "0 < m" "m < 2 ^ p" "0 < p" "0 < bias"
  shows "float_bits p bias m div 2 ^ (p - 1) = bias + bit_len m - 1"
    "float_bits p bias m mod 2 ^ (p - 1) + 2 ^ (p - 1) = m * 2 ^ (p - bit_len m)"
    "float_bits p bias m < (bias + p) * 2 ^ (p - 1)"
proof -
  define f where "f = m * 2 ^ (p - bit_len m) - 2 ^ (p - 1)"
  have p2: "(2 :: nat) ^ p = 2 * 2 ^ (p - 1)" using assms(3) by (cases p) simp_all
  from scaled_range [OF assms(1,2)] p2 have f: "f < 2 ^ (p - 1)" "f + 2 ^ (p - 1) = m * 2 ^ (p - bit_len m)"
    by (auto simp: f_def)
  have fb: "float_bits p bias m = (bias + bit_len m - 1) * 2 ^ (p - 1) + f"
    using assms(1,2) by (simp add: float_bits_def round_even_exact f_def)
  show d: "float_bits p bias m div 2 ^ (p - 1) = bias + bit_len m - 1" using f(1) by (simp add: fb)
  show "float_bits p bias m mod 2 ^ (p - 1) + 2 ^ (p - 1) = m * 2 ^ (p - bit_len m)"
    using f by (simp add: fb)
  have "bias + bit_len m - 1 < bias + p" using bit_len_le [OF assms(2)] assms(3) by linarith
  with d show "float_bits p bias m < (bias + p) * 2 ^ (p - 1)"
    by (simp add: div_less_iff_less_mult [symmetric])
qed

lemma float_trunc_fields:
  assumes "bits div 2 ^ (p - 1) = ex" "bits mod 2 ^ (p - 1) + 2 ^ (p - 1) = n"
    "ex \<noteq> 2 * bias + 1" "1 \<le> ex"
  shows "float_trunc p bias bits = Some (if bias + (p - 1) \<le> ex then n * 2 ^ (ex - (bias + (p - 1)))
     else n div 2 ^ (bias + (p - 1) - ex))"
  using assms(3,4) unfolding float_trunc_def Let_def assms(1,2) by (simp add: max_def)

lemma float_trunc_bits:
  assumes "m < 2 ^ p" "0 < p" "p \<le> bias"
  shows "float_trunc p bias (float_bits p bias m) = Some m"
proof (cases "m = 0")
  case True
  with assms show ?thesis by (simp add: float_trunc_def float_bits_def Let_def)
next
  case False
  then have m: "0 < m" by simp
  have b: "0 < bias" using assms by simp
  note L = bit_len_range [OF m] bit_len_le [OF assms(1)]
  note F = float_bits_fields [OF m assms(1,2) b]
  have k: "bias + (p - 1) - (bias + bit_len m - 1) = p - bit_len m"
    "bias + bit_len m - 1 \<noteq> 2 * bias + 1" "1 \<le> bias + bit_len m - 1"
    "bias + (p - 1) \<le> bias + bit_len m - 1 \<Longrightarrow> p = bit_len m"
    using L b assms(3) by auto
  show ?thesis unfolding float_trunc_fields [OF F(1,2) k(2,3)] k(1) using k(4) by auto
qed

end
