(* ===== verification/T81_Exec_Data.thy ===== *)
theory T81_Exec_Data
  imports T81_Exec_Core T81_Collections T81_Floats
begin

text \<open>
  Instruction handlers of \<open>core/vm/vm.cpp\<close> on the value tables: printing, strings, string vectors, maps
  and sets, options, results, enums, complex numbers, fractions and conversions, and the tensor
  instructions that only move elements.  The state has no weights model, so that no register holds a
  usable weights handle.  Each handler comes with the proof that it keeps the invariant; what may
  raise an exception in the C++ program is \<open>None\<close> and is excluded by \<open>data_ok\<close>.
\<close>

section \<open>Results\<close>

text \<open>\<open>ctx.registers[insn.a] = v; ctx.register_tags[insn.a] = tag; update_flags(ctx.registers[insn.a])\<close>,
  and the same through \<open>set_reg\<close>.\<close>

definition deliver :: "insn \<Rightarrow> i64 \<Rightarrow> value_tag \<Rightarrow> vm \<Rightarrow> vm option" where
  "deliver i v tag vm = do { vm \<leftarrow> put_reg (ia i) v tag vm; update_flags_of (ia i) vm }"

definition deliver_set :: "insn \<Rightarrow> i64 \<Rightarrow> value_tag \<Rightarrow> vm \<Rightarrow> vm option" where
  "deliver_set i v tag vm = do { vm \<leftarrow> set_reg (op_a i) v tag vm; update_flags_of (ia i) vm }"

definition reg_text :: "nat \<Rightarrow> vm \<Rightarrow> string option option" where
  "reg_text n vm = do {
     t \<leftarrow> get_tag n vm;
     v \<leftarrow> get_val n vm;
     Some (symbol_like_text (st vm) t v)
   }"

definition intern_text :: "string \<Rightarrow> vm \<Rightarrow> i64 \<times> vm" where
  "intern_text text vm = (let (h, tbl) = intern_symbol (symbols (st vm)) text
     in (h, upd_st (\<lambda>s. s\<lparr>symbols := tbl\<rparr>) vm))"

definition alloc_vector :: "string list \<Rightarrow> vm \<Rightarrow> i64 \<times> vm" where
  "alloc_vector xs vm = (i64_of_size (length (string_vectors (st vm)) + 1),
     upd_st (\<lambda>s. s\<lparr>string_vectors := string_vectors s @ [xs]\<rparr>) vm)"

text \<open>An assignment through \<open>string_vector_mut\<close>.\<close>
definition set_vector :: "i64 \<Rightarrow> string list \<Rightarrow> vm \<Rightarrow> vm" where
  "set_vector h xs = upd_st (\<lambda>s. s\<lparr>string_vectors := (string_vectors s)[size_of_i64 (h - 1) := xs]\<rparr>)"

definition alloc_float :: "opcode \<Rightarrow> f64 \<Rightarrow> vm \<Rightarrow> i64 \<times> vm" where
  "alloc_float oper x vm =
     (let n = length (floats (st vm)) + 1
      in (i64_of_size n, log_access oper Seg_Heap n 1 ''heap block allocated''
            (upd_st (\<lambda>s. s\<lparr>floats := floats s @ [x]\<rparr>) vm)))"

definition alloc_fraction :: "opcode \<Rightarrow> fraction \<Rightarrow> vm \<Rightarrow> i64 \<times> vm" where
  "alloc_fraction oper x vm =
     (let n = length (fractions (st vm)) + 1
      in (i64_of_size n, log_access oper Seg_Heap n 1 ''heap block allocated''
            (upd_st (\<lambda>s. s\<lparr>fractions := fractions s @ [x]\<rparr>) vm)))"

definition tensor_at :: "state \<Rightarrow> i64 \<Rightarrow> tensor option" where
  "tensor_at s h = (case handle_get (tensors s) h of Some (Some t) \<Rightarrow> Some t | _ \<Rightarrow> None)"

definition alloc_tensor :: "opcode \<Rightarrow> tensor \<Rightarrow> vm \<Rightarrow> ((trap + i64) \<times> vm) option" where
  "alloc_tensor oper t vm =
     (let n = length (tdata t) in
      case evaluate_tensor_alloc_policy (st vm) n of
        MaxTensorsExceeded \<Rightarrow>
          Some (Inl SecurityFault, rec_event oper 0 0 (deny ''Policy: max-tensors limit exceeded'') vm)
      | MaxTensorElementsExceeded \<Rightarrow>
          Some (Inl SecurityFault, rec_event oper 0 0 (deny ''Policy: max-tensor-elements limit exceeded'') vm)
      | AllowTensor \<Rightarrow> do {
          (h, s) \<leftarrow> store_tensor_slot t (account_tensor_allocation n (st vm));
          let vm = upd_telemetry (\<lambda>y. y\<lparr>
             max_shape_complexity := max (max_shape_complexity y) (tensor_shape_complexity t),
             max_tensor_rank := max (max_tensor_rank y) (size_of_i32 (tensor_rank t))\<rparr>) (vm\<lparr>st := s\<rparr>);
          Some (Inr (i64_of_size h), log_access oper Seg_Tensor h 1 ''tensor slot allocated'' vm)
        })"

text \<open>Without a weights model no weights handle resolves.\<close>
definition promote_to_tensor :: "nat \<Rightarrow> vm \<Rightarrow> trap option option" where
  "promote_to_tensor n vm = do {
     t \<leftarrow> get_tag n vm;
     Some (if t = VT_WeightsTensorHandle then Some DecodeFault else None)
   }"

section \<open>Printing and strings\<close>

definition exec_print :: handler where
  "exec_print i cpc vm =
     (if bad_a i then fault DecodeFault vm
      else do {
        t \<leftarrow> get_tag (ia i) vm;
        v \<leftarrow> get_val (ia i) vm;
        (case format_value 9 (st vm) t v of
           None \<Rightarrow> fault TypeFault vm
         | Some text \<Rightarrow> continue (upd_st (\<lambda>s. s\<lparr>printed_output := printed_output s @ [text]\<rparr>) vm))
      })"

text \<open>The instructions with one or two string operands and a result.\<close>

definition str_unary :: "(string \<Rightarrow> i64 \<times> value_tag) \<Rightarrow> handler" where
  "str_unary f i cpc vm =
     (if bad_ab i then fault DecodeFault vm
      else do {
        text \<leftarrow> reg_text (ib i) vm;
        (case text of
           None \<Rightarrow> fault DecodeFault vm
         | Some x \<Rightarrow> deliver i (fst (f x)) (snd (f x)) vm \<bind> continue)
      })"

definition str_binary :: "(string \<Rightarrow> string \<Rightarrow> vm \<Rightarrow> outcome) \<Rightarrow> handler" where
  "str_binary f i cpc vm =
     (if bad_abc i then fault DecodeFault vm
      else do {
        lhs \<leftarrow> reg_text (ib i) vm;
        rhs \<leftarrow> reg_text (ic i) vm;
        (case (lhs, rhs) of
           (Some x, Some y) \<Rightarrow> f x y vm
         | _ \<Rightarrow> fault DecodeFault vm)
      })"

definition exec_str_len :: handler where
  "exec_str_len = str_unary (\<lambda>x. (i64_of_size (length x), VT_Int))"

definition exec_str_empty :: handler where
  "exec_str_empty = str_unary (\<lambda>x. (bool_word (x = []), VT_Bool))"

definition exec_str_concat :: handler where
  "exec_str_concat i = str_binary (\<lambda>x y vm.
     let (h, vm) = intern_text (x @ y) vm in deliver i h VT_SymbolHandle vm \<bind> continue) i"

definition exec_str_starts_with :: handler where
  "exec_str_starts_with i = str_binary (\<lambda>x y vm.
     deliver i (bool_word (starts_with y x)) VT_Bool vm \<bind> continue) i"

definition exec_str_ends_with :: handler where
  "exec_str_ends_with i = str_binary (\<lambda>x y vm.
     deliver i (bool_word (ends_with y x)) VT_Bool vm \<bind> continue) i"

definition exec_str_contains :: handler where
  "exec_str_contains i = str_binary (\<lambda>x y vm.
     deliver i (bool_word (str_contains x y)) VT_Bool vm \<bind> continue) i"

definition exec_str_index_of :: handler where
  "exec_str_index_of i = str_binary (\<lambda>x y vm.
     deliver i (case str_find x y 0 of None \<Rightarrow> -1 | Some p \<Rightarrow> i64_of_size p) VT_Int vm \<bind> continue) i"

text \<open>With an empty needle only the tag of the target changes.\<close>
definition exec_str_replace :: handler where
  "exec_str_replace i cpc vm =
     (if bad_abc i then fault DecodeFault vm
      else do {
        source \<leftarrow> reg_text (ia i) vm;
        needle \<leftarrow> reg_text (ib i) vm;
        replacement \<leftarrow> reg_text (ic i) vm;
        (case (source, needle, replacement) of
           (Some s, Some n, Some r) \<Rightarrow>
             if n = [] then do {
               v \<leftarrow> get_val (ia i) vm;
               deliver i v VT_SymbolHandle vm \<bind> continue
             }
             else let (h, vm) = intern_text (replace_from s n r 0) vm
                  in deliver i h VT_SymbolHandle vm \<bind> continue
         | _ \<Rightarrow> fault DecodeFault vm)
      })"

definition split_reason :: "string \<Rightarrow> string \<Rightarrow> string list \<Rightarrow> string" where
  "split_reason x sep parts = ''string split input_len='' @ show_nat (length x) @ '' sep_len='' @
     show_nat (length sep) @ '' parts='' @ show_nat (length parts)"

definition exec_str_split :: handler where
  "exec_str_split i = str_binary (\<lambda>x sep vm.
     if sep = [] then fault TypeFault vm
     else let parts = split_from x sep 0; (h, vm) = alloc_vector parts vm in do {
       vm \<leftarrow> put_reg (ia i) h VT_StringVectorHandle vm;
       let vm = rec_event (opcode i) (i32_of_size (length (string_vectors (st vm))))
                  (i64_of_size (length parts)) (allow (split_reason x sep parts)) vm;
       update_flags_of (ia i) vm \<bind> continue
     }) i"

definition join_reason :: "string \<Rightarrow> string list \<Rightarrow> string" where
  "join_reason sep parts = ''string join parts='' @ show_nat (length parts) @ '' sep_len='' @
     show_nat (length sep)"

definition exec_str_join :: handler where
  "exec_str_join i cpc vm =
     (if bad_abc i then fault DecodeFault vm
      else do {
        t \<leftarrow> get_tag (ib i) vm;
        h \<leftarrow> get_val (ib i) vm;
        sep \<leftarrow> reg_text (ic i) vm;
        if t \<noteq> VT_StringVectorHandle then fault TypeFault vm
        else case (handle_get (string_vectors (st vm)) h, sep) of
          (Some parts, Some sepr) \<Rightarrow>
            let (h, vm) = intern_text (join_with sepr parts) vm in do {
              vm \<leftarrow> put_reg (ia i) h VT_SymbolHandle vm;
              v \<leftarrow> get_val (ia i) vm;
              let vm = rec_event (opcode i) (i32_of_size (length parts)) v (allow (join_reason sepr parts)) vm;
              update_flags_of (ia i) vm \<bind> continue
            }
        | _ \<Rightarrow> fault DecodeFault vm
      })"

section \<open>Vectors\<close>

text \<open>The common frame of the vector instructions: a string vector or a tensor in register \<open>b\<close>.\<close>

definition with_vector ::
    "insn \<Rightarrow> (string list \<Rightarrow> vm \<Rightarrow> outcome) \<Rightarrow> (tensor \<Rightarrow> vm \<Rightarrow> outcome) \<Rightarrow> vm \<Rightarrow> outcome" where
  "with_vector i on_strings on_tensor vm =
     (if bad_ab i then fault DecodeFault vm
      else do {
        t \<leftarrow> get_tag (ib i) vm;
        h \<leftarrow> get_val (ib i) vm;
        (if t = VT_StringVectorHandle then
           (case handle_get (string_vectors (st vm)) h of
              None \<Rightarrow> fault DecodeFault vm | Some xs \<Rightarrow> on_strings xs vm)
         else if t = VT_TensorHandle then
           (case tensor_at (st vm) h of
              None \<Rightarrow> fault DecodeFault vm | Some x \<Rightarrow> on_tensor x vm)
         else fault TypeFault vm)
      })"

definition is_vector :: "tensor \<Rightarrow> bool" where
  "is_vector t \<longleftrightarrow> tensor_rank t = 1 \<and> tshape t \<noteq> []"

definition exec_vec_len :: handler where
  "exec_vec_len i cpc = with_vector i
     (\<lambda>xs vm. deliver i (i64_of_size (length xs)) VT_Int vm \<bind> continue)
     (\<lambda>t vm. if \<not> is_vector t then fault TypeFault vm
             else deliver i (i64_of_i32 (hd (tshape t))) VT_Int vm \<bind> continue)"

definition exec_vec_empty :: handler where
  "exec_vec_empty i cpc = with_vector i
     (\<lambda>xs vm. deliver i (bool_word (xs = [])) VT_Bool vm \<bind> continue)
     (\<lambda>t vm. if \<not> is_vector t then fault TypeFault vm
             else deliver i (bool_word (hd (tshape t) = 0)) VT_Bool vm \<bind> continue)"

text \<open>\<open>VecFirst\<close> and \<open>VecLast\<close> differ in the element they pick.\<close>

definition vec_element :: "(string list \<Rightarrow> string) \<Rightarrow> (u32 list \<Rightarrow> u32) \<Rightarrow> handler" where
  "vec_element pick pick_f i cpc = with_vector i
     (\<lambda>xs vm. if xs = [] then fault TypeFault vm
        else let (h, vm) = intern_text (pick xs) vm in deliver i h VT_SymbolHandle vm \<bind> continue)
     (\<lambda>t vm. if \<not> is_vector t \<or> sint (hd (tshape t)) \<le> 0 \<or> tdata t = [] then fault TypeFault vm
        else do {
          v \<leftarrow> i64_of_f32 (pick_f (tdata t));
          deliver i v VT_Int vm \<bind> continue
        })"

definition exec_vec_first :: handler where "exec_vec_first = vec_element hd hd"
definition exec_vec_last :: handler where "exec_vec_last = vec_element last last"

text \<open>The tensor branches build a new tensor; its constructor may throw.\<close>

definition deliver_tensor :: "insn \<Rightarrow> tensor option \<Rightarrow> vm \<Rightarrow> outcome" where
  "deliver_tensor i made vm = do {
     t \<leftarrow> made;
     (res, vm) \<leftarrow> alloc_tensor (opcode i) t vm;
     (case res of
        Inl tr \<Rightarrow> fault tr vm
      | Inr h \<Rightarrow> deliver i h VT_TensorHandle vm \<bind> continue)
   }"

definition i32_add :: "i32 \<Rightarrow> int \<Rightarrow> i32 option" where
  "i32_add x d = (if - (2 ^ 31) \<le> sint x + d \<and> sint x + d < 2 ^ 31 then Some (word_of_int (sint x + d)) else None)"

definition exec_vec_push :: handler where
  "exec_vec_push i cpc vm =
     (if bad_abc i then fault DecodeFault vm
      else do {
        t \<leftarrow> get_tag (ib i) vm;
        h \<leftarrow> get_val (ib i) vm;
        ct \<leftarrow> get_tag (ic i) vm;
        cv \<leftarrow> get_val (ic i) vm;
        (if t = VT_StringVectorHandle then
           if ct \<noteq> VT_SymbolHandle then fault TypeFault vm
           else (case (handle_get (string_vectors (st vm)) h, handle_get (symbols (st vm)) cv) of
             (Some xs, Some x) \<Rightarrow>
               let (h', vm) = alloc_vector (xs @ [x]) vm
               in deliver i h' VT_StringVectorHandle vm \<bind> continue
           | _ \<Rightarrow> fault DecodeFault vm)
         else if t = VT_TensorHandle then
           if ct \<noteq> VT_Int then fault TypeFault vm
           else (case tensor_at (st vm) h of
             None \<Rightarrow> fault DecodeFault vm
           | Some x \<Rightarrow>
               if \<not> is_vector x \<or> sint (hd (tshape x)) < 0 then fault TypeFault vm
               else do {
                 n \<leftarrow> i32_add (hd (tshape x)) 1;
                 deliver_tensor i (make_tensor [n] (tdata x @ [f32_of_i64 cv])) vm
               })
         else fault TypeFault vm)
      })"

definition exec_vec_pop :: handler where
  "exec_vec_pop i cpc = with_vector i
     (\<lambda>xs vm. if xs = [] then fault TypeFault vm
        else let (h, vm) = alloc_vector (butlast xs) vm
             in deliver i h VT_StringVectorHandle vm \<bind> continue)
     (\<lambda>t vm. if \<not> is_vector t \<or> sint (hd (tshape t)) \<le> 0 \<or> tdata t = [] then fault TypeFault vm
        else do {
          n \<leftarrow> i32_add (hd (tshape t)) (- 1);
          deliver_tensor i (make_tensor [n] (butlast (tdata t))) vm
        })"

text \<open>\<open>StrVecNew\<close>, \<open>MapNew\<close> and \<open>SetNew\<close> share their code.\<close>
definition exec_new_vector :: handler where
  "exec_new_vector i cpc vm =
     (if bad_a i then fault DecodeFault vm
      else let (h, vm) = alloc_vector [] vm in deliver i h VT_StringVectorHandle vm \<bind> continue)"

section \<open>Maps and sets\<close>

text \<open>The frame of the instructions that update a vector in place, or read one: the vector's handle
  is in register \<open>v\<close>, the key in register \<open>x\<close>.\<close>

definition with_keyed :: "nat \<Rightarrow> nat \<Rightarrow> (i64 \<Rightarrow> string list \<Rightarrow> string \<Rightarrow> vm \<Rightarrow> outcome) \<Rightarrow> vm \<Rightarrow> outcome" where
  "with_keyed v x body vm = do {
     t \<leftarrow> get_tag v vm;
     h \<leftarrow> get_val v vm;
     key \<leftarrow> reg_text x vm;
     (if t \<noteq> VT_StringVectorHandle then fault TypeFault vm
      else case (handle_get (string_vectors (st vm)) h, key) of
        (Some vec, Some kx) \<Rightarrow> body h vec kx vm
      | _ \<Rightarrow> fault DecodeFault vm)
   }"

definition exec_str_vec_push :: handler where
  "exec_str_vec_push i cpc vm =
     (if bad_ab i then fault DecodeFault vm
      else with_keyed (ia i) (ib i)
        (\<lambda>h vec x vm. update_flags_of (ia i) (set_vector h (vec @ [x]) vm) \<bind> continue) vm)"

definition exec_map_put :: handler where
  "exec_map_put i cpc vm =
     (if bad_abc i then fault DecodeFault vm
      else do {
        val \<leftarrow> reg_text (ic i) vm;
        with_keyed (ia i) (ib i) (\<lambda>h vec key vm. case val of
            None \<Rightarrow> fault DecodeFault vm
          | Some x \<Rightarrow> update_flags_of (ia i) (set_vector h (kv_put key x vec) vm) \<bind> continue) vm
      })"

definition exec_map_get :: handler where
  "exec_map_get i cpc vm =
     (if bad_abc i then fault DecodeFault vm
      else with_keyed (ib i) (ic i) (\<lambda>h vec key vm.
        let (v, vm) = (case kv_get key vec of
               Some x \<Rightarrow> let (h, vm) = intern_text x vm
                 in (\<lparr>has_value = True, opt_payload_tag = VT_SymbolHandle, opt_payload = h\<rparr>, vm)
             | None \<Rightarrow> (\<lparr>has_value = False, opt_payload_tag = VT_Int, opt_payload = 0\<rparr>, vm));
            (oh, tbl) = intern_option (options (st vm)) v
        in deliver i oh VT_OptionHandle (upd_st (\<lambda>s. s\<lparr>options := tbl\<rparr>) vm) \<bind> continue) vm)"

definition exec_map_has :: handler where
  "exec_map_has i cpc vm =
     (if bad_abc i then fault DecodeFault vm
      else with_keyed (ib i) (ic i) (\<lambda>h vec key vm.
        deliver i (bool_word (kv_has key vec)) VT_Bool vm \<bind> continue) vm)"

definition exec_map_remove :: handler where
  "exec_map_remove i cpc vm =
     (if bad_abc i then fault DecodeFault vm
      else with_keyed (ib i) (ic i) (\<lambda>h vec key vm.
        deliver i h VT_StringVectorHandle (set_vector h (kv_remove key vec) vm) \<bind> continue) vm)"

text \<open>The instructions on a vector alone.\<close>
definition with_strings :: "insn \<Rightarrow> (string list \<Rightarrow> vm \<Rightarrow> outcome) \<Rightarrow> vm \<Rightarrow> outcome" where
  "with_strings i body vm =
     (if bad_ab i then fault DecodeFault vm
      else do {
        t \<leftarrow> get_tag (ib i) vm;
        h \<leftarrow> get_val (ib i) vm;
        (if t \<noteq> VT_StringVectorHandle then fault TypeFault vm
         else case handle_get (string_vectors (st vm)) h of
           None \<Rightarrow> fault DecodeFault vm
         | Some vec \<Rightarrow> body vec vm)
      })"

definition exec_map_keys :: handler where
  "exec_map_keys i cpc = with_strings i (\<lambda>vec vm.
     let (h, vm) = alloc_vector (kv_keys vec) vm in deliver i h VT_StringVectorHandle vm \<bind> continue)"

definition exec_map_size :: handler where
  "exec_map_size i cpc = with_strings i (\<lambda>vec vm.
     deliver i (i64_of_size (kv_size vec)) VT_Int vm \<bind> continue)"

definition exec_set_add :: handler where
  "exec_set_add i cpc vm =
     (if bad_ab i then fault DecodeFault vm
      else with_keyed (ia i) (ib i) (\<lambda>h vec key vm.
        update_flags_of (ia i) (set_vector h (set_add key vec) vm) \<bind> continue) vm)"

definition exec_set_remove :: handler where
  "exec_set_remove i cpc vm =
     (if bad_ab i then fault DecodeFault vm
      else with_keyed (ia i) (ib i) (\<lambda>h vec key vm.
        update_flags_of (ia i) (set_vector h (set_remove key vec) vm) \<bind> continue) vm)"

definition exec_set_has :: handler where
  "exec_set_has i cpc vm =
     (if bad_abc i then fault DecodeFault vm
      else with_keyed (ib i) (ic i) (\<lambda>h vec key vm.
        deliver i (bool_word (key \<in> set vec)) VT_Bool vm \<bind> continue) vm)"

definition exec_set_size :: handler where
  "exec_set_size i cpc = with_strings i (\<lambda>vec vm.
     deliver i (i64_of_size (length vec)) VT_Int vm \<bind> continue)"

section \<open>Options, results, enums, complex numbers\<close>

definition make_option :: "insn \<Rightarrow> option_value \<Rightarrow> vm \<Rightarrow> outcome" where
  "make_option i v vm = (let (h, tbl) = intern_option (options (st vm)) v
     in deliver i h VT_OptionHandle (upd_st (\<lambda>s. s\<lparr>options := tbl\<rparr>) vm) \<bind> continue)"

definition exec_make_option_some :: handler where
  "exec_make_option_some i cpc vm =
     (if bad_ab i then fault DecodeFault vm
      else do {
        t \<leftarrow> get_tag (ib i) vm;
        v \<leftarrow> get_val (ib i) vm;
        make_option i \<lparr>has_value = True, opt_payload_tag = t, opt_payload = v\<rparr> vm
      })"

definition exec_make_option_none :: handler where
  "exec_make_option_none i cpc vm =
     (if bad_a i then fault DecodeFault vm
      else make_option i \<lparr>has_value = False, opt_payload_tag = VT_Int, opt_payload = 0\<rparr> vm)"

text \<open>\<open>MakeResultOk\<close> and \<open>MakeResultErr\<close>\<close>
definition exec_make_result :: "bool \<Rightarrow> handler" where
  "exec_make_result ok i cpc vm =
     (if bad_ab i then fault DecodeFault vm
      else do {
        t \<leftarrow> get_tag (ib i) vm;
        v \<leftarrow> get_val (ib i) vm;
        let (h, tbl) = intern_result (results (st vm)) \<lparr>is_ok = ok, res_payload_tag = t, res_payload = v\<rparr>;
        deliver i h VT_ResultHandle (upd_st (\<lambda>s. s\<lparr>results := tbl\<rparr>) vm) \<bind> continue
      })"

definition exec_make_enum_variant :: handler where
  "exec_make_enum_variant i cpc vm =
     (if bad_a i then fault DecodeFault vm
      else let (h, tbl) = intern_enum (enums (st vm)) (i32_of_i64 (op_b i)) False VT_Int 0
           in deliver i h VT_EnumHandle (upd_st (\<lambda>s. s\<lparr>enums := tbl\<rparr>) vm) \<bind> continue)"

definition exec_make_enum_variant_payload :: handler where
  "exec_make_enum_variant_payload i cpc vm =
     (if bad_ab i then fault DecodeFault vm
      else if sint (op_c i) < 0 then fault DecodeFault vm
      else do {
        t \<leftarrow> get_tag (ib i) vm;
        v \<leftarrow> get_val (ib i) vm;
        let (h, tbl) = intern_enum (enums (st vm)) (op_c i) True t v;
        deliver i h VT_EnumHandle (upd_st (\<lambda>s. s\<lparr>enums := tbl\<rparr>) vm) \<bind> continue
      })"

definition exec_make_complex :: handler where
  "exec_make_complex i cpc vm =
     (if bad_abc i then fault DecodeFault vm
      else do {
        bt \<leftarrow> get_tag (ib i) vm;
        ct \<leftarrow> get_tag (ic i) vm;
        bv \<leftarrow> get_val (ib i) vm;
        cv \<leftarrow> get_val (ic i) vm;
        (if bt \<noteq> VT_Int \<or> ct \<noteq> VT_Int then fault TypeFault vm
         else let (h, tbl) = intern_complex (complexes (st vm)) \<lparr>cplx_real = bv, cplx_imag = cv\<rparr>
              in deliver i h VT_ComplexHandle (upd_st (\<lambda>s. s\<lparr>complexes := tbl\<rparr>) vm) \<bind> continue)
      })"

text \<open>The frame of the instructions that take such a value apart.\<close>

definition with_handle :: "value_tag \<Rightarrow> (state \<Rightarrow> 'a list) \<Rightarrow> insn \<Rightarrow> ('a \<Rightarrow> vm \<Rightarrow> outcome) \<Rightarrow> vm \<Rightarrow> outcome" where
  "with_handle tag tbl i body vm =
     (if bad_ab i then fault DecodeFault vm
      else do {
        t \<leftarrow> get_tag (ib i) vm;
        h \<leftarrow> get_val (ib i) vm;
        (if t \<noteq> tag then fault TypeFault vm
         else case handle_get (tbl (st vm)) h of
           None \<Rightarrow> fault DecodeFault vm
         | Some x \<Rightarrow> body x vm)
      })"

definition exec_option_is_some :: handler where
  "exec_option_is_some i cpc = with_handle VT_OptionHandle options i (\<lambda>x vm.
     deliver_set i (bool_word (has_value x)) VT_Int vm \<bind> continue)"

definition exec_option_unwrap :: handler where
  "exec_option_unwrap i cpc = with_handle VT_OptionHandle options i (\<lambda>x vm.
     if \<not> has_value x then fault DecodeFault vm
     else deliver_set i (opt_payload x) (opt_payload_tag x) vm \<bind> continue)"

definition exec_result_is_ok :: handler where
  "exec_result_is_ok i cpc = with_handle VT_ResultHandle results i (\<lambda>x vm.
     deliver_set i (bool_word (is_ok x)) VT_Int vm \<bind> continue)"

text \<open>\<open>ResultUnwrapOk\<close> and \<open>ResultUnwrapErr\<close>\<close>
definition exec_result_unwrap :: "bool \<Rightarrow> handler" where
  "exec_result_unwrap ok i cpc = with_handle VT_ResultHandle results i (\<lambda>x vm.
     if is_ok x \<noteq> ok then fault DecodeFault vm
     else deliver_set i (res_payload x) (res_payload_tag x) vm \<bind> continue)"

definition decode_variant_id :: "i32 \<Rightarrow> i32" where
  "decode_variant_id encoded = (if sint encoded < 0 then -1 else encoded AND 0xFFFF)"

text \<open>The outer \<open>None\<close> is a subscript out of range.\<close>
definition enum_metadata_for :: "state \<Rightarrow> i32 \<Rightarrow> enum_metadata option option" where
  "enum_metadata_for s eid =
     (case enum_metadata_index s eid of
        None \<Rightarrow> Some None
      | Some n \<Rightarrow> map_option Some (arr_get (state.enum_metadata s) n))"

definition variant_metadata :: "enum_metadata option \<Rightarrow> i32 \<Rightarrow> enum_variant_metadata option" where
  "variant_metadata m vid = (case m of None \<Rightarrow> None
     | Some md \<Rightarrow> find (\<lambda>x. meta_variant_id x = vid) (meta_variants md))"

definition enum_reason :: "string \<Rightarrow> enum_metadata option \<Rightarrow> i32 \<Rightarrow> string" where
  "enum_reason head m local =
     head @ (case m of None \<Rightarrow> [] | Some md \<Rightarrow> '' enum='' @ meta_name md) @
     (case variant_metadata m local of
        None \<Rightarrow> []
      | Some x \<Rightarrow> '' variant='' @ variant_name x @
          (case variant_payload x of None \<Rightarrow> [] | Some p \<Rightarrow> '' payload='' @ p))"

definition exec_enum_is_variant :: handler where
  "exec_enum_is_variant i cpc = with_handle VT_EnumHandle enums i (\<lambda>x vm.
     let matches = (variant_id x = op_c i) in do {
       vm \<leftarrow> deliver_set i (bool_word matches) VT_Int vm;
       m \<leftarrow> enum_metadata_for (st vm) (decode_enum_id (op_c i));
       continue (rec_event (opcode i) (op_c i) (bool_word matches)
         (allow (enum_reason ''enum guard'' m (decode_variant_id (op_c i)) @
            '' match='' @ (if matches then ''pass'' else ''fail''))) vm)
     })"

definition exec_enum_unwrap_payload :: handler where
  "exec_enum_unwrap_payload i cpc = with_handle VT_EnumHandle enums i (\<lambda>x vm.
     if \<not> has_payload x then fault DecodeFault vm
     else do {
       vm \<leftarrow> deliver_set i (enum_payload x) (enum_payload_tag x) vm;
       m \<leftarrow> enum_metadata_for (st vm) (decode_enum_id (variant_id x));
       continue (rec_event (opcode i) (variant_id x) (enum_payload x)
         (allow (enum_reason ''enum payload'' m (decode_variant_id (variant_id x)))) vm)
     })"

section \<open>Fractions and conversions\<close>

definition exec_i2f :: handler where
  "exec_i2f i cpc vm =
     (if bad_ab i then fault DecodeFault vm
      else do {
        x \<leftarrow> get_val (ib i) vm;
        let (h, vm) = alloc_float (opcode i) (f64_of_i64 x) vm;
        vm \<leftarrow> put_reg (ia i) h VT_FloatHandle vm;
        continue vm
      })"

definition exec_f2i :: handler where
  "exec_f2i i cpc = with_handle VT_FloatHandle floats i (\<lambda>x vm. do {
     v \<leftarrow> i64_of_f64 x;
     deliver i v VT_Int vm \<bind> continue
   })"

definition exec_i2frac :: handler where
  "exec_i2frac i cpc vm =
     (if bad_ab i then fault DecodeFault vm
      else do {
        x \<leftarrow> get_val (ib i) vm;
        f \<leftarrow> frac_normalize (sint x) 1;
        let (h, vm) = alloc_fraction (opcode i) f vm;
        vm \<leftarrow> put_reg (ia i) h VT_FractionHandle vm;
        continue vm
      })"

text \<open>\<open>T81BigInt::to_int64\<close> raises on a numerator that does not fit.\<close>
definition exec_frac2i :: handler where
  "exec_frac2i i cpc = with_handle VT_FractionHandle fractions i (\<lambda>x vm.
     if snd x \<noteq> 1 then fault DecodeFault vm
     else do {
       v \<leftarrow> signed_result (fst x);
       deliver i v VT_Int vm \<bind> continue
     })"

text \<open>\<open>FracAdd\<close>, \<open>FracSub\<close>, \<open>FracMul\<close>, \<open>FracDiv\<close>; an exception of the arithmetic is a decode fault.\<close>
definition exec_frac :: handler where
  "exec_frac i cpc vm =
     (if bad_abc i then fault DecodeFault vm
      else do {
        bt \<leftarrow> get_tag (ib i) vm;
        ct \<leftarrow> get_tag (ic i) vm;
        bv \<leftarrow> get_val (ib i) vm;
        cv \<leftarrow> get_val (ic i) vm;
        (if bt \<noteq> VT_FractionHandle \<or> ct \<noteq> VT_FractionHandle then fault TypeFault vm
         else case (handle_get (fractions (st vm)) bv, handle_get (fractions (st vm)) cv) of
           (Some x, Some y) \<Rightarrow>
             if opcode i = Op_FracDiv \<and> fst y = 0 then fault DivisionFault vm
             else (case (if opcode i = Op_FracAdd then frac_add x y
                         else if opcode i = Op_FracSub then frac_sub x y
                         else if opcode i = Op_FracMul then frac_mul x y
                         else frac_div x y) of
               None \<Rightarrow> fault DecodeFault vm
             | Some f \<Rightarrow> let (h, vm) = alloc_fraction (opcode i) f vm
                         in deliver i h VT_FractionHandle vm \<bind> continue)
         | _ \<Rightarrow> fault DecodeFault vm)
      })"

section \<open>Tensors\<close>

definition exec_chk_shape :: handler where
  "exec_chk_shape i cpc vm =
     (if bad_abc i then fault DecodeFault vm
      else do {
        bt \<leftarrow> get_tag (ib i) vm;
        ct \<leftarrow> get_tag (ic i) vm;
        bv \<leftarrow> get_val (ib i) vm;
        cv \<leftarrow> get_val (ic i) vm;
        (if bt \<noteq> VT_TensorHandle \<or> ct \<noteq> VT_ShapeHandle then fault TypeFault vm
         else case tensor_at (st vm) bv of
           None \<Rightarrow> fault DecodeFault (log_bounds (opcode i) Seg_Tensor (i32_of_i64 bv) ''tensor handle access'' vm)
         | Some t \<Rightarrow> (case handle_get (shapes (st vm)) cv of
             None \<Rightarrow> fault DecodeFault vm
           | Some expected \<Rightarrow> deliver_set i (bool_word (tshape t = expected)) VT_Int vm \<bind> continue))
      })"

text \<open>Unlike \<open>deliver_tensor\<close>, these leave the flags alone.\<close>
definition store_tensor :: "insn \<Rightarrow> tensor option \<Rightarrow> vm \<Rightarrow> (vm \<Rightarrow> outcome) \<Rightarrow> outcome" where
  "store_tensor i made vm after = do {
     t \<leftarrow> made;
     (res, vm) \<leftarrow> alloc_tensor (opcode i) t vm;
     (case res of
        Inl tr \<Rightarrow> fault tr vm
      | Inr h \<Rightarrow> do { vm \<leftarrow> put_reg (ia i) h VT_TensorHandle vm; after vm })
   }"

definition exec_ttranspose :: handler where
  "exec_ttranspose i cpc vm =
     (if bad_ab i then fault DecodeFault vm
      else do {
        p \<leftarrow> promote_to_tensor (ib i) vm;
        v \<leftarrow> get_val (ib i) vm;
        (case p of
           Some tr \<Rightarrow> fault tr vm
         | None \<Rightarrow> (case tensor_at (st vm) v of
             None \<Rightarrow> fault ShapeFault vm
           | Some t \<Rightarrow>
               let vm = rec_event (opcode i) (i32_of_i64 (op_b i)) v (allow ''TTranspose kernel execution'') vm
               in if tensor_rank t \<noteq> 2 then fault ShapeFault vm
                  else store_tensor i (transpose2d t) vm continue))
      })"

definition exec_tnew :: handler where
  "exec_tnew i cpc vm =
     (if bad_ab i then fault DecodeFault vm
      else do {
        t \<leftarrow> get_tag (ib i) vm;
        n \<leftarrow> get_val (ib i) vm;
        (if t \<noteq> VT_Int then fault TypeFault vm
         else do {
           made \<leftarrow> tensor_new_1d n;
           (case made of
              None \<Rightarrow> fault BoundsFault vm
            | Some x \<Rightarrow> store_tensor i (Some x) vm (\<lambda>vm. do {
                v \<leftarrow> get_val (ia i) vm;
                continue (rec_event (opcode i) (i32_of_i64 n) v (allow ''TNew'') vm)
              }))
         })
      })"

definition exec_tid :: handler where
  "exec_tid i cpc vm =
     (if bad_ab i then fault DecodeFault vm
      else do {
        p \<leftarrow> promote_to_tensor (ib i) vm;
        v \<leftarrow> get_val (ib i) vm;
        (case p of
           Some tr \<Rightarrow> fault tr vm
         | None \<Rightarrow> (case tensor_at (st vm) v of
             None \<Rightarrow> fault DecodeFault vm
           | Some t \<Rightarrow> store_tensor i (tensor_identity_copy t) vm (\<lambda>vm. do {
               v \<leftarrow> get_val (ia i) vm;
               continue (rec_event (opcode i) (i32_of_i64 (op_b i)) v (allow ''TID (Identity/Copy)'') vm)
             })))
      })"

section \<open>Safety\<close>

lemma state_wf_tables:
  assumes "state_wf s"
  shows "state_wf (s\<lparr>symbols := a\<rparr>)" "state_wf (s\<lparr>string_vectors := a'\<rparr>)" "state_wf (s\<lparr>options := b\<rparr>)"
    "state_wf (s\<lparr>results := c\<rparr>)" "state_wf (s\<lparr>enums := d\<rparr>)" "state_wf (s\<lparr>complexes := e\<rparr>)"
    "state_wf (s\<lparr>floats := f\<rparr>)" "state_wf (s\<lparr>fractions := g\<rparr>)" "state_wf (s\<lparr>printed_output := h\<rparr>)"
  by (rule iffD2 [OF state_wf_cong assms]; simp)+

lemma wf_tables [wf_intros]:
  assumes "vm_wf k vm"
  shows "vm_wf k (upd_st (\<lambda>s. s\<lparr>symbols := a s\<rparr>) vm)" "vm_wf k (upd_st (\<lambda>s. s\<lparr>string_vectors := a' s\<rparr>) vm)"
    "vm_wf k (upd_st (\<lambda>s. s\<lparr>options := b s\<rparr>) vm)" "vm_wf k (upd_st (\<lambda>s. s\<lparr>results := c s\<rparr>) vm)"
    "vm_wf k (upd_st (\<lambda>s. s\<lparr>enums := d s\<rparr>) vm)" "vm_wf k (upd_st (\<lambda>s. s\<lparr>complexes := e s\<rparr>) vm)"
    "vm_wf k (upd_st (\<lambda>s. s\<lparr>floats := f s\<rparr>) vm)" "vm_wf k (upd_st (\<lambda>s. s\<lparr>fractions := g s\<rparr>) vm)"
    "vm_wf k (upd_st (\<lambda>s. s\<lparr>printed_output := h s\<rparr>) vm)"
  by (rule upd_st_wf [OF assms]; simp add: state_wf_tables vm_wf_state [OF assms])+

lemma wf_alloc:
  assumes "vm_wf k vm"
  shows "intern_text x vm = (h, vm') \<Longrightarrow> vm_wf k vm'" "alloc_vector xs vm = (h, vm') \<Longrightarrow> vm_wf k vm'"
    "alloc_float oper y vm = (h, vm') \<Longrightarrow> vm_wf k vm'" "alloc_fraction oper z vm = (h, vm') \<Longrightarrow> vm_wf k vm'"
    "vm_wf k (set_vector h xs vm)"
  using assms by (auto simp: intern_text_def alloc_vector_def alloc_float_def alloc_fraction_def
      set_vector_def Let_def wf_intros split: prod.splits)

lemma deliver_total:
  assumes "vm_wf k vm" "ia i < kRegisters"
  shows "\<exists>vm'. deliver i v tag vm = Some vm' \<and> vm_wf k vm'"
    "\<exists>vm'. deliver_set i v tag vm = Some vm' \<and> vm_wf k vm'"
    "\<exists>vm'. update_flags_of (ia i) vm = Some vm' \<and> vm_wf k vm'"
proof -
  have flags: "\<exists>vm'. update_flags_of (ia i) vm1 = Some vm' \<and> vm_wf k vm'" if "vm_wf k vm1" for vm1
    using that assms(2) cur_wf [OF that]
    by (simp add: update_flags_of_def get_val_def ctx_wf_def wf_intros)
  show "\<exists>vm'. update_flags_of (ia i) vm = Some vm' \<and> vm_wf k vm'" by (rule flags [OF assms(1)])
  obtain vm1 where p: "put_reg (ia i) v tag vm = Some vm1" "vm_wf k vm1"
    using put_reg_wf [OF assms] by blast
  with flags [OF p(2)] show "\<exists>vm'. deliver i v tag vm = Some vm' \<and> vm_wf k vm'"
    by (simp add: deliver_def)
  show "\<exists>vm'. deliver_set i v tag vm = Some vm' \<and> vm_wf k vm'"
    using p flags [OF p(2)] flags [OF assms(1)] by (simp add: deliver_set_def set_reg_def)
qed

lemma safe_deliver [ub_free]:
  assumes "vm_wf k vm" "ia i < kRegisters" "\<And>vm'. vm_wf k vm' \<Longrightarrow> safe k (f vm')"
  shows "safe k (deliver i v tag vm \<bind> f)" "safe k (deliver_set i v tag vm \<bind> f)"
    "safe k (update_flags_of (ia i) vm \<bind> f)"
  using deliver_total [OF assms(1,2)] assms(3) by (metis bind.bind_lunit)+

lemma safe_reg_text [ub_free]:
  assumes "vm_wf k vm" "n < kRegisters" "\<And>x. safe k (f x)"
  shows "safe k (reg_text n vm \<bind> f)"
  using assms cur_wf [OF assms(1)] by (simp add: reg_text_def get_tag_def get_val_def ctx_wf_def)

lemma state_wf_tensors:
  assumes "state_wf s" "free_list_ok fr ts" "\<forall>t. Some t \<in> set ts \<longrightarrow> tensor_ok t"
  shows "state_wf (s\<lparr>free_tensor_indices := fr, tensors := ts\<rparr>)"
  using assms ctx_wf_cong [of "s\<lparr>free_tensor_indices := fr, tensors := ts\<rparr>" s] by (simp add: state_wf_def)

lemma store_tensor_slot_wf:
  assumes "state_wf s" "tensor_ok t"
  shows "\<exists>h s'. store_tensor_slot t s = Some (h, s') \<and> state_wf s' \<and> layout s' = layout s \<and>
    contexts s' = contexts s \<and> current_context s' = current_context s"
proof (cases "free_tensor_indices s = []")
  case True
  have "state_wf (s\<lparr>free_tensor_indices := [], tensors := tensors s @ [Some t]\<rparr>)"
    using assms by (intro state_wf_tensors) (auto simp: free_list_ok_def state_wf_def)
  moreover have "s\<lparr>free_tensor_indices := [], tensors := tensors s @ [Some t]\<rparr> =
      s\<lparr>tensors := tensors s @ [Some t]\<rparr>" using True by simp
  ultimately show ?thesis using True by (simp add: store_tensor_slot_def)
next
  case False
  let ?r = "last (free_tensor_indices s)"
  have fl: "distinct (free_tensor_indices s)" "\<forall>i \<in> set (free_tensor_indices s). i < length (tensors s) \<and> tensors s ! i = None"
    using assms(1) by (simp_all add: state_wf_def free_list_ok_def)
  then have r: "?r < length (tensors s)" using False by simp
  have split: "free_tensor_indices s = butlast (free_tensor_indices s) @ [?r]" using False by simp
  then have d: "distinct (butlast (free_tensor_indices s))" "?r \<notin> set (butlast (free_tensor_indices s))"
    using fl(1) by (metis distinct_append, metis distinct_append disjoint_iff list.set_intros(1))
  have "i < length (tensors s) \<and> (tensors s)[?r := Some t] ! i = None"
    if "i \<in> set (butlast (free_tensor_indices s))" for i
    using fl(2) d(2) that in_set_butlastD [OF that] by (cases "i = ?r") auto
  then have "free_list_ok (butlast (free_tensor_indices s)) ((tensors s)[?r := Some t])"
    using d(1) by (simp add: free_list_ok_def)
  moreover have "\<forall>x. Some x \<in> set ((tensors s)[?r := Some t]) \<longrightarrow> tensor_ok x"
    using assms set_update_subset_insert [of "tensors s" ?r "Some t"] by (auto simp: state_wf_def)
  ultimately have "state_wf (s\<lparr>free_tensor_indices := butlast (free_tensor_indices s),
      tensors := (tensors s)[?r := Some t]\<rparr>)"
    by (intro state_wf_tensors assms(1))
  with False r show ?thesis by (simp add: store_tensor_slot_def Let_def)
qed

lemma alloc_tensor_total:
  assumes "vm_wf k vm" "tensor_ok t"
  shows "\<exists>r vm'. alloc_tensor oper t vm = Some (r, vm') \<and> vm_wf k vm'"
proof (cases "evaluate_tensor_alloc_policy (st vm) (length (tdata t))")
  case AllowTensor
  let ?s = "account_tensor_allocation (length (tdata t)) (st vm)"
  have "state_wf ?s"
    using vm_wf_state [OF assms(1)] by (rule iffD2 [OF state_wf_cong, rotated -1])
      (simp_all add: account_tensor_allocation_def)
  from store_tensor_slot_wf [OF this assms(2)] obtain h s' where s':
    "store_tensor_slot t ?s = Some (h, s')" "state_wf s'" "layout s' = layout ?s" "contexts s' = contexts ?s" by blast
  then have "vm_wf k (vm\<lparr>st := s'\<rparr>)"
    using assms(1) by (simp add: vm_wf_def account_tensor_allocation_def)
  with AllowTensor s'(1) show ?thesis by (auto simp: alloc_tensor_def Let_def intro!: wf_intros)
qed (use assms in \<open>simp_all add: alloc_tensor_def wf_intros\<close>)

lemma safe_alloc_tensor [ub_free]:
  assumes "vm_wf k vm" "tensor_ok t" "\<And>r vm'. vm_wf k vm' \<Longrightarrow> safe k (f (r, vm'))"
  shows "safe k (alloc_tensor oper t vm \<bind> f)"
  using alloc_tensor_total [OF assms(1,2), of oper] assms(3) by auto

lemma safe_case_sum [ub_free]:
  "(\<And>x. r = Inl x \<Longrightarrow> safe k (f x)) \<Longrightarrow> (\<And>y. r = Inr y \<Longrightarrow> safe k (g y)) \<Longrightarrow>
     safe k (case r of Inl x \<Rightarrow> f x | Inr y \<Rightarrow> g y)"
  by (cases r) simp_all

lemma tensor_at_ok: "vm_wf k vm \<Longrightarrow> tensor_at (st vm) h = Some t \<Longrightarrow> tensor_ok t"
  using vm_wf_state [of k vm]
  by (auto simp: tensor_at_def state_wf_def handle_get_def Let_def split: option.splits if_splits)
    (metis not_le nth_mem)+

lemma good_regs_ab:
  "operand_fits i \<Longrightarrow> \<not> bad_ab i \<Longrightarrow> ia i < kRegisters \<and> ib i < kRegisters"
  "operand_fits i \<Longrightarrow> \<not> bad_abc i \<Longrightarrow> ia i < kRegisters \<and> ib i < kRegisters \<and> ic i < kRegisters"
  using good_regs [of i] by simp_all

lemma safe_exec_print:
  assumes "vm_wf k vm"
  shows "safe k (exec_print i cpc vm)"
  unfolding exec_print_def using assms good_regs(1) [of i] by (intro ub_free wf_intros; simp)

lemma safe_str_unary:
  assumes "vm_wf k vm" "operand_fits i"
  shows "safe k (str_unary f i cpc vm)"
  unfolding str_unary_def using assms good_regs_ab(1) [of i] by (intro ub_free wf_intros; simp)

lemma safe_str_binary:
  assumes "vm_wf k vm" "operand_fits i"
    "\<And>x y. \<not> bad_abc i \<Longrightarrow> safe k (f x y vm)"
  shows "safe k (str_binary f i cpc vm)"
  unfolding str_binary_def using assms(1,2) good_regs_ab(2) [of i]
  by (intro ub_free wf_intros; simp split: option.split add: assms(3) safe_fault)

lemma safe_alloc [ub_free]:
  assumes "vm_wf k vm" "\<And>h vm'. vm_wf k vm' \<Longrightarrow> safe k (f h vm')"
  shows "safe k (case intern_text x vm of (h, vm') \<Rightarrow> f h vm')"
    "safe k (case alloc_vector xs vm of (h, vm') \<Rightarrow> f h vm')"
    "safe k (case alloc_float oper y vm of (h, vm') \<Rightarrow> f h vm')"
    "safe k (case alloc_fraction oper z vm of (h, vm') \<Rightarrow> f h vm')"
  using assms wf_alloc [OF assms(1)] by (auto split: prod.split)

lemma safe_exec_strings:
  assumes "vm_wf k vm" "operand_fits i"
  shows "safe k (exec_str_len i cpc vm)" "safe k (exec_str_empty i cpc vm)"
    "safe k (exec_str_concat i cpc vm)" "safe k (exec_str_starts_with i cpc vm)"
    "safe k (exec_str_ends_with i cpc vm)" "safe k (exec_str_contains i cpc vm)"
    "safe k (exec_str_index_of i cpc vm)" "safe k (exec_str_split i cpc vm)"
proof -
  note regs = good_regs_ab(2) [OF assms(2)]
  show "safe k (exec_str_len i cpc vm)" "safe k (exec_str_empty i cpc vm)"
    by (simp_all add: exec_str_len_def exec_str_empty_def safe_str_unary assms)
  show "safe k (exec_str_concat i cpc vm)" "safe k (exec_str_starts_with i cpc vm)"
    "safe k (exec_str_ends_with i cpc vm)" "safe k (exec_str_contains i cpc vm)"
    "safe k (exec_str_index_of i cpc vm)" "safe k (exec_str_split i cpc vm)"
    unfolding exec_str_concat_def exec_str_starts_with_def exec_str_ends_with_def
      exec_str_contains_def exec_str_index_of_def exec_str_split_def Let_def
    using assms regs by (intro safe_str_binary; (intro ub_free wf_intros)?; simp)+
qed

lemma safe_exec_str_replace:
  assumes "vm_wf k vm" "operand_fits i"
  shows "safe k (exec_str_replace i cpc vm)"
  unfolding exec_str_replace_def Let_def using assms good_regs_ab(2) [of i]
  by (intro ub_free wf_intros; auto dest: wf_alloc(1))

lemma safe_exec_str_join:
  assumes "vm_wf k vm" "operand_fits i"
  shows "safe k (exec_str_join i cpc vm)"
  unfolding exec_str_join_def Let_def using assms good_regs_ab(2) [of i]
  by (intro ub_free wf_intros; auto dest: wf_alloc(1))

lemma safe_with_vector [ub_free]:
  assumes "vm_wf k vm" "operand_fits i"
    "\<And>xs. \<not> bad_ab i \<Longrightarrow> safe k (f xs vm)"
    "\<And>t. \<not> bad_ab i \<Longrightarrow> tensor_at (st vm) (registers (cur vm) ! ib i) = Some t \<Longrightarrow> safe k (g t vm)"
  shows "safe k (with_vector i f g vm)"
  unfolding with_vector_def using assms good_regs_ab(1) [of i] by (intro ub_free wf_intros; simp)

lemma safe_with_keyed [ub_free]:
  assumes "vm_wf k vm" "v < kRegisters" "x < kRegisters" "\<And>h vec y. safe k (f h vec y vm)"
  shows "safe k (with_keyed v x f vm)"
  unfolding with_keyed_def using assms by (intro ub_free wf_intros; simp)

lemma safe_with_strings [ub_free]:
  assumes "vm_wf k vm" "operand_fits i" "\<And>vec. \<not> bad_ab i \<Longrightarrow> safe k (f vec vm)"
  shows "safe k (with_strings i f vm)"
  unfolding with_strings_def using assms good_regs_ab(1) [of i] by (intro ub_free wf_intros; simp)

lemma safe_with_handle [ub_free]:
  assumes "vm_wf k vm" "operand_fits i"
    "\<And>x. \<not> bad_ab i \<Longrightarrow> handle_get (tbl (st vm)) (registers (cur vm) ! ib i) = Some x \<Longrightarrow> safe k (f x vm)"
  shows "safe k (with_handle tag tbl i f vm)"
  unfolding with_handle_def using assms good_regs_ab(1) [of i] by (intro ub_free wf_intros; simp)

lemma safe_deliver_tensor [ub_free]:
  assumes "vm_wf k vm" "ia i < kRegisters" "made = Some t" "tensor_ok t"
  shows "safe k (deliver_tensor i made vm)"
  unfolding deliver_tensor_def assms(3) using assms(1,2,4) by (intro ub_free wf_intros; simp)

lemma safe_store_tensor [ub_free]:
  assumes "vm_wf k vm" "ia i < kRegisters" "\<exists>t. made = Some t \<and> tensor_ok t"
    "\<And>vm'. vm_wf k vm' \<Longrightarrow> safe k (f vm')"
  shows "safe k (store_tensor i made vm f)"
proof -
  from assms(3) obtain t where t: "made = Some t" "tensor_ok t" by blast
  show ?thesis
    unfolding store_tensor_def t(1) using assms(1,2,4) t(2) by (intro ub_free wf_intros; simp)
qed

lemma safe_exec_vec_size:
  assumes "vm_wf k vm" "operand_fits i"
  shows "safe k (exec_vec_len i cpc vm)" "safe k (exec_vec_empty i cpc vm)"
  unfolding exec_vec_len_def exec_vec_empty_def using assms good_regs_ab(1) [of i]
  by (intro ub_free wf_intros; simp)+

lemma safe_exec_new_vector:
  assumes "vm_wf k vm"
  shows "safe k (exec_new_vector i cpc vm)"
  unfolding exec_new_vector_def Let_def using assms good_regs(1) [of i]
  by (intro ub_free wf_intros; auto dest: wf_alloc(2))

lemma safe_exec_maps:
  assumes "vm_wf k vm" "operand_fits i"
  shows "safe k (exec_str_vec_push i cpc vm)" "safe k (exec_map_put i cpc vm)"
    "safe k (exec_map_has i cpc vm)" "safe k (exec_map_remove i cpc vm)"
    "safe k (exec_map_keys i cpc vm)" "safe k (exec_map_size i cpc vm)"
    "safe k (exec_set_add i cpc vm)" "safe k (exec_set_remove i cpc vm)"
    "safe k (exec_set_has i cpc vm)" "safe k (exec_set_size i cpc vm)"
  unfolding exec_str_vec_push_def exec_map_put_def exec_map_has_def exec_map_remove_def
    exec_map_keys_def exec_map_size_def exec_set_add_def exec_set_remove_def exec_set_has_def
    exec_set_size_def Let_def
  using assms good_regs_ab [of i] by (intro ub_free wf_intros; auto dest: wf_alloc(2) intro: wf_alloc(5))+

lemma safe_exec_map_get:
  assumes "vm_wf k vm" "operand_fits i"
  shows "safe k (exec_map_get i cpc vm)"
proof -
  have "vm_wf k vm'" if "(case kv_get key vec of
        Some x \<Rightarrow> (case intern_text x vm of (h, vm) \<Rightarrow> (\<lparr>has_value = True, opt_payload_tag = VT_SymbolHandle, opt_payload = h\<rparr>, vm))
      | None \<Rightarrow> (\<lparr>has_value = False, opt_payload_tag = VT_Int, opt_payload = 0\<rparr>, vm)) = (v, vm')" for key vec v vm'
    using that assms(1) by (auto dest: wf_alloc(1) split: option.splits prod.splits)
  then show ?thesis
    unfolding exec_map_get_def Let_def using assms good_regs_ab(2) [of i]
    by (intro ub_free wf_intros; auto)
qed

lemma safe_exec_make:
  assumes "vm_wf k vm" "operand_fits i"
  shows "safe k (exec_make_option_some i cpc vm)" "safe k (exec_make_option_none i cpc vm)"
    "safe k (exec_make_result ok i cpc vm)" "safe k (exec_make_enum_variant i cpc vm)"
    "safe k (exec_make_enum_variant_payload i cpc vm)" "safe k (exec_make_complex i cpc vm)"
  unfolding exec_make_option_some_def exec_make_option_none_def exec_make_result_def
    exec_make_enum_variant_def exec_make_enum_variant_payload_def exec_make_complex_def
    make_option_def Let_def
  using assms good_regs(1) [of i] good_regs_ab [of i] by (intro ub_free wf_intros; auto)+

lemma safe_exec_unwrap:
  assumes "vm_wf k vm" "operand_fits i"
  shows "safe k (exec_option_is_some i cpc vm)" "safe k (exec_option_unwrap i cpc vm)"
    "safe k (exec_result_is_ok i cpc vm)" "safe k (exec_result_unwrap ok i cpc vm)"
  unfolding exec_option_is_some_def exec_option_unwrap_def exec_result_is_ok_def exec_result_unwrap_def
  using assms good_regs_ab(1) [of i] by (intro ub_free wf_intros; auto)+

lemma safe_enum_metadata_for [ub_free]:
  assumes "vm_wf k vm" "\<And>m. safe k (f m)"
  shows "safe k (enum_metadata_for (st vm) e \<bind> f)"
  using assms vm_wf_state [OF assms(1)]
  by (auto simp: enum_metadata_for_def state_wf_def ran_def split: option.split)

lemma safe_exec_enum:
  assumes "vm_wf k vm" "operand_fits i"
  shows "safe k (exec_enum_is_variant i cpc vm)" "safe k (exec_enum_unwrap_payload i cpc vm)"
  unfolding exec_enum_is_variant_def exec_enum_unwrap_payload_def Let_def
  using assms good_regs_ab(1) [of i] by (intro ub_free wf_intros; auto)+

text \<open>
  The instructions that may raise: a float that has no integer, a numerator beyond 64 bits, a
  tensor whose new length is not a positive \<open>int\<close> (popping the only element, or pushing to the
  longest vector), and \<open>TNew\<close> with a size that the conversion to \<open>int\<close> makes non-positive.
\<close>

definition data_ok :: "insn \<Rightarrow> vm \<Rightarrow> bool" where
  "data_ok i vm \<longleftrightarrow>
     (let v = registers (cur vm) ! ib i; t = tensor_at (st vm) v in
      (opcode i = Op_VecFirst \<longrightarrow> (case t of Some x \<Rightarrow> tdata x = [] \<or> i64_of_f32 (hd (tdata x)) \<noteq> None | None \<Rightarrow> True)) \<and>
      (opcode i = Op_VecLast \<longrightarrow> (case t of Some x \<Rightarrow> tdata x = [] \<or> i64_of_f32 (last (tdata x)) \<noteq> None | None \<Rightarrow> True)) \<and>
      (opcode i = Op_VecPush \<longrightarrow> (case t of Some x \<Rightarrow> length (tdata x) < 2 ^ 31 - 1 | None \<Rightarrow> True)) \<and>
      (opcode i = Op_VecPop \<longrightarrow> (case t of Some x \<Rightarrow> length (tdata x) \<noteq> 1 | None \<Rightarrow> True)) \<and>
      (opcode i = Op_F2I \<longrightarrow> (case handle_get (floats (st vm)) v of Some x \<Rightarrow> i64_of_f64 x \<noteq> None | None \<Rightarrow> True)) \<and>
      (opcode i = Op_Frac2I \<longrightarrow> (case handle_get (fractions (st vm)) v of Some x \<Rightarrow> in_i64 (fst x) | None \<Rightarrow> True)) \<and>
      (opcode i = Op_TNew \<longrightarrow> sint v \<le> 0 \<or> 0 < sint (i32_of_i64 v)))"

lemma vector_shape:
  assumes "tensor_ok t" "is_vector t"
  obtains d where "tshape t = [d]" "0 < sint d" "length (tdata t) = nat (sint d)"
proof -
  have "length (tshape t) = 1"
    using tensor_rank_eq [OF assms(1), of 1] assms(2) by (simp add: is_vector_def i32_of_size_def)
  then obtain d where d: "tshape t = [d]" by (cases "tshape t") auto
  with assms(1) have "0 < sint d" by (simp add: tensor_ok_iff valid_shape_def)
  with d shape_size [OF assms(1)] that show ?thesis by (simp add: size_of_i32_nonneg)
qed

lemma safe_vec_element:
  assumes "vm_wf k vm" "operand_fits i"
    "\<And>t. tensor_at (st vm) (registers (cur vm) ! ib i) = Some t \<Longrightarrow> tdata t \<noteq> [] \<Longrightarrow> i64_of_f32 (pick_f (tdata t)) \<noteq> None"
  shows "safe k (vec_element pick pick_f i cpc vm)"
  unfolding vec_element_def Let_def
  by (intro safe_with_vector assms(1,2) safe_if ub_free)
    (use assms good_regs_ab(1) [of i] in \<open>auto dest: wf_alloc(1) intro!: ub_free\<close>)

lemma safe_exec_vec_ends:
  assumes "vm_wf k vm" "operand_fits i" "data_ok i vm"
  shows "opcode i = Op_VecFirst \<Longrightarrow> safe k (exec_vec_first i cpc vm)"
    "opcode i = Op_VecLast \<Longrightarrow> safe k (exec_vec_last i cpc vm)"
  unfolding exec_vec_first_def exec_vec_last_def
  by (intro safe_vec_element assms(1,2); use assms(3) in \<open>force simp: data_ok_def Let_def\<close>)+

lemma i32_add_Some: "- (2 ^ 31) \<le> sint x + d \<Longrightarrow> sint x + d < 2 ^ 31 \<Longrightarrow> \<exists>n. i32_add x d = Some n \<and> sint n = sint x + d"
proof -
  have "sint (word_of_int y :: i32) = y" if "- (2 ^ 31) \<le> y" "y < 2 ^ 31" for y :: int
    using that by (simp add: sint_sbintrunc' signed_take_bit_int_eq_self)
  then show "- (2 ^ 31) \<le> sint x + d \<Longrightarrow> sint x + d < 2 ^ 31 \<Longrightarrow> ?thesis"
    unfolding i32_add_def by metis
qed

lemma vector_tensor_ok:
  assumes "0 < sint n" "length dat = nat (sint n)"
  shows "\<exists>t. make_tensor [n] dat = Some t \<and> tensor_ok t"
proof -
  have "size_from_shape [n] = Some (length dat)"
    using assms size_of_i32_pos [of n] by (simp add: size_from_shape_def size_of_i32_nonneg)
  with assms(1) have "make_tensor [n] dat = Some \<lparr>tshape = [n], tdata = dat\<rparr>"
    by (simp add: make_tensor_def valid_shape_def)
  with make_tensor_ok [OF this] show ?thesis by simp
qed

lemma safe_exec_vec_pop:
  assumes "vm_wf k vm" "operand_fits i" "data_ok i vm" "opcode i = Op_VecPop"
  shows "safe k (exec_vec_pop i cpc vm)"
proof -
  have pop: "safe k (i32_add (hd (tshape t)) (- 1) \<bind> (\<lambda>n. deliver_tensor i (make_tensor [n] (butlast (tdata t))) vm))"
    if t: "tensor_at (st vm) (registers (cur vm) ! ib i) = Some t" "is_vector t" "\<not> bad_ab i" for t
  proof -
    obtain d where d: "tshape t = [d]" "0 < sint d" "length (tdata t) = nat (sint d)"
      using vector_shape [OF tensor_at_ok [OF assms(1) t(1)] t(2)] by blast
    have "sint d \<noteq> 1" using assms(3,4) t(1) d(3) by (auto simp: data_ok_def Let_def)
    moreover obtain n where n: "i32_add d (- 1) = Some n" "sint n = sint d + - 1"
      using i32_add_Some [of d "- 1"] d(2) sint_i32_range(2) [of d] by auto
    ultimately obtain t' where "make_tensor [n] (butlast (tdata t)) = Some t'" "tensor_ok t'"
      using vector_tensor_ok [of n "butlast (tdata t)"] d by (auto simp: nat_diff_distrib)
    with n(1) d(1) safe_deliver_tensor [OF assms(1)] good_regs_ab(1) [OF assms(2) t(3)]
    show ?thesis by simp
  qed
  show ?thesis
    unfolding exec_vec_pop_def Let_def
    by (intro safe_with_vector assms(1,2) ub_free)
      (use assms(1,2) good_regs_ab(1) [of i] pop in \<open>auto dest: wf_alloc(2)\<close>)
qed

lemma safe_exec_vec_push:
  assumes "vm_wf k vm" "operand_fits i" "data_ok i vm" "opcode i = Op_VecPush"
  shows "safe k (exec_vec_push i cpc vm)"
proof -
  have push: "safe k (i32_add (hd (tshape t)) 1 \<bind> (\<lambda>n. deliver_tensor i (make_tensor [n] (tdata t @ [v])) vm))"
    if t: "tensor_at (st vm) (registers (cur vm) ! ib i) = Some t" "is_vector t" "\<not> bad_abc i" for t v
  proof -
    obtain d where d: "tshape t = [d]" "0 < sint d" "length (tdata t) = nat (sint d)"
      using vector_shape [OF tensor_at_ok [OF assms(1) t(1)] t(2)] by blast
    have "sint d < 2 ^ 31 - 1" using assms(3,4) t(1) d by (auto simp: data_ok_def Let_def)
    then obtain n where n: "i32_add d 1 = Some n" "sint n = sint d + 1"
      using i32_add_Some [of d 1] d(2) by auto
    then obtain t' where "make_tensor [n] (tdata t @ [v]) = Some t'" "tensor_ok t'"
      using vector_tensor_ok [of n "tdata t @ [v]"] d by (auto simp: nat_add_distrib)
    with n(1) d(1) safe_deliver_tensor [OF assms(1)] good_regs_ab(2) [OF assms(2) t(3)]
    show ?thesis by simp
  qed
  show ?thesis
    unfolding exec_vec_push_def Let_def
    using assms(1,2) good_regs_ab(2) [of i]
    by (intro ub_free wf_intros; auto dest: wf_alloc(2) intro!: push)
qed

lemma safe_exec_convert:
  assumes "vm_wf k vm" "operand_fits i" "data_ok i vm"
  shows "safe k (exec_i2f i cpc vm)" "opcode i = Op_F2I \<Longrightarrow> safe k (exec_f2i i cpc vm)"
    "safe k (exec_i2frac i cpc vm)" "opcode i = Op_Frac2I \<Longrightarrow> safe k (exec_frac2i i cpc vm)"
    "safe k (exec_frac i cpc vm)"
proof -
  show "safe k (exec_i2f i cpc vm)"
    unfolding exec_i2f_def Let_def using assms(1,2) good_regs_ab(1) [of i]
    by (intro ub_free wf_intros; auto dest: wf_alloc(3))
  show "safe k (exec_i2frac i cpc vm)"
    unfolding exec_i2frac_def Let_def using assms(1,2) good_regs_ab(1) [of i]
    by (intro ub_free wf_intros; auto simp: frac_normalize_def dest: wf_alloc(4) intro!: ub_free)
  show "safe k (exec_frac i cpc vm)"
    unfolding exec_frac_def Let_def using assms(1,2) good_regs_ab(2) [of i]
    by (intro ub_free wf_intros; auto split: option.split intro!: ub_free)
  show "opcode i = Op_F2I \<Longrightarrow> safe k (exec_f2i i cpc vm)"
    unfolding exec_f2i_def using assms good_regs_ab(1) [of i]
    by (intro safe_with_handle assms(1,2); auto simp: data_ok_def Let_def intro!: ub_free)
  show "opcode i = Op_Frac2I \<Longrightarrow> safe k (exec_frac2i i cpc vm)"
    unfolding exec_frac2i_def using assms good_regs_ab(1) [of i]
    by (intro safe_with_handle assms(1,2); auto simp: data_ok_def Let_def signed_result_def intro!: ub_free)
qed

lemma safe_promote_to_tensor [ub_free]:
  assumes "vm_wf k vm" "n < kRegisters" "\<And>r. safe k (f r)"
  shows "safe k (promote_to_tensor n vm \<bind> f)"
  using assms cur_wf [OF assms(1)] by (simp add: promote_to_tensor_def get_tag_def ctx_wf_def)

lemma safe_exec_tensors:
  assumes "vm_wf k vm" "operand_fits i" "data_ok i vm"
  shows "safe k (exec_chk_shape i cpc vm)" "safe k (exec_ttranspose i cpc vm)"
    "safe k (exec_tid i cpc vm)" "opcode i = Op_TNew \<Longrightarrow> safe k (exec_tnew i cpc vm)"
proof -
  show "safe k (exec_chk_shape i cpc vm)"
    unfolding exec_chk_shape_def Let_def using assms(1,2) good_regs_ab(2) [of i]
    by (intro ub_free wf_intros; simp)
  have id: "tensor_identity_copy t = Some t" if "tensor_ok t" for t
    using that by (simp add: tensor_identity_copy_def tensor_ok_def)
  show "safe k (exec_ttranspose i cpc vm)"
    unfolding exec_ttranspose_def Let_def using assms(1,2) good_regs_ab(1) [of i]
    by (intro ub_free wf_intros; auto dest!: tensor_at_ok intro: transpose2d_ok)
  show "safe k (exec_tid i cpc vm)"
    unfolding exec_tid_def Let_def using assms(1,2) good_regs_ab(1) [of i]
    by (intro ub_free wf_intros; auto dest!: tensor_at_ok simp: id)
  have "safe k (exec_tnew i cpc vm)" if "opcode i = Op_TNew"
  proof -
    have made: "\<exists>t. zero_tensor [i32_of_i64 n] = Some t \<and> tensor_ok t"
      if "0 < sint (i32_of_i64 n)" for n
    proof -
      have "size_from_shape [i32_of_i64 n] = Some (size_of_i32 (i32_of_i64 n))"
        using that size_of_i32_pos [OF that] by (simp add: size_from_shape_def)
      with that have "zero_tensor [i32_of_i64 n] = Some \<lparr>tshape = [i32_of_i64 n],
          tdata = replicate (size_of_i32 (i32_of_i64 n)) 0\<rparr>"
        by (simp add: zero_tensor_def valid_shape_def)
      with zero_tensor_ok [OF this] show ?thesis by simp
    qed
    show ?thesis
      unfolding exec_tnew_def Let_def tensor_new_1d_def
      using assms that good_regs_ab(1) [of i] made [of "registers (cur vm) ! ib i"]
      by (intro ub_free wf_intros; auto simp: data_ok_def Let_def intro!: ub_free wf_intros)
  qed
  then show "opcode i = Op_TNew \<Longrightarrow> safe k (exec_tnew i cpc vm)" .
qed

end
