(* ===== verification/T81_Cog.thy ===== *)
theory T81_Cog
  imports T81_Tables T81_Floats "HOL-Library.Product_Lexorder" "HOL-Library.List_Lexorder" "HOL-Library.Char_ord"
begin

text \<open>
  The structures behind the cognitive tiers: symbolic graphs
  (\<open>src/experimental/tiers/cog/tier1/symbolic.cpp\<close>, with the identities of
  \<open>include/t81/types/T81Symbol.hpp\<close>), reflective frames (\<open>tier2/reflective.cpp\<close>), the recursor
  (\<open>tier3/recursive.cpp\<close>) and infinite forms (\<open>tier5/infinite.cpp\<close>).  \<open>evaluate_loop\<close> of the recursor and
  the text of a collapsed sum need arithmetic on doubles and are left out.
\<close>

section \<open>Symbol identities\<close>

text \<open>The identity of a name is ten plus its position in the order of first use.\<close>

definition symbol_intern :: "string list \<Rightarrow> string \<Rightarrow> u64 \<times> string list" where
  "symbol_intern pool name =
     (case find_index (\<lambda>s. s = name) pool of
        Some i \<Rightarrow> (word_of_nat (10 + i), pool)
      | None \<Rightarrow> (word_of_nat (10 + length pool), pool @ [name]))"

definition symbol_valid :: "u64 \<Rightarrow> bool" where
  "symbol_valid x \<longleftrightarrow> x \<noteq> 0"

text \<open>\<open>%016llx\<close>\<close>
definition hex16 :: "u64 \<Rightarrow> string" where
  "hex16 x = map (\<lambda>k. ''0123456789abcdef'' ! unat (drop_bit (4 * (15 - k)) x AND 15)) [0 ..< 16]"

text \<open>The section sign is the two bytes of its UTF-8 encoding.\<close>
definition symbol_text :: "string list \<Rightarrow> u64 \<Rightarrow> string" where
  "symbol_text pool x =
     (if \<not> symbol_valid x then [CHR 0xC2, CHR 0xA7] @ ''null''
      else if 10 \<le> unat x \<and> unat x - 10 < length pool then pool ! (unat x - 10)
      else [CHR 0xC2, CHR 0xA7] @ hex16 x)"

section \<open>Symbolic graphs\<close>

definition empty_graph :: symbolic_graph where
  "empty_graph = \<lparr>sg_nodes = [], sg_edges = []\<rparr>"

definition add_node :: "u64 \<times> string \<Rightarrow> symbolic_graph \<Rightarrow> symbolic_graph" where
  "add_node node g = g\<lparr>sg_nodes := sg_nodes g @ [node]\<rparr>"

definition add_edge :: "u64 \<Rightarrow> u64 \<Rightarrow> string \<Rightarrow> symbolic_graph \<Rightarrow> symbolic_graph" where
  "add_edge x y label g = g\<lparr>sg_edges := sg_edges g @ [(x, y, label)]\<rparr>"

text \<open>Atoms are compared by their identity alone; \<open>std::unique\<close> keeps the first of equal neighbours.
  Atoms with one identity carry one label, so that the order in which \<open>std::sort\<close> leaves them
  cannot be told.\<close>

definition edge_key :: "u64 \<times> u64 \<times> string \<Rightarrow> int \<times> int \<times> string" where
  "edge_key e = (case e of (x, y, label) \<Rightarrow> (sint x, sint y, label))"

fun unique_by :: "('a \<Rightarrow> 'b) \<Rightarrow> 'a list \<Rightarrow> 'a list" where
  "unique_by f (x # y # xs) = (if f x = f y then unique_by f (x # xs) else x # unique_by f (y # xs))"
| "unique_by f xs = xs"

definition canonicalize :: "symbolic_graph \<Rightarrow> symbolic_graph" where
  "canonicalize g = g\<lparr>sg_nodes := unique_by fst (sort_key (\<lambda>n. sint (fst n)) (sg_nodes g)),
     sg_edges := unique_by edge_key (sort_key edge_key (sg_edges g))\<rparr>"

definition apply_rewrite :: "string list \<Rightarrow> u64 \<Rightarrow> u64 \<Rightarrow> symbolic_graph \<Rightarrow> symbolic_graph" where
  "apply_rewrite pool match_node replace_node g =
     (if \<not> symbol_valid match_node \<or> match_node = replace_node then g
      else let subst = (\<lambda>x. if x = match_node then replace_node else x);
               nodes = map (\<lambda>(x, l). if x = match_node then (replace_node, symbol_text pool replace_node)
                                     else (x, l)) (sg_nodes g);
               edges = map (\<lambda>(x, y, l). (subst x, subst y, l)) (sg_edges g);
               touched = (list_ex (\<lambda>n. fst n = match_node) (sg_nodes g) \<or>
                          list_ex (\<lambda>(x, y, l). x = match_node \<or> y = match_node) (sg_edges g))
           in if touched then canonicalize (g\<lparr>sg_nodes := nodes, sg_edges := edges\<rparr>) else g)"

fun nodes_ok :: "u64 list \<Rightarrow> u64 list \<Rightarrow> bool" where
  "nodes_ok seen [] = True"
| "nodes_ok seen (x # xs) = (symbol_valid x \<and> x \<notin> set seen \<and> nodes_ok (x # seen) xs)"

text \<open>The loop over the edges, with the map \<open>transition_targets\<close>.\<close>
fun edges_ok :: "u64 list \<Rightarrow> ((u64 \<times> string) \<Rightarrow> u64 option) \<Rightarrow> (u64 \<times> u64 \<times> string) list \<Rightarrow> bool" where
  "edges_ok ids targets [] = True"
| "edges_ok ids targets ((x, y, label) # es) =
     (symbol_valid x \<and> symbol_valid y \<and> x \<in> set ids \<and> y \<in> set ids \<and>
      (case targets (x, label) of
         None \<Rightarrow> edges_ok ids (targets((x, label) \<mapsto> y)) es
       | Some z \<Rightarrow> z = y \<and> edges_ok ids targets es))"

definition is_confluent :: "symbolic_graph \<Rightarrow> bool" where
  "is_confluent g \<longleftrightarrow> nodes_ok [] (map fst (sg_nodes g)) \<and>
     edges_ok (map fst (sg_nodes g)) (\<lambda>_. None) (sg_edges g)"

section \<open>Reflective frames\<close>

definition empty_frame :: reflective_frame where
  "empty_frame = \<lparr>rf_pc = 0, rf_registers = [], rf_description = [], rf_justification = [],
     rf_sealed = False, rf_hash = 0\<rparr>"

definition add_step :: "string \<Rightarrow> reflective_frame \<Rightarrow> reflective_frame" where
  "add_step step f = f\<lparr>rf_justification := rf_justification f @ [step]\<rparr>"

definition capture_state :: "nat \<Rightarrow> i64 list \<Rightarrow> string \<Rightarrow> reflective_frame \<Rightarrow> reflective_frame" where
  "capture_state n regs description f =
     (add_step (''Captured state: '' @ description)
       (f\<lparr>rf_pc := n, rf_registers := regs, rf_description := description\<rparr>))
     \<lparr>rf_sealed := False, rf_hash := 0\<rparr>"

definition frame_check :: "string \<Rightarrow> reflective_frame \<Rightarrow> bool" where
  "frame_check criteria f \<longleftrightarrow> str_contains (rf_description f) criteria \<or>
     list_ex (\<lambda>step. str_contains step criteria) (rf_justification f)"

definition frame_trace :: "nat \<Rightarrow> i64 list \<Rightarrow> reflective_frame \<Rightarrow> reflective_frame" where
  "frame_trace n regs f =
     (if rf_sealed f then f
      else add_step (''Trace PC='' @ show_nat n @
        concat (map (\<lambda>i. '' R'' @ show_nat i @ ''='' @ show_sint (regs ! i))
          [0 ..< min (length regs) 4])) f)"

definition mix_text :: "u64 \<Rightarrow> string \<Rightarrow> u64" where
  "mix_text = foldl (\<lambda>h ch. (h XOR of_char ch) * 0x100000001b3)"

definition frame_seal :: "reflective_frame \<Rightarrow> reflective_frame" where
  "frame_seal f =
     (if rf_sealed f then f
      else let h = foldl mix_text (mix_text 0xcbf29ce484222325 (rf_description f)) (rf_justification f)
           in add_step (''Sealed hash='' @ show_nat (unat h)) (f\<lparr>rf_hash := h, rf_sealed := True\<rparr>))"

definition axion_trace_event :: "string \<Rightarrow> reflective_frame \<Rightarrow> string" where
  "axion_trace_event action f =
     ''cog:tier2:reflect action='' @ action @ '' pc='' @ show_nat (rf_pc f) @ '' steps='' @
     show_nat (length (rf_justification f)) @ '' sealed='' @ (if rf_sealed f then ''1'' else ''0'') @
     (if rf_sealed f then '' hash='' @ show_nat (unat (rf_hash f)) else []) @
     (if rf_description f \<noteq> [] then '' desc='' @ [CHR 0x22] @ rf_description f @ [CHR 0x22] else [])"

section \<open>The recursor\<close>

definition f64_le :: "f64 \<Rightarrow> f64 \<Rightarrow> bool" where
  "f64_le x y \<longleftrightarrow> f64_less x y \<or> f64_eq x y"

definition proof_valid :: "contraction_proof \<Rightarrow> bool" where
  "proof_valid p \<longleftrightarrow> cp_verified p \<and> f64_le (cp_final_entropy p) (cp_initial_entropy p)"

definition can_recurse :: "recursor \<Rightarrow> bool" where
  "can_recurse r \<longleftrightarrow> sint (current_depth r) < sint (max_depth r)"

definition verify_depth_proof :: "contraction_proof \<Rightarrow> recursor \<Rightarrow> bool" where
  "verify_depth_proof p r \<longleftrightarrow> proof_valid p \<and> \<not> sint (current_depth r) \<ge> sint (max_depth r) \<and>
     (proofs r = [] \<or> \<not> f64_less (cp_final_entropy (last (proofs r))) (cp_initial_entropy p))"

text \<open>\<open>++current_depth\<close> is below \<open>max_depth\<close> here.\<close>
definition push_frame :: "contraction_proof \<Rightarrow> recursor \<Rightarrow> bool \<times> recursor" where
  "push_frame p r =
     (if \<not> verify_depth_proof p r then (False, r)
      else (True, r\<lparr>proofs := proofs r @ [p], current_depth := current_depth r + 1\<rparr>))"

definition contract_top :: "f64 \<Rightarrow> recursor \<Rightarrow> bool \<times> recursor" where
  "contract_top next_entropy r =
     (if proofs r = [] then (False, r)
      else let top = last (proofs r) in
        if \<not> cp_verified top then (False, r)
        else if f64_less (cp_final_entropy top) next_entropy then (False, r)
        else (True, r\<lparr>proofs := butlast (proofs r) @ [top\<lparr>cp_final_entropy := next_entropy\<rparr>]\<rparr>))"

definition pop_frame :: "recursor \<Rightarrow> recursor" where
  "pop_frame r =
     (if 0 < sint (current_depth r) \<and> proofs r \<noteq> []
      then r\<lparr>proofs := butlast (proofs r), current_depth := current_depth r - 1\<rparr> else r)"

definition has_active_frame :: "recursor \<Rightarrow> bool" where
  "has_active_frame r \<longleftrightarrow> proofs r \<noteq> [] \<and> 0 < sint (current_depth r)"

definition current_entropy :: "recursor \<Rightarrow> f64" where
  "current_entropy r = (if proofs r = [] then 0 else cp_final_entropy (last (proofs r)))"

section \<open>Infinite forms\<close>

definition empty_form :: infinite_form where
  "empty_form = \<lparr>is_convergent = False, convergence_signature = [], is_geometric = False,
     first_term = (0, 1), ratio = (0, 1), inf_sum = (0, 1), lazy_terms = []\<rparr>"

definition seed_lazy_prefix :: "infinite_form \<Rightarrow> infinite_form" where
  "seed_lazy_prefix f = (if lazy_terms f \<noteq> [] then f else f\<lparr>lazy_terms := [first_term f]\<rparr>)"

fun expand_terms :: "nat \<Rightarrow> fraction \<Rightarrow> fraction list \<Rightarrow> fraction list option" where
  "expand_terms 0 r terms = Some terms"
| "expand_terms (Suc n) r terms = do {
     t \<leftarrow> frac_mul (last terms) r;
     expand_terms n r (terms @ [t])
   }"

text \<open>\<open>None\<close> is an exception of the fraction arithmetic.\<close>
definition expand_lazy :: "nat \<Rightarrow> infinite_form \<Rightarrow> (bool \<times> infinite_form) option" where
  "expand_lazy steps f =
     (if \<not> is_geometric f then Some (False, f)
      else if steps = 0 then Some (True, f)
      else let f = seed_lazy_prefix f in do {
        terms \<leftarrow> expand_terms steps (ratio f) (lazy_terms f);
        Some (True, f\<lparr>lazy_terms := terms\<rparr>)
      })"

text \<open>Whether \<open>collapse\<close> finds the series convergent, and the sum it computes.\<close>

definition geometric_convergent :: "infinite_form \<Rightarrow> bool" where
  "geometric_convergent f \<longleftrightarrow> frac_cmp (ratio f) (1, 1) < 0 \<and> frac_cmp (-1, 1) (ratio f) < 0"

definition geometric_sum :: "infinite_form \<Rightarrow> fraction option" where
  "geometric_sum f = do { denom \<leftarrow> frac_sub (1, 1) (ratio f); frac_div (first_term f) denom }"

section \<open>Graphs: confluence and canonical form\<close>

lemma nodes_ok_iff:
  "nodes_ok seen xs \<longleftrightarrow> (\<forall>x \<in> set xs. symbol_valid x) \<and> distinct xs \<and> set xs \<inter> set seen = {}"
  by (induction seen xs rule: nodes_ok.induct) auto

text \<open>Transitions are deterministic: an edge fixes the target of its source and label.\<close>
definition deterministic :: "(u64 \<times> u64 \<times> string) set \<Rightarrow> bool" where
  "deterministic E \<longleftrightarrow> (\<forall>x y z l. (x, y, l) \<in> E \<longrightarrow> (x, z, l) \<in> E \<longrightarrow> y = z)"

lemma edges_ok_iff:
  "deterministic E \<Longrightarrow> (\<And>x l y. targets (x, l) = Some y \<longleftrightarrow> (x, y, l) \<in> E) \<Longrightarrow>
     edges_ok ids targets es \<longleftrightarrow>
     (\<forall>(x, y, l) \<in> set es. symbol_valid x \<and> symbol_valid y \<and> x \<in> set ids \<and> y \<in> set ids) \<and>
     deterministic (E \<union> set es)"
proof (induction es arbitrary: targets E)
  case Nil
  then show ?case by simp
next
  case (Cons e es)
  obtain x y l where e: "e = (x, y, l)" by (cases e) auto
  show ?case
  proof (cases "targets (x, l)")
    case None
    with Cons.prems(2) have new: "(x, z, l) \<notin> E" for z by (metis option.distinct(1))
    with Cons.prems(1) have det: "deterministic (insert (x, y, l) E)" unfolding deterministic_def by blast
    have "(targets((x, l) \<mapsto> y)) (u, m) = Some v \<longleftrightarrow> (u, v, m) \<in> insert (x, y, l) E" for u m v
      using Cons.prems(2) new by auto
    from Cons.IH [OF det this] None e show ?thesis by (simp add: fun_upd_def)
  next
    case (Some z)
    then have z: "(x, z, l) \<in> E" using Cons.prems(2) by simp
    show ?thesis
    proof (cases "z = y")
      case True
      with z have "E \<union> set (e # es) = E \<union> set es" by (auto simp: e)
      with Cons.IH [OF Cons.prems] Some True show ?thesis by (simp add: e)
    next
      case False
      with z have "\<not> deterministic (E \<union> set (e # es))" unfolding deterministic_def e by auto
      with Some e False show ?thesis by simp
    qed
  qed
qed

lemma is_confluent_iff:
  "is_confluent g \<longleftrightarrow> distinct (map fst (sg_nodes g)) \<and> (\<forall>n \<in> set (sg_nodes g). symbol_valid (fst n)) \<and>
     (\<forall>(x, y, l) \<in> set (sg_edges g). symbol_valid x \<and> symbol_valid y \<and>
        x \<in> fst ` set (sg_nodes g) \<and> y \<in> fst ` set (sg_nodes g)) \<and>
     deterministic (set (sg_edges g))"
  using edges_ok_iff [of "{}" "\<lambda>_. None" "map fst (sg_nodes g)" "sg_edges g"]
  by (auto simp: is_confluent_def nodes_ok_iff deterministic_def)

lemma unique_by_subset: "set (unique_by f xs) \<subseteq> set xs"
  by (induction f xs rule: unique_by.induct) auto

lemma unique_by_image: "f ` set (unique_by f xs) = f ` set xs"
  by (induction f xs rule: unique_by.induct) auto

lemma unique_by_inj: "inj f \<Longrightarrow> set (unique_by f xs) = set xs"
  using unique_by_image [of f xs] by (simp add: inj_image_eq_iff)

lemma unique_by_sorted:
  fixes f :: "'a \<Rightarrow> 'b :: linorder"
  shows "sorted (map f xs) \<Longrightarrow> sorted (map f (unique_by f xs)) \<and> distinct (map f (unique_by f xs))"
proof (induction f xs rule: unique_by.induct)
  case (1 f x y xs)
  show ?case
  proof (cases "f x = f y")
    case False
    with 1 have "sorted (map f (unique_by f (y # xs))) \<and> distinct (map f (unique_by f (y # xs)))" by simp
    moreover have "f x < f y" "\<forall>z \<in> set (y # xs). f y \<le> f z" using 1(3) False by auto
    then have "\<forall>z \<in> set (unique_by f (y # xs)). f x < f z"
      using unique_by_subset [of f "y # xs"] by fastforce
    ultimately show ?thesis using False by (auto simp: less_imp_le)
  qed (use 1 in auto)
qed auto

lemma unique_by_id:
  assumes "distinct (map f xs)"
  shows "unique_by f xs = xs"
  using assms by (induction f xs rule: unique_by.induct) auto

lemma edge_key_inj: "inj edge_key"
  by (rule injI) (auto simp: edge_key_def intro: signed_word_eqI split: prod.splits)

lemma canonicalize_sets:
  "set (sg_edges (canonicalize g)) = set (sg_edges g)"
  "fst ` set (sg_nodes (canonicalize g)) = fst ` set (sg_nodes g)"
  by (simp_all add: canonicalize_def unique_by_inj [OF edge_key_inj] unique_by_image)

lemma unique_by_cong:
  "(\<And>x y. f x = f y \<longleftrightarrow> g x = g y) \<Longrightarrow> unique_by f xs = unique_by g xs"
  by (induction f xs rule: unique_by.induct) auto

lemma canonical_list:
  fixes f :: "'a \<Rightarrow> 'b :: linorder"
  shows "unique_by f (sort_key f (unique_by f (sort_key f xs))) = unique_by f (sort_key f xs)"
proof -
  have "sorted (map f (unique_by f (sort_key f xs)))" "distinct (map f (unique_by f (sort_key f xs)))"
    using unique_by_sorted [of f "sort_key f xs"] by simp_all
  then show ?thesis by (simp add: sort_key_id_if_sorted unique_by_id)
qed

lemma canonicalize_idem: "canonicalize (canonicalize g) = canonicalize g"
proof -
  have "unique_by fst = unique_by (\<lambda>n :: u64 \<times> string. sint (fst n))"
    by (intro ext unique_by_cong) (auto intro: signed_word_eqI)
  then show ?thesis by (simp add: canonicalize_def canonical_list)
qed

lemma canonicalize_nodes_distinct: "distinct (map fst (sg_nodes (canonicalize g)))"
proof -
  have "unique_by fst = unique_by (\<lambda>n :: u64 \<times> string. sint (fst n))"
    by (intro ext unique_by_cong) (auto intro: signed_word_eqI)
  then have "distinct (map sint (map fst (sg_nodes (canonicalize g))))"
    using unique_by_sorted [of "\<lambda>n. sint (fst n)" "sort_key (\<lambda>n. sint (fst n)) (sg_nodes g)"]
    by (simp add: canonicalize_def comp_def)
  then show ?thesis by (rule distinct_map [THEN iffD1, THEN conjunct1])
qed

text \<open>A rewrite replaces every occurrence of the matched symbol, and nothing else.\<close>

lemma apply_rewrite_sets:
  assumes "symbol_valid m" "m \<noteq> r"
  shows "fst ` set (sg_nodes (apply_rewrite pool m r g)) = (\<lambda>x. if x = m then r else x) ` fst ` set (sg_nodes g)"
    "set (sg_edges (apply_rewrite pool m r g)) =
       (\<lambda>(x, y, l). (if x = m then r else x, if y = m then r else y, l)) ` set (sg_edges g)"
proof -
  let ?n = "map (\<lambda>(x, l). if x = m then (r, symbol_text pool r) else (x, l)) (sg_nodes g)"
  let ?e = "map (\<lambda>(x, y, l). (if x = m then r else x, if y = m then r else y, l)) (sg_edges g)"
  let ?touched = "list_ex (\<lambda>n. fst n = m) (sg_nodes g) \<or> list_ex (\<lambda>(x, y, l). x = m \<or> y = m) (sg_edges g)"
  have eq: "apply_rewrite pool m r g = (if ?touched then canonicalize (g\<lparr>sg_nodes := ?n, sg_edges := ?e\<rparr>) else g)"
    using assms by (simp add: apply_rewrite_def Let_def)
  have n: "fst ` set ?n = (\<lambda>x. if x = m then r else x) ` fst ` set (sg_nodes g)"
    by (force simp: image_iff split: prod.splits if_splits)
  show "fst ` set (sg_nodes (apply_rewrite pool m r g)) = (\<lambda>x. if x = m then r else x) ` fst ` set (sg_nodes g)"
  proof (cases ?touched)
    case True
    have "sg_nodes (g\<lparr>sg_nodes := ?n, sg_edges := ?e\<rparr>) = ?n" by simp
    with True n show ?thesis by (simp only: eq if_True canonicalize_sets)
  next
    case False
    then show ?thesis unfolding eq by (force simp: list_ex_iff image_iff)
  qed
  show "set (sg_edges (apply_rewrite pool m r g)) =
      (\<lambda>(x, y, l). (if x = m then r else x, if y = m then r else y, l)) ` set (sg_edges g)"
  proof (cases ?touched)
    case True
    have "sg_edges (g\<lparr>sg_nodes := ?n, sg_edges := ?e\<rparr>) = ?e" by simp
    with True show ?thesis by (simp only: eq if_True canonicalize_sets set_map)
  next
    case False
    then show ?thesis unfolding eq by (force simp: list_ex_iff image_iff)
  qed
qed

section \<open>Frames: a seal is final for tracing\<close>

lemma frame_seal_facts:
  "rf_sealed (frame_seal f)" "frame_seal (frame_seal f) = frame_seal f"
  "frame_trace n regs (frame_seal f) = frame_seal f"
  by (simp_all add: frame_seal_def frame_trace_def add_step_def Let_def)

lemma frame_check_grows: "frame_check c f \<Longrightarrow> frame_check c (add_step step f)"
  by (auto simp: frame_check_def add_step_def)

end
