(* ===== verification/T81_Exec_Cog.thy ===== *)
theory T81_Exec_Cog
  imports T81_Exec_Refine T81_Exec_Data T81_Cog
begin

text \<open>
  Instruction handlers of \<open>core/vm/vm.cpp\<close> on the structures of the cognitive tiers: symbolic graphs,
  reflective frames, the recursor and infinite forms.  \<open>InfCollapse\<close> prints a double and is left out.
\<close>

section \<open>Lookups and allocation\<close>

definition infinite_form_at :: "state \<Rightarrow> i64 \<Rightarrow> infinite_form option" where
  "infinite_form_at s h = (case handle_get (infinite_forms s) h of Some (Some f) \<Rightarrow> Some f | _ \<Rightarrow> None)"

text \<open>An assignment through \<open>symbolic_graph_ptr\<close>, \<open>tier2_frame_ptr\<close> and \<open>infinite_form_ptr\<close>.\<close>

definition set_graph :: "i64 \<Rightarrow> symbolic_graph \<Rightarrow> vm \<Rightarrow> vm" where
  "set_graph h g = upd_st (\<lambda>s. s\<lparr>symbolic_graphs := (symbolic_graphs s)[size_of_i64 (h - 1) := g]\<rparr>)"

definition set_frame :: "i64 \<Rightarrow> reflective_frame \<Rightarrow> vm \<Rightarrow> vm" where
  "set_frame h f = upd_ctx (\<lambda>c. c\<lparr>tier2_frames := (tier2_frames c)[size_of_i64 (h - 1) := f]\<rparr>)"

definition set_form :: "i64 \<Rightarrow> infinite_form \<Rightarrow> vm \<Rightarrow> vm" where
  "set_form h f = upd_st (\<lambda>s. s\<lparr>infinite_forms := (infinite_forms s)[size_of_i64 (h - 1) := Some f]\<rparr>)"

text \<open>The limits of the policy; a limit is read as an unsigned 64-bit number.\<close>

definition over_limit :: "u64 \<Rightarrow> i64 option \<Rightarrow> bool" where
  "over_limit n limit = (case limit of None \<Rightarrow> False | Some m \<Rightarrow> unat n > size_of_i64 m)"

definition policy_limit :: "(policy \<Rightarrow> i64 option) \<Rightarrow> state \<Rightarrow> i64 option" where
  "policy_limit f s = (case policy_opt s of None \<Rightarrow> None | Some p \<Rightarrow> f p)"

definition alloc_symbolic_graph :: "opcode \<Rightarrow> symbolic_graph \<Rightarrow> vm \<Rightarrow> (trap + i64) \<times> vm" where
  "alloc_symbolic_graph oper g vm =
     (let s = st vm; n = word_of_nat (length (sg_nodes g)) in
      if over_limit (met_symbolic_graphs (metrics s) + 1) (policy_limit max_symbolic_graphs s) then
        (Inl SecurityFault, rec_event oper 0 0 (deny ''Policy: max-symbolic-graphs limit exceeded'') vm)
      else if over_limit (total_symbolic_nodes s + n) (policy_limit max_symbolic_nodes s) then
        (Inl SecurityFault, rec_event oper 0 0 (deny ''Policy: max-symbolic-nodes limit exceeded'') vm)
      else let vm = upd_st (\<lambda>s. s\<lparr>total_symbolic_nodes := total_symbolic_nodes s + n,
                      symbolic_graphs := symbolic_graphs s @ [g],
                      metrics := (metrics s)\<lparr>met_symbolic_graphs := met_symbolic_graphs (metrics s) + 1,
                        met_symbolic_nodes := met_symbolic_nodes (metrics s) + n\<rparr>\<rparr>) vm;
               h = length (symbolic_graphs (st vm))
           in (Inr (i64_of_size h), log_access oper Seg_Heap h 1 ''graph alloc'' vm))"

definition alloc_infinite_form :: "opcode \<Rightarrow> infinite_form \<Rightarrow> vm \<Rightarrow> ((trap + i64) \<times> vm) option" where
  "alloc_infinite_form oper f vm =
     (let s = st vm in
      if over_limit (met_infinite_forms (metrics s) + 1) (policy_limit max_infinite_forms s) then
        Some (Inl SecurityFault, rec_event oper 0 0 (deny ''Max infinite forms limit exceeded'') vm)
      else do {
        (h, s) \<leftarrow> (if free_infinite_indices s \<noteq> [] then do {
                     let raw = last (free_infinite_indices s);
                     slots \<leftarrow> arr_set (infinite_forms s) raw (Some f);
                     Some (raw + 1, s\<lparr>free_infinite_indices := butlast (free_infinite_indices s),
                       infinite_forms := slots\<rparr>)
                   }
                   else Some (length (infinite_forms s) + 1,
                     s\<lparr>infinite_forms := infinite_forms s @ [Some f]\<rparr>));
        let vm = vm\<lparr>st := s\<lparr>metrics := (metrics s)\<lparr>met_infinite_forms := met_infinite_forms (metrics s) + 1\<rparr>\<rparr>\<rparr>;
        Some (Inr (i64_of_size h), log_access oper Seg_Heap h 1 ''InfAlloc'' vm)
      })"

section \<open>Symbolic graphs\<close>

definition count_rewrites :: "nat \<Rightarrow> vm \<Rightarrow> vm" where
  "count_rewrites n = upd_telemetry (\<lambda>y. y\<lparr>symbolic_rewrites := symbolic_rewrites y + n\<rparr>)"

text \<open>\<open>T81Symbol::intern\<close> on the process-wide table.\<close>
definition intern_id :: "string \<Rightarrow> vm \<Rightarrow> u64 \<times> vm" where
  "intern_id name vm = (let (x, pool) = symbol_intern (symbol_ids vm) name in (x, vm\<lparr>symbol_ids := pool\<rparr>))"

text \<open>The guard looks at register \<open>a\<close> only; a subscript \<open>b\<close> out of range is undefined.\<close>

definition exec_sym_load :: handler where
  "exec_sym_load i cpc vm =
     (if bad_a i then fault DecodeFault vm
      else do {
        t \<leftarrow> get_tag (ib i) vm;
        v \<leftarrow> get_val (ib i) vm;
        let (g, vm) = (case (if t = VT_SymbolHandle then handle_get (symbols (st vm)) v else None) of
            None \<Rightarrow> (empty_graph, vm)
          | Some name \<Rightarrow> let (x, vm) = intern_id name vm in (add_node (x, name) empty_graph, vm));
        let (res, vm) = alloc_symbolic_graph (opcode i) g vm;
        (case res of
           Inl tr \<Rightarrow> fault tr vm
         | Inr h \<Rightarrow> do {
             vm \<leftarrow> put_reg (ia i) h VT_SymbolicGraphHandle vm;
             continue (rec_event (opcode i) 0 h (allow ''SymLoad'') (count_rewrites 1 vm))
           })
      })"

definition rewrite_graph :: "i64 \<Rightarrow> symbolic_graph \<Rightarrow> string \<Rightarrow> string \<Rightarrow> vm \<Rightarrow> vm" where
  "rewrite_graph h g m r vm =
     (let (mi, vm) = intern_id m vm;
          (ri, vm) = intern_id r vm;
          g' = apply_rewrite (symbol_ids vm) mi ri g;
          vm = set_graph h g' vm
      in upd_st (\<lambda>s. s\<lparr>metrics := (metrics s)\<lparr>met_symbolic_nodes := met_symbolic_nodes (metrics s) +
           (word_of_nat (length (sg_nodes g')) - word_of_nat (length (sg_nodes g)))\<rparr>\<rparr>) vm)"

definition exec_sym_rewrite :: handler where
  "exec_sym_rewrite i cpc vm =
     (if bad_abc i then fault DecodeFault vm
      else do {
        ta \<leftarrow> get_tag (ia i) vm;
        bt \<leftarrow> get_tag (ib i) vm;
        ct \<leftarrow> get_tag (ic i) vm;
        av \<leftarrow> get_val (ia i) vm;
        bv \<leftarrow> get_val (ib i) vm;
        cv \<leftarrow> get_val (ic i) vm;
        (if ta \<noteq> VT_SymbolicGraphHandle \<or> bt \<noteq> VT_SymbolHandle \<or> ct \<noteq> VT_SymbolHandle
         then fault TypeFault vm
         else case handle_get (symbolic_graphs (st vm)) av of
           None \<Rightarrow> fault BoundsFault vm
         | Some g \<Rightarrow>
             let vm = (case (handle_get (symbols (st vm)) bv, handle_get (symbols (st vm)) cv) of
                   (Some m, Some r) \<Rightarrow> rewrite_graph av g m r vm
                 | _ \<Rightarrow> vm)
             in continue (rec_event (opcode i) 0 0 (allow ''SymRewrite'') (count_rewrites 3 vm)))
      })"

definition exec_sym_confluence :: handler where
  "exec_sym_confluence i cpc vm =
     (if bad_ab i then fault DecodeFault vm
      else do {
        t \<leftarrow> get_tag (ib i) vm;
        v \<leftarrow> get_val (ib i) vm;
        (if t \<noteq> VT_SymbolicGraphHandle then fault TypeFault vm
         else let conf = bool_word (case handle_get (symbolic_graphs (st vm)) v of
                    None \<Rightarrow> False | Some g \<Rightarrow> is_confluent g)
              in do {
                vm \<leftarrow> set_reg (op_a i) conf VT_Bool vm;
                continue (rec_event (opcode i) 0 conf (allow ''SymConfluence'') (count_rewrites 1 vm))
              })
      })"

definition exec_sym_canon :: handler where
  "exec_sym_canon i cpc vm =
     (if bad_a i then fault DecodeFault vm
      else do {
        t \<leftarrow> get_tag (ia i) vm;
        v \<leftarrow> get_val (ia i) vm;
        (if t \<noteq> VT_SymbolicGraphHandle then fault TypeFault vm
         else let vm = (case handle_get (symbolic_graphs (st vm)) v of
                    None \<Rightarrow> vm | Some g \<Rightarrow> set_graph v (canonicalize g) vm)
              in continue (rec_event (opcode i) 0 0 (allow ''SymCanon'') (count_rewrites 2 vm)))
      })"

definition exec_sym_bind :: handler where
  "exec_sym_bind i cpc vm = continue (rec_event (opcode i) 0 0 (allow ''SymBind'') vm)"

section \<open>Reflective frames\<close>

text \<open>The verdict is built from the frame after it has been moved into the table: what is left of it
  has no steps, and its description is taken to be empty, as the standard libraries leave it.\<close>

definition exec_refl_cap :: handler where
  "exec_refl_cap i cpc vm = with_tier i Tier2 ''reflective-opcode'' vm (\<lambda>vm.
     if bad_a i then fault DecodeFault vm
     else do {
       t \<leftarrow> get_tag (ib i) vm;
       v \<leftarrow> get_val (ib i) vm;
       let description = (case (if t = VT_SymbolHandle then handle_get (symbols (st vm)) v else None) of
              None \<Rightarrow> [] | Some x \<Rightarrow> x);
       let frame = capture_state cpc (registers (cur vm)) description empty_frame;
       let vm = upd_ctx (\<lambda>c. c\<lparr>tier2_frames := tier2_frames c @ [frame]\<rparr>) vm;
       let n = length (tier2_frames (cur vm));
       vm \<leftarrow> put_reg (ia i) (i64_of_size n) VT_Tier2FrameHandle vm;
       continue (rec_event (opcode i) (i32_of_size n) 0
         (allow (axion_trace_event ''capture'' (empty_frame\<lparr>rf_pc := cpc\<rparr>))) vm)
     })"

text \<open>The instructions on a frame whose handle is in register \<open>n\<close>.\<close>
definition with_frame :: "nat \<Rightarrow> (i64 \<Rightarrow> reflective_frame \<Rightarrow> vm \<Rightarrow> outcome) \<Rightarrow> vm \<Rightarrow> outcome" where
  "with_frame n body vm = do {
     t \<leftarrow> get_tag n vm;
     h \<leftarrow> get_val n vm;
     (if t \<noteq> VT_Tier2FrameHandle then fault TypeFault vm
      else case handle_get (tier2_frames (cur vm)) h of
        None \<Rightarrow> fault BoundsFault vm
      | Some f \<Rightarrow> body h f vm)
   }"

text \<open>The guard looks at register \<open>b\<close> only.\<close>
definition exec_refl_justify :: handler where
  "exec_refl_justify i cpc vm = with_tier i Tier2 ''reflective-opcode'' vm (\<lambda>vm.
     if \<not> reg_ok_b (op_b i) then fault DecodeFault vm
     else with_frame (ia i) (\<lambda>h f vm. do {
       x \<leftarrow> reg_text (ib i) vm;
       let f = add_step (case x of None \<Rightarrow> [] | Some y \<Rightarrow> y) f;
       continue (rec_event (opcode i) 0 0 (allow (axion_trace_event ''justify'' f)) (set_frame h f vm))
     }) vm)"

definition exec_refl_check :: handler where
  "exec_refl_check i cpc vm = with_tier i Tier2 ''reflective-opcode'' vm (\<lambda>vm.
     if bad_abc i then fault DecodeFault vm
     else with_frame (ib i) (\<lambda>h f vm. do {
       x \<leftarrow> reg_text (ic i) vm;
       (case x of
          None \<Rightarrow> fault TypeFault vm
        | Some criteria \<Rightarrow> do {
            let r = bool_word (frame_check criteria f);
            vm \<leftarrow> deliver_set i r VT_Bool vm;
            continue (rec_event (opcode i) 0 r (allow ''ReflCheck'') vm)
          })
     }) vm)"

definition exec_refl_trace :: handler where
  "exec_refl_trace i cpc vm = with_tier i Tier2 ''reflective-opcode'' vm (\<lambda>vm.
     if bad_a i then fault DecodeFault vm
     else with_frame (ia i) (\<lambda>h f vm.
       let f = frame_trace cpc (registers (cur vm)) f
       in continue (rec_event (opcode i) 0 0 (allow (axion_trace_event ''trace'' f)) (set_frame h f vm))) vm)"

definition exec_refl_seal :: handler where
  "exec_refl_seal i cpc vm = with_tier i Tier2 ''reflective-opcode'' vm (\<lambda>vm.
     if bad_a i then fault DecodeFault vm
     else with_frame (ia i) (\<lambda>h f vm.
       let f = frame_seal f
       in continue (rec_event (opcode i) 0 (ucast (rf_hash f)) (allow (axion_trace_event ''seal'' f))
            (set_frame h f vm))) vm)"

section \<open>The recursor\<close>

definition upd_recursor :: "(recursor \<Rightarrow> recursor) \<Rightarrow> vm \<Rightarrow> vm" where
  "upd_recursor f = upd_ctx (\<lambda>c. c\<lparr>tier3_recursor := f (tier3_recursor c)\<rparr>)"

text \<open>Stack use, heap use and call depth, in \<open>std::size_t\<close>.\<close>
definition system_entropy :: "vm \<Rightarrow> u64" where
  "system_entropy vm =
     word_of_nat (seg_limit (stack_seg (layout (st vm)))) - word_of_nat (sp (cur vm)) +
     (word_of_nat (heap_ptr (st vm)) - word_of_nat (seg_start (heap_seg (layout (st vm))))) +
     word_of_nat (call_depth (cur vm))"

definition f64_of_u64 :: "u64 \<Rightarrow> f64" where
  "f64_of_u64 x = word_of_nat (float_bits 53 1023 (unat x))"

definition exec_recurse :: handler where
  "exec_recurse i cpc vm = with_tier i Tier3 ''recurse-opcode'' vm (\<lambda>vm.
     let vm = upd_recursor (\<lambda>r. r\<lparr>max_depth := i32_of_size (recursion_limit_for_tier (cur_tier vm))\<rparr>) vm in
     if \<not> can_recurse (tier3_recursor (cur vm)) then
       fault TierFault (record_tier_fault (opcode i) cpc ''tier3-recursor-limit''
         ''Tier 3 recursion limit exceeded'' (i64_of_i32 (current_depth (tier3_recursor (cur vm)))) vm)
     else
       let x = f64_of_u64 (system_entropy vm);
           (ok, r) = push_frame \<lparr>cp_verified = True, cp_initial_entropy = x, cp_final_entropy = x\<rparr>
             (tier3_recursor (cur vm)) in
       if \<not> ok then
         fault TierFault (record_tier_fault (opcode i) cpc ''tier3-depth-proof''
           ''Tier 3 depth proof rejected'' (i64_of_i32 (current_depth (tier3_recursor (cur vm)))) vm)
       else continue (rec_event (opcode i) 0 (i64_of_i32 (current_depth r))
              (allow ''Recurse: depth increased'') (upd_recursor (\<lambda>_. r) vm)))"

definition exec_contract :: handler where
  "exec_contract i cpc vm = with_tier i Tier3 ''contract-opcode'' vm (\<lambda>vm.
     if \<not> reg_ok_b (op_b i) then fault DecodeFault vm
     else do {
       t \<leftarrow> get_tag (ib i) vm;
       v \<leftarrow> get_val (ib i) vm;
       let x = (if t = VT_Int then f64_of_i64 v
                else if t = VT_FloatHandle then
                  (case handle_get (floats (st vm)) v of None \<Rightarrow> 0 | Some y \<Rightarrow> y)
                else 0);
       n \<leftarrow> i64_of_f64 x;
       let (ok, r) = contract_top x (tier3_recursor (cur vm));
       if \<not> ok then fault TierFault (record_tier_fault (opcode i) cpc ''tier3-contraction''
              ''Contract: non-contractive entropy update'' n vm)
       else continue (rec_event (opcode i) 0 n (allow ''Contract: entropy contracted'')
              (upd_recursor (\<lambda>_. r) vm))
     })"

definition exec_entropy :: handler where
  "exec_entropy i cpc vm = with_tier i Tier3 ''entropy-opcode'' vm (\<lambda>vm.
     if bad_a i then fault DecodeFault vm
     else do {
       let entropy = ucast (system_entropy vm);
       vm \<leftarrow> set_reg (op_a i) entropy VT_Int vm;
       continue (update_flags entropy vm)
     })"

definition exec_depth :: handler where
  "exec_depth i cpc vm = with_tier i Tier3 ''depth-opcode'' vm (\<lambda>vm.
     if bad_a i then fault DecodeFault vm
     else do {
       let depth = i64_of_i32 (current_depth (tier3_recursor (cur vm)));
       vm \<leftarrow> set_reg (op_a i) depth VT_Int vm;
       continue (update_flags depth vm)
     })"

definition exec_terminate :: handler where
  "exec_terminate i cpc vm = with_tier i Tier3 ''terminate-opcode'' vm (\<lambda>vm.
     let vm = upd_recursor pop_frame vm
     in continue (rec_event (opcode i) 0 (i64_of_i32 (current_depth (tier3_recursor (cur vm))))
          (allow ''Terminate: depth decreased'') vm))"

section \<open>Infinite forms\<close>

text \<open>A number in register \<open>n\<close>: an integer or a fraction; a handle without a fraction reads as zero.\<close>
definition reg_fraction :: "nat \<Rightarrow> vm \<Rightarrow> fraction option option" where
  "reg_fraction n vm = do {
     t \<leftarrow> get_tag n vm;
     v \<leftarrow> get_val n vm;
     (if t = VT_Int then map_option Some (frac_normalize (sint v) 1)
      else if t = VT_FractionHandle then
        Some (Some (case handle_get (fractions (st vm)) v of None \<Rightarrow> (0, 1) | Some f \<Rightarrow> f))
      else Some None)
   }"

definition exec_inf_seed :: handler where
  "exec_inf_seed i cpc vm = with_tier i Tier5 ''infinite-opcode'' vm (\<lambda>vm.
     if bad_ab i then fault DecodeFault vm
     else do {
       x \<leftarrow> reg_fraction (ib i) vm;
       (case x of
          None \<Rightarrow> fault TypeFault vm
        | Some a \<Rightarrow> do {
            (res, vm) \<leftarrow> alloc_infinite_form (opcode i)
              (seed_lazy_prefix (empty_form\<lparr>first_term := a, is_geometric := True\<rparr>)) vm;
            (case res of
               Inl tr \<Rightarrow> fault tr vm
             | Inr h \<Rightarrow> do {
                 vm \<leftarrow> put_reg (ia i) h VT_InfiniteHandle vm;
                 continue (rec_event (opcode i) 0 h (allow ''InfSeed'') vm)
               })
          })
     })"

definition with_form :: "nat \<Rightarrow> (i64 \<Rightarrow> infinite_form \<Rightarrow> vm \<Rightarrow> outcome) \<Rightarrow> vm \<Rightarrow> outcome" where
  "with_form n body vm = do {
     t \<leftarrow> get_tag n vm;
     h \<leftarrow> get_val n vm;
     (if t \<noteq> VT_InfiniteHandle then fault TypeFault vm
      else case infinite_form_at (st vm) h of
        None \<Rightarrow> fault BoundsFault vm
      | Some f \<Rightarrow> body h f vm)
   }"

text \<open>\<open>None\<close> from \<open>expand_lazy\<close> is an exception of the fraction arithmetic.\<close>
definition exec_inf_expand :: handler where
  "exec_inf_expand i cpc vm = with_tier i Tier5 ''infinite-opcode'' vm (\<lambda>vm.
     if bad_ab i then fault DecodeFault vm
     else with_form (ia i) (\<lambda>h f vm. do {
       x \<leftarrow> reg_fraction (ib i) vm;
       (case x of
          None \<Rightarrow> fault TypeFault vm
        | Some r \<Rightarrow> do {
            (_, f) \<leftarrow> expand_lazy 1 (f\<lparr>ratio := r\<rparr>);
            continue (rec_event (opcode i) 0 h (allow ''InfExpand'') (set_form h f vm))
          })
     }) vm)"

definition exec_inf_converge :: handler where
  "exec_inf_converge i cpc vm = with_tier i Tier5 ''infinite-opcode'' vm (\<lambda>vm.
     if bad_ab i then fault DecodeFault vm
     else with_form (ib i) (\<lambda>h f vm. do {
       let r = bool_word (is_convergent f);
       vm \<leftarrow> deliver_set i r VT_Bool vm;
       continue (rec_event (opcode i) 0 r (allow ''InfConverge'') vm)
     }) vm)"

text \<open>\<open>CollapseSignature::generate\<close>\<close>
definition collapse_signature :: "infinite_form \<Rightarrow> string" where
  "collapse_signature f = (if is_convergent f then convergence_signature f else ''DIVERGENT'')"

definition exec_inf_signature :: handler where
  "exec_inf_signature i cpc vm = with_tier i Tier5 ''infinite-opcode'' vm (\<lambda>vm.
     if bad_ab i then fault DecodeFault vm
     else with_form (ib i) (\<lambda>h f vm.
       let (x, vm) = intern_text (collapse_signature f) vm in do {
         vm \<leftarrow> put_reg (ia i) x VT_SymbolHandle vm;
         continue (rec_event (opcode i) 0 x (allow ''InfSignature'') vm)
       }) vm)"

section \<open>Safety\<close>

lemma state_wf_cog:
  assumes "state_wf s"
  shows "state_wf (s\<lparr>symbolic_graphs := a\<rparr>)" "state_wf (s\<lparr>metrics := b\<rparr>)"
    "state_wf (s\<lparr>total_symbolic_nodes := n, symbolic_graphs := a, metrics := b\<rparr>)"
  by (rule iffD2 [OF state_wf_cong assms]; simp)+

lemma wf_cog [wf_intros]:
  assumes "vm_wf k vm"
  shows "vm_wf k (set_graph h g vm)" "vm_wf k (upd_st (\<lambda>s. s\<lparr>metrics := b s\<rparr>) vm)"
    "vm_wf k (upd_st (\<lambda>s. s\<lparr>total_symbolic_nodes := n s, symbolic_graphs := a s, metrics := b s\<rparr>) vm)"
    "vm_wf k (vm\<lparr>symbol_ids := pool\<rparr>)" "vm_wf k (count_rewrites m vm)"
  using assms upd_st_wf [OF assms] state_wf_cog [OF vm_wf_state [OF assms]]
  by (simp_all add: set_graph_def count_rewrites_def wf_upd_telemetry) (simp add: vm_wf_def)

lemma wf_ctx_cog [wf_intros]:
  assumes "vm_wf k vm"
  shows "vm_wf k (set_frame h f vm)" "vm_wf k (upd_recursor r vm)"
    "vm_wf k (upd_ctx (\<lambda>c. c\<lparr>tier2_frames := fs c\<rparr>) vm)"
  unfolding set_frame_def upd_recursor_def
  by (rule upd_ctx_wf [OF assms], rule ctx_wf_same [OF cur_wf [OF assms]]; simp)+

lemma wf_intern_id: "vm_wf k vm \<Longrightarrow> intern_id name vm = (x, vm') \<Longrightarrow> vm_wf k vm'"
  by (auto simp: intern_id_def wf_cog split: prod.splits)

lemma wf_rewrite_graph: "vm_wf k vm \<Longrightarrow> vm_wf k (rewrite_graph h g m r vm)"
  unfolding rewrite_graph_def Let_def case_prod_beta
  by (intro wf_cog) (metis wf_intern_id prod.collapse)

lemma wf_alloc_graph: "vm_wf k vm \<Longrightarrow> alloc_symbolic_graph oper g vm = (r, vm') \<Longrightarrow> vm_wf k vm'"
  by (auto simp: alloc_symbolic_graph_def Let_def wf_intros split: if_splits)

lemma safe_alloc_graph [ub_free]:
  assumes "vm_wf k vm" "\<And>r vm'. vm_wf k vm' \<Longrightarrow> safe k (f r vm')"
  shows "safe k (case alloc_symbolic_graph oper g vm of (r, vm') \<Rightarrow> f r vm')"
  using assms wf_alloc_graph [OF assms(1)] by (auto split: prod.split)

lemma state_wf_forms:
  assumes "state_wf s" "free_list_ok fr fs"
  shows "state_wf (s\<lparr>free_infinite_indices := fr, infinite_forms := fs\<rparr>)"
  using assms ctx_wf_cong [of "s\<lparr>free_infinite_indices := fr, infinite_forms := fs\<rparr>" s]
  by (simp add: state_wf_def)

lemma free_list_set:
  "free_list_ok fr fs \<Longrightarrow> j < length fs \<Longrightarrow> fs ! j \<noteq> None \<Longrightarrow> free_list_ok fr (fs[j := v])"
  by (auto simp: free_list_ok_def nth_list_update)

lemma free_list_take:
  assumes "free_list_ok fr fs" "fr \<noteq> []"
  shows "last fr < length fs" "free_list_ok (butlast fr) (fs[last fr := v])"
proof -
  from assms show "last fr < length fs" by (simp add: free_list_ok_def)
  have "fr = butlast fr @ [last fr]" using assms(2) by simp
  then have d: "distinct (butlast fr)" "last fr \<notin> set (butlast fr)"
    using assms(1) unfolding free_list_ok_def by (metis distinct_append, metis distinct_append disjoint_iff list.set_intros(1))
  moreover have "fs[last fr := v] ! i = None" "i < length fs" if "i \<in> set (butlast fr)" for i
    using assms(1) d(2) that in_set_butlastD [OF that] by (cases "i = last fr"; auto simp: free_list_ok_def)+
  ultimately show "free_list_ok (butlast fr) (fs[last fr := v])" by (simp add: free_list_ok_def)
qed

lemma wf_set_form:
  assumes "vm_wf k vm" "infinite_form_at (st vm) h = Some f"
  shows "vm_wf k (set_form h g vm)"
proof -
  let ?j = "size_of_i64 (h - 1)" and ?s = "st vm"
  have j: "?j < length (infinite_forms ?s)" "infinite_forms ?s ! ?j \<noteq> None"
    using assms(2) by (auto simp: infinite_form_at_def handle_get_def Let_def split: option.splits if_splits)
  have "free_list_ok (free_infinite_indices ?s) ((infinite_forms ?s)[?j := Some g])"
    using vm_wf_state [OF assms(1)] j by (intro free_list_set) (simp_all add: state_wf_def)
  from state_wf_forms [OF vm_wf_state [OF assms(1)] this] have
    "state_wf (?s\<lparr>infinite_forms := (infinite_forms ?s)[?j := Some g]\<rparr>)" by simp
  then show ?thesis unfolding set_form_def by (intro upd_st_wf [OF assms(1)]) simp_all
qed

lemma alloc_form_total:
  assumes "vm_wf k vm"
  shows "\<exists>r vm'. alloc_infinite_form oper f vm = Some (r, vm') \<and> vm_wf k vm'"
proof -
  let ?s = "st vm"
  have s: "state_wf ?s" by (rule vm_wf_state [OF assms])
  then have fl: "free_list_ok (free_infinite_indices ?s) (infinite_forms ?s)" by (simp add: state_wf_def)
  have wf: "vm_wf k (log_access oper Seg_Heap n 1 ''InfAlloc''
      (vm\<lparr>st := ?s\<lparr>free_infinite_indices := fr, infinite_forms := fs, metrics := m\<rparr>\<rparr>))"
    if "free_list_ok fr fs" for fr fs n m
  proof (rule wf_log_access)
    have "state_wf (?s\<lparr>free_infinite_indices := fr, infinite_forms := fs, metrics := m\<rparr>)"
      using state_wf_cog(2) [OF state_wf_forms [OF s that], of m] by simp
    with assms show "vm_wf k (vm\<lparr>st := ?s\<lparr>free_infinite_indices := fr, infinite_forms := fs, metrics := m\<rparr>\<rparr>)"
      by (simp add: vm_wf_def)
  qed
  show ?thesis
  proof (cases "free_infinite_indices ?s = []")
    case True
    have upd: "?s\<lparr>free_infinite_indices := [], infinite_forms := fs, metrics := m\<rparr> =
        ?s\<lparr>infinite_forms := fs, metrics := m\<rparr>" for fs m using True by simp
    have "free_list_ok [] (infinite_forms ?s @ [Some f])" by (simp add: free_list_ok_def)
    from wf [OF this, unfolded upd] True show ?thesis
      by (auto simp: alloc_infinite_form_def Let_def wf_rec_event assms)
  next
    case False
    from free_list_take [OF fl False] wf [OF free_list_take(2) [OF fl False]] False show ?thesis
      by (auto simp: alloc_infinite_form_def Let_def wf_rec_event assms)
  qed
qed

lemma safe_alloc_form [ub_free]:
  assumes "vm_wf k vm" "\<And>r vm'. vm_wf k vm' \<Longrightarrow> safe k (f (r, vm'))"
  shows "safe k (alloc_infinite_form oper g vm \<bind> f)"
  using alloc_form_total [OF assms(1), of oper g] assms(2) by auto

lemma safe_with_frame [ub_free]:
  assumes "vm_wf k vm" "n < kRegisters" "\<And>h f. safe k (body h f vm)"
  shows "safe k (with_frame n body vm)"
  unfolding with_frame_def using assms by (intro ub_free wf_intros; simp)

lemma safe_with_form [ub_free]:
  assumes "vm_wf k vm" "n < kRegisters"
    "\<And>f. infinite_form_at (st vm) (registers (cur vm) ! n) = Some f \<Longrightarrow>
       safe k (body (registers (cur vm) ! n) f vm)"
  shows "safe k (with_form n body vm)"
  unfolding with_form_def using assms by (intro ub_free wf_intros; simp)

lemma safe_reg_fraction [ub_free]:
  assumes "vm_wf k vm" "n < kRegisters" "\<And>x. safe k (f x)"
  shows "safe k (reg_fraction n vm \<bind> f)"
proof -
  have "reg_fraction n vm \<noteq> None"
    using assms(1,2) cur_wf [OF assms(1)]
    by (auto simp: reg_fraction_def get_tag_def get_val_def ctx_wf_def frac_normalize_def Let_def)
  with assms(3) show ?thesis by auto
qed

lemma safe_exec_sym:
  assumes "vm_wf k vm" "operand_fits i"
  shows "safe k (exec_sym_rewrite i cpc vm)" "safe k (exec_sym_confluence i cpc vm)"
    "safe k (exec_sym_canon i cpc vm)" "safe k (exec_sym_bind i cpc vm)"
proof -
  show "safe k (exec_sym_confluence i cpc vm)" "safe k (exec_sym_bind i cpc vm)"
    unfolding exec_sym_confluence_def exec_sym_bind_def Let_def
    using assms good_regs_ab(1) [of i] by (intro ub_free wf_intros; simp)+
  have "vm_wf k (case r of None \<Rightarrow> vm | Some g \<Rightarrow> set_graph v (canonicalize g) vm)" for r v
    using assms(1) by (simp add: wf_cog split: option.split)
  then show "safe k (exec_sym_canon i cpc vm)"
    unfolding exec_sym_canon_def Let_def using assms(1) good_regs(1) [of i]
    by (intro ub_free wf_intros; simp)
  have "vm_wf k (case (x, y) of (Some m, Some r) \<Rightarrow> rewrite_graph h g m r vm | _ \<Rightarrow> vm)" for x y h g
    using assms(1) wf_rewrite_graph [OF assms(1)] by (simp split: option.split)
  then show "safe k (exec_sym_rewrite i cpc vm)"
    unfolding exec_sym_rewrite_def Let_def using assms good_regs_ab(2) [of i]
    by (intro ub_free wf_intros; simp)
qed

text \<open>The operand that two handlers do not check, and the arithmetic that may raise.\<close>

definition cog_ok :: "insn \<Rightarrow> vm \<Rightarrow> bool" where
  "cog_ok i vm \<longleftrightarrow>
     (opcode i = Op_SymLoad \<or> opcode i = Op_ReflCap \<longrightarrow> reg_ok_b (op_b i)) \<and>
     (opcode i = Op_ReflJustify \<longrightarrow> reg_ok (op_a i)) \<and>
     (opcode i = Op_Contract \<longrightarrow> reg_ok_b (op_b i) \<longrightarrow>
        (let v = registers (cur vm) ! ib i; t = register_tags (cur vm) ! ib i in
         i64_of_f64 (if t = VT_Int then f64_of_i64 v
           else if t = VT_FloatHandle then (case handle_get (floats (st vm)) v of None \<Rightarrow> 0 | Some y \<Rightarrow> y)
           else 0) \<noteq> None)) \<and>
     (opcode i = Op_InfExpand \<longrightarrow> (\<forall>f r. Some f \<in> set (infinite_forms (st vm)) \<longrightarrow>
        reg_fraction (ib i) vm = Some (Some r) \<longrightarrow> expand_lazy 1 (f\<lparr>ratio := r\<rparr>) \<noteq> None))"

lemma safe_exec_sym_load:
  assumes "vm_wf k vm" "operand_fits i" "cog_ok i vm" "opcode i = Op_SymLoad"
  shows "safe k (exec_sym_load i cpc vm)"
proof -
  have "ib i < kRegisters" using assms(2-4) reg_ok_b_idx by (simp add: cog_ok_def)
  moreover have "vm_wf k vm'" if "(case x of None \<Rightarrow> (empty_graph, vm)
      | Some name \<Rightarrow> case intern_id name vm of (x, vm) \<Rightarrow> (add_node (x, name) empty_graph, vm)) = (g, vm')" for x g vm'
    using that assms(1) by (auto split: option.splits prod.splits dest: wf_intern_id)
  ultimately show ?thesis
    unfolding exec_sym_load_def Let_def using assms good_regs(1) [of i]
    by (intro ub_free wf_intros; auto)
qed

text \<open>A promotion changes the tier and the log, and nothing that the handlers read.\<close>

definition same_data :: "vm \<Rightarrow> vm \<Rightarrow> bool" where
  "same_data vm vm' \<longleftrightarrow> registers (cur vm') = registers (cur vm) \<and>
     register_tags (cur vm') = register_tags (cur vm) \<and> floats (st vm') = floats (st vm) \<and>
     fractions (st vm') = fractions (st vm) \<and> infinite_forms (st vm') = infinite_forms (st vm)"

lemma same_data_rec_event [simp]: "same_data vm (rec_event oper tag v r vm') = same_data vm vm'"
  by (simp add: same_data_def cur_rec_event)
    (simp add: rec_event_def upd_st_def log_ext_fields [OF log_ext_record_axion_event])

lemma promote_once_data:
  assumes "vm_wf k vm" "promote_once oper required cause vm = Some (b, vm')"
  shows "same_data vm vm'"
proof -
  have c: "same_data vm (upd_ctx (\<lambda>c. c\<lparr>tier_status := x\<rparr>) (vm\<lparr>axion_engine := e\<rparr>))" for x e
    using assms(1) by (simp add: same_data_def vm_wf_def state_wf_def cur_def upd_ctx_def)
  have "same_data vm (vm\<lparr>axion_engine := e\<rparr>)" for e by (simp add: same_data_def cur_def)
  with c assms(2) show ?thesis
    by (auto simp: promote_once_def Let_def split: bind_splits sum.splits prod.splits)
qed

lemma ensure_min_tier_loop_data:
  "vm_wf k vm \<Longrightarrow> ensure_min_tier_loop n oper required cause vm = Some (b, vm') \<Longrightarrow> same_data vm vm'"
proof (induction n arbitrary: vm)
  case 0
  then show ?case by (simp add: same_data_def)
next
  case (Suc n)
  obtain ok vm1 where p: "promote_once oper required cause vm = Some (ok, vm1)" "vm_wf k vm1"
    using promote_once_total [OF Suc.prems(1)] by blast
  with promote_once_data [OF Suc.prems(1) p(1)] Suc show ?case
    by (auto simp: same_data_def split: if_splits)
qed

lemma safe_with_tier_data:
  assumes "vm_wf k vm" "\<And>vm'. vm_wf k vm' \<Longrightarrow> same_data vm vm' \<Longrightarrow> safe k (body vm')"
  shows "safe k (with_tier i required cause vm body)"
proof -
  obtain b vm' where e: "ensure_min_tier (opcode i) required cause vm = Some (b, vm')" "vm_wf k vm'"
    using ensure_min_tier_total [OF assms(1)] by blast
  with ensure_min_tier_loop_data [OF assms(1)] have "same_data vm vm'" by (simp add: ensure_min_tier_def)
  with e assms(2) show ?thesis by (simp add: with_tier_def safe_fault)
qed

lemma cog_ok_same: "same_data vm vm' \<Longrightarrow> cog_ok i vm' = cog_ok i vm"
  by (simp add: cog_ok_def same_data_def reg_fraction_def get_val_def get_tag_def cong: if_cong)

lemma safe_exec_refl:
  assumes "vm_wf k vm" "operand_fits i" "cog_ok i vm"
  shows "opcode i = Op_ReflCap \<Longrightarrow> safe k (exec_refl_cap i cpc vm)"
    "opcode i = Op_ReflJustify \<Longrightarrow> safe k (exec_refl_justify i cpc vm)"
    "safe k (exec_refl_check i cpc vm)" "safe k (exec_refl_trace i cpc vm)" "safe k (exec_refl_seal i cpc vm)"
proof -
  show "safe k (exec_refl_check i cpc vm)" "safe k (exec_refl_trace i cpc vm)" "safe k (exec_refl_seal i cpc vm)"
    unfolding exec_refl_check_def exec_refl_trace_def exec_refl_seal_def Let_def
    using assms(1,2) good_regs(1) [of i] good_regs_ab(2) [of i] by (intro ub_free wf_intros; simp)+
  have "opcode i = Op_ReflCap \<Longrightarrow> ib i < kRegisters" "opcode i = Op_ReflJustify \<Longrightarrow> ia i < kRegisters"
    using assms(2,3) reg_ok_b_idx by (simp_all add: cog_ok_def)
  then show "opcode i = Op_ReflCap \<Longrightarrow> safe k (exec_refl_cap i cpc vm)"
    "opcode i = Op_ReflJustify \<Longrightarrow> safe k (exec_refl_justify i cpc vm)"
    unfolding exec_refl_cap_def exec_refl_justify_def Let_def
    using assms(1,2) good_regs(1) [of i] reg_ok_b_idx [of i] by (intro ub_free wf_intros; simp)+
qed

lemma safe_exec_recursor:
  assumes "vm_wf k vm" "operand_fits i" "cog_ok i vm"
  shows "safe k (exec_recurse i cpc vm)" "opcode i = Op_Contract \<Longrightarrow> safe k (exec_contract i cpc vm)"
    "safe k (exec_entropy i cpc vm)" "safe k (exec_depth i cpc vm)" "safe k (exec_terminate i cpc vm)"
proof -
  show "safe k (exec_entropy i cpc vm)" "safe k (exec_depth i cpc vm)" "safe k (exec_terminate i cpc vm)"
    "safe k (exec_recurse i cpc vm)"
    unfolding exec_entropy_def exec_depth_def exec_terminate_def exec_recurse_def Let_def
    using assms(1,2) good_regs(1) [of i] by (intro ub_free wf_intros wf_record_tier_fault; simp)+
  show "safe k (exec_contract i cpc vm)" if op: "opcode i = Op_Contract"
    unfolding exec_contract_def Let_def
  proof (intro safe_with_tier_data [OF assms(1)] safe_if safe_fault)
    fix vm'
    assume w: "vm_wf k vm'" and d: "same_data vm vm'" and r: "\<not> \<not> reg_ok_b (op_b i)"
    let ?v = "registers (cur vm') ! ib i" and ?t = "register_tags (cur vm') ! ib i"
    obtain n where "i64_of_f64 (if ?t = VT_Int then f64_of_i64 ?v else if ?t = VT_FloatHandle then
        (case handle_get (floats (st vm')) ?v of None \<Rightarrow> 0 | Some y \<Rightarrow> y) else 0) = Some n"
      using cog_ok_same [OF d, of i, unfolded cog_ok_def Let_def] assms(3) r op unfolding cog_ok_def Let_def by blast
    then show "safe k (get_tag (ib i) vm' \<bind> (\<lambda>t. get_val (ib i) vm' \<bind> (\<lambda>v.
        i64_of_f64 (if t = VT_Int then f64_of_i64 v else if t = VT_FloatHandle
          then case handle_get (floats (st vm')) v of None \<Rightarrow> 0 | Some y \<Rightarrow> y else 0) \<bind> (\<lambda>n.
        case contract_top (if t = VT_Int then f64_of_i64 v else if t = VT_FloatHandle
          then case handle_get (floats (st vm')) v of None \<Rightarrow> 0 | Some y \<Rightarrow> y else 0) (tier3_recursor (cur vm')) of
          (ok, r) \<Rightarrow> if \<not> ok then fault TierFault (record_tier_fault (opcode i) cpc ''tier3-contraction''
              ''Contract: non-contractive entropy update'' n vm')
            else continue (rec_event (opcode i) 0 n (allow ''Contract: entropy contracted'')
              (upd_recursor (\<lambda>_. r) vm'))))))"
      using w r assms(2) reg_ok_b_idx [of i]
      by (intro safe_get_tag [OF w] safe_get_val [OF w])
        (auto intro!: ub_free wf_intros wf_record_tier_fault split: prod.split)
  qed
qed

lemma safe_exec_infinite:
  assumes "vm_wf k vm" "operand_fits i" "cog_ok i vm"
  shows "safe k (exec_inf_seed i cpc vm)" "opcode i = Op_InfExpand \<Longrightarrow> safe k (exec_inf_expand i cpc vm)"
    "safe k (exec_inf_converge i cpc vm)" "safe k (exec_inf_signature i cpc vm)"
proof -
  show "safe k (exec_inf_seed i cpc vm)" "safe k (exec_inf_converge i cpc vm)"
    "safe k (exec_inf_signature i cpc vm)"
    unfolding exec_inf_seed_def exec_inf_converge_def exec_inf_signature_def Let_def
    using assms(1,2) good_regs_ab(1) [of i] by (intro ub_free wf_intros; auto dest: wf_alloc(1))+
  show "safe k (exec_inf_expand i cpc vm)" if op: "opcode i = Op_InfExpand"
    unfolding exec_inf_expand_def
  proof (intro safe_with_tier_data [OF assms(1)] safe_if safe_fault safe_with_form)
    fix vm' f
    assume w: "vm_wf k vm'" and d: "same_data vm vm'" and r: "\<not> bad_ab i"
      and f: "infinite_form_at (st vm') (registers (cur vm') ! ia i) = Some f"
    have "Some f \<in> set (infinite_forms (st vm'))"
      using f by (auto simp: infinite_form_at_def handle_get_def Let_def split: option.splits if_splits)
        (metis not_le nth_mem)
    then have ex: "reg_fraction (ib i) vm' = Some (Some q) \<Longrightarrow> expand_lazy 1 (f\<lparr>ratio := q\<rparr>) \<noteq> None" for q
      using cog_ok_same [OF d, of i] assms(3) op unfolding cog_ok_def by blast
    have "safe k (reg_fraction (ib i) vm' \<bind> (\<lambda>_. continue vm'))"
      using good_regs_ab(1) [OF assms(2) r] by (intro safe_reg_fraction [OF w] safe_continue [OF w]) simp
    then obtain x where x: "reg_fraction (ib i) vm' = Some x"
      by (cases "reg_fraction (ib i) vm'") (simp_all add: safe_def)
    let ?done = "\<lambda>g. continue (rec_event (opcode i) 0 (registers (cur vm') ! ia i) (allow ''InfExpand'')
             (set_form (registers (cur vm') ! ia i) g vm'))"
    have fin: "safe k (?done g)" for g by (intro safe_continue wf_rec_event wf_set_form [OF w f])
    show "safe k (reg_fraction (ib i) vm' \<bind> (\<lambda>x. case x of None \<Rightarrow> fault TypeFault vm'
       | Some q \<Rightarrow> expand_lazy 1 (f\<lparr>ratio := q\<rparr>) \<bind> (\<lambda>(_, g). ?done g)))"
    proof (cases x)
      case None
      with x w show ?thesis by (simp add: safe_fault)
    next
      case (Some q)
      with x ex obtain b g where "expand_lazy 1 (f\<lparr>ratio := q\<rparr>) = Some (b, g)" by fastforce
      with x Some fin show ?thesis by simp
    qed
  qed (use good_regs_ab(1) [OF assms(2)] in auto)
qed

end
