(* ===== verification/T81_Dispatch.thy ===== *)
theory T81_Dispatch
  imports T81_Exec_Cog
begin

text \<open>
  The switch of \<open>Interpreter::step\<close> over the opcodes (\<open>core/vm/vm.cpp\<close>), and the condition under which
  an instruction has no undefined behaviour.  The opcodes that the model leaves out, the kernels
  that compute with floating point numbers, the loads from a weights file or a hash, and the two
  conversions between floats and fractions, are \<open>unmodelled\<close>; every other number is a decode fault.
\<close>

text \<open>Without a weights model the handle is zero.\<close>
definition exec_weights_load :: handler where
  "exec_weights_load i cpc vm =
     (if bad_a i then fault DecodeFault vm
      else if sint (op_b i) \<le> 0 \<or> size_of_i64 (op_b i) > length (symbols (st vm)) then fault DecodeFault vm
      else do {
        name \<leftarrow> arr_get (symbols (st vm)) (size_of_i64 (op_b i - 1));
        vm \<leftarrow> put_reg (ia i) 0 VT_WeightsTensorHandle vm;
        continue (rec_event (opcode i) (i32_of_i64 (op_b i)) 0
          (allow (''weights.load '' @ [CHR 0x22] @ name @ [CHR 0x22])) vm)
      })"

definition handlers :: "(opcode \<times> handler) list" where
  "handlers = [
      (Op_Nop, exec_nop), (Op_Halt, exec_halt), (Op_LoadImm, exec_load_imm), (Op_Mov, exec_mov),
      (Op_Inc, exec_inc), (Op_Dec, exec_dec), (Op_Add, exec_add), (Op_Sub, exec_sub),
      (Op_Load, exec_load), (Op_MetaRead, exec_meta_read), (Op_MetaWrite, exec_meta_write),
      (Op_MetaReflect, exec_meta_reflect), (Op_MetaRefine, exec_meta_refine),
      (Op_Store, exec_store), (Op_Mul, exec_mul), (Op_Div, exec_divmod), (Op_Mod, exec_divmod),
      (Op_Jump, exec_jump), (Op_JumpIfZero, exec_jump_if_zero),
      (Op_JumpIfNotZero, exec_jump_if_not_zero), (Op_Neg, exec_neg),
      (Op_JumpIfNegative, exec_jump_if_negative), (Op_JumpIfPositive, exec_jump_if_positive),
      (Op_Less, exec_compare), (Op_LessEqual, exec_compare), (Op_Greater, exec_compare),
      (Op_GreaterEqual, exec_compare), (Op_Equal, exec_compare), (Op_NotEqual, exec_compare),
      (Op_Cmp, exec_cmp), (Op_SetF, exec_setf), (Op_Push, exec_push), (Op_Pop, exec_pop),
      (Op_StackAlloc, exec_stack_alloc), (Op_StackFree, exec_stack_free),
      (Op_HeapAlloc, exec_heap_alloc), (Op_HeapFree, exec_heap_free), (Op_TNot, exec_tnot),
      (Op_TAnd, exec_trit_binary), (Op_TOr, exec_trit_binary), (Op_TXor, exec_trit_binary),
      (Op_AxRead, exec_ax_read), (Op_AxSet, exec_ax_set), (Op_AxVerify, exec_ax_verify),
      (Op_Call, exec_call), (Op_Ret, exec_ret), (Op_Trap, exec_trap), (Op_Print, exec_print),
      (Op_StrLen, exec_str_len), (Op_StrEmpty, exec_str_empty), (Op_VecLen, exec_vec_len),
      (Op_VecEmpty, exec_vec_empty), (Op_VecFirst, exec_vec_first), (Op_VecLast, exec_vec_last),
      (Op_VecPush, exec_vec_push), (Op_VecPop, exec_vec_pop), (Op_StrConcat, exec_str_concat),
      (Op_StrStartsWith, exec_str_starts_with), (Op_StrEndsWith, exec_str_ends_with),
      (Op_StrContains, exec_str_contains), (Op_StrIndexOf, exec_str_index_of),
      (Op_StrReplace, exec_str_replace), (Op_StrVecNew, exec_new_vector),
      (Op_StrVecPush, exec_str_vec_push), (Op_StrSplit, exec_str_split),
      (Op_StrJoin, exec_str_join), (Op_I2F, exec_i2f), (Op_F2I, exec_f2i),
      (Op_I2Frac, exec_i2frac), (Op_Frac2I, exec_frac2i), (Op_FracAdd, exec_frac),
      (Op_FracSub, exec_frac), (Op_FracMul, exec_frac), (Op_FracDiv, exec_frac),
      (Op_ChkShape, exec_chk_shape), (Op_MakeOptionSome, exec_make_option_some),
      (Op_MakeOptionNone, exec_make_option_none), (Op_MakeResultOk, (exec_make_result True)),
      (Op_MakeResultErr, (exec_make_result False)), (Op_MakeEnumVariant, exec_make_enum_variant),
      (Op_MakeEnumVariantPayload, exec_make_enum_variant_payload),
      (Op_MakeComplex, exec_make_complex), (Op_OptionIsSome, exec_option_is_some),
      (Op_OptionUnwrap, exec_option_unwrap), (Op_ResultIsOk, exec_result_is_ok),
      (Op_ResultUnwrapOk, (exec_result_unwrap True)),
      (Op_ResultUnwrapErr, (exec_result_unwrap False)), (Op_EnumIsVariant, exec_enum_is_variant),
      (Op_EnumUnwrapPayload, exec_enum_unwrap_payload), (Op_TTranspose, exec_ttranspose),
      (Op_WeightsLoad, exec_weights_load), (Op_TNew, exec_tnew), (Op_TID, exec_tid), (Op_NSend, exec_nsend), (Op_NRecv, exec_nrecv),
      (Op_VWait, exec_vwait), (Op_VYield, exec_vyield), (Op_TNorm, exec_tnorm),
      (Op_Canon, exec_canon), (Op_MemZero, exec_mem_zero), (Op_Copy, exec_copy),
      (Op_AxHalt, exec_ax_halt), (Op_Assert, exec_assert), (Op_SymLoad, exec_sym_load),
      (Op_SymRewrite, exec_sym_rewrite), (Op_SymConfluence, exec_sym_confluence),
      (Op_SymCanon, exec_sym_canon), (Op_SymBind, exec_sym_bind), (Op_ReflCap, exec_refl_cap),
      (Op_ReflJustify, exec_refl_justify), (Op_ReflCheck, exec_refl_check),
      (Op_ReflTrace, exec_refl_trace), (Op_ReflSeal, exec_refl_seal), (Op_Recurse, exec_recurse),
      (Op_Contract, exec_contract), (Op_Entropy, exec_entropy), (Op_Depth, exec_depth),
      (Op_Terminate, exec_terminate), (Op_InfSeed, exec_inf_seed),
      (Op_InfExpand, exec_inf_expand), (Op_InfConverge, exec_inf_converge),
      (Op_InfSignature, exec_inf_signature), (Op_Gossip, exec_gossip), (Op_Merge, exec_merge),
      (Op_TickSync, exec_tick_sync), (Op_Coherence, exec_coherence),
      (Op_DistSeal, exec_dist_seal), (Op_AxCheck, exec_ax_check), (Op_AxReport, exec_ax_report),
      (Op_AxSign, exec_blocked_axion), (Op_AxLineage, exec_blocked_axion),
      (Op_AxCanon, exec_blocked_axion), (Op_TNeuralFwd, (exec_blocked_neural True)),
      (Op_TNeuralBwd, (exec_blocked_neural False)), (Op_BitAnd, exec_bitwise_binary),
      (Op_BitOr, exec_bitwise_binary), (Op_BitXor, exec_bitwise_binary),
      (Op_BitNot, exec_bitwise_not), (Op_BitShl, exec_bitwise_shift),
      (Op_BitShr, exec_bitwise_shift), (Op_BitUShr, exec_bitwise_shift),
      (Op_MapNew, exec_new_vector), (Op_SetNew, exec_new_vector), (Op_MapPut, exec_map_put),
      (Op_MapGet, exec_map_get), (Op_MapHas, exec_map_has), (Op_MapRemove, exec_map_remove),
      (Op_MapKeys, exec_map_keys), (Op_MapSize, exec_map_size), (Op_SetAdd, exec_set_add),
      (Op_SetRemove, exec_set_remove), (Op_SetHas, exec_set_has), (Op_SetSize, exec_set_size)
     ]"

definition unmodelled :: "opcode list" where
  "unmodelled = [Op_TVecAdd, Op_TVecMul, Op_TMatMul, Op_TTenDot, Op_FAdd, Op_FSub, Op_FMul, Op_FDiv, Op_FSin,
     Op_FCos, Op_FTan, Op_FAsin, Op_FAcos, Op_FAtan, Op_FSinh, Op_FCosh, Op_FTanh, Op_FSqrt, Op_FExp,
     Op_FLog, Op_FPow, Op_F2Frac, Op_Frac2F, Op_TExp, Op_TSqrt, Op_TSiLU, Op_TSoftmax,
     Op_TRMSNorm, Op_TRoPE, Op_TGet, Op_TSet, Op_TLoadHash, Op_InfCollapse]"

definition dispatch :: handler where
  "dispatch i = (case map_of handlers (opcode i) of
     Some h \<Rightarrow> h i
   | None \<Rightarrow> (\<lambda>cpc vm. if opcode i \<in> set unmodelled then None else fault DecodeFault vm))"

section \<open>When an instruction has no undefined behaviour\<close>

definition insn_ok :: "insn \<Rightarrow> vm \<Rightarrow> bool" where
  "insn_ok i vm \<longleftrightarrow> operand_fits i \<and> arith_ok i vm \<and> block_operands_fit i vm \<and>
     meta_operands_fit i vm \<and> data_ok i vm \<and> cog_ok i vm \<and> opcode i \<notin> set unmodelled \<and>
     (opcode i = Op_Cmp \<or> opcode i \<in> {Op_Less, Op_LessEqual, Op_Greater, Op_GreaterEqual, Op_Equal, Op_NotEqual}
        \<longrightarrow> comparable vm) \<and>
     (opcode i = Op_Coherence \<longrightarrow> drift_fits vm)"

lemma safe_exec_weights_load:
  assumes "vm_wf k vm"
  shows "safe k (exec_weights_load i cpc vm)"
proof (cases "bad_a i \<or> sint (op_b i) \<le> 0 \<or> size_of_i64 (op_b i) > length (symbols (st vm))")
  case True
  with assms show ?thesis by (auto simp: exec_weights_load_def safe_fault)
next
  case False
  have "op_b i \<noteq> 0" using False by auto
  then have "unat (op_b i - 1) < unat (op_b i)" by (metis diff_less unat_minus_one unat_gt_0 zero_less_one One_nat_def)
  with False have "size_of_i64 (op_b i - 1) < length (symbols (st vm))" by (simp add: size_of_i64_def)
  with False show ?thesis
    unfolding exec_weights_load_def using assms good_regs(1) [of i]
    by (simp; intro ub_free wf_intros; simp)
qed

text \<open>The handlers that need a condition on their operands.\<close>

lemma safe_conditional:
  assumes "vm_wf k vm" "insn_ok i vm"
  shows "opcode i = Op_MemZero \<Longrightarrow> safe k (exec_mem_zero i cpc vm)"
    "opcode i = Op_Copy \<Longrightarrow> safe k (exec_copy i cpc vm)"
    "opcode i = Op_MetaRead \<Longrightarrow> safe k (exec_meta_read i cpc vm)"
    "opcode i = Op_MetaWrite \<Longrightarrow> safe k (exec_meta_write i cpc vm)"
    "opcode i = Op_MetaRefine \<Longrightarrow> safe k (exec_meta_refine i cpc vm)"
    "opcode i = Op_Cmp \<Longrightarrow> safe k (exec_cmp i cpc vm)"
    "opcode i \<in> {Op_Less, Op_LessEqual, Op_Greater, Op_GreaterEqual, Op_Equal, Op_NotEqual} \<Longrightarrow>
       safe k (exec_compare i cpc vm)"
    "opcode i = Op_Coherence \<Longrightarrow> safe k (exec_coherence i cpc vm)"
proof -
  note ok = assms(2) [unfolded insn_ok_def block_operands_fit_def meta_operands_fit_def Let_def]
  show "opcode i = Op_MemZero \<Longrightarrow> safe k (exec_mem_zero i cpc vm)"
    "opcode i = Op_Copy \<Longrightarrow> safe k (exec_copy i cpc vm)"
    using ok by (blast intro: safe_exec_mem_zero safe_exec_copy assms(1))+
  show "opcode i = Op_MetaRead \<Longrightarrow> safe k (exec_meta_read i cpc vm)"
    "opcode i = Op_MetaWrite \<Longrightarrow> safe k (exec_meta_write i cpc vm)"
    using ok by (blast intro: safe_exec_meta_read safe_exec_meta_write assms(1))+
  show "opcode i = Op_MetaRefine \<Longrightarrow> safe k (exec_meta_refine i cpc vm)"
    using ok by (intro safe_exec_meta_refine assms(1)) blast+
  show "opcode i = Op_Cmp \<Longrightarrow> safe k (exec_cmp i cpc vm)"
    "opcode i \<in> {Op_Less, Op_LessEqual, Op_Greater, Op_GreaterEqual, Op_Equal, Op_NotEqual} \<Longrightarrow>
       safe k (exec_compare i cpc vm)"
    "opcode i = Op_Coherence \<Longrightarrow> safe k (exec_coherence i cpc vm)"
    using ok by (blast intro: safe_exec_cmp safe_exec_compare safe_exec_coherence assms(1))+
qed

lemmas safe_plain = safe_exec_nop safe_exec_halt safe_exec_load_imm safe_exec_mov safe_exec_setf
  safe_exec_push safe_exec_pop safe_exec_stack_alloc safe_exec_stack_free safe_exec_heap_alloc
  safe_exec_heap_free safe_exec_ret safe_exec_blocked safe_exec_meta_reflect safe_exec_merge
  safe_exec_tick_sync safe_exec_dist_seal safe_exec_print safe_exec_new_vector safe_exec_weights_load

lemmas safe_fitting = safe_exec_load safe_exec_store safe_exec_jumps safe_exec_bits safe_exec_call
  safe_exec_ax safe_exec_ax_check safe_exec_gossip safe_exec_strings safe_exec_str_replace
  safe_exec_str_join safe_exec_vec_size safe_exec_maps safe_exec_map_get safe_exec_make
  safe_exec_unwrap safe_exec_enum safe_exec_sym

lemmas safe_data = safe_exec_vec_ends safe_exec_vec_push safe_exec_vec_pop safe_exec_convert safe_exec_tensors

lemmas safe_cog = safe_exec_sym_load safe_exec_refl safe_exec_recursor safe_exec_infinite

lemma safe_dispatch:
  assumes "vm_wf k vm" "insn_ok i vm"
  shows "safe k (dispatch i cpc vm)"
proof -
  have fits: "operand_fits i" "arith_ok i vm" "data_ok i vm" "cog_ok i vm" "opcode i \<notin> set unmodelled"
    using assms(2) by (simp_all add: insn_ok_def)
  have "\<forall>(oper, h) \<in> set handlers. opcode i = oper \<longrightarrow> safe k (h i cpc vm)"
    by (simp add: handlers_def safe_conditional [OF assms] safe_plain [OF assms(1)]
        safe_fitting [OF assms(1) fits(1)] safe_exec_arith [OF assms(1) fits(1,2)]
        safe_data [OF assms(1) fits(1,3)] safe_cog [OF assms(1) fits(1,4)])
  then have h: "safe k (h i cpc vm)" if "(opcode i, h) \<in> set handlers" for h
    using that by auto
  show ?thesis
  proof (cases "map_of handlers (opcode i)")
    case None
    with fits assms(1) show ?thesis by (simp add: dispatch_def safe_fault)
  next
    case (Some h)
    with h [OF map_of_SomeD [OF Some]] show ?thesis by (simp add: dispatch_def)
  qed
qed

end
