(* ===== verification/T81_Step.thy ===== *)
theory T81_Step
  imports T81_Dispatch
begin

text \<open>
  The interpreter loop of \<open>core/vm/vm.cpp\<close>: \<open>load_program\<close>, \<open>step\<close>, \<open>run_to_halt\<close>, \<open>set_register\<close>,
  \<open>set_fault_injections\<close> and the collection cycle.  \<open>step\<close> is modelled for the interpreter proper: the
  hot-spot counters, which no part of the modelled state depends on, and the compiled traces of the
  just-in-time compiler are left out, so that it describes the steps that enter no compiled trace.
\<close>

section \<open>Loading a program\<close>

definition kDefaultStackSize :: nat where "kDefaultStackSize = 256"
definition kDefaultHeapSize :: nat where "kDefaultHeapSize = 768"
definition kDefaultTensorSpace :: nat where "kDefaultTensorSpace = 256"
definition kDefaultMetaSpace :: nat where "kDefaultMetaSpace = 256"

definition layout_for :: "nat \<Rightarrow> memory_layout" where
  "layout_for n =
     (let a = n + kDefaultStackSize; b = a + kDefaultHeapSize; c = b + kDefaultTensorSpace in
      \<lparr>code_seg = \<lparr>seg_start = 0, seg_limit = n\<rparr>, stack_seg = \<lparr>seg_start = n, seg_limit = a\<rparr>,
       heap_seg = \<lparr>seg_start = a, seg_limit = b\<rparr>, tensor_seg = \<lparr>seg_start = b, seg_limit = c\<rparr>,
       meta_seg = \<lparr>seg_start = c, seg_limit = c + kDefaultMetaSpace\<rparr>\<rparr>)"

text \<open>A later entry of the metadata overwrites an earlier one with the same identity.\<close>
definition index_metadata :: "enum_metadata list \<Rightarrow> i32 \<Rightarrow> nat option" where
  "index_metadata ms = foldl (\<lambda>m (n, e). m(meta_enum_id e \<mapsto> n)) (\<lambda>_. None) (enumerate 0 ms)"

definition load_state :: "program \<Rightarrow> nat \<Rightarrow> state" where
  "load_state p cnt =
     (let l = layout_for (length (insns p));
          ctx = init_ctx\<lparr>stack_base := seg_limit (stack_seg l), stack_limit := seg_start (stack_seg l),
                  sp := seg_limit (stack_seg l)\<rparr>;
          s = init_state\<lparr>contexts := [ctx], layout := l, memory := replicate (total_size l) 0,
                memory_tags := replicate (total_size l) VT_Int, floats := float_pool p,
                fractions := fraction_pool p, symbols := symbol_pool p,
                tensors := map Some (tensor_pool p), shapes := shape_pool p,
                heap_ptr := seg_start (heap_seg l), meta_ptr := seg_start (meta_seg l),
                enum_metadata := prog_enum_metadata p,
                enum_metadata_index := index_metadata (prog_enum_metadata p)\<rparr>
      in sync_system_registers s p cnt 0)"

definition plain_event :: "i32 \<Rightarrow> i64 \<Rightarrow> verdict \<Rightarrow> axion_event" where
  "plain_event tag v r = \<lparr>ev_opcode = Op_Nop, ev_tag = tag, ev_value = v, ev_verdict = r,
     ev_structured = default_structured\<rparr>"

text \<open>The policy: an exception of the parser escapes (\<open>None\<close>); a parse error installs an engine that
  denies everything; without a policy text the engine stays.\<close>

definition load_policy :: "program \<Rightarrow> vm \<Rightarrow> vm option" where
  "load_policy p vm =
     (if axion_policy_text p = [] then Some vm
      else case parse_policy (axion_policy_text p) of
        Inl Std_exception \<Rightarrow> None
      | Inl (Parse_error e) \<Rightarrow>
          let reason = ''Axion policy parse failed: '' @ e
          in Some (upd_st (\<lambda>s. s\<lparr>axion_log := axion_log s @ [plain_event 0 0 (deny reason)]\<rparr>)
               (vm\<lparr>axion_engine := DenyWithReason reason\<rparr>))
      | Inr pol \<Rightarrow>
          Some (upd_st (\<lambda>s. s\<lparr>policy_opt := Some pol, axion_log := axion_log s @
               map (\<lambda>h. plain_event (loop_id h) (i64_of_i32 (loop_depth h)) (allow (expected_reason h))) (pol_loops pol)\<rparr>)
               (vm\<lparr>axion_engine := make_policy_engine (Some pol)\<rparr>)))"

definition load_program :: "program \<Rightarrow> vm \<Rightarrow> vm option" where
  "load_program p vm = do {
     let s = load_state p (instruction_count vm);
     let t = foldl (\<lambda>t x. t\<lparr>max_shape_complexity := max (max_shape_complexity t) (tensor_shape_complexity x),
               max_tensor_rank := max (max_tensor_rank t) (size_of_i32 (tensor_rank x))\<rparr>)
               init_telemetry (tensor_pool p);
     vm \<leftarrow> load_policy p (vm\<lparr>prog := p, st := s, telemetry := [t], instructions_since_gc := 0,
              instruction_count := 0\<rparr>);
     Some (if match_metadata_text p = [] then vm
       else upd_st (\<lambda>s. s\<lparr>axion_log := axion_log s @
              [plain_event 0 0 (allow (''match metadata: '' @ match_metadata_text p))]\<rparr>) vm)
   }"

section \<open>Scheduling and fault injection\<close>

text \<open>The loop looks at every context once; the first argument counts the ones that are left.\<close>

fun find_active :: "nat \<Rightarrow> state \<Rightarrow> (bool \<times> state) option" where
  "find_active 0 s = Some (False, s\<lparr>halted := True\<rparr>)"
| "find_active (Suc r) s = do {
     c \<leftarrow> arr_get (contexts s) (current_context s);
     if \<not> ctx_halted c then Some (True, s)
     else find_active r (s\<lparr>current_context := (current_context s + 1) mod length (contexts s)\<rparr>)
   }"

fun take_fault :: "nat \<Rightarrow> fault_injection list \<Rightarrow> (trap \<times> fault_injection list) option" where
  "take_fault n [] = None"
| "take_fault n (f # fs) =
     (if n = fi_instruction_count f then Some (fi_trap f, fs)
      else map_option (\<lambda>(t, rest). (t, f # rest)) (take_fault n fs))"

definition fault_injection_reason :: "nat \<Rightarrow> trap \<Rightarrow> string" where
  "fault_injection_reason n t =
     ''FaultInjection instruction_count='' @ show_nat n @ '' trap='' @ trap_name t"

section \<open>Tier enforcement\<close>

text \<open>The loop of \<open>promote_to_fit_tier_limit\<close>: at most five promotions are left.\<close>

fun promote_to_fit :: "nat \<Rightarrow> opcode \<Rightarrow> (tier_id \<Rightarrow> bool) \<Rightarrow> string \<Rightarrow> vm \<Rightarrow> (bool \<times> vm) option" where
  "promote_to_fit 0 oper over cause vm = Some (True, vm)"
| "promote_to_fit (Suc n) oper over cause vm =
     (if over (cur_tier vm) \<and> cur_tier vm \<noteq> Tier5 then do {
        (ok, vm) \<leftarrow> ensure_min_tier oper (tier_from_rank (int (tier_rank (cur_tier vm)) + 1)) cause vm;
        if ok then promote_to_fit n oper over cause vm else Some (False, vm)
      }
      else Some (True, vm))"

text \<open>One of the four ceilings: \<open>ceil_exceeds\<close> tells whether the observed value is above that of a tier.\<close>

record ceiling =
  ceil_cause :: string
  ceil_denied :: string
  ceil_above :: string
  ceil_value :: i64
  ceil_exceeds :: "tier_id \<Rightarrow> bool"

definition enforce_ceiling :: "insn \<Rightarrow> nat \<Rightarrow> ceiling \<Rightarrow> vm \<Rightarrow> (trap option \<times> vm) option" where
  "enforce_ceiling i cpc c vm = do {
     (ok, vm) \<leftarrow> promote_to_fit (5 - tier_rank (cur_tier vm)) (opcode i) (ceil_exceeds c) (ceil_cause c) vm;
     Some (if \<not> ok then (Some TierFault,
             record_tier_fault (opcode i) cpc (ceil_cause c) (ceil_denied c) (ceil_value c) vm)
           else if ceil_exceeds c (cur_tier vm) then (Some TierFault,
             record_tier_fault (opcode i) cpc (ceil_cause c) (ceil_above c) (ceil_value c) vm)
           else (None, vm))
   }"

fun enforce_ceilings :: "insn \<Rightarrow> nat \<Rightarrow> ceiling list \<Rightarrow> vm \<Rightarrow> (trap option \<times> vm) option" where
  "enforce_ceilings i cpc [] vm = Some (None, vm)"
| "enforce_ceilings i cpc (c # cs) vm = do {
     (t, vm) \<leftarrow> enforce_ceiling i cpc c vm;
     if t = None then enforce_ceilings i cpc cs vm else Some (t, vm)
   }"

definition cur_telemetry :: "vm \<Rightarrow> tier_telemetry" where
  "cur_telemetry vm = telemetry vm ! current_context (st vm)"

definition symbolic_complexity :: "vm \<Rightarrow> u64" where
  "symbolic_complexity vm = total_symbolic_nodes (st vm) +
     word_of_nat (length (symbolic_graphs (st vm))) * 2 + word_of_nat (symbolic_rewrites (cur_telemetry vm)) * 3"

text \<open>The largest value over the live tensors and what the telemetry has seen.\<close>
definition observed :: "(tensor \<Rightarrow> nat) \<Rightarrow> nat \<Rightarrow> state \<Rightarrow> nat" where
  "observed f base s = foldl (\<lambda>n t. case t of None \<Rightarrow> n | Some x \<Rightarrow> max n (f x)) base (tensors s)"

definition observed_shape :: "vm \<Rightarrow> nat" where
  "observed_shape vm = observed tensor_shape_complexity (max_shape_complexity (cur_telemetry vm)) (st vm)"

definition observed_rank :: "vm \<Rightarrow> nat" where
  "observed_rank vm = observed (\<lambda>t. size_of_i32 (tensor_rank t)) (max_tensor_rank (cur_telemetry vm)) (st vm)"

definition branch_exceeds :: "vm \<Rightarrow> tier_id \<Rightarrow> bool" where
  "branch_exceeds vm t = entropy_exceeds (branch_events (cur_telemetry vm)) (branch_taken (cur_telemetry vm))
     (max_branch_entropy_for_tier t)"

definition ceilings :: "vm \<Rightarrow> ceiling list" where
  "ceilings vm =
     [\<lparr>ceil_cause = ''branching-entropy'',
       ceil_denied = ''Branching entropy exceeded policy after promotion attempts'',
       ceil_above = ''Branching entropy exceeded tier ceiling'',
       ceil_value = i64_of_size (entropy_floor (branch_events (cur_telemetry vm)) (branch_taken (cur_telemetry vm))),
       ceil_exceeds = branch_exceeds vm\<rparr>,
      \<lparr>ceil_cause = ''symbolic-complexity'',
       ceil_denied = ''Symbolic complexity exceeded policy after promotion attempts'',
       ceil_above = ''Symbolic complexity exceeded tier ceiling'',
       ceil_value = ucast (symbolic_complexity vm),
       ceil_exceeds = (\<lambda>t. unat (symbolic_complexity vm) > max_symbolic_complexity_for_tier t)\<rparr>,
      \<lparr>ceil_cause = ''shape-complexity'',
       ceil_denied = ''Shape complexity exceeded policy after promotion attempts'',
       ceil_above = ''Tensor shape complexity exceeded tier ceiling'',
       ceil_value = i64_of_size (observed_shape vm),
       ceil_exceeds = (\<lambda>t. observed_shape vm > max_shape_complexity_for_tier t)\<rparr>,
      \<lparr>ceil_cause = ''tensor-rank'',
       ceil_denied = ''Tensor rank exceeded policy after promotion attempts'',
       ceil_above = ''Tensor rank exceeded tier ceiling'',
       ceil_value = i64_of_size (observed_rank vm),
       ceil_exceeds = (\<lambda>t. observed_rank vm > max_tensor_rank_for_tier t)\<rparr>]"

text \<open>The rank that the workload calls for; the branch entropy overrides what recursion asked.\<close>

definition has_messages :: "state \<Rightarrow> bool" where
  "has_messages s \<longleftrightarrow> inbox (tier4_state s) \<noteq> [] \<or> outbox (tier4_state s) \<noteq> []"

definition has_infinite_state :: "state \<Rightarrow> bool" where
  "has_infinite_state s \<longleftrightarrow> list_ex (\<lambda>f. f \<noteq> None) (infinite_forms s)"

definition required_rank :: "vm \<Rightarrow> nat" where
  "required_rank vm =
     (let r = max 1 (infer_required_tier_for_recursion vm);
          r = (if branch_exceeds vm Tier4 then 5 else if branch_exceeds vm Tier3 then 4
               else if branch_exceeds vm Tier2 then 3 else if branch_exceeds vm Tier1 then 2 else r);
          r = (if unat (symbolic_complexity vm) > max_symbolic_complexity_for_tier Tier1 then max r 3 else r);
          r = (if observed_rank vm > max_tensor_rank_for_tier Tier1 \<or>
                  observed_shape vm > max_shape_complexity_for_tier Tier1 then max r 2 else r);
          r = (if observed_rank vm > max_tensor_rank_for_tier Tier2 \<or>
                  observed_shape vm > max_shape_complexity_for_tier Tier2 then max r 3 else r);
          r = (if has_messages (st vm) then max r 4 else r)
      in if has_infinite_state (st vm) then max r 5 else r)"

text \<open>A demotion needs 81 steps in a row that a lower tier could have run.\<close>

definition can_demote_to :: "nat \<Rightarrow> vm \<Rightarrow> bool" where
  "can_demote_to candidate vm \<longleftrightarrow>
     (let limit = recursion_limit_for_tier (tier_from_rank (int candidate)) in
      call_depth (cur vm) \<le> limit \<and> size_of_i32 (current_depth (tier3_recursor (cur vm))) \<le> limit \<and>
      (candidate < 5 \<longrightarrow> \<not> has_infinite_state (st vm)) \<and> (candidate < 4 \<longrightarrow> \<not> has_messages (st vm)) \<and>
      (candidate < 3 \<longrightarrow> symbolic_graphs (st vm) = []))"

definition demote :: "insn \<Rightarrow> vm \<Rightarrow> vm" where
  "demote i vm =
     (let required = required_rank vm; rank = tier_rank (cur_tier vm) in
      if required < rank then
        let vm = upd_telemetry (\<lambda>y. y\<lparr>stable_simple_steps := stable_simple_steps y + 1\<rparr>) vm in
        if stable_simple_steps (cur_telemetry vm) < 81 then vm
        else if can_demote_to (rank - 1) vm \<and> required \<le> rank - 1 then
          let vm = upd_ctx (\<lambda>c. c\<lparr>tier_status := \<lparr>tier_current = tier_from_rank (int (rank - 1)),
                     tier_label = ''tier-'' @ show_nat (rank - 1) @ ''-demoted''\<rparr>\<rparr>) vm;
              vm = rec_event (opcode i) (word_of_nat (rank - 1)) (i64_of_size (rank - 1))
                     (allow ''Cognitive Tier Demotion: convergence conditions met'') vm
          in upd_telemetry (\<lambda>y. y\<lparr>stable_simple_steps := 0\<rparr>) vm
        else vm
      else upd_telemetry (\<lambda>y. y\<lparr>stable_simple_steps := 0\<rparr>) vm)"

definition end_epoch :: "nat \<Rightarrow> nat \<Rightarrow> tier_telemetry \<Rightarrow> tier_telemetry" where
  "end_epoch shp rnk y = (if 243 \<le> epoch_steps y
     then y\<lparr>epoch_steps := 0, branch_events := 0, branch_taken := 0, symbolic_rewrites := 0,
            max_shape_complexity := shp, max_tensor_rank := rnk\<rparr> else y)"

text \<open>Everything that follows an instruction that did not trap.\<close>

definition enforce_tiers :: "insn \<Rightarrow> nat \<Rightarrow> vm \<Rightarrow> (trap option \<times> vm) option" where
  "enforce_tiers i cpc vm = do {
     let vm = upd_telemetry (\<lambda>y. y\<lparr>epoch_steps := epoch_steps y + 1\<rparr>) vm;
     let shp = observed_shape vm;
     let rnk = observed_rank vm;
     (t, vm) \<leftarrow> enforce_ceilings i cpc (ceilings vm) vm;
     let vm = (if t = None then demote i vm else vm);
     Some (t, upd_telemetry (end_epoch shp rnk) vm)
   }"

section \<open>The collection cycle\<close>

definition kGcInterval :: nat where "kGcInterval = 64"

definition gc_reason :: "string \<Rightarrow> string" where
  "gc_reason reason = ''GC cycle reason='' @ reason"

definition run_gc_cycle :: "string \<Rightarrow> vm \<Rightarrow> vm" where
  "run_gc_cycle reason vm =
     (let vm = upd_st (\<lambda>s. s\<lparr>gc_cycles := gc_cycles s + 1\<rparr>) (vm\<lparr>instructions_since_gc := 0\<rparr>);
          n = gc_cycles (st vm);
          vm = rec_event Op_Trap (i32_of_size n) (i64_of_size n) (allow (gc_reason reason)) vm;
          counts = snd (mark_and_sweep (st vm));
          vm = upd_st (\<lambda>s. fst (mark_and_sweep s)) vm;
          nt = reclaimed_tensors counts; ni = reclaimed_infinite_forms counts;
          vm = (if nt > 0 \<or> ni > 0 then rec_event Op_Trap 0 (i64_of_size (nt + ni))
                  (allow (''GC reclaimed tensors='' @ show_nat nt @ '' infinite_forms='' @ show_nat ni)) vm
                else vm);
          p = heap_ptr (st vm); frames = length (heap_frames (st vm)); start = seg_start (heap_seg (layout (st vm)));
          vm = rec_event Op_Trap Seg_Heap (i64_of_size p)
                 (allow (''heap compaction heap_frames='' @ show_nat frames @ '' heap_ptr='' @ show_nat p)) vm;
          vm = rec_event Op_Trap Seg_Heap (i64_of_size start)
                 (allow (''heap relocation from='' @ show_nat p @ '' to='' @ show_nat start @
                    '' size='' @ show_nat frames)) vm
      in upd_st (\<lambda>s. compact_heap s start) vm)"

section \<open>A step\<close>

definition finish_step :: "insn \<Rightarrow> nat \<Rightarrow> trap option \<Rightarrow> vm \<Rightarrow> outcome" where
  "finish_step i cpc trapped vm = do {
     (t, vm) \<leftarrow> (if trapped = None then enforce_tiers i cpc vm else Some (trapped, vm));
     let vm = vm\<lparr>instructions_since_gc := instructions_since_gc vm + 1\<rparr>;
     let vm = (if kGcInterval \<le> instructions_since_gc vm then run_gc_cycle ''interval'' vm else vm);
     let vm = upd_st (\<lambda>s. sync_system_registers s (prog vm) (instruction_count vm) (current_context s)) vm;
     let vm = upd_st (\<lambda>s. s\<lparr>trace := trace s @ [\<lparr>te_pc = cpc, te_opcode = opcode i, te_trap = t\<rparr>]\<rparr>) vm;
     (case t of
        Some tr \<Rightarrow> fault tr vm
      | None \<Rightarrow> continue (upd_st (\<lambda>s. s\<lparr>current_context :=
                 (current_context s + 1) mod length (contexts s)\<rparr>) vm))
   }"

text \<open>The program counter moves, the instruction is counted and the policy is asked.\<close>

definition enter_insn :: "insn \<Rightarrow> nat \<Rightarrow> vm \<Rightarrow> (verdict \<times> vm) option" where
  "enter_insn i cpc vm = do {
     let vm = set_pc (cpc + 1) vm;
     let vm = vm\<lparr>instruction_count := instruction_count vm + 1\<rparr>;
     (v, vm) \<leftarrow> eval_axion_call ''step'' cpc (opcode i) [] vm;
     Some (v, if vkind v = Deny \<or> vkind v = Warn then rec_event (opcode i) 0 0 v vm else vm)
   }"

definition run_insn :: "insn \<Rightarrow> nat \<Rightarrow> vm \<Rightarrow> outcome" where
  "run_insn i cpc vm = do {
     (v, vm) \<leftarrow> enter_insn i cpc vm;
     if vkind v = Deny then fault SecurityFault vm
     else do { (t, vm) \<leftarrow> dispatch i cpc vm; finish_step i cpc t vm }
   }"

definition run_past_end :: "vm \<Rightarrow> outcome" where
  "run_past_end vm = do {
     (v, vm) \<leftarrow> eval_axion_call ''step'' (pc (cur vm)) Op_Halt [] vm;
     if vkind v = Deny then fault SecurityFault vm
     else continue (upd_st (\<lambda>s. s\<lparr>halted := True\<rparr>) (upd_ctx (\<lambda>c. c\<lparr>ctx_halted := True\<rparr>) vm))
   }"

text \<open>The next active context, with its telemetry.\<close>
definition schedule :: "vm \<Rightarrow> (bool \<times> vm) option" where
  "schedule vm = do {
     (found, s) \<leftarrow> find_active (length (contexts (st vm))) (st vm);
     Some (found, if found then vm\<lparr>st := s, telemetry := telemetry vm @
             replicate (length (contexts s) - length (telemetry vm)) init_telemetry\<rparr>
           else vm\<lparr>st := s\<rparr>)
   }"

definition step :: "vm \<Rightarrow> outcome" where
  "step vm =
     (if halted (st vm) then continue vm
      else if contexts (st vm) = [] then continue (upd_st (\<lambda>s. s\<lparr>halted := True\<rparr>) vm)
      else do {
        (found, vm) \<leftarrow> schedule vm;
        if \<not> found then continue vm
        else case take_fault (instruction_count vm) (pending_faults (st vm)) of
          Some (t, rest) \<Rightarrow> fault t (upd_st (\<lambda>s. s\<lparr>pending_faults := rest\<rparr>)
            (rec_event Op_Trap 0 0 (deny (fault_injection_reason (instruction_count vm) t)) vm))
        | None \<Rightarrow>
            let n = pc (cur vm) in
            if length (insns (prog vm)) \<le> n then run_past_end vm
            else run_insn (insns (prog vm) ! n) n vm
      })"

text \<open>\<open>run_to_halt\<close>: the steps stop at a trap, at a halt, or when the budget is used up.\<close>

fun run_to_halt :: "nat \<Rightarrow> vm \<Rightarrow> outcome" where
  "run_to_halt 0 vm = continue vm"
| "run_to_halt (Suc n) vm =
     (if halted (st vm) then continue vm
      else do {
        (t, vm) \<leftarrow> step vm;
        if t = None then run_to_halt n vm else Some (t, vm)
      })"

section \<open>Control from outside\<close>

definition set_register :: "i32 \<Rightarrow> i64 \<Rightarrow> value_tag \<Rightarrow> vm \<Rightarrow> vm option" where
  "set_register r v tag vm =
     (if contexts (st vm) = [] \<or> \<not> reg_ok r \<or> r = 0 \<or> 75 \<le> sint r \<and> sint r \<le> 80 then Some vm
      else do {
        vm \<leftarrow> put_reg (idx r) v tag vm;
        Some (rec_event Op_Nop r v (allow (''register mutation R'' @ show_sint r @ '' value='' @ show_sint v)) vm)
      })"

definition set_fault_injections :: "fault_injection list \<Rightarrow> vm \<Rightarrow> vm" where
  "set_fault_injections fs = upd_st (\<lambda>s. s\<lparr>pending_faults := fs\<rparr>)"

section \<open>The invariant and the absence of undefined behaviour\<close>

text \<open>The instruction that the step dispatches, if it dispatches one, is defined on the machine it
  meets.\<close>

definition step_ok :: "vm \<Rightarrow> bool" where
  "step_ok vm \<longleftrightarrow> (\<forall>vm1 v vm2. schedule vm = Some (True, vm1) \<longrightarrow>
     take_fault (instruction_count vm1) (pending_faults (st vm1)) = None \<longrightarrow>
     pc (cur vm1) < length (insns (prog vm1)) \<longrightarrow>
     enter_insn (insns (prog vm1) ! pc (cur vm1)) (pc (cur vm1)) vm1 = Some (v, vm2) \<longrightarrow> vkind v \<noteq> Deny \<longrightarrow>
     insn_ok (insns (prog vm1) ! pc (cur vm1)) vm2)"

lemma find_active_total:
  "state_wf s \<Longrightarrow> \<exists>b s'. find_active r s = Some (b, s') \<and> state_wf s' \<and> layout s' = layout s \<and>
     length (contexts s') = length (contexts s)"
proof (induction r arbitrary: s)
  case 0
  have "state_wf (s\<lparr>halted := True\<rparr>) = state_wf s" by (rule state_wf_cong) simp_all
  with 0 show ?case by auto
next
  case (Suc r)
  then have c: "current_context s < length (contexts s)" by (simp add: state_wf_def)
  let ?s = "s\<lparr>current_context := Suc (current_context s) mod length (contexts s)\<rparr>"
  have "Suc (current_context s) mod length (contexts s) < length (contexts s)" using c by (intro mod_less_divisor) auto
  then have "state_wf ?s" using Suc.prems ctx_wf_cong [of ?s s] by (simp add: state_wf_def)
  from Suc.IH [OF this] c Suc.prems show ?case by auto
qed

lemma schedule_total:
  assumes "vm_wf k vm"
  shows "\<exists>b vm'. schedule vm = Some (b, vm') \<and> vm_wf k vm'"
  using assms find_active_total [OF vm_wf_state [OF assms], of "length (contexts (st vm))"]
  by (auto simp: schedule_def vm_wf_def)

lemma wf_count [wf_intros]:
  "vm_wf k vm \<Longrightarrow> vm_wf k (vm\<lparr>instruction_count := n\<rparr>)" "vm_wf k vm \<Longrightarrow> vm_wf k (vm\<lparr>instructions_since_gc := m\<rparr>)"
  by (simp_all add: vm_wf_def)

lemma enter_insn_total:
  assumes "vm_wf k vm"
  shows "\<exists>v vm'. enter_insn i cpc vm = Some (v, vm') \<and> vm_wf k vm'"
proof -
  let ?vm = "(set_pc (cpc + 1) vm)\<lparr>instruction_count := instruction_count (set_pc (cpc + 1) vm) + 1\<rparr>"
  have "vm_wf k ?vm" by (intro wf_intros assms)
  from eval_axion_call_total [OF this, of "''step''" cpc "opcode i" "[]"] show ?thesis
    by (auto simp: enter_insn_def Let_def wf_rec_event)
qed

lemma promote_to_fit_total:
  "vm_wf k vm \<Longrightarrow> \<exists>b vm'. promote_to_fit n oper f cause vm = Some (b, vm') \<and> vm_wf k vm'"
proof (induction n arbitrary: vm)
  case (Suc n)
  obtain b vm1 where e: "ensure_min_tier oper (tier_from_rank (int (tier_rank (cur_tier vm)) + 1)) cause vm = Some (b, vm1)"
    "vm_wf k vm1" using ensure_min_tier_total [OF Suc.prems] by blast
  from Suc.IH [OF e(2)] e Suc.prems show ?case by auto
qed auto

lemma enforce_ceiling_total:
  assumes "vm_wf k vm"
  shows "\<exists>t vm'. enforce_ceiling i cpc c vm = Some (t, vm') \<and> vm_wf k vm'"
proof -
  obtain b vm1 where "promote_to_fit (5 - tier_rank (cur_tier vm)) (opcode i) (ceil_exceeds c) (ceil_cause c) vm = Some (b, vm1)"
    "vm_wf k vm1" using promote_to_fit_total [OF assms] by blast
  then show ?thesis by (auto simp: enforce_ceiling_def wf_record_tier_fault)
qed

lemma enforce_ceilings_total:
  "vm_wf k vm \<Longrightarrow> \<exists>t vm'. enforce_ceilings i cpc cs vm = Some (t, vm') \<and> vm_wf k vm'"
proof (induction cs arbitrary: vm)
  case (Cons c cs)
  obtain t vm1 where e: "enforce_ceiling i cpc c vm = Some (t, vm1)" "vm_wf k vm1"
    using enforce_ceiling_total [OF Cons.prems] by blast
  from Cons.IH [OF e(2)] e show ?case by (cases t) auto
qed auto

lemma wf_demote [wf_intros]: "vm_wf k vm \<Longrightarrow> vm_wf k (demote i vm)"
  unfolding demote_def Let_def
  by (auto intro!: wf_intros tier_status_wf)

lemma enforce_tiers_total:
  assumes "vm_wf k vm"
  shows "\<exists>t vm'. enforce_tiers i cpc vm = Some (t, vm') \<and> vm_wf k vm'"
proof -
  let ?vm = "upd_telemetry (\<lambda>y. y\<lparr>epoch_steps := epoch_steps y + 1\<rparr>) vm"
  obtain t vm1 where "enforce_ceilings i cpc (ceilings ?vm) ?vm = Some (t, vm1)" "vm_wf k vm1"
    using enforce_ceilings_total [OF wf_upd_telemetry [OF assms]] by blast
  then show ?thesis by (auto simp: enforce_tiers_def Let_def intro!: wf_intros)
qed

subsection \<open>The collection cycle\<close>

lemma free_list_swept:
  assumes "free_list_ok fr xs"
  shows "free_list_ok (fr @ freed M xs (length xs)) (sweep_list M xs)"
  using assms unfolding free_list_ok_def freed_def by (auto simp: nth_sweep_list)

lemma sweep_list_mem: "Some x \<in> set (sweep_list M xs) \<Longrightarrow> Some x \<in> set xs"
  by (auto simp: in_set_conv_nth nth_sweep_list split: if_splits)

lemma mark_and_sweep_wf:
  assumes "state_wf s"
  shows "state_wf (fst (mark_and_sweep s))"
proof -
  let ?s = "fst (mark_and_sweep s)"
  have "ctx_wf ?s c = ctx_wf s c" for c by (rule ctx_wf_cong) (simp_all add: frame_simps)
  with assms show ?thesis
    by (simp add: state_wf_def frame_simps) (simp add: mark_and_sweep_eq Let_def free_list_swept sweep_list_mem)
qed

lemma compact_heap_wf:
  assumes "state_wf s"
  shows "state_wf (compact_heap s (seg_start (heap_seg (layout s))))"
proof -
  let ?s = "compact_heap s (seg_start (heap_seg (layout s)))"
  have "ctx_wf ?s c = ctx_wf s c" for c by (rule ctx_wf_cong) (simp_all add: compact_heap_def Let_def)
  with assms show ?thesis by (simp add: state_wf_def compact_heap_def Let_def layout_ok_def)
qed

lemma layout_rec_event: "layout (st (rec_event oper tag v r vm)) = layout (st vm)"
  by (simp add: rec_event_def upd_st_def log_ext_fields [OF log_ext_record_axion_event])

lemma wf_sweep [wf_intros]: "vm_wf k vm \<Longrightarrow> vm_wf k (upd_st (\<lambda>s. fst (mark_and_sweep s)) vm)"
  using vm_wf_state [of k vm] by (intro upd_st_wf) (simp_all add: mark_and_sweep_wf frame_simps)

lemma wf_gc_cycles [wf_intros]: "vm_wf k vm \<Longrightarrow> vm_wf k (upd_st (\<lambda>s. s\<lparr>gc_cycles := f s\<rparr>) vm)"
  by (rule upd_st_wf) (auto simp: vm_wf_def elim!: state_wf_cong [THEN iffD2, rotated -1])

lemma wf_compact:
  "vm_wf k vm \<Longrightarrow> seg_start (heap_seg (layout (st vm))) = n \<Longrightarrow> vm_wf k (upd_st (\<lambda>s. compact_heap s n) vm)"
  using compact_heap_wf [OF vm_wf_state [of k vm]]
  by (intro upd_st_wf) (auto simp: compact_heap_def Let_def)

lemma wf_run_gc_cycle [wf_intros]: "vm_wf k vm \<Longrightarrow> vm_wf k (run_gc_cycle reason vm)"
  unfolding run_gc_cycle_def Let_def
  by (intro wf_compact wf_intros; simp add: layout_rec_event wf_intros)

subsection \<open>The step\<close>

lemma wf_sync [wf_intros]:
  assumes "vm_wf k vm"
  shows "vm_wf k (upd_st (\<lambda>s. sync_system_registers s p n (current_context s)) vm)"
proof -
  have "upd_st (\<lambda>s. sync_system_registers s p n (current_context s)) vm = upd_ctx (sync_context (st vm) p n) vm"
    using vm_wf_state [OF assms] by (auto simp: upd_st_def upd_ctx_def sync_system_registers_def cur_def state_wf_def)
  then show ?thesis
    using upd_ctx_wf [OF assms, of "sync_context (st vm) p n"] ctx_wf_same [OF cur_wf [OF assms]] by simp
qed

lemma wf_trace [wf_intros]:
  "vm_wf k vm \<Longrightarrow> vm_wf k (upd_st (\<lambda>s. s\<lparr>trace := f s\<rparr>) vm)"
  "vm_wf k vm \<Longrightarrow> vm_wf k (upd_st (\<lambda>s. s\<lparr>pending_faults := g s\<rparr>) vm)"
  "vm_wf k vm \<Longrightarrow> vm_wf k (upd_st (\<lambda>s. s\<lparr>halted := b\<rparr>) vm)"
  by (rule upd_st_wf; auto simp: vm_wf_def elim!: state_wf_cong [THEN iffD2, rotated -1])+

lemma wf_next_context [wf_intros]:
  assumes "vm_wf k vm"
  shows "vm_wf k (upd_st (\<lambda>s. s\<lparr>current_context := Suc (current_context s) mod length (contexts s)\<rparr>) vm)"
proof (rule upd_st_wf [OF assms])
  let ?s = "(st vm)\<lparr>current_context := Suc (current_context (st vm)) mod length (contexts (st vm))\<rparr>"
  have s: "state_wf (st vm)" by (rule vm_wf_state [OF assms])
  then have "Suc (current_context (st vm)) mod length (contexts (st vm)) < length (contexts (st vm))"
    by (intro mod_less_divisor) (auto simp: state_wf_def)
  with s show "state_wf ?s" using ctx_wf_cong [of ?s "st vm"] by (simp add: state_wf_def)
qed simp_all

lemma wf_ctx_halted [wf_intros]: "vm_wf k vm \<Longrightarrow> vm_wf k (upd_ctx (\<lambda>c. c\<lparr>ctx_halted := b\<rparr>) vm)"
  by (rule upd_ctx_wf, assumption, rule ctx_wf_same [OF cur_wf], assumption) simp_all

lemma safe_finish_step:
  assumes "vm_wf k vm"
  shows "safe k (finish_step i cpc trapped vm)"
proof -
  obtain t vm1 where "(if trapped = None then enforce_tiers i cpc vm else Some (trapped, vm)) = Some (t, vm1)"
    "vm_wf k vm1" using enforce_tiers_total [OF assms, of i cpc] assms by (cases "trapped = None") fastforce+
  then show ?thesis
    by (cases t) (auto simp: finish_step_def Let_def intro!: ub_free wf_intros)
qed

lemma safe_run_insn:
  assumes "vm_wf k vm" "\<And>v vm'. enter_insn i cpc vm = Some (v, vm') \<Longrightarrow> vkind v \<noteq> Deny \<Longrightarrow> insn_ok i vm'"
  shows "safe k (run_insn i cpc vm)"
proof -
  obtain v vm1 where e: "enter_insn i cpc vm = Some (v, vm1)" "vm_wf k vm1"
    using enter_insn_total [OF assms(1)] by blast
  show ?thesis
  proof (cases "vkind v = Deny")
    case True
    with e show ?thesis by (simp add: run_insn_def safe_fault)
  next
    case False
    then obtain t vm2 where "dispatch i cpc vm1 = Some (t, vm2)" "vm_wf k vm2"
      using safe_dispatch [OF e(2) assms(2) [OF e(1)], of cpc] by (auto simp: safe_def split: option.splits prod.splits)
    with e False safe_finish_step show ?thesis by (simp add: run_insn_def)
  qed
qed

lemma safe_run_past_end:
  assumes "vm_wf k vm"
  shows "safe k (run_past_end vm)"
  unfolding run_past_end_def by (intro safe_eval_axion_call [OF assms]) (auto intro!: ub_free wf_intros)

lemma safe_step:
  assumes "vm_wf k vm" "step_ok vm"
  shows "safe k (step vm)"
proof (cases "halted (st vm) \<or> contexts (st vm) = []")
  case True
  with assms(1) show ?thesis by (auto simp: step_def intro!: ub_free wf_intros)
next
  case False
  obtain found vm1 where s: "schedule vm = Some (found, vm1)" "vm_wf k vm1"
    using schedule_total [OF assms(1)] by blast
  show ?thesis
  proof (cases "found \<and> take_fault (instruction_count vm1) (pending_faults (st vm1)) = None \<and>
      pc (cur vm1) < length (insns (prog vm1))")
    case True
    with s assms(2) have "safe k (run_insn (insns (prog vm1) ! pc (cur vm1)) (pc (cur vm1)) vm1)"
      by (intro safe_run_insn) (auto simp: step_ok_def)
    with False s True show ?thesis by (simp add: step_def Let_def)
  next
    case other: False
    with False s safe_run_past_end [OF s(2)] show ?thesis
      by (auto simp: step_def Let_def intro!: ub_free wf_intros split: option.splits prod.splits)
  qed
qed

subsection \<open>Programs\<close>

text \<open>The invariant holds when a program has been loaded whose memory fits in an \<open>int\<close> and whose
  tensors are tensors.\<close>

lemma index_metadata_range: "n \<in> ran (index_metadata ms) \<Longrightarrow> n < length ms"
proof -
  define upd where "upd = (\<lambda>m (n, e :: enum_metadata). m(meta_enum_id e \<mapsto> n :: nat))"
  have "ran (foldl upd f (enumerate j ms)) \<subseteq> ran f \<union> {j..<j + length ms}" for f j
  proof (induction ms arbitrary: f j)
    case (Cons e ms)
    have "ran (upd f (j, e)) \<subseteq> insert j (ran f)" by (auto simp: ran_def upd_def)
    with Cons.IH [of "upd f (j, e)" "Suc j"]
    have "ran (foldl upd (upd f (j, e)) (enumerate (Suc j) ms)) \<subseteq> insert j (ran f) \<union> {Suc j..<Suc j + length ms}"
      by blast
    then show ?case by auto
  qed simp
  from this [of "\<lambda>_. None" 0] show "n \<in> ran (index_metadata ms) \<Longrightarrow> n < length ms"
    by (auto simp: index_metadata_def upd_def)
qed

definition loadable :: "program \<Rightarrow> bool" where
  "loadable p \<longleftrightarrow> total_size (layout_for (length (insns p))) < 2 ^ 31 \<and> list_all tensor_ok (tensor_pool p)"

lemma load_state_wf:
  assumes "loadable p"
  shows "state_wf (load_state p n)" "layout (load_state p n) = layout_for (length (insns p))"
    "length (contexts (load_state p n)) = 1"
  using assms index_metadata_range [of _ "prog_enum_metadata p"]
  by (auto simp: load_state_def Let_def sync_system_registers_def state_wf_def loadable_def
      layout_for_def layout_ok_def total_size_def free_list_ok_def init_state_def ctx_wf_def stack_ok_def
      init_ctx_def list_all_iff kDefaultStackSize_def kDefaultHeapSize_def kDefaultTensorSpace_def
      kDefaultMetaSpace_def ran_def)

lemma wf_log [wf_intros]: "vm_wf k vm \<Longrightarrow> vm_wf k (upd_st (\<lambda>s. s\<lparr>axion_log := f s\<rparr>) vm)"
  "vm_wf k vm \<Longrightarrow> vm_wf k (upd_st (\<lambda>s. s\<lparr>policy_opt := p, axion_log := f s\<rparr>) vm)"
  by (rule upd_st_wf; auto simp: vm_wf_def elim!: state_wf_cong [THEN iffD2, rotated -1])+

lemma load_policy_wf:
  assumes "vm_wf k vm" "load_policy p vm = Some vm'"
  shows "vm_wf k vm'"
  using assms parse_policy_wf
  by (auto simp: load_policy_def Let_def engine_ok_def make_policy_engine_def policy_wf_def
      intro!: wf_intros wf_engine split: if_splits sum.splits parse_failure.splits)

lemma load_program_wf:
  assumes "loadable p" "engine_ok (axion_engine vm)" "load_program p vm = Some vm'"
  shows "vm_wf (p, layout_for (length (insns p))) vm'"
proof -
  obtain vm1 where l: "load_policy p (vm\<lparr>prog := p, st := load_state p (instruction_count vm),
      telemetry := [foldl (\<lambda>t x. t\<lparr>max_shape_complexity := max (max_shape_complexity t) (tensor_shape_complexity x),
         max_tensor_rank := max (max_tensor_rank t) (size_of_i32 (tensor_rank x))\<rparr>) init_telemetry (tensor_pool p)],
      instructions_since_gc := 0, instruction_count := 0\<rparr>) = Some vm1"
    and v: "vm' = (if match_metadata_text p = [] then vm1 else upd_st (\<lambda>s. s\<lparr>axion_log := axion_log s @
      [plain_event 0 0 (allow (''match metadata: '' @ match_metadata_text p))]\<rparr>) vm1)"
    using assms(3) by (auto simp: load_program_def Let_def split: bind_splits)
  have "vm_wf (p, layout_for (length (insns p))) vm1"
    by (rule load_policy_wf [OF _ l])
      (use load_state_wf [OF assms(1), of "instruction_count vm"] assms(2) in \<open>simp add: vm_wf_def\<close>)
  then show ?thesis unfolding v by (auto intro!: wf_intros)
qed

text \<open>A run: every machine it meets satisfies \<open>step_ok\<close>.\<close>

fun run_ok :: "nat \<Rightarrow> vm \<Rightarrow> bool" where
  "run_ok 0 vm = True"
| "run_ok (Suc n) vm = (halted (st vm) \<or> step_ok vm \<and>
     (case step vm of Some (None, vm') \<Rightarrow> run_ok n vm' | _ \<Rightarrow> True))"

lemma safe_run_to_halt: "vm_wf k vm \<Longrightarrow> run_ok n vm \<Longrightarrow> safe k (run_to_halt n vm)"
proof (induction n arbitrary: vm)
  case 0
  then show ?case by (simp add: safe_continue)
next
  case (Suc n)
  show ?case
  proof (cases "halted (st vm)")
    case True
    with Suc.prems show ?thesis by (simp add: safe_continue)
  next
    case False
    with Suc.prems have ok: "step_ok vm" by simp
    then obtain t vm1 where s: "step vm = Some (t, vm1)" "vm_wf k vm1"
      using safe_step [OF Suc.prems(1)] by (auto simp: safe_def split: option.splits)
    with Suc False show ?thesis by (cases t) (auto simp: safe_def)
  qed
qed

lemma set_register_wf:
  assumes "vm_wf k vm"
  shows "\<exists>vm'. set_register r v tag vm = Some vm' \<and> vm_wf k vm'"
  using put_reg_wf [OF assms, of "idx r" v tag] assms
  by (auto simp: set_register_def wf_rec_event)

end
