(* ===== verification/Properties_Machine.thy ===== *)
theory Properties_Machine
  imports T81_Step
begin

text \<open>
  Properties of the interpreter loop: the invariant, the absence of undefined behaviour, the effect
  of the policy, the scheduler, fault injection, tier enforcement and runs.
\<close>

section \<open>Instructions that are defined on every machine\<close>

text \<open>The instructions whose conditions do not depend on the machine.\<close>

definition partial_opcodes :: "opcode list" where
  "partial_opcodes = [Op_Inc, Op_Dec, Op_Add, Op_Sub, Op_Mul, Op_Neg, Op_Div, Op_Mod, Op_MemZero, Op_Copy,
     Op_MetaRead, Op_MetaWrite, Op_MetaRefine, Op_VecFirst, Op_VecLast, Op_VecPush, Op_VecPop,
     Op_F2I, Op_Frac2I, Op_TNew, Op_Contract, Op_InfExpand, Op_Cmp, Op_Less, Op_LessEqual,
     Op_Greater, Op_GreaterEqual, Op_Equal, Op_NotEqual, Op_Coherence]"

definition total_insn :: "insn \<Rightarrow> bool" where
  "total_insn i \<longleftrightarrow> operand_fits i \<and> opcode i \<notin> set partial_opcodes \<and> opcode i \<notin> set unmodelled \<and>
     (opcode i = Op_SymLoad \<or> opcode i = Op_ReflCap \<longrightarrow> reg_ok_b (op_b i)) \<and>
     (opcode i = Op_ReflJustify \<longrightarrow> reg_ok (op_a i))"

lemma total_insn_ok:
  assumes "total_insn i"
  shows "insn_ok i vm"
proof -
  from assms have p: "opcode i \<notin> set partial_opcodes" by (simp add: total_insn_def)
  have "arith_ok i vm" "block_operands_fit i vm" "meta_operands_fit i vm" "data_ok i vm" "cog_ok i vm"
    using p assms by (simp_all add: partial_opcodes_def arith_ok_def block_operands_fit_def meta_operands_fit_def
        data_ok_def cog_ok_def total_insn_def Let_def)
  with p assms show ?thesis by (simp add: insn_ok_def total_insn_def partial_opcodes_def)
qed

lemma total_program_step_ok:
  assumes "vm_wf (p, l) vm" "list_all total_insn (insns p)"
  shows "step_ok vm"
proof -
  have "prog vm1 = p" if "schedule vm = Some (True, vm1)" for vm1
    using that assms(1) by (auto simp: schedule_def vm_wf_def split: bind_splits if_splits)
  with assms(2) total_insn_ok show ?thesis by (auto simp: step_ok_def list_all_length)
qed

lemma total_program_run_ok:
  "vm_wf (p, l) vm \<Longrightarrow> list_all total_insn (insns p) \<Longrightarrow> run_ok n vm"
proof (induction n arbitrary: vm)
  case (Suc n)
  have ok: "step_ok vm" by (rule total_program_step_ok [OF Suc.prems])
  with Suc safe_step [OF Suc.prems(1) ok] show ?case by (auto simp: safe_def split: option.splits)
qed simp

section \<open>Steps\<close>



text \<open>A program that stores a string, a constant and a counter, and a machine to load it on.\<close>

definition demo_program :: program where
  "demo_program = empty_program\<lparr>insns :=
     [\<lparr>opcode = Op_LoadImm, op_a = 1, op_b = 7, op_c = 0, literal_kind = LK_Int\<rparr>,
      \<lparr>opcode = Op_Push, op_a = 1, op_b = 0, op_c = 0, literal_kind = LK_Int\<rparr>,
      \<lparr>opcode = Op_Pop, op_a = 2, op_b = 0, op_c = 0, literal_kind = LK_Int\<rparr>,
      \<lparr>opcode = Op_Jump, op_a = 1, op_b = 0, op_c = 0, literal_kind = LK_Int\<rparr>]\<rparr>"

definition fresh_vm :: vm where
  "fresh_vm = \<lparr>st = init_state, prog = empty_program, axion_engine = AllowAll, instructions_since_gc = 0,
     instruction_count = 0, telemetry = [], symbol_ids = []\<rparr>"

definition demo_vm :: vm where
  "demo_vm = fresh_vm\<lparr>prog := demo_program, st := load_state demo_program 0, telemetry := [init_telemetry]\<rparr>"

lemma demo_facts:
  "loadable demo_program" "list_all total_insn (insns demo_program)" "engine_ok (axion_engine fresh_vm)"
  "load_program demo_program fresh_vm = Some demo_vm" "length (insns demo_program) = 4"
  by (simp_all add: demo_program_def empty_program_def loadable_def layout_for_def total_size_def
      kDefaultStackSize_def kDefaultHeapSize_def kDefaultTensorSpace_def kDefaultMetaSpace_def Let_def
      total_insn_def operand_fits_def i64_of_i32_def i32_of_i64_def partial_opcodes_def unmodelled_def
      engine_ok_def fresh_vm_def load_program_def load_policy_def demo_vm_def)


lemma demo_wf: "vm_wf (demo_program, layout_for 4) demo_vm"
  using load_program_wf [OF demo_facts(1,3,4)] by (simp add: demo_facts(5))



section \<open>Policy, scheduler and faults\<close>


definition context_at :: "state \<Rightarrow> nat \<Rightarrow> thread_ctx" where
  "context_at s d = contexts s ! ((current_context s + d) mod length (contexts s))"

lemma find_active_first:
  "current_context s < length (contexts s) \<Longrightarrow> d < r \<Longrightarrow> \<not> ctx_halted (context_at s d) \<Longrightarrow>
     \<forall>e < d. ctx_halted (context_at s e) \<Longrightarrow>
     find_active r s = Some (True, s\<lparr>current_context := (current_context s + d) mod length (contexts s)\<rparr>)"
proof (induction d arbitrary: r s)
  case 0
  then show ?case by (cases r) (simp_all add: context_at_def)
next
  case (Suc d)
  then obtain r' where r: "r = Suc r'" by (cases r) auto
  let ?s = "s\<lparr>current_context := Suc (current_context s) mod length (contexts s)\<rparr>"
  have at: "context_at ?s e = context_at s (Suc e)" for e
    by (simp add: context_at_def mod_add_left_eq)
  have "Suc (current_context s) mod length (contexts s) < length (contexts s)"
    using Suc.prems(1) by (intro mod_less_divisor) auto
  then have "find_active r' ?s = Some (True, ?s\<lparr>current_context := (current_context ?s + d) mod length (contexts s)\<rparr>)"
    using Suc.prems r Suc.IH [of ?s r'] at by simp
  moreover have "ctx_halted (contexts s ! current_context s)"
    using Suc.prems(1,4) by (auto simp: context_at_def dest: spec [of _ 0])
  ultimately show ?case using Suc.prems(1) r by (simp add: mod_add_left_eq)
qed

lemma find_active_none:
  "current_context s < length (contexts s) \<Longrightarrow> \<forall>d < r. ctx_halted (context_at s d) \<Longrightarrow>
     find_active r s = Some (False, s\<lparr>current_context := (current_context s + r) mod length (contexts s), halted := True\<rparr>)"
proof (induction r arbitrary: s)
  case 0
  then show ?case by simp
next
  case (Suc r)
  let ?s = "s\<lparr>current_context := Suc (current_context s) mod length (contexts s)\<rparr>"
  have at: "context_at ?s e = context_at s (Suc e)" for e
    by (simp add: context_at_def mod_add_left_eq)
  have "Suc (current_context s) mod length (contexts s) < length (contexts s)"
    using Suc.prems(1) by (intro mod_less_divisor) auto
  with Suc.prems Suc.IH [of ?s] at
  have "find_active r ?s = Some (False, ?s\<lparr>current_context := (current_context ?s + r) mod length (contexts s), halted := True\<rparr>)"
    by simp
  moreover have "ctx_halted (contexts s ! current_context s)"
    using Suc.prems by (auto simp: context_at_def dest: spec [of _ 0])
  ultimately show ?case using Suc.prems(1) by (simp add: mod_add_left_eq)
qed

text \<open>C16: The scheduler is round robin: it stops at the first context, counted cyclically from the
  current one, that has not halted, and it halts the machine exactly when every context has.\<close>
theorem scheduler_round_robin:
  assumes "current_context s < length (contexts s)"
  shows "find_active (length (contexts s)) s = Some (False, s\<lparr>halted := True\<rparr>) \<and>
       (\<forall>c \<in> set (contexts s). ctx_halted c) \<or>
     (\<exists>d < length (contexts s). \<not> ctx_halted (context_at s d) \<and> (\<forall>e < d. ctx_halted (context_at s e)) \<and>
       find_active (length (contexts s)) s =
         Some (True, s\<lparr>current_context := (current_context s + d) mod length (contexts s)\<rparr>))"
proof (cases "\<exists>d < length (contexts s). \<not> ctx_halted (context_at s d)")
  case True
  define d where "d = (LEAST d. \<not> ctx_halted (context_at s d))"
  from True obtain d0 where d0: "d0 < length (contexts s)" "\<not> ctx_halted (context_at s d0)" by blast
  have "\<not> ctx_halted (context_at s d)" "d \<le> d0"
    unfolding d_def using LeastI [of "\<lambda>d. \<not> ctx_halted (context_at s d)", OF d0(2)]
      Least_le [of "\<lambda>d. \<not> ctx_halted (context_at s d)", OF d0(2)] by simp_all
  moreover have "\<forall>e < d. ctx_halted (context_at s e)" unfolding d_def using not_less_Least by blast
  ultimately have d: "\<not> ctx_halted (context_at s d)" "d < length (contexts s)" "\<forall>e < d. ctx_halted (context_at s e)"
    using d0(1) by auto
  with find_active_first [OF assms, of d "length (contexts s)"] show ?thesis by blast
next
  case False
  have "\<exists>d < length (contexts s). context_at s d = c" if c: "c \<in> set (contexts s)" for c
  proof -
    obtain j where j: "j < length (contexts s)" "contexts s ! j = c" using c by (auto simp: in_set_conv_nth)
    let ?d = "(j + length (contexts s) - current_context s) mod length (contexts s)"
    have "(current_context s + ?d) mod length (contexts s) = (j + length (contexts s)) mod length (contexts s)"
      using assms by (simp add: mod_add_right_eq)
    then have "context_at s ?d = c" using j by (simp add: context_at_def)
    with assms show ?thesis by (intro exI [of _ ?d] conjI mod_less_divisor) auto
  qed
  with False have "\<forall>c \<in> set (contexts s). ctx_halted c" by metis
  with find_active_none [OF assms, of "length (contexts s)"] False assms show ?thesis by simp
qed

text \<open>Two contexts, the first one halted.\<close>
definition two_contexts :: state where
  "two_contexts = init_state\<lparr>contexts := [init_ctx\<lparr>ctx_halted := True\<rparr>, init_ctx]\<rparr>"

theorem scheduler_round_robin_witness:
  "find_active 2 two_contexts = Some (True, two_contexts\<lparr>current_context := 1\<rparr>)"
proof -
  have s: "current_context two_contexts = 0" "contexts two_contexts = [init_ctx\<lparr>ctx_halted := True\<rparr>, init_ctx]"
    "\<not> ctx_halted init_ctx"
    by (simp_all add: two_contexts_def init_state_def init_ctx_def)
  moreover have "d = 1" if "d < 2" "\<not> ctx_halted (context_at two_contexts d)" for d
    using that s by (cases d) (auto simp: context_at_def)
  ultimately show ?thesis
    using scheduler_round_robin [of two_contexts] by (auto simp: numeral_2_eq_2)
qed

text \<open>Fault injection is deterministic: the injected fault fires at its instruction count, the
  first one scheduled for that count, and only that one is consumed.\<close>
theorem take_fault_first:
  "take_fault n fs = (case filter (\<lambda>f. fi_instruction_count f = n) fs of
     [] \<Rightarrow> None
   | f # _ \<Rightarrow> Some (fi_trap f, remove1 f fs))"
  by (induction fs) (auto split: list.splits dest: filter_eq_ConsD)

text \<open>A run can be split at any point: running \<open>m + n\<close> steps is running \<open>m\<close> steps and, if no
  trap was raised, \<open>n\<close> more.\<close>
theorem run_to_halt_add:
  "run_to_halt (m + n) vm = do {
     (t, vm') \<leftarrow> run_to_halt m vm;
     if t = None then run_to_halt n vm' else Some (t, vm')
   }"
proof (induction m arbitrary: vm)
  case 0
  then show ?case by (simp add: continue_def)
next
  case (Suc m)
  have halted: "run_to_halt n vm = continue vm" if "halted (st vm)" using that by (cases n) simp_all
  show ?case
  proof (cases "halted (st vm) \<or> step vm = None")
    case True
    with halted show ?thesis by (auto simp: continue_def)
  next
    case False
    then obtain t vm1 where "step vm = Some (t, vm1)" by auto
    with Suc.IH [of vm1] False show ?thesis by (cases t) simp_all
  qed
qed



section \<open>Tiers\<close>

text \<open>A value above the ceiling of a tier is above those of the lower tiers.\<close>
definition falling :: "(tier_id \<Rightarrow> bool) \<Rightarrow> bool" where
  "falling f \<longleftrightarrow> (\<forall>a b. a \<le> b \<longrightarrow> f b \<longrightarrow> f a)"

lemma promote_to_fit_rank:
  "vm_wf k vm \<Longrightarrow> promote_to_fit n oper f cause vm = Some (True, vm') \<Longrightarrow>
     tier_rank (cur_tier vm) \<le> tier_rank (cur_tier vm')"
proof (induction n arbitrary: vm)
  case (Suc n)
  obtain b vm1 where e: "ensure_min_tier oper (tier_from_rank (int (tier_rank (cur_tier vm)) + 1)) cause vm = Some (b, vm1)"
    "vm_wf k vm1" "b \<longrightarrow> tier_rank (cur_tier vm) \<le> tier_rank (cur_tier vm1)"
    using ensure_min_tier_total [OF Suc.prems(1)] by (metis max.cobounded1)
  with Suc show ?case by (fastforce split: if_splits)
qed simp

lemma enforce_ceiling_None:
  assumes "vm_wf k vm" "enforce_ceiling i cpc c vm = Some (None, vm')"
  shows "vm_wf k vm'" "\<not> ceil_exceeds c (cur_tier vm')" "tier_rank (cur_tier vm) \<le> tier_rank (cur_tier vm')"
proof -
  obtain b vm1 where p: "promote_to_fit (5 - tier_rank (cur_tier vm)) (opcode i) (ceil_exceeds c) (ceil_cause c) vm = Some (b, vm1)"
    "vm_wf k vm1" using promote_to_fit_total [OF assms(1)] by blast
  with assms(2) have "b" "vm' = vm1" "\<not> ceil_exceeds c (cur_tier vm1)"
    by (auto simp: enforce_ceiling_def split: if_splits)
  with p promote_to_fit_rank [OF assms(1)] show "vm_wf k vm'" "\<not> ceil_exceeds c (cur_tier vm')"
    "tier_rank (cur_tier vm) \<le> tier_rank (cur_tier vm')" by auto
qed

lemma enforce_ceilings_None:
  "vm_wf k vm \<Longrightarrow> enforce_ceilings i cpc cs vm = Some (None, vm') \<Longrightarrow> \<forall>c \<in> set cs. falling (ceil_exceeds c) \<Longrightarrow>
     (\<forall>c \<in> set cs. \<not> ceil_exceeds c (cur_tier vm')) \<and> cur_tier vm \<le> cur_tier vm'"
proof (induction cs arbitrary: vm)
  case (Cons c cs)
  obtain t vm1 where e: "enforce_ceiling i cpc c vm = Some (t, vm1)" "vm_wf k vm1"
    using enforce_ceiling_total [OF Cons.prems(1)] by blast
  with Cons.prems(2) have t: "t = None" "enforce_ceilings i cpc cs vm1 = Some (None, vm')"
    by (auto split: if_splits)
  note c = enforce_ceiling_None [OF Cons.prems(1) e(1) [unfolded t(1)]]
  have "(\<forall>c \<in> set cs. \<not> ceil_exceeds c (cur_tier vm')) \<and> cur_tier vm1 \<le> cur_tier vm'"
    using Cons.IH [OF e(2) t(2)] Cons.prems(3) by simp
  moreover from this have "\<not> ceil_exceeds c (cur_tier vm')"
    using c(2) Cons.prems(3) unfolding falling_def by auto
  moreover have "cur_tier vm \<le> cur_tier vm1" using c(3) by (simp add: less_eq_tier_id_def)
  ultimately show ?case by (auto intro: order_trans)
qed simp

lemma ceilings_falling: "\<forall>c \<in> set (ceilings vm). falling (ceil_exceeds c)"
proof -
  have "falling (branch_exceeds vm)"
    unfolding falling_def
  proof (intro allI impI)
    fix a b :: tier_id
    assume "a \<le> b" and b: "branch_exceeds vm b"
    then have le: "(2 :: nat) ^ max_branch_entropy_for_tier a \<le> 2 ^ max_branch_entropy_for_tier b"
      by (intro power_increasing monoD [OF tier_ceilings_mono(5)]) simp_all
    show "branch_exceeds vm a"
      using b order.strict_trans1 [OF mult_le_mono1 [OF mult_le_mono1 [OF le]]]
      unfolding branch_exceeds_def entropy_exceeds_def by blast
  qed
  moreover have "falling (\<lambda>t. n > f t)" if "mono f" for f and n :: nat
    unfolding falling_def using monoD [OF that] le_less_trans by blast
  ultimately show ?thesis using tier_ceilings_mono by (simp add: ceilings_def)
qed

text \<open>C4: The tier ceilings are enforced: when the check after an instruction does not trap, the
  branch entropy, the symbolic complexity, the shapes and the ranks that were observed are all
  within the ceilings of the tier the context ends up in, which is never lower than before.\<close>
theorem tier_ceilings_enforced:
  assumes "vm_wf k vm" "enforce_ceilings i cpc (ceilings vm) vm = Some (None, vm')"
  shows "\<not> branch_exceeds vm (cur_tier vm') \<and>
    unat (symbolic_complexity vm) \<le> max_symbolic_complexity_for_tier (cur_tier vm') \<and>
    observed_shape vm \<le> max_shape_complexity_for_tier (cur_tier vm') \<and>
    observed_rank vm \<le> max_tensor_rank_for_tier (cur_tier vm') \<and> cur_tier vm \<le> cur_tier vm'"
  using enforce_ceilings_None [OF assms ceilings_falling] by (simp add: ceilings_def not_less)

lemma promote_to_fit_idle: "\<not> f (cur_tier vm) \<Longrightarrow> promote_to_fit n oper f cause vm = Some (True, vm)"
  by (cases n) simp_all

lemma demo_select:
  "tensors (st demo_vm) = []" "symbolic_graphs (st demo_vm) = []" "total_symbolic_nodes (st demo_vm) = 0"
  "current_context (st demo_vm) = 0" "cur_tier demo_vm = Tier0"
  by (simp_all add: demo_vm_def load_state_def sync_system_registers_def init_state_def demo_program_def
      empty_program_def Let_def cur_tier_def cur_def init_ctx_def)

lemma demo_telemetry: "telemetry demo_vm = [init_telemetry]"
  by (simp add: demo_vm_def)

theorem tier_ceilings_enforced_witness:
  "\<not> branch_exceeds demo_vm (cur_tier demo_vm) \<and>
    unat (symbolic_complexity demo_vm) \<le> max_symbolic_complexity_for_tier (cur_tier demo_vm) \<and>
    observed_shape demo_vm \<le> max_shape_complexity_for_tier (cur_tier demo_vm) \<and>
    observed_rank demo_vm \<le> max_tensor_rank_for_tier (cur_tier demo_vm) \<and> cur_tier demo_vm \<le> cur_tier demo_vm"
proof (rule tier_ceilings_enforced [OF demo_wf])
  show "enforce_ceilings default_insn 0 (ceilings demo_vm) demo_vm = Some (None, demo_vm)"
    using demo_select by (simp add: ceilings_def enforce_ceiling_def promote_to_fit_idle branch_exceeds_def
        symbolic_complexity_def observed_shape_def observed_rank_def observed_def cur_telemetry_def
        demo_telemetry init_telemetry_def entropy_exceeds_def)
qed


text \<open>The demonstration machine at tier 2 after 80 steps that tier 1 could have run.\<close>
definition warm_vm :: vm where
  "warm_vm = upd_ctx (\<lambda>c. c\<lparr>tier_status := \<lparr>tier_current = Tier2, tier_label = []\<rparr>\<rparr>)
     (demo_vm\<lparr>telemetry := [init_telemetry\<lparr>stable_simple_steps := 80\<rparr>]\<rparr>)"

lemma warm_wf: "vm_wf (demo_program, layout_for 4) warm_vm"
  unfolding warm_vm_def by (rule tier_status_wf) (use demo_wf in \<open>simp add: vm_wf_def demo_vm_def\<close>)

lemma warm_select:
  "tensors (st warm_vm) = []" "symbolic_graphs (st warm_vm) = []" "total_symbolic_nodes (st warm_vm) = 0"
  "current_context (st warm_vm) = 0" "cur_tier warm_vm = Tier2" "infinite_forms (st warm_vm) = []"
  "\<not> has_messages (st warm_vm)" "call_depth (cur warm_vm) = 0" "current_depth (tier3_recursor (cur warm_vm)) = 0"
  "telemetry warm_vm = [init_telemetry\<lparr>stable_simple_steps := 80\<rparr>]"
  by (simp_all add: warm_vm_def upd_ctx_def demo_vm_def load_state_def sync_system_registers_def init_state_def
      demo_program_def empty_program_def Let_def cur_tier_def cur_def init_ctx_def init_recursor_def has_messages_def)

lemma warm_required: "required_rank warm_vm = 1"
  using warm_select by (simp add: required_rank_def infer_required_tier_for_recursion_def size_of_i32_def
      branch_exceeds_def cur_telemetry_def entropy_exceeds_def init_telemetry_def symbolic_complexity_def
      observed_rank_def observed_shape_def observed_def has_infinite_state_def Let_def)

lemma warm_demotes: "cur_tier warm_vm = Tier2" "cur_tier (demote default_insn warm_vm) = Tier1"
proof -
  show "cur_tier warm_vm = Tier2" by (rule warm_select)
  let ?vm = "upd_telemetry (\<lambda>y. y\<lparr>stable_simple_steps := stable_simple_steps y + 1\<rparr>) warm_vm"
  have same: "st (upd_telemetry f vm) = st vm" "cur (upd_telemetry f vm) = cur vm" for f vm
    by (simp_all add: upd_telemetry_def cur_def)
  have "stable_simple_steps (cur_telemetry ?vm) = 81"
    using warm_select by (simp add: cur_telemetry_def upd_telemetry_def init_telemetry_def)
  moreover have "can_demote_to 1 ?vm"
    using warm_select by (simp add: can_demote_to_def same has_infinite_state_def size_of_i32_def Let_def)
  ultimately show "cur_tier (demote default_insn warm_vm) = Tier1"
    using warm_select(5) cur_upd_ctx [OF wf_upd_telemetry [OF warm_wf]]
    by (simp add: demote_def Let_def warm_required tier_rank_def cur_tier_def same tier_from_rank_def)
qed


end
