(* ===== verification/Properties_Handlers.thy ===== *)
theory Properties_Handlers
  imports Properties_Machine
begin

text \<open>
  Properties of single instructions: calls and returns, heap blocks and stack frames, refinement
  commands.
\<close>

section \<open>Calls\<close>

text \<open>A promotion changes nothing in the context but its tier.\<close>
definition retiered :: "vm \<Rightarrow> vm \<Rightarrow> bool" where
  "retiered vm vm' \<longleftrightarrow> (\<exists>ts. cur vm' = (cur vm)\<lparr>tier_status := ts\<rparr>)"

lemma retiered_refl: "cur vm' = cur vm \<Longrightarrow> retiered vm vm'"
  unfolding retiered_def by (rule exI [of _ "tier_status (cur vm)"]) simp

lemma retiered_trans: "retiered a b \<Longrightarrow> retiered b c \<Longrightarrow> retiered a c"
  by (auto simp: retiered_def)

lemma promote_once_cur:
  assumes "vm_wf k vm" "promote_once oper required cause vm = Some (b, vm')"
  shows "retiered vm vm'"
proof -
  have "cur (upd_ctx (\<lambda>c. c\<lparr>tier_status := x\<rparr>) (vm\<lparr>axion_engine := e\<rparr>)) = (cur vm)\<lparr>tier_status := x\<rparr>" for x e
    using assms(1) by (simp add: vm_wf_def state_wf_def cur_def upd_ctx_def)
  then have "retiered vm (rec_event oper t v r (upd_ctx (\<lambda>c. c\<lparr>tier_status := x\<rparr>) (vm\<lparr>axion_engine := e\<rparr>)))" for x e t v r
    by (auto simp: retiered_def)
  moreover have "retiered vm (rec_event oper t v r (vm\<lparr>axion_engine := e\<rparr>))" for e t v r
    by (rule retiered_refl) (simp add: cur_def [of "vm\<lparr>axion_engine := e\<rparr>"] cur_def [of vm])
  ultimately show ?thesis using assms(2)
    by (auto simp: promote_once_def Let_def split: bind_splits sum.splits prod.splits)
qed

lemma ensure_min_tier_loop_cur:
  "vm_wf k vm \<Longrightarrow> ensure_min_tier_loop n oper required cause vm = Some (b, vm') \<Longrightarrow> retiered vm vm'"
proof (induction n arbitrary: vm)
  case 0
  then show ?case by (auto intro: retiered_refl)
next
  case (Suc n)
  obtain ok vm1 where p: "promote_once oper required cause vm = Some (ok, vm1)" "vm_wf k vm1"
    using promote_once_total [OF Suc.prems(1)] by blast
  with Suc.prems(2) Suc.IH [OF p(2)] promote_once_cur [OF Suc.prems(1) p(1)] show ?case
    by (cases ok) (auto intro: retiered_trans)
qed

lemma call_tier_loop_cur:
  "vm_wf k vm \<Longrightarrow> call_tier_loop n oper d vm = Some (b, vm') \<Longrightarrow> retiered vm vm'"
proof (induction n arbitrary: vm)
  case 0
  then show ?case by (subst (asm) call_tier_loop.simps) (auto intro: retiered_refl split: if_splits)
next
  case (Suc n)
  let ?req = "tier_from_rank (int (tier_rank (cur_tier vm)) + 1)"
  obtain ok vm1 where e: "ensure_min_tier oper ?req ''call-depth'' vm = Some (ok, vm1)" "vm_wf k vm1"
    using ensure_min_tier_total [OF Suc.prems(1)] by blast
  have r: "retiered vm vm1"
    using e(1) ensure_min_tier_loop_cur [OF Suc.prems(1)] unfolding ensure_min_tier_def by blast
  show ?case
    using Suc.prems(2) Suc.IH [OF e(2)] e(1) r
    by (subst (asm) call_tier_loop.simps)
      (cases ok; auto intro: retiered_trans retiered_refl split: if_splits)
qed

text \<open>What a successful \<open>Call\<close> has done.\<close>

lemma exec_callE:
  assumes "vm_wf k vm" "exec_call i cpc vm = Some (None, vm')"
  obtains vm1 vm2 a ts target where "vm_wf k vm1" "cur vm1 = (cur vm)\<lparr>tier_status := ts\<rparr>"
    "call_depth (cur vm) + 1 \<le> recursion_limit_for_tier (cur_tier vm1)" "call_depth (cur vm) < kHardRecursionCeiling"
    "push_stack (i64_of_size (pc (cur vm))) VT_Int vm1 = Some (Some a, vm2)" "vm_wf k vm2"
    "vm' = upd_ctx (\<lambda>c. c\<lparr>call_depth := call_depth c + 1, pc := size_of_i64 target\<rparr>) vm2"
    "mem_ok (st vm1) (i32_of_i64 target) True"
proof -
  obtain b vm1 where l: "call_tier_loop (5 - tier_rank (cur_tier vm)) (opcode i) (call_depth (cur vm) + 1) vm = Some (b, vm1)"
    "vm_wf k vm1" using call_tier_loop_total [OF assms(1) order.refl] by blast
  have "retiered vm vm1" by (rule call_tier_loop_cur [OF assms(1) l(1)])
  then obtain ts where ts: "cur vm1 = (cur vm)\<lparr>tier_status := ts\<rparr>" by (auto simp: retiered_def)
  note ex = assms(2) [unfolded exec_call_def Let_def l(1) bind.bind_lunit prod.case]
  have b: "b" "call_depth (cur vm) + 1 \<le> recursion_limit_for_tier (cur_tier vm1)" "call_depth (cur vm) < kHardRecursionCeiling"
    using ex ts by (auto simp: fault_def not_less split: if_splits)
  from ex b ts obtain target where t: "check_mem (opcode i) (i32_of_i64 target) ''call'' True vm1 = (True, vm1)"
    "(push_stack (i64_of_size (pc (cur vm1))) VT_Int vm1 \<bind> (\<lambda>(r, vm). if r = None
       then fault StackFault (log_bounds (opcode i) Seg_Stack (sp_i32 vm) ''stack call'' vm)
       else continue (upd_ctx (\<lambda>c. c\<lparr>call_depth := call_depth c + 1, pc := size_of_i64 target\<rparr>) vm))) = Some (None, vm')"
    by (auto simp: fault_def check_mem_def split: if_splits bind_splits)
  obtain r vm2 where p: "push_stack (i64_of_size (pc (cur vm))) VT_Int vm1 = Some (r, vm2)" "vm_wf k vm2"
    using push_stack_total [OF l(2)] by blast
  with t(2) ts obtain a where "r = Some a" "vm' = upd_ctx (\<lambda>c. c\<lparr>call_depth := call_depth c + 1, pc := size_of_i64 target\<rparr>) vm2"
    by (auto simp: fault_def continue_def split: if_splits)
  moreover have "mem_ok (st vm1) (i32_of_i64 target) True"
    using t(1) by (auto simp: check_mem_def split: if_splits)
  ultimately show thesis using that l(2) ts b(2,3) p by blast
qed

lemma push_stackE:
  assumes "vm_wf k vm" "push_stack v t vm = Some (Some a, vm')"
  shows "a = sp (cur vm) - 1" "stack_limit (cur vm) < sp (cur vm)" "cur vm' = (cur vm)\<lparr>sp := a\<rparr>"
    "memory (st vm') ! a = v" "memory_tags (st vm') ! a = t" "a < length (memory (st vm'))"
    "a < length (memory_tags (st vm'))" "layout (st vm') = layout (st vm)"
proof -
  obtain s' ctx' where p: "push_stack_word (st vm) (cur vm) v t = Some (Some a, s', ctx')"
    and vm': "vm' = upd_ctx (\<lambda>_. ctx') (vm\<lparr>st := s'\<rparr>)"
    using assms(2) by (auto simp: push_stack_def split: bind_splits)
  note P = push_stack_word_Some [OF p]
  have len: "length (memory_tags (st vm)) = length (memory (st vm))" "current_context (st vm) < length (contexts (st vm))"
    using vm_wf_state [OF assms(1)] by (simp_all add: state_wf_def)
  from P len show "a = sp (cur vm) - 1" "stack_limit (cur vm) < sp (cur vm)" "cur vm' = (cur vm)\<lparr>sp := a\<rparr>"
    "memory (st vm') ! a = v" "memory_tags (st vm') ! a = t" "a < length (memory (st vm'))"
    "a < length (memory_tags (st vm'))" "layout (st vm') = layout (st vm)"
    by (simp_all add: vm' upd_ctx_def cur_def)
qed

text \<open>C14: Recursion is bounded: a call that succeeds leaves the call depth within the limit of the
  tier the context runs at afterwards, and never above the hard ceiling of 729.\<close>
theorem call_depth_bounded:
  assumes "vm_wf k vm" "exec_call i cpc vm = Some (None, vm')"
  shows "call_depth (cur vm') = call_depth (cur vm) + 1 \<and>
    call_depth (cur vm') \<le> recursion_limit_for_tier (cur_tier vm') \<and> call_depth (cur vm') \<le> 729"
proof -
  obtain vm1 vm2 a ts target where c: "vm_wf k vm1" "cur vm1 = (cur vm)\<lparr>tier_status := ts\<rparr>"
    "call_depth (cur vm) + 1 \<le> recursion_limit_for_tier (cur_tier vm1)" "call_depth (cur vm) < kHardRecursionCeiling"
    "push_stack (i64_of_size (pc (cur vm))) VT_Int vm1 = Some (Some a, vm2)" "vm_wf k vm2"
    "vm' = upd_ctx (\<lambda>c. c\<lparr>call_depth := call_depth c + 1, pc := size_of_i64 target\<rparr>) vm2"
    "mem_ok (st vm1) (i32_of_i64 target) True"
    by (rule exec_callE [OF assms]) (rule that; assumption)
  note p = push_stackE [OF c(1,5)]
  from c p(3) show ?thesis
    by (simp add: cur_upd_ctx [OF c(6)] cur_tier_def kHardRecursionCeiling_def)
qed

text \<open>A call returns: \<open>Ret\<close> right after a successful \<open>Call\<close> resumes at the instruction after the
  call, with the stack pointer and the call depth of the caller.\<close>
theorem call_ret_roundtrip:
  assumes "vm_wf k vm" "exec_call i cpc vm = Some (None, vm1)"
    "pc (cur vm) \<le> seg_limit (code_seg (layout (st vm1)))" "seg_start (code_seg (layout (st vm1))) = 0"
  shows "\<exists>vm2. exec_ret j c vm1 = Some (None, vm2) \<and> pc (cur vm2) = pc (cur vm) \<and>
    sp (cur vm2) = sp (cur vm) \<and> call_depth (cur vm2) = call_depth (cur vm)"
proof -
  obtain vma vmb a ts target where c: "vm_wf k vma" "cur vma = (cur vm)\<lparr>tier_status := ts\<rparr>"
    "call_depth (cur vm) + 1 \<le> recursion_limit_for_tier (cur_tier vma)" "call_depth (cur vm) < kHardRecursionCeiling"
    "push_stack (i64_of_size (pc (cur vm))) VT_Int vma = Some (Some a, vmb)" "vm_wf k vmb"
    "vm1 = upd_ctx (\<lambda>c. c\<lparr>call_depth := call_depth c + 1, pc := size_of_i64 target\<rparr>) vmb"
    "mem_ok (st vma) (i32_of_i64 target) True"
    by (rule exec_callE [OF assms(1,2)]) (rule that; assumption)
  note p = push_stackE [OF c(1,5)]
  have w: "vm_wf k vm1" unfolding c(7) by (rule wf_call_depth [OF c(6)])
  have cur1: "cur vm1 = (cur vm)\<lparr>tier_status := ts, sp := a, call_depth := call_depth (cur vm) + 1, pc := size_of_i64 target\<rparr>"
    using p(3) c(2) by (simp add: c(7) cur_upd_ctx [OF c(6)])
  have st1: "memory (st vm1) = memory (st vmb)" "memory_tags (st vm1) = memory_tags (st vmb)"
    by (simp_all add: c(7) upd_ctx_def)
  define vmp where "vmp = upd_ctx (\<lambda>_. (cur vm1)\<lparr>sp := a + 1\<rparr>) vm1"
  have pop: "pop_stack vm1 = Some (Some (a, i64_of_size (pc (cur vm)), VT_Int), vmp)"
    using p cur_wf [OF c(1)] by (simp add: vmp_def pop_stack_def pop_stack_word_def cur1 st1 c(2) ctx_wf_def stack_ok_def)
      linarith
  have wv: "vm_wf k vmp"
    using pop pop_stack_total [OF w] by auto
  have curp: "cur vmp = (cur vm1)\<lparr>sp := a + 1\<rparr>"
    by (simp add: vmp_def cur_upd_ctx [OF w])
  have small: "pc (cur vm) < 2 ^ 31"
    using vm_wf_state [OF w] assms(3) by (simp add: state_wf_def layout_ok_def)
  have i32: "i32_of_i64 (i64_of_size (pc (cur vm))) = i32_of_size (pc (cur vm))"
    by (simp add: i32_of_i64_def i64_of_size_def i32_of_size_def unsigned_of_nat word_of_nat_eq_iff)
  have s: "sint (i32_of_size (pc (cur vm))) = int (pc (cur vm))"
    using small by (simp add: i32_of_size_def signed_of_nat signed_take_bit_int_eq_self)
  then have "mem_ok (st vmp) (i32_of_i64 (i64_of_size (pc (cur vm)))) True"
    using small assms(3,4) size_of_i32_of_size [of "pc (cur vm)"]
    by (simp add: vmp_def mem_ok_def i32 Let_def upd_ctx_def)
  then have chk: "check_mem (opcode j) (i32_of_i64 (i64_of_size (pc (cur vm)))) ''return'' True vmp = (True, vmp)"
    by (simp add: check_mem_def)
  have pc: "size_of_i64 (i64_of_size (pc (cur vm))) = pc (cur vm)"
    using small by (intro size_of_i64_of_size) simp
  define vmr where "vmr = upd_ctx (\<lambda>c. c\<lparr>call_depth := call_depth c - 1\<rparr>) vmp"
  have "exec_ret j c vm1 = Some (None, set_pc (pc (cur vm)) vmr)"
    by (simp add: exec_ret_def pop chk pc curp cur1 continue_def vmr_def)
  moreover have "vm_wf k vmr" "cur vmr = (cur vmp)\<lparr>call_depth := call_depth (cur vm)\<rparr>"
    using wf_call_depth(2) [OF wv] by (simp_all add: vmr_def cur_upd_ctx [OF wv] curp cur1)
  ultimately show ?thesis
    using p(1,2) c(2) by (simp add: set_pc_def cur_upd_ctx [of k vmr] curp cur1)
qed


text \<open>The demonstration program calls itself.\<close>

definition call_insn :: insn where
  "call_insn = \<lparr>opcode = Op_Call, op_a = 0, op_b = 0, op_c = 0, literal_kind = LK_Int\<rparr>"

lemma layout_4: "code_seg (layout_for 4) = \<lparr>seg_start = 0, seg_limit = 4\<rparr>"
  "stack_seg (layout_for 4) = \<lparr>seg_start = 4, seg_limit = 260\<rparr>" "260 < total_size (layout_for 4)"
  by (simp_all add: layout_for_def total_size_def kDefaultStackSize_def kDefaultHeapSize_def
      kDefaultTensorSpace_def kDefaultMetaSpace_def Let_def)

lemma warm_facts:
  "call_depth (cur warm_vm) = 0" "pc (cur warm_vm) = 0" "registers (cur warm_vm) ! 0 = 0"
  "length (registers (cur warm_vm)) = 243" "sp (cur warm_vm) = 260" "stack_base (cur warm_vm) = 260"
  "stack_limit (cur warm_vm) = 4" "policy_opt (st warm_vm) = None"
  "length (memory (st warm_vm)) = total_size (layout_for 4)"
  "length (memory_tags (st warm_vm)) = total_size (layout_for 4)"
  "layout (st warm_vm) = layout_for 4"
  by (simp_all add: warm_vm_def upd_ctx_def demo_vm_def load_state_def sync_system_registers_def init_state_def
      demo_facts(5) sync_context_reserved cur_def init_ctx_def layout_4 kRegisters_def Let_def)

lemma warm_call: "\<exists>vm'. exec_call call_insn 0 warm_vm = Some (None, vm')"
proof -
  have "call_tier_loop n Op_Call (Suc 0) warm_vm = Some (True, warm_vm)" for n
    by (subst call_tier_loop.simps) (simp add: warm_select recursion_limit_for_tier_def)
  moreover have "get_val (ib call_insn) warm_vm = Some 0"
    using warm_facts by (simp add: get_val_def call_insn_def arr_get_def idx_b_def size_of_i64_def)
  moreover have "check_mem Op_Call (i32_of_i64 0) ''call'' True warm_vm = (True, warm_vm)"
    using warm_facts by (simp add: check_mem_def mem_ok_def layout_4 i32_of_i64_def size_of_i32_def Let_def)
  moreover have "\<exists>a vm'. push_stack 0 VT_Int warm_vm = Some (Some a, vm')"
    using warm_facts layout_4(3) by (simp add: push_stack_def push_stack_word_def arr_set_def)
  ultimately show ?thesis
    using warm_facts
    by (auto simp: exec_call_def call_insn_def Let_def warm_select recursion_limit_for_tier_def reg_ok_b_def
        kHardRecursionCeiling_def i64_of_size_def continue_def reg_ok_def size_of_i32_def i32_of_i64_def kRegisters_def)
qed

theorem call_depth_bounded_witness:
  "\<exists>vm'. exec_call call_insn 0 warm_vm = Some (None, vm') \<and> call_depth (cur vm') = 1"
  using warm_call call_depth_bounded [OF warm_wf] by (auto simp: warm_facts)

theorem call_ret_roundtrip_witness:
  "\<exists>vm1 vm2. exec_call call_insn 0 warm_vm = Some (None, vm1) \<and>
     exec_ret call_insn 1 vm1 = Some (None, vm2) \<and> sp (cur vm2) = 260 \<and> call_depth (cur vm2) = 0"
proof -
  obtain vm1 where c: "exec_call call_insn 0 warm_vm = Some (None, vm1)" using warm_call by blast
  have "layout (st vm1) = layout_for 4"
    using safe_exec_call [OF warm_wf, of call_insn 0] c
    by (simp add: safe_def vm_wf_def operand_fits_def call_insn_def i64_of_i32_def i32_of_i64_def)
  with call_ret_roundtrip [OF warm_wf c, of call_insn 1] c show ?thesis
    by (auto simp: warm_facts layout_4)
qed

end
