(* ===== verification/Properties_Memory.thy ===== *)
theory Properties_Memory
  imports Properties_Machine
begin

text \<open>
  Properties of the memory instructions: heap blocks and stack frames are allocated disjointly and
  freed in the reverse order.
\<close>

section \<open>What the bookkeeping leaves alone\<close>

lemma log_access_select:
  "heap_frames (st (log_access oper kind addr sz action vm)) = heap_frames (st vm)"
  "heap_ptr (st (log_access oper kind addr sz action vm)) = heap_ptr (st vm)"
  "layout (st (log_access oper kind addr sz action vm)) = layout (st vm)"
  "cur (log_access oper kind addr sz action vm) = cur vm"
  using log_ext_fields [OF log_ext_log_memory_segment_access]
  by (simp_all add: log_access_def upd_st_def cur_def)

lemma upd_ctx_select:
  "heap_frames (st (upd_ctx f vm)) = heap_frames (st vm)"
  "heap_ptr (st (upd_ctx f vm)) = heap_ptr (st vm)" "layout (st (upd_ctx f vm)) = layout (st vm)"
  by (simp_all add: upd_ctx_def)

lemma set_reg_select:
  assumes "set_reg r v t vm = Some vm'"
  shows "heap_frames (st vm') = heap_frames (st vm)" "heap_ptr (st vm') = heap_ptr (st vm)"
    "layout (st vm') = layout (st vm)"
  using assms by (auto simp: set_reg_def put_reg_def upd_ctx_select split: if_splits bind_splits)

lemma tiles_block_le:
  "tiles a blocks b \<Longrightarrow> (x, n) \<in> set blocks \<Longrightarrow> a \<le> unat x \<and> unat x + unat n \<le> b"
proof (induction blocks arbitrary: a)
  case (Cons blk blocks)
  then show ?case by (cases blk) (use tiles_le in fastforce)
qed simp

lemma exec_heap_allocE:
  assumes "vm_wf k vm" "exec_heap_alloc i cpc vm = Some (None, vm')"
  obtains sz where "sz = align_block81 (size_of_i64 (op_b i))" "0 \<le> sint (op_b i)"
    "seg_start (heap_seg (layout (st vm))) \<le> heap_ptr (st vm)"
    "heap_ptr (st vm) + sz \<le> seg_limit (heap_seg (layout (st vm)))"
    "heap_frames (st vm') = heap_frames (st vm) @ [(i64_of_size (heap_ptr (st vm)), i64_of_size sz)]"
    "heap_ptr (st vm') = heap_ptr (st vm) + sz" "layout (st vm') = layout (st vm)" "seg_valid (heap_seg (layout (st vm)))"
proof -
  obtain vm1 vm2 where r: "seg_valid (heap_seg (layout (st vm)))" "0 \<le> sint (op_b i)"
    "seg_start (heap_seg (layout (st vm))) \<le> heap_ptr (st vm)"
    "heap_ptr (st vm) + align_block81 (size_of_i64 (op_b i)) \<le> seg_limit (heap_seg (layout (st vm)))"
    "set_reg (op_a i) (i64_of_size (heap_ptr (st vm))) VT_Int (upd_st (\<lambda>s. s\<lparr>heap_frames := heap_frames s @
       [(i64_of_size (heap_ptr (st vm)), i64_of_size (align_block81 (size_of_i64 (op_b i))))],
       heap_ptr := heap_ptr (st vm) + align_block81 (size_of_i64 (op_b i))\<rparr>) vm) = Some vm1"
    "update_flags_of (ia i) vm1 = Some vm2"
    "vm' = log_access (opcode i) Seg_Heap (heap_ptr (st vm)) (align_block81 (size_of_i64 (op_b i))) ''heap block allocated'' vm2"
    using assms(2) by (auto simp: exec_heap_alloc_def Let_def fault_def continue_def not_less
        split: if_splits bind_splits)
  from r(6) have "heap_frames (st vm2) = heap_frames (st vm1)" "heap_ptr (st vm2) = heap_ptr (st vm1)"
    "layout (st vm2) = layout (st vm1)"
    by (auto simp: update_flags_of_def update_flags_def upd_ctx_select split: bind_splits)
  with set_reg_select [OF r(5)] r that show thesis
    by (simp add: log_access_select upd_st_def)
qed


text \<open>The heap is freed in the reverse order of allocation: a \<open>HeapFree\<close> of the block that the
  last \<open>HeapAlloc\<close> returned, with the same size, restores the list of blocks and the heap pointer.\<close>
theorem heap_free_roundtrip:
  assumes "vm_wf k vm" "exec_heap_alloc i cpc vm = Some (None, vm')"
    "op_b j = op_b i" "0 < sint (op_b i)" "\<not> bad_a j" "get_val (ia j) vm' = Some (i64_of_size (heap_ptr (st vm)))"
  shows "\<exists>vm''. exec_heap_free j c vm' = Some (None, vm'') \<and>
    heap_frames (st vm'') = heap_frames (st vm) \<and> heap_ptr (st vm'') = heap_ptr (st vm)"
proof -
  obtain sz where a: "sz = align_block81 (size_of_i64 (op_b i))"
    "seg_start (heap_seg (layout (st vm))) \<le> heap_ptr (st vm)"
    "heap_ptr (st vm) + sz \<le> seg_limit (heap_seg (layout (st vm)))"
    "heap_frames (st vm') = heap_frames (st vm) @ [(i64_of_size (heap_ptr (st vm)), i64_of_size sz)]"
    "layout (st vm') = layout (st vm)" "seg_valid (heap_seg (layout (st vm)))"
    by (rule exec_heap_allocE [OF assms(1,2)]) (rule that; assumption)
  have "0 < sz" using a(1) align_block81_ge [of "size_of_i64 (op_b i)"] nonneg_i64 [of "op_b i"] assms(4)
    by (simp add: size_of_i64_def)
  moreover have "heap_ptr (st vm) < 2 ^ 64"
    using a(3) small_layout(2) [OF assms(1)] by simp
  ultimately show ?thesis
    using a assms(3-6) by (simp add: exec_heap_free_def Let_def seg_contains_def continue_def log_access_select upd_st_def)
qed

section \<open>Stack frames\<close>

definition scheduled :: "vm \<Rightarrow> bool" where
  "scheduled vm \<longleftrightarrow> current_context (st vm) < length (contexts (st vm))"

lemma scheduled_wf: "vm_wf k vm \<Longrightarrow> scheduled vm"
  by (simp add: scheduled_def vm_wf_def state_wf_def)

lemma scheduled_upd_ctx: "scheduled vm \<Longrightarrow> scheduled (upd_ctx f vm)"
  "scheduled vm \<Longrightarrow> cur (upd_ctx f vm) = f (cur vm)"
  by (simp_all add: scheduled_def upd_ctx_def cur_def)

lemma cur_set_reg:
  assumes "scheduled vm" "set_reg r v t vm = Some vm'"
  shows "stack_frames (cur vm') = stack_frames (cur vm)" "sp (cur vm') = sp (cur vm)" "scheduled vm'"
  using assms by (auto simp: set_reg_def put_reg_def scheduled_upd_ctx split: if_splits bind_splits)

lemma exec_stack_allocE:
  assumes "vm_wf k vm" "exec_stack_alloc i cpc vm = Some (None, vm')"
  obtains sz where "sz = align_block81 (size_of_i64 (op_b i))" "0 \<le> sint (op_b i)" "sz \<le> sp (cur vm) - seg_start (stack_seg (layout (st vm)))"
    "stack_frames (cur vm') = stack_frames (cur vm) @ [(i64_of_size (sp (cur vm) - sz), i64_of_size sz)]"
    "sp (cur vm') = sp (cur vm) - sz" "layout (st vm') = layout (st vm)" "seg_valid (stack_seg (layout (st vm)))"
proof -
  define sz where "sz = align_block81 (size_of_i64 (op_b i))"
  note range = stack_ptr_range [OF assms(1)]
  have small: "sp (cur vm) < 2 ^ 64" using range(2) small_layout(1) [OF assms(1)] by simp
  then have sub: "size_sub (sp (cur vm)) n = sp (cur vm) - n" if "n \<le> sp (cur vm)" for n
    using that by (simp add: size_sub_def)
  obtain vm1 where r: "seg_valid (stack_seg (layout (st vm)))" "0 \<le> sint (op_b i)"
    "sz \<le> size_sub (sp (cur vm)) (seg_start (stack_seg (layout (st vm))))"
    "set_reg (op_a i) (i64_of_size (size_sub (sp (cur vm)) sz)) VT_Int
       (upd_ctx (\<lambda>c. c\<lparr>stack_frames := stack_frames c @ [(i64_of_size (size_sub (sp (cur vm)) sz), i64_of_size sz)],
          sp := size_sub (sp (cur vm)) sz\<rparr>) vm) = Some vm1"
    "vm' = log_access (opcode i) Seg_Stack (size_of_i64 (i64_of_size (size_sub (sp (cur vm)) sz))) sz
       ''stack frame allocated'' (update_flags (i64_of_size (size_sub (sp (cur vm)) sz)) vm1)"
    using assms(2) unfolding exec_stack_alloc_def Let_def sz_def [symmetric]
    by (auto simp: fault_def continue_def not_less split: if_splits bind_splits)
  have le: "sz \<le> sp (cur vm) - seg_start (stack_seg (layout (st vm)))" using r(3) sub range by simp
  then have s: "size_sub (sp (cur vm)) sz = sp (cur vm) - sz" by (intro sub) linarith
  note in_range = scheduled_upd_ctx [OF scheduled_wf [OF assms(1)]]
  note c = cur_set_reg [OF in_range(1) r(4)]
  from set_reg_select [OF r(4)] r(1,2,5) le s c in_range(2) scheduled_upd_ctx(2) [OF c(3)] that [OF sz_def] show thesis
    by (simp add: log_access_select update_flags_def upd_ctx_select)
qed

text \<open>Stack frames are freed in the reverse order of allocation: a \<open>StackFree\<close> of the frame that the
  last \<open>StackAlloc\<close> returned, with the same size, restores the frame list and the stack pointer.\<close>
theorem stack_free_roundtrip:
  assumes "vm_wf k vm" "exec_stack_alloc i cpc vm = Some (None, vm')"
    "op_b j = op_b i" "0 < sint (op_b i)" "\<not> bad_a j" "get_val (ia j) vm' = Some (i64_of_size (sp (cur vm')))"
  shows "\<exists>vm''. exec_stack_free j c vm' = Some (None, vm'') \<and>
    stack_frames (cur vm'') = stack_frames (cur vm) \<and> sp (cur vm'') = sp (cur vm)"
proof -
  obtain sz where a: "sz = align_block81 (size_of_i64 (op_b i))" "sz \<le> sp (cur vm) - seg_start (stack_seg (layout (st vm)))"
    "stack_frames (cur vm') = stack_frames (cur vm) @ [(i64_of_size (sp (cur vm) - sz), i64_of_size sz)]"
    "sp (cur vm') = sp (cur vm) - sz" "layout (st vm') = layout (st vm)" "seg_valid (stack_seg (layout (st vm)))"
    by (rule exec_stack_allocE [OF assms(1,2)]) (rule that; assumption)
  note range = stack_ptr_range [OF assms(1)] small_layout(1) [OF assms(1)]
  have "0 < sz" using a(1) align_block81_ge [of "size_of_i64 (op_b i)"] nonneg_i64 [of "op_b i"] assms(4)
    by (simp add: size_of_i64_def)
  with a(2) range(1,2) have "sz \<le> sp (cur vm)" "seg_start (stack_seg (layout (st vm))) \<le> sp (cur vm) - sz"
    "sp (cur vm) - sz < seg_limit (stack_seg (layout (st vm)))" by linarith+
  moreover from this(3) range(3) have "sp (cur vm) - sz < 2 ^ 64" by simp
  moreover have "scheduled vm'"
    using safe_exec_stack_alloc [OF assms(1), of i cpc] assms(2) by (simp add: safe_def scheduled_wf)
  ultimately show ?thesis
    using a assms(3-6) by (simp add: exec_stack_free_def Let_def seg_contains_def continue_def log_access_select scheduled_upd_ctx)
qed

section \<open>Witnesses\<close>

text \<open>Allocation of ten words for register 1 and its release.\<close>

definition block_insn :: insn where
  "block_insn = \<lparr>opcode = Op_HeapAlloc, op_a = 1, op_b = 10, op_c = 0, literal_kind = LK_Int\<rparr>"

lemma block_insn_select [simp]:
  "op_a block_insn = 1" "op_b block_insn = 10" "bad_a block_insn = False" "idx 1 = 1"
  "align_block81 (size_of_i64 10) = 81" "sint (10 :: i64) = 10"
  by (simp_all add: block_insn_def bad_a_def reg_ok_def size_of_i32_def idx_def align_block81_def size_of_i64_def kRegisters_def)

lemma demo_memory:
  "layout (st demo_vm) = layout_for 4" "heap_ptr (st demo_vm) = 260" "heap_frames (st demo_vm) = []"
  "seg_start (heap_seg (layout_for 4)) = 260" "seg_limit (heap_seg (layout_for 4)) = 260 + kDefaultHeapSize"
  "seg_start (stack_seg (layout_for 4)) = 4" "seg_limit (stack_seg (layout_for 4)) = 260"
  "sp (cur demo_vm) = 260" "registers (cur demo_vm) ! 1 = 0" "length (registers (cur demo_vm)) = 243"
  "length (register_tags (cur demo_vm)) = 243" "policy_opt (st demo_vm) = None" "scheduled demo_vm" "stack_frames (cur demo_vm) = []"
  by (simp_all add: scheduled_def demo_vm_def load_state_def sync_system_registers_def init_state_def
      demo_facts(5) sync_context_ordinary reserved_reg_def cur_def init_ctx_def kRegisters_def layout_for_def kDefaultStackSize_def Let_def)

lemma upd_heap_select:
  "cur (upd_st (\<lambda>s. s\<lparr>heap_frames := f s, heap_ptr := g s\<rparr>) vm) = cur vm"
  "scheduled (upd_st (\<lambda>s. s\<lparr>heap_frames := f s, heap_ptr := g s\<rparr>) vm) = scheduled vm"
  by (simp_all add: upd_st_def cur_def scheduled_def)

lemma demo_heap_alloc:
  "\<exists>vm'. exec_heap_alloc block_insn 0 demo_vm = Some (None, vm') \<and> get_val 1 vm' = Some (i64_of_size 260)"
  using demo_memory
  by (simp add: exec_heap_alloc_def Let_def seg_valid_def seg_size_def kDefaultHeapSize_def get_val_def arr_get_def
      set_reg_def put_reg_def arr_set_def update_flags_of_def update_flags_def continue_def idx_def size_of_i32_def
      upd_heap_select scheduled_upd_ctx log_access_select)

lemma demo_stack_alloc:
  "\<exists>vm'. exec_stack_alloc block_insn 0 demo_vm = Some (None, vm') \<and> get_val 1 vm' = Some (i64_of_size 179)"
  using demo_memory
  by (simp add: exec_stack_alloc_def Let_def seg_valid_def over_max_stack_def get_val_def arr_get_def
      set_reg_def put_reg_def arr_set_def update_flags_def continue_def idx_def size_of_i32_def
      scheduled_upd_ctx log_access_select)


theorem heap_free_roundtrip_witness:
  "\<exists>vm' vm''. exec_heap_alloc block_insn 0 demo_vm = Some (None, vm') \<and>
     exec_heap_free block_insn 1 vm' = Some (None, vm'') \<and> heap_frames (st vm'') = [] \<and> heap_ptr (st vm'') = 260"
proof -
  obtain vm' where a: "exec_heap_alloc block_insn 0 demo_vm = Some (None, vm')" "get_val 1 vm' = Some (i64_of_size 260)"
    using demo_heap_alloc by blast
  with heap_free_roundtrip [OF demo_wf a(1), of block_insn 1] show ?thesis by (simp add: demo_memory)
qed

theorem stack_free_roundtrip_witness:
  "\<exists>vm' vm''. exec_stack_alloc block_insn 0 demo_vm = Some (None, vm') \<and>
     exec_stack_free block_insn 1 vm' = Some (None, vm'') \<and> stack_frames (cur vm'') = [] \<and> sp (cur vm'') = 260"
proof -
  obtain vm' where a: "exec_stack_alloc block_insn 0 demo_vm = Some (None, vm')" "get_val 1 vm' = Some (i64_of_size 179)"
    using demo_stack_alloc by blast
  obtain "sp (cur vm') = 179"
    by (rule exec_stack_allocE [OF demo_wf a(1)]) (simp add: demo_memory)
  with a stack_free_roundtrip [OF demo_wf a(1), of block_insn 1] show ?thesis by (simp add: demo_memory)
qed

end
