(* ===== verification/Properties_Structures.thy ===== *)
theory Properties_Structures
  imports T81_Exec_Cog
begin

text \<open>
  Properties of the data structures behind the instructions: the inbox of the distributed node,
  strings, maps and sets, float conversions, matrices, symbolic graphs, the recursor and infinite
  forms.
\<close>

section \<open>The distributed node\<close>

text \<open>C17: Merging is deterministic: it takes the newest message of the inbox, removes every copy of
  it, moves the clock past it, and depends only on which messages have arrived, not on their order
  or on how often they arrived.\<close>
theorem merge_takes_newest:
  assumes "inbox n \<noteq> []"
  shows "\<exists>msg n'. merge_inbox n = (Some msg, n') \<and> msg \<in> set (inbox n) \<and>
    (\<forall>m \<in> set (inbox n). nm_tick m \<le> nm_tick msg) \<and> set (inbox n') = set (inbox n) - {msg} \<and>
    global_tick n' = max (global_tick n) (nm_tick msg) + 1 \<and>
    (\<forall>ms. set ms = set (inbox n) \<longrightarrow> merge_inbox (n\<lparr>inbox := ms\<rparr>) = merge_inbox n)"
proof -
  obtain msg n' where m: "merge_inbox n = (Some msg, n')" "msg \<in> set (inbox n)"
    "\<forall>m \<in> set (inbox n). \<not> newer_first m msg" "set (inbox n') = set (inbox n) - {msg}"
    "global_tick n' = max (global_tick n) (nm_tick msg) + 1"
    by (rule merge_inbox_newest [OF assms])
  moreover have "\<forall>m \<in> set (inbox n). nm_tick m \<le> nm_tick msg"
    using m(3) by (auto simp: newer_first_def split: if_splits)
  ultimately show ?thesis using merge_inbox_set by blast
qed

definition two_messages :: node_state where
  "two_messages = \<lparr>global_tick = 4,
     inbox = [\<lparr>nm_payload = 1, nm_tag = 0, nm_tick = 3, nm_sender = ''a''\<rparr>, \<lparr>nm_payload = 2, nm_tag = 0, nm_tick = 9, nm_sender = ''b''\<rparr>],
     outbox = []\<rparr>"

theorem merge_takes_newest_witness:
  "\<exists>msg n'. merge_inbox two_messages = (Some msg, n') \<and> nm_payload msg = 2 \<and> global_tick n' = 10"
proof -
  have two: "inbox two_messages \<noteq> []" "set (inbox two_messages) =
      {\<lparr>nm_payload = 1, nm_tag = 0, nm_tick = 3, nm_sender = ''a''\<rparr>, \<lparr>nm_payload = 2, nm_tag = 0, nm_tick = 9, nm_sender = ''b''\<rparr>}"
    "global_tick two_messages = 4"
    by (simp_all add: two_messages_def)
  obtain msg n' where m: "merge_inbox two_messages = (Some msg, n')" "msg \<in> set (inbox two_messages)"
    "\<forall>m \<in> set (inbox two_messages). nm_tick m \<le> nm_tick msg"
    "global_tick n' = max (global_tick two_messages) (nm_tick msg) + 1"
    using merge_takes_newest [OF two(1)] by blast
  from m(2,3) have "nm_payload msg = 2" "nm_tick msg = 9" unfolding two(2) by auto
  with m(1,4) two(3) show ?thesis by (simp add: max_def)
qed

section \<open>Strings\<close>

text \<open>Splitting loses nothing: joining the parts of a string with the separator gives the string
  back, no part contains the separator, and replacing a substring is splitting by it and joining
  with the replacement.\<close>
theorem split_join_replace:
  assumes "sep \<noteq> []"
  shows "join_with sep (split_from s sep 0) = s \<and> (\<forall>part \<in> set (split_from s sep 0). \<not> str_contains part sep) \<and>
    replace_from s sep repl 0 = join_with repl (split_from s sep 0)"
  using join_split_from [OF assms, of s 0] split_from_parts [OF assms, of 0 s] replace_from_split [OF assms, of s repl 0]
  by auto

theorem split_join_replace_witness:
  "join_with '','' (split_from ''a,,b'' '','' 0) = ''a,,b'' \<and>
   replace_from ''a,,b'' '','' '';'' 0 = join_with '';'' (split_from ''a,,b'' '','' 0)"
  using split_join_replace [of "'',''" "''a,,b''" "'';''"] by simp

section \<open>Maps and sets\<close>

text \<open>The finite map that a vector of alternating keys and values stands for.\<close>
definition map_of_vec :: "string list \<Rightarrow> (string \<rightharpoonup> string)" where
  "map_of_vec vec = (\<lambda>k. kv_get k vec)"

text \<open>C18: The map instructions refine finite maps: on the vectors they build, insertion, removal,
  lookup, keys and size are those of the map the vector stands for, and insertion and removal
  build such vectors again.\<close>
theorem map_refinement:
  assumes "kv_ok vec"
  shows "kv_ok (kv_put k v vec) \<and> kv_ok (kv_remove k vec) \<and>
    map_of_vec (kv_put k v vec) = (map_of_vec vec)(k \<mapsto> v) \<and>
    map_of_vec (kv_remove k vec) = (map_of_vec vec)(k := None) \<and>
    (kv_has k vec \<longleftrightarrow> k \<in> dom (map_of_vec vec)) \<and>
    set (kv_keys vec) = dom (map_of_vec vec) \<and> distinct (kv_keys vec) \<and>
    kv_size vec = card (dom (map_of_vec vec))"
  using assms kv.ok_put [of vec k v] kv.ok_remove [of vec k] kv.size_card [of vec] kv.set_keys [of vec] kv.keys_distinct [of vec]
  by (auto simp: map_of_vec_def fun_eq_iff kv.get_put kv.get_remove kv_has_def dom_def)

theorem map_refinement_witness:
  "map_of_vec (kv_put ''k'' ''new'' [''k'', ''old'']) = (map_of_vec [''k'', ''old''])(''k'' \<mapsto> ''new'') \<and>
   kv_size [''k'', ''old''] = card (dom (map_of_vec [''k'', ''old'']))"
  using map_refinement [of "[''k'', ''old'']" "''k''" "''new''"] by (simp add: kv_ok_def)

text \<open>The set instructions refine finite sets: adding, removing, membership and size are those of
  the set of the elements, and no element is ever stored twice.\<close>
theorem set_refinement:
  assumes "distinct vec"
  shows "distinct (set_add k vec) \<and> distinct (set_remove k vec) \<and> set (set_add k vec) = insert k (set vec) \<and>
    set (set_remove k vec) = set vec - {k} \<and> length (set_add k vec) = card (insert k (set vec)) \<and>
    length (set_remove k vec) = card (set vec - {k})"
  using assms str_set.ok_add [of vec k] str_set.ok_remove [of vec k] str_set.size_card [of "set_add k vec"]
    str_set.size_card [of "set_remove k vec"]
  by (simp add: str_set.elements_add str_set.elements_remove)

theorem set_refinement_witness:
  "set (set_add ''x'' [''y'']) = {''x'', ''y''} \<and> length (set_remove ''y'' [''y'']) = 0"
  using set_refinement [of "[''y'']" "''x''"] set_refinement [of "[''y'']" "''y''"] by auto

section \<open>Conversions between integers and floats\<close>

lemma pattern_split:
  assumes "b < 2 ^ m" "2 ^ Suc m \<le> (2 :: nat) ^ LENGTH('a)"
  shows "unat (word_of_nat ((if neg then 2 ^ m else 0) + b) :: 'a :: len word) = (if neg then 2 ^ m else 0) + b"
proof -
  have "(if neg then 2 ^ m else 0) + b < (2 :: nat) ^ LENGTH('a)" using assms by auto
  then show ?thesis by (simp only: unat_of_nat mod_less)
qed

lemma float_pattern:
  assumes "m < 2 ^ p" "0 < p" "p \<le> bias" "(bias + p) * 2 ^ (p - 1) \<le> 2 ^ e"
  shows "float_bits p bias m < 2 ^ e"
  using float_bits_fields(3) [of m p bias] assms by (cases "m = 0") (auto simp: float_bits_def)

text \<open>Integers of at most 53 bits survive the conversion to a double, those of at most 24 bits the
  conversion to a single: converting back gives the integer, without undefined behaviour.\<close>
theorem int_float_roundtrip:
  "(\<bar>sint x\<bar> < 2 ^ 53 \<longrightarrow> i64_of_f64 (f64_of_i64 x) = Some x) \<and>
   (\<bar>sint x\<bar> < 2 ^ 24 \<longrightarrow> i64_of_f32 (f32_of_i64 x) = Some x)"
proof (intro conjI impI)
  let ?m = "nat \<bar>sint x\<bar>"
  have signed: "signed_result (if sint x < 0 then - int ?m else int ?m) = Some x"
    by (simp add: signed_result_def sint_i64_range)
  show "i64_of_f64 (f64_of_i64 x) = Some x" if "\<bar>sint x\<bar> < 2 ^ 53"
  proof -
    from that have m: "?m < 2 ^ 53" by simp
    have b: "float_bits 53 1023 ?m < 2 ^ 63" by (rule float_pattern [OF m]) simp_all
    note u = pattern_split [OF b, where ?'a = "64", of "sint x < 0"]
    show ?thesis
      using float_trunc_bits [OF m, of 1023] b signed u
      by (cases "sint x < 0") (simp_all add: i64_of_f64_def f64_of_i64_def)
  qed
  show "i64_of_f32 (f32_of_i64 x) = Some x" if "\<bar>sint x\<bar> < 2 ^ 24"
  proof -
    from that have m: "?m < 2 ^ 24" by simp
    have b: "float_bits 24 127 ?m < 2 ^ 31" by (rule float_pattern [OF m]) simp_all
    note u = pattern_split [OF b, where ?'a = "32", of "sint x < 0"]
    show ?thesis
      using float_trunc_bits [OF m, of 127] b signed u
      by (cases "sint x < 0") (simp_all add: i64_of_f32_def f32_of_i64_def)
  qed
qed

theorem int_float_roundtrip_witness:
  "i64_of_f64 (f64_of_i64 (- 81)) = Some (- 81) \<and> i64_of_f32 (f32_of_i64 (- 81)) = Some (- 81)"
  using int_float_roundtrip [of "- 81"] by simp

section \<open>Matrices\<close>

text \<open>Transposing twice gives the matrix back, and the transposed matrix has at \<open>(c, r)\<close> the
  element that the matrix has at \<open>(r, c)\<close>.\<close>
theorem transpose_involution:
  assumes "tensor_ok t" "tshape t = [m, n]"
  shows "\<exists>t'. transpose2d t = Some t' \<and> tensor_ok t' \<and> tshape t' = [n, m] \<and> transpose2d t' = Some t \<and>
    (\<forall>r < size_of_i32 m. \<forall>c < size_of_i32 n.
       tdata t' ! (c * size_of_i32 m + r) = tdata t ! (r * size_of_i32 n + c))"
proof -
  have rank: "tensor_rank t = 2" using assms tensor_rank_eq [OF assms(1), of 2] by (simp add: i32_of_size_def)
  obtain t' where t': "transpose2d t = Some t'" "tensor_ok t'" using transpose2d_ok [OF assms(1) rank] by blast
  then have s: "tshape t' = [n, m]" "tdata t' = transpose_data (size_of_i32 m) (size_of_i32 n) (tdata t)"
    by (auto simp: transpose2d_def rank assms(2) make_tensor_eq_Some)
  have rank': "tensor_rank t' = 2" using s tensor_rank_eq [OF t'(2), of 2] by (simp add: i32_of_size_def)
  obtain t'' where t'': "transpose2d t' = Some t''" using transpose2d_ok [OF t'(2) rank'] by blast
  then have "tshape t'' = [m, n]" "tdata t'' = transpose_data (size_of_i32 n) (size_of_i32 m) (tdata t')"
    by (auto simp: transpose2d_def rank' s(1) make_tensor_eq_Some)
  moreover have "length (tdata t) = size_of_i32 m * size_of_i32 n"
    using shape_size [OF assms(1)] assms(2) by simp
  ultimately have "t'' = t" using transpose_data_involution [of "tdata t"] assms(2) s(2) by (cases t; cases t'') simp
  with t' t'' s transpose_data_nth show ?thesis by (intro exI [of _ t']) auto
qed

theorem transpose_involution_witness:
  "\<exists>t'. transpose2d \<lparr>tshape = [1, 2], tdata = [5, 7]\<rparr> = Some t' \<and> tdata t' ! 1 = 7"
proof -
  have ok: "tensor_ok \<lparr>tshape = [1, 2], tdata = [5, 7]\<rparr>"
    by (simp add: tensor_ok_iff valid_shape_def size_from_shape_def size_of_i32_def)
  have "size_of_i32 1 = 1" "size_of_i32 2 = 2" by (simp_all add: size_of_i32_def)
  with transpose_involution [OF ok] show ?thesis by force
qed

section \<open>Symbolic graphs\<close>

text \<open>Rewriting substitutes: a rewrite of a symbol replaces it in every node and edge and drops
  duplicates, so that afterwards the graph is the image of the old one, and the rewritten symbol no
  longer occurs.\<close>
theorem rewrite_substitutes:
  assumes "symbol_valid m" "m \<noteq> r"
  shows "fst ` set (sg_nodes (apply_rewrite pool m r g)) = (id(m := r)) ` fst ` set (sg_nodes g) \<and>
    set (sg_edges (apply_rewrite pool m r g)) = (\<lambda>(x, y, l). ((id(m := r)) x, (id(m := r)) y, l)) ` set (sg_edges g) \<and>
    m \<notin> fst ` set (sg_nodes (apply_rewrite pool m r g)) \<and>
    (\<forall>(x, y, l) \<in> set (sg_edges (apply_rewrite pool m r g)). x \<noteq> m \<and> y \<noteq> m)"
proof -
  have id: "id(m := r) = (\<lambda>x. if x = m then r else x)" by (simp add: fun_eq_iff)
  note sets = apply_rewrite_sets [OF assms, of pool g]
  have "m \<notin> (id(m := r)) ` A" for A using assms(2) by auto
  moreover have "\<forall>(x, y, l) \<in> (\<lambda>(x, y, l). ((id(m := r)) x, (id(m := r)) y, l)) ` E. x \<noteq> m \<and> y \<noteq> m" for E :: "(u64 \<times> u64 \<times> string) set"
    using assms(2) by (auto split: if_splits)
  ultimately show ?thesis unfolding sets id by blast
qed

text \<open>A graph with an edge from the first to the second symbol.\<close>
definition edge_graph :: symbolic_graph where
  "edge_graph = add_edge 10 11 ''l'' (add_node (11, ''b'') (add_node (10, ''a'') empty_graph))"

theorem rewrite_substitutes_witness:
  "set (sg_edges (apply_rewrite [''a'', ''b''] 10 11 edge_graph)) = {(11, 11, ''l'')}"
proof -
  have e: "sg_edges edge_graph = [(10, 11, ''l'')]"
    by (simp add: edge_graph_def add_edge_def add_node_def empty_graph_def)
  from rewrite_substitutes [of 10 11 "[''a'', ''b'']" edge_graph]
  show ?thesis by (simp add: symbol_valid_def e)
qed

text \<open>C20: The confluence check decides confluence: it accepts exactly the graphs whose nodes are
  valid and pairwise different, whose edges join nodes of the graph, and in which a symbol and a label
  have at most one target; and bringing a graph into canonical form twice is bringing it there once.\<close>
theorem confluence_decided:
  "(is_confluent g \<longleftrightarrow> distinct (map fst (sg_nodes g)) \<and> (\<forall>n \<in> set (sg_nodes g). symbol_valid (fst n)) \<and>
     (\<forall>(x, y, l) \<in> set (sg_edges g). symbol_valid x \<and> symbol_valid y \<and>
        x \<in> fst ` set (sg_nodes g) \<and> y \<in> fst ` set (sg_nodes g)) \<and>
     (\<forall>x y z l. (x, y, l) \<in> set (sg_edges g) \<longrightarrow> (x, z, l) \<in> set (sg_edges g) \<longrightarrow> y = z)) \<and>
   canonicalize (canonicalize g) = canonicalize g"
  using is_confluent_iff [of g] canonicalize_idem [of g] unfolding deterministic_def by blast

theorem confluence_decided_witness: "is_confluent edge_graph"
  using confluence_decided [of edge_graph]
  by (simp add: symbol_valid_def edge_graph_def add_edge_def add_node_def empty_graph_def)

section \<open>The recursor\<close>

text \<open>The recursors that \<open>Recurse\<close> (which first sets the limit to that of the tier), \<open>Contract\<close> and
  \<open>Terminate\<close> reach; a contraction to a NaN is left out.\<close>
inductive recursor_reachable :: "recursor \<Rightarrow> bool" where
  start: "recursor_reachable init_recursor"
| limit: "recursor_reachable r \<Longrightarrow>
    recursor_reachable (r\<lparr>max_depth := i32_of_size (recursion_limit_for_tier t)\<rparr>)"
| push: "recursor_reachable r \<Longrightarrow> push_frame p r = (True, r') \<Longrightarrow> recursor_reachable r'"
| contract: "recursor_reachable r \<Longrightarrow> contract_top e r = (True, r') \<Longrightarrow> \<not> f64_is_nan e \<Longrightarrow> recursor_reachable r'"
| pop: "recursor_reachable r \<Longrightarrow> recursor_reachable (pop_frame r)"

lemma f64_le_trans [trans]: "f64_le x y \<Longrightarrow> f64_le y z \<Longrightarrow> f64_le x z"
  by (auto simp: f64_le_def f64_less_def f64_eq_def)

lemma f64_not_less: "\<not> f64_is_nan x \<Longrightarrow> \<not> f64_is_nan y \<Longrightarrow> \<not> f64_less x y \<longleftrightarrow> f64_le y x"
  by (auto simp: f64_le_def f64_less_def f64_eq_def)

lemma f64_le_nan: "f64_le x y \<Longrightarrow> \<not> f64_is_nan x \<and> \<not> f64_is_nan y"
  by (auto simp: f64_le_def f64_less_def f64_eq_def)

definition below :: "contraction_proof \<Rightarrow> contraction_proof \<Rightarrow> bool" where
  "below p q \<longleftrightarrow> f64_le (cp_initial_entropy q) (cp_final_entropy p)"

lemma sint_step: "sint (w :: i32) < sint (v :: i32) \<Longrightarrow> sint (w + 1) = sint w + 1"
  "0 < sint w \<Longrightarrow> sint (w - 1) = sint w - 1"
  using sint_i32_range [of w] sint_i32_range(2) [of v]
  by (simp_all add: sint_word_ariths signed_take_bit_int_eq_self)

lemma recursor_invariant:
  "recursor_reachable r \<Longrightarrow> sint (max_depth r) \<le> 729 \<and> sint (current_depth r) = int (length (proofs r)) \<and>
     length (proofs r) \<le> 729 \<and> (\<forall>p \<in> set (proofs r). proof_valid p) \<and> sorted_wrt below (proofs r)"
proof (induction rule: recursor_reachable.induct)
  case start
  then show ?case by (simp add: init_recursor_def)
next
  case (limit r t)
  then show ?case by (cases t) (simp_all add: recursion_limit_for_tier_def i32_of_size_def)
next
  case (push r p r')
  then have v: "verify_depth_proof p r" "r' = r\<lparr>proofs := proofs r @ [p], current_depth := current_depth r + 1\<rparr>"
    by (auto simp: push_frame_def split: if_splits)
  have "below q p" if "q \<in> set (proofs r)" for q
  proof -
    from that have ne: "proofs r \<noteq> []" by auto
    then have l: "proof_valid (last (proofs r))" using push.IH by simp
    with v(1) ne have le: "f64_le (cp_initial_entropy p) (cp_final_entropy (last (proofs r)))"
      by (auto simp: verify_depth_proof_def proof_valid_def f64_not_less dest!: f64_le_nan)
    show ?thesis
    proof (cases "q = last (proofs r)")
      case True
      with le show ?thesis by (simp add: below_def)
    next
      case False
      with that ne have "q \<in> set (butlast (proofs r))" by (metis append_butlast_last_id rotate1.simps(2) set_ConsD set_rotate1)
      with push.IH ne have "below q (last (proofs r))"
        by (metis append_butlast_last_id sorted_wrt_append list.set_intros(1))
      with le l show ?thesis unfolding below_def proof_valid_def by (blast intro: f64_le_trans)
    qed
  qed
  moreover have "sint (current_depth r + 1) = sint (current_depth r) + 1" "sint (current_depth r) < sint (max_depth r)"
    using sint_step(1) [of "current_depth r" "max_depth r"] v(1) by (simp_all add: verify_depth_proof_def)
  ultimately show ?case using v push.IH
    by (auto simp: verify_depth_proof_def sorted_wrt_append)
next
  case (contract r e r')
  let ?top = "last (proofs r)"
  from contract.hyps have ne: "proofs r \<noteq> []" and e: "\<not> f64_less (cp_final_entropy ?top) e" "cp_verified ?top"
    "r' = r\<lparr>proofs := butlast (proofs r) @ [?top\<lparr>cp_final_entropy := e\<rparr>]\<rparr>"
    by (auto simp: contract_top_def Let_def split: if_splits)
  from ne contract.IH have l: "proof_valid ?top" by simp
  with e contract.hyps(3) have "f64_le e (cp_final_entropy ?top)"
    by (auto simp: proof_valid_def f64_not_less dest!: f64_le_nan)
  with l have "proof_valid (?top\<lparr>cp_final_entropy := e\<rparr>)" unfolding proof_valid_def by (auto intro: f64_le_trans)
  moreover obtain ps q where "proofs r = ps @ [q]" using ne by (cases "proofs r" rule: rev_cases) auto
  ultimately show ?case using contract.IH e(3) by (auto simp: sorted_wrt_append below_def)
next
  case (pop r)
  then show ?case
    by (cases "proofs r" rule: rev_cases) (auto simp: pop_frame_def sint_step sorted_wrt_append)
qed



text \<open>A contraction to a NaN is accepted, and after it one to any value: the entropy can rise.\<close>
lemma contract_nan_escapes:
  assumes "proofs r \<noteq> []" "cp_verified (last (proofs r))"
  shows "\<exists>r1 r2. contract_top 0x7FF8000000000000 r = (True, r1) \<and> contract_top e r1 = (True, r2) \<and>
    current_entropy r2 = e"
  using assms by (auto simp: contract_top_def Let_def f64_less_def f64_is_nan_def take_bit_eq_mod
      current_entropy_def)

section \<open>Infinite forms\<close>

lemma expand_terms_geometric:
  assumes "0 < snd r" "ts \<noteq> []" "0 < snd (last ts)"
  shows "\<exists>us. expand_terms n r ts = Some (ts @ us) \<and> length us = n \<and>
    (\<forall>i < n. frac_value (us ! i) = frac_value (last ts) * frac_value r ^ Suc i)"
  using assms(2,3)
proof (induction n arbitrary: ts)
  case (Suc n)
  have "snd (last ts) \<noteq> 0" "snd r \<noteq> 0" using assms(1) Suc.prems(2) by simp_all
  from frac_ops_value(3) [OF this] obtain t where
    t: "frac_mul (last ts) r = Some t" "frac_canonical t" "frac_value t = frac_value (last ts) * frac_value r" by blast
  then have "0 < snd (last (ts @ [t]))" by (simp add: frac_canonical_def)
  from Suc.IH [OF _ this] obtain us where us: "expand_terms n r (ts @ [t]) = Some (ts @ t # us)" "length us = n"
    "\<forall>i < n. frac_value (us ! i) = frac_value t * frac_value r ^ Suc i" by auto
  have "frac_value ((t # us) ! i) = frac_value (last ts) * frac_value r ^ Suc i" if "i < Suc n" for i
    using that us(3) t(3) by (cases i) (simp_all add: mult.assoc)
  with us t(1) show ?case by (intro exI [of _ "t # us"]) simp
qed simp

text \<open>A geometric form is exact: expanding it by \<open>n\<close> steps gives the terms \<open>a * r ^ i\<close>, and when the
  convergence test accepts the ratio, the fraction computed for the sum is the limit of the series.\<close>
theorem geometric_form_exact:
  assumes "is_geometric f" "0 < snd (first_term f)" "0 < snd (ratio f)" "lazy_terms f = []" "0 < n"
  shows "(\<exists>f'. expand_lazy n f = Some (True, f') \<and> length (lazy_terms f') = Suc n \<and>
      (\<forall>i \<le> n. frac_value (lazy_terms f' ! i) = frac_value (first_term f) * frac_value (ratio f) ^ i)) \<and>
    (geometric_convergent f \<longrightarrow> (\<exists>s. geometric_sum f = Some s \<and>
      (\<lambda>i. of_rat (frac_value (first_term f)) * of_rat (frac_value (ratio f)) ^ i) sums (of_rat (frac_value s) :: real)))"
proof
  obtain us where us: "expand_terms n (ratio f) [first_term f] = Some (first_term f # us)" "length us = n"
    "\<forall>i < n. frac_value (us ! i) = frac_value (first_term f) * frac_value (ratio f) ^ Suc i"
    using expand_terms_geometric [of "ratio f" "[first_term f]" n] assms(2,3) by auto
  have "frac_value ((first_term f # us) ! i) = frac_value (first_term f) * frac_value (ratio f) ^ i" if "i \<le> n" for i
    using that us(3) by (cases i) simp_all
  with us assms(1,4,5) show "\<exists>f'. expand_lazy n f = Some (True, f') \<and> length (lazy_terms f') = Suc n \<and>
      (\<forall>i \<le> n. frac_value (lazy_terms f' ! i) = frac_value (first_term f) * frac_value (ratio f) ^ i)"
    by (simp add: expand_lazy_def seed_lazy_prefix_def Let_def)
next
  let ?a = "frac_value (first_term f)" and ?r = "frac_value (ratio f)"
  show "geometric_convergent f \<longrightarrow> (\<exists>s. geometric_sum f = Some s \<and>
      (\<lambda>i. of_rat ?a * of_rat ?r ^ i) sums (of_rat (frac_value s) :: real))"
  proof
    assume "geometric_convergent f"
    then have r: "?r < 1" "- 1 < ?r"
      using frac_cmp_value [OF assms(3), of "(1, 1)"] frac_cmp_value [of "(- 1, 1)" "ratio f"] assms(3)
      by (auto simp: geometric_convergent_def frac_value_def split: if_splits)
    obtain d where d: "frac_sub (1, 1) (ratio f) = Some d" "frac_canonical d" "frac_value d = 1 - ?r"
      using frac_ops_value(2) [of "(1, 1)" "ratio f"] assms(3) by (auto simp: frac_value_def)
    with r have d0: "snd d \<noteq> 0" "fst d \<noteq> 0" by (auto simp: frac_canonical_def frac_value_def)
    from frac_ops_value(4) [of "first_term f" d] d0 assms(2) d(3) obtain s where
      s: "frac_div (first_term f) d = Some s" "frac_value s = ?a / (1 - ?r)" by auto
    have "norm (of_rat ?r :: real) < 1"
      using r of_rat_less [of ?r 1, where ?'a = real] of_rat_less [of "- 1" ?r, where ?'a = real] by (simp add: abs_less_iff)
    from sums_mult [OF geometric_sums [OF this], of "of_rat ?a"]
    have "(\<lambda>i. of_rat ?a * of_rat ?r ^ i) sums (of_rat (frac_value s) :: real)"
      by (simp add: s(2) of_rat_divide of_rat_diff)
    with d s show "\<exists>s. geometric_sum f = Some s \<and>
      (\<lambda>i. of_rat ?a * of_rat ?r ^ i) sums (of_rat (frac_value s) :: real)"
      by (simp add: geometric_sum_def)
  qed
qed

definition halves :: infinite_form where
  "halves = empty_form\<lparr>is_geometric := True, first_term := (1, 1), ratio := (1, 2)\<rparr>"

theorem geometric_form_exact_witness:
  "\<exists>f' s. expand_lazy 3 halves = Some (True, f') \<and> frac_value (lazy_terms f' ! 3) = 1 / 8 \<and>
     geometric_sum halves = Some s \<and> (\<lambda>i. (1 / 2) ^ i) sums (of_rat (frac_value s) :: real)"
  using geometric_form_exact [of halves 3]
  by (auto simp: halves_def empty_form_def geometric_convergent_def frac_cmp_def frac_value_def of_rat_divide power_one_over)

end
