(* ===== verification/T81_Compile.thy ===== *)
theory T81_Compile
  imports T81_Engine T81_Tables "HOL-Library.Sublist"
begin

text \<open>
  The compiler from policies to the bytecode of the Axion engine
  (\<open>Policy::compile_to_bytecode\<close> in \<open>kernel/axion/policy_serialization.cpp\<close>), and its correctness: the
  bytecode of a policy denies exactly the calls that the policy denies.
\<close>

section \<open>Bytes of numbers\<close>

text \<open>The loops of \<open>emit_u32\<close> and \<open>emit_u64\<close>, least significant byte first.\<close>

definition le_bytes :: "nat \<Rightarrow> 'a :: len word \<Rightarrow> u8 list" where
  "le_bytes n v = map (\<lambda>i. ucast (drop_bit (8 * i) v)) [0 ..< n]"

definition emit_u32 :: "u32 \<Rightarrow> u8 list" where "emit_u32 v = le_bytes 4 v"
definition emit_u64 :: "u64 \<Rightarrow> u8 list" where "emit_u64 v = le_bytes 8 v"

lemma read_le_bytes:
  fixes w :: "'a :: len word"
  assumes "8 * (i + n) \<le> LENGTH('a)"
  shows "read_le i n (take_bit (8 * i) w) (map (\<lambda>j. ucast (drop_bit (8 * j) w)) [i ..< i + n] @ bs) =
    Some (take_bit (8 * (i + n)) w, bs)"
  using assms
proof (induction n arbitrary: i)
  case (Suc n)
  have "take_bit (8 * i) w OR push_bit (i * 8) (ucast (ucast (drop_bit (8 * i) w) :: u8)) = take_bit (8 * Suc i) w"
    using Suc.prems by (intro bit_word_eqI) (auto simp: bit_simps)
  moreover have "[i ..< i + Suc n] = i # [Suc i ..< Suc i + n]" by (simp add: upt_rec)
  ultimately show ?case using Suc.IH [of "Suc i"] Suc.prems by simp
qed simp

lemma read_emit [simp]:
  "read_u32 (emit_u32 w @ bs) = Some (w, bs)" "read_u64 (emit_u64 v @ bs) = Some (v, bs)"
  using read_le_bytes [of 0 4 w bs] read_le_bytes [of 0 8 v bs]
  by (simp_all add: read_u32_def read_u64_def emit_u32_def emit_u64_def le_bytes_def take_bit_word_eq_self)

lemma read_u8_Cons [simp]: "read_u8 (b # bs) = Some (b, bs)"
  by (simp add: read_u8_def)

section \<open>The compiler\<close>

definition add_sym :: "string \<Rightarrow> string list \<Rightarrow> u32 \<times> string list" where
  "add_sym s syms = (case find_index (\<lambda>x. x = s) syms of
     Some i \<Rightarrow> (word_of_nat i, syms)
   | None \<Rightarrow> (word_of_nat (length syms), syms @ [s]))"

definition emit_limit :: "axion_op \<Rightarrow> i64 option \<Rightarrow> u8 list" where
  "emit_limit oper limit = (case limit of None \<Rightarrow> [] | Some v \<Rightarrow> oper # emit_u64 v)"

definition emit_loop :: "loop_hint \<Rightarrow> string list \<Rightarrow> u8 list \<times> string list" where
  "emit_loop h syms =
     (let (file, syms) = add_sym (loop_file h) syms
      in (AxRequireLoop # emit_u32 (loop_id h) @ emit_u32 file @ emit_u32 (loop_line h) @
            emit_u32 (loop_column h) @ (if bound_infinite h then 1 else 0) #
            emit_u64 (case bound_value h of None \<Rightarrow> 0 | Some b \<Rightarrow> b), syms))"

definition emit_match_guard :: "match_guard_req \<Rightarrow> string list \<Rightarrow> u8 list \<times> string list" where
  "emit_match_guard g syms =
     (let (en, syms) = add_sym (mg_enum_name g) syms;
          (vn, syms) = add_sym (mg_variant_name g) syms;
          (pl, syms) = (case mg_payload g of None \<Rightarrow> (0xFFFFFFFF, syms) | Some x \<Rightarrow> add_sym x syms);
          (res, syms) = add_sym (mg_result g) syms
      in (AxRequireMatchGuard # emit_u32 en @ emit_u32 vn @ emit_u32 pl @ emit_u32 res, syms))"

definition emit_segment :: "segment_event_req \<Rightarrow> string list \<Rightarrow> u8 list \<times> string list" where
  "emit_segment r syms =
     (let (seg, syms) = add_sym (sr_segment r) syms;
          (act, syms) = add_sym (sr_action r) syms
      in (AxRequireSegmentEvent # emit_u32 seg @ emit_u32 act @ (if sr_addr r \<noteq> None then 1 else 0) #
            emit_u64 (case sr_addr r of None \<Rightarrow> 0 | Some a \<Rightarrow> a), syms))"

definition emit_reason :: "axion_op \<Rightarrow> string \<Rightarrow> string list \<Rightarrow> u8 list \<times> string list" where
  "emit_reason oper r syms = (let (x, syms) = add_sym r syms in (oper # emit_u32 x, syms))"

text \<open>The loops over the requirements.\<close>

fun emit_each :: "('a \<Rightarrow> string list \<Rightarrow> u8 list \<times> string list) \<Rightarrow> 'a list \<Rightarrow> string list \<Rightarrow> u8 list \<times> string list" where
  "emit_each f [] syms = ([], syms)"
| "emit_each f (x # xs) syms =
     (let (code, syms) = f x syms; (rest, syms) = emit_each f xs syms in (code @ rest, syms))"

definition compile_to_bytecode :: "policy \<Rightarrow> policy" where
  "compile_to_bytecode p =
     (let limits = emit_limit AxLimitInstructions (max_instructions p) @ emit_limit AxLimitStack (max_stack p) @
                   emit_limit AxLimitRecursion (max_recursion p) @ emit_limit AxLimitReflections (max_reflections p) @
                   emit_limit AxLimitMetaWrites (max_meta_writes p);
          (loops, syms) = emit_each emit_loop (pol_loops p) [];
          (guards, syms) = emit_each emit_match_guard (match_guards p) syms;
          (segments, syms) = emit_each emit_segment (segment_requirements p) syms;
          (events, syms) = emit_each (emit_reason AxRequireAxionEvent) (axion_event_requirements p) syms;
          (alignments, syms) = emit_each (emit_reason AxRequireAlignment) (alignment_requirements p) syms
      in p\<lparr>bytecode := AxCheckTier # emit_u32 (pol_tier p) @ limits @ loops @ guards @ segments @ events @
             alignments @ [AxRet], symbol_table := syms\<rparr>)"

section \<open>Correctness\<close>

text \<open>A piece of code that lets the execution go on when \<open>ok\<close> holds, and denies otherwise.\<close>

definition runs :: "policy \<Rightarrow> syscall_context \<Rightarrow> u8 list \<Rightarrow> bool \<Rightarrow> bool" where
  "runs q ctx code ok \<longleftrightarrow> (\<forall>rest.
     if ok then exec_loop q ctx (code @ rest) = exec_loop q ctx rest
     else \<exists>v. exec_loop q ctx (code @ rest) = Some v \<and> vkind v = Deny)"

lemma runs_Nil: "runs q ctx [] True"
  by (simp add: runs_def)

lemma runs_append: "runs q ctx a x \<Longrightarrow> runs q ctx b y \<Longrightarrow> runs q ctx (a @ b) (x \<and> y)"
  unfolding runs_def by (cases x; cases y) (simp_all)

text \<open>The outcome of one operation, as a decision.\<close>

definition decides :: "verdict option \<Rightarrow> bool \<Rightarrow> bool" where
  "decides v ok \<longleftrightarrow> (case v of None \<Rightarrow> ok | Some d \<Rightarrow> \<not> ok \<and> vkind d = Deny)"

lemma decides_if [simp]: "decides (if b then Some (deny r) else None) ok \<longleftrightarrow> ok = (\<not> b)"
  "decides (if b then None else Some (deny r)) ok \<longleftrightarrow> ok = b"
  by (auto simp: decides_def)

lemma runs_op:
  assumes "\<And>rest. \<exists>v. exec_op q ctx oper (args @ rest) = Some (v, rest) \<and> decides v ok"
  shows "runs q ctx (oper # args) ok"
  unfolding runs_def
proof
  fix rest
  obtain v where "exec_op q ctx oper (args @ rest) = Some (v, rest)" "decides v ok"
    using assms by blast
  then show "if ok then exec_loop q ctx ((oper # args) @ rest) = exec_loop q ctx rest
     else \<exists>v. exec_loop q ctx ((oper # args) @ rest) = Some v \<and> vkind v = Deny"
    by (cases v) (simp_all add: decides_def)
qed

text \<open>The symbols of the compiled policy, and what an index into them means.\<close>

definition symbols_fit :: "policy \<Rightarrow> bool" where
  "symbols_fit q \<longleftrightarrow> length (symbol_table q) < 0xFFFFFFFF"

lemma add_sym_prefix: "add_sym s syms = (x, syms') \<Longrightarrow> prefix syms syms'"
  by (auto simp: add_sym_def split: option.splits)

lemma add_sym_get:
  assumes "add_sym s syms = (x, syms')" "prefix syms' (symbol_table q)" "symbols_fit q"
  shows "get_sym q x = s" "x \<noteq> 0xFFFFFFFF"
proof -
  obtain i where i: "i < length syms'" "syms' ! i = s" "x = word_of_nat i"
  proof (cases "find_index (\<lambda>x. x = s) syms")
    case None
    with assms(1) that [of "length syms"] show ?thesis by (auto simp: add_sym_def)
  next
    case (Some j)
    with assms(1) that [of j] find_index_Some [OF Some] show ?thesis by (auto simp: add_sym_def)
  qed
  obtain ext where ext: "symbol_table q = syms' @ ext" using assms(2) by (auto simp: prefix_def)
  with i(1) assms(3) have u: "unat x = i" "i < 0xFFFFFFFF"
    by (simp_all add: i(3) symbols_fit_def unat_of_nat)
  show "get_sym q x = s" using u i ext by (simp add: get_sym_def nth_append)
  show "x \<noteq> 0xFFFFFFFF" using u by auto
qed

lemma runs_limit:
  assumes "\<And>bs. exec_op q ctx oper bs = exec_limit n what bs"
  shows "runs q ctx (emit_limit oper limit) (\<not> exceeds n limit)"
proof (cases limit)
  case None
  then show ?thesis by (simp add: emit_limit_def exceeds_def runs_Nil)
next
  case (Some v)
  have "runs q ctx (oper # emit_u64 v) (\<not> exceeds n limit)"
    by (rule runs_op) (simp add: assms exec_limit_def exceeds_def Some size_of_i64_def not_less)
  then show ?thesis by (simp add: emit_limit_def Some)
qed

text \<open>The text that the bytecode waits for: numbers are printed unsigned, an unknown bound as zero.\<close>

definition compiled_reason :: "loop_hint \<Rightarrow> string" where
  "compiled_reason h = ''loop hint file='' @ loop_file h @ '' line='' @ show_uint (loop_line h) @
     '' column='' @ show_uint (loop_column h) @ '' bound='' @
     (if bound_infinite h then ''infinite''
      else show_uint (case bound_value h of None \<Rightarrow> 0 | Some b \<Rightarrow> b))"

lemma runs_loop:
  assumes "emit_loop h syms = (code, syms')" "prefix syms' (symbol_table q)" "symbols_fit q"
  shows "prefix syms syms' \<and> runs q ctx code (seen ctx (compiled_reason h))"
proof -
  obtain x where x: "add_sym (loop_file h) syms = (x, syms')"
    and code: "code = AxRequireLoop # emit_u32 (loop_id h) @ emit_u32 x @ emit_u32 (loop_line h) @
            emit_u32 (loop_column h) @ (if bound_infinite h then 1 else 0) #
            emit_u64 (case bound_value h of None \<Rightarrow> 0 | Some b \<Rightarrow> b)"
    using assms(1) by (auto simp: emit_loop_def Let_def split: prod.splits)
  have "runs q ctx code (seen ctx (compiled_reason h))"
    unfolding code by (rule runs_op)
      (simp add: exec_op_def Let_def add_sym_get [OF x assms(2,3)] compiled_reason_def)
  with add_sym_prefix [OF x] show ?thesis by blast
qed

lemma runs_match_guard:
  assumes "emit_match_guard g syms = (code, syms')" "prefix syms' (symbol_table q)" "symbols_fit q"
  shows "prefix syms syms' \<and> runs q ctx code (next_opcode ctx = Op_Halt \<longrightarrow> match_guard_satisfied ctx g)"
proof -
  obtain en s1 vn s2 pl s3 res where
    x: "add_sym (mg_enum_name g) syms = (en, s1)" "add_sym (mg_variant_name g) s1 = (vn, s2)"
    "(case mg_payload g of None \<Rightarrow> (0xFFFFFFFF, s2) | Some x \<Rightarrow> add_sym x s2) = (pl, s3)"
    "add_sym (mg_result g) s3 = (res, syms')"
    and code: "code = AxRequireMatchGuard # emit_u32 en @ emit_u32 vn @ emit_u32 pl @ emit_u32 res"
    using assms(1) by (auto simp: emit_match_guard_def Let_def split: prod.splits)
  have p: "prefix syms s1" "prefix s1 s2" "prefix s2 s3" "prefix s3 syms'"
    using x add_sym_prefix by (auto split: option.splits)
  then have t: "prefix s1 (symbol_table q)" "prefix s2 (symbol_table q)" "prefix s3 (symbol_table q)"
    using assms(2) prefix_order.order_trans by blast+
  note get = add_sym_get [OF x(1) t(1) assms(3)] add_sym_get [OF x(2) t(2) assms(3)] add_sym_get [OF x(4) assms(2,3)]
  have pl: "(if pl \<noteq> 0xFFFFFFFF then Some (get_sym q pl) else None) = mg_payload g"
    using x(3) add_sym_get [OF _ t(3) assms(3)] by (cases "mg_payload g") auto
  have "g = \<lparr>mg_enum_name = get_sym q en, mg_variant_name = get_sym q vn,
      mg_payload = (if pl \<noteq> 0xFFFFFFFF then Some (get_sym q pl) else None), mg_result = get_sym q res\<rparr>"
    by (simp only: get pl) simp
  then have "runs q ctx code (next_opcode ctx = Op_Halt \<longrightarrow> match_guard_satisfied ctx g)"
    unfolding code by (intro runs_op) (simp add: exec_op_def Let_def)
  with p show ?thesis by (meson prefix_order.order_trans)
qed

lemma runs_segment:
  assumes "emit_segment r syms = (code, syms')" "prefix syms' (symbol_table q)" "symbols_fit q"
  shows "prefix syms syms' \<and> runs q ctx code (next_opcode ctx = Op_Halt \<longrightarrow> segment_event_satisfied ctx r)"
proof -
  obtain seg s1 act where
    x: "add_sym (sr_segment r) syms = (seg, s1)" "add_sym (sr_action r) s1 = (act, syms')"
    and code: "code = AxRequireSegmentEvent # emit_u32 seg @ emit_u32 act @ (if sr_addr r \<noteq> None then 1 else 0) #
      emit_u64 (case sr_addr r of None \<Rightarrow> 0 | Some a \<Rightarrow> a)"
    using assms(1) by (auto simp: emit_segment_def Let_def split: prod.splits)
  have p: "prefix syms s1" "prefix s1 syms'" using x add_sym_prefix by auto
  then have t: "prefix s1 (symbol_table q)" using assms(2) prefix_order.order_trans by blast
  note get = add_sym_get [OF x(1) t assms(3)] add_sym_get [OF x(2) assms(2,3)]
  obtain a b c where r: "r = \<lparr>sr_segment = a, sr_action = b, sr_addr = c\<rparr>" by (cases r)
  have "runs q ctx code (next_opcode ctx = Op_Halt \<longrightarrow> segment_event_satisfied ctx r)"
    unfolding code by (rule runs_op) (cases c; simp add: exec_op_def Let_def get r)
  with p show ?thesis by (meson prefix_order.order_trans)
qed

lemma runs_reason:
  assumes "emit_reason oper r syms = (code, syms')" "prefix syms' (symbol_table q)" "symbols_fit q"
    "oper = AxRequireAxionEvent \<and> sat = axion_event_satisfied \<or> oper = AxRequireAlignment \<and> sat = alignment_event_satisfied"
  shows "prefix syms syms' \<and> runs q ctx code (next_opcode ctx = Op_Halt \<longrightarrow> sat ctx r)"
proof -
  obtain x where x: "add_sym r syms = (x, syms')" and code: "code = oper # emit_u32 x"
    using assms(1) by (auto simp: emit_reason_def Let_def split: prod.splits)
  have "runs q ctx code (next_opcode ctx = Op_Halt \<longrightarrow> sat ctx r)"
    unfolding code using assms(4)
    by (intro runs_op) (auto simp: exec_op_def Let_def add_sym_get [OF x assms(2,3)])
  with add_sym_prefix [OF x] show ?thesis by blast
qed

lemma runs_each:
  assumes "\<And>x syms code syms'. f x syms = (code, syms') \<Longrightarrow> prefix syms' (symbol_table q) \<Longrightarrow>
    prefix syms syms' \<and> runs q ctx code (ok x)"
  shows "emit_each f xs syms = (code, syms') \<Longrightarrow> prefix syms' (symbol_table q) \<Longrightarrow>
    prefix syms syms' \<and> runs q ctx code (list_all ok xs)"
proof (induction xs arbitrary: syms code)
  case (Cons x xs)
  then obtain c s1 r where x: "f x syms = (c, s1)" "emit_each f xs s1 = (r, syms')" "code = c @ r"
    by (auto simp: Let_def split: prod.splits)
  note rest = Cons.IH [OF x(2) Cons.prems(2)]
  then have "prefix s1 (symbol_table q)" using Cons.prems(2) prefix_order.order_trans by blast
  from assms [OF x(1) this] rest x(3) show ?case
    by (auto intro: runs_append prefix_order.order_trans)
qed (simp add: runs_Nil)

text \<open>What the compiled policy requires of a call.\<close>

definition compiled_allows :: "policy \<Rightarrow> syscall_context \<Rightarrow> bool" where
  "compiled_allows p ctx \<longleftrightarrow> unat (pol_tier p) \<le> sc_current_tier ctx \<and> check_limits p ctx = None \<and>
     list_all (\<lambda>h. seen ctx (compiled_reason h)) (pol_loops p) \<and>
     (next_opcode ctx = Op_Halt \<longrightarrow> check_final p ctx = None)"

lemma compile_runs:
  assumes "symbols_fit (compile_to_bytecode p)"
  shows "\<exists>code. bytecode (compile_to_bytecode p) = code @ [AxRet] \<and>
    runs (compile_to_bytecode p) ctx code (compiled_allows p ctx)"
proof -
  let ?q = "compile_to_bytecode p" and ?halt = "next_opcode ctx = Op_Halt"
  obtain loops s1 guards s2 segs s3 evs s4 als s5 where
    e: "emit_each emit_loop (pol_loops p) [] = (loops, s1)"
      "emit_each emit_match_guard (match_guards p) s1 = (guards, s2)"
      "emit_each emit_segment (segment_requirements p) s2 = (segs, s3)"
      "emit_each (emit_reason AxRequireAxionEvent) (axion_event_requirements p) s3 = (evs, s4)"
      "emit_each (emit_reason AxRequireAlignment) (alignment_requirements p) s4 = (als, s5)"
    by (metis prod.exhaust)
  let ?limits = "emit_limit AxLimitInstructions (max_instructions p) @ emit_limit AxLimitStack (max_stack p) @
     emit_limit AxLimitRecursion (max_recursion p) @ emit_limit AxLimitReflections (max_reflections p) @
     emit_limit AxLimitMetaWrites (max_meta_writes p)"
  have q: "symbol_table ?q = s5" "bytecode ?q = (AxCheckTier # emit_u32 (pol_tier p)) @ ?limits @ loops @ guards @
      segs @ evs @ als @ [AxRet]"
    by (simp_all add: compile_to_bytecode_def Let_def e)
  have p5: "prefix s5 (symbol_table ?q)" by (simp add: q)
  have als: "prefix s4 s5 \<and> runs ?q ctx als (list_all (\<lambda>r. ?halt \<longrightarrow> alignment_event_satisfied ctx r) (alignment_requirements p))"
    by (rule runs_each [OF _ e(5) p5]) (rule runs_reason, assumption+, rule assms, simp)
  have p4: "prefix s4 (symbol_table ?q)" using als by (simp add: q)
  have evs: "prefix s3 s4 \<and> runs ?q ctx evs (list_all (\<lambda>r. ?halt \<longrightarrow> axion_event_satisfied ctx r) (axion_event_requirements p))"
    by (rule runs_each [OF _ e(4) p4]) (rule runs_reason, assumption+, rule assms, simp)
  have p3: "prefix s3 (symbol_table ?q)" using evs p4 prefix_order.order_trans by blast
  have segs: "prefix s2 s3 \<and> runs ?q ctx segs (list_all (\<lambda>r. ?halt \<longrightarrow> segment_event_satisfied ctx r) (segment_requirements p))"
    by (rule runs_each [OF _ e(3) p3]) (rule runs_segment, assumption+, rule assms)
  have p2: "prefix s2 (symbol_table ?q)" using segs p3 prefix_order.order_trans by blast
  have guards: "prefix s1 s2 \<and> runs ?q ctx guards (list_all (\<lambda>g. ?halt \<longrightarrow> match_guard_satisfied ctx g) (match_guards p))"
    by (rule runs_each [OF _ e(2) p2]) (rule runs_match_guard, assumption+, rule assms)
  have p1: "prefix s1 (symbol_table ?q)" using guards p2 prefix_order.order_trans by blast
  have loops: "prefix [] s1 \<and> runs ?q ctx loops (list_all (\<lambda>h. seen ctx (compiled_reason h)) (pol_loops p))"
    by (rule runs_each [OF _ e(1) p1]) (rule runs_loop, assumption+, rule assms)
  have tier: "runs ?q ctx (AxCheckTier # emit_u32 (pol_tier p)) (unat (pol_tier p) \<le> sc_current_tier ctx)"
    by (rule runs_op) (simp add: exec_op_def Let_def not_less)
  have limits: "runs ?q ctx ?limits (\<not> exceeds (sc_instruction_count ctx) (max_instructions p) \<and>
     \<not> exceeds (stack_usage ctx) (max_stack p) \<and> \<not> exceeds (recursion_depth ctx) (max_recursion p) \<and>
     \<not> exceeds (sc_reflection_count ctx) (max_reflections p) \<and> \<not> exceeds (sc_meta_write_count ctx) (max_meta_writes p))"
    by (intro runs_append; rule runs_limit) (simp_all add: exec_op_def Let_def)
  note all = runs_append [OF tier runs_append [OF limits runs_append [OF conjunct2 [OF loops] runs_append [OF conjunct2 [OF guards]
    runs_append [OF conjunct2 [OF segs] runs_append [OF conjunct2 [OF evs] conjunct2 [OF als]]]]]]]
  have halt: "list_all (\<lambda>x. ?halt \<longrightarrow> P x) xs \<longleftrightarrow> (?halt \<longrightarrow> list_all P xs)" for P and xs :: "'z list"
    by (cases ?halt) (simp_all add: list.pred_True)
  have allows: "compiled_allows p ctx \<longleftrightarrow> unat (pol_tier p) \<le> sc_current_tier ctx \<and>
     (\<not> exceeds (sc_instruction_count ctx) (max_instructions p) \<and>
     \<not> exceeds (stack_usage ctx) (max_stack p) \<and> \<not> exceeds (recursion_depth ctx) (max_recursion p) \<and>
     \<not> exceeds (sc_reflection_count ctx) (max_reflections p) \<and> \<not> exceeds (sc_meta_write_count ctx) (max_meta_writes p)) \<and>
     list_all (\<lambda>h. seen ctx (compiled_reason h)) (pol_loops p) \<and>
     list_all (\<lambda>g. ?halt \<longrightarrow> match_guard_satisfied ctx g) (match_guards p) \<and>
     list_all (\<lambda>r. ?halt \<longrightarrow> segment_event_satisfied ctx r) (segment_requirements p) \<and>
     list_all (\<lambda>r. ?halt \<longrightarrow> axion_event_satisfied ctx r) (axion_event_requirements p) \<and>
     list_all (\<lambda>r. ?halt \<longrightarrow> alignment_event_satisfied ctx r) (alignment_requirements p)"
    by (simp add: compiled_allows_def check_limits_None check_final_None halt imp_conjR conj_ac)
  let ?code = "(AxCheckTier # emit_u32 (pol_tier p)) @ ?limits @ loops @ guards @ segs @ evs @ als"
  from allows all have "runs ?q ctx ?code (compiled_allows p ctx)" by (simp only:)
  moreover have "bytecode ?q = ?code @ [AxRet]" by (simp only: q(2) append.assoc)
  ultimately show ?thesis by blast
qed

text \<open>The bytecode denies a call exactly when the requirements are not met, and is never read past
  its end.\<close>

lemma execute_compiled:
  assumes "symbols_fit (compile_to_bytecode p)"
  shows "\<exists>v. execute_bytecode (Some (compile_to_bytecode p)) ctx = Some v \<and> (vkind v = Deny \<longleftrightarrow> \<not> compiled_allows p ctx)"
proof -
  obtain code where code: "bytecode (compile_to_bytecode p) = code @ [AxRet]"
    "runs (compile_to_bytecode p) ctx code (compiled_allows p ctx)"
    using compile_runs [OF assms] by blast
  have "exec_loop (compile_to_bytecode p) ctx [AxRet] = Some (allow ''Axion bytecode executed successfully'')"
    by (simp add: exec_op_def Let_def)
  with code show ?thesis
    by (cases "compiled_allows p ctx") (auto simp: execute_bytecode_def runs_def)
qed

end
