(* ===== verification/T81_Serialize.thy ===== *)
theory T81_Serialize
  imports T81_Compile
begin

text \<open>
  The binary form of an Axion policy (\<open>Policy::serialize\<close> and \<open>Policy::deserialize\<close> in
  \<open>kernel/axion/policy_serialization.cpp\<close>), and what of a policy survives a round trip.
\<close>

section \<open>Writing\<close>

text \<open>The values of \<open>PolicyTag\<close>.\<close>

abbreviation (input) TagHeader :: u8 where "TagHeader \<equiv> 0x01"
abbreviation (input) TagTier :: u8 where "TagTier \<equiv> 0x02"
abbreviation (input) TagMaxStack :: u8 where "TagMaxStack \<equiv> 0x03"
abbreviation (input) TagMaxInstructions :: u8 where "TagMaxInstructions \<equiv> 0x04"
abbreviation (input) TagMaxRecursion :: u8 where "TagMaxRecursion \<equiv> 0x05"
abbreviation (input) TagLoopHint :: u8 where "TagLoopHint \<equiv> 0x06"
abbreviation (input) TagMatchGuard :: u8 where "TagMatchGuard \<equiv> 0x07"
abbreviation (input) TagSegmentEvent :: u8 where "TagSegmentEvent \<equiv> 0x08"
abbreviation (input) TagAxionEvent :: u8 where "TagAxionEvent \<equiv> 0x09"
abbreviation (input) TagAlignment :: u8 where "TagAlignment \<equiv> 0x0A"
abbreviation (input) TagMaxReflections :: u8 where "TagMaxReflections \<equiv> 0x0B"
abbreviation (input) TagMaxMetaWrites :: u8 where "TagMaxMetaWrites \<equiv> 0x0C"
abbreviation (input) TagAllowedTensorHashes :: u8 where "TagAllowedTensorHashes \<equiv> 0x0D"
abbreviation (input) TagBytecodeHeader :: u8 where "TagBytecodeHeader \<equiv> 0x10"
abbreviation (input) TagEnd :: u8 where "TagEnd \<equiv> 0xFF"

text \<open>\<open>write_u32\<close> and \<open>write_u64\<close> write the bytes that \<open>emit_u32\<close> and \<open>emit_u64\<close> emit.\<close>

definition write_string :: "string \<Rightarrow> u8 list" where
  "write_string s = emit_u32 (word_of_nat (length s)) @ map (\<lambda>c. word_of_nat (of_char c)) s"

definition flag_byte :: "bool \<Rightarrow> u8" where
  "flag_byte b = (if b then 1 else 0)"

definition write_limit :: "u8 \<Rightarrow> i64 option \<Rightarrow> u8 list" where
  "write_limit tag limit = (case limit of None \<Rightarrow> [] | Some v \<Rightarrow> tag # emit_u64 v)"

definition write_loop :: "loop_hint \<Rightarrow> u8 list" where
  "write_loop h = TagLoopHint # emit_u32 (loop_id h) @ write_string (loop_file h) @ emit_u32 (loop_line h) @
     emit_u32 (loop_column h) @ [flag_byte (loop_annotated h)] @ emit_u32 (loop_depth h) @
     [flag_byte (bound_infinite h)] @
     emit_u64 (if bound_infinite h then 0 else case bound_value h of None \<Rightarrow> 0 | Some b \<Rightarrow> b)"

definition write_match_guard :: "match_guard_req \<Rightarrow> u8 list" where
  "write_match_guard g = TagMatchGuard # write_string (mg_enum_name g) @ write_string (mg_variant_name g) @
     (case mg_payload g of None \<Rightarrow> [0] | Some x \<Rightarrow> 1 # write_string x) @ write_string (mg_result g)"

definition write_segment :: "segment_event_req \<Rightarrow> u8 list" where
  "write_segment r = TagSegmentEvent # write_string (sr_segment r) @ write_string (sr_action r) @
     (case sr_addr r of None \<Rightarrow> [0] | Some a \<Rightarrow> 1 # emit_u64 a)"

definition write_hashes :: "string list \<Rightarrow> u8 list" where
  "write_hashes hs = (if hs = [] then []
     else TagAllowedTensorHashes # emit_u32 (word_of_nat (length hs)) @ concat (map write_string hs))"

definition write_bytecode :: "policy \<Rightarrow> u8 list" where
  "write_bytecode p = (if bytecode p = [] then []
     else TagBytecodeHeader # emit_u32 (word_of_nat (length (symbol_table p))) @
       concat (map write_string (symbol_table p)) @ emit_u32 (word_of_nat (length (bytecode p))) @ bytecode p)"

definition write_fields :: "policy \<Rightarrow> u8 list" where
  "write_fields p = (TagHeader # emit_u32 1) @ (TagTier # emit_u32 (pol_tier p)) @
     write_limit TagMaxStack (max_stack p) @ write_limit TagMaxInstructions (max_instructions p) @
     write_limit TagMaxRecursion (max_recursion p) @ write_limit TagMaxReflections (max_reflections p) @
     write_limit TagMaxMetaWrites (max_meta_writes p) @ write_hashes (allowed_tensor_hashes p) @
     concat (map write_loop (pol_loops p)) @ concat (map write_match_guard (match_guards p)) @
     concat (map write_segment (segment_requirements p)) @
     concat (map (\<lambda>r. TagAxionEvent # write_string r) (axion_event_requirements p)) @
     concat (map (\<lambda>r. TagAlignment # write_string r) (alignment_requirements p)) @ write_bytecode p"

definition serialize :: "policy \<Rightarrow> u8 list" where
  "serialize p = write_fields p @ [TagEnd]"

section \<open>Reading\<close>

text \<open>
  The input is the list of the bytes left.  At its end \<open>get\<close> returns \<open>EOF\<close>, which the readers cast
  to the byte \<open>0xFF\<close>; a short \<open>read\<close> fills the rest of the target with zeros and leaves nothing.
\<close>

definition get_byte :: "u8 list \<Rightarrow> u8 \<times> u8 list" where
  "get_byte is = (case is of [] \<Rightarrow> (0xFF, []) | b # bs \<Rightarrow> (b, bs))"

fun get_le :: "nat \<Rightarrow> nat \<Rightarrow> 'a :: len word \<Rightarrow> u8 list \<Rightarrow> 'a word \<times> u8 list" where
  "get_le i 0 v is = (v, is)"
| "get_le i (Suc n) v is =
     (let (b, is) = get_byte is in get_le (Suc i) n (v OR push_bit (i * 8) (ucast b)) is)"

definition get_u32 :: "u8 list \<Rightarrow> u32 \<times> u8 list" where "get_u32 = get_le 0 4 0"
definition get_u64 :: "u8 list \<Rightarrow> u64 \<times> u8 list" where "get_u64 = get_le 0 8 0"

text \<open>\<open>is.read\<close> into a buffer: what the input is too short for keeps its old content.\<close>

definition get_into :: "u8 list \<Rightarrow> u8 list \<Rightarrow> u8 list \<times> u8 list" where
  "get_into buf is = (take (length buf) is @ drop (length is) buf, drop (length buf) is)"

definition get_string :: "u8 list \<Rightarrow> string \<times> u8 list" where
  "get_string is =
     (let (len, is) = get_u32 is; (s, is) = get_into (replicate (unat len) 0) is
      in (map (\<lambda>b. char_of (unat b)) s, is))"

fun get_strings :: "nat \<Rightarrow> u8 list \<Rightarrow> string list \<times> u8 list" where
  "get_strings 0 is = ([], is)"
| "get_strings (Suc n) is =
     (let (s, is) = get_string is; (ss, is) = get_strings n is in (s # ss, is))"

definition resize_zero :: "nat \<Rightarrow> u8 list \<Rightarrow> u8 list" where
  "resize_zero n buf = take n buf @ replicate (n - length buf) 0"

text \<open>The cases of the \<open>switch\<close> of \<open>deserialize\<close>.\<close>

definition read_loop :: "u8 list \<Rightarrow> loop_hint \<times> u8 list" where
  "read_loop is =
     (let (lid, is) = get_u32 is; (file, is) = get_string is; (line, is) = get_u32 is; (col, is) = get_u32 is;
          (annotated, is) = get_byte is; (depth, is) = get_u32 is; (infinite, is) = get_byte is; (val, is) = get_u64 is
      in (\<lparr>loop_id = lid, loop_file = file, loop_line = line, loop_column = col, loop_annotated = (annotated \<noteq> 0),
           loop_depth = depth, bound_infinite = (infinite \<noteq> 0),
           bound_value = (if infinite \<noteq> 0 then None else Some val)\<rparr>, is))"

definition read_match_guard :: "u8 list \<Rightarrow> match_guard_req \<times> u8 list" where
  "read_match_guard is =
     (let (en, is) = get_string is; (vn, is) = get_string is; (has, is) = get_byte is;
          (pl, is) = (if has \<noteq> 0 then let (x, is) = get_string is in (Some x, is) else (None, is));
          (res, is) = get_string is
      in (\<lparr>mg_enum_name = en, mg_variant_name = vn, mg_payload = pl, mg_result = res\<rparr>, is))"

definition read_segment :: "u8 list \<Rightarrow> segment_event_req \<times> u8 list" where
  "read_segment is =
     (let (seg, is) = get_string is; (act, is) = get_string is; (has, is) = get_byte is;
          (addr, is) = (if has \<noteq> 0 then let (x, is) = get_u64 is in (Some x, is) else (None, is))
      in (\<lparr>sr_segment = seg, sr_action = act, sr_addr = addr\<rparr>, is))"

definition read_entry :: "u8 \<Rightarrow> policy \<Rightarrow> u8 list \<Rightarrow> (policy \<times> u8 list) option" where
  "read_entry tag p is =
     (if tag = TagHeader then let (_, is) = get_u32 is in Some (p, is)
      else if tag = TagTier then let (v, is) = get_u32 is in Some (p\<lparr>pol_tier := v\<rparr>, is)
      else if tag = TagMaxStack then let (v, is) = get_u64 is in Some (p\<lparr>max_stack := Some v\<rparr>, is)
      else if tag = TagMaxInstructions then let (v, is) = get_u64 is in Some (p\<lparr>max_instructions := Some v\<rparr>, is)
      else if tag = TagMaxRecursion then let (v, is) = get_u64 is in Some (p\<lparr>max_recursion := Some v\<rparr>, is)
      else if tag = TagMaxReflections then let (v, is) = get_u64 is in Some (p\<lparr>max_reflections := Some v\<rparr>, is)
      else if tag = TagMaxMetaWrites then let (v, is) = get_u64 is in Some (p\<lparr>max_meta_writes := Some v\<rparr>, is)
      else if tag = TagAllowedTensorHashes then
        let (n, is) = get_u32 is; (hs, is) = get_strings (unat n) is
        in Some (p\<lparr>allowed_tensor_hashes := allowed_tensor_hashes p @ hs\<rparr>, is)
      else if tag = TagLoopHint then
        let (h, is) = read_loop is in Some (p\<lparr>pol_loops := pol_loops p @ [h]\<rparr>, is)
      else if tag = TagMatchGuard then
        let (g, is) = read_match_guard is in Some (p\<lparr>match_guards := match_guards p @ [g]\<rparr>, is)
      else if tag = TagSegmentEvent then
        let (r, is) = read_segment is in Some (p\<lparr>segment_requirements := segment_requirements p @ [r]\<rparr>, is)
      else if tag = TagAxionEvent then
        let (r, is) = get_string is
        in Some (p\<lparr>axion_event_requirements := axion_event_requirements p @ [r]\<rparr>, is)
      else if tag = TagAlignment then
        let (r, is) = get_string is in Some (p\<lparr>alignment_requirements := alignment_requirements p @ [r]\<rparr>, is)
      else if tag = TagBytecodeHeader then
        let (n, is) = get_u32 is; (syms, is) = get_strings (unat n) is; (size, is) = get_u32 is;
            (code, is) = get_into (resize_zero (unat size) (bytecode p)) is
        in Some (p\<lparr>symbol_table := syms, bytecode := code\<rparr>, is)
      else None)"

text \<open>Every reader leaves at most what it got.\<close>

named_theorems leaves

lemma get_byte_leaves [leaves]: "get_byte is = (b, is') \<Longrightarrow> length is' \<le> length is"
  by (auto simp: get_byte_def split: list.splits)

lemma get_le_leaves [leaves]: "get_le i n v is = (w, is') \<Longrightarrow> length is' \<le> length is"
proof (induction i n v "is" arbitrary: w is' rule: get_le.induct)
  case (2 i n v "is")
  obtain b bs where b: "get_byte is = (b, bs)" by fastforce
  with 2 have "length is' \<le> length bs" by simp
  with get_byte_leaves [OF b] show ?case by simp
qed simp

lemma get_word_leaves [leaves]:
  "get_u32 is = (v, is') \<Longrightarrow> length is' \<le> length is" "get_u64 is = (w, is') \<Longrightarrow> length is' \<le> length is"
  by (simp_all add: get_u32_def get_u64_def get_le_leaves)

lemma get_into_leaves [leaves]: "get_into buf is = (s, is') \<Longrightarrow> length is' \<le> length is"
  by (auto simp: get_into_def)

lemma get_string_leaves [leaves]: "get_string is = (s, is') \<Longrightarrow> length is' \<le> length is"
  by (auto simp: get_string_def Let_def split: prod.splits dest!: leaves)

lemma get_strings_leaves [leaves]: "get_strings n is = (ss, is') \<Longrightarrow> length is' \<le> length is"
  by (induction n arbitrary: "is" ss is') (fastforce simp: Let_def split: prod.splits dest: get_string_leaves)+

lemma read_loop_leaves [leaves]: "read_loop is = (h, is') \<Longrightarrow> length is' \<le> length is"
  by (auto simp: read_loop_def Let_def split: prod.splits dest!: leaves)

lemma read_match_guard_leaves [leaves]: "read_match_guard is = (g, is') \<Longrightarrow> length is' \<le> length is"
  by (auto simp: read_match_guard_def Let_def split: prod.splits if_splits dest!: leaves)

lemma read_segment_leaves [leaves]: "read_segment is = (r, is') \<Longrightarrow> length is' \<le> length is"
  by (auto simp: read_segment_def Let_def split: prod.splits if_splits dest!: leaves)

lemma read_entry_leaves: "read_entry tag p is = Some (q, is') \<Longrightarrow> length is' \<le> length is"
  unfolding read_entry_def Let_def
  by (simp only: split: if_split_asm) (auto split: prod.splits dest!: leaves)

function read_policy :: "policy \<Rightarrow> u8 list \<Rightarrow> string + policy" where
  "read_policy p [] = Inr p"
| "read_policy p (tag # is) =
     (if tag = TagEnd then Inr p
      else case read_entry tag p is of
             None \<Rightarrow> Inl ''Unknown policy tag''
           | Some (q, is') \<Rightarrow> read_policy q is')"
  by pat_completeness auto
termination
  by (relation "measure (\<lambda>(_, is). length is)") (auto dest: read_entry_leaves)

definition deserialize :: "u8 list \<Rightarrow> string + policy" where
  "deserialize = read_policy default_policy"

section \<open>The round trip\<close>

text \<open>What fits the 32-bit sizes of the format.\<close>

abbreviation fits32 :: "'a list \<Rightarrow> bool" where "fits32 xs \<equiv> length xs < 2 ^ 32"

lemma get_le_eq: "read_le i n v bs = Some (w, rest) \<Longrightarrow> get_le i n v bs = (w, rest)"
  by (induction i n v bs rule: read_le.induct) (auto simp: get_byte_def)

lemma get_emit [simp]:
  "get_u32 (emit_u32 w @ bs) = (w, bs)" "get_u64 (emit_u64 v @ bs) = (v, bs)"
  using read_emit(1) [of w bs] read_emit(2) [of v bs]
  unfolding read_u32_def read_u64_def get_u32_def get_u64_def by (blast intro: get_le_eq)+

lemma get_byte_Cons [simp]: "get_byte (b # bs) = (b, bs)"
  by (simp add: get_byte_def)

lemma get_into_append [simp]: "length buf = length s \<Longrightarrow> get_into buf (s @ bs) = (s, bs)"
  by (simp add: get_into_def)

lemma get_string_write [simp]: "fits32 s \<Longrightarrow> get_string (write_string s @ bs) = (s, bs)"
  by (simp add: get_string_def write_string_def unat_of_nat comp_def map_idI)

lemma get_strings_write [simp]:
  "list_all fits32 ss \<Longrightarrow> get_strings (length ss) (concat (map write_string ss) @ bs) = (ss, bs)"
  by (induction ss) auto


lemma flag_byte_simps [simp]: "flag_byte b \<noteq> 0 \<longleftrightarrow> b"
  by (simp add: flag_byte_def)

text \<open>What the format keeps of a loop hint and of a policy.\<close>

definition stored_hint :: "loop_hint \<Rightarrow> loop_hint" where
  "stored_hint h = h\<lparr>bound_value :=
     (if bound_infinite h then None else Some (case bound_value h of None \<Rightarrow> 0 | Some b \<Rightarrow> b))\<rparr>"

definition stored :: "policy \<Rightarrow> policy" where
  "stored p = p\<lparr>max_tensors := None, max_tensor_elements := None, max_symbolic_nodes := None,
     max_symbolic_graphs := None, max_infinite_forms := None, pol_loops := map stored_hint (pol_loops p),
     symbol_table := (if bytecode p = [] then [] else symbol_table p)\<rparr>"

definition match_guard_fits :: "match_guard_req \<Rightarrow> bool" where
  "match_guard_fits g \<longleftrightarrow> fits32 (mg_enum_name g) \<and> fits32 (mg_variant_name g) \<and> fits32 (mg_result g) \<and>
     (case mg_payload g of None \<Rightarrow> True | Some x \<Rightarrow> fits32 x)"

definition segment_fits :: "segment_event_req \<Rightarrow> bool" where
  "segment_fits r \<longleftrightarrow> fits32 (sr_segment r) \<and> fits32 (sr_action r)"

definition policy_fits :: "policy \<Rightarrow> bool" where
  "policy_fits p \<longleftrightarrow> fits32 (allowed_tensor_hashes p) \<and> list_all fits32 (allowed_tensor_hashes p) \<and>
     list_all (\<lambda>h. fits32 (loop_file h)) (pol_loops p) \<and> list_all match_guard_fits (match_guards p) \<and>
     list_all segment_fits (segment_requirements p) \<and> list_all fits32 (axion_event_requirements p) \<and>
     list_all fits32 (alignment_requirements p) \<and>
     fits32 (symbol_table p) \<and> list_all fits32 (symbol_table p) \<and> fits32 (bytecode p)"

lemma read_loop_write:
  "fits32 (loop_file h) \<Longrightarrow> read_loop (tl (write_loop h) @ bs) = (stored_hint h, bs)"
  by (cases h) (auto simp: read_loop_def write_loop_def stored_hint_def Let_def)

lemma read_match_guard_write:
  "match_guard_fits g \<Longrightarrow> read_match_guard (tl (write_match_guard g) @ bs) = (g, bs)"
  by (cases g) (auto simp: read_match_guard_def write_match_guard_def match_guard_fits_def Let_def split: option.splits)

lemma read_segment_write:
  "segment_fits r \<Longrightarrow> read_segment (tl (write_segment r) @ bs) = (r, bs)"
  by (cases r) (auto simp: read_segment_def write_segment_def segment_fits_def Let_def split: option.splits)

text \<open>A piece of the output that turns the policy read so far from \<open>p\<close> into \<open>q\<close>.\<close>

definition turns :: "policy \<Rightarrow> u8 list \<Rightarrow> policy \<Rightarrow> bool" where
  "turns p code q \<longleftrightarrow> (\<forall>rest. read_policy p (code @ rest) = read_policy q rest)"

lemma turns_Nil: "turns p [] p"
  by (simp add: turns_def)

lemma turns_append: "turns p a q \<Longrightarrow> turns q b r \<Longrightarrow> turns p (a @ b) r"
  by (simp add: turns_def)

lemma turns_entry:
  assumes "tag \<noteq> TagEnd" "\<And>rest. read_entry tag p (args @ rest) = Some (q, rest)"
  shows "turns p (tag # args) q"
  using assms by (simp add: turns_def)

text \<open>The entries of a list field are appended one by one.\<close>

lemma turns_each:
  assumes "\<And>p x. ok x \<Longrightarrow> turns p (w x) (upd (\<lambda>ys. ys @ [f x]) p)"
    "\<And>p g h. upd g (upd h p) = upd (\<lambda>ys. g (h ys)) p" "\<And>p. upd (\<lambda>ys. ys) p = p"
  shows "list_all ok xs \<Longrightarrow> turns p (concat (map w xs)) (upd (\<lambda>ys. ys @ map f xs) p)"
proof (induction xs arbitrary: p)
  case Nil
  then show ?case by (simp add: assms(3) turns_Nil)
next
  case (Cons x xs)
  from turns_append [OF assms(1) Cons.IH, of x p] Cons.prems show ?case by (simp add: assms(2))
qed

lemma turns_limit:
  assumes "tag \<noteq> TagEnd" "limit = None \<Longrightarrow> p = q"
    "\<And>v is. limit = Some v \<Longrightarrow> read_entry tag p (emit_u64 v @ is) = Some (q, is)"
  shows "turns p (write_limit tag limit) q"
proof (cases limit)
  case (Some v)
  have "turns p (tag # emit_u64 v) q"
    by (rule turns_entry [OF assms(1)]) (rule assms(3) [OF Some])
  then show ?thesis by (simp add: Some write_limit_def)
qed (simp add: write_limit_def turns_Nil assms(2))

lemma turns_limits:
  "max_stack p = None \<Longrightarrow> turns p (write_limit TagMaxStack v) (p\<lparr>max_stack := v\<rparr>)"
  "max_instructions p = None \<Longrightarrow> turns p (write_limit TagMaxInstructions v) (p\<lparr>max_instructions := v\<rparr>)"
  "max_recursion p = None \<Longrightarrow> turns p (write_limit TagMaxRecursion v) (p\<lparr>max_recursion := v\<rparr>)"
  "max_reflections p = None \<Longrightarrow> turns p (write_limit TagMaxReflections v) (p\<lparr>max_reflections := v\<rparr>)"
  "max_meta_writes p = None \<Longrightarrow> turns p (write_limit TagMaxMetaWrites v) (p\<lparr>max_meta_writes := v\<rparr>)"
  by (rule turns_limit; cases p; simp add: read_entry_def)+

lemma write_loop_Cons: "write_loop h = TagLoopHint # tl (write_loop h)"
  by (simp add: write_loop_def)

lemma write_match_guard_Cons: "write_match_guard g = TagMatchGuard # tl (write_match_guard g)"
  by (simp add: write_match_guard_def)

lemma write_segment_Cons: "write_segment r = TagSegmentEvent # tl (write_segment r)"
  by (simp add: write_segment_def)

lemma turns_loops:
  "list_all (\<lambda>h. fits32 (loop_file h)) hs \<Longrightarrow>
     turns p (concat (map write_loop hs)) (pol_loops_update (\<lambda>ys. ys @ map stored_hint hs) p)"
proof (rule turns_each [where ok = "\<lambda>h. fits32 (loop_file h)"])
  fix p :: policy and h :: loop_hint assume "fits32 (loop_file h)"
  then show "turns p (write_loop h) (pol_loops_update (\<lambda>ys. ys @ [stored_hint h]) p)"
    by (subst write_loop_Cons, intro turns_entry) (simp_all add: read_entry_def read_loop_write)
qed simp_all

lemma turns_match_guards:
  "list_all match_guard_fits gs \<Longrightarrow>
     turns p (concat (map write_match_guard gs)) (match_guards_update (\<lambda>ys. ys @ gs) p)"
proof (rule turns_each [where ok = match_guard_fits and f = id, simplified])
  fix p :: policy and g :: match_guard_req assume "match_guard_fits g"
  then show "turns p (write_match_guard g) (match_guards_update (\<lambda>ys. ys @ [g]) p)"
    by (subst write_match_guard_Cons, intro turns_entry) (simp_all add: read_entry_def read_match_guard_write)
qed simp_all

lemma turns_segments:
  "list_all segment_fits rs \<Longrightarrow>
     turns p (concat (map write_segment rs)) (segment_requirements_update (\<lambda>ys. ys @ rs) p)"
proof (rule turns_each [where ok = segment_fits and f = id, simplified])
  fix p :: policy and r :: segment_event_req assume "segment_fits r"
  then show "turns p (write_segment r) (segment_requirements_update (\<lambda>ys. ys @ [r]) p)"
    by (subst write_segment_Cons, intro turns_entry) (simp_all add: read_entry_def read_segment_write)
qed simp_all

lemma turns_reasons:
  assumes "list_all fits32 rs"
  shows "turns p (concat (map (\<lambda>r. TagAxionEvent # write_string r) rs)) (axion_event_requirements_update (\<lambda>ys. ys @ rs) p)"
    "turns p (concat (map (\<lambda>r. TagAlignment # write_string r) rs)) (alignment_requirements_update (\<lambda>ys. ys @ rs) p)"
  using assms
  by (intro turns_each [where ok = fits32 and f = id, simplified] turns_entry; simp add: read_entry_def)+

lemma turns_hashes:
  assumes "fits32 hs" "list_all fits32 hs"
  shows "turns p (write_hashes hs) (allowed_tensor_hashes_update (\<lambda>ys. ys @ hs) p)"
proof (cases "hs = []")
  case True
  then show ?thesis by (cases p) (simp add: write_hashes_def turns_Nil)
next
  case False
  with assms show ?thesis
    by (auto simp: write_hashes_def unat_of_nat read_entry_def intro!: turns_entry)
qed

lemma turns_bytecode:
  assumes "bytecode p = []" "symbol_table p = []"
    "fits32 (symbol_table q)" "list_all fits32 (symbol_table q)" "fits32 (bytecode q)"
  shows "turns p (write_bytecode q) (p\<lparr>symbol_table := if bytecode q = [] then [] else symbol_table q,
     bytecode := bytecode q\<rparr>)"
proof (cases "bytecode q = []")
  case False
  with assms show ?thesis
    by (auto intro!: turns_entry simp: write_bytecode_def read_entry_def unat_of_nat resize_zero_def)
qed (use assms in \<open>cases p; simp add: write_bytecode_def turns_Nil\<close>)

text \<open>The same steps on fields that are still empty.\<close>

lemma turns_header: "turns p (TagHeader # emit_u32 v) p" "turns p (TagTier # emit_u32 t) (p\<lparr>pol_tier := t\<rparr>)"
  by (rule turns_entry; simp add: read_entry_def)+

lemma turns_fields:
  "allowed_tensor_hashes p = [] \<Longrightarrow> fits32 hs \<Longrightarrow> list_all fits32 hs \<Longrightarrow>
     turns p (write_hashes hs) (p\<lparr>allowed_tensor_hashes := hs\<rparr>)"
  "pol_loops p = [] \<Longrightarrow> list_all (\<lambda>h. fits32 (loop_file h)) ls \<Longrightarrow>
     turns p (concat (map write_loop ls)) (p\<lparr>pol_loops := map stored_hint ls\<rparr>)"
  "match_guards p = [] \<Longrightarrow> list_all match_guard_fits gs \<Longrightarrow>
     turns p (concat (map write_match_guard gs)) (p\<lparr>match_guards := gs\<rparr>)"
  "segment_requirements p = [] \<Longrightarrow> list_all segment_fits ss \<Longrightarrow>
     turns p (concat (map write_segment ss)) (p\<lparr>segment_requirements := ss\<rparr>)"
  "axion_event_requirements p = [] \<Longrightarrow> list_all fits32 rs \<Longrightarrow>
     turns p (concat (map (\<lambda>r. TagAxionEvent # write_string r) rs)) (p\<lparr>axion_event_requirements := rs\<rparr>)"
  "alignment_requirements p = [] \<Longrightarrow> list_all fits32 rs \<Longrightarrow>
     turns p (concat (map (\<lambda>r. TagAlignment # write_string r) rs)) (p\<lparr>alignment_requirements := rs\<rparr>)"
  using turns_hashes [of hs p] turns_loops [of ls p] turns_match_guards [of gs p] turns_segments [of ss p]
    turns_reasons [of rs p]
  by (simp_all cong: policy.fold_congs)

lemma deserialize_serialize:
  assumes "policy_fits p"
  shows "deserialize (serialize p) = Inr (stored p)"
proof -
  note fits = assms [unfolded policy_fits_def]
  let ?q = "default_policy\<lparr>pol_tier := pol_tier p, max_stack := max_stack p, max_instructions := max_instructions p,
    max_recursion := max_recursion p, max_reflections := max_reflections p, max_meta_writes := max_meta_writes p,
    allowed_tensor_hashes := allowed_tensor_hashes p, pol_loops := map stored_hint (pol_loops p),
    match_guards := match_guards p, segment_requirements := segment_requirements p,
    axion_event_requirements := axion_event_requirements p, alignment_requirements := alignment_requirements p,
    symbol_table := if bytecode p = [] then [] else symbol_table p, bytecode := bytecode p\<rparr>"
  have "turns default_policy (write_fields p) ?q"
    unfolding write_fields_def
    by (rule turns_append turns_header turns_limits turns_fields turns_bytecode |
        (simp only: fits; fail) | (simp add: default_policy_def; fail))+
  moreover have "?q = stored p" by (cases p) (simp add: stored_def default_policy_def)
  ultimately have "turns default_policy (write_fields p) (stored p)" by (simp only:)
  then show ?thesis by (simp add: turns_def deserialize_def serialize_def)
qed

end
