(* ===== verification/Properties_Compile.thy ===== *)
theory Properties_Compile
  imports T81_Serialize T81_Tiers
begin

text \<open>
  Properties of compiled and of stored policies: what the engine decides on the bytecode of a policy
  and on a policy read back from its binary form.
\<close>

section \<open>Compiled policies\<close>

text \<open>A loop hint whose bound is given, and whose numbers print alike signed and unsigned.\<close>

definition hint_plain :: "loop_hint \<Rightarrow> bool" where
  "hint_plain h \<longleftrightarrow> 0 \<le> sint (loop_line h) \<and> 0 \<le> sint (loop_column h) \<and>
     (bound_infinite h \<or> (case bound_value h of None \<Rightarrow> False | Some b \<Rightarrow> 0 \<le> sint b))"

lemma show_sint_nonneg:
  fixes w :: "'a :: len word"
  assumes "0 \<le> sint w"
  shows "show_sint w = show_uint w"
proof -
  have "sint w < 2 ^ LENGTH('a)"
    using sint_lt [of w] by (rule less_le_trans) (simp add: power_increasing)
  with assms have "uint w = sint w" by (simp add: uint_sint take_bit_int_eq_self)
  with assms show ?thesis by (simp add: show_int_def unat_eq_nat_uint)
qed

lemma compiled_reason_plain: "hint_plain h \<Longrightarrow> compiled_reason h = expected_reason h"
  by (cases "bound_value h") (auto simp: hint_plain_def compiled_reason_def expected_reason_def show_sint_nonneg)

lemma evaluate_policy_deny:
  assumes "next_opcode ctx \<noteq> Op_TLoadHash" "recursion_depth ctx < 729"
    "evaluate_internal pol reqs ctx = Some (w, reqs')"
  shows "\<exists>v e. evaluate (PolicyEngine pol reqs) ctx = Some (v, e) \<and> (vkind v = Deny \<longleftrightarrow> vkind w = Deny)"
proof -
  obtain u where u: "ethics_loop all_principles ctx (allow []) = Inr u" "vkind u \<noteq> Deny"
    using assms(2) ethics_loop_warning [of ctx]
    by (cases "ethics_loop all_principles ctx (allow [])")
      (auto simp: ethics_loop_result T81_HARD_RECURSION_CEILING_def split: if_splits)
  then show ?thesis
    by (auto simp: evaluate_def policy_evaluate_def assms(3))
qed


definition demo_policy :: policy where
  "demo_policy = default_policy\<lparr>pol_tier := 2, max_stack := Some 81, axion_event_requirements := [''halt''],
     pol_loops := [default_loop_hint\<lparr>loop_file := ''m.t81'', loop_line := 4, bound_value := Some 9\<rparr>]\<rparr>"

lemma demo_policy_compiles: "symbol_table (compile_to_bytecode demo_policy) = [''m.t81'', ''halt'']"
  by code_simp


section \<open>Stored policies\<close>

lemma exec_op_cong:
  assumes "symbol_table p = symbol_table q"
  shows "exec_op p = exec_op q"
proof -
  have "get_sym p = get_sym q" using assms by (intro ext) (simp add: get_sym_def)
  then show ?thesis by (intro ext) (simp only: exec_op_def)
qed

lemma exec_loop_cong:
  assumes "symbol_table p = symbol_table q"
  shows "exec_loop p ctx bs = exec_loop q ctx bs"
proof (induction "length bs" arbitrary: bs rule: less_induct)
  case less
  show ?case
  proof (cases bs)
    case (Cons b rest)
    have "exec_loop p ctx r = exec_loop q ctx r" if "exec_op q ctx b rest = Some (None, r)" for r
      using less [of r] exec_op_shorter [OF that] Cons by simp
    then show ?thesis
      by (simp add: Cons exec_op_cong [OF assms] split: option.splits)
  qed simp
qed

lemma stored_fields [simp]:
  "bytecode (stored p) = bytecode p" "bytecode p \<noteq> [] \<Longrightarrow> symbol_table (stored p) = symbol_table p"
  "allowed_tensor_hashes (stored p) = allowed_tensor_hashes p" "pol_loops (stored p) = map stored_hint (pol_loops p)"
  "max_stack (stored p) = max_stack p"
  "max_instructions (stored p) = max_instructions p"
  "max_recursion (stored p) = max_recursion p"
  "max_reflections (stored p) = max_reflections p"
  "max_meta_writes (stored p) = max_meta_writes p"
  "match_guards (stored p) = match_guards p"
  "segment_requirements (stored p) = segment_requirements p"
  "axion_event_requirements (stored p) = axion_event_requirements p"
  "alignment_requirements (stored p) = alignment_requirements p"
  by (simp_all add: stored_def)

lemma check_stored: "check_limits (stored p) = check_limits p" "check_final (stored p) = check_final p"
  by (intro ext; simp only: check_limits_def check_final_def stored_fields)+

lemma evaluate_direct_stored: "evaluate_direct (stored p) = evaluate_direct p"
  by (intro ext) (simp only: evaluate_direct_def check_stored)

lemma stored_reason:
  "bound_infinite h \<or> bound_value h \<noteq> None \<Longrightarrow> expected_reason (stored_hint h) = expected_reason h"
  by (auto simp: expected_reason_def stored_hint_def)

lemma evaluate_internal_stored: "evaluate_internal (Some (stored p)) = evaluate_internal (Some p)"
proof (intro ext)
  fix reqs ctx
  have "check_tensor_hash (stored p) ctx = check_tensor_hash p ctx"
    "bytecode p \<noteq> [] \<Longrightarrow> execute_bytecode (Some (stored p)) ctx = execute_bytecode (Some p) ctx"
    by (simp_all add: check_tensor_hash_def execute_bytecode_def exec_loop_cong [of "stored p" p])
  then show "evaluate_internal (Some (stored p)) reqs ctx = evaluate_internal (Some p) reqs ctx"
    by (cases "bytecode p = []") (simp_all add: evaluate_internal_def evaluate_direct_stored split: option.splits)
qed

lemma evaluate_stored:
  "map_option fst (evaluate (PolicyEngine (Some (stored p)) reqs) ctx) =
   map_option fst (evaluate (PolicyEngine (Some p) reqs) ctx)"
proof -
  have "policy_evaluate (Some (stored p)) reqs ctx = policy_evaluate (Some p) reqs ctx"
    by (simp only: policy_evaluate_def evaluate_internal_stored)
  then show ?thesis
    by (cases "policy_evaluate (Some p) reqs ctx") (auto simp: evaluate_def)
qed



end
