(* ===== verification/T81_Codec.thy ===== *)
theory T81_Codec
  imports T81_Tables
begin

text \<open>
  The positional codecs of \<open>src/codec\<close>: byte strings, read as big-endian numbers in base 256, as digit
  strings in base 81 (\<open>base81.cpp\<close>, with its UTF-8 alphabet) and in base 243 (\<open>base243.cpp\<close>).  The
  16-bit intermediate values of the loops stay below \<open>255 * 243 + 243\<close>, so they are natural numbers here.
\<close>

section \<open>Numbers in two bases\<close>

text \<open>The body of the loop of both encoders: long division of the digits by the base.  \<open>next\<close> drops its
  leading zeros.\<close>

fun div_loop :: "nat \<Rightarrow> u8 list \<Rightarrow> nat \<Rightarrow> u8 list \<Rightarrow> u8 list \<times> nat" where
  "div_loop base nxt carry [] = (nxt, carry)"
| "div_loop base nxt carry (b # bs) =
     (let cur = carry * 256 + unat b; q = word_of_nat (cur div base)
      in div_loop base (if nxt \<noteq> [] \<or> q \<noteq> 0 then nxt @ [q] else nxt) (cur mod base) bs)"

text \<open>The inner loop of both decoders, from the last byte to the first: multiply by the base and add.\<close>

fun mul_add :: "nat \<Rightarrow> nat \<Rightarrow> u8 list \<Rightarrow> u8 list \<times> nat" where
  "mul_add base carry [] = ([], carry)"
| "mul_add base carry (b # bs) =
     (let (bs', c) = mul_add base carry bs; cur = unat b * base + c
      in (word_of_nat (cur mod 256) # bs', cur div 256))"

fun push_carry :: "nat \<Rightarrow> u8 list \<Rightarrow> u8 list" where
  "push_carry c buf = (if c = 0 then buf else push_carry (c div 256) (word_of_nat (c mod 256) # buf))"

declare push_carry.simps [simp del]

definition add_digit :: "nat \<Rightarrow> u8 list \<Rightarrow> nat \<Rightarrow> u8 list" where
  "add_digit base buf d = (let (bs, c) = mul_add base d buf in push_carry c bs)"

subsection \<open>What the loops compute\<close>

definition be_val :: "u8 list \<Rightarrow> nat" where
  "be_val bs = foldl (\<lambda>v b. v * 256 + unat b) 0 bs"

lemma unat_byte [simp]: "unat (b :: u8) < 256"
  using unsigned_less [of b] by simp

lemma foldl_base: "foldl (\<lambda>v b. v * 256 + unat b) v bs = v * 256 ^ length bs + be_val bs"
proof (induction bs rule: rev_induct)
  case (snoc b bs)
  then show ?case by (simp add: be_val_def algebra_simps)
qed (simp add: be_val_def)

lemma be_val_simps [simp]:
  "be_val [] = 0" "be_val (b # bs) = unat b * 256 ^ length bs + be_val bs" "be_val (bs @ [b]) = be_val bs * 256 + unat b"
  using foldl_base [of "unat b" bs] by (simp_all add: be_val_def)

lemma be_val_less: "be_val bs < 256 ^ length bs"
proof (induction bs)
  case (Cons b bs)
  have "unat b * 256 ^ length bs + be_val bs < (unat b + 1) * 256 ^ length bs" using Cons by simp
  also have "\<dots> \<le> 256 * 256 ^ length bs" by (intro mult_right_mono) (use unat_byte [of b] in linarith)+
  finally show ?case by simp
qed simp

lemma div_loop_val:
  assumes "carry < base" "base < 256" "div_loop base nxt carry bs = (q, r)"
  shows "be_val nxt * base * 256 ^ length bs + carry * 256 ^ length bs + be_val bs = be_val q * base + r \<and> r < base"
  using assms
proof (induction bs arbitrary: nxt carry)
  case (Cons b bs)
  define cur where "cur = carry * 256 + unat b"
  have "cur div base < 256"
    using Cons.prems(1) unat_byte [of b] unfolding cur_def by (intro less_mult_imp_div_less) linarith
  then have q: "unat (word_of_nat (cur div base) :: u8) = cur div base" by (simp add: unat_of_nat)
  define nxt' where "nxt' = (if nxt \<noteq> [] \<or> word_of_nat (cur div base) \<noteq> (0 :: u8) then nxt @ [word_of_nat (cur div base)] else nxt)"
  have v: "be_val nxt' = be_val nxt * 256 + cur div base" using q by (auto simp: nxt'_def)
  have "div_loop base nxt' (cur mod base) bs = (q, r)"
    using Cons.prems(3) by (simp only: div_loop.simps Let_def cur_def nxt'_def)
  with Cons.prems have "be_val nxt' * base * 256 ^ length bs + cur mod base * 256 ^ length bs + be_val bs = be_val q * base + r \<and> r < base"
    by (intro Cons.IH) simp_all
  moreover have "be_val nxt' * base + cur mod base = be_val nxt * base * 256 + cur"
    by (simp add: v algebra_simps)
  then have "be_val nxt' * base * 256 ^ length bs + cur mod base * 256 ^ length bs =
      be_val nxt * base * 256 ^ Suc (length bs) + carry * 256 ^ Suc (length bs) + unat b * 256 ^ length bs"
    by (metis (no_types) add_mult_distrib cur_def mult.assoc power_Suc add.assoc)
  ultimately show ?case by simp
qed simp

lemma div_loop_divmod:
  assumes "0 < base" "base < 256" "div_loop base [] 0 bs = (q, r)"
  shows "be_val q = be_val bs div base" "r = be_val bs mod base"
  using div_loop_val [OF _ assms(2,3)] assms(1) by (auto simp: div_mult_self3 dest: sym)

text \<open>A canonical byte string has no leading zero.\<close>

definition no_lead :: "u8 list \<Rightarrow> bool" where
  "no_lead bs \<longleftrightarrow> bs = [] \<or> hd bs \<noteq> 0"

lemma div_loop_no_lead: "no_lead nxt \<Longrightarrow> div_loop base nxt carry bs = (q, r) \<Longrightarrow> no_lead q"
proof (induction base nxt carry bs rule: div_loop.induct)
  case (2 base nxt carry b bs)
  let ?q = "word_of_nat ((carry * 256 + unat b) div base) :: u8"
  have "no_lead (if nxt \<noteq> [] \<or> ?q \<noteq> 0 then nxt @ [?q] else nxt)"
    using 2(2) by (auto simp: no_lead_def hd_append)
  with 2(1) [OF refl refl] 2(3) show ?case by (simp add: Let_def)
qed simp

lemma no_lead_val: "no_lead bs \<Longrightarrow> bs \<noteq> [] \<Longrightarrow> 0 < be_val bs"
  by (cases bs) (auto simp: no_lead_def unat_gt_0)

definition size_of_bytes :: "u8 list \<Rightarrow> nat" where
  "size_of_bytes bs = be_val bs + (if bs = [] then 0 else 1)"

lemma div_loop_decreases:
  assumes "2 \<le> base" "base < 256" "bs \<noteq> []" "div_loop base [] 0 bs = (q, r)"
  shows "size_of_bytes q < size_of_bytes bs"
proof -
  have q: "be_val q = be_val bs div base" using div_loop_divmod [OF _ assms(2,4)] assms(1) by simp
  have "no_lead q" by (rule div_loop_no_lead [OF _ assms(4)]) (simp add: no_lead_def)
  then show ?thesis
    using q assms(1,3) no_lead_val [of q] div_less_dividend [of base "be_val bs"]
    by (cases "be_val bs = 0") (auto simp: size_of_bytes_def)
qed

lemma mul_add_val:
  "mul_add base carry bs = (bs', c) \<Longrightarrow> be_val bs * base + carry = c * 256 ^ length bs + be_val bs' \<and> length bs' = length bs"
proof (induction bs arbitrary: bs' c)
  case (Cons b bs)
  obtain t d where t: "mul_add base carry bs = (t, d)" by fastforce
  note IH = Cons.IH [OF t]
  have bs': "bs' = word_of_nat ((unat b * base + d) mod 256) # t" "c = (unat b * base + d) div 256"
    using Cons.prems by (simp_all add: t Let_def)
  let ?cur = "unat b * base + d"
  have "be_val (b # bs) * base + carry = ?cur * 256 ^ length bs + be_val t"
    using IH by (simp add: algebra_simps)
  also have "?cur * 256 ^ length bs = ?cur div 256 * (256 * 256 ^ length bs) + ?cur mod 256 * 256 ^ length bs"
    by (simp only: mult.assoc [symmetric] add_mult_distrib [symmetric] div_mult_mod_eq)
  finally have "be_val (b # bs) * base + carry =
      ?cur div 256 * (256 * 256 ^ length bs) + ?cur mod 256 * 256 ^ length bs + be_val t" .
  moreover have "unat (word_of_nat (?cur mod 256) :: u8) = ?cur mod 256" by (simp add: unat_of_nat)
  ultimately show ?case using IH by (simp only: bs' be_val_simps list.size power_Suc) simp
qed simp

lemma push_carry_val: "be_val (push_carry c bs) = c * 256 ^ length bs + be_val bs"
proof (induction c bs rule: push_carry.induct)
  case (1 c buf)
  show ?case
  proof (cases "c = 0")
    case False
    have "c * 256 ^ length buf = c div 256 * (256 * 256 ^ length buf) + c mod 256 * 256 ^ length buf"
      by (simp only: mult.assoc [symmetric] add_mult_distrib [symmetric] div_mult_mod_eq)
    with 1 False show ?thesis
      by (subst push_carry.simps) (simp add: unat_of_nat)
  qed (simp add: push_carry.simps)
qed

lemma add_digit_val: "be_val (add_digit base buf d) = be_val buf * base + d"
  by (auto simp: add_digit_def push_carry_val mul_add_val split: prod.splits)

subsection \<open>Canonical digit strings\<close>

text \<open>The value of digits, least significant first, and what makes them the only ones of their value.\<close>

fun le_val :: "nat \<Rightarrow> nat list \<Rightarrow> nat" where
  "le_val base [] = 0"
| "le_val base (d # ds) = d + base * le_val base ds"

lemma le_val_snoc [simp]: "le_val base (ds @ [d]) = le_val base ds + base ^ length ds * d"
  by (induction ds) (simp_all add: algebra_simps)

lemma le_val_pos: "ds \<noteq> [] \<Longrightarrow> last ds \<noteq> 0 \<Longrightarrow> 0 < base \<Longrightarrow> 0 < le_val base ds"
  by (induction ds) (auto split: if_splits)

lemma le_val_unique:
  assumes "list_all (\<lambda>d. d < base) ds" "list_all (\<lambda>d. d < base) es" "le_val base ds = le_val base es"
    "ds = [] \<or> last ds \<noteq> 0" "es = [] \<or> last es \<noteq> 0" "0 < base"
  shows "ds = es"
  using assms
proof (induction ds arbitrary: es)
  case Nil
  then show ?case using le_val_pos [of es base] by force
next
  case (Cons d ds)
  show ?case
  proof (cases es)
    case Nil
    with Cons.prems le_val_pos [of "d # ds" base] show ?thesis by fastforce
  next
    case (Cons e es')
    have "d mod base = (d + base * le_val base ds) mod base" "e mod base = (e + base * le_val base es') mod base"
      by simp_all
    moreover have "(d + base * le_val base ds) mod base = (e + base * le_val base es') mod base"
      using Cons.prems(3) \<open>es = e # es'\<close> by simp
    ultimately have "d = e" using Cons.prems(1,2) \<open>es = e # es'\<close> by simp
    moreover have "ds = es'"
    proof (rule Cons.IH)
      show "le_val base ds = le_val base es'" using Cons.prems(3,6) \<open>es = e # es'\<close> \<open>d = e\<close> by simp
      show "list_all (\<lambda>d. d < base) ds" "list_all (\<lambda>d. d < base) es'" "0 < base"
        using Cons.prems(1,2,6) \<open>es = e # es'\<close> by simp_all
      show "ds = [] \<or> last ds \<noteq> 0" "es' = [] \<or> last es' \<noteq> 0"
        using Cons.prems(4,5) \<open>es = e # es'\<close> by (simp_all split: if_splits)
    qed
    ultimately show ?thesis using \<open>es = e # es'\<close> by simp
  qed
qed

lemma be_val_le_val: "be_val bs = le_val 256 (rev (map unat bs))"
  by (induction bs) simp_all

lemma be_val_unique: "be_val bs = be_val cs \<Longrightarrow> no_lead bs \<Longrightarrow> no_lead cs \<Longrightarrow> bs = cs"
proof -
  assume eq: "be_val bs = be_val cs" and no: "no_lead bs" "no_lead cs"
  have "rev (map unat bs) = rev (map unat cs)"
    by (rule le_val_unique [of 256])
      (use eq no in \<open>cases bs; cases cs; auto simp: be_val_le_val list_all_iff no_lead_def unat_eq_0\<close>)+
  then have "map unat bs = map unat cs" by simp
  moreover have "inj (unat :: u8 \<Rightarrow> nat)" by (rule injI) (simp add: word_unat_eq_iff)
  ultimately show "bs = cs" by (rule map_injective)
qed

text \<open>The canonical form of a byte string: no leading zero, but the number zero is one zero byte.\<close>

definition canon :: "u8 list \<Rightarrow> u8 list" where
  "canon bs = (if dropWhile (\<lambda>b. b = 0) bs = [] then [0] else dropWhile (\<lambda>b. b = 0) bs)"

definition canonical :: "u8 list \<Rightarrow> bool" where
  "canonical bs \<longleftrightarrow> bs = [0] \<or> bs \<noteq> [] \<and> no_lead bs"

lemma be_val_dropWhile [simp]: "be_val (dropWhile (\<lambda>b. b = 0) bs) = be_val bs"
  by (induction bs) simp_all

lemma be_val_zero: "be_val [0] = 0"
  by simp

lemma canonical_canon [simp]: "canonical (canon bs)" "be_val (canon bs) = be_val bs"
proof -
  show "canonical (canon bs)"
    using hd_dropWhile [of "\<lambda>b. b = 0" bs] by (auto simp: canon_def canonical_def no_lead_def)
  show "be_val (canon bs) = be_val bs"
    unfolding canon_def using be_val_dropWhile [of bs] by (simp only: split: if_split) (metis be_val_simps(1) be_val_zero)
qed

lemma canonical_unique: "be_val bs = be_val cs \<Longrightarrow> canonical bs \<Longrightarrow> canonical cs \<Longrightarrow> bs = cs"
  using be_val_unique [of bs cs] no_lead_val [of bs] no_lead_val [of cs] by (auto simp: canonical_def)

lemma canon_eq: "canonical bs \<Longrightarrow> canon bs = bs"
  by (rule canonical_unique) simp_all

lemma no_lead_iff:
  assumes "bs \<noteq> []"
  shows "no_lead bs \<longleftrightarrow> 256 ^ (length bs - 1) \<le> be_val bs"
proof (cases bs)
  case (Cons b rest)
  show ?thesis
  proof (cases "b = 0")
    case False
    then have "1 * 256 ^ length rest \<le> unat b * 256 ^ length rest"
      by (intro mult_right_mono) (simp_all add: Suc_le_eq unat_gt_0)
    with False show ?thesis by (simp add: Cons no_lead_def trans_le_add1)
  qed (use be_val_less [of rest] in \<open>simp add: Cons no_lead_def not_le\<close>)
qed (use assms in simp)

lemma push_carry_no_lead: "c \<noteq> 0 \<or> no_lead bs \<Longrightarrow> no_lead (push_carry c bs)"
proof (induction c bs rule: push_carry.induct)
  case (1 c buf)
  have "c div 256 \<noteq> 0 \<or> no_lead (word_of_nat (c mod 256) # buf)" if "c \<noteq> 0"
    using that by (auto simp: no_lead_def word_of_nat_eq_0_iff dest!: dvd_imp_le) presburger?
  with 1 show ?case by (subst push_carry.simps) auto
qed

lemma push_carry_Nil [simp]: "push_carry c bs = [] \<longleftrightarrow> c = 0 \<and> bs = []"
proof (induction c bs rule: push_carry.induct)
  case (1 c buf)
  then show ?case by (subst push_carry.simps) auto
qed

lemma add_digit_canonical:
  assumes "1 \<le> base" "d < 256" "canonical buf"
  shows "canonical (add_digit base buf d)"
proof (cases "buf = [0]")
  case True
  with assms(2) show ?thesis
    by (auto simp: add_digit_def canonical_def push_carry.simps no_lead_def word_of_nat_eq_0_iff dest: dvd_imp_le)
next
  case False
  with assms(3) have buf: "buf \<noteq> []" "no_lead buf" by (auto simp: canonical_def)
  obtain bs c where m: "mul_add base d buf = (bs, c)" by fastforce
  note v = mul_add_val [OF m]
  then have ne: "bs \<noteq> []" using buf by auto
  have "c \<noteq> 0 \<or> no_lead bs"
  proof (cases "c = 0")
    case True
    have "256 ^ (length buf - 1) \<le> be_val buf" using buf no_lead_iff by blast
    also have "be_val buf \<le> be_val buf * base" using assms(1) by simp
    finally show ?thesis using v True ne no_lead_iff [OF ne] by simp
  qed simp
  with ne show ?thesis by (simp add: add_digit_def m canonical_def push_carry_no_lead)
qed

section \<open>The two codecs\<close>

text \<open>
  What both codecs rest on: a function that divides by the base until no byte is left, and a decoder
  that adds the digits to the number zero.
\<close>

locale radix =
  fixes base :: nat and digits :: "u8 list \<Rightarrow> nat list"
  assumes base: "2 \<le> base" "base < 256"
    and digits_unfold: "digits buf =
      (if buf = [] then [] else let (nxt, carry) = div_loop base [] 0 buf in carry # digits nxt)"
begin

lemma digits_Nil: "digits [] = []"
  by (subst digits_unfold) simp

lemma digits_facts:
  "le_val base (digits buf) = be_val buf \<and> list_all (\<lambda>d. d < base) (digits buf) \<and>
   (digits buf = [] \<longleftrightarrow> buf = []) \<and> (no_lead buf \<longrightarrow> buf = [] \<or> last (digits buf) \<noteq> 0) \<and>
   (buf \<noteq> [] \<longrightarrow> digits buf = [0] \<or> last (digits buf) \<noteq> 0)"
proof (induction "size_of_bytes buf" arbitrary: buf rule: less_induct)
  case less
  show ?case
  proof (cases "buf = []")
    case True
    then show ?thesis by (simp add: digits_Nil no_lead_def)
  next
    case False
    obtain q r where d: "div_loop base [] 0 buf = (q, r)" by fastforce
    have r: "be_val buf = be_val q * base + r" "r < base"
      using div_loop_divmod [OF _ base(2) d] base(1) by simp_all
    have q: "no_lead q" by (rule div_loop_no_lead [OF _ d]) (simp add: no_lead_def)
    have IH: "le_val base (digits q) = be_val q \<and> list_all (\<lambda>d. d < base) (digits q) \<and>
      (digits q = [] \<longleftrightarrow> q = []) \<and> (q = [] \<or> last (digits q) \<noteq> 0)"
      using less [OF div_loop_decreases [OF base False d]] q by blast
    have u: "digits buf = r # digits q" using False d by (simp add: digits_unfold [of buf])
    have "r \<noteq> 0" if "q = []" "no_lead buf" using that r no_lead_val [of buf] False by simp
    with u IH r False show ?thesis by (auto simp: algebra_simps)
  qed
qed

abbreviation from_digits :: "nat list \<Rightarrow> u8 list" where
  "from_digits ds \<equiv> foldl (add_digit base) [0] ds"

lemma from_digits_facts:
  "list_all (\<lambda>d. d < base) ds \<Longrightarrow> canonical (from_digits ds) \<and> be_val (from_digits ds) = le_val base (rev ds)"
proof (induction ds rule: rev_induct)
  case (snoc d ds)
  then show ?case using base by (simp add: add_digit_val add_digit_canonical)
qed (simp add: canonical_def)

lemma decode_of_encode: "from_digits (rev (digits buf)) = canon buf"
  using digits_facts [of buf] from_digits_facts [of "rev (digits buf)"]
  by (intro canonical_unique) simp_all

lemma encode_decode:
  assumes "list_all (\<lambda>d. d < base) ds" "ds = [0] \<or> ds \<noteq> [] \<and> hd ds \<noteq> 0"
  shows "rev (digits (from_digits ds)) = ds"
proof (cases "ds = [0]")
  case True
  have "from_digits [0] = [0]" using from_digits_facts [of "[0]"] base
    by (intro canonical_unique) (simp_all add: canonical_def)
  moreover have "digits [0] = [0]"
    using base by (simp add: digits_unfold [of "[0]"] digits_Nil)
  ultimately show ?thesis using True by simp
next
  case False
  with assms(2) have ds: "ds \<noteq> []" "hd ds \<noteq> 0" by blast+
  let ?b = "from_digits ds"
  note b = from_digits_facts [OF assms(1)]
  have "0 < le_val base (rev ds)" using ds base by (intro le_val_pos) (simp_all add: last_rev)
  with b have "?b \<noteq> [0]" "?b \<noteq> []" by auto
  with b have "no_lead ?b" by (simp add: canonical_def)
  have "digits ?b = rev ds"
    by (rule le_val_unique [of base])
      (use digits_facts [of ?b] \<open>no_lead ?b\<close> \<open>?b \<noteq> []\<close> b ds base assms(1) in \<open>simp_all add: last_rev\<close>)
  then show ?thesis by simp
qed

end

subsection \<open>Base 81\<close>

text \<open>The loop of \<open>encode_bytes\<close>; the digits come out least significant first.\<close>

function digits81 :: "u8 list \<Rightarrow> nat list" where
  "digits81 buf =
     (if buf = [] then [] else let (nxt, carry) = div_loop 81 [] 0 buf in carry # digits81 nxt)"
  by auto
termination
proof (relation "measure size_of_bytes")
  fix buf x nxt carry assume "buf \<noteq> []" "x = div_loop 81 [] 0 buf" "(nxt, carry) = x"
  then show "(nxt, buf) \<in> measure size_of_bytes"
    using div_loop_decreases [of 81 buf nxt carry] by simp
qed simp

declare digits81.simps [simp del]

interpretation radix81: radix 81 digits81
  by unfold_locales (simp, simp, rule digits81.simps)

text \<open>The UTF-8 alphabet, one byte string for each digit.\<close>

definition alphabet81 :: "string list" where
  "alphabet81 = [
    ''0'', ''1'', ''2'', ''3'', ''4'', ''5'', ''6'', ''7'', ''8'', ''9'', ''A'', ''B'', ''C'', ''D'',
    ''E'', ''F'', ''G'', ''H'', ''I'', ''J'', ''K'', ''L'', ''M'', ''N'', ''O'', ''P'', ''Q'', ''R'',
    ''S'', ''T'', ''U'', ''V'', ''W'', ''X'', ''Y'', ''Z'', ''a'', ''b'', ''c'', ''d'', ''e'', ''f'',
    ''g'', ''h'', ''i'', ''j'', ''k'', ''l'', ''m'', ''n'', ''o'', ''p'', ''q'', ''r'', ''s'', ''t'',
    ''u'', ''v'', ''w'', ''x'', ''y'', ''z'', ''-'', [CHR 0xE2, CHR 0x88, CHR 0x92], [CHR 0xC3, CHR 0x97],
    [CHR 0xC3, CHR 0xB7], ''='', ''<'', ''>'', [CHR 0xE2, CHR 0x89, CHR 0xA4],
    [CHR 0xE2, CHR 0x89, CHR 0xA5], [CHR 0xE2, CHR 0x89, CHR 0xA0], [CHR 0xE2, CHR 0x89, CHR 0x88],
    [CHR 0xE2, CHR 0x88, CHR 0x9E], [CHR 0xCE, CHR 0xBB], [CHR 0xCE, CHR 0xBC], [CHR 0xCF, CHR 0x80],
    [CHR 0xCF, CHR 0x83], [CHR 0xCF, CHR 0x84], [CHR 0xCF, CHR 0x89], [CHR 0xCE, CHR 0x93]]"

text \<open>\<open>next_codepoint\<close>: the next code point and the text after it; only its first byte is checked.\<close>

definition codepoint_length :: "nat \<Rightarrow> nat option" where
  "codepoint_length c = (if c < 0x80 then Some 1 else if and c 0xE0 = 0xC0 then Some 2
     else if and c 0xF0 = 0xE0 then Some 3 else if and c 0xF8 = 0xF0 then Some 4 else None)"

definition next_codepoint :: "string \<Rightarrow> (string \<times> string) option" where
  "next_codepoint s =
     (case s of [] \<Rightarrow> None
      | c # _ \<Rightarrow> (case codepoint_length (of_char c) of None \<Rightarrow> None
          | Some n \<Rightarrow> if length s < n then None else Some (take n s, drop n s)))"

lemma codepoint_length_pos: "codepoint_length c = Some n \<Longrightarrow> 0 < n"
  by (auto simp: codepoint_length_def split: if_splits)

lemma next_codepoint_split:
  "next_codepoint s = Some (cp, rest) \<Longrightarrow> s = cp @ rest \<and> length rest < length s"
  using codepoint_length_pos
  by (fastforce simp: next_codepoint_def split: list.splits option.splits if_splits)

function parse_digits :: "string \<Rightarrow> nat list option" where
  "parse_digits s =
     (if s = [] then Some []
      else case next_codepoint s of None \<Rightarrow> None
        | Some (cp, rest) \<Rightarrow>
            (case find_index (\<lambda>x. x = cp) alphabet81 of None \<Rightarrow> None
             | Some i \<Rightarrow> map_option ((#) i) (parse_digits rest)))"
  by auto
termination
  by (relation "measure length") (auto dest: next_codepoint_split)

declare parse_digits.simps [simp del]

definition digits_text :: "nat list \<Rightarrow> string" where
  "digits_text ds = concat (map (\<lambda>d. alphabet81 ! d) ds)"

definition encode_bytes81 :: "u8 list \<Rightarrow> string" where
  "encode_bytes81 data = (if data = [] then [] else digits_text (rev (digits81 data)))"

definition decode_bytes81 :: "string \<Rightarrow> u8 list option" where
  "decode_bytes81 s =
     (if s = [] then Some []
      else case parse_digits s of None \<Rightarrow> None
        | Some ds \<Rightarrow> if 1 < length ds \<and> hd ds = 0 then None else Some (foldl (add_digit 81) [0] ds))"

definition is_base81 :: "string \<Rightarrow> bool" where
  "is_base81 s = (decode_bytes81 s \<noteq> None)"

text \<open>No symbol is the beginning of another: the first byte of a symbol tells its length.\<close>

lemma alphabet81_length: "length alphabet81 = 81"
  by (simp add: alphabet81_def)

lemma alphabet81_distinct: "distinct alphabet81"
  by code_simp

lemma alphabet81_lengths:
  "list_all (\<lambda>s. s \<noteq> [] \<and> codepoint_length (of_char (hd s)) = Some (length s)) alphabet81"
  by code_simp

definition alphabet_ok :: "string list \<Rightarrow> bool" where
  "alphabet_ok al \<longleftrightarrow> distinct al \<and> list_all (\<lambda>s. s \<noteq> [] \<and> codepoint_length (of_char (hd s)) = Some (length s)) al"

lemma alphabet_symbol:
  assumes "alphabet_ok al" "d < length al"
  shows "al ! d \<noteq> []" "next_codepoint (al ! d @ rest) = Some (al ! d, rest)"
    "find_index (\<lambda>x. x = al ! d) al = Some d"
proof -
  have a: "al ! d \<noteq> [] \<and> codepoint_length (of_char (hd (al ! d))) = Some (length (al ! d))"
    using assms by (simp add: alphabet_ok_def list_all_length)
  then show "al ! d \<noteq> []" by simp
  from a show "next_codepoint (al ! d @ rest) = Some (al ! d, rest)"
    by (cases "al ! d") (auto simp: next_codepoint_def)
  have "find_index (\<lambda>x. x = al ! d) al \<noteq> None"
    using assms(2) by (auto simp: find_index_None)
  then obtain i where i: "find_index (\<lambda>x. x = al ! d) al = Some i" by blast
  then have "i = d"
    using find_index_Some [OF i] assms nth_eq_iff_index_eq [of al i d]
    by (simp add: alphabet_ok_def)
  with i show "find_index (\<lambda>x. x = al ! d) al = Some d" by simp
qed

lemma alphabet81_ok: "alphabet_ok alphabet81"
  by (simp add: alphabet_ok_def alphabet81_distinct alphabet81_lengths)

lemmas next_codepoint_symbol = alphabet_symbol(2,3) [OF alphabet81_ok, unfolded alphabet81_length]

lemma parse_digits_text: "list_all (\<lambda>d. d < 81) ds \<Longrightarrow> parse_digits (digits_text ds) = Some ds"
proof (induction ds)
  case (Cons d ds)
  then have "alphabet81 ! d \<noteq> []"
    using alphabet81_lengths nth_mem [of d alphabet81] by (simp add: list_all_iff alphabet81_length)
  with Cons show ?case
    by (subst parse_digits.simps) (simp add: digits_text_def next_codepoint_symbol)
qed (simp add: digits_text_def parse_digits.simps)

lemma digits_text_parse:
  "parse_digits s = Some ds \<Longrightarrow> digits_text ds = s \<and> list_all (\<lambda>d. d < 81) ds"
proof (induction s arbitrary: ds rule: parse_digits.induct)
  case (1 s)
  show ?case
  proof (cases "s = []")
    case False
    with "1.prems" obtain cp rest i es where *: "next_codepoint s = Some (cp, rest)"
      "find_index (\<lambda>x. x = cp) alphabet81 = Some i" "parse_digits rest = Some es" "ds = i # es"
      by (subst (asm) parse_digits.simps) (auto split: option.splits)
    from "1.IH" [OF False *(1) refl *(2,3)] find_index_Some [OF *(2)] next_codepoint_split [OF *(1)] *(4)
    show ?thesis by (simp add: digits_text_def alphabet81_length)
  qed (use "1.prems" in \<open>simp add: parse_digits.simps digits_text_def\<close>)
qed

lemma digits_text_Nil: "list_all (\<lambda>d. d < 81) ds \<Longrightarrow> digits_text ds = [] \<longleftrightarrow> ds = []"
  using parse_digits_text [of ds] by (auto simp: parse_digits.simps digits_text_def)

lemma decode_encode81:
  "decode_bytes81 (encode_bytes81 data) = Some (if data = [] then [] else canon data)"
proof (cases "data = []")
  case False
  let ?ds = "rev (digits81 data)"
  have ds: "list_all (\<lambda>d. d < 81) ?ds" "?ds \<noteq> []" "hd ?ds \<noteq> 0 \<or> ?ds = [0]"
    using radix81.digits_facts [of data] False by (auto simp: hd_rev)
  then have "\<not> (1 < length ?ds \<and> hd ?ds = 0)" by (cases "?ds = [0]") auto
  then show ?thesis
    using False ds digits_text_Nil [OF ds(1)]
    by (simp add: encode_bytes81_def decode_bytes81_def parse_digits_text radix81.decode_of_encode)
qed (simp add: encode_bytes81_def decode_bytes81_def)

lemma encode_decode81:
  assumes "decode_bytes81 s = Some data"
  shows "encode_bytes81 data = s \<and> (data = [] \<or> canonical data)"
proof (cases "s = []")
  case False
  then obtain ds where ds: "parse_digits s = Some ds" "\<not> (1 < length ds \<and> hd ds = 0)"
    "data = foldl (add_digit 81) [0] ds"
    using assms by (auto simp: decode_bytes81_def split: option.splits if_splits)
  have t: "digits_text ds = s" "list_all (\<lambda>d. d < 81) ds" using digits_text_parse [OF ds(1)] by auto
  with False have "ds \<noteq> []" by (auto simp: digits_text_def)
  then have "ds = [0] \<or> ds \<noteq> [] \<and> hd ds \<noteq> 0" using ds(2) by (cases ds) auto
  with t radix81.encode_decode [of ds] radix81.from_digits_facts [of ds] ds(3) show ?thesis
    by (auto simp: encode_bytes81_def canonical_def)
qed (use assms in \<open>simp add: decode_bytes81_def encode_bytes81_def\<close>)

subsection \<open>Base 243\<close>

function digits243 :: "u8 list \<Rightarrow> nat list" where
  "digits243 buf =
     (if buf = [] then [] else let (nxt, carry) = div_loop 243 [] 0 buf in carry # digits243 nxt)"
  by auto
termination
proof (relation "measure size_of_bytes")
  fix buf x nxt carry assume "buf \<noteq> []" "x = div_loop 243 [] 0 buf" "(nxt, carry) = x"
  then show "(nxt, buf) \<in> measure size_of_bytes"
    using div_loop_decreases [of 243 buf nxt carry] by simp
qed simp

declare digits243.simps [simp del]

interpretation radix243: radix 243 digits243
  by unfold_locales (simp, simp, rule digits243.simps)

definition encode_bytes_be :: "u8 list \<Rightarrow> u8 list" where
  "encode_bytes_be bytes = (if bytes = [] then [] else map word_of_nat (rev (digits243 bytes)))"

text \<open>The loop of \<open>decode_bytes_be\<close>, which throws on a digit that is too large, and the one that strips
  leading zeros.\<close>

fun add_digits243 :: "u8 list \<Rightarrow> u8 list \<Rightarrow> string + u8 list" where
  "add_digits243 out [] = Inr out"
| "add_digits243 out (d # ds) =
     (if 243 \<le> unat d then Inl ''Base243::decode_bytes_be: digit out of range''
      else add_digits243 (add_digit 243 out (unat d)) ds)"

fun strip_zeros :: "u8 list \<Rightarrow> u8 list" where
  "strip_zeros (b # c # bs) = (if b = 0 then strip_zeros (c # bs) else b # c # bs)"
| "strip_zeros bs = bs"

definition decode_bytes_be :: "u8 list \<Rightarrow> string + u8 list" where
  "decode_bytes_be digits =
     (if digits = [] then Inr []
      else case add_digits243 [0] digits of Inl err \<Rightarrow> Inl err | Inr out \<Rightarrow> Inr (strip_zeros out))"

definition encode_ascii :: "string \<Rightarrow> u8 list" where
  "encode_ascii s = encode_bytes_be (map (\<lambda>c. word_of_nat (of_char c)) s)"

definition decode_ascii :: "u8 list \<Rightarrow> string + string" where
  "decode_ascii digits = map_sum id (map (\<lambda>b. char_of (unat b))) (decode_bytes_be digits)"

lemma strip_zeros_canonical: "canonical bs \<Longrightarrow> strip_zeros bs = bs"
  by (cases bs rule: strip_zeros.cases) (auto simp: canonical_def no_lead_def)

lemma add_digits243_eq:
  "add_digits243 out ds = (if list_all (\<lambda>d. unat d < 243) ds then Inr (foldl (add_digit 243) out (map unat ds))
     else Inl ''Base243::decode_bytes_be: digit out of range'')"
  by (induction ds arbitrary: out) auto

lemma decode_bytes_be_eq:
  "decode_bytes_be ds = (if ds = [] then Inr []
     else if list_all (\<lambda>d. unat d < 243) ds then Inr (foldl (add_digit 243) [0] (map unat ds))
     else Inl ''Base243::decode_bytes_be: digit out of range'')"
  using radix243.from_digits_facts [of "map unat ds"]
  by (auto simp: decode_bytes_be_def add_digits243_eq list.pred_map comp_def strip_zeros_canonical)

lemma decode_encode243: "decode_bytes_be (encode_bytes_be bytes) = Inr (if bytes = [] then [] else canon bytes)"
proof (cases "bytes = []")
  case False
  have ds: "list_all (\<lambda>d. d < 243) (digits243 bytes)" "digits243 bytes \<noteq> []"
    using radix243.digits_facts [of bytes] False by auto
  then have "map unat (encode_bytes_be bytes) = rev (digits243 bytes)"
    using False by (auto simp: encode_bytes_be_def rev_map [symmetric] comp_def unat_of_nat list_all_iff intro!: map_idI)
  moreover from this ds have "list_all (\<lambda>d. unat d < 243) (encode_bytes_be bytes)"
    by (metis (no_types, lifting) list.pred_map comp_apply list.pred_cong list_all_rev)
  ultimately show ?thesis using False ds
    by (auto simp: decode_bytes_be_eq radix243.decode_of_encode encode_bytes_be_def)
qed (simp add: encode_bytes_be_def decode_bytes_be_def)

lemma encode_decode243:
  assumes "decode_bytes_be ds = Inr bytes" "ds = [] \<or> ds = [0] \<or> hd ds \<noteq> 0"
  shows "encode_bytes_be bytes = ds"
proof (cases "ds = []")
  case False
  then have d: "list_all (\<lambda>d. d < 243) (map unat ds)" "bytes = foldl (add_digit 243) [0] (map unat ds)"
    using assms(1) by (auto simp: decode_bytes_be_eq list.pred_map comp_def split: if_splits)
  have "map unat ds = [0] \<or> map unat ds \<noteq> [] \<and> hd (map unat ds) \<noteq> 0"
    using assms(2) False by (auto simp: hd_map unat_eq_0)
  from radix243.encode_decode [OF d(1) this] radix243.from_digits_facts [OF d(1)] d(2) show ?thesis
    by (auto simp: encode_bytes_be_def canonical_def comp_def)
qed (use assms in \<open>simp add: decode_bytes_be_def encode_bytes_be_def\<close>)

end
