(* ===== verification/T81_Trits.thy ===== *)
theory T81_Trits
  imports T81_Codec
begin

text \<open>
  The trit packings of \<open>src/codec\<close>: five trits in a PT-5 byte and four in a base-81 digit
  (\<open>trit_packing.cpp\<close>), and the direct conversion between them.  A raw trit is the integer of the \<open>Trit\<close> enumeration, which a cast can leave with any 8-bit value.
\<close>

section \<open>PT-5 bytes and base-81 digits\<close>

datatype packing_error = InvalidPT5Byte | InvalidBase81Digit | InvalidTritValue | InsufficientData
  | TritCountMismatch | EncodingError

definition packing_error_text :: "packing_error \<Rightarrow> string" where
  "packing_error_text e = (case e of InvalidPT5Byte \<Rightarrow> ''InvalidPT5Byte''
     | InvalidBase81Digit \<Rightarrow> ''InvalidBase81Digit'' | InvalidTritValue \<Rightarrow> ''InvalidTritValue''
     | InsufficientData \<Rightarrow> ''InsufficientData'' | TritCountMismatch \<Rightarrow> ''TritCountMismatch''
     | EncodingError \<Rightarrow> ''EncodingError'')"

abbreviation (input) valid_trit :: "int \<Rightarrow> bool" where
  "valid_trit t \<equiv> - 1 \<le> t \<and> t \<le> 1"

text \<open>The inner loop of the packers over one block, and their outer loop: block \<open>i\<close> holds the trits from
  \<open>i * n\<close> on, filled up with zeros.\<close>

fun pack_block :: "nat \<Rightarrow> nat \<Rightarrow> int list \<Rightarrow> packing_error + nat" where
  "pack_block byte mult [] = Inr byte"
| "pack_block byte mult (t # ts) =
     (if t < - 1 \<or> 1 < t then Inl InvalidTritValue
      else pack_block (byte + nat (t + 1) * mult) (mult * 3) ts)"

definition block :: "nat \<Rightarrow> nat \<Rightarrow> 'a :: zero list \<Rightarrow> 'a list" where
  "block n i ts = take n (drop (i * n) ts @ replicate n 0)"

fun pack_blocks :: "int list list \<Rightarrow> packing_error + u8 list" where
  "pack_blocks [] = Inr []"
| "pack_blocks (b # bs) =
     (case pack_block 0 1 b of Inl e \<Rightarrow> Inl e
      | Inr byte \<Rightarrow> (case pack_blocks bs of Inl e \<Rightarrow> Inl e | Inr rest \<Rightarrow> Inr (word_of_nat byte # rest)))"

definition pack_groups :: "nat \<Rightarrow> int list \<Rightarrow> packing_error + u8 list" where
  "pack_groups n trits = pack_blocks (map (\<lambda>i. block n i trits) [0 ..< (length trits + n - 1) div n])"

definition pack_pt5 :: "int list \<Rightarrow> packing_error + u8 list" where "pack_pt5 = pack_groups 5"
definition pack_base81 :: "int list \<Rightarrow> packing_error + u8 list" where "pack_base81 = pack_groups 4"

text \<open>The loops of the unpackers: at most \<open>want\<close> trits are taken.\<close>

fun unpack_block :: "nat \<Rightarrow> nat \<Rightarrow> int list \<Rightarrow> nat \<Rightarrow> int list" where
  "unpack_block 0 want trits val = trits"
| "unpack_block (Suc j) want trits val =
     (if length trits < want then unpack_block j want (trits @ [int (val mod 3) - 1]) (val div 3)
      else unpack_block j want trits val)"

fun unpack_blocks :: "nat \<Rightarrow> nat \<Rightarrow> packing_error \<Rightarrow> nat \<Rightarrow> int list \<Rightarrow> u8 list \<Rightarrow> packing_error + int list" where
  "unpack_blocks n ceil err want trits [] = Inr trits"
| "unpack_blocks n ceil err want trits (b # bs) =
     (if ceil < unat b then Inl err else unpack_blocks n ceil err want (unpack_block n want trits (unat b)) bs)"

definition unpack_pt5 :: "u8 list \<Rightarrow> nat \<Rightarrow> packing_error + int list" where
  "unpack_pt5 bytes want =
     (if length bytes < (want + 4) div 5 then Inl InsufficientData
      else unpack_blocks 5 242 InvalidPT5Byte want [] bytes)"

definition unpack_base81 :: "u8 list \<Rightarrow> nat \<Rightarrow> packing_error + int list" where
  "unpack_base81 digits want =
     (if length digits < (want + 3) div 4 then Inl InsufficientData
      else unpack_blocks 4 80 InvalidBase81Digit want [] digits)"

subsection \<open>What a block stands for\<close>

definition block_val :: "int list \<Rightarrow> nat" where
  "block_val ts = le_val 3 (map (\<lambda>t. nat (t + 1)) ts)"

fun trits_of :: "nat \<Rightarrow> nat \<Rightarrow> int list" where
  "trits_of 0 v = []"
| "trits_of (Suc n) v = (int (v mod 3) - 1) # trits_of n (v div 3)"

lemma trits_of_props [simp]: "length (trits_of n v) = n" "list_all valid_trit (trits_of n v)"
  by (induction n arbitrary: v) auto

lemma trits_of_block_val: "list_all valid_trit ts \<Longrightarrow> trits_of (length ts) (block_val ts) = ts"
proof (induction ts)
  case (Cons t ts)
  then have "nat (t + 1) < 3" by auto
  with Cons show ?case by (simp add: block_val_def) linarith?
qed simp

lemma block_val_trits_of: "v < 3 ^ n \<Longrightarrow> block_val (trits_of n v) = v"
proof (induction n arbitrary: v)
  case (Suc n)
  then have "v div 3 < 3 ^ n" by (simp add: less_mult_imp_div_less mult.commute)
  with Suc.IH show ?case by (simp add: block_val_def)
qed (simp add: block_val_def)

lemma block_val_less: "list_all valid_trit ts \<Longrightarrow> block_val ts < 3 ^ length ts"
proof (induction ts)
  case (Cons t ts)
  then have "nat (t + 1) + 3 * block_val ts < 3 + 3 * block_val ts" "Suc (block_val ts) \<le> 3 ^ length ts" by auto
  then show ?case by (simp add: block_val_def)
qed (simp add: block_val_def)

lemma pack_block_eq:
  "pack_block byte mult ts = (if list_all valid_trit ts then Inr (byte + mult * block_val ts) else Inl InvalidTritValue)"
  by (induction byte mult ts rule: pack_block.induct) (auto simp: block_val_def algebra_simps)

lemma pack_blocks_eq:
  "pack_blocks bs = (if list_all (list_all valid_trit) bs then Inr (map (\<lambda>b. word_of_nat (block_val b)) bs)
     else Inl InvalidTritValue)"
  by (induction bs) (auto simp: pack_block_eq)

lemma unpack_block_eq:
  "unpack_block j want trits val = trits @ take (want - length trits) (trits_of j val)"
proof (induction j want trits val rule: unpack_block.induct)
  case (2 j want trits val)
  show ?case
  proof (cases "length trits < want")
    case True
    then obtain m where m: "want - length trits = Suc m" "want - Suc (length trits) = m"
      by (metis Suc_diff_Suc)
    with 2 True show ?thesis by simp
  qed (use 2 in simp)
qed simp

lemma unpack_blocks_eq:
  "unpack_blocks n ceil err want trits bs =
     (if list_all (\<lambda>b. unat b \<le> ceil) bs
      then Inr (trits @ take (want - length trits) (concat (map (\<lambda>b. trits_of n (unat b)) bs))) else Inl err)"
  by (induction n ceil err want trits bs rule: unpack_blocks.induct)
    (auto simp: unpack_block_eq not_less min_def)

subsection \<open>Round trips\<close>

lemma group_count:
  assumes "0 < n" "ts \<noteq> []"
  shows "(length ts + n - 1) div n = Suc ((length (drop n ts) + n - 1) div n)"
proof (cases "length ts \<le> n")
  case True
  obtain m where m: "length ts = Suc m" using assms(2) by (cases ts) auto
  with True assms(1) show ?thesis by (simp add: div_add_self2)
next
  case False
  then have "length ts + n - 1 = (length ts - n + n - 1) + n" using assms(1) by simp
  with assms(1) show ?thesis by (simp only: div_add_self2 length_drop)
qed

lemma blocks_step:
  assumes "0 < n" "ts \<noteq> []"
  shows "map (\<lambda>i. block n i ts) [0 ..< (length ts + n - 1) div n] =
    block n 0 ts # map (\<lambda>i. block n i (drop n ts)) [0 ..< (length (drop n ts) + n - 1) div n]"
proof -
  have "[0 ..< Suc m] = 0 # map Suc [0 ..< m]" for m by (simp only: map_Suc_upt upt_conv_Cons zero_less_Suc)
  moreover have "block n (Suc i) ts = block n i (drop n ts)" for i by (simp add: block_def add.commute)
  ultimately show ?thesis by (simp only: group_count [OF assms] list.map map_map comp_def)
qed

lemma concat_blocks:
  assumes "0 < n"
  shows "take (length ts) (concat (map (\<lambda>i. block n i ts) [0 ..< (length ts + n - 1) div n])) = ts"
proof (induction "length ts" arbitrary: ts rule: less_induct)
  case less
  show ?case
  proof (cases "ts = []")
    case False
    with assms have "length (drop n ts) < length ts" by (cases ts) auto
    note IH = less [OF this]
    show ?thesis
    proof (cases "length ts \<le> n")
      case True
      then show ?thesis unfolding blocks_step [OF assms False] by (simp add: block_def)
    next
      case False
      then have "block n 0 ts = take n ts" "length (take n ts) = n" by (simp_all add: block_def)
      with IH show ?thesis
        unfolding blocks_step [OF assms \<open>ts \<noteq> []\<close>] by simp
    qed
  qed simp
qed

lemma block_length [simp]: "length (block n i ts) = n"
  by (simp add: block_def)

lemma block_valid: "list_all valid_trit ts \<Longrightarrow> list_all valid_trit (block n i ts)"
  by (auto simp: block_def list_all_iff dest!: in_set_takeD dest: in_set_dropD)

lemma unpack_pack_groups:
  assumes "0 < n" "3 ^ n \<le> (256 :: nat)" "pack_groups n ts = Inr bs" "ceil = 3 ^ n - 1"
  shows "unpack_blocks n ceil err (length ts) [] bs = Inr ts" "length bs = (length ts + n - 1) div n"
proof -
  let ?bl = "map (\<lambda>i. block n i ts) [0 ..< (length ts + n - 1) div n]"
  have bs: "bs = map (\<lambda>b. word_of_nat (block_val b)) ?bl" and v: "list_all (list_all valid_trit) ?bl"
    using assms(3) by (auto simp: pack_groups_def pack_blocks_eq split: if_splits)
  have u: "unat (word_of_nat (block_val b) :: u8) = block_val b" "block_val b < 3 ^ n" if "b \<in> set ?bl" for b
  proof -
    show "block_val b < 3 ^ n" using block_val_less [of b] that v by (auto simp: list_all_iff)
    then show "unat (word_of_nat (block_val b) :: u8) = block_val b" using assms(2) by (simp add: unat_of_nat)
  qed
  have "map (\<lambda>b. trits_of n (unat b)) bs = ?bl"
  proof -
    have "trits_of n (unat (word_of_nat (block_val b) :: u8)) = b" if "b \<in> set ?bl" for b
    proof -
      have "length b = n" using that by auto
      moreover have "list_all valid_trit b" using v that unfolding list_all_iff by blast
      ultimately show ?thesis using trits_of_block_val [of b] u(1) [OF that] by simp
    qed
    then have "map (\<lambda>b. trits_of n (unat (word_of_nat (block_val b) :: u8))) ?bl = ?bl" by (intro map_idI) blast
    then show ?thesis by (simp add: bs comp_def)
  qed
  moreover have "list_all (\<lambda>b. unat b \<le> ceil) bs"
    unfolding bs list.pred_map comp_def list_all_iff using u assms(4) by fastforce
  ultimately show "unpack_blocks n ceil err (length ts) [] bs = Inr ts"
    using concat_blocks [OF assms(1), of ts] by (simp add: unpack_blocks_eq)
  show "length bs = (length ts + n - 1) div n" by (simp add: bs)
qed

lemma pack_groups_total:
  assumes "list_all valid_trit ts"
  shows "\<exists>bs. pack_groups n ts = Inr bs"
proof -
  have "list_all (list_all valid_trit) (map (\<lambda>i. block n i ts) is)" for "is"
    using block_valid [OF assms] by (induction "is") simp_all
  then show ?thesis by (simp add: pack_groups_def pack_blocks_eq)
qed

section \<open>Direct conversion between the two packings\<close>

text \<open>
  \<open>pt5_to_b81\<close> and \<open>b81_to_pt5\<close> move trits through a queue: the first loop refills it from the input,
  \<open>w\<close> trits for each byte, until \<open>need\<close> trits or all that are left are in it.
\<close>

fun refill :: "nat \<Rightarrow> nat \<Rightarrow> packing_error \<Rightarrow> nat \<Rightarrow> nat \<Rightarrow> nat \<Rightarrow> int list \<Rightarrow> u8 list \<Rightarrow> packing_error + int list \<times> u8 list" where
  "refill w ceil err need want done buf [] = Inr (buf, [])"
| "refill w ceil err need want done buf (b # bs) =
     (if length buf < need \<and> done + length buf < want
      then if ceil < unat b then Inl err else refill w ceil err need want done (buf @ trits_of w (unat b)) bs
      else Inr (buf, b # bs))"

fun consume :: "nat \<Rightarrow> nat \<Rightarrow> nat \<Rightarrow> int list \<Rightarrow> nat \<Rightarrow> nat \<Rightarrow> packing_error + nat \<times> nat \<times> int list" where
  "consume 0 want done buf byte mult = Inr (byte, done, buf)"
| "consume (Suc j) want done buf byte mult =
     (let (t, done, buf) = (if buf \<noteq> [] \<and> done < want then (hd buf, done + 1, tl buf) else (0, done, buf))
      in if t < - 1 \<or> 1 < t then Inl InvalidTritValue
         else consume j want done buf (byte + nat (t + 1) * mult) (mult * 3))"

text \<open>The outer loop would not end if the input ran dry; \<open>None\<close> is that outcome.\<close>

partial_function (option) convert_loop ::
    "nat \<Rightarrow> nat \<Rightarrow> packing_error \<Rightarrow> nat \<Rightarrow> nat \<Rightarrow> nat \<Rightarrow> int list \<Rightarrow> u8 list \<Rightarrow> (packing_error + u8 list) option" where
  "convert_loop w ceil err need want done buf bs =
     (if done < want then
        case refill w ceil err need want done buf bs of
          Inl e \<Rightarrow> Some (Inl e)
        | Inr (buf, bs) \<Rightarrow>
            (case consume need want done buf 0 1 of
               Inl e \<Rightarrow> Some (Inl e)
             | Inr (byte, done, buf) \<Rightarrow>
                 do { rest \<leftarrow> convert_loop w ceil err need want done buf bs;
                      Some (map_sum id ((#) (word_of_nat byte)) rest) })
      else Some (Inr []))"

definition pt5_to_b81 :: "u8 list \<Rightarrow> nat \<Rightarrow> (packing_error + u8 list) option" where
  "pt5_to_b81 bytes want =
     (if length bytes < (want + 4) div 5 then Some (Inl InsufficientData)
      else convert_loop 5 242 InvalidPT5Byte 4 want 0 [] bytes)"

definition b81_to_pt5 :: "u8 list \<Rightarrow> nat \<Rightarrow> (packing_error + u8 list) option" where
  "b81_to_pt5 digits want =
     (if length digits < (want + 3) div 4 then Some (Inl InsufficientData)
      else convert_loop 4 80 InvalidBase81Digit 5 want 0 [] digits)"

text \<open>The queue and the input left hold the trits left; a refill does not change that.\<close>

definition stream_of :: "nat \<Rightarrow> int list \<Rightarrow> u8 list \<Rightarrow> int list" where
  "stream_of w buf bs = buf @ concat (map (\<lambda>b. trits_of w (unat b)) bs)"

lemma refill_stream:
  assumes "list_all (\<lambda>b. unat b \<le> ceil) bs" "want \<le> done + length (stream_of w buf bs)"
  shows "\<exists>buf' bs'. refill w ceil err need want done buf bs = Inr (buf', bs') \<and>
    stream_of w buf' bs' = stream_of w buf bs \<and> list_all (\<lambda>b. unat b \<le> ceil) bs' \<and>
    (need \<le> length buf' \<or> want \<le> done + length buf')"
  using assms
proof (induction w ceil err need want "done" buf bs rule: refill.induct)
  case (2 w ceil err need want "done" buf b bs)
  show ?case
  proof (cases "length buf < need \<and> done + length buf < want")
    case True
    then show ?thesis using 2 by (simp add: stream_of_def)
  qed (use 2 in auto)
qed (simp add: stream_of_def)

lemma consume_eq:
  assumes "list_all valid_trit buf" "j \<le> length buf \<or> want \<le> done + length buf" "done \<le> want"
  defines "m \<equiv> min j (want - done)"
  shows "consume j want done buf byte mult =
    Inr (byte + mult * block_val (take m buf @ replicate (j - m) 0), done + m, drop m buf)"
  using assms(1-3) unfolding m_def
proof (induction j want "done" buf byte mult rule: consume.induct)
  case (2 j want "done" buf byte mult)
  show ?case
  proof (cases "done < want")
    case True
    with 2(3) obtain t ts where buf: "buf = t # ts" by (cases buf) auto
    have "consume j want (done + 1) ts (byte + nat (t + 1) * mult) (mult * 3) =
      Inr (byte + nat (t + 1) * mult + mult * 3 * block_val (take (min j (want - (done + 1))) ts @
             replicate (j - min j (want - (done + 1))) 0), done + 1 + min j (want - (done + 1)),
           drop (min j (want - (done + 1))) ts)"
      using 2 True buf by (intro "2.IH") auto
    moreover have "min (Suc j) (want - done) = Suc (min j (want - (done + 1)))" using True by auto
    ultimately show ?thesis using 2(2) True by (simp add: buf block_val_def algebra_simps)
  next
    case False
    with 2(4) have "want = done" by simp
    moreover from this have "consume j done done buf (byte + mult) (mult * 3) =
      Inr (byte + mult + mult * 3 * block_val (replicate j 0), done, buf)"
      using 2 by simp
    ultimately show ?thesis by (simp add: block_val_def algebra_simps)
  qed
qed (simp add: block_val_def)

lemma convert_loop_eq:
  assumes "0 < need" "list_all (\<lambda>b. unat b \<le> ceil) bs" "list_all valid_trit buf"
    "want \<le> done + length (stream_of w buf bs)" "done \<le> want"
  shows "convert_loop w ceil err need want done buf bs =
    Some (pack_groups need (take (want - done) (stream_of w buf bs)))"
  using assms
proof (induction "want - done" arbitrary: "done" buf bs rule: less_induct)
  case less
  show ?case
  proof (cases "done < want")
    case False
    then show ?thesis using less.prems by (simp add: convert_loop.simps pack_groups_def)
  next
    case True
    obtain buf' bs' where r: "refill w ceil err need want done buf bs = Inr (buf', bs')"
      "stream_of w buf' bs' = stream_of w buf bs" "list_all (\<lambda>b. unat b \<le> ceil) bs'"
      "need \<le> length buf' \<or> want \<le> done + length buf'"
      using refill_stream [OF less.prems(2,4)] by blast
    define ts where "ts = take (want - done) (stream_of w buf bs)"
    have valid: "list_all valid_trit (stream_of w buf bs)"
      using less.prems(3) trits_of_props(2) by (auto simp: stream_of_def list_all_iff)
    then have "list_all valid_trit (stream_of w buf' bs')" by (simp only: r(2))
    then have valid': "list_all valid_trit buf'" by (simp add: stream_of_def)
    define m where "m = min need (want - done)"
    have m: "0 < m" "m \<le> length buf'" "m \<le> want - done" using True less.prems(1) r(4) by (auto simp: m_def)
    have ts: "length ts = want - done" using less.prems(4) by (simp add: ts_def)
    have "take m (stream_of w buf bs) = take m buf'"
      unfolding r(2) [symmetric] using m(2) by (simp add: stream_of_def)
    moreover have "take need ts = take m (stream_of w buf bs)" by (simp add: ts_def m_def)
    moreover have "need - length ts = need - m" using ts by (simp add: m_def)
    ultimately have take: "take m buf' @ replicate (need - m) 0 = block need 0 ts"
      by (simp add: block_def)
    have stream: "stream_of w (drop m buf') bs' = drop m (stream_of w buf bs)"
      unfolding r(2) [symmetric] using m(2) by (simp add: stream_of_def)
    have "convert_loop w ceil err need want (done + m) (drop m buf') bs' =
      Some (pack_groups need (take (want - (done + m)) (stream_of w (drop m buf') bs')))"
    proof (rule less.hyps)
      show "want - (done + m) < want - done" using m(1) True by simp
    qed (use less.prems True m r(3) valid' in \<open>auto simp: stream list_all_iff dest: in_set_dropD\<close>)
    also have "take (want - (done + m)) (stream_of w (drop m buf') bs') = drop need ts"
      by (simp add: stream ts_def drop_take) (auto simp: m_def min_def)
    finally have rest: "convert_loop w ceil err need want (done + m) (drop m buf') bs' = Some (pack_groups need (drop need ts))" .
    have "convert_loop w ceil err need want done buf bs =
        map_option (map_sum id ((#) (word_of_nat (block_val (block need 0 ts))))) (Some (pack_groups need (drop need ts)))"
      using True r(1) consume_eq [OF valid' r(4) less.prems(5), of 0 1, folded m_def]
      by (subst convert_loop.simps) (simp add: take rest)
    moreover have "pack_groups need ts = map_sum id ((#) (word_of_nat (block_val (block need 0 ts)))) (pack_groups need (drop need ts))"
    proof -
      have "ts \<noteq> []" using ts True by auto
      moreover have "list_all valid_trit (block need 0 ts)"
        using valid by (intro block_valid) (auto simp: ts_def list_all_iff dest: in_set_takeD)
      ultimately show ?thesis
        unfolding pack_groups_def blocks_step [OF less.prems(1) \<open>ts \<noteq> []\<close>]
        by (auto simp: pack_blocks_eq)
    qed
    ultimately show ?thesis by (simp add: ts_def)
  qed
qed

lemma length_concat_trits: "length (concat (map (\<lambda>b. trits_of w (unat b)) bs)) = w * length bs"
  by (induction bs) simp_all

text \<open>On valid bytes, the direct conversion is unpacking followed by packing.\<close>

lemma pt5_to_b81_eq:
  assumes "list_all (\<lambda>b. unat b \<le> 242) bytes"
  shows "pt5_to_b81 bytes want = Some (case unpack_pt5 bytes want of Inl e \<Rightarrow> Inl e | Inr ts \<Rightarrow> pack_base81 ts)"
proof (cases "length bytes < (want + 4) div 5")
  case False
  then have "want \<le> length (stream_of 5 [] bytes)" by (simp add: stream_of_def length_concat_trits)
  with assms False show ?thesis
    by (simp add: pt5_to_b81_def unpack_pt5_def convert_loop_eq unpack_blocks_eq pack_base81_def stream_of_def)
qed (simp add: pt5_to_b81_def unpack_pt5_def)

lemma b81_to_pt5_eq:
  assumes "list_all (\<lambda>b. unat b \<le> 80) digits"
  shows "b81_to_pt5 digits want = Some (case unpack_base81 digits want of Inl e \<Rightarrow> Inl e | Inr ts \<Rightarrow> pack_pt5 ts)"
proof (cases "length digits < (want + 3) div 4")
  case False
  then have "want \<le> length (stream_of 4 [] digits)" by (simp add: stream_of_def length_concat_trits)
  with assms False show ?thesis
    by (simp add: b81_to_pt5_def unpack_base81_def convert_loop_eq unpack_blocks_eq pack_pt5_def stream_of_def)
qed (simp add: b81_to_pt5_def unpack_base81_def)

lemma unpack_pack_pt5: "pack_pt5 ts = Inr bs \<Longrightarrow> unpack_pt5 bs (length ts) = Inr ts"
  using unpack_pack_groups(1) [of 5 ts bs 242 InvalidPT5Byte] unpack_pack_groups(2) [of 5 ts bs 242] by (simp add: pack_pt5_def unpack_pt5_def)

lemma unpack_pack_base81: "pack_base81 ts = Inr bs \<Longrightarrow> unpack_base81 bs (length ts) = Inr ts"
  using unpack_pack_groups(1) [of 4 ts bs 80 InvalidBase81Digit] unpack_pack_groups(2) [of 4 ts bs 80] by (simp add: pack_base81_def unpack_base81_def)

text \<open>Hence a stream packed in one form and converted is the stream packed in the other.\<close>

lemma convert_packed:
  assumes "pack_pt5 ts = Inr bs"
  shows "pt5_to_b81 bs (length ts) = Some (pack_base81 ts)"
proof -
  note u = unpack_pack_pt5 [OF assms]
  then have "list_all (\<lambda>b. unat b \<le> 242) bs"
    by (auto simp: unpack_pt5_def unpack_blocks_eq split: if_splits)
  from pt5_to_b81_eq [OF this] u show ?thesis by simp
qed

subsection \<open>Digits as text\<close>

text \<open>The alphabet is that of \<open>base81.cpp\<close>; the reader is \<open>next_codepoint\<close> again.\<close>

definition b81_digits_to_string :: "u8 list \<Rightarrow> string" where
  "b81_digits_to_string digits = concat (map (\<lambda>d. if unat d < 81 then alphabet81 ! unat d else ''?'') digits)"

function string_to_b81_digits :: "string \<Rightarrow> packing_error + u8 list" where
  "string_to_b81_digits s =
     (if s = [] then Inr []
      else case next_codepoint s of None \<Rightarrow> Inl EncodingError
        | Some (cp, rest) \<Rightarrow>
            (case find_index (\<lambda>x. x = cp) alphabet81 of None \<Rightarrow> Inl InvalidBase81Digit
             | Some i \<Rightarrow> map_sum id ((#) (word_of_nat i)) (string_to_b81_digits rest)))"
  by auto
termination
  by (relation "measure length") (auto dest: next_codepoint_split)

declare string_to_b81_digits.simps [simp del]

lemma b81_text_roundtrip:
  "list_all (\<lambda>d. unat d < 81) digits \<Longrightarrow> string_to_b81_digits (b81_digits_to_string digits) = Inr digits"
proof (induction digits)
  case (Cons d ds)
  then have "alphabet81 ! unat d \<noteq> []"
    using alphabet81_lengths nth_mem [of "unat d" alphabet81] by (simp add: list_all_iff alphabet81_length)
  with Cons show ?case
    by (subst string_to_b81_digits.simps) (simp add: b81_digits_to_string_def next_codepoint_symbol)
qed (simp add: b81_digits_to_string_def string_to_b81_digits.simps)

end
