(* ===== verification/T81_Balanced.thy ===== *)
theory T81_Balanced
  imports T81_Trits T81_Serialize
begin

text \<open>
  Balanced base-81 digits (\<open>codec/base81_balanced.cpp\<close>), blocks of five base-81 digits in 32 bits
  (\<open>codec/base81_packed.cpp\<close>), the header of encoded buffers (\<open>codec/metadata.cpp\<close>) and the fixed-size
  packings of \<open>types/packing.hpp\<close> and \<open>types/cell_packed.hpp\<close>.
\<close>

section \<open>Balanced base-81 digits\<close>

text \<open>\<open>pack_digit\<close>: \<open>t0 + 3 t1 + 9 t2 + 27 t3\<close> in an \<open>int\<close>, cast to 8 bits.\<close>

fun pack_digit_loop :: "int \<Rightarrow> int \<Rightarrow> int list \<Rightarrow> int" where
  "pack_digit_loop val mult [] = val"
| "pack_digit_loop val mult (t # ts) = pack_digit_loop (val + t * mult) (mult * 3) ts"

definition pack_digit :: "int list \<Rightarrow> 8 word" where
  "pack_digit trits = word_of_int (pack_digit_loop 0 1 trits)"

text \<open>\<open>unpack_digit\<close>: the division of C++ truncates, so a remainder lies between -2 and 2.\<close>

fun unpack_digit_loop :: "nat \<Rightarrow> int \<Rightarrow> int list" where
  "unpack_digit_loop 0 val = []"
| "unpack_digit_loop (Suc j) val =
     (let r = trunc_mod val 3; q = trunc_div val 3
      in if 1 < r then (r - 3) # unpack_digit_loop j (q + 1)
         else if r < - 1 then (r + 3) # unpack_digit_loop j (q - 1)
         else r # unpack_digit_loop j q)"

definition unpack_digit :: "8 word \<Rightarrow> int list" where
  "unpack_digit digit = unpack_digit_loop 4 (sint digit)"

datatype balanced_error = InsufficientBuffer | InsufficientDigits | InvalidDigit

text \<open>\<open>pack\<close> writes into the span it is given, \<open>unpack\<close> into its prefix.\<close>

definition pack_balanced :: "int list \<Rightarrow> 8 word list \<Rightarrow> balanced_error + nat \<times> 8 word list" where
  "pack_balanced trits digits =
     (let n = (length trits + 3) div 4
      in if length digits < n then Inl InsufficientBuffer
         else Inr (n, map (\<lambda>i. pack_digit (block 4 i trits)) [0 ..< n] @ drop n digits))"

fun unpack_digits :: "8 word list \<Rightarrow> balanced_error + int list" where
  "unpack_digits [] = Inr []"
| "unpack_digits (d # ds) =
     (if sint d < - 40 \<or> 40 < sint d then Inl InvalidDigit
      else map_sum id ((@) (unpack_digit d)) (unpack_digits ds))"

definition unpack_balanced :: "8 word list \<Rightarrow> int list \<Rightarrow> nat \<Rightarrow> balanced_error + nat \<times> int list" where
  "unpack_balanced digits trits want =
     (if length digits < (want + 3) div 4 then Inl InsufficientDigits
      else if length trits < want then Inl InsufficientBuffer
      else map_sum id (\<lambda>ts. (want, take want ts @ drop want trits)) (unpack_digits (take ((want + 3) div 4) digits)))"

definition pack_vector :: "int list \<Rightarrow> balanced_error + 8 word list" where
  "pack_vector trits = map_sum id snd (pack_balanced trits (replicate ((length trits + 3) div 4) 0))"

definition unpack_vector :: "8 word list \<Rightarrow> nat \<Rightarrow> balanced_error + int list" where
  "unpack_vector digits want = map_sum id snd (unpack_balanced digits (replicate want 0) want)"

definition to_balanced :: "u8 list \<Rightarrow> 8 word list \<Rightarrow> 8 word list" where
  "to_balanced unbalanced balanced =
     (let n = min (length unbalanced) (length balanced)
      in map (\<lambda>u. word_of_int (uint u - 40)) (take n unbalanced) @ drop n balanced)"

definition to_unbalanced :: "8 word list \<Rightarrow> u8 list \<Rightarrow> u8 list" where
  "to_unbalanced balanced unbalanced =
     (let n = min (length balanced) (length unbalanced)
      in map (\<lambda>b. word_of_int (sint b + 40)) (take n balanced) @ drop n unbalanced)"

text \<open>Balanced digits have one value and one expansion.\<close>

fun bal_val :: "int list \<Rightarrow> int" where
  "bal_val [] = 0"
| "bal_val (t # ts) = t + 3 * bal_val ts"

lemma pack_digit_loop_eq: "pack_digit_loop val mult ts = val + mult * bal_val ts"
  by (induction val mult ts rule: pack_digit_loop.induct) (simp_all add: algebra_simps)

lemma bal_val_bound: "list_all valid_trit ts \<Longrightarrow> 2 * \<bar>bal_val ts\<bar> < 3 ^ length ts"
proof (induction ts)
  case (Cons t ts)
  then have "\<bar>t + 3 * bal_val ts\<bar> \<le> 1 + 3 * \<bar>bal_val ts\<bar>" by auto
  with Cons show ?case by simp
qed simp

lemma digit_step:
  fixes val :: int
  obtains t q where "val = t + 3 * q" "- 1 \<le> t" "t \<le> 1"
    "unpack_digit_loop (Suc j) val = t # unpack_digit_loop j q"
proof -
  let ?r = "trunc_mod val 3" and ?q = "trunc_div val 3"
  have v: "val = ?r + 3 * ?q" using trunc_div_mult_mod [of 3 val] by simp
  have r: "- 3 < ?r" "?r < 3" by (auto simp: trunc_mod_eq)
  consider "1 < ?r" | "?r < - 1" | "- 1 \<le> ?r" "?r \<le> 1" by linarith
  then show ?thesis
  proof cases
    case 1
    with v r that [of "?r - 3" "?q + 1"] show ?thesis by (simp add: Let_def)
  next
    case 2
    with v r that [of "?r + 3" "?q - 1"] show ?thesis by (simp add: Let_def)
  next
    case 3
    with v that [of ?r ?q] show ?thesis by (simp add: Let_def)
  qed
qed

lemma unpack_digit_loop_bal: "list_all valid_trit ts \<Longrightarrow> unpack_digit_loop (length ts) (bal_val ts) = ts"
proof (induction ts)
  case (Cons t ts)
  obtain t' q where q: "bal_val (t # ts) = t' + 3 * q" "- 1 \<le> t'" "t' \<le> 1"
    "unpack_digit_loop (Suc (length ts)) (bal_val (t # ts)) = t' # unpack_digit_loop (length ts) q"
    by (rule digit_step)
  from q(1) have "t - t' = 3 * (q - bal_val ts)" by simp
  moreover have "- 1 \<le> t \<and> t \<le> 1" using Cons.prems by simp
  ultimately have "t' = t" "q = bal_val ts" using q(2,3) by presburger+
  with Cons q show ?case by simp
qed simp

lemma bal_bound_step:
  "odd x \<Longrightarrow> 2 * \<bar>t + 3 * q\<bar> < 3 * x \<Longrightarrow> - 1 \<le> t \<Longrightarrow> t \<le> 1 \<Longrightarrow> 2 * \<bar>q\<bar> < (x :: int)"
  by presburger

lemma bal_val_unpack:
  "list_all valid_trit (unpack_digit_loop n val) \<and> length (unpack_digit_loop n val) = n \<and>
   (2 * \<bar>val\<bar> < 3 ^ n \<longrightarrow> bal_val (unpack_digit_loop n val) = val)"
proof (induction n arbitrary: val)
  case (Suc n)
  obtain t q where q: "val = t + 3 * q" "- 1 \<le> t" "t \<le> 1"
    "unpack_digit_loop (Suc n) val = t # unpack_digit_loop n q"
    by (rule digit_step)
  have "2 * \<bar>q\<bar> < 3 ^ n" if "2 * \<bar>val\<bar> < 3 ^ Suc n"
    using that q(1-3) bal_bound_step [of "3 ^ n" t q] by simp
  with Suc [of q] q show ?case by simp
qed auto

lemma sint_i8: "- 128 \<le> x \<Longrightarrow> x < 128 \<Longrightarrow> sint (word_of_int x :: 8 word) = x"
  by (simp add: sint_sbintrunc' signed_take_bit_int_eq_self)

lemma unpack_pack_digit:
  assumes "list_all valid_trit ts" "length ts = 4"
  shows "unpack_digit (pack_digit ts) = ts" "- 40 \<le> sint (pack_digit ts)" "sint (pack_digit ts) \<le> 40"
proof -
  have "sint (pack_digit ts) = bal_val ts" "\<bar>bal_val ts\<bar> \<le> 40"
    using bal_val_bound [OF assms(1)] assms(2) by (auto simp: pack_digit_def pack_digit_loop_eq sint_i8)
  then show "unpack_digit (pack_digit ts) = ts" "- 40 \<le> sint (pack_digit ts)" "sint (pack_digit ts) \<le> 40"
    using unpack_digit_loop_bal [OF assms(1)] assms(2) by (simp_all add: unpack_digit_def)
qed

lemma pack_unpack_digit:
  assumes "- 40 \<le> sint d" "sint d \<le> 40"
  shows "pack_digit (unpack_digit d) = d" "list_all valid_trit (unpack_digit d)" "length (unpack_digit d) = 4"
proof -
  have "bal_val (unpack_digit d) = sint d"
    using bal_val_unpack [of 4 "sint d"] assms by (simp add: unpack_digit_def)
  then show "pack_digit (unpack_digit d) = d" by (simp add: pack_digit_def pack_digit_loop_eq)
  show "list_all valid_trit (unpack_digit d)" "length (unpack_digit d) = 4"
    using bal_val_unpack [of 4 "sint d"] by (simp_all add: unpack_digit_def)
qed

lemma unpack_digits_eq:
  "unpack_digits ds = (if list_all (\<lambda>d. - 40 \<le> sint d \<and> sint d \<le> 40) ds
     then Inr (concat (map unpack_digit ds)) else Inl InvalidDigit)"
  by (induction ds) auto

lemma unpack_pack_vector:
  assumes "list_all valid_trit ts" "pack_vector ts = Inr ds"
  shows "unpack_vector ds (length ts) = Inr ts"
proof -
  let ?n = "(length ts + 3) div 4"
  define bl where "bl = map (\<lambda>i. block 4 i ts) [0 ..< ?n]"
  have ds: "ds = map pack_digit bl"
    using assms(2) by (auto simp: bl_def pack_vector_def pack_balanced_def Let_def)
  have b: "unpack_digit (pack_digit b) = b \<and> - 40 \<le> sint (pack_digit b) \<and> sint (pack_digit b) \<le> 40" if "b \<in> set bl" for b
    using that block_valid [OF assms(1)] unpack_pack_digit by (auto simp: bl_def)
  then have "map (\<lambda>b. unpack_digit (pack_digit b)) bl = bl" by (intro map_idI) blast
  moreover have "list_all (\<lambda>d. - 40 \<le> sint d \<and> sint d \<le> 40) ds"
    unfolding list_all_iff ds set_map using b by blast
  ultimately have "unpack_digits ds = Inr (concat bl)"
    by (simp add: unpack_digits_eq ds comp_def)
  moreover have "length ds = ?n" by (simp add: ds bl_def)
  ultimately show ?thesis
    using concat_blocks [of 4 ts] by (simp add: add.commute bl_def unpack_vector_def unpack_balanced_def)
qed

lemma balanced_unbalanced:
  assumes "list_all (\<lambda>u. uint u \<le> 80) us" "length bs = length us" "length vs = length us"
  shows "to_unbalanced (to_balanced us bs) vs = us"
proof -
  have "word_of_int (sint (word_of_int (uint u - 40) :: 8 word) + 40) = u" if "u \<in> set us" for u
    using that assms(1) by (simp add: list_all_iff sint_i8)
  then show ?thesis using assms(2,3) by (simp add: to_unbalanced_def to_balanced_def comp_def map_idI)
qed

section \<open>Blocks of five digits\<close>

fun pack5_loop :: "u32 \<Rightarrow> u32 \<Rightarrow> u8 list \<Rightarrow> u32" where
  "pack5_loop res mult [] = res"
| "pack5_loop res mult (d # ds) = pack5_loop (res + ucast d * mult) (mult * 81) ds"

definition pack5 :: "u8 list \<Rightarrow> u32" where
  "pack5 digits = pack5_loop 0 1 digits"

text \<open>The entries of the table of \<open>get_unpack_lut\<close> are computed on the spot.\<close>

definition unpack_lut :: "u32 \<Rightarrow> u8 list" where
  "unpack_lut i = [ucast (i mod 81), ucast (i div 81)]"

definition unpack5 :: "u32 \<Rightarrow> u8 list" where
  "unpack5 packed =
     (let chunk0 = packed mod 6561; packed = packed div 6561; chunk1 = packed mod 6561; packed = packed div 6561
      in unpack_lut chunk0 @ unpack_lut chunk1 @ [ucast packed])"

definition pack_stream :: "u8 list \<Rightarrow> u32 list" where
  "pack_stream digits = map (\<lambda>i. pack5 (block 5 i digits)) [0 ..< (length digits + 4) div 5]"

definition unpack_stream :: "u32 list \<Rightarrow> nat \<Rightarrow> u8 list" where
  "unpack_stream blocks original_count =
     foldl (\<lambda>digits b. foldl (\<lambda>digits d. if length digits < original_count then digits @ [d] else digits) digits (unpack5 b))
       [] blocks"

lemma unat_ucast_u8 [simp]: "unat (ucast (d :: u8) :: u32) = unat d"
  by (simp add: unsigned_ucast_eq take_bit_nat_eq_self less_trans [OF unat_byte])

lemma unat_ucast_u32 [simp]: "unat (ucast (w :: u32) :: u8) = unat w mod 256"
  by (simp add: unsigned_ucast_eq take_bit_eq_mod)

lemma digit_split:
  fixes a x :: nat
  shows "a < m \<Longrightarrow> (a + m * x) mod m = a" "a < m \<Longrightarrow> (a + m * x) div m = x"
  by simp_all

lemma unpack_pack5:
  assumes "list_all (\<lambda>d. unat d \<le> 80) ds" "length ds = 5"
  shows "unpack5 (pack5 ds) = ds"
proof -
  obtain a b c d e where ds: "ds = [a, b, c, d, e]"
    using assms(2) by (auto simp: length_Suc_conv eval_nat_numeral)
  have le: "unat a \<le> 80" "unat b \<le> 80" "unat c \<le> 80" "unat d \<le> 80" "unat e \<le> 80"
    using assms(1) by (simp_all add: ds)
  have "unat (pack5 ds) = unat a + unat b * 81 + unat c * 6561 + unat d * 531441 + unat e * 43046721"
    using le by (simp add: ds pack5_def unat_word_ariths)
  then have v: "unat (pack5 ds) = (unat a + 81 * unat b) + 6561 * ((unat c + 81 * unat d) + 6561 * unat e)"
    by simp
  have "unat (pack5 ds) mod 6561 = unat a + 81 * unat b"
    "unat (pack5 ds) div 6561 = (unat c + 81 * unat d) + 6561 * unat e"
    unfolding v by (rule digit_split; use le in linarith)+
  moreover have "((unat c + 81 * unat d) + 6561 * unat e) mod 6561 = unat c + 81 * unat d"
    "((unat c + 81 * unat d) + 6561 * unat e) div 6561 = unat e"
    by (rule digit_split; use le in linarith)+
  ultimately show ?thesis using le
    by (simp add: unpack5_def unpack_lut_def Let_def ds word_unat_eq_iff unat_div unat_mod)
qed

lemma push_all: "foldl (\<lambda>digits d. if length digits < n then digits @ [d] else digits) acc ds = acc @ take (n - length acc) ds"
proof (induction ds arbitrary: acc)
  case (Cons d ds)
  show ?case
  proof (cases "length acc < n")
    case True
    then have "n - length acc = Suc (n - Suc (length acc))" by simp
    with True Cons show ?thesis by simp
  qed (simp add: Cons)
qed simp

lemma unpack_stream_eq: "unpack_stream blocks n = take n (concat (map unpack5 blocks))"
proof -
  have "foldl (\<lambda>digits b. foldl (\<lambda>digits d. if length digits < n then digits @ [d] else digits) digits (unpack5 b)) acc blocks =
      acc @ take (n - length acc) (concat (map unpack5 blocks))" for acc
    by (induction blocks arbitrary: acc) (simp_all add: push_all min_def)
  from this [of "[]"] show ?thesis by (simp add: unpack_stream_def)
qed

lemma unpack_pack_stream:
  assumes "list_all (\<lambda>d. unat d \<le> 80) ds"
  shows "unpack_stream (pack_stream ds) (length ds) = ds"
proof -
  have b: "unpack5 (pack5 (block 5 i ds)) = block 5 i ds" for i
    by (rule unpack_pack5) (use assms in \<open>auto simp: block_def list_all_iff dest: in_set_takeD in_set_dropD\<close>)
  then show ?thesis
    using concat_blocks [of 5 ds] by (simp add: add.commute unpack_stream_eq pack_stream_def comp_def b)
qed

section \<open>Encoded buffers\<close>

datatype encoding_type = PT5 | B81_Digits | B81_Text

definition encoding_byte :: "encoding_type \<Rightarrow> u8" where
  "encoding_byte e = (case e of PT5 \<Rightarrow> 1 | B81_Digits \<Rightarrow> 2 | B81_Text \<Rightarrow> 3)"

text \<open>The 16 bytes of the header in memory, on a little-endian machine; the encoding byte of a buffer
  that is read is not checked.\<close>

record meta_header =
  mh_magic :: u32
  mh_version :: u8
  mh_encoding :: u8
  mh_flags :: "16 word"
  mh_trit_count :: u64

datatype metadata_error = MetaInsufficientData | InvalidMagic | UnsupportedVersion

definition kMagic :: u32 where "kMagic = 0x43313854"

definition wrap_encoded_buffer :: "encoding_type \<Rightarrow> u64 \<Rightarrow> u8 list \<Rightarrow> u8 list" where
  "wrap_encoded_buffer e n payload =
     le_bytes 4 kMagic @ [1, encoding_byte e] @ le_bytes 2 (0 :: 16 word) @ le_bytes 8 n @ payload"

definition unwrap_encoded_buffer :: "u8 list \<Rightarrow> metadata_error + meta_header \<times> u8 list" where
  "unwrap_encoded_buffer buf =
     (if length buf < 16 then Inl MetaInsufficientData
      else let (magic, is) = get_u32 buf; (ver, is) = get_byte is; (enc, is) = get_byte is;
               (fl, is) = get_le 0 2 0 is; (n, is) = get_u64 is
           in if magic \<noteq> kMagic then Inl InvalidMagic
              else if ver \<noteq> 1 then Inl UnsupportedVersion
              else Inr (\<lparr>mh_magic = magic, mh_version = ver, mh_encoding = enc, mh_flags = fl, mh_trit_count = n\<rparr>, is))"

lemma get_le_bytes: "8 * n \<le> LENGTH('a) \<Longrightarrow> get_le 0 n 0 (le_bytes n (w :: 'a :: len word) @ bs) = (take_bit (8 * n) w, bs)"
  using get_le_eq [OF read_le_bytes [of 0 n w bs]] by (simp add: le_bytes_def)

lemma unwrap_wrap:
  "unwrap_encoded_buffer (wrap_encoded_buffer e n payload) =
     Inr (\<lparr>mh_magic = kMagic, mh_version = 1, mh_encoding = encoding_byte e, mh_flags = 0, mh_trit_count = n\<rparr>, payload)"
proof -
  have "get_le 0 2 0 (le_bytes 2 (0 :: 16 word) @ rest) = (0 :: 16 word, rest)" for rest
    using get_le_bytes [of 2 "0 :: 16 word" rest] by simp
  moreover have "length (le_bytes 4 kMagic @ [1, encoding_byte e] @ le_bytes 2 (0 :: 16 word) @ le_bytes 8 n @ payload) \<ge> 16"
    by (simp add: le_bytes_def)
  moreover have "get_u32 (le_bytes 4 kMagic @ rest) = (kMagic, rest)" "get_u64 (le_bytes 8 n @ rest) = (n, rest)" for rest
    using get_emit by (simp_all add: emit_u32_def emit_u64_def)
  ultimately show ?thesis
    by (simp add: unwrap_encoded_buffer_def wrap_encoded_buffer_def Let_def)
qed

section \<open>Packings of fixed size\<close>

text \<open>\<open>pack_trits\<close> and \<open>unpack_trits\<close> for any number \<open>N\<close> of trits; the value wraps beyond 40 trits.\<close>

fun pack_trits_loop :: "u64 \<Rightarrow> u64 \<Rightarrow> int list \<Rightarrow> u64" where
  "pack_trits_loop val mult [] = val"
| "pack_trits_loop val mult (t # ts) = pack_trits_loop (val + word_of_int (t + 1) * mult) (mult * 3) ts"

definition pack_trits :: "int list \<Rightarrow> u64" where
  "pack_trits trits = pack_trits_loop 0 1 trits"

fun unpack_trits :: "nat \<Rightarrow> u64 \<Rightarrow> int list" where
  "unpack_trits 0 packed = []"
| "unpack_trits (Suc n) packed = (int (unat (packed mod 3)) - 1) # unpack_trits n (packed div 3)"

definition states_for_trits :: "nat \<Rightarrow> u64" where
  "states_for_trits n = foldl (\<lambda>s _. s * 3) 1 [0 ..< n]"

lemma pack_trits_loop_eq:
  "list_all valid_trit ts \<Longrightarrow> pack_trits_loop val mult ts = val + mult * word_of_nat (block_val ts)"
proof (induction val mult ts rule: pack_trits_loop.induct)
  case (2 val mult t ts)
  have "word_of_int (t + 1) = (word_of_nat (nat (t + 1)) :: u64)" using 2(2) by simp
  with 2 show ?case by (simp add: block_val_def algebra_simps)
qed (simp add: block_val_def)

lemma unpack_trits_eq: "unpack_trits n w = trits_of n (unat w)"
  by (induction n arbitrary: w) (simp_all add: unat_mod unat_div)

lemma unpack_pack_trits:
  assumes "list_all valid_trit ts" "length ts \<le> 40"
  shows "unpack_trits (length ts) (pack_trits ts) = ts"
proof -
  have "block_val ts < 3 ^ length ts" by (rule block_val_less [OF assms(1)])
  also have "\<dots> \<le> 3 ^ 40" by (rule power_increasing) (use assms(2) in simp_all)
  finally have "unat (word_of_nat (block_val ts) :: u64) = block_val ts" by (simp add: unat_of_nat)
  with trits_of_block_val [OF assms(1)] show ?thesis
    by (simp add: pack_trits_def pack_trits_loop_eq [OF assms(1)] unpack_trits_eq)
qed

text \<open>\<open>PackedCell\<close>: five trits in a byte; negation is a subtraction from 242.\<close>

fun trits_to_index_loop :: "u8 \<Rightarrow> u8 \<Rightarrow> int list \<Rightarrow> u8" where
  "trits_to_index_loop idx mul [] = idx"
| "trits_to_index_loop idx mul (t # ts) = trits_to_index_loop (idx + word_of_int (t + 1) * mul) (mul * 3) ts"

definition trits_to_index :: "int list \<Rightarrow> u8" where
  "trits_to_index trits = trits_to_index_loop 0 1 trits"

definition index_to_trits :: "u8 \<Rightarrow> int list" where
  "index_to_trits idx = trits_of 5 (unat idx)"

definition packed_cell_neg :: "u8 \<Rightarrow> u8" where
  "packed_cell_neg state = 242 - state"

lemma trits_to_index_loop_eq:
  "list_all valid_trit ts \<Longrightarrow> trits_to_index_loop idx mul ts = idx + mul * word_of_nat (block_val ts)"
proof (induction idx mul ts rule: trits_to_index_loop.induct)
  case (2 idx mul t ts)
  have "word_of_int (t + 1) = (word_of_nat (nat (t + 1)) :: u8)" using 2(2) by simp
  with 2 show ?case by (simp add: block_val_def algebra_simps)
qed (simp add: block_val_def)

lemma block_val_neg: "list_all valid_trit ts \<Longrightarrow> block_val (map uminus ts) = 3 ^ length ts - 1 - block_val ts"
proof (induction ts)
  case (Cons t ts)
  then have "nat (1 - t) = 2 - nat (t + 1)" "nat (t + 1) \<le> 2" "block_val ts < 3 ^ length ts"
    using block_val_less [of ts] by auto
  moreover have "2 - x + 3 * (p - 1 - b) = 3 * p - 1 - (x + 3 * b)" if "x \<le> 2" "b < p" for x b p :: nat
    using that by arith
  ultimately show ?case using Cons by (simp add: block_val_def)
qed (simp add: block_val_def)

lemma packed_cell_neg_trits:
  assumes "list_all valid_trit ts" "length ts = 5"
  shows "index_to_trits (trits_to_index ts) = ts"
    "index_to_trits (packed_cell_neg (trits_to_index ts)) = map uminus ts"
proof -
  have b: "block_val ts < 243" using block_val_less [OF assms(1)] assms(2) by simp
  have i: "trits_to_index ts = word_of_nat (block_val ts)" "unat (trits_to_index ts) = block_val ts"
    using b by (simp_all add: trits_to_index_def trits_to_index_loop_eq [OF assms(1)] unat_of_nat)
  show "index_to_trits (trits_to_index ts) = ts"
    using trits_of_block_val [OF assms(1)] by (simp add: index_to_trits_def i(2) assms(2))
  have "unat (packed_cell_neg (trits_to_index ts)) = 242 - block_val ts"
    using b i(2) by (simp add: packed_cell_neg_def unat_sub word_le_nat_alt)
  also have "\<dots> = block_val (map uminus ts)" using block_val_neg [OF assms(1)] assms(2) by simp
  finally show "index_to_trits (packed_cell_neg (trits_to_index ts)) = map uminus ts"
    using trits_of_block_val [of "map uminus ts"] assms by (auto simp: index_to_trits_def list_all_iff)
qed

end
