(* ===== verification/T81_Int.thy ===== *)
theory T81_Int
  imports T81_Balanced
begin

text \<open>
  Balanced ternary integers of \<open>n\<close> trits (\<open>T81Int\<close> in \<open>types/T81Int.hpp\<close>): four trits in a byte, two
  bits each.  An integer is the list of its bytes; the width \<open>n\<close> is the template parameter.
\<close>

unbundle bit_operations_syntax

section \<open>Packed trits\<close>

datatype trit = TN | TZ | TP

definition trit_to_int :: "trit \<Rightarrow> int" where
  "trit_to_int t = (case t of TN \<Rightarrow> - 1 | TZ \<Rightarrow> 0 | TP \<Rightarrow> 1)"

definition int_to_trit :: "int \<Rightarrow> trit" where
  "int_to_trit v = (if v < 0 then TN else if 0 < v then TP else TZ)"

definition encode_trit :: "trit \<Rightarrow> u8" where
  "encode_trit t = (case t of TN \<Rightarrow> 0 | TZ \<Rightarrow> 1 | TP \<Rightarrow> 2)"

definition decode_trit :: "u8 \<Rightarrow> trit" where
  "decode_trit v = (let w = v AND 3 in if w = 0 then TN else if w = 1 then TZ else if w = 2 then TP else TZ)"

type_synonym tint = "u8 list"

definition get_trit :: "tint \<Rightarrow> nat \<Rightarrow> trit" where
  "get_trit a idx = decode_trit (drop_bit (idx mod 4 * 2) (a ! (idx div 4)) AND 3)"

definition set_trit :: "tint \<Rightarrow> nat \<Rightarrow> trit \<Rightarrow> tint" where
  "set_trit a idx t =
     (let off = idx mod 4 * 2; b = a ! (idx div 4)
      in a[idx div 4 := (b AND NOT (push_bit off 3)) OR push_bit off (encode_trit t)])"

text \<open>All trits zero; the constructors start from it.\<close>

definition clear :: "nat \<Rightarrow> tint" where
  "clear n = replicate ((n + 3) div 4) 0x55"

lemma trit_to_int_simps [simp]: "trit_to_int TN = - 1" "trit_to_int TZ = 0" "trit_to_int TP = 1"
  by (simp_all add: trit_to_int_def)

lemma trit_to_int_range: "- 1 \<le> trit_to_int t" "trit_to_int t \<le> 1"
  by (cases t; simp)+

lemma int_to_trit_inverse [simp]: "int_to_trit (trit_to_int t) = t"
  "- 1 \<le> v \<Longrightarrow> v \<le> 1 \<Longrightarrow> trit_to_int (int_to_trit v) = v"
  by (cases t) (auto simp: int_to_trit_def)

lemma trit_to_int_inj [simp]: "trit_to_int s = trit_to_int t \<longleftrightarrow> s = t"
  by (cases s; cases t) simp_all

lemma decode_encode_trit [simp]: "decode_trit (encode_trit t AND 3) = t" "decode_trit (encode_trit t) = t"
  by (cases t; simp add: decode_trit_def encode_trit_def)+

subsection \<open>Reading after writing\<close>

lemma three_mask: "(3 :: u8) = mask 2"
  by (simp add: mask_eq_exp_minus_1)

lemma bit_encode_trit: "bit (encode_trit t) j \<Longrightarrow> j < 2"
  by (cases t) (auto simp: encode_trit_def bit_1_iff bit_2_iff)

lemma field_same:
  assumes "off \<le> 6"
  shows "drop_bit off ((b AND NOT (push_bit off 3)) OR push_bit off (encode_trit t)) AND 3 = encode_trit t AND (3 :: u8)"
  unfolding three_mask using assms by (intro bit_word_eqI) (auto simp: bit_simps)

lemma field_other:
  assumes "off \<noteq> off'" "even off" "even off'" "off' \<le> 6"
  shows "drop_bit off' ((b AND NOT (push_bit off 3)) OR push_bit off (encode_trit t)) AND 3 = drop_bit off' b AND (3 :: u8)"
  unfolding three_mask
proof (rule bit_word_eqI)
  fix i
  have "off + 2 \<le> off' \<or> off' + 2 \<le> off" using assms(1-3) by presburger
  then show "bit (drop_bit off' ((b AND NOT (push_bit off (mask 2))) OR push_bit off (encode_trit t)) AND mask 2) i =
      bit (drop_bit off' b AND (mask 2 :: u8)) i"
    using assms(4) by (auto simp: bit_simps dest!: bit_encode_trit)
qed

lemma get_set_trit [simp]:
  assumes "i div 4 < length a"
  shows "get_trit (set_trit a i t) j = (if j = i then t else get_trit a j)"
proof (cases "j div 4 = i div 4")
  case True
  show ?thesis
  proof (cases "j mod 4 = i mod 4")
    case True
    with \<open>j div 4 = i div 4\<close> have "j = i" by (metis div_mult_mod_eq)
    then show ?thesis using assms field_same [of "i mod 4 * 2"]
      by (simp add: get_trit_def set_trit_def Let_def)
  next
    case False
    then have "j \<noteq> i" by auto
    with False \<open>j div 4 = i div 4\<close> assms field_other [of "i mod 4 * 2" "j mod 4 * 2"] mod_less_divisor [of 4 j] show ?thesis
      by (simp add: get_trit_def set_trit_def Let_def)
  qed
next
  case False
  then have "j \<noteq> i" by auto
  with False show ?thesis by (simp add: get_trit_def set_trit_def Let_def)
qed

lemma length_set_trit [simp]: "length (set_trit a i t) = length a"
  by (simp add: set_trit_def Let_def)

lemma length_clear [simp]: "length (clear n) = (n + 3) div 4"
  by (simp add: clear_def)

lemma in_bytes: "i < n \<Longrightarrow> i div 4 < (n + 3) div (4 :: nat)"
  by linarith

lemma get_clear [simp]: "i < n \<Longrightarrow> get_trit (clear n) i = TZ"
proof -
  assume "i < n"
  have "drop_bit (i mod 4 * 2) (0x55 :: u8) AND 3 = 1"
  proof -
    have "i mod 4 < 4" by simp
    then consider "i mod 4 = 0" | "i mod 4 = 1" | "i mod 4 = 2" | "i mod 4 = 3" by linarith
    then show ?thesis by cases simp_all
  qed
  with in_bytes [OF \<open>i < n\<close>] show ?thesis by (simp add: get_trit_def clear_def decode_trit_def)
qed

section \<open>Values\<close>

definition digits :: "nat \<Rightarrow> tint \<Rightarrow> int list" where
  "digits n a = map (\<lambda>i. trit_to_int (get_trit a i)) [0 ..< n]"

definition ival :: "nat \<Rightarrow> tint \<Rightarrow> int" where
  "ival n a = bal_val (digits n a)"

text \<open>The representation invariant: the right number of bytes, every pair of bits a trit, and the trits
  beyond the width zero.  It makes the comparison of the bytes a comparison of the values.\<close>

definition field :: "tint \<Rightarrow> nat \<Rightarrow> u8" where
  "field a i = drop_bit (i mod 4 * 2) (a ! (i div 4)) AND 3"

definition tint_ok :: "nat \<Rightarrow> tint \<Rightarrow> bool" where
  "tint_ok n a \<longleftrightarrow> length a = (n + 3) div 4 \<and>
     (\<forall>i < 4 * length a. field a i = encode_trit (if i < n then get_trit a i else TZ))"

lemma tint_ok_length: "tint_ok n a \<Longrightarrow> length a = (n + 3) div 4"
  by (simp add: tint_ok_def)

lemma tint_ok_index: "tint_ok n a \<Longrightarrow> i < n \<Longrightarrow> i div 4 < length a"
  by (simp add: tint_ok_length in_bytes)

lemma field_set_trit:
  assumes "i div 4 < length a"
  shows "field (set_trit a i t) j = (if j = i then encode_trit t else field a j)"
proof (cases "j div 4 = i div 4")
  case True
  show ?thesis
  proof (cases "j mod 4 = i mod 4")
    case True
    with \<open>j div 4 = i div 4\<close> have "j = i" by (metis div_mult_mod_eq)
    moreover have "encode_trit t AND 3 = encode_trit t" by (cases t) (simp_all add: encode_trit_def)
    ultimately show ?thesis using assms field_same [of "i mod 4 * 2"]
      by (simp add: field_def set_trit_def Let_def)
  next
    case False
    then have "j \<noteq> i" by auto
    with False \<open>j div 4 = i div 4\<close> assms field_other [of "i mod 4 * 2" "j mod 4 * 2"] mod_less_divisor [of 4 j] show ?thesis
      by (simp add: field_def set_trit_def Let_def)
  qed
next
  case False
  then have "j \<noteq> i" by auto
  with False show ?thesis by (simp add: field_def set_trit_def Let_def)
qed

lemma tint_ok_set: "tint_ok n a \<Longrightarrow> i < n \<Longrightarrow> tint_ok n (set_trit a i t)"
  using tint_ok_index [of n a i] by (auto simp: tint_ok_def field_set_trit)

lemma tint_ok_clear: "tint_ok n (clear n)"
proof -
  have "field (clear n) i = 1" if "i div 4 < (n + 3) div 4" for i
  proof -
    have "i mod 4 < 4" by simp
    then consider "i mod 4 = 0" | "i mod 4 = 1" | "i mod 4 = 2" | "i mod 4 = 3" by linarith
    then show ?thesis using that by cases (simp_all add: field_def clear_def)
  qed
  then show ?thesis by (auto simp: tint_ok_def encode_trit_def)
qed

lemma byte_fields:
  assumes "\<And>k. k < 4 \<Longrightarrow> drop_bit (k * 2) x AND 3 = drop_bit (k * 2) y AND (3 :: u8)"
  shows "x = y"
proof (rule bit_word_eqI)
  fix j assume "j < LENGTH(8)"
  then have "bit (drop_bit (j div 2 * 2) x AND 3) (j mod 2) = bit (drop_bit (j div 2 * 2) y AND 3) (j mod 2)"
    using assms [of "j div 2"] by simp
  then show "bit x j = bit y j"
    unfolding three_mask using less_trans [of "j mod 2" 2 8] by (simp add: bit_simps)
qed

lemma field_inj:
  assumes "tint_ok n a" "tint_ok n b" "\<And>i. i < n \<Longrightarrow> get_trit a i = get_trit b i"
  shows "a = b"
proof (rule nth_equalityI)
  show "length a = length b" using assms(1,2) by (simp add: tint_ok_def)
next
  fix k assume k: "k < length a"
  show "a ! k = b ! k"
  proof (rule byte_fields)
    fix m :: nat assume "m < 4"
    moreover from this k have "4 * k + m < 4 * length a" by simp
    ultimately have "field a (4 * k + m) = field b (4 * k + m)"
      using assms by (simp add: tint_ok_def)
    with \<open>m < 4\<close> show "drop_bit (m * 2) (a ! k) AND 3 = drop_bit (m * 2) (b ! k) AND 3"
      by (simp add: field_def)
  qed
qed

lemma digits_length [simp]: "length (digits n a) = n"
  by (simp add: digits_def)

lemma digits_valid: "list_all valid_trit (digits n a)"
  by (auto simp: digits_def list_all_iff trit_to_int_range)

lemma ival_bound: "2 * \<bar>ival n a\<bar> < 3 ^ n"
  using bal_val_bound [OF digits_valid, of n a] by (simp add: ival_def)

lemma bal_val_inj:
  assumes "list_all valid_trit ds" "list_all valid_trit es" "length ds = length es" "bal_val ds = bal_val es"
  shows "ds = es"
proof -
  have "ds = unpack_digit_loop (length ds) (bal_val ds)" by (rule unpack_digit_loop_bal [OF assms(1), symmetric])
  also have "\<dots> = unpack_digit_loop (length es) (bal_val es)" by (simp only: assms(3,4))
  also have "\<dots> = es" by (rule unpack_digit_loop_bal [OF assms(2)])
  finally show ?thesis .
qed

lemma tint_eq_iff:
  assumes "tint_ok n a" "tint_ok n b"
  shows "a = b \<longleftrightarrow> ival n a = ival n b"
proof
  assume "ival n a = ival n b"
  then have "digits n a = digits n b"
    unfolding ival_def by (intro bal_val_inj digits_valid) simp_all
  then have "get_trit a i = get_trit b i" if "i < n" for i
    using that by (simp add: digits_def list_eq_iff_nth_eq)
  then show "a = b" by (rule field_inj [OF assms])
qed simp

lemma bal_val_append: "bal_val (ds @ es) = bal_val ds + 3 ^ length ds * bal_val es"
  by (induction ds) (simp_all add: algebra_simps)

section \<open>Construction and tests\<close>

datatype int_error = Overflow string | DomainError string

text \<open>The loop of \<open>assign_from_int64\<close>; \<open>uv\<close> is the absolute value, below \<open>2 ^ 63 + 1\<close>.\<close>

function assign_loop :: "nat \<Rightarrow> bool \<Rightarrow> nat \<Rightarrow> nat \<Rightarrow> tint \<Rightarrow> nat \<times> tint" where
  "assign_loop n neg uv i a =
     (if uv \<noteq> 0 \<and> i < n then
        let r = int (uv mod 3); uv' = uv div 3; (r, uv') = (if r = 2 then (- 1, uv' + 1) else (r, uv'))
        in assign_loop n neg uv' (i + 1) (set_trit a i (int_to_trit (if neg then - r else r)))
      else (uv, a))"
  by auto
termination
  by (relation "measure (\<lambda>(n, _, _, i, _). n - i)") auto

declare assign_loop.simps [simp del]

definition from_int64 :: "nat \<Rightarrow> i64 \<Rightarrow> int_error + tint" where
  "from_int64 n v =
     (if v = 0 then Inr (clear n)
      else let (uv, a) = assign_loop n (sint v < 0) (nat \<bar>sint v\<bar>) 0 (clear n)
           in if uv \<noteq> 0 then Inl (Overflow ''T81Int: value does not fit in N trits'') else Inr a)"

definition is_zero :: "nat \<Rightarrow> tint \<Rightarrow> bool" where
  "is_zero n a \<longleftrightarrow> list_all (\<lambda>i. get_trit a i = TZ) [0 ..< n]"

text \<open>\<open>sign_trit\<close> and \<open>significant_trits\<close> search from the top.\<close>

definition sign_trit :: "nat \<Rightarrow> tint \<Rightarrow> trit" where
  "sign_trit n a = (case List.find (\<lambda>i. get_trit a i \<noteq> TZ) (rev [0 ..< n]) of None \<Rightarrow> TZ | Some i \<Rightarrow> get_trit a i)"

definition significant_trits :: "nat \<Rightarrow> tint \<Rightarrow> nat" where
  "significant_trits n a = (case List.find (\<lambda>i. get_trit a i \<noteq> TZ) (rev [0 ..< n]) of None \<Rightarrow> 0 | Some i \<Rightarrow> i + 1)"

text \<open>Width conversion.\<close>

definition convert_width :: "nat \<Rightarrow> nat \<Rightarrow> tint \<Rightarrow> tint" where
  "convert_width n m a = foldl (\<lambda>r i. set_trit r i (get_trit a i)) (clear n) [0 ..< min n m]"

definition try_to_int :: "nat \<Rightarrow> nat \<Rightarrow> tint \<Rightarrow> tint option" where
  "try_to_int m n a =
     (if n \<le> m then Some (convert_width m n a)
      else if list_ex (\<lambda>i. get_trit a i \<noteq> TZ) [m ..< n] then None else Some (convert_width m n a))"

definition checked_to_int :: "nat \<Rightarrow> nat \<Rightarrow> tint \<Rightarrow> int_error + tint" where
  "checked_to_int m n a =
     (case try_to_int m n a of None \<Rightarrow> Inl (Overflow ''T81Int::checked_to_int overflow'') | Some r \<Rightarrow> Inr r)"

subsection \<open>What the loops do to the value\<close>

lemma digits_nth [simp]: "i < n \<Longrightarrow> digits n a ! i = trit_to_int (get_trit a i)"
  by (simp add: digits_def)

lemma digits_eqI: "(\<And>i. i < n \<Longrightarrow> get_trit a i = get_trit b i) \<Longrightarrow> digits n a = digits n b"
  by (simp add: digits_def)

lemma bal_val_update: "i < length ds \<Longrightarrow> bal_val (ds[i := x]) = bal_val ds + 3 ^ i * (x - ds ! i)"
proof (induction ds arbitrary: i)
  case (Cons d ds)
  show ?case
  proof (cases i)
    case (Suc j)
    with Cons have "bal_val (ds[j := x]) = bal_val ds + 3 ^ j * (x - ds ! j)" by simp
    with Suc show ?thesis by (simp add: right_diff_distrib)
  qed simp
qed simp

lemma digits_set_trit:
  assumes "tint_ok n a" "i < n"
  shows "digits n (set_trit a i t) = (digits n a)[i := trit_to_int t]"
  using tint_ok_index [OF assms] by (auto simp: list_eq_iff_nth_eq nth_list_update)

lemma ival_set_trit:
  assumes "tint_ok n a" "i < n"
  shows "ival n (set_trit a i t) = ival n a + 3 ^ i * (trit_to_int t - trit_to_int (get_trit a i))"
  using assms by (simp add: ival_def digits_set_trit bal_val_update)

lemma bal_val_replicate_0 [simp]: "bal_val (replicate n 0) = 0"
  by (induction n) simp_all

lemma ival_clear [simp]: "ival n (clear n) = 0"
proof -
  have "digits n (clear n) = replicate n 0" by (simp add: list_eq_iff_nth_eq)
  then show ?thesis by (simp add: ival_def)
qed

lemma ival_eq_0: "ival n a = 0 \<longleftrightarrow> (\<forall>i < n. get_trit a i = TZ)"
proof
  assume "ival n a = 0"
  then have "digits n a = replicate n 0"
    unfolding ival_def by (intro bal_val_inj digits_valid) (simp_all add: list_all_iff)
  then show "\<forall>i < n. get_trit a i = TZ"
    by (metis digits_nth nth_replicate trit_to_int_inj trit_to_int_simps(2))
next
  assume "\<forall>i < n. get_trit a i = TZ"
  then have "digits n a = replicate n 0" by (simp add: list_eq_iff_nth_eq)
  then show "ival n a = 0" by (simp add: ival_def)
qed

lemma is_zero_iff: "is_zero n a \<longleftrightarrow> ival n a = 0"
  by (auto simp: is_zero_def ival_eq_0 list_all_iff)

lemma assign_loop_facts:
  assumes "assign_loop n neg uv i a = (uv', a')" "tint_ok n a" "\<forall>j < n. i \<le> j \<longrightarrow> get_trit a j = TZ" "i \<le> n"
  shows "tint_ok n a' \<and> (uv' = 0 \<longrightarrow> ival n a' = ival n a + (if neg then - 1 else 1) * int uv * 3 ^ i) \<and>
    (uv' \<noteq> 0 \<longrightarrow> 3 ^ (n - i) < 2 * uv)"
  using assms
proof (induction "n - i" arbitrary: uv i a rule: less_induct)
  case less
  show ?case
  proof (cases "uv \<noteq> 0 \<and> i < n")
    case False
    with less.prems show ?thesis by (auto simp: assign_loop.simps [of n neg uv i a])
  next
    case True
    define r where "r = (if uv mod 3 = 2 then - 1 else int (uv mod 3))"
    define w where "w = (if uv mod 3 = 2 then uv div 3 + 1 else uv div 3)"
    define b where "b = set_trit a i (int_to_trit (if neg then - r else r))"
    have uv: "int uv = r + 3 * int w" "- 1 \<le> r" "r \<le> 1"
      using div_mult_mod_eq [of uv 3] by (auto simp: r_def w_def) presburger+
    have step: "assign_loop n neg w (i + 1) b = (uv', a')"
      using less.prems(1) True
      by (subst (asm) assign_loop.simps) (simp add: Let_def r_def w_def b_def split: if_splits)
    have len: "i div 4 < length a" using True less.prems(2) tint_ok_index by blast
    have b: "tint_ok n b" "\<forall>j < n. i + 1 \<le> j \<longrightarrow> get_trit b j = TZ"
      "ival n b = ival n a + 3 ^ i * (if neg then - r else r)"
      using less.prems True len uv by (auto simp: b_def tint_ok_set ival_set_trit)
    have IH: "tint_ok n a' \<and> (uv' = 0 \<longrightarrow> ival n a' = ival n b + (if neg then - 1 else 1) * int w * 3 ^ (i + 1)) \<and>
      (uv' \<noteq> 0 \<longrightarrow> 3 ^ (n - (i + 1)) < 2 * w)"
      by (rule less.hyps [OF _ step b(1,2)]) (use True in auto)
    have "3 ^ (n - i) = 3 * (3 :: nat) ^ (n - (i + 1))"
      using True by (metis Suc_diff_Suc Suc_eq_plus1 power_Suc)
    moreover have "3 * int w \<le> int uv + 1" using uv by simp
    ultimately have "3 ^ (n - i) < 2 * uv" if "3 ^ (n - (i + 1)) < 2 * w" using that by linarith
    moreover have "ival n b + (if neg then - 1 else 1) * int w * 3 ^ (i + 1) =
        ival n a + (if neg then - 1 else 1) * int uv * 3 ^ i"
      by (simp add: b(3) uv(1) algebra_simps)
    ultimately show ?thesis using IH by simp
  qed
qed

text \<open>The conversion from 64 bits succeeds exactly on the values of the width.\<close>

lemma from_int64_facts:
  "if 2 * \<bar>sint v\<bar> < 3 ^ n then \<exists>a. from_int64 n v = Inr a \<and> tint_ok n a \<and> ival n a = sint v
   else from_int64 n v = Inl (Overflow ''T81Int: value does not fit in N trits'')"
proof (cases "v = 0")
  case True
  then show ?thesis by (simp add: from_int64_def tint_ok_clear)
next
  case False
  obtain uv a where l: "assign_loop n (sint v < 0) (nat \<bar>sint v\<bar>) 0 (clear n) = (uv, a)" by fastforce
  note f = assign_loop_facts [OF l tint_ok_clear]
  have fits: "2 * \<bar>sint v\<bar> < 3 ^ n" if "uv = 0"
    using f that ival_bound [of n a] by (cases "sint v < 0") auto
  have "3 ^ n < 2 * \<bar>sint v\<bar>" if "uv \<noteq> 0"
  proof -
    have "3 ^ n < 2 * nat \<bar>sint v\<bar>" using f that by simp
    then have "int (3 ^ n) < int (2 * nat \<bar>sint v\<bar>)" by (simp only: of_nat_less_iff)
    then show ?thesis by simp
  qed
  with fits False l f show ?thesis
    by (cases "uv = 0") (auto simp: from_int64_def)
qed

section \<open>Arithmetic\<close>

definition tint_neg :: "nat \<Rightarrow> tint \<Rightarrow> tint" where
  "tint_neg n a = foldl (\<lambda>out i. set_trit out i (case get_trit a i of TP \<Rightarrow> TN | TN \<Rightarrow> TP | TZ \<Rightarrow> TZ)) (clear n) [0 ..< n]"

fun add_loop :: "tint \<Rightarrow> tint \<Rightarrow> nat list \<Rightarrow> tint \<Rightarrow> int \<Rightarrow> tint \<times> int" where
  "add_loop a b [] r carry = (r, carry)"
| "add_loop a b (i # is) r carry =
     (let sum = trit_to_int (get_trit a i) + trit_to_int (get_trit b i) + carry;
          digit = (if 1 < sum then sum - 3 else if sum < - 1 then sum + 3 else sum);
          carry = (if 1 < sum then 1 else if sum < - 1 then - 1 else 0)
      in add_loop a b is (set_trit r i (int_to_trit digit)) carry)"

definition tint_add :: "nat \<Rightarrow> tint \<Rightarrow> tint \<Rightarrow> int_error + tint" where
  "tint_add n a b =
     (let (r, carry) = add_loop a b [0 ..< n] (clear n) 0
      in if carry \<noteq> 0 then Inl (Overflow ''T81Int overflow'') else Inr r)"

definition tint_sub :: "nat \<Rightarrow> tint \<Rightarrow> tint \<Rightarrow> int_error + tint" where
  "tint_sub n a b = tint_add n a (tint_neg n b)"

text \<open>The shifts work in place; the left one drops the top trits.\<close>

definition shift_left :: "nat \<Rightarrow> nat \<Rightarrow> tint \<Rightarrow> tint" where
  "shift_left n k a =
     (if n \<le> k then clear n
      else foldl (\<lambda>d i. set_trit d i TZ)
             (foldl (\<lambda>d i. set_trit d i (get_trit d (i - k))) a (rev [k ..< n])) [0 ..< k])"

definition shift_right :: "nat \<Rightarrow> nat \<Rightarrow> tint \<Rightarrow> tint" where
  "shift_right n k a =
     (if n \<le> k then clear n
      else foldl (\<lambda>d i. set_trit d i TZ)
             (foldl (\<lambda>d i. set_trit d i (get_trit d (i + k))) a [0 ..< n - k]) [n - k ..< n])"

text \<open>\<open>operator<=>\<close>, from the top trit down: negative, zero or positive.\<close>

fun compare_loop :: "tint \<Rightarrow> tint \<Rightarrow> nat list \<Rightarrow> int" where
  "compare_loop a b [] = 0"
| "compare_loop a b (i # is) =
     (let s = trit_to_int (get_trit a i); t = trit_to_int (get_trit b i)
      in if s < t then - 1 else if t < s then 1 else compare_loop a b is)"

definition tint_compare :: "nat \<Rightarrow> tint \<Rightarrow> tint \<Rightarrow> int" where
  "tint_compare n a b = compare_loop a b (rev [0 ..< n])"

fun mul_loop :: "nat \<Rightarrow> tint \<Rightarrow> tint \<Rightarrow> nat list \<Rightarrow> tint \<Rightarrow> int_error + tint" where
  "mul_loop n a b [] r = Inr r"
| "mul_loop n a b (i # is) r =
     (case get_trit b i of
        TZ \<Rightarrow> mul_loop n a b is r
      | TP \<Rightarrow> err_bind (tint_add n r (shift_left n i a)) (mul_loop n a b is)
      | TN \<Rightarrow> err_bind (tint_sub n r (shift_left n i a)) (mul_loop n a b is))"

definition tint_mul :: "nat \<Rightarrow> tint \<Rightarrow> tint \<Rightarrow> int_error + tint" where
  "tint_mul n a b = mul_loop n a b [0 ..< n] (clear n)"

subsection \<open>Folds of writes\<close>

lemma fold_set_trit:
  assumes "tint_ok n r" "set is \<subseteq> {..<n}"
  shows "tint_ok n (foldl (\<lambda>r i. set_trit r i (f i)) r is) \<and>
    (\<forall>j. get_trit (foldl (\<lambda>r i. set_trit r i (f i)) r is) j = (if j \<in> set is then f j else get_trit r j))"
  using assms
proof (induction "is" arbitrary: r)
  case (Cons i "is")
  then have "tint_ok n (set_trit r i (f i))" "i div 4 < length r"
    by (simp_all add: tint_ok_set tint_ok_index)
  with Cons.IH [of "set_trit r i (f i)"] Cons.prems show ?case by auto
qed simp

lemma fold_shift_left:
  assumes "tint_ok n a" "m \<le> n"
  shows "tint_ok n (foldl (\<lambda>d i. set_trit d i (get_trit d (i - k))) a (rev [k ..< m])) \<and>
    (\<forall>j. get_trit (foldl (\<lambda>d i. set_trit d i (get_trit d (i - k))) a (rev [k ..< m])) j =
       (if k \<le> j \<and> j < m then get_trit a (j - k) else get_trit a j))"
  using assms
proof (induction m arbitrary: a)
  case (Suc m)
  show ?case
  proof (cases "k \<le> m")
    case True
    let ?b = "set_trit a m (get_trit a (m - k))"
    have b: "tint_ok n ?b" "m div 4 < length a" using Suc.prems by (simp_all add: tint_ok_set tint_ok_index)
    have "rev [k ..< Suc m] = m # rev [k ..< m]" using True by simp
    with Suc.IH [OF b(1)] Suc.prems b(2) True show ?thesis by (auto simp: less_Suc_eq)
  qed (use Suc.prems in auto)
qed simp

lemma fold_shift_right:
  assumes "tint_ok n a" "m + k \<le> n"
  shows "tint_ok n (foldl (\<lambda>d i. set_trit d i (get_trit d (i + k))) a [0 ..< m]) \<and>
    (\<forall>j. get_trit (foldl (\<lambda>d i. set_trit d i (get_trit d (i + k))) a [0 ..< m]) j =
       (if j < m then get_trit a (j + k) else get_trit a j))"
  using assms
proof (induction m)
  case (Suc m)
  then have IH: "tint_ok n (foldl (\<lambda>d i. set_trit d i (get_trit d (i + k))) a [0 ..< m])"
    "get_trit (foldl (\<lambda>d i. set_trit d i (get_trit d (i + k))) a [0 ..< m]) j =
       (if j < m then get_trit a (j + k) else get_trit a j)" for j
    by simp_all
  then have "m div 4 < length (foldl (\<lambda>d i. set_trit d i (get_trit d (i + k))) a [0 ..< m])"
    using Suc.prems by (intro tint_ok_index) auto
  with IH Suc.prems show ?case by (auto simp: tint_ok_set less_Suc_eq)
qed simp

lemma shift_left_facts:
  assumes "tint_ok n a"
  shows "tint_ok n (shift_left n k a)"
    "j < n \<Longrightarrow> get_trit (shift_left n k a) j = (if k \<le> j then get_trit a (j - k) else TZ)"
proof -
  let ?d = "foldl (\<lambda>d i. set_trit d i (get_trit d (i - k))) a (rev [k ..< n])"
  have d: "tint_ok n ?d" "get_trit ?d j = (if k \<le> j \<and> j < n then get_trit a (j - k) else get_trit a j)" for j
    using fold_shift_left [OF assms order_refl] by blast+
  have sub: "set [0 ..< k] \<subseteq> {..<n}" if "\<not> n \<le> k" using that by auto
  show "tint_ok n (shift_left n k a)"
    using sub fold_set_trit [OF d(1), of "[0 ..< k]" "\<lambda>_. TZ"] by (auto simp: shift_left_def tint_ok_clear)
  show "j < n \<Longrightarrow> get_trit (shift_left n k a) j = (if k \<le> j then get_trit a (j - k) else TZ)"
    using sub fold_set_trit [OF d(1), of "[0 ..< k]" "\<lambda>_. TZ"] d(2) by (auto simp: shift_left_def)
qed

lemma shift_right_facts:
  assumes "tint_ok n a"
  shows "tint_ok n (shift_right n k a)"
    "j < n \<Longrightarrow> get_trit (shift_right n k a) j = (if j + k < n then get_trit a (j + k) else TZ)"
proof -
  let ?d = "foldl (\<lambda>d i. set_trit d i (get_trit d (i + k))) a [0 ..< n - k]"
  have d: "tint_ok n ?d" "get_trit ?d j = (if j < n - k then get_trit a (j + k) else get_trit a j)" if "k < n" for j
    using fold_shift_right [OF assms, of "n - k" k] that by auto
  have sub: "set [n - k ..< n] \<subseteq> {..<n}" by auto
  show "tint_ok n (shift_right n k a)"
    using sub fold_set_trit [OF d(1), of "[n - k ..< n]" "\<lambda>_. TZ"] by (cases "k < n") (auto simp: shift_right_def tint_ok_clear)
  show "j < n \<Longrightarrow> get_trit (shift_right n k a) j = (if j + k < n then get_trit a (j + k) else TZ)"
    using sub fold_set_trit [OF d(1), of "[n - k ..< n]" "\<lambda>_. TZ"] d(2) by (cases "k < n") (auto simp: shift_right_def)
qed

subsection \<open>Addition and negation\<close>

lemma tint_neg_facts:
  shows "tint_ok n (tint_neg n a)" "ival n (tint_neg n a) = - ival n a"
proof -
  let ?f = "\<lambda>i. case get_trit a i of TP \<Rightarrow> TN | TN \<Rightarrow> TP | TZ \<Rightarrow> TZ"
  have sub: "set [0 ..< n] \<subseteq> {..<n}" by auto
  note f = fold_set_trit [OF tint_ok_clear sub, of ?f]
  show "tint_ok n (tint_neg n a)" using f by (simp add: tint_neg_def)
  have "get_trit (tint_neg n a) i = ?f i" if "i < n" for i using f that by (simp add: tint_neg_def)
  moreover have "trit_to_int (?f i) = - trit_to_int (get_trit a i)" for i by (cases "get_trit a i") simp_all
  ultimately have "digits n (tint_neg n a) = map uminus (digits n a)" by (simp add: list_eq_iff_nth_eq)
  moreover have "bal_val (map uminus ds) = - bal_val ds" for ds by (induction ds) simp_all
  ultimately show "ival n (tint_neg n a) = - ival n a" by (simp add: ival_def)
qed

lemma add_loop_facts:
  assumes "add_loop a b [i ..< n] r c = (r', c')" "tint_ok n r" "\<forall>j < n. i \<le> j \<longrightarrow> get_trit r j = TZ"
    "i \<le> n" "- 1 \<le> c" "c \<le> 1"
  shows "tint_ok n r' \<and> - 1 \<le> c' \<and> c' \<le> 1 \<and>
    ival n r' + 3 ^ n * c' = ival n r + 3 ^ i * (c + bal_val (drop i (digits n a)) + bal_val (drop i (digits n b)))"
  using assms
proof (induction "n - i" arbitrary: i r c)
  case 0
  then show ?case by simp
next
  case (Suc m)
  then have i: "i < n" by simp
  define sum where "sum = trit_to_int (get_trit a i) + trit_to_int (get_trit b i) + c"
  define digit where "digit = (if 1 < sum then sum - 3 else if sum < - 1 then sum + 3 else sum)"
  define c1 where "c1 = (if 1 < sum then 1 else if sum < - 1 then - 1 else (0 :: int))"
  have "- 3 \<le> sum \<and> sum \<le> 3"
    using trit_to_int_range [of "get_trit a i"] trit_to_int_range [of "get_trit b i"] Suc.prems(5,6) by (simp add: sum_def)
  then have dc: "sum = digit + 3 * c1" "- 1 \<le> digit" "digit \<le> 1" "- 1 \<le> c1" "c1 \<le> 1"
    by (auto simp: digit_def c1_def)
  have "[i ..< n] = i # [Suc i ..< n]" using i by (simp add: upt_rec)
  then have step: "add_loop a b [Suc i ..< n] (set_trit r i (int_to_trit digit)) c1 = (r', c')"
    using Suc.prems(1) by (simp only: add_loop.simps Let_def sum_def digit_def c1_def)
  have len: "i div 4 < length r" using i Suc.prems(2) tint_ok_index by blast
  have ok: "tint_ok n (set_trit r i (int_to_trit digit))" using i Suc.prems(2) by (rule tint_ok_set [rotated])
  have v: "ival n (set_trit r i (int_to_trit digit)) = ival n r + 3 ^ i * digit"
    using i Suc.prems(2,3) dc by (simp add: ival_set_trit)
  have drop: "drop i (digits n x) = trit_to_int (get_trit x i) # drop (Suc i) (digits n x)" for x
    using i by (simp add: Cons_nth_drop_Suc [symmetric])
  have "tint_ok n r' \<and> - 1 \<le> c' \<and> c' \<le> 1 \<and> ival n r' + 3 ^ n * c' = ival n (set_trit r i (int_to_trit digit)) +
      3 ^ Suc i * (c1 + bal_val (drop (Suc i) (digits n a)) + bal_val (drop (Suc i) (digits n b)))"
    using Suc.prems(3) Suc.hyps(2) len i by (intro Suc.hyps(1) [OF _ step ok] dc) auto
  moreover have "3 ^ i * digit + 3 ^ Suc i * c1 = 3 ^ i * sum" by (simp add: dc(1) algebra_simps)
  ultimately show ?case by (simp add: v drop sum_def algebra_simps)
qed

lemma overflow_iff:
  assumes "2 * \<bar>v\<bar> < (3 :: int) ^ n" "- 1 \<le> c" "c \<le> 1"
  shows "2 * \<bar>v + 3 ^ n * c\<bar> < 3 ^ n \<longleftrightarrow> c = 0"
proof -
  consider "c = 0" | "c = 1" | "c = - 1" using assms(2,3) by linarith
  then show ?thesis using assms(1) by cases auto
qed

lemma tint_add_facts:
  assumes "tint_ok n a" "tint_ok n b"
  shows "if 2 * \<bar>ival n a + ival n b\<bar> < 3 ^ n
    then \<exists>r. tint_add n a b = Inr r \<and> tint_ok n r \<and> ival n r = ival n a + ival n b
    else tint_add n a b = Inl (Overflow ''T81Int overflow'')"
proof -
  obtain r c where l: "add_loop a b [0 ..< n] (clear n) 0 = (r, c)" by fastforce
  have f: "tint_ok n r" "- 1 \<le> c" "c \<le> 1" "ival n r + 3 ^ n * c = ival n a + ival n b"
    using add_loop_facts [OF l tint_ok_clear] by (auto simp: ival_def [symmetric])
  have "2 * \<bar>ival n a + ival n b\<bar> < 3 ^ n \<longleftrightarrow> c = 0"
    using overflow_iff [OF ival_bound [of n r] f(2,3)] f(4) by simp
  with f l show ?thesis by (auto simp: tint_add_def)
qed

lemma tint_sub_facts:
  assumes "tint_ok n a" "tint_ok n b"
  shows "if 2 * \<bar>ival n a - ival n b\<bar> < 3 ^ n
    then \<exists>r. tint_sub n a b = Inr r \<and> tint_ok n r \<and> ival n r = ival n a - ival n b
    else tint_sub n a b = Inl (Overflow ''T81Int overflow'')"
  using tint_add_facts [OF assms(1) tint_neg_facts(1) [of n b]] unfolding tint_sub_def tint_neg_facts(2)
  by (auto split: if_splits)

text \<open>What an operation returns when the exact result fits the width.\<close>

lemma tint_addI:
  assumes "tint_ok n a" "tint_ok n b" "2 * \<bar>ival n a + ival n b\<bar> < 3 ^ n"
  obtains r where "tint_add n a b = Inr r" "tint_ok n r" "ival n r = ival n a + ival n b"
  using tint_add_facts [OF assms(1,2)] assms(3) by auto

lemma tint_subI:
  assumes "tint_ok n a" "tint_ok n b" "2 * \<bar>ival n a - ival n b\<bar> < 3 ^ n"
  obtains r where "tint_sub n a b = Inr r" "tint_ok n r" "ival n r = ival n a - ival n b"
  using tint_sub_facts [OF assms(1,2)] assms(3) by auto

subsection \<open>Shifts, sign and order\<close>

lemma ival_Suc: "ival (Suc k) a = ival k a + 3 ^ k * trit_to_int (get_trit a k)"
  by (simp add: ival_def digits_def bal_val_append)

lemma ival_0 [simp]: "ival 0 a = 0"
  by (simp add: ival_def digits_def)

lemma take_digits: "k \<le> n \<Longrightarrow> take k (digits n a) = digits k a"
  by (simp add: digits_def take_map)

lemma ival_split: "k \<le> n \<Longrightarrow> ival n a = ival k a + 3 ^ k * bal_val (drop k (digits n a))"
proof -
  assume "k \<le> n"
  moreover have "bal_val (take k (digits n a) @ drop k (digits n a)) =
      bal_val (take k (digits n a)) + 3 ^ length (take k (digits n a)) * bal_val (drop k (digits n a))"
    by (rule bal_val_append)
  then have "bal_val (digits n a) = bal_val (take k (digits n a)) + 3 ^ length (take k (digits n a)) * bal_val (drop k (digits n a))"
    by (simp only: append_take_drop_id)
  ultimately show ?thesis by (simp add: ival_def take_digits)
qed

lemma shift_left_value:
  assumes "tint_ok n a" "k \<le> n"
  shows "ival n (shift_left n k a) = 3 ^ k * ival (n - k) a"
proof -
  have "digits n (shift_left n k a) = replicate k 0 @ digits (n - k) a"
    using assms(2) by (simp add: list_eq_iff_nth_eq nth_append shift_left_facts(2) [OF assms(1)])
  then show ?thesis by (simp add: ival_def bal_val_append)
qed

lemma shift_right_value:
  assumes "tint_ok n a" "k \<le> n"
  shows "ival n a = ival k a + 3 ^ k * ival n (shift_right n k a)"
proof -
  have "digits n (shift_right n k a) = drop k (digits n a) @ replicate k 0"
    using assms(2) by (auto simp: list_eq_iff_nth_eq nth_append shift_right_facts(2) [OF assms(1)] add.commute)
  then have "ival n (shift_right n k a) = bal_val (drop k (digits n a))" by (simp add: ival_def bal_val_append)
  with ival_split [OF assms(2)] show ?thesis by simp
qed

text \<open>A value that fits in \<open>m\<close> trits has only zeros above.\<close>

lemma ival_narrow:
  assumes "m \<le> n" "2 * \<bar>ival n a\<bar> < 3 ^ m"
  shows "ival m a = ival n a"
proof -
  let ?h = "bal_val (drop m (digits n a))"
  have e: "ival n a = ival m a + 3 ^ m * ?h" by (rule ival_split [OF assms(1)])
  have "?h = 0"
  proof (rule ccontr)
    assume "?h \<noteq> 0"
    then have "1 \<le> \<bar>?h\<bar>" by linarith
    then have "3 ^ m * 1 \<le> 3 ^ m * \<bar>?h\<bar>" by (intro mult_left_mono) simp_all
    also have "\<dots> = \<bar>3 ^ m * ?h\<bar>" by (simp add: abs_mult)
    finally show False using e assms(2) ival_bound [of m a] by linarith
  qed
  with e show ?thesis by simp
qed

lemma shift_left_exact:
  assumes "tint_ok n a" "2 * \<bar>3 ^ k * ival n a\<bar> < 3 ^ n"
  shows "ival n (shift_left n k a) = 3 ^ k * ival n a"
proof (cases "k \<le> n")
  case True
  have "3 ^ k * (2 * \<bar>ival n a\<bar>) < 3 ^ k * (3 :: int) ^ (n - k)"
    using assms(2) True by (simp add: power_add [symmetric] abs_mult)
  then have "2 * \<bar>ival n a\<bar> < 3 ^ (n - k)" by simp
  then have "ival (n - k) a = ival n a" by (intro ival_narrow) simp_all
  with shift_left_value [OF assms(1) True] show ?thesis by simp
next
  case False
  then have "(3 :: int) ^ n \<le> 3 ^ k" by (intro power_increasing) simp_all
  have "ival n a = 0"
  proof (rule ccontr)
    assume "ival n a \<noteq> 0"
    then have "1 \<le> \<bar>ival n a\<bar>" by linarith
    then have "3 ^ k * 1 \<le> 3 ^ k * \<bar>ival n a\<bar>" by (intro mult_left_mono) simp_all
    moreover have "2 * (3 ^ k * \<bar>ival n a\<bar>) < 3 ^ n" using assms(2) by (simp add: abs_mult)
    moreover have "(0 :: int) < 3 ^ k" by simp
    ultimately show False using \<open>3 ^ n \<le> 3 ^ k\<close> by linarith
  qed
  with False show ?thesis by (simp add: shift_left_def)
qed

lemma sgn_top:
  fixes x y :: int
  assumes "2 * \<bar>x\<bar> < p" "2 * \<bar>y\<bar> < p" "s < t"
  shows "x + p * s < y + p * t"
proof -
  have "p * s + p \<le> p * t" using mult_left_mono [of "s + 1" t p] assms by (simp add: algebra_simps)
  with assms(1,2) show ?thesis by linarith
qed

lemma tint_compare_value: "tint_compare n a b = sgn (ival n a - ival n b)"
proof (induction n)
  case (Suc n)
  let ?s = "trit_to_int (get_trit a n)" and ?t = "trit_to_int (get_trit b n)"
  note top = sgn_top [OF ival_bound [of n a] ival_bound [of n b], of ?s ?t]
    sgn_top [OF ival_bound [of n b] ival_bound [of n a], of ?t ?s]
  have "tint_compare (Suc n) a b = (if ?s < ?t then - 1 else if ?t < ?s then 1 else tint_compare n a b)"
    by (simp add: tint_compare_def)
  with Suc top show ?case by (auto simp: ival_Suc)
qed (simp add: tint_compare_def)

lemma sign_trit_value: "trit_to_int (sign_trit n a) = sgn (ival n a)"
proof (induction n)
  case (Suc n)
  let ?s = "trit_to_int (get_trit a n)"
  note top = sgn_top [OF ival_bound [of n a], of 0 ?s 0] sgn_top [OF _ ival_bound [of n a], of 0 0 ?s]
  show ?case
  proof (cases "get_trit a n = TZ")
    case True
    with Suc show ?thesis by (simp add: sign_trit_def ival_Suc)
  next
    case False
    then have "sign_trit (Suc n) a = get_trit a n" by (simp add: sign_trit_def)
    with False top show ?thesis by (cases "get_trit a n") (simp_all add: ival_Suc)
  qed
qed (simp add: sign_trit_def)

lemma significant_facts:
  "significant_trits n a \<le> n \<and> 2 * \<bar>ival n a\<bar> < 3 ^ significant_trits n a \<and>
   (\<forall>i < n. significant_trits n a \<le> i \<longrightarrow> get_trit a i = TZ)"
proof (induction n)
  case (Suc n)
  show ?case
  proof (cases "get_trit a n = TZ")
    case True
    then have "significant_trits (Suc n) a = significant_trits n a" by (simp add: significant_trits_def)
    with Suc True show ?thesis by (auto simp: ival_Suc less_Suc_eq)
  next
    case False
    then have "significant_trits (Suc n) a = Suc n" by (simp add: significant_trits_def)
    then show ?thesis using ival_bound [of "Suc n" a] by simp
  qed
qed (simp add: significant_trits_def)

subsection \<open>Multiplication\<close>

text \<open>The product is exact when the significant trits of the factors add up to no more than the width:
  then no shift drops a trit and no partial sum overflows.\<close>

lemma mul_partial:
  assumes "significant_trits n a + significant_trits n b \<le> n" "j \<le> n"
  shows "2 * \<bar>ival n a * ival j b\<bar> < 3 ^ n"
proof -
  let ?la = "significant_trits n a" and ?lb = "significant_trits n b"
  have "2 * \<bar>ival j b\<bar> < 3 ^ ?lb"
  proof (cases "j \<le> ?lb")
    case True
    have "2 * \<bar>ival j b\<bar> < 3 ^ j" by (rule ival_bound)
    also have "(3 :: int) ^ j \<le> 3 ^ ?lb" using True by (intro power_increasing) simp_all
    finally show ?thesis .
  next
    case False
    have "bal_val (drop j (digits n b)) = 0"
    proof -
      have "drop j (digits n b) = replicate (n - j) 0"
        using significant_facts [of n b] False assms(2) by (auto simp: list_eq_iff_nth_eq)
      then show ?thesis by simp
    qed
    with ival_split [OF assms(2)] have "ival j b = ival n b" by simp
    with significant_facts [of n b] show ?thesis by simp
  qed
  moreover have "2 * \<bar>ival n a\<bar> < 3 ^ ?la" using significant_facts by blast
  ultimately have "(2 * \<bar>ival n a\<bar>) * (2 * \<bar>ival j b\<bar>) < 3 ^ ?la * 3 ^ ?lb"
    by (intro mult_strict_mono) simp_all
  also have "3 ^ ?la * 3 ^ ?lb \<le> (3 :: int) ^ n" using assms(1) by (simp add: power_add [symmetric] power_increasing)
  finally have "4 * (\<bar>ival n a\<bar> * \<bar>ival j b\<bar>) < 3 ^ n" by simp
  moreover have "0 \<le> \<bar>ival n a\<bar> * \<bar>ival j b\<bar>" by simp
  ultimately have "2 * (\<bar>ival n a\<bar> * \<bar>ival j b\<bar>) < 3 ^ n" by linarith
  then show ?thesis by (simp add: abs_mult)
qed

lemma mul_shift:
  assumes "tint_ok n a" "significant_trits n a + significant_trits n b \<le> n" "j < n" "get_trit b j \<noteq> TZ"
  shows "ival n (shift_left n j a) = 3 ^ j * ival n a"
proof (rule shift_left_exact [OF assms(1)])
  have "j < significant_trits n b" using significant_facts [of n b] assms(3,4) not_less by blast
  then have "j + significant_trits n a \<le> n" using assms(2) by simp
  then have "(3 :: int) ^ j * 3 ^ significant_trits n a \<le> 3 ^ n" by (simp add: power_add [symmetric] power_increasing)
  moreover have "3 ^ j * (2 * \<bar>ival n a\<bar>) < 3 ^ j * 3 ^ significant_trits n a"
    using significant_facts [of n a] by (intro mult_strict_left_mono) simp_all
  ultimately have "3 ^ j * (2 * \<bar>ival n a\<bar>) < 3 ^ n" by linarith
  then show "2 * \<bar>3 ^ j * ival n a\<bar> < 3 ^ n" by (simp add: abs_mult)
qed

lemma mul_loop_facts:
  assumes "tint_ok n a" "significant_trits n a + significant_trits n b \<le> n"
    "tint_ok n r" "ival n r = ival n a * ival j b" "j \<le> n"
  shows "\<exists>r'. mul_loop n a b [j ..< n] r = Inr r' \<and> tint_ok n r' \<and> ival n r' = ival n a * ival n b"
  using assms(3-5)
proof (induction "n - j" arbitrary: j r)
  case (Suc m)
  then have j: "j < n" by simp
  have bound: "2 * \<bar>ival n a * ival (Suc j) b\<bar> < 3 ^ n" by (rule mul_partial [OF assms(2)]) (use j in simp)
  show ?case
  proof (cases "get_trit b j")
    case TZ
    with Suc j show ?thesis by (simp add: upt_rec [of j] ival_Suc)
  next
    case TP
    have s: "ival n (shift_left n j a) = 3 ^ j * ival n a" using mul_shift [OF assms(1,2) j] TP by simp
    have v: "ival n r + ival n (shift_left n j a) = ival n a * ival (Suc j) b"
      by (simp add: Suc.prems(2) s ival_Suc TP algebra_simps)
    obtain r1 where "tint_add n r (shift_left n j a) = Inr r1" "tint_ok n r1" "ival n r1 = ival n a * ival (Suc j) b"
      by (rule tint_addI [OF Suc.prems(1) shift_left_facts(1) [OF assms(1)], of j]) (use v bound in auto)
    with Suc j TP show ?thesis by (simp add: upt_rec [of j])
  next
    case TN
    have s: "ival n (shift_left n j a) = 3 ^ j * ival n a" using mul_shift [OF assms(1,2) j] TN by simp
    have v: "ival n r - ival n (shift_left n j a) = ival n a * ival (Suc j) b"
      by (simp add: Suc.prems(2) s ival_Suc TN algebra_simps)
    obtain r1 where "tint_sub n r (shift_left n j a) = Inr r1" "tint_ok n r1" "ival n r1 = ival n a * ival (Suc j) b"
      by (rule tint_subI [OF Suc.prems(1) shift_left_facts(1) [OF assms(1)], of j]) (use v bound in auto)
    with Suc j TN show ?thesis by (simp add: upt_rec [of j])
  qed
qed simp

lemma tint_mul_facts:
  assumes "tint_ok n a" "significant_trits n a + significant_trits n b \<le> n"
  shows "\<exists>r. tint_mul n a b = Inr r \<and> tint_ok n r \<and> ival n r = ival n a * ival n b"
  unfolding tint_mul_def by (rule mul_loop_facts [OF assms tint_ok_clear]) simp_all

end
