(* ===== verification/T81_Int_Div.thy ===== *)
theory T81_Int_Div
  imports T81_Int
begin

text \<open>
  Division, greatest common divisor, power and the conversion to 64 bits of the balanced ternary
  integers (\<open>types/T81Int.hpp\<close>).  A loop that would not end is \<open>None\<close>; an exception is \<open>Inl\<close>.
\<close>

section \<open>Conversion to 64 bits\<close>

text \<open>Trits 0 to 39 are added up in 64 bits without overflow; the power is not tripled after the last.\<close>

definition accum_loop :: "tint \<Rightarrow> nat \<Rightarrow> int \<times> int" where
  "accum_loop a limit = foldl (\<lambda>(value, pow3) i. (value + trit_to_int (get_trit a i) * pow3,
     if i + 1 < limit then pow3 * 3 else pow3)) (0, 1) [0 ..< limit]"

definition kPow40 :: int where "kPow40 = 12157665459056928801"

definition to_int64 :: "nat \<Rightarrow> tint \<Rightarrow> int_error + i64" where
  "to_int64 n a =
     (if 41 < n \<and> list_ex (\<lambda>i. get_trit a i \<noteq> TZ) [41 ..< n]
      then Inl (Overflow ''T81Int::to_int64(): value out of range (trits > 40)'')
      else let value = fst (accum_loop a (min n 40))
           in if 40 < n \<and> get_trit a 40 = TP
              then if value > - (kPow40 - (2 ^ 63 - 1)) then Inl (Overflow ''T81Int::to_int64(): overflow (positive)'')
                   else Inr (word_of_int value + word_of_int kPow40)
              else if 40 < n \<and> get_trit a 40 = TN
              then if value < kPow40 - 2 ^ 63 then Inl (Overflow ''T81Int::to_int64(): overflow (negative)'')
                   else Inr (word_of_int value - word_of_int kPow40)
              else Inr (word_of_int value))"

lemma accum_loop_value: "fst (accum_loop a limit) = ival limit a"
proof -
  have "foldl (\<lambda>(value, pow3) i. (value + trit_to_int (get_trit a i) * pow3,
      if i + 1 < limit then pow3 * 3 else pow3)) (0, 1) [0 ..< k] = (ival k a, if k < limit then 3 ^ k else 3 ^ (limit - 1))"
    if "k \<le> limit" "0 < limit" for k
    using that
  proof (induction k)
    case (Suc k)
    then have "k = limit - 1" if "\<not> Suc k < limit" using that by simp
    with Suc show ?case by (auto simp: ival_Suc mult.commute)
  qed simp
  from this [of limit] show ?thesis by (cases "limit = 0") (auto simp: accum_loop_def)
qed

lemma ival_high:
  assumes "j < n" "get_trit a j \<noteq> TZ"
  shows "3 ^ j < 2 * \<bar>ival n a\<bar>"
proof (rule ccontr)
  assume "\<not> 3 ^ j < 2 * \<bar>ival n a\<bar>"
  moreover have "2 * \<bar>ival n a\<bar> \<noteq> 3 ^ j" 
    by (metis even_mult_iff even_numeral even_power odd_numeral)
  ultimately have small: "2 * \<bar>ival n a\<bar> < 3 ^ j" by linarith
  then have "2 * \<bar>ival n a\<bar> < 3 ^ Suc j" by simp
  with small assms(1) have "ival j a = ival n a" "ival (Suc j) a = ival n a"
    by (intro ival_narrow; simp)+
  then have "trit_to_int (get_trit a j) = 0" by (simp add: ival_Suc)
  with assms(2) show False by (cases "get_trit a j") simp_all
qed

text \<open>The conversion succeeds exactly when the value is in the range of 64 bits, and is then exact.\<close>

lemma to_int64_facts:
  "if in_i64 (ival n a) then to_int64 n a = Inr (word_of_int (ival n a)) else \<exists>msg. to_int64 n a = Inl (Overflow msg)"
proof (cases "41 < n \<and> list_ex (\<lambda>i. get_trit a i \<noteq> TZ) [41 ..< n]")
  case True
  then obtain j where j: "41 \<le> j" "j < n" "get_trit a j \<noteq> TZ" by (auto simp: list_ex_iff)
  have "(3 :: int) ^ 41 \<le> 3 ^ j" using j(1) by (intro power_increasing) simp_all
  with ival_high [OF j(2,3)] have "\<not> in_i64 (ival n a)" by (auto simp: in_i64_def)
  with True show ?thesis by (simp add: to_int64_def)
next
  case False
  have v: "ival n a = ival (min n 40) a + (if 40 < n then 3 ^ 40 * trit_to_int (get_trit a 40) else 0)"
  proof (cases "40 < n")
    case True
    have "bal_val (drop 41 (digits n a)) = 0"
    proof -
      have "drop 41 (digits n a) = replicate (n - 41) 0"
        using False by (auto simp: list_eq_iff_nth_eq list_ex_iff)
      then show ?thesis by simp
    qed
    with ival_split [of 41 n a] True have "ival n a = ival (Suc 40) a" by simp
    with True ival_Suc [of 40 a] show ?thesis by simp
  qed simp
  have b: "2 * \<bar>ival (min n 40) a\<bar> < 12157665459056928801"
  proof -
    have "2 * \<bar>ival (min n 40) a\<bar> < 3 ^ min n 40" by (rule ival_bound)
    also have "\<dots> \<le> (3 :: int) ^ 40" by (intro power_increasing) simp_all
    finally show ?thesis by simp
  qed
  have t: "to_int64 n a = (let value = ival (min n 40) a
           in if 40 < n \<and> get_trit a 40 = TP
              then if value > - (kPow40 - (2 ^ 63 - 1)) then Inl (Overflow ''T81Int::to_int64(): overflow (positive)'')
                   else Inr (word_of_int value + word_of_int kPow40)
              else if 40 < n \<and> get_trit a 40 = TN
              then if value < kPow40 - 2 ^ 63 then Inl (Overflow ''T81Int::to_int64(): overflow (negative)'')
                   else Inr (word_of_int value - word_of_int kPow40)
              else Inr (word_of_int value))"
    using False unfolding to_int64_def accum_loop_value by (simp only: if_False)
  show ?thesis
  proof (cases "40 < n")
    case True
    with v b t show ?thesis
      by (cases "get_trit a 40") (auto simp: Let_def in_i64_def kPow40_def wi_hom_add wi_hom_sub)
  next
    case False
    from b have "in_i64 (ival (min n 40) a)" unfolding in_i64_def by (simp; linarith)
    with False v t show ?thesis by (simp add: Let_def)
  qed
qed

section \<open>Division\<close>

text \<open>The two inner loops of \<open>div_mod\<close>.\<close>

partial_function (option) reduce_down ::
    "nat \<Rightarrow> tint \<Rightarrow> tint \<Rightarrow> tint \<Rightarrow> tint \<Rightarrow> (int_error + tint \<times> tint) option" where
  "reduce_down n v one q r =
     (if 0 \<le> tint_compare n r v then
        case tint_sub n r v of
          Inl e \<Rightarrow> Some (Inl e)
        | Inr r' \<Rightarrow> (case tint_add n q one of Inl e \<Rightarrow> Some (Inl e) | Inr q' \<Rightarrow> reduce_down n v one q' r')
      else Some (Inr (q, r)))"

partial_function (option) reduce_up ::
    "nat \<Rightarrow> tint \<Rightarrow> tint \<Rightarrow> tint \<Rightarrow> tint \<Rightarrow> (int_error + tint \<times> tint) option" where
  "reduce_up n v one q r =
     (if sign_trit n r = TN then
        case tint_add n r v of
          Inl e \<Rightarrow> Some (Inl e)
        | Inr r' \<Rightarrow> (case tint_sub n q one of Inl e \<Rightarrow> Some (Inl e) | Inr q' \<Rightarrow> reduce_up n v one q' r')
      else Some (Inr (q, r)))"

definition then_do :: "('e + 'a) option \<Rightarrow> ('a \<Rightarrow> ('e + 'b) option) \<Rightarrow> ('e + 'b) option" where
  "then_do m f = (case m of None \<Rightarrow> None | Some (Inl e) \<Rightarrow> Some (Inl e) | Some (Inr x) \<Rightarrow> f x)"

lemma then_do_simps [simp]: "then_do (Some (Inr x)) f = f x" "then_do (Some (Inl e)) f = Some (Inl e)"
  by (simp_all add: then_do_def)

definition add_trit :: "nat \<Rightarrow> tint \<Rightarrow> tint \<Rightarrow> trit \<Rightarrow> int_error + tint" where
  "add_trit n one r t = (case t of TP \<Rightarrow> tint_add n r one | TN \<Rightarrow> tint_sub n r one | TZ \<Rightarrow> Inr r)"

fun divmod_loop :: "nat \<Rightarrow> tint \<Rightarrow> tint \<Rightarrow> tint \<Rightarrow> nat list \<Rightarrow> tint \<Rightarrow> tint \<Rightarrow> (int_error + tint \<times> tint) option" where
  "divmod_loop n u v one [] q r = Some (Inr (q, r))"
| "divmod_loop n u v one (i # is) q r =
     then_do (Some (add_trit n one (shift_left n 1 r) (get_trit u i))) (\<lambda>r.
     then_do (reduce_down n v one (shift_left n 1 q) r) (\<lambda>(q, r).
     then_do (reduce_up n v one q r) (\<lambda>(q, r). divmod_loop n u v one is q r)))"

definition div_mod :: "nat \<Rightarrow> tint \<Rightarrow> tint \<Rightarrow> (int_error + tint \<times> tint) option" where
  "div_mod n a b =
     (if is_zero n b then Some (Inl (DomainError ''div_mod by zero''))
      else let a_neg = (sign_trit n a = TN); b_neg = (sign_trit n b = TN);
               u = (if a_neg then tint_neg n a else a); v = (if b_neg then tint_neg n b else b)
           in then_do (Some (from_int64 n 1)) (\<lambda>one.
              then_do (divmod_loop n u v one (rev [0 ..< n]) (clear n) (clear n)) (\<lambda>(q, r).
                Some (Inr (if a_neg \<noteq> b_neg then tint_neg n q else q, if a_neg then tint_neg n r else r)))))"

lemma abs2I: "2 * x < p \<Longrightarrow> - (2 * x) < p \<Longrightarrow> 2 * \<bar>x\<bar> < (p :: int)"
  by simp

lemma ival_less: "2 * ival n a < 3 ^ n" "- (2 * ival n a) < 3 ^ n"
  using ival_bound [of n a] by simp_all

lemma reduce_down_facts:
  assumes "tint_ok n v" "tint_ok n one" "ival n one = 1" "0 < ival n v"
  shows "tint_ok n q \<Longrightarrow> tint_ok n r \<Longrightarrow> 0 \<le> ival n q \<Longrightarrow> - 1 \<le> ival n r \<Longrightarrow>
    2 * (ival n q * ival n v + ival n r) < 3 ^ n \<Longrightarrow>
    \<exists>q' r'. reduce_down n v one q r = Some (Inr (q', r')) \<and> tint_ok n q' \<and> tint_ok n r' \<and>
      ival n q' * ival n v + ival n r' = ival n q * ival n v + ival n r \<and>
      0 \<le> ival n q' \<and> - 1 \<le> ival n r' \<and> ival n r' < ival n v"
proof (induction "nat (ival n r)" arbitrary: q r rule: less_induct)
  case less
  note ok = less.prems(1,2) and q0 = less.prems(3) and r0 = less.prems(4) and fits = less.prems(5)
  show ?case
  proof (cases "ival n v \<le> ival n r")
    case False
    then have "tint_compare n r v < 0" by (simp add: tint_compare_value)
    with less.prems False show ?thesis by (simp add: reduce_down.simps [of n v one q r])
  next
    case True
    then have c: "0 \<le> tint_compare n r v" by (simp add: tint_compare_value sgn_if)
    have r: "0 < ival n r" using True assms(4) by simp
    have "2 * \<bar>ival n r - ival n v\<bar> < 3 ^ n" using True assms(4) ival_less [of n r] by (intro abs2I; unfold right_diff_distrib distrib_left; linarith)
    then obtain r' where r': "tint_sub n r v = Inr r'" "tint_ok n r'" "ival n r' = ival n r - ival n v"
      using tint_subI [OF ok(2) assms(1)] by blast
    have "ival n q + 1 \<le> ival n q * ival n v + ival n r"
      using mult_left_mono [of 1 "ival n v" "ival n q"] q0 assms(4) True by linarith
    then have "2 * \<bar>ival n q + ival n one\<bar> < 3 ^ n" using q0 fits assms(3) by (intro abs2I; unfold right_diff_distrib distrib_left; linarith)
    then obtain q' where q': "tint_add n q one = Inr q'" "tint_ok n q'" "ival n q' = ival n q + 1"
      using tint_addI [OF ok(1) assms(2)] assms(3) by metis
    have eq: "ival n q' * ival n v + ival n r' = ival n q * ival n v + ival n r"
      by (simp add: q'(3) r'(3) algebra_simps)
    have "nat (ival n r') < nat (ival n r)" using r r'(3) assms(4) by simp
    moreover have "0 \<le> ival n q'" "- 1 \<le> ival n r'" using q'(3) r'(3) q0 True by simp_all
    ultimately have "\<exists>q'' r''. reduce_down n v one q' r' = Some (Inr (q'', r'')) \<and> tint_ok n q'' \<and> tint_ok n r'' \<and>
      ival n q'' * ival n v + ival n r'' = ival n q * ival n v + ival n r \<and>
      0 \<le> ival n q'' \<and> - 1 \<le> ival n r'' \<and> ival n r'' < ival n v"
      using less.hyps [of r' q'] q'(2) r'(2) fits unfolding eq by blast
    then show ?thesis by (simp add: reduce_down.simps [of n v one q r] c r'(1) q'(1))
  qed
qed

lemma reduce_up_facts:
  assumes "tint_ok n v" "tint_ok n one" "ival n one = 1" "tint_ok n q" "tint_ok n r"
    "0 \<le> ival n q" "- 1 \<le> ival n r" "ival n r < ival n v" "0 \<le> ival n q * ival n v + ival n r"
  shows "\<exists>q' r'. reduce_up n v one q r = Some (Inr (q', r')) \<and> tint_ok n q' \<and> tint_ok n r' \<and>
      ival n q' * ival n v + ival n r' = ival n q * ival n v + ival n r \<and>
      0 \<le> ival n q' \<and> 0 \<le> ival n r' \<and> ival n r' < ival n v"
proof -
  have sign: "sign_trit n x = TN \<longleftrightarrow> ival n x < 0" for x
    using sign_trit_value [of n x] by (cases "sign_trit n x") (auto simp: sgn_if split: if_splits)
  show ?thesis
  proof (cases "0 \<le> ival n r")
    case True
    with assms show ?thesis by (simp add: reduce_up.simps [of n v one q r] sign)
  next
    case False
    then have r: "ival n r = - 1" using assms(7) by simp
    have "ival n q \<noteq> 0" using assms(9) r by auto
    then have q: "0 < ival n q" using assms(6) by simp
    have v: "0 \<le> ival n v" using assms(8) r by simp
    have v0: "ival n v \<noteq> 0" using assms(9) r by auto
    then have "2 * \<bar>ival n r + ival n v\<bar> < 3 ^ n" using r v v0 ival_less [of n v] by (intro abs2I; unfold right_diff_distrib distrib_left; linarith)
    then obtain r' where r': "tint_add n r v = Inr r'" "tint_ok n r'" "ival n r' = ival n r + ival n v"
      using tint_addI [OF assms(5,1)] by blast
    have "2 * \<bar>ival n q - ival n one\<bar> < 3 ^ n" using q ival_less [of n q] assms(3) by (intro abs2I; unfold right_diff_distrib distrib_left; linarith)
    then obtain q' where q': "tint_sub n q one = Inr q'" "tint_ok n q'" "ival n q' = ival n q - 1"
      using tint_subI [OF assms(4,2)] assms(3) by metis
    have "0 \<le> ival n r'" using r' r v0 v by simp
    moreover from this have "reduce_up n v one q' r' = Some (Inr (q', r'))"
      by (simp add: reduce_up.simps [of n v one q' r'] sign)
    moreover have "ival n q' * ival n v + ival n r' = ival n q * ival n v + ival n r"
      by (simp add: q'(3) r'(3) algebra_simps)
    ultimately show ?thesis using q q' r' r False
      by (simp add: reduce_up.simps [of n v one q r] sign)
  qed
qed

lemma add_trit_facts:
  assumes "tint_ok n one" "ival n one = 1" "tint_ok n r" "2 * \<bar>ival n r + trit_to_int t\<bar> < 3 ^ n"
  shows "\<exists>r'. add_trit n one r t = Inr r' \<and> tint_ok n r' \<and> ival n r' = ival n r + trit_to_int t"
proof (cases t)
  case TN
  with tint_subI [OF assms(3,1)] assms(2,4) show ?thesis by (auto simp: add_trit_def)
next
  case TZ
  with assms(3) show ?thesis by (simp add: add_trit_def)
next
  case TP
  with tint_addI [OF assms(3,1)] assms(2,4) show ?thesis by (auto simp: add_trit_def)
qed

text \<open>The long division keeps the value of the trits read so far as \<open>q v + r\<close>.\<close>

lemma divmod_loop_facts:
  assumes "tint_ok n v" "0 < ival n v" "tint_ok n one" "ival n one = 1" "0 \<le> ival n u"
  shows "k \<le> n \<Longrightarrow> tint_ok n q \<Longrightarrow> tint_ok n r \<Longrightarrow> 0 \<le> ival n q \<Longrightarrow> 0 \<le> ival n r \<Longrightarrow> ival n r < ival n v \<Longrightarrow>
    bal_val (drop k (digits n u)) = ival n q * ival n v + ival n r \<Longrightarrow>
    \<exists>q' r'. divmod_loop n u v one (rev [0 ..< k]) q r = Some (Inr (q', r')) \<and> tint_ok n q' \<and> tint_ok n r' \<and>
      ival n u = ival n q' * ival n v + ival n r' \<and> 0 \<le> ival n r' \<and> ival n r' < ival n v"
proof (induction k arbitrary: q r)
  case 0
  then show ?case by (simp add: ival_def)
next
  case (Suc k)
  let ?V = "ival n v" and ?t = "trit_to_int (get_trit u k)"
  define p where "p = bal_val (drop (Suc k) (digits n u))"
  define p' where "p' = bal_val (drop k (digits n u))"
  have k: "k < n" using Suc.prems(1) by simp
  then have p': "p' = ?t + 3 * p" by (simp add: p_def p'_def Cons_nth_drop_Suc [symmetric])
  have p: "p = ival n q * ?V + ival n r" using Suc.prems(7) by (simp add: p_def)
  have bound: "2 * \<bar>p\<bar> < 3 ^ (n - Suc k)" "2 * \<bar>p'\<bar> < 3 ^ (n - k)"
    using bal_val_bound [of "drop (Suc k) (digits n u)"] bal_val_bound [of "drop k (digits n u)"] digits_valid [of n u]
    by (auto simp: p_def p'_def list_all_iff dest: in_set_dropD)
  have pow: "3 * (3 :: int) ^ (n - Suc k) = 3 ^ (n - k)" "(3 :: int) ^ (n - k) \<le> 3 ^ n"
    using k by (auto simp: power_increasing simp flip: power_Suc) 
  have qp: "ival n q \<le> ival n q * ?V" using Suc.prems(4) assms(2) mult_left_mono [of 1 ?V "ival n q"] by simp
  have p0: "0 \<le> p" using p Suc.prems(4,5) qp by simp
  have fit3: "2 * (3 * p) < 3 ^ n" using bound(1) pow p0 by linarith
  have "2 * \<bar>3 * ival n r\<bar> < 3 ^ n" "2 * \<bar>3 * ival n q\<bar> < 3 ^ n"
    using p qp Suc.prems(4,5) fit3 by (intro abs2I; linarith)+
  then have r3: "ival n (shift_left n 1 r) = 3 * ival n r" "ival n (shift_left n 1 q) = 3 * ival n q"
    using shift_left_exact [OF Suc.prems(3), of 1] shift_left_exact [OF Suc.prems(2), of 1] by (simp_all add: mult.commute)
  have p'0: "0 \<le> p'"
  proof (rule ccontr)
    assume "\<not> 0 \<le> p'"
    then have "3 ^ k * p' \<le> 3 ^ k * - 1" by (intro mult_left_mono) simp_all
    moreover have "ival n u = ival k u + 3 ^ k * p'" unfolding p'_def by (rule ival_split) (use k in simp)
    ultimately show False using assms(5) ival_bound [of k u] by linarith
  qed
  have t: "- 1 \<le> ?t" "?t \<le> 1" by (rule trit_to_int_range)+
  have bound2: "2 * p' < 3 ^ (n - k)" using bound(2) by simp
  have "(3 :: int) ^ 1 \<le> 3 ^ n" using k by (intro power_increasing) simp_all
  then have n3: "(3 :: int) \<le> 3 ^ n" by simp
  have "2 * \<bar>3 * ival n r + ?t\<bar> < 3 ^ n"
    using n3 p' p p'0 qp Suc.prems(4,5) bound2 pow(2) t fit3 by (intro abs2I; unfold right_diff_distrib distrib_left; linarith)
  then obtain r1 where r1: "add_trit n one (shift_left n 1 r) (get_trit u k) = Inr r1" "tint_ok n r1" "ival n r1 = 3 * ival n r + ?t"
    using add_trit_facts [OF assms(3,4) shift_left_facts(1) [OF Suc.prems(3), of 1], of "get_trit u k"] r3 by auto
  have e1: "ival n (shift_left n 1 q) * ?V + ival n r1 = p'" unfolding r3 r1(3) p' p by (simp add: algebra_simps)
  have "0 \<le> ival n (shift_left n 1 q)" "- 1 \<le> ival n r1" "2 * p' < 3 ^ n"
    unfolding r3 r1(3) using t Suc.prems(4,5) bound2 pow(2) by linarith+
  then obtain q2 r2 where d: "reduce_down n v one (shift_left n 1 q) r1 = Some (Inr (q2, r2))" "tint_ok n q2" "tint_ok n r2"
    "ival n q2 * ?V + ival n r2 = p'" "0 \<le> ival n q2" "- 1 \<le> ival n r2" "ival n r2 < ?V"
    using reduce_down_facts [OF assms(1,3,4,2) shift_left_facts(1) [OF Suc.prems(2), of 1] r1(2)] unfolding e1 by blast
  obtain q3 r3 where u: "reduce_up n v one q2 r2 = Some (Inr (q3, r3))" "tint_ok n q3" "tint_ok n r3"
    "ival n q3 * ?V + ival n r3 = p'" "0 \<le> ival n q3" "0 \<le> ival n r3" "ival n r3 < ?V"
    using reduce_up_facts [OF assms(1,3,4) d(2,3,5,6,7)] d(4) p'0 by auto
  have "\<exists>q' r'. divmod_loop n u v one (rev [0 ..< k]) q3 r3 = Some (Inr (q', r')) \<and> tint_ok n q' \<and> tint_ok n r' \<and>
      ival n u = ival n q' * ?V + ival n r' \<and> 0 \<le> ival n r' \<and> ival n r' < ?V"
    by (rule Suc.IH) (use k u p'_def in simp_all)
  then show ?case by (simp add: r1(1) [unfolded One_nat_def] d(1) [unfolded One_nat_def] u(1))
qed

lemma one_facts: "0 < n \<Longrightarrow> \<exists>one. from_int64 n 1 = Inr one \<and> tint_ok n one \<and> ival n one = 1"
proof -
  assume "0 < n"
  then have "(3 :: int) ^ 1 \<le> 3 ^ n" by (intro power_increasing) simp_all
  then show ?thesis using from_int64_facts [of 1 n] by simp
qed

text \<open>The division truncates towards zero, and never overflows.\<close>

lemma div_mod_facts:
  assumes "tint_ok n a" "tint_ok n b" "0 < n"
  shows "if ival n b = 0 then div_mod n a b = Some (Inl (DomainError ''div_mod by zero''))
    else \<exists>q r. div_mod n a b = Some (Inr (q, r)) \<and> tint_ok n q \<and> tint_ok n r \<and>
      ival n q = trunc_div (ival n a) (ival n b) \<and> ival n r = trunc_mod (ival n a) (ival n b)"
proof (cases "ival n b = 0")
  case True
  then show ?thesis by (simp add: div_mod_def is_zero_iff)
next
  case False
  have sign: "sign_trit n x = TN \<longleftrightarrow> ival n x < 0" for x
    using sign_trit_value [of n x] by (cases "sign_trit n x") (auto simp: sgn_if split: if_splits)
  let ?abs = "\<lambda>x. if sign_trit n x = TN then tint_neg n x else x"
  have abs: "tint_ok n (?abs x) \<and> ival n (?abs x) = \<bar>ival n x\<bar>" if "tint_ok n x" for x
    using that by (simp add: sign tint_neg_facts)
  obtain one where one: "from_int64 n 1 = Inr one" "tint_ok n one" "ival n one = 1" using one_facts [OF assms(3)] by blast
  obtain q r where qr: "divmod_loop n (?abs a) (?abs b) one (rev [0 ..< n]) (clear n) (clear n) = Some (Inr (q, r))"
    "tint_ok n q" "tint_ok n r" "\<bar>ival n a\<bar> = ival n q * \<bar>ival n b\<bar> + ival n r" "0 \<le> ival n r" "ival n r < \<bar>ival n b\<bar>"
    using divmod_loop_facts [of n "?abs b" one "?abs a" n "clear n" "clear n"] abs [OF assms(1)] abs [OF assms(2)] one False
      tint_ok_clear [of n] by auto
  have v: "ival n q = \<bar>ival n a\<bar> div \<bar>ival n b\<bar>" "ival n r = \<bar>ival n a\<bar> mod \<bar>ival n b\<bar>"
    using qr(4-6) by (simp_all add: int_div_pos_eq int_mod_pos_eq mult.commute)
  have "div_mod n a b = Some (Inr (if (sign_trit n a = TN) \<noteq> (sign_trit n b = TN) then tint_neg n q else q,
      if sign_trit n a = TN then tint_neg n r else r))"
    using False qr(1) one(1) by (simp add: div_mod_def is_zero_iff Let_def)
  with False qr(2,3) v show ?thesis
    by (auto simp: sign tint_neg_facts trunc_div_def trunc_mod_eq not_less)
qed

end
