(* ===== verification/T81_Int_Algo.thy ===== *)
theory T81_Int_Algo
  imports T81_Int_Div
begin

text \<open>
  The algorithms over the balanced ternary integers (\<open>types/T81Int.hpp\<close>): quotient and remainder,
  \<open>gcd\<close>, \<open>lcm\<close>, \<open>pow\<close> and the conversions to strings; and the unsigned wrapper (\<open>types/T81Uint.hpp\<close>).
\<close>

section \<open>Quotient, remainder, greatest common divisor\<close>

definition tint_div :: "nat \<Rightarrow> tint \<Rightarrow> tint \<Rightarrow> (int_error + tint) option" where
  "tint_div n a b = then_do (div_mod n a b) (\<lambda>(q, r). Some (Inr q))"

definition tint_mod :: "nat \<Rightarrow> tint \<Rightarrow> tint \<Rightarrow> (int_error + tint) option" where
  "tint_mod n a b = then_do (div_mod n a b) (\<lambda>(q, r). Some (Inr r))"

definition tint_abs :: "nat \<Rightarrow> tint \<Rightarrow> tint" where
  "tint_abs n a = (if sign_trit n a = TN then tint_neg n a else a)"

partial_function (option) gcd_loop :: "nat \<Rightarrow> tint \<Rightarrow> tint \<Rightarrow> (int_error + tint) option" where
  "gcd_loop n a b =
     (if is_zero n b then Some (Inr a)
      else case tint_mod n a b of
             None \<Rightarrow> None
           | Some m \<Rightarrow> (case m of Inl e \<Rightarrow> Some (Inl e) | Inr r \<Rightarrow> gcd_loop n b r))"

definition tint_gcd :: "nat \<Rightarrow> tint \<Rightarrow> tint \<Rightarrow> (int_error + tint) option" where
  "tint_gcd n a b = gcd_loop n (tint_abs n a) (tint_abs n b)"

definition tint_lcm :: "nat \<Rightarrow> tint \<Rightarrow> tint \<Rightarrow> (int_error + tint) option" where
  "tint_lcm n a b =
     (if is_zero n a \<or> is_zero n b then Some (from_int64 n 0)
      else then_do (tint_gcd n a b) (\<lambda>g.
           then_do (tint_div n a g) (\<lambda>q.
           then_do (Some (tint_mul n q b)) (\<lambda>res. Some (Inr (tint_abs n res))))))"

lemma sign_trit_TN: "sign_trit n x = TN \<longleftrightarrow> ival n x < 0"
  using sign_trit_value [of n x] by (cases "sign_trit n x") (auto simp: sgn_if split: if_splits)

lemma tint_abs_facts: "tint_ok n a \<Longrightarrow> tint_ok n (tint_abs n a)" "ival n (tint_abs n a) = \<bar>ival n a\<bar>"
  by (simp_all add: tint_abs_def sign_trit_TN tint_neg_facts)

lemma tint_divmod_facts:
  assumes "tint_ok n a" "tint_ok n b" "0 < n" "ival n b \<noteq> 0"
  shows "\<exists>q. tint_div n a b = Some (Inr q) \<and> tint_ok n q \<and> ival n q = trunc_div (ival n a) (ival n b)"
    "\<exists>r. tint_mod n a b = Some (Inr r) \<and> tint_ok n r \<and> ival n r = trunc_mod (ival n a) (ival n b)"
  using div_mod_facts [OF assms(1-3)] assms(4) by (auto simp: tint_div_def tint_mod_def)

lemma trunc_mod_pos: "0 \<le> a \<Longrightarrow> 0 < b \<Longrightarrow> trunc_mod a b = a mod b"
  by (simp add: trunc_mod_eq)

lemma gcd_loop_facts:
  assumes "0 < n"
  shows "tint_ok n a \<Longrightarrow> tint_ok n b \<Longrightarrow> 0 \<le> ival n a \<Longrightarrow> 0 \<le> ival n b \<Longrightarrow>
    \<exists>g. gcd_loop n a b = Some (Inr g) \<and> tint_ok n g \<and> ival n g = gcd (ival n a) (ival n b)"
proof (induction "nat (ival n b)" arbitrary: a b rule: less_induct)
  case less
  show ?case
  proof (cases "ival n b = 0")
    case True
    with less.prems show ?thesis by (simp add: gcd_loop.simps [of n a b] is_zero_iff)
  next
    case False
    then have b: "0 < ival n b" using less.prems(4) by simp
    obtain r where r: "tint_mod n a b = Some (Inr r)" "tint_ok n r" "ival n r = ival n a mod ival n b"
      using tint_divmod_facts(2) [OF less.prems(1,2) assms False] trunc_mod_pos [OF less.prems(3) b] by auto
    have "0 \<le> ival n r" "nat (ival n r) < nat (ival n b)" using r(3) b by simp_all
    from less.hyps [OF this(2) less.prems(2) r(2) less.prems(4) this(1)] False r show ?thesis
      by (simp add: gcd_loop.simps [of n a b] is_zero_iff gcd_red_int [symmetric] gcd.commute)
  qed
qed

text \<open>The Euclidean algorithm ends, overflows nowhere and returns the greatest common divisor.\<close>

lemma tint_gcd_facts:
  assumes "tint_ok n a" "tint_ok n b" "0 < n"
  shows "\<exists>g. tint_gcd n a b = Some (Inr g) \<and> tint_ok n g \<and> ival n g = gcd (ival n a) (ival n b)"
  using gcd_loop_facts [OF assms(3), of "tint_abs n a" "tint_abs n b"] assms
  by (simp add: tint_gcd_def tint_abs_facts)

section \<open>Power\<close>

fun pow_loop :: "nat \<Rightarrow> nat \<Rightarrow> tint \<Rightarrow> tint \<Rightarrow> int_error + tint" where
  "pow_loop n e res b =
     (if 0 < e
      then err_bind (if odd e then tint_mul n res b else Inr res) (\<lambda>res.
           err_bind (tint_mul n b b) (\<lambda>b. pow_loop n (e div 2) res b))
      else Inr res)"

declare pow_loop.simps [simp del]

definition tint_pow :: "nat \<Rightarrow> tint \<Rightarrow> tint \<Rightarrow> int_error + tint" where
  "tint_pow n ba ex =
     (if sign_trit n ex = TN then Inl (DomainError ''pow with negative exponent'')
      else if is_zero n ex then from_int64 n 1
      else err_bind (to_int64 n ex) (\<lambda>e.
           err_bind (from_int64 n 1) (\<lambda>res. pow_loop n (nat (sint e)) res ba)))"

lemma significant_le:
  assumes "2 * \<bar>ival n a\<bar> < 3 ^ k" shows "significant_trits n a \<le> k"
proof (cases "List.find (\<lambda>i. get_trit a i \<noteq> TZ) (rev [0 ..< n])")
  case None
  then show ?thesis by (simp add: significant_trits_def)
next
  case (Some i)
  then have "i < n" "get_trit a i \<noteq> TZ" by (auto simp: find_Some_iff rev_nth)
  then have "(3 :: int) ^ i < 3 ^ k" using ival_high [of i n a] assms by linarith
  then have "i < k" by simp
  with Some show ?thesis by (simp add: significant_trits_def)
qed

lemma significant_mult:
  assumes "ival n r = ival n a * ival n b"
  shows "significant_trits n r \<le> significant_trits n a + significant_trits n b"
proof (rule significant_le)
  define A B where "A = \<bar>ival n a\<bar>" and "B = \<bar>ival n b\<bar>"
  have "2 * A \<le> 3 ^ significant_trits n a" "2 * B \<le> 3 ^ significant_trits n b" "0 \<le> A" "0 \<le> B"
    using significant_facts [of n a] significant_facts [of n b] by (simp_all add: A_def B_def)
  then have "(2 * A) * (2 * B) \<le> 3 ^ significant_trits n a * 3 ^ significant_trits n b"
    by (intro mult_mono) simp_all
  moreover have "(0 :: int) < 3 ^ significant_trits n a * 3 ^ significant_trits n b" by simp
  moreover have "0 \<le> A * B" using \<open>0 \<le> A\<close> \<open>0 \<le> B\<close> by simp
  moreover have "(2 * A) * (2 * B) = 4 * (A * B)" by simp
  ultimately have "2 * (A * B) < 3 ^ significant_trits n a * 3 ^ significant_trits n b" by linarith
  then show "2 * \<bar>ival n r\<bar> < 3 ^ (significant_trits n a + significant_trits n b)"
    by (simp add: assms abs_mult power_add A_def B_def)
qed

lemma pow_loop_facts:
  "tint_ok n res \<Longrightarrow> tint_ok n b \<Longrightarrow> significant_trits n res + e * significant_trits n b \<le> n \<Longrightarrow>
   2 * e * significant_trits n b \<le> n \<Longrightarrow>
   \<exists>p. pow_loop n e res b = Inr p \<and> tint_ok n p \<and> ival n p = ival n res * ival n b ^ e"
proof (induction e arbitrary: res b rule: less_induct)
  case (less e)
  let ?s = "significant_trits n"
  show ?case
  proof (cases "e = 0")
    case True
    with less.prems show ?thesis by (simp add: pow_loop.simps)
  next
    case False
    have res: "\<exists>r. (if odd e then tint_mul n res b else Inr res) = Inr r \<and> tint_ok n r \<and>
        ival n r = ival n res * ival n b ^ (e mod 2) \<and> ?s r \<le> ?s res + (e mod 2) * ?s b"
    proof (cases "odd e")
      case True
      then have "1 * ?s b \<le> e * ?s b" by (intro mult_right_mono) (simp_all add: Suc_leI odd_pos)
      with less.prems(3) have "?s res + ?s b \<le> n" by linarith
      with tint_mul_facts [OF less.prems(1) this] True show ?thesis
        by (auto simp: odd_iff_mod_2_eq_one intro: significant_mult)
    qed (use less.prems(1) in simp)
    then obtain r where r: "(if odd e then tint_mul n res b else Inr res) = Inr r" "tint_ok n r"
        "ival n r = ival n res * ival n b ^ (e mod 2)" "?s r \<le> ?s res + (e mod 2) * ?s b" by blast
    have "1 * ?s b \<le> e * ?s b" using False by (intro mult_right_mono) simp_all
    with less.prems(4) have "?s b + ?s b \<le> n" unfolding mult.assoc by linarith
    from tint_mul_facts [OF less.prems(2) this] obtain b' where
      b': "tint_mul n b b = Inr b'" "tint_ok n b'" "ival n b' = ival n b * ival n b" by blast
    have sb: "?s b' \<le> 2 * ?s b" using significant_mult [OF b'(3)] by simp
    then have "e div 2 * ?s b' \<le> e div 2 * (2 * ?s b)" by (intro mult_left_mono) simp_all
    moreover have split: "e mod 2 * ?s b + e div 2 * (2 * ?s b) = e * ?s b"
      by (metis add.commute add_mult_distrib mod_mult_div_eq mult.assoc mult.commute)
    ultimately have "?s r + e div 2 * ?s b' \<le> n" "e div 2 * ?s b' \<le> e * ?s b"
      using r(4) less.prems(3) by linarith+
    then have "?s r + e div 2 * ?s b' \<le> n" "2 * (e div 2) * ?s b' \<le> n"
      using less.prems(4) unfolding mult.assoc by linarith+
    from less.IH [OF _ r(2) b'(2) this] False obtain p where
      p: "pow_loop n (e div 2) r b' = Inr p" "tint_ok n p" "ival n p = ival n r * ival n b' ^ (e div 2)" by auto
    have "ival n p = ival n res * ival n b ^ (e mod 2 + 2 * (e div 2))"
      unfolding p(3) r(3) b'(3) power_add power_mult power2_eq_square mult.assoc ..
    then show ?thesis using False r(1) b'(1) p(1,2) by (simp add: pow_loop.simps [of n e res b] err_bind_def)
  qed
qed

text \<open>
  The power is exact when the trits of the base, taken \<open>2 e\<close> times, fit: the loop squares the ba once
  more than it needs.
\<close>

lemma tint_pow_facts:
  assumes "tint_ok n ba" "0 < n" "0 \<le> ival n ex" "ival n ex < 2 ^ 63"
    "2 * nat (ival n ex) * significant_trits n ba \<le> n"
  shows "\<exists>p. tint_pow n ba ex = Inr p \<and> tint_ok n p \<and> ival n p = ival n ba ^ nat (ival n ex)"
proof -
  obtain one where one: "from_int64 n 1 = Inr one" "tint_ok n one" "ival n one = 1" using one_facts [OF assms(2)] by blast
  show ?thesis
  proof (cases "ival n ex = 0")
    case True
    with one show ?thesis by (simp add: tint_pow_def sign_trit_TN is_zero_iff)
  next
    case False
    have e: "to_int64 n ex = Inr (word_of_int (ival n ex))"
      using to_int64_facts [of n ex] assms(3,4) by (auto simp: in_i64_def)
    have s: "sint (word_of_int (ival n ex) :: i64) = ival n ex"
      using assms(3,4) by (intro sint_of_in_i64) (simp add: in_i64_def)
    have "significant_trits n one \<le> 1" by (rule significant_le) (simp add: one(3))
    then have "significant_trits n one + nat (ival n ex) * significant_trits n ba \<le> n"
    proof (cases "significant_trits n ba = 0")
      case True
      with \<open>significant_trits n one \<le> 1\<close> assms(2) show ?thesis by simp
    next
      case False
      have "1 * 1 \<le> nat (ival n ex) * significant_trits n ba"
        using False \<open>ival n ex \<noteq> 0\<close> assms(3) by (intro mult_le_mono) simp_all
      with assms(5) \<open>significant_trits n one \<le> 1\<close> show ?thesis unfolding mult.assoc by linarith
    qed
    from pow_loop_facts [OF one(2) assms(1) this assms(5)] one(3) one(1) e s False assms(3)
    show ?thesis by (simp add: tint_pow_def sign_trit_TN is_zero_iff err_bind_def)
  qed
qed

section \<open>Strings\<close>

text \<open>\<open>to_trit_string\<close> (and \<open>to_canonical_string\<close>), from the top trit; \<open>to_string\<close> writes plain base 3.\<close>

definition trit_char :: "trit \<Rightarrow> char" where
  "trit_char t = (case t of TP \<Rightarrow> CHR ''+'' | TZ \<Rightarrow> CHR ''0'' | TN \<Rightarrow> CHR ''-'')"

definition to_trit_string :: "nat \<Rightarrow> tint \<Rightarrow> string" where
  "to_trit_string n a = map (\<lambda>i. trit_char (get_trit a i)) (rev [0 ..< n])"

fun base3_loop :: "nat \<Rightarrow> string \<Rightarrow> string" where
  "base3_loop v s =
     (if v \<noteq> 0 then base3_loop (v div 3)
        (s @ [if v mod 3 = 0 then CHR ''0'' else if v mod 3 = 1 then CHR ''1'' else CHR ''2''])
      else s)"

declare base3_loop.simps [simp del]

text \<open>Negating the least number of 64 bits is undefined: \<open>None\<close>.\<close>

definition tint_to_string :: "nat \<Rightarrow> tint \<Rightarrow> (int_error + string) option" where
  "tint_to_string n a = then_do (Some (to_int64 n a)) (\<lambda>v.
     if v = 0 then Some (Inr ''0'')
     else if sint v = - (2 ^ 63) then None
     else let s = base3_loop (nat \<bar>sint v\<bar>) []
          in Some (Inr (rev (if sint v < 0 then s @ ''-'' else s))))"

lemma trit_char_inj: "trit_char s = trit_char t \<Longrightarrow> s = t"
  by (cases s; cases t) (simp_all add: trit_char_def)

lemma to_trit_string_inj:
  assumes "tint_ok n a" "tint_ok n b" "to_trit_string n a = to_trit_string n b"
  shows "a = b"
proof -
  have "map (\<lambda>i. trit_char (get_trit a i)) [0 ..< n] = map (\<lambda>i. trit_char (get_trit b i)) [0 ..< n]"
    using assms(3) by (simp add: to_trit_string_def rev_map [symmetric])
  then have "get_trit a i = get_trit b i" if "i < n" for i
    using that by (auto simp: list_eq_iff_nth_eq intro: trit_char_inj)
  then have "digits n a = digits n b" by (simp add: digits_def)
  then have "ival n a = ival n b" by (simp add: ival_def)
  with assms(1,2) show ?thesis by (simp add: tint_eq_iff)
qed

section \<open>Unsigned integers\<close>

text \<open>
  \<open>T81UInt\<close> holds a signed integer that is never negative.  Its operations are \<open>noexcept\<close>, so that
  an exception in them ends the program: \<open>None\<close>.
\<close>

definition no_throw :: "'e + 'a \<Rightarrow> 'a option" where
  "no_throw r = (case r of Inl _ \<Rightarrow> None | Inr x \<Rightarrow> Some x)"

definition uint_of_int :: "nat \<Rightarrow> i64 \<Rightarrow> tint option" where
  "uint_of_int n v = no_throw (from_int64 n (if sint v < 0 then 0 else v))"

definition uint_of_signed :: "nat \<Rightarrow> tint \<Rightarrow> tint option" where
  "uint_of_signed n s = Option.bind (no_throw (from_int64 n 0)) (\<lambda>z. Some (if 0 \<le> tint_compare n s z then s else z))"

definition uint_add :: "nat \<Rightarrow> tint \<Rightarrow> tint \<Rightarrow> tint option" where
  "uint_add n a b = Option.bind (no_throw (tint_add n a b)) (uint_of_signed n)"

definition uint_sub :: "nat \<Rightarrow> tint \<Rightarrow> tint \<Rightarrow> tint option" where
  "uint_sub n a b = Option.bind (no_throw (tint_sub n a b)) (uint_of_signed n)"

definition uint_mul :: "nat \<Rightarrow> tint \<Rightarrow> tint \<Rightarrow> tint option" where
  "uint_mul n a b = Option.bind (no_throw (tint_mul n a b)) (uint_of_signed n)"

definition uint_div :: "nat \<Rightarrow> tint \<Rightarrow> tint \<Rightarrow> tint option" where
  "uint_div n a b =
     (if is_zero n b then uint_of_int n 0
      else Option.bind (tint_div n a b) (\<lambda>q. Option.bind (no_throw q) (uint_of_signed n)))"

definition uint_bits :: "(64 word \<Rightarrow> 64 word \<Rightarrow> 64 word) \<Rightarrow> nat \<Rightarrow> tint \<Rightarrow> tint \<Rightarrow> tint option" where
  "uint_bits f n a b = Option.bind (no_throw (to_int64 n a)) (\<lambda>av.
     Option.bind (no_throw (to_int64 n b)) (\<lambda>bv. uint_of_int n (f av bv)))"

definition uint_not :: "nat \<Rightarrow> tint \<Rightarrow> tint option" where
  "uint_not n a = Option.bind (no_throw (to_int64 n a)) (\<lambda>av. uint_of_int n (NOT av))"

definition uint_shl :: "nat \<Rightarrow> tint \<Rightarrow> nat \<Rightarrow> tint option" where
  "uint_shl n a k = uint_of_signed n (shift_left n k a)"

definition uint_shr :: "nat \<Rightarrow> tint \<Rightarrow> nat \<Rightarrow> tint option" where
  "uint_shr n a k = uint_of_signed n (shift_right n k a)"

definition tuint_ok :: "nat \<Rightarrow> tint \<Rightarrow> bool" where
  "tuint_ok n a \<longleftrightarrow> tint_ok n a \<and> 0 \<le> ival n a"

lemma no_throw_simps [simp]: "no_throw (Inl e) = None" "no_throw (Inr x) = Some x"
  by (simp_all add: no_throw_def)

lemma from_int64_zero [simp]: "from_int64 n 0 = Inr (clear n)"
  by (simp add: from_int64_def)

lemma uint_of_signed_facts:
  assumes "tint_ok n s"
  shows "\<exists>r. uint_of_signed n s = Some r \<and> tuint_ok n r \<and> ival n r = max 0 (ival n s)"
  using assms tint_ok_clear [of n]
  by (auto simp: uint_of_signed_def tint_compare_value tuint_ok_def sgn_if)

lemma uint_of_int_facts:
  "uint_of_int n v = Some r \<Longrightarrow> tuint_ok n r \<and> ival n r = max 0 (sint v)"
  using from_int64_facts [of v n] tint_ok_clear [of n]
  by (auto simp: uint_of_int_def tuint_ok_def split: if_splits)

lemma tint_add_range:
  assumes "tint_ok n a" "tint_ok n b" "tint_add n a b = Inr s"
  shows "tint_ok n s" "ival n s = ival n a + ival n b"
  using tint_add_facts [of n a b] assms by (auto split: if_splits)

text \<open>Addition is exact or ends the program; subtraction stops at zero; the complement is always zero.\<close>

lemma uint_add_facts:
  assumes "tuint_ok n a" "tuint_ok n b"
  shows "if 2 * (ival n a + ival n b) < 3 ^ n
    then \<exists>r. uint_add n a b = Some r \<and> tuint_ok n r \<and> ival n r = ival n a + ival n b
    else uint_add n a b = None"
proof (cases "2 * (ival n a + ival n b) < 3 ^ n")
  case True
  then have "2 * \<bar>ival n a + ival n b\<bar> < 3 ^ n" using assms by (simp add: tuint_ok_def)
  then obtain s where s: "tint_add n a b = Inr s" "tint_ok n s" "ival n s = ival n a + ival n b"
    using tint_addI assms unfolding tuint_ok_def by blast
  with uint_of_signed_facts [OF s(2)] True assms show ?thesis by (auto simp: uint_add_def tuint_ok_def)
next
  case False
  moreover have "\<bar>ival n a + ival n b\<bar> = ival n a + ival n b" using assms by (simp add: tuint_ok_def)
  ultimately have "\<not> 2 * \<bar>ival n a + ival n b\<bar> < 3 ^ n" by metis
  with False tint_add_facts [of n a b] assms show ?thesis by (auto simp: uint_add_def tuint_ok_def)
qed

lemma uint_sub_facts:
  assumes "tuint_ok n a" "tuint_ok n b"
  shows "\<exists>r. uint_sub n a b = Some r \<and> tuint_ok n r \<and> ival n r = max 0 (ival n a - ival n b)"
proof -
  have "2 * \<bar>ival n a - ival n b\<bar> < 3 ^ n"
    using assms ival_less [of n a] ival_less [of n b] unfolding tuint_ok_def
    by (intro abs2I; unfold right_diff_distrib; linarith)
  then obtain s where s: "tint_sub n a b = Inr s" "tint_ok n s" "ival n s = ival n a - ival n b"
    using tint_subI assms unfolding tuint_ok_def by blast
  with uint_of_signed_facts [OF s(2)] show ?thesis by (auto simp: uint_sub_def)
qed

lemma uint_div_facts:
  assumes "tuint_ok n a" "tuint_ok n b" "0 < n"
  shows "\<exists>r. uint_div n a b = Some r \<and> tuint_ok n r \<and> ival n r = ival n a div ival n b"
proof (cases "ival n b = 0")
  case True
  then show ?thesis using tint_ok_clear [of n] by (simp add: uint_div_def is_zero_iff uint_of_int_def tuint_ok_def)
next
  case False
  have "0 \<le> ival n a" "0 < ival n b" using assms False by (simp_all add: tuint_ok_def)
  then have d: "trunc_div (ival n a) (ival n b) = ival n a div ival n b" by (simp add: trunc_div_def)
  obtain q where q: "tint_div n a b = Some (Inr q)" "tint_ok n q" "ival n q = ival n a div ival n b"
    using tint_divmod_facts(1) [of n a b] assms False d by (auto simp: tuint_ok_def)
  have "0 \<le> ival n a div ival n b" using \<open>0 \<le> ival n a\<close> \<open>0 < ival n b\<close> by (simp add: pos_imp_zdiv_nonneg_iff)
  with uint_of_signed_facts [OF q(2)] q False show ?thesis by (auto simp: uint_div_def is_zero_iff)
qed

lemma uint_not_facts:
  assumes "tuint_ok n a"
  shows "uint_not n a = (if ival n a < 2 ^ 63 then Some (clear n) else None)"
proof (cases "ival n a < 2 ^ 63")
  case True
  then have i: "in_i64 (ival n a)" using assms by (simp add: tuint_ok_def in_i64_def)
  then have "sint (word_of_int (ival n a) :: i64) = ival n a" by (rule sint_of_in_i64)
  then have "sint (NOT (word_of_int (ival n a) :: i64)) < 0"
    using assms True by (simp add: signed_not_eq not_int_def tuint_ok_def signed_take_bit_int_eq_self)
  with True i to_int64_facts [of n a] show ?thesis by (simp add: uint_not_def uint_of_int_def)
next
  case False
  then have "\<not> in_i64 (ival n a)" by (simp add: in_i64_def)
  with False to_int64_facts [of n a] show ?thesis by (auto simp: uint_not_def)
qed

end
