(* ===== verification/T81_Cell.thy ===== *)
theory T81_Cell
  imports T81_Int
begin

text \<open>
  Vectors of trits of any length (\<open>ternary/arith.hpp\<close>) and the cell of five trits (\<open>types/cell.hpp\<close>).
  Both keep the least significant trit first.
\<close>

section \<open>Vectors of trits\<close>

abbreviation trits_val :: "trit list \<Rightarrow> int" where
  "trits_val ts \<equiv> bal_val (map trit_to_int ts)"

function normalize_trits :: "trit list \<Rightarrow> trit list" where
  "normalize_trits ds = (if 1 < length ds \<and> last ds = TZ then normalize_trits (butlast ds) else ds)"
  by auto
termination by (relation "measure length") auto

declare normalize_trits.simps [simp del]

text \<open>The magnitude is kept in 64 bits without a sign; it only shrinks.\<close>

function i64_encode_loop :: "nat \<Rightarrow> trit list \<Rightarrow> trit list" where
  "i64_encode_loop x ts =
     (if 0 < x
      then if x mod 3 = 2 then i64_encode_loop (x div 3 + 1) (ts @ [TN])
           else i64_encode_loop (x div 3) (ts @ [if x mod 3 = 1 then TP else TZ])
      else ts)"
  by auto
termination
  by (relation "measure fst") auto

declare i64_encode_loop.simps [simp del]

definition flip_trit :: "trit \<Rightarrow> trit" where
  "flip_trit t = (if t = TP then TN else if t = TN then TP else TZ)"

definition encode_i64 :: "i64 \<Rightarrow> trit list" where
  "encode_i64 x =
     (if x = 0 then [TZ]
      else let ts = i64_encode_loop (nat \<bar>sint x\<bar>) []
           in normalize_trits (if sint x < 0 then map flip_trit ts else ts))"

text \<open>\<open>INT64_MAX\<close> and \<open>INT64_MIN\<close> are returned when the power of three would leave 64 bits.\<close>

definition i64_max :: int where "i64_max = 2 ^ 63 - 1"
definition i64_min :: int where "i64_min = - (2 ^ 63)"

fun i64_decode_loop :: "trit list \<Rightarrow> int \<Rightarrow> int \<Rightarrow> int" where
  "i64_decode_loop [] result pw = result"
| "i64_decode_loop (t # ts) result pw =
     (let v = trit_to_int t; nxt = result + v * pw
      in if 0 < v \<and> nxt < result then i64_max
         else if v < 0 \<and> result < nxt then i64_min
         else if i64_max div 3 < pw then (if 0 < v then i64_max else i64_min)
         else i64_decode_loop ts nxt (pw * 3))"

definition decode_i64 :: "trit list \<Rightarrow> int" where
  "decode_i64 ds = (if ds = [] then 0 else i64_decode_loop ds 0 1)"

definition vadd_digit :: "int \<Rightarrow> trit \<times> int" where
  "vadd_digit s =
     (if 2 \<le> s then (int_to_trit (s - 3), 1)
      else if s \<le> - 2 then (int_to_trit (s + 3), - 1)
      else (int_to_trit s, 0))"

lemma vadd_digit_carry: "vadd_digit s = (t, c) \<Longrightarrow> \<bar>c\<bar> \<le> 1 \<and> (c \<noteq> 0 \<longrightarrow> 2 \<le> \<bar>s\<bar>)"
  by (auto simp: vadd_digit_def split: if_splits)

function vadd_loop :: "trit list \<Rightarrow> trit list \<Rightarrow> int \<Rightarrow> trit list" where
  "vadd_loop as bs carry =
     (if as \<noteq> [] \<or> bs \<noteq> [] \<or> carry \<noteq> 0
      then let sum = carry + (case as of [] \<Rightarrow> 0 | a # _ \<Rightarrow> trit_to_int a) + (case bs of [] \<Rightarrow> 0 | b # _ \<Rightarrow> trit_to_int b);
               (t, carry) = vadd_digit sum
           in t # vadd_loop (tl as) (tl bs) carry
      else [])"
  by auto

termination
  by (relation "measures [\<lambda>(as, bs, c). length as + length bs, \<lambda>(as, bs, c). if 2 \<le> \<bar>c\<bar> then 2 else if c \<noteq> 0 then 1 else 0]")
    (auto dest!: sym [of "(_, _)"] vadd_digit_carry split: list.splits)

declare vadd_loop.simps [simp del]

definition vec_add :: "trit list \<Rightarrow> trit list \<Rightarrow> trit list" where
  "vec_add a b = normalize_trits (vadd_loop a b 0)"

text \<open>Normalising keeps the value, and the sum has the sum of the values, however long.\<close>

lemma trits_val_append: "trits_val (xs @ ys) = trits_val xs + 3 ^ length xs * trits_val ys"
  by (simp add: bal_val_append)

lemma trits_val_normalize: "trits_val (normalize_trits ds) = trits_val ds"
proof (induction ds rule: normalize_trits.induct)
  case (1 ds)
  show ?case
  proof (cases "1 < length ds \<and> last ds = TZ")
    case True
    then have "ds = butlast ds @ [TZ]" by (metis append_butlast_last_id list.size(3) not_less_zero)
    then have "trits_val ds = trits_val (butlast ds)" by (metis trits_val_append map_append bal_val_append trit_to_int_simps(2) list.map bal_val.simps mult_zero_right add_0_right)
    with True 1 show ?thesis by (simp add: normalize_trits.simps [of ds])
  next
    case False
    then have "normalize_trits ds = ds" unfolding normalize_trits.simps [of ds] by (simp only: if_False)
    then show ?thesis by simp
  qed
qed

lemma vadd_digit_value: "\<bar>s\<bar> \<le> 3 \<Longrightarrow> vadd_digit s = (t, c) \<Longrightarrow> trit_to_int t + 3 * c = s \<and> \<bar>c\<bar> \<le> 1"
  by (auto simp: vadd_digit_def int_to_trit_def trit_to_int_def split: if_splits)

lemma vadd_loop_value: "\<bar>c\<bar> \<le> 1 \<Longrightarrow> trits_val (vadd_loop as bs c) = trits_val as + trits_val bs + c"
proof (induction as bs c rule: vadd_loop.induct)
  case (1 as bs carry)
  show ?case
  proof (cases "as \<noteq> [] \<or> bs \<noteq> [] \<or> carry \<noteq> 0")
    case True
    define a b where "a = (case as of [] \<Rightarrow> 0 | a # _ \<Rightarrow> trit_to_int a)" and "b = (case bs of [] \<Rightarrow> 0 | b # _ \<Rightarrow> trit_to_int b)"
    obtain t c where d: "vadd_digit (carry + a + b) = (t, c)" by (cases "vadd_digit (carry + a + b)")
    have "\<bar>carry + a + b\<bar> \<le> 3" using 1(2) trit_to_int_range by (auto simp: a_def b_def split: list.splits) (smt (verit) trit_to_int_range)+
    from vadd_digit_value [OF this d] have v: "trit_to_int t + 3 * c = carry + a + b" "\<bar>c\<bar> \<le> 1" by simp_all
    have "trits_val (vadd_loop (tl as) (tl bs) c) = trits_val (tl as) + trits_val (tl bs) + c"
      by (rule 1(1) [OF True refl _ _ v(2)]) (use d in \<open>simp_all add: a_def b_def\<close>)
    moreover have "trits_val as = a + 3 * trits_val (tl as)" "trits_val bs = b + 3 * trits_val (tl bs)"
      by (cases as; simp add: a_def) (cases bs; simp add: b_def)
    moreover have "vadd_loop as bs carry = t # vadd_loop (tl as) (tl bs) c"
      using True d by (simp add: vadd_loop.simps [of as bs carry] a_def [symmetric] b_def [symmetric] Let_def)
    ultimately show ?thesis using v by simp
  next
    case False
    then show ?thesis by (simp add: vadd_loop.simps [of "[]" "[]" 0])
  qed
qed

lemma vec_add_value: "trits_val (vec_add a b) = trits_val a + trits_val b"
  by (simp add: vec_add_def trits_val_normalize vadd_loop_value)

text \<open>The encoding has the value of the number and its least number of digits.\<close>

lemma i64_encode_loop_facts:
  "\<exists>ds. i64_encode_loop x ts = ts @ ds \<and> trits_val ds = int x \<and> (x \<noteq> 0 \<longrightarrow> ds \<noteq> [] \<and> last ds = TP) \<and> (x = 0 \<longrightarrow> ds = [])"
proof (induction x ts rule: i64_encode_loop.induct)
  case (1 x ts)
  show ?case
  proof (cases "0 < x")
    case True
    define t y where "t = (if x mod 3 = 2 then TN else if x mod 3 = 1 then TP else TZ)"
      and "y = (if x mod 3 = 2 then x div 3 + 1 else x div 3)"
    have "\<exists>ds. i64_encode_loop y (ts @ [t]) = (ts @ [t]) @ ds \<and> trits_val ds = int y \<and> (y \<noteq> 0 \<longrightarrow> ds \<noteq> [] \<and> last ds = TP) \<and> (y = 0 \<longrightarrow> ds = [])"
      using 1 True by (auto simp: t_def y_def)
    then obtain ds where ds: "i64_encode_loop y (ts @ [t]) = (ts @ [t]) @ ds" "trits_val ds = int y"
      "y \<noteq> 0 \<longrightarrow> ds \<noteq> [] \<and> last ds = TP" "y = 0 \<longrightarrow> ds = []" by blast
    have "i64_encode_loop x ts = i64_encode_loop y (ts @ [t])"
      using True by (simp add: i64_encode_loop.simps [of x ts] t_def y_def)
    moreover have "trit_to_int t + 3 * int y = int x" "y = 0 \<longrightarrow> t = TP"
    proof -
      have "x mod 3 = 0 \<or> x mod 3 = 1 \<or> x mod 3 = 2" "int x = int (x mod 3) + 3 * int (x div 3)" by presburger+
      then show "trit_to_int t + 3 * int y = int x" by (auto simp: t_def y_def)
      show "y = 0 \<longrightarrow> t = TP" using True by (auto simp: t_def y_def) presburger+
    qed
    ultimately have "i64_encode_loop x ts = ts @ (t # ds) \<and> trits_val (t # ds) = int x \<and> last (t # ds) = TP"
      using ds by auto
    with True show ?thesis by blast
  next
    case False
    then show ?thesis by (simp add: i64_encode_loop.simps [of 0 ts])
  qed
qed

lemma trits_val_flip: "trits_val (map flip_trit ts) = - trits_val ts"
  by (induction ts) (auto simp: flip_trit_def trit_to_int_def split: trit.splits)

lemma encode_i64_facts:
  "trits_val (encode_i64 x) = sint x \<and> encode_i64 x \<noteq> [] \<and> (x \<noteq> 0 \<longrightarrow> last (encode_i64 x) \<noteq> TZ)"
proof (cases "x = 0")
  case False
  obtain ds where ds: "i64_encode_loop (nat \<bar>sint x\<bar>) [] = ds" "trits_val ds = \<bar>sint x\<bar>" "ds \<noteq> []" "last ds = TP"
    using i64_encode_loop_facts [of "nat \<bar>sint x\<bar>" "[]"] False by auto
  define es where "es = (if sint x < 0 then map flip_trit ds else ds)"
  have es: "trits_val es = sint x" "es \<noteq> []" "last es \<noteq> TZ"
    using ds trits_val_flip [of ds] by (auto simp: es_def last_map flip_trit_def simp del: map_map)
  then have "encode_i64 x = es"
    using False ds(1) by (simp add: encode_i64_def normalize_trits.simps [of es] flip: es_def)
  with es False show ?thesis by simp
qed (simp add: encode_i64_def)

lemma trits_val_bound: "2 * \<bar>trits_val ts\<bar> < 3 ^ length ts"
  using bal_val_bound [of "map trit_to_int ts"] trit_to_int_range by (simp add: list_all_iff)

lemma trits_val_last:
  assumes "ts \<noteq> []" "last ts \<noteq> TZ" shows "3 ^ (length ts - 1) < 2 * \<bar>trits_val ts\<bar>"
proof -
  let ?b = "butlast ts" and ?p = "(3 :: int) ^ (length ts - 1)"
  have "trits_val ts = trits_val ?b + ?p * trit_to_int (last ts)"
    using trits_val_append [of ?b "[last ts]"] assms(1) by simp
  moreover have "2 * \<bar>trits_val ?b\<bar> < ?p" using trits_val_bound [of ?b] by simp
  moreover have "trit_to_int (last ts) = 1 \<or> trit_to_int (last ts) = - 1" using assms(2) by (cases "last ts") simp_all
  ultimately show ?thesis by auto
qed

lemma encode_length:
  "length (encode_i64 x) \<le> k \<longleftrightarrow> (if x = 0 then 1 \<le> k else 2 * \<bar>sint x\<bar> < 3 ^ k)"
proof (cases "x = 0")
  case False
  let ?e = "encode_i64 x"
  have e: "trits_val ?e = sint x" "?e \<noteq> []" "last ?e \<noteq> TZ" using encode_i64_facts [of x] False by auto
  show ?thesis
  proof
    assume "length ?e \<le> k"
    then have "(3 :: int) ^ length ?e \<le> 3 ^ k" by (intro power_increasing) simp_all
    with trits_val_bound [of ?e] e(1) have "2 * \<bar>sint x\<bar> < 3 ^ k" by linarith
    with False show "if x = 0 then 1 \<le> k else 2 * \<bar>sint x\<bar> < 3 ^ k" by simp
  next
    assume "if x = 0 then 1 \<le> k else 2 * \<bar>sint x\<bar> < 3 ^ k"
    with False have "2 * \<bar>sint x\<bar> < 3 ^ k" by simp
    with trits_val_last [OF e(2,3)] have "(3 :: int) ^ (length ?e - 1) < 3 ^ k" unfolding e(1) by linarith
    then have "length ?e - 1 < k" by simp
    then show "length ?e \<le> k" using e(2) by simp
  qed
qed (auto simp: encode_i64_def)

text \<open>Up to 39 digits are decoded exactly; the fortieth decides on which side a longer vector saturates.\<close>

lemma i64_decode_loop_value:
  assumes "2 * \<bar>r\<bar> < 3 ^ i" "i \<le> 39"
  shows "i64_decode_loop ts r (3 ^ i) =
    (if i + length ts \<le> 39 then r + 3 ^ i * trits_val ts
     else if ts ! (39 - i) = TP then i64_max else i64_min)"
  using assms
proof (induction ts arbitrary: r i)
  case (Cons t ts)
  let ?v = "trit_to_int t" and ?n = "r + trit_to_int t * 3 ^ i"
  have nv: "\<not> (0 < ?v \<and> ?n < r)" "\<not> (?v < 0 \<and> r < ?n)" by (cases t; simp)+
  have max: "i64_max div 3 < (3 :: int) ^ i \<longleftrightarrow> i = 39"
  proof
    assume "i64_max div 3 < (3 :: int) ^ i"
    moreover have "(3 :: int) ^ i \<le> 3 ^ 38" if "i \<le> 38" using that by (intro power_increasing) simp_all
    ultimately show "i = 39" using Cons.prems(2) by (cases "i \<le> 38") (auto simp: i64_max_def)
  qed (simp add: i64_max_def)
  show ?case
  proof (cases "i = 39")
    case True
    with nv max show ?thesis by (cases t) (simp_all add: Let_def)
  next
    case False
    have "2 * \<bar>?n\<bar> < 3 ^ Suc i" using Cons.prems(1) by (cases t) auto
    from Cons.IH [OF this] False Cons.prems(2)
    have "i64_decode_loop ts ?n (3 ^ Suc i) = (if Suc i + length ts \<le> 39 then ?n + 3 ^ Suc i * trits_val ts
       else if ts ! (39 - Suc i) = TP then i64_max else i64_min)" by simp
    moreover have "i64_decode_loop (t # ts) r (3 ^ i) = i64_decode_loop ts ?n (3 ^ Suc i)"
      unfolding i64_decode_loop.simps Let_def using nv max False by (simp only: if_False power_Suc2)
    moreover have "39 - i = Suc (39 - Suc i)" using False Cons.prems(2) by simp
    ultimately show ?thesis by (simp add: algebra_simps)
  qed
qed simp

lemma decode_i64_value:
  "decode_i64 ds = (if length ds \<le> 39 then trits_val ds else if ds ! 39 = TP then i64_max else i64_min)"
  using i64_decode_loop_value [of 0 0 ds] by (auto simp: decode_i64_def)

lemma decode_encode_i64:
  "2 * \<bar>sint x\<bar> < 3 ^ 39 \<Longrightarrow> decode_i64 (encode_i64 x) = sint x"
  using encode_length [of x 39] encode_i64_facts [of x] by (simp add: decode_i64_value)

section \<open>The cell of five trits\<close>

definition cell_zero :: "trit list" where "cell_zero = replicate 5 TZ"

definition cell_to_int :: "trit list \<Rightarrow> int" where
  "cell_to_int c = foldr (\<lambda>t val. val * 3 + trit_to_int t) c 0"

definition cell_neg :: "trit list \<Rightarrow> trit list" where
  "cell_neg c = map (\<lambda>t. int_to_trit (- trit_to_int t)) c"

text \<open>\<open>from_int\<close> stores \<open>rem - 1\<close> for the remainders 0 and 1.\<close>

fun cell_from_loop :: "nat list \<Rightarrow> int \<Rightarrow> trit list \<Rightarrow> trit list" where
  "cell_from_loop [] v c = c"
| "cell_from_loop (i # is) v c =
     (if v \<noteq> 0 then
        if v mod 3 = 2 then cell_from_loop is (v div 3 + 1) (c[i := TN])
        else cell_from_loop is (v div 3) (c[i := int_to_trit (v mod 3 - 1)])
      else c)"

definition cell_from_int :: "int \<Rightarrow> int_error + trit list" where
  "cell_from_int v =
     (if v < - 121 \<or> 121 < v then Inl (Overflow ''Cell overflow in from_int'')
      else let c = cell_from_loop [0 ..< 5] \<bar>v\<bar> cell_zero
           in Inr (if v < 0 then cell_neg c else c))"

fun cell_add_loop :: "trit list \<Rightarrow> trit list \<Rightarrow> int \<Rightarrow> trit list \<times> int" where
  "cell_add_loop (a # as) (b # bs) carry =
     (let sum = trit_to_int a + trit_to_int b + carry;
          (t, carry) = (if sum = 3 then (TP, 1) else if sum = - 3 then (TN, - 1)
                        else if sum = 2 then (TN, 1) else if sum = - 2 then (TP, - 1)
                        else (int_to_trit sum, 0));
          (ts, carry) = cell_add_loop as bs carry
      in (t # ts, carry))"
| "cell_add_loop as bs carry = ([], carry)"

definition cell_add :: "trit list \<Rightarrow> trit list \<Rightarrow> int_error + trit list" where
  "cell_add a b =
     (let (r, carry) = cell_add_loop a b 0
      in if carry \<noteq> 0 then Inl (Overflow ''Cell addition overflow'') else Inr r)"

definition cell_sub :: "trit list \<Rightarrow> trit list \<Rightarrow> int_error + trit list" where
  "cell_sub a b = cell_add a (cell_neg b)"

definition cell_shl :: "trit list \<Rightarrow> int \<Rightarrow> int_error + trit list" where
  "cell_shl c n =
     (if n < 0 then Inl (DomainError ''Negative shift'')
      else if 5 \<le> n then Inl (Overflow ''Shift overflow'')
      else Inr (replicate (nat n) TZ @ take (5 - nat n) c))"

fun cell_mul_loop :: "trit list \<Rightarrow> (nat \<times> trit) list \<Rightarrow> trit list \<Rightarrow> int_error + trit list" where
  "cell_mul_loop a [] result = Inr result"
| "cell_mul_loop a ((i, t) # ts) result =
     (case t of
        TP \<Rightarrow> err_bind (cell_shl a (int i)) (\<lambda>s. err_bind (cell_add result s) (cell_mul_loop a ts))
      | TN \<Rightarrow> err_bind (cell_shl a (int i)) (\<lambda>s. err_bind (cell_sub result s) (cell_mul_loop a ts))
      | TZ \<Rightarrow> cell_mul_loop a ts result)"

definition cell_mul :: "trit list \<Rightarrow> trit list \<Rightarrow> int_error + trit list" where
  "cell_mul a b = cell_mul_loop a (List.enumerate 0 b) cell_zero"

definition cell_abs :: "trit list \<Rightarrow> trit list" where
  "cell_abs c = (if cell_to_int c < 0 then cell_neg c else c)"

fun cell_div_loop :: "trit list \<Rightarrow> trit list \<Rightarrow> nat list \<Rightarrow> trit list \<Rightarrow> trit list \<Rightarrow> int_error + trit list" where
  "cell_div_loop divisor abs_div [] quo rest = Inr quo"
| "cell_div_loop divisor abs_div (i # is) quo rest =
     err_bind (cell_shl abs_div (int i)) (\<lambda>candidate.
       if cell_to_int candidate \<le> \<bar>cell_to_int rest\<bar>
       then err_bind (cell_from_int 1) (\<lambda>one. err_bind (cell_shl one (int i)) (\<lambda>s.
            err_bind (cell_add quo s) (\<lambda>quo.
            err_bind (cell_sub rest (if cell_to_int divisor < 0 then cell_neg candidate else candidate)) (\<lambda>rest.
            cell_div_loop divisor abs_div is quo rest))))
       else cell_div_loop divisor abs_div is quo rest)"

definition cell_div :: "trit list \<Rightarrow> trit list \<Rightarrow> int_error + trit list" where
  "cell_div a divisor =
     err_bind (cell_from_int 0) (\<lambda>z.
       if divisor = z then Inl (DomainError ''Division by zero'')
       else err_bind (cell_div_loop divisor (cell_abs divisor) [4, 3, 2, 1, 0] cell_zero a) (\<lambda>quo.
            Inr (if (cell_to_int a < 0) \<noteq> (cell_to_int divisor < 0) then cell_neg quo else quo)))"

definition cell_mod :: "trit list \<Rightarrow> trit list \<Rightarrow> int_error + trit list" where
  "cell_mod a divisor =
     err_bind (cell_div a divisor) (\<lambda>q. err_bind (cell_mul q divisor) (cell_sub a))"

partial_function (option) cell_gcd_loop :: "trit list \<Rightarrow> trit list \<Rightarrow> (int_error + trit list) option" where
  "cell_gcd_loop a b =
     (case cell_from_int 0 of
        Inl e \<Rightarrow> Some (Inl e)
      | Inr z \<Rightarrow>
          if b \<noteq> z
          then (case cell_mod a b of Inl e \<Rightarrow> Some (Inl e) | Inr r \<Rightarrow> cell_gcd_loop b r)
          else Some (Inr a))"

definition cell_gcd :: "trit list \<Rightarrow> trit list \<Rightarrow> (int_error + trit list) option" where
  "cell_gcd a b = cell_gcd_loop (cell_abs a) (cell_abs b)"

subsection \<open>What holds and what does not\<close>

definition cell_ok :: "trit list \<Rightarrow> bool" where "cell_ok c \<longleftrightarrow> length c = 5"

lemma cell_to_int_val: "cell_to_int c = trits_val c"
  by (induction c) (simp_all add: cell_to_int_def)

lemma cell_neg_val: "cell_to_int (cell_neg c) = - cell_to_int c"
proof -
  have "trits_val (map (\<lambda>t. int_to_trit (- trit_to_int t)) c) = - trits_val c"
    by (induction c) (auto simp: trit_to_int_def int_to_trit_def split: trit.splits)
  then show ?thesis by (simp add: cell_to_int_val cell_neg_def)
qed

lemma cell_neg_zero [simp]: "cell_neg cell_zero = cell_zero"
  by (simp add: cell_neg_def cell_zero_def int_to_trit_def)

lemma cell_neg_zero_iff: "cell_neg c = cell_zero \<longleftrightarrow> c = cell_zero"
proof -
  have inv: "cell_neg (cell_neg c) = c"
    by (induction c) (auto simp: cell_neg_def int_to_trit_def trit_to_int_def split: trit.splits)
  show ?thesis by (metis inv cell_neg_zero)
qed

lemma cell_abs_zero_iff: "cell_abs c = cell_zero \<longleftrightarrow> c = cell_zero"
  by (simp add: cell_abs_def cell_neg_zero_iff)

lemma cell_from_int_0: "cell_from_int 0 = Inr cell_zero"
  by (simp add: cell_from_int_def upt_conv_Cons)

lemma cell_from_int_1: "cell_from_int 1 = Inr cell_zero"
  by (simp add: cell_from_int_def upt_conv_Cons cell_zero_def int_to_trit_def numeral_eq_Suc)

lemma cell_add_loop_zero: "cell_add_loop c (replicate (length c) TZ) 0 = (c, 0)"
  by (induction c) (auto simp: Let_def trit_to_int_def int_to_trit_def split: trit.splits)

lemma cell_add_zero: "cell_ok c \<Longrightarrow> cell_add c cell_zero = Inr c"
  using cell_add_loop_zero [of c] by (simp add: cell_add_def cell_ok_def cell_zero_def)

lemma cell_shl_zero: "i < 5 \<Longrightarrow> cell_shl cell_zero (int i) = Inr cell_zero"
  by (auto simp: cell_shl_def cell_zero_def take_replicate replicate_add [symmetric])

lemma cell_zero_ok: "cell_ok cell_zero"
  by (simp add: cell_ok_def cell_zero_def)

lemma cell_div_loop_zero:
  "list_all (\<lambda>i. i < 5) is \<Longrightarrow> cell_div_loop d a is cell_zero r = Inr q \<Longrightarrow> q = cell_zero"
proof (induction "is" arbitrary: r)
  case (Cons i "is")
  then show ?case
    by (auto simp: err_bind_def cell_from_int_1 cell_shl_zero cell_add_zero [OF cell_zero_ok] split: sum.splits if_splits)
qed simp

lemma cell_mul_zero: "cell_ok b \<Longrightarrow> cell_mul cell_zero b = Inr cell_zero"
proof -
  have "cell_mul_loop cell_zero (List.enumerate k c) cell_zero = Inr cell_zero" if "k + length c \<le> 5" for k c
    using that
    by (induction c arbitrary: k)
      (auto simp: err_bind_def cell_shl_zero cell_sub_def cell_add_zero [OF cell_zero_ok] split: trit.splits)
  then show "cell_ok b \<Longrightarrow> ?thesis" by (simp add: cell_mul_def cell_ok_def)
qed

text \<open>Since \<open>from_int (1)\<close> is zero, a quotient is always zero and a remainder is the dividend.\<close>

lemma cell_div_result:
  assumes "cell_div a d = Inr q"
  shows "d \<noteq> cell_zero \<and> q = cell_zero"
proof -
  have d: "d \<noteq> cell_zero" using assms by (auto simp: cell_div_def err_bind_def cell_from_int_0)
  obtain q' where q': "cell_div_loop d (cell_abs d) [4, 3, 2, 1, 0] cell_zero a = Inr q'"
    "q = (if (cell_to_int a < 0) \<noteq> (cell_to_int d < 0) then cell_neg q' else q')"
    using assms d by (cases "cell_div_loop d (cell_abs d) [4, 3, 2, 1, 0] cell_zero a")
      (simp_all add: cell_div_def err_bind_def cell_from_int_0)
  have "q' = cell_zero" by (rule cell_div_loop_zero [OF _ q'(1)]) simp
  with q'(2) d show ?thesis by simp
qed

lemma cell_mod_result:
  assumes "cell_ok a" "cell_ok d" "cell_mod a d = Inr r"
  shows "r = a"
proof -
  obtain q where q: "cell_div a d = Inr q" using assms(3) by (cases "cell_div a d") (simp_all add: cell_mod_def err_bind_def)
  then have "q = cell_zero" by (simp add: cell_div_result)
  with q assms show ?thesis by (simp add: cell_mod_def err_bind_def cell_mul_zero cell_sub_def cell_add_zero)
qed

lemma cell_gcd_loop_result:
  assumes "cell_gcd_loop a b = Some (Inr g)" "cell_ok a" "cell_ok b" "a \<noteq> cell_zero"
  shows "b = cell_zero"
proof -
  have "cell_ok a \<Longrightarrow> cell_ok b \<Longrightarrow> a \<noteq> cell_zero \<Longrightarrow> (\<exists>g. out = Inr g) \<Longrightarrow> b = cell_zero"
    if "cell_gcd_loop a b = Some out" for a b out
    using that
  proof (induction rule: cell_gcd_loop.raw_induct [rotated, consumes 1])
    case 1
    then show ?case
      by (auto simp: cell_from_int_0 split: if_splits sum.splits) (metis cell_mod_result)
  qed
  from this [OF assms(1)] assms(2-4) show ?thesis by blast
qed

lemma cell_abs_ok: "cell_ok c \<Longrightarrow> cell_ok (cell_abs c)"
  by (simp add: cell_abs_def cell_ok_def cell_neg_def)

end
