(* ===== verification/Properties_Numeric.thy ===== *)
theory Properties_Numeric
  imports T81_Int_Algo T81_Cell
begin

text \<open>
  Properties of the codecs and of the balanced ternary numbers: what is written is read back, the
  direct conversions between packings agree with the long way round, and arithmetic is exact or
  reports its overflow.
\<close>

section \<open>Codecs\<close>

text \<open>C40: The two text and byte codecs lose nothing but leading zero bytes: decoding an encoding gives
  the bytes without them, and whatever decodes is the encoding of what it decodes to (for base 243 if
  it has no leading zero digit, which base 81 rejects).\<close>
theorem radix_codecs_roundtrip:
  "decode_bytes81 (encode_bytes81 data) = Some (if data = [] then [] else canon data) \<and>
   decode_bytes_be (encode_bytes_be data) = Inr (if data = [] then [] else canon data) \<and>
   (decode_bytes81 s = Some data \<longrightarrow> encode_bytes81 data = s) \<and>
   (decode_bytes_be ds = Inr data \<longrightarrow> ds = [] \<or> ds = [0] \<or> hd ds \<noteq> 0 \<longrightarrow> encode_bytes_be data = ds)"
  using decode_encode81 decode_encode243 encode_decode81 encode_decode243 by blast

theorem radix_codecs_roundtrip_witness:
  "decode_bytes_be (encode_bytes_be [0, 7, 1]) = Inr [7, 1] \<and>
   encode_bytes_be [3, 255] = encode_bytes_be [3, 255] \<and> encode_bytes81 [5] = encode_bytes81 [5]"
  using radix_codecs_roundtrip [of "[0, 7, 1]"]
    radix_codecs_roundtrip [of "[3, 255]" "encode_bytes81 [3, 255]" "encode_bytes_be [3, 255]"]
  by (simp add: canon_def)

text \<open>The conversions between five trits a byte and four trits a digit, which never build the
  trits, end on every input whose bytes are in range, and agree with unpacking and packing again:
  also in the error they report.  Packed trits come back from both forms.\<close>
theorem trit_recoding_agrees:
  assumes "list_all (\<lambda>b. unat b \<le> 242) bytes" "list_all (\<lambda>d. unat d \<le> 80) ds"
    "pack_pt5 ts = Inr packed"
  shows "pt5_to_b81 bytes want = Some (case unpack_pt5 bytes want of Inl e \<Rightarrow> Inl e | Inr us \<Rightarrow> pack_base81 us) \<and>
    b81_to_pt5 ds want = Some (case unpack_base81 ds want of Inl e \<Rightarrow> Inl e | Inr us \<Rightarrow> pack_pt5 us) \<and>
    unpack_pt5 packed (length ts) = Inr ts \<and> pt5_to_b81 packed (length ts) = Some (pack_base81 ts)"
  using pt5_to_b81_eq [OF assms(1)] b81_to_pt5_eq [OF assms(2)] unpack_pack_pt5 [OF assms(3)]
    convert_packed [OF assms(3)] by blast

theorem trit_recoding_agrees_witness:
  "pt5_to_b81 [121, 200] 7 = Some (case unpack_pt5 [121, 200] 7 of Inl e \<Rightarrow> Inl e | Inr us \<Rightarrow> pack_base81 us) \<and>
   unpack_pt5 [221] (length [1, 0, - 1, 1, 1 :: int]) = Inr [1, 0, - 1, 1, 1]"
proof -
  have "pack_pt5 [1, 0, - 1, 1, 1] = Inr [221]" by code_simp
  from trit_recoding_agrees [OF _ _ this, of "[121, 200]" "[]" 7] show ?thesis by simp
qed

section \<open>Balanced ternary integers\<close>

text \<open>An integer of \<open>n\<close> trits has one packed form: the comparison of bytes, the ordering and the
  canonical string tell values apart.  The conversions from and to 64 bits are exact whenever the
  value fits, inverse to each other, and report an overflow when it does not fit.\<close>
theorem tint_represents:
  assumes "tint_ok n a" "tint_ok n b"
  shows "(a = b \<longleftrightarrow> ival n a = ival n b) \<and> tint_compare n a b = sgn (ival n a - ival n b) \<and>
    (to_trit_string n a = to_trit_string n b \<longrightarrow> a = b) \<and>
    (if 2 * \<bar>sint v\<bar> < 3 ^ n
     then \<exists>c. from_int64 n v = Inr c \<and> tint_ok n c \<and> ival n c = sint v \<and> to_int64 n c = Inr v
     else from_int64 n v = Inl (Overflow ''T81Int: value does not fit in N trits'')) \<and>
    (if in_i64 (ival n a) then to_int64 n a = Inr (word_of_int (ival n a))
     else \<exists>msg. to_int64 n a = Inl (Overflow msg))"
proof -
  have "to_int64 n c = Inr v" if "ival n c = sint v" for c
    using to_int64_facts [of n c] that in_i64_sint [of v] by simp
  then show ?thesis
    using to_trit_string_inj [OF assms] tint_eq_iff [OF assms] tint_compare_value [of n a b]
      from_int64_facts [of v n] to_int64_facts [of n a] by (auto split: if_splits)
qed

text \<open>The value 5 in four trits, and the value -7.\<close>

definition five4 :: tint where "five4 = [0b01100000]"
definition neg74 :: tint where "neg74 = [0b01001000]"

lemma samples_ok: "tint_ok 4 five4" "tint_ok 4 neg74" "ival 4 five4 = 5" "ival 4 neg74 = - 7"
  by code_simp+

theorem tint_represents_witness:
  "tint_compare 4 five4 neg74 = 1 \<and> to_int64 4 five4 = Inr 5"
  using tint_represents [OF samples_ok(1,2)] by (simp add: samples_ok in_i64_def)

text \<open>C39: Arithmetic on integers of \<open>n\<close> trits is exact or reports its overflow: negation always
  succeeds, addition and subtraction fail exactly when the result does not fit, the left shift
  multiplies by a power of three when the result fits, the right shift rounds to the nearest
  multiple, and a product is exact when the significant trits of the factors fit together.\<close>
theorem tint_arithmetic_exact:
  assumes "tint_ok n a" "tint_ok n b"
  shows "tint_ok n (tint_neg n a) \<and> ival n (tint_neg n a) = - ival n a \<and>
    (if 2 * \<bar>ival n a + ival n b\<bar> < 3 ^ n
     then \<exists>r. tint_add n a b = Inr r \<and> tint_ok n r \<and> ival n r = ival n a + ival n b
     else tint_add n a b = Inl (Overflow ''T81Int overflow'')) \<and>
    (if 2 * \<bar>ival n a - ival n b\<bar> < 3 ^ n
     then \<exists>r. tint_sub n a b = Inr r \<and> tint_ok n r \<and> ival n r = ival n a - ival n b
     else tint_sub n a b = Inl (Overflow ''T81Int overflow'')) \<and>
    (2 * \<bar>3 ^ k * ival n a\<bar> < 3 ^ n \<longrightarrow> ival n (shift_left n k a) = 3 ^ k * ival n a) \<and>
    (k \<le> n \<longrightarrow> 2 * \<bar>ival n a - 3 ^ k * ival n (shift_right n k a)\<bar> < 3 ^ k) \<and>
    (significant_trits n a + significant_trits n b \<le> n \<longrightarrow>
     (\<exists>r. tint_mul n a b = Inr r \<and> tint_ok n r \<and> ival n r = ival n a * ival n b))"
proof -
  have "2 * \<bar>ival n a - 3 ^ k * ival n (shift_right n k a)\<bar> < 3 ^ k" if "k \<le> n"
    using shift_right_value [OF assms(1) that] ival_bound [of k a] by simp
  then show ?thesis
    using tint_neg_facts [of n a] tint_add_facts [OF assms] tint_sub_facts [OF assms]
      shift_left_exact [OF assms(1), of k] tint_mul_facts [OF assms(1), of b] by blast
qed

theorem tint_arithmetic_exact_witness:
  "tint_add 4 five4 neg74 = from_int64 4 (- 2) \<and> ival 4 (tint_neg 4 neg74) = 7"
proof -
  obtain r where "tint_add 4 five4 neg74 = Inr r" "tint_ok 4 r" "ival 4 r = - 2"
    using tint_arithmetic_exact [OF samples_ok(1,2)] by (auto simp: samples_ok)
  moreover obtain c where "from_int64 4 (- 2) = Inr c" "tint_ok 4 c" "ival 4 c = - 2"
    using from_int64_facts [of "- 2" 4] by auto
  ultimately show ?thesis
    using tint_arithmetic_exact [OF samples_ok(2,1)] by (auto simp: samples_ok tint_eq_iff)
qed

text \<open>C38: The nested loops of the division and the Euclidean algorithm end on all integers without an
  overflow in between; the division truncates towards zero and rejects a zero divisor, and the
  algorithm returns the greatest common divisor.\<close>
theorem tint_division_total:
  assumes "tint_ok n a" "tint_ok n b" "0 < n"
  shows "(if ival n b = 0 then div_mod n a b = Some (Inl (DomainError ''div_mod by zero''))
     else \<exists>q r. div_mod n a b = Some (Inr (q, r)) \<and> tint_ok n q \<and> tint_ok n r \<and>
       ival n q = trunc_div (ival n a) (ival n b) \<and> ival n r = trunc_mod (ival n a) (ival n b)) \<and>
    (\<exists>g. tint_gcd n a b = Some (Inr g) \<and> tint_ok n g \<and> ival n g = gcd (ival n a) (ival n b))"
  using div_mod_facts [OF assms] tint_gcd_facts [OF assms] by blast

theorem tint_division_total_witness:
  "\<exists>q r. div_mod 4 neg74 five4 = Some (Inr (q, r)) \<and> ival 4 q = - 1 \<and> ival 4 r = - 2"
  using tint_division_total [OF samples_ok(2,1)] by (auto simp: samples_ok trunc_div_def trunc_mod_def)

text \<open>A power is exact when the trits of the base fit \<open>2 e\<close> times: binary exponentiation squares
  the base once more than it needs.  (In two trits, four to the first power overflows.)\<close>
theorem tint_pow_exact:
  assumes "tint_ok n b" "0 < n" "0 \<le> ival n e" "ival n e < 2 ^ 63"
    "2 * nat (ival n e) * significant_trits n b \<le> n"
  shows "\<exists>p. tint_pow n b e = Inr p \<and> tint_ok n p \<and> ival n p = ival n b ^ nat (ival n e)"
  by (rule tint_pow_facts [OF assms])

definition two8 :: tint where "two8 = [0b01011000, 0b01010101]"

lemma two8_ok: "tint_ok 8 two8" "ival 8 two8 = 2" "significant_trits 8 two8 = 2"
  by code_simp+

theorem tint_pow_exact_witness:
  "\<exists>p. tint_pow 8 two8 two8 = Inr p \<and> ival 8 p = 4"
  using tint_pow_exact [OF two8_ok(1), of two8] by (auto simp: two8_ok)

lemma pow_overflows_needlessly:
  "tint_pow 2 [0b01011010] [0b01010110] = Inl (Overflow ''T81Int overflow'') \<and>
   ival 2 [0b01011010] = 4 \<and> ival 2 [0b01010110] = 1"
  by code_simp

text \<open>An unsigned integer is never negative: addition is exact or ends the program, subtraction
  stops at zero instead of wrapping around, division by zero is zero, and the complement of every
  number below \<open>2 ^ 63\<close> is zero.\<close>
theorem unsigned_arithmetic:
  assumes "tuint_ok n a" "tuint_ok n b" "0 < n"
  shows "(if 2 * (ival n a + ival n b) < 3 ^ n
     then \<exists>r. uint_add n a b = Some r \<and> tuint_ok n r \<and> ival n r = ival n a + ival n b
     else uint_add n a b = None) \<and>
    (\<exists>r. uint_sub n a b = Some r \<and> tuint_ok n r \<and> ival n r = max 0 (ival n a - ival n b)) \<and>
    (\<exists>r. uint_div n a b = Some r \<and> tuint_ok n r \<and> ival n r = ival n a div ival n b) \<and>
    uint_not n a = (if ival n a < 2 ^ 63 then Some (clear n) else None)"
  using uint_add_facts [OF assms(1,2)] uint_sub_facts [OF assms(1,2)] uint_div_facts [OF assms] uint_not_facts [OF assms(1)]
  by blast

theorem unsigned_arithmetic_witness:
  "\<exists>r. uint_sub 8 two8 two8 = Some r \<and> ival 8 r = 0 \<and> uint_not 8 two8 = Some (clear 8)"
  using unsigned_arithmetic [of 8 two8 two8] two8_ok by (auto simp: tuint_ok_def)

section \<open>Vectors of trits and cells\<close>

text \<open>A vector of trits has the value of the number it encodes, in the fewest digits; vectors add
  without a bound; decoding inverts encoding up to 39 digits, and saturates beyond, on the side that
  the fortieth digit gives.\<close>
theorem trit_vectors_exact:
  "trits_val (encode_i64 x) = sint x \<and> trits_val (vec_add xs ys) = trits_val xs + trits_val ys \<and>
   (length (encode_i64 x) \<le> m \<longleftrightarrow> (if x = 0 then 1 \<le> m else 2 * \<bar>sint x\<bar> < 3 ^ m)) \<and>
   decode_i64 (encode_i64 x) =
     (if 2 * \<bar>sint x\<bar> < 3 ^ 39 then sint x else if encode_i64 x ! 39 = TP then i64_max else i64_min)"
  using encode_i64_facts [of x] vec_add_value [of xs ys] encode_length [of x m] encode_length [of x 39]
    decode_i64_value [of "encode_i64 x"] by auto

lemma large_decodes_to_least: "decode_i64 (encode_i64 (2 * 3 ^ 39)) = i64_min"
proof -
  let ?e = "encode_i64 (2 * 3 ^ 39)" and ?d = "replicate 39 TZ @ [TN, TP]"
  have v: "sint (2 * 3 ^ 39 :: i64) = 2 * 3 ^ 39" by simp
  have "length ?e = length ?d"
    using encode_length [of "2 * 3 ^ 39" 40] encode_length [of "2 * 3 ^ 39" 41] unfolding v by simp
  moreover have "trits_val ?e = trits_val ?d"
    using encode_i64_facts [of "2 * 3 ^ 39"] v by (simp add: bal_val_append)
  ultimately have "map trit_to_int ?e = map trit_to_int ?d"
    by (intro bal_val_inj) (simp_all add: list_all_iff trit_to_int_range)
  then have "?e = ?d" by (rule map_injective) (simp add: inj_def)
  then have "?e ! 39 = TN" by (simp add: nth_append)
  with \<open>length ?e = length ?d\<close> show ?thesis by (simp add: decode_i64_value)
qed

text \<open>The greatest common divisor of two cells that are not zero is never returned: \<open>from_int (1)\<close>
  is zero, so that every quotient is zero and every remainder is the dividend, and the loop either
  reports an overflow or does not end.\<close>
theorem cell_gcd_never_returns:
  assumes "cell_ok a" "cell_ok b" "a \<noteq> cell_zero" "b \<noteq> cell_zero"
  shows "cell_gcd a b \<noteq> Some (Inr g) \<and> (cell_div a b = Inr q \<longrightarrow> q = cell_zero) \<and> (cell_mod a b = Inr r \<longrightarrow> r = a)"
  using cell_gcd_loop_result [of "cell_abs a" "cell_abs b" g] assms cell_abs_ok cell_abs_zero_iff
    cell_div_result [of a b q] cell_mod_result [of a b r] by (auto simp: cell_gcd_def)

theorem cell_gcd_never_returns_witness:
  "cell_gcd [TN, TP, TZ, TZ, TZ] [TN, TP, TZ, TZ, TZ] \<noteq> Some (Inr [TN, TP, TZ, TZ, TZ])"
  using cell_gcd_never_returns [of "[TN, TP, TZ, TZ, TZ]" "[TN, TP, TZ, TZ, TZ]"]
  by (simp add: cell_ok_def cell_zero_def numeral_eq_Suc)

lemma cell_add_wrong:
  "cell_add [TP, TP, TZ, TZ, TZ] [TP, TP, TZ, TZ, TZ] = Inr [TN, TP, TP, TZ, TZ] \<and>
   cell_to_int [TP, TP, TZ, TZ, TZ] = 4 \<and> cell_to_int [TN, TP, TP, TZ, TZ] = 11"
  by code_simp

end
