(* ===== verification/T81_Jit.thy ===== *)
theory T81_Jit
  imports T81_Step
begin

text \<open>
  The trace compiler (\<open>runtime/jit/jit_compiler.cpp\<close>, \<open>jit/jit.hpp\<close>) and its place in the step of the
  interpreter.  A trace is the list of instructions it was recorded from, and executing it is a
  second interpreter over the same state, with guards of its own.  \<open>None\<close> is undefined behaviour, as
  in the handlers.
\<close>

section \<open>Recording\<close>

text \<open>\<open>JitCompiler\<close>, with the tables that the interpreter keeps for it.\<close>

record jit =
  tracing :: bool
  start_pc :: nat
  trace_buffer :: "insn list"
  hot_spots :: "nat \<Rightarrow> nat"
  compiled_traces :: "nat \<rightharpoonup> insn list"

definition init_jit :: jit where
  "init_jit = \<lparr>tracing = False, start_pc = 0, trace_buffer = [], hot_spots = (\<lambda>_. 0), compiled_traces = Map.empty\<rparr>"

definition start_tracing :: "nat \<Rightarrow> jit \<Rightarrow> jit" where
  "start_tracing n j = j\<lparr>tracing := True, start_pc := n, trace_buffer := []\<rparr>"

definition recorded :: "opcode set" where
  "recorded = {Op_Add, Op_Sub, Op_Mul, Op_Div, Op_Mod, Op_Inc, Op_Dec, Op_Mov, Op_Neg, Op_TNot, Op_TAnd,
     Op_TOr, Op_TXor, Op_LoadImm, Op_Load, Op_Store, Op_Push, Op_Pop, Op_Less, Op_LessEqual, Op_Greater,
     Op_GreaterEqual, Op_Equal, Op_NotEqual, Op_Cmp, Op_SetF, Op_BitAnd, Op_BitOr, Op_BitXor, Op_BitNot,
     Op_BitShl, Op_BitShr, Op_BitUShr, Op_MakeOptionSome, Op_MakeOptionNone, Op_MakeResultOk,
     Op_MakeResultErr, Op_OptionIsSome, Op_OptionUnwrap, Op_ResultIsOk, Op_ResultUnwrapOk,
     Op_ResultUnwrapErr, Op_MakeEnumVariant, Op_MakeEnumVariantPayload, Op_EnumIsVariant,
     Op_EnumUnwrapPayload, Op_MakeComplex, Op_TMatMul, Op_TRMSNorm}"

definition recorded_jumps :: "opcode set" where
  "recorded_jumps = {Op_Jump, Op_JumpIfZero, Op_JumpIfNotZero, Op_JumpIfNegative, Op_JumpIfPositive}"

definition record_instruction :: "insn \<Rightarrow> jit \<Rightarrow> jit" where
  "record_instruction i j =
     (if \<not> tracing j then j
      else if opcode i \<in> recorded then j\<lparr>trace_buffer := trace_buffer j @ [i]\<rparr>
      else if opcode i \<in> recorded_jumps then j\<lparr>trace_buffer := trace_buffer j @ [i], tracing := False\<rparr>
      else j\<lparr>tracing := False\<rparr>)"

text \<open>\<open>compile\<close> moves the buffer into the trace.\<close>

definition compile_trace :: "jit \<Rightarrow> insn list option \<times> jit" where
  "compile_trace j =
     (let j = j\<lparr>tracing := False\<rparr>
      in if trace_buffer j = [] then (None, j) else (Some (trace_buffer j), j\<lparr>trace_buffer := []\<rparr>))"

definition kHotSpotThreshold :: nat where "kHotSpotThreshold = 50"

text \<open>The hot-spot detection of a step, for the instruction it has fetched.\<close>

definition detect_hot_spot :: "insn \<Rightarrow> nat \<Rightarrow> jit \<Rightarrow> jit" where
  "detect_hot_spot i cpc j =
     (let j = (if \<not> tracing j then
                 let j = j\<lparr>hot_spots := (hot_spots j)(cpc := hot_spots j cpc + 1)\<rparr>
                 in if kHotSpotThreshold \<le> hot_spots j cpc then start_tracing cpc j else j
               else j)
      in if tracing j then
           let j = record_instruction i j
           in if \<not> tracing j then
                let n = start_pc j; (t, j) = compile_trace j
                in (case t of None \<Rightarrow> j | Some is \<Rightarrow> j\<lparr>compiled_traces := (compiled_traces j)(n \<mapsto> is)\<rparr>)
              else j
         else j)"

section \<open>Executing one instruction of a trace\<close>

datatype jit_ctl = JGo | JBranch | JDeopt

type_synonym jit_case = "insn \<Rightarrow> nat \<Rightarrow> vm \<Rightarrow> (jit_ctl \<times> vm) option"

definition deopt :: "vm \<Rightarrow> (jit_ctl \<times> vm) option" where "deopt vm = Some (JDeopt, vm)"
definition go :: "vm \<Rightarrow> (jit_ctl \<times> vm) option" where "go vm = Some (JGo, vm)"

definition jit_bin :: "(i64 \<Rightarrow> i64 \<Rightarrow> i64 option) \<Rightarrow> jit_case" where
  "jit_bin f i n vm =
     (if bad_abc i then deopt vm
      else do {
        x \<leftarrow> get_val (ib i) vm; y \<leftarrow> get_val (ic i) vm;
        v \<leftarrow> f x y;
        vm \<leftarrow> put_reg (ia i) v VT_Int vm;
        go vm
      })"

definition jit_un :: "(i64 \<Rightarrow> i64 option) \<Rightarrow> jit_case" where
  "jit_un f i n vm =
     (if bad_ab i then deopt vm
      else do { x \<leftarrow> get_val (ib i) vm; v \<leftarrow> f x; vm \<leftarrow> put_reg (ia i) v VT_Int vm; go vm })"

definition jit_inc :: "i64 \<Rightarrow> jit_case" where
  "jit_inc d i n vm =
     (if bad_a i then deopt vm
      else do { x \<leftarrow> get_val (ia i) vm; v \<leftarrow> add_int x d; vm \<leftarrow> put_reg (ia i) v VT_Int vm; go vm })"

definition jit_divmod :: jit_case where
  "jit_divmod i n vm =
     (if bad_abc i then deopt vm
      else do {
        y \<leftarrow> get_val (ic i) vm;
        (if y = 0 then deopt vm
         else do {
           x \<leftarrow> get_val (ib i) vm;
           r \<leftarrow> (if opcode i = Op_Div then div_int x y else mod_int x y);
           (case r of None \<Rightarrow> deopt vm | Some v \<Rightarrow> do { vm \<leftarrow> put_reg (ia i) v VT_Int vm; go vm })
         })
      })"

definition jit_mov :: jit_case where
  "jit_mov i n vm =
     (if bad_ab i then deopt vm
      else do { v \<leftarrow> get_val (ib i) vm; t \<leftarrow> get_tag (ib i) vm; vm \<leftarrow> put_reg (ia i) v t vm; go vm })"

text \<open>A literal of no known kind leaves the tag as it is.\<close>

definition jit_load_imm :: jit_case where
  "jit_load_imm i n vm =
     (if bad_a i then deopt vm
      else do {
        t \<leftarrow> get_tag (ia i) vm;
        let (tag, v) = (if literal_kind i = LK_SymbolHandle
            then (case runtime_token_tag_from_symbol_handle (st vm) (op_b i) of
                    Some rt \<Rightarrow> (rt, 1) | None \<Rightarrow> (VT_SymbolHandle, op_b i))
            else (if unat (literal_kind i) \<le> 6 then literal_kind_to_tag (literal_kind i) else t, op_b i));
        vm \<leftarrow> put_reg (ia i) v tag vm;
        go vm
      })"

definition jit_mem_ok :: "int \<Rightarrow> vm \<Rightarrow> bool" where
  "jit_mem_ok addr vm \<longleftrightarrow> 0 \<le> addr \<and> nat addr < length (memory (st vm))"

definition jit_load :: jit_case where
  "jit_load i n vm =
     (if bad_a i \<or> \<not> jit_mem_ok (sint (op_b i)) vm then deopt vm
      else do {
        v \<leftarrow> arr_get (memory (st vm)) (size_of_i64 (op_b i));
        t \<leftarrow> arr_get (memory_tags (st vm)) (size_of_i64 (op_b i));
        vm \<leftarrow> put_reg (ia i) v t vm;
        go vm
      })"

definition jit_store :: jit_case where
  "jit_store i n vm =
     (if \<not> reg_ok_b (op_b i) \<or> \<not> jit_mem_ok (sint (op_a i)) vm then deopt vm
      else do {
        v \<leftarrow> get_val (ib i) vm; t \<leftarrow> get_tag (ib i) vm;
        vm \<leftarrow> put_mem (size_of_i32 (op_a i)) v t vm;
        go vm
      })"

definition jit_push :: jit_case where
  "jit_push i n vm =
     (if bad_a i \<or> sp (cur vm) \<le> stack_limit (cur vm) then deopt vm
      else do {
        let vm = upd_ctx (\<lambda>c. c\<lparr>sp := sp c - 1\<rparr>) vm;
        v \<leftarrow> get_val (ia i) vm; t \<leftarrow> get_tag (ia i) vm;
        vm \<leftarrow> put_mem (sp (cur vm)) v t vm;
        go vm
      })"

definition jit_pop :: jit_case where
  "jit_pop i n vm =
     (if bad_a i \<or> stack_base (cur vm) \<le> sp (cur vm) then deopt vm
      else do {
        v \<leftarrow> arr_get (memory (st vm)) (sp (cur vm));
        t \<leftarrow> arr_get (memory_tags (st vm)) (sp (cur vm));
        vm \<leftarrow> put_reg (ia i) v t vm;
        go (upd_ctx (\<lambda>c. c\<lparr>sp := sp c + 1\<rparr>) vm)
      })"

text \<open>Options, results, enums and complex numbers are appended to their tables, never looked up.\<close>

definition jit_make_option :: "bool \<Rightarrow> jit_case" where
  "jit_make_option some i n vm =
     (if (if some then bad_ab i else bad_a i) then deopt vm
      else do {
        (t, v) \<leftarrow> (if some then do { t \<leftarrow> get_tag (ib i) vm; v \<leftarrow> get_val (ib i) vm; Some (t, v) } else Some (VT_Int, 0));
        let vm = upd_st (\<lambda>s. s\<lparr>options := options s @ [\<lparr>has_value = some, opt_payload_tag = t, opt_payload = v\<rparr>]\<rparr>) vm;
        vm \<leftarrow> put_reg (ia i) (i64_of_size (length (options (st vm)))) VT_OptionHandle vm;
        go vm
      })"

definition jit_make_result :: "bool \<Rightarrow> jit_case" where
  "jit_make_result ok i n vm =
     (if bad_ab i then deopt vm
      else do {
        t \<leftarrow> get_tag (ib i) vm; v \<leftarrow> get_val (ib i) vm;
        let vm = upd_st (\<lambda>s. s\<lparr>results := results s @ [\<lparr>is_ok = ok, res_payload_tag = t, res_payload = v\<rparr>]\<rparr>) vm;
        vm \<leftarrow> put_reg (ia i) (i64_of_size (length (results (st vm)))) VT_ResultHandle vm;
        go vm
      })"

definition jit_intern_enum :: "i32 \<Rightarrow> bool \<Rightarrow> value_tag \<Rightarrow> i64 \<Rightarrow> insn \<Rightarrow> vm \<Rightarrow> (jit_ctl \<times> vm) option" where
  "jit_intern_enum variant has t v i vm = do {
     let vm = upd_st (\<lambda>s. s\<lparr>enums := enums s @ [\<lparr>variant_id = variant, has_payload = has, enum_payload_tag = t,
       enum_payload = v, enum_id = - 1\<rparr>]\<rparr>) vm;
     vm \<leftarrow> put_reg (ia i) (i64_of_size (length (enums (st vm)))) VT_EnumHandle vm;
     go vm
   }"

definition jit_make_enum :: jit_case where
  "jit_make_enum i n vm =
     (if bad_a i then deopt vm else jit_intern_enum (i32_of_i64 (op_b i)) False VT_Int 0 i vm)"

definition jit_make_enum_payload :: jit_case where
  "jit_make_enum_payload i n vm =
     (if bad_ab i \<or> sint (op_c i) < 0 then deopt vm
      else do { t \<leftarrow> get_tag (ib i) vm; v \<leftarrow> get_val (ib i) vm; jit_intern_enum (op_c i) True t v i vm })"

definition jit_make_complex :: jit_case where
  "jit_make_complex i n vm =
     (if bad_abc i then deopt vm
      else do {
        bt \<leftarrow> get_tag (ib i) vm; ct \<leftarrow> get_tag (ic i) vm;
        (if bt \<noteq> VT_Int \<or> ct \<noteq> VT_Int then deopt vm
         else do {
           x \<leftarrow> get_val (ib i) vm; y \<leftarrow> get_val (ic i) vm;
           let vm = upd_st (\<lambda>s. s\<lparr>complexes := complexes s @ [\<lparr>cplx_real = x, cplx_imag = y\<rparr>]\<rparr>) vm;
           vm \<leftarrow> put_reg (ia i) (i64_of_size (length (complexes (st vm)))) VT_ComplexHandle vm;
           go vm
         })
      })"

text \<open>The instructions that take such a value apart: \<open>f\<close> gives the new value and tag, or a failed guard.\<close>

definition jit_with :: "value_tag \<Rightarrow> (state \<Rightarrow> 'a list) \<Rightarrow> (insn \<Rightarrow> 'a \<Rightarrow> (i64 \<times> value_tag) option) \<Rightarrow> jit_case" where
  "jit_with tag tbl f i n vm =
     (if bad_ab i then deopt vm
      else do {
        t \<leftarrow> get_tag (ib i) vm;
        (if t \<noteq> tag then deopt vm
         else do {
           h \<leftarrow> get_val (ib i) vm;
           (case handle_get (tbl (st vm)) h of
              None \<Rightarrow> deopt vm
            | Some x \<Rightarrow> (case f i x of None \<Rightarrow> deopt vm | Some (v, vt) \<Rightarrow> do { vm \<leftarrow> put_reg (ia i) v vt vm; go vm }))
         })
      })"

definition jit_less :: "opcode \<Rightarrow> i64 \<Rightarrow> i64 \<Rightarrow> i64 option" where
  "jit_less oper x y = Some (bool_word
     (if oper = Op_Less then sint x < sint y else if oper = Op_LessEqual then sint x \<le> sint y
      else if oper = Op_Greater then sint x > sint y else if oper = Op_GreaterEqual then sint x \<ge> sint y
      else if oper = Op_Equal then x = y else x \<noteq> y))"

definition jit_cmp :: jit_case where
  "jit_cmp i n vm =
     (if bad_ab i then deopt vm
      else do {
        ta \<leftarrow> get_tag (ia i) vm; tb \<leftarrow> get_tag (ib i) vm;
        (if ta \<noteq> VT_Int \<or> tb \<noteq> VT_Int then deopt vm
         else do {
           x \<leftarrow> get_val (ia i) vm; y \<leftarrow> get_val (ib i) vm;
           go (upd_ctx (\<lambda>c. c\<lparr>flags := \<lparr>flag_zero = (x = y), flag_negative = (sint x < sint y),
             flag_positive = (sint x > sint y)\<rparr>\<rparr>) vm)
         })
      })"

definition jit_setf :: jit_case where
  "jit_setf i n vm =
     (if bad_a i then deopt vm
      else let fl = flags (cur vm); v = (if flag_negative fl then - 1 else if \<not> flag_zero fl then 1 else 0)
           in do { vm \<leftarrow> put_reg (ia i) v VT_Int vm; go vm })"

text \<open>A jump does not check its target.\<close>

definition branch :: "insn \<Rightarrow> vm \<Rightarrow> (jit_ctl \<times> vm) option" where
  "branch i vm = Some (JBranch, set_pc (size_of_i32 (op_a i)) vm)"

definition jit_jump_on :: "(i64 \<Rightarrow> bool) \<Rightarrow> jit_case" where
  "jit_jump_on f i n vm =
     (if \<not> reg_ok_b (op_b i) then deopt vm
      else do { v \<leftarrow> get_val (ib i) vm; if f v then branch i vm else go vm })"

definition jit_code_ok :: "i64 \<Rightarrow> vm \<Rightarrow> bool" where
  "jit_code_ok addr vm \<longleftrightarrow>
     (if sint addr < 0 \<or> length (memory (st vm)) \<le> size_of_i64 addr then False
      else if seg_valid (code_seg (layout (st vm))) then seg_contains (code_seg (layout (st vm))) (size_of_i64 addr)
      else True)"

definition jit_call :: jit_case where
  "jit_call i n vm =
     (if \<not> reg_ok_b (op_b i) then deopt vm
      else do {
        target \<leftarrow> get_val (ib i) vm;
        (if \<not> jit_code_ok target vm \<or> sp (cur vm) \<le> stack_limit (cur vm) then deopt vm
         else do {
           let vm = upd_ctx (\<lambda>c. c\<lparr>sp := sp c - 1\<rparr>) vm;
           vm \<leftarrow> put_mem (sp (cur vm)) (i64_of_size (pc (cur vm) + n)) VT_Int vm;
           Some (JBranch, upd_ctx (\<lambda>c. c\<lparr>call_depth := call_depth c + 1, pc := size_of_i64 target\<rparr>) vm)
         })
      })"

text \<open>A return whose address is not acceptable leaves the stack pointer moved.\<close>

definition jit_ret :: jit_case where
  "jit_ret i n vm =
     (if stack_base (cur vm) \<le> sp (cur vm) then deopt vm
      else do {
        addr \<leftarrow> arr_get (memory (st vm)) (sp (cur vm));
        t \<leftarrow> arr_get (memory_tags (st vm)) (sp (cur vm));
        let vm = upd_ctx (\<lambda>c. c\<lparr>sp := sp c + 1\<rparr>) vm;
        (if t \<noteq> VT_Int \<or> \<not> jit_code_ok addr vm then deopt vm
         else Some (JBranch, upd_ctx (\<lambda>c. c\<lparr>call_depth := call_depth c - 1, pc := size_of_i64 addr\<rparr>) vm))
      })"

definition jit_clamp_trit :: "i64 \<Rightarrow> int" where
  "jit_clamp_trit v = (if sint v < - 1 then - 1 else if 1 < sint v then 1 else sint v)"

definition jit_trit_binary :: "opcode \<Rightarrow> i64 \<Rightarrow> i64 \<Rightarrow> i64 option" where
  "jit_trit_binary oper x y =
     (let lhs = jit_clamp_trit x; rhs = jit_clamp_trit y
      in Some (word_of_int
           (if oper = Op_TAnd then if lhs < rhs then lhs else rhs
            else if oper = Op_TOr then if rhs < lhs then lhs else rhs
            else let out = lhs - rhs; out = (if 1 < out then - 1 else out) in if out < - 1 then 1 else out)))"

text \<open>The two float kernels: their guards, with nothing for the kernels themselves.\<close>

definition jit_kernel :: "(tensor \<Rightarrow> tensor \<Rightarrow> bool) \<Rightarrow> jit_case" where
  "jit_kernel fits i n vm =
     (if bad_abc i then deopt vm
      else do {
        bt \<leftarrow> get_tag (ib i) vm; ct \<leftarrow> get_tag (ic i) vm;
        (if bt \<noteq> VT_TensorHandle \<or> ct \<noteq> VT_TensorHandle then deopt vm
         else do {
           x \<leftarrow> get_val (ib i) vm; y \<leftarrow> get_val (ic i) vm;
           (case (tensor_at (st vm) x, tensor_at (st vm) y) of
              (Some t, Some u) \<Rightarrow> if fits t u then None else deopt vm
            | _ \<Rightarrow> deopt vm)
         })
      })"

definition matmul_fits :: "tensor \<Rightarrow> tensor \<Rightarrow> bool" where
  "matmul_fits t u \<longleftrightarrow> length (tshape t) = 2 \<and> length (tshape u) = 2 \<and> tshape t ! 1 = tshape u ! 0"

definition rmsnorm_fits :: "tensor \<Rightarrow> tensor \<Rightarrow> bool" where
  "rmsnorm_fits t u \<longleftrightarrow> tshape t \<noteq> [] \<and> length (tshape u) = 1 \<and> tshape u ! 0 = last (tshape t)"

text \<open>The switch.\<close>

definition jit_cases :: "(opcode \<times> jit_case) list" where
  "jit_cases = [
     (Op_Add, jit_bin add_int), (Op_Sub, jit_bin sub_int), (Op_Mul, jit_bin mul_int),
     (Op_Div, jit_divmod), (Op_Mod, jit_divmod), (Op_Inc, jit_inc 1), (Op_Dec, jit_inc (- 1)),
     (Op_Mov, jit_mov), (Op_Neg, jit_un neg_int),
     (Op_TNot, jit_un (\<lambda>x. Some (word_of_int (- jit_clamp_trit x)))),
     (Op_TAnd, jit_bin (jit_trit_binary Op_TAnd)), (Op_TOr, jit_bin (jit_trit_binary Op_TOr)),
     (Op_TXor, jit_bin (jit_trit_binary Op_TXor)),
     (Op_LoadImm, jit_load_imm), (Op_Load, jit_load), (Op_Store, jit_store), (Op_Push, jit_push), (Op_Pop, jit_pop),
     (Op_MakeOptionSome, jit_make_option True), (Op_MakeOptionNone, jit_make_option False),
     (Op_MakeResultOk, jit_make_result True), (Op_MakeResultErr, jit_make_result False),
     (Op_OptionIsSome, jit_with VT_OptionHandle options (\<lambda>i x. Some (bool_word (has_value x), VT_Int))),
     (Op_OptionUnwrap, jit_with VT_OptionHandle options (\<lambda>i x.
        if has_value x then Some (opt_payload x, opt_payload_tag x) else None)),
     (Op_ResultIsOk, jit_with VT_ResultHandle results (\<lambda>i x. Some (bool_word (is_ok x), VT_Int))),
     (Op_ResultUnwrapOk, jit_with VT_ResultHandle results (\<lambda>i x.
        if is_ok x then Some (res_payload x, res_payload_tag x) else None)),
     (Op_ResultUnwrapErr, jit_with VT_ResultHandle results (\<lambda>i x.
        if is_ok x then None else Some (res_payload x, res_payload_tag x))),
     (Op_MakeEnumVariant, jit_make_enum), (Op_MakeEnumVariantPayload, jit_make_enum_payload),
     (Op_EnumIsVariant, jit_with VT_EnumHandle enums (\<lambda>i x. Some (bool_word (variant_id x = op_c i), VT_Int))),
     (Op_EnumUnwrapPayload, jit_with VT_EnumHandle enums (\<lambda>i x.
        if has_payload x then Some (enum_payload x, enum_payload_tag x) else None)),
     (Op_MakeComplex, jit_make_complex), (Op_TMatMul, jit_kernel matmul_fits), (Op_TRMSNorm, jit_kernel rmsnorm_fits),
     (Op_Less, jit_bin (jit_less Op_Less)), (Op_LessEqual, jit_bin (jit_less Op_LessEqual)),
     (Op_Greater, jit_bin (jit_less Op_Greater)), (Op_GreaterEqual, jit_bin (jit_less Op_GreaterEqual)),
     (Op_Equal, jit_bin (jit_less Op_Equal)), (Op_NotEqual, jit_bin (jit_less Op_NotEqual)),
     (Op_Cmp, jit_cmp), (Op_SetF, jit_setf),
     (Op_BitAnd, jit_bin (\<lambda>x y. Some (x AND y))), (Op_BitOr, jit_bin (\<lambda>x y. Some (x OR y))),
     (Op_BitXor, jit_bin (\<lambda>x y. Some (x XOR y))), (Op_BitNot, jit_un (\<lambda>x. Some (NOT x))),
     (Op_BitShl, jit_bin (\<lambda>x y. Some (push_bit (unat (y AND 0x3F)) x))),
     (Op_BitShr, jit_bin (\<lambda>x y. Some (signed_drop_bit (unat (y AND 0x3F)) x))),
     (Op_BitUShr, jit_bin (\<lambda>x y. Some (drop_bit (unat (y AND 0x3F)) x))),
     (Op_Jump, \<lambda>i n. branch i), (Op_JumpIfZero, jit_jump_on (\<lambda>v. v = 0)), (Op_JumpIfNotZero, jit_jump_on (\<lambda>v. v \<noteq> 0)),
     (Op_JumpIfNegative, \<lambda>i n vm. if flag_negative (flags (cur vm)) then branch i vm else go vm),
     (Op_JumpIfPositive, \<lambda>i n vm. if flag_positive (flags (cur vm)) then branch i vm else go vm),
     (Op_Call, jit_call), (Op_Ret, jit_ret)]"

text \<open>After the switch the flags follow the first operand, whether or not a guard has failed.\<close>

definition keeps_flags :: "opcode set" where
  "keeps_flags = {Op_Jump, Op_JumpIfZero, Op_JumpIfNotZero, Op_JumpIfNegative, Op_JumpIfPositive, Op_Call,
     Op_Ret, Op_Store, Op_Push, Op_Cmp, Op_TMatMul, Op_TRMSNorm}"

definition jit_insn :: jit_case where
  "jit_insn i n vm = do {
     (e, vm) \<leftarrow> (case map_of jit_cases (opcode i) of Some f \<Rightarrow> f i n vm | None \<Rightarrow> deopt vm);
     vm \<leftarrow> (if opcode i \<in> keeps_flags then Some vm else update_flags_of (ia i) vm);
     Some (e, vm)
   }"

section \<open>Executing a trace\<close>

datatype jit_exit = JCompleted | JBranched | JGuardDeopt | JPolicyDeny

text \<open>The policy hook that the interpreter passes; \<open>base\<close> is the instruction count it starts from.\<close>

definition policy_hook :: "nat \<Rightarrow> insn \<Rightarrow> nat \<Rightarrow> nat \<Rightarrow> vm \<Rightarrow> (bool \<times> vm) option" where
  "policy_hook base i cpc n vm = do {
     (v, e) \<leftarrow> evaluate (axion_engine vm)
       (make_syscall_context (st vm) (current_context (st vm)) ''t81vm'' ''step'' [] cpc (opcode i)
          (instruction_count vm) (Some (base + n + 1)));
     let vm = vm\<lparr>axion_engine := e\<rparr>;
     let vm = (if vkind v = Warn then rec_event (opcode i) 0 0 v vm else vm);
     Some (vkind v \<noteq> Deny, vm)
   }"

fun jit_execute :: "nat \<Rightarrow> insn list \<Rightarrow> nat \<Rightarrow> vm \<Rightarrow> (jit_exit \<times> nat \<times> vm) option" where
  "jit_execute base [] n vm = Some (JCompleted, n, set_pc (pc (cur vm) + n) vm)"
| "jit_execute base (i # is) n vm = do {
     (ok, vm) \<leftarrow> policy_hook base i (pc (cur vm) + n) n vm;
     if \<not> ok then Some (JPolicyDeny, n, vm)
     else do {
       (e, vm) \<leftarrow> jit_insn i (n + 1) vm;
       (case e of
          JGo \<Rightarrow> jit_execute base is (n + 1) vm
        | JBranch \<Rightarrow> Some (JBranched, n + 1, vm)
        | JDeopt \<Rightarrow> Some (JGuardDeopt, n + 1, set_pc (pc (cur vm) + n) vm))
     }
   }"

section \<open>The step with traces\<close>

definition exit_name :: "jit_exit \<Rightarrow> string" where
  "exit_name e = (case e of JCompleted \<Rightarrow> ''completed'' | JBranched \<Rightarrow> ''branch''
     | JGuardDeopt \<Rightarrow> ''guard-deopt'' | JPolicyDeny \<Rightarrow> ''policy-deny'')"

definition trace_reason :: "jit_exit \<Rightarrow> string" where
  "trace_reason e = (if e = JGuardDeopt then ''jit trace deopt'' else ''jit trace exit'')"

text \<open>Entering a trace; the result says whether the step goes on with the interpreter.\<close>

definition run_trace :: "nat \<Rightarrow> insn list \<Rightarrow> vm \<Rightarrow> ((trap option \<times> bool) \<times> vm) option" where
  "run_trace n is vm = do {
     let first = (if n < length (insns (prog vm)) then opcode (insns (prog vm) ! n) else Op_Halt);
     (v, vm) \<leftarrow> eval_axion_call ''jit trace enter'' n first [] vm;
     if vkind v = Deny then Some ((Some SecurityFault, False), vm)
     else do {
       let vm = rec_event Op_Nop (word_of_nat (length is)) (i64_of_size n)
         (allow (''jit trace enter pc='' @ show_nat n @ '' trace-len='' @ show_nat (length is))) vm;
       (e, k, vm) \<leftarrow> jit_execute (instruction_count vm) is 0 vm;
       let vm = vm\<lparr>instruction_count := instruction_count vm + k\<rparr>;
       let vm = rec_event Op_Nop (word_of_nat k) (i64_of_size (pc (cur vm)))
         (allow (trace_reason e @ '' pc='' @ show_nat (pc (cur vm)) @ '' executed='' @ show_nat k @
            '' exit-kind='' @ exit_name e)) vm;
       (v, vm) \<leftarrow> eval_axion_call (trace_reason e) (pc (cur vm)) first [] vm;
       Some ((if vkind v = Deny \<or> e = JPolicyDeny then Some SecurityFault else None,
              vkind v \<noteq> Deny \<and> e = JGuardDeopt), vm)
     }
   }"

text \<open>The rest of the step.  (\<open>MetaRefine\<close> would clear the traces when it writes code, but its validation
  never lets it.)\<close>

definition interpret_step :: "jit \<Rightarrow> vm \<Rightarrow> (trap option \<times> jit \<times> vm) option" where
  "interpret_step j vm =
     (let n = pc (cur vm) in
      if length (insns (prog vm)) \<le> n then do { (t, vm) \<leftarrow> run_past_end vm; Some (t, j, vm) }
      else let i = insns (prog vm) ! n in do {
        (t, vm) \<leftarrow> run_insn i n vm;
        Some (t, detect_hot_spot i n j, vm)
      })"

definition jit_step :: "jit \<Rightarrow> vm \<Rightarrow> (trap option \<times> jit \<times> vm) option" where
  "jit_step j vm =
     (if halted (st vm) then Some (None, j, vm)
      else if contexts (st vm) = [] then Some (None, j, upd_st (\<lambda>s. s\<lparr>halted := True\<rparr>) vm)
      else do {
        (found, vm) \<leftarrow> schedule vm;
        if \<not> found then Some (None, j, vm)
        else case take_fault (instruction_count vm) (pending_faults (st vm)) of
          Some (t, rest) \<Rightarrow> Some (Some t, j, upd_st (\<lambda>s. s\<lparr>pending_faults := rest\<rparr>)
            (rec_event Op_Trap 0 0 (deny (fault_injection_reason (instruction_count vm) t)) vm))
        | None \<Rightarrow>
            (case compiled_traces j (pc (cur vm)) of
               None \<Rightarrow> interpret_step j vm
             | Some is \<Rightarrow> do {
                 let n = pc (cur vm);
                 ((t, go_on), vm) \<leftarrow> run_trace n is vm;
                 if go_on then interpret_step (j\<lparr>compiled_traces := (compiled_traces j)(n := None)\<rparr>) vm
                 else Some (t, j, vm)
               })
      })"

text \<open>\<open>run_to_halt\<close> over these steps.\<close>

fun jit_run :: "nat \<Rightarrow> jit \<Rightarrow> vm \<Rightarrow> (trap option \<times> jit \<times> vm) option" where
  "jit_run 0 j vm = Some (None, j, vm)"
| "jit_run (Suc n) j vm =
     (if halted (st vm) then Some (None, j, vm)
      else do {
        (t, j, vm) \<leftarrow> jit_step j vm;
        if t = None then jit_run n j vm else Some (t, j, vm)
      })"

end
