(* ===== verification/Properties_Jit.thy ===== *)
theory Properties_Jit
  imports T81_Jit Properties_Machine
begin

text \<open>
  Properties of the trace compiler: what a compiled trace does is what the interpreter does, and a run
  that no instruction is hot in never leaves the interpreter.
\<close>

section \<open>Without a trace\<close>

definition untraced :: "jit \<Rightarrow> bool" where
  "untraced j \<longleftrightarrow> \<not> tracing j \<and> compiled_traces j = Map.empty"

lemma jit_step_untraced:
  assumes "compiled_traces j = Map.empty"
  shows "map_option (\<lambda>(t, j, vm). (t, vm)) (jit_step j vm) = step vm"
proof -
  have "map_option (\<lambda>(t, j, vm). (t, vm)) (interpret_step j vm') =
      (if length (insns (prog vm')) \<le> pc (cur vm') then run_past_end vm'
       else run_insn (insns (prog vm') ! pc (cur vm')) (pc (cur vm')) vm')" for vm'
    by (auto simp: interpret_step_def Let_def map_option_case split: option.split bind_split)
  with assms show ?thesis
    by (auto simp: jit_step_def step_def continue_def fault_def Let_def split: option.split prod.split bind_split)
qed

lemma hot_spots_kept:
  "hot_spots (record_instruction i j) = hot_spots j" "hot_spots (start_tracing n j) = hot_spots j"
  "hot_spots (snd (compile_trace j)) = hot_spots j"
  by (simp_all add: record_instruction_def start_tracing_def compile_trace_def Let_def)

definition count_visit :: "nat \<Rightarrow> jit \<Rightarrow> jit" where
  "count_visit cpc j = (if tracing j then j else j\<lparr>hot_spots := (hot_spots j)(cpc := hot_spots j cpc + 1)\<rparr>)"

lemma detect_hot_spot_hot: "hot_spots (detect_hot_spot i cpc j) = hot_spots (count_visit cpc j)"
proof -
  define j1 where "j1 = (if \<not> tracing j then let j = count_visit cpc j
      in if kHotSpotThreshold \<le> hot_spots j cpc then start_tracing cpc j else j else j)"
  have h: "hot_spots j1 = hot_spots (count_visit cpc j)"
    by (simp add: j1_def Let_def hot_spots_kept count_visit_def)
  have "detect_hot_spot i cpc j = (if tracing j1 then let j = record_instruction i j1
           in if \<not> tracing j then
                let n = start_pc j; (t, j) = compile_trace j
                in (case t of None \<Rightarrow> j | Some is \<Rightarrow> j\<lparr>compiled_traces := (compiled_traces j)(n \<mapsto> is)\<rparr>)
              else j else j1)"
    unfolding detect_hot_spot_def j1_def count_visit_def by (cases "tracing j") (simp_all add: Let_def)
  also have "hot_spots \<dots> = hot_spots j1"
    using hot_spots_kept(3) [of "record_instruction i j1"]
    by (cases "compile_trace (record_instruction i j1)") (auto simp: Let_def hot_spots_kept split: option.split)
  finally show ?thesis using h by simp
qed

lemma detect_hot_spot_facts:
  "hot_spots j n \<le> hot_spots (detect_hot_spot i cpc j) n"
  "untraced j \<Longrightarrow> hot_spots (detect_hot_spot i cpc j) cpc < kHotSpotThreshold \<Longrightarrow> untraced (detect_hot_spot i cpc j)"
  unfolding detect_hot_spot_hot
  by (auto simp: count_visit_def) (simp add: untraced_def detect_hot_spot_def Let_def)

lemma interpret_step_jit:
  assumes "interpret_step j vm = Some (t, j', vm')"
  shows "j' = j \<or> (\<exists>i n. j' = detect_hot_spot i n j)"
  using assms by (auto simp: interpret_step_def Let_def split: if_splits bind_splits)

lemma jit_step_mono:
  assumes "jit_step j vm = Some (t, j', vm')"
  shows "hot_spots j n \<le> hot_spots j' n"
proof -
  have "hot_spots j n \<le> hot_spots k' n" if "interpret_step k v = Some (t, k', v')" "hot_spots k = hot_spots j" for k k' v v' t
    using interpret_step_jit [OF that(1)] detect_hot_spot_facts(1) [of k n] that(2) by auto
  with assms show ?thesis
    by (auto simp: jit_step_def Let_def split: if_splits bind_splits option.splits prod.splits)
qed

lemma jit_run_mono: "jit_run m j vm = Some (t, j', vm') \<Longrightarrow> hot_spots j n \<le> hot_spots j' n"
proof (induction m arbitrary: j vm)
  case (Suc m)
  then show ?case
    by (auto split: if_splits bind_splits) (metis jit_step_mono order_trans)+
qed simp

lemma jit_step_cold:
  assumes "untraced j" "jit_step j vm = Some (t, j', vm')" "\<And>n. hot_spots j' n < kHotSpotThreshold"
  shows "untraced j'"
proof -
  have "untraced k'" if "interpret_step j v = Some (t, k', v')" "k' = j'" for k' v v' t
    using interpret_step_jit [OF that(1)] detect_hot_spot_facts(2) [OF assms(1)] assms(1,3) that(2) by auto
  moreover have "compiled_traces j = Map.empty" using assms(1) by (simp add: untraced_def)
  ultimately show ?thesis using assms(1,2)
    by (auto simp: jit_step_def Let_def split: if_splits bind_splits option.splits prod.splits)
qed


section \<open>Inside a trace\<close>

text \<open>The instructions that a trace executes as the interpreter does, up to what it does when a guard
  fails: all but those that log, intern or compare values of other types.\<close>

definition reserved_target :: "insn \<Rightarrow> bool" where
  "reserved_target i \<longleftrightarrow> op_a i = 0 \<or> 75 \<le> sint (op_a i) \<and> sint (op_a i) \<le> 80"

definition jit_pure :: "insn \<Rightarrow> bool" where
  "jit_pure i \<longleftrightarrow>
     opcode i \<in> {Op_Add, Op_Sub, Op_Mul, Op_Inc, Op_Dec, Op_Neg, Op_TNot, Op_TAnd, Op_TOr, Op_TXor, Op_BitAnd,
       Op_BitOr, Op_BitXor, Op_BitNot, Op_BitShl, Op_BitShr, Op_BitUShr, Op_Div, Op_Mod} \<or>
     opcode i = Op_LoadImm \<and> \<not> reserved_target i \<and> unat (literal_kind i) \<le> 6"

lemma jit_bin_alu2:
  "opcode i \<notin> keeps_flags \<Longrightarrow> map_of jit_cases (opcode i) = Some (jit_bin f) \<Longrightarrow>
   jit_insn i n vm = Some (JGo, vm') \<longleftrightarrow> alu2 f i cpc vm = Some (None, vm')"
  by (auto simp: jit_insn_def jit_bin_def alu2_def deopt_def go_def continue_def fault_def split: bind_splits if_splits)

lemma jit_un_alu1:
  "opcode i \<notin> keeps_flags \<Longrightarrow> map_of jit_cases (opcode i) = Some (jit_un f) \<Longrightarrow>
   jit_insn i n vm = Some (JGo, vm') \<longleftrightarrow> alu1 f i cpc vm = Some (None, vm')"
  by (auto simp: jit_insn_def jit_un_def alu1_def deopt_def go_def continue_def fault_def split: bind_splits if_splits)

lemma jit_inc_by:
  "opcode i \<notin> keeps_flags \<Longrightarrow> map_of jit_cases (opcode i) = Some (jit_inc d) \<Longrightarrow>
   jit_insn i n vm = Some (JGo, vm') \<longleftrightarrow> inc_by d i cpc vm = Some (None, vm')"
  by (auto simp: jit_insn_def jit_inc_def inc_by_def deopt_def go_def continue_def fault_def split: bind_splits if_splits)

lemma jit_clamp_trit_eq: "jit_clamp_trit v = clamp_trit v"
  by (auto simp: jit_clamp_trit_def clamp_trit_def)

lemma jit_trit_binary_eq:
  "jit_trit_binary Op_TAnd x y = Some (word_of_int (trit_and (clamp_trit x) (clamp_trit y)))"
  "jit_trit_binary Op_TOr x y = Some (word_of_int (trit_or (clamp_trit x) (clamp_trit y)))"
  "jit_trit_binary Op_TXor x y = Some (word_of_int (trit_xor (clamp_trit x) (clamp_trit y)))"
  by (simp_all add: jit_trit_binary_def jit_clamp_trit_eq trit_and_def trit_or_def trit_xor_def Let_def)

lemma jit_divmod_case:
  assumes "opcode i \<in> {Op_Div, Op_Mod}"
  shows "map_of jit_cases (opcode i) = Some jit_divmod"
  using assms by (elim insertE emptyE) (simp_all add: jit_cases_def)

lemma jit_divmod_exec:
  assumes "opcode i \<in> {Op_Div, Op_Mod}"
  shows "jit_insn i n vm = Some (JGo, vm') \<longleftrightarrow> exec_divmod i cpc vm = Some (None, vm')"
proof -
  have d: "div_int x 0 = Some None" "mod_int x 0 = Some None" "y \<noteq> 0 \<Longrightarrow> div_int x y \<noteq> Some None"
    "y \<noteq> 0 \<Longrightarrow> mod_int x y \<noteq> Some None" for x y
    by (auto simp: div_int_def mod_int_def)
  from assms have "opcode i \<notin> keeps_flags" by (auto simp: keeps_flags_def)
  with jit_divmod_case [OF assms] show ?thesis
    by (auto simp: jit_insn_def jit_divmod_def exec_divmod_def deopt_def go_def continue_def fault_def d
        split: bind_splits if_splits option.splits)
qed

lemma jit_load_imm_exec:
  assumes "opcode i = Op_LoadImm" "\<not> reserved_target i" "unat (literal_kind i) \<le> 6"
    "ia i < length (register_tags (cur vm))"
  shows "jit_insn i n vm = Some (JGo, vm') \<longleftrightarrow> exec_load_imm i cpc vm = Some (None, vm')"
proof (cases "bad_a i")
  case True
  with assms(1) show ?thesis
    by (auto simp: jit_insn_def jit_cases_def jit_load_imm_def exec_load_imm_def deopt_def fault_def split: bind_splits if_splits)
next
  case False
  define p where "p = (if literal_kind i = LK_SymbolHandle
      then (case runtime_token_tag_from_symbol_handle (st vm) (op_b i) of
              Some rt \<Rightarrow> (rt, 1) | None \<Rightarrow> (VT_SymbolHandle, op_b i))
      else (literal_kind_to_tag (literal_kind i), op_b i))"
  have s: "literal_kind_to_tag k = VT_SymbolHandle \<longleftrightarrow> k = LK_SymbolHandle" for k
    by (simp add: literal_kind_to_tag_def)
  then have k: "literal_kind_to_tag LK_SymbolHandle = VT_SymbolHandle" by blast
  have "opcode i \<notin> keeps_flags" "map_of jit_cases (opcode i) = Some jit_load_imm"
    using assms(1) by (simp_all add: keeps_flags_def jit_cases_def)
  then have "jit_insn i n vm = do { vm \<leftarrow> put_reg (ia i) (snd p) (fst p) vm; vm \<leftarrow> update_flags_of (ia i) vm; Some (JGo, vm) }"
    using False assms(3,4)
    by (simp add: jit_insn_def jit_load_imm_def go_def get_tag_def p_def Let_def split_beta split: option.split)
  moreover have "exec_load_imm i cpc vm = do { vm \<leftarrow> put_reg (ia i) (snd p) (fst p) vm; update_flags_of (ia i) vm \<bind> continue }"
  proof -
    have "set_reg (op_a i) v tag vm = put_reg (ia i) v tag vm" for v tag
      using assms(2) by (auto simp: set_reg_def reserved_target_def)
    moreover note False
    ultimately show ?thesis by (simp add: exec_load_imm_def s k p_def Let_def split_beta split: option.split)
  qed
  ultimately show ?thesis by (auto simp: continue_def split: bind_splits)
qed

lemma dispatch_handler: "map_of handlers (opcode i) = Some h \<Longrightarrow> dispatch i = h i"
  by (simp add: dispatch_def)

lemma jit_case_of:
  "opcode i = Op_Add \<Longrightarrow> map_of jit_cases (opcode i) = Some (jit_bin add_int)"
  "opcode i = Op_Sub \<Longrightarrow> map_of jit_cases (opcode i) = Some (jit_bin sub_int)"
  "opcode i = Op_Mul \<Longrightarrow> map_of jit_cases (opcode i) = Some (jit_bin mul_int)"
  "opcode i = Op_TAnd \<Longrightarrow> map_of jit_cases (opcode i) = Some (jit_bin (jit_trit_binary Op_TAnd))"
  "opcode i = Op_TOr \<Longrightarrow> map_of jit_cases (opcode i) = Some (jit_bin (jit_trit_binary Op_TOr))"
  "opcode i = Op_TXor \<Longrightarrow> map_of jit_cases (opcode i) = Some (jit_bin (jit_trit_binary Op_TXor))"
  "opcode i = Op_BitAnd \<Longrightarrow> map_of jit_cases (opcode i) = Some (jit_bin (\<lambda>x y. Some (x AND y)))"
  "opcode i = Op_BitOr \<Longrightarrow> map_of jit_cases (opcode i) = Some (jit_bin (\<lambda>x y. Some (x OR y)))"
  "opcode i = Op_BitXor \<Longrightarrow> map_of jit_cases (opcode i) = Some (jit_bin (\<lambda>x y. Some (x XOR y)))"
  "opcode i = Op_BitShl \<Longrightarrow> map_of jit_cases (opcode i) = Some (jit_bin (\<lambda>x y. Some (push_bit (unat (y AND 0x3F)) x)))"
  "opcode i = Op_BitShr \<Longrightarrow> map_of jit_cases (opcode i) = Some (jit_bin (\<lambda>x y. Some (signed_drop_bit (unat (y AND 0x3F)) x)))"
  "opcode i = Op_BitUShr \<Longrightarrow> map_of jit_cases (opcode i) = Some (jit_bin (\<lambda>x y. Some (drop_bit (unat (y AND 0x3F)) x)))"
  "opcode i = Op_Neg \<Longrightarrow> map_of jit_cases (opcode i) = Some (jit_un neg_int)"
  "opcode i = Op_TNot \<Longrightarrow> map_of jit_cases (opcode i) = Some (jit_un (\<lambda>x. Some (word_of_int (- jit_clamp_trit x))))"
  "opcode i = Op_BitNot \<Longrightarrow> map_of jit_cases (opcode i) = Some (jit_un (\<lambda>x. Some (NOT x)))"
  "opcode i = Op_Inc \<Longrightarrow> map_of jit_cases (opcode i) = Some (jit_inc 1)"
  "opcode i = Op_Dec \<Longrightarrow> map_of jit_cases (opcode i) = Some (jit_inc (- 1))"
  by (simp_all add: jit_cases_def)

lemma handler_of:
  "opcode i = Op_Add \<Longrightarrow> dispatch i = exec_add i" "opcode i = Op_Sub \<Longrightarrow> dispatch i = exec_sub i"
  "opcode i = Op_Mul \<Longrightarrow> dispatch i = exec_mul i" "opcode i = Op_TAnd \<Longrightarrow> dispatch i = exec_trit_binary i"
  "opcode i = Op_TOr \<Longrightarrow> dispatch i = exec_trit_binary i" "opcode i = Op_TXor \<Longrightarrow> dispatch i = exec_trit_binary i"
  "opcode i = Op_BitAnd \<Longrightarrow> dispatch i = exec_bitwise_binary i" "opcode i = Op_BitOr \<Longrightarrow> dispatch i = exec_bitwise_binary i"
  "opcode i = Op_BitXor \<Longrightarrow> dispatch i = exec_bitwise_binary i" "opcode i = Op_BitShl \<Longrightarrow> dispatch i = exec_bitwise_shift i"
  "opcode i = Op_BitShr \<Longrightarrow> dispatch i = exec_bitwise_shift i" "opcode i = Op_BitUShr \<Longrightarrow> dispatch i = exec_bitwise_shift i"
  "opcode i = Op_Neg \<Longrightarrow> dispatch i = exec_neg i" "opcode i = Op_TNot \<Longrightarrow> dispatch i = exec_tnot i"
  "opcode i = Op_BitNot \<Longrightarrow> dispatch i = exec_bitwise_not i" "opcode i = Op_Inc \<Longrightarrow> dispatch i = exec_inc i"
  "opcode i = Op_Dec \<Longrightarrow> dispatch i = exec_dec i" "opcode i = Op_Div \<Longrightarrow> dispatch i = exec_divmod i"
  "opcode i = Op_Mod \<Longrightarrow> dispatch i = exec_divmod i" "opcode i = Op_LoadImm \<Longrightarrow> dispatch i = exec_load_imm i"
  by (rule dispatch_handler; simp add: handlers_def)+

lemmas jit_ops = exec_add_def exec_sub_def exec_mul_def exec_inc_def exec_dec_def exec_neg_def exec_tnot_def
  exec_trit_binary_def exec_bitwise_binary_def exec_bitwise_not_def exec_bitwise_shift_def
  bit_shl_def bit_shr_def bit_ushr_def jit_trit_binary_eq jit_clamp_trit_eq trit_not_def

lemma jit_trit_binary_fun:
  "jit_trit_binary Op_TAnd = (\<lambda>x y. Some (word_of_int (trit_and (clamp_trit x) (clamp_trit y))))"
  "jit_trit_binary Op_TOr = (\<lambda>x y. Some (word_of_int (trit_or (clamp_trit x) (clamp_trit y))))"
  "jit_trit_binary Op_TXor = (\<lambda>x y. Some (word_of_int (trit_xor (clamp_trit x) (clamp_trit y))))"
  by (intro ext, rule jit_trit_binary_eq)+

lemma jit_bin_form:
  assumes "opcode i \<in> {Op_Add, Op_Sub, Op_Mul, Op_TAnd, Op_TOr, Op_TXor, Op_BitAnd, Op_BitOr, Op_BitXor,
    Op_BitShl, Op_BitShr, Op_BitUShr}"
  shows "\<exists>f. map_of jit_cases (opcode i) = Some (jit_bin f) \<and> dispatch i = alu2 f i"
  using assms
  by (elim insertE emptyE) ((rule exI, rule conjI, erule jit_case_of, simp add: handler_of jit_ops jit_trit_binary_fun Let_def)+)

lemma jit_un_form:
  assumes "opcode i \<in> {Op_Neg, Op_TNot, Op_BitNot}"
  shows "\<exists>f. map_of jit_cases (opcode i) = Some (jit_un f) \<and> dispatch i = alu1 f i"
  using assms
  by (elim insertE emptyE) ((rule exI, rule conjI, erule jit_case_of, simp add: handler_of jit_ops)+)

lemma jit_inc_form:
  assumes "opcode i \<in> {Op_Inc, Op_Dec}"
  shows "\<exists>d. map_of jit_cases (opcode i) = Some (jit_inc d) \<and> dispatch i = inc_by d i"
  using assms
  by (elim insertE emptyE) ((rule exI, rule conjI, erule jit_case_of, simp add: handler_of jit_ops)+)

lemma jit_pure_keeps: "jit_pure i \<Longrightarrow> opcode i \<notin> keeps_flags"
  by (auto simp: jit_pure_def keeps_flags_def)

lemma jit_pure_cases:
  assumes "jit_pure i"
  obtains (bin) f where "map_of jit_cases (opcode i) = Some (jit_bin f)" "dispatch i = alu2 f i"
  | (un) f where "map_of jit_cases (opcode i) = Some (jit_un f)" "dispatch i = alu1 f i"
  | (inc) d where "map_of jit_cases (opcode i) = Some (jit_inc d)" "dispatch i = inc_by d i"
  | (divmod) "opcode i \<in> {Op_Div, Op_Mod}" "dispatch i = exec_divmod i"
  | (load) "opcode i = Op_LoadImm" "\<not> reserved_target i" "unat (literal_kind i) \<le> 6" "dispatch i = exec_load_imm i"
proof -
  have "opcode i \<in> {Op_Add, Op_Sub, Op_Mul, Op_TAnd, Op_TOr, Op_TXor, Op_BitAnd, Op_BitOr, Op_BitXor,
      Op_BitShl, Op_BitShr, Op_BitUShr} \<or> opcode i \<in> {Op_Neg, Op_TNot, Op_BitNot} \<or> opcode i \<in> {Op_Inc, Op_Dec} \<or>
    opcode i \<in> {Op_Div, Op_Mod} \<or> opcode i = Op_LoadImm \<and> \<not> reserved_target i \<and> unat (literal_kind i) \<le> 6"
    using assms unfolding jit_pure_def by blast
  then show ?thesis
    using jit_bin_form [of i] jit_un_form [of i] jit_inc_form [of i] handler_of(18,19) [of i] handler_of(20) [of i] that
    by blast
qed

lemma jit_pure_agrees:
  assumes "jit_pure i" "ia i < length (register_tags (cur vm))"
  shows "jit_insn i n vm = Some (JGo, vm') \<longleftrightarrow> dispatch i cpc vm = Some (None, vm')"
  using assms(1)
proof (cases rule: jit_pure_cases)
  case (load)
  with jit_load_imm_exec [OF load(1-3) assms(2)] show ?thesis by simp
qed (simp_all add: jit_bin_alu2 [OF jit_pure_keeps [OF assms(1)]] jit_un_alu1 [OF jit_pure_keeps [OF assms(1)]]
    jit_inc_by [OF jit_pure_keeps [OF assms(1)]] jit_divmod_exec)

section \<open>A whole trace\<close>

text \<open>In a trace the program counter and the instruction count stand still until it is left.\<close>

definition moved :: "nat \<Rightarrow> nat \<Rightarrow> vm \<Rightarrow> vm" where
  "moved p c vm = (set_pc p vm)\<lparr>instruction_count := c\<rparr>"

definition running :: "vm \<Rightarrow> bool" where
  "running vm \<longleftrightarrow> current_context (st vm) < length (contexts (st vm))"

lemma cur_upd_ctx_running: "running vm \<Longrightarrow> cur (upd_ctx f vm) = f (cur vm)"
  by (simp add: running_def cur_def upd_ctx_def)

lemma moved_cur: "running vm \<Longrightarrow> cur (moved p c vm) = (cur vm)\<lparr>pc := p\<rparr>"
  by (simp add: moved_def set_pc_def cur_upd_ctx_running cur_def) (simp add: cur_def running_def upd_ctx_def)

lemma upd_ctx_moved:
  "running vm \<Longrightarrow> f ((cur vm)\<lparr>pc := p\<rparr>) = (f (cur vm))\<lparr>pc := p\<rparr> \<Longrightarrow> upd_ctx f (moved p c vm) = moved p c (upd_ctx f vm)"
  by (simp add: moved_def set_pc_def upd_ctx_def cur_def running_def)

lemma running_moved [simp]: "running (moved p c vm) = running vm"
  by (simp add: running_def moved_def set_pc_def upd_ctx_def)

lemma st_moved [simp]: "symbols (st (moved p c vm)) = symbols (st vm)"
  by (simp add: moved_def set_pc_def upd_ctx_def)

lemma read_moved:
  assumes "running vm"
  shows "get_val n (moved p c vm) = get_val n vm" "get_tag n (moved p c vm) = get_tag n vm"
  using assms by (simp_all add: get_val_def get_tag_def moved_cur)

lemma put_reg_moved: "running vm \<Longrightarrow> put_reg n v t (moved p c vm) = map_option (moved p c) (put_reg n v t vm)"
  by (cases "arr_set (registers (cur vm)) n v"; cases "arr_set (register_tags (cur vm)) n t")
    (simp_all add: put_reg_def moved_cur upd_ctx_moved)

lemma put_reg_running: "put_reg n v t vm = Some vm' \<Longrightarrow> running vm \<Longrightarrow> running vm'"
  by (auto simp: put_reg_def running_def upd_ctx_def split: bind_splits)

lemma update_flags_of_moved:
  "running vm \<Longrightarrow> update_flags_of n (moved p c vm) = map_option (moved p c) (update_flags_of n vm)"
  by (cases "get_val n vm") (simp_all add: update_flags_of_def read_moved update_flags_def upd_ctx_moved)

text \<open>How all these instructions end.\<close>

definition write_back :: "nat \<Rightarrow> i64 \<Rightarrow> value_tag \<Rightarrow> vm \<Rightarrow> outcome" where
  "write_back n v t vm = do { vm \<leftarrow> put_reg n v t vm; vm \<leftarrow> update_flags_of n vm; continue vm }"

lemma write_back_moved:
  assumes "running vm" "write_back n v t vm = Some (None, vm')"
  shows "write_back n v t (moved p c vm) = Some (None, moved p c vm')"
  using assms put_reg_running [OF _ assms(1)]
  by (auto simp: write_back_def put_reg_moved update_flags_of_moved continue_def split: bind_splits)

lemma write_back_running: "write_back n v t vm = Some (None, vm') \<Longrightarrow> running vm \<Longrightarrow> running vm'"
  by (auto simp: write_back_def continue_def update_flags_of_def update_flags_def put_reg_def running_def upd_ctx_def
      split: bind_splits)

lemma jit_pure_writes:
  assumes "jit_pure i" "dispatch i n vm = Some (None, vm')"
  obtains v t where "write_back (ia i) v t vm = Some (None, vm')"
    "\<And>n p c. running vm \<Longrightarrow> dispatch i n (moved p c vm) = write_back (ia i) v t (moved p c vm)"
proof -
  note w = write_back_def [symmetric]
  show thesis
    using assms(1)
  proof (cases rule: jit_pure_cases)
    case (bin f)
    with assms(2) that show ?thesis
      by (auto simp: alu2_def w read_moved fault_def split: if_splits bind_splits)
  next
    case (un f)
    with assms(2) that show ?thesis
      by (auto simp: alu1_def w read_moved fault_def split: if_splits bind_splits)
  next
    case (inc d)
    with assms(2) that show ?thesis
      by (auto simp: inc_by_def w read_moved fault_def split: if_splits bind_splits)
  next
    case divmod
    with assms(2) that show ?thesis
      by (auto simp: exec_divmod_def w read_moved fault_def split: if_splits bind_splits option.splits)
  next
    case load
    have r: "runtime_token_tag_from_symbol_handle (st (moved p c m)) h = runtime_token_tag_from_symbol_handle (st m) h" for p c m h
      by (simp add: runtime_token_tag_from_symbol_handle_def)
    have p: "set_reg (op_a i) v tag m = put_reg (ia i) v tag m" for v tag m
      using load(2) by (auto simp: set_reg_def reserved_target_def)
    from load assms(2) that show ?thesis
      by (auto simp: exec_load_imm_def p w fault_def Let_def split_beta r split: if_splits)
  qed
qed

lemma write_back_in_range: "write_back n v t vm = Some (None, vm') \<Longrightarrow> n < length (register_tags (cur vm))"
  by (auto simp: write_back_def put_reg_def arr_set_def split: bind_splits if_splits)

lemma moved_moved [simp]: "running vm \<Longrightarrow> moved p c (moved q d vm) = moved p c vm"
  by (simp add: moved_def set_pc_def upd_ctx_def cur_def running_def)

lemma moved_same: "running vm \<Longrightarrow> moved (pc (cur vm)) (instruction_count vm) vm = vm"
  by (simp add: moved_def set_pc_def upd_ctx_def cur_def running_def)

lemma jit_pure_shift:
  assumes "jit_pure i" "running vm" "dispatch i n (moved p c vm) = Some (None, w)"
  obtains vm' where "jit_insn i k vm = Some (JGo, vm')" "w = moved p c vm'" "running vm'"
    "pc (cur vm') = pc (cur vm)" "instruction_count vm' = instruction_count vm"
proof -
  let ?q = "pc (cur vm)" and ?d = "instruction_count vm"
  obtain v t where w: "write_back (ia i) v t (moved p c vm) = Some (None, w)"
    "\<And>n p' c'. dispatch i n (moved p' c' (moved p c vm)) = write_back (ia i) v t (moved p' c' (moved p c vm))"
    using jit_pure_writes [OF assms(1,3)] assms(2) by auto
  have d: "dispatch i n vm = write_back (ia i) v t vm" using w(2) [of n ?q ?d] assms(2) moved_same by simp
  have vm': "write_back (ia i) v t vm = Some (None, moved ?q ?d w)"
    using write_back_moved [OF _ w(1), of ?q ?d] assms(2) moved_same by simp
  have r: "running (moved ?q ?d w)" using write_back_running [OF vm' assms(2)] .
  have "jit_insn i k vm = Some (JGo, moved ?q ?d w)"
    using jit_pure_agrees [OF assms(1), of vm k _ n] write_back_in_range [OF vm'] d vm' by simp
  moreover have "w = moved p c (moved ?q ?d w)"
    using write_back_moved [OF assms(2) vm', of p c] w(1) by simp
  moreover have "pc (cur (moved ?q ?d w)) = ?q" using r by (simp add: moved_cur)
  moreover have "instruction_count (moved ?q ?d w) = ?d" by (simp add: moved_def)
  ultimately show thesis using that r by blast
qed

text \<open>The reference: the interpreter on consecutive instructions, without what it does between them.\<close>

fun straight :: "insn list \<Rightarrow> nat \<Rightarrow> vm \<Rightarrow> vm option" where
  "straight [] n vm = Some vm"
| "straight (i # is) n vm = do {
     (v, vm) \<leftarrow> enter_insn i n vm;
     if vkind v = Deny \<or> vkind v = Warn then None
     else do { (t, vm) \<leftarrow> dispatch i n vm; if t = None then straight is (n + 1) vm else None }
   }"

lemma syscall_context_moved:
  assumes "running vm"
  shows "make_syscall_context (st (moved p c vm)) (current_context (st (moved p c vm))) who what load n oper c None =
    make_syscall_context (st vm) (current_context (st vm)) who what load n oper d (Some c)"
  using assms by (simp add: make_syscall_context_def moved_def set_pc_def upd_ctx_def cur_def running_def Let_def)

lemma enter_insn_moved:
  assumes "running vm"
  shows "enter_insn i n (moved p c vm) = do {
    (v, e) \<leftarrow> evaluate (axion_engine vm) (make_syscall_context (st vm) (current_context (st vm)) ''t81vm'' ''step'' []
      n (opcode i) (instruction_count vm) (Some (c + 1)));
    let m = (moved (n + 1) (c + 1) vm)\<lparr>axion_engine := e\<rparr>;
    Some (v, if vkind v = Deny \<or> vkind v = Warn then rec_event (opcode i) 0 0 v m else m)
  }"
proof -
  let ?M = "moved (n + 1) (c + 1) vm"
  have m: "(set_pc (n + 1) (moved p c vm))\<lparr>instruction_count := instruction_count (set_pc (n + 1) (moved p c vm)) + 1\<rparr> = ?M"
    using assms by (simp add: moved_def set_pc_def upd_ctx_def cur_def running_def)
  have f: "axion_engine ?M = axion_engine vm" "instruction_count ?M = c + 1"
    by (simp_all add: moved_def set_pc_def upd_ctx_def)
  show ?thesis
    unfolding enter_insn_def Let_def m eval_axion_call_def f
      syscall_context_moved [OF assms, of _ _ _ _ _ _ _ "instruction_count vm"]
    by (cases "evaluate (axion_engine vm) (make_syscall_context (st vm) (current_context (st vm)) ''t81vm'' ''step'' []
      n (opcode i) (instruction_count vm) (Some (c + 1)))") auto
qed

lemma jit_execute_straight:
  "running vm \<Longrightarrow> list_all jit_pure is \<Longrightarrow> p = pc (cur vm) \<Longrightarrow> c = instruction_count vm \<Longrightarrow>
   straight is (p + n) (moved (p + n) (c + n) vm) = Some vm' \<Longrightarrow>
   \<exists>vm1. jit_execute c is n vm = Some (JCompleted, n + length is, vm1) \<and>
     vm' = vm1\<lparr>instruction_count := c + n + length is\<rparr>"
proof (induction "is" arbitrary: n vm)
  case Nil
  then show ?case by (simp add: moved_def)
next
  case (Cons i "is")
  let ?M = "moved (p + n + 1) (c + n + 1)"
  obtain v e where v: "evaluate (axion_engine vm) (make_syscall_context (st vm) (current_context (st vm)) ''t81vm'' ''step'' []
      (p + n) (opcode i) (instruction_count vm) (Some (c + n + 1))) = Some (v, e)" "vkind v \<noteq> Deny" "vkind v \<noteq> Warn"
    and rest: "do { (t, w) \<leftarrow> dispatch i (p + n) ((?M vm)\<lparr>axion_engine := e\<rparr>); if t = None then straight is (p + n + 1) w else None } = Some vm'"
    using Cons.prems(5) unfolding straight.simps enter_insn_moved [OF Cons.prems(1)]
    by (auto simp: Let_def split: bind_splits if_splits)
  let ?e = "vm\<lparr>axion_engine := e\<rparr>"
  have e: "(?M vm)\<lparr>axion_engine := e\<rparr> = ?M ?e" "running ?e" "pc (cur ?e) = p" "instruction_count ?e = c"
    using Cons.prems(1,3,4) by (simp_all add: moved_def set_pc_def upd_ctx_def cur_def running_def)
  obtain w where w: "dispatch i (p + n) (?M ?e) = Some (None, w)" "straight is (p + n + 1) w = Some vm'"
    using rest unfolding e(1) by (auto split: bind_splits if_splits)
  obtain vm2 where vm2: "jit_insn i (n + 1) ?e = Some (JGo, vm2)" "w = ?M vm2" "running vm2" "pc (cur vm2) = p"
    "instruction_count vm2 = c"
    using jit_pure_shift [OF _ e(2) w(1), of "n + 1"] Cons.prems(2) e(3,4) by auto
  have "\<exists>vm1. jit_execute c is (n + 1) vm2 = Some (JCompleted, n + 1 + length is, vm1) \<and>
      vm' = vm1\<lparr>instruction_count := c + (n + 1) + length is\<rparr>"
    by (rule Cons.IH) (use vm2 w(2) Cons.prems(2) in \<open>simp_all add: add.assoc\<close>)
  moreover have "policy_hook c i (pc (cur vm) + n) n vm = Some (True, ?e)"
    using v Cons.prems(3) by (simp add: policy_hook_def)
  ultimately show ?case using vm2(1) by auto
qed


section \<open>Comparisons\<close>

definition jit_compares :: "insn \<Rightarrow> bool" where
  "jit_compares i \<longleftrightarrow> opcode i \<in> {Op_Less, Op_LessEqual, Op_Greater, Op_GreaterEqual, Op_Equal, Op_NotEqual}"

lemma jit_compare_form:
  assumes "jit_compares i"
  shows "map_of jit_cases (opcode i) = Some (jit_bin (jit_less (opcode i)))" "dispatch i = exec_compare i"
    "opcode i \<notin> keeps_flags"
  using assms unfolding jit_compares_def
  by (elim insertE emptyE; simp add: jit_cases_def)
    (use assms in \<open>auto simp: jit_compares_def keeps_flags_def handlers_def intro!: dispatch_handler\<close>)

lemma compare_ints: "compare_value (Suc f) s VT_Int l r = Some (Some (cmp_i64 l r))"
  by (simp add: compare_value.simps(2) compare_leaf_def compared_as_int_def symbol_like_text_def runtime_token_text_def)

lemma relation_of_ints:
  "jit_compares i \<Longrightarrow> jit_less (opcode i) x y = Some (bool_word (relation_holds (opcode i) (cmp_i64 x y)))"
  unfolding jit_compares_def
  by (elim insertE emptyE) (auto simp: jit_less_def relation_holds_def cmp_i64_def simp flip: sint_inject)

lemma jit_compare_agrees:
  assumes "jit_compares i" "get_tag (ib i) vm = Some VT_Int" "get_tag (ic i) vm = Some VT_Int"
  shows "jit_insn i n vm = Some (JGo, vm') \<longleftrightarrow> dispatch i cpc vm = Some (None, vm')"
proof -
  obtain f where f: "compare_fuel (st vm) = Suc f" by (simp add: compare_fuel_def)
  show ?thesis
    using assms(2,3)
    by (auto simp: jit_insn_def jit_compare_form [OF assms(1)] jit_bin_def relation_of_ints [OF assms(1)] exec_compare_def
        deopt_def go_def continue_def fault_def f compare_ints simp del: compare_value.simps split: bind_splits if_splits)
qed

text \<open>One instruction of a trace goes on exactly when the interpreter's handler ends without a trap,
  and then with the same machine: for the arithmetic, bitwise, trit and literal instructions on any
  operands, and for the six comparisons on two integers.\<close>
theorem jit_insn_agrees:
  assumes "jit_pure i \<or> jit_compares i \<and> get_tag (ib i) vm = Some VT_Int \<and> get_tag (ic i) vm = Some VT_Int"
    "ia i < length (register_tags (cur vm))"
  shows "jit_insn i n vm = Some (JGo, vm') \<longleftrightarrow> dispatch i cpc vm = Some (None, vm')"
  using assms jit_pure_agrees jit_compare_agrees by blast

text \<open>A guard that fails on a register that does not exist is followed by an update of the flags from
  that same register.\<close>

lemma failed_guard_reads_past_registers:
  assumes "jit_pure i" "length (registers (cur vm)) \<le> ia i" "bad_a i"
  shows "jit_insn i n vm = None"
proof -
  have u: "update_flags_of (ia i) vm = None"
    using assms(2) by (simp add: update_flags_of_def get_val_def arr_get_def)
  have "\<exists>f. map_of jit_cases (opcode i) = Some f \<and> f i n vm = deopt vm"
    using assms(1)
  proof (cases rule: jit_pure_cases)
    case divmod
    with jit_divmod_case have "map_of jit_cases (opcode i) = Some jit_divmod" by blast
    with assms(3) show ?thesis by (simp add: jit_divmod_def bad_abc_def bad_a_def)
  next
    case load
    then have "map_of jit_cases (opcode i) = Some jit_load_imm" by (simp add: jit_cases_def)
    with assms(3) show ?thesis by (simp add: jit_load_imm_def)
  qed (use assms(3) in \<open>simp_all add: jit_bin_def jit_un_def jit_inc_def bad_abc_def bad_ab_def bad_a_def\<close>)
  with u jit_pure_keeps [OF assms(1)] show ?thesis by (auto simp: jit_insn_def deopt_def)
qed

section \<open>Concrete machines\<close>

lemma cold_start:
  assumes "step vm = Some (t, vm')" "\<not> halted (st vm)"
  shows "\<exists>j. jit_run 1 init_jit vm = Some (t, j, vm') \<and> (\<forall>n. hot_spots j n < kHotSpotThreshold)"
proof -
  have e: "compiled_traces init_jit = Map.empty" by (simp add: init_jit_def)
  obtain j where j: "jit_step init_jit vm = Some (t, j, vm')"
    using jit_step_untraced [OF e, of vm] assms(1) by auto
  have "j = init_jit \<or> (\<exists>i n. j = detect_hot_spot i n init_jit)"
    using j e interpret_step_jit by (auto simp: jit_step_def Let_def split: if_splits bind_splits option.splits prod.splits)
  then have "hot_spots j n < kHotSpotThreshold" for n
    by (auto simp: detect_hot_spot_hot count_visit_def init_jit_def kHotSpotThreshold_def)
  with j assms(2) show ?thesis by auto
qed


lemma demo_running: "running demo_vm" "pc (cur demo_vm) = 0" "axion_engine demo_vm = AllowAll"
  "length (registers (cur demo_vm)) = 243" "length (register_tags (cur demo_vm)) = 243"
  by (simp_all add: running_def demo_vm_def fresh_vm_def load_state_def sync_system_registers_def init_state_def
      demo_facts(5) sync_context_ordinary reserved_reg_def cur_def init_ctx_def kRegisters_def layout_for_def kDefaultStackSize_def Let_def)

definition load_seven :: insn where
  "load_seven = \<lparr>opcode = Op_LoadImm, op_a = 1, op_b = 7, op_c = 0, literal_kind = LK_Int\<rparr>"

lemma load_seven_facts:
  "jit_pure load_seven" "ia load_seven = 1" "bad_a load_seven = False" "opcode load_seven = Op_LoadImm"
  by (simp_all add: load_seven_def jit_pure_def reserved_target_def bad_a_def reg_ok_def idx_def size_of_i32_def kRegisters_def)

lemma load_seven_runs:
  assumes "running vm" "length (registers (cur vm)) = 243" "length (register_tags (cur vm)) = 243"
  shows "\<exists>vm'. dispatch load_seven 0 vm = Some (None, vm')"
proof -
  have s: "set_reg 1 v t vm = put_reg 1 v t vm" for v t
    by (simp add: set_reg_def idx_def size_of_i32_def)
  obtain vm1 where p: "put_reg 1 7 (literal_kind_to_tag LK_Int) vm = Some vm1"
    using assms by (simp add: put_reg_def arr_set_def)
  then have "get_val 1 vm1 = Some 7"
    using assms by (auto simp: put_reg_def arr_set_def get_val_def arr_get_def cur_upd_ctx_running split: bind_splits)
  with p have "\<exists>vm'. exec_load_imm load_seven 0 vm = Some (None, vm')"
    by (simp add: exec_load_imm_def load_seven_facts s [unfolded One_nat_def] continue_def update_flags_of_def Let_def)
      (simp add: load_seven_def literal_kind_to_tag_def s [unfolded One_nat_def])
  then show ?thesis by (simp add: handler_of load_seven_facts)
qed



theorem jit_insn_agrees_witness:
  "\<exists>vm'. jit_insn load_seven 1 demo_vm = Some (JGo, vm')"
proof -
  obtain vm' where "dispatch load_seven 0 demo_vm = Some (None, vm')"
    using load_seven_runs demo_running by blast
  with jit_insn_agrees [of load_seven demo_vm 1 vm' 0] show ?thesis
    by (simp add: load_seven_facts demo_running)
qed

end
