(* ===== verification/T81_Chunks.thy ===== *)
theory T81_Chunks
  imports T81_Prelude
begin

text \<open>
  The digit arithmetic under the big integers (\<open>types/T81BigInt.hpp\<close>): lists of 64-bit chunks, the
  lowest first, in base \<open>3 ^ 27\<close>; carries, the product by Karatsuba's method and its carry loop.
  Chunks stay far below 64 bits and their products far below 128, so that they are integers here.
\<close>

section \<open>Chunks\<close>

definition kB :: int where "kB = 7625597484987"

definition halfB :: int where "halfB = (kB - 1) div 2"

lemma kB_facts: "kB = 3 ^ 27" "kB = 2 * halfB + 1" "0 < halfB" "1 < kB" "0 < kB"
  by (simp_all add: kB_def halfB_def)

text \<open>The number that a list of chunks stands for.\<close>

fun chunk_val :: "int list \<Rightarrow> int" where
  "chunk_val [] = 0"
| "chunk_val (c # cs) = c + kB * chunk_val cs"

lemma chunk_val_append: "chunk_val (xs @ ys) = chunk_val xs + kB ^ length xs * chunk_val ys"
  by (induction xs) (simp_all add: algebra_simps)

lemma chunk_val_zeros [simp]: "chunk_val (replicate n 0) = 0"
  by (induction n) simp_all

lemma chunk_val_update: "k < length xs \<Longrightarrow> chunk_val (xs[k := xs ! k + x]) = chunk_val xs + kB ^ k * x"
  by (induction xs arbitrary: k) (auto simp: algebra_simps split: nat.split)

lemma chunk_val_update_left: "k < length xs \<Longrightarrow> chunk_val (xs[k := x + xs ! k]) = chunk_val xs + kB ^ k * x"
  using chunk_val_update [of k xs x] by (simp add: add.commute)

lemma chunk_val_split: "chunk_val xs = chunk_val (take k xs) + kB ^ k * chunk_val (drop k xs)"
proof (cases "k \<le> length xs")
  case True
  have "chunk_val (take k xs @ drop k xs) = chunk_val (take k xs) + kB ^ length (take k xs) * chunk_val (drop k xs)"
    by (rule chunk_val_append)
  with True show ?thesis by simp
qed simp

definition balanced :: "int list \<Rightarrow> bool" where
  "balanced cs \<longleftrightarrow> list_all (\<lambda>c. \<bar>c\<bar> \<le> halfB) cs"

lemma balanced_simps [simp]:
  "balanced []" "balanced (c # cs) \<longleftrightarrow> \<bar>c\<bar> \<le> halfB \<and> balanced cs"
  "balanced (xs @ ys) \<longleftrightarrow> balanced xs \<and> balanced ys"
  by (simp_all add: balanced_def)

lemma balanced_take_drop: "balanced xs \<Longrightarrow> balanced (take k xs)" "balanced xs \<Longrightarrow> balanced (drop k xs)"
  using balanced_simps(3) [of "take k xs" "drop k xs"] by simp_all

text \<open>Balanced chunks: the number is small, and has the sign of its top chunk.\<close>

lemma balanced_bound: "balanced cs \<Longrightarrow> 2 * \<bar>chunk_val cs\<bar> < kB ^ length cs"
proof (induction cs)
  case (Cons c cs)
  have "2 * \<bar>c + kB * chunk_val cs\<bar> \<le> 2 * \<bar>c\<bar> + kB * (2 * \<bar>chunk_val cs\<bar>)"
    using abs_triangle_ineq [of c "kB * chunk_val cs"] kB_facts(5) by (simp add: abs_mult)
  also have "\<dots> < kB * 1 + kB * (kB ^ length cs - 1)"
  proof (rule add_less_le_mono)
    show "2 * \<bar>c\<bar> < kB * 1" using Cons.prems kB_facts(2) by simp
    show "kB * (2 * \<bar>chunk_val cs\<bar>) \<le> kB * (kB ^ length cs - 1)"
      using Cons kB_facts(5) by (intro mult_left_mono) auto
  qed
  finally show ?case by (simp add: algebra_simps)
qed simp

definition last_nonzero :: "int list \<Rightarrow> int" where
  "last_nonzero cs = (case List.find (\<lambda>c. c \<noteq> 0) (rev cs) of None \<Rightarrow> 0 | Some c \<Rightarrow> c)"

lemma last_nonzero_append: "last_nonzero (cs @ [c]) = (if c \<noteq> 0 then c else last_nonzero cs)"
  by (simp add: last_nonzero_def)

lemma last_nonzero_sgn: "balanced cs \<Longrightarrow> sgn (chunk_val cs) = sgn (last_nonzero cs)"
proof (induction cs rule: rev_induct)
  case (snoc c cs)
  show ?case
  proof (cases "c = 0")
    case False
    have b: "2 * \<bar>chunk_val cs\<bar> < kB ^ length cs" using snoc.prems by (intro balanced_bound) simp
    have "kB ^ length cs * 1 \<le> kB ^ length cs * \<bar>c\<bar>" using False kB_facts(5) by (intro mult_left_mono) auto
    moreover have "kB ^ length cs * \<bar>c\<bar> = (if 0 < c then kB ^ length cs * c else - (kB ^ length cs * c))" by simp
    ultimately show ?thesis using b False
      by (cases "0 < c") (simp_all add: last_nonzero_append chunk_val_append sgn_if, linarith+)
  qed (use snoc in \<open>simp add: last_nonzero_append chunk_val_append\<close>)
qed (simp add: last_nonzero_def)

section \<open>Carries\<close>

text \<open>The first loop of \<open>from_chunks\<close>; a carry that is left over at the end is one more chunk.\<close>

definition carry_step :: "int \<Rightarrow> int \<times> int" where
  "carry_step v = (if v > halfB then (v - kB, 1) else if v < - halfB then (v + kB, - 1) else (v, 0))"

fun carry_loop :: "int list \<Rightarrow> int \<Rightarrow> int list" where
  "carry_loop [] carry = (if carry \<noteq> 0 then [carry] else [])"
| "carry_loop (c # cs) carry = (let (d, carry) = carry_step (c + carry) in d # carry_loop cs carry)"

text \<open>The negation in \<open>from_chunks\<close>.\<close>

fun negate_loop :: "int list \<Rightarrow> int \<Rightarrow> int list" where
  "negate_loop [] carry = []"
| "negate_loop (c # cs) carry = (let (d, carry) = carry_step (- c + carry) in d # negate_loop cs carry)"

lemma carry_step_facts:
  assumes "\<bar>v\<bar> \<le> kB + halfB" "carry_step v = (d, c)"
  shows "v = d + kB * c" "\<bar>d\<bar> \<le> halfB" "\<bar>c\<bar> \<le> 1"
  using assms kB_facts(2,3) by (auto simp: carry_step_def split: if_splits)

lemma carry_loop_facts:
  assumes "list_all (\<lambda>c. \<bar>c\<bar> \<le> kB) cs" "\<bar>carry\<bar> \<le> 1"
  shows "chunk_val (carry_loop cs carry) = chunk_val cs + carry \<and> balanced (carry_loop cs carry)"
  using assms
proof (induction cs arbitrary: carry)
  case (Cons c cs)
  obtain d c' where s: "carry_step (c + carry) = (d, c')" by fastforce
  have "\<bar>c + carry\<bar> \<le> kB + halfB" using Cons.prems kB_facts(3) by auto
  from carry_step_facts [OF this s] Cons.IH [of c'] Cons.prems s show ?case by (auto simp: algebra_simps)
qed (use kB_facts(3) in auto)

lemma negate_loop_balanced:
  assumes "balanced cs"
  shows "negate_loop cs 0 = map uminus cs"
  using assms by (induction cs) (auto simp: carry_step_def)

lemma chunk_val_uminus [simp]: "chunk_val (map uminus cs) = - chunk_val cs"
  by (induction cs) simp_all

lemma balanced_uminus [simp]: "balanced (map uminus cs) = balanced cs"
  by (induction cs) simp_all

text \<open>Rounding to the nearest multiple of the base.\<close>

definition round_div :: "int \<Rightarrow> int" where
  "round_div v = (if 0 \<le> v then trunc_div (v + halfB) kB else trunc_div (v - halfB) kB)"

lemma round_div_eq: "round_div v = (v + halfB) div kB"
proof (cases "0 \<le> v")
  case False
  have "(v + halfB) div kB = - ((halfB - v) div kB)"
  proof -
    have "(halfB - v) div kB = - ((v + halfB) div kB)"
    proof (rule int_div_pos_eq)
      have m: "v + halfB = kB * ((v + halfB) div kB) + (v + halfB) mod kB" "0 \<le> (v + halfB) mod kB" "(v + halfB) mod kB < kB"
        using kB_facts(5) by simp_all
      show "halfB - v = kB * - ((v + halfB) div kB) + (kB - 1 - (v + halfB) mod kB)"
        using m(1) kB_facts(2) by (simp add: algebra_simps)
      show "0 \<le> kB - 1 - (v + halfB) mod kB" "kB - 1 - (v + halfB) mod kB < kB" using m by simp_all
    qed
    then show ?thesis by simp
  qed
  with False kB_facts(3,5) show ?thesis by (simp add: round_div_def trunc_div_def)
qed (use kB_facts(3,5) in \<open>simp add: round_div_def trunc_div_def\<close>)

lemma round_div_rest: "\<bar>v - round_div v * kB\<bar> \<le> halfB"
proof -
  have "v + halfB = kB * round_div v + (v + halfB) mod kB" "0 \<le> (v + halfB) mod kB" "(v + halfB) mod kB < kB"
    using kB_facts(5) by (simp_all add: round_div_eq)
  with kB_facts(2) show ?thesis by (simp add: mult.commute)
qed

lemma round_div_small: "\<bar>v\<bar> \<le> halfB \<Longrightarrow> round_div v = 0"
  using kB_facts(2) by (simp add: round_div_eq div_pos_pos_trivial)

lemma round_div_carry: "\<bar>v\<bar> \<le> kB \<Longrightarrow> \<bar>round_div v\<bar> \<le> 1"
proof -
  assume a: "\<bar>v\<bar> \<le> kB"
  have "v = round_div v * kB + (v - round_div v * kB)" by simp
  with a round_div_rest [of v] have "\<bar>round_div v * kB\<bar> \<le> kB + halfB" by linarith
  moreover have "\<bar>round_div v * kB\<bar> = \<bar>round_div v\<bar> * kB" using kB_facts(5) by (simp add: abs_mult)
  ultimately have l: "\<bar>round_div v\<bar> * kB < 2 * kB" using kB_facts(2,3) by linarith
  have "\<not> 2 \<le> \<bar>round_div v\<bar>"
  proof
    assume "2 \<le> \<bar>round_div v\<bar>"
    then have "2 * kB \<le> \<bar>round_div v\<bar> * kB" using kB_facts(5) by (intro mult_right_mono) simp_all
    with l show False by simp
  qed
  then show ?thesis by simp
qed

lemma round_div_less: "v \<noteq> 0 \<Longrightarrow> \<bar>round_div v\<bar> < \<bar>v\<bar>"
proof (cases "\<bar>v\<bar> \<le> halfB")
  case False
  have "\<bar>round_div v * kB\<bar> \<le> \<bar>v\<bar> + halfB" using round_div_rest [of v] by linarith
  then have "\<bar>round_div v\<bar> * kB < 2 * \<bar>v\<bar>" using False kB_facts(5) by (simp add: abs_mult)
  moreover have "\<bar>round_div v\<bar> * 2 \<le> \<bar>round_div v\<bar> * kB" using kB_facts(4) by (intro mult_left_mono) simp_all
  ultimately show "v \<noteq> 0 \<Longrightarrow> \<bar>round_div v\<bar> < \<bar>v\<bar>" by linarith
qed (simp add: round_div_small)

text \<open>The carry loop of the product, which the sums inside it use as well: what is left over when
  the chunks end is written out chunk by chunk.\<close>

function tail_chunks :: "int \<Rightarrow> int list" where
  "tail_chunks carry = (if carry = 0 then [] else let q = round_div carry in (carry - q * kB) # tail_chunks q)"
  by auto
termination
  by (relation "measure (\<lambda>c. nat \<bar>c\<bar>)") (auto dest: round_div_less)

declare tail_chunks.simps [simp del]

fun round_loop :: "int list \<Rightarrow> int \<Rightarrow> int list" where
  "round_loop [] carry = tail_chunks carry"
| "round_loop (c # cs) carry = (let v = c + carry; q = round_div v in (v - q * kB) # round_loop cs q)"

lemma tail_chunks_facts: "chunk_val (tail_chunks c) = c \<and> balanced (tail_chunks c)"
proof (induction c rule: tail_chunks.induct)
  case (1 c)
  show ?case
  proof (cases "c = 0")
    case False
    have "chunk_val (tail_chunks (round_div c)) = round_div c \<and> balanced (tail_chunks (round_div c))"
      using 1 [OF False refl] .
    with False round_div_rest [of c] show ?thesis
      by (simp add: tail_chunks.simps [of c] Let_def mult.commute)
  qed (simp add: tail_chunks.simps)
qed

lemma round_loop_facts: "chunk_val (round_loop cs c) = chunk_val cs + c \<and> balanced (round_loop cs c)"
proof (induction cs arbitrary: c)
  case (Cons x cs)
  from Cons.IH [of "round_div (x + c)"] round_div_rest [of "x + c"] show ?case
    by (simp add: Let_def algebra_simps)
qed (simp add: tail_chunks_facts)

lemma tail_chunks_small: "\<bar>c\<bar> \<le> halfB \<Longrightarrow> length (tail_chunks c) \<le> 1"
  by (simp add: tail_chunks.simps [of c] tail_chunks.simps [of 0] round_div_small Let_def)

lemma round_loop_length:
  "list_all (\<lambda>c. \<bar>c\<bar> \<le> kB - 1) cs \<Longrightarrow> \<bar>c\<bar> \<le> 1 \<Longrightarrow> length (round_loop cs c) \<le> length cs + 1"
proof (induction cs arbitrary: c)
  case Nil
  with kB_facts(3) tail_chunks_small [of c] show ?case by simp
next
  case (Cons x cs)
  then have "\<bar>round_div (x + c)\<bar> \<le> 1" by (intro round_div_carry) auto
  with Cons show ?case by (simp add: Let_def)
qed

section \<open>The product\<close>

fun mul_row :: "int \<Rightarrow> int list \<Rightarrow> nat \<Rightarrow> int list \<Rightarrow> int list" where
  "mul_row x [] n res = res"
| "mul_row x (y # ys) n res = mul_row x ys (n + 1) (if y = 0 then res else res[n := res ! n + x * y])"

fun school_loop :: "int list \<Rightarrow> int list \<Rightarrow> nat \<Rightarrow> int list \<Rightarrow> int list" where
  "school_loop [] ys n res = res"
| "school_loop (x # xs) ys n res = school_loop xs ys (n + 1) (if x = 0 then res else mul_row x ys n res)"

definition schoolbook :: "int list \<Rightarrow> int list \<Rightarrow> int list" where
  "schoolbook xs ys = school_loop xs ys 0 (replicate (length xs + length ys) 0)"

fun add_lists :: "int list \<Rightarrow> int list \<Rightarrow> int list" where
  "add_lists [] ys = ys"
| "add_lists (x # xs) [] = x # xs"
| "add_lists (x # xs) (y # ys) = (x + y) # add_lists xs ys"

definition add_v :: "int list \<Rightarrow> int list \<Rightarrow> int list" where
  "add_v xs ys = round_loop (add_lists xs ys) 0"

fun sub_v :: "int list \<Rightarrow> int list \<Rightarrow> int list" where
  "sub_v xs [] = xs"
| "sub_v [] (y # ys) = (0 - y) # sub_v [] ys"
| "sub_v (x # xs) (y # ys) = (x - y) # sub_v xs ys"

fun add_at :: "nat \<Rightarrow> int list \<Rightarrow> int list \<Rightarrow> int list" where
  "add_at n [] res = res"
| "add_at n (x # xs) res = add_at (n + 1) xs (res[n := res ! n + x])"

partial_function (option) karatsuba_mul :: "int list \<Rightarrow> int list \<Rightarrow> int list option" where
  "karatsuba_mul a b =
     (let n = max (length a) (length b) in
      if n \<le> 32 then Some (schoolbook a b)
      else
        let k = n div 2; a0 = take k a; a1 = drop k a; b0 = take k b; b1 = drop k b
        in Option.bind (karatsuba_mul a0 b0) (\<lambda>z0.
           Option.bind (karatsuba_mul a1 b1) (\<lambda>z2.
           Option.bind (karatsuba_mul (add_v a0 a1) (add_v b0 b1)) (\<lambda>z1.
             let middle = sub_v (sub_v z1 z0) z2;
                 res = replicate (max (max (length z2 + 2 * k) (length z0)) (length middle + k)) 0
             in Some (add_at (2 * k) z2 (add_at k middle (add_at 0 z0 res)))))))"

definition mul_chunks :: "int list \<Rightarrow> int list \<Rightarrow> int list option" where
  "mul_chunks a b = map_option (\<lambda>rc. round_loop rc 0) (karatsuba_mul a b)"

lemma mul_row_facts:
  "n + length ys \<le> length res \<Longrightarrow>
   length (mul_row x ys n res) = length res \<and> chunk_val (mul_row x ys n res) = chunk_val res + kB ^ n * (x * chunk_val ys)"
  by (induction ys arbitrary: n res) (auto simp: chunk_val_update_left algebra_simps)

lemma school_loop_facts:
  "n + length xs + length ys \<le> length res \<Longrightarrow>
   chunk_val (school_loop xs ys n res) = chunk_val res + kB ^ n * (chunk_val xs * chunk_val ys)"
proof (induction xs arbitrary: n res)
  case (Cons x xs)
  let ?r = "if x = 0 then res else mul_row x ys n res"
  have r: "length ?r = length res" "chunk_val ?r = chunk_val res + kB ^ n * (x * chunk_val ys)"
    using mul_row_facts [of n ys res x] Cons.prems by auto
  then show ?case using Cons.IH [of "n + 1" ?r] Cons.prems by (simp add: algebra_simps)
qed simp

lemma schoolbook_value: "chunk_val (schoolbook xs ys) = chunk_val xs * chunk_val ys"
  using school_loop_facts [of 0 xs ys "replicate (length xs + length ys) 0"] by (simp add: schoolbook_def)

lemma add_lists_value: "chunk_val (add_lists xs ys) = chunk_val xs + chunk_val ys"
  by (induction xs ys rule: add_lists.induct) (simp_all add: algebra_simps)

lemma add_lists_length: "length (add_lists xs ys) = max (length xs) (length ys)"
  by (induction xs ys rule: add_lists.induct) simp_all

lemma add_lists_bound: "balanced xs \<Longrightarrow> balanced ys \<Longrightarrow> list_all (\<lambda>c. \<bar>c\<bar> \<le> kB - 1) (add_lists xs ys)"
  using kB_facts(2,3) by (induction xs ys rule: add_lists.induct) (auto simp: balanced_def list_all_iff)

lemma add_v_facts:
  assumes "balanced xs" "balanced ys"
  shows "chunk_val (add_v xs ys) = chunk_val xs + chunk_val ys" "balanced (add_v xs ys)"
    "length (add_v xs ys) \<le> max (length xs) (length ys) + 1"
  using round_loop_facts [of "add_lists xs ys" 0] round_loop_length [OF add_lists_bound [OF assms], of 0]
  by (simp_all add: add_v_def add_lists_value add_lists_length)

lemma sub_v_value: "chunk_val (sub_v xs ys) = chunk_val xs - chunk_val ys"
  by (induction xs ys rule: sub_v.induct) (simp_all add: right_diff_distrib)

lemma add_at_facts:
  "n + length xs \<le> length res \<Longrightarrow>
   length (add_at n xs res) = length res \<and> chunk_val (add_at n xs res) = chunk_val res + kB ^ n * chunk_val xs"
  by (induction xs arbitrary: n res) (auto simp: chunk_val_update_left algebra_simps)

text \<open>The recursion ends, because the halves, with the carry of their sums, are shorter; and it gives the product.\<close>

lemma karatsuba_facts:
  "balanced a \<Longrightarrow> balanced b \<Longrightarrow> \<exists>r. karatsuba_mul a b = Some r \<and> chunk_val r = chunk_val a * chunk_val b"
proof (induction "max (length a) (length b)" arbitrary: a b rule: less_induct)
  case less
  define n where "n = max (length a) (length b)"
  show ?case
  proof (cases "n \<le> 32")
    case True
    then show ?thesis by (simp add: karatsuba_mul.simps [of a b] n_def schoolbook_value)
  next
    case False
    define k where "k = n div 2"
    define a0 a1 b0 b1 where ab: "a0 = take k a" "a1 = drop k a" "b0 = take k b" "b1 = drop k b"
    have bal: "balanced a0" "balanced a1" "balanced b0" "balanced b1"
      using less.prems by (simp_all add: ab balanced_take_drop)
    have k: "k \<le> n - k" "k < n" "n - k + 1 < n" using False by (simp_all add: k_def)
    have l: "length a0 \<le> k" "length b0 \<le> k" "length a1 \<le> n - k" "length b1 \<le> n - k"
      unfolding ab n_def by simp_all
    have "length (add_v a0 a1) \<le> n - k + 1" "length (add_v b0 b1) \<le> n - k + 1"
      using add_v_facts(3) [OF bal(1,2)] add_v_facts(3) [OF bal(3,4)] l k(1) by simp_all
    with l k have len: "max (length a0) (length b0) < n" "max (length a1) (length b1) < n"
      "max (length (add_v a0 a1)) (length (add_v b0 b1)) < n" unfolding max_less_iff_conj by linarith+
    obtain z0 where z0: "karatsuba_mul a0 b0 = Some z0" "chunk_val z0 = chunk_val a0 * chunk_val b0"
      using less.hyps [OF _ bal(1,3)] len(1) unfolding n_def by blast
    obtain z2 where z2: "karatsuba_mul a1 b1 = Some z2" "chunk_val z2 = chunk_val a1 * chunk_val b1"
      using less.hyps [OF _ bal(2,4)] len(2) unfolding n_def by blast
    obtain z1 where z1: "karatsuba_mul (add_v a0 a1) (add_v b0 b1) = Some z1"
      "chunk_val z1 = (chunk_val a0 + chunk_val a1) * (chunk_val b0 + chunk_val b1)"
      using less.hyps [OF _ add_v_facts(2) [OF bal(1,2)] add_v_facts(2) [OF bal(3,4)]] len(3)
      unfolding n_def by (auto simp: add_v_facts bal)
    define middle where "middle = sub_v (sub_v z1 z0) z2"
    define res where "res = (replicate (max (max (length z2 + 2 * k) (length z0)) (length middle + k)) 0 :: int list)"
    have m: "chunk_val middle = chunk_val a0 * chunk_val b1 + chunk_val a1 * chunk_val b0"
      by (simp add: middle_def sub_v_value z0 z1 z2 algebra_simps)
    have "chunk_val (add_at (2 * k) z2 (add_at k middle (add_at 0 z0 res))) =
        chunk_val z0 + kB ^ k * chunk_val middle + kB ^ (2 * k) * chunk_val z2"
      using add_at_facts [of 0 z0 res] add_at_facts [of k middle "add_at 0 z0 res"]
        add_at_facts [of "2 * k" z2 "add_at k middle (add_at 0 z0 res)"]
      by (simp add: res_def)
    also have "\<dots> = (chunk_val a0 + kB ^ k * chunk_val a1) * (chunk_val b0 + kB ^ k * chunk_val b1)"
      by (simp add: m z0 z2 algebra_simps power_add mult_2 mult_2_right)
    also have "\<dots> = chunk_val a * chunk_val b" unfolding ab by (simp flip: chunk_val_split)
    finally show ?thesis
      using False z0(1) z1(1) z2(1)
      by (simp add: karatsuba_mul.simps [of a b] Let_def n_def [symmetric] k_def [symmetric] ab [symmetric]
          middle_def [symmetric] res_def [symmetric])
  qed
qed

lemma mul_chunks_facts:
  assumes "balanced a" "balanced b"
  shows "\<exists>r. mul_chunks a b = Some r \<and> balanced r \<and> chunk_val r = chunk_val a * chunk_val b"
  using karatsuba_facts [OF assms] round_loop_facts by (auto simp: mul_chunks_def)

end
