(* ===== verification/T81_Knuth.thy ===== *)
theory T81_Knuth
  imports T81_Chunks
begin

text \<open>
  Division of chunk lists (\<open>types/T81BigInt.hpp\<close>): the passage to chunks between zero and the base,
  short division, and Knuth's Algorithm D.  A loop that would not end is \<open>None\<close>, an exception \<open>Inl\<close>.
\<close>

datatype big_error = BigOverflow string | BigDomain string | BigLogic string | BigInvalid string | BigRuntime string

section \<open>Standard chunks\<close>

definition std :: "int list \<Rightarrow> bool" where
  "std cs \<longleftrightarrow> list_all (\<lambda>c. 0 \<le> c \<and> c < kB) cs"

lemma std_simps [simp]:
  "std []" "std (c # cs) \<longleftrightarrow> 0 \<le> c \<and> c < kB \<and> std cs" "std (xs @ ys) \<longleftrightarrow> std xs \<and> std ys" "std (rev xs) = std xs"
  by (simp_all add: std_def)

lemma std_take_drop: "std xs \<Longrightarrow> std (take k xs)" "std xs \<Longrightarrow> std (drop k xs)"
  using std_simps(3) [of "take k xs" "drop k xs"] by simp_all

lemma std_nth: "std xs \<Longrightarrow> i < length xs \<Longrightarrow> 0 \<le> xs ! i \<and> xs ! i < kB"
  by (simp add: std_def list_all_length)

lemma std_bound: "std cs \<Longrightarrow> 0 \<le> chunk_val cs \<and> chunk_val cs < kB ^ length cs"
proof (induction cs)
  case (Cons c cs)
  have "kB * (chunk_val cs + 1) \<le> kB * kB ^ length cs" using Cons kB_facts(5) by (intro mult_left_mono) auto
  with Cons kB_facts(5) show ?case by (simp add: distrib_left)
qed simp

text \<open>\<open>to_std_chunks\<close>: borrow while a chunk is negative, carry while it is too large; the loop gives up
  when it has written more than four chunks past the end.\<close>

definition bump :: "int \<Rightarrow> int list \<Rightarrow> int list" where
  "bump d cs = (case cs of [] \<Rightarrow> [0 + d] | c # cs \<Rightarrow> (c + d) # cs)"

function borrow_while :: "int \<Rightarrow> int list \<Rightarrow> int \<times> int list" where
  "borrow_while c cs = (if c < 0 then borrow_while (c + kB) (bump (- 1) cs) else (c, cs))"
  by auto
termination
  using kB_facts(5) by (relation "measure (\<lambda>(c, _). nat (- c))") auto

function carry_while :: "int \<Rightarrow> int list \<Rightarrow> int \<times> int list" where
  "carry_while c cs = (if kB \<le> c then carry_while (c - kB) (bump 1 cs) else (c, cs))"
  by auto
termination
  using kB_facts(5) by (relation "measure (\<lambda>(c, _). nat c)") auto

declare borrow_while.simps [simp del] carry_while.simps [simp del]

function std_loop :: "nat \<Rightarrow> nat \<Rightarrow> int list \<Rightarrow> big_error + int list" where
  "std_loop limit i [] = Inr []"
| "std_loop limit i (c # cs) =
     (if limit < i + length (c # cs)
      then Inl (BigLogic ''to_std_chunks: borrow beyond MSB (input effectively negative)'')
      else let (c, cs) = borrow_while c cs; (c, cs) = carry_while c cs
           in case std_loop limit (i + 1) cs of Inl e \<Rightarrow> Inl e | Inr cs \<Rightarrow> Inr (c # cs))"
  by pat_completeness auto
termination
  by (relation "measure (\<lambda>(limit, i, _). limit - i)") auto

text \<open>Dropping top zeros, but for the last chunk.\<close>

fun trim_top :: "int list \<Rightarrow> int list" where
  "trim_top (c # d # cs) = (if c = 0 then trim_top (d # cs) else c # d # cs)"
| "trim_top cs = cs"

definition trim_chunks :: "int list \<Rightarrow> int list" where
  "trim_chunks cs = rev (trim_top (rev cs))"

definition or_zero :: "int list \<Rightarrow> int list" where
  "or_zero cs = (if cs = [] then [0] else cs)"

definition to_std_chunks :: "int list \<Rightarrow> big_error + int list" where
  "to_std_chunks cs =
     (case std_loop (length cs + 4) 0 cs of Inl e \<Rightarrow> Inl e | Inr cs \<Rightarrow> Inr (or_zero (trim_chunks cs)))"

subsection \<open>What they do\<close>

lemma bump_value [simp]: "chunk_val (bump d cs) = chunk_val cs + d"
  by (cases cs) (simp_all add: bump_def)

lemma bump_length: "length (bump d cs) = max 1 (length cs)"
  by (cases cs) (simp_all add: bump_def)

text \<open>From balanced chunks with a carry of at most one, one round of either loop is enough.\<close>

lemma borrow_while_facts:
  assumes "\<bar>c\<bar> \<le> halfB + 1"
  shows "borrow_while c cs = (if c < 0 then (c + kB, bump (- 1) cs) else (c, cs))"
proof -
  have "0 \<le> c + kB" using assms kB_facts(2,3) by linarith
  then show ?thesis by (simp add: borrow_while.simps [of c cs] borrow_while.simps [of "c + kB"])
qed

lemma carry_while_std: "c < kB \<Longrightarrow> carry_while c cs = (c, cs)"
  by (simp add: carry_while.simps)

lemma halfB_large: "1 < halfB"
  by (simp add: halfB_def kB_def)

lemma std_loop_facts:
  assumes "balanced cs" "\<bar>c\<bar> \<le> halfB + 1" "0 \<le> c + kB * chunk_val cs" "i + length cs + 1 \<le> limit"
  shows "\<exists>ds. std_loop limit i (c # cs) = Inr ds \<and> std ds \<and> chunk_val ds = c + kB * chunk_val cs \<and> ds \<noteq> []"
  using assms
proof (induction cs arbitrary: c i)
  case Nil
  then show ?case
    using kB_facts(2) halfB_large by (simp add: borrow_while_facts carry_while_std)
next
  case (Cons d cs)
  define c' d' where cd: "c' = (if c < 0 then c + kB else c)" "d' = (if c < 0 then d - 1 else d)"
  have c': "0 \<le> c'" "c' < kB" using Cons.prems(2) kB_facts(2) halfB_large by (auto simp: cd)
  have loop: "borrow_while c (d # cs) = (c', d' # cs)" "carry_while c' (d' # cs) = (c', d' # cs)"
    using borrow_while_facts [OF Cons.prems(2), of "d # cs"] c'(2) by (auto simp: cd bump_def carry_while_std)
  have v: "c' + kB * (d' + kB * chunk_val cs) = c + kB * chunk_val (d # cs)"
    by (simp add: cd algebra_simps)
  have "0 \<le> d' + kB * chunk_val cs"
  proof (rule ccontr)
    assume "\<not> 0 \<le> d' + kB * chunk_val cs"
    then have "kB * (d' + kB * chunk_val cs) \<le> kB * - 1" using kB_facts(5) by (intro mult_left_mono) auto
    with v c'(2) Cons.prems(3) show False by simp
  qed
  moreover have "\<bar>d'\<bar> \<le> halfB + 1" using Cons.prems(1) by (auto simp: cd)
  ultimately obtain ds where "std_loop limit (i + 1) (d' # cs) = Inr ds" "std ds" "chunk_val ds = d' + kB * chunk_val cs"
    using Cons.IH [of d' "i + 1"] Cons.prems(1,4) by auto
  with loop c' v Cons.prems(4) show ?case by simp
qed

lemma trim_top_facts: "chunk_val (rev (trim_top cs)) = chunk_val (rev cs)" "std cs \<Longrightarrow> std (trim_top cs)"
  "cs \<noteq> [] \<Longrightarrow> trim_top cs \<noteq> []" "1 < length (trim_top cs) \<Longrightarrow> hd (trim_top cs) \<noteq> 0"
  "length (trim_top cs) \<le> length cs"
  by (induction cs rule: trim_top.induct) (auto simp: chunk_val_append split: if_splits)

definition canonical :: "int list \<Rightarrow> bool" where
  "canonical cs \<longleftrightarrow> std cs \<and> cs \<noteq> [] \<and> (1 < length cs \<longrightarrow> last cs \<noteq> 0)"

lemma trim_chunks_facts:
  "chunk_val (or_zero (trim_chunks cs)) = chunk_val cs" "std cs \<Longrightarrow> canonical (or_zero (trim_chunks cs))"
proof -
  have v: "chunk_val (trim_chunks cs) = chunk_val cs"
    using trim_top_facts(1) [of "rev cs"] by (simp add: trim_chunks_def)
  show "chunk_val (or_zero (trim_chunks cs)) = chunk_val cs"
    using v by (auto simp: or_zero_def)
  show "canonical (or_zero (trim_chunks cs))" if "std cs"
    using that trim_top_facts(2,4) [of "rev cs"] kB_facts(5)
    by (auto simp: canonical_def or_zero_def trim_chunks_def last_rev)
qed

lemma to_std_chunks_facts:
  assumes "balanced cs" "0 \<le> chunk_val cs"
  shows "\<exists>ds. to_std_chunks cs = Inr ds \<and> canonical ds \<and> chunk_val ds = chunk_val cs"
proof (cases cs)
  case Nil
  with kB_facts(5) show ?thesis by (simp add: to_std_chunks_def or_zero_def trim_chunks_def canonical_def)
next
  case (Cons c rest)
  have "\<exists>ds. std_loop (length cs + 4) 0 (c # rest) = Inr ds \<and> std ds \<and> chunk_val ds = c + kB * chunk_val rest \<and> ds \<noteq> []"
    using assms Cons by (intro std_loop_facts) auto
  with Cons trim_chunks_facts show ?thesis by (auto simp: to_std_chunks_def)
qed

section \<open>Division\<close>

text \<open>From the top chunk down, by one chunk.  The same loop divides the remainder by the scale at the end.\<close>

fun short_div :: "int \<Rightarrow> int list \<Rightarrow> int \<Rightarrow> int list \<times> int" where
  "short_div d [] rem = ([], rem)"
| "short_div d (c # cs) rem =
     (let cur = rem * kB + c; (qs, r) = short_div d cs (trunc_mod cur d) in (trunc_div cur d # qs, r))"

fun mul_scalar :: "int \<Rightarrow> int list \<Rightarrow> int \<Rightarrow> int list" where
  "mul_scalar s [] carry = (if carry \<noteq> 0 then [carry] else [])"
| "mul_scalar s (c # cs) carry =
     (let prod = c * s + carry in trunc_mod prod kB # mul_scalar s cs (trunc_div prod kB))"

partial_function (option) qhat_loop :: "int \<Rightarrow> int \<Rightarrow> int \<Rightarrow> int \<Rightarrow> int \<Rightarrow> (int \<times> int) option" where
  "qhat_loop den v2 u2 qhat rhat =
     (if qhat = kB \<or> qhat * v2 > rhat * kB + u2 then
        let qhat = qhat - 1; rhat = rhat + den
        in if kB \<le> rhat then Some (qhat, rhat) else qhat_loop den v2 u2 qhat rhat
      else Some (qhat, rhat))"

fun sub_loop :: "int \<Rightarrow> int list \<Rightarrow> int list \<Rightarrow> int \<Rightarrow> int \<Rightarrow> int list \<times> int \<times> int" where
  "sub_loop qhat (v # vs) (u # us) carry borrow =
     (let prod = qhat * v + carry; s = u - trunc_mod prod kB + borrow; carry = trunc_div prod kB;
          (s, borrow) = (if s < 0 then (s + kB, - 1) else (s, 0));
          (ds, carry, borrow) = sub_loop qhat vs us carry borrow
      in (s # ds, carry, borrow))"
| "sub_loop qhat _ us carry borrow = (us, carry, borrow)"

fun add_back :: "int list \<Rightarrow> int list \<Rightarrow> int \<Rightarrow> int list \<times> int" where
  "add_back (v # vs) (u # us) carry =
     (let s = u + v + carry; (ds, carry) = add_back vs us (trunc_div s kB) in (trunc_mod s kB # ds, carry))"
| "add_back _ us carry = (us, carry)"

text \<open>One round of Algorithm D: the digit \<open>j\<close> of the quotient, and the dividend without its multiple of
  the divisor.\<close>

definition knuth_step :: "int list \<Rightarrow> int list \<Rightarrow> nat \<Rightarrow> (int \<times> int list) option" where
  "knuth_step v u j =
     (let n = length v; num = u ! (j + n) * kB + u ! (j + n - 1); den = v ! (n - 1);
          qhat = (if den = 0 then kB - 1 else trunc_div num den);
          rhat = (if den = 0 then 0 else trunc_mod num den)
      in Option.bind (qhat_loop den (v ! (n - 2)) (u ! (j + n - 2)) qhat rhat) (\<lambda>(qhat, rhat).
           let (w, carry, borrow) = sub_loop qhat v (take n (drop j u)) 0 0;
               s = u ! (j + n) - carry + borrow;
               (q, w, s) = (if s < 0 then let (w, carry) = add_back v w 0 in (qhat - 1, w, s + carry) else (qhat, w, s))
           in Some (q, take j u @ w @ s # drop (j + n + 1) u)))"

fun knuth_loop :: "int list \<Rightarrow> int list \<Rightarrow> nat list \<Rightarrow> (int list \<times> int list) option" where
  "knuth_loop v u [] = Some ([], u)"
| "knuth_loop v u (j # js) =
     Option.bind (knuth_step v u j) (\<lambda>(q, u). map_option (\<lambda>(qs, u). (q # qs, u)) (knuth_loop v u js))"

definition div_mod_std :: "int list \<Rightarrow> int list \<Rightarrow> (big_error + int list \<times> int list) option" where
  "div_mod_std u v =
     (if v = [] \<or> v = [0] then Some (Inl (BigDomain ''division by zero''))
      else if length v = 1 then
        let (qs, r) = short_div (v ! 0) (rev u) 0 in Some (Inr (or_zero (trim_chunks (rev qs)), [r]))
      else if length u < length v then Some (Inr ([0], u))
      else
        let d = trunc_div kB (last v + 1); u = mul_scalar d u 0; v = mul_scalar d v 0;
            n = length v; m = length u - n; u = u @ [0]
        in map_option (\<lambda>(qs, u). Inr (or_zero (trim_chunks (rev qs)),
               or_zero (trim_chunks (rev (fst (short_div d (rev (take n u)) 0))))))
             (knuth_loop v u (rev [0 ..< m + 1])))"

subsection \<open>Short division and scaling\<close>

lemma trunc_pos: "0 \<le> a \<Longrightarrow> 0 < b \<Longrightarrow> trunc_div a b = a div b \<and> trunc_mod a b = a mod b"
  by (simp add: trunc_div_def trunc_mod_eq)

lemma div_upper: "0 < b \<Longrightarrow> a < c * b \<Longrightarrow> a div b < (c :: int)"
proof (rule ccontr)
  assume b: "0 < b" "a < c * b" "\<not> a div b < c"
  then have "c * b \<le> a div b * b" by (intro mult_right_mono) simp_all
  also have "\<dots> \<le> a" using b(1) by (metis div_mult_mod_eq le_add_same_cancel1 pos_mod_sign)
  finally show False using b(2) by simp
qed

lemma short_div_facts:
  assumes "0 < d" "d \<le> kB" "short_div d cs rem = (qs, r)" "std cs" "0 \<le> rem" "rem < d"
  shows "length qs = length cs \<and> std qs \<and> 0 \<le> r \<and> r < d \<and>
    rem * kB ^ length cs + chunk_val (rev cs) = d * chunk_val (rev qs) + r"
  using assms(3-6)
proof (induction cs arbitrary: rem qs)
  case (Cons c cs)
  define cur where "cur = rem * kB + c"
  obtain qs' where s: "short_div d cs (cur mod d) = (qs', r)" "qs = cur div d # qs'"
    using Cons.prems assms(1) kB_facts(5) by (auto simp: Let_def cur_def trunc_pos split: prod.splits)
  have m: "0 \<le> cur mod d" "cur mod d < d" using assms(1) by simp_all
  have "0 \<le> cur" using Cons.prems kB_facts(5) by (simp add: cur_def)
  moreover have "cur div d < kB"
  proof -
    have "(rem + 1) * kB \<le> d * kB" using Cons.prems(4) kB_facts(5) by (intro mult_right_mono) auto
    then have "cur < kB * d" using Cons.prems(2) by (simp add: cur_def algebra_simps)
    with assms(1) show ?thesis by (intro div_upper) simp_all
  qed
  ultimately have q: "0 \<le> cur div d \<and> cur div d < kB" using assms(1) by (simp add: pos_imp_zdiv_nonneg_iff)
  have IH: "length qs' = length cs \<and> std qs' \<and> 0 \<le> r \<and> r < d \<and>
    (cur mod d) * kB ^ length cs + chunk_val (rev cs) = d * chunk_val (rev qs') + r"
    using Cons.prems(2) m by (intro Cons.IH [OF s(1)]) simp_all
  have "rem * kB ^ length (c # cs) + chunk_val (rev (c # cs)) = cur * kB ^ length cs + chunk_val (rev cs)"
    by (simp add: chunk_val_append cur_def algebra_simps)
  also have "\<dots> = d * (cur div d) * kB ^ length cs + (cur mod d * kB ^ length cs + chunk_val (rev cs))"
    using arg_cong [OF mult_div_mod_eq [of d cur], of "\<lambda>x. x * kB ^ length cs"] by (simp only: distrib_right)
  also have "\<dots> = d * chunk_val (rev qs) + r"
    using IH by (simp add: s(2) chunk_val_append algebra_simps)
  finally show ?case using IH q s(2) by simp
qed simp

lemma mul_scalar_facts:
  assumes "std cs" "0 \<le> s" "s \<le> kB" "0 \<le> carry" "carry < kB"
  shows "std (mul_scalar s cs carry) \<and> chunk_val (mul_scalar s cs carry) = s * chunk_val cs + carry \<and>
    (length (mul_scalar s cs carry) = length cs \<or>
     length (mul_scalar s cs carry) = length cs + 1 \<and> kB ^ length cs \<le> s * chunk_val cs + carry)"
  using assms(1,4,5)
proof (induction cs arbitrary: carry)
  case (Cons c cs)
  define prod where "prod = c * s + carry"
  have p: "0 \<le> prod" using Cons.prems assms(2) by (simp add: prod_def)
  have "prod < kB * kB"
  proof -
    have "c * s \<le> (kB - 1) * kB" using Cons.prems assms(2,3) kB_facts(5) by (intro mult_mono) auto
    with Cons.prems(3) show ?thesis by (simp add: prod_def algebra_simps)
  qed
  then have d: "0 \<le> prod div kB" "prod div kB < kB"
    using p kB_facts(5) by (simp_all add: pos_imp_zdiv_nonneg_iff div_upper)
  let ?r = "mul_scalar s cs (prod div kB)"
  have e: "mul_scalar s (c # cs) carry = prod mod kB # ?r"
    using p kB_facts(5) by (simp add: prod_def [symmetric] trunc_pos Let_def)
  have IH: "std ?r \<and> chunk_val ?r = s * chunk_val cs + prod div kB \<and>
    (length ?r = length cs \<or> length ?r = length cs + 1 \<and> kB ^ length cs \<le> s * chunk_val cs + prod div kB)"
    using Cons.prems d by (intro Cons.IH) simp_all
  have v: "s * chunk_val (c # cs) + carry = prod mod kB + kB * (s * chunk_val cs + prod div kB)"
    using mult_div_mod_eq [of kB prod] by (simp add: prod_def algebra_simps)
  have "kB * kB ^ length cs \<le> s * chunk_val (c # cs) + carry" if "kB ^ length cs \<le> s * chunk_val cs + prod div kB"
  proof -
    have "kB * kB ^ length cs \<le> kB * (s * chunk_val cs + prod div kB)"
      using that kB_facts(5) by (intro mult_left_mono) simp_all
    moreover have "0 \<le> prod mod kB" using kB_facts(5) by simp
    ultimately show ?thesis unfolding v by linarith
  qed
  with IH v e kB_facts(5) show ?case by auto
qed simp

subsection \<open>The digit of the quotient\<close>

text \<open>From an estimate that is not too small the loop comes to one that is at most one too large.\<close>

lemma qhat_loop_facts:
  fixes q den v1 v2 u2 num L V U :: int
  assumes den: "halfB \<le> den" "den < kB" and v2: "0 \<le> v2" "v2 < kB" and u2: "0 \<le> u2" "u2 < kB"
    and L: "0 < L" and V: "(den * kB + v2) * L \<le> V" "V < (den * kB + v2 + 1) * L"
    and U: "(num * kB + u2) * L \<le> U" "U < (num * kB + u2 + 1) * L"
    and num: "0 \<le> num" "num \<le> den * kB + (kB - 1)"
    and q: "q * V \<le> U" "U < (q + 1) * V" "0 \<le> q" "q < kB"
  shows "num = qhat * den + rhat \<Longrightarrow> 0 \<le> rhat \<Longrightarrow> q \<le> qhat \<Longrightarrow>
    \<exists>qhat' rhat'. qhat_loop den v2 u2 qhat rhat = Some (qhat', rhat') \<and> q \<le> qhat' \<and> qhat' \<le> q + 1"
proof (induction "nat (kB - rhat)" arbitrary: qhat rhat rule: less_induct)
  case less
  have den0: "1 < den" using den(1) halfB_large by simp
  have small: "h \<le> kB + 2" if "num = h * den + r" "0 \<le> r" for h r
  proof -
    have "h * den \<le> num" using that by simp
    also have "\<dots> \<le> (kB + 2) * den" using num(2) den(1) kB_facts(2) by (simp add: algebra_simps)
    finally show ?thesis using den0 by (simp add: mult_le_cancel_right)
  qed
  have exit: "h \<le> q + 1" if hr: "num = h * den + r" "0 \<le> r" and le: "h * v2 \<le> r * kB + u2" for h r
  proof (rule ccontr)
    assume "\<not> h \<le> q + 1"
    then have a: "q + 1 \<le> h - 1" by simp
    have V0: "0 < V"
    proof -
      have "0 < (den * kB + v2) * L" using den0 v2 L kB_facts(5) by (intro mult_pos_pos add_pos_nonneg) simp_all
      with V(1) show ?thesis by simp
    qed
    have "h * (den * kB + v2) \<le> num * kB + u2"
      using le hr(1) by (simp add: algebra_simps)
    then have "h * (den * kB + v2) * L \<le> (num * kB + u2) * L" using L by (intro mult_right_mono) simp_all
    with U(1) have le: "h * (den * kB + v2) * L \<le> U" by simp
    have "h * (V - L) \<le> h * ((den * kB + v2) * L)"
      using V(2) a q(3) by (intro mult_left_mono) (simp_all add: algebra_simps)
    with le have "h * (V - L) \<le> U" by (simp add: algebra_simps)
    also have "U < (q + 1) * V" by (rule q(2))
    also have "\<dots> \<le> (h - 1) * V" using a V0 by (intro mult_right_mono) simp_all
    finally have "V < h * L" by (simp add: algebra_simps)
    moreover have "h * L \<le> (den * kB + v2) * L"
    proof -
      have "2 * kB \<le> den * kB" using den0 kB_facts(5) by (intro mult_right_mono) simp_all
      with small [OF hr] kB_facts(2) halfB_large v2(1) have "h \<le> den * kB + v2" by linarith
      then show ?thesis using L by (intro mult_right_mono) simp_all
    qed
    ultimately show False using V(1) by simp
  qed
  show ?case
  proof (cases "qhat = kB \<or> qhat * v2 > rhat * kB + u2")
    case False
    with exit [OF less.prems(1,2)] less.prems(3) show ?thesis by (simp add: qhat_loop.simps [of den v2 u2 qhat rhat])
  next
    case True
    have down: "q \<le> qhat - 1"
    proof (rule ccontr)
      assume "\<not> q \<le> qhat - 1"
      with less.prems(3) have e: "q = qhat" by simp
      with True q(4) have gt: "qhat * v2 > rhat * kB + u2" by simp
      have "qhat * ((den * kB + v2) * L) \<le> qhat * V" using V(1) q(3) e by (intro mult_left_mono) simp_all
      also have "\<dots> < (num * kB + u2 + 1) * L" using q(1) e U(2) by simp
      finally have "(qhat * (den * kB + v2)) * L < (num * kB + u2 + 1) * L" by (simp add: mult.assoc)
      then have "qhat * (den * kB + v2) < num * kB + u2 + 1" using L by (simp add: mult_less_cancel_right)
      with gt less.prems(1) show False by (simp add: algebra_simps)
    qed
    have n: "num = (qhat - 1) * den + (rhat + den)" "0 \<le> rhat + den" using less.prems den0 by (simp_all add: algebra_simps)
    show ?thesis
    proof (cases "kB \<le> rhat + den")
      case True
      have "(qhat - 1) * den < kB * den" using n(1) num(2) True by (simp add: algebra_simps)
      then have q1: "qhat - 1 < kB" using den0 by (simp add: mult_less_cancel_right)
      have "qhat - 1 \<le> q + 1"
      proof (rule exit [OF n])
        have "(qhat - 1) * v2 \<le> kB * kB" using q1 v2 kB_facts(5) down q(3) by (intro mult_mono) simp_all
        also have "\<dots> \<le> (rhat + den) * kB" using True kB_facts(5) by (intro mult_right_mono) simp_all
        finally show "(qhat - 1) * v2 \<le> (rhat + den) * kB + u2" using u2(1) by simp
      qed
      with True down \<open>qhat = kB \<or> qhat * v2 > rhat * kB + u2\<close> show ?thesis
        by (simp add: qhat_loop.simps [of den v2 u2 qhat rhat])
    next
      case False
      have "\<exists>qhat' rhat'. qhat_loop den v2 u2 (qhat - 1) (rhat + den) = Some (qhat', rhat') \<and> q \<le> qhat' \<and> qhat' \<le> q + 1"
        using False den0 by (intro less.hyps [OF _ n down]) simp
      with False \<open>qhat = kB \<or> qhat * v2 > rhat * kB + u2\<close> show ?thesis
        by (simp add: qhat_loop.simps [of den v2 u2 qhat rhat])
    qed
  qed
qed

end
