(* ===== verification/T81_Knuth_D.thy ===== *)
theory T81_Knuth_D
  imports T81_Knuth
begin

text \<open>Algorithm D divides (\<open>types/T81BigInt.hpp\<close>): every digit it finds is the digit of the quotient, with
  at most one correction, and the divisor of the scaled operands is normalised.\<close>

section \<open>Subtraction and correction\<close>

lemma sub_loop_facts:
  assumes "std vs" "std us" "length us = length vs" "0 \<le> qhat" "0 \<le> carry" "borrow = 0 \<or> borrow = - 1"
    "sub_loop qhat vs us carry borrow = (ds, carry', borrow')"
  shows "std ds \<and> length ds = length vs \<and>
    chunk_val us - qhat * chunk_val vs - carry + borrow = chunk_val ds - kB ^ length vs * (carry' - borrow')"
  using assms(1-3,5-7)
proof (induction vs arbitrary: us carry borrow ds)
  case (Cons v vs)
  obtain u us' where us: "us = u # us'" using Cons.prems(3) by (cases us) simp_all
  define prod where "prod = qhat * v + carry"
  define s where "s = u - prod mod kB + borrow"
  define s' b where sb: "s' = (if s < 0 then s + kB else s)" "b = (if s < 0 then - 1 else (0 :: int))"
  have p: "0 \<le> prod" using Cons.prems(1,4) assms(4) by (simp add: prod_def)
  have m: "0 \<le> prod mod kB" "prod mod kB < kB" "kB * (prod div kB) + prod mod kB = prod" using kB_facts(5) by simp_all
  have c: "0 \<le> prod div kB" using p kB_facts(5) by (simp add: pos_imp_zdiv_nonneg_iff)
  obtain ds' where r: "sub_loop qhat vs us' (prod div kB) b = (ds', carry', borrow')" "ds = s' # ds'"
    using Cons.prems(6) p kB_facts(5)
    by (auto simp: us Let_def trunc_pos prod_def [symmetric] s_def [symmetric] sb split: prod.splits if_splits)
  have "- kB \<le> s" "s < kB"
  proof -
    have "0 \<le> u" "u < kB" "- 1 \<le> borrow" "borrow \<le> 0" using Cons.prems(2,5) by (auto simp: us)
    with m(1,2) show "- kB \<le> s" "s < kB" unfolding s_def by linarith+
  qed
  then have range: "s' < kB" "0 \<le> s'" by (simp_all add: sb)
  have IH: "std ds' \<and> length ds' = length vs \<and>
      chunk_val us' - qhat * chunk_val vs - prod div kB + b = chunk_val ds' - kB ^ length vs * (carry' - borrow')"
    by (rule Cons.IH [OF _ _ _ c _ r(1)]) (use Cons.prems in \<open>simp_all add: us sb\<close>)
  have "u - prod + borrow = s' + kB * (b - prod div kB)"
    using m(3) by (simp add: sb s_def algebra_simps)
  moreover have "u + kB * chunk_val us' - qhat * (v + kB * chunk_val vs) - carry + borrow =
      (u - prod + borrow) + kB * (chunk_val us' - qhat * chunk_val vs)"
    by (simp add: prod_def algebra_simps)
  ultimately have "u + kB * chunk_val us' - qhat * (v + kB * chunk_val vs) - carry + borrow =
      s' + kB * (chunk_val us' - qhat * chunk_val vs - prod div kB + b)"
    by (simp add: algebra_simps)
  also have "\<dots> = s' + kB * (chunk_val ds' - kB ^ length vs * (carry' - borrow'))" using IH by simp
  finally show ?case using IH range by (simp add: r(2) us algebra_simps)
qed simp

lemma add_back_facts:
  assumes "std vs" "std us" "length us = length vs" "0 \<le> carry" "carry \<le> 1" "add_back vs us carry = (ds, carry')"
  shows "std ds \<and> length ds = length vs \<and> chunk_val us + chunk_val vs + carry = chunk_val ds + kB ^ length vs * carry'"
  using assms
proof (induction vs arbitrary: us carry ds)
  case (Cons v vs)
  obtain u us' where us: "us = u # us'" using Cons.prems(3) by (cases us) simp_all
  define s where "s = u + v + carry"
  have s: "0 \<le> s" "0 \<le> s mod kB" "s mod kB < kB" "kB * (s div kB) + s mod kB = s" "0 \<le> s div kB" "s div kB \<le> 1"
  proof -
    show "0 \<le> s" "0 \<le> s mod kB" "s mod kB < kB" "kB * (s div kB) + s mod kB = s"
      using Cons.prems kB_facts(5) by (simp_all add: s_def us)
    then show "0 \<le> s div kB" using kB_facts(5) by (simp add: pos_imp_zdiv_nonneg_iff)
    have "s < 2 * kB" using Cons.prems by (simp add: s_def us)
    then have "s div kB < 2" using kB_facts(5) by (intro div_upper) simp_all
    then show "s div kB \<le> 1" by simp
  qed
  obtain ds' where r: "add_back vs us' (s div kB) = (ds', carry')" "ds = s mod kB # ds'"
    using Cons.prems(6) s(1) kB_facts(5) by (auto simp: us Let_def trunc_pos s_def [symmetric] split: prod.splits)
  have IH: "std ds' \<and> length ds' = length vs \<and> chunk_val us' + chunk_val vs + s div kB = chunk_val ds' + kB ^ length vs * carry'"
    by (rule Cons.IH [OF _ _ _ s(5,6) r(1)]) (use Cons.prems in \<open>simp_all add: us\<close>)
  have "(u + kB * chunk_val us') + (v + kB * chunk_val vs) + carry = s + kB * (chunk_val us' + chunk_val vs)"
    by (simp add: s_def algebra_simps)
  also have "\<dots> = s mod kB + kB * (chunk_val us' + chunk_val vs + s div kB)"
    using s(4) by (simp add: algebra_simps)
  also have "\<dots> = s mod kB + kB * (chunk_val ds' + kB ^ length vs * carry')" using IH by simp
  finally show ?case using IH s by (simp add: r(2) us algebra_simps)
qed simp

text \<open>A number between zero and the top of its chunks has no part above them.\<close>

lemma no_top:
  assumes "std ds" "0 \<le> chunk_val ds + kB ^ length ds * s" "chunk_val ds + kB ^ length ds * s < kB ^ length ds"
  shows "s = 0"
proof -
  have b: "0 \<le> chunk_val ds" "chunk_val ds < kB ^ length ds" using std_bound [OF assms(1)] by simp_all
  have p: "0 < kB ^ length ds" using kB_facts(5) by simp
  have "\<not> 1 \<le> s"
  proof
    assume "1 \<le> s"
    then have "kB ^ length ds * 1 \<le> kB ^ length ds * s" using p by (intro mult_left_mono) simp_all
    with b assms(3) show False by simp
  qed
  moreover have "\<not> s \<le> - 1"
  proof
    assume "s \<le> - 1"
    then have "kB ^ length ds * s \<le> kB ^ length ds * - 1" using p by (intro mult_left_mono) simp_all
    with b assms(2) show False by simp
  qed
  ultimately show ?thesis by simp
qed

section \<open>One round\<close>

lemma window_split:
  assumes "n + 2 = length vs"
  shows "chunk_val vs = chunk_val (take n vs) + kB ^ n * (vs ! n + kB * vs ! (n + 1))"
proof -
  have "drop n vs = vs ! n # vs ! (n + 1) # drop (n + 2) vs"
    using Cons_nth_drop_Suc [of n vs] Cons_nth_drop_Suc [of "n + 1" vs] assms by simp
  then have "drop n vs = [vs ! n, vs ! (n + 1)]" using assms by simp
  with chunk_val_split [of vs n] show ?thesis by simp
qed

lemma knuth_step_facts:
  assumes v: "std v" "2 \<le> length v" "halfB \<le> last v"
    and u: "std u" "j + length v < length u" "list_all (\<lambda>c. c = 0) (drop (j + length v + 1) u)"
    and less: "chunk_val (drop j u) < kB * chunk_val v"
  shows "\<exists>q u'. knuth_step v u j = Some (q, u') \<and> 0 \<le> q \<and> q < kB \<and> std u' \<and> length u' = length u \<and>
    take j u' = take j u \<and> chunk_val (drop j u) = q * chunk_val v + chunk_val (drop j u') \<and>
    0 \<le> chunk_val (drop j u') \<and> chunk_val (drop j u') < chunk_val v \<and>
    list_all (\<lambda>c. c = 0) (drop (j + length v) u')"
proof -
  define n where "n = length v - 2"
  have n: "length v = n + 2" using v(2) by (simp add: n_def)
  define V where "V = chunk_val v"
  define w where "w = take (n + 2) (drop j u)"
  define t where "t = u ! (j + length v)"
  define rest where "rest = drop (j + length v + 1) u"
  define U where "U = chunk_val (drop j u)"
  define L where "L = kB ^ n"
  have len: "length w = n + 2" using u(2) n by (simp add: w_def)
  have stdw: "std w" "0 \<le> t" "t < kB" "std rest" "std (take j u)"
    using u(1) std_nth [OF u(1,2)] by (simp_all add: w_def t_def rest_def std_take_drop)
  have z: "list_all (\<lambda>c. c = 0) rest" using u(3) by (simp add: rest_def)
  then have z0: "chunk_val rest = 0" by (induction rest) simp_all
  have du: "drop j u = w @ t # rest"
  proof -
    have "drop j u = w @ drop (n + 2) (drop j u)" by (simp only: w_def append_take_drop_id)
    also have "drop (n + 2) (drop j u) = t # rest"
      using Cons_nth_drop_Suc [OF u(2)] by (simp add: t_def rest_def n add.commute add.left_commute)
    finally show ?thesis .
  qed
  have nth: "u ! (j + length v - 1) = w ! (n + 1)" "u ! (j + length v - 2) = w ! n"
    using u(2) n by (simp_all add: w_def)
  define den v2 u1 u2 num where "den = v ! (n + 1)" and "v2 = v ! n" and "u1 = w ! (n + 1)" and "u2 = w ! n"
    and "num = t * kB + w ! (n + 1)"
  have L: "0 < L" using kB_facts(5) by (simp add: L_def)
  have top: "last v = v ! (n + 1)" using n by (cases "v = []") (simp_all add: last_conv_nth)
  have dig: "halfB \<le> den" "den < kB" "0 \<le> v2" "v2 < kB" "0 \<le> u1" "u1 < kB" "0 \<le> u2" "u2 < kB"
    using v n std_nth [OF v(1)] std_nth [OF stdw(1)] len
    by (auto simp: den_def v2_def u1_def u2_def top)
  have den0: "1 < den" using dig(1) halfB_large by simp
  have low: "0 \<le> chunk_val (take n v)" "chunk_val (take n v) < L" "0 \<le> chunk_val (take n w)" "chunk_val (take n w) < L"
    using std_bound [OF std_take_drop(1) [OF v(1), of n]] std_bound [OF std_take_drop(1) [OF stdw(1), of n]] n len
    by (simp_all add: L_def)
  have Ve: "V = chunk_val (take n v) + L * (v2 + kB * den)"
    using window_split [of n v] n by (simp add: V_def L_def den_def v2_def)
  have We: "chunk_val w = chunk_val (take n w) + L * (u2 + kB * u1)"
    using window_split [of n w] len by (simp add: L_def u1_def u2_def)
  have Uw: "U = chunk_val w + kB ^ length v * t"
    by (simp add: U_def du chunk_val_append len n z0)
  have Ue: "U = chunk_val (take n w) + L * (num * kB + u2)"
    by (simp add: Uw We n L_def num_def u1_def power_add algebra_simps)
  have V: "(den * kB + v2) * L \<le> V" "V < (den * kB + v2 + 1) * L"
    using low(1,2) by (simp_all add: Ve algebra_simps)
  have U: "(num * kB + u2) * L \<le> U" "U < (num * kB + u2 + 1) * L"
    using low(3,4) by (simp_all add: Ue algebra_simps)
  have V0: "0 < V"
  proof -
    have "0 < (den * kB + v2) * L" using den0 dig(3) L kB_facts(5) by (intro mult_pos_pos add_pos_nonneg) simp_all
    with V(1) show ?thesis by simp
  qed
  have num0: "0 \<le> num" using stdw(2) dig(5) kB_facts(5) by (simp add: num_def u1_def)
  have num: "num \<le> den * kB + (kB - 1)"
  proof -
    have "(num * kB) * L \<le> (num * kB + u2) * L" using dig(7) L by (intro mult_right_mono) simp_all
    also have "\<dots> \<le> U" by (rule U(1))
    also have "U < kB * V" using less by (simp add: U_def V_def)
    also have "\<dots> \<le> kB * ((den * kB + v2 + 1) * L)" using V(2) kB_facts(5) by (intro mult_left_mono) simp_all
    also have "\<dots> \<le> kB * ((den * kB + kB) * L)" using dig(4) L kB_facts(5) by (intro mult_left_mono mult_right_mono) simp_all
    finally have "num * (kB * L) < (den * kB + kB) * (kB * L)" by (simp add: algebra_simps)
    then have "num < den * kB + kB" using L kB_facts(5) by (simp add: mult_less_cancel_right)
    then show ?thesis by simp
  qed
  define q where "q = U div V"
  have U0: "0 \<le> U" using std_bound [OF std_take_drop(2) [OF u(1), of j]] by (simp add: U_def)
  have q: "q * V \<le> U" "U < (q + 1) * V" "0 \<le> q" "q < kB"
  proof -
    have m: "U = V * q + U mod V" "0 \<le> U mod V" "U mod V < V" using V0 by (simp_all add: q_def)
    then show "q * V \<le> U" "U < (q + 1) * V" by (simp_all add: algebra_simps)
    show "0 \<le> q" using U0 V0 by (simp add: q_def pos_imp_zdiv_nonneg_iff)
    show "q < kB" unfolding q_def using less V0 by (intro div_upper) (simp_all add: U_def V_def)
  qed
  have start: "q \<le> num div den"
  proof (rule ccontr)
    assume "\<not> q \<le> num div den"
    then have "(num div den + 1) * den \<le> q * den" using den0 by (intro mult_right_mono) simp_all
    moreover have "num < num div den * den + den"
      using den0 div_mult_mod_eq [of num den] pos_mod_bound [of den num] by linarith
    ultimately have gt: "num + 1 \<le> q * den" by (simp add: distrib_right)
    have "(num + 1) * (kB * L) \<le> q * den * (kB * L)" using gt L kB_facts(5) by (intro mult_right_mono) simp_all
    also have "\<dots> \<le> q * ((den * kB + v2) * L)"
      using q(3) dig(3) L by (simp add: mult.assoc) (intro mult_left_mono; simp add: algebra_simps)
    also have "\<dots> \<le> q * V" using V(1) q(3) by (intro mult_left_mono) simp_all
    also have "\<dots> < (num * kB + u2 + 1) * L" using q(1) U(2) by simp
    also have "\<dots> \<le> (num * kB + kB) * L" using dig(8) L by (intro mult_right_mono) simp_all
    finally show False by (simp add: algebra_simps)
  qed
  have e: "num = num div den * den + num mod den" "0 \<le> num mod den" using den0 by simp_all
  obtain qh rh where qh: "qhat_loop den v2 u2 (num div den) (num mod den) = Some (qh, rh)" "q \<le> qh" "qh \<le> q + 1"
    using qhat_loop_facts [OF dig(1-4,7,8) L V U num0 num q e start] by blast
  obtain ds c b where sub: "sub_loop qh v w 0 0 = (ds, c, b)" by (metis prod_cases3)
  have sf: "std ds" "length ds = length v" "chunk_val w - qh * V = chunk_val ds - kB ^ length v * (c - b)"
    using sub_loop_facts [OF v(1) stdw(1) _ _ _ _ sub] len n q(3) qh(2) by (simp_all add: V_def)
  define s where "s = t - c + b"
  have left: "U - qh * V = chunk_val ds + kB ^ length v * s"
    using sf(3) by (simp add: Uw s_def algebra_simps)
  have range: "0 \<le> U - q * V" "U - q * V < V" "V < kB ^ length v"
    using q(1,2) std_bound [OF v(1)] by (simp_all add: V_def distrib_right)
  have dsb: "0 \<le> chunk_val ds" "chunk_val ds < kB ^ length v" using std_bound [OF sf(1)] sf(2) by simp_all
  obtain ds' where fin: "(if s < 0 then let (w, carry) = add_back v ds 0 in (qh - 1, w, s + carry) else (qh, ds, s)) = (q, ds', 0)"
    "std ds'" "length ds' = length v" "chunk_val ds' = U - q * V"
  proof (cases "s < 0")
    case False
    have "qh = q"
    proof (rule ccontr)
      assume "qh \<noteq> q"
      with qh have "qh = q + 1" by simp
      with left range(2) have "chunk_val ds + kB ^ length v * s < 0" by (simp add: distrib_right)
      moreover have "0 \<le> kB ^ length v * s" using False kB_facts(5) by (intro mult_nonneg_nonneg) simp_all
      ultimately show False using dsb by simp
    qed
    moreover have "s = 0"
      using no_top [OF sf(1), of s] left range sf(2) \<open>qh = q\<close> by simp
    ultimately show ?thesis using that [of ds] sf left False by simp
  next
    case True
    have "kB ^ length v * s \<le> kB ^ length v * - 1" using True kB_facts(5) by (intro mult_left_mono) simp_all
    with left dsb have "U - qh * V < 0" by simp
    with range(1) have "qh \<noteq> q" by auto
    with qh have q1: "qh = q + 1" by simp
    obtain ds' c2 where a: "add_back v ds 0 = (ds', c2)" by fastforce
    have af: "std ds'" "length ds' = length v" "chunk_val ds + V = chunk_val ds' + kB ^ length v * c2"
      using add_back_facts [OF v(1) sf(1) sf(2) _ _ a] by (simp_all add: V_def)
    have v': "U - q * V = chunk_val ds' + kB ^ length ds' * (s + c2)"
      using left af by (simp add: q1 algebra_simps)
    have "s + c2 = 0" by (rule no_top [OF af(1)]) (use v' range af(2) in simp_all)
    with that [of ds'] a af v' True q1 show ?thesis by simp
  qed
  define u' where "u' = take j u @ ds' @ 0 # rest"
  have "knuth_step v u j = Some (q, u')"
  proof -
    have "num = u ! (j + length v) * kB + u ! (j + length v - 1)" by (simp only: num_def nth t_def)
    moreover have "den = v ! (length v - 1)" "v2 = v ! (length v - 2)" "w = take (length v) (drop j u)"
      by (simp_all add: den_def v2_def w_def n)
    moreover have "u2 = u ! (j + length v - 2)" by (simp add: u2_def nth)
    ultimately have e: "knuth_step v u j =
        Option.bind (qhat_loop den v2 u2 (num div den) (num mod den)) (\<lambda>(qhat, rhat).
           let (w, carry, borrow) = sub_loop qhat v w 0 0; s = t - carry + borrow;
               (q, w, s) = (if s < 0 then let (w, carry) = add_back v w 0 in (qhat - 1, w, s + carry) else (qhat, w, s))
           in Some (q, take j u @ w @ s # rest))"
      using den0 num0 trunc_pos [of num den] by (simp add: knuth_step_def Let_def t_def rest_def)
    show ?thesis
    proof (cases "s < 0")
      case True
      with fin(1) obtain c2 where "add_back v ds 0 = (ds', c2)" "qh - 1 = q" "s + c2 = 0"
        by (auto split: prod.splits)
      with True show ?thesis by (simp add: e qh(1) sub s_def u'_def)
    next
      case False
      with fin(1) have f: "qh = q" "ds = ds'" "t - c + b = 0" by (simp_all add: s_def)
      show ?thesis by (simp add: e qh(1) [unfolded f(1)] sub [unfolded f(1,2)] f(3) u'_def)
    qed
  qed
  moreover have j: "length (take j u) = j" using u(2) by simp
  moreover have "drop j u' = ds' @ 0 # rest" "take j u' = take j u" "drop (j + length v) u' = 0 # rest"
    using j fin(3) by (simp_all add: u'_def)
  moreover have "length u' = length u"
    using arg_cong [OF du, of length] u(2) by (simp add: u'_def fin(3) len n)
  moreover have "std u'" using stdw fin(2) kB_facts(5) by (simp add: u'_def)
  moreover have "chunk_val (ds' @ 0 # rest) = U - q * V" by (simp add: chunk_val_append z0 fin(4))
  ultimately show ?thesis using q range z by (auto simp: U_def V_def)
qed

end
