(* ===== verification/T81_Knuth_Main.thy ===== *)
theory T81_Knuth_Main
  imports T81_Knuth_D
begin

text \<open>The division of chunk lists as a whole (\<open>div_mod_std\<close> in \<open>types/T81BigInt.hpp\<close>).\<close>

section \<open>All rounds\<close>

lemma zeros_val: "list_all (\<lambda>c. c = 0) cs \<Longrightarrow> chunk_val cs = 0"
  by (induction cs) simp_all

lemma knuth_loop_facts:
  assumes v: "std v" "2 \<le> length v" "halfB \<le> last v"
  shows "std u \<Longrightarrow> j + length v \<le> length u \<Longrightarrow> list_all (\<lambda>c. c = 0) (drop (j + length v) u) \<Longrightarrow>
    chunk_val (drop j u) < chunk_val v \<Longrightarrow>
    \<exists>qs u'. knuth_loop v u (rev [0 ..< j]) = Some (qs, u') \<and> std qs \<and>
      chunk_val u = chunk_val (rev qs) * chunk_val v + chunk_val u' \<and> length qs = j \<and>
      std u' \<and> length u' = length u \<and> chunk_val u' < chunk_val v \<and> list_all (\<lambda>c. c = 0) (drop (length v) u')"
proof (induction j arbitrary: u)
  case (Suc j)
  have j: "j < length u" using Suc.prems(2) by simp
  have "chunk_val (drop j u) < kB * chunk_val v"
  proof -
    have "kB * (chunk_val (drop (Suc j) u) + 1) \<le> kB * chunk_val v"
      using Suc.prems(4) kB_facts(5) by (intro mult_left_mono) simp_all
    moreover have "chunk_val (drop j u) = u ! j + kB * chunk_val (drop (Suc j) u)"
      by (simp add: Cons_nth_drop_Suc [OF j, symmetric])
    ultimately show ?thesis using std_nth [OF Suc.prems(1) j] by (simp add: distrib_left)
  qed
  then obtain q u1 where s: "knuth_step v u j = Some (q, u1)" "0 \<le> q" "q < kB" "std u1" "length u1 = length u"
    "take j u1 = take j u" "chunk_val (drop j u) = q * chunk_val v + chunk_val (drop j u1)"
    "chunk_val (drop j u1) < chunk_val v" "list_all (\<lambda>c. c = 0) (drop (j + length v) u1)"
    using knuth_step_facts [OF v Suc.prems(1), of j] Suc.prems(2,3) by auto
  obtain qs u' where r: "knuth_loop v u1 (rev [0 ..< j]) = Some (qs, u')" "std qs"
    "chunk_val u1 = chunk_val (rev qs) * chunk_val v + chunk_val u'" "length qs = j"
    "std u'" "length u' = length u1" "chunk_val u' < chunk_val v" "list_all (\<lambda>c. c = 0) (drop (length v) u')"
    using Suc.IH [OF s(4) _ s(9,8)] s(5) Suc.prems(2) by auto
  have "chunk_val u = chunk_val (take j u) + kB ^ j * (q * chunk_val v + chunk_val (drop j u1))"
    using chunk_val_split [of u j] s(7) by simp
  also have "\<dots> = chunk_val u1 + kB ^ j * q * chunk_val v"
    using chunk_val_split [of u1 j] s(6) by (simp add: algebra_simps)
  also have "\<dots> = chunk_val (rev (q # qs)) * chunk_val v + chunk_val u'"
    using r(3,4) by (simp add: chunk_val_append algebra_simps)
  finally show ?case using s r by simp
qed simp

section \<open>Normalisation\<close>

lemma normalised_top:
  fixes v1 :: int
  assumes "1 \<le> v1" "v1 < kB"
  shows "halfB \<le> kB div (v1 + 1) * v1" "kB div (v1 + 1) * (v1 + 1) \<le> kB" "1 \<le> kB div (v1 + 1)"
proof -
  define d where "d = kB div (v1 + 1)"
  have d: "d * (v1 + 1) + kB mod (v1 + 1) = kB" "0 \<le> kB mod (v1 + 1)" "kB mod (v1 + 1) < v1 + 1"
    using assms div_mult_mod_eq [of kB "v1 + 1"] pos_mod_sign [of "v1 + 1" kB] pos_mod_bound [of "v1 + 1" kB]
    unfolding d_def by linarith+
  from d show "kB div (v1 + 1) * (v1 + 1) \<le> kB" unfolding d_def by linarith
  have "v1 + 1 \<le> kB" using assms by simp
  then show d1: "1 \<le> kB div (v1 + 1)" using assms zdiv_mono1 [of "v1 + 1" kB "v1 + 1"] by simp
  show "halfB \<le> kB div (v1 + 1) * v1"
  proof (cases "v1 < halfB")
    case False
    then have "1 * v1 \<le> d * v1" using d1 assms by (intro mult_right_mono) (simp_all add: d_def)
    with False show ?thesis by (simp add: d_def)
  next
    case True
    have "0 \<le> (v1 - 1) * (halfB - v1)" using True assms by simp
    then have "halfB * (v1 + 1) \<le> v1 * (kB - v1)" by (simp add: kB_facts(2) algebra_simps)
    also have "\<dots> \<le> v1 * (d * (v1 + 1))" using d assms by (intro mult_left_mono) linarith+
    finally have "halfB * (v1 + 1) \<le> (d * v1) * (v1 + 1)" by (simp add: algebra_simps)
    then show ?thesis using assms by (simp add: mult_le_cancel_right d_def)
  qed
qed

lemma top_bounds:
  assumes "std v" "v \<noteq> []"
  shows "kB ^ (length v - 1) * last v \<le> chunk_val v" "chunk_val v < kB ^ (length v - 1) * (last v + 1)"
proof -
  have e: "chunk_val v = chunk_val (butlast v) + kB ^ (length v - 1) * last v"
    using chunk_val_append [of "butlast v" "[last v]"] assms(2) by simp
  have "std (butlast v)" using assms(1) by (simp add: butlast_conv_take std_take_drop)
  from std_bound [OF this] e show "kB ^ (length v - 1) * last v \<le> chunk_val v"
    "chunk_val v < kB ^ (length v - 1) * (last v + 1)" by (simp_all add: distrib_left)
qed

lemma scaled_divisor:
  assumes v: "std v" "2 \<le> length v" "last v \<noteq> 0"
  defines "d \<equiv> trunc_div kB (last v + 1)"
  shows "1 \<le> d" "d \<le> kB" "std (mul_scalar d v 0)" "length (mul_scalar d v 0) = length v"
    "chunk_val (mul_scalar d v 0) = d * chunk_val v" "halfB \<le> last (mul_scalar d v 0)"
proof -
  let ?w = "mul_scalar d v 0" and ?P = "kB ^ (length v - 1)"
  have ne: "v \<noteq> []" using v(2) by auto
  have l: "1 \<le> last v" "last v < kB"
    using std_nth [OF v(1), of "length v - 1"] v(2,3) ne by (simp_all add: last_conv_nth)
  have de: "d = kB div (last v + 1)" using l kB_facts(5) by (simp add: d_def trunc_pos)
  note nt = normalised_top [OF l, folded de]
  show d1: "1 \<le> d" by (rule nt(3))
  have "d * 1 \<le> d * (last v + 1)" using d1 l by (intro mult_left_mono) simp_all
  with nt(2) show dk: "d \<le> kB" by simp
  have P: "0 < ?P" using kB_facts(5) by simp
  have "d * chunk_val v < d * (?P * (last v + 1))" using top_bounds(2) [OF v(1) ne] d1 by (intro mult_strict_left_mono) simp_all
  also have "\<dots> = ?P * (d * (last v + 1))" by (simp add: algebra_simps)
  also have "\<dots> \<le> ?P * kB" using nt(2) P by (intro mult_left_mono) simp_all
  also have "\<dots> = kB ^ length v" using v(2) by (cases "length v") (simp_all add: mult.commute)
  finally have fits: "d * chunk_val v < kB ^ length v" .
  have m: "std ?w \<and> chunk_val ?w = d * chunk_val v \<and> (length ?w = length v \<or>
      length ?w = length v + 1 \<and> kB ^ length v \<le> d * chunk_val v)"
    using mul_scalar_facts [OF v(1), of d 0] d1 dk kB_facts(5) by simp
  with fits show w: "std ?w" "length ?w = length v" "chunk_val ?w = d * chunk_val v" by auto
  have "?P * (d * last v) \<le> d * chunk_val v"
    using mult_left_mono [OF top_bounds(1) [OF v(1) ne], of d] d1 by (simp add: algebra_simps)
  also have "\<dots> < ?P * (last ?w + 1)" using top_bounds(2) [OF w(1)] w(2,3) ne by (metis length_0_conv)
  finally have "d * last v < last ?w + 1" using P by (simp add: mult_less_cancel_left)
  with nt(1) show "halfB \<le> last ?w" by simp
qed

section \<open>Quotient and remainder\<close>

lemma canonical_zero: "canonical [0]"
  using kB_facts(5) by (simp add: canonical_def)

lemma div_mod_std_long:
  assumes u: "std u" and v: "std v" "2 \<le> length v" "last v \<noteq> 0" and le: "length v \<le> length u"
  shows "\<exists>q r. div_mod_std u v = Some (Inr (q, r)) \<and> canonical q \<and> canonical r \<and>
    chunk_val u = chunk_val q * chunk_val v + chunk_val r \<and> chunk_val r < chunk_val v"
proof -
  define d where "d = trunc_div kB (last v + 1)"
  define u1 v1 where "u1 = mul_scalar d u 0" and "v1 = mul_scalar d v 0"
  note sd = scaled_divisor [OF v, folded d_def, folded v1_def]
  have su: "std u1" "chunk_val u1 = d * chunk_val u" "length u \<le> length u1"
    using mul_scalar_facts [OF u, of d 0] sd(1,2) kB_facts(5) by (auto simp: u1_def)
  define m where "m = length u1 - length v1"
  have m: "length u1 = m + length v" using su(3) le sd(4) by (simp add: m_def)
  have two: "2 \<le> length v1" using v(2) sd(4) by simp
  have ne: "v1 \<noteq> []" using two by auto
  have "chunk_val (drop (m + 1) (u1 @ [0])) < chunk_val v1"
  proof -
    have "length (drop (m + 1) u1) = length v - 1" using m by simp
    then have "chunk_val (drop (m + 1) u1) < kB ^ (length v - 1)"
      using std_bound [OF std_take_drop(2) [OF su(1), of "m + 1"]] by simp
    also have "\<dots> * 1 \<le> kB ^ (length v - 1) * last v1"
      using sd(6) halfB_large kB_facts(5) by (intro mult_left_mono) simp_all
    also have "\<dots> \<le> chunk_val v1" using top_bounds(1) [OF sd(3) ne] sd(4) by simp
    finally show ?thesis using m v(2) by (simp add: chunk_val_append)
  qed
  then obtain qs u' where k: "knuth_loop v1 (u1 @ [0]) (rev [0 ..< m + 1]) = Some (qs, u')" "std qs"
    "chunk_val (u1 @ [0]) = chunk_val (rev qs) * chunk_val v1 + chunk_val u'"
    "std u'" "chunk_val u' < chunk_val v1" "list_all (\<lambda>c. c = 0) (drop (length v1) u')"
    using knuth_loop_facts [OF sd(3) two sd(6), of "u1 @ [0]" "m + 1"] su(1) m sd(4) kB_facts(5) by auto
  obtain rs r where sh: "short_div d (rev (take (length v1) u')) 0 = (rs, r)" by fastforce
  have sf: "std rs" "0 \<le> r" "r < d" "chunk_val (take (length v1) u') = d * chunk_val (rev rs) + r"
    using short_div_facts [OF _ sd(2) sh] sd(1) k(4) by (simp_all add: std_take_drop)
  have tv: "chunk_val (take (length v1) u') = chunk_val u'"
    using chunk_val_split [of u' "length v1"] zeros_val [OF k(6)] by simp
  have eq: "d * chunk_val u = d * (chunk_val (rev qs) * chunk_val v + chunk_val (rev rs)) + r"
    using k(3) sf(4) tv by (simp add: chunk_val_append su(2) sd(5) algebra_simps)
  have r0: "r = 0"
  proof -
    have "r = r mod d" using sf(2,3) by simp
    also have "\<dots> = (d * chunk_val u) mod d" by (simp add: eq)
    finally show ?thesis by simp
  qed
  have "chunk_val u = chunk_val (rev qs) * chunk_val v + chunk_val (rev rs)"
    using eq r0 sd(1) by simp
  moreover have "chunk_val (rev rs) < chunk_val v"
  proof -
    have "d * chunk_val (rev rs) < d * chunk_val v" using k(5) sf(4) tv r0 by (simp add: sd(5))
    then show ?thesis using sd(1) by simp
  qed
  moreover have "div_mod_std u v = Some (Inr (or_zero (trim_chunks (rev qs)), or_zero (trim_chunks (rev rs))))"
  proof -
    have "length v \<noteq> 1" "v \<noteq> []" "v \<noteq> [0]" using v(2) by auto
    then show ?thesis
      using le k(1) sh
      by (simp add: div_mod_std_def Let_def d_def [symmetric] u1_def [symmetric] v1_def [symmetric] m_def [symmetric])
  qed
  ultimately show ?thesis using k(2) sf(1) by (simp add: trim_chunks_facts)
qed

lemma div_mod_std_facts:
  assumes u: "canonical u" and v: "canonical v" "0 < chunk_val v"
  shows "\<exists>q r. div_mod_std u v = Some (Inr (q, r)) \<and> canonical q \<and> canonical r \<and>
    chunk_val u = chunk_val q * chunk_val v + chunk_val r \<and> 0 \<le> chunk_val r \<and> chunk_val r < chunk_val v"
proof -
  have pos: "0 \<le> chunk_val r" if "canonical r" for r using that std_bound [of r] by (simp add: canonical_def)
  have vc: "std v" "v \<noteq> []" "v \<noteq> [0]" using v by (auto simp: canonical_def)
  have uc: "std u" using u by (simp add: canonical_def)
  consider "length v = 1" | "length v \<noteq> 1" "length u < length v" | "length v \<noteq> 1" "length v \<le> length u" by linarith
  then show ?thesis
  proof cases
    case 1
    then obtain d where d: "v = [d]" by (cases v) auto
    with vc v(2) have dp: "0 < d" "d < kB" by simp_all
    obtain qs r where s: "short_div d (rev u) 0 = (qs, r)" by fastforce
    have f: "std qs" "0 \<le> r" "r < d" "chunk_val u = d * chunk_val (rev qs) + r"
      using short_div_facts [OF dp(1) _ s] dp uc by simp_all
    have "canonical [r]" using f(2,3) dp(2) by (simp add: canonical_def)
    with f s d dp show ?thesis
      by (simp add: div_mod_std_def Let_def trim_chunks_facts mult.commute)
  next
    case 2
    have "1 \<le> last v"
      using std_nth [OF vc(1), of "length v - 1"] v(1) 2(1) vc(2) by (cases v) (auto simp: canonical_def last_conv_nth)
    then have "kB ^ (length v - 1) * 1 \<le> kB ^ (length v - 1) * last v" using kB_facts(5) by (intro mult_left_mono) simp_all
    moreover have "chunk_val u < kB ^ length u" using std_bound [OF uc] by simp
    moreover have "kB ^ length u \<le> kB ^ (length v - 1)" using 2(2) kB_facts(4) by (intro power_increasing) simp_all
    ultimately have "chunk_val u < chunk_val v" using top_bounds(1) [OF vc(1,2)] by simp
    with 2 vc u pos [OF u] canonical_zero show ?thesis by (simp add: div_mod_std_def)
  next
    case 3
    have l: "2 \<le> length v" using 3(1) vc(2) by (cases v) (auto simp: Suc_le_eq)
    then have "last v \<noteq> 0" using v(1) by (simp add: canonical_def)
    from div_mod_std_long [OF uc vc(1) l this 3(2)] pos show ?thesis by blast
  qed
qed

end
