(* ===== verification/T81_BigInt.thy ===== *)
theory T81_BigInt
  imports T81_Int_Algo T81_Knuth_Main
begin

text \<open>
  Big integers (\<open>types/T81BigInt.hpp\<close>): a sign and limbs of 81 balanced trits, the lowest first.  This
  theory holds the representation and the passage between limbs and chunks of 27 trits; the operations
  are in \<open>T81_Big_Ring\<close>, \<open>T81_Big_Div\<close> and \<open>T81_Big_Algo\<close>.
\<close>

unbundle bit_operations_syntax

section \<open>Representation\<close>

definition kLimbTrits :: nat where "kLimbTrits = 81"

record bigint =
  limbs :: "tint list"
  negative :: bool

text \<open>\<open>normalize\<close>; the checks of \<open>verify_invariants\<close> exist in debug builds only.\<close>

fun trim_limbs :: "tint list \<Rightarrow> tint list" where
  "trim_limbs (l # m # ls) = (if is_zero kLimbTrits l then trim_limbs (m # ls) else l # m # ls)"
| "trim_limbs ls = ls"

definition big_normalize :: "bigint \<Rightarrow> bigint" where
  "big_normalize x =
     (if limbs x = [] then \<lparr>limbs = [clear kLimbTrits], negative = False\<rparr>
      else let ls = rev (trim_limbs (rev (limbs x)))
           in \<lparr>limbs = ls, negative = (if length ls = 1 \<and> is_zero kLimbTrits (ls ! 0) then False else negative x)\<rparr>)"

text \<open>The invariant that the code states, and a weaker one without the sign of the top limb.\<close>

definition limbs_ok :: "tint list \<Rightarrow> bool" where
  "limbs_ok ls \<longleftrightarrow> ls \<noteq> [] \<and> list_all (tint_ok kLimbTrits) ls \<and> (1 < length ls \<longrightarrow> ival kLimbTrits (last ls) \<noteq> 0)"

fun limbs_val :: "tint list \<Rightarrow> int" where
  "limbs_val [] = 0"
| "limbs_val (l # ls) = ival kLimbTrits l + 3 ^ kLimbTrits * limbs_val ls"

definition big_val :: "bigint \<Rightarrow> int" where
  "big_val x = (if negative x then - limbs_val (limbs x) else limbs_val (limbs x))"

definition big_wf :: "bigint \<Rightarrow> bool" where
  "big_wf x \<longleftrightarrow> limbs_ok (limbs x) \<and> (limbs_val (limbs x) = 0 \<longrightarrow> \<not> negative x)"

definition big_ok :: "bigint \<Rightarrow> bool" where
  "big_ok x \<longleftrightarrow> big_wf x \<and> 0 \<le> limbs_val (limbs x)"

section \<open>From limbs to chunks\<close>

text \<open>\<open>get_byte_to_ternary\<close> and \<open>get_word_to_ternary\<close>: the tables as the functions that fill them.\<close>

definition trit_field :: "u8 \<Rightarrow> nat \<Rightarrow> int" where
  "trit_field b j = (let u = uint (drop_bit (j * 2) b AND 3) in (if 2 < u then 1 else u) - 1)"

definition byte_to_ternary :: "u8 \<Rightarrow> int" where
  "byte_to_ternary b = fst (foldl (\<lambda>(v, p3) j. (v + trit_field b j * p3, p3 * 3)) (0, 1) [0 ..< 4])"

definition word_to_ternary :: "u8 \<Rightarrow> u8 \<Rightarrow> int" where
  "word_to_ternary lo hi = byte_to_ternary lo + byte_to_ternary hi * 81"

definition limb_chunks :: "tint \<Rightarrow> int list" where
  "limb_chunks d =
     [word_to_ternary (d ! 0) (d ! 1) * 1 + word_to_ternary (d ! 2) (d ! 3) * 6561 + word_to_ternary (d ! 4) (d ! 5) * 43046721
        + fst (foldl (\<lambda>(v, p3) j. (v + trit_field (d ! 6) j * p3, p3 * 3)) (0, 1) [0 ..< 3]) * 282429536481,
      trit_field (d ! 6) 3 + word_to_ternary (d ! 7) (d ! 8) * 3 + word_to_ternary (d ! 9) (d ! 10) * 19683
        + word_to_ternary (d ! 11) (d ! 12) * 129140163
        + trit_field (d ! 13) 0 * 847288609443 + trit_field (d ! 13) 1 * 2541865828329,
      trit_field (d ! 13) 2 + trit_field (d ! 13) 3 * 3 + word_to_ternary (d ! 14) (d ! 15) * 9
        + word_to_ternary (d ! 16) (d ! 17) * 59049 + word_to_ternary (d ! 18) (d ! 19) * 387420489
        + trit_field (d ! 20) 0 * 2541865828329]"

definition to_chunks :: "bigint \<Rightarrow> int list" where
  "to_chunks x = concat (map (\<lambda>l. map (\<lambda>c. if negative x then - c else c) (limb_chunks l)) (limbs x))"

lemma trit_field_trit: "trit_field (a ! (i div 4)) (i mod 4) = trit_to_int (get_trit a i)"
proof -
  define u where "u = drop_bit (i mod 4 * 2) (a ! (i div 4)) AND 3"
  have "u AND 3 = u" by (simp add: u_def and.assoc)
  moreover have "u = 0 \<or> u = 1 \<or> u = 2 \<or> u = 3"
  proof -
    have "uint u < 4"
      unfolding u_def three_mask by (simp add: take_bit_eq_mask [symmetric] unsigned_take_bit_eq take_bit_eq_mod uint_mod)
    moreover have "0 \<le> uint u" by simp
    ultimately have "uint u = 0 \<or> uint u = 1 \<or> uint u = 2 \<or> uint u = 3" by presburger
    then show ?thesis by (auto simp: word_uint_eq_iff)
  qed
  ultimately show ?thesis by (auto simp: trit_field_def get_trit_def decode_trit_def Let_def u_def [symmetric])
qed

text \<open>The balanced digits of a limb, 27 at a time.\<close>

definition chunk_of :: "tint \<Rightarrow> nat \<Rightarrow> int" where
  "chunk_of a k = bal_val (map (\<lambda>i. trit_to_int (get_trit a i)) [27 * k ..< 27 * k + 27])"

lemma upt_lists:
  "[0 ..< 3] = [0, 1, 2]" "[0 ..< 4] = [0, 1, 2, 3]"
  "[n ..< n + 27] = map ((+) n) [0, 1, 2, 3, 4, 5, 6, 7, 8, 9, 10, 11, 12, 13, 14, 15, 16, 17, 18, 19, 20, 21, 22, 23, 24, 25, 26]"
  by (simp_all add: upt_rec numeral_2_eq_2 numeral_3_eq_3)

lemma limb_chunks_digits: "limb_chunks a = [chunk_of a 0, chunk_of a 1, chunk_of a 2]"
proof -
  define t where "t i = trit_to_int (get_trit a i)" for i
  have f: "trit_field (a ! n) j = t (4 * n + j)" if "j < 4" for n j
    using trit_field_trit [of a "4 * n + j"] that by (simp add: t_def)
  have w: "word_to_ternary (a ! n) (a ! m) =
      t (4 * n) + t (4 * n + 1) * 3 + t (4 * n + 2) * 9 + t (4 * n + 3) * 27 +
      (t (4 * m) + t (4 * m + 1) * 3 + t (4 * m + 2) * 9 + t (4 * m + 3) * 27) * 81" for n m
    by (simp add: word_to_ternary_def byte_to_ternary_def upt_lists f)
  show ?thesis
    unfolding limb_chunks_def w chunk_of_def t_def [symmetric] upt_lists
    by (simp add: f)
qed

lemma chunk_of_bound: "\<bar>chunk_of a k\<bar> \<le> halfB"
proof -
  have "2 * \<bar>chunk_of a k\<bar> < 3 ^ 27"
    using bal_val_bound [of "map (\<lambda>i. trit_to_int (get_trit a i)) [27 * k ..< 27 * k + 27]"]
    by (simp add: chunk_of_def list_all_iff trit_to_int_range)
  then show ?thesis using kB_facts(1,2) by linarith
qed

lemma limb_chunks_facts: "chunk_val (limb_chunks a) = ival kLimbTrits a" "balanced (limb_chunks a)"
proof -
  let ?t = "\<lambda>i. trit_to_int (get_trit a i)"
  have "[0 ..< 81] = [27 * 0 ..< 27 * 0 + 27] @ [27 * 1 ..< 27 * 1 + 27] @ [27 * 2 ..< 27 * 2 + (27 :: nat)]"
    using upt_add_eq_append [of 0 27 54] upt_add_eq_append [of 27 54 27] by simp
  then have "ival 81 a = bal_val (map ?t [27 * 0 ..< 27 * 0 + 27] @ map ?t [27 * 1 ..< 27 * 1 + 27] @ map ?t [27 * 2 ..< 27 * 2 + 27])"
    by (simp only: ival_def digits_def map_append)
  also have "\<dots> = chunk_of a 0 + kB * (chunk_of a 1 + kB * chunk_of a 2)"
    unfolding bal_val_append chunk_of_def by (simp only: length_map length_upt kB_facts(1)) simp
  finally show "chunk_val (limb_chunks a) = ival kLimbTrits a"
    by (simp add: limb_chunks_digits kLimbTrits_def)
  show "balanced (limb_chunks a)" by (simp add: limb_chunks_digits chunk_of_bound)
qed

lemma limb_power: "(3 :: int) ^ kLimbTrits = kB ^ 3"
  by (simp add: kLimbTrits_def kB_facts(1) flip: power_mult)

lemma to_chunks_facts: "chunk_val (to_chunks x) = big_val x" "balanced (to_chunks x)"
proof -
  have "chunk_val (concat (map (\<lambda>l. map (\<lambda>c. if b then - c else c) (limb_chunks l)) ls)) =
      (if b then - limbs_val ls else limbs_val ls) \<and>
      balanced (concat (map (\<lambda>l. map (\<lambda>c. if b then - c else c) (limb_chunks l)) ls))" for b ls
  proof (induction ls)
    case (Cons l ls)
    have "length (limb_chunks l) = 3" by (simp add: limb_chunks_def)
    with Cons limb_chunks_facts [of l] show ?case
      by (cases b) (simp_all add: chunk_val_append limb_power)
  qed simp
  then show "chunk_val (to_chunks x) = big_val x" "balanced (to_chunks x)"
    by (simp_all add: to_chunks_def big_val_def)
qed

section \<open>From chunks to limbs\<close>

text \<open>\<open>get_ternary_to_packed\<close>: four trits in a byte.\<close>

definition ternary_to_packed :: "nat \<Rightarrow> u8" where
  "ternary_to_packed r = fst (foldl (\<lambda>(val, tmp) j. (val OR push_bit (j * 2) (word_of_nat (tmp mod 3)), tmp div 3)) (0, r) [0 ..< 4])"

text \<open>\<open>set_chunk_in_limb\<close>.\<close>

definition offset27 :: int where "offset27 = 3812798742493"

definition set_packed :: "nat \<Rightarrow> u8 \<Rightarrow> tint \<Rightarrow> tint" where
  "set_packed i p l = foldl (\<lambda>l t. set_trit l (i + t) (int_to_trit (uint (drop_bit (t * 2) p AND 3) - 1))) l [0 ..< 4]"

definition set_chunk :: "nat \<Rightarrow> int \<Rightarrow> tint \<Rightarrow> tint" where
  "set_chunk c v l =
     (let uv = nat ((v + offset27) mod 2 ^ 64);
          (l, uv) = foldl (\<lambda>(l, uv) j. (set_packed (c * 27 + j * 4) (ternary_to_packed (uv mod 81)) l, uv div 81)) (l, uv) [0 ..< 6]
      in fst (foldl (\<lambda>(l, uv) t. (set_trit l (c * 27 + t) (int_to_trit (int (uv mod 3) - 1)), uv div 3)) (l, uv) [24 ..< 27]))"

definition pack_limb :: "int \<Rightarrow> int \<Rightarrow> int \<Rightarrow> tint" where
  "pack_limb a b c = set_chunk 2 c (set_chunk 1 b (set_chunk 0 a (clear kLimbTrits)))"

fun pack_limbs :: "int list \<Rightarrow> tint list" where
  "pack_limbs [] = []"
| "pack_limbs [a] = [pack_limb a 0 0]"
| "pack_limbs [a, b] = [pack_limb a b 0]"
| "pack_limbs (a # b # c # cs) = pack_limb a b c # pack_limbs cs"

definition from_chunks :: "int list \<Rightarrow> bigint" where
  "from_chunks cs =
     (let cs = carry_loop cs 0; neg = last_nonzero cs < 0; cs = (if neg then negate_loop cs 0 else cs)
      in big_normalize \<lparr>limbs = pack_limbs cs, negative = neg\<rparr>)"

subsection \<open>The trits that are written\<close>

lemma packed_fields:
  assumes "r < 81" "t < 4"
  shows "uint (drop_bit (t * 2) (ternary_to_packed r) AND 3) = int (r div 3 ^ t mod 3)"
proof -
  have "list_all (\<lambda>r. list_all (\<lambda>t. uint (drop_bit (t * 2) (ternary_to_packed r) AND 3) = int (r div 3 ^ t mod 3)) [0 ..< 4]) [0 ..< 81]"
    by code_simp
  with assms show ?thesis by (simp add: list_all_iff)
qed

definition trit_of :: "nat \<Rightarrow> nat \<Rightarrow> trit" where
  "trit_of uv i = int_to_trit (int (uv div 3 ^ i mod 3) - 1)"

lemma mod_81_digit: "t < 4 \<Longrightarrow> (x mod 81) div 3 ^ t mod 3 = x div 3 ^ t mod (3 :: nat)"
proof -
  assume "t < 4"
  then have e: "(81 :: nat) = 3 ^ t * 3 ^ (4 - t)" by (simp flip: power_add)
  have "(x mod (3 ^ t * 3 ^ (4 - t))) div 3 ^ t = (x div 3 ^ t) mod (3 ^ (4 - t) :: nat)"
    by (simp add: mod_mult2_eq)
  moreover have "(3 :: nat) dvd 3 ^ (4 - t)" using \<open>t < 4\<close> by (intro dvd_power) simp
  ultimately show ?thesis unfolding e by (simp add: mod_mod_cancel)
qed

lemma set_packed_eq:
  "set_packed i (ternary_to_packed (uv mod 81)) l = foldl (\<lambda>l t. set_trit l (i + t) (trit_of uv t)) l [0 ..< 4]"
  unfolding set_packed_def by (intro foldl_cong) (simp_all add: packed_fields mod_81_digit trit_of_def)

lemma trit_of_shift: "trit_of (uv div 3 ^ k) t = trit_of uv (k + t)"
  by (simp add: trit_of_def div_mult2_eq power_add)

lemma map_shift: "map ((+) a) [0 ..< n] = [a ..< a + n]"
  by (intro nth_equalityI) simp_all

lemma packed_loop:
  "foldl (\<lambda>(l, uv) j. (set_packed (s + j * 4) (ternary_to_packed (uv mod 81)) l, uv div 81)) (l, uv) [0 ..< k] =
   (foldl (\<lambda>l i. set_trit l (s + i) (trit_of uv i)) l [0 ..< 4 * k], uv div 3 ^ (4 * k))"
proof (induction k)
  case (Suc k)
  have "[0 ..< 4 * Suc k] = [0 ..< 4 * k] @ map ((+) (4 * k)) [0 ..< 4]"
    unfolding map_shift using upt_add_eq_append [of 0 "4 * k" 4] by (simp add: add.commute)
  moreover have "uv div 3 ^ (4 * k) div 81 = uv div 3 ^ (4 * Suc k)"
    by (simp add: power_add mult.commute flip: div_mult2_eq)
  ultimately show ?case using Suc
    by (simp add: set_packed_eq trit_of_shift foldl_map add.assoc mult.commute)
qed simp

lemma set_chunk_trits:
  assumes "\<bar>v\<bar> \<le> halfB"
  shows "set_chunk c v l = foldl (\<lambda>l i. set_trit l i (trit_of (nat (v + offset27)) (i - c * 27))) l [c * 27 ..< c * 27 + 27]"
proof -
  define uv where "uv = nat (v + offset27)"
  have "0 \<le> v + offset27" "v + offset27 < 2 ^ 64" using assms by (simp_all add: halfB_def kB_def offset27_def)
  then have u: "nat ((v + offset27) mod 2 ^ 64) = uv" by (simp add: uv_def)
  have t: "trit_of uv 24 = int_to_trit (int (uv div 3 ^ 24 mod 3) - 1)"
    "trit_of uv 25 = int_to_trit (int (uv div 3 ^ 24 div 3 mod 3) - 1)"
    "trit_of uv 26 = int_to_trit (int (uv div 3 ^ 24 div 3 div 3 mod 3) - 1)"
    by (simp_all add: trit_of_def flip: div_mult2_eq)
  have l: "[24 ..< 27] = [24, 25, 26 :: nat]" by (simp add: upt_rec)
  have "set_chunk c v l = foldl (\<lambda>l i. set_trit l (c * 27 + i) (trit_of uv i)) l ([0 ..< 24] @ [24 ..< 27])"
    unfolding set_chunk_def u Let_def packed_loop foldl_append l
    by (simp add: t)
  also have "[0 ..< 24] @ [24 ..< 27] = [0 ..< 27 :: nat]" using upt_add_eq_append [of 0 24 3] by simp
  also have "foldl (\<lambda>l i. set_trit l (c * 27 + i) (trit_of uv i)) l [0 ..< 27] =
      foldl (\<lambda>l i. set_trit l i (trit_of uv (i - c * 27))) l (map ((+) (c * 27)) [0 ..< 27])"
    by (simp add: foldl_map)
  also have "map ((+) (c * 27)) [0 ..< 27] = [c * 27 ..< c * 27 + 27]" by (rule map_shift)
  finally show ?thesis by (simp add: uv_def)
qed

lemma trit_of_value: "2 * bal_val (map (\<lambda>i. trit_to_int (trit_of uv i)) [0 ..< n]) = 2 * int (uv mod 3 ^ n) - (3 ^ n - 1)"
proof (induction n)
  case (Suc n)
  have t: "trit_to_int (trit_of uv n) = int (uv div 3 ^ n mod 3) - 1"
  proof -
    have "uv div 3 ^ n mod 3 < 3" by simp
    then show ?thesis unfolding trit_of_def by (intro int_to_trit_inverse(2)) linarith+
  qed
  have m: "int (uv mod 3 ^ Suc n) = 3 ^ n * int (uv div 3 ^ n mod 3) + int (uv mod 3 ^ n)"
    using mod_mult2_eq [of uv "3 ^ n" 3] by (simp add: mult.commute)
  show ?case
    using Suc unfolding m by (simp add: bal_val_append t algebra_simps)
qed simp

lemma set_chunk_facts:
  assumes "\<bar>v\<bar> \<le> halfB" "tint_ok kLimbTrits l" "c < 3"
  shows "tint_ok kLimbTrits (set_chunk c v l)" "chunk_of (set_chunk c v l) k = (if k = c then v else chunk_of l k)"
proof -
  define uv where "uv = nat (v + offset27)"
  have "set [c * 27 ..< c * 27 + 27] \<subseteq> {..<kLimbTrits}" using assms(3) by (auto simp: kLimbTrits_def)
  from fold_set_trit [OF assms(2) this, of "\<lambda>i. trit_of uv (i - c * 27)"]
  have f: "tint_ok kLimbTrits (set_chunk c v l)"
    "get_trit (set_chunk c v l) j = (if j \<in> {c * 27 ..< c * 27 + 27} then trit_of uv (j - c * 27) else get_trit l j)" for j
    unfolding set_chunk_trits [OF assms(1)] uv_def by simp_all
  show "tint_ok kLimbTrits (set_chunk c v l)" by (rule f(1))
  show "chunk_of (set_chunk c v l) k = (if k = c then v else chunk_of l k)"
  proof (cases "k = c")
    case False
    then have "chunk_of (set_chunk c v l) k = chunk_of l k"
      unfolding chunk_of_def by (intro arg_cong [where f = bal_val] map_cong refl) (auto simp: f(2))
    with False show ?thesis by simp
  next
    case True
    have "map (\<lambda>i. trit_to_int (get_trit (set_chunk c v l) i)) [27 * c ..< 27 * c + 27] =
        map (\<lambda>i. trit_to_int (trit_of uv i)) [0 ..< 27]"
      by (intro nth_equalityI) (auto simp: f(2) mult.commute)
    then have e: "2 * chunk_of (set_chunk c v l) c = 2 * int (uv mod 3 ^ 27) - (3 ^ 27 - 1)"
      by (simp only: chunk_of_def trit_of_value)
    have "int uv = v + halfB" "uv < 3 ^ 27"
      using assms(1) by (auto simp: uv_def offset27_def halfB_def kB_def)
    then have "2 * chunk_of (set_chunk c v l) c = 2 * v" using e kB_facts(1,2) by simp
    with True show ?thesis by simp
  qed
qed

lemma chunk_of_clear: "k < 3 \<Longrightarrow> chunk_of (clear kLimbTrits) k = 0"
proof -
  assume "k < 3"
  then have "map (\<lambda>i. trit_to_int (get_trit (clear kLimbTrits) i)) [27 * k ..< 27 * k + 27] = replicate 27 0"
    by (intro nth_equalityI) (auto simp: kLimbTrits_def)
  then show ?thesis by (simp only: chunk_of_def bal_val_replicate_0)
qed

lemma pack_limb_facts:
  assumes "balanced [a, b, c]"
  shows "tint_ok kLimbTrits (pack_limb a b c)" "ival kLimbTrits (pack_limb a b c) = chunk_val [a, b, c]"
proof -
  let ?l1 = "set_chunk 0 a (clear kLimbTrits)"
  let ?l2 = "set_chunk 1 b ?l1"
  have l1: "tint_ok kLimbTrits ?l1" using assms by (intro set_chunk_facts tint_ok_clear) simp_all
  have l2: "tint_ok kLimbTrits ?l2" using assms by (intro set_chunk_facts l1) simp_all
  show "tint_ok kLimbTrits (pack_limb a b c)"
    unfolding pack_limb_def using assms by (intro set_chunk_facts l2) simp_all
  have "limb_chunks (pack_limb a b c) = [a, b, c]"
    unfolding limb_chunks_digits pack_limb_def using assms
    by (simp add: set_chunk_facts [OF _ l2] set_chunk_facts [OF _ l1, unfolded One_nat_def]
        set_chunk_facts [OF _ l2, unfolded One_nat_def] set_chunk_facts [OF _ tint_ok_clear] chunk_of_clear)
  then show "ival kLimbTrits (pack_limb a b c) = chunk_val [a, b, c]"
    by (simp flip: limb_chunks_facts(1))
qed

lemma pack_limbs_facts:
  "balanced cs \<Longrightarrow> list_all (tint_ok kLimbTrits) (pack_limbs cs) \<and> limbs_val (pack_limbs cs) = chunk_val cs"
  by (induction cs rule: pack_limbs.induct)
    (use kB_facts(3) in \<open>simp_all add: pack_limb_facts limb_power power3_eq_cube algebra_simps\<close>)
subsection \<open>Normal forms\<close>

lemma limbs_val_append: "limbs_val (xs @ ys) = limbs_val xs + 3 ^ (kLimbTrits * length xs) * limbs_val ys"
  by (induction xs) (simp_all add: power_add algebra_simps)

lemma limbs_bound: "2 * \<bar>limbs_val ls\<bar> < 3 ^ (kLimbTrits * length ls)"
proof (induction ls)
  case (Cons l ls)
  let ?P = "(3 :: int) ^ kLimbTrits"
  have "2 * \<bar>ival kLimbTrits l + ?P * limbs_val ls\<bar> \<le> 2 * \<bar>ival kLimbTrits l\<bar> + ?P * (2 * \<bar>limbs_val ls\<bar>)"
    using abs_triangle_ineq [of "ival kLimbTrits l" "?P * limbs_val ls"] by (simp add: abs_mult)
  also have "\<dots> < ?P * 1 + ?P * (3 ^ (kLimbTrits * length ls) - 1)"
  proof (rule add_less_le_mono)
    show "2 * \<bar>ival kLimbTrits l\<bar> < ?P * 1" using ival_bound [of kLimbTrits l] by simp
    show "?P * (2 * \<bar>limbs_val ls\<bar>) \<le> ?P * (3 ^ (kLimbTrits * length ls) - 1)"
      using Cons by (intro mult_left_mono) auto
  qed
  finally show ?case by (simp add: power_add algebra_simps)
qed simp

lemma limbs_sgn_last:
  assumes "ls \<noteq> []" "ival kLimbTrits (last ls) \<noteq> 0 \<or> length ls = 1"
  shows "sgn (limbs_val ls) = sgn (ival kLimbTrits (last ls))"
proof (cases "ival kLimbTrits (last ls) = 0")
  case True
  with assms obtain l where "ls = [l]" by (auto simp: length_Suc_conv)
  then show ?thesis by simp
next
  case False
  define P where "P = (3 :: int) ^ (kLimbTrits * (length ls - 1))"
  have e: "limbs_val ls = limbs_val (butlast ls) + P * ival kLimbTrits (last ls)"
    using limbs_val_append [of "butlast ls" "[last ls]"] assms(1) by (simp add: P_def)
  have b: "2 * \<bar>limbs_val (butlast ls)\<bar> < P" using limbs_bound [of "butlast ls"] by (simp add: P_def)
  have "P * 1 \<le> P * \<bar>ival kLimbTrits (last ls)\<bar>" using False by (intro mult_left_mono) (auto simp: P_def)
  moreover have "P * \<bar>ival kLimbTrits (last ls)\<bar> = (if 0 < ival kLimbTrits (last ls) then P * ival kLimbTrits (last ls) else - (P * ival kLimbTrits (last ls)))"
    by simp
  ultimately show ?thesis using b False e
    by (cases "0 < ival kLimbTrits (last ls)") (simp_all add: sgn_if, linarith+)
qed

lemma limbs_sgn: "limbs_ok ls \<Longrightarrow> sgn (limbs_val ls) = sgn (ival kLimbTrits (last ls))"
  by (rule limbs_sgn_last) (auto simp: limbs_ok_def Suc_le_eq le_Suc_eq not_less)

lemma limbs_zero:
  assumes "limbs_ok ls"
  shows "limbs_val ls = 0 \<longleftrightarrow> length ls = 1 \<and> is_zero kLimbTrits (ls ! 0)"
proof (cases "length ls = 1")
  case True
  then obtain l where "ls = [l]" by (auto simp: length_Suc_conv)
  then show ?thesis by (simp add: is_zero_iff)
next
  case False
  then have "1 < length ls" using assms by (cases ls) (auto simp: limbs_ok_def)
  with assms limbs_sgn [OF assms] False show ?thesis by (auto simp: limbs_ok_def sgn_0_0)
qed

lemma trim_limbs_facts:
  "limbs_val (rev (trim_limbs ls)) = limbs_val (rev ls)"
  "list_all (tint_ok kLimbTrits) ls \<Longrightarrow> list_all (tint_ok kLimbTrits) (trim_limbs ls)"
  "ls \<noteq> [] \<Longrightarrow> trim_limbs ls \<noteq> []" "1 < length (trim_limbs ls) \<Longrightarrow> ival kLimbTrits (hd (trim_limbs ls)) \<noteq> 0"
  by (induction ls rule: trim_limbs.induct) (auto simp: limbs_val_append is_zero_iff split: if_splits)

lemma big_normalize_facts:
  assumes "list_all (tint_ok kLimbTrits) (limbs x)"
  shows "big_wf (big_normalize x)" "limbs_val (limbs (big_normalize x)) = limbs_val (limbs x)"
    "big_val (big_normalize x) = big_val x"
proof -
  define ls where "ls = rev (trim_limbs (rev (limbs x)))"
  have v: "limbs_val ls = limbs_val (limbs x)" by (simp add: ls_def trim_limbs_facts)
  have "big_wf (big_normalize x) \<and> limbs_val (limbs (big_normalize x)) = limbs_val (limbs x) \<and>
      big_val (big_normalize x) = big_val x"
  proof (cases "limbs x = []")
    case True
    have "is_zero kLimbTrits (clear kLimbTrits)" by (simp add: is_zero_iff)
    with True show ?thesis
      by (simp add: big_normalize_def big_wf_def limbs_ok_def big_val_def tint_ok_clear)
  next
    case False
    have ok: "limbs_ok ls"
      using False trim_limbs_facts(2,3,4) [of "rev (limbs x)"] assms by (auto simp: limbs_ok_def ls_def last_rev)
    with False v limbs_zero [OF ok] show ?thesis
      by (auto simp: big_normalize_def Let_def ls_def [symmetric] big_wf_def big_val_def)
  qed
  then show "big_wf (big_normalize x)" "limbs_val (limbs (big_normalize x)) = limbs_val (limbs x)"
    "big_val (big_normalize x) = big_val x" by auto
qed

lemma from_chunks_facts:
  assumes "list_all (\<lambda>c. \<bar>c\<bar> \<le> kB) cs"
  shows "big_ok (from_chunks cs)" "big_val (from_chunks cs) = chunk_val cs"
proof -
  define ds where "ds = carry_loop cs 0"
  define neg where "neg \<longleftrightarrow> last_nonzero ds < 0"
  define es where "es = (if neg then negate_loop ds 0 else ds)"
  have ds: "chunk_val ds = chunk_val cs" "balanced ds"
    using carry_loop_facts [OF assms, of 0] by (simp_all add: ds_def)
  have neg: "neg \<longleftrightarrow> chunk_val cs < 0"
    using last_nonzero_sgn [OF ds(2)] ds(1) by (auto simp: neg_def sgn_if split: if_splits)
  have es: "balanced es" "chunk_val es = \<bar>chunk_val cs\<bar>"
    using ds neg by (auto simp: es_def negate_loop_balanced)
  have f: "from_chunks cs = big_normalize \<lparr>limbs = pack_limbs es, negative = neg\<rparr>"
    by (simp add: from_chunks_def Let_def es_def neg_def ds_def)
  have n: "list_all (tint_ok kLimbTrits) (pack_limbs es)" "limbs_val (pack_limbs es) = \<bar>chunk_val cs\<bar>"
    using pack_limbs_facts [OF es(1)] es(2) by simp_all
  note m = big_normalize_facts [of "\<lparr>limbs = pack_limbs es, negative = neg\<rparr>", simplified, OF n(1), folded f]
  show "big_ok (from_chunks cs)" using m n(2) by (simp add: big_ok_def)
  show "big_val (from_chunks cs) = chunk_val cs" using m(3) n(2) neg by (simp add: big_val_def)
qed

lemma balanced_chunks: "balanced cs \<Longrightarrow> list_all (\<lambda>c. \<bar>c\<bar> \<le> kB) cs"
  "std cs \<Longrightarrow> list_all (\<lambda>c. \<bar>c\<bar> \<le> kB) cs"
  using kB_facts(2,3) by (auto simp: balanced_def std_def list_all_iff)

end
