(* ===== verification/T81_Big_Ring.thy ===== *)
theory T81_Big_Ring
  imports T81_BigInt
begin

text \<open>
  Construction, comparison, addition, subtraction and multiplication of big integers
  (\<open>types/T81BigInt.hpp\<close>), with what they return.  An exception is \<open>Inl\<close>, a loop that would not end \<open>None\<close>.
\<close>

section \<open>Construction and tests\<close>

fun int_err :: "int_error \<Rightarrow> big_error" where
  "int_err (Overflow s) = BigOverflow s"
| "int_err (DomainError s) = BigDomain s"

text \<open>A limb holds every 64-bit integer (lemma \<open>limb_of_facts\<close>), so that its constructor does not throw.\<close>

definition limb_of :: "i64 \<Rightarrow> tint" where
  "limb_of v = projr (from_int64 kLimbTrits v)"

definition big_of :: "i64 \<Rightarrow> bigint" where
  "big_of v = big_normalize
     (if sint v < 0
      then \<lparr>limbs = [if sint v = - (2 ^ 63) then projr (tint_add kLimbTrits (limb_of (word_of_int (2 ^ 63 - 1))) (limb_of 1))
             else limb_of (- v)], negative = True\<rparr>
      else \<lparr>limbs = [limb_of v], negative = False\<rparr>)"

definition big_is_zero :: "bigint \<Rightarrow> bool" where
  "big_is_zero x \<longleftrightarrow> length (limbs x) = 1 \<and> is_zero kLimbTrits (limbs x ! 0) \<and> \<not> negative x"

definition big_is_negative :: "bigint \<Rightarrow> bool" where
  "big_is_negative x \<longleftrightarrow> negative x \<and> \<not> big_is_zero x"

definition big_abs :: "bigint \<Rightarrow> bigint" where
  "big_abs x = x\<lparr>negative := False\<rparr>"

definition big_neg :: "bigint \<Rightarrow> bigint" where
  "big_neg x = (if big_is_zero x then x else x\<lparr>negative := \<not> negative x\<rparr>)"

section \<open>Comparison\<close>

fun compare_limbs :: "tint list \<Rightarrow> tint list \<Rightarrow> int" where
  "compare_limbs (l # ls) (m # ms) =
     (if tint_compare kLimbTrits l m < 0 then - 1 else if tint_compare kLimbTrits l m > 0 then 1 else compare_limbs ls ms)"
| "compare_limbs _ _ = 0"

definition compare_magnitudes :: "tint list \<Rightarrow> tint list \<Rightarrow> int" where
  "compare_magnitudes a b =
     (if length a \<noteq> length b then (if length a < length b then - 1 else 1) else compare_limbs (rev a) (rev b))"

definition big_eq :: "bigint \<Rightarrow> bigint \<Rightarrow> bool" where
  "big_eq a b \<longleftrightarrow> (if big_is_zero a \<and> big_is_zero b then True else negative a = negative b \<and> limbs a = limbs b)"

definition big_less :: "bigint \<Rightarrow> bigint \<Rightarrow> bool" where
  "big_less a b =
     (if negative a \<noteq> negative b then negative a
      else if big_is_zero a then \<not> big_is_zero b \<and> \<not> negative b
      else if big_is_zero b then negative a
      else let c = compare_magnitudes (limbs a) (limbs b) in if negative a then c > 0 else c < 0)"

definition big_cmp :: "bigint \<Rightarrow> bigint \<Rightarrow> int" where
  "big_cmp a b = (if big_less a b then - 1 else if big_less b a then 1 else 0)"

section \<open>Conversion to 64 bits\<close>

definition big_to_int64 :: "bigint \<Rightarrow> big_error + i64" where
  "big_to_int64 x =
     (if limbs x = [] then Inl (BigLogic ''T81BigInt::to_int64: no limbs'')
      else if 1 < length (limbs x) then Inl (BigOverflow ''T81BigInt::to_int64: value too large'')
      else case to_int64 kLimbTrits (limbs x ! 0) of
             Inr mag \<Rightarrow> Inr (if negative x then - mag else mag)
           | Inl (Overflow s) \<Rightarrow>
               if negative x \<and> limbs x ! 0 = tint_neg kLimbTrits (limb_of (word_of_int (- (2 ^ 63))))
               then Inr (word_of_int (- (2 ^ 63))) else Inl (BigOverflow ''T81BigInt::to_int64: overflow'')
           | Inl e \<Rightarrow> Inl (int_err e))"

section \<open>Addition and subtraction\<close>

definition signed_limb :: "bigint \<Rightarrow> tint" where
  "signed_limb x = (if negative x then tint_neg kLimbTrits (limbs x ! 0) else limbs x ! 0)"

definition pad_to :: "nat \<Rightarrow> int list \<Rightarrow> int list" where
  "pad_to n cs = cs @ replicate (n - length cs) 0"

definition chunk_add :: "bigint \<Rightarrow> bigint \<Rightarrow> bigint" where
  "chunk_add a b =
     (let ac = to_chunks a; bc = to_chunks b; n = max (length ac) (length bc); padded = (n + 3) div 4 * 4
      in from_chunks (map2 (+) (pad_to n ac) (pad_to n bc) @ replicate (padded + 1 - n) 0))"

definition big_add :: "bigint \<Rightarrow> bigint \<Rightarrow> big_error + bigint" where
  "big_add a b =
     (if big_is_zero a then Inr b
      else if big_is_zero b then Inr a
      else if length (limbs a) = 1 \<and> length (limbs b) = 1 then
        let ta = significant_trits kLimbTrits (limbs a ! 0); tb = significant_trits kLimbTrits (limbs b ! 0);
            s = tint_add kLimbTrits (signed_limb a) (signed_limb b)
        in if max ta tb < kLimbTrits then
             case s of Inl e \<Rightarrow> Inl (int_err e)
             | Inr v \<Rightarrow> Inr (big_normalize (if sign_trit kLimbTrits v = TN
                 then \<lparr>limbs = [tint_neg kLimbTrits v], negative = True\<rparr> else \<lparr>limbs = [v], negative = False\<rparr>))
           else
             case s of Inr v \<Rightarrow> Inr (big_normalize \<lparr>limbs = [v], negative = False\<rparr>)
             | Inl (Overflow _) \<Rightarrow> Inr (chunk_add a b)
             | Inl e \<Rightarrow> Inl (int_err e)
      else Inr (chunk_add a b))"

definition big_sub :: "bigint \<Rightarrow> bigint \<Rightarrow> big_error + bigint" where
  "big_sub a b =
     (if big_is_zero b then Inr a
      else if big_is_zero a then Inr (b\<lparr>negative := \<not> negative b\<rparr>)
      else big_add a (b\<lparr>negative := \<not> negative b\<rparr>))"

section \<open>Multiplication\<close>

definition chunk_mul :: "bigint \<Rightarrow> bigint \<Rightarrow> (big_error + bigint) option" where
  "chunk_mul a b = map_option (\<lambda>rc. Inr (from_chunks rc)) (mul_chunks (to_chunks a) (to_chunks b))"

definition big_mul :: "bigint \<Rightarrow> bigint \<Rightarrow> (big_error + bigint) option" where
  "big_mul a b =
     (if big_is_zero a \<or> big_is_zero b then Some (Inr (big_of 0))
      else if length (limbs a) = 1 \<and> length (limbs b) = 1 then
        let ta = significant_trits kLimbTrits (limbs a ! 0); tb = significant_trits kLimbTrits (limbs b ! 0);
            p = tint_mul kLimbTrits (limbs a ! 0) (limbs b ! 0);
            res = (\<lambda>v. big_normalize \<lparr>limbs = [v], negative = (negative a \<noteq> negative b)\<rparr>)
        in if ta + tb \<le> kLimbTrits then
             Some (case p of Inr v \<Rightarrow> Inr (res v) | Inl e \<Rightarrow> Inl (int_err e))
           else if ta + tb \<le> kLimbTrits + 1 then
             case p of Inr v \<Rightarrow> Some (Inr (res v)) | Inl (Overflow _) \<Rightarrow> chunk_mul a b | Inl e \<Rightarrow> Some (Inl (int_err e))
           else chunk_mul a b
      else chunk_mul a b)"

section \<open>What they return\<close>

lemma big_wf_limbs: "big_wf x \<Longrightarrow> limbs x \<noteq> []" "big_wf x \<Longrightarrow> list_all (tint_ok kLimbTrits) (limbs x)"
  by (auto simp: big_wf_def limbs_ok_def)

lemma big_ok_wf: "big_ok x \<Longrightarrow> big_wf x"
  by (simp add: big_ok_def)

lemma big_wf_zero: "big_wf x \<Longrightarrow> limbs_val (limbs x) = 0 \<longleftrightarrow> big_val x = 0"
  by (auto simp: big_val_def)

lemma big_is_zero_iff: "big_wf x \<Longrightarrow> big_is_zero x \<longleftrightarrow> big_val x = 0"
proof -
  assume a: "big_wf x"
  then have ok: "limbs_ok (limbs x)" and neg: "limbs_val (limbs x) = 0 \<Longrightarrow> \<not> negative x" by (simp_all add: big_wf_def)
  have "big_is_zero x \<longleftrightarrow> limbs_val (limbs x) = 0 \<and> \<not> negative x"
    unfolding big_is_zero_def limbs_zero [OF ok] by blast
  with neg big_wf_zero [OF a] show ?thesis by blast
qed

lemma big_ok_negative: "big_ok x \<Longrightarrow> negative x \<longleftrightarrow> big_val x < 0"
  by (auto simp: big_ok_def big_wf_def big_val_def)

lemma big_is_negative_iff: "big_ok x \<Longrightarrow> big_is_negative x \<longleftrightarrow> big_val x < 0"
  using big_is_zero_iff [OF big_ok_wf, of x] by (auto simp: big_is_negative_def big_ok_negative)

lemma big_abs_facts: "big_ok x \<Longrightarrow> big_ok (big_abs x)" "big_ok x \<Longrightarrow> big_val (big_abs x) = \<bar>big_val x\<bar>"
  by (auto simp: big_ok_def big_wf_def big_val_def big_abs_def)

lemma big_neg_facts: "big_wf x \<Longrightarrow> big_wf (big_neg x)" "big_wf x \<Longrightarrow> big_val (big_neg x) = - big_val x"
  "big_ok x \<Longrightarrow> big_ok (big_neg x)"
  using big_is_zero_iff [of x] by (auto simp: big_ok_def big_wf_def big_val_def big_neg_def)

lemma limb_of_facts: "tint_ok kLimbTrits (limb_of v)" "ival kLimbTrits (limb_of v) = sint v"
proof -
  have "2 * \<bar>sint v\<bar> < 3 ^ kLimbTrits" using sint_i64_range [of v] by (simp add: kLimbTrits_def)
  with from_int64_facts [of v kLimbTrits] show "tint_ok kLimbTrits (limb_of v)" "ival kLimbTrits (limb_of v) = sint v"
    by (auto simp: limb_of_def)
qed

lemma single_limb:
  assumes "tint_ok kLimbTrits v"
  shows "big_wf (big_normalize \<lparr>limbs = [v], negative = b\<rparr>)"
    "big_val (big_normalize \<lparr>limbs = [v], negative = b\<rparr>) = (if b then - ival kLimbTrits v else ival kLimbTrits v)"
    "big_ok (big_normalize \<lparr>limbs = [v], negative = b\<rparr>) \<longleftrightarrow> 0 \<le> ival kLimbTrits v"
  using big_normalize_facts [of "\<lparr>limbs = [v], negative = b\<rparr>"] assms by (simp_all add: big_val_def big_ok_def)

lemma big_of_facts: "big_ok (big_of v)" "big_val (big_of v) = sint v"
proof -
  let ?m = "word_of_int (2 ^ 63 - 1) :: i64"
  have m: "sint ?m = 2 ^ 63 - 1" "sint (1 :: i64) = 1" by simp_all
  have "2 * \<bar>ival kLimbTrits (limb_of ?m) + ival kLimbTrits (limb_of 1)\<bar> < 3 ^ kLimbTrits"
    unfolding limb_of_facts m by (simp add: kLimbTrits_def)
  then obtain r where r: "tint_add kLimbTrits (limb_of ?m) (limb_of 1) = Inr r" "tint_ok kLimbTrits r" "ival kLimbTrits r = 2 ^ 63"
    by (rule tint_addI [OF limb_of_facts(1) limb_of_facts(1)]) (use limb_of_facts m in auto)
  have n: "sint (- v) = - sint v" if "sint v \<noteq> - (2 ^ 63)"
    using that sint_i64_range [of v] by (simp add: sint_word_ariths signed_take_bit_int_eq_self)
  have "big_ok (big_of v) \<and> big_val (big_of v) = sint v"
    using single_limb [OF r(2)] single_limb [OF limb_of_facts(1)] r(1,3) n
    by (simp add: big_of_def limb_of_facts)
  then show "big_ok (big_of v)" "big_val (big_of v) = sint v" by auto
qed

subsection \<open>Order\<close>

lemma compare_limbs_value:
  "length ls = length ms \<Longrightarrow> compare_limbs ls ms = sgn (limbs_val (rev ls) - limbs_val (rev ms))"
proof (induction ls ms rule: list_induct2)
  case (Cons l ls m ms)
  define P where "P = (3 :: int) ^ (kLimbTrits * length ls)"
  define x y where "x = limbs_val (rev ls) - limbs_val (rev ms)" and "y = ival kLimbTrits l - ival kLimbTrits m"
  have "2 * \<bar>limbs_val (rev ls)\<bar> < P" "2 * \<bar>limbs_val (rev ms)\<bar> < P"
    using limbs_bound [of "rev ls"] limbs_bound [of "rev ms"] Cons.hyps by (simp_all add: P_def)
  then have x: "\<bar>x\<bar> < P" by (simp add: x_def)
  have e: "limbs_val (rev (l # ls)) - limbs_val (rev (m # ms)) = x + P * y"
    using Cons.hyps by (simp add: limbs_val_append x_def y_def P_def algebra_simps)
  consider "y = 0" | "1 \<le> y" | "y \<le> - 1" by linarith
  then show ?case
  proof cases
    case 1
    with Cons.IH e show ?thesis by (simp add: tint_compare_value y_def x_def)
  next
    case 2
    then have "P * 1 \<le> P * y" using x by (intro mult_left_mono) simp_all
    with 2 x e show ?thesis by (simp add: tint_compare_value y_def)
  next
    case 3
    then have "P * y \<le> P * - 1" using x by (intro mult_left_mono) simp_all
    with 3 x e show ?thesis by (simp add: tint_compare_value y_def)
  qed
qed simp

lemma longer_is_larger:
  assumes "limbs_ok b" "0 \<le> limbs_val b" "length a < length b" "a \<noteq> []"
  shows "limbs_val a < limbs_val b"
proof -
  define P where "P = (3 :: int) ^ (kLimbTrits * (length b - 1))"
  have l: "1 < length b" using assms(3,4) by (cases a) simp_all
  have "0 < ival kLimbTrits (last b)"
    using limbs_sgn [OF assms(1)] assms(1,2) l by (auto simp: limbs_ok_def sgn_if split: if_splits)
  then have "P * 1 \<le> P * ival kLimbTrits (last b)" by (intro mult_left_mono) (simp_all add: P_def)
  moreover have "limbs_val b = limbs_val (butlast b) + P * ival kLimbTrits (last b)"
    using limbs_val_append [of "butlast b" "[last b]"] l by (cases "b = []") (simp_all add: P_def)
  moreover have "2 * \<bar>limbs_val (butlast b)\<bar> < P" using limbs_bound [of "butlast b"] by (simp add: P_def)
  moreover have "2 * \<bar>limbs_val a\<bar> < P"
  proof -
    have "(3 :: int) ^ (kLimbTrits * length a) \<le> P"
      unfolding P_def using assms(3) by (intro power_increasing mult_le_mono2) simp_all
    with limbs_bound [of a] show ?thesis by simp
  qed
  ultimately show ?thesis by simp
qed

lemma compare_magnitudes_value:
  assumes "limbs_ok a" "limbs_ok b" "0 \<le> limbs_val a" "0 \<le> limbs_val b"
  shows "compare_magnitudes a b = sgn (limbs_val a - limbs_val b)"
proof -
  have "a \<noteq> []" "b \<noteq> []" using assms(1,2) by (auto simp: limbs_ok_def)
  then show ?thesis
    using longer_is_larger [OF assms(2,4), of a] longer_is_larger [OF assms(1,3), of b] compare_limbs_value [of "rev a" "rev b"]
    by (auto simp: compare_magnitudes_def)
qed

text \<open>The comparison is the order of the values, and equal values have equal representations.\<close>

lemma big_less_iff:
  assumes "big_ok a" "big_ok b"
  shows "big_less a b \<longleftrightarrow> big_val a < big_val b"
proof -
  have c: "compare_magnitudes (limbs a) (limbs b) = sgn (limbs_val (limbs a) - limbs_val (limbs b))"
    using assms by (intro compare_magnitudes_value) (auto simp: big_ok_def big_wf_def)
  have z: "big_is_zero a \<longleftrightarrow> big_val a = 0" "big_is_zero b \<longleftrightarrow> big_val b = 0"
    using assms by (simp_all add: big_is_zero_iff big_ok_wf)
  have n: "negative a \<longleftrightarrow> big_val a < 0" "negative b \<longleftrightarrow> big_val b < 0" using assms by (simp_all add: big_ok_negative)
  show ?thesis
  proof (cases "negative a = negative b")
    case False
    with n show ?thesis by (auto simp: big_less_def)
  next
    case True
    define x y where "x = limbs_val (limbs a)" and "y = limbs_val (limbs b)"
    have v: "big_val a = (if negative a then - x else x)" "big_val b = (if negative a then - y else y)"
      using True by (simp_all add: big_val_def x_def y_def)
    have s: "sgn (x - y) < 0 \<longleftrightarrow> x < y" "0 < sgn (x - y) \<longleftrightarrow> y < x" by (simp_all add: sgn_if)
    show ?thesis
    proof (cases "negative a")
      case neg: True
      then have nb: "negative b" using True by simp
      have vs: "big_val a = - x" "big_val b = - y" by (simp_all add: v neg nb)
      have "big_val a < 0" "big_val b < 0" using n neg nb by blast+
      then show ?thesis
        unfolding big_less_def z c x_def [symmetric] y_def [symmetric] Let_def by (simp add: neg nb vs s)
    next
      case pos: False
      then have nb: "\<not> negative b" using True by simp
      have vs: "big_val a = x" "big_val b = y" by (simp_all add: v pos nb)
      have "\<not> big_val a < 0" "\<not> big_val b < 0" using n pos nb by blast+
      then show ?thesis
        unfolding big_less_def z c x_def [symmetric] y_def [symmetric] Let_def by (auto simp: pos nb vs s)
    qed
  qed
qed

lemma limbs_val_inj:
  "length xs = length ys \<Longrightarrow> list_all (tint_ok kLimbTrits) xs \<Longrightarrow> list_all (tint_ok kLimbTrits) ys \<Longrightarrow>
   limbs_val xs = limbs_val ys \<Longrightarrow> xs = ys"
proof (induction xs ys rule: list_induct2)
  case (Cons x xs y ys)
  define P where "P = (3 :: int) ^ kLimbTrits"
  have e: "ival kLimbTrits x - ival kLimbTrits y = P * (limbs_val ys - limbs_val xs)"
    using Cons.prems(3) unfolding limbs_val.simps P_def [symmetric] right_diff_distrib by linarith
  have b: "\<bar>ival kLimbTrits x - ival kLimbTrits y\<bar> < P"
    using ival_bound [of kLimbTrits x] ival_bound [of kLimbTrits y] unfolding P_def by linarith
  have "limbs_val ys - limbs_val xs = 0"
  proof (rule ccontr)
    assume "limbs_val ys - limbs_val xs \<noteq> 0"
    then have "P * 1 \<le> P * \<bar>limbs_val ys - limbs_val xs\<bar>" by (intro mult_left_mono) (simp_all add: P_def)
    also have "\<dots> = \<bar>P * (limbs_val ys - limbs_val xs)\<bar>" by (simp add: abs_mult P_def)
    finally show False using b e by simp
  qed
  then have v: "limbs_val xs = limbs_val ys" by simp
  have "xs = ys" using Cons.IH Cons.prems(1,2) v by simp
  moreover have "x = y" using tint_eq_iff [of kLimbTrits x y] Cons.prems(1,2) e v by simp
  ultimately show ?case by simp
qed simp

lemma big_eq_iff:
  assumes "big_ok a" "big_ok b"
  shows "big_eq a b \<longleftrightarrow> big_val a = big_val b"
proof
  assume v: "big_val a = big_val b"
  have n: "negative a = negative b" using v assms by (simp add: big_ok_negative)
  with v have l: "limbs_val (limbs a) = limbs_val (limbs b)" by (simp add: big_val_def split: if_splits)
  have ok: "limbs_ok (limbs a)" "limbs_ok (limbs b)" "0 \<le> limbs_val (limbs a)" "0 \<le> limbs_val (limbs b)"
    using assms by (auto simp: big_ok_def big_wf_def)
  then have ne: "limbs a \<noteq> []" "limbs b \<noteq> []" by (auto simp: limbs_ok_def)
  have "length (limbs a) = length (limbs b)"
    using longer_is_larger [OF ok(2,4) _ ne(1)] longer_is_larger [OF ok(1,3) _ ne(2)] l
    by (cases "length (limbs a)" "length (limbs b)" rule: linorder_cases) simp_all
  from limbs_val_inj [OF this _ _ l] ok(1,2) n show "big_eq a b" by (auto simp: big_eq_def limbs_ok_def)
next
  assume "big_eq a b"
  then show "big_val a = big_val b"
    using assms by (auto simp: big_eq_def big_val_def big_is_zero_iff big_ok_wf split: if_splits)
qed

lemma big_cmp_value: "big_ok a \<Longrightarrow> big_ok b \<Longrightarrow> big_cmp a b = sgn (big_val a - big_val b)"
  by (auto simp: big_cmp_def big_less_iff)

subsection \<open>Addition\<close>

lemma pad_value: "chunk_val (pad_to n cs) = chunk_val cs" "length (pad_to n cs) = max n (length cs)"
  "balanced (pad_to n cs) = balanced cs"
  using kB_facts(3) by (auto simp: pad_to_def chunk_val_append balanced_def list_all_iff)

lemma map2_value: "length xs = length ys \<Longrightarrow> chunk_val (map2 (+) xs ys) = chunk_val xs + chunk_val ys"
  by (induction xs ys rule: list_induct2) (simp_all add: algebra_simps)

lemma map2_bound:
  "length xs = length ys \<Longrightarrow> balanced xs \<Longrightarrow> balanced ys \<Longrightarrow> list_all (\<lambda>c. \<bar>c\<bar> \<le> kB) (map2 (+) xs ys)"
proof (induction xs ys rule: list_induct2)
  case (Cons x xs y ys)
  then show ?case using kB_facts(2,3) by auto
qed simp

lemma chunk_add_facts: "big_ok (chunk_add a b)" "big_val (chunk_add a b) = big_val a + big_val b"
proof -
  define n where "n = max (length (to_chunks a)) (length (to_chunks b))"
  let ?x = "pad_to n (to_chunks a)" and ?y = "pad_to n (to_chunks b)"
  let ?z = "map2 (+) ?x ?y @ replicate ((n + 3) div 4 * 4 + 1 - n) 0"
  have "length ?x = length ?y" "balanced ?x" "balanced ?y" by (simp_all add: pad_value n_def to_chunks_facts)
  then have z: "list_all (\<lambda>c. \<bar>c\<bar> \<le> kB) ?z" "chunk_val ?z = big_val a + big_val b"
    using map2_bound [of ?x ?y] kB_facts(5)
    by (auto simp: list_all_iff map2_value pad_value chunk_val_append to_chunks_facts)
  have "chunk_add a b = from_chunks ?z" by (simp add: chunk_add_def Let_def n_def)
  with from_chunks_facts [OF z(1)] z(2) show "big_ok (chunk_add a b)" "big_val (chunk_add a b) = big_val a + big_val b"
    by simp_all
qed

text \<open>The one sum that loses its sign: of two single limbs, one of them with its top trit set.\<close>

definition loses_sign :: "bigint \<Rightarrow> bigint \<Rightarrow> bool" where
  "loses_sign a b \<longleftrightarrow> length (limbs a) = 1 \<and> length (limbs b) = 1 \<and>
     kLimbTrits \<le> max (significant_trits kLimbTrits (limbs a ! 0)) (significant_trits kLimbTrits (limbs b ! 0)) \<and>
     2 * \<bar>big_val a + big_val b\<bar> < 3 ^ kLimbTrits \<and> big_val a + big_val b < 0 \<and> big_val a \<noteq> 0 \<and> big_val b \<noteq> 0"

lemma signed_limb_facts:
  assumes "big_wf x" "length (limbs x) = 1"
  shows "tint_ok kLimbTrits (signed_limb x)" "ival kLimbTrits (signed_limb x) = big_val x"
proof -
  obtain l where "limbs x = [l]" using assms(2) by (auto simp: length_Suc_conv)
  with assms(1) show "tint_ok kLimbTrits (signed_limb x)" "ival kLimbTrits (signed_limb x) = big_val x"
    by (auto simp: signed_limb_def big_val_def big_wf_def limbs_ok_def tint_neg_facts)
qed

lemma single_bound:
  assumes "big_wf x" "length (limbs x) = 1"
  shows "2 * \<bar>big_val x\<bar> < 3 ^ significant_trits kLimbTrits (limbs x ! 0)"
proof -
  obtain l where "limbs x = [l]" using assms(2) by (auto simp: length_Suc_conv)
  with significant_facts [of kLimbTrits l] show ?thesis by (simp add: big_val_def)
qed

lemma big_add_facts:
  assumes "big_wf a" "big_wf b"
  shows "\<exists>r. big_add a b = Inr r \<and> big_wf r \<and> big_val r = big_val a + big_val b \<and>
    (big_ok a \<longrightarrow> big_ok b \<longrightarrow> (big_ok r \<longleftrightarrow> \<not> loses_sign a b))"
proof -
  have z: "big_is_zero a \<longleftrightarrow> big_val a = 0" "big_is_zero b \<longleftrightarrow> big_val b = 0" using assms by (simp_all add: big_is_zero_iff)
  show ?thesis
  proof (cases "big_val a \<noteq> 0 \<and> big_val b \<noteq> 0 \<and> length (limbs a) = 1 \<and> length (limbs b) = 1")
    case False
    with z assms chunk_add_facts [of a b] show ?thesis
      by (auto simp: big_add_def big_ok_def loses_sign_def)
  next
    case True
    define ta tb where "ta = significant_trits kLimbTrits (limbs a ! 0)" and "tb = significant_trits kLimbTrits (limbs b ! 0)"
    define s where "s = tint_add kLimbTrits (signed_limb a) (signed_limb b)"
    have x: "tint_ok kLimbTrits (signed_limb a)" "ival kLimbTrits (signed_limb a) = big_val a"
      "tint_ok kLimbTrits (signed_limb b)" "ival kLimbTrits (signed_limb b) = big_val b"
      using signed_limb_facts assms True by blast+
    have s: "if 2 * \<bar>big_val a + big_val b\<bar> < 3 ^ kLimbTrits
        then \<exists>r. s = Inr r \<and> tint_ok kLimbTrits r \<and> ival kLimbTrits r = big_val a + big_val b
        else s = Inl (Overflow ''T81Int overflow'')"
      using tint_add_facts [OF x(1,3)] unfolding x(2,4) s_def .
    show ?thesis
    proof (cases "max ta tb < kLimbTrits")
      case small: True
      define M where "M = (3 :: int) ^ max ta tb"
      have "0 < M" by (simp add: M_def)
      moreover have "M * 3 \<le> 3 ^ kLimbTrits"
        using power_increasing [OF Suc_leI [OF small], of "3 :: int"] by (simp add: M_def)
      moreover have "(3 :: int) ^ ta \<le> M" "(3 :: int) ^ tb \<le> M" by (simp_all add: M_def power_increasing)
      moreover have "2 * \<bar>big_val a\<bar> < 3 ^ ta" "2 * \<bar>big_val b\<bar> < 3 ^ tb"
        using single_bound assms True by (simp_all add: ta_def tb_def)
      ultimately have "2 * \<bar>big_val a + big_val b\<bar> < 3 ^ kLimbTrits"
        by (intro abs2I) (unfold distrib_left, linarith+)
      with s obtain v where v: "s = Inr v" "tint_ok kLimbTrits v" "ival kLimbTrits v = big_val a + big_val b" by auto
      have "big_add a b = Inr (big_normalize (if sign_trit kLimbTrits v = TN
                 then \<lparr>limbs = [tint_neg kLimbTrits v], negative = True\<rparr> else \<lparr>limbs = [v], negative = False\<rparr>))"
        using True z small v(1) by (simp add: big_add_def ta_def tb_def s_def Let_def)
      moreover have "\<not> loses_sign a b" using small by (auto simp: loses_sign_def ta_def tb_def)
      ultimately show ?thesis
        using single_limb [OF v(2)] single_limb [OF tint_neg_facts(1)] v(3) by (auto simp: tint_neg_facts sign_trit_TN)
    next
      case big: False
      show ?thesis
      proof (cases "2 * \<bar>big_val a + big_val b\<bar> < 3 ^ kLimbTrits")
        case fits: True
        with s obtain v where v: "s = Inr v" "tint_ok kLimbTrits v" "ival kLimbTrits v = big_val a + big_val b" by auto
        have "big_add a b = Inr (big_normalize \<lparr>limbs = [v], negative = False\<rparr>)"
          using True z big v(1) by (auto simp: big_add_def ta_def tb_def s_def Let_def)
        moreover have "loses_sign a b \<longleftrightarrow> big_val a + big_val b < 0"
          using True big fits by (auto simp: loses_sign_def ta_def tb_def)
        ultimately show ?thesis using single_limb [OF v(2)] v(3) by auto
      next
        case False
        with s have "s = Inl (Overflow ''T81Int overflow'')" by simp
        then have "big_add a b = Inr (chunk_add a b)"
          using True z big by (auto simp: big_add_def ta_def tb_def s_def Let_def)
        moreover have "\<not> loses_sign a b" using False by (simp add: loses_sign_def)
        ultimately show ?thesis using chunk_add_facts [of a b] by (auto simp: big_ok_def)
      qed
    qed
  qed
qed

text \<open>No sign is lost when the sum is not negative or both operands fit in 80 trits.\<close>

definition big_small :: "bigint \<Rightarrow> bool" where
  "big_small x \<longleftrightarrow> 2 * \<bar>big_val x\<bar> < 3 ^ 80"

lemma loses_sign_small:
  assumes "loses_sign a b" "big_wf a" "big_wf b"
  shows "big_val a + big_val b < 0" "\<not> (big_small a \<and> big_small b)"
proof -
  have s: "significant_trits kLimbTrits (limbs x ! 0) < kLimbTrits" if "big_wf x" "length (limbs x) = 1" "big_small x" for x
  proof -
    obtain l where l: "limbs x = [l]" using \<open>length (limbs x) = 1\<close> by (auto simp: length_Suc_conv)
    with that(3) have "2 * \<bar>ival kLimbTrits l\<bar> < 3 ^ 80" by (simp add: big_small_def big_val_def split: if_splits)
    from significant_le [OF this] l show ?thesis by (simp add: kLimbTrits_def)
  qed
  show "big_val a + big_val b < 0" using assms(1) by (simp add: loses_sign_def)
  show "\<not> (big_small a \<and> big_small b)"
    using assms s [of a] s [of b] by (auto simp: loses_sign_def max_def split: if_splits)
qed

lemma big_addE:
  assumes "big_wf a" "big_wf b"
  obtains r where "big_add a b = Inr r" "big_wf r" "big_val r = big_val a + big_val b"
    "big_ok a \<Longrightarrow> big_ok b \<Longrightarrow> 0 \<le> big_val a + big_val b \<or> big_small a \<and> big_small b \<Longrightarrow> big_ok r"
  using big_add_facts [OF assms] loses_sign_small [OF _ assms] by force

lemma flip_facts:
  assumes "big_wf x" "big_val x \<noteq> 0"
  shows "big_wf (x\<lparr>negative := \<not> negative x\<rparr>)" "big_val (x\<lparr>negative := \<not> negative x\<rparr>) = - big_val x"
    "big_ok x \<Longrightarrow> big_ok (x\<lparr>negative := \<not> negative x\<rparr>)"
  using assms by (auto simp: big_wf_def big_val_def big_ok_def)

lemma big_small_flip [simp]: "big_small (x\<lparr>negative := \<not> negative x\<rparr>) = big_small x"
  by (auto simp: big_small_def big_val_def)

lemma big_subE:
  assumes "big_wf a" "big_wf b"
  obtains r where "big_sub a b = Inr r" "big_wf r" "big_val r = big_val a - big_val b"
    "big_ok a \<Longrightarrow> big_ok b \<Longrightarrow> 0 \<le> big_val a - big_val b \<or> big_small a \<and> big_small b \<Longrightarrow> big_ok r"
proof -
  have z: "big_is_zero a \<longleftrightarrow> big_val a = 0" "big_is_zero b \<longleftrightarrow> big_val b = 0" using assms by (simp_all add: big_is_zero_iff)
  consider "big_val b = 0" | "big_val b \<noteq> 0" "big_val a = 0" | "big_val b \<noteq> 0" "big_val a \<noteq> 0" by blast
  then show thesis
  proof cases
    case 3
    let ?b = "b\<lparr>negative := \<not> negative b\<rparr>"
    note f = flip_facts [OF assms(2) 3(1)]
    obtain r where r: "big_add a ?b = Inr r" "big_wf r" "big_val r = big_val a + big_val ?b"
      "big_ok a \<Longrightarrow> big_ok ?b \<Longrightarrow> 0 \<le> big_val a + big_val ?b \<or> big_small a \<and> big_small ?b \<Longrightarrow> big_ok r"
      by (rule big_addE [OF assms(1) f(1)]) blast
    show thesis
    proof (rule that [of r])
      show "big_sub a b = Inr r" using 3 z r(1) by (simp add: big_sub_def)
      show "big_val r = big_val a - big_val b" using r(3) f(2) by simp
      show "big_ok a \<Longrightarrow> big_ok b \<Longrightarrow> 0 \<le> big_val a - big_val b \<or> big_small a \<and> big_small b \<Longrightarrow> big_ok r"
        using r(4) f(2,3) by simp
    qed (rule r(2))
  qed (use that z flip_facts assms in \<open>auto simp: big_sub_def\<close>)
qed

subsection \<open>Multiplication\<close>

lemma chunk_mul_facts:
  "\<exists>r. chunk_mul a b = Some (Inr r) \<and> big_ok r \<and> big_val r = big_val a * big_val b"
  using mul_chunks_facts [OF to_chunks_facts(2) [of a] to_chunks_facts(2) [of b]] balanced_chunks(1)
  by (auto simp: chunk_mul_def to_chunks_facts from_chunks_facts)

text \<open>With one trit to spare too few the product of the limbs is exact or overflows.\<close>

lemma mul_loop_near:
  assumes "tint_ok n a" "significant_trits n a + significant_trits n b \<le> n + 1"
    "tint_ok n r" "ival n r = ival n a * ival j b" "j \<le> n"
  shows "(\<exists>r'. mul_loop n a b [j ..< n] r = Inr r' \<and> tint_ok n r' \<and> ival n r' = ival n a * ival n b) \<or>
    (\<exists>s. mul_loop n a b [j ..< n] r = Inl (Overflow s))"
  using assms(3-5)
proof (induction "n - j" arbitrary: j r)
  case (Suc m)
  then have j: "j < n" by simp
  have step: "[j ..< n] = j # [Suc j ..< n]" using j by (simp add: upt_rec)
  show ?case
  proof (cases "get_trit b j = TZ")
    case True
    with Suc j show ?thesis by (simp add: step ival_Suc)
  next
    case False
    have sh: "ival n (shift_left n j a) = 3 ^ j * ival n a"
    proof (rule shift_left_exact [OF assms(1)])
      have "j < significant_trits n b" using significant_facts [of n b] j False not_less by blast
      then have "j + significant_trits n a \<le> n" using assms(2) by simp
      then have "(3 :: int) ^ j * 3 ^ significant_trits n a \<le> 3 ^ n" by (simp add: power_add [symmetric] power_increasing)
      moreover have "3 ^ j * (2 * \<bar>ival n a\<bar>) < 3 ^ j * 3 ^ significant_trits n a"
        using significant_facts [of n a] by (intro mult_strict_left_mono) simp_all
      ultimately have "3 ^ j * (2 * \<bar>ival n a\<bar>) < 3 ^ n" by linarith
      then show "2 * \<bar>3 ^ j * ival n a\<bar> < 3 ^ n" by (simp add: abs_mult)
    qed
    have rest: ?thesis if op: "(if get_trit b j = TP then tint_add n r (shift_left n j a) else tint_sub n r (shift_left n j a)) = Inr r1"
      "tint_ok n r1" "ival n r1 = ival n a * ival (Suc j) b" for r1
      using Suc.hyps(1) [of "Suc j" r1] Suc.hyps(2) op j False by (cases "get_trit b j") (auto simp: step)
    show ?thesis
    proof (cases "get_trit b j")
      case TP
      have "ival n r + ival n (shift_left n j a) = ival n a * ival (Suc j) b"
        by (simp add: Suc.prems(2) sh ival_Suc TP algebra_simps)
      with tint_add_facts [OF Suc.prems(1) shift_left_facts(1) [OF assms(1), of j]] rest TP show ?thesis
        by (auto simp: step split: if_splits)
    next
      case TN
      have "ival n r - ival n (shift_left n j a) = ival n a * ival (Suc j) b"
        by (simp add: Suc.prems(2) sh ival_Suc TN algebra_simps)
      with tint_sub_facts [OF Suc.prems(1) shift_left_facts(1) [OF assms(1), of j]] rest TN show ?thesis
        by (auto simp: step split: if_splits)
    qed (use False in simp)
  qed
qed simp

lemma tint_mul_near:
  assumes "tint_ok n a" "significant_trits n a + significant_trits n b \<le> n + 1"
  shows "(\<exists>r. tint_mul n a b = Inr r \<and> tint_ok n r \<and> ival n r = ival n a * ival n b) \<or> (\<exists>s. tint_mul n a b = Inl (Overflow s))"
  unfolding tint_mul_def by (rule mul_loop_near [OF assms tint_ok_clear]) simp_all

lemma big_mul_facts:
  assumes "big_wf a" "big_wf b"
  shows "\<exists>r. big_mul a b = Some (Inr r) \<and> big_wf r \<and> big_val r = big_val a * big_val b \<and> (big_ok a \<longrightarrow> big_ok b \<longrightarrow> big_ok r)"
proof -
  have z: "big_is_zero a \<longleftrightarrow> big_val a = 0" "big_is_zero b \<longleftrightarrow> big_val b = 0" using assms by (simp_all add: big_is_zero_iff)
  consider "big_val a = 0 \<or> big_val b = 0"
    | "big_val a \<noteq> 0" "big_val b \<noteq> 0" "length (limbs a) = 1 \<and> length (limbs b) = 1"
    | "big_val a \<noteq> 0" "big_val b \<noteq> 0" "\<not> (length (limbs a) = 1 \<and> length (limbs b) = 1)" by blast
  then show ?thesis
  proof cases
    case 1
    with z big_of_facts [of 0] show ?thesis by (auto simp: big_mul_def big_ok_def)
  next
    case 3
    with z chunk_mul_facts [of a b] show ?thesis by (auto simp: big_mul_def big_ok_def)
  next
    case 2
    obtain l m where lm: "limbs a = [l]" "limbs b = [m]" using 2(3) by (auto simp: length_Suc_conv)
    have ok: "tint_ok kLimbTrits l" "tint_ok kLimbTrits m" using assms lm by (auto simp: big_wf_def limbs_ok_def)
    let ?res = "\<lambda>v. big_normalize \<lparr>limbs = [v], negative = (negative a \<noteq> negative b)\<rparr>"
    have res: "big_wf (?res v) \<and> big_val (?res v) = big_val a * big_val b \<and> (big_ok a \<longrightarrow> big_ok b \<longrightarrow> big_ok (?res v))"
      if "tint_ok kLimbTrits v" "ival kLimbTrits v = ival kLimbTrits l * ival kLimbTrits m" for v
      using single_limb [OF that(1), of "negative a \<noteq> negative b"] that(2) lm
      by (auto simp: big_val_def big_ok_def)
    let ?s = "significant_trits kLimbTrits l + significant_trits kLimbTrits m"
    consider "?s \<le> kLimbTrits" | "\<not> ?s \<le> kLimbTrits" "?s \<le> kLimbTrits + 1" | "\<not> ?s \<le> kLimbTrits + 1" by linarith
    then show ?thesis
    proof cases
      case a: 1
      with tint_mul_facts [OF ok(1) a] res 2 z lm show ?thesis by (auto simp: big_mul_def)
    next
      case b: 2
      with tint_mul_near [OF ok(1) b(2)] res 2 z lm chunk_mul_facts [of a b] show ?thesis
        by (auto simp: big_mul_def big_ok_def)
    next
      case c: 3
      with 2 z lm chunk_mul_facts [of a b] show ?thesis by (auto simp: big_mul_def big_ok_def)
    qed
  qed
qed

lemma big_mulE:
  assumes "big_wf a" "big_wf b"
  obtains r where "big_mul a b = Some (Inr r)" "big_wf r" "big_val r = big_val a * big_val b"
    "big_ok a \<Longrightarrow> big_ok b \<Longrightarrow> big_ok r"
  using big_mul_facts [OF assms] by blast

end
