(* ===== verification/T81_Big_Div.thy ===== *)
theory T81_Big_Div
  imports T81_Big_Ring
begin

text \<open>
  Euclidean division of big integers, and the algorithms that rest on it: greatest common divisor,
  powers and the integer square root (\<open>types/T81BigInt.hpp\<close>).
\<close>

lemma then_do_mono [partial_function_mono]:
  assumes "mono_option m" "\<And>x. mono_option (\<lambda>f. g x f)"
  shows "mono_option (\<lambda>f. then_do (m f) (\<lambda>x. g x f))"
proof -
  have eq: "(\<lambda>f. then_do (m f) (\<lambda>x. g x f)) =
      (\<lambda>f. Option.bind (m f) (\<lambda>s. case s of Inl e \<Rightarrow> Some (Inl e) | Inr x \<Rightarrow> g x f))"
    by (rule ext) (auto simp: then_do_def split: option.split sum.split)
  have "mono_option (\<lambda>f. case s of Inl e \<Rightarrow> Some (Inl e) | Inr x \<Rightarrow> g x f)" for s
    using assms(2) by (cases s) (auto intro: option.const_mono)
  then show ?thesis unfolding eq by (rule bind_mono [OF assms(1)])
qed

section \<open>Division\<close>

definition big_div_mod :: "bigint \<Rightarrow> bigint \<Rightarrow> (big_error + bigint \<times> bigint) option" where
  "big_div_mod a b =
     (if big_is_zero b then Some (Inl (BigDomain ''BigInt division by zero''))
      else if big_is_zero a then Some (Inr (big_of 0, big_of 0))
      else
        then_do (Some (to_std_chunks (to_chunks (big_abs a)))) (\<lambda>u.
        then_do (Some (to_std_chunks (to_chunks (big_abs b)))) (\<lambda>v.
        then_do (div_mod_std u v) (\<lambda>(q, r).
          let q = from_chunks q; r = from_chunks r in
          if big_is_negative a then
            if \<not> big_is_zero r then
              then_do (Some (big_add q (big_of 1))) (\<lambda>q.
              if big_is_negative b then then_do (Some (big_sub (big_abs b) r)) (\<lambda>r. Some (Inr (q, r)))
              else then_do (Some (big_sub b r)) (\<lambda>r. Some (Inr (big_neg q, r))))
            else Some (Inr (if big_is_negative b then q else big_neg q, r))
          else Some (Inr (if big_is_negative b then big_neg q else q, r))))))"

definition big_quot :: "bigint \<Rightarrow> bigint \<Rightarrow> (big_error + bigint) option" where
  "big_quot a b = then_do (big_div_mod a b) (\<lambda>(q, r). Some (Inr q))"

definition big_rem :: "bigint \<Rightarrow> bigint \<Rightarrow> (big_error + bigint) option" where
  "big_rem a b = then_do (big_div_mod a b) (\<lambda>(q, r). Some (Inr r))"

lemma big_std_chunks:
  assumes "big_ok x"
  shows "\<exists>u. to_std_chunks (to_chunks (big_abs x)) = Inr u \<and> canonical u \<and> chunk_val u = \<bar>big_val x\<bar>"
  using to_std_chunks_facts [OF to_chunks_facts(2), of "big_abs x"] assms
  by (simp add: to_chunks_facts(1) big_abs_facts)

lemma from_std_chunks:
  assumes "canonical cs"
  shows "big_ok (from_chunks cs)" "big_val (from_chunks cs) = chunk_val cs"
  using from_chunks_facts [OF balanced_chunks(2)] assms by (simp_all add: canonical_def)

lemma big_one: "big_ok (big_of 1)" "big_val (big_of 1) = 1" "big_ok (big_of 0)" "big_val (big_of 0) = 0"
  "big_ok (big_of 2)" "big_val (big_of 2) = 2"
  using big_of_facts [of 1] big_of_facts [of 0] big_of_facts [of 2] by simp_all

text \<open>What euclidean division means, whatever the signs.\<close>

definition divided :: "int \<Rightarrow> int \<Rightarrow> int \<Rightarrow> int \<Rightarrow> bool" where
  "divided a b q r \<longleftrightarrow> a = b * q + r \<and> 0 \<le> r \<and> r < \<bar>b\<bar>"

lemma divided_mod: "divided a b q r \<Longrightarrow> r = a mod \<bar>b\<bar>"
proof -
  assume d: "divided a b q r"
  then have "a = \<bar>b\<bar> * (if 0 \<le> b then q else - q) + r" by (simp add: divided_def)
  then have "a mod \<bar>b\<bar> = r mod \<bar>b\<bar>" by (simp only: mod_mult_self4)
  with d show ?thesis by (simp add: divided_def)
qed

lemma divided_pos: "divided a b q r \<Longrightarrow> 0 < b \<Longrightarrow> q = a div b \<and> r = a mod b"
  by (auto simp: divided_def)

lemma big_div_mod_facts:
  assumes "big_ok a" "big_ok b" "big_val b \<noteq> 0"
  shows "\<exists>q r. big_div_mod a b = Some (Inr (q, r)) \<and> big_ok q \<and> big_ok r \<and> divided (big_val a) (big_val b) (big_val q) (big_val r)"
proof -
  have z: "\<not> big_is_zero b" "big_is_zero a \<longleftrightarrow> big_val a = 0" using assms by (simp_all add: big_is_zero_iff big_ok_wf)
  have n: "big_is_negative a \<longleftrightarrow> big_val a < 0" "big_is_negative b \<longleftrightarrow> big_val b < 0" using assms by (simp_all add: big_is_negative_iff)
  show ?thesis
  proof (cases "big_val a = 0")
    case True
    with z big_one assms(3) show ?thesis by (auto simp: big_div_mod_def divided_def)
  next
    case False
    obtain u v where uv: "to_std_chunks (to_chunks (big_abs a)) = Inr u" "canonical u" "chunk_val u = \<bar>big_val a\<bar>"
      "to_std_chunks (to_chunks (big_abs b)) = Inr v" "canonical v" "chunk_val v = \<bar>big_val b\<bar>"
      using big_std_chunks [OF assms(1)] big_std_chunks [OF assms(2)] by blast
    obtain qc rc where s: "div_mod_std u v = Some (Inr (qc, rc))" "canonical qc" "canonical rc"
      "\<bar>big_val a\<bar> = chunk_val qc * \<bar>big_val b\<bar> + chunk_val rc" "0 \<le> chunk_val rc" "chunk_val rc < \<bar>big_val b\<bar>"
      using div_mod_std_facts [OF uv(2,5)] uv(3,6) assms(3) by auto
    define q r where "q = from_chunks qc" and "r = from_chunks rc"
    have q: "big_ok q" "big_val q = chunk_val qc" and r: "big_ok r" "big_val r = chunk_val rc"
      using from_std_chunks s(2,3) by (simp_all add: q_def r_def)
    have q0: "0 \<le> big_val q" using std_bound [of qc] s(2) by (simp add: q canonical_def)
    have zr: "big_is_zero r \<longleftrightarrow> big_val r = 0" using r by (simp add: big_is_zero_iff big_ok_wf)
    have e: "big_div_mod a b =
      (if big_is_negative a then
            if \<not> big_is_zero r then
              then_do (Some (big_add q (big_of 1))) (\<lambda>q.
              if big_is_negative b then then_do (Some (big_sub (big_abs b) r)) (\<lambda>r. Some (Inr (q, r)))
              else then_do (Some (big_sub b r)) (\<lambda>r. Some (Inr (big_neg q, r))))
            else Some (Inr (if big_is_negative b then q else big_neg q, r))
          else Some (Inr (if big_is_negative b then big_neg q else q, r)))"
      using False z uv(1,4) s(1) unfolding q_def r_def by (simp add: big_div_mod_def Let_def)
    have eq: "\<bar>big_val a\<bar> = big_val q * \<bar>big_val b\<bar> + big_val r" "0 \<le> big_val r" "big_val r < \<bar>big_val b\<bar>"
      using s(4-6) q r by simp_all
    show ?thesis
    proof (cases "big_val a < 0 \<and> big_val r \<noteq> 0")
      case False
      have "divided (big_val a) (big_val b) (if (big_val a < 0) = (big_val b < 0) then big_val q else - big_val q) (big_val r)"
        using eq False by (auto simp: divided_def abs_if algebra_simps split: if_splits)
      with e n zr q r False big_neg_facts [of q] show ?thesis by (auto simp: big_ok_wf)
    next
      case True
      obtain q1 where q1: "big_add q (big_of 1) = Inr q1" "big_wf q1" "big_val q1 = big_val q + 1" "big_ok q1"
        by (rule big_addE [OF big_ok_wf [OF q(1)] big_ok_wf [OF big_one(1)]]) (use q(1) q0 big_one in auto)
      obtain r1 where r1: "big_sub (big_abs b) r = Inr r1" "big_val r1 = \<bar>big_val b\<bar> - big_val r" "big_ok r1"
        by (rule big_subE [OF big_ok_wf [OF big_abs_facts(1) [OF assms(2)]] big_ok_wf [OF r(1)]])
          (use r(1) eq(3) big_abs_facts [OF assms(2)] in auto)
      have d: "divided (big_val a) (big_val b) (if big_val b < 0 then big_val q + 1 else - (big_val q + 1)) (\<bar>big_val b\<bar> - big_val r)"
        using eq True by (auto simp: divided_def abs_if algebra_simps split: if_splits)
      show ?thesis
      proof (cases "big_val b < 0")
        case neg: True
        with e n zr q1 r1 True d show ?thesis by auto
      next
        case False
        obtain r2 where r2: "big_sub b r = Inr r2" "big_val r2 = \<bar>big_val b\<bar> - big_val r" "big_ok r2"
          by (rule big_subE [OF big_ok_wf [OF assms(2)] big_ok_wf [OF r(1)]]) (use r(1) eq(3) False assms(2) in auto)
        from False e n zr q1 r2 True d big_neg_facts(2) [OF q1(2)] big_neg_facts(3) [OF q1(4)] show ?thesis by auto
      qed
    qed
  qed
qed

lemma big_div_modE:
  assumes "big_ok a" "big_ok b" "big_val b \<noteq> 0"
  obtains q r where "big_div_mod a b = Some (Inr (q, r))" "big_ok q" "big_ok r"
    "divided (big_val a) (big_val b) (big_val q) (big_val r)"
  using big_div_mod_facts [OF assms] by blast

lemma big_remE:
  assumes "big_ok a" "big_ok b" "big_val b \<noteq> 0"
  obtains r where "big_rem a b = Some (Inr r)" "big_ok r" "big_val r = big_val a mod \<bar>big_val b\<bar>"
  using big_div_mod_facts [OF assms] divided_mod by (auto simp: big_rem_def)

lemma big_quotE:
  assumes "big_ok a" "big_ok b" "0 < big_val b"
  obtains q where "big_quot a b = Some (Inr q)" "big_ok q" "big_val q = big_val a div big_val b"
proof -
  have "big_val b \<noteq> 0" using assms(3) by simp
  from big_div_mod_facts [OF assms(1,2) this] assms(3) that divided_pos show thesis
    by (fastforce simp: big_quot_def)
qed

end
