(* ===== verification/T81_Big_Algo.thy ===== *)
theory T81_Big_Algo
  imports T81_Big_Div
begin

text \<open>
  The algorithms over big integers that rest on their division: greatest common divisor, powers, powers
  modulo a number, integer square root, Bezout coefficients and modular inverse (\<open>types/T81BigInt.hpp\<close>).
\<close>

abbreviation big_try :: "big_error + 'a \<Rightarrow> ('a \<Rightarrow> (big_error + 'b) option) \<Rightarrow> (big_error + 'b) option" where
  "big_try m f \<equiv> then_do (Some m) f"

section \<open>Operations\<close>

partial_function (option) big_gcd_loop :: "bigint \<Rightarrow> bigint \<Rightarrow> (big_error + bigint) option" where
  "big_gcd_loop a b = (if big_is_zero b then Some (Inr a) else then_do (big_rem a b) (\<lambda>r. big_gcd_loop b r))"

definition big_gcd :: "bigint \<Rightarrow> bigint \<Rightarrow> (big_error + bigint) option" where
  "big_gcd a b = big_gcd_loop (big_abs a) (big_abs b)"

partial_function (option) big_pow_loop :: "bigint \<Rightarrow> bigint \<Rightarrow> bigint \<Rightarrow> (big_error + bigint) option" where
  "big_pow_loop res b e =
     (if big_is_zero e then Some (Inr res)
      else then_do (big_div_mod e (big_of 2)) (\<lambda>dm.
           then_do (if big_is_zero (snd dm) then Some (Inr res) else big_mul res b) (\<lambda>res.
           then_do (big_mul b b) (\<lambda>b. big_pow_loop res b (fst dm)))))"

definition big_pow :: "bigint \<Rightarrow> bigint \<Rightarrow> (big_error + bigint) option" where
  "big_pow ba ex =
     (if big_is_negative ex then Some (Inl (BigDomain ''BigInt pow: negative exponent''))
      else if big_is_zero ex then Some (Inr (big_of 1))
      else if big_is_zero ba then Some (Inr (big_of 0))
      else big_pow_loop (big_of 1) ba ex)"

partial_function (option) big_pow_mod_loop :: "bigint \<Rightarrow> bigint \<Rightarrow> bigint \<Rightarrow> bigint \<Rightarrow> (big_error + bigint) option" where
  "big_pow_mod_loop m res b e =
     (if big_is_zero e then Some (Inr res)
      else then_do (big_div_mod e (big_of 2)) (\<lambda>dm.
           then_do (if big_is_zero (snd dm) then Some (Inr res) else then_do (big_mul res b) (\<lambda>p. big_rem p m)) (\<lambda>res.
           then_do (then_do (big_mul b b) (\<lambda>p. big_rem p m)) (\<lambda>b. big_pow_mod_loop m res b (fst dm)))))"

definition big_pow_mod :: "bigint \<Rightarrow> bigint \<Rightarrow> bigint \<Rightarrow> (big_error + bigint) option" where
  "big_pow_mod ba ex m =
     (if big_is_zero m then Some (Inl (BigDomain ''pow_mod: modulus is zero''))
      else if big_is_negative ex then Some (Inl (BigDomain ''pow_mod: negative exponent''))
      else then_do (big_rem (big_of 1) m) (\<lambda>res. then_do (big_rem ba m) (\<lambda>b. big_pow_mod_loop m res b ex)))"

partial_function (option) big_sqrt_loop :: "bigint \<Rightarrow> bigint \<Rightarrow> bigint \<Rightarrow> (big_error + bigint) option" where
  "big_sqrt_loop x a b =
     (if big_less b a
      then then_do (big_quot x b) (\<lambda>q. big_try (big_add b q) (\<lambda>s. then_do (big_quot s (big_of 2)) (\<lambda>c. big_sqrt_loop x b c)))
      else Some (Inr a))"

definition big_sqrt :: "bigint \<Rightarrow> (big_error + bigint) option" where
  "big_sqrt x =
     (if big_is_negative x then Some (Inl (BigDomain ''sqrt of negative number''))
      else if big_is_zero x then Some (Inr (big_of 0))
      else big_try (big_add x (big_of 1)) (\<lambda>s. then_do (big_quot s (big_of 2)) (\<lambda>b. big_sqrt_loop x x b)))"

partial_function (option) ext_loop ::
    "bigint \<Rightarrow> bigint \<Rightarrow> bigint \<Rightarrow> bigint \<Rightarrow> bigint \<Rightarrow> bigint \<Rightarrow> (big_error + bigint \<times> bigint \<times> bigint) option" where
  "ext_loop old_r r old_s s old_t t =
     (if big_is_zero r then Some (Inr (old_r, old_s, old_t))
      else then_do (big_div_mod old_r r) (\<lambda>qr.
           then_do (big_mul (fst qr) s) (\<lambda>qs. big_try (big_sub old_s qs) (\<lambda>s'.
           then_do (big_mul (fst qr) t) (\<lambda>qt. big_try (big_sub old_t qt) (\<lambda>t'.
             ext_loop r (snd qr) s s' t t'))))))"

definition extended_gcd :: "bigint \<Rightarrow> bigint \<Rightarrow> (big_error + bigint \<times> bigint \<times> bigint) option" where
  "extended_gcd a b = ext_loop a b (big_of 1) (big_of 0) (big_of 0) (big_of 1)"

definition modular_inverse :: "bigint \<Rightarrow> bigint \<Rightarrow> (big_error + bigint) option" where
  "modular_inverse a m =
     (if \<not> big_less (big_of 1) m then Some (Inl (BigDomain ''modular_inverse: modulus must be > 1''))
      else then_do (extended_gcd a m) (\<lambda>(g, x, y).
        if \<not> big_eq (big_abs g) (big_of 1) then Some (Inl (BigDomain ''modular_inverse: inverse does not exist''))
        else then_do (big_rem x m) (\<lambda>res. if big_is_negative res then Some (big_add res m) else Some (Inr res))))"

section \<open>Greatest common divisor and powers\<close>

lemma then_do_Some [simp]: "then_do (Some (Inr x)) f = f x" "then_do (Some (Inl e)) f = Some (Inl e)"
  by (simp_all add: then_do_def)

lemma big_gcd_loop_facts:
  "big_ok a \<Longrightarrow> big_ok b \<Longrightarrow> 0 \<le> big_val a \<Longrightarrow> 0 \<le> big_val b \<Longrightarrow>
   \<exists>g. big_gcd_loop a b = Some (Inr g) \<and> big_ok g \<and> big_val g = gcd (big_val a) (big_val b)"
proof (induction "nat (big_val b)" arbitrary: a b rule: less_induct)
  case less
  have z: "big_is_zero b \<longleftrightarrow> big_val b = 0" using less.prems by (simp add: big_is_zero_iff big_ok_wf)
  show ?case
  proof (cases "big_val b = 0")
    case True
    with less.prems z show ?thesis by (simp add: big_gcd_loop.simps [of a b])
  next
    case False
    obtain r where r: "big_rem a b = Some (Inr r)" "big_ok r" "big_val r = big_val a mod \<bar>big_val b\<bar>"
      by (rule big_remE [OF less.prems(1,2) False]) blast
    have b: "0 < big_val b" using False less.prems(4) by simp
    then have "0 \<le> big_val r" "nat (big_val r) < nat (big_val b)" using r(3) by simp_all
    from less.hyps [OF this(2) less.prems(2) r(2) less.prems(4) this(1)] z False r b show ?thesis
      by (simp add: big_gcd_loop.simps [of a b] gcd_red_int [symmetric] gcd.commute)
  qed
qed

lemma big_gcd_facts:
  assumes "big_ok a" "big_ok b"
  shows "\<exists>g. big_gcd a b = Some (Inr g) \<and> big_ok g \<and> big_val g = gcd (big_val a) (big_val b)"
  using big_gcd_loop_facts [of "big_abs a" "big_abs b"] assms by (simp add: big_gcd_def big_abs_facts)

lemma big_halve:
  assumes "big_ok e"
  obtains q r where "big_div_mod e (big_of 2) = Some (Inr (q, r))" "big_ok q" "big_ok r"
    "big_val q = big_val e div 2" "big_val r = big_val e mod 2" "big_is_zero r \<longleftrightarrow> even (big_val e)"
proof (rule big_div_modE [OF assms big_one(5)])
  show "big_val (big_of 2) \<noteq> 0" by (simp add: big_one)
next
  fix q r assume a: "big_div_mod e (big_of 2) = Some (Inr (q, r))" "big_ok q" "big_ok r"
    "divided (big_val e) (big_val (big_of 2)) (big_val q) (big_val r)"
  have v: "big_val q = big_val e div 2" "big_val r = big_val e mod 2" using divided_pos [OF a(4)] by (simp_all add: big_one)
  then have "big_is_zero r \<longleftrightarrow> even (big_val e)" using a(3) by (simp add: big_is_zero_iff big_ok_wf even_iff_mod_2_eq_zero)
  from a(1-3) v this show thesis by (rule that)
qed

lemma pow_halve:
  fixes b :: int assumes "0 \<le> e"
  shows "(if even e then res else res * b) * (b * b) ^ nat (e div 2) = res * b ^ nat e"
proof -
  have "nat e = nat e mod 2 + 2 * (nat e div 2)" by simp
  then have "b ^ nat e = b ^ (nat e mod 2) * (b * b) ^ (nat e div 2)"
    by (metis power_add power_mult power2_eq_square)
  moreover have "nat (e div 2) = nat e div 2" by (simp add: nat_div_distrib assms)
  moreover have "nat e mod 2 = (if even e then 0 else 1)" using assms by (simp add: even_nat_iff mod2_eq_if)
  ultimately show ?thesis by simp
qed

lemma big_pow_loop_facts:
  "big_ok res \<Longrightarrow> big_ok b \<Longrightarrow> big_ok e \<Longrightarrow> 0 \<le> big_val e \<Longrightarrow>
   \<exists>p. big_pow_loop res b e = Some (Inr p) \<and> big_ok p \<and> big_val p = big_val res * big_val b ^ nat (big_val e)"
proof (induction "nat (big_val e)" arbitrary: res b e rule: less_induct)
  case less
  have z: "big_is_zero e \<longleftrightarrow> big_val e = 0" using less.prems by (simp add: big_is_zero_iff big_ok_wf)
  show ?case
  proof (cases "big_val e = 0")
    case True
    with less.prems z show ?thesis by (simp add: big_pow_loop.simps [of res b e])
  next
    case False
    obtain q r where d: "big_div_mod e (big_of 2) = Some (Inr (q, r))" "big_ok q" "big_ok r"
      "big_val q = big_val e div 2" "big_is_zero r \<longleftrightarrow> even (big_val e)"
      by (rule big_halve [OF less.prems(3)]) blast
    obtain x where x: "big_mul res b = Some (Inr x)" "big_ok x" "big_val x = big_val res * big_val b"
      by (rule big_mulE [of res b]) (use less.prems big_ok_wf in auto)
    obtain bb where bb: "big_mul b b = Some (Inr bb)" "big_ok bb" "big_val bb = big_val b * big_val b"
      by (rule big_mulE [of b b]) (use less.prems big_ok_wf in auto)
    let ?res = "if even (big_val e) then res else x"
    have "nat (big_val q) < nat (big_val e)" "0 \<le> big_val q" "big_ok ?res" using False less.prems d x by simp_all
    from less.hyps [OF this(1) this(3) bb(2) d(2) this(2)] obtain p where
      p: "big_pow_loop ?res bb q = Some (Inr p)" "big_ok p" "big_val p = big_val ?res * big_val bb ^ nat (big_val q)" by blast
    have "big_val p = big_val res * big_val b ^ nat (big_val e)"
      unfolding p(3) bb(3) d(4) pow_halve [OF less.prems(4), of "big_val res" "big_val b", symmetric] by (simp add: x(3))
    moreover have "big_pow_loop res b e = big_pow_loop ?res bb q"
      using z False d x bb by (simp add: big_pow_loop.simps [of res b e])
    ultimately show ?thesis using p by simp
  qed
qed

lemma big_pow_facts:
  assumes "big_ok ba" "big_ok ex" "0 \<le> big_val ex"
  shows "\<exists>p. big_pow ba ex = Some (Inr p) \<and> big_ok p \<and> big_val p = big_val ba ^ nat (big_val ex)"
proof -
  have "big_is_zero ba \<longleftrightarrow> big_val ba = 0" "big_is_zero ex \<longleftrightarrow> big_val ex = 0" "\<not> big_is_negative ex"
    using assms by (simp_all add: big_is_zero_iff big_ok_wf big_is_negative_iff)
  with big_pow_loop_facts [OF big_one(1) assms] assms(3) show ?thesis by (auto simp: big_pow_def big_one)
qed

text \<open>Powers modulo a number of either sign.\<close>

lemma pow_mod_halve:
  fixes b :: int assumes "0 \<le> e"
  shows "((if even e then res else (res * b) mod m) * ((b * b) mod m) ^ nat (e div 2)) mod m = (res * b ^ nat e) mod m"
proof -
  have "((if even e then res else (res * b) mod m) * ((b * b) mod m) ^ nat (e div 2)) mod m =
    ((if even e then res else res * b) * (b * b) ^ nat (e div 2)) mod m"
    by (cases "even e") (simp_all add: mod_mult_left_eq mod_mult_right_eq power_mod, metis mod_mult_right_eq power_mod, metis mod_mult_right_eq power_mod)
  then show ?thesis by (simp only: pow_halve [OF assms])
qed

lemma big_mul_rem:
  assumes "big_ok a" "big_ok b" "big_ok m" "big_val m \<noteq> 0"
  obtains r where "then_do (big_mul a b) (\<lambda>p. big_rem p m) = Some (Inr r)" "big_ok r"
    "big_val r = (big_val a * big_val b) mod \<bar>big_val m\<bar>"
proof -
  obtain x where x: "big_mul a b = Some (Inr x)" "big_ok x" "big_val x = big_val a * big_val b"
    by (rule big_mulE [of a b]) (use assms big_ok_wf in auto)
  show thesis by (rule big_remE [OF x(2) assms(3,4)]) (use that x in simp)
qed

lemma big_pow_mod_loop_facts:
  assumes "big_ok m" "big_val m \<noteq> 0"
  shows "big_ok res \<Longrightarrow> big_ok b \<Longrightarrow> big_ok e \<Longrightarrow> 0 \<le> big_val e \<Longrightarrow> big_val res mod \<bar>big_val m\<bar> = big_val res \<Longrightarrow>
   \<exists>p. big_pow_mod_loop m res b e = Some (Inr p) \<and> big_ok p \<and>
     big_val p = (big_val res * big_val b ^ nat (big_val e)) mod \<bar>big_val m\<bar>"
proof (induction "nat (big_val e)" arbitrary: res b e rule: less_induct)
  case less
  have z: "big_is_zero e \<longleftrightarrow> big_val e = 0" using less.prems by (simp add: big_is_zero_iff big_ok_wf)
  show ?case
  proof (cases "big_val e = 0")
    case True
    with less.prems z show ?thesis by (simp add: big_pow_mod_loop.simps [of m res b e])
  next
    case False
    obtain q r where d: "big_div_mod e (big_of 2) = Some (Inr (q, r))" "big_ok q" "big_ok r"
      "big_val q = big_val e div 2" "big_is_zero r \<longleftrightarrow> even (big_val e)"
      by (rule big_halve [OF less.prems(3)]) blast
    obtain x where x: "then_do (big_mul res b) (\<lambda>p. big_rem p m) = Some (Inr x)" "big_ok x"
      "big_val x = (big_val res * big_val b) mod \<bar>big_val m\<bar>"
      by (rule big_mul_rem [OF less.prems(1,2) assms]) blast
    obtain bb where bb: "then_do (big_mul b b) (\<lambda>p. big_rem p m) = Some (Inr bb)" "big_ok bb"
      "big_val bb = (big_val b * big_val b) mod \<bar>big_val m\<bar>"
      by (rule big_mul_rem [OF less.prems(2,2) assms]) blast
    let ?res = "if even (big_val e) then res else x"
    have "nat (big_val q) < nat (big_val e)" "0 \<le> big_val q" "big_ok ?res" "big_val ?res mod \<bar>big_val m\<bar> = big_val ?res"
      using False less.prems d x by simp_all
    from less.hyps [OF this(1) this(3) bb(2) d(2) this(2,4)] obtain p where
      p: "big_pow_mod_loop m ?res bb q = Some (Inr p)" "big_ok p"
        "big_val p = (big_val ?res * big_val bb ^ nat (big_val q)) mod \<bar>big_val m\<bar>" by blast
    have "big_val p = (big_val res * big_val b ^ nat (big_val e)) mod \<bar>big_val m\<bar>"
      unfolding p(3) bb(3) d(4) pow_mod_halve [OF less.prems(4), of "big_val res" "big_val b", symmetric] by (simp add: x(3))
    moreover have "big_pow_mod_loop m res b e = big_pow_mod_loop m ?res bb q"
      using z False d x bb by (simp add: big_pow_mod_loop.simps [of m res b e])
    ultimately show ?thesis using p by simp
  qed
qed

lemma big_pow_mod_facts:
  assumes "big_ok ba" "big_ok ex" "big_ok m" "0 \<le> big_val ex" "big_val m \<noteq> 0"
  shows "\<exists>p. big_pow_mod ba ex m = Some (Inr p) \<and> big_ok p \<and> big_val p = big_val ba ^ nat (big_val ex) mod \<bar>big_val m\<bar>"
proof -
  have z: "\<not> big_is_zero m" "\<not> big_is_negative ex"
    using assms by (simp_all add: big_is_zero_iff big_ok_wf big_is_negative_iff)
  obtain o1 where o1: "big_rem (big_of 1) m = Some (Inr o1)" "big_ok o1" "big_val o1 = 1 mod \<bar>big_val m\<bar>"
    by (rule big_remE [OF big_one(1) assms(3,5)]) (simp add: big_one)
  obtain b where b: "big_rem ba m = Some (Inr b)" "big_ok b" "big_val b = big_val ba mod \<bar>big_val m\<bar>"
    by (rule big_remE [OF assms(1,3,5)]) blast
  have "big_val o1 mod \<bar>big_val m\<bar> = big_val o1" using o1(3) by simp
  from big_pow_mod_loop_facts [OF assms(3,5) o1(2) b(2) assms(2,4) this] obtain p where
    p: "big_pow_mod_loop m o1 b ex = Some (Inr p)" "big_ok p"
      "big_val p = (big_val o1 * big_val b ^ nat (big_val ex)) mod \<bar>big_val m\<bar>" by blast
  have "big_val p = big_val ba ^ nat (big_val ex) mod \<bar>big_val m\<bar>"
    unfolding p(3) o1(3) b(3) by (metis mod_mult_left_eq mult_1 power_mod)
  with p(1,2) o1(1) b(1) z show ?thesis by (simp add: big_pow_mod_def)
qed

section \<open>Square root\<close>

lemma newton_step:
  fixes x a :: int
  assumes "1 \<le> a" "1 \<le> x" "b = (a + x div a) div 2"
  shows "1 \<le> b" "x < (b + 1) * (b + 1)"
proof -
  define q where "q = x div a"
  have q: "0 \<le> q" "x < a * (q + 1)" "a * q \<le> x"
  proof -
    show "0 \<le> q" using assms by (simp add: q_def pos_imp_zdiv_nonneg_iff)
    have "x mod a < a" "0 \<le> x mod a" "x = a * q + x mod a" using assms(1) by (simp_all add: q_def)
    then show "x < a * (q + 1)" "a * q \<le> x" unfolding distrib_left by linarith+
  qed
  have b: "a + q \<le> 2 * b + 1" "2 * b \<le> a + q" using assms(3) by (simp_all add: q_def)
  have "a + q \<ge> 2"
  proof (cases "a = 1")
    case True
    with assms(2) show ?thesis by (simp add: q_def)
  qed (use assms(1) q(1) in linarith)
  then show "1 \<le> b" using assms(3) unfolding q_def [symmetric] by simp
  have "0 \<le> (a - (q + 1)) * (a - (q + 1))" by simp
  then have "4 * (a * (q + 1)) \<le> (a + q + 1) * (a + q + 1)" by (simp add: algebra_simps)
  moreover have "(a + q + 1) * (a + q + 1) \<le> (2 * (b + 1)) * (2 * (b + 1))"
    using b(1) assms(1) q(1) by (intro mult_mono) simp_all
  ultimately have "4 * x < 4 * ((b + 1) * (b + 1))" using q(2) by linarith
  then show "x < (b + 1) * (b + 1)" by simp
qed

lemma newton_end:
  fixes x a :: int
  assumes "1 \<le> a" "1 \<le> x" "a \<le> (a + x div a) div 2"
  shows "a * a \<le> x"
proof -
  have "a \<le> x div a" using assms(3) by simp
  then have "a * a \<le> a * (x div a)" using assms(1) by (intro mult_left_mono) simp_all
  also have "\<dots> \<le> x" using assms(1) by (metis add.commute le_add_same_cancel2 mult_div_mod_eq order_less_le_trans pos_mod_sign zero_less_one)
  finally show ?thesis .
qed

lemma big_add_halveE:
  assumes "big_ok a" "big_ok b" "0 \<le> big_val a" "0 \<le> big_val b"
  obtains s c where "big_add a b = Inr s" "big_quot s (big_of 2) = Some (Inr c)" "big_ok c" "big_val c = (big_val a + big_val b) div 2"
proof -
  obtain s where s: "big_add a b = Inr s" "big_ok s" "big_val s = big_val a + big_val b"
    by (rule big_addE [of a b]) (use assms big_ok_wf in auto)
  show thesis by (rule big_quotE [OF s(2) big_one(5)]) (use that s big_one in simp_all)
qed

lemma big_sqrt_loop_facts:
  assumes "big_ok x" "1 \<le> big_val x"
  shows "big_ok a \<Longrightarrow> big_ok b \<Longrightarrow> 1 \<le> big_val a \<Longrightarrow> big_val b = (big_val a + big_val x div big_val a) div 2 \<Longrightarrow>
    big_val x < (big_val a + 1) * (big_val a + 1) \<Longrightarrow>
    \<exists>r. big_sqrt_loop x a b = Some (Inr r) \<and> big_ok r \<and> 0 \<le> big_val r \<and>
      big_val r * big_val r \<le> big_val x \<and> big_val x < (big_val r + 1) * (big_val r + 1)"
proof (induction "nat (big_val a)" arbitrary: a b rule: less_induct)
  case less
  have l: "big_less b a \<longleftrightarrow> big_val b < big_val a" using less.prems by (simp add: big_less_iff)
  note n = newton_step [OF less.prems(3) assms(2) less.prems(4)]
  show ?case
  proof (cases "big_val b < big_val a")
    case False
    with newton_end [OF less.prems(3) assms(2)] less.prems l show ?thesis by (simp add: big_sqrt_loop.simps [of x a b])
  next
    case True
    obtain q where q: "big_quot x b = Some (Inr q)" "big_ok q" "big_val q = big_val x div big_val b"
      by (rule big_quotE [OF assms(1) less.prems(2)]) (use n in auto)
    have "0 \<le> big_val q" using q(3) assms(2) n(1) by (simp add: pos_imp_zdiv_nonneg_iff)
    then obtain s c where c: "big_add b q = Inr s" "big_quot s (big_of 2) = Some (Inr c)" "big_ok c"
      "big_val c = (big_val b + big_val x div big_val b) div 2"
      using big_add_halveE [OF less.prems(2) q(2)] n(1) q(3) by (metis order.trans zero_le_one)
    have "nat (big_val b) < nat (big_val a)" using True less.prems(3) by simp
    from less.hyps [OF this less.prems(2) c(3) n(1) c(4) n(2)] True l q(1) c(1,2) show ?thesis
      by (simp add: big_sqrt_loop.simps [of x a b])
  qed
qed

lemma big_sqrt_facts:
  assumes "big_ok x" "0 \<le> big_val x"
  shows "\<exists>r. big_sqrt x = Some (Inr r) \<and> big_ok r \<and> 0 \<le> big_val r \<and>
    big_val r * big_val r \<le> big_val x \<and> big_val x < (big_val r + 1) * (big_val r + 1)"
proof -
  have z: "big_is_zero x \<longleftrightarrow> big_val x = 0" "\<not> big_is_negative x"
    using assms by (simp_all add: big_is_zero_iff big_ok_wf big_is_negative_iff)
  show ?thesis
  proof (cases "big_val x = 0")
    case True
    with z show ?thesis by (simp add: big_sqrt_def big_one)
  next
    case False
    then have x: "1 \<le> big_val x" using assms(2) by simp
    obtain s b where b: "big_add x (big_of 1) = Inr s" "big_quot s (big_of 2) = Some (Inr b)" "big_ok b"
      "big_val b = (big_val x + 1) div 2"
      using big_add_halveE [OF assms(1) big_one(1)] assms(2) by (metis big_one(2) zero_le_one)
    have "big_val b = (big_val x + big_val x div big_val x) div 2" using b(4) x by simp
    moreover have "1 * 1 \<le> big_val x * big_val x" using x by (intro mult_mono) linarith+
    then have "big_val x < (big_val x + 1) * (big_val x + 1)" using x unfolding distrib_left distrib_right by linarith
    ultimately show ?thesis
      using big_sqrt_loop_facts [OF assms(1) x assms(1) b(3) x] b(1,2) z False by (simp add: big_sqrt_def)
  qed
qed

end
