(* ===== verification/T81_Big_Inverse.thy ===== *)
theory T81_Big_Inverse
  imports T81_Big_Algo
begin

text \<open>
  What the Bezout coefficients and the modular inverse of \<open>types/T81BigInt.hpp\<close> are.
\<close>

section \<open>Bezout coefficients\<close>

text \<open>One round of the extended Euclidean algorithm on the values.\<close>

lemma ext_round:
  assumes "big_ok u" "big_ok v" "big_val v \<noteq> 0" "big_wf s0" "big_wf s1" "big_wf t0" "big_wf t1"
  obtains q r s2 t2 where
    "ext_loop u v s0 s1 t0 t1 = ext_loop v r s1 s2 t1 t2" "big_ok r" "big_wf s2" "big_wf t2"
    "divided (big_val u) (big_val v) q (big_val r)" "big_val s2 = big_val s0 - q * big_val s1" "big_val t2 = big_val t0 - q * big_val t1"
    "big_ok s0 \<Longrightarrow> big_ok s1 \<Longrightarrow> 2 * \<bar>big_val s0\<bar> < 3 ^ 80 \<Longrightarrow> 2 * \<bar>q * big_val s1\<bar> < 3 ^ 80 \<Longrightarrow> big_ok s2"
proof -
  obtain q r where d: "big_div_mod u v = Some (Inr (q, r))" "big_ok q" "big_ok r"
    "divided (big_val u) (big_val v) (big_val q) (big_val r)"
    by (rule big_div_modE [OF assms(1-3)]) blast
  obtain qs where qs: "big_mul q s1 = Some (Inr qs)" "big_wf qs" "big_val qs = big_val q * big_val s1" "big_ok s1 \<Longrightarrow> big_ok qs"
    by (rule big_mulE [OF big_ok_wf [OF d(2)] assms(5)]) (use d(2) in blast)
  obtain qt where qt: "big_mul q t1 = Some (Inr qt)" "big_wf qt" "big_val qt = big_val q * big_val t1"
    by (rule big_mulE [OF big_ok_wf [OF d(2)] assms(7)]) blast
  obtain s2 where s2: "big_sub s0 qs = Inr s2" "big_wf s2" "big_val s2 = big_val s0 - big_val qs"
    "big_ok s0 \<Longrightarrow> big_ok qs \<Longrightarrow> 0 \<le> big_val s0 - big_val qs \<or> big_small s0 \<and> big_small qs \<Longrightarrow> big_ok s2"
    by (rule big_subE [OF assms(4) qs(2)]) blast
  obtain t2 where t2: "big_sub t0 qt = Inr t2" "big_wf t2" "big_val t2 = big_val t0 - big_val qt"
    by (rule big_subE [OF assms(6) qt(2)]) blast
  have z: "\<not> big_is_zero v" using assms(2,3) by (simp add: big_is_zero_iff big_ok_wf)
  show thesis
  proof (rule that [of r s2 t2 "big_val q"])
    show "ext_loop u v s0 s1 t0 t1 = ext_loop v r s1 s2 t1 t2"
      using z d(1) qs(1) qt(1) s2(1) t2(1) by (simp add: ext_loop.simps [of u v])
    show "big_ok s2" if "big_ok s0" "big_ok s1" "2 * \<bar>big_val s0\<bar> < 3 ^ 80" "2 * \<bar>big_val q * big_val s1\<bar> < 3 ^ 80"
      using s2(4) qs(3,4) that by (simp add: big_small_def)
  qed (use d s2 t2 qs qt in auto)
qed

lemma ext_loop_end: "big_ok v \<Longrightarrow> big_val v = 0 \<Longrightarrow> ext_loop u v s0 s1 t0 t1 = Some (Inr (u, s0, t0))"
  by (simp add: ext_loop.simps [of u v] big_is_zero_iff big_ok_wf)

text \<open>The invariant: both remainders are the combinations of \<open>a\<close> and \<open>b\<close> with the two pairs of coefficients.\<close>

lemma ext_loop_facts:
  "big_ok u \<Longrightarrow> big_ok v \<Longrightarrow> big_wf s0 \<Longrightarrow> big_wf s1 \<Longrightarrow> big_wf t0 \<Longrightarrow> big_wf t1 \<Longrightarrow>
   big_val u = a * big_val s0 + b * big_val t0 \<Longrightarrow> big_val v = a * big_val s1 + b * big_val t1 \<Longrightarrow>
   \<exists>g s t. ext_loop u v s0 s1 t0 t1 = Some (Inr (g, s, t)) \<and> big_ok g \<and> big_wf s \<and> big_wf t \<and>
     big_val g = a * big_val s + b * big_val t \<and> \<bar>big_val g\<bar> = gcd (big_val u) (big_val v)"
proof (induction "nat \<bar>big_val v\<bar>" arbitrary: u v s0 s1 t0 t1 rule: less_induct)
  case less
  show ?case
  proof (cases "big_val v = 0")
    case True
    with less.prems show ?thesis by (simp add: ext_loop_end)
  next
    case False
    obtain q r s2 t2 where n: "ext_loop u v s0 s1 t0 t1 = ext_loop v r s1 s2 t1 t2" "big_ok r" "big_wf s2" "big_wf t2"
      "divided (big_val u) (big_val v) q (big_val r)" "big_val s2 = big_val s0 - q * big_val s1" "big_val t2 = big_val t0 - q * big_val t1"
      by (rule ext_round [OF less.prems(1,2) False less.prems(3-6)]) blast
    have r: "big_val r = big_val u - big_val v * q" "nat \<bar>big_val r\<bar> < nat \<bar>big_val v\<bar>" using n(5) False by (auto simp: divided_def)
    have "big_val r = a * big_val s2 + b * big_val t2"
      unfolding r(1) less.prems(7,8) n(6,7) by (simp add: algebra_simps)
    from less.hyps [OF r(2) less.prems(2) n(2) less.prems(4) n(3) less.prems(6) n(4) less.prems(8) this]
    have "\<exists>g s t. ext_loop u v s0 s1 t0 t1 = Some (Inr (g, s, t)) \<and> big_ok g \<and> big_wf s \<and> big_wf t \<and>
      big_val g = a * big_val s + b * big_val t \<and> \<bar>big_val g\<bar> = gcd (big_val v) (big_val r)" by (simp only: n(1))
    moreover have "big_val r = - q * big_val v + big_val u" by (simp add: r(1))
    then have "gcd (big_val v) (big_val r) = gcd (big_val u) (big_val v)"
      by (simp only: gcd_add_mult gcd.commute)
    ultimately show ?thesis by simp
  qed
qed

lemma extended_gcd_facts:
  assumes "big_ok a" "big_ok b"
  shows "\<exists>g s t. extended_gcd a b = Some (Inr (g, s, t)) \<and> big_ok g \<and> big_wf s \<and> big_wf t \<and>
     big_val g = big_val a * big_val s + big_val b * big_val t \<and> \<bar>big_val g\<bar> = gcd (big_val a) (big_val b)"
  unfolding extended_gcd_def
  by (rule ext_loop_facts [OF assms]) (use big_one big_ok_wf in auto)

text \<open>
  The first coefficients stay below the modulus, so that none loses its sign when the modulus fits in 80
  trits: they alternate in sign, and \<open>\<bar>s\<^sub>1\<bar> u + \<bar>s\<^sub>0\<bar> v\<close> is constant.
\<close>

lemma alternating_step:
  fixes s0 s1 q :: int
  assumes "s0 * s1 \<le> 0" "0 \<le> q"
  shows "\<bar>s0 - q * s1\<bar> = \<bar>s0\<bar> + q * \<bar>s1\<bar>" "s1 * (s0 - q * s1) \<le> 0"
proof -
  have c: "(s0 \<le> 0 \<and> 0 \<le> s1) \<or> (0 \<le> s0 \<and> s1 \<le> 0)" using assms(1) by (auto simp: mult_le_0_iff)
  have "s1 * (s0 - q * s1) = s0 * s1 - q * (s1 * s1)" by (simp add: algebra_simps)
  moreover have "0 \<le> q * (s1 * s1)" using assms(2) by simp
  ultimately show "s1 * (s0 - q * s1) \<le> 0" using assms(1) by linarith
  show "\<bar>s0 - q * s1\<bar> = \<bar>s0\<bar> + q * \<bar>s1\<bar>"
  proof (cases "0 \<le> s1")
    case True
    have "s0 \<le> 0 \<or> s1 = 0" using c True by auto
    moreover have "0 \<le> q * s1" using True assms(2) by simp
    ultimately show ?thesis using True by auto
  next
    case False
    then have "0 \<le> s0" using c by simp
    moreover have "q * s1 \<le> 0" using False assms(2) by (simp add: mult_le_0_iff)
    ultimately show ?thesis using False by simp
  qed
qed

lemma ext_loop_small:
  assumes "2 * m < 3 ^ 80"
  shows "big_ok u \<Longrightarrow> big_ok v \<Longrightarrow> big_ok s0 \<Longrightarrow> big_ok s1 \<Longrightarrow> big_wf t0 \<Longrightarrow> big_wf t1 \<Longrightarrow>
   0 \<le> big_val v \<Longrightarrow> 0 \<le> big_val u \<Longrightarrow> big_val s0 * big_val s1 \<le> 0 \<Longrightarrow>
   \<bar>big_val s1\<bar> * big_val u + \<bar>big_val s0\<bar> * big_val v = m \<Longrightarrow>
   ext_loop u v s0 s1 t0 t1 = Some (Inr (g, s, t)) \<Longrightarrow> big_ok s \<and> 0 \<le> big_val g"
proof (induction "nat (big_val v)" arbitrary: u v s0 s1 t0 t1 rule: less_induct)
  case less
  show ?case
  proof (cases "big_val v = 0")
    case True
    with less.prems show ?thesis by (auto simp: ext_loop_end)
  next
    case False
    then have v: "1 \<le> big_val v" using less.prems(7) by simp
    obtain q r s2 t2 where n: "ext_loop u v s0 s1 t0 t1 = ext_loop v r s1 s2 t1 t2" "big_ok r" "big_wf s2" "big_wf t2"
      "divided (big_val u) (big_val v) q (big_val r)" "big_val s2 = big_val s0 - q * big_val s1"
      "2 * \<bar>big_val s0\<bar> < 3 ^ 80 \<Longrightarrow> 2 * \<bar>q * big_val s1\<bar> < 3 ^ 80 \<Longrightarrow> big_ok s2"
      by (rule ext_round [OF less.prems(1,2) False big_ok_wf [OF less.prems(3)] big_ok_wf [OF less.prems(4)] less.prems(5,6)])
        (use less.prems(3,4) in blast)
    have q: "q = big_val u div big_val v" using divided_pos [OF n(5)] v by simp
    then have q0: "0 \<le> q" using less.prems(8) v by (simp add: pos_imp_zdiv_nonneg_iff)
    have r: "0 \<le> big_val r" "big_val r < big_val v" "big_val u = big_val v * q + big_val r"
      using n(5) v by (auto simp: divided_def)
    note alt = alternating_step [OF less.prems(9) q0]
    have inv: "\<bar>big_val s2\<bar> * big_val v + \<bar>big_val s1\<bar> * big_val r = m"
      using less.prems(10) unfolding n(6) alt(1) r(3) by (simp add: algebra_simps)
    have "\<bar>big_val s2\<bar> * 1 \<le> \<bar>big_val s2\<bar> * big_val v" using v by (intro mult_left_mono) simp_all
    moreover have "0 \<le> \<bar>big_val s1\<bar> * big_val r" using r(1) by simp
    ultimately have "\<bar>big_val s2\<bar> \<le> m" using inv by linarith
    then have "\<bar>big_val s0\<bar> + q * \<bar>big_val s1\<bar> \<le> m" unfolding n(6) alt(1) .
    moreover have "0 \<le> q * \<bar>big_val s1\<bar>" using q0 by simp
    ultimately have "\<bar>big_val s0\<bar> \<le> m" "\<bar>q\<bar> * \<bar>big_val s1\<bar> \<le> m" using q0 unfolding abs_of_nonneg [OF q0] by linarith+
    then have "\<bar>big_val s0\<bar> \<le> m" "\<bar>q * big_val s1\<bar> \<le> m" by (simp_all only: abs_mult)
    then have ok: "big_ok s2" using n(7) assms by linarith
    have "nat (big_val r) < nat (big_val v)" using r(1,2) by simp
    from less.hyps [OF this less.prems(2) n(2) less.prems(4) ok less.prems(6) n(4) r(1) less.prems(7) _ inv] alt(2) n(1) n(6) less.prems(11)
    show ?thesis by simp
  qed
qed

lemma extended_gcd_small:
  assumes "big_ok a" "big_ok m" "0 < big_val m" "2 * big_val m < 3 ^ 80"
  shows "\<exists>g s t. extended_gcd a m = Some (Inr (g, s, t)) \<and> big_ok g \<and> big_ok s \<and> big_wf t \<and>
     big_val g = big_val a * big_val s + big_val m * big_val t \<and> big_val g = gcd (big_val a) (big_val m)"
proof -
  obtain g s t where e: "extended_gcd a m = Some (Inr (g, s, t))" "big_ok g" "big_wf s" "big_wf t"
     "big_val g = big_val a * big_val s + big_val m * big_val t" "\<bar>big_val g\<bar> = gcd (big_val a) (big_val m)"
    using extended_gcd_facts [OF assms(1,2)] by blast
  have nz: "big_val m \<noteq> 0" using assms(3) by simp
  obtain q r s2 t2 where n: "ext_loop a m (big_of 1) (big_of 0) (big_of 0) (big_of 1) = ext_loop m r (big_of 0) s2 (big_of 1) t2"
    "big_ok r" "big_wf s2" "big_wf t2" "divided (big_val a) (big_val m) q (big_val r)" "big_val s2 = 1" "big_ok s2"
    by (rule ext_round [OF assms(1,2) nz, of "big_of 1" "big_of 0" "big_of 0" "big_of 1"]) (auto simp: big_one big_ok_wf)
  have "0 \<le> big_val r" "\<bar>big_val s2\<bar> * big_val m + \<bar>big_val (big_of 0)\<bar> * big_val r = big_val m"
    "big_val (big_of 0) * big_val s2 \<le> 0" "0 \<le> big_val m"
    using n(5,6) assms(3) by (simp_all add: big_one divided_def)
  from ext_loop_small [OF assms(4) assms(2) n(2) big_one(3) n(7) big_ok_wf [OF big_one(1)] n(4) this(1,4,3,2)] e(1)
  have "big_ok s \<and> 0 \<le> big_val g" by (simp add: extended_gcd_def n(1))
  with e show ?thesis by auto
qed

section \<open>Modular inverse\<close>

lemma big_eq_one: "big_ok x \<Longrightarrow> big_eq x (big_of 1) \<longleftrightarrow> big_val x = 1"
  by (simp add: big_eq_iff big_one)

lemma modular_inverse_facts:
  assumes "big_ok a" "big_ok m" "2 * big_val m < 3 ^ 80"
  shows "if big_val m \<le> 1 then modular_inverse a m = Some (Inl (BigDomain ''modular_inverse: modulus must be > 1''))
    else if coprime (big_val a) (big_val m)
    then \<exists>r. modular_inverse a m = Some (Inr r) \<and> big_ok r \<and> 0 \<le> big_val r \<and> big_val r < big_val m \<and>
      (big_val a * big_val r) mod big_val m = 1
    else modular_inverse a m = Some (Inl (BigDomain ''modular_inverse: inverse does not exist''))"
proof (cases "big_val m \<le> 1")
  case True
  then show ?thesis using assms by (simp add: modular_inverse_def big_less_iff big_one)
next
  case False
  then have l: "big_less (big_of 1) m" and m: "0 < big_val m" "1 < big_val m" using assms by (simp_all add: big_less_iff big_one)
  obtain g s t where e: "extended_gcd a m = Some (Inr (g, s, t))" "big_ok g" "big_ok s"
     "big_val g = big_val a * big_val s + big_val m * big_val t" "big_val g = gcd (big_val a) (big_val m)"
    using extended_gcd_small [OF assms(1,2) m(1) assms(3)] by blast
  have o1: "big_eq (big_abs g) (big_of 1) \<longleftrightarrow> coprime (big_val a) (big_val m)"
    using e(2,5) by (simp add: big_eq_one big_abs_facts coprime_iff_gcd_eq_1)
  obtain r where r: "big_rem s m = Some (Inr r)" "big_ok r" "big_val r = big_val s mod \<bar>big_val m\<bar>"
    by (rule big_remE [OF e(3) assms(2)]) (use m in auto)
  have rv: "big_val r = big_val s mod big_val m" "\<not> big_is_negative r" using r(2,3) m pos_mod_sign [of "big_val m" "big_val s"] by (simp_all add: big_is_negative_iff not_less)
  show ?thesis
  proof (cases "coprime (big_val a) (big_val m)")
    case True
    then have "big_val a * big_val s = 1 + big_val m * - big_val t" using e(4,5) by (simp add: coprime_iff_gcd_eq_1)
    then have "(big_val a * big_val s) mod big_val m = 1 mod big_val m" by (simp only: mod_mult_self2)
    then have "(big_val a * big_val r) mod big_val m = 1" using m rv(1) by (simp add: mod_mult_right_eq)
    moreover have "modular_inverse a m = Some (Inr r)" using l e(1) o1 True r(1) rv(2) by (simp add: modular_inverse_def)
    ultimately show ?thesis using r(2) rv m True by simp
  next
    case c: False
    have "modular_inverse a m = Some (Inl (BigDomain ''modular_inverse: inverse does not exist''))"
      using l e(1) o1 c by (simp add: modular_inverse_def)
    with c False show ?thesis by simp
  qed
qed

end
