(* ===== verification/T81_Big_Text.thy ===== *)
theory T81_Big_Text
  imports T81_Big_Inverse T81_Codec
begin

text \<open>
  Big integers as text: decimal, the base 81 alphabet and dotted digits (\<open>types/T81BigInt.hpp\<close>), the
  dotted base 243 codec (\<open>codec/base243.cpp\<close>), and what each reads back of what it wrote.
\<close>

section \<open>Digits\<close>

text \<open>The loop of the printers: digits by repeated division, least significant first.\<close>

partial_function (option) big_digits :: "bigint \<Rightarrow> bigint \<Rightarrow> nat list \<Rightarrow> (big_error + nat list) option" where
  "big_digits ba v ds =
     (if big_is_zero v then Some (Inr ds)
      else then_do (big_div_mod v ba) (\<lambda>dm. big_try (big_to_int64 (snd dm)) (\<lambda>d.
           big_digits ba (fst dm) (ds @ [nat (sint d)]))))"

fun big_horner :: "bigint \<Rightarrow> bigint \<Rightarrow> nat list \<Rightarrow> (big_error + bigint) option" where
  "big_horner ba v [] = Some (Inr v)"
| "big_horner ba v (d # ds) =
     then_do (big_mul v ba) (\<lambda>v. big_try (big_add v (big_of (of_nat d))) (\<lambda>v. big_horner ba v ds))"

definition to_decimal_string :: "bigint \<Rightarrow> (big_error + string) option" where
  "to_decimal_string x =
     (if big_is_zero x then Some (Inr ''0'')
      else then_do (big_digits (big_of 10) (big_abs x) []) (\<lambda>ds.
           Some (Inr ((if negative x then ''-'' else []) @ map digit_char (rev ds)))))"

section \<open>The base 81 alphabet\<close>

definition big_alphabet :: "string list" where
  "big_alphabet = [
    ''0'', ''1'', ''2'', ''3'', ''4'', ''5'', ''6'', ''7'', ''8'', ''9'', ''A'', ''B'', ''C'', ''D'', ''E'', ''F'', ''G'',
    ''H'', ''I'', ''J'', ''K'', ''L'', ''M'', ''N'', ''O'', ''P'', ''Q'', ''R'', ''S'', ''T'', ''U'', ''V'', ''W'', ''X'',
    ''Y'', ''Z'', ''a'', ''b'', ''c'', ''d'', ''e'', ''f'', ''g'', ''h'', ''i'', ''j'', ''k'', ''l'', ''m'', ''n'', ''o'',
    ''p'', ''q'', ''r'', ''s'', ''t'', ''u'', ''v'', ''w'', ''x'', ''y'', ''z'', ''+'', [CHR 0xE2, CHR 0x88, CHR 0x92],
    [CHR 0xC3, CHR 0x97], [CHR 0xC3, CHR 0xB7], ''='', ''<'',
    ''>'', [CHR 0xE2, CHR 0x89, CHR 0xA4], [CHR 0xE2, CHR 0x89, CHR 0xA5], [CHR 0xE2, CHR 0x89, CHR 0xA0],
    [CHR 0xE2, CHR 0x89, CHR 0x88], [CHR 0xE2, CHR 0x88, CHR 0x9E], [CHR 0xCE, CHR 0xBB], [CHR 0xCE, CHR 0xBC],
    [CHR 0xCF, CHR 0x80], [CHR 0xCF, CHR 0x83], [CHR 0xCF, CHR 0x84], [CHR 0xCF, CHR 0x89], [CHR 0xCE, CHR 0x93]]"

definition big_symbols :: "nat list \<Rightarrow> string" where
  "big_symbols ds = concat (map (\<lambda>d. big_alphabet ! d) ds)"

definition to_base81_string :: "bigint \<Rightarrow> (big_error + string) option" where
  "to_base81_string x =
     (if big_is_zero x then Some (Inr ''0'')
      else then_do (big_digits (big_of 81) (big_abs x) []) (\<lambda>ds.
           Some (Inr ((if negative x then ''-'' else []) @ big_symbols (rev ds)))))"

function read_symbols :: "string \<Rightarrow> string + nat list" where
  "read_symbols s =
     (if s = [] then Inr []
      else case next_codepoint s of None \<Rightarrow> Inl ''T81BigInt::from_base81_string: invalid encoding''
        | Some (cp, rest) \<Rightarrow>
            (case find_index (\<lambda>x. x = cp) big_alphabet of
               None \<Rightarrow> Inl ''T81BigInt::from_base81_string: invalid character''
             | Some i \<Rightarrow> map_sum id ((#) i) (read_symbols rest)))"
  by auto
termination
  by (relation "measure length") (auto dest: next_codepoint_split)

declare read_symbols.simps [simp del]

text \<open>The sign, when there is one, and the text after it.\<close>

definition signed_text :: "string \<Rightarrow> bool \<times> bool \<times> string" where
  "signed_text s = (if hd s = CHR ''+'' \<or> hd s = CHR ''-'' then (True, hd s = CHR ''-'', tl s) else (False, False, s))"

definition from_base81_string :: "string \<Rightarrow> (big_error + bigint) option" where
  "from_base81_string s =
     (if s = [] then Some (Inl (BigInvalid ''T81BigInt::from_base81_string: empty input''))
      else case signed_text s of (has_sign, neg, s) \<Rightarrow>
        if has_sign \<and> s = [] then Some (Inl (BigInvalid ''T81BigInt::from_base81_string: sign only''))
        else case read_symbols s of
          Inl e \<Rightarrow> Some (Inl (BigInvalid e))
        | Inr ds \<Rightarrow>
            if 1 < length ds \<and> hd ds = 0
            then Some (Inl (BigInvalid ''T81BigInt::from_base81_string: non-canonical leading zero''))
            else then_do (big_horner (big_of 81) (big_of 0) ds) (\<lambda>v.
                 Some (Inr (if neg \<and> \<not> big_is_zero v then big_neg v else v))))"

section \<open>Dotted digits\<close>

text \<open>
  The scanner of \<open>from_base81_digit_string\<close> and of \<open>Base243::decode_bigint\<close>: a number may not reach
  \<open>cap\<close> while it is read, nor \<open>radix\<close> when it ends.  The second only returns false where the first throws.
\<close>

fun dotted :: "nat \<Rightarrow> nat \<Rightarrow> string \<Rightarrow> nat \<Rightarrow> bool \<Rightarrow> string + nat list" where
  "dotted cap rdx [] current have_digit =
     (if \<not> have_digit then Inl ''from_base81_digit_string: empty digit''
      else if rdx \<le> current then Inl ''digit out of range'' else Inr [current])"
| "dotted cap rdx (c # cs) current have_digit =
     (if c = CHR ''.'' then
        if \<not> have_digit then Inl ''from_base81_digit_string: empty digit''
        else if rdx \<le> current then Inl ''digit out of range'' else map_sum id ((#) current) (dotted cap rdx cs 0 False)
      else if 48 \<le> (of_char c :: nat) \<and> (of_char c :: nat) \<le> 57 then
        let current = current * 10 + (of_char c - 48)
        in if cap \<le> current then Inl ''digit overflow'' else dotted cap rdx cs current True
      else Inl ''invalid char'')"

definition from_base81_digit_string :: "string \<Rightarrow> (big_error + bigint) option" where
  "from_base81_digit_string s =
     (if s = [] then Some (Inl (BigInvalid ''from_base81_digit_string: empty input''))
      else case signed_text s of (has_sign, neg, s) \<Rightarrow>
        case dotted 81 81 s 0 False of
          Inl e \<Rightarrow> Some (Inl (BigInvalid e))
        | Inr ds \<Rightarrow> then_do (big_horner (big_of 81) (big_of 0) ds) (\<lambda>v. Some (Inr (if neg then big_neg v else v))))"

partial_function (option) bigint_digits243 :: "bigint \<Rightarrow> nat list \<Rightarrow> (big_error + nat list) option" where
  "bigint_digits243 v ds =
     (if big_is_zero v then Some (Inr ds)
      else then_do (big_div_mod v (big_of 243)) (\<lambda>dm. big_try (big_to_int64 (snd dm)) (\<lambda>d.
           if sint d < 0 \<or> 243 \<le> sint d then Some (Inl (BigRuntime ''encode_bigint: remainder out of range''))
           else bigint_digits243 (fst dm) (ds @ [nat (sint d)]))))"

fun dot_join :: "nat list \<Rightarrow> string" where
  "dot_join [] = []"
| "dot_join [d] = show_nat d"
| "dot_join (d # ds) = show_nat d @ ''.'' @ dot_join ds"

definition encode_bigint :: "bigint \<Rightarrow> (big_error + string) option" where
  "encode_bigint x =
     (if big_is_zero x then Some (Inr ''0'')
      else then_do (bigint_digits243 (if big_is_negative x then big_abs x else x) []) (\<lambda>ds.
           Some (Inr ((if big_is_negative x then ''-'' else []) @ dot_join (rev ds)))))"

text \<open>\<open>decode_bigint\<close>: \<open>Inr None\<close> when it returns false.\<close>

definition decode_bigint :: "string \<Rightarrow> (big_error + bigint option) option" where
  "decode_bigint s =
     (if s = [] then Some (Inr None)
      else case signed_text s of (has_sign, neg, s) \<Rightarrow>
        if has_sign \<and> s = [] then Some (Inr None)
        else case dotted 1000 243 s 0 False of
          Inl e \<Rightarrow> Some (Inr None)
        | Inr ds \<Rightarrow> then_do (big_horner (big_of 243) (big_of 0) ds) (\<lambda>v. Some (Inr (Some (if neg then big_neg v else v)))))"

section \<open>The digits of a number\<close>

lemma big_ok_unique: "big_ok a \<Longrightarrow> big_ok b \<Longrightarrow> big_val a = big_val b \<Longrightarrow> a = b"
proof -
  assume ab: "big_ok a" "big_ok b" and v: "big_val a = big_val b"
  have "big_eq a b" using big_eq_iff [OF ab] v by simp
  moreover have "limbs a = limbs b" if z: "big_is_zero a" "big_is_zero b"
  proof -
    obtain l m where lm: "limbs a = [l]" "limbs b = [m]" using z by (auto simp: big_is_zero_def length_Suc_conv)
    have "tint_ok kLimbTrits l" "tint_ok kLimbTrits m"
      using big_wf_limbs(2) [OF big_ok_wf [OF ab(1)]] big_wf_limbs(2) [OF big_ok_wf [OF ab(2)]] lm by simp_all
    moreover have "ival kLimbTrits l = 0" "ival kLimbTrits m = 0" using z lm by (simp_all add: big_is_zero_def is_zero_iff)
    ultimately show ?thesis using lm by (simp add: tint_eq_iff)
  qed
  moreover have "negative a = negative b" using v ab by (simp add: big_ok_negative)
  ultimately show "a = b" by (cases a; cases b) (auto simp: big_eq_def split: if_splits)
qed

lemma big_single:
  assumes "big_ok x" "0 \<le> big_val x" "big_val x < 2 ^ 63"
  obtains l where "limbs x = [l]" "ival kLimbTrits l = big_val x" "\<not> negative x"
proof -
  have n: "\<not> negative x" using assms by (simp add: big_ok_negative)
  have ok: "limbs_ok (limbs x)" "0 \<le> limbs_val (limbs x)" using assms(1) by (simp_all add: big_ok_def big_wf_def)
  have v: "limbs_val (limbs x) < 2 ^ 63" using assms(3) n by (simp add: big_val_def)
  have "\<not> 1 < length (limbs x)"
    using longer_is_larger [OF ok, of "[limb_of (word_of_int (2 ^ 63 - 1))]"] v by (auto simp: limb_of_facts)
  moreover have "limbs x \<noteq> []" using ok(1) by (simp add: limbs_ok_def)
  ultimately obtain l where l: "limbs x = [l]" by (cases "limbs x") auto
  with n show thesis by (intro that [of l]) (simp_all add: big_val_def)
qed

lemma big_to_int64_facts:
  assumes "big_ok x" "0 \<le> big_val x" "big_val x < 2 ^ 63"
  shows "big_to_int64 x = Inr (word_of_int (big_val x))"
proof -
  obtain l where l: "limbs x = [l]" "ival kLimbTrits l = big_val x" "\<not> negative x" by (rule big_single [OF assms])
  have "in_i64 (big_val x)" using assms by (simp add: in_i64_def)
  with l to_int64_facts [of kLimbTrits l] show ?thesis by (simp add: big_to_int64_def)
qed

text \<open>The digits of a value, and what makes them its only ones.\<close>

definition digits_in :: "nat \<Rightarrow> nat list \<Rightarrow> bool" where
  "digits_in B ds \<longleftrightarrow> list_all (\<lambda>d. d < B) ds \<and> (ds \<noteq> [] \<longrightarrow> last ds \<noteq> 0)"

lemma big_digit_round:
  assumes "big_ok v" "0 \<le> big_val v" "big_ok ba" "1 < big_val ba" "big_val ba < 2 ^ 63"
  obtains q r d where "big_div_mod v ba = Some (Inr (q, r))" "big_ok q" "big_val q = big_val v div big_val ba"
    "big_to_int64 r = Inr d" "sint d = big_val v mod big_val ba"
proof -
  have "big_val ba \<noteq> 0" using assms(4) by simp
  then obtain q r where d: "big_div_mod v ba = Some (Inr (q, r))" "big_ok q" "big_ok r"
    "divided (big_val v) (big_val ba) (big_val q) (big_val r)"
    using big_div_modE [OF assms(1,3)] by blast
  have v: "big_val q = big_val v div big_val ba" "big_val r = big_val v mod big_val ba"
    using divided_pos [OF d(4)] assms(4) by simp_all
  have r: "0 \<le> big_val r" "big_val r < 2 ^ 63" using d(4) assms(4,5) by (auto simp: divided_def)
  have "sint (word_of_int (big_val r) :: i64) = big_val r" using r by (intro sint_of_in_i64) (simp add: in_i64_def)
  with d v big_to_int64_facts [OF d(3) r] show thesis by (intro that [of q r "word_of_int (big_val r)"]) simp_all
qed

lemma digits_step:
  assumes "le_val B ds = nat (v div int B)" "digits_in B ds" "1 < B" "0 < v"
  shows "le_val B (nat (v mod int B) # ds) = nat v" "digits_in B (nat (v mod int B) # ds)"
proof -
  have s: "0 \<le> v mod int B" "v mod int B < int B" "0 \<le> v div int B"
    using assms(3,4) by (simp_all add: pos_imp_zdiv_nonneg_iff)
  have "int (nat (v mod int B) + B * nat (v div int B)) = v" using s by simp
  then show "le_val B (nat (v mod int B) # ds) = nat v" using assms(1) by (metis le_val.simps(2) nat_int)
  have "v mod int B \<noteq> 0" if "ds = []"
  proof
    assume z: "v mod int B = 0"
    have "v div int B = 0" using assms(1) that s(3) by simp
    with z mult_div_mod_eq [of "int B" v] assms(4) show False by simp
  qed
  with s assms(2) show "digits_in B (nat (v mod int B) # ds)" by (auto simp: digits_in_def)
qed

lemma big_digits_facts:
  assumes "big_ok ba" "1 < big_val ba" "big_val ba < 2 ^ 63"
  shows "big_ok v \<Longrightarrow> 0 \<le> big_val v \<Longrightarrow>
    \<exists>ds. big_digits ba v acc = Some (Inr (acc @ ds)) \<and> le_val (nat (big_val ba)) ds = nat (big_val v) \<and> digits_in (nat (big_val ba)) ds"
proof (induction "nat (big_val v)" arbitrary: v acc rule: less_induct)
  case less
  define B where "B = nat (big_val ba)"
  have B: "int B = big_val ba" "1 < B" using assms(2) by (simp_all add: B_def)
  have z: "big_is_zero v \<longleftrightarrow> big_val v = 0" using less.prems by (simp add: big_is_zero_iff big_ok_wf)
  show ?case
  proof (cases "big_val v = 0")
    case True
    with z show ?thesis by (simp add: big_digits.simps [of ba v] digits_in_def)
  next
    case False
    then have v: "0 < big_val v" using less.prems(2) by simp
    obtain q r d where r: "big_div_mod v ba = Some (Inr (q, r))" "big_ok q" "big_val q = big_val v div big_val ba"
      "big_to_int64 r = Inr d" "sint d = big_val v mod big_val ba"
      by (rule big_digit_round [OF less.prems assms])
    have "nat (big_val q) < nat (big_val v)" "0 \<le> big_val q"
      using r(3) v assms(2) by (simp_all add: div_less_dividend pos_imp_zdiv_nonneg_iff int_div_less_self)
    from less.hyps [OF this(1) r(2) this(2), of "acc @ [nat (sint d)]"] obtain ds where
      ds: "big_digits ba q (acc @ [nat (sint d)]) = Some (Inr ((acc @ [nat (sint d)]) @ ds))"
        "le_val B ds = nat (big_val q)" "digits_in B ds" by (auto simp: B_def)
    have "le_val B ds = nat (big_val v div int B)" using ds(2) by (simp only: r(3) B(1))
    from digits_step [OF this ds(3) B(2) v] have "le_val B (nat (sint d) # ds) = nat (big_val v)" "digits_in B (nat (sint d) # ds)"
      by (simp_all only: r(5) B(1))
    moreover have "big_digits ba v acc = Some (Inr (acc @ nat (sint d) # ds))"
      using z False r(1,4) ds(1) by (simp add: big_digits.simps [of ba v])
    ultimately show ?thesis unfolding B_def [symmetric] by blast
  qed
qed

text \<open>Horner's rule inverts them.\<close>

lemma big_horner_facts:
  assumes "big_ok ba" "0 \<le> big_val ba"
  shows "big_ok v \<Longrightarrow> 0 \<le> big_val v \<Longrightarrow> list_all (\<lambda>d. d < 2 ^ 63) ds \<Longrightarrow>
    \<exists>r. big_horner ba v ds = Some (Inr r) \<and> big_ok r \<and> 0 \<le> big_val r \<and>
      big_val r = int (le_val (nat (big_val ba)) (rev ds)) + big_val ba ^ length ds * big_val v"
proof (induction ds arbitrary: v)
  case (Cons d ds)
  have d: "sint (of_nat d :: i64) = int d"
    using Cons.prems(3) sint_of_in_i64 [of "int d"] by (simp add: in_i64_def)
  obtain m where m: "big_mul v ba = Some (Inr m)" "big_ok m" "big_val m = big_val v * big_val ba"
    by (rule big_mulE [of v ba]) (use Cons.prems assms big_ok_wf in auto)
  have m0: "0 \<le> big_val m" using m(3) Cons.prems(2) assms(2) by simp
  obtain s where s: "big_add m (big_of (of_nat d)) = Inr s" "big_ok s" "big_val s = big_val m + int d"
    by (rule big_addE [of m "big_of (of_nat d)"]) (use m m0 big_of_facts [of "of_nat d"] d big_ok_wf in auto)
  have "0 \<le> big_val s" using s(3) m0 by simp
  from Cons.IH [OF s(2) this] Cons.prems(3) obtain r where r: "big_horner ba s ds = Some (Inr r)" "big_ok r" "0 \<le> big_val r"
    "big_val r = int (le_val (nat (big_val ba)) (rev ds)) + big_val ba ^ length ds * big_val s" by auto
  have "big_val r = int (le_val (nat (big_val ba)) (rev (d # ds))) + big_val ba ^ length (d # ds) * big_val v"
    unfolding r(4) s(3) m(3) using assms(2) by (simp add: algebra_simps)
  with r m(1) s(1) show ?case by simp
qed simp

lemma big_horner_value:
  assumes "sint w = int B" "list_all (\<lambda>d. d < 2 ^ 63) ds"
  shows "\<exists>r. big_horner (big_of w) (big_of 0) ds = Some (Inr r) \<and> big_ok r \<and> big_val r = int (le_val B (rev ds))"
  using big_horner_facts [OF big_of_facts(1) [of w] _ big_one(3) _ assms(2)] assms(1) by (auto simp: big_of_facts)

section \<open>Decimal\<close>

lemma show_nat_digits: "digits_in 10 ds \<Longrightarrow> ds \<noteq> [] \<Longrightarrow> map digit_char (rev ds) = show_nat (le_val 10 ds)"
proof (induction ds)
  case (Cons d ds)
  have d: "d < 10" "digits_in 10 ds" using Cons.prems(1) by (simp_all add: digits_in_def split: if_splits)
  show ?case
  proof (cases "ds = []")
    case True
    with d show ?thesis by (simp add: show_nat.simps [of d])
  next
    case False
    then have "last ds \<noteq> 0" using d(2) by (simp add: digits_in_def)
    from le_val_pos [OF False this, of 10] have "\<not> d + 10 * le_val 10 ds < 10" by simp
    with Cons.IH [OF d(2) False] d(1) show ?thesis by (simp add: show_nat.simps [of "d + 10 * le_val 10 ds"])
  qed
qed simp

lemma big_digits_of:
  assumes "big_ok x" "big_val x \<noteq> 0" "sint w = int B" "1 < B"
  obtains ds where "big_digits (big_of w) (big_abs x) [] = Some (Inr ds)" "le_val B ds = nat \<bar>big_val x\<bar>" "digits_in B ds" "ds \<noteq> []"
proof -
  have w: "big_ok (big_of w)" "1 < big_val (big_of w)" "big_val (big_of w) < 2 ^ 63" "nat (big_val (big_of w)) = B"
    using big_of_facts [of w] assms(3,4) sint_i64_range [of w] by simp_all
  obtain ds where ds: "big_digits (big_of w) (big_abs x) [] = Some (Inr ds)" "le_val B ds = nat \<bar>big_val x\<bar>" "digits_in B ds"
    using big_digits_facts [OF w(1-3), of "big_abs x" "[]"] assms(1) w(4) by (auto simp: big_abs_facts)
  then have "ds \<noteq> []" using assms(2) by auto
  with ds show thesis by (rule that)
qed

lemma show_nat_0: "show_nat 0 = ''0''"
  by code_simp

lemma big_zero_sign: "big_ok x \<Longrightarrow> negative x \<longleftrightarrow> big_val x < 0" "big_ok x \<Longrightarrow> big_is_zero x \<longleftrightarrow> big_val x = 0"
  by (simp_all add: big_ok_negative big_is_zero_iff big_ok_wf)

lemma to_decimal_string_facts:
  assumes "big_ok x" shows "to_decimal_string x = Some (Inr (show_int (big_val x)))"
proof (cases "big_val x = 0")
  case True
  then show ?thesis
    using assms by (simp add: to_decimal_string_def big_zero_sign show_int_def show_nat_0)
next
  case False
  obtain ds where ds: "big_digits (big_of 10) (big_abs x) [] = Some (Inr ds)" "le_val 10 ds = nat \<bar>big_val x\<bar>" "digits_in 10 ds" "ds \<noteq> []"
    by (rule big_digits_of [OF assms False, of 10 10]) simp_all
  with show_nat_digits [OF ds(3,4)] False assms show ?thesis
    by (simp add: to_decimal_string_def big_zero_sign show_int_def)
qed

section \<open>Base 81\<close>

lemma big_alphabet_ok: "alphabet_ok big_alphabet" "length big_alphabet = 81"
proof -
  have "distinct big_alphabet" by code_simp
  moreover have "list_all (\<lambda>s. s \<noteq> [] \<and> codepoint_length (of_char (hd s)) = Some (length s)) big_alphabet" by code_simp
  ultimately show "alphabet_ok big_alphabet" by (simp add: alphabet_ok_def)
  show "length big_alphabet = 81" by (simp add: big_alphabet_def)
qed

lemmas big_symbol = alphabet_symbol [OF big_alphabet_ok(1), unfolded big_alphabet_ok(2)]

lemma big_symbols_simps [simp]: "big_symbols [] = []" "big_symbols (d # ds) = big_alphabet ! d @ big_symbols ds"
  by (simp_all add: big_symbols_def)

lemma read_symbols_text: "list_all (\<lambda>d. d < 81) ds \<Longrightarrow> read_symbols (big_symbols ds) = Inr ds"
proof (induction ds)
  case (Cons d ds)
  with big_symbol show ?case by (subst read_symbols.simps) simp
qed (simp add: read_symbols.simps)

text \<open>One symbol of the alphabet is a sign.\<close>

lemma sign_symbol:
  assumes "d < 81"
  shows "hd (big_alphabet ! d) \<noteq> CHR ''-''" "hd (big_alphabet ! d) = CHR ''+'' \<longleftrightarrow> d = 62"
proof -
  have "list_all (\<lambda>d. hd (big_alphabet ! d) \<noteq> CHR ''-'' \<and> (hd (big_alphabet ! d) = CHR ''+'' \<longleftrightarrow> d = 62)) [0 ..< 81]"
    by code_simp
  with assms show "hd (big_alphabet ! d) \<noteq> CHR ''-''" "hd (big_alphabet ! d) = CHR ''+'' \<longleftrightarrow> d = 62"
    by (simp_all add: list_all_iff)
qed

lemma plus_symbol: "big_alphabet ! 62 = ''+''"
  by (simp add: big_alphabet_def)

lemma big_symbols_hd: "d < 81 \<Longrightarrow> hd (big_symbols (d # ds)) = hd (big_alphabet ! d)" "d < 81 \<Longrightarrow> big_symbols (d # ds) \<noteq> []"
  using big_symbol(1) [of d] by simp_all

definition proper_digits :: "nat list \<Rightarrow> bool" where
  "proper_digits ds \<longleftrightarrow> list_all (\<lambda>d. d < 81) ds \<and> ds \<noteq> [] \<and> (1 < length ds \<longrightarrow> hd ds \<noteq> 0)"

lemma proper_digitsE:
  assumes "proper_digits ds"
  obtains d es r where "ds = d # es" "d < 81" "big_symbols ds \<noteq> []" "read_symbols (big_symbols ds) = Inr ds"
    "\<not> (1 < length ds \<and> hd ds = 0)" "big_horner (big_of 81) (big_of 0) ds = Some (Inr r)" "big_ok r" "big_val r = int (le_val 81 (rev ds))"
proof -
  obtain d es where d: "ds = d # es" "d < 81" using assms by (cases ds) (auto simp: proper_digits_def)
  have "list_all (\<lambda>d. d < 2 ^ 63) ds" using assms by (auto simp: proper_digits_def list_all_iff)
  then obtain r where "big_horner (big_of 81) (big_of 0) ds = Some (Inr r)" "big_ok r" "big_val r = int (le_val 81 (rev ds))"
    using big_horner_value [of 81 81 ds] by auto
  with d read_symbols_text [of ds] big_symbols_hd(2) [OF d(2), of es] assms show thesis
    by (intro that [of d es r]) (auto simp: proper_digits_def)
qed

lemma from_base81_negative:
  assumes "proper_digits ds"
  shows "\<exists>r. from_base81_string (''-'' @ big_symbols ds) = Some (Inr r) \<and> big_ok r \<and> big_val r = - int (le_val 81 (rev ds))"
proof -
  obtain d es r where r: "ds = d # es" "d < 81" "big_symbols ds \<noteq> []" "read_symbols (big_symbols ds) = Inr ds"
    "\<not> (1 < length ds \<and> hd ds = 0)" "big_horner (big_of 81) (big_of 0) ds = Some (Inr r)" "big_ok r" "big_val r = int (le_val 81 (rev ds))"
    by (rule proper_digitsE [OF assms])
  then have "from_base81_string (''-'' @ big_symbols ds) = Some (Inr (if big_is_zero r then r else big_neg r))"
    unfolding from_base81_string_def by (simp add: signed_text_def del: big_symbols_simps)
  moreover have "big_is_zero r \<longleftrightarrow> big_val r = 0" using r(7) by (simp add: big_zero_sign)
  ultimately show ?thesis using r(7,8) big_neg_facts(2) [OF big_ok_wf [OF r(7)]] big_neg_facts(3) [OF r(7)] by auto
qed

lemma from_base81_plain:
  assumes "proper_digits ds" "hd ds \<noteq> 62"
  shows "\<exists>r. from_base81_string (big_symbols ds) = Some (Inr r) \<and> big_ok r \<and> big_val r = int (le_val 81 (rev ds))"
proof -
  obtain d es r where r: "ds = d # es" "d < 81" "big_symbols ds \<noteq> []" "read_symbols (big_symbols ds) = Inr ds"
    "\<not> (1 < length ds \<and> hd ds = 0)" "big_horner (big_of 81) (big_of 0) ds = Some (Inr r)" "big_ok r" "big_val r = int (le_val 81 (rev ds))"
    by (rule proper_digitsE [OF assms(1)])
  have "signed_text (big_symbols ds) = (False, False, big_symbols ds)"
    using assms(2) r(1) sign_symbol(1,2) [OF r(2)] big_symbols_hd(1) [OF r(2), of es] by (simp add: signed_text_def del: big_symbols_simps)
  with r show ?thesis unfolding from_base81_string_def by (simp del: big_symbols_simps)
qed

text \<open>What is read of a number whose first symbol is the plus sign: nothing, or the rest of it.\<close>

lemma from_base81_plus:
  "list_all (\<lambda>d. d < 81) ds \<Longrightarrow> from_base81_string (big_symbols (62 # ds)) =
     (if ds = [] then Some (Inl (BigInvalid ''T81BigInt::from_base81_string: sign only''))
      else if 1 < length ds \<and> hd ds = 0 then Some (Inl (BigInvalid ''T81BigInt::from_base81_string: non-canonical leading zero''))
      else big_horner (big_of 81) (big_of 0) ds)"
proof -
  assume ds: "list_all (\<lambda>d. d < 81) ds"
  have "big_symbols ds = [] \<longleftrightarrow> ds = []" using ds big_symbol(1) by (cases ds) auto
  moreover have "then_do (big_horner (big_of 81) (big_of 0) ds) (\<lambda>v. Some (Inr v)) = big_horner (big_of 81) (big_of 0) ds"
    by (auto simp: then_do_def split: option.split sum.split)
  ultimately show ?thesis
    using read_symbols_text [OF ds] by (simp add: from_base81_string_def signed_text_def plus_symbol)
qed

lemma to_base81_string_facts:
  assumes "big_ok x"
  obtains ds where "to_base81_string x = Some (Inr ((if big_val x < 0 then ''-'' else []) @ big_symbols ds))"
    "proper_digits ds" "int (le_val 81 (rev ds)) = \<bar>big_val x\<bar>"
proof (cases "big_val x = 0")
  case True
  have "big_symbols [0] = ''0''" by (simp add: big_alphabet_def)
  then show thesis using True assms by (intro that [of "[0]"]) (simp_all add: to_base81_string_def big_zero_sign proper_digits_def)
next
  case False
  obtain ds where ds: "big_digits (big_of 81) (big_abs x) [] = Some (Inr ds)" "le_val 81 ds = nat \<bar>big_val x\<bar>" "digits_in 81 ds" "ds \<noteq> []"
    by (rule big_digits_of [OF assms False, of 81 81]) simp_all
  then show thesis using False assms
    by (intro that [of "rev ds"]) (simp_all add: to_base81_string_def big_zero_sign proper_digits_def digits_in_def hd_rev)
qed

section \<open>Dotted digits\<close>

lemma digit_char_facts:
  "d < 10 \<Longrightarrow> of_char (digit_char d) = 48 + d" "d < 10 \<Longrightarrow> digit_char d \<noteq> CHR ''.''" "d < 10 \<Longrightarrow> digit_char d \<noteq> CHR ''+''"
  "d < 10 \<Longrightarrow> digit_char d \<noteq> CHR ''-''"
proof -
  assume d: "d < 10"
  then show c: "of_char (digit_char d) = 48 + d" by (simp add: digit_char_def)
  have "digit_char d \<noteq> ch" if "of_char ch < (48 :: nat)" for ch using c that by auto
  then show "digit_char d \<noteq> CHR ''.''" "digit_char d \<noteq> CHR ''+''" "digit_char d \<noteq> CHR ''-''" by simp_all
qed

lemma dotted_number:
  "n < cap \<Longrightarrow> dotted cap rdx (show_nat n @ rest) 0 have_digit = dotted cap rdx rest n True"
proof (induction n arbitrary: rest have_digit rule: less_induct)
  case (less n)
  show ?case
  proof (cases "n < 10")
    case True
    with less.prems show ?thesis by (simp add: show_nat.simps [of n] digit_char_facts)
  next
    case False
    then have "n div 10 < n" "n div 10 < cap" using less.prems by simp_all
    from less.IH [OF this] False less.prems digit_char_facts [of "n mod 10"] show ?thesis
      by (simp add: show_nat.simps [of n] Suc_le_eq less_Suc_eq_le [symmetric])
  qed
qed

lemma dotted_join: "list_all (\<lambda>d. d < rdx) ds \<Longrightarrow> rdx \<le> cap \<Longrightarrow> ds \<noteq> [] \<Longrightarrow> dotted cap rdx (dot_join ds) 0 False = Inr ds"
proof (induction ds rule: dot_join.induct)
  case (2 d)
  with dotted_number [of d cap rdx "[]"] show ?case by simp
next
  case (3 d e ds)
  with dotted_number [of d cap rdx "CHR ''.'' # dot_join (e # ds)"] show ?case by simp
qed simp

lemma show_nat_hd: "hd (show_nat n) \<noteq> CHR ''+'' \<and> hd (show_nat n) \<noteq> CHR ''-''"
proof (induction n rule: less_induct)
  case (less n)
  show ?case
  proof (cases "n < 10")
    case True
    then show ?thesis by (simp add: show_nat.simps [of n] digit_char_facts)
  next
    case False
    with less [of "n div 10"] show ?thesis by (simp add: show_nat.simps [of n])
  qed
qed

lemma dot_join_signed:
  assumes "ds \<noteq> []"
  shows "dot_join ds \<noteq> []" "signed_text (dot_join ds) = (False, False, dot_join ds)"
    "signed_text (''-'' @ dot_join ds) = (True, True, dot_join ds)"
proof -
  obtain d r where "dot_join ds = show_nat d @ r" using assms by (cases ds rule: dot_join.cases) auto
  with show_nat_hd [of d] show "dot_join ds \<noteq> []" "signed_text (dot_join ds) = (False, False, dot_join ds)"
    "signed_text (''-'' @ dot_join ds) = (True, True, dot_join ds)"
    by (simp_all add: signed_text_def)
qed

text \<open>The loop of \<open>encode_bigint\<close> never raises its error, and gives the digits in base 243.\<close>

lemma bigint_digits243_eq: "big_ok v \<Longrightarrow> 0 \<le> big_val v \<Longrightarrow> bigint_digits243 v acc = big_digits (big_of 243) v acc"
proof (induction "nat (big_val v)" arbitrary: v acc rule: less_induct)
  case less
  have z: "big_is_zero v \<longleftrightarrow> big_val v = 0" using less.prems by (simp add: big_zero_sign)
  show ?case
  proof (cases "big_val v = 0")
    case True
    with z show ?thesis by (simp add: bigint_digits243.simps [of v] big_digits.simps [of _ v])
  next
    case False
    have w: "big_val (big_of 243) = 243" using big_of_facts [of 243] by simp
    obtain q r d where r: "big_div_mod v (big_of 243) = Some (Inr (q, r))" "big_ok q" "big_val q = big_val v div 243"
      "big_to_int64 r = Inr d" "sint d = big_val v mod 243"
      by (rule big_digit_round [OF less.prems big_of_facts(1) [of 243], unfolded w]) simp_all
    have "nat (big_val q) < nat (big_val v)" "0 \<le> big_val q"
      using r(3) False less.prems(2) by (simp_all add: pos_imp_zdiv_nonneg_iff int_div_less_self)
    have "\<not> sint d < 0" "\<not> 243 \<le> sint d"
      using pos_mod_bound [of 243 "big_val v"] pos_mod_sign [of 243 "big_val v"] by (simp_all add: r(5) not_le not_less)
    with less.hyps [OF \<open>nat (big_val q) < nat (big_val v)\<close> r(2) \<open>0 \<le> big_val q\<close>] r(1,4) z False show ?thesis
      by (simp add: bigint_digits243.simps [of v] big_digits.simps [of _ v])
  qed
qed

lemma encode_bigint_facts:
  assumes "big_ok x"
  obtains ds where "encode_bigint x = Some (Inr ((if big_val x < 0 then ''-'' else []) @ dot_join ds))"
    "list_all (\<lambda>d. d < 243) ds" "ds \<noteq> []" "int (le_val 243 (rev ds)) = \<bar>big_val x\<bar>"
proof (cases "big_val x = 0")
  case True
  have "dot_join [0] = ''0''" by (simp add: show_nat_0)
  then show thesis using True assms by (intro that [of "[0]"]) (simp_all add: encode_bigint_def big_zero_sign)
next
  case False
  obtain ds where ds: "big_digits (big_of 243) (big_abs x) [] = Some (Inr ds)" "le_val 243 ds = nat \<bar>big_val x\<bar>" "digits_in 243 ds" "ds \<noteq> []"
    by (rule big_digits_of [OF assms False, of 243 243]) simp_all
  have "(if big_is_negative x then big_abs x else x) = big_abs x"
    using big_ok_negative [OF assms] assms by (simp add: big_is_negative_iff big_abs_def)
  moreover have "bigint_digits243 (big_abs x) [] = Some (Inr ds)"
    using bigint_digits243_eq [of "big_abs x" "[]"] ds(1) assms by (simp add: big_abs_facts)
  ultimately show thesis using False assms ds
    by (intro that [of "rev ds"]) (simp_all add: encode_bigint_def big_zero_sign big_is_negative_iff digits_in_def)
qed

lemma decode_encode_bigint:
  assumes "big_ok x"
  shows "\<exists>t. encode_bigint x = Some (Inr t) \<and> decode_bigint t = Some (Inr (Some x))"
proof -
  obtain ds where ds: "encode_bigint x = Some (Inr ((if big_val x < 0 then ''-'' else []) @ dot_join ds))"
    "list_all (\<lambda>d. d < 243) ds" "ds \<noteq> []" "int (le_val 243 (rev ds)) = \<bar>big_val x\<bar>" by (rule encode_bigint_facts [OF assms])
  have "list_all (\<lambda>d. d < 2 ^ 63) ds" using ds(2) by (auto simp: list_all_iff)
  then obtain r where r: "big_horner (big_of 243) (big_of 0) ds = Some (Inr r)" "big_ok r" "big_val r = \<bar>big_val x\<bar>"
    using big_horner_value [of 243 243 ds] ds(4) by auto
  have "(if big_val x < 0 then big_neg r else r) = x"
    using r(2,3) assms big_neg_facts(2) [OF big_ok_wf [OF r(2)]] big_neg_facts(3) [OF r(2)]
    by (intro big_ok_unique) auto
  then have "decode_bigint ((if big_val x < 0 then ''-'' else []) @ dot_join ds) = Some (Inr (Some x))"
    using dot_join_signed [OF ds(3)] dotted_join [OF ds(2) _ ds(3), of 1000] r(1) by (auto simp: decode_bigint_def)
  with ds(1) show ?thesis by blast
qed

lemma from_base81_digit_facts:
  assumes "list_all (\<lambda>d. d < 81) ds" "ds \<noteq> []"
  shows "\<exists>r. from_base81_digit_string ((if neg then ''-'' else []) @ dot_join ds) = Some (Inr r) \<and> big_ok r \<and>
    big_val r = (if neg then - int (le_val 81 (rev ds)) else int (le_val 81 (rev ds)))"
proof -
  have "list_all (\<lambda>d. d < 2 ^ 63) ds" using assms(1) by (auto simp: list_all_iff)
  then obtain r where r: "big_horner (big_of 81) (big_of 0) ds = Some (Inr r)" "big_ok r" "big_val r = int (le_val 81 (rev ds))"
    using big_horner_value [of 81 81 ds] by auto
  with dot_join_signed [OF assms(2)] dotted_join [OF assms(1) _ assms(2), of 81] big_neg_facts(2) [OF big_ok_wf [OF r(2)]] big_neg_facts(3) [OF r(2)]
  show ?thesis by (auto simp: from_base81_digit_string_def)
qed

end
