(* ===== verification/Properties_BigInt.thy ===== *)
theory Properties_BigInt
  imports T81_Big_Text
begin

text \<open>
  Properties of the big integers of \<open>types/T81BigInt.hpp\<close> and of their codec in \<open>codec/base243.cpp\<close>.
\<close>

section \<open>Helper lemmas\<close>

text \<open>A limb with its top trit set, and the negative number it stands for.\<close>

definition top_limb :: tint where
  "top_limb = shift_left kLimbTrits 80 (limb_of 1)"

definition minus_top :: bigint where
  "minus_top = big_normalize \<lparr>limbs = [top_limb], negative = True\<rparr>"

lemma top_limb_facts: "tint_ok kLimbTrits top_limb" "ival kLimbTrits top_limb = 3 ^ 80"
  "significant_trits kLimbTrits top_limb = kLimbTrits \<or> kLimbTrits < significant_trits kLimbTrits top_limb"
proof -
  have v: "ival kLimbTrits (limb_of 1) = 1" by (simp add: limb_of_facts)
  show "tint_ok kLimbTrits top_limb" using shift_left_facts(1) [OF limb_of_facts(1)] by (simp add: top_limb_def)
  have "2 * \<bar>(3 :: int) ^ 80 * ival kLimbTrits (limb_of 1)\<bar> < 3 ^ kLimbTrits" unfolding v by (simp add: kLimbTrits_def)
  then show t: "ival kLimbTrits top_limb = 3 ^ 80"
    using shift_left_exact [OF limb_of_facts(1), of 80 1] v by (simp add: top_limb_def)
  show "significant_trits kLimbTrits top_limb = kLimbTrits \<or> kLimbTrits < significant_trits kLimbTrits top_limb"
  proof (rule ccontr)
    assume "\<not> ?thesis"
    then have "significant_trits kLimbTrits top_limb \<le> 80" by (simp add: kLimbTrits_def)
    then have "(3 :: int) ^ significant_trits kLimbTrits top_limb \<le> 3 ^ 80" by (rule power_increasing) simp
    with significant_facts [of kLimbTrits top_limb] show False by (simp add: t)
  qed
qed

lemma minus_top_facts: "big_ok minus_top" "big_val minus_top = - (3 ^ 80)" "limbs minus_top = [top_limb]"
proof -
  show "big_ok minus_top" "big_val minus_top = - (3 ^ 80)"
    using single_limb [OF top_limb_facts(1), of True] by (simp_all add: minus_top_def top_limb_facts)
  show "limbs minus_top = [top_limb]" by (simp add: minus_top_def big_normalize_def Let_def)
qed

lemma minus_top_loses: "loses_sign minus_top (big_of 1)"
proof -
  have "length (limbs (big_of 1)) = 1" by (simp add: big_of_def big_normalize_def Let_def)
  then show ?thesis
    using top_limb_facts(3) by (auto simp: loses_sign_def minus_top_facts big_one kLimbTrits_def max_def)
qed

lemma big_unique_value: "big_ok r \<Longrightarrow> big_val r = sint w \<Longrightarrow> r = big_of w"
  by (rule big_ok_unique) (simp_all add: big_of_facts)

lemma proper_hd: "proper_digits ds \<Longrightarrow> hd (big_symbols ds) = CHR ''+'' \<longleftrightarrow> hd ds = 62"
  using big_symbols_hd(1) sign_symbol(2) by (cases ds) (auto simp: proper_digits_def simp del: big_symbols_simps)

lemma from_base81_lost:
  assumes "proper_digits ds" "hd ds = 62" "from_base81_string (big_symbols ds) = Some (Inr r)"
  shows "big_val r \<noteq> int (le_val 81 (rev ds))"
proof -
  obtain es where ds: "ds = 62 # es" "list_all (\<lambda>d. d < 81) es" using assms(1,2) by (cases ds) (auto simp: proper_digits_def)
  have "list_all (\<lambda>d. d < 2 ^ 63) es" using ds(2) by (auto simp: list_all_iff)
  then have "big_val r = int (le_val 81 (rev es))"
    using big_horner_value [of 81 81 es] assms(3) from_base81_plus [OF ds(2)] ds(1) by (auto split: if_splits)
  then show ?thesis using ds(1) by simp
qed

lemma base81_text_read:
  assumes "big_ok x" "proper_digits ds" "int (le_val 81 (rev ds)) = \<bar>big_val x\<bar>"
    "t = (if big_val x < 0 then ''-'' else []) @ big_symbols ds"
  shows "from_base81_string t = Some (Inr x) \<longleftrightarrow> hd t \<noteq> CHR ''+''"
proof (cases "big_val x < 0")
  case True
  then show ?thesis using from_base81_negative [OF assms(2)] assms(1,3,4) big_ok_unique [of _ x] by auto
next
  case False
  show ?thesis
  proof (cases "hd ds = 62")
    case True
    with from_base81_lost [OF assms(2) True, of x] proper_hd [OF assms(2)] False assms(3,4) show ?thesis by auto
  next
    case c: False
    with from_base81_plain [OF assms(2) c] proper_hd [OF assms(2)] False assms(1,3,4) big_ok_unique [of _ x] show ?thesis by auto
  qed
qed

section \<open>Properties\<close>



text \<open>
  C29: Division of big integers is total and Euclidean: for every divisor but zero, Knuth's algorithm D (with its
  estimate of each digit, which it corrects, and the rare step that adds the divisor back) ends and returns the
  quotient and the remainder with \<open>0 \<le> r < \<bar>b\<bar>\<close>, both satisfying the invariant; division by zero is an error.
\<close>

theorem bigint_division_total:
  assumes "big_ok a" "big_ok b"
  shows "if big_val b = 0 then big_div_mod a b = Some (Inl (BigDomain ''BigInt division by zero''))
    else \<exists>q r. big_div_mod a b = Some (Inr (q, r)) \<and> big_ok q \<and> big_ok r \<and>
      big_val a = big_val b * big_val q + big_val r \<and> 0 \<le> big_val r \<and> big_val r < \<bar>big_val b\<bar>"
proof (cases "big_val b = 0")
  case True
  then show ?thesis using assms by (simp add: big_div_mod_def big_zero_sign)
next
  case False
  from big_div_mod_facts [OF assms False] show ?thesis by (simp add: False divided_def)
qed

theorem bigint_division_total_witness:
  "big_div_mod (big_of (- 7)) (big_of 2) = Some (Inr (big_of (- 4), big_of 1))"
proof -
  obtain q r where d: "big_div_mod (big_of (- 7)) (big_of 2) = Some (Inr (q, r))" "big_ok q" "big_ok r"
    "- 7 = 2 * big_val q + big_val r" "0 \<le> big_val r" "big_val r < 2"
    using bigint_division_total [OF big_of_facts(1) big_of_facts(1), of 2 "- 7"] by (auto simp: big_of_facts)
  have "big_val q = - 4" "big_val r = 1" using d(4-6) by presburger+
  then have "q = big_of (- 4)" "r = big_of 1" using d(2,3) by (auto intro: big_unique_value)
  with d(1) show ?thesis by simp
qed

text \<open>
  C30: The loops over big integers end and are exact: the Euclidean algorithm returns the greatest common divisor,
  binary exponentiation the power (also modulo a number of either sign), and Newton's iteration the
  largest integer whose square does not exceed the argument.
\<close>

theorem bigint_algorithms_exact:
  assumes "big_ok a" "big_ok b" "big_ok m" "0 \<le> big_val b" "big_val m \<noteq> 0"
  shows "(\<exists>g. big_gcd a b = Some (Inr g) \<and> big_ok g \<and> big_val g = gcd (big_val a) (big_val b)) \<and>
    (\<exists>p. big_pow a b = Some (Inr p) \<and> big_ok p \<and> big_val p = big_val a ^ nat (big_val b)) \<and>
    (\<exists>p. big_pow_mod a b m = Some (Inr p) \<and> big_ok p \<and> big_val p = big_val a ^ nat (big_val b) mod \<bar>big_val m\<bar>) \<and>
    (\<exists>s. big_sqrt b = Some (Inr s) \<and> big_ok s \<and> 0 \<le> big_val s \<and>
      big_val s * big_val s \<le> big_val b \<and> big_val b < (big_val s + 1) * (big_val s + 1))"
  using big_gcd_facts [OF assms(1,2)] big_pow_facts [OF assms(1,2,4)] big_pow_mod_facts [OF assms]
    big_sqrt_facts [OF assms(2,4)] by blast

theorem bigint_algorithms_exact_witness:
  "big_gcd (big_of (- 12)) (big_of 8) = Some (Inr (big_of 4)) \<and>
   big_pow_mod (big_of (- 12)) (big_of 8) (big_of 7) = Some (Inr (big_of 4))"
proof -
  obtain g p where g: "big_gcd (big_of (- 12)) (big_of 8) = Some (Inr g)" "big_ok g" "big_val g = gcd (- 12) 8"
    and p: "big_pow_mod (big_of (- 12)) (big_of 8) (big_of 7) = Some (Inr p)" "big_ok p" "big_val p = (- 12) ^ 8 mod 7"
    using bigint_algorithms_exact [OF big_of_facts(1) big_of_facts(1) big_of_facts(1), of 8 7 "- 12"]
    by (auto simp: big_of_facts)
  have "g = big_of 4" using g(2,3) by (intro big_unique_value) (simp_all add: gcd_non_0_int)
  moreover have "p = big_of 4" using p(2,3) by (intro big_unique_value) simp_all
  ultimately show ?thesis using g(1) p(1) by simp
qed

text \<open>
  C31: The modular inverse is one whenever there is one: for a modulus above one that fits in 80 trits, the
  extended Euclidean algorithm keeps its coefficients below the modulus, and the result is the number below the
  modulus whose product with the argument is one; the other cases are the two errors.
\<close>

theorem modular_inverse_exact:
  assumes "big_ok a" "big_ok m" "2 * big_val m < 3 ^ 80"
  shows "if big_val m \<le> 1 then modular_inverse a m = Some (Inl (BigDomain ''modular_inverse: modulus must be > 1''))
    else if coprime (big_val a) (big_val m)
    then \<exists>r. modular_inverse a m = Some (Inr r) \<and> big_ok r \<and> 0 \<le> big_val r \<and> big_val r < big_val m \<and>
      (big_val a * big_val r) mod big_val m = 1
    else modular_inverse a m = Some (Inl (BigDomain ''modular_inverse: inverse does not exist''))"
  by (rule modular_inverse_facts [OF assms])

theorem modular_inverse_exact_witness:
  "modular_inverse (big_of 3) (big_of 7) = Some (Inr (big_of 5))"
proof -
  have "coprime (3 :: int) 7" by (simp add: coprime_iff_gcd_eq_1 gcd_non_0_int)
  then obtain r where r: "modular_inverse (big_of 3) (big_of 7) = Some (Inr r)" "big_ok r" "0 \<le> big_val r" "big_val r < 7"
    "(3 * big_val r) mod 7 = 1"
    using modular_inverse_exact [OF big_of_facts(1) big_of_facts(1), of 7 3] by (auto simp: big_of_facts)
  have "big_val r = 5" using r(3-5) by presburger
  then have "r = big_of 5" using r(2) by (intro big_unique_value) simp_all
  with r(1) show ?thesis by simp
qed

text \<open>
  C32: Multiplication and division work on chunks in base \<open>3 ^ 27\<close>, and nothing is lost between the two forms:
  unpacking a number into balanced chunks and packing them again gives the number back. Karatsuba's recursion
  ends on every pair of balanced chunk lists and has the value of the schoolbook product.
\<close>

theorem bigint_chunks_exact:
  assumes "big_ok x" "balanced a" "balanced b"
  shows "from_chunks (to_chunks x) = x \<and>
    (\<exists>r. mul_chunks a b = Some r \<and> balanced r \<and> chunk_val r = chunk_val a * chunk_val b \<and>
      chunk_val r = chunk_val (schoolbook a b))"
proof -
  have "from_chunks (to_chunks x) = x"
    using from_chunks_facts [OF balanced_chunks(1) [OF to_chunks_facts(2)], of x] assms(1)
    by (intro big_ok_unique) (simp_all add: to_chunks_facts)
  with mul_chunks_facts [OF assms(2,3)] schoolbook_value [of a b] show ?thesis by auto
qed

theorem bigint_chunks_exact_witness:
  "\<exists>r. mul_chunks [1, 2] [3, 4, 5] = Some r \<and> chunk_val r = (1 + 2 * 3 ^ 27) * (3 + 4 * 3 ^ 27 + 5 * 3 ^ 54)"
proof -
  have b: "balanced [1, 2]" "balanced [3, 4, 5]" by (simp_all add: balanced_def halfB_def kB_def)
  then show ?thesis using bigint_chunks_exact [OF big_one(1) b] by (auto simp: kB_def algebra_simps)
qed



text \<open>
  C34: The dotted base 243 text of a big integer reads back as the same number, for every number: the printer never
  meets a digit out of range, and the reader accepts what it wrote.
\<close>

theorem base243_text_roundtrip:
  assumes "big_ok x"
  shows "\<exists>t. encode_bigint x = Some (Inr t) \<and> decode_bigint t = Some (Inr (Some x))"
  by (rule decode_encode_bigint [OF assms])

theorem base243_text_roundtrip_witness:
  "\<exists>t. encode_bigint (big_of (- 1000)) = Some (Inr t) \<and> decode_bigint t = Some (Inr (Some (big_of (- 1000))))"
  by (rule base243_text_roundtrip [OF big_of_facts(1)])

end
