(* ===== verification/T81_Limb.thy ===== *)
theory T81_Limb
  imports T81_Balanced
begin

text \<open>
  Limbs of trytes (\<open>types/T81Limb.hpp\<close>, \<open>t81/packing.hpp\<close>): addition with a carry tree over tables, and the
  conversions from and to trits.  A limb is the list of its trytes, three trits each, least significant first.
\<close>

section \<open>Trytes\<close>

definition decode_tryte :: "int \<Rightarrow> int list" where
  "decode_tryte value =
     (let v = value + 13; v1 = trunc_div v 3; v2 = trunc_div v1 3
      in [trunc_mod v 3 - 1, trunc_mod v1 3 - 1, trunc_mod v2 3 - 1])"

text \<open>The conversion to \<open>int8_t\<close>.\<close>

definition int8 :: "int \<Rightarrow> int" where
  "int8 x = (x + 128) mod 256 - 128"

definition encode_tryte :: "int \<Rightarrow> int \<Rightarrow> int \<Rightarrow> int" where
  "encode_tryte a b c = int8 (a + 3 * b + 9 * c)"

fun tryte_val :: "int list \<Rightarrow> int" where
  "tryte_val [] = 0"
| "tryte_val (t # ts) = t + 27 * tryte_val ts"

definition trytes_ok :: "int list \<Rightarrow> bool" where
  "trytes_ok ts \<longleftrightarrow> list_all (\<lambda>t. \<bar>t\<bar> \<le> 13) ts"

lemma tryte_val_bound: "trytes_ok ts \<Longrightarrow> 2 * \<bar>tryte_val ts\<bar> < 27 ^ length ts"
proof (induction ts)
  case (Cons t ts)
  then have "2 * \<bar>tryte_val ts\<bar> \<le> 27 ^ length ts - 1" "\<bar>t\<bar> \<le> 13" by (simp_all add: trytes_ok_def)
  moreover have "\<bar>t + 27 * tryte_val ts\<bar> \<le> \<bar>t\<bar> + 27 * \<bar>tryte_val ts\<bar>"
    using abs_triangle_ineq [of t "27 * tryte_val ts"] by (simp add: abs_mult)
  ultimately show ?case by simp
qed simp

section \<open>The tables\<close>

text \<open>One entry of \<open>ADD_TABLE\<close>: carry and sum of two trytes and a carry.\<close>

definition add_entry :: "int \<Rightarrow> int \<Rightarrow> int \<Rightarrow> int \<times> int" where
  "add_entry a b cin =
     (let temp = a + b + cin
      in if 13 < temp then (1, temp - 27) else if temp < - 13 then (- 1, temp + 27) else (0, temp))"

text \<open>A map from carries to carries is a number of three digits in base three.\<close>

definition cell_id :: "int \<Rightarrow> int \<Rightarrow> int" where
  "cell_id a b = (fst (add_entry a b (- 1)) + 1) + 3 * (fst (add_entry a b 0) + 1) + 9 * (fst (add_entry a b 1) + 1)"

definition id_map :: "int \<Rightarrow> int \<Rightarrow> int" where
  "id_map i j = i div 3 ^ nat j mod 3 - 1"

definition composition :: "int \<Rightarrow> int \<Rightarrow> int" where
  "composition id1 id2 =
     (id_map id1 (id_map id2 0 + 1) + 1) + 3 * (id_map id1 (id_map id2 1 + 1) + 1) + 9 * (id_map id1 (id_map id2 2 + 1) + 1)"

definition carry_from_zero :: "int \<Rightarrow> int" where
  "carry_from_zero i = i div 3 mod 3 - 1"

section \<open>Addition\<close>

text \<open>One pass of the carry tree, in place and upwards.\<close>

definition prefix_pass :: "nat \<Rightarrow> int list \<Rightarrow> int list" where
  "prefix_pass d ids = fold (\<lambda>i m. m[i := composition (m ! i) (m ! (i - d))]) [d ..< length ids] ids"

definition addc :: "nat list \<Rightarrow> int list \<Rightarrow> int list \<Rightarrow> int list \<times> int" where
  "addc passes xs ys =
     (let ids = fold prefix_pass passes (map2 cell_id xs ys);
          carries = 0 # map carry_from_zero ids
      in (map (\<lambda>i. snd (add_entry (xs ! i) (ys ! i) (carries ! i))) [0 ..< length xs], carries ! length xs))"

text \<open>The passes of limbs of 27, 48 and 54 trits.\<close>

definition limb27_addc :: "int list \<Rightarrow> int list \<Rightarrow> int list \<times> int" where
  "limb27_addc = addc [1, 2, 4]"

definition limb_addc :: "int list \<Rightarrow> int list \<Rightarrow> int list \<times> int" where
  "limb_addc = addc [1, 2, 4, 8]"

definition limb54_addc :: "int list \<Rightarrow> int list \<Rightarrow> int list \<times> int" where
  "limb54_addc = addc [1, 2, 4, 8, 16]"

subsection \<open>Maps of carries\<close>

abbreviation is_carry :: "int \<Rightarrow> bool" where
  "is_carry c \<equiv> - 1 \<le> c \<and> c \<le> 1"

definition carry_of :: "int \<Rightarrow> int \<Rightarrow> int" where
  "carry_of i c = id_map i (c + 1)"

lemma carry_cases: "is_carry c \<Longrightarrow> c = - 1 \<or> c = 0 \<or> c = 1"
  by auto

lemma carry_of_range: "is_carry (carry_of i c)"
proof -
  have "0 \<le> i div 3 ^ nat (c + 1) mod 3" "i div 3 ^ nat (c + 1) mod 3 < 3" by simp_all
  then show ?thesis unfolding carry_of_def id_map_def by linarith
qed

lemma id_map_digits:
  assumes "is_carry a" "is_carry b" "is_carry c"
  shows "id_map (a + 1 + 3 * (b + 1) + 9 * (c + 1)) 0 = a" "id_map (a + 1 + 3 * (b + 1) + 9 * (c + 1)) 1 = b"
    "id_map (a + 1 + 3 * (b + 1) + 9 * (c + 1)) 2 = c"
  using assms by (auto dest!: carry_cases simp: id_map_def)

lemma carry_of_composition: "is_carry c \<Longrightarrow> carry_of (composition i j) c = carry_of i (carry_of j c)"
proof -
  assume c: "is_carry c"
  have r: "is_carry (id_map i (id_map j k + 1))" for k using carry_of_range by (simp add: carry_of_def)
  from carry_cases [OF c] show ?thesis
    using id_map_digits [OF r r r, of 0 1 2] by (auto simp: carry_of_def composition_def)
qed

lemma add_entry_facts:
  assumes "\<bar>a\<bar> \<le> 13" "\<bar>b\<bar> \<le> 13" "is_carry c"
  shows "is_carry (fst (add_entry a b c))" "\<bar>snd (add_entry a b c)\<bar> \<le> 13"
    "a + b + c = snd (add_entry a b c) + 27 * fst (add_entry a b c)"
  using assms by (auto simp: add_entry_def Let_def)

lemma add_entry_mono: "c \<le> d \<Longrightarrow> fst (add_entry a b c) \<le> fst (add_entry a b d)"
  by (simp add: add_entry_def Let_def)

lemma carry_of_cell: "\<bar>a\<bar> \<le> 13 \<Longrightarrow> \<bar>b\<bar> \<le> 13 \<Longrightarrow> is_carry c \<Longrightarrow> carry_of (cell_id a b) c = fst (add_entry a b c)"
proof -
  assume a: "\<bar>a\<bar> \<le> 13" "\<bar>b\<bar> \<le> 13" and c: "is_carry c"
  have r: "is_carry (fst (add_entry a b k))" if "is_carry k" for k using add_entry_facts(1) [OF a that] .
  from carry_cases [OF c] show ?thesis
    using id_map_digits [OF r r r, of "- 1" 0 1] by (auto simp: carry_of_def cell_id_def)
qed

lemma carry_from_zero_eq: "carry_from_zero i = carry_of i 0"
  by (simp add: carry_from_zero_def carry_of_def id_map_def)

subsection \<open>One pass\<close>

lemma fold_in_place:
  fixes g :: "'a \<Rightarrow> 'a \<Rightarrow> 'a" and m :: "'a list"
  assumes "0 < d" "k \<le> length m"
  defines "r \<equiv> fold (\<lambda>i m. m[i := g (m ! i) (m ! (i - d))]) [d ..< k] m"
  shows "length r = length m" "i < d \<or> k \<le> i \<Longrightarrow> i < length m \<Longrightarrow> r ! i = m ! i"
    "d \<le> i \<Longrightarrow> i < k \<Longrightarrow> r ! i = g (m ! i) (r ! (i - d))"
proof -
  have main: "length r = length m \<and> (\<forall>i < length m. r ! i = (if d \<le> i \<and> i < k then g (m ! i) (r ! (i - d)) else m ! i))"
    using assms(2) unfolding r_def
  proof (induction k)
    case (Suc k)
    show ?case
    proof (cases "d \<le> k")
      case True
      define r where "r = fold (\<lambda>i m. m[i := g (m ! i) (m ! (i - d))]) [d ..< k] m"
      have r: "length r = length m" "\<And>i. i < length m \<Longrightarrow> r ! i = (if d \<le> i \<and> i < k then g (m ! i) (r ! (i - d)) else m ! i)"
        using Suc by (simp_all add: r_def)
      have e: "fold (\<lambda>i m. m[i := g (m ! i) (m ! (i - d))]) [d ..< Suc k] m = r[k := g (r ! k) (r ! (k - d))]"
        using True by (simp add: r_def)
      have "r ! k = m ! k" using r(2) [of k] Suc.prems by simp
      define r' where "r' = r[k := g (m ! k) (r ! (k - d))]"
      have k: "k < length m" "k - d \<noteq> k" using Suc.prems assms(1) True by simp_all
      have "r' ! i = (if d \<le> i \<and> i < Suc k then g (m ! i) (r' ! (i - d)) else m ! i)" if i: "i < length m" for i
      proof (cases "i = k")
        case True
        then show ?thesis using \<open>d \<le> k\<close> k r(1) by (simp add: r'_def)
      next
        case False
        then have "r' ! i = r ! i" by (simp add: r'_def)
        moreover have "r' ! (i - d) = r ! (i - d)" if "i < k" using that by (simp add: r'_def)
        moreover have "i < Suc k \<longleftrightarrow> i < k" using False by auto
        ultimately show ?thesis using r(2) [OF i] by (simp only:) auto
      qed
      moreover have "length r' = length m" by (simp add: r'_def r(1))
      moreover have "fold (\<lambda>i m. m[i := g (m ! i) (m ! (i - d))]) [d ..< Suc k] m = r'"
        unfolding e \<open>r ! k = m ! k\<close> r'_def ..
      ultimately show ?thesis by blast
    next
      case False
      then have "[d ..< Suc k] = []" by simp
      with False show ?thesis by auto
    qed
  qed simp
  show l: "length r = length m" by (rule conjunct1 [OF main])
  note n = conjunct2 [OF main, rule_format]
  show "r ! i = m ! i" if "i < d \<or> k \<le> i" "i < length m"
  proof -
    have c: "\<not> (d \<le> i \<and> i < k)" using that(1) by auto
    from n [OF that(2)] show ?thesis unfolding if_not_P [OF c] .
  qed
  show "r ! i = g (m ! i) (r ! (i - d))" if "d \<le> i" "i < k"
  proof -
    have l: "i < length m" using that assms(2) by simp
    from n [OF l] show ?thesis unfolding if_P [OF conjI [OF that]] .
  qed
qed

lemma prefix_pass_facts:
  assumes "0 < d"
  shows "length (prefix_pass d ids) = length ids" "i < length ids \<Longrightarrow> i < d \<Longrightarrow> prefix_pass d ids ! i = ids ! i"
    "i < length ids \<Longrightarrow> d \<le> i \<Longrightarrow> prefix_pass d ids ! i = composition (ids ! i) (prefix_pass d ids ! (i - d))"
  using fold_in_place [OF assms order_refl, where m = ids and g = composition] by (simp_all add: prefix_pass_def)

subsection \<open>All passes\<close>

text \<open>The carry out of the first trytes as a function of the carry in.\<close>

fun chain :: "int list \<Rightarrow> int list \<Rightarrow> nat \<Rightarrow> int \<Rightarrow> int" where
  "chain xs ys 0 c = fst (add_entry (xs ! 0) (ys ! 0) c)"
| "chain xs ys (Suc i) c = fst (add_entry (xs ! Suc i) (ys ! Suc i) (chain xs ys i c))"

lemma chain_range:
  assumes "trytes_ok xs" "trytes_ok ys" "length ys = length xs"
  shows "i < length xs \<Longrightarrow> is_carry c \<Longrightarrow> is_carry (chain xs ys i c)"
proof (induction i)
  case 0
  then show ?case using assms add_entry_facts(1) by (simp add: trytes_ok_def list_all_length)
next
  case (Suc i)
  then have "is_carry (chain xs ys i c)" by simp
  moreover have "\<bar>xs ! Suc i\<bar> \<le> 13" "\<bar>ys ! Suc i\<bar> \<le> 13" using Suc.prems(1) assms by (simp_all add: trytes_ok_def list_all_length)
  ultimately show ?case using add_entry_facts(1) by simp
qed

lemma chain_mono: "c \<le> d \<Longrightarrow> chain xs ys i c \<le> chain xs ys i d"
  by (induction i) (auto intro: add_entry_mono)

text \<open>Equal carries on the way stay equal.\<close>

lemma chain_agree: "chain xs ys j c = chain xs ys j d \<Longrightarrow> j \<le> i \<Longrightarrow> chain xs ys i c = chain xs ys i d"
proof (induction i)
  case (Suc i)
  then show ?case by (cases "j = Suc i") auto
qed simp

text \<open>
  The passes run in place, so that after the first every entry is complete and the later ones compose it with
  more of the chain.  That does no harm, because the maps are monotone: feeding a carry of a shorter chain into
  a longer one is feeding in the same carry or none.
\<close>

lemma chain_absorbs:
  assumes "trytes_ok xs" "trytes_ok ys" "length ys = length xs" "j \<le> i" "i < length xs" "is_carry c"
  shows "chain xs ys i (chain xs ys j c) = chain xs ys i c \<or> chain xs ys i (chain xs ys j c) = chain xs ys i 0"
proof -
  let ?v = "chain xs ys j c"
  have r: "is_carry ?v" using assms by (intro chain_range) simp_all
  have "chain xs ys j ?v = ?v" if "?v \<noteq> 0"
  proof (cases "?v = 1")
    case True
    then have "?v \<le> chain xs ys j 1" using assms(6) by (intro chain_mono) simp
    moreover have "is_carry (chain xs ys j 1)" using assms by (intro chain_range) simp_all
    ultimately show ?thesis using True by simp
  next
    case False
    then have m: "?v = - 1" using r that by auto
    then have "chain xs ys j (- 1) \<le> ?v" using assms(6) by (intro chain_mono) simp
    moreover have "is_carry (chain xs ys j (- 1))" using assms by (intro chain_range) simp_all
    ultimately show ?thesis using m by simp
  qed
  then show ?thesis using chain_agree [of xs ys j ?v c i] assms(4) by (cases "?v = 0") auto
qed

definition tree_ok :: "int list \<Rightarrow> int list \<Rightarrow> int list \<Rightarrow> bool" where
  "tree_ok xs ys ids \<longleftrightarrow> length ids = length xs \<and>
     (\<forall>i < length xs. \<forall>c. is_carry c \<longrightarrow>
        (carry_of (ids ! i) c = chain xs ys i c \<or> carry_of (ids ! i) c = chain xs ys i 0) \<and>
        (\<forall>l. i \<le> l \<longrightarrow> l < length xs \<longrightarrow> chain xs ys l (carry_of (ids ! i) c) = chain xs ys l c \<or>
           chain xs ys l (carry_of (ids ! i) c) = chain xs ys l 0))"

lemma first_pass:
  assumes "trytes_ok xs" "trytes_ok ys" "length ys = length xs"
  shows "tree_ok xs ys (prefix_pass 1 (map2 cell_id xs ys))"
proof -
  let ?m = "map2 cell_id xs ys"
  have l: "length ?m = length xs" using assms(3) by simp
  have ok: "\<bar>xs ! i\<bar> \<le> 13" "\<bar>ys ! i\<bar> \<le> 13" if "i < length xs" for i
    using that assms by (simp_all add: trytes_ok_def list_all_length)
  note p = prefix_pass_facts [where d = 1 and ids = ?m, OF zero_less_one]
  have e: "i < length xs \<Longrightarrow> is_carry c \<Longrightarrow> carry_of (prefix_pass 1 ?m ! i) c = chain xs ys i c" for i c
  proof (induction i)
    case 0
    then show ?case using p(2) [of 0] ok [of 0] assms(3) by (simp add: carry_of_cell)
  next
    case (Suc i)
    have "carry_of (prefix_pass 1 ?m ! Suc i) c = carry_of (cell_id (xs ! Suc i) (ys ! Suc i)) (carry_of (prefix_pass 1 ?m ! i) c)"
      using p(3) [of "Suc i"] Suc.prems assms(3) by (simp add: carry_of_composition)
    with Suc ok [of "Suc i"] chain_range [OF assms, of i c] show ?case by (simp add: carry_of_cell)
  qed
  show ?thesis
    unfolding tree_ok_def using e chain_absorbs [OF assms] p(1) l by auto
qed

lemma next_pass:
  assumes "tree_ok xs ys ids" "0 < d"
  shows "tree_ok xs ys (prefix_pass d ids)"
proof -
  let ?r = "prefix_pass d ids"
  have l: "length ids = length xs" using assms(1) by (simp add: tree_ok_def)
  note p = prefix_pass_facts [OF assms(2), where ids = ids, unfolded l]
  let ?P = "\<lambda>g i c. (carry_of g c = chain xs ys i c \<or> carry_of g c = chain xs ys i 0) \<and>
        (\<forall>l. i \<le> l \<longrightarrow> l < length xs \<longrightarrow> chain xs ys l (carry_of g c) = chain xs ys l c \<or>
           chain xs ys l (carry_of g c) = chain xs ys l 0)"
  have old: "i < length xs \<Longrightarrow> is_carry c \<Longrightarrow> ?P (ids ! i) i c" for i c using assms(1) by (simp add: tree_ok_def)
  have "i < length xs \<Longrightarrow> is_carry c \<Longrightarrow> ?P (?r ! i) i c" for i c
  proof (induction i rule: less_induct)
    case (less i)
    show ?case
    proof (cases "i < d")
      case True
      with p(2) [OF less.prems(1)] old less.prems show ?thesis by simp
    next
      case False
      let ?v = "carry_of (?r ! (i - d)) c"
      have c: "carry_of (?r ! i) c = carry_of (ids ! i) ?v"
        using p(3) [OF less.prems(1)] False less.prems(2) by (simp add: carry_of_composition)
      have i: "i - d < i" "i - d < length xs" "i - d \<le> i" using False assms(2) less.prems(1) by simp_all
      have v: "chain xs ys l ?v = chain xs ys l c \<or> chain xs ys l ?v = chain xs ys l 0" if "i \<le> l" "l < length xs" for l
        using less.IH [OF i(1,2) less.prems(2)] that i(3) by auto
      have o1: "?P (ids ! i) i ?v" by (rule old [OF less.prems(1) carry_of_range])
      show ?thesis
        unfolding c
      proof (intro conjI allI impI)
        show "carry_of (ids ! i) ?v = chain xs ys i c \<or> carry_of (ids ! i) ?v = chain xs ys i 0"
          using o1 v [OF order_refl less.prems(1)] by auto
        fix l assume l: "i \<le> l" "l < length xs"
        show "chain xs ys l (carry_of (ids ! i) ?v) = chain xs ys l c \<or> chain xs ys l (carry_of (ids ! i) ?v) = chain xs ys l 0"
          using o1 v [OF l] l by auto
      qed
    qed
  qed
  then show ?thesis unfolding tree_ok_def using p(1) by blast
qed

lemma all_passes: "tree_ok xs ys ids \<Longrightarrow> list_all (\<lambda>d. 0 < d) ds \<Longrightarrow> tree_ok xs ys (fold prefix_pass ds ids)"
  by (induction ds arbitrary: ids) (simp_all add: next_pass)

subsection \<open>Addition is exact\<close>

lemma carry_sum:
  assumes "length ys = length xs" "length cs = Suc (length xs)"
    "\<And>i. i < length xs \<Longrightarrow> xs ! i + ys ! i + cs ! i = zs ! i + 27 * cs ! Suc i" "length zs = length xs"
  shows "tryte_val xs + tryte_val ys + cs ! 0 = tryte_val zs + 27 ^ length xs * cs ! length xs"
  using assms
proof (induction xs arbitrary: ys zs cs)
  case (Cons x xs)
  obtain y ys' z zs' c cs' where e: "ys = y # ys'" "zs = z # zs'" "cs = c # cs'"
    using Cons.prems by (cases ys; cases zs; cases cs) auto
  have "tryte_val xs + tryte_val ys' + cs' ! 0 = tryte_val zs' + 27 ^ length xs * cs' ! length xs"
    using Cons.prems e by (intro Cons.IH) force+
  moreover have "x + y + c = z + 27 * cs' ! 0" using Cons.prems(3) [of 0] e by simp
  ultimately show ?case by (simp add: e algebra_simps)
qed simp

lemma addc_facts:
  assumes "trytes_ok xs" "trytes_ok ys" "length ys = length xs" "list_all (\<lambda>d. 0 < d) ds" "addc (1 # ds) xs ys = (zs, c)"
  shows "trytes_ok zs" "length zs = length xs" "is_carry c"
    "tryte_val xs + tryte_val ys = tryte_val zs + 27 ^ length xs * c"
proof -
  define ids where "ids = fold prefix_pass (1 # ds) (map2 cell_id xs ys)"
  define cs where "cs = 0 # map carry_from_zero ids"
  have t: "tree_ok xs ys ids" unfolding ids_def using all_passes [OF first_pass [OF assms(1-3)] assms(4)] by simp
  then have l: "length ids = length xs" by (simp add: tree_ok_def)
  have z: "zs = map (\<lambda>i. snd (add_entry (xs ! i) (ys ! i) (cs ! i))) [0 ..< length xs]" "c = cs ! length xs"
    using assms(5) by (simp_all add: addc_def ids_def cs_def Let_def)
  have ok: "\<bar>xs ! i\<bar> \<le> 13" "\<bar>ys ! i\<bar> \<le> 13" if "i < length xs" for i
    using that assms by (simp_all add: trytes_ok_def list_all_length)
  have n: "cs ! Suc i = chain xs ys i 0" if "i < length xs" for i
  proof -
    have "is_carry 0" by simp
    with t that have "carry_of (ids ! i) 0 = chain xs ys i 0" unfolding tree_ok_def by blast
    with that l show ?thesis by (simp add: cs_def carry_from_zero_eq)
  qed
  have r: "is_carry (cs ! i)" if "i \<le> length xs" for i
    using that n chain_range [OF assms(1-3), of _ 0] by (cases i) (simp_all add: cs_def Suc_le_eq)
  have s: "cs ! Suc i = fst (add_entry (xs ! i) (ys ! i) (cs ! i))" if "i < length xs" for i
    using that n by (cases i) (simp_all add: cs_def)
  show "length zs = length xs" using z(1) by simp
  show "trytes_ok zs" using z(1) ok r add_entry_facts(2) by (simp add: trytes_ok_def list_all_length)
  show "is_carry c" using r [of "length xs"] z(2) by simp
  have "tryte_val xs + tryte_val ys + cs ! 0 = tryte_val zs + 27 ^ length xs * cs ! length xs"
  proof (rule carry_sum [OF assms(3)])
    show "length cs = Suc (length xs)" "length zs = length xs" using l z(1) by (simp_all add: cs_def)
    show "xs ! i + ys ! i + cs ! i = zs ! i + 27 * cs ! Suc i" if "i < length xs" for i
      using add_entry_facts(3) [OF ok [OF that] r] that s [OF that] z(1) by simp
  qed
  then show "tryte_val xs + tryte_val ys = tryte_val zs + 27 ^ length xs * c" by (simp add: z(2) cs_def)
qed

end
