(* ===== verification/T81_Limb_Mul.thy ===== *)
theory T81_Limb_Mul
  imports T81_Limb T81_Int
begin

text \<open>
  Limbs as trits and the products of limbs of 48 trits (\<open>types/T81Limb.hpp\<close>); the product of limbs of 54 trits
  and what becomes of it.
\<close>

section \<open>Trits\<close>

definition limb_to_trits :: "int list \<Rightarrow> int list" where
  "limb_to_trits limb = concat (map decode_tryte limb)"

fun pack_trytes :: "int list \<Rightarrow> int list" where
  "pack_trytes (a # b # c # ts) = encode_tryte a b c # pack_trytes ts"
| "pack_trytes _ = []"

text \<open>Rounding division by three, and one pass of carries; the last carry is dropped.\<close>

definition round3 :: "int \<Rightarrow> int" where
  "round3 s = trunc_div (s + (if 0 \<le> s then 1 else - 1)) 3"

fun settle_trits :: "int list \<Rightarrow> int \<Rightarrow> int list" where
  "settle_trits [] carry = []"
| "settle_trits (t # ts) carry = (let s = t + carry; carry = round3 s in (s - carry * 3) # settle_trits ts carry)"

definition limb_from_trits :: "int list \<Rightarrow> int list" where
  "limb_from_trits ts = pack_trytes (map int8 (settle_trits ts 0))"

section \<open>Products of limbs of 48 trits\<close>

definition TRITS :: nat where "TRITS = 48"
definition WIDE_TRITS :: nat where "WIDE_TRITS = 96"

fun row_add :: "int \<Rightarrow> int list \<Rightarrow> nat \<Rightarrow> int list \<Rightarrow> int list" where
  "row_add digit [] target acc = acc"
| "row_add digit (a # as) target acc =
     (if WIDE_TRITS \<le> target then acc else row_add digit as (target + 1) (acc[target := acc ! target + digit * a]))"

fun accumulate :: "int list \<Rightarrow> int list \<Rightarrow> nat \<Rightarrow> int list \<Rightarrow> int list" where
  "accumulate as [] i acc = acc"
| "accumulate as (b # bs) i acc = accumulate as bs (i + 1) (if b = 0 then acc else row_add b as i acc)"

definition normalize_wide :: "int list \<Rightarrow> int list" where
  "normalize_wide acc = settle_trits acc 0"

definition finalize_wide :: "int list \<Rightarrow> int list" where
  "finalize_wide acc = map (\<lambda>v. int8 (if 1 < v then 1 else if v < - 1 then - 1 else v)) acc"

definition wide_trits :: "int list \<Rightarrow> int list \<Rightarrow> int list" where
  "wide_trits a b =
     finalize_wide (normalize_wide (normalize_wide (normalize_wide (accumulate a b 0 (replicate WIDE_TRITS 0)))))"

definition mul_wide :: "int list \<Rightarrow> int list \<Rightarrow> int list \<times> int list" where
  "mul_wide a b =
     (let trits = wide_trits (limb_to_trits a) (limb_to_trits b)
      in (limb_from_trits (take TRITS trits), limb_from_trits (drop TRITS trits)))"

definition limb_mul :: "int list \<Rightarrow> int list \<Rightarrow> int list" where
  "limb_mul a b = fst (mul_wide a b)"

definition booth_mul :: "int list \<Rightarrow> int list \<Rightarrow> int list" where
  "booth_mul a b = limb_from_trits (take TRITS (wide_trits (limb_to_trits a) (limb_to_trits b)))"

text \<open>Shift and add.\<close>

fun reference_loop :: "int list \<Rightarrow> int list \<Rightarrow> nat \<Rightarrow> int list \<Rightarrow> int list" where
  "reference_loop as [] i product = product"
| "reference_loop as (factor # bs) i product =
     reference_loop as bs (i + 1)
       (if factor = 0 then product
        else fst (limb_addc product (limb_from_trits (take TRITS (replicate i 0 @ map (\<lambda>a. int8 (a * factor)) as)))))"

definition reference_mul :: "int list \<Rightarrow> int list \<Rightarrow> int list" where
  "reference_mul a b = reference_loop (limb_to_trits a) (limb_to_trits b) 0 (replicate 16 0)"

section \<open>Conversions are exact\<close>

definition limb_ok :: "nat \<Rightarrow> int list \<Rightarrow> bool" where
  "limb_ok n l \<longleftrightarrow> length l = n \<and> trytes_ok l"

lemma int8_id: "- 128 \<le> x \<Longrightarrow> x < 128 \<Longrightarrow> int8 x = x"
  by (simp add: int8_def)

lemma decode_tryte_facts:
  assumes "\<bar>t\<bar> \<le> 13"
  shows "list_all valid_trit (decode_tryte t)" "bal_val (decode_tryte t) = t" "length (decode_tryte t) = 3"
proof -
  have t: "trunc_div x 3 = x div 3 \<and> trunc_mod x 3 = x mod 3" if "0 \<le> x" for x :: int
    using that by (simp add: trunc_div_def trunc_mod_def minus_mult_div_eq_mod)
  have p: "0 \<le> t + 13" "0 \<le> (t + 13) div 3" "0 \<le> (t + 13) div 3 div 3" using assms by (auto simp: pos_imp_zdiv_nonneg_iff)
  have d: "decode_tryte t = [(t + 13) mod 3 - 1, (t + 13) div 3 mod 3 - 1, (t + 13) div 3 div 3 mod 3 - 1]"
    using t [OF p(1)] t [OF p(2)] t [OF p(3)] by (simp add: decode_tryte_def Let_def)
  show "list_all valid_trit (decode_tryte t)" unfolding d by (simp, presburger)
  have "(t + 13) div 3 div 3 < 3" using assms by presburger
  then have "(t + 13) div 3 div 3 mod 3 = (t + 13) div 3 div 3" using p(3) by simp
  then show "bal_val (decode_tryte t) = t" unfolding d by simp
  show "length (decode_tryte t) = 3" by (simp add: d)
qed

lemma limb_to_trits_facts:
  "trytes_ok l \<Longrightarrow> list_all valid_trit (limb_to_trits l) \<and> length (limb_to_trits l) = 3 * length l \<and>
   bal_val (limb_to_trits l) = tryte_val l"
proof (induction l)
  case (Cons t ts)
  then have "list_all valid_trit (limb_to_trits ts)" "length (limb_to_trits ts) = 3 * length ts" "bal_val (limb_to_trits ts) = tryte_val ts"
    "\<bar>t\<bar> \<le> 13" by (simp_all add: trytes_ok_def)
  with decode_tryte_facts [of t] show ?case by (simp add: limb_to_trits_def bal_val_append)
qed (simp add: limb_to_trits_def)

lemma pack_trytes_facts:
  "list_all valid_trit ts \<Longrightarrow> length ts = 3 * n \<Longrightarrow> limb_ok n (pack_trytes ts) \<and> tryte_val (pack_trytes ts) = bal_val ts"
proof (induction ts arbitrary: n rule: pack_trytes.induct)
  case (1 a b c ts)
  then obtain m where m: "n = Suc m" "length ts = 3 * m" by (cases n) auto
  have v: "- 1 \<le> a" "a \<le> 1" "- 1 \<le> b" "b \<le> 1" "- 1 \<le> c" "c \<le> 1" using "1.prems"(1) by auto
  then have e: "encode_tryte a b c = a + 3 * b + 9 * c" "\<bar>encode_tryte a b c\<bar> \<le> 13" by (simp_all add: encode_tryte_def int8_id)
  with "1.IH" [of m] "1.prems"(1) m show ?case by (simp add: limb_ok_def trytes_ok_def)
qed (auto simp: limb_ok_def trytes_ok_def, presburger+)

lemma round3_facts: "is_carry (s - round3 s * 3)" "\<bar>s\<bar> \<le> 3 * k + 1 \<Longrightarrow> \<bar>round3 s\<bar> \<le> k"
  by (auto simp: round3_def trunc_div_def split: if_splits)

lemma settle_trits_facts:
  "list_all valid_trit (settle_trits ts c) \<and> length (settle_trits ts c) = length ts \<and>
   (\<exists>d. c + bal_val ts = bal_val (settle_trits ts c) + 3 ^ length ts * d)"
proof (induction ts arbitrary: c)
  case (Cons t ts)
  let ?r = "round3 (t + c)"
  obtain d where d: "?r + bal_val ts = bal_val (settle_trits ts ?r) + 3 ^ length ts * d" using Cons by blast
  have "c + bal_val (t # ts) = (t + c - ?r * 3) + 3 * (?r + bal_val ts)" by simp
  also have "\<dots> = bal_val (settle_trits (t # ts) c) + 3 ^ length (t # ts) * d"
    unfolding d by (simp add: Let_def algebra_simps)
  finally show ?case using Cons [of ?r] round3_facts(1) [of "t + c"] by (auto simp: Let_def)
qed simp

lemma normalize_id: "list_all valid_trit ts \<Longrightarrow> settle_trits ts 0 = ts"
proof (induction ts)
  case (Cons t ts)
  then have "t = - 1 \<or> t = 0 \<or> t = 1" by auto
  then have "round3 t = 0" by (auto simp: round3_def trunc_div_def)
  with Cons show ?case by simp
qed simp

text \<open>Values that agree modulo \<open>3 ^ n\<close> and have \<open>n\<close> trits are equal.\<close>

lemma balanced_unique:
  fixes x y P :: int
  assumes "2 * \<bar>x\<bar> < P" "2 * \<bar>y\<bar> < P" "x = y + P * d"
  shows "x = y"
proof -
  have "\<bar>P * d\<bar> < P * 1" using assms by linarith
  then have "\<bar>P\<bar> * \<bar>d\<bar> < \<bar>P\<bar> * 1" using assms(1) by (simp add: abs_mult)
  then have "\<bar>d\<bar> < 1" by (simp only: mult_less_cancel_left)
  with assms(3) show ?thesis by simp
qed

lemma normalize_exact:
  assumes "2 * \<bar>bal_val ts\<bar> < 3 ^ length ts"
  shows "bal_val (settle_trits ts 0) = bal_val ts"
proof -
  obtain d where d: "list_all valid_trit (settle_trits ts 0)" "length (settle_trits ts 0) = length ts"
    "bal_val ts = bal_val (settle_trits ts 0) + 3 ^ length ts * d" using settle_trits_facts [of ts 0] by auto
  have "2 * \<bar>bal_val (settle_trits ts 0)\<bar> < 3 ^ length ts" using bal_val_bound [OF d(1)] d(2) by simp
  from balanced_unique [OF assms this d(3)] show ?thesis by simp
qed

lemma limb_from_trits_facts:
  assumes "length ts = 3 * n"
  shows "limb_ok n (limb_from_trits ts)" "\<exists>d. bal_val ts = tryte_val (limb_from_trits ts) + 27 ^ n * d"
    "list_all valid_trit ts \<Longrightarrow> tryte_val (limb_from_trits ts) = bal_val ts"
proof -
  let ?t = "settle_trits ts 0"
  obtain d where t: "list_all valid_trit ?t" "length ?t = 3 * n" "bal_val ts = bal_val ?t + 3 ^ (3 * n) * d"
    using settle_trits_facts [of ts 0] assms by auto
  have "map int8 ?t = ?t" using t(1) by (intro map_idI) (auto simp: list_all_iff int8_id)
  then have e: "limb_from_trits ts = pack_trytes ?t" by (simp add: limb_from_trits_def)
  note p = pack_trytes_facts [OF t(1,2)]
  show "limb_ok n (limb_from_trits ts)" using p e by simp
  have "(3 :: int) ^ (3 * n) = 27 ^ n" by (simp add: power_mult)
  with t(3) p e show "\<exists>d. bal_val ts = tryte_val (limb_from_trits ts) + 27 ^ n * d" by auto
  show "list_all valid_trit ts \<Longrightarrow> tryte_val (limb_from_trits ts) = bal_val ts" using p e by (simp add: normalize_id)
qed

section \<open>Products are exact\<close>

lemma row_add_facts:
  "length acc = WIDE_TRITS \<Longrightarrow> target + length as \<le> WIDE_TRITS \<Longrightarrow>
   length (row_add d as target acc) = WIDE_TRITS \<and> bal_val (row_add d as target acc) = bal_val acc + 3 ^ target * (d * bal_val as)"
  by (induction as arbitrary: target acc) (simp_all add: bal_val_update algebra_simps)

lemma accumulate_facts:
  "length acc = WIDE_TRITS \<Longrightarrow> i + length bs + length as \<le> WIDE_TRITS + 1 \<Longrightarrow>
   length (accumulate as bs i acc) = WIDE_TRITS \<and>
   bal_val (accumulate as bs i acc) = bal_val acc + 3 ^ i * (bal_val as * bal_val bs)"
proof (induction bs arbitrary: i acc)
  case (Cons b bs)
  let ?acc = "if b = 0 then acc else row_add b as i acc"
  have r: "length ?acc = WIDE_TRITS" "bal_val ?acc = bal_val acc + 3 ^ i * (b * bal_val as)"
    using row_add_facts [of acc i as b] Cons.prems by simp_all
  have "length (accumulate as bs (i + 1) ?acc) = WIDE_TRITS \<and>
    bal_val (accumulate as bs (i + 1) ?acc) = bal_val ?acc + 3 ^ (i + 1) * (bal_val as * bal_val bs)"
    using Cons.prems r by (intro Cons.IH) simp_all
  with r(2) show ?case by (simp add: algebra_simps)
qed simp

lemma wide_trits_facts:
  assumes "list_all valid_trit a" "length a = 48" "list_all valid_trit b" "length b = 48"
  shows "list_all valid_trit (wide_trits a b)" "length (wide_trits a b) = 96" "bal_val (wide_trits a b) = bal_val a * bal_val b"
proof -
  let ?acc = "accumulate a b 0 (replicate WIDE_TRITS 0)"
  have acc: "length ?acc = 96" "bal_val ?acc = bal_val a * bal_val b"
    using accumulate_facts [of "replicate WIDE_TRITS 0" 0 b a] assms by (simp_all add: WIDE_TRITS_def)
  have "2 * \<bar>bal_val a\<bar> < 3 ^ 48" "2 * \<bar>bal_val b\<bar> < 3 ^ 48" using bal_val_bound assms by fastforce+
  then have "(2 * \<bar>bal_val a\<bar>) * (2 * \<bar>bal_val b\<bar>) \<le> 3 ^ 48 * 3 ^ 48" by (intro mult_mono) simp_all
  then have "2 * \<bar>bal_val ?acc\<bar> < 3 ^ length ?acc" unfolding acc by (simp add: abs_mult)
  note n = normalize_exact [OF this]
  let ?t = "settle_trits ?acc 0"
  have t: "list_all valid_trit ?t" "length ?t = 96" using settle_trits_facts [of ?acc 0] acc by simp_all
  have "finalize_wide ?t = ?t"
    unfolding finalize_wide_def using t(1) by (intro map_idI) (auto simp: list_all_iff int8_id)
  then have "wide_trits a b = ?t" by (simp add: wide_trits_def normalize_wide_def normalize_id [OF t(1)])
  with t n acc(2) show "list_all valid_trit (wide_trits a b)" "length (wide_trits a b) = 96"
    "bal_val (wide_trits a b) = bal_val a * bal_val b" by simp_all
qed

lemma mul_wide_facts:
  assumes "limb_ok 16 a" "limb_ok 16 b" "mul_wide a b = (low, high)"
  shows "limb_ok 16 low" "limb_ok 16 high" "tryte_val low + 27 ^ 16 * tryte_val high = tryte_val a * tryte_val b"
proof -
  note ta = limb_to_trits_facts [of a] and tb = limb_to_trits_facts [of b]
  let ?t = "wide_trits (limb_to_trits a) (limb_to_trits b)"
  have t: "list_all valid_trit ?t" "length ?t = 96" "bal_val ?t = tryte_val a * tryte_val b"
    using wide_trits_facts [of "limb_to_trits a" "limb_to_trits b"] ta tb assms(1,2) by (simp_all add: limb_ok_def)
  have lh: "low = limb_from_trits (take 48 ?t)" "high = limb_from_trits (drop 48 ?t)"
    using assms(3) by (simp_all add: mul_wide_def Let_def TRITS_def)
  have v: "list_all valid_trit (take 48 ?t)" "list_all valid_trit (drop 48 ?t)"
    using t(1) by (auto simp: list_all_iff dest: in_set_takeD in_set_dropD)
  have l: "length (take 48 ?t) = 3 * 16" "length (drop 48 ?t) = 3 * 16" using t(2) by simp_all
  show "limb_ok 16 low" "limb_ok 16 high" using limb_from_trits_facts(1) [OF l(1)] limb_from_trits_facts(1) [OF l(2)] lh by simp_all
  have "bal_val (take 48 ?t @ drop 48 ?t) = bal_val (take 48 ?t) + 3 ^ length (take 48 ?t) * bal_val (drop 48 ?t)"
    by (rule bal_val_append)
  then have "bal_val ?t = bal_val (take 48 ?t) + 3 ^ 48 * bal_val (drop 48 ?t)" using t(2) by simp
  moreover have "(3 :: int) ^ 48 = 27 ^ 16" by simp
  ultimately show "tryte_val low + 27 ^ 16 * tryte_val high = tryte_val a * tryte_val b"
    using limb_from_trits_facts(3) [OF l(1) v(1)] limb_from_trits_facts(3) [OF l(2) v(2)] lh t(3) by simp
qed

text \<open>Shift and add is the product modulo \<open>27 ^ 16\<close>.\<close>

lemma shifted_value:
  assumes "length as = 48" "list_all valid_trit as" "i < 48" "valid_trit f"
  shows "length (take TRITS (replicate i 0 @ map (\<lambda>a. int8 (a * f)) as)) = 3 * 16"
    "\<exists>d. 3 ^ i * (f * bal_val as) = bal_val (take TRITS (replicate i 0 @ map (\<lambda>a. int8 (a * f)) as)) + 27 ^ 16 * d"
proof -
  have m: "map (\<lambda>a. int8 (a * f)) as = map (\<lambda>a. a * f) as"
    using assms(2,4) by (intro map_cong refl) (auto simp: list_all_iff int8_id dest!: carry_cases)
  have v: "bal_val (map (\<lambda>a. a * f) as) = f * bal_val as" for as by (induction as) (simp_all add: algebra_simps)
  let ?l = "replicate i 0 @ map (\<lambda>a. a * f) as"
  show "length (take TRITS (replicate i 0 @ map (\<lambda>a. int8 (a * f)) as)) = 3 * 16"
    using assms(1) by (simp add: TRITS_def)
  have "bal_val (take 48 ?l @ drop 48 ?l) = bal_val (take 48 ?l) + 3 ^ length (take 48 ?l) * bal_val (drop 48 ?l)"
    by (rule bal_val_append)
  moreover have "length (take 48 ?l) = 48" "(3 :: int) ^ 48 = 27 ^ 16" using assms(1) by simp_all
  moreover have "bal_val ?l = 3 ^ i * (f * bal_val as)" by (simp add: bal_val_append v)
  ultimately show "\<exists>d. 3 ^ i * (f * bal_val as) = bal_val (take TRITS (replicate i 0 @ map (\<lambda>a. int8 (a * f)) as)) + 27 ^ 16 * d"
    unfolding m TRITS_def by (metis append_take_drop_id)
qed

lemma reference_loop_facts:
  assumes "length as = 48" "list_all valid_trit as"
  shows "list_all valid_trit bs \<Longrightarrow> i + length bs \<le> 48 \<Longrightarrow> limb_ok 16 p \<Longrightarrow>
    limb_ok 16 (reference_loop as bs i p) \<and>
    (\<exists>d. tryte_val p + 3 ^ i * (bal_val as * bal_val bs) = tryte_val (reference_loop as bs i p) + 27 ^ 16 * d)"
proof (induction bs arbitrary: i p)
  case (Cons f bs)
  let ?t = "take TRITS (replicate i 0 @ map (\<lambda>a. int8 (a * f)) as)"
  let ?p = "if f = 0 then p else fst (limb_addc p (limb_from_trits ?t))"
  have f: "i < 48" "valid_trit f" using Cons.prems by simp_all
  note s = shifted_value [OF assms f]
  obtain d1 where d1: "3 ^ i * (f * bal_val as) = bal_val ?t + 27 ^ 16 * d1" using s(2) by blast
  obtain d2 where d2: "bal_val ?t = tryte_val (limb_from_trits ?t) + 27 ^ 16 * d2" using limb_from_trits_facts(2) [OF s(1)] by blast
  have lt: "limb_ok 16 (limb_from_trits ?t)" by (rule limb_from_trits_facts(1) [OF s(1)])
  obtain z c where z: "addc (1 # [2, 4, 8]) p (limb_from_trits ?t) = (z, c)" by fastforce
  have a: "trytes_ok z" "length z = 16" "tryte_val p + tryte_val (limb_from_trits ?t) = tryte_val z + 27 ^ 16 * c"
    using addc_facts [OF _ _ _ _ z] Cons.prems(3) lt by (simp_all add: limb_ok_def)
  have pz: "?p = (if f = 0 then p else z)" using z by (simp add: limb_addc_def)
  have p: "limb_ok 16 ?p" "\<exists>d. tryte_val p + 3 ^ i * (f * bal_val as) = tryte_val ?p + 27 ^ 16 * d"
  proof -
    show "limb_ok 16 ?p" unfolding pz using a Cons.prems(3) by (simp add: limb_ok_def)
    show "\<exists>d. tryte_val p + 3 ^ i * (f * bal_val as) = tryte_val ?p + 27 ^ 16 * d"
    proof (cases "f = 0")
      case False
      have "tryte_val p + 3 ^ i * (f * bal_val as) = tryte_val z + 27 ^ 16 * (c + d2 + d1)"
        unfolding d1 d2 using a(3) by (simp add: distrib_left)
      with False pz show ?thesis by (intro exI [of _ "c + d2 + d1"]) simp
    qed simp
  qed
  obtain d where d: "tryte_val p + 3 ^ i * (f * bal_val as) = tryte_val ?p + 27 ^ 16 * d" using p(2) by blast
  obtain e where e: "limb_ok 16 (reference_loop as bs (i + 1) ?p)"
    "tryte_val ?p + 3 ^ (i + 1) * (bal_val as * bal_val bs) = tryte_val (reference_loop as bs (i + 1) ?p) + 27 ^ 16 * e"
    using Cons.IH [of "i + 1" ?p] Cons.prems p(1) by auto
  have "tryte_val p + 3 ^ i * (bal_val as * bal_val (f # bs)) =
    (tryte_val p + 3 ^ i * (f * bal_val as)) + 3 ^ (i + 1) * (bal_val as * bal_val bs)" by (simp add: algebra_simps)
  also have "\<dots> = tryte_val (reference_loop as bs (i + 1) ?p) + 27 ^ 16 * (e + d)"
    unfolding d using e(2) by (simp add: distrib_left)
  finally have "\<exists>d. tryte_val p + 3 ^ i * (bal_val as * bal_val (f # bs)) =
    tryte_val (reference_loop as bs (i + 1) ?p) + 27 ^ 16 * d" by blast
  with e(1) show ?case by simp
qed auto

lemma tryte_val_inj: "trytes_ok a \<Longrightarrow> trytes_ok b \<Longrightarrow> length a = length b \<Longrightarrow> tryte_val a = tryte_val b \<Longrightarrow> a = b"
proof (induction a arbitrary: b)
  case (Cons x a)
  then obtain y c where b: "b = y # c" by (cases b) auto
  have "x + 27 * tryte_val a = y + 27 * tryte_val c" "\<bar>x\<bar> \<le> 13" "\<bar>y\<bar> \<le> 13" using Cons.prems b by (simp_all add: trytes_ok_def)
  moreover have "u = v" if "x + 27 * u = y + 27 * v" "\<bar>x\<bar> \<le> 13" "\<bar>y\<bar> \<le> 13" for u v :: int using that by linarith
  ultimately have "x = y" "tryte_val a = tryte_val c" by fastforce+
  with Cons b show ?case by (simp add: trytes_ok_def)
qed simp

lemma reference_mul_eq:
  assumes "limb_ok 16 a" "limb_ok 16 b"
  shows "reference_mul a b = limb_mul a b"
proof -
  note ta = limb_to_trits_facts [of a] and tb = limb_to_trits_facts [of b]
  have zero: "tryte_val (replicate n 0) = 0" for n by (induction n) simp_all
  have z: "limb_ok 16 (replicate 16 0)" "tryte_val (replicate 16 0) = 0"
    by (simp_all only: zero) (simp add: limb_ok_def trytes_ok_def list_all_iff)
  obtain low high where m: "mul_wide a b = (low, high)" by fastforce
  note w = mul_wide_facts [OF assms m]
  obtain d where r: "limb_ok 16 (reference_mul a b)" "tryte_val a * tryte_val b = tryte_val (reference_mul a b) + 27 ^ 16 * d"
  proof -
    have l: "length (limb_to_trits a) = 48" "list_all valid_trit (limb_to_trits a)" "bal_val (limb_to_trits a) = tryte_val a"
      "length (limb_to_trits b) = 48" "list_all valid_trit (limb_to_trits b)" "bal_val (limb_to_trits b) = tryte_val b"
      using ta tb assms by (simp_all add: limb_ok_def)
    from reference_loop_facts [OF l(1,2,5) _ z(1), of 0] l(4)
    have "limb_ok 16 (reference_mul a b) \<and> (\<exists>d. tryte_val a * tryte_val b = tryte_val (reference_mul a b) + 27 ^ 16 * d)"
      unfolding reference_mul_def l(3,6) z(2) by simp
    with that show thesis by blast
  qed
  have "tryte_val low = tryte_val (reference_mul a b) + 27 ^ 16 * (d - tryte_val high)"
    using w(3) r(2) by (simp add: right_diff_distrib)
  moreover have "2 * \<bar>tryte_val low\<bar> < 27 ^ 16" "2 * \<bar>tryte_val (reference_mul a b)\<bar> < 27 ^ 16"
    using tryte_val_bound [of low] tryte_val_bound [of "reference_mul a b"] w(1) r(1) by (simp_all add: limb_ok_def)
  ultimately have "tryte_val low = tryte_val (reference_mul a b)" using balanced_unique by blast
  then show ?thesis using w(1) r(1) m by (intro tryte_val_inj) (simp_all add: limb_ok_def limb_mul_def)
qed

end
