(* ===== verification/T81_Limb54.thy ===== *)
theory T81_Limb54
  imports T81_Limb_Mul
begin

text \<open>
  Limbs of 54 and of 27 trits (\<open>types/T81Limb.hpp\<close>): differences, the products by columns, by pairs of digits and by
  halves.  Sums of columns are resolved by passes that carry at most one, so that only sums up to three come out
  in range.
\<close>

section \<open>Passes of limited carries\<close>

text \<open>Only sums of two are resolved.\<close>

fun settle_twos :: "int list \<Rightarrow> int \<Rightarrow> int list" where
  "settle_twos [] carry = []"
| "settle_twos (t # ts) carry =
     (let sum = t + carry
      in if sum = 2 then - 1 # settle_twos ts 1
         else if sum = - 2 then 1 # settle_twos ts (- 1)
         else int8 sum # settle_twos ts 0)"

text \<open>Sums of two and more lose three; the carry that leaves the last column is the second part.\<close>

fun limit_carries :: "int list \<Rightarrow> int \<Rightarrow> int list \<times> int" where
  "limit_carries [] carry = ([], carry)"
| "limit_carries (t # ts) carry =
     (let sum = t + carry
      in if 2 \<le> sum then map_prod ((#) (sum - 3)) id (limit_carries ts 1)
         else if sum \<le> - 2 then map_prod ((#) (sum + 3)) id (limit_carries ts (- 1))
         else map_prod ((#) sum) id (limit_carries ts 0))"

definition TRITS54 :: nat where "TRITS54 = 54"

definition limb54_to_trits :: "int list \<Rightarrow> int list" where
  "limb54_to_trits limb = concat (map decode_tryte limb)"

definition limb54_from_trits :: "int list \<Rightarrow> int list" where
  "limb54_from_trits ts = pack_trytes (settle_twos ts 0)"

fun sub_trits :: "int list \<Rightarrow> int list \<Rightarrow> int \<Rightarrow> int list" where
  "sub_trits (l # ls) (r # rs) carry =
     (let sum = l - r + carry
      in if 1 < sum then int8 (sum - 3) # sub_trits ls rs 1
         else if sum < - 1 then int8 (sum + 3) # sub_trits ls rs (- 1)
         else int8 sum # sub_trits ls rs 0)"
| "sub_trits _ _ carry = []"

definition limb54_sub :: "int list \<Rightarrow> int list \<Rightarrow> int list" where
  "limb54_sub a b = limb54_from_trits (sub_trits (limb54_to_trits a) (limb54_to_trits b) 0)"

section \<open>Products\<close>

text \<open>One row of a product: the digits of a factor, times a digit, from a column on.\<close>

fun add_row :: "int \<Rightarrow> int list \<Rightarrow> nat \<Rightarrow> int list \<Rightarrow> int list" where
  "add_row digit [] target acc = acc"
| "add_row digit (b # bs) target acc = add_row digit bs (target + 1) (acc[target := acc ! target + digit * b])"

fun add_columns :: "int list \<Rightarrow> int list \<Rightarrow> nat \<Rightarrow> int list \<Rightarrow> int list" where
  "add_columns [] bs i acc = acc"
| "add_columns (a # as) bs i acc = add_columns as bs (i + 1) (if a = 0 then acc else add_row a bs i acc)"

definition reference_mul54 :: "int list \<Rightarrow> int list \<Rightarrow> int list" where
  "reference_mul54 a b =
     (let acc = add_columns (limb54_to_trits a) (limb54_to_trits b) 0 (replicate (TRITS54 * 2) 0);
          limited = fst (limit_carries (take TRITS54 acc) 0)
      in limb54_from_trits (settle_twos limited 0))"

text \<open>Two digits of a factor are recoded to one digit and a shift.\<close>

definition booth_pattern :: "int \<Rightarrow> int \<times> nat" where
  "booth_pattern p =
     (if p = 1 \<or> p = 3 then (1, 0) else if p = 2 \<or> p = 4 then (1, 1)
      else if p = - 1 \<or> p = - 3 then (- 1, 0) else if p = - 2 \<or> p = - 4 then (- 1, 1) else (0, 0))"

fun booth_row :: "int \<Rightarrow> int list \<Rightarrow> nat \<Rightarrow> int list \<Rightarrow> int list" where
  "booth_row mul [] target acc = acc"
| "booth_row mul (a # as) target acc =
     (if a = 0 then booth_row mul as (target + 1) acc
      else if TRITS54 * 2 \<le> target then acc
      else booth_row mul as (target + 1) (acc[target := acc ! target + mul * a]))"

fun booth_pairs :: "int list \<Rightarrow> int list \<Rightarrow> nat \<Rightarrow> int list \<Rightarrow> int list" where
  "booth_pairs as (d0 # d1 # bs) i acc =
     (case booth_pattern (d0 + 3 * d1) of (mul, shift) \<Rightarrow>
        booth_pairs as bs (i + 2) (if mul = 0 then acc else booth_row mul as (i + shift) acc))"
| "booth_pairs as [d0] i acc =
     (case booth_pattern d0 of (mul, shift) \<Rightarrow> if mul = 0 then acc else booth_row mul as (i + shift) acc)"
| "booth_pairs as [] i acc = acc"

definition booth_mul_trits54 :: "int list \<Rightarrow> int list \<Rightarrow> int list" where
  "booth_mul_trits54 a b =
     (case limit_carries (booth_pairs a b 0 (replicate (TRITS54 * 2) 0)) 0 of (acc, carry) \<Rightarrow>
        settle_twos (take TRITS54 acc) carry)"

definition booth_mul54 :: "int list \<Rightarrow> int list \<Rightarrow> int list" where
  "booth_mul54 a b =
     (let candidate = limb54_from_trits (booth_mul_trits54 (limb54_to_trits a) (limb54_to_trits b));
          canonical = reference_mul54 a b
      in if limb54_to_trits candidate \<noteq> limb54_to_trits canonical then canonical else candidate)"

definition booth_mul_partial54 :: "int list \<Rightarrow> int list \<Rightarrow> nat \<Rightarrow> int list" where
  "booth_mul_partial54 a b active_trytes =
     (let cut = (\<lambda>ts. take (active_trytes * 3) ts @ replicate (TRITS54 - active_trytes * 3) 0)
      in limb54_from_trits (booth_mul_trits54 (cut (limb54_to_trits a)) (cut (limb54_to_trits b))))"

definition shift_left_trytes :: "int list \<Rightarrow> nat \<Rightarrow> int list" where
  "shift_left_trytes limb count = take 18 (replicate count 0 @ limb)"

text \<open>Limbs of 27 trits.  The shift of a row is the one of the table alone: it does not depend on the place of the digit.\<close>

fun tryte_row :: "int \<Rightarrow> int list \<Rightarrow> nat \<Rightarrow> int list \<Rightarrow> int list" where
  "tryte_row mul [] base acc = acc"
| "tryte_row mul (t # ts) base acc =
     (if t = 0 then tryte_row mul ts (base + 3) acc
      else if TRITS54 \<le> base + 2 then acc
      else tryte_row mul ts (base + 3) (add_row mul (decode_tryte t) base acc))"

fun tryte_pairs :: "int list \<Rightarrow> int list \<Rightarrow> int list \<Rightarrow> int list" where
  "tryte_pairs as [] acc = acc"
| "tryte_pairs as (b0 # bs) acc =
     (case booth_pattern (b0 + 3 * (case bs of [] \<Rightarrow> 0 | b1 # _ \<Rightarrow> b1)) of (mul, shift) \<Rightarrow>
        tryte_pairs as bs (if mul = 0 then acc else tryte_row mul as (shift * 3) acc))"

definition limb27_mul :: "int list \<Rightarrow> int list \<Rightarrow> int list" where
  "limb27_mul a b =
     limb54_from_trits (settle_twos (fst (limit_carries (tryte_pairs a b (replicate TRITS54 0)) 0)) 0)"

definition karatsuba :: "int list \<Rightarrow> int list \<Rightarrow> int list" where
  "karatsuba x y =
     (let x0 = take 9 x; x1 = drop 9 x; y0 = take 9 y; y1 = drop 9 y;
          z0 = limb27_mul x0 y0; z2 = limb27_mul x1 y1;
          mid = limb27_mul (fst (limb27_addc x0 x1)) (fst (limb27_addc y0 y1));
          z1 = limb54_sub (limb54_sub mid z0) z2;
          result = fst (limb54_addc z0 (shift_left_trytes z1 9))
      in fst (limb54_addc result (shift_left_trytes z2 18)))"

section \<open>Differences are exact\<close>

lemma settle_twos_facts:
  "list_all (\<lambda>t. \<bar>t\<bar> \<le> 1) ts \<Longrightarrow> is_carry c \<Longrightarrow>
   list_all valid_trit (settle_twos ts c) \<and> length (settle_twos ts c) = length ts \<and>
   (\<exists>d. c + bal_val ts = bal_val (settle_twos ts c) + 3 ^ length ts * d)"
proof (induction ts arbitrary: c)
  case (Cons t ts)
  let ?s = "t + c"
  define e where "e = (if ?s = 2 then (1 :: int) else if ?s = - 2 then - 1 else 0)"
  have e: "settle_twos (t # ts) c = (?s - 3 * e) # settle_twos ts e" "is_carry e" "valid_trit (?s - 3 * e)"
    using Cons.prems by (auto simp: e_def Let_def int8_def)
  obtain d where d: "e + bal_val ts = bal_val (settle_twos ts e) + 3 ^ length ts * d"
    and v: "list_all valid_trit (settle_twos ts e)" "length (settle_twos ts e) = length ts"
    using Cons.IH [OF _ e(2)] Cons.prems by auto
  have "c + bal_val (t # ts) = (?s - 3 * e) + 3 * (e + bal_val ts)" by simp
  also have "\<dots> = bal_val (settle_twos (t # ts) c) + 3 ^ length (t # ts) * d"
    unfolding d e(1) by (simp add: algebra_simps)
  finally show ?case using v e(1,3) by auto
qed simp

lemma settle_valid: "list_all valid_trit ts \<Longrightarrow> settle_twos ts 0 = ts"
  by (induction ts) (auto simp: Let_def int8_def)

lemma limit_carries_facts:
  "list_all (\<lambda>t. \<bar>t\<bar> \<le> 3) ts \<Longrightarrow> is_carry c \<Longrightarrow>
   list_all valid_trit (fst (limit_carries ts c)) \<and> length (fst (limit_carries ts c)) = length ts \<and>
   c + bal_val ts = bal_val (fst (limit_carries ts c)) + 3 ^ length ts * snd (limit_carries ts c)"
proof (induction ts arbitrary: c)
  case (Cons t ts)
  let ?s = "t + c"
  define e where "e = (if 2 \<le> ?s then (1 :: int) else if ?s \<le> - 2 then - 1 else 0)"
  have e: "limit_carries (t # ts) c = map_prod ((#) (?s - 3 * e)) id (limit_carries ts e)" "is_carry e" "valid_trit (?s - 3 * e)"
    using Cons.prems by (auto simp: e_def Let_def)
  from Cons.IH [OF _ e(2)] Cons.prems have
    d: "e + bal_val ts = bal_val (fst (limit_carries ts e)) + 3 ^ length ts * snd (limit_carries ts e)"
    and v: "list_all valid_trit (fst (limit_carries ts e))" "length (fst (limit_carries ts e)) = length ts" by auto
  have "c + bal_val (t # ts) = (?s - 3 * e) + 3 * (e + bal_val ts)" by simp
  also have "\<dots> = bal_val (fst (limit_carries (t # ts) c)) + 3 ^ length (t # ts) * snd (limit_carries (t # ts) c)"
    unfolding d e(1) by (simp add: algebra_simps)
  finally show ?case using v e(1,3) by simp
qed simp

lemma sub_trits_facts:
  "list_all valid_trit ls \<Longrightarrow> list_all valid_trit rs \<Longrightarrow> length rs = length ls \<Longrightarrow> is_carry c \<Longrightarrow>
   list_all valid_trit (sub_trits ls rs c) \<and> length (sub_trits ls rs c) = length ls \<and>
   (\<exists>d. c + bal_val ls - bal_val rs = bal_val (sub_trits ls rs c) + 3 ^ length ls * d)"
proof (induction ls rs c rule: sub_trits.induct)
  case (1 l ls r rs c)
  let ?s = "l - r + c"
  define e where "e = (if 1 < ?s then (1 :: int) else if ?s < - 1 then - 1 else 0)"
  have e: "sub_trits (l # ls) (r # rs) c = (?s - 3 * e) # sub_trits ls rs e" "is_carry e" "valid_trit (?s - 3 * e)"
    using "1.prems" by (auto simp: e_def Let_def int8_def)
  have "list_all valid_trit (sub_trits ls rs e) \<and> length (sub_trits ls rs e) = length ls \<and>
    (\<exists>d. e + bal_val ls - bal_val rs = bal_val (sub_trits ls rs e) + 3 ^ length ls * d)"
    using "1.IH" "1.prems" by (auto simp: e_def)
  then obtain d where d: "e + bal_val ls - bal_val rs = bal_val (sub_trits ls rs e) + 3 ^ length ls * d"
    and v: "list_all valid_trit (sub_trits ls rs e)" "length (sub_trits ls rs e) = length ls" by auto
  have "c + bal_val (l # ls) - bal_val (r # rs) = (?s - 3 * e) + 3 * (e + bal_val ls - bal_val rs)" by simp
  also have "\<dots> = bal_val (sub_trits (l # ls) (r # rs) c) + 3 ^ length (l # ls) * d"
    unfolding d e(1) by (simp add: algebra_simps)
  finally show ?case using v e(1,3) by auto
qed auto

lemma limb54_from_trits_facts:
  assumes "list_all valid_trit ts" "length ts = 54"
  shows "limb_ok 18 (limb54_from_trits ts) \<and> tryte_val (limb54_from_trits ts) = bal_val ts"
  using pack_trytes_facts [OF assms(1), of 18] assms by (simp add: limb54_from_trits_def settle_valid)

lemma limb54_to_trits_facts:
  assumes "limb_ok 18 l"
  shows "list_all valid_trit (limb54_to_trits l)" "length (limb54_to_trits l) = 54" "bal_val (limb54_to_trits l) = tryte_val l"
  using limb_to_trits_facts [of l] assms by (simp_all add: limb54_to_trits_def limb_to_trits_def limb_ok_def)

lemma pow54: "(3 :: int) ^ 54 = 27 ^ 18"
  by simp

lemma limb54_sub_facts:
  assumes "limb_ok 18 a" "limb_ok 18 b"
  shows "limb_ok 18 (limb54_sub a b)" "\<exists>d. tryte_val a - tryte_val b = tryte_val (limb54_sub a b) + 27 ^ 18 * d"
proof -
  note ta = limb54_to_trits_facts [OF assms(1)] and tb = limb54_to_trits_facts [OF assms(2)]
  let ?t = "sub_trits (limb54_to_trits a) (limb54_to_trits b) 0"
  have t: "list_all valid_trit ?t" "length ?t = 54" "\<exists>d. tryte_val a - tryte_val b = bal_val ?t + 3 ^ 54 * d"
    using sub_trits_facts [OF ta(1) tb(1), of 0] ta(2,3) tb(2,3) by simp_all
  note f = limb54_from_trits_facts [OF t(1,2)]
  show "limb_ok 18 (limb54_sub a b)" using f by (simp add: limb54_sub_def)
  show "\<exists>d. tryte_val a - tryte_val b = tryte_val (limb54_sub a b) + 27 ^ 18 * d"
    using t(3) f unfolding pow54 limb54_sub_def by simp
qed

section \<open>Products of few rows are exact\<close>

lemma add_row_facts:
  "target + length bs \<le> length acc \<Longrightarrow>
   length (add_row d bs target acc) = length acc \<and> bal_val (add_row d bs target acc) = bal_val acc + 3 ^ target * (d * bal_val bs)"
  by (induction bs arbitrary: target acc) (simp_all add: bal_val_update algebra_simps)

lemma add_row_below: "i < target \<Longrightarrow> i < length acc \<Longrightarrow> add_row d bs target acc ! i = acc ! i"
  by (induction bs arbitrary: target acc) simp_all

lemma add_row_bound:
  "target + length bs \<le> length acc \<Longrightarrow> \<bar>d\<bar> \<le> 1 \<Longrightarrow> list_all valid_trit bs \<Longrightarrow> i < length acc \<Longrightarrow>
   \<bar>add_row d bs target acc ! i\<bar> \<le> \<bar>acc ! i\<bar> + 1"
proof (induction bs arbitrary: target acc)
  case (Cons b bs)
  let ?acc = "acc[target := acc ! target + d * b]"
  show ?case
  proof (cases "i = target")
    case True
    have "\<bar>d * b\<bar> \<le> 1 * 1" using Cons.prems unfolding abs_mult by (intro mult_mono) auto
    then show ?thesis using add_row_below [of i "target + 1" ?acc d bs] True Cons.prems by simp
  next
    case False
    then show ?thesis using Cons.IH [of "target + 1" ?acc] Cons.prems by simp
  qed
qed simp

lemma add_columns_facts:
  "i + length as + length bs \<le> length acc + 1 \<Longrightarrow> list_all valid_trit as \<Longrightarrow> list_all valid_trit bs \<Longrightarrow>
   length (add_columns as bs i acc) = length acc \<and>
   bal_val (add_columns as bs i acc) = bal_val acc + 3 ^ i * (bal_val as * bal_val bs) \<and>
   (\<forall>k < length acc. \<bar>add_columns as bs i acc ! k\<bar> \<le> \<bar>acc ! k\<bar> + int (length (filter (\<lambda>a. a \<noteq> 0) as)))"
proof (induction as arbitrary: i acc)
  case (Cons a as)
  let ?acc = "if a = 0 then acc else add_row a bs i acc"
  let ?n = "\<lambda>as. int (length (filter (\<lambda>a. a \<noteq> (0 :: int)) as))"
  have r: "length ?acc = length acc" "bal_val ?acc = bal_val acc + 3 ^ i * (a * bal_val bs)"
    using add_row_facts [of i bs acc a] Cons.prems by auto
  have b: "\<bar>?acc ! k\<bar> \<le> \<bar>acc ! k\<bar> + (if a = 0 then 0 else 1)" if "k < length acc" for k
    using add_row_bound [of i bs acc a k] Cons.prems that by auto
  have "length (add_columns as bs (i + 1) ?acc) = length ?acc \<and>
    bal_val (add_columns as bs (i + 1) ?acc) = bal_val ?acc + 3 ^ (i + 1) * (bal_val as * bal_val bs) \<and>
    (\<forall>k < length ?acc. \<bar>add_columns as bs (i + 1) ?acc ! k\<bar> \<le> \<bar>?acc ! k\<bar> + ?n as)"
    using Cons.prems r(1) by (intro Cons.IH) simp_all
  then have h: "length (add_columns (a # as) bs i acc) = length acc"
    "bal_val (add_columns (a # as) bs i acc) = bal_val ?acc + 3 ^ (i + 1) * (bal_val as * bal_val bs)"
    "\<And>k. k < length acc \<Longrightarrow> \<bar>add_columns (a # as) bs i acc ! k\<bar> \<le> \<bar>?acc ! k\<bar> + ?n as"
    using r(1) by simp_all
  have "\<bar>add_columns (a # as) bs i acc ! k\<bar> \<le> \<bar>acc ! k\<bar> + ?n (a # as)" if "k < length acc" for k
    using h(3) [OF that] b [OF that] by (cases "a = 0") simp_all
  with h(1,2) r(2) show ?case by (auto simp: algebra_simps)
qed simp

lemma reference_mul54_facts:
  assumes "limb_ok 18 a" "limb_ok 18 b" "length (filter (\<lambda>t. t \<noteq> 0) (limb54_to_trits a)) \<le> 3"
  shows "limb_ok 18 (reference_mul54 a b)" "\<exists>d. tryte_val a * tryte_val b = tryte_val (reference_mul54 a b) + 27 ^ 18 * d"
proof -
  note ta = limb54_to_trits_facts [OF assms(1)] and tb = limb54_to_trits_facts [OF assms(2)]
  define acc where "acc = add_columns (limb54_to_trits a) (limb54_to_trits b) 0 (replicate (TRITS54 * 2) 0)"
  have c: "length acc = 108" "bal_val acc = tryte_val a * tryte_val b" "\<And>k. k < 108 \<Longrightarrow> \<bar>acc ! k\<bar> \<le> 3"
  proof -
    note f = add_columns_facts [of 0 "limb54_to_trits a" "limb54_to_trits b" "replicate (TRITS54 * 2) 0"]
    show "length acc = 108" "bal_val acc = tryte_val a * tryte_val b"
      using f ta tb by (simp_all add: acc_def TRITS54_def)
    show "\<bar>acc ! k\<bar> \<le> 3" if "k < 108" for k using f ta tb assms(3) that by (fastforce simp: acc_def TRITS54_def)
  qed
  define low where "low = take 54 acc"
  have l: "length low = 54" "list_all (\<lambda>t. \<bar>t\<bar> \<le> 3) low" using c by (simp_all add: low_def list_all_length)
  have "bal_val (low @ drop 54 acc) = bal_val low + 3 ^ length low * bal_val (drop 54 acc)" by (rule bal_val_append)
  then have v: "tryte_val a * tryte_val b = bal_val low + 27 ^ 18 * bal_val (drop 54 acc)"
    using c(2) l(1) unfolding low_def pow54 [symmetric] by simp
  let ?t = "fst (limit_carries low 0)"
  have t: "list_all valid_trit ?t" "length ?t = 54" "bal_val low = bal_val ?t + 27 ^ 18 * snd (limit_carries low 0)"
    using limit_carries_facts [OF l(2), of 0] l(1) unfolding pow54 [symmetric] by simp_all
  have r: "reference_mul54 a b = limb54_from_trits ?t"
    using settle_valid [OF t(1)] by (simp add: reference_mul54_def Let_def acc_def low_def TRITS54_def)
  note f = limb54_from_trits_facts [OF t(1,2)]
  show "limb_ok 18 (reference_mul54 a b)" using f r by simp
  have "tryte_val a * tryte_val b =
    tryte_val (reference_mul54 a b) + 27 ^ 18 * (snd (limit_carries low 0) + bal_val (drop 54 acc))"
    using v t(3) f r by (simp add: distrib_left)
  then show "\<exists>d. tryte_val a * tryte_val b = tryte_val (reference_mul54 a b) + 27 ^ 18 * d" by blast
qed

text \<open>The check of the recoded product against the reference makes its trits those of the reference.\<close>

lemma booth_mul54_trits: "limb54_to_trits (booth_mul54 a b) = limb54_to_trits (reference_mul54 a b)"
  by (simp add: booth_mul54_def Let_def)

end
