(* ===== verification/Properties_Limb.thy ===== *)
theory Properties_Limb
  imports T81_Limb54
begin

text \<open>
  Properties of the limbs of trytes (\<open>types/T81Limb.hpp\<close>).
\<close>

section \<open>Concrete limbs\<close>

text \<open>One times two by halves is 27, and 40 times 121 by columns leaves a tryte that no table has an entry for.\<close>

lemma karatsuba_wrong: "karatsuba (1 # replicate 17 0) (2 # replicate 17 0) = 0 # 1 # replicate 16 0"
  by code_simp

lemma reference_mul54_unsettled:
  "reference_mul54 (13 # 1 # replicate 16 0) (13 # 4 # replicate 16 0) = 7 # 17 # 6 # replicate 15 0"
  by code_simp

text \<open>Two digits of a factor are recoded as if three were one: one times three is one.\<close>

lemma booth_row_wrong: "booth_mul_partial54 (1 # replicate 17 0) (3 # replicate 17 0) 6 = 1 # replicate 17 0"
  by code_simp

section \<open>Properties\<close>

text \<open>
  C35: Addition of limbs is exact: the carry tree, although its passes run in place, yields for two limbs of 27, 48 or
  54 trits the limb and the carry that make up their sum.
\<close>

theorem limb_addition_exact:
  assumes "(add, n) \<in> {(limb27_addc, 9), (limb_addc, 16), (limb54_addc, 18)}"
    and "limb_ok n a" "limb_ok n b" "add a b = (r, c)"
  shows "limb_ok n r \<and> c \<in> {- 1, 0, 1} \<and> tryte_val a + tryte_val b = tryte_val r + 27 ^ n * c"
proof -
  obtain ds where "add a b = addc (1 # ds) a b" "list_all (\<lambda>d. 0 < d) ds"
    using assms(1) by (auto simp: limb27_addc_def limb_addc_def limb54_addc_def)
  with addc_facts [of a b ds r c] assms(2-4) show ?thesis by (auto simp: limb_ok_def)
qed

theorem limb_addition_exact_witness:
  "limb_ok 9 (- 13 # replicate 8 0) \<and> tryte_val (replicate 9 13) + tryte_val (1 # replicate 8 0) =
    tryte_val (- 13 # replicate 8 (- 13)) + 27 ^ 9 * 1"
proof -
  have a: "limb27_addc (replicate 9 13) (1 # replicate 8 0) = (- 13 # replicate 8 (- 13), 1)" by code_simp
  have l: "limb_ok 9 (replicate 9 13)" "limb_ok 9 (1 # replicate 8 0)" by code_simp+
  from limb_addition_exact [where n = 9 and add = limb27_addc, OF _ l a] show ?thesis by (simp add: limb_ok_def trytes_ok_def list_all_iff)
qed

text \<open>
  C36: The products of limbs of 48 trits agree and are exact: the two limbs of the wide product make up the product,
  and the operator, the recoded product and the product by shifts and additions all return the lower one.
\<close>

theorem limb_products_exact:
  assumes "limb_ok 16 a" "limb_ok 16 b" "mul_wide a b = (low, high)"
  shows "limb_ok 16 low \<and> limb_ok 16 high \<and> tryte_val low + 27 ^ 16 * tryte_val high = tryte_val a * tryte_val b \<and>
    limb_mul a b = low \<and> booth_mul a b = low \<and> reference_mul a b = low"
  using mul_wide_facts [OF assms] reference_mul_eq [OF assms(1,2)] assms(3)
  by (auto simp: limb_mul_def booth_mul_def mul_wide_def Let_def)

theorem limb_products_exact_witness:
  "reference_mul (13 # replicate 15 0) (- 13 # replicate 15 0) = - 7 # - 6 # replicate 14 0 \<and>
    tryte_val (- 7 # - 6 # replicate 14 0) + 27 ^ 16 * tryte_val (replicate 16 0) =
    tryte_val (13 # replicate 15 0) * tryte_val (- 13 # replicate 15 0)"
proof -
  have l: "limb_ok 16 (13 # replicate 15 0)" "limb_ok 16 (- 13 # replicate 15 0)" by code_simp+
  have m: "mul_wide (13 # replicate 15 0) (- 13 # replicate 15 0) = (- 7 # - 6 # replicate 14 0, replicate 16 0)" by code_simp
  from limb_products_exact [OF l m] show ?thesis by blast
qed



end
