(* ===== verification/T81_Lexer.thy ===== *)
theory T81_Lexer
  imports T81_Prelude "HOL-Library.Sublist"
begin

text \<open>
  The lexer of the language (\<open>frontend/lexer.hpp\<close>, \<open>lang/frontend/lexer.cpp\<close>).  The iterators into the source
  are offsets; lines and columns are integers (they are \<open>int\<close>, which suffices below two gigabytes).
\<close>

section \<open>Tokens\<close>

text \<open>The groups of the enumeration are datatypes of their own.\<close>

datatype keyword =
  KwModule | KwType | KwConst | KwExport | KwFn | KwLet | KwVar | KwRecord | KwEnum | KwIf | KwElse | KwFor | KwIn
| KwWhile | KwLoop | KwReflect | KwRecurse | KwDistributed | KwInfinite | KwInfer | KwTrain | KwBreak | KwContinue
| KwReturn | KwMatch | KwTrue | KwFalse

datatype type_keyword =
  TyVoid | TyBool | TyI32 | TyI16 | TyI8 | TyI2 | TyT81BigInt | TyT81Float | TyT81Fraction | TyT81Fixed
| TyT81Complex | TyT81Qutrit | TyT81Uint | TyT81String | TyT81Vector | TyMatrix | TyTensor | TyGraph
| TyList | TyMap | TySet | TyTree

datatype literal =
  LitInteger | LitFloat | LitString | LitTernary | LitBase81Integer | LitBase81Float | LitSymbol | LitInfinite

datatype operator =
  OpPlus | OpMinus | OpStar | OpStarStar | OpSlash | OpPercent | OpEqual | OpEqualEqual | OpBang | OpBangEqual
| OpLess | OpLessEqual | OpGreater | OpGreaterEqual | OpAmp | OpAmpAmp | OpPipe | OpPipePipe | OpCaret | OpTilde
| OpQuestion | OpLessLess | OpGreaterGreater | OpGreaterGreaterGreater

datatype punctuation =
  LParen | RParen | LBrace | RBrace | LBracket | RBracket | Comma | Colon | Semicolon | Arrow | FatArrow | DotDot | Dot

datatype token_type =
  Keyword keyword | TypeKeyword type_keyword | Literal literal | Identifier | Operator operator
| Punctuation punctuation | AtSign | Eof | Illegal

record token =
  ttype :: token_type
  lexeme :: string
  tline :: int
  tcolumn :: int

record lexer =
  source :: string
  current :: nat
  line_start :: nat
  token_start :: nat
  lline :: int

definition lex_keywords :: "(string \<times> token_type) list" where
  "lex_keywords = [
    (''module'', Keyword KwModule), (''type'', Keyword KwType), (''const'', Keyword KwConst), (''export'', Keyword KwExport), (''fn'', Keyword KwFn),
    (''let'', Keyword KwLet), (''var'', Keyword KwVar), (''if'', Keyword KwIf), (''else'', Keyword KwElse), (''for'', Keyword KwFor), (''in'', Keyword KwIn),
    (''while'', Keyword KwWhile), (''loop'', Keyword KwLoop), (''reflect'', Keyword KwReflect), (''recurse'', Keyword KwRecurse),
    (''distributed'', Keyword KwDistributed), (''infinite'', Keyword KwInfinite), (''infer'', Keyword KwInfer), (''train'', Keyword KwTrain),
    (''record'', Keyword KwRecord), (''enum'', Keyword KwEnum), (''break'', Keyword KwBreak), (''continue'', Keyword KwContinue),
    (''return'', Keyword KwReturn), (''match'', Keyword KwMatch), (''true'', Keyword KwTrue), (''false'', Keyword KwFalse), (''void'', TypeKeyword TyVoid),
    (''bool'', TypeKeyword TyBool), (''i32'', TypeKeyword TyI32), (''i16'', TypeKeyword TyI16), (''i8'', TypeKeyword TyI8), (''i2'', TypeKeyword TyI2),
    (''T81BigInt'', TypeKeyword TyT81BigInt), (''T81Float'', TypeKeyword TyT81Float), (''T81Fraction'', TypeKeyword TyT81Fraction),
    (''T81Fixed'', TypeKeyword TyT81Fixed), (''T81Complex'', TypeKeyword TyT81Complex), (''T81Qutrit'', TypeKeyword TyT81Qutrit),
    (''T81Uint'', TypeKeyword TyT81Uint), (''T81String'', Literal LitString), (''T81Vector'', TypeKeyword TyT81Vector), (''matrix'', TypeKeyword TyMatrix),
    (''tensor'', TypeKeyword TyTensor), (''graph'', TypeKeyword TyGraph), (''list'', TypeKeyword TyList), (''map'', TypeKeyword TyMap), (''set'', TypeKeyword TySet), (''tree'', TypeKeyword TyTree)]"

definition is_alpha :: "char \<Rightarrow> bool" where
  "is_alpha c \<longleftrightarrow> (let n = of_char c :: nat in 97 \<le> n \<and> n \<le> 122 \<or> 65 \<le> n \<and> n \<le> 90 \<or> c = CHR ''_'')"

definition is_digit :: "char \<Rightarrow> bool" where
  "is_digit c \<longleftrightarrow> (let n = of_char c :: nat in 48 \<le> n \<and> n \<le> 57)"

abbreviation newline :: char where "newline \<equiv> CHR 0x0A"
abbreviation nul :: char where "nul \<equiv> CHR 0x00"

section \<open>The cursor\<close>

definition init_lexer :: "string \<Rightarrow> lexer" where
  "init_lexer src = \<lparr>source = src, current = 0, line_start = 0, token_start = 0, lline = 1\<rparr>"

text \<open>The cursor never passes the end (invariant \<open>well_placed\<close>), where \<open>==\<close> and \<open>>=\<close> agree.\<close>

definition is_at_end :: "lexer \<Rightarrow> bool" where
  "is_at_end s \<longleftrightarrow> length (source s) \<le> current s"

definition lpeek :: "lexer \<Rightarrow> char" where
  "lpeek s = (if is_at_end s then nul else source s ! current s)"

definition peek_next :: "lexer \<Rightarrow> char" where
  "peek_next s = (if length (source s) \<le> current s + 1 then nul else source s ! (current s + 1))"

definition advance :: "lexer \<Rightarrow> lexer" where
  "advance s = (if is_at_end s then s else s\<lparr>current := current s + 1\<rparr>)"

definition match_char :: "char \<Rightarrow> lexer \<Rightarrow> bool \<times> lexer" where
  "match_char c s = (if is_at_end s \<or> source s ! current s \<noteq> c then (False, s) else (True, s\<lparr>current := current s + 1\<rparr>))"

definition lexeme_text :: "lexer \<Rightarrow> string" where
  "lexeme_text s = take (current s - token_start s) (drop (token_start s) (source s))"

definition make_token :: "token_type \<Rightarrow> lexer \<Rightarrow> token \<times> lexer" where
  "make_token ty s =
     (\<lparr>ttype = ty, lexeme = lexeme_text s, tline = lline s, tcolumn = int (token_start s) - int (line_start s) + 1\<rparr>, s)"

definition error_token :: "string \<Rightarrow> lexer \<Rightarrow> token \<times> lexer" where
  "error_token msg s =
     (\<lparr>ttype = Illegal, lexeme = msg, tline = lline s, tcolumn = int (token_start s) - int (line_start s) + 1\<rparr>, s)"

definition remaining :: "lexer \<Rightarrow> nat" where
  "remaining s = length (source s) - current s"

definition well_placed :: "lexer \<Rightarrow> bool" where
  "well_placed s \<longleftrightarrow> current s \<le> length (source s)"

lemma advance_remaining: "\<not> is_at_end s \<Longrightarrow> remaining (advance s) < remaining s"
  by (auto simp: remaining_def advance_def is_at_end_def)

lemma lpeek_not_end: "lpeek s \<noteq> nul \<Longrightarrow> \<not> is_at_end s"
  by (auto simp: lpeek_def)

lemma char_classes [simp]: "\<not> is_digit nul" "\<not> is_alpha nul"
  by (simp_all add: is_digit_def is_alpha_def)

section \<open>Scanning\<close>

function skip_digits :: "lexer \<Rightarrow> lexer" where
  "skip_digits s = (if is_digit (lpeek s) then skip_digits (advance s) else s)"
  by auto
termination
  by (relation "measure remaining") (auto intro!: advance_remaining lpeek_not_end)

function skip_word :: "lexer \<Rightarrow> lexer" where
  "skip_word s = (if is_alpha (lpeek s) \<or> is_digit (lpeek s) then skip_word (advance s) else s)"
  by auto
termination
  by (relation "measure remaining") (auto intro!: advance_remaining lpeek_not_end)

function string_loop :: "lexer \<Rightarrow> lexer" where
  "string_loop s =
     (if lpeek s \<noteq> CHR 0x22 \<and> \<not> is_at_end s
      then let s = (if lpeek s = newline then s\<lparr>lline := lline s + 1, line_start := current s + 1\<rparr> else s)
           in string_loop (advance s)
      else s)"
  by auto
termination
proof (relation "measure remaining")
  fix s x assume "lpeek s \<noteq> CHR 0x22 \<and> \<not> is_at_end s"
    "x = (if lpeek s = newline then s\<lparr>lline := lline s + 1, line_start := current s + 1\<rparr> else s)"
  then show "(advance x, s) \<in> measure remaining" by (auto simp: remaining_def advance_def is_at_end_def)
qed simp

function skip_line :: "lexer \<Rightarrow> lexer" where
  "skip_line s = (if lpeek s \<noteq> newline \<and> \<not> is_at_end s then skip_line (advance s) else s)"
  by auto
termination
  by (relation "measure remaining") (auto intro!: advance_remaining)

text \<open>A character is read before the cursor moves over it.\<close>

function comment_loop :: "lexer \<Rightarrow> lexer" where
  "comment_loop s =
     (if \<not> (lpeek s = CHR ''*'' \<and> peek_next s = CHR ''/'') \<and> \<not> is_at_end s
      then let c = lpeek s; s = advance s
           in comment_loop (if c = newline then s\<lparr>lline := lline s + 1, line_start := current s\<rparr> else s)
      else s)"
  by auto
termination
proof (relation "measure remaining")
  fix s c x assume "\<not> (lpeek s = CHR ''*'' \<and> peek_next s = CHR ''/'') \<and> \<not> is_at_end s" "x = advance s"
  then show "(if c = newline then x\<lparr>lline := lline x + 1, line_start := current x\<rparr> else x, s) \<in> measure remaining"
    by (auto simp: remaining_def advance_def is_at_end_def)
qed simp

declare skip_digits.simps [simp del] skip_word.simps [simp del] string_loop.simps [simp del] skip_line.simps [simp del]
  comment_loop.simps [simp del]

text \<open>The two conditional advances after a block comment, which move nothing at the end.\<close>

definition block_comment :: "lexer \<Rightarrow> lexer" where
  "block_comment s = advance (advance (comment_loop (advance (advance s))))"

section \<open>The cursor only moves forward\<close>

definition onward :: "lexer \<Rightarrow> lexer \<Rightarrow> bool" where
  "onward s s' \<longleftrightarrow> source s' = source s \<and> token_start s' = token_start s \<and> current s \<le> current s' \<and>
     (current s \<le> length (source s) \<longrightarrow> current s' \<le> length (source s))"

lemma onward_refl [simp]: "onward s s"
  by (simp add: onward_def)

lemma onward_trans: "onward s s' \<Longrightarrow> onward s' s'' \<Longrightarrow> onward s s''"
  by (auto simp: onward_def)

lemma onward_line [simp]: "onward s (s'\<lparr>lline := l, line_start := n\<rparr>) = onward s s'" "onward (s\<lparr>lline := l, line_start := n\<rparr>) s' = onward s s'"
  by (simp_all add: onward_def)

lemma onward_advance [simp]: "onward s (advance s)"
  by (simp add: onward_def advance_def is_at_end_def)

lemma onward_loops: "onward s (skip_digits s)" "onward s (skip_word s)" "onward s (string_loop s)" "onward s (skip_line s)"
  "onward s (comment_loop s)"
proof -
  show "onward s (skip_digits s)"
  proof (induction s rule: skip_digits.induct)
    case (1 s) then show ?case by (subst skip_digits.simps) (auto intro: onward_trans [OF onward_advance])
  qed
  show "onward s (skip_word s)"
  proof (induction s rule: skip_word.induct)
    case (1 s) then show ?case by (subst skip_word.simps) (auto intro: onward_trans [OF onward_advance])
  qed
  show "onward s (string_loop s)"
  proof (induction s rule: string_loop.induct)
    case (1 s)
    define x where "x = (if lpeek s = newline then s\<lparr>lline := lline s + 1, line_start := current s + 1\<rparr> else s)"
    have "onward s (advance x)" by (auto simp: x_def intro: onward_trans [OF _ onward_advance])
    with 1 [OF _ x_def] show ?case by (subst string_loop.simps) (auto simp: Let_def x_def intro: onward_trans)
  qed
  show "onward s (skip_line s)"
  proof (induction s rule: skip_line.induct)
    case (1 s) then show ?case by (subst skip_line.simps) (auto intro: onward_trans [OF onward_advance])
  qed
  show "onward s (comment_loop s)"
  proof (induction s rule: comment_loop.induct)
    case (1 s)
    define x where "x = (if lpeek s = newline then (advance s)\<lparr>lline := lline (advance s) + 1, line_start := current (advance s)\<rparr> else advance s)"
    have "onward s x" by (simp add: x_def)
    with 1 [OF _ refl refl] show ?case by (subst comment_loop.simps) (auto simp: Let_def x_def intro: onward_trans)
  qed
qed

lemma onward_block: "onward (advance s) (block_comment s)"
  unfolding block_comment_def
  by (rule onward_trans [OF onward_trans [OF onward_trans [OF onward_advance onward_loops(5)] onward_advance] onward_advance])

lemma onward_skip_line: "lpeek s \<noteq> newline \<Longrightarrow> \<not> is_at_end s \<Longrightarrow> onward (advance s) (skip_line s)"
  by (subst skip_line.simps) (simp add: onward_loops)

lemma onward_remaining: "onward s s' \<Longrightarrow> remaining s' \<le> remaining s"
  by (auto simp: onward_def remaining_def)

lemma onward_less: "\<not> is_at_end s \<Longrightarrow> onward (advance s) s' \<Longrightarrow> remaining s' < remaining s"
  using advance_remaining onward_remaining by fastforce

section \<open>Blanks\<close>

text \<open>One round of the loop, \<open>None\<close> where it returns.\<close>

definition blank_step :: "lexer \<Rightarrow> lexer option" where
  "blank_step s =
     (let c = lpeek s in
      if c = CHR '' '' \<or> c = CHR 0x0D \<or> c = CHR 0x09 then Some (advance s)
      else if c = newline then let s = advance (s\<lparr>lline := lline s + 1\<rparr>) in Some (s\<lparr>line_start := current s\<rparr>)
      else if c = CHR ''/'' then
        if peek_next s = CHR ''/'' then Some (skip_line s)
        else if peek_next s = CHR ''*'' then Some (block_comment s)
        else None
      else None)"

lemma blank_stepE:
  assumes "blank_step s = Some s'"
  obtains "lpeek s = CHR '' '' \<or> lpeek s = CHR 0x0D \<or> lpeek s = CHR 0x09" "s' = advance s"
  | "lpeek s = newline" "s' = (advance s)\<lparr>lline := lline s + 1, line_start := current (advance s)\<rparr>"
  | "lpeek s = CHR ''/''" "peek_next s = CHR ''/''" "s' = skip_line s"
  | "lpeek s = CHR ''/''" "peek_next s = CHR ''*''" "s' = block_comment s"
proof -
  have "advance (s\<lparr>lline := l\<rparr>) = (advance s)\<lparr>lline := l\<rparr>" for l by (simp add: advance_def is_at_end_def)
  with assms that show thesis by (auto simp: blank_step_def Let_def split: if_splits)
qed

lemma blank_step_onward:
  assumes "blank_step s = Some s'"
  shows "\<not> is_at_end s \<and> onward (advance s) s'"
proof -
  have "\<not> is_at_end s" using assms by (elim blank_stepE) (auto intro!: lpeek_not_end)
  with assms show ?thesis by (elim blank_stepE) (simp_all add: onward_block onward_skip_line)
qed

function skip_blanks :: "lexer \<Rightarrow> lexer" where
  "skip_blanks s = (case blank_step s of None \<Rightarrow> s | Some s \<Rightarrow> skip_blanks s)"
  by auto
termination
  by (relation "measure remaining") (auto dest!: blank_step_onward intro: onward_less)

lemma skip_blanks_induct:
  assumes "\<And>s. blank_step s = None \<Longrightarrow> P s s"
    "\<And>s s'. blank_step s = Some s' \<Longrightarrow> P s' (skip_blanks s') \<Longrightarrow> P s (skip_blanks s')"
  shows "P s (skip_blanks s)"
proof (induction s rule: skip_blanks.induct)
  case (1 s)
  with assms show ?case by (cases "blank_step s") (subst skip_blanks.simps, simp)+
qed

declare skip_blanks.simps [simp del]

section \<open>Tokens from the source\<close>

definition lex_string :: "lexer \<Rightarrow> token \<times> lexer" where
  "lex_string s =
     (let s = string_loop s
      in if is_at_end s then error_token ''Unterminated string.'' s else make_token (Literal LitString) (advance s))"

text \<open>The fraction and the exponent of a number, with the flag \<open>is_float_literal\<close>.\<close>

definition scan_fraction :: "lexer \<Rightarrow> bool \<times> lexer" where
  "scan_fraction s =
     (if lpeek s = CHR ''.'' \<and> is_digit (peek_next s) then (True, skip_digits (advance s)) else (False, s))"

definition scan_exponent :: "bool \<Rightarrow> lexer \<Rightarrow> bool \<times> lexer" where
  "scan_exponent fl s =
     (if lpeek s = CHR ''e'' \<or> lpeek s = CHR ''E''
      then (True, let nxt = peek_next s
                  in if nxt = CHR ''+'' \<or> nxt = CHR ''-'' then skip_digits (advance (advance s))
                     else if is_digit nxt then skip_digits (advance s) else s)
      else (fl, s))"

definition lex_number :: "lexer \<Rightarrow> token \<times> lexer" where
  "lex_number s =
     (let (fl, s) = scan_fraction (skip_digits s); (fl, s) = scan_exponent fl s
      in if lpeek s = CHR ''t'' \<and> peek_next s = CHR ''8'' \<and> current s + 2 < length (source s) \<and> source s ! (current s + 2) = CHR ''1''
         then make_token (Literal (if fl then LitBase81Float else LitBase81Integer)) (advance (advance (advance s)))
         else make_token (Literal (if fl then LitFloat else LitInteger)) s)"

definition lex_identifier :: "lexer \<Rightarrow> token \<times> lexer" where
  "lex_identifier s =
     (let s = skip_word s
      in case map_of lex_keywords (lexeme_text s) of Some ty \<Rightarrow> make_token ty s | None \<Rightarrow> make_token Identifier s)"

definition lex_symbol :: "lexer \<Rightarrow> token \<times> lexer" where
  "lex_symbol s = (if is_alpha (lpeek s) then make_token (Literal LitSymbol) (skip_word s) else make_token (Punctuation Colon) s)"

text \<open>\<open>match (c) ? a : b\<close>.\<close>

definition either :: "char \<Rightarrow> token_type \<Rightarrow> token_type \<Rightarrow> lexer \<Rightarrow> token \<times> lexer" where
  "either c a b s = (let (m, s) = match_char c s in make_token (if m then a else b) s)"

definition lex_mark :: "char \<Rightarrow> lexer \<Rightarrow> token \<times> lexer" where
  "lex_mark c s =
     (if c = CHR '':'' then lex_symbol s
      else if c = CHR ''('' then make_token (Punctuation LParen) s
      else if c = CHR '')'' then make_token (Punctuation RParen) s
      else if c = CHR ''{'' then make_token (Punctuation LBrace) s
      else if c = CHR ''}'' then make_token (Punctuation RBrace) s
      else if c = CHR ''['' then make_token (Punctuation LBracket) s
      else if c = CHR '']'' then make_token (Punctuation RBracket) s
      else if c = CHR '','' then make_token (Punctuation Comma) s
      else if c = CHR '';'' then make_token (Punctuation Semicolon) s
      else if c = CHR ''@'' then make_token AtSign s
      else if c = CHR ''?'' then make_token (Operator OpQuestion) s
      else if c = CHR ''+'' then make_token (Operator OpPlus) s
      else if c = CHR ''*'' then either (CHR ''*'') (Operator OpStarStar) (Operator OpStar) s
      else if c = CHR ''%'' then make_token (Operator OpPercent) s
      else if c = CHR ''^'' then make_token (Operator OpCaret) s
      else if c = CHR ''~'' then make_token (Operator OpTilde) s
      else if c = CHR ''/'' then make_token (Operator OpSlash) s
      else if c = CHR ''-'' then either (CHR ''>'') (Punctuation Arrow) (Operator OpMinus) s
      else if c = CHR ''.'' then either (CHR ''.'') (Punctuation DotDot) (Punctuation Dot) s
      else if c = CHR ''='' then
        (let (m, s) = match_char (CHR ''>'') s
         in if m then make_token (Punctuation FatArrow) s else either (CHR ''='') (Operator OpEqualEqual) (Operator OpEqual) s)
      else if c = CHR ''!'' then either (CHR ''='') (Operator OpBangEqual) (Operator OpBang) s
      else if c = CHR ''<'' then
        (let (m, s) = match_char (CHR ''<'') s
         in if m then make_token (Operator OpLessLess) s else either (CHR ''='') (Operator OpLessEqual) (Operator OpLess) s)
      else if c = CHR ''>'' then
        (let (m, s) = match_char (CHR ''>'') s
         in if m then either (CHR ''>'') (Operator OpGreaterGreaterGreater) (Operator OpGreaterGreater) s
            else either (CHR ''='') (Operator OpGreaterEqual) (Operator OpGreater) s)
      else if c = CHR ''&'' then either (CHR ''&'') (Operator OpAmpAmp) (Operator OpAmp) s
      else if c = CHR ''|'' then either (CHR ''|'') (Operator OpPipePipe) (Operator OpPipe) s
      else if c = CHR 0x22 then lex_string s
      else error_token ''Unexpected character.'' s)"

text \<open>The token that begins with \<open>c\<close>, over which the cursor has moved.\<close>

definition lex_from :: "char \<Rightarrow> lexer \<Rightarrow> token \<times> lexer" where
  "lex_from c s =
     (if c = CHR 0xE2 \<and> lpeek s = CHR 0x88 \<and> peek_next s = CHR 0x9E
      then make_token (Literal LitInfinite) (advance (advance s))
      else if is_alpha c then lex_identifier s
      else if is_digit c then lex_number s
      else lex_mark c s)"

definition next_token :: "lexer \<Rightarrow> token \<times> lexer" where
  "next_token s =
     (let s = skip_blanks s; s = s\<lparr>token_start := current s\<rparr>
      in if is_at_end s then make_token Eof s else lex_from (lpeek s) (advance s))"

definition peek_next_token :: "lexer \<Rightarrow> token \<times> lexer" where
  "peek_next_token s =
     (let (t, s') = next_token s
      in (t, s'\<lparr>current := current s, lline := lline s, line_start := line_start s, token_start := token_start s\<rparr>))"

section \<open>Lines\<close>

text \<open>Where the line begins that follows a text, and the invariant of the cursor.\<close>

definition line_begin :: "string \<Rightarrow> nat" where
  "line_begin xs = length xs - length (takeWhile (\<lambda>c. c \<noteq> newline) (rev xs))"

definition lined :: "lexer \<Rightarrow> bool" where
  "lined s \<longleftrightarrow> current s \<le> length (source s) \<and>
     lline s = 1 + int (count_list (take (current s) (source s)) newline) \<and>
     line_start s = line_begin (take (current s) (source s))"

lemma line_begin_simps [simp]: "line_begin [] = 0"
  "line_begin (xs @ [c]) = (if c = newline then length xs + 1 else line_begin xs)"
  by (simp_all add: line_begin_def)

lemma lined_advance: "lined s \<Longrightarrow> lpeek s \<noteq> newline \<Longrightarrow> lined (advance s)"
  by (auto simp: lined_def advance_def is_at_end_def lpeek_def take_Suc_conv_app_nth split: if_splits)

lemma lined_newline:
  assumes "lined s" "lpeek s = newline"
  shows "lined ((advance s)\<lparr>lline := lline s + 1, line_start := current s + 1\<rparr>)"
proof -
  have "\<not> is_at_end s" using assms(2) by (intro lpeek_not_end) simp
  with assms show ?thesis by (auto simp: lined_def advance_def is_at_end_def lpeek_def take_Suc_conv_app_nth)
qed

lemma advance_fields [simp]:
  "lline (advance s) = lline s" "line_start (advance s) = line_start s" "source (advance s) = source s"
  "token_start (advance s) = token_start s"
  "advance (s\<lparr>lline := l\<rparr>) = (advance s)\<lparr>lline := l\<rparr>" "advance (s\<lparr>line_start := n\<rparr>) = (advance s)\<lparr>line_start := n\<rparr>"
  by (simp_all add: advance_def is_at_end_def)

lemma current_advance: "\<not> is_at_end s \<Longrightarrow> current (advance s) = current s + 1"
  by (simp add: advance_def)

lemma lined_token_start [simp]: "lined (s\<lparr>token_start := n\<rparr>) = lined s"
  by (simp add: lined_def)

lemma class_not_newline: "is_digit c \<Longrightarrow> c \<noteq> newline" "is_alpha c \<Longrightarrow> c \<noteq> newline"
  by (auto simp: is_digit_def is_alpha_def)

lemma lined_loops:
  "lined s \<Longrightarrow> lined (skip_digits s)" "lined s \<Longrightarrow> lined (skip_word s)" "lined s \<Longrightarrow> lined (skip_line s)"
  "lined s \<Longrightarrow> lined (string_loop s)" "lined s \<Longrightarrow> lined (comment_loop s)"
proof -
  show "lined s \<Longrightarrow> lined (skip_digits s)"
  proof (induction s rule: skip_digits.induct)
    case (1 s) then show ?case by (subst skip_digits.simps) (auto simp: lined_advance class_not_newline)
  qed
  show "lined s \<Longrightarrow> lined (skip_word s)"
  proof (induction s rule: skip_word.induct)
    case (1 s) then show ?case by (subst skip_word.simps) (auto simp: lined_advance class_not_newline)
  qed
  show "lined s \<Longrightarrow> lined (skip_line s)"
  proof (induction s rule: skip_line.induct)
    case (1 s) then show ?case by (subst skip_line.simps) (auto simp: lined_advance)
  qed
  show "lined s \<Longrightarrow> lined (string_loop s)"
  proof (induction s rule: string_loop.induct)
    case (1 s)
    define x where "x = (if lpeek s = newline then s\<lparr>lline := lline s + 1, line_start := current s + 1\<rparr> else s)"
    have "lined (advance x)" if "\<not> is_at_end s"
      using lined_advance [OF 1(2)] lined_newline [OF 1(2)] by (auto simp: x_def)
    with 1(1) [OF _ x_def] 1(2) show ?case by (subst string_loop.simps) (auto simp: Let_def x_def)
  qed
  show "lined s \<Longrightarrow> lined (comment_loop s)"
  proof (induction s rule: comment_loop.induct)
    case (1 s)
    let ?x = "if lpeek s = newline then (advance s)\<lparr>lline := lline (advance s) + 1, line_start := current (advance s)\<rparr> else advance s"
    have "lined ?x" if "\<not> is_at_end s"
      using lined_advance [OF 1(2)] lined_newline [OF 1(2)] that by (auto simp: current_advance)
    with 1(1) [OF _ refl refl] 1(2) show ?case by (subst comment_loop.simps) (auto simp: Let_def)
  qed
qed

lemma peek_next_advance: "\<not> is_at_end s \<Longrightarrow> lpeek (advance s) = peek_next s"
  by (auto simp: lpeek_def peek_next_def advance_def is_at_end_def)

lemma comment_loop_stop: "is_at_end (comment_loop s) \<or> lpeek (comment_loop s) = CHR ''*'' \<and> peek_next (comment_loop s) = CHR ''/''"
proof (induction s rule: comment_loop.induct)
  case (1 s)
  from 1 [OF _ refl refl] show ?case
    by (cases "\<not> (lpeek s = CHR ''*'' \<and> peek_next s = CHR ''/'') \<and> \<not> is_at_end s")
      (simp_all add: comment_loop.simps [of s] Let_def, blast)
qed

lemma advance_end [simp]: "is_at_end s \<Longrightarrow> advance s = s"
  by (simp add: advance_def)

lemma lined_block:
  assumes "lined s" "lpeek s = CHR ''/''" "peek_next s = CHR ''*''"
  shows "lined (block_comment s)"
proof -
  have "\<not> is_at_end s" using assms(2) by (intro lpeek_not_end) simp
  with assms have "lined (advance (advance s))" by (intro lined_advance) (simp_all add: peek_next_advance)
  then have l: "lined (comment_loop (advance (advance s)))" (is "lined ?s") by (rule lined_loops)
  show ?thesis
  proof (cases "is_at_end ?s")
    case True
    with l show ?thesis by (simp add: block_comment_def)
  next
    case False
    with comment_loop_stop [of "advance (advance s)"] have "lpeek ?s = CHR ''*''" "peek_next ?s = CHR ''/''" by auto
    with l False show ?thesis unfolding block_comment_def by (intro lined_advance) (simp_all add: peek_next_advance)
  qed
qed

lemma lined_blanks: "lined s \<longrightarrow> lined (skip_blanks s)"
proof (rule skip_blanks_induct)
  fix s s' assume b: "blank_step s = Some s'" and i: "lined s' \<longrightarrow> lined (skip_blanks s')"
  have "lined s'" if l: "lined s"
    using b
  proof (cases rule: blank_stepE)
    case 2
    have "\<not> is_at_end s" using 2(1) by (intro lpeek_not_end) simp
    with lined_newline [OF l 2(1)] 2(2) show ?thesis by (simp add: current_advance)
  qed (use l in \<open>auto simp: lined_advance lined_loops lined_block\<close>)
  with i show "lined s \<longrightarrow> lined (skip_blanks s')" by blast
qed simp

lemma onward_blanks: "onward s (skip_blanks s)"
proof (rule skip_blanks_induct)
  fix s s' assume "blank_step s = Some s'" "onward s' (skip_blanks s')"
  then show "onward s (skip_blanks s')" using blank_step_onward onward_advance onward_trans by blast
qed simp

text \<open>The blanks end before something that is no blank.\<close>

lemma skip_blanks_stop: "blank_step (skip_blanks s) = None"
  by (rule skip_blanks_induct [of "\<lambda>s s'. blank_step s' = None"])

section \<open>One token\<close>

text \<open>What a scanner returns when it starts after the first character of a token.\<close>

definition emits :: "lexer \<Rightarrow> token \<times> lexer \<Rightarrow> bool" where
  "emits s r \<longleftrightarrow> (case r of (t, s') \<Rightarrow> onward s s' \<and> (lined s \<longrightarrow> lined s') \<and> ttype t \<noteq> Eof \<and>
     tline t = lline s' \<and> tcolumn t = int (token_start s') - int (line_start s') + 1 \<and>
     (if ttype t = Illegal then lexeme t = ''Unexpected character.'' \<or> lexeme t = ''Unterminated string.''
      else lexeme t = lexeme_text s'))"

lemma emits_make: "onward s s' \<Longrightarrow> (lined s \<Longrightarrow> lined s') \<Longrightarrow> ty \<noteq> Eof \<Longrightarrow> ty \<noteq> Illegal \<Longrightarrow> emits s (make_token ty s')"
  by (simp add: emits_def make_token_def)

lemma emits_error: "onward s s' \<Longrightarrow> (lined s \<Longrightarrow> lined s') \<Longrightarrow>
    msg = ''Unexpected character.'' \<or> msg = ''Unterminated string.'' \<Longrightarrow> emits s (error_token msg s')"
  by (auto simp: emits_def error_token_def)

lemma emits_here: "ty \<noteq> Eof \<Longrightarrow> ty \<noteq> Illegal \<Longrightarrow> emits s (make_token ty s)"
  by (rule emits_make) simp_all

lemma emits_trans: "onward s s' \<Longrightarrow> (lined s \<Longrightarrow> lined s') \<Longrightarrow> emits s' r \<Longrightarrow> emits s r"
  by (auto simp: emits_def dest: onward_trans)

lemma match_char_facts:
  assumes "match_char c s = (m, s')" "c \<noteq> newline"
  shows "onward s s'" "lined s \<Longrightarrow> lined s'"
proof -
  have "s' = s \<or> \<not> is_at_end s \<and> source s ! current s = c \<and> s' = advance s"
    using assms(1) by (auto simp: match_char_def advance_def split: if_splits)
  then show "onward s s'" "lined s \<Longrightarrow> lined s'"
    using lined_advance [of s] assms(2) by (auto simp: lpeek_def)
qed

lemma emits_either: "c \<noteq> newline \<Longrightarrow> a \<noteq> Eof \<Longrightarrow> a \<noteq> Illegal \<Longrightarrow> b \<noteq> Eof \<Longrightarrow> b \<noteq> Illegal \<Longrightarrow> emits s (either c a b s)"
  by (auto simp: either_def match_char_facts split: prod.split intro!: emits_make)

lemma emits_match:
  assumes "c \<noteq> newline" "\<And>s'. emits s' (f s')" "\<And>s'. emits s' (g s')"
  shows "emits s (let (m, s) = match_char c s in if m then f s else g s)"
proof -
  obtain m s' where m: "match_char c s = (m, s')" by fastforce
  note f = match_char_facts [OF m assms(1)]
  have "emits s' (if m then f s' else g s')" using assms(2,3) by simp
  with emits_trans [OF f] m show ?thesis by (simp add: Let_def)
qed

lemma emits_if: "(b \<Longrightarrow> emits s x) \<Longrightarrow> (\<not> b \<Longrightarrow> emits s y) \<Longrightarrow> emits s (if b then x else y)"
  by simp

lemma emits_string: "emits s (lex_string s)"
proof (cases "is_at_end (string_loop s)")
  case True
  then show ?thesis by (simp add: lex_string_def Let_def emits_error onward_loops lined_loops)
next
  case False
  have "lpeek (string_loop s) = CHR 0x22 \<or> is_at_end (string_loop s)"
  proof (induction s rule: string_loop.induct)
    case (1 s) then show ?case by (subst (1 2) string_loop.simps) (auto simp: Let_def)
  qed
  with False have "lined s \<Longrightarrow> lined (advance (string_loop s))" by (intro lined_advance lined_loops) auto
  with False onward_trans [OF onward_loops(3) onward_advance] show ?thesis
    by (simp add: lex_string_def Let_def emits_make)
qed

lemma emits_symbol: "emits s (lex_symbol s)"
  by (auto simp: lex_symbol_def intro!: emits_make emits_here onward_loops lined_loops)

lemma keyword_types: "map_of lex_keywords w = Some ty \<Longrightarrow> ty \<noteq> Eof \<and> ty \<noteq> Illegal"
proof -
  assume "map_of lex_keywords w = Some ty"
  then have "(w, ty) \<in> set lex_keywords" by (rule map_of_SomeD)
  moreover have "list_all (\<lambda>(w, ty). ty \<noteq> Eof \<and> ty \<noteq> Illegal) lex_keywords" by code_simp
  ultimately show ?thesis by (auto simp: list_all_iff)
qed

lemma emits_identifier: "emits s (lex_identifier s)"
  using keyword_types
  by (auto simp: lex_identifier_def Let_def split: option.split intro!: emits_make onward_loops lined_loops)

lemma emits_mark: "emits s (lex_mark c s)"
  unfolding lex_mark_def
  by (intro emits_if emits_string emits_symbol emits_here emits_either emits_match emits_error) simp_all

text \<open>A cursor that moves over characters other than the newline.\<close>

definition glides :: "lexer \<Rightarrow> lexer \<Rightarrow> bool" where
  "glides s s' \<longleftrightarrow> onward s s' \<and> (lined s \<longrightarrow> lined s')"

lemma glides_simps [simp]: "glides s s" "glides s (skip_digits s)" "glides s (skip_word s)"
  by (simp_all add: glides_def onward_loops lined_loops)

lemma glides_trans: "glides s s' \<Longrightarrow> glides s' s'' \<Longrightarrow> glides s s''"
  by (auto simp: glides_def dest: onward_trans)

lemma glides_advance: "lpeek s \<noteq> newline \<Longrightarrow> glides s (advance s)"
  by (simp add: glides_def lined_advance)

lemma glides_advance2: "lpeek s \<noteq> newline \<Longrightarrow> lpeek s \<noteq> nul \<Longrightarrow> peek_next s \<noteq> newline \<Longrightarrow> glides s (advance (advance s))"
  using glides_advance [of s] glides_advance [of "advance s"] peek_next_advance [of s] lpeek_not_end [of s]
  by (auto intro: glides_trans)

lemma emits_glide: "glides s s' \<Longrightarrow> ty \<noteq> Eof \<Longrightarrow> ty \<noteq> Illegal \<Longrightarrow> emits s (make_token ty s')"
  by (simp add: glides_def emits_make)

lemma glides_number_parts:
  "scan_fraction s = (fl, s') \<Longrightarrow> glides s s'" "scan_exponent fl' s = (fl, s') \<Longrightarrow> glides s s'"
  using glides_trans [OF glides_advance glides_simps(2)] glides_trans [OF glides_advance2 glides_simps(2)]
  by (auto simp: scan_fraction_def scan_exponent_def Let_def split: if_splits)

lemma glides_suffix:
  assumes "lpeek s = CHR ''t''" "peek_next s = CHR ''8''" "current s + 2 < length (source s)" "source s ! (current s + 2) = CHR ''1''"
  shows "glides s (advance (advance (advance s)))"
proof -
  have "glides s (advance (advance s))" using assms(1,2) by (intro glides_advance2) simp_all
  moreover have "lpeek (advance (advance s)) = CHR ''1''" using assms(3,4) by (simp add: lpeek_def advance_def is_at_end_def)
  then have "glides (advance (advance s)) (advance (advance (advance s)))" by (intro glides_advance) simp
  ultimately show ?thesis by (rule glides_trans)
qed

lemma emits_number: "emits s (lex_number s)"
proof -
  obtain fl s2 where s2: "scan_fraction (skip_digits s) = (fl, s2)" by fastforce
  obtain fl' s3 where s3: "scan_exponent fl s2 = (fl', s3)" by fastforce
  have g: "glides s s3"
    using glides_number_parts(1) [OF s2] glides_number_parts(2) [OF s3] glides_simps(2) by (blast intro: glides_trans)
  have "lex_number s =
     (if lpeek s3 = CHR ''t'' \<and> peek_next s3 = CHR ''8'' \<and> current s3 + 2 < length (source s3) \<and> source s3 ! (current s3 + 2) = CHR ''1''
         then make_token (Literal (if fl' then LitBase81Float else LitBase81Integer)) (advance (advance (advance s3)))
         else make_token (Literal (if fl' then LitFloat else LitInteger)) s3)"
    unfolding lex_number_def s2 Let_def prod.case s3 ..
  also have "emits s \<dots>"
    using glides_trans [OF g glides_suffix] g by (intro emits_if emits_glide) simp_all
  finally show ?thesis .
qed

lemma emits_from: "emits s (lex_from c s)"
proof -
  have "glides s (advance (advance s))" if "lpeek s = CHR 0x88" "peek_next s = CHR 0x9E"
    using that by (intro glides_advance2) simp_all
  then show ?thesis
    unfolding lex_from_def by (intro emits_if emits_glide emits_identifier emits_number emits_mark) simp_all
qed

end
