(* ===== verification/T81_Lexer_Spec.thy ===== *)
theory T81_Lexer_Spec
  imports T81_Lexer
begin

text \<open>
  The list of all tokens of a source (\<open>lang/frontend/lexer.cpp\<close>), the texts that the lexer skips, and how the
  tokens tile the source.
\<close>

section \<open>All tokens\<close>

lemma emitsE:
  assumes "emits s (t, s')"
  obtains "onward s s'" "lined s \<Longrightarrow> lined s'" "ttype t \<noteq> Eof" "tline t = lline s'"
    "tcolumn t = int (token_start s') - int (line_start s') + 1"
    "ttype t = Illegal \<and> (lexeme t = ''Unexpected character.'' \<or> lexeme t = ''Unterminated string.'') \<or> ttype t \<noteq> Illegal \<and> lexeme t = lexeme_text s'"
  using assms by (auto simp: emits_def split: if_splits)

lemma next_tokenE:
  assumes "next_token s = (t, s')"
  obtains "is_at_end (skip_blanks s)" "s' = (skip_blanks s)\<lparr>token_start := current (skip_blanks s)\<rparr>" "t = fst (make_token Eof s')"
  | "\<not> is_at_end (skip_blanks s)" "emits (advance ((skip_blanks s)\<lparr>token_start := current (skip_blanks s)\<rparr>)) (t, s')"
proof -
  define b where "b = (skip_blanks s)\<lparr>token_start := current (skip_blanks s)\<rparr>"
  have e: "is_at_end b = is_at_end (skip_blanks s)" by (simp add: b_def is_at_end_def)
  have n: "next_token s = (if is_at_end b then make_token Eof b else lex_from (lpeek b) (advance b))"
    unfolding next_token_def Let_def b_def ..
  show thesis
  proof (cases "is_at_end b")
    case True
    with n assms that(1) e show thesis by (simp add: make_token_def b_def)
  next
    case False
    with n assms emits_from [of "advance b" "lpeek b"] that(2) e show thesis by (simp add: b_def)
  qed
qed

lemma next_token_progress:
  assumes "next_token s = (t, s')" "ttype t \<noteq> Eof"
  shows "remaining s' < remaining s"
  using assms(1)
proof (cases rule: next_tokenE)
  case 1
  with assms(2) show ?thesis by (simp add: make_token_def)
next
  case 2
  let ?b = "(skip_blanks s)\<lparr>token_start := current (skip_blanks s)\<rparr>"
  have "\<not> is_at_end ?b" using 2(1) by (simp add: is_at_end_def)
  moreover have "onward (advance ?b) s'" using 2(2) by (rule emitsE)
  ultimately have "remaining s' < remaining ?b" by (rule onward_less)
  moreover have "remaining ?b \<le> remaining s" using onward_remaining [OF onward_blanks, of s] by (simp add: remaining_def)
  ultimately show ?thesis by simp
qed

function lex_loop :: "lexer \<Rightarrow> token list" where
  "lex_loop s = (case next_token s of (t, s) \<Rightarrow> if ttype t \<noteq> Eof then t # lex_loop s else [t])"
  by auto
termination
proof (relation "measure remaining")
  fix s t s' assume "(t, s') = next_token s" "ttype t \<noteq> Eof"
  then show "(s', s) \<in> measure remaining" using next_token_progress [of s t s'] by simp
qed simp

declare lex_loop.simps [simp del]

definition all_tokens :: "string \<Rightarrow> token list" where
  "all_tokens src = lex_loop (init_lexer src)"

section \<open>The text that is left\<close>

definition rest :: "lexer \<Rightarrow> string" where
  "rest s = drop (current s) (source s)"

lemma rest_peek: "is_at_end s \<longleftrightarrow> rest s = []" "rest s = c # cs \<Longrightarrow> lpeek s = c" "rest s = c # d # cs \<Longrightarrow> peek_next s = d"
  "rest s = [c] \<Longrightarrow> peek_next s = nul"
proof -
  show "is_at_end s \<longleftrightarrow> rest s = []" by (simp add: rest_def is_at_end_def)
  have nth: "source s ! (current s + i) = rest s ! i" if "i < length (rest s)" for i
    using that by (simp add: rest_def)
  have len: "length (source s) = current s + length (rest s)" if "rest s \<noteq> []" using that by (simp add: rest_def)
  show "rest s = c # cs \<Longrightarrow> lpeek s = c" using nth [of 0] len by (simp add: lpeek_def is_at_end_def)
  show "rest s = c # d # cs \<Longrightarrow> peek_next s = d" using nth [of 1] len by (simp add: peek_next_def)
  show "rest s = [c] \<Longrightarrow> peek_next s = nul" using len by (simp add: peek_next_def)
qed

lemma rest_advance: "rest (advance s) = tl (rest s)"
  by (auto simp: rest_def advance_def is_at_end_def tl_drop [symmetric] drop_Suc)

lemma rest_line [simp]: "rest (s\<lparr>lline := l, line_start := n\<rparr>) = rest s" "rest (s\<lparr>token_start := m\<rparr>) = rest s"
  by (simp_all add: rest_def)

lemma lpeek_rest: "lpeek s = (case rest s of [] \<Rightarrow> nul | c # _ \<Rightarrow> c)"
  using rest_peek(1,2) [of s] by (auto simp: lpeek_def split: list.split)

lemma lpeekD: "lpeek s = c \<Longrightarrow> c \<noteq> nul \<Longrightarrow> \<exists>cs. rest s = c # cs"
  by (auto simp: lpeek_rest split: list.splits)

lemma peek_nextD: "peek_next s = d \<Longrightarrow> d \<noteq> nul \<Longrightarrow> lpeek s = c \<Longrightarrow> c \<noteq> nul \<Longrightarrow> \<exists>cs. rest s = c # d # cs"
proof -
  assume a: "peek_next s = d" "d \<noteq> nul" "lpeek s = c" "c \<noteq> nul"
  then obtain cs where "rest s = c # cs" using lpeekD by blast
  with a(1,2) rest_peek(3,4) [of s c] show ?thesis by (cases cs) auto
qed

text \<open>What is skipped before a token, and what is left then.\<close>

inductive skips :: "string \<Rightarrow> string \<Rightarrow> bool" where
  nothing: "skips xs xs"
| space: "c = CHR '' '' \<or> c = CHR 0x0D \<or> c = CHR 0x09 \<or> c = newline \<Longrightarrow> skips xs r \<Longrightarrow> skips (c # xs) r"
| line_comment: "newline \<notin> set cs \<Longrightarrow> xs = [] \<or> hd xs = newline \<Longrightarrow> skips xs r \<Longrightarrow> skips (''//'' @ cs @ xs) r"
| comment: "\<not> sublist ''*/'' body \<Longrightarrow> skips xs r \<Longrightarrow> skips (''/*'' @ body @ ''*/'' @ xs) r"
| open_comment: "\<not> sublist ''*/'' body \<Longrightarrow> skips (''/*'' @ body) []"

lemma rest_skip_line:
  "\<exists>cs. rest s = cs @ rest (skip_line s) \<and> newline \<notin> set cs \<and> (rest (skip_line s) = [] \<or> hd (rest (skip_line s)) = newline)"
proof (induction s rule: skip_line.induct)
  case (1 s)
  show ?case
  proof (cases "lpeek s \<noteq> newline \<and> \<not> is_at_end s")
    case True
    then obtain c cs where c: "rest s = c # cs" "c \<noteq> newline" by (cases "rest s") (auto simp: rest_peek(1) lpeek_rest)
    from 1 [OF True] obtain ds where "cs = ds @ rest (skip_line s)" "newline \<notin> set ds"
      "rest (skip_line s) = [] \<or> hd (rest (skip_line s)) = newline"
      using True c(1) by (auto simp: skip_line.simps [of s] rest_advance)
    with c show ?thesis by (intro exI [of _ "c # ds"]) auto
  next
    case False
    then have "rest s = [] \<or> hd (rest s) = newline" by (cases "rest s") (auto simp: rest_peek(1) lpeek_rest)
    moreover have "skip_line s = s" using False by (subst skip_line.simps) auto
    ultimately show ?thesis by simp
  qed
qed

lemma rest_comment:
  "\<exists>body. rest s = body @ rest (comment_loop s) \<and> \<not> sublist ''*/'' body \<and>
     (rest (comment_loop s) = [] \<or> (\<exists>xs. rest (comment_loop s) = ''*/'' @ xs))"
proof (induction s rule: comment_loop.induct)
  case (1 s)
  show ?case
  proof (cases "\<not> (lpeek s = CHR ''*'' \<and> peek_next s = CHR ''/'') \<and> \<not> is_at_end s")
    case True
    let ?x = "if lpeek s = newline then (advance s)\<lparr>lline := lline (advance s) + 1, line_start := current (advance s)\<rparr> else advance s"
    obtain c cs where c: "rest s = c # cs" using True by (cases "rest s") (auto simp: rest_peek(1))
    have l: "comment_loop s = comment_loop ?x" using True by (simp add: comment_loop.simps [of s] Let_def)
    have "rest ?x = cs" using c by (simp add: rest_advance)
    with 1 [OF True refl refl] obtain body where b: "cs = body @ rest (comment_loop s)" "\<not> sublist ''*/'' body"
      "rest (comment_loop s) = [] \<or> (\<exists>xs. rest (comment_loop s) = ''*/'' @ xs)" unfolding l by auto
    have "\<not> prefix ''*/'' (c # body)"
    proof
      assume "prefix ''*/'' (c # body)"
      then obtain ys where "rest s = CHR ''*'' # CHR ''/'' # ys" using c b(1) by (auto simp: prefix_def)
      with True rest_peek(2,3) show False by blast
    qed
    with b c show ?thesis by (intro exI [of _ "c # body"]) (simp add: sublist_Cons_right)
  next
    case False
    then have "rest s = [] \<or> (\<exists>xs. rest s = ''*/'' @ xs)" using peek_nextD [of s "CHR ''/''" "CHR ''*''"] by (auto simp: rest_peek(1))
    moreover have "comment_loop s = s" using False by (subst comment_loop.simps) auto
    ultimately show ?thesis by simp
  qed
qed

lemma rest_block:
  assumes "rest s = CHR ''/'' # CHR ''*'' # cs" "skips (rest (block_comment s)) r"
  shows "skips (rest s) r"
proof -
  let ?s = "advance (advance s)"
  have "rest ?s = cs" using assms(1) by (simp add: rest_advance)
  then obtain body where b: "cs = body @ rest (comment_loop ?s)" "\<not> sublist ''*/'' body"
     "rest (comment_loop ?s) = [] \<or> (\<exists>xs. rest (comment_loop ?s) = ''*/'' @ xs)" using rest_comment [of ?s] by auto
  have rb: "rest (block_comment s) = tl (tl (rest (comment_loop ?s)))" by (simp add: block_comment_def rest_advance)
  from b(3) show ?thesis
  proof
    assume e: "rest (comment_loop ?s) = []"
    with assms(2) rb have "skips [] r" by simp
    then have "r = []" by (cases rule: skips.cases) auto
    with open_comment [OF b(2)] assms(1) b(1) e show ?thesis by simp
  next
    assume "\<exists>xs. rest (comment_loop ?s) = ''*/'' @ xs"
    then obtain xs where e: "rest (comment_loop ?s) = ''*/'' @ xs" by blast
    with assms(2) rb have "skips xs r" by simp
    with comment [OF b(2)] assms(1) b(1) e show ?thesis by simp
  qed
qed

lemma rest_skip_blanks: "skips (rest s) (rest (skip_blanks s))"
proof (rule skip_blanks_induct)
  fix s s' assume b: "blank_step s = Some s'" and i: "skips (rest s') (rest (skip_blanks s'))"
  from b show "skips (rest s) (rest (skip_blanks s'))"
  proof (cases rule: blank_stepE)
    case 1
    then obtain cs where "rest s = lpeek s # cs" using lpeekD [of s "lpeek s"] by auto
    with 1 i space show ?thesis by (auto simp: rest_advance)
  next
    case 2
    then obtain cs where "rest s = newline # cs" using lpeekD [of s newline] by auto
    with 2 i space show ?thesis by (auto simp: rest_advance)
  next
    case 3
    then obtain cs where cs: "rest s = CHR ''/'' # CHR ''/'' # cs" using peek_nextD [of s "CHR ''/''" "CHR ''/''"] by auto
    obtain ds where d: "rest s = ds @ rest s'" "newline \<notin> set ds" "rest s' = [] \<or> hd (rest s') = newline"
      using rest_skip_line [of s] 3(3) by auto
    have "\<exists>es. ds = CHR ''/'' # CHR ''/'' # es"
      using d cs by (cases ds; cases "tl ds"; cases "rest s'"; cases "tl (rest s')") auto
    then obtain es where "ds = ''//'' @ es" by auto
    with line_comment [of es "rest s'"] d i show ?thesis by auto
  next
    case 4
    then obtain cs where "rest s = CHR ''/'' # CHR ''*'' # cs" using peek_nextD [of s "CHR ''*''" "CHR ''/''"] by auto
    with rest_block i 4(3) show ?thesis by simp
  qed
qed (rule nothing)

section \<open>The tokens tile the source\<close>

fun tiled :: "string \<Rightarrow> token list \<Rightarrow> bool" where
  "tiled xs [] = False"
| "tiled xs (t # ts) =
     (if ttype t = Eof then skips xs [] \<and> lexeme t = [] \<and> ts = []
      else \<exists>w ys. skips xs (w @ ys) \<and> w \<noteq> [] \<and>
        (if ttype t = Illegal then lexeme t = ''Unexpected character.'' \<or> lexeme t = ''Unterminated string.'' else lexeme t = w) \<and>
        tiled ys ts)"

lemma next_token_rest:
  assumes "next_token s = (t, s')" "ttype t \<noteq> Eof"
  shows "skips (rest s) (lexeme_text s' @ rest s')" "lexeme_text s' \<noteq> []"
    "if ttype t = Illegal then lexeme t = ''Unexpected character.'' \<or> lexeme t = ''Unterminated string.'' else lexeme t = lexeme_text s'"
proof -
  let ?b = "(skip_blanks s)\<lparr>token_start := current (skip_blanks s)\<rparr>"
  have b: "\<not> is_at_end (skip_blanks s)" "emits (advance ?b) (t, s')"
    using assms by (auto elim!: next_tokenE simp: make_token_def)
  have o1: "onward (advance ?b) s'" using b(2) by (rule emitsE)
  have c: "token_start s' = current (skip_blanks s)" "source s' = source (skip_blanks s)" "current (skip_blanks s) < current s'"
    using o1 b(1) by (auto simp: onward_def advance_def is_at_end_def)
  have "rest (skip_blanks s) = lexeme_text s' @ rest s'"
    unfolding rest_def lexeme_text_def c(1,2) using c(3)
    by (metis add_diff_inverse_nat append_take_drop_id drop_drop add.commute less_imp_le_nat linorder_not_less)
  with rest_skip_blanks [of s] show "skips (rest s) (lexeme_text s' @ rest s')" by simp
  show "lexeme_text s' \<noteq> []" using c b(1) by (simp add: lexeme_text_def is_at_end_def)
  show "if ttype t = Illegal then lexeme t = ''Unexpected character.'' \<or> lexeme t = ''Unterminated string.'' else lexeme t = lexeme_text s'"
    using b(2) by (auto elim!: emitsE)
qed

lemma next_token_eof:
  assumes "next_token s = (t, s')" "ttype t = Eof"
  shows "skips (rest s) []" "lexeme t = []"
proof -
  have b: "is_at_end (skip_blanks s)" "t = fst (make_token Eof ((skip_blanks s)\<lparr>token_start := current (skip_blanks s)\<rparr>))"
    using assms by (auto elim!: next_tokenE emitsE)
  then show "skips (rest s) []" "lexeme t = []"
    using rest_skip_blanks [of s] by (simp_all add: rest_peek(1) make_token_def lexeme_text_def)
qed

lemma lex_loop_tiled: "tiled (rest s) (lex_loop s)"
proof (induction s rule: lex_loop.induct)
  case (1 s)
  obtain t s' where n: "next_token s = (t, s')" by fastforce
  show ?case
  proof (cases "ttype t = Eof")
    case True
    with next_token_eof [OF n True] n show ?thesis by (simp add: lex_loop.simps [of s])
  next
    case False
    from 1 [OF n [symmetric] False] next_token_rest [OF n False] n False show ?thesis
      by (auto simp: lex_loop.simps [of s])
  qed
qed

section \<open>Positions\<close>

definition placed :: "string \<Rightarrow> token \<Rightarrow> bool" where
  "placed src t \<longleftrightarrow> (\<exists>pre w post. src = pre @ w @ post \<and> (ttype t \<noteq> Illegal \<longrightarrow> lexeme t = w) \<and>
     tline t = 1 + int (count_list (pre @ w) newline) \<and> tcolumn t = int (length pre) - int (line_begin (pre @ w)) + 1)"

lemma next_token_placed:
  assumes "next_token s = (t, s')" "lined s"
  shows "lined s'" "source s' = source s" "placed (source s) t"
proof -
  let ?b = "(skip_blanks s)\<lparr>token_start := current (skip_blanks s)\<rparr>"
  have lb: "lined ?b" using lined_blanks assms(2) by simp
  have sb: "source (skip_blanks s) = source s" using onward_blanks [of s] by (simp add: onward_def)
  have "lined s' \<and> source s' = source s \<and> token_start s' \<le> current s' \<and> tline t = lline s' \<and>
    tcolumn t = int (token_start s') - int (line_start s') + 1 \<and> (ttype t \<noteq> Illegal \<longrightarrow> lexeme t = lexeme_text s')"
    using assms(1)
  proof (cases rule: next_tokenE)
    case 1
    with lb sb show ?thesis by (simp add: make_token_def)
  next
    case 2
    have "lpeek ?b \<noteq> newline"
      using skip_blanks_stop [of s] by (auto simp: blank_step_def Let_def lpeek_def is_at_end_def split: if_splits)
    then have "lined (advance ?b)" using lb by (intro lined_advance)
    moreover have "onward (advance ?b) s'" using 2(2) by (rule emitsE)
    ultimately show ?thesis using 2 sb by (auto elim!: emitsE simp: onward_def advance_def is_at_end_def)
  qed
  then have f: "lined s'" "source s' = source s" "token_start s' \<le> current s'" "tline t = lline s'"
    "tcolumn t = int (token_start s') - int (line_start s') + 1" "ttype t \<noteq> Illegal \<longrightarrow> lexeme t = lexeme_text s'" by auto
  define pre where "pre = take (token_start s') (source s)"
  have "take (current s') (source s) = pre @ lexeme_text s'"
    unfolding pre_def lexeme_text_def f(2) using f(3) by (metis le_add_diff_inverse take_add)
  moreover have "source s = take (current s') (source s) @ rest s'" by (simp add: rest_def f(2))
  moreover have "length pre = token_start s'" using f(1,3) by (simp add: pre_def f(2) [symmetric] lined_def)
  ultimately show "placed (source s) t"
    using f(1,4-6) unfolding placed_def lined_def f(2) by (metis append_assoc)
  show "lined s'" "source s' = source s" by (rule f)+
qed

lemma lex_loop_placed: "lined s \<Longrightarrow> t \<in> set (lex_loop s) \<Longrightarrow> placed (source s) t"
proof (induction s rule: lex_loop.induct)
  case (1 s)
  obtain t' s' where n: "next_token s = (t', s')" by fastforce
  note f = next_token_placed [OF n "1.prems"(1)]
  show ?case
  proof (cases "t = t'")
    case False
    with "1.prems"(2) n have "ttype t' \<noteq> Eof" "t \<in> set (lex_loop s')" by (auto simp: lex_loop.simps [of s] split: if_splits)
    with "1.IH" [OF n [symmetric] _ f(1)] f(2) show ?thesis by simp
  qed (use f in simp)
qed

lemma placed_exact:
  assumes "placed src t"
  shows "\<exists>pre w post. src = pre @ w @ post \<and> (ttype t \<noteq> Illegal \<longrightarrow> lexeme t = w) \<and> (newline \<notin> set w \<longrightarrow>
     tline t = 1 + int (count_list pre newline) \<and> tcolumn t = int (length pre) - int (line_begin pre) + 1)"
proof -
  have c: "count_list (pre @ w) newline = count_list pre newline" "line_begin (pre @ w) = line_begin pre"
    if "newline \<notin> set w" for pre w
    using that by (induction w rule: rev_induct) (auto simp: append_assoc [symmetric] simp del: append_assoc)
  from assms c show ?thesis unfolding placed_def by metis
qed

end
