(* ===== verification/T81_Lexer_Text.thy ===== *)
theory T81_Lexer_Text
  imports T81_Lexer_Spec
begin

text \<open>
  What the lexer makes of words, integers, operators and punctuation that are written with spaces between them.
\<close>

section \<open>Plain texts\<close>

definition is_word :: "string \<Rightarrow> bool" where
  "is_word w \<longleftrightarrow> w \<noteq> [] \<and> is_alpha (hd w) \<and> list_all (\<lambda>c. is_alpha c \<or> is_digit c) w"

definition is_numeral :: "string \<Rightarrow> bool" where
  "is_numeral w \<longleftrightarrow> w \<noteq> [] \<and> list_all is_digit w"

definition mark_texts :: "(string \<times> token_type) list" where
  "mark_texts = [
    (''('', Punctuation LParen), ('')'', Punctuation RParen), (''{'', Punctuation LBrace), (''}'', Punctuation RBrace),
    (''['', Punctuation LBracket), ('']'', Punctuation RBracket), ('','', Punctuation Comma), ('':'', Punctuation Colon),
    ('';'', Punctuation Semicolon), (''->'', Punctuation Arrow), (''=>'', Punctuation FatArrow), (''..'', Punctuation DotDot),
    (''.'', Punctuation Dot), (''@'', AtSign), (''?'', Operator OpQuestion), (''+'', Operator OpPlus), (''-'', Operator OpMinus),
    (''*'', Operator OpStar), (''**'', Operator OpStarStar), (''/'', Operator OpSlash), (''%'', Operator OpPercent),
    (''^'', Operator OpCaret), (''~'', Operator OpTilde), (''='', Operator OpEqual), (''=='', Operator OpEqualEqual),
    (''!'', Operator OpBang), (''!='', Operator OpBangEqual), (''<'', Operator OpLess), (''<='', Operator OpLessEqual),
    (''<<'', Operator OpLessLess), (''>'', Operator OpGreater), (''>='', Operator OpGreaterEqual),
    (''>>'', Operator OpGreaterGreater), (''>>>'', Operator OpGreaterGreaterGreater), (''&'', Operator OpAmp),
    (''&&'', Operator OpAmpAmp), (''|'', Operator OpPipe), (''||'', Operator OpPipePipe)]"

definition plain_type :: "string \<Rightarrow> token_type option" where
  "plain_type w =
     (if is_word w then Some (case map_of lex_keywords w of Some ty \<Rightarrow> ty | None \<Rightarrow> Identifier)
      else if is_numeral w then Some (Literal LitInteger)
      else map_of mark_texts w)"

section \<open>Moving over them\<close>

lemma lexeme_text_rest:
  assumes "onward b s'" "token_start s' = current b" "rest b = w @ rest s'" "w \<noteq> []"
  shows "lexeme_text s' = w"
proof -
  have s: "source s' = source b" "current b \<le> current s'" using assms(1) by (simp_all add: onward_def)
  have l: "current b < length (source b)" using assms(3,4) by (cases "current b < length (source b)") (simp_all add: rest_def)
  then have "current s' \<le> length (source b)" using assms(1) by (simp add: onward_def)
  moreover have "length (rest b) = length w + length (rest s')" using assms(3) by simp
  ultimately have "current s' - current b = length w" using s l by (simp add: rest_def)
  then have "lexeme_text s' = take (length w) (rest b)" by (simp add: lexeme_text_def rest_def s(1) assms(2))
  then show ?thesis using assms(3) by simp
qed

lemma rest_skip_word:
  "list_all (\<lambda>c. is_alpha c \<or> is_digit c) w \<Longrightarrow> rest s = w @ c # xs \<Longrightarrow> \<not> is_alpha c \<Longrightarrow> \<not> is_digit c \<Longrightarrow>
   rest (skip_word s) = c # xs"
proof (induction w arbitrary: s)
  case Nil
  then have "lpeek s = c" by (simp add: rest_peek(2))
  with Nil show ?case by (subst skip_word.simps) simp
next
  case (Cons d w)
  then have "lpeek s = d" "rest (advance s) = w @ c # xs" by (simp_all add: rest_peek(2) rest_advance)
  with Cons show ?case by (subst skip_word.simps) simp
qed

lemma rest_skip_digits:
  "list_all is_digit w \<Longrightarrow> rest s = w @ c # xs \<Longrightarrow> \<not> is_digit c \<Longrightarrow> rest (skip_digits s) = c # xs"
proof (induction w arbitrary: s)
  case Nil
  then have "lpeek s = c" by (simp add: rest_peek(2))
  with Nil show ?case by (subst skip_digits.simps) simp
next
  case (Cons d w)
  then have "lpeek s = d" "rest (advance s) = w @ c # xs" by (simp_all add: rest_peek(2) rest_advance)
  with Cons show ?case by (subst skip_digits.simps) simp
qed

lemma match_char_rest: "rest s = d # xs \<Longrightarrow> match_char c s = (if d = c then (True, advance s) else (False, s))"
  using rest_peek(1,2) [of s] by (auto simp: match_char_def advance_def lpeek_def)

text \<open>Reading one token when its text and a space are next.\<close>

definition reads :: "lexer \<Rightarrow> token_type \<Rightarrow> string \<Rightarrow> token \<times> lexer \<Rightarrow> bool" where
  "reads s ty r p \<longleftrightarrow> (\<exists>s'. p = make_token ty s' \<and> onward s s' \<and> rest s' = r)"

lemma reads_word:
  assumes "rest s = w @ CHR '' '' # xs" "list_all (\<lambda>c. is_alpha c \<or> is_digit c) w" "token_start s + 1 = current s"
    "source s ! token_start s = c" "current s \<le> length (source s)"
  shows "reads s (case map_of lex_keywords (c # w) of Some ty \<Rightarrow> ty | None \<Rightarrow> Identifier) (CHR '' '' # xs) (lex_identifier s)"
proof -
  have r: "rest (skip_word s) = CHR '' '' # xs" by (rule rest_skip_word [OF assms(2,1)]) (simp_all add: is_alpha_def is_digit_def)
  define b where "b = s\<lparr>current := token_start s\<rparr>"
  have o1: "onward s (skip_word s)" by (rule onward_loops)
  have "onward b (skip_word s)" using o1 assms(3,5) by (auto simp: onward_def b_def)
  moreover have "rest b = (c # w) @ rest (skip_word s)"
    using assms(1,3-5) r Cons_nth_drop_Suc [of "token_start s" "source s"] by (simp add: rest_def b_def)
  ultimately have "lexeme_text (skip_word s) = c # w"
    using o1 by (intro lexeme_text_rest) (auto simp: b_def onward_def)
  then show ?thesis using o1 r by (auto simp: reads_def lex_identifier_def Let_def split: option.split)
qed

lemma reads_number:
  assumes "rest s = w @ CHR '' '' # xs" "list_all is_digit w"
  shows "reads s (Literal LitInteger) (CHR '' '' # xs) (lex_number s)"
proof -
  let ?s = "skip_digits s"
  have r: "rest ?s = CHR '' '' # xs" by (rule rest_skip_digits [OF assms(2,1)]) (simp add: is_digit_def)
  then have p: "lpeek ?s = CHR '' ''" by (rule rest_peek(2))
  then have "scan_fraction ?s = (False, ?s)" "scan_exponent False ?s = (False, ?s)" by (simp_all add: scan_fraction_def scan_exponent_def)
  then have "lex_number s = make_token (Literal LitInteger) ?s" using p by (simp add: lex_number_def)
  with r onward_loops(1) show ?thesis by (auto simp: reads_def)
qed

lemma reads_make:
  "rest s = r \<Longrightarrow> reads s ty r (make_token ty s)"
  "tl (rest s) = r \<Longrightarrow> reads s ty r (make_token ty (advance s))"
  "tl (tl (rest s)) = r \<Longrightarrow> reads s ty r (make_token ty (advance (advance s)))"
  using onward_trans [OF onward_advance onward_advance] by (auto simp: reads_def rest_advance)

lemma space_class: "\<not> is_alpha (CHR '' '')" "\<not> is_digit (CHR '' '')"
  by (simp_all add: is_alpha_def is_digit_def)

lemma reads_mark:
  assumes "(c # w, ty) \<in> set mark_texts" "rest s = w @ CHR '' '' # xs"
  shows "reads s ty (CHR '' '' # xs) (lex_mark c s)"
proof -
  have sp: "lpeek s = CHR '' ''" if "w = []" using assms(2) that by (simp add: rest_peek(2))
  have m: "match_char d s = (if w \<noteq> [] \<and> hd w = d then (True, advance s) else (False, s))" if "d \<noteq> CHR '' ''" for d
    using assms(2) that by (cases w) (auto simp: match_char_rest)
  have m2: "match_char d (advance s) = (if tl w \<noteq> [] \<and> hd (tl w) = d then (True, advance (advance s)) else (False, advance s))"
    if "w \<noteq> []" "d \<noteq> CHR '' ''" for d
  proof -
    have "rest (advance s) = tl w @ CHR '' '' # xs" using assms(2) that(1) by (cases w) (simp_all add: rest_advance)
    with that(2) show ?thesis by (cases "tl w") (auto simp: match_char_rest)
  qed
  note defs = lex_mark_def either_def lex_symbol_def m m2 sp space_class reads_make assms(2)
  from assms(1) show ?thesis
    unfolding mark_texts_def list.set insert_iff prod.inject list.inject
    by (elim disjE conjE emptyE; hypsubst) (simp_all add: defs)
qed

lemma mark_classes: "(c # w, ty) \<in> set mark_texts \<Longrightarrow> \<not> is_alpha c \<and> \<not> is_digit c \<and> c \<noteq> CHR 0xE2 \<and>
    c \<notin> {CHR '' '', CHR 0x0D, CHR 0x09, newline} \<and> (c = CHR ''/'' \<longrightarrow> w = [])"
proof -
  assume a: "(c # w, ty) \<in> set mark_texts"
  have "list_all (\<lambda>(w, ty). w \<noteq> [] \<and> (let c = hd w in \<not> is_alpha c \<and> \<not> is_digit c \<and> c \<noteq> CHR 0xE2 \<and>
    c \<notin> {CHR '' '', CHR 0x0D, CHR 0x09, newline} \<and> (c = CHR ''/'' \<longrightarrow> tl w = []))) mark_texts" by code_simp
  with a show ?thesis by (auto simp: list_all_iff Let_def)
qed

lemma no_blank:
  assumes "rest s = c # d # xs" "c \<notin> {CHR '' '', CHR 0x0D, CHR 0x09, newline}" "c = CHR ''/'' \<longrightarrow> d = CHR '' ''"
  shows "skip_blanks s = s"
  using assms rest_peek(2,3) [of s c]
  by (subst skip_blanks.simps) (auto simp: blank_step_def Let_def)

lemma word_head:
  "is_alpha c \<or> is_digit c \<Longrightarrow> c \<notin> {CHR '' '', CHR 0x0D, CHR 0x09, newline} \<and> c \<noteq> CHR ''/'' \<and> c \<noteq> CHR 0xE2"
  "is_alpha c \<Longrightarrow> \<not> is_digit c"
  by (auto simp: is_alpha_def is_digit_def Let_def)

lemma plain_cases:
  assumes "plain_type w = Some ty"
  obtains c v where "w = c # v" "is_alpha c" "list_all (\<lambda>c. is_alpha c \<or> is_digit c) v"
      "ty = (case map_of lex_keywords w of Some ty \<Rightarrow> ty | None \<Rightarrow> Identifier)"
  | c v where "w = c # v" "\<not> is_alpha c" "is_digit c" "list_all is_digit v" "ty = Literal LitInteger"
  | c v where "w = c # v" "(c # v, ty) \<in> set mark_texts"
proof -
  have "w \<noteq> []" if "map_of mark_texts w = Some ty" using map_of_SomeD [OF that] by (auto simp: mark_texts_def)
  then have "w \<noteq> []" using assms by (auto simp: plain_type_def is_word_def is_numeral_def split: if_splits)
  then obtain c v where w: "w = c # v" by (cases w) auto
  then have "is_numeral w \<Longrightarrow> \<not> is_alpha c" using word_head(2) [of c] by (auto simp: is_numeral_def)
  with assms w that show thesis
    by (auto simp: plain_type_def is_word_def is_numeral_def split: if_splits dest: map_of_SomeD)
qed

lemma next_plain:
  assumes "plain_type w = Some ty" "rest s = w @ CHR '' '' # xs"
  shows "\<exists>t s'. next_token s = (t, s') \<and> ttype t = ty \<and> lexeme t = w \<and> rest s' = CHR '' '' # xs"
proof -
  obtain c v where w: "w = c # v" using assms(1) by (rule plain_cases) auto
  have sb: "skip_blanks s = s"
  proof (cases "v @ CHR '' '' # xs")
    case (Cons d ys)
    from assms(1) w have "c \<notin> {CHR '' '', CHR 0x0D, CHR 0x09, newline} \<and> (c = CHR ''/'' \<longrightarrow> v = [])"
      by (cases rule: plain_cases) (auto simp: is_alpha_def is_digit_def dest: mark_classes)
    with assms(2) w Cons show ?thesis by (intro no_blank [of s c d ys]) auto
  qed simp
  define b where "b = s\<lparr>token_start := current s\<rparr>"
  have ne: "\<not> is_at_end b" using assms(2) w by (simp add: b_def rest_peek(1))
  have rb: "rest b = w @ CHR '' '' # xs" "rest (advance b) = v @ CHR '' '' # xs" using assms(2) w by (simp_all add: b_def rest_advance)
  have pk: "lpeek b = c" using rb(1) w by (simp add: rest_peek(2))
  have cur: "token_start (advance b) + 1 = current (advance b)" "current (advance b) \<le> length (source (advance b))"
    "source (advance b) ! token_start (advance b) = c"
    using ne pk by (auto simp: advance_def b_def is_at_end_def lpeek_def)
  have n: "next_token s = lex_from c (advance b)" using sb ne pk by (simp add: next_token_def b_def)
  have "reads (advance b) ty (CHR '' '' # xs) (lex_from c (advance b))"
    using assms(1)
  proof (cases rule: plain_cases)
    case 1
    with w reads_word [OF rb(2) _ cur(1,3,2)] word_head(1) [of c] show ?thesis by (simp add: lex_from_def)
  next
    case 2
    with w reads_number [OF rb(2)] word_head(1) [of c] show ?thesis by (simp add: lex_from_def)
  next
    case 3
    with w reads_mark [OF _ rb(2)] mark_classes [of c v ty] show ?thesis by (simp add: lex_from_def)
  qed
  then obtain s' where s': "next_token s = make_token ty s'" "onward (advance b) s'" "rest s' = CHR '' '' # xs" by (auto simp: reads_def n)
  have "onward b s'" "token_start s' = current b"
    using s'(2) onward_trans [OF onward_advance s'(2)] by (auto simp: onward_def b_def)
  then have "lexeme_text s' = w" using rb(1) s'(3) w by (intro lexeme_text_rest) simp_all
  with s' show ?thesis by (simp add: make_token_def)
qed

section \<open>Lines of plain texts\<close>

definition spaced :: "string list \<Rightarrow> string" where
  "spaced ws = concat (map (\<lambda>w. w @ '' '') ws)"

lemma next_space: "rest s = CHR '' '' # xs \<Longrightarrow> next_token s = next_token (advance s) \<and> rest (advance s) = xs"
proof -
  assume r: "rest s = CHR '' '' # xs"
  then have "blank_step s = Some (advance s)" using rest_peek(2) [OF r] by (simp add: blank_step_def)
  then have "skip_blanks s = skip_blanks (advance s)" by (subst skip_blanks.simps) simp
  with r show ?thesis by (simp add: next_token_def rest_advance)
qed

lemma lex_loop_spaced:
  "list_all (\<lambda>w. plain_type w \<noteq> None) ws \<Longrightarrow> rest s = spaced ws \<or> rest s = CHR '' '' # spaced ws \<Longrightarrow>
   map (\<lambda>t. (ttype t, lexeme t)) (lex_loop s) = map (\<lambda>w. (the (plain_type w), w)) ws @ [(Eof, [])]"
proof (induction ws arbitrary: s)
  case Nil
  have "is_at_end (skip_blanks s)"
  proof -
    obtain b where b: "skip_blanks s = skip_blanks b" "rest b = []"
    proof (cases "rest s = []")
      case False
      then have r: "rest s = [CHR '' '']" using Nil(2) by (simp add: spaced_def)
      then have "blank_step s = Some (advance s)" using rest_peek(2) [OF r] by (simp add: blank_step_def)
      then have "skip_blanks s = skip_blanks (advance s)" by (subst skip_blanks.simps) simp
      with r that show thesis by (simp add: rest_advance)
    qed (use that in blast)
    then have "lpeek b = nul" by (simp add: lpeek_rest)
    then have "skip_blanks b = b" by (subst skip_blanks.simps) (simp add: blank_step_def)
    with b show ?thesis by (simp add: rest_peek(1))
  qed
  then have "next_token s = make_token Eof ((skip_blanks s)\<lparr>token_start := current (skip_blanks s)\<rparr>)"
    by (simp add: next_token_def is_at_end_def Let_def)
  then show ?case by (simp add: lex_loop.simps [of s] make_token_def lexeme_text_def)
next
  case (Cons w ws)
  define b where "b = (if rest s = spaced (w # ws) then s else advance s)"
  have b: "next_token s = next_token b" "rest b = w @ CHR '' '' # spaced ws"
    using Cons.prems(2) next_space [of s "spaced (w # ws)"] by (auto simp: b_def spaced_def)
  obtain ty where ty: "plain_type w = Some ty" using Cons.prems(1) by auto
  obtain t s' where t: "next_token b = (t, s')" "ttype t = ty" "lexeme t = w" "rest s' = CHR '' '' # spaced ws"
    using next_plain [OF ty b(2)] by blast
  have "ty \<noteq> Eof"
    using ty by (cases rule: plain_cases) (auto simp: mark_texts_def dest: keyword_types split: option.splits)
  with t b(1) ty Cons show ?case by (simp add: lex_loop.simps [of s])
qed

end
