(* ===== verification/Properties_Lexer.thy ===== *)
theory Properties_Lexer
  imports T81_Lexer_Text
begin

text \<open>
  Properties of the lexer (\<open>lang/frontend/lexer.cpp\<close>).
\<close>

section \<open>Concrete sources\<close>

text \<open>An \<open>e\<close> after an integer makes it a float literal even when it begins the next word.\<close>

lemma integer_before_e_is_float:
  "map (\<lambda>t. (ttype t, lexeme t)) (all_tokens ''1else'') = [(Literal LitFloat, ''1''), (Keyword KwElse, ''else''), (Eof, [])]"
  by code_simp

text \<open>A string over two lines has the line of its end and a column before the first.\<close>

lemma string_over_lines:
  "map (\<lambda>t. (tline t, tcolumn t)) (all_tokens [CHR 0x22, newline, CHR 0x22]) = [(2, - 1), (2, 2)]"
  by code_simp

text \<open>The type \<open>T81String\<close> is not told from a string literal, and an open comment is no error.\<close>

lemma string_type_is_literal: "map ttype (all_tokens ''T81String'') = [Literal LitString, Eof]"
  by code_simp

lemma open_comment_accepted: "map ttype (all_tokens ''a /* b'') = [Identifier, Eof]"
  by code_simp

section \<open>Properties\<close>

text \<open>
  C23: The lexer ends on every source and loses nothing of it: the texts of the tokens, in order, and the blanks and
  comments between them make up the source, every token but the last has at least one character, the end of file is
  the last token and no other, and a token that is no error carries its text as the lexeme.
\<close>

theorem tokens_tile_source: "tiled src (all_tokens src)"
  using lex_loop_tiled [of "init_lexer src"] by (simp add: all_tokens_def rest_def init_lexer_def)



text \<open>
  C25: What is written with spaces between the words is read as it was meant: words become the keyword or the
  identifier they spell, digits an integer, and each mark the longest operator or punctuation, each with its own
  text.
\<close>

theorem plain_texts_read:
  assumes "list_all (\<lambda>w. plain_type w \<noteq> None) ws"
  shows "map (\<lambda>t. (ttype t, lexeme t)) (all_tokens (concat (map (\<lambda>w. w @ '' '') ws))) =
    map (\<lambda>w. (the (plain_type w), w)) ws @ [(Eof, [])]"
  using lex_loop_spaced [OF assms, of "init_lexer (spaced ws)"]
  by (simp add: all_tokens_def rest_def init_lexer_def spaced_def)

theorem plain_texts_read_witness:
  "map ttype (all_tokens ''let x >>> 81 '') = [Keyword KwLet, Identifier, Operator OpGreaterGreaterGreater, Literal LitInteger, Eof]"
proof -
  let ?ws = "[''let'', ''x'', ''>>>'', ''81'']"
  have p: "map plain_type ?ws = [Some (Keyword KwLet), Some Identifier, Some (Operator OpGreaterGreaterGreater), Some (Literal LitInteger)]"
    by code_simp
  then have "list_all (\<lambda>w. plain_type w \<noteq> None) ?ws" by simp
  from arg_cong [OF plain_texts_read [OF this], of "map fst"] p show ?thesis by (simp add: comp_def)
qed

end
