(* ===== verification/T81_Ast.thy ===== *)
theory T81_Ast
  imports T81_Lexer_Spec
begin

text \<open>
  The syntax tree (\<open>frontend/ast.hpp\<close>) and the cursor of the parser over the tokens (\<open>frontend/parser.hpp\<close>, the
  helpers of \<open>lang/frontend/parser.cpp\<close>): a method of the class is a function of the state of the parser that ends, or
  throws, with a new state.
\<close>

section \<open>Trees\<close>

text \<open>A pointer that may be null is a tree that may be \<open>NullExpr\<close> or \<open>NullStmt\<close>.\<close>

datatype pattern_kind = PatNone | PatIdentifier | PatTuple | PatRecord | PatVariant

datatype match_pattern =
  MatchPattern (pat_kind: pattern_kind) (pat_identifier: token) (pat_wildcard: bool) (pat_tuple: "token list")
    (pat_record: "(token \<times> token) list") (pat_variant: token) (pat_payload: "match_pattern option")

datatype bound_kind = BoundNone | BoundInfinite | BoundStatic | BoundGuarded

datatype expr =
  NullExpr
| BinaryExpr expr token expr
| UnaryExpr token expr
| LiteralExpr token
| VectorLiteralExpr token "expr list" expr
| GroupingExpr expr
| VariableExpr token
| CallExpr expr token "expr list"
| FieldAccessExpr expr token
| RecordLiteralExpr token "(token \<times> expr) list"
| EnumLiteralExpr token token expr
| SymbolLiteralExpr token
| InfiniteLiteralExpr token expr
| IndexExpr expr expr token
| MatchExpr expr "(token \<times> match_pattern \<times> expr \<times> expr) list"
| AssignExpr expr expr
| BlockExpr "stmt list" expr
| IfExpr expr expr expr
| InferExpr token expr
| SimpleTypeExpr token
| GenericTypeExpr token "expr list"
and stmt =
  NullStmt
| ExpressionStmt expr
| VarStmt token expr expr
| LetStmt token expr expr
| BlockStmt "stmt list"
| IfStmt expr stmt stmt
| WhileStmt expr stmt
| LoopStmt token bound_kind "int option" expr "stmt list"
| ForStmt token expr stmt bound_kind "int option"
| ReflectStmt token "stmt list"
| DistributedStmt token "stmt list"
| InfiniteStmt token "stmt list"
| TrainStmt token expr "stmt list"
| ReturnStmt token expr
| BreakStmt token
| ContinueStmt token
| RecurseStmt token token "(token \<times> expr) list" "stmt list"
| FunctionStmt token "token list" "(token \<times> expr) list" expr "stmt list" "int option"
| TypeDecl token "token list" expr
| RecordDecl token "(token \<times> expr) list" "int option" "string option"
| EnumDecl token "(token \<times> expr) list" "int option" "string option"

text \<open>A default-initialised token has the first type of the enumeration, which is \<open>Module\<close>.\<close>

definition no_token :: token where
  "no_token = \<lparr>ttype = Keyword KwModule, lexeme = [], tline = 0, tcolumn = 0\<rparr>"

definition empty_pattern :: match_pattern where
  "empty_pattern = MatchPattern PatNone no_token False [] [] no_token None"

section \<open>The state of the parser\<close>

text \<open>
  The lexer is represented by the tokens that it has still to return, up to the end of file, after which the parser
  asks for no more.  What is written on standard error is kept in \<open>diagnostics\<close>; \<open>had_error\<close> is set with the first.
\<close>

record pstate =
  pcurrent :: token
  pprevious :: token
  upcoming :: "token list"
  diagnostics :: "(token \<times> string) list"

text \<open>\<open>Stuck\<close> is a recursion that goes deeper than there are tokens, or a loop that does not advance.\<close>

datatype 'a presult = Done 'a pstate | Thrown pstate | Stuck

type_synonym 'a parser = "pstate \<Rightarrow> 'a presult"

definition ret :: "'a \<Rightarrow> 'a parser" where
  "ret x = Done x"

definition bind :: "'a parser \<Rightarrow> ('a \<Rightarrow> 'b parser) \<Rightarrow> 'b parser" where
  "bind p q s = (case p s of Done x s \<Rightarrow> q x s | Thrown s \<Rightarrow> Thrown s | Stuck \<Rightarrow> Stuck)"

definition seq :: "'a parser \<Rightarrow> 'b parser \<Rightarrow> 'b parser" where
  "seq p q = bind p (\<lambda>_. q)"

definition throw :: "'a parser" where
  "throw = Thrown"

definition catch :: "'a parser \<Rightarrow> 'a parser \<Rightarrow> 'a parser" where
  "catch p h s = (case p s of Done x s \<Rightarrow> Done x s | Thrown s \<Rightarrow> h s | Stuck \<Rightarrow> Stuck)"

definition left :: "pstate \<Rightarrow> nat" where
  "left s = length (upcoming s)"

text \<open>A loop: its body returns what it goes on with or what it ends with.\<close>

function loop :: "('a \<Rightarrow> ('a + 'b) parser) \<Rightarrow> 'a \<Rightarrow> pstate \<Rightarrow> 'b presult" where
  "loop body x s =
     (case body x s of
        Done (Inl x) s' \<Rightarrow> if left s' < left s then loop body x s' else Stuck
      | Done (Inr y) s' \<Rightarrow> Done y s'
      | Thrown s' \<Rightarrow> Thrown s'
      | Stuck \<Rightarrow> Stuck)"
  by pat_completeness auto
termination
  by (relation "measure (\<lambda>(_, _, s). left s)") auto

declare loop.simps [simp del]

section \<open>The cursor\<close>

definition peek_type :: "token_type parser" where
  "peek_type s = Done (ttype (pcurrent s)) s"

definition peek :: "token parser" where
  "peek s = Done (pcurrent s) s"

definition previous :: "token parser" where
  "previous s = Done (pprevious s) s"

definition at_end :: "pstate \<Rightarrow> bool" where
  "at_end s \<longleftrightarrow> ttype (pcurrent s) = Eof"

text \<open>One token further; after the last there is none, and the parser is at the end.\<close>

definition forward :: "pstate \<Rightarrow> pstate" where
  "forward s =
     (case upcoming s of
        [] \<Rightarrow> s
      | t # ts \<Rightarrow> s\<lparr>pprevious := pcurrent s, pcurrent := t, upcoming := ts\<rparr>)"

definition advance_token :: "token parser" where
  "advance_token s = (let s = (if at_end s then s else forward s) in Done (pprevious s) s)"

definition checks :: "token_type \<Rightarrow> pstate \<Rightarrow> bool" where
  "checks ty s \<longleftrightarrow> \<not> at_end s \<and> ttype (pcurrent s) = ty"

definition check :: "token_type \<Rightarrow> bool parser" where
  "check ty s = Done (checks ty s) s"

definition check_any :: "token_type list \<Rightarrow> bool parser" where
  "check_any tys s = Done (list_ex (\<lambda>ty. checks ty s) tys) s"

definition ended :: "bool parser" where
  "ended s = Done (at_end s) s"

definition match_any :: "token_type list \<Rightarrow> bool parser" where
  "match_any tys s =
     (if list_ex (\<lambda>ty. checks ty s) tys then Done True (forward s) else Done False s)"

text \<open>\<open>peek_next_token\<close> of the lexer: the token after the current one.\<close>

definition peek_next_tok :: "token parser" where
  "peek_next_tok s = Done (case upcoming s of [] \<Rightarrow> pcurrent s | t # _ \<Rightarrow> t) s"

definition report_error :: "token \<Rightarrow> string \<Rightarrow> unit parser" where
  "report_error tok msg s = Done () (s\<lparr>diagnostics := diagnostics s @ [(tok, msg)]\<rparr>)"

definition report_here :: "string \<Rightarrow> unit parser" where
  "report_here msg s = report_error (pcurrent s) msg s"

definition keyword_text :: "token_type \<Rightarrow> string option" where
  "keyword_text ty = map_option fst (find (\<lambda>(_, k). k = ty)
     (filter (\<lambda>(w, _). w \<noteq> ''T81String'') lex_keywords @ [(''T81String'', TypeKeyword TyT81String)]))"

definition operator_text :: "operator \<Rightarrow> string" where
  "operator_text op = (case op of
       OpPlus \<Rightarrow> ''+'' | OpMinus \<Rightarrow> ''-'' | OpStar \<Rightarrow> ''*'' | OpStarStar \<Rightarrow> ''**'' | OpSlash \<Rightarrow> ''/'' | OpPercent \<Rightarrow> ''%''
     | OpEqual \<Rightarrow> ''='' | OpEqualEqual \<Rightarrow> ''=='' | OpBang \<Rightarrow> ''!'' | OpBangEqual \<Rightarrow> ''!='' | OpLess \<Rightarrow> ''<'' | OpLessEqual \<Rightarrow> ''<=''
     | OpGreater \<Rightarrow> ''>'' | OpGreaterEqual \<Rightarrow> ''>='' | OpAmp \<Rightarrow> ''&'' | OpAmpAmp \<Rightarrow> ''&&'' | OpPipe \<Rightarrow> ''|'' | OpPipePipe \<Rightarrow> ''||''
     | OpCaret \<Rightarrow> ''^'' | OpTilde \<Rightarrow> ''~'' | OpQuestion \<Rightarrow> ''?'' | OpLessLess \<Rightarrow> ''<<'' | OpGreaterGreater \<Rightarrow> ''>>''
     | OpGreaterGreaterGreater \<Rightarrow> ''>>>'')"

definition punctuation_text :: "punctuation \<Rightarrow> string" where
  "punctuation_text p = (case p of
       LParen \<Rightarrow> ''('' | RParen \<Rightarrow> '')'' | LBrace \<Rightarrow> ''{'' | RBrace \<Rightarrow> ''}'' | LBracket \<Rightarrow> ''['' | RBracket \<Rightarrow> '']'' | Comma \<Rightarrow> '',''
     | Colon \<Rightarrow> '':'' | Semicolon \<Rightarrow> '';'' | Arrow \<Rightarrow> ''->'' | FatArrow \<Rightarrow> ''=>'' | DotDot \<Rightarrow> ''..'' | Dot \<Rightarrow> ''.'')"

definition quoted :: "string \<Rightarrow> string" where
  "quoted w = [CHR 0x27] @ w @ [CHR 0x27]"

definition token_type_name :: "token_type \<Rightarrow> string" where
  "token_type_name ty = (case ty of
       Literal LitSymbol \<Rightarrow> ''symbol literal'' | Literal LitInfinite \<Rightarrow> ''infinite literal''
     | Literal LitInteger \<Rightarrow> ''integer literal'' | Literal LitFloat \<Rightarrow> ''float literal'' | Literal LitString \<Rightarrow> ''string literal''
     | Literal LitTernary \<Rightarrow> ''ternary literal'' | Literal LitBase81Integer \<Rightarrow> ''base81 integer literal''
     | Literal LitBase81Float \<Rightarrow> ''base81 float literal'' | Identifier \<Rightarrow> ''identifier''
     | Operator op \<Rightarrow> quoted (operator_text op) | Punctuation p \<Rightarrow> quoted (punctuation_text p)
     | AtSign \<Rightarrow> quoted ''@'' | Eof \<Rightarrow> ''end of input'' | Illegal \<Rightarrow> ''illegal token''
     | _ \<Rightarrow> (case keyword_text ty of Some w \<Rightarrow> quoted w | None \<Rightarrow> ''token''))"

definition token_found_description :: "token \<Rightarrow> string" where
  "token_found_description t =
     (if ttype t = Eof then ''end of input'' else if lexeme t \<noteq> [] then quoted (lexeme t) else token_type_name (ttype t))"

definition consume_token :: "token_type \<Rightarrow> string \<Rightarrow> token parser" where
  "consume_token ty msg s =
     (if checks ty s then advance_token s
      else seq (report_here (msg @ '' (expected '' @ token_type_name ty @ '', found '' @
                  token_found_description (pcurrent s) @ '')''))
             throw s)"

text \<open>\<open>while (!check(...) && !is_at_end()) advance();\<close>\<close>

definition skip_to :: "token_type list \<Rightarrow> unit parser" where
  "skip_to tys =
     loop (\<lambda>_. bind (check_any tys) (\<lambda>found. bind ended (\<lambda>e.
       if found \<or> e then ret (Inr ()) else seq advance_token (ret (Inl ()))))) ()"

definition synchronize :: "unit parser" where
  "synchronize =
     seq advance_token (loop (\<lambda>_. bind ended (\<lambda>e. bind previous (\<lambda>prev. bind peek_type (\<lambda>ty.
       if e \<or> ttype prev = Punctuation Semicolon \<or>
          ty \<in> {Keyword KwFn, Keyword KwLet, Keyword KwVar, Keyword KwFor, Keyword KwIf, Keyword KwWhile, Keyword KwReturn}
       then ret (Inr ()) else seq advance_token (ret (Inl ())))))) ())"

text \<open>\<open>if (match({...})) a; else b;\<close>\<close>

definition on :: "token_type list \<Rightarrow> 'a parser \<Rightarrow> 'a parser \<Rightarrow> 'a parser" where
  "on tys p q = bind (match_any tys) (\<lambda>m. if m then p else q)"

text \<open>\<open>std::stoll\<close> on the lexeme of an integer token, which consists of digits.\<close>

definition token_int :: "token \<Rightarrow> int option" where
  "token_int t =
     (let ds = takeWhile is_digit (lexeme t);
          v = foldl (\<lambda>n c. 10 * n + (int (of_char c) - 48)) 0 ds
      in if ds \<noteq> [] \<and> v < 2 ^ 63 then Some v else None)"

definition init_parser :: "string \<Rightarrow> pstate" where
  "init_parser src =
     (let ts = all_tokens src
      in \<lparr>pcurrent = hd ts, pprevious = no_token, upcoming = tl ts, diagnostics = []\<rparr>)"

end
