(* ===== verification/T81_Parser.thy ===== *)
theory T81_Parser
  imports T81_Ast
begin

text \<open>
  The grammar rules of the parser (\<open>lang/frontend/parser.cpp\<close>), one definition per method.  The methods that the
  recursion goes through are taken from a record of rules; every rule calls them only after it has consumed a token, so
  that the recursion is no deeper than there are tokens.
\<close>

record structural_attributes =
  schema_version :: "int option"
  module_path :: "string option"
  struct_anchor :: "token option"

record function_attributes =
  fn_tier :: "int option"
  fn_anchor :: "token option"

record rules =
  r_expression :: "expr parser"
  r_exponent :: "expr parser"
  r_unary :: "expr parser"
  r_type :: "expr parser"
  r_if :: "expr parser"
  r_block :: "expr parser"
  r_statement :: "stmt parser"
  r_function :: "function_attributes option \<Rightarrow> stmt parser"
  r_pattern :: "match_pattern parser"

section \<open>Classes of tokens\<close>

definition type_starts :: "token_type list" where
  "type_starts =
     Identifier # map TypeKeyword [TyI32, TyI16, TyI8, TyI2, TyBool, TyVoid, TyT81BigInt, TyT81Float, TyT81Fraction,
       TyT81Fixed, TyT81Complex, TyT81Qutrit, TyT81Uint, TyT81Vector, TyMatrix, TyTensor, TyGraph, TyList, TyMap, TySet, TyTree]
     @ [Literal LitString]"

definition is_type_start :: "bool parser" where
  "is_type_start = check_any type_starts"

definition is_type_start_token :: "token \<Rightarrow> bool" where
  "is_type_start_token t \<longleftrightarrow> ttype t \<in> set type_starts"

definition is_dot_field_segment_token :: "token_type \<Rightarrow> bool" where
  "is_dot_field_segment_token ty \<longleftrightarrow>
     (case ty of
        Identifier \<Rightarrow> True
      | Keyword k \<Rightarrow> k \<notin> {KwRecurse, KwDistributed, KwInfinite, KwInfer, KwTrain}
      | TypeKeyword _ \<Rightarrow> True
      | _ \<Rightarrow> False)"

definition is_upper :: "char \<Rightarrow> bool" where
  "is_upper c \<longleftrightarrow> (let n = of_char c :: nat in 65 \<le> n \<and> n \<le> 90)"

section \<open>Types\<close>

text \<open>Lists of at most eight generic parameters and of parameters of functions.\<close>

definition comma_list :: "(nat \<Rightarrow> 'a option parser) \<Rightarrow> 'a list parser" where
  "comma_list item =
     loop (\<lambda>xs. bind (item (length xs)) (\<lambda>r.
       case r of
         None \<Rightarrow> ret (Inr xs)
       | Some x \<Rightarrow> on [Punctuation Comma] (ret (Inl (xs @ [x]))) (ret (Inr (xs @ [x]))))) []"

definition generic_parameter :: "nat \<Rightarrow> token option parser" where
  "generic_parameter n =
     (if 8 \<le> n then seq (report_here ''Too many generic parameters (max 8)'') (ret None)
      else bind (consume_token Identifier ''Expect generic parameter name.'') (\<lambda>t. ret (Some t)))"

definition generic_parameters :: "token list parser" where
  "generic_parameters =
     on [Punctuation LBracket]
       (bind (comma_list generic_parameter) (\<lambda>ps.
        seq (consume_token (Punctuation RBracket) ''Expect ']' after generic parameters.'') (ret ps)))
       (ret [])"

definition generic_argument :: "rules \<Rightarrow> expr parser" where
  "generic_argument g = bind is_type_start (\<lambda>t. if t then r_type g else r_expression g)"

definition generic_step :: "rules \<Rightarrow> token \<Rightarrow> expr list \<Rightarrow> (expr list + expr list) parser" where
  "generic_step g name ps =
     on [Punctuation Comma]
       (bind (check (Punctuation RBracket)) (\<lambda>b.
        if b then seq (report_here ''Trailing comma in generic parameter list is not allowed.'') (ret (Inr ps))
        else if 8 \<le> length ps then
          seq (report_here ''Too many generic parameters (max 8)'') (seq (skip_to [Punctuation RBracket]) (ret (Inr ps)))
        else bind (if lexeme name = ''Result'' \<and> length ps = 1 then r_type g else generic_argument g)
               (\<lambda>p. ret (Inl (ps @ [p])))))
       (ret (Inr ps))"

definition parse_generic_type :: "rules \<Rightarrow> token \<Rightarrow> expr parser" where
  "parse_generic_type g name =
     seq (consume_token (Punctuation LBracket) ''Expect '[' after generic type name.'')
      (bind (generic_argument g) (\<lambda>p.
       bind (loop (generic_step g name) [p]) (\<lambda>ps.
       seq (consume_token (Punctuation RBracket) ''Expect ']' after type parameters.'')
        (ret (GenericTypeExpr name ps)))))"

definition type_rule :: "rules \<Rightarrow> expr parser" where
  "type_rule g =
     bind is_type_start (\<lambda>start.
     if \<not> start then seq (report_here ''Expect type name'') (ret NullExpr)
     else bind advance_token (\<lambda>name. bind peek_type (\<lambda>ty.
       if ty = Operator OpLess then
         seq (report_here ''Legacy '<...>' syntax for generics is not supported. Use '[...]' instead.'') (ret NullExpr)
       else bind (check (Punctuation LBracket)) (\<lambda>b.
         if b then parse_generic_type g name else ret (SimpleTypeExpr name)))))"

section \<open>Patterns and arms\<close>

definition separators :: "token_type list" where
  "separators = [Punctuation Semicolon, Punctuation Comma]"

definition skip_field :: "unit parser" where
  "skip_field = skip_to (Punctuation RBrace # separators)"

definition record_binding :: "token \<Rightarrow> token parser" where
  "record_binding field_name =
     on [Punctuation Colon]
       (bind (check Identifier) (\<lambda>b.
        if b then advance_token
        else seq (report_here ''Expect binding name after ':' in record pattern.'') (seq skip_field (ret field_name))))
       (ret field_name)"

definition record_pattern_step ::
    "(token \<times> token) list \<Rightarrow> ((token \<times> token) list + (token \<times> token) list) parser" where
  "record_pattern_step bs =
     bind (check (Punctuation RBrace)) (\<lambda>b. bind ended (\<lambda>e.
     if b \<or> e then ret (Inr bs)
     else bind (check Identifier) (\<lambda>i.
       if \<not> i then
         seq (report_here ''Expect field name in record pattern.'')
          (seq skip_field (seq (match_any separators) (ret (Inl bs))))
       else bind advance_token (\<lambda>field_name.
         bind (record_binding field_name) (\<lambda>binding.
         let bs = bs @ [(field_name, binding)]
         in on separators (ret (Inl bs))
              (bind (check (Punctuation RBrace)) (\<lambda>b.
               if b then ret (Inr bs)
               else seq (report_here ''Expect ',' or ';' between record pattern fs.'')
                     (seq skip_field (seq (match_any separators) (ret (Inl bs)))))))))))"

definition record_pattern :: "match_pattern parser" where
  "record_pattern =
     bind (loop record_pattern_step []) (\<lambda>bs.
     seq (consume_token (Punctuation RBrace) ''Expect '}' after record pattern.'')
      (ret (MatchPattern PatRecord no_token False [] bs no_token None)))"

definition tuple_step :: "token list \<Rightarrow> (token list + token list) parser" where
  "tuple_step bs =
     bind (check Identifier) (\<lambda>i.
     if \<not> i then
       seq (report_here ''Expect binding identifier in tuple pattern.'')
        (seq (skip_to [Punctuation Comma, Punctuation RParen])
          (on [Punctuation Comma] (ret (Inl bs)) (ret (Inr bs))))
     else bind advance_token (\<lambda>t.
       on [Punctuation Comma] (ret (Inl (bs @ [t]))) (ret (Inr (bs @ [t])))))"

text \<open>The name of a default-initialised pattern is a token of type \<open>Module\<close>, never \<open>Illegal\<close>.\<close>

definition has_payload :: "match_pattern \<Rightarrow> bool" where
  "has_payload p \<longleftrightarrow> pat_kind p \<noteq> PatNone \<or> pat_tuple p \<noteq> [] \<or> pat_record p \<noteq> [] \<or> pat_wildcard p \<or>
     ttype (pat_variant p) \<noteq> Illegal"

definition pattern_rule :: "rules \<Rightarrow> match_pattern parser" where
  "pattern_rule g =
     on [Punctuation LBrace] record_pattern
     (on [Identifier]
       (bind previous (\<lambda>name.
        on [Punctuation LParen]
          (bind (check (Punctuation RParen)) (\<lambda>b.
           bind (if b then ret empty_pattern else r_pattern g) (\<lambda>nested.
           seq (consume_token (Punctuation RParen) ''Expect ')' after nested match binding.'')
            (ret (MatchPattern PatVariant no_token False [] [] name (if has_payload nested then Some nested else None))))))
        (on [Punctuation Comma]
          (bind (loop tuple_step [name]) (\<lambda>bs. ret (MatchPattern PatTuple no_token False bs [] no_token None)))
          (ret (MatchPattern PatIdentifier name (lexeme name = ''_'') [] [] no_token None)))))
       (seq (report_here ''Expect pattern binding.'') throw))"

definition arm_pattern :: "rules \<Rightarrow> match_pattern parser" where
  "arm_pattern g =
     on [Punctuation LParen]
       (bind (check (Punctuation RParen)) (\<lambda>b.
        bind (if b then ret empty_pattern else r_pattern g) (\<lambda>pattern.
        on [Punctuation RParen] (ret pattern)
         (seq (report_here ''Expect ')' after match binding.'')
           (bind (check_any [Punctuation FatArrow, Keyword KwIf]) (\<lambda>ok. if ok then ret pattern else throw))))))
       (ret empty_pattern)"

definition arm_guard :: "rules \<Rightarrow> expr parser" where
  "arm_guard g =
     on [Keyword KwIf]
       (bind (check (Punctuation FatArrow)) (\<lambda>b.
        if b then seq (report_here ''Expect guard expression after 'if' in match arm.'') (ret NullExpr)
        else r_expression g))
       (ret NullExpr)"

definition match_arm :: "rules \<Rightarrow> (token \<times> match_pattern \<times> expr \<times> expr) parser" where
  "match_arm g =
     bind (consume_token Identifier ''Expect match arm variant.'') (\<lambda>keyword.
     bind (arm_pattern g) (\<lambda>pattern.
     bind (arm_guard g) (\<lambda>guard.
     seq (consume_token (Punctuation FatArrow) ''Expect '=>' after match arm pattern.'')
      (bind (r_expression g) (\<lambda>body. ret (keyword, pattern, guard, body))))))"

definition arms_step ::
    "rules \<Rightarrow> (token \<times> match_pattern \<times> expr \<times> expr) list \<Rightarrow>
     ((token \<times> match_pattern \<times> expr \<times> expr) list + (token \<times> match_pattern \<times> expr \<times> expr) list) parser" where
  "arms_step g arms =
     bind (check (Punctuation RBrace)) (\<lambda>b. bind ended (\<lambda>e.
     if b \<or> e then ret (Inr arms)
     else bind (catch (bind (match_arm g) (\<lambda>arm. ret (Some arm)))
                  (seq skip_field (seq (match_any separators) (ret None)))) (\<lambda>r.
       case r of
         None \<Rightarrow> ret (Inl arms)
       | Some arm \<Rightarrow>
           on separators (ret (Inl (arms @ [arm])))
            (bind (check (Punctuation RBrace)) (\<lambda>b.
             if b then ret (Inr (arms @ [arm]))
             else seq (report_here ''Expect ',' or ';' between match arms.'')
               (bind (check Identifier) (\<lambda>i.
                if i then ret (Inl (arms @ [arm]))
                else seq skip_field (seq (match_any separators) (ret (Inl (arms @ [arm])))))))))))"

definition match_expression :: "rules \<Rightarrow> expr parser" where
  "match_expression g =
     seq (consume_token (Punctuation LParen) ''Expect '(' after 'match'.'')
      (bind (r_expression g) (\<lambda>scrutinee.
       seq (consume_token (Punctuation RParen) ''Expect ')' after match scrutinee.'')
       (seq (consume_token (Punctuation LBrace) ''Expect '{' before match arms.'')
        (bind (loop (arms_step g) []) (\<lambda>arms.
         seq (consume_token (Punctuation RBrace) ''Expect '}' after match arms.'')
          (ret (MatchExpr scrutinee arms)))))))"


section \<open>Primary expressions\<close>

definition position_of_dot :: "string \<Rightarrow> nat" where
  "position_of_dot w = length (takeWhile (\<lambda>c. c \<noteq> CHR ''.'') w)"

definition try_parse_enum_literal :: "token \<Rightarrow> (token \<times> token) option" where
  "try_parse_enum_literal t =
     (let dot_pos = position_of_dot (lexeme t);
          enum_part = take dot_pos (lexeme t);
          variant_part = drop (dot_pos + 1) (lexeme t)
      in if length (lexeme t) \<le> dot_pos \<or> dot_pos = 0 \<or> length (lexeme t) \<le> dot_pos + 1 then None
         else if CHR ''.'' \<in> set variant_part then None
         else if \<not> is_upper (hd enum_part) \<or> \<not> is_upper (hd variant_part) then None
         else Some (t\<lparr>lexeme := enum_part\<rparr>, t\<lparr>lexeme := variant_part, tcolumn := tcolumn t + int (dot_pos + 1)\<rparr>))"

definition enum_literal :: "rules \<Rightarrow> token \<Rightarrow> token \<Rightarrow> expr parser" where
  "enum_literal g enum_name variant =
     on [Punctuation LParen]
       (bind (r_expression g) (\<lambda>payload.
        seq (consume_token (Punctuation RParen) ''Expect ')' after enum variant payload.'')
         (ret (EnumLiteralExpr enum_name variant payload))))
       (ret (EnumLiteralExpr enum_name variant NullExpr))"

definition record_field :: "rules \<Rightarrow> (token \<times> expr) parser" where
  "record_field g =
     bind (consume_token Identifier ''Expect field name in record literal.'') (\<lambda>field_name.
     seq (consume_token (Punctuation Colon) ''Expect ':' after field name.'')
      (bind (r_expression g) (\<lambda>value. ret (field_name, value))))"

definition record_literal_step :: "rules \<Rightarrow> (token \<times> expr) list \<Rightarrow> ((token \<times> expr) list + (token \<times> expr) list) parser" where
  "record_literal_step g fs =
     bind (check (Punctuation RBrace)) (\<lambda>b.
     if b then ret (Inr fs)
     else bind (record_field g) (\<lambda>f.
       on [Punctuation Comma, Punctuation Semicolon] (ret (Inl (fs @ [f]))) (ret (Inr (fs @ [f])))))"

definition record_literal :: "rules \<Rightarrow> token \<Rightarrow> expr parser" where
  "record_literal g type_name =
     bind (loop (record_literal_step g) []) (\<lambda>fs.
     seq (consume_token (Punctuation RBrace) ''Expect '}' after record literal.'')
      (ret (RecordLiteralExpr type_name fs)))"

definition elements_step :: "rules \<Rightarrow> expr list \<Rightarrow> (expr list + expr list) parser" where
  "elements_step g es =
     on [Punctuation Comma]
       (bind (check (Punctuation RBracket)) (\<lambda>b.
        if b then ret (Inr es) else bind (r_expression g) (\<lambda>e. ret (Inl (es @ [e])))))
       (ret (Inr es))"

definition vector_literal :: "rules \<Rightarrow> token \<Rightarrow> expr parser" where
  "vector_literal g bracket =
     bind (check (Punctuation RBracket)) (\<lambda>b.
     bind (if b then ret ([], NullExpr)
           else bind (r_expression g) (\<lambda>e.
             on [Punctuation Semicolon]
               (bind (r_expression g) (\<lambda>n. ret ([e], n)))
               (bind (loop (elements_step g) [e]) (\<lambda>es. ret (es, NullExpr))))) (\<lambda>(es, n).
     seq (consume_token (Punctuation RBracket) ''Expect ']' after vector literal.'')
      (ret (VectorLiteralExpr bracket es n))))"

text \<open>An index that begins like a type makes the name a generic type: a keyword, or an identifier in capitals.\<close>

definition looks_like_type :: "token \<Rightarrow> bool" where
  "looks_like_type next \<longleftrightarrow> is_type_start_token next \<and>
     (ttype next = Identifier \<longrightarrow> lexeme next \<noteq> [] \<and> is_upper (hd (lexeme next)))"

text \<open>The first part of a primary expression: \<open>Inl\<close> is returned as it is, \<open>Inr\<close> may be followed by postfix operators.\<close>

definition named :: "rules \<Rightarrow> token \<Rightarrow> (expr + expr) parser" where
  "named g name =
     (case try_parse_enum_literal name of
        Some (enum_name, variant) \<Rightarrow> bind (enum_literal g enum_name variant) (\<lambda>e. ret (Inl e))
      | None \<Rightarrow>
          bind (check (Punctuation LBracket)) (\<lambda>b.
          if b then bind peek_next_tok (\<lambda>next.
            if looks_like_type next then bind (parse_generic_type g name) (\<lambda>e. ret (Inr e))
            else ret (Inr (VariableExpr name)))
          else on [Punctuation LBrace]
            (bind (record_literal g name) (\<lambda>e. ret (Inl e)))
            (ret (Inr (VariableExpr name)))))"

definition literal_types :: "token_type list" where
  "literal_types = [Keyword KwFalse, Keyword KwTrue, Literal LitInteger, Literal LitFloat, Literal LitBase81Integer,
     Literal LitBase81Float, Literal LitString]"

definition infinite_message :: string where
  "infinite_message = ''Expect '{' after '' @ [CHR 0x27, CHR 0xE2, CHR 0x88, CHR 0x9E, CHR 0x27] @ ''.''"

section \<open>Expressions of the levels of binding\<close>

definition binary_loop :: "token_type list \<Rightarrow> expr parser \<Rightarrow> expr \<Rightarrow> expr parser" where
  "binary_loop ops operand =
     loop (\<lambda>expr. on ops
       (bind previous (\<lambda>op. bind operand (\<lambda>right. ret (Inl (BinaryExpr expr op right)))))
       (ret (Inr expr)))"

definition binary_level :: "token_type list \<Rightarrow> expr parser \<Rightarrow> expr parser" where
  "binary_level ops operand = bind operand (binary_loop ops operand)"

section \<open>Attributes\<close>

definition schema_attribute :: "token \<Rightarrow> structural_attributes \<Rightarrow> structural_attributes parser" where
  "schema_attribute name attrs =
     seq (if schema_version attrs \<noteq> None then report_error name ''Duplicate '@schema' attribute.'' else ret ())
      (bind (consume_token (Literal LitInteger) ''Expect integer schema version.'') (\<lambda>value.
       case token_int value of
         Some version \<Rightarrow>
           if version \<le> 0 then seq (report_error value ''Schema version must be positive.'') (ret attrs)
           else ret (attrs\<lparr>schema_version := Some version\<rparr>)
       | None \<Rightarrow> seq (report_error value ''Invalid integer for schema version.'') (ret attrs)))"

definition module_segments :: "string \<Rightarrow> string parser" where
  "module_segments path =
     loop (\<lambda>path. on [Punctuation Dot]
       (bind (consume_token Identifier ''Expect module segment after '.'.'') (\<lambda>next. ret (Inl (path @ ''.'' @ lexeme next))))
       (ret (Inr path))) path"

definition module_attribute :: "token \<Rightarrow> structural_attributes \<Rightarrow> structural_attributes parser" where
  "module_attribute name attrs =
     seq (if module_path attrs \<noteq> None then report_error name ''Duplicate '@module' attribute.'' else ret ())
      (bind (consume_token Identifier ''Expect module name.'') (\<lambda>segment.
       bind (module_segments (lexeme segment)) (\<lambda>path. ret (attrs\<lparr>module_path := Some path\<rparr>))))"

text \<open>Only the two names get here, so that the branch that reports any other is left out.\<close>

definition structural_step ::
    "structural_attributes option \<Rightarrow> (structural_attributes option + structural_attributes option) parser" where
  "structural_step seen =
     bind (check AtSign) (\<lambda>b. bind peek_next_tok (\<lambda>lookahead.
     if \<not> b \<or> ttype lookahead \<noteq> Identifier \<or> lexeme lookahead \<notin> {''schema'', ''module''} then ret (Inr seen)
     else seq (match_any [AtSign]) (bind (consume_token Identifier ''Expect attribute name after '@'.'') (\<lambda>name.
       let attrs = (case seen of Some a \<Rightarrow> a | None \<Rightarrow> \<lparr>schema_version = None, module_path = None, struct_anchor = Some name\<rparr>)
       in seq (consume_token (Punctuation LParen) ''Expect '(' after attribute name.'')
           (bind (if lexeme name = ''schema'' then schema_attribute name attrs else module_attribute name attrs) (\<lambda>attrs.
            seq (consume_token (Punctuation RParen) ''Expect ')' after attribute.'') (ret (Inl (Some attrs)))))))))"

definition parse_structural_attributes :: "structural_attributes option parser" where
  "parse_structural_attributes = loop structural_step None"

definition tier_attribute :: "token \<Rightarrow> function_attributes \<Rightarrow> function_attributes parser" where
  "tier_attribute name attrs =
     seq (if fn_tier attrs \<noteq> None then report_error name ''Duplicate '@tier' attribute.'' else ret ())
      (bind (consume_token (Literal LitInteger) ''Expect integer tier value.'') (\<lambda>value.
       case token_int value of
         Some tier \<Rightarrow>
           if tier < 1 \<or> 5 < tier then seq (report_error value ''Tier value must be in [1, 5].'') (ret attrs)
           else ret (attrs\<lparr>fn_tier := Some tier\<rparr>)
       | None \<Rightarrow> seq (report_error value ''Invalid integer for tier value.'') (ret attrs)))"

definition function_step ::
    "function_attributes option \<Rightarrow> (function_attributes option + function_attributes option) parser" where
  "function_step seen =
     bind (check AtSign) (\<lambda>b. bind peek_next_tok (\<lambda>lookahead.
     if \<not> b \<or> ttype lookahead \<noteq> Identifier \<or> lexeme lookahead \<noteq> ''tier'' then ret (Inr seen)
     else seq (match_any [AtSign]) (bind (consume_token Identifier ''Expect attribute name after '@'.'') (\<lambda>name.
       let attrs = (case seen of Some a \<Rightarrow> a | None \<Rightarrow> \<lparr>fn_tier = None, fn_anchor = Some name\<rparr>)
       in seq (consume_token (Punctuation LParen) ''Expect '(' after attribute name.'')
           (bind (tier_attribute name attrs) (\<lambda>attrs.
            seq (consume_token (Punctuation RParen) ''Expect ')' after attribute.'') (ret (Inl (Some attrs)))))))))"

definition parse_function_attributes :: "function_attributes option parser" where
  "parse_function_attributes = loop function_step None"

text \<open>Attributes before anything that cannot have them are reported.\<close>

definition misplaced :: "token option option \<Rightarrow> string \<Rightarrow> unit parser" where
  "misplaced anchor msg =
     (case anchor of
        None \<Rightarrow> ret ()
      | Some a \<Rightarrow> bind peek (\<lambda>here. report_error (case a of Some t \<Rightarrow> t | None \<Rightarrow> here) msg))"

section \<open>Declarations\<close>

definition optional_type :: "rules \<Rightarrow> expr parser" where
  "optional_type g = on [Punctuation Colon] (r_type g) (ret NullExpr)"

definition var_declaration :: "rules \<Rightarrow> stmt parser" where
  "var_declaration g =
     bind (consume_token Identifier ''Expect variable name.'') (\<lambda>name.
     bind (optional_type g) (\<lambda>ty.
     bind (on [Operator OpEqual] (r_expression g) (ret NullExpr)) (\<lambda>initializer.
     seq (consume_token (Punctuation Semicolon) ''Expect ';' after variable declaration.'')
      (ret (VarStmt name ty initializer)))))"

definition let_declaration :: "rules \<Rightarrow> stmt parser" where
  "let_declaration g =
     bind (consume_token Identifier ''Expect constant name.'') (\<lambda>name.
     bind (optional_type g) (\<lambda>ty.
     seq (consume_token (Operator OpEqual) ''Expect '=' after constant name.'')
      (bind (r_expression g) (\<lambda>initializer.
       seq (consume_token (Punctuation Semicolon) ''Expect ';' after constant declaration.'')
        (ret (LetStmt name ty initializer))))))"

definition type_declaration :: "rules \<Rightarrow> stmt parser" where
  "type_declaration g =
     bind (consume_token Identifier ''Expect type name.'') (\<lambda>name.
     bind generic_parameters (\<lambda>parameters.
     seq (consume_token (Operator OpEqual) ''Expect '=' after type declaration.'')
      (bind (r_type g) (\<lambda>alias.
       seq (consume_token (Punctuation Semicolon) ''Expect ';' after type declaration.'')
        (ret (TypeDecl name parameters alias))))))"

text \<open>Fields and variants: what does not begin with a name is skipped.\<close>

definition skip_member :: "string \<Rightarrow> unit parser" where
  "skip_member msg =
     seq (report_here msg) (seq advance_token (seq (skip_to [Punctuation Semicolon, Punctuation RBrace])
      (bind (check (Punctuation Semicolon)) (\<lambda>b. if b then seq advance_token (ret ()) else ret ()))))"

definition members :: "string \<Rightarrow> (token \<times> expr) parser \<Rightarrow> (token \<times> expr) list parser" where
  "members msg member =
     loop (\<lambda>ms.
       bind (check (Punctuation RBrace)) (\<lambda>b. bind ended (\<lambda>e.
       if b \<or> e then ret (Inr ms)
       else bind (check Identifier) (\<lambda>i.
         if \<not> i then seq (skip_member msg) (ret (Inl ms))
         else bind member (\<lambda>m. ret (Inl (ms @ [m]))))))) []"

definition record_member :: "rules \<Rightarrow> (token \<times> expr) parser" where
  "record_member g =
     bind (consume_token Identifier ''Expect field name.'') (\<lambda>field_name.
     seq (consume_token (Punctuation Colon) ''Expect ':' after field name.'')
      (bind (r_type g) (\<lambda>ty.
       seq (consume_token (Punctuation Semicolon) ''Expect ';' after field declaration.'') (ret (field_name, ty)))))"

definition record_declaration :: "rules \<Rightarrow> structural_attributes option \<Rightarrow> stmt parser" where
  "record_declaration g attributes =
     bind (consume_token Identifier ''Expect record name.'') (\<lambda>name.
     seq (consume_token (Punctuation LBrace) ''Expect '{' after record name.'')
      (bind (members ''Expect field name.'' (record_member g)) (\<lambda>fs.
       seq (consume_token (Punctuation RBrace) ''Expect '}' after record declaration.'')
        (seq (consume_token (Punctuation Semicolon) ''Expect ';' after record declaration.'')
          (ret (RecordDecl name fs (Option.bind attributes schema_version) (Option.bind attributes module_path)))))))"

definition enum_member :: "rules \<Rightarrow> (token \<times> expr) parser" where
  "enum_member g =
     bind (consume_token Identifier ''Expect variant name.'') (\<lambda>variant.
     bind (on [Punctuation LParen]
            (bind (r_type g) (\<lambda>ty.
             seq (consume_token (Punctuation RParen) ''Expect ')' after variant payload type.'') (ret ty)))
            (ret NullExpr)) (\<lambda>payload.
     seq (consume_token (Punctuation Semicolon) ''Expect ';' after variant declaration.'') (ret (variant, payload))))"

definition enum_declaration :: "rules \<Rightarrow> structural_attributes option \<Rightarrow> stmt parser" where
  "enum_declaration g attributes =
     bind (consume_token Identifier ''Expect enum name.'') (\<lambda>name.
     seq (consume_token (Punctuation LBrace) ''Expect '{' after enum name.'')
      (bind (members ''Expect variant name.'' (enum_member g)) (\<lambda>variants.
       seq (consume_token (Punctuation RBrace) ''Expect '}' after enum declaration.'')
        (seq (consume_token (Punctuation Semicolon) ''Expect ';' after enum declaration.'')
          (ret (EnumDecl name variants (Option.bind attributes schema_version) (Option.bind attributes module_path)))))))"

section \<open>Blocks\<close>

definition else_expression :: "rules \<Rightarrow> expr parser" where
  "else_expression g =
     on [Keyword KwElse]
       (bind (check (Keyword KwIf)) (\<lambda>b. if b then r_if g else r_block g))
       (ret NullExpr)"

definition if_head :: "rules \<Rightarrow> expr parser" where
  "if_head g =
     seq (consume_token (Keyword KwIf) ''Expect 'if'.'')
      (seq (consume_token (Punctuation LParen) ''Expect '(' after 'if'.'')
        (bind (r_expression g) (\<lambda>condition.
         seq (consume_token (Punctuation RParen) ''Expect ')' after if condition.'') (ret condition))))"

definition if_rule :: "rules \<Rightarrow> expr parser" where
  "if_rule g =
     bind (if_head g) (\<lambda>condition.
     bind (r_block g) (\<lambda>then_branch.
     bind (else_expression g) (\<lambda>else_branch.
     ret (IfExpr condition then_branch else_branch))))"

definition else_statement :: "rules \<Rightarrow> stmt parser" where
  "else_statement g = on [Keyword KwElse] (r_statement g) (ret NullStmt)"

text \<open>What a step of the body of a block adds: a statement, or the final expression, after which the body ends.\<close>

type_synonym block_state = "stmt list + (stmt list \<times> expr)"

definition add :: "stmt list \<Rightarrow> stmt parser \<Rightarrow> block_state parser" where
  "add stmts p = bind p (\<lambda>st. ret (Inl (stmts @ [st])))"

definition block_if :: "rules \<Rightarrow> stmt list \<Rightarrow> block_state parser" where
  "block_if g stmts =
     bind (if_head g) (\<lambda>condition.
     bind (check (Punctuation LBrace)) (\<lambda>braced.
     if braced then
       bind (r_block g) (\<lambda>then_branch.
       bind (else_expression g) (\<lambda>else_branch.
       let if_expr = IfExpr condition then_branch else_branch
       in on [Punctuation Semicolon] (ret (Inl (stmts @ [ExpressionStmt if_expr])))
           (bind (check (Punctuation RBrace)) (\<lambda>b.
            if b then ret (Inr (stmts, if_expr)) else ret (Inl (stmts @ [ExpressionStmt if_expr]))))))
     else add stmts
       (bind (r_statement g) (\<lambda>then_stmt.
        bind (else_statement g) (\<lambda>else_stmt.
        ret (IfStmt condition then_stmt else_stmt))))))"

definition block_block :: "rules \<Rightarrow> stmt list \<Rightarrow> block_state parser" where
  "block_block g stmts =
     bind (r_block g) (\<lambda>blk.
     bind (check (Punctuation RBrace)) (\<lambda>b.
     if b then ret (Inr (stmts, blk)) else ret (Inl (stmts @ [ExpressionStmt blk]))))"

definition block_expr :: "rules \<Rightarrow> stmt list \<Rightarrow> block_state parser" where
  "block_expr g stmts =
     bind (r_expression g) (\<lambda>expr.
     on [Punctuation Semicolon] (ret (Inl (stmts @ [ExpressionStmt expr])))
      (bind (check (Punctuation RBrace)) (\<lambda>b.
       if b then ret (Inr (stmts, expr))
       else seq (report_here ''Expect ';' after expression.'') (ret (Inr (stmts, NullExpr))))))"

definition block_statement :: "rules \<Rightarrow> stmt list \<Rightarrow> block_state parser" where
  "block_statement g stmts =
     bind (check (Keyword KwIf)) (\<lambda>i. if i then block_if g stmts
     else bind (check (Punctuation LBrace)) (\<lambda>b. if b then block_block g stmts
     else bind (check_any [Keyword KwWhile, Keyword KwFor, Keyword KwReflect, Keyword KwLoop, AtSign, Keyword KwBreak,
                  Keyword KwContinue, Keyword KwReturn]) (\<lambda>k.
       if k then add stmts (r_statement g) else block_expr g stmts)))"

definition not_structural :: string where
  "not_structural = ''Structural attributes may only decorate records or enums.''"

definition not_function :: string where
  "not_function = ''Function attributes may only decorate functions.''"

definition block_step :: "rules \<Rightarrow> stmt list \<Rightarrow> block_state parser" where
  "block_step g stmts =
     bind parse_structural_attributes (\<lambda>struct_attrs.
     bind parse_function_attributes (\<lambda>function_attrs.
     on [Keyword KwType] (add stmts (type_declaration g))
     (on [Keyword KwRecord] (add stmts (record_declaration g struct_attrs))
     (on [Keyword KwEnum] (add stmts (enum_declaration g struct_attrs))
     (seq (misplaced (map_option struct_anchor struct_attrs) not_structural)
     (on [Keyword KwFn] (add stmts (r_function g None))
     (seq (misplaced (map_option fn_anchor function_attrs) not_function)
     (on [Keyword KwVar] (add stmts (var_declaration g))
     (on [Keyword KwLet] (add stmts (let_declaration g))
     (block_statement g stmts))))))))))"

definition parse_block_body :: "rules \<Rightarrow> (stmt list \<times> expr) parser" where
  "parse_block_body g =
     loop (\<lambda>stmts.
       bind (check (Punctuation RBrace)) (\<lambda>b. bind ended (\<lambda>e.
       if b \<or> e then ret (Inr (stmts, NullExpr))
       else catch (block_step g stmts) (seq synchronize (ret (Inl stmts)))))) []"

definition block_stmts :: "rules \<Rightarrow> stmt list parser" where
  "block_stmts g =
     bind (parse_block_body g) (\<lambda>(stmts, final_expr).
     seq (consume_token (Punctuation RBrace) ''Expect '}' after block.'')
      (ret (if final_expr \<noteq> NullExpr then stmts @ [ExpressionStmt final_expr] else stmts)))"

definition block_rule :: "rules \<Rightarrow> expr parser" where
  "block_rule g =
     seq (consume_token (Punctuation LBrace) ''Expect '{' before block.'')
      (bind (parse_block_body g) (\<lambda>(stmts, final_expr).
       seq (consume_token (Punctuation RBrace) ''Expect '}' after block.'') (ret (BlockExpr stmts final_expr))))"

section \<open>Expressions\<close>

definition primary_head :: "rules \<Rightarrow> (expr + expr) parser" where
  "primary_head g =
     on [Keyword KwMatch] (bind (match_expression g) (\<lambda>e. ret (Inl e)))
     (on literal_types (bind previous (\<lambda>t. ret (Inr (LiteralExpr t))))
     (on [Punctuation LBracket] (bind previous (\<lambda>bracket. bind (vector_literal g bracket) (\<lambda>e. ret (Inr e))))
     (on [Punctuation LParen]
       (bind (r_expression g) (\<lambda>inner.
        seq (consume_token (Punctuation RParen) ''Expect ')' after expression.'') (ret (Inr (GroupingExpr inner)))))
     (bind (check (Keyword KwIf)) (\<lambda>i. if i then bind (if_rule g) (\<lambda>e. ret (Inl e))
     else bind (check (Punctuation LBrace)) (\<lambda>b. if b then bind (block_rule g) (\<lambda>e. ret (Inl e))
     else
      on [Identifier] (bind previous (named g))
      (on [Literal LitSymbol] (bind previous (\<lambda>t. ret (Inr (SymbolLiteralExpr t))))
      (on [Literal LitInfinite]
        (bind previous (\<lambda>t.
         seq (consume_token (Punctuation LBrace) infinite_message)
          (bind (r_expression g) (\<lambda>seed.
           seq (consume_token (Punctuation RBrace) ''Expect '}' after infinite literal seed.'')
            (ret (Inr (InfiniteLiteralExpr t seed)))))))
      (on [Keyword KwInfer]
        (bind previous (\<lambda>keyword. bind (r_expression g) (\<lambda>inner. ret (Inr (InferExpr keyword inner)))))
      (bind peek (\<lambda>t.
       if is_type_start_token t then bind (type_rule g) (\<lambda>e. ret (Inr e))
       else seq (report_here ''Expect expression.'') throw)))))))))))"

definition arguments :: "rules \<Rightarrow> expr list parser" where
  "arguments g =
     bind (check (Punctuation RParen)) (\<lambda>b.
     if b then ret []
     else loop (\<lambda>as. bind (r_expression g) (\<lambda>e.
       on [Punctuation Comma] (ret (Inl (as @ [e]))) (ret (Inr (as @ [e]))))) [])"

definition postfix_step :: "rules \<Rightarrow> expr \<Rightarrow> (expr + expr) parser" where
  "postfix_step g expr =
     on [Punctuation Dot]
       (bind peek_type (\<lambda>ty.
        if \<not> is_dot_field_segment_token ty then seq (report_here ''Expect field name after '.'.'') throw
        else bind advance_token (\<lambda>field. ret (Inl (FieldAccessExpr expr field)))))
     (on [Punctuation LParen]
       (bind (arguments g) (\<lambda>as.
        bind (consume_token (Punctuation RParen) ''Expect ')' after arguments.'') (\<lambda>paren.
        ret (Inl (CallExpr expr paren as)))))
     (bind (check (Punctuation LBracket)) (\<lambda>b.
      if b then
        bind (consume_token (Punctuation LBracket) ''Expect '['.'') (\<lambda>bracket.
        bind (r_expression g) (\<lambda>index.
        seq (consume_token (Punctuation RBracket) ''Expect ']' after index.'') (ret (Inl (IndexExpr expr index bracket)))))
      else ret (Inr expr))))"

definition primary :: "rules \<Rightarrow> expr parser" where
  "primary g =
     bind (primary_head g) (\<lambda>r.
     case r of Inl e \<Rightarrow> ret e | Inr e \<Rightarrow> loop (postfix_step g) e)"

definition unary_rule :: "rules \<Rightarrow> expr parser" where
  "unary_rule g =
     on [Operator OpBang, Operator OpMinus, Operator OpTilde]
       (bind previous (\<lambda>op. bind (r_unary g) (\<lambda>right. ret (UnaryExpr op right))))
       (primary g)"

definition exponent_rule :: "rules \<Rightarrow> expr parser" where
  "exponent_rule g =
     bind (unary_rule g) (\<lambda>expr.
     on [Operator OpStarStar]
       (bind previous (\<lambda>op. bind (r_exponent g) (\<lambda>right. ret (BinaryExpr expr op right))))
       (ret expr))"

definition factor_expr :: "rules \<Rightarrow> expr parser" where
  "factor_expr g = binary_level [Operator OpSlash, Operator OpStar, Operator OpPercent] (exponent_rule g)"

definition term_expr :: "rules \<Rightarrow> expr parser" where
  "term_expr g = binary_level [Operator OpMinus, Operator OpPlus] (factor_expr g)"

definition shift_expr :: "rules \<Rightarrow> expr parser" where
  "shift_expr g =
     binary_level [Operator OpLessLess, Operator OpGreaterGreater, Operator OpGreaterGreaterGreater] (term_expr g)"

definition comparison_expr :: "rules \<Rightarrow> expr parser" where
  "comparison_expr g =
     binary_level [Operator OpGreater, Operator OpGreaterEqual, Operator OpLess, Operator OpLessEqual] (shift_expr g)"

definition equality_expr :: "rules \<Rightarrow> expr parser" where
  "equality_expr g = binary_level [Operator OpBangEqual, Operator OpEqualEqual] (comparison_expr g)"

definition range_expr :: "rules \<Rightarrow> expr parser" where
  "range_expr g =
     bind (equality_expr g) (\<lambda>expr.
     on [Punctuation DotDot]
       (bind previous (\<lambda>op. bind (equality_expr g) (\<lambda>right. ret (BinaryExpr expr op right))))
       (ret expr))"

definition arrow_expr :: "rules \<Rightarrow> expr parser" where
  "arrow_expr g = binary_level [Punctuation Arrow] (range_expr g)"

definition bitwise_and :: "rules \<Rightarrow> expr parser" where
  "bitwise_and g = binary_level [Operator OpAmp] (arrow_expr g)"

definition bitwise_xor :: "rules \<Rightarrow> expr parser" where
  "bitwise_xor g = binary_level [Operator OpCaret] (bitwise_and g)"

definition bitwise_or :: "rules \<Rightarrow> expr parser" where
  "bitwise_or g = binary_level [Operator OpPipe] (bitwise_xor g)"

definition logical_and :: "rules \<Rightarrow> expr parser" where
  "logical_and g = binary_level [Operator OpAmpAmp] (bitwise_or g)"

definition logical_or :: "rules \<Rightarrow> expr parser" where
  "logical_or g = binary_level [Operator OpPipePipe] (logical_and g)"

definition assignable :: "expr \<Rightarrow> bool" where
  "assignable e \<longleftrightarrow> (case e of VariableExpr _ \<Rightarrow> True | IndexExpr _ _ _ \<Rightarrow> True | FieldAccessExpr _ _ \<Rightarrow> True | _ \<Rightarrow> False)"

definition assignment_rule :: "rules \<Rightarrow> expr parser" where
  "assignment_rule g =
     bind (logical_or g) (\<lambda>expr.
     on [Operator OpEqual]
       (bind previous (\<lambda>equals.
        bind (r_expression g) (\<lambda>value.
        if assignable expr then ret (AssignExpr expr value)
        else seq (report_error equals ''Invalid assignment target'') (ret expr))))
       (ret expr))"

section \<open>Statements\<close>

definition expression_statement :: "rules \<Rightarrow> stmt parser" where
  "expression_statement g =
     bind (assignment_rule g) (\<lambda>expr.
     seq (consume_token (Punctuation Semicolon) ''Expect ';' after expression.'') (ret (ExpressionStmt expr)))"

definition bounded_argument :: "rules \<Rightarrow> (bound_kind \<times> int option \<times> expr) parser" where
  "bounded_argument g =
     on [Identifier, Keyword KwLoop, Keyword KwInfinite]
       (bind previous (\<lambda>arg.
        if lexeme arg = ''infinite'' then ret (BoundInfinite, None, NullExpr)
        else if lexeme arg = ''loop'' then
          seq (consume_token (Punctuation LParen) ''Expect '(' after 'loop'.'')
           (bind (r_expression g) (\<lambda>guard.
            seq (consume_token (Punctuation RParen) ''Expect ')' after guard expression.'')
             (ret (BoundGuarded, None, guard))))
        else seq (report_error arg (quoted ''@bounded'' @ '' only accepts '' @ quoted ''infinite'' @ '', an integer, or '' @ quoted ''loop(...)''))
              (ret (BoundNone, None, NullExpr))))
     (on [Literal LitInteger]
       (bind previous (\<lambda>arg.
        case token_int arg of
          Some v \<Rightarrow> ret (BoundStatic, Some v, NullExpr)
        | None \<Rightarrow> seq (report_error arg (''Invalid loop bound '' @ quoted (lexeme arg))) (ret (BoundStatic, None, NullExpr))))
       (seq (report_here (quoted ''@bounded'' @ '' requires an argument'')) (ret (BoundNone, None, NullExpr))))"

definition parse_loop_annotation :: "rules \<Rightarrow> (token option \<times> bound_kind \<times> int option \<times> expr) parser" where
  "parse_loop_annotation g =
     on [AtSign]
       (bind (consume_token Identifier ''Expect attribute name after '@'.'') (\<lambda>name.
        seq (if lexeme name \<noteq> ''bounded'' then report_error name (''Unsupported annotation '' @ quoted (lexeme name)) else ret ())
         (seq (consume_token (Punctuation LParen) ''Expect '(' after annotation name.'')
          (bind (bounded_argument g) (\<lambda>b.
           seq (consume_token (Punctuation RParen) ''Expect ')' after annotation argument.'') (ret (Some name, b)))))))
       (ret (None, BoundNone, None, NullExpr))"

definition for_parts :: "rules \<Rightarrow> bound_kind \<Rightarrow> int option \<Rightarrow> stmt parser" where
  "for_parts g kind bound =
     bind (consume_token Identifier ''Expect iterator name.'') (\<lambda>iterator.
     seq (consume_token (Keyword KwIn) ''Expect 'in' after iterator name.'')
      (bind (r_expression g) (\<lambda>iterable.
       bind (r_statement g) (\<lambda>body. ret (ForStmt iterator iterable body kind bound)))))"

definition loop_statement :: "rules \<Rightarrow> stmt parser" where
  "loop_statement g =
     bind (parse_loop_annotation g) (\<lambda>(saw, kind, bound, guard).
     on [Keyword KwFor] (for_parts g kind bound)
      (bind (consume_token (Keyword KwLoop) ''Expect 'loop' keyword.'') (\<lambda>loop_token.
       seq (case saw of
              Some attr \<Rightarrow>
                if ttype loop_token \<noteq> Keyword KwLoop
                then report_error attr (quoted ''@bounded'' @ '' annotation must be followed by a 'loop' or 'for' statement'')
                else ret ()
            | None \<Rightarrow> ret ())
        (seq (consume_token (Punctuation LBrace) ''Expect '{' after 'loop'.'')
          (bind (block_stmts g) (\<lambda>body. ret (LoopStmt loop_token kind bound guard body)))))))"

definition braced :: "rules \<Rightarrow> string \<Rightarrow> (token \<Rightarrow> stmt list \<Rightarrow> stmt) \<Rightarrow> stmt parser" where
  "braced g msg mk =
     bind previous (\<lambda>keyword.
     seq (consume_token (Punctuation LBrace) msg)
      (bind (block_stmts g) (\<lambda>body. ret (mk keyword body))))"

definition parenthesised :: "rules \<Rightarrow> string \<Rightarrow> string \<Rightarrow> expr parser" where
  "parenthesised g before after =
     seq (consume_token (Punctuation LParen) before)
      (bind (r_expression g) (\<lambda>e.
       seq (consume_token (Punctuation RParen) after) (ret e)))"

definition statement_rule :: "rules \<Rightarrow> stmt parser" where
  "statement_rule g =
     on [Keyword KwIf]
       (bind (parenthesised g ''Expect '(' after 'if'.'' ''Expect ')' after if condition.'') (\<lambda>condition.
        bind (r_statement g) (\<lambda>then_branch.
        bind (else_statement g) (\<lambda>else_branch.
        ret (IfStmt condition then_branch else_branch)))))
     (on [Keyword KwWhile]
       (bind (parenthesised g ''Expect '(' after 'while'.'' ''Expect ')' after while condition.'') (\<lambda>condition.
        bind (r_statement g) (\<lambda>body. ret (WhileStmt condition body))))
     (on [Keyword KwFor] (for_parts g BoundNone None)
     (on [Keyword KwReflect] (braced g ''Expect '{' after 'reflect'.'' ReflectStmt)
     (on [Keyword KwDistributed] (braced g ''Expect '{' after 'distributed'.'' DistributedStmt)
     (on [Keyword KwInfinite] (braced g ''Expect '{' after 'infinite'.'' InfiniteStmt)
     (on [Keyword KwTrain]
       (bind previous (\<lambda>keyword.
        bind (parenthesised g ''Expect '(' after 'train'.'' ''Expect ')' after train model expression.'') (\<lambda>model.
        seq (consume_token (Punctuation LBrace) ''Expect '{' before train body.'')
         (bind (block_stmts g) (\<lambda>body. ret (TrainStmt keyword model body))))))
     (bind (check_any [AtSign, Keyword KwLoop]) (\<lambda>l. if l then loop_statement g
     else
      on [Keyword KwBreak]
        (bind previous (\<lambda>keyword. seq (consume_token (Punctuation Semicolon) ''Expect ';' after 'break'.'') (ret (BreakStmt keyword))))
      (on [Keyword KwContinue]
        (bind previous (\<lambda>keyword. seq (consume_token (Punctuation Semicolon) ''Expect ';' after 'continue'.'') (ret (ContinueStmt keyword))))
      (on [Keyword KwReturn]
        (bind previous (\<lambda>keyword.
         bind (check (Punctuation Semicolon)) (\<lambda>b.
         bind (if b then ret NullExpr else r_expression g) (\<lambda>value.
         seq (consume_token (Punctuation Semicolon) ''Expect ';' after return value.'') (ret (ReturnStmt keyword value))))))
      (on [Punctuation LBrace] (bind (block_stmts g) (\<lambda>body. ret (BlockStmt body)))
      (expression_statement g))))))))))))"

text \<open>Parameters of functions; those of recursive functions may have no type.\<close>

definition parameters :: "bool \<Rightarrow> rules \<Rightarrow> (token \<times> expr) list parser" where
  "parameters typed g =
     bind (check (Punctuation RParen)) (\<lambda>b.
     if b then ret []
     else comma_list (\<lambda>n.
       seq (if 255 \<le> n then report_here ''Cannot have more than 255 parameters.'' else ret ())
        (bind (consume_token Identifier ''Expect parameter name.'') (\<lambda>name.
         bind (if typed then seq (consume_token (Punctuation Colon) ''Expect ':' after parameter name.'') (r_type g)
               else optional_type g) (\<lambda>ty. ret (Some (name, ty)))))))"

definition recurse_declaration :: "rules \<Rightarrow> stmt parser" where
  "recurse_declaration g =
     bind previous (\<lambda>keyword.
     bind (consume_token Identifier ''Expect recursive function name.'') (\<lambda>name.
     seq (consume_token (Punctuation LParen) ''Expect '(' after name.'')
      (bind (parameters False g) (\<lambda>params.
       seq (consume_token (Punctuation RParen) ''Expect ')' after parameters.'')
        (seq (consume_token (Punctuation LBrace) ''Expect '{' before body.'')
          (bind (block_stmts g) (\<lambda>body. ret (RecurseStmt keyword name params body))))))))"

definition function_rule :: "rules \<Rightarrow> function_attributes option \<Rightarrow> stmt parser" where
  "function_rule g attributes =
     bind (consume_token Identifier ''Expect function name.'') (\<lambda>name.
     bind generic_parameters (\<lambda>generic_params.
     seq (consume_token (Punctuation LParen) ''Expect '(' after function name.'')
      (bind (parameters True g) (\<lambda>params.
       seq (consume_token (Punctuation RParen) ''Expect ')' after parameters.'')
        (bind (on [Punctuation Arrow] (r_type g) (ret NullExpr)) (\<lambda>return_type.
         seq (consume_token (Punctuation LBrace) ''Expect '{' before function body.'')
          (bind (block_stmts g) (\<lambda>body.
           ret (FunctionStmt name generic_params params return_type body (Option.bind attributes fn_tier))))))))))"

section \<open>The recursion and the program\<close>

text \<open>One level of the recursion; at the bottom every method is stuck.\<close>

definition knot :: "expr parser \<Rightarrow> expr parser \<Rightarrow> expr parser \<Rightarrow> expr parser \<Rightarrow> expr parser \<Rightarrow> expr parser \<Rightarrow>
    stmt parser \<Rightarrow> (function_attributes option \<Rightarrow> stmt parser) \<Rightarrow> match_pattern parser \<Rightarrow> rules" where
  "knot e x u t i b s f p =
     \<lparr>r_expression = e, r_exponent = x, r_unary = u, r_type = t, r_if = i, r_block = b, r_statement = s,
      r_function = f, r_pattern = p\<rparr>"

fun assignment :: "nat \<Rightarrow> expr parser"
  and exponent :: "nat \<Rightarrow> expr parser"
  and unary :: "nat \<Rightarrow> expr parser"
  and type_expr :: "nat \<Rightarrow> expr parser"
  and if_expression :: "nat \<Rightarrow> expr parser"
  and block_expression :: "nat \<Rightarrow> expr parser"
  and statement :: "nat \<Rightarrow> stmt parser"
  and function_decl :: "nat \<Rightarrow> function_attributes option \<Rightarrow> stmt parser"
  and parse_match_pattern :: "nat \<Rightarrow> match_pattern parser"
where
  "assignment 0 s = Stuck"
| "assignment (Suc n) s = assignment_rule (knot (assignment n) (exponent n) (unary n) (type_expr n) (if_expression n) (block_expression n) (statement n)
     (function_decl n) (parse_match_pattern n)) s"
| "exponent 0 s = Stuck"
| "exponent (Suc n) s = exponent_rule (knot (assignment n) (exponent n) (unary n) (type_expr n) (if_expression n) (block_expression n) (statement n)
     (function_decl n) (parse_match_pattern n)) s"
| "unary 0 s = Stuck"
| "unary (Suc n) s = unary_rule (knot (assignment n) (exponent n) (unary n) (type_expr n) (if_expression n) (block_expression n) (statement n)
     (function_decl n) (parse_match_pattern n)) s"
| "type_expr 0 s = Stuck"
| "type_expr (Suc n) s = type_rule (knot (assignment n) (exponent n) (unary n) (type_expr n) (if_expression n) (block_expression n) (statement n)
     (function_decl n) (parse_match_pattern n)) s"
| "if_expression 0 s = Stuck"
| "if_expression (Suc n) s = if_rule (knot (assignment n) (exponent n) (unary n) (type_expr n) (if_expression n) (block_expression n) (statement n)
     (function_decl n) (parse_match_pattern n)) s"
| "block_expression 0 s = Stuck"
| "block_expression (Suc n) s = block_rule (knot (assignment n) (exponent n) (unary n) (type_expr n) (if_expression n) (block_expression n) (statement n)
     (function_decl n) (parse_match_pattern n)) s"
| "statement 0 s = Stuck"
| "statement (Suc n) s = statement_rule (knot (assignment n) (exponent n) (unary n) (type_expr n) (if_expression n) (block_expression n) (statement n)
     (function_decl n) (parse_match_pattern n)) s"
| "function_decl 0 attrs s = Stuck"
| "function_decl (Suc n) attrs s = function_rule (knot (assignment n) (exponent n) (unary n) (type_expr n) (if_expression n) (block_expression n) (statement n)
     (function_decl n) (parse_match_pattern n)) attrs s"
| "parse_match_pattern 0 s = Stuck"
| "parse_match_pattern (Suc n) s = pattern_rule (knot (assignment n) (exponent n) (unary n) (type_expr n) (if_expression n) (block_expression n) (statement n)
     (function_decl n) (parse_match_pattern n)) s"

definition grammar :: "nat \<Rightarrow> rules" where
  "grammar n = knot (assignment n) (exponent n) (unary n) (type_expr n) (if_expression n) (block_expression n) (statement n)
     (function_decl n) (parse_match_pattern n)"

definition declaration_rule :: "rules \<Rightarrow> stmt parser" where
  "declaration_rule g =
     catch
       (bind parse_structural_attributes (\<lambda>struct_attrs.
        bind parse_function_attributes (\<lambda>function_attrs.
        on [Keyword KwType] (type_declaration g)
        (on [Keyword KwRecord] (record_declaration g struct_attrs)
        (on [Keyword KwEnum] (enum_declaration g struct_attrs)
        (seq (misplaced (map_option struct_anchor struct_attrs) not_structural)
        (on [Keyword KwFn] (function_rule g function_attrs)
        (on [Keyword KwRecurse] (recurse_declaration g)
        (seq (misplaced (map_option fn_anchor function_attrs) not_function)
        (on [Keyword KwVar] (var_declaration g)
        (on [Keyword KwLet] (let_declaration g)
        (statement_rule g))))))))))))
       (seq synchronize (ret NullStmt))"

text \<open>The recursion is given one level for each token.\<close>

definition parse_program :: "nat \<Rightarrow> stmt list parser" where
  "parse_program n =
     loop (\<lambda>stmts. bind ended (\<lambda>e.
       if e then ret (Inr stmts)
       else bind (declaration_rule (grammar n)) (\<lambda>st. ret (Inl (stmts @ [st]))))) []"

definition parse :: "string \<Rightarrow> stmt list presult" where
  "parse src = (let s = init_parser src in parse_program (left s) s)"

text \<open>For evaluation, a rule unfolds only when it is applied to a state.\<close>

lemmas rule_code [code] =
    seq_def [THEN fun_cong] skip_to_def [THEN fun_cong] synchronize_def [THEN fun_cong] on_def [THEN fun_cong]
    is_type_start_def [THEN fun_cong] comma_list_def [THEN fun_cong] generic_parameter_def [THEN fun_cong]
    generic_parameters_def [THEN fun_cong] generic_argument_def [THEN fun_cong] generic_step_def [THEN fun_cong]
    parse_generic_type_def [THEN fun_cong] type_rule_def [THEN fun_cong] skip_field_def [THEN fun_cong]
    record_binding_def [THEN fun_cong] record_pattern_def [THEN fun_cong] tuple_step_def [THEN fun_cong]
    pattern_rule_def [THEN fun_cong] arm_pattern_def [THEN fun_cong] arm_guard_def [THEN fun_cong]
    match_arm_def [THEN fun_cong] match_expression_def [THEN fun_cong] enum_literal_def [THEN fun_cong]
    record_field_def [THEN fun_cong] record_literal_step_def [THEN fun_cong] record_literal_def [THEN fun_cong]
    elements_step_def [THEN fun_cong] vector_literal_def [THEN fun_cong] named_def [THEN fun_cong]
    binary_level_def [THEN fun_cong] schema_attribute_def [THEN fun_cong] module_segments_def [THEN fun_cong]
    module_attribute_def [THEN fun_cong] parse_structural_attributes_def [THEN fun_cong]
    tier_attribute_def [THEN fun_cong] parse_function_attributes_def [THEN fun_cong] misplaced_def [THEN fun_cong]
    optional_type_def [THEN fun_cong] var_declaration_def [THEN fun_cong] let_declaration_def [THEN fun_cong]
    type_declaration_def [THEN fun_cong] skip_member_def [THEN fun_cong] members_def [THEN fun_cong]
    record_member_def [THEN fun_cong] record_declaration_def [THEN fun_cong] enum_member_def [THEN fun_cong]
    enum_declaration_def [THEN fun_cong] else_expression_def [THEN fun_cong] if_head_def [THEN fun_cong]
    if_rule_def [THEN fun_cong] else_statement_def [THEN fun_cong] add_def [THEN fun_cong]
    block_if_def [THEN fun_cong] block_block_def [THEN fun_cong] block_expr_def [THEN fun_cong]
    block_statement_def [THEN fun_cong] block_step_def [THEN fun_cong] parse_block_body_def [THEN fun_cong]
    block_stmts_def [THEN fun_cong] block_rule_def [THEN fun_cong] primary_head_def [THEN fun_cong]
    arguments_def [THEN fun_cong] postfix_step_def [THEN fun_cong] primary_def [THEN fun_cong]
    unary_rule_def [THEN fun_cong] exponent_rule_def [THEN fun_cong] factor_expr_def [THEN fun_cong]
    term_expr_def [THEN fun_cong] shift_expr_def [THEN fun_cong] comparison_expr_def [THEN fun_cong]
    equality_expr_def [THEN fun_cong] range_expr_def [THEN fun_cong] arrow_expr_def [THEN fun_cong]
    bitwise_and_def [THEN fun_cong] bitwise_xor_def [THEN fun_cong] bitwise_or_def [THEN fun_cong]
    logical_and_def [THEN fun_cong] logical_or_def [THEN fun_cong] assignment_rule_def [THEN fun_cong]
    expression_statement_def [THEN fun_cong] bounded_argument_def [THEN fun_cong]
    parse_loop_annotation_def [THEN fun_cong] for_parts_def [THEN fun_cong] loop_statement_def [THEN fun_cong]
    braced_def [THEN fun_cong] parenthesised_def [THEN fun_cong] statement_rule_def [THEN fun_cong]
    parameters_def [THEN fun_cong] recurse_declaration_def [THEN fun_cong] function_rule_def [THEN fun_cong]
    declaration_rule_def [THEN fun_cong] parse_program_def [THEN fun_cong] record_pattern_step_def [THEN fun_cong]
    arms_step_def [THEN fun_cong] structural_step_def [THEN fun_cong] function_step_def [THEN fun_cong]

end
