(* ===== verification/T81_Parser_Total.thy ===== *)
theory T81_Parser_Total
  imports T81_Parser
begin

text \<open>
  The parser ends on every sequence of tokens: no loop runs without advancing, and the recursion is never deeper than
  there are tokens, because every rule consumes a token before it calls itself.
\<close>

section \<open>Running to an end\<close>

definition stream :: "pstate \<Rightarrow> token list" where
  "stream s = pcurrent s # upcoming s"

text \<open>The end of file is the last token and no other.\<close>

definition stream_ok :: "pstate \<Rightarrow> bool" where
  "stream_ok s \<longleftrightarrow> ttype (last (stream s)) = Eof \<and> (\<forall>t \<in> set (butlast (stream s)). ttype t \<noteq> Eof)"

text \<open>
  From a state that satisfies \<open>P\<close> and has less than \<open>k\<close> tokens left, the parser returns or throws at a later
  place, and if its result satisfies \<open>E\<close>, at a place that is strictly later.
\<close>

definition runs :: "(pstate \<Rightarrow> bool) \<Rightarrow> nat \<Rightarrow> ('a \<Rightarrow> bool) \<Rightarrow> 'a parser \<Rightarrow> bool" where
  "runs P k E p \<longleftrightarrow> (\<forall>s. stream_ok s \<longrightarrow> left s < k \<longrightarrow> P s \<longrightarrow>
     (case p s of
        Done x s' \<Rightarrow> suffix (stream s') (stream s) \<and> (E x \<longrightarrow> left s' < left s)
      | Thrown s' \<Rightarrow> suffix (stream s') (stream s)
      | Stuck \<Rightarrow> False))"

abbreviation fine :: "nat \<Rightarrow> 'a parser \<Rightarrow> bool" where
  "fine k \<equiv> runs (\<lambda>_. True) k (\<lambda>_. False)"

abbreviation eats :: "nat \<Rightarrow> 'a parser \<Rightarrow> bool" where
  "eats k \<equiv> runs (\<lambda>_. True) k (\<lambda>_. True)"

text \<open>The body of a loop advances when it goes on.\<close>

abbreviation steps :: "nat \<Rightarrow> ('a + 'b) parser \<Rightarrow> bool" where
  "steps k \<equiv> runs (\<lambda>_. True) k isl"

named_theorems fine_intros
named_theorems eats_intros
named_theorems steps_intros

lemma stream_ne [simp]: "stream s \<noteq> []"
  by (simp add: stream_def)

lemma left_stream: "left s = length (stream s) - 1"
  by (simp add: left_def stream_def)

lemma suffix_left: "suffix (stream s') (stream s) \<Longrightarrow> left s' \<le> left s"
  by (auto simp: left_stream dest: suffix_length_le)

lemma suffix_same: "suffix (stream s') (stream s) \<Longrightarrow> \<not> left s' < left s \<Longrightarrow> stream s' = stream s"
proof -
  assume a: "suffix (stream s') (stream s)" "\<not> left s' < left s"
  then have "length (stream s) \<le> length (stream s')" by (simp add: left_def stream_def)
  with a(1) show ?thesis by (auto simp: suffix_def)
qed

lemma later:
  assumes "suffix (stream s1) (stream s)" "suffix (stream s') (stream s1)"
  shows "suffix (stream s') (stream s)" "left s1 < left s \<Longrightarrow> left s' < left s"
  using suffix_order.trans [OF assms(2,1)] suffix_left [OF assms(2)] by simp_all

lemma stream_ok_suffix: "stream_ok s \<Longrightarrow> suffix (stream s') (stream s) \<Longrightarrow> stream_ok s'"
  by (auto simp: stream_ok_def suffix_def butlast_append)

lemma at_end_left: "stream_ok s \<Longrightarrow> at_end s \<longleftrightarrow> left s = 0"
  by (cases "upcoming s") (auto simp: stream_ok_def stream_def at_end_def left_def)

lemma runsI:
  assumes "\<And>s. stream_ok s \<Longrightarrow> left s < k \<Longrightarrow> P s \<Longrightarrow>
    (\<exists>x s'. p s = Done x s' \<and> suffix (stream s') (stream s) \<and> (E x \<longrightarrow> left s' < left s)) \<or>
    (\<exists>s'. p s = Thrown s' \<and> suffix (stream s') (stream s))"
  shows "runs P k E p"
  unfolding runs_def by (fastforce dest: assms)

lemma runsD:
  assumes "runs P k E p" "stream_ok s" "left s < k" "P s"
  shows "(\<exists>x s'. p s = Done x s' \<and> suffix (stream s') (stream s) \<and> (E x \<longrightarrow> left s' < left s)) \<or>
    (\<exists>s'. p s = Thrown s' \<and> suffix (stream s') (stream s))"
  using assms unfolding runs_def by (cases "p s") fastforce+

lemma runs_weaken: "runs P k E p \<Longrightarrow> j \<le> k \<Longrightarrow> (\<And>s. Q s \<Longrightarrow> P s) \<Longrightarrow> (\<And>x. F x \<Longrightarrow> E x) \<Longrightarrow> runs Q j F p"
  unfolding runs_def by (fastforce split: presult.splits)

lemma eats_fine: "eats k p \<Longrightarrow> fine k p"
  by (erule runs_weaken) simp_all

lemma eats_Suc_fine: "eats (Suc k) p \<Longrightarrow> fine k p"
  by (erule runs_weaken) simp_all

section \<open>Combinators\<close>

lemma runs_ret: "(\<not> E x) \<Longrightarrow> runs P k E (ret x)"
  by (rule runsI) (simp add: ret_def)

lemma fine_throw [fine_intros, eats_intros, steps_intros]: "runs P k E throw"
  by (rule runsI) (simp add: throw_def)

lemma runs_bind:
  assumes p: "runs P k E p" and q: "\<And>x. E x \<Longrightarrow> fine j (q x)" "\<And>x. \<not> E x \<Longrightarrow> runs (\<lambda>_. True) k F (q x)" and j: "k \<le> Suc j"
  shows "runs P k F (bind p q)"
proof (rule runsI)
  fix s assume s: "stream_ok s" "left s < k" "P s"
  from runsD [OF p s] show "(\<exists>x s'. bind p q s = Done x s' \<and> suffix (stream s') (stream s) \<and> (F x \<longrightarrow> left s' < left s)) \<or>
    (\<exists>s'. bind p q s = Thrown s' \<and> suffix (stream s') (stream s))"
  proof (elim disjE exE conjE)
    fix x s1 assume r: "p s = Done x s1" "suffix (stream s1) (stream s)" "E x \<longrightarrow> left s1 < left s"
    have s1: "stream_ok s1" by (rule stream_ok_suffix [OF s(1) r(2)])
    have le: "left s1 \<le> left s" by (rule suffix_left [OF r(2)])
    have b: "bind p q s = q x s1" by (simp add: bind_def r(1))
    show ?thesis
    proof (cases "E x")
      case True
      then have lt: "left s1 < left s" using r(3) by simp
      then have "left s1 < j" using s(2) j by simp
      from runsD [OF q(1) [OF True] s1 this TrueI] show ?thesis
        unfolding b using lt by (auto dest: later [OF r(2)])
    next
      case False
      have "left s1 < k" using le s(2) by simp
      from runsD [OF q(2) [OF False] s1 this TrueI] show ?thesis
        unfolding b using r(2) le by (auto dest: later(1) [OF r(2)])
    qed
  qed (simp add: bind_def)
qed

lemma fine_bind: "runs P k E p \<Longrightarrow> (\<And>x. fine k (q x)) \<Longrightarrow> runs P k (\<lambda>_. False) (bind p q)"
  by (rule runs_bind [where E = "\<lambda>_. False" and j = k]) (auto elim: runs_weaken)

lemma eats_bind_first: "eats (Suc k) p \<Longrightarrow> (\<And>x. fine k (q x)) \<Longrightarrow> runs (\<lambda>_. True) (Suc k) E (bind p q)"
  by (rule runs_bind [where E = "\<lambda>_. True" and j = k]) auto

lemma eats_bind_later: "fine k p \<Longrightarrow> (\<And>x. runs (\<lambda>_. True) k E (q x)) \<Longrightarrow> runs (\<lambda>_. True) k E (bind p q)"
  by (rule runs_bind [where E = "\<lambda>_. False" and j = k]) auto

lemma steps_bind_first: "eats k p \<Longrightarrow> (\<And>x. fine k (q x)) \<Longrightarrow> runs (\<lambda>_. True) k E (bind p q)"
  by (rule runs_bind [where E = "\<lambda>_. True" and j = k]) auto

lemma seq_bind: "seq p q = bind p (\<lambda>_. q)"
  by (rule ext) (simp add: seq_def)

lemma runs_on:
  assumes "fine j p" "k \<le> Suc j" "runs P k E q"
  shows "runs P k E (on tys p q)"
proof (rule runsI)
  fix s assume s: "stream_ok s" "left s < k" "P s"
  show "(\<exists>x s'. on tys p q s = Done x s' \<and> suffix (stream s') (stream s) \<and> (E x \<longrightarrow> left s' < left s)) \<or>
    (\<exists>s'. on tys p q s = Thrown s' \<and> suffix (stream s') (stream s))"
  proof (cases "list_ex (\<lambda>ty. checks ty s) tys")
    case True
    then have "\<not> at_end s" by (auto simp: list_ex_iff checks_def)
    then obtain t ts where u: "upcoming s = t # ts" using at_end_left [OF s(1)] by (cases "upcoming s") (auto simp: left_def)
    let ?s = "forward s"
    have f: "suffix (stream ?s) (stream s)" "left ?s < left s" using u by (auto simp: forward_def stream_def left_def suffix_Cons)
    then have "stream_ok ?s" "left ?s < j" using stream_ok_suffix [OF s(1)] s(2) assms(2) by auto
    from runsD [OF assms(1) this TrueI] have "(\<exists>x s'. p ?s = Done x s' \<and> suffix (stream s') (stream ?s)) \<or>
      (\<exists>s'. p ?s = Thrown s' \<and> suffix (stream s') (stream ?s))" by simp
    moreover have "on tys p q s = p ?s" using True by (simp add: on_def bind_def match_any_def)
    ultimately show ?thesis using f(2) by (auto dest: later [OF f(1)])
  next
    case False
    then have "on tys p q s = q s" by (simp add: on_def bind_def match_any_def)
    with runsD [OF assms(3) s] show ?thesis by simp
  qed
qed

lemma runs_if: "(b \<Longrightarrow> runs P k E p) \<Longrightarrow> (\<not> b \<Longrightarrow> runs P k E q) \<Longrightarrow> runs P k E (if b then p else q)"
  by simp

lemma runs_here: "runs P k E (\<lambda>s. p s s) \<Longrightarrow> runs P k E (\<lambda>s. p s s)" .

lemma loop_runs:
  assumes "\<And>x. steps k (body x)"
  shows "stream_ok s \<Longrightarrow> left s < k \<Longrightarrow>
    (\<exists>y s'. loop body x s = Done y s' \<and> suffix (stream s') (stream s)) \<or> (\<exists>s'. loop body x s = Thrown s' \<and> suffix (stream s') (stream s))"
proof (induction "left s" arbitrary: x s rule: less_induct)
  case less
  from runsD [OF assms less.prems TrueI, of x] show ?case
  proof (elim disjE exE conjE)
    fix r s1 assume r: "body x s = Done r s1" "suffix (stream s1) (stream s)" "isl r \<longrightarrow> left s1 < left s"
    show ?thesis
    proof (cases r)
      case (Inl z)
      then have lt: "left s1 < left s" using r(3) by simp
      have "stream_ok s1" "left s1 < k" using stream_ok_suffix [OF less.prems(1) r(2)] lt less.prems(2) by auto
      from less.hyps [OF lt this, of z] show ?thesis
        using r(1,2) Inl lt by (subst (1 2) loop.simps) (auto intro: suffix_order.trans)
    next
      case (Inr z)
      then show ?thesis using r by (subst loop.simps) simp
    qed
  next
    fix s1 assume "body x s = Thrown s1" "suffix (stream s1) (stream s)"
    then show ?thesis by (subst (1 2) loop.simps) simp
  qed
qed

lemma fine_loop [fine_intros]: "(\<And>x. steps k (body x)) \<Longrightarrow> fine k (loop body x)"
  by (rule runsI) (use loop_runs [of k body] in simp)

text \<open>A handler takes over at the place of the exception.\<close>

lemma runs_catch:
  assumes p: "runs P k E p" and h: "fine k h" "runs P k E h" and P: "\<And>s s'. stream s' = stream s \<Longrightarrow> P s \<Longrightarrow> P s'"
  shows "runs P k E (catch p h)"
proof (rule runsI)
  fix s assume s: "stream_ok s" "left s < k" "P s"
  from runsD [OF p s] show "(\<exists>x s'. catch p h s = Done x s' \<and> suffix (stream s') (stream s) \<and> (E x \<longrightarrow> left s' < left s)) \<or>
    (\<exists>s'. catch p h s = Thrown s' \<and> suffix (stream s') (stream s))"
  proof (elim disjE exE conjE)
    fix s1 assume r: "p s = Thrown s1" "suffix (stream s1) (stream s)"
    have s1: "stream_ok s1" "left s1 < k" using stream_ok_suffix [OF s(1) r(2)] suffix_left [OF r(2)] s(2) by auto
    have c: "catch p h s = h s1" by (simp add: catch_def r(1))
    show ?thesis
    proof (cases "left s1 < left s")
      case True
      from runsD [OF h(1) s1 TrueI] show ?thesis unfolding c using True by (auto dest: later [OF r(2)])
    next
      case False
      from suffix_same [OF r(2) False] have e: "stream s1 = stream s" .
      then have "left s1 = left s" by (simp add: left_stream)
      with runsD [OF h(2) s1 P [OF e s(3)]] e show ?thesis unfolding c by auto
    qed
  qed (simp add: catch_def)
qed


section \<open>Primitives\<close>

lemma advance_runs: "runs (\<lambda>s. \<not> at_end s) k E advance_token"
proof (rule runsI)
  fix s assume s: "stream_ok s" "\<not> at_end s"
  then obtain t ts where "upcoming s = t # ts" using at_end_left [OF s(1)] by (cases "upcoming s") (auto simp: left_def)
  with s(2) show "(\<exists>x s'. advance_token s = Done x s' \<and> suffix (stream s') (stream s) \<and> (E x \<longrightarrow> left s' < left s)) \<or>
    (\<exists>s'. advance_token s = Thrown s' \<and> suffix (stream s') (stream s))"
    by (simp add: advance_token_def Let_def forward_def stream_def left_def suffix_Cons)
qed

lemma fine_advance [fine_intros]: "fine k advance_token"
proof (rule runsI)
  fix s assume s: "stream_ok s" "left s < k"
  show "(\<exists>x s'. advance_token s = Done x s' \<and> suffix (stream s') (stream s) \<and> (False \<longrightarrow> left s' < left s)) \<or>
    (\<exists>s'. advance_token s = Thrown s' \<and> suffix (stream s') (stream s))"
    by (cases "upcoming s") (simp_all add: advance_token_def Let_def forward_def stream_def suffix_Cons)
qed

lemma eats_consume: "eats k (consume_token ty msg)"
proof (rule runsI)
  fix s assume s: "stream_ok s" "left s < k"
  show "(\<exists>x s'. consume_token ty msg s = Done x s' \<and> suffix (stream s') (stream s) \<and> (True \<longrightarrow> left s' < left s)) \<or>
    (\<exists>s'. consume_token ty msg s = Thrown s' \<and> suffix (stream s') (stream s))"
  proof (cases "checks ty s")
    case True
    then have "\<not> at_end s" by (simp add: checks_def)
    from runsD [OF advance_runs [where E = "\<lambda>_. True"] s this] show ?thesis using True by (simp add: consume_token_def)
  qed (simp add: consume_token_def seq_def bind_def report_here_def report_error_def throw_def stream_def)
qed

lemma fine_queries [fine_intros]:
  "fine k peek" "fine k previous" "fine k peek_type" "fine k (check ty)" "fine k (check_any tys)" "fine k ended"
  "fine k peek_next_tok" "fine k (report_error t msg)" "fine k (report_here msg)" "fine k is_type_start"
  unfolding is_type_start_def
  by (rule runsI, simp add: peek_def previous_def peek_type_def check_def check_any_def ended_def peek_next_tok_def
      report_here_def report_error_def stream_def)+

lemma fine_match [fine_intros]: "fine k (match_any tys)"
proof (rule runsI)
  fix s assume "stream_ok s"
  show "(\<exists>x s'. match_any tys s = Done x s' \<and> suffix (stream s') (stream s) \<and> (False \<longrightarrow> left s' < left s)) \<or>
    (\<exists>s'. match_any tys s = Thrown s' \<and> suffix (stream s') (stream s))"
    by (cases "upcoming s") (auto simp: match_any_def forward_def stream_def suffix_Cons)
qed

lemma fine_ret [fine_intros]: "fine k (ret x)"
  by (rule runs_ret) simp

lemma fine_consume [fine_intros]: "fine k (consume_token ty msg)"
  by (rule eats_fine [OF eats_consume])

lemma fine_seq [fine_intros]: "fine k p \<Longrightarrow> fine k q \<Longrightarrow> fine k (seq p q)"
  unfolding seq_bind by (rule fine_bind)

lemma fine_on [fine_intros]: "fine k p \<Longrightarrow> fine k q \<Longrightarrow> fine k (on tys p q)"
  by (rule runs_on [where j = k]) simp_all

lemma fine_catch [fine_intros]: "fine k p \<Longrightarrow> fine k h \<Longrightarrow> fine k (catch p h)"
  by (rule runs_catch) simp_all

lemma fine_branches [fine_intros]:
  "(b \<Longrightarrow> fine k p) \<Longrightarrow> (\<not> b \<Longrightarrow> fine k q) \<Longrightarrow> fine k (if b then p else q)"
  "(\<And>x y. fine k (f x y)) \<Longrightarrow> fine k (case z of (x, y) \<Rightarrow> f x y)"
  "fine k p' \<Longrightarrow> (\<And>x. fine k (h x)) \<Longrightarrow> fine k (case r of None \<Rightarrow> p' | Some x \<Rightarrow> h x)"
  "(\<And>x. fine k (u x)) \<Longrightarrow> (\<And>y. fine k (v y)) \<Longrightarrow> fine k (case w of Inl x \<Rightarrow> u x | Inr y \<Rightarrow> v y)"
  "(\<And>x. fine k (l x)) \<Longrightarrow> fine k (let x = e in l x)"
  by (auto split: prod.split option.split sum.split)

lemmas [fine_intros] = fine_bind [where P = "\<lambda>_. True" and E = "\<lambda>_. False"]

subsection \<open>Bodies of loops\<close>

lemma steps_end [steps_intros]: "steps k (ret (Inr y))"
  by (rule runs_ret) simp

lemma steps_on [steps_intros]: "fine k p \<Longrightarrow> steps k q \<Longrightarrow> steps k (on tys p q)"
  by (rule runs_on [where j = k]) simp_all

lemma steps_later: "fine k p \<Longrightarrow> (\<And>x. steps k (q x)) \<Longrightarrow> steps k (bind p q)"
  by (rule runs_bind [where E = "\<lambda>_. False" and j = k]) auto

lemma steps_first: "eats k p \<Longrightarrow> (\<And>x. fine k (q x)) \<Longrightarrow> steps k (bind p q)"
  by (rule steps_bind_first)

lemma steps_seq_later: "fine k p \<Longrightarrow> steps k q \<Longrightarrow> steps k (seq p q)"
  unfolding seq_bind by (rule steps_later)

lemma steps_seq_first: "eats k p \<Longrightarrow> fine k q \<Longrightarrow> steps k (seq p q)"
  unfolding seq_bind by (rule steps_first)

lemma steps_if [steps_intros]: "(b \<Longrightarrow> steps k p) \<Longrightarrow> (\<not> b \<Longrightarrow> steps k q) \<Longrightarrow> steps k (if b then p else q)"
  by simp

text \<open>The bodies that stop at a token or at the end.\<close>

definition awake :: "token_type list \<Rightarrow> pstate \<Rightarrow> bool" where
  "awake tys s \<longleftrightarrow> \<not> at_end s \<and> \<not> list_ex (\<lambda>ty. checks ty s) tys"

lemma awake_same: "stream s' = stream s \<Longrightarrow> awake tys s \<Longrightarrow> awake tys s'"
  by (auto simp: awake_def at_end_def checks_def stream_def list_ex_iff)

lemma steps_guarded:
  assumes "runs (awake tys) k isl p"
  shows "steps k (bind (check_any tys) (\<lambda>b. bind ended (\<lambda>e. if b \<or> e then ret (Inr x) else p)))"
proof (rule runsI)
  fix s assume s: "stream_ok s" "left s < k"
  let ?p = "bind (check_any tys) (\<lambda>b. bind ended (\<lambda>e. if b \<or> e then ret (Inr x) else p))"
  show "(\<exists>x s'. ?p s = Done x s' \<and> suffix (stream s') (stream s) \<and> (isl x \<longrightarrow> left s' < left s)) \<or>
    (\<exists>s'. ?p s = Thrown s' \<and> suffix (stream s') (stream s))"
  proof (cases "awake tys s")
    case True
    then have "?p s = p s" by (auto simp: bind_def check_any_def ended_def awake_def)
    with runsD [OF assms s True] show ?thesis by simp
  next
    case False
    then have "?p s = Done (Inr x) s" by (auto simp: bind_def check_any_def ended_def awake_def ret_def)
    then show ?thesis by simp
  qed
qed

lemma check_single: "check ty = check_any [ty]"
  by (rule ext) (simp add: check_def check_any_def)

lemmas steps_guarded_brace = steps_guarded [where tys = "[ty]" for ty, folded check_single]

lemma awake_advance: "fine k q \<Longrightarrow> runs (awake tys) k E (seq advance_token q)"
proof -
  assume q: "fine k q"
  have a: "runs (awake tys) k (\<lambda>_. True) advance_token"
    by (rule runs_weaken [OF advance_runs]) (auto simp: awake_def)
  show ?thesis unfolding seq_bind by (rule runs_bind [OF a, where j = k]) (simp_all add: q)
qed

lemma fine_skip [fine_intros]: "fine k (skip_to tys)"
  unfolding skip_to_def
  by (intro fine_loop steps_guarded awake_advance fine_ret)

lemma steps_weaken: "runs P k E p \<Longrightarrow> (\<And>s. Q s \<Longrightarrow> P s) \<Longrightarrow> runs Q k E p"
  by (erule runs_weaken) simp_all

lemma synchronize_loop: "fine k (loop (\<lambda>_. bind ended (\<lambda>e. bind previous (\<lambda>prev. bind peek_type (\<lambda>ty.
   if e \<or> f prev ty then ret (Inr ()) else seq advance_token (ret (Inl ())))))) ())" (is "fine k (loop ?b ())")
proof (rule fine_loop, rule runsI)
  fix u s assume s: "stream_ok s" "left s < k"
  show "(\<exists>x s'. ?b u s = Done x s' \<and> suffix (stream s') (stream s) \<and> (isl x \<longrightarrow> left s' < left s)) \<or>
    (\<exists>s'. ?b u s = Thrown s' \<and> suffix (stream s') (stream s))"
  proof (cases "at_end s \<or> f (pprevious s) (ttype (pcurrent s))")
    case True
    then show ?thesis by (auto simp: bind_def ended_def previous_def peek_type_def ret_def)
  next
    case False
    then have a: "awake [] s" by (simp add: awake_def)
    have "?b u s = seq advance_token (ret (Inl ())) s"
      using False by (simp add: bind_def ended_def previous_def peek_type_def)
    moreover have "runs (awake []) k isl (seq advance_token (ret (Inl () :: unit + unit)))" by (intro awake_advance fine_ret)
    ultimately show ?thesis using runsD [where P = "awake []" and E = isl, OF _ s a] by (simp only:) blast
  qed
qed

lemma fine_synchronize [fine_intros]: "fine k synchronize"
  unfolding synchronize_def by (intro fine_intros synchronize_loop)

lemma awake_synchronize: "fine k q \<Longrightarrow> runs (awake tys) k E (seq synchronize q)"
proof -
  assume q: "fine k q"
  have e: "seq synchronize q = seq advance_token (seq (loop (\<lambda>_. bind ended (\<lambda>e. bind previous (\<lambda>prev. bind peek_type (\<lambda>ty.
       if e \<or> ttype prev = Punctuation Semicolon \<or>
          ty \<in> {Keyword KwFn, Keyword KwLet, Keyword KwVar, Keyword KwFor, Keyword KwIf, Keyword KwWhile, Keyword KwReturn}
       then ret (Inr ()) else seq advance_token (ret (Inl ())))))) ()) q)"
    by (rule ext) (auto simp: synchronize_def seq_def bind_def split: presult.split)
  show ?thesis unfolding e by (intro awake_advance fine_seq synchronize_loop q)
qed

text \<open>Skipping to a separator and over it.\<close>

lemma awake_skip:
  assumes "fine k q"
  shows "runs (awake [Punctuation RBrace]) k E (seq skip_field (seq (match_any separators) q))"
proof -
  let ?tys = "Punctuation RBrace # separators"
  have split: "runs (awake [Punctuation RBrace]) k E p"
    if sr: "\<And>s. stream_ok s \<Longrightarrow> left s < k \<Longrightarrow> awake [Punctuation RBrace] s \<Longrightarrow> \<exists>p'. p s = p' s \<and> runs (awake [Punctuation RBrace]) k E p'"
    for p :: "'a parser"
  proof (rule runsI)
    fix s assume s: "stream_ok s" "left s < k" "awake [Punctuation RBrace] s"
    from sr [OF s] obtain p' where p': "p s = p' s" "runs (awake [Punctuation RBrace]) k E p'" by blast
    from runsD [OF p'(2) s] p'(1) show "(\<exists>x s'. p s = Done x s' \<and> suffix (stream s') (stream s) \<and> (E x \<longrightarrow> left s' < left s)) \<or>
      (\<exists>s'. p s = Thrown s' \<and> suffix (stream s') (stream s))" by simp
  qed
  show ?thesis
  proof (rule split)
    fix s assume s: "stream_ok s" "left s < k" "awake [Punctuation RBrace] s"
    show "\<exists>p'. seq skip_field (seq (match_any separators) q) s = p' s \<and> runs (awake [Punctuation RBrace]) k E p'"
    proof (cases "list_ex (\<lambda>ty. checks ty s) separators")
      case True
      then have "skip_field s = Done () s"
        unfolding skip_field_def skip_to_def by (subst loop.simps) (auto simp: bind_def check_any_def ended_def ret_def list_ex_iff)
      then have "seq skip_field (seq (match_any separators) q) s = seq advance_token q s"
        using True s(3) by (auto simp: seq_def bind_def match_any_def advance_token_def awake_def Let_def)
      then show ?thesis using awake_advance [OF assms] by blast
    next
      case False
      then have a: "awake ?tys s" using s(3) by (auto simp: awake_def)
      let ?b = "\<lambda>_. bind (check_any ?tys) (\<lambda>found. bind ended (\<lambda>e.
        if found \<or> e then ret (Inr ()) else seq advance_token (ret (Inl ()))))"
      have b: "?b () s = Done (Inl ()) (forward s)"
        using a by (simp add: bind_def check_any_def ended_def seq_def advance_token_def ret_def awake_def Let_def)
      from runsD [OF awake_advance [OF fine_ret, where E = "\<lambda>_. True"] s(1,2) a, of "Inl ()"]
      have "left (forward s) < left s" using a by (simp add: seq_def bind_def advance_token_def ret_def awake_def Let_def)
      with b have "skip_field s = skip_field (forward s)"
        unfolding skip_field_def skip_to_def by (subst loop.simps) simp
      then have "seq skip_field (seq (match_any separators) q) s = seq advance_token (seq skip_field (seq (match_any separators) q)) s"
        using a by (simp add: seq_def bind_def advance_token_def awake_def Let_def)
      moreover have "runs (awake [Punctuation RBrace]) k E (seq advance_token (seq skip_field (seq (match_any separators) q)))"
        unfolding skip_field_def by (intro awake_advance fine_intros assms)
      ultimately show ?thesis by blast
    qed
  qed
qed

end
