(* ===== verification/T81_Parser_Rules.thy ===== *)
theory T81_Parser_Rules
  imports T81_Parser_Total
begin

text \<open>
  Every rule of the grammar ends; the program is parsed to an end.
\<close>

definition grammar_ok :: "nat \<Rightarrow> rules \<Rightarrow> bool" where
  "grammar_ok k g \<longleftrightarrow> eats k (r_expression g) \<and> eats k (r_exponent g) \<and> eats k (r_unary g) \<and> fine k (r_type g) \<and>
     eats k (r_if g) \<and> eats k (r_block g) \<and> eats k (r_statement g) \<and> (\<forall>a. eats k (r_function g a)) \<and> eats k (r_pattern g)"

lemma grammar_fine [fine_intros]:
  assumes "grammar_ok k g"
  shows "fine k (r_expression g)" "fine k (r_exponent g)" "fine k (r_unary g)" "fine k (r_type g)" "fine k (r_if g)"
    "fine k (r_block g)" "fine k (r_statement g)" "fine k (r_function g a)" "fine k (r_pattern g)"
  using assms by (auto simp: grammar_ok_def intro: eats_fine)

lemma grammar_eats:
  assumes "grammar_ok k g"
  shows "eats k (r_expression g)" "eats k (r_exponent g)" "eats k (r_unary g)" "eats k (r_if g)"
    "eats k (r_block g)" "eats k (r_statement g)" "eats k (r_function g a)" "eats k (r_pattern g)"
  using assms by (auto simp: grammar_ok_def)

lemma steps_option [steps_intros]:
  "steps k p \<Longrightarrow> (\<And>x. steps k (h x)) \<Longrightarrow> steps k (case r of None \<Rightarrow> p | Some x \<Rightarrow> h x)"
  by (simp split: option.split)

section \<open>Types and patterns\<close>

lemma fine_comma_list [fine_intros]: "(\<And>n. fine k (item n)) \<Longrightarrow> fine k (comma_list item)"
  unfolding comma_list_def by (intro fine_loop steps_later steps_intros fine_intros)

lemma fine_generic_parameters [fine_intros]: "fine k generic_parameters"
  unfolding generic_parameters_def generic_parameter_def by (intro fine_intros)

lemma fine_generic_argument [fine_intros]: "grammar_ok k g \<Longrightarrow> fine k (generic_argument g)"
  unfolding generic_argument_def by (intro fine_intros)

lemma steps_generic: "grammar_ok k g \<Longrightarrow> steps k (generic_step g name ps)"
  unfolding generic_step_def by (intro steps_intros fine_intros)

lemma fine_generic_type [fine_intros]: "grammar_ok k g \<Longrightarrow> fine k (parse_generic_type g name)"
  unfolding parse_generic_type_def by (intro fine_intros steps_generic)

lemma fine_skip_field [fine_intros]: "fine k skip_field"
  unfolding skip_field_def by (intro fine_intros)

lemma fine_record_binding [fine_intros]: "fine k (record_binding t)"
  unfolding record_binding_def by (intro fine_intros)

lemma steps_tuple: "steps k (tuple_step bs)"
  unfolding tuple_step_def by (intro steps_later steps_seq_later steps_intros fine_intros)


text \<open>Looking and reporting do not move the parser.\<close>

lemma awake_bind:
  assumes "\<And>s. \<exists>x s'. p s = Done x s' \<and> stream s' = stream s" "\<And>x. runs (awake tys) k E (q x)"
  shows "runs (awake tys) k E (bind p q)"
proof (rule runsI)
  fix s assume s: "stream_ok s" "left s < k" "awake tys s"
  obtain x s1 where p: "p s = Done x s1" "stream s1 = stream s" using assms(1) by blast
  then have s1: "stream_ok s1" "left s1 < k" "awake tys s1"
    using s awake_same [OF p(2)] by (simp_all add: stream_ok_def left_stream)
  from runsD [OF assms(2) s1, of x] p(2) show "(\<exists>x s'. bind p q s = Done x s' \<and> suffix (stream s') (stream s) \<and> (E x \<longrightarrow> left s' < left s)) \<or>
    (\<exists>s'. bind p q s = Thrown s' \<and> suffix (stream s') (stream s))"
    by (simp add: bind_def p(1) left_stream)
qed

lemma awake_check: "(\<And>x. runs (awake tys) k E (q x)) \<Longrightarrow> runs (awake tys) k E (bind (check ty) q)"
  by (rule awake_bind) (simp_all add: check_def)

lemma awake_report: "runs (awake tys) k E q \<Longrightarrow> runs (awake tys) k E (seq (report_here msg) q)"
  unfolding seq_bind by (rule awake_bind) (simp_all add: report_here_def report_error_def stream_def)

lemma awake_first: "runs (awake tys) k (\<lambda>_. True) p \<Longrightarrow> (\<And>x. fine k (q x)) \<Longrightarrow> runs (awake tys) k E (bind p q)"
  by (rule runs_bind [where j = k and E = "\<lambda>_. True"]) simp_all

lemma awake_eats: "eats k p \<Longrightarrow> runs (awake tys) k E p"
  by (erule runs_weaken) simp_all

lemma awake_advance_bind: "(\<And>x. fine k (q x)) \<Longrightarrow> runs (awake tys) k E (bind advance_token q)"
  by (rule awake_first, rule runs_weaken [OF advance_runs]) (auto simp: awake_def)

lemma steps_record_pattern: "steps k (record_pattern_step bs)"
  unfolding record_pattern_step_def
  by (intro steps_guarded_brace awake_check runs_if awake_report awake_skip awake_advance_bind fine_intros)

lemma fine_record_pattern [fine_intros]: "fine k record_pattern"
  unfolding record_pattern_def by (intro fine_intros steps_record_pattern)

text \<open>What a rule begins with.\<close>

lemma eats_bind [eats_intros]:
  "(\<And>x. fine k (q x)) \<Longrightarrow> runs (\<lambda>_. True) (Suc k) E (bind (consume_token ty msg) q)"
  "(\<And>x. runs (\<lambda>_. True) (Suc k) E (q x)) \<Longrightarrow> runs (\<lambda>_. True) (Suc k) E (bind previous q)" for q :: "token \<Rightarrow> 'b parser"
  by (intro eats_bind_first eats_bind_later eats_consume fine_intros; assumption)+

lemma eats_bind_bool [eats_intros]:
  "(\<And>x. runs (\<lambda>_. True) (Suc k) E (q x)) \<Longrightarrow> runs (\<lambda>_. True) (Suc k) E (bind (check ty) q)"
  "(\<And>x. runs (\<lambda>_. True) (Suc k) E (q x)) \<Longrightarrow> runs (\<lambda>_. True) (Suc k) E (bind (check_any tys) q)"
  by (intro eats_bind_later fine_intros; assumption)+

lemma eats_seq [eats_intros]: "fine k q \<Longrightarrow> runs (\<lambda>_. True) (Suc k) E (seq (consume_token ty msg) q)"
  unfolding seq_bind by (intro eats_bind)

lemma eats_seq_report [eats_intros]:
  "runs (\<lambda>_. True) (Suc k) E q \<Longrightarrow> runs (\<lambda>_. True) (Suc k) E (seq (report_here msg) q)"
  unfolding seq_bind by (intro eats_bind_later fine_intros)

lemma eats_on [eats_intros]: "fine k p \<Longrightarrow> runs (\<lambda>_. True) (Suc k) E q \<Longrightarrow> runs (\<lambda>_. True) (Suc k) E (on tys p q)"
  by (rule runs_on [where j = k]) simp_all

lemma eats_ite [eats_intros]:
  "(b \<Longrightarrow> runs (\<lambda>_. True) (Suc k) E p) \<Longrightarrow> (\<not> b \<Longrightarrow> runs (\<lambda>_. True) (Suc k) E q) \<Longrightarrow> runs (\<lambda>_. True) (Suc k) E (if b then p else q)"
  by simp

lemma eats_pattern: "grammar_ok k g \<Longrightarrow> eats (Suc k) (pattern_rule g)"
  unfolding pattern_rule_def by (intro eats_intros fine_intros fine_loop steps_tuple)

lemma fine_arm_pattern [fine_intros]: "grammar_ok k g \<Longrightarrow> fine k (arm_pattern g)"
  unfolding arm_pattern_def by (intro fine_intros)

lemma fine_arm_guard [fine_intros]: "grammar_ok k g \<Longrightarrow> fine k (arm_guard g)"
  unfolding arm_guard_def by (intro fine_intros)

lemma eats_match_arm: "grammar_ok k g \<Longrightarrow> eats k (match_arm g)"
  unfolding match_arm_def by (intro steps_bind_first eats_consume fine_intros)

lemma steps_arms: "grammar_ok k g \<Longrightarrow> steps k (arms_step g arms)"
  unfolding arms_step_def
proof (intro steps_guarded_brace awake_first)
  assume g: "grammar_ok k g"
  show "runs (awake [Punctuation RBrace]) k (\<lambda>_. True) (catch (bind (match_arm g) (\<lambda>arm. ret (Some arm)))
    (seq skip_field (seq (match_any separators) (ret None))))"
    by (intro runs_catch awake_skip fine_intros awake_eats steps_bind_first eats_match_arm g) (rule awake_same)
qed (intro fine_intros)

lemma fine_match_expression [fine_intros]: "grammar_ok k g \<Longrightarrow> fine k (match_expression g)"
  unfolding match_expression_def by (intro fine_intros steps_arms)


section \<open>Declarations and blocks\<close>

lemma fine_attributes [fine_intros]:
  "fine k (schema_attribute name a)" "fine k (module_attribute name a)" "fine k (tier_attribute name b)" "fine k (misplaced c msg)"
  unfolding schema_attribute_def module_attribute_def tier_attribute_def misplaced_def module_segments_def
  by (intro fine_intros fine_loop steps_intros; simp)+

lemma steps_structural: "steps k (structural_step seen)"
  unfolding structural_step_def
  by (intro steps_later steps_if steps_end steps_seq_later steps_first eats_consume fine_intros)

lemma steps_function: "steps k (function_step seen)"
  unfolding function_step_def
  by (intro steps_later steps_if steps_end steps_seq_later steps_first eats_consume fine_intros)

lemma fine_parse_attributes [fine_intros]: "fine k parse_structural_attributes" "fine k parse_function_attributes"
  unfolding parse_structural_attributes_def parse_function_attributes_def
  by (intro fine_loop steps_structural steps_function)+

lemma fine_optional_type [fine_intros]: "grammar_ok k g \<Longrightarrow> fine k (optional_type g)"
  unfolding optional_type_def by (intro fine_intros)

lemma eats_declarations:
  assumes "grammar_ok k g"
  shows "eats k (record_member g)" "eats k (enum_member g)" "fine k (var_declaration g)" "fine k (let_declaration g)" "fine k (type_declaration g)"
  using assms unfolding record_member_def enum_member_def var_declaration_def let_declaration_def type_declaration_def
  by (intro steps_bind_first eats_consume fine_intros; assumption)+

lemma awake_member: "runs (awake [Punctuation RBrace]) k (\<lambda>_. True) (skip_member msg)"
  unfolding skip_member_def by (intro awake_report awake_advance fine_intros)

lemma fine_members [fine_intros]: "eats k member \<Longrightarrow> fine k (members msg member)"
  unfolding members_def seq_bind
  by (intro fine_loop steps_guarded_brace awake_check runs_if awake_first [OF awake_member] awake_first awake_eats fine_intros)

lemma fine_record_declarations [fine_intros]:
  assumes "grammar_ok k g"
  shows "fine k (record_declaration g a)" "fine k (enum_declaration g a)"
  unfolding record_declaration_def enum_declaration_def by (intro fine_intros eats_declarations assms)+

lemmas [fine_intros] = eats_declarations(3-5)

lemma fine_else [fine_intros]: "grammar_ok k g \<Longrightarrow> fine k (else_expression g)" "grammar_ok k g \<Longrightarrow> fine k (else_statement g)"
  unfolding else_expression_def else_statement_def by (intro fine_intros; assumption)+

lemma eats_if_head: "grammar_ok k g \<Longrightarrow> eats (Suc k) (if_head g)"
  unfolding if_head_def by (intro eats_intros fine_intros)

lemma eats_if_head': "grammar_ok k g \<Longrightarrow> eats k (if_head g)"
  unfolding if_head_def seq_bind by (intro steps_bind_first eats_consume fine_intros)

lemma eats_if: "grammar_ok k g \<Longrightarrow> eats (Suc k) (if_rule g)"
  unfolding if_rule_def by (intro eats_bind_first eats_if_head fine_intros)

lemma steps_add: "eats k p \<Longrightarrow> steps k (add stmts p)"
  unfolding add_def by (intro steps_first fine_intros)

lemma fine_add [fine_intros]: "fine k p \<Longrightarrow> fine k (add stmts p)"
  unfolding add_def by (intro fine_intros)

lemma steps_block_statement: "grammar_ok k g \<Longrightarrow> steps k (block_statement g stmts)"
  unfolding block_statement_def block_if_def block_block_def block_expr_def
  by (intro steps_later [where p = "check ty" for ty] steps_later [where p = "check_any tys" for tys] steps_if
      steps_first [OF eats_if_head'] steps_first [OF grammar_eats(5)] steps_first [OF grammar_eats(1)] steps_add grammar_eats fine_intros)

lemma steps_block: "grammar_ok k g \<Longrightarrow> steps k (block_step g stmts)"
  unfolding block_step_def
  by (intro steps_later [where p = parse_structural_attributes] steps_later [where p = parse_function_attributes]
      steps_on steps_seq_later [where p = "misplaced c msg" for c msg] steps_block_statement fine_intros)

lemma fine_parse_block_body [fine_intros]: "grammar_ok k g \<Longrightarrow> fine k (parse_block_body g)"
  unfolding parse_block_body_def
  by (intro fine_loop steps_guarded_brace runs_catch runs_weaken [OF steps_block] awake_synchronize fine_intros)
    (auto intro: awake_same)

lemma fine_block [fine_intros]: "grammar_ok k g \<Longrightarrow> fine k (block_stmts g)"
  unfolding block_stmts_def by (intro fine_intros)

lemma eats_block: "grammar_ok k g \<Longrightarrow> eats (Suc k) (block_rule g)"
  unfolding block_rule_def by (intro eats_intros fine_intros)

end
