(* ===== verification/T81_Parser_Ends.thy ===== *)
theory T81_Parser_Ends
  imports T81_Parser_Rules
begin

text \<open>
  Expressions, statements and the recursion: the parser reads every source to its end.
\<close>

section \<open>Expressions\<close>

lemma fine_binary_loop [fine_intros]: "fine k operand \<Longrightarrow> fine k (binary_loop ops operand e)"
  unfolding binary_loop_def by (intro fine_loop steps_on steps_end fine_intros)

lemma eats_binary_level [eats_intros]: "eats (Suc k) operand \<Longrightarrow> eats (Suc k) (binary_level ops operand)"
  unfolding binary_level_def by (rule eats_bind_first, assumption, rule fine_binary_loop, erule eats_Suc_fine)

lemma fine_literals [fine_intros]:
  assumes "grammar_ok k g"
  shows "fine k (enum_literal g t v)" "fine k (record_literal g t)" "fine k (vector_literal g t)" "fine k (arguments g)"
proof -
  have st1: "steps k (record_literal_step g fs)" for fs
    unfolding record_literal_step_def by (intro steps_later [where p = "check ty" for ty] steps_if steps_end
        steps_later [where p = "record_field g"] steps_on) (auto simp: record_field_def intro!: fine_intros assms)
  have st2: "steps k (elements_step g es)" for es
    unfolding elements_step_def by (intro steps_on steps_end fine_intros assms)
  have st3: "steps k (bind (r_expression g) (\<lambda>e. on [Punctuation Comma] (ret (Inl (as @ [e]))) (ret (Inr (as @ [e])))))" for as
    by (intro steps_later steps_on steps_end fine_intros assms)
  show "fine k (enum_literal g t v)" "fine k (record_literal g t)" "fine k (vector_literal g t)" "fine k (arguments g)"
    unfolding enum_literal_def record_literal_def vector_literal_def arguments_def by (intro fine_intros st1 st2 st3 assms)+
qed

lemma fine_named [fine_intros]: "grammar_ok k g \<Longrightarrow> fine k (named g t)"
  unfolding named_def by (intro fine_intros)

definition type_tail :: "rules \<Rightarrow> token \<Rightarrow> expr parser" where
  "type_tail g name = bind peek_type (\<lambda>ty.
       if ty = Operator OpLess then
         seq (report_here ''Legacy '<...>' syntax for generics is not supported. Use '[...]' instead.'') (ret NullExpr)
       else bind (check (Punctuation LBracket)) (\<lambda>b.
         if b then parse_generic_type g name else ret (SimpleTypeExpr name)))"

lemma fine_type_tail [fine_intros]: "grammar_ok k g \<Longrightarrow> fine k (type_tail g name)"
  unfolding type_tail_def by (intro fine_intros)

lemma eats_generic_type: "grammar_ok k g \<Longrightarrow> eats (Suc k) (parse_generic_type g name)"
  unfolding parse_generic_type_def by (intro eats_intros fine_intros steps_generic)

lemma fine_type_rule: "grammar_ok k g \<Longrightarrow> fine (Suc k) (type_rule g)"
  unfolding type_rule_def by (intro fine_intros eats_fine [OF eats_generic_type])

lemma type_rule_start:
  assumes "is_type_start_token (pcurrent s)"
  shows "type_rule g s = bind advance_token (type_tail g) s" "awake [] s"
proof -
  have "Eof \<notin> set type_starts" by code_simp
  then show "awake [] s" using assms by (auto simp: awake_def at_end_def is_type_start_token_def)
  then have "list_ex (\<lambda>ty. checks ty s) type_starts"
    using assms by (auto simp: awake_def list_ex_iff checks_def is_type_start_token_def)
  then show "type_rule g s = bind advance_token (type_tail g) s"
    by (simp add: type_rule_def type_tail_def [abs_def] is_type_start_def check_any_def bind_def [where p = "check_any tys" for tys])
qed

lemma eats_type_or_throw: "grammar_ok k g \<Longrightarrow>
  eats (Suc k) (bind peek (\<lambda>t. if is_type_start_token t then bind (type_rule g) (\<lambda>e. ret (Inr e)) else seq (report_here msg) throw))"
  (is "_ \<Longrightarrow> eats (Suc k) ?p")
proof (rule runsI)
  fix s assume g: "grammar_ok k g" and s: "stream_ok s" "left s < Suc k"
  show "(\<exists>x s'. ?p s = Done x s' \<and> suffix (stream s') (stream s) \<and> (True \<longrightarrow> left s' < left s)) \<or>
    (\<exists>s'. ?p s = Thrown s' \<and> suffix (stream s') (stream s))"
  proof (cases "is_type_start_token (pcurrent s)")
    case True
    have "?p s = bind (bind advance_token (type_tail g)) (\<lambda>e. ret (Inr e)) s"
      using True type_rule_start(1) [OF True, of g] by (simp add: bind_def peek_def)
    moreover have "runs (awake []) (Suc k) (\<lambda>_. True) (bind (bind advance_token (type_tail g)) (\<lambda>e. ret (Inr e)))"
    proof (rule runs_bind [where E = "\<lambda>_. True" and j = k])
      show "runs (awake []) (Suc k) (\<lambda>_. True) (bind advance_token (type_tail g))"
        by (rule runs_bind [where E = "\<lambda>_. True" and j = k and P = "awake []"])
          (auto intro!: fine_intros g runs_weaken [OF advance_runs] simp: awake_def)
    qed (auto intro!: fine_intros)
    ultimately show ?thesis using runsD [where P = "awake []", OF _ s type_rule_start(2) [OF True]] by (simp only:) blast
  qed (simp add: bind_def peek_def seq_def report_here_def report_error_def throw_def stream_def)
qed

lemma eats_primary_head: "grammar_ok k g \<Longrightarrow> eats (Suc k) (primary_head g)"
  unfolding primary_head_def
  by (intro eats_intros eats_type_or_throw eats_bind_first [OF eats_if] eats_bind_first [OF eats_block] fine_intros)

lemma steps_postfix: "grammar_ok k g \<Longrightarrow> steps k (postfix_step g e)"
  unfolding postfix_step_def
  by (intro steps_on steps_later [where p = "check ty" for ty] steps_if steps_end steps_first [OF eats_consume] fine_intros)

lemma eats_primary: "grammar_ok k g \<Longrightarrow> eats (Suc k) (primary g)"
  unfolding primary_def by (intro eats_bind_first [OF eats_primary_head] fine_intros steps_postfix)

lemma eats_unary: "grammar_ok k g \<Longrightarrow> eats (Suc k) (unary_rule g)"
  unfolding unary_rule_def by (intro eats_intros eats_primary fine_intros)

lemma eats_exponent: "grammar_ok k g \<Longrightarrow> eats (Suc k) (exponent_rule g)"
  unfolding exponent_rule_def by (intro eats_bind_first [OF eats_unary] fine_intros)

lemma eats_equality: "grammar_ok k g \<Longrightarrow> eats (Suc k) (equality_expr g)"
  unfolding equality_expr_def comparison_expr_def shift_expr_def term_expr_def factor_expr_def
  by (intro eats_binary_level eats_exponent)

lemma eats_range: "grammar_ok k g \<Longrightarrow> eats (Suc k) (range_expr g)"
  unfolding range_expr_def by (intro eats_bind_first [OF eats_equality] fine_intros eats_Suc_fine [OF eats_equality])

lemma eats_logical_or: "grammar_ok k g \<Longrightarrow> eats (Suc k) (logical_or g)"
  unfolding logical_or_def logical_and_def bitwise_or_def bitwise_xor_def bitwise_and_def arrow_expr_def
  by (intro eats_binary_level eats_range)

lemma eats_assignment: "grammar_ok k g \<Longrightarrow> eats (Suc k) (assignment_rule g)"
  unfolding assignment_rule_def by (intro eats_bind_first [OF eats_logical_or] fine_intros)

section \<open>Statements\<close>

lemma fine_statements [fine_intros]:
  assumes "grammar_ok k g"
  shows "fine k (bounded_argument g)" "fine k (for_parts g kind bound)" "fine k (braced g msg mk)" "fine k (parenthesised g m1 m2)"
    "fine k (parameters typed g)" "fine k (recurse_declaration g)"
  unfolding bounded_argument_def for_parts_def braced_def parenthesised_def parameters_def recurse_declaration_def
  by (intro fine_intros assms)+

lemma eats_loop: "grammar_ok k g \<Longrightarrow> eats (Suc k) (loop_statement g)"
proof -
  assume g: "grammar_ok k g"
  have a: "runs (\<lambda>_. True) (Suc k) (\<lambda>r. fst r \<noteq> None) (parse_loop_annotation g)"
    unfolding parse_loop_annotation_def by (intro runs_on [where j = k] runs_ret fine_intros g) simp_all
  show ?thesis
    unfolding loop_statement_def
    by (rule runs_bind [OF a, where j = k]) (auto intro!: eats_intros fine_intros g split: prod.split)
qed

lemma eats_expression_statement: "grammar_ok k g \<Longrightarrow> eats (Suc k) (expression_statement g)"
  unfolding expression_statement_def by (intro eats_bind_first [OF eats_assignment] fine_intros)

lemma eats_statement: "grammar_ok k g \<Longrightarrow> eats (Suc k) (statement_rule g)"
  unfolding statement_rule_def by (intro eats_intros eats_loop eats_expression_statement fine_intros)

lemma eats_function: "grammar_ok k g \<Longrightarrow> eats (Suc k) (function_rule g a)"
  unfolding function_rule_def by (intro eats_intros fine_intros)


section \<open>The recursion\<close>

lemma grammar_fields [simp]:
  "r_expression (grammar n) = assignment n" "r_exponent (grammar n) = exponent n" "r_unary (grammar n) = unary n"
  "r_type (grammar n) = type_expr n" "r_if (grammar n) = if_expression n" "r_block (grammar n) = block_expression n"
  "r_statement (grammar n) = statement n" "r_function (grammar n) = function_decl n" "r_pattern (grammar n) = parse_match_pattern n"
  by (simp_all add: grammar_def knot_def)

lemma grammar_Suc:
  "assignment (Suc n) = assignment_rule (grammar n)" "exponent (Suc n) = exponent_rule (grammar n)"
  "unary (Suc n) = unary_rule (grammar n)" "type_expr (Suc n) = type_rule (grammar n)" "if_expression (Suc n) = if_rule (grammar n)"
  "block_expression (Suc n) = block_rule (grammar n)" "statement (Suc n) = statement_rule (grammar n)"
  "function_decl (Suc n) = function_rule (grammar n)" "parse_match_pattern (Suc n) = pattern_rule (grammar n)"
  by (rule ext, simp add: grammar_def)+

theorem grammar_runs: "grammar_ok n (grammar n)"
proof (induction n)
  case 0
  then show ?case by (simp add: grammar_ok_def runs_def)
next
  case (Suc n)
  show ?case
    unfolding grammar_ok_def [of "Suc n"] grammar_fields grammar_Suc
    by (intro conjI allI Suc eats_assignment eats_exponent eats_unary fine_type_rule eats_if eats_block eats_statement eats_function eats_pattern)
qed

section \<open>Programs\<close>

lemma eats_declaration: "grammar_ok k g \<Longrightarrow> runs (awake []) (Suc k) E (declaration_rule g)"
  unfolding declaration_rule_def
proof (intro runs_catch awake_synchronize fine_intros)
  assume g: "grammar_ok k g"
  let ?p = "bind parse_structural_attributes (\<lambda>struct_attrs.
        bind parse_function_attributes (\<lambda>function_attrs.
        on [Keyword KwType] (type_declaration g)
        (on [Keyword KwRecord] (record_declaration g struct_attrs)
        (on [Keyword KwEnum] (enum_declaration g struct_attrs)
        (seq (misplaced (map_option struct_anchor struct_attrs) not_structural)
        (on [Keyword KwFn] (function_rule g function_attrs)
        (on [Keyword KwRecurse] (recurse_declaration g)
        (seq (misplaced (map_option fn_anchor function_attrs) not_function)
        (on [Keyword KwVar] (var_declaration g)
        (on [Keyword KwLet] (let_declaration g)
        (statement_rule g)))))))))))"
  have "eats (Suc k) ?p"
    unfolding seq_bind
    by (intro eats_bind_later eats_on eats_statement [OF g] eats_Suc_fine [OF eats_function] fine_intros g)
  then show "runs (awake []) (Suc k) E ?p" by (rule awake_eats)
qed (rule awake_same)

lemma advance_done: "\<exists>t s'. advance_token s = Done t s'"
  by (simp add: advance_token_def Let_def)

lemma loop_no_throw:
  assumes "\<And>x s s'. body x s \<noteq> Thrown s'"
  shows "loop body x s \<noteq> Thrown s'"
proof (induction "left s" arbitrary: x s rule: less_induct)
  case less
  with assms [of x s] show ?case by (subst loop.simps) (auto split: presult.split sum.split)
qed

lemma synchronize_no_throw: "synchronize s \<noteq> Thrown s'"
proof -
  let ?b = "\<lambda>_. bind ended (\<lambda>e. bind previous (\<lambda>prev. bind peek_type (\<lambda>ty.
       if e \<or> ttype prev = Punctuation Semicolon \<or>
          ty \<in> {Keyword KwFn, Keyword KwLet, Keyword KwVar, Keyword KwFor, Keyword KwIf, Keyword KwWhile, Keyword KwReturn}
       then ret (Inr ()) else seq advance_token (ret (Inl ())))))"
  have b: "?b x u \<noteq> Thrown v" for x u v
    using advance_done [of u] by (auto simp: bind_def ended_def previous_def peek_type_def ret_def seq_def)
  obtain t s1 where "advance_token s = Done t s1" using advance_done by blast
  then have "synchronize s = loop ?b () s1" unfolding synchronize_def by (simp only: seq_def bind_def presult.case)
  then show ?thesis using loop_no_throw [of ?b, OF b] by simp
qed

lemma declaration_no_throw: "declaration_rule g s \<noteq> Thrown s'"
  using synchronize_no_throw
  by (simp add: declaration_rule_def catch_def seq_bind bind_def [where p = synchronize] ret_def split: presult.split)

lemma loop_result: "loop body x s = Done y s' \<Longrightarrow> \<exists>x0 s0. body x0 s0 = Done (Inr y) s'"
proof (induction "left s" arbitrary: x s rule: less_induct)
  case less
  from less.prems show ?case
    by (subst (asm) loop.simps) (auto split: presult.splits sum.splits if_splits dest: less.hyps)
qed

text \<open>Whatever the tokens are, the program is read to its end.\<close>

lemma parse_program_ends:
  assumes "stream_ok s" "left s \<le> n"
  shows "\<exists>stmts s'. parse_program n s = Done stmts s' \<and> at_end s'"
proof -
  let ?b = "\<lambda>stmts. bind ended (\<lambda>e. if e then ret (Inr stmts) else bind (declaration_rule (grammar n)) (\<lambda>st. ret (Inl (stmts @ [st]))))"
  have "steps (Suc n) (?b stmts)" for stmts
  proof (rule runsI)
    fix s assume s: "stream_ok s" "left s < Suc n"
    show "(\<exists>x s'. ?b stmts s = Done x s' \<and> suffix (stream s') (stream s) \<and> (isl x \<longrightarrow> left s' < left s)) \<or>
      (\<exists>s'. ?b stmts s = Thrown s' \<and> suffix (stream s') (stream s))"
    proof (cases "at_end s")
      case False
      then have a: "awake [] s" by (simp add: awake_def)
      have "runs (awake []) (Suc n) isl (bind (declaration_rule (grammar n)) (\<lambda>st. ret (Inl (stmts @ [st]) :: stmt list + stmt list)))"
        by (intro awake_first eats_declaration grammar_runs fine_intros)
      from runsD [OF this s a] False show ?thesis by (simp add: bind_def [where p = ended] ended_def)
    qed (simp add: bind_def ended_def ret_def)
  qed
  then have "fine (Suc n) (parse_program n)" unfolding parse_program_def by (intro fine_loop)
  moreover have "parse_program n s \<noteq> Thrown s'" for s'
    unfolding parse_program_def using declaration_no_throw
    by (intro loop_no_throw) (auto simp: bind_def ended_def ret_def split: presult.splits)
  ultimately obtain stmts s' where p: "parse_program n s = Done stmts s'"
    using runsD [OF \<open>fine (Suc n) (parse_program n)\<close> assms(1)] assms(2) by auto
  have "at_end s'"
    using loop_result [OF p [unfolded parse_program_def]]
    by (auto simp: bind_def ended_def ret_def split: presult.splits if_splits)
  with p show ?thesis by blast
qed

lemma lex_loop_eof: "\<exists>ts t. lex_loop s = ts @ [t] \<and> ttype t = Eof \<and> (\<forall>u \<in> set ts. ttype u \<noteq> Eof)"
proof (induction s rule: lex_loop.induct)
  case (1 s)
  obtain t s1 where n: "next_token s = (t, s1)" by fastforce
  show ?case
  proof (cases "ttype t = Eof")
    case True
    then show ?thesis by (subst lex_loop.simps) (auto simp: n)
  next
    case False
    with 1 n obtain ts u where "lex_loop s1 = ts @ [u]" "ttype u = Eof" "\<forall>v \<in> set ts. ttype v \<noteq> Eof" by fastforce
    with False show ?thesis by (subst lex_loop.simps) (auto simp: n intro!: exI [of _ "t # ts"])
  qed
qed

lemma init_stream_ok: "stream_ok (init_parser src)"
proof -
  obtain ts t where l: "all_tokens src = ts @ [t]" "ttype t = Eof" "\<forall>u \<in> set ts. ttype u \<noteq> Eof"
    using lex_loop_eof [of "init_lexer src"] by (auto simp: all_tokens_def)
  then have "all_tokens src \<noteq> []" by simp
  then have "stream (init_parser src) = ts @ [t]" using l(1) by (simp add: stream_def init_parser_def Let_def)
  with l show ?thesis by (simp add: stream_ok_def)
qed

lemma parse_ends: "\<exists>stmts s'. parse src = Done stmts s' \<and> at_end s'"
  unfolding parse_def Let_def by (intro parse_program_ends init_stream_ok order_refl)

end
