(* ===== verification/T81_Parser_Trees.thy ===== *)
theory T81_Parser_Trees
  imports T81_Parser_Ends
begin

text \<open>
  What the parser builds without a diagnostic is complete: nothing is missing from the tree where the grammar wants
  something, and the limits of the language are kept.
\<close>

section \<open>Complete trees\<close>

definition is_type :: "expr \<Rightarrow> bool" where
  "is_type e \<longleftrightarrow> (case e of SimpleTypeExpr _ \<Rightarrow> True | GenericTypeExpr _ _ \<Rightarrow> True | _ \<Rightarrow> False)"

definition bound_ok :: "bound_kind \<Rightarrow> int option \<Rightarrow> bool" where
  "bound_ok kind bound \<longleftrightarrow> (kind = BoundStatic \<longleftrightarrow> bound \<noteq> None)"

text \<open>A null pointer is complete by itself; where it is not allowed its parent says so.\<close>

primrec expr_ok :: "expr \<Rightarrow> bool" and stmt_ok :: "stmt \<Rightarrow> bool" where
  "expr_ok NullExpr = True"
| "expr_ok (BinaryExpr l op r) = (l \<noteq> NullExpr \<and> expr_ok l \<and> r \<noteq> NullExpr \<and> expr_ok r)"
| "expr_ok (UnaryExpr op r) = (r \<noteq> NullExpr \<and> expr_ok r)"
| "expr_ok (LiteralExpr t) = True"
| "expr_ok (VectorLiteralExpr t es n) =
     (NullExpr \<notin> set es \<and> list_all id (map expr_ok es) \<and> expr_ok n \<and> (n \<noteq> NullExpr \<longrightarrow> length es = 1))"
| "expr_ok (GroupingExpr e) = (e \<noteq> NullExpr \<and> expr_ok e)"
| "expr_ok (VariableExpr t) = True"
| "expr_ok (CallExpr e t as) = (e \<noteq> NullExpr \<and> expr_ok e \<and> NullExpr \<notin> set as \<and> list_all id (map expr_ok as))"
| "expr_ok (FieldAccessExpr e t) = (e \<noteq> NullExpr \<and> expr_ok e)"
| "expr_ok (RecordLiteralExpr t fs) = (NullExpr \<notin> snd ` set fs \<and> list_all snd (map (map_prod id expr_ok) fs))"
| "expr_ok (EnumLiteralExpr t v p) = expr_ok p"
| "expr_ok (SymbolLiteralExpr t) = True"
| "expr_ok (InfiniteLiteralExpr t e) = (e \<noteq> NullExpr \<and> expr_ok e)"
| "expr_ok (IndexExpr e i t) = (e \<noteq> NullExpr \<and> expr_ok e \<and> i \<noteq> NullExpr \<and> expr_ok i)"
| "expr_ok (MatchExpr e arms) =
     (e \<noteq> NullExpr \<and> expr_ok e \<and> NullExpr \<notin> (snd \<circ> snd \<circ> snd) ` set arms \<and>
      list_all (\<lambda>(_, _, guard, body). guard \<and> body) (map (map_prod id (map_prod id (map_prod expr_ok expr_ok))) arms))"
| "expr_ok (AssignExpr t v) = (assignable t \<and> expr_ok t \<and> v \<noteq> NullExpr \<and> expr_ok v)"
| "expr_ok (BlockExpr ss e) = (NullStmt \<notin> set ss \<and> list_all id (map stmt_ok ss) \<and> expr_ok e)"
| "expr_ok (IfExpr c t e) = (c \<noteq> NullExpr \<and> expr_ok c \<and> t \<noteq> NullExpr \<and> expr_ok t \<and> expr_ok e)"
| "expr_ok (InferExpr t e) = (e \<noteq> NullExpr \<and> expr_ok e)"
| "expr_ok (SimpleTypeExpr t) = True"
| "expr_ok (GenericTypeExpr t ps) =
     (ps \<noteq> [] \<and> length ps \<le> 8 \<and> NullExpr \<notin> set ps \<and> list_all id (map expr_ok ps))"
| "stmt_ok NullStmt = True"
| "stmt_ok (ExpressionStmt e) = (e \<noteq> NullExpr \<and> expr_ok e)"
| "stmt_ok (VarStmt t ty e) = ((ty \<noteq> NullExpr \<longrightarrow> is_type ty) \<and> expr_ok ty \<and> expr_ok e)"
| "stmt_ok (LetStmt t ty e) = ((ty \<noteq> NullExpr \<longrightarrow> is_type ty) \<and> expr_ok ty \<and> e \<noteq> NullExpr \<and> expr_ok e)"
| "stmt_ok (BlockStmt ss) = (NullStmt \<notin> set ss \<and> list_all id (map stmt_ok ss))"
| "stmt_ok (IfStmt c s e) = (c \<noteq> NullExpr \<and> expr_ok c \<and> s \<noteq> NullStmt \<and> stmt_ok s \<and> stmt_ok e)"
| "stmt_ok (WhileStmt c s) = (c \<noteq> NullExpr \<and> expr_ok c \<and> s \<noteq> NullStmt \<and> stmt_ok s)"
| "stmt_ok (LoopStmt t kind bound guard ss) =
     (bound_ok kind bound \<and> (kind = BoundGuarded \<longleftrightarrow> guard \<noteq> NullExpr) \<and> expr_ok guard \<and>
      NullStmt \<notin> set ss \<and> list_all id (map stmt_ok ss))"
| "stmt_ok (ForStmt t e s kind bound) =
     (e \<noteq> NullExpr \<and> expr_ok e \<and> s \<noteq> NullStmt \<and> stmt_ok s \<and> bound_ok kind bound)"
| "stmt_ok (ReflectStmt t ss) = (NullStmt \<notin> set ss \<and> list_all id (map stmt_ok ss))"
| "stmt_ok (DistributedStmt t ss) = (NullStmt \<notin> set ss \<and> list_all id (map stmt_ok ss))"
| "stmt_ok (InfiniteStmt t ss) = (NullStmt \<notin> set ss \<and> list_all id (map stmt_ok ss))"
| "stmt_ok (TrainStmt t e ss) = (e \<noteq> NullExpr \<and> expr_ok e \<and> NullStmt \<notin> set ss \<and> list_all id (map stmt_ok ss))"
| "stmt_ok (ReturnStmt t e) = expr_ok e"
| "stmt_ok (BreakStmt t) = True"
| "stmt_ok (ContinueStmt t) = True"
| "stmt_ok (RecurseStmt t n ps ss) =
     (length ps \<le> 255 \<and> (\<forall>ty \<in> snd ` set ps. ty \<noteq> NullExpr \<longrightarrow> is_type ty) \<and> list_all snd (map (map_prod id expr_ok) ps) \<and>
      NullStmt \<notin> set ss \<and> list_all id (map stmt_ok ss))"
| "stmt_ok (FunctionStmt t gs ps r ss tier) =
     (length gs \<le> 8 \<and> length ps \<le> 255 \<and> (\<forall>ty \<in> snd ` set ps. is_type ty) \<and> list_all snd (map (map_prod id expr_ok) ps) \<and>
      (r \<noteq> NullExpr \<longrightarrow> is_type r) \<and> expr_ok r \<and> NullStmt \<notin> set ss \<and> list_all id (map stmt_ok ss) \<and>
      (case tier of None \<Rightarrow> True | Some v \<Rightarrow> 1 \<le> v \<and> v \<le> 5))"
| "stmt_ok (TypeDecl t gs ty) = (length gs \<le> 8 \<and> is_type ty \<and> expr_ok ty)"
| "stmt_ok (RecordDecl t fs version path) =
     ((\<forall>ty \<in> snd ` set fs. is_type ty) \<and> list_all snd (map (map_prod id expr_ok) fs) \<and>
      (case version of None \<Rightarrow> True | Some v \<Rightarrow> 0 < v))"
| "stmt_ok (EnumDecl t vs version path) =
     ((\<forall>ty \<in> snd ` set vs. ty \<noteq> NullExpr \<longrightarrow> is_type ty) \<and> list_all snd (map (map_prod id expr_ok) vs) \<and>
      (case version of None \<Rightarrow> True | Some v \<Rightarrow> 0 < v))"

definition given :: "expr \<Rightarrow> bool" where
  "given e \<longleftrightarrow> e \<noteq> NullExpr \<and> expr_ok e"

definition given_type :: "expr \<Rightarrow> bool" where
  "given_type e \<longleftrightarrow> is_type e \<and> expr_ok e"

definition maybe_type :: "expr \<Rightarrow> bool" where
  "maybe_type e \<longleftrightarrow> (e \<noteq> NullExpr \<longrightarrow> is_type e) \<and> expr_ok e"

definition given_stmt :: "stmt \<Rightarrow> bool" where
  "given_stmt s \<longleftrightarrow> s \<noteq> NullStmt \<and> stmt_ok s"

section \<open>Results without diagnostics\<close>

text \<open>
  Diagnostics are never taken back, there is one when the parser throws, and without any the result is as \<open>Q\<close> says.
\<close>

definition clean :: "('a \<Rightarrow> bool) \<Rightarrow> 'a parser \<Rightarrow> bool" where
  "clean Q p \<longleftrightarrow> (\<forall>s. case p s of
     Done x s' \<Rightarrow> diagnostics s' = [] \<longrightarrow> diagnostics s = [] \<and> Q x
   | Thrown s' \<Rightarrow> diagnostics s' \<noteq> []
   | Stuck \<Rightarrow> True)"

definition grows :: "'a parser \<Rightarrow> bool" where
  "grows p \<longleftrightarrow> (\<forall>s. diagnostics s \<noteq> [] \<longrightarrow> (case p s of
     Done x s' \<Rightarrow> diagnostics s' \<noteq> [] | Thrown s' \<Rightarrow> diagnostics s' \<noteq> [] | Stuck \<Rightarrow> True))"

named_theorems clean_intros
named_theorems grows_intros

lemma cleanI:
  assumes "\<And>s x s'. p s = Done x s' \<Longrightarrow> diagnostics s' = [] \<Longrightarrow> diagnostics s = [] \<and> Q x"
    and "\<And>s s'. p s = Thrown s' \<Longrightarrow> diagnostics s' \<noteq> []"
  shows "clean Q p"
  unfolding clean_def using assms by (auto split: presult.split)

lemma cleanD:
  assumes "clean Q p"
  shows "p s = Done x s' \<Longrightarrow> diagnostics s' = [] \<Longrightarrow> diagnostics s = [] \<and> Q x" "p s = Thrown s' \<Longrightarrow> diagnostics s' \<noteq> []"
  using assms unfolding clean_def by (auto dest: spec [where x = s])

lemma growsI:
  assumes "\<And>s x s'. p s = Done x s' \<Longrightarrow> diagnostics s' = [] \<Longrightarrow> diagnostics s = []"
    and "\<And>s s'. p s = Thrown s' \<Longrightarrow> diagnostics s \<noteq> [] \<Longrightarrow> diagnostics s' \<noteq> []"
  shows "grows p"
  unfolding grows_def using assms by (auto split: presult.split)

lemma growsD:
  assumes "grows p"
  shows "p s = Done x s' \<Longrightarrow> diagnostics s' = [] \<Longrightarrow> diagnostics s = []" "p s = Thrown s' \<Longrightarrow> diagnostics s \<noteq> [] \<Longrightarrow> diagnostics s' \<noteq> []"
  using assms unfolding grows_def by (auto dest: spec [where x = s])

lemma clean_grows: "clean Q p \<Longrightarrow> grows p"
  by (rule growsI) (auto dest: cleanD)

lemma clean_weaken: "clean P p \<Longrightarrow> (\<And>x. P x \<Longrightarrow> Q x) \<Longrightarrow> clean Q p"
  by (rule cleanI) (auto dest: cleanD)

lemma clean_ret [clean_intros]: "Q x \<Longrightarrow> clean Q (ret x)"
  by (rule cleanI) (simp_all add: ret_def)

lemma bind_Done: "bind p q s = Done y s' \<longleftrightarrow> (\<exists>x s1. p s = Done x s1 \<and> q x s1 = Done y s')"
  by (simp add: bind_def split: presult.split)

lemma bind_Thrown: "bind p q s = Thrown s' \<longleftrightarrow> p s = Thrown s' \<or> (\<exists>x s1. p s = Done x s1 \<and> q x s1 = Thrown s')"
  by (auto simp: bind_def split: presult.split)

lemma grows_bind [grows_intros]: "grows p \<Longrightarrow> (\<And>x. grows (q x)) \<Longrightarrow> grows (bind p q)"
  by (rule growsI) (auto simp: bind_Done bind_Thrown dest: growsD)

lemma grows_steps [grows_intros]:
  "grows (ret x)" "grows throw" "grows peek" "grows previous" "grows peek_type" "grows (check ty)" "grows (check_any tys)"
  "grows ended" "grows peek_next_tok" "grows (match_any tys)" "grows advance_token" "grows (report_error t msg)"
  "grows (report_here msg)" "grows (consume_token ty msg)" "grows is_type_start"
  by (rule growsI;
      auto simp: ret_def throw_def peek_def previous_def peek_type_def check_def check_any_def ended_def peek_next_tok_def
        match_any_def advance_token_def forward_def report_error_def report_here_def consume_token_def is_type_start_def
        seq_def bind_def Let_def split: if_splits list.splits)+

lemma grows_seq [grows_intros]: "grows p \<Longrightarrow> grows q \<Longrightarrow> grows (seq p q)"
  unfolding seq_bind by (rule grows_bind)

lemma grows_on [grows_intros]: "grows p \<Longrightarrow> grows q \<Longrightarrow> grows (on tys p q)"
  unfolding on_def by (intro grows_bind grows_steps) simp

lemma grows_catch [grows_intros]: "grows p \<Longrightarrow> grows h \<Longrightarrow> grows (catch p h)"
  by (rule growsI) (auto simp: catch_def split: presult.splits dest: growsD)

lemma grows_branches [grows_intros]:
  "grows p \<Longrightarrow> grows q \<Longrightarrow> grows (if b then p else q)"
  "(\<And>x y. grows (f x y)) \<Longrightarrow> grows (case z of (x, y) \<Rightarrow> f x y)"
  "grows p \<Longrightarrow> (\<And>x. grows (h x)) \<Longrightarrow> grows (case r of None \<Rightarrow> p | Some x \<Rightarrow> h x)"
  "(\<And>x. grows (u x)) \<Longrightarrow> (\<And>y. grows (v y)) \<Longrightarrow> grows (case w of Inl x \<Rightarrow> u x | Inr y \<Rightarrow> v y)"
  "(\<And>x. grows (l x)) \<Longrightarrow> grows (let x = e in l x)"
  by (auto split: prod.split option.split sum.split)

lemma loop_Done:
  "loop body x s = Done y s' \<longleftrightarrow> body x s = Done (Inr y) s' \<or>
     (\<exists>x' s1. body x s = Done (Inl x') s1 \<and> left s1 < left s \<and> loop body x' s1 = Done y s')"
  by (subst loop.simps) (simp split: presult.split sum.split)

lemma loop_Thrown:
  "loop body x s = Thrown s' \<longleftrightarrow> body x s = Thrown s' \<or>
     (\<exists>x' s1. body x s = Done (Inl x') s1 \<and> left s1 < left s \<and> loop body x' s1 = Thrown s')"
  by (subst loop.simps) (auto split: presult.split sum.split)

lemma loop_grows:
  assumes "\<And>x. grows (body x)"
  shows "(loop body x s = Done y s' \<longrightarrow> diagnostics s' = [] \<longrightarrow> diagnostics s = []) \<and>
    (loop body x s = Thrown s' \<longrightarrow> diagnostics s \<noteq> [] \<longrightarrow> diagnostics s' \<noteq> [])"
proof (induction "left s" arbitrary: x s rule: less_induct)
  case less
  show ?case
    by (simp only: loop_Done [of body x s] loop_Thrown [of body x s]) (metis less.hyps growsD assms)
qed

lemma grows_loop [grows_intros]:
  assumes "\<And>x. grows (body x)"
  shows "grows (loop body x)"
  by (rule growsI) (use loop_grows [of body, OF assms] in blast)+

lemma clean_bind [clean_intros]:
  assumes p: "clean P p" and q: "\<And>x. P x \<Longrightarrow> clean Q (q x)" and g: "\<And>x. grows (q x)"
  shows "clean Q (bind p q)"
proof (rule cleanI)
  fix s y s' assume b: "bind p q s = Done y s'" "diagnostics s' = []"
  then obtain x s1 where r: "p s = Done x s1" "q x s1 = Done y s'" by (auto simp: bind_Done)
  then have "diagnostics s1 = []" using growsD(1) [OF g] b(2) by blast
  with cleanD(1) [OF p r(1)] have "diagnostics s = []" "P x" by simp_all
  with cleanD(1) [OF q r(2) b(2)] show "diagnostics s = [] \<and> Q y" by simp
next
  fix s s' assume "bind p q s = Thrown s'"
  then consider "p s = Thrown s'" | x s1 where "p s = Done x s1" "q x s1 = Thrown s'" by (auto simp: bind_Thrown)
  then show "diagnostics s' \<noteq> []"
  proof cases
    case 1
    with cleanD(2) [OF p] show ?thesis by blast
  next
    case 2
    then show ?thesis
    proof (cases "diagnostics s1 = []")
      case True
      with cleanD(1) [OF p 2(1)] have "P x" by simp
      with cleanD(2) [OF q 2(2)] show ?thesis by simp
    qed (use growsD(2) [OF g 2(2)] in simp)
  qed
qed

section \<open>No rule takes diagnostics back\<close>

definition grammar_grows :: "rules \<Rightarrow> bool" where
  "grammar_grows g \<longleftrightarrow> grows (r_expression g) \<and> grows (r_exponent g) \<and> grows (r_unary g) \<and> grows (r_type g) \<and>
     grows (r_if g) \<and> grows (r_block g) \<and> grows (r_statement g) \<and> (\<forall>a. grows (r_function g a)) \<and> grows (r_pattern g)"

lemma grammar_growsD [grows_intros]:
  assumes "grammar_grows g"
  shows "grows (r_expression g)" "grows (r_exponent g)" "grows (r_unary g)" "grows (r_type g)" "grows (r_if g)"
    "grows (r_block g)" "grows (r_statement g)" "grows (r_function g a)" "grows (r_pattern g)"
  using assms by (simp_all add: grammar_grows_def)

lemma grows_skips [grows_intros]:
  "grows (skip_to tys)" "grows synchronize" "grows skip_field" "grows (misplaced a msg)" "grows (skip_member msg)"
  unfolding skip_to_def synchronize_def skip_field_def misplaced_def skip_member_def by (intro grows_intros)+

lemma grows_comma_list [grows_intros]: "(\<And>n. grows (item n)) \<Longrightarrow> grows (comma_list item)"
  unfolding comma_list_def by (intro grows_intros)

lemma grows_generic_parameters [grows_intros]: "grows generic_parameters"
  unfolding generic_parameters_def generic_parameter_def by (intro grows_intros)

lemma grows_types [grows_intros]:
  assumes "grammar_grows g"
  shows "grows (generic_argument g)" "grows (generic_step g name ps)"
    "grows (parse_generic_type g name)" "grows (type_rule g)" "grows (optional_type g)"
  unfolding generic_argument_def generic_step_def parse_generic_type_def
    type_rule_def optional_type_def
  by (intro grows_intros assms)+

lemma grows_patterns [grows_intros]:
  assumes "grammar_grows g"
  shows "grows (pattern_rule g)" "grows (arm_pattern g)" "grows (arm_guard g)" "grows (match_arm g)"
    "grows (arms_step g arms)" "grows (match_expression g)"
  unfolding pattern_rule_def arm_pattern_def arm_guard_def match_arm_def arms_step_def match_expression_def
    record_pattern_def record_pattern_step_def record_binding_def tuple_step_def
  by (intro grows_intros assms)+

lemma grows_literals [grows_intros]:
  assumes "grammar_grows g"
  shows "grows (enum_literal g t v)" "grows (record_literal g t)" "grows (vector_literal g t)" "grows (named g t)"
  unfolding enum_literal_def record_literal_def record_literal_step_def record_field_def vector_literal_def
    elements_step_def named_def
  by (intro grows_intros assms)+

lemma grows_attribute_steps [grows_intros]:
  "grows (schema_attribute name a)" "grows (module_attribute name a)" "grows (tier_attribute name b)"
  "grows (structural_step seen)" "grows (function_step seen')"
  unfolding structural_step_def function_step_def schema_attribute_def module_attribute_def module_segments_def
    tier_attribute_def
  by (intro grows_intros)+

lemma grows_attributes [grows_intros]: "grows parse_structural_attributes" "grows parse_function_attributes"
  unfolding parse_structural_attributes_def parse_function_attributes_def by (intro grows_intros)+

lemma grows_members [grows_intros]: "grows member \<Longrightarrow> grows (members msg member)"
  unfolding members_def by (intro grows_intros)

lemma grows_declarations [grows_intros]:
  assumes "grammar_grows g"
  shows "grows (var_declaration g)" "grows (let_declaration g)" "grows (type_declaration g)"
    "grows (record_declaration g a)" "grows (enum_declaration g a)"
  unfolding var_declaration_def let_declaration_def type_declaration_def record_declaration_def enum_declaration_def
    record_member_def enum_member_def
  by (intro grows_intros assms)+

lemma grows_blocks [grows_intros]:
  assumes "grammar_grows g"
  shows "grows (else_expression g)" "grows (else_statement g)" "grows (if_head g)" "grows (if_rule g)"
    "grows (block_step g stmts)" "grows (parse_block_body g)" "grows (block_stmts g)" "grows (block_rule g)"
  unfolding else_expression_def else_statement_def if_head_def if_rule_def block_step_def block_statement_def block_if_def
    block_block_def block_expr_def add_def parse_block_body_def block_stmts_def block_rule_def
  by (intro grows_intros assms)+

lemma grows_binary_level [grows_intros]: "grows p \<Longrightarrow> grows (binary_level ops p)"
  unfolding binary_level_def binary_loop_def by (intro grows_intros)

lemma grows_expressions [grows_intros]:
  assumes "grammar_grows g"
  shows "grows (primary_head g)" "grows (postfix_step g e)" "grows (unary_rule g)" "grows (exponent_rule g)"
    "grows (logical_or g)" "grows (assignment_rule g)"
  unfolding primary_head_def postfix_step_def arguments_def unary_rule_def primary_def exponent_rule_def
    assignment_rule_def logical_or_def logical_and_def bitwise_or_def bitwise_xor_def bitwise_and_def arrow_expr_def
    range_expr_def equality_expr_def comparison_expr_def shift_expr_def term_expr_def factor_expr_def
  by (intro grows_intros assms)+

end
