(* ===== verification/T81_Parser_Clean.thy ===== *)
theory T81_Parser_Clean
  imports T81_Parser_Trees
begin

text \<open>
  Every rule of the grammar builds complete trees, unless it reports something.
\<close>

section \<open>The calculus\<close>

lemma clean_steps [clean_intros]:
  "clean (\<lambda>_. True) peek" "clean (\<lambda>_. True) previous" "clean (\<lambda>_. True) peek_type" "clean (\<lambda>_. True) (check ty)"
  "clean (\<lambda>_. True) (check_any tys)" "clean (\<lambda>_. True) ended" "clean (\<lambda>_. True) peek_next_tok"
  "clean (\<lambda>_. True) (match_any tys)" "clean (\<lambda>_. True) advance_token" "clean (\<lambda>_. False) (report_error t msg)"
  "clean (\<lambda>_. False) (report_here msg)" "clean (\<lambda>_. True) (consume_token ty msg)" "clean (\<lambda>_. True) is_type_start"
  by (rule cleanI;
      auto simp: throw_def peek_def previous_def peek_type_def check_def check_any_def ended_def peek_next_tok_def
        match_any_def advance_token_def forward_def report_error_def report_here_def consume_token_def is_type_start_def
        seq_def bind_def Let_def split: if_splits list.splits)+

text \<open>After a report nothing is claimed, and throwing is allowed only there.\<close>

lemma clean_seq [clean_intros]:
  "clean P p \<Longrightarrow> (\<And>x. P x \<Longrightarrow> clean Q q) \<Longrightarrow> grows q \<Longrightarrow> clean Q (seq p q)"
  unfolding seq_bind by (rule clean_bind)

lemma clean_on [clean_intros]: "clean Q p \<Longrightarrow> clean Q q \<Longrightarrow> clean Q (on tys p q)"
  unfolding on_def
  by (rule cleanI) (auto simp: bind_def match_any_def forward_def dest: cleanD split: presult.splits if_splits list.splits)

lemma clean_catch [clean_intros]: "clean Q p \<Longrightarrow> grows h \<Longrightarrow> clean Q (catch p h)"
  by (rule cleanI) (auto simp: catch_def split: presult.splits dest: cleanD growsD)

lemma clean_if [clean_intros]: "(b \<Longrightarrow> clean Q p) \<Longrightarrow> (\<not> b \<Longrightarrow> clean Q q) \<Longrightarrow> clean Q (if b then p else q)"
  by simp

lemma clean_loop:
  assumes "I x" and body: "\<And>x. I x \<Longrightarrow> clean (case_sum I Q) (body x)" and g: "\<And>x. grows (body x)"
  shows "clean Q (loop body x)"
proof -
  have "I x \<Longrightarrow> (loop body x s = Done y s' \<longrightarrow> diagnostics s' = [] \<longrightarrow> diagnostics s = [] \<and> Q y) \<and>
      (loop body x s = Thrown s' \<longrightarrow> diagnostics s' \<noteq> [])" for x s s' y
  proof (induction "left s" arbitrary: x s rule: less_induct)
    case less
    note c = cleanD [OF body [OF less.prems]] and h = less.hyps and l = loop_grows [of body, OF g]
    show ?case
    proof (intro conjI impI)
      assume "loop body x s = Done y s'" "diagnostics s' = []"
      then show "diagnostics s = []" using l by blast
      from \<open>loop body x s = Done y s'\<close> consider "body x s = Done (Inr y) s'"
        | x' s1 where "body x s = Done (Inl x') s1" "left s1 < left s" "loop body x' s1 = Done y s'"
        by (auto simp: loop_Done [of body x s])
      then show "Q y"
      proof cases
        case 1
        with c(1) \<open>diagnostics s' = []\<close> show ?thesis by fastforce
      next
        case 2
        with l \<open>diagnostics s' = []\<close> have "diagnostics s1 = []" by blast
        with c(1) [OF 2(1)] have "I x'" by simp
        with h [OF 2(2)] 2(3) \<open>diagnostics s' = []\<close> show ?thesis by blast
      qed
    next
      assume "loop body x s = Thrown s'"
      then consider "body x s = Thrown s'"
        | x' s1 where "body x s = Done (Inl x') s1" "left s1 < left s" "loop body x' s1 = Thrown s'"
        by (auto simp: loop_Thrown [of body x s])
      then show "diagnostics s' \<noteq> []"
      proof cases
        case 1
        with c(2) show ?thesis by blast
      next
        case 2
        show ?thesis
        proof (cases "diagnostics s1 = []")
          case True
          with c(1) [OF 2(1)] have "I x'" by simp
          with h [OF 2(2)] 2(3) show ?thesis by blast
        next
          case False
          with l 2(3) show ?thesis by blast
        qed
      qed
    qed
  qed
  with \<open>I x\<close> show ?thesis by (intro cleanI) blast+
qed

lemma clean_case_sum [clean_intros]:
  "(\<And>x. w = Inl x \<Longrightarrow> clean Q (u x)) \<Longrightarrow> (\<And>y. w = Inr y \<Longrightarrow> clean Q (v y)) \<Longrightarrow>
    clean Q (case w of Inl x \<Rightarrow> u x | Inr y \<Rightarrow> v y)"
  by (simp split: sum.split)

lemma clean_case_option [clean_intros]:
  "(r = None \<Longrightarrow> clean Q p) \<Longrightarrow> (\<And>x. r = Some x \<Longrightarrow> clean Q (h x)) \<Longrightarrow> clean Q (case r of None \<Rightarrow> p | Some x \<Rightarrow> h x)"
  by (simp split: option.split)

lemma clean_case_prod [clean_intros]:
  "(\<And>x y. z = (x, y) \<Longrightarrow> clean Q (f x y)) \<Longrightarrow> clean Q (case z of (x, y) \<Rightarrow> f x y)"
  by (simp split: prod.split)

section \<open>What the rules promise\<close>

definition tier_ok :: "function_attributes option \<Rightarrow> bool" where
  "tier_ok a \<longleftrightarrow> (case Option.bind a fn_tier of None \<Rightarrow> True | Some v \<Rightarrow> 1 \<le> v \<and> v \<le> 5)"

definition schema_ok :: "structural_attributes option \<Rightarrow> bool" where
  "schema_ok a \<longleftrightarrow> (case Option.bind a schema_version of None \<Rightarrow> True | Some v \<Rightarrow> 0 < v)"

definition grammar_clean :: "rules \<Rightarrow> bool" where
  "grammar_clean g \<longleftrightarrow> clean given (r_expression g) \<and> clean given (r_exponent g) \<and> clean given (r_unary g) \<and>
     clean given_type (r_type g) \<and> clean given (r_if g) \<and> clean given (r_block g) \<and> clean given_stmt (r_statement g) \<and>
     (\<forall>a. tier_ok a \<longrightarrow> clean given_stmt (r_function g a)) \<and> (\<forall>a. grows (r_function g a)) \<and> clean (\<lambda>_. True) (r_pattern g)"

lemma grammar_cleanD [clean_intros]:
  assumes "grammar_clean g"
  shows "clean given (r_expression g)" "clean given (r_exponent g)" "clean given (r_unary g)" "clean given_type (r_type g)"
    "clean given (r_if g)" "clean given (r_block g)" "clean given_stmt (r_statement g)"
    "tier_ok a \<Longrightarrow> clean given_stmt (r_function g a)" "clean (\<lambda>_. True) (r_pattern g)"
  using assms by (simp_all add: grammar_clean_def)

lemma grammar_clean_grows: "grammar_clean g \<Longrightarrow> grammar_grows g"
  by (auto simp: grammar_clean_def grammar_grows_def dest: clean_grows)

lemma given_facts: "given e \<Longrightarrow> expr_ok e" "given_type e \<Longrightarrow> given e" "given_type e \<Longrightarrow> maybe_type e" "maybe_type NullExpr"
    "expr_ok NullExpr" "given_stmt s \<Longrightarrow> stmt_ok s"
  by (auto simp: given_def given_type_def maybe_type_def is_type_def given_stmt_def)

lemma all_given [simp]:
  "NullExpr \<notin> set es \<and> list_all id (map expr_ok es) \<longleftrightarrow> (\<forall>e \<in> set es. given e)"
  "NullStmt \<notin> set ss \<and> list_all id (map stmt_ok ss) \<longleftrightarrow> (\<forall>s \<in> set ss. given_stmt s)"
  "list_all snd (map (map_prod id expr_ok) ps) \<longleftrightarrow> (\<forall>p \<in> set ps. expr_ok (snd p))"
  by (auto simp: list_all_iff given_def given_stmt_def)

section \<open>Types\<close>

lemma clean_comma_list [clean_intros]:
  assumes "\<And>n. clean (\<lambda>r. \<forall>x. r = Some x \<longrightarrow> n < k \<and> R x) (item n)"
  shows "clean (\<lambda>xs. length xs \<le> k \<and> (\<forall>x \<in> set xs. R x)) (comma_list item)"
  unfolding comma_list_def
  by (rule clean_loop [where I = "\<lambda>xs. length xs \<le> k \<and> (\<forall>x \<in> set xs. R x)"];
      (rule clean_bind assms clean_intros grows_intros clean_grows [OF assms] | (auto; fail))+)

lemma clean_generic_parameters [clean_intros]: "clean (\<lambda>ps. length ps \<le> 8) generic_parameters"
proof -
  have item: "clean (\<lambda>r. \<forall>x. r = Some x \<longrightarrow> n < 8 \<and> True) (generic_parameter n)" for n
    unfolding generic_parameter_def by (rule clean_intros grows_intros | (auto; fail))+
  show ?thesis
    unfolding generic_parameters_def
    by (rule clean_on clean_ret clean_bind [OF clean_comma_list [OF item]] clean_intros grows_intros | (auto; fail))+
qed

text \<open>A rule of the grammar where less is asked for than it gives.\<close>

lemmas clean_less = grammar_cleanD(1) [THEN clean_weaken] grammar_cleanD(2) [THEN clean_weaken]
  grammar_cleanD(3) [THEN clean_weaken] grammar_cleanD(4) [THEN clean_weaken] grammar_cleanD(5) [THEN clean_weaken]
  grammar_cleanD(6) [THEN clean_weaken] grammar_cleanD(7) [THEN clean_weaken]

lemma clean_generic_argument [clean_intros]: "grammar_clean g \<Longrightarrow> clean given (generic_argument g)"
  unfolding generic_argument_def
  by (rule clean_intros clean_less grows_intros grammar_clean_grows given_facts | assumption)+

lemma clean_generic_step:
  assumes "grammar_clean g" "ps \<noteq> []" "length ps \<le> 8" "\<forall>p \<in> set ps. given p"
  shows "clean (case_sum (\<lambda>ps. ps \<noteq> [] \<and> length ps \<le> 8 \<and> (\<forall>p \<in> set ps. given p))
    (\<lambda>ps. ps \<noteq> [] \<and> length ps \<le> 8 \<and> (\<forall>p \<in> set ps. given p))) (generic_step g name ps)"
proof -
  have p: "clean given (if lexeme name = ''Result'' \<and> length ps = 1 then r_type g else generic_argument g)"
    by (rule clean_intros clean_less given_facts assms | assumption)+
  show ?thesis
    unfolding generic_step_def
    by (rule p clean_intros grows_intros grammar_clean_grows assms(1) | assumption | (use assms in auto; fail))+
qed

lemma clean_generic_type [clean_intros]: "grammar_clean g \<Longrightarrow> clean given_type (parse_generic_type g name)"
  unfolding parse_generic_type_def
  by (rule clean_intros clean_loop [where I = "\<lambda>ps. ps \<noteq> [] \<and> length ps \<le> 8 \<and> (\<forall>p \<in> set ps. given p)"]
      clean_generic_step [simplified] grows_intros grammar_clean_grows
    | assumption | (auto simp: given_type_def is_type_def; fail))+

lemma clean_type [clean_intros]: "grammar_clean g \<Longrightarrow> clean given_type (type_rule g)"
  unfolding type_rule_def
  by (rule clean_intros grows_intros grammar_clean_grows | assumption | (auto simp: given_type_def is_type_def; fail))+

lemma clean_optional_type [clean_intros]: "grammar_clean g \<Longrightarrow> clean maybe_type (optional_type g)"
  unfolding optional_type_def
  by (rule clean_intros clean_less given_facts grows_intros grammar_clean_grows | assumption)+


section \<open>Patterns and arms\<close>

lemma clean_record_pattern: "clean (\<lambda>_. True) record_pattern"
proof -
  have b: "clean (\<lambda>_. True) (record_binding t)" for t
    unfolding record_binding_def skip_field_def skip_to_def
    by (rule clean_intros grows_intros | (auto; fail))+
  have s: "grows (record_pattern_step bs)" for bs
    unfolding record_pattern_step_def record_binding_def by (intro grows_intros)
  have "clean (\<lambda>_. True) (record_pattern_step bs)" for bs
    unfolding record_pattern_step_def record_binding_def [symmetric] Let_def
    by (rule b clean_intros clean_grows [OF b] grows_intros | (auto; fail))+
  then have c: "clean (case_sum (\<lambda>_. True) (\<lambda>_. True)) (record_pattern_step bs)" for bs
    by (rule clean_weaken) (simp split: sum.split)
  show ?thesis
    unfolding record_pattern_def
    by (rule clean_intros clean_loop [where I = "\<lambda>_. True"] c s grows_intros | (auto; fail))+
qed

lemma clean_tuple: "clean (\<lambda>_. True) (loop tuple_step bs)" "grows (loop tuple_step bs)"
proof -
  have s: "grows (tuple_step bs)" for bs
    unfolding tuple_step_def by (intro grows_intros)
  show "clean (\<lambda>_. True) (loop tuple_step bs)"
    by (rule clean_loop [where I = "\<lambda>_. True"]; (rule s)?; (unfold tuple_step_def)?;
        (rule clean_intros grows_intros | (auto; fail))+)
  show "grows (loop tuple_step bs)"
    by (intro grows_loop s)
qed

lemma clean_nested:
  "grammar_clean g \<Longrightarrow> clean (\<lambda>_. True) (if b then ret empty_pattern else r_pattern g)"
  by (rule clean_intros | assumption | (simp; fail))+

lemma clean_patterns [clean_intros]:
  assumes g: "grammar_clean g"
  shows "clean (\<lambda>_. True) (pattern_rule g)" "clean (\<lambda>_. True) (arm_pattern g)"
  unfolding pattern_rule_def arm_pattern_def
  by (rule clean_nested [OF g] clean_record_pattern clean_tuple clean_intros grows_intros grammar_clean_grows [OF g]
    | (auto; fail))+

lemma clean_arm_guard [clean_intros]: "grammar_clean g \<Longrightarrow> clean expr_ok (arm_guard g)"
  unfolding arm_guard_def
  by (rule clean_intros clean_less grows_intros grammar_clean_grows | assumption | (simp add: given_def; fail))+

definition arm_ok :: "token \<times> match_pattern \<times> expr \<times> expr \<Rightarrow> bool" where
  "arm_ok a \<longleftrightarrow> (case a of (_, _, guard, body) \<Rightarrow> expr_ok guard \<and> given body)"

lemma clean_match_arm [clean_intros]: "grammar_clean g \<Longrightarrow> clean arm_ok (match_arm g)"
  unfolding match_arm_def
  by (rule clean_intros grows_intros grammar_clean_grows | assumption | (simp add: arm_ok_def; fail))+

lemma clean_arms:
  assumes g: "grammar_clean g" and "\<forall>a \<in> set arms. arm_ok a"
  shows "clean (case_sum (\<lambda>as. \<forall>a \<in> set as. arm_ok a) (\<lambda>as. \<forall>a \<in> set as. arm_ok a)) (arms_step g arms)"
proof -
  note gg = grammar_clean_grows [OF g]
  have "clean (\<lambda>r. \<forall>a. r = Some a \<longrightarrow> arm_ok a) (bind (match_arm g) (\<lambda>arm. ret (Some arm)))"
    by (rule clean_intros grows_intros g | (simp; fail))+
  then have c: "clean (\<lambda>r. \<forall>a. r = Some a \<longrightarrow> arm_ok a) (catch (bind (match_arm g) (\<lambda>arm. ret (Some arm)))
      (seq skip_field (seq (match_any separators) (ret None))))"
    by (rule clean_catch) (intro grows_intros)
  show ?thesis
    unfolding arms_step_def
    by (rule c clean_intros grows_intros gg | assumption | (use assms in auto; fail))+
qed

lemma clean_match [clean_intros]: "grammar_clean g \<Longrightarrow> clean given (match_expression g)"
  unfolding match_expression_def
  by (rule clean_intros clean_loop [where I = "\<lambda>as. \<forall>a \<in> set as. arm_ok a"] clean_arms grows_intros grammar_clean_grows
    | assumption | (fastforce simp: given_def arm_ok_def list_all_iff; fail))+


section \<open>Expressions\<close>

lemma clean_enum_literal [clean_intros]: "grammar_clean g \<Longrightarrow> clean given (enum_literal g t v)"
  unfolding enum_literal_def
  by (rule clean_intros grows_intros grammar_clean_grows | assumption | (simp add: given_def; fail))+

lemma clean_record_literal [clean_intros]:
  assumes g: "grammar_clean g"
  shows "clean given (record_literal g t)"
proof -
  note gg = grammar_clean_grows [OF g]
  have f: "clean (\<lambda>(_, e). given e) (record_field g)" "grows (record_field g)"
    unfolding record_field_def by (rule clean_intros grows_intros g gg | (simp; fail))+
  have s: "grows (record_literal_step g fs)" for fs
    unfolding record_literal_step_def by (intro grows_intros f gg)
  show ?thesis
    unfolding record_literal_def
    by (rule clean_bind [OF clean_loop [where I = "\<lambda>fs. \<forall>(_, e) \<in> set fs. given e" and Q = "\<lambda>fs. \<forall>(_, e) \<in> set fs. given e"]];
        (rule s)?; (unfold record_literal_step_def)?;
        (rule f clean_intros grows_intros gg | assumption | (fastforce simp: given_def; fail))+)
qed

lemma clean_elements:
  assumes g: "grammar_clean g" and e: "given e"
  shows "clean (\<lambda>es. \<forall>e \<in> set es. given e) (loop (elements_step g) [e])"
  by (rule clean_loop [where I = "\<lambda>es. \<forall>e \<in> set es. given e"]; (unfold elements_step_def)?;
      (rule clean_intros grows_intros g grammar_clean_grows | assumption | (use e in auto; fail))+)

lemma clean_vector_literal [clean_intros]:
  assumes g: "grammar_clean g"
  shows "clean given (vector_literal g t)"
proof -
  note gg = grammar_clean_grows [OF g]
  have e: "grows (elements_step g es)" for es
    unfolding elements_step_def by (intro grows_intros gg)
  have c: "clean (\<lambda>(es, n). (\<forall>e \<in> set es. given e) \<and> expr_ok n \<and> (n \<noteq> NullExpr \<longrightarrow> length es = 1))
     (if b then ret ([], NullExpr)
      else bind (r_expression g) (\<lambda>e. on [Punctuation Semicolon]
        (bind (r_expression g) (\<lambda>n. ret ([e], n)))
        (bind (loop (elements_step g) [e]) (\<lambda>es. ret (es, NullExpr)))))" for b
    by (rule clean_elements clean_intros grows_intros e g gg | assumption | (simp add: given_def; fail))+
  have r: "given (VectorLiteralExpr t es n)"
    if "(\<forall>e \<in> set es. given e) \<and> expr_ok n \<and> (n \<noteq> NullExpr \<longrightarrow> length es = 1)" for es n
    using that by (auto simp: given_def list_all_iff)
  show ?thesis
    unfolding vector_literal_def
    by (rule c r clean_intros grows_intros e g gg | assumption | (simp; fail))+
qed

abbreviation given_both :: "expr + expr \<Rightarrow> bool" where
  "given_both \<equiv> case_sum given given"

lemma clean_named [clean_intros]: "grammar_clean g \<Longrightarrow> clean given_both (named g t)"
  unfolding named_def
  by (rule clean_intros clean_less clean_weaken [OF clean_generic_type] grows_intros grammar_clean_grows | assumption
    | (simp add: given_facts; fail) | (simp add: given_def; fail) | (auto; fail))+

lemma clean_binary_level [clean_intros]:
  assumes c: "clean given p"
  shows "clean given (binary_level ops p)"
  unfolding binary_level_def binary_loop_def
  by (rule c clean_loop [where I = given] clean_intros grows_intros clean_grows [OF c] | assumption
    | (simp add: given_def; fail))+

lemma clean_else_expression [clean_intros]: "grammar_clean g \<Longrightarrow> clean expr_ok (else_expression g)"
  unfolding else_expression_def
  by (rule clean_intros clean_less grows_intros grammar_clean_grows | assumption | (simp add: given_def; fail))+

lemma clean_if_head [clean_intros]: "grammar_clean g \<Longrightarrow> clean given (if_head g)"
  unfolding if_head_def by (rule clean_intros grows_intros grammar_clean_grows | assumption)+

lemma clean_if_rule [clean_intros]: "grammar_clean g \<Longrightarrow> clean given (if_rule g)"
  unfolding if_rule_def
  by (rule clean_intros grows_intros grammar_clean_grows | assumption | (simp add: given_def; fail))+

lemma clean_arguments [clean_intros]:
  assumes g: "grammar_clean g"
  shows "clean (\<lambda>as. \<forall>e \<in> set as. given e) (arguments g)"
  unfolding arguments_def
  by (rule clean_loop [where I = "\<lambda>es. \<forall>e \<in> set es. given e"] clean_intros grows_intros g grammar_clean_grows | assumption
    | (auto; fail))+

lemma grows_arguments [grows_intros]: "grammar_grows g \<Longrightarrow> grows (arguments g)"
  unfolding arguments_def by (intro grows_intros)

lemma clean_postfix:
  assumes g: "grammar_clean g" and e: "given e"
  shows "clean given_both (postfix_step g e)"
proof -
  note gg = grammar_clean_grows [OF g]
  have r: "given (CallExpr e t as)" if "\<forall>e \<in> set as. given e" for t as
    using e that by (auto simp: given_def list_all_iff)
  have r': "given (FieldAccessExpr e t)" "given i \<Longrightarrow> given (IndexExpr e i t)" for t i
    using e by (simp_all add: given_def)
  show ?thesis
    unfolding postfix_step_def
    by (rule clean_intros grows_intros g gg | assumption | (simp add: r r' e; fail))+
qed


section \<open>Attributes and declarations\<close>

lemma clean_report_if:
  "clean (\<lambda>_. \<not> b) (if b then report_error t msg else ret ())" "clean (\<lambda>_. \<not> b) (if b then report_here msg else ret ())"
  by (cases b; simp; rule clean_intros clean_weaken [OF clean_steps(10)]; simp)+

lemma clean_structural_attributes [clean_intros]: "clean schema_ok parse_structural_attributes"
proof -
  have v: "clean (\<lambda>a. schema_ok (Some a)) (schema_attribute name a)" if "schema_ok (Some a)" for name a
    unfolding schema_attribute_def
    by (rule clean_report_if clean_intros grows_intros | (use that in \<open>simp add: schema_ok_def\<close>; fail))+
  have p: "clean (\<lambda>_. True) (module_segments path)" for path
    unfolding module_segments_def
    by (rule clean_loop [where I = "\<lambda>_. True"] clean_intros grows_intros | (simp; fail))+
  have m: "clean (\<lambda>a. schema_ok (Some a)) (module_attribute name a)" if "schema_ok (Some a)" for name a
    unfolding module_attribute_def
    by (rule clean_report_if p clean_intros grows_intros clean_grows [OF p] | (use that in \<open>simp add: schema_ok_def\<close>; fail))+
  have n: "clean (\<lambda>a. schema_ok (Some a)) (if b then schema_attribute name a else module_attribute name a)"
    if "schema_ok (Some a)" for b name a
    by (rule clean_if v m that)+
  have s: "clean (case_sum schema_ok schema_ok) (structural_step seen)" if "schema_ok seen" for seen
  proof -
    have a: "schema_ok (Some (case seen of Some a \<Rightarrow> a | None \<Rightarrow> \<lparr>schema_version = None, module_path = None, struct_anchor = Some name\<rparr>))" for name
      using that by (cases seen) (simp_all add: schema_ok_def)
    show ?thesis
      unfolding structural_step_def Let_def
      by (rule n a clean_intros grows_intros | assumption | (use that in simp; fail))+
  qed
  show ?thesis
    unfolding parse_structural_attributes_def
    by (rule clean_loop [where I = schema_ok] s grows_intros | assumption | (simp add: schema_ok_def; fail))+
qed

lemma clean_function_attributes [clean_intros]: "clean tier_ok parse_function_attributes"
proof -
  have v: "clean (\<lambda>a. tier_ok (Some a)) (tier_attribute name a)" if "tier_ok (Some a)" for name a
    unfolding tier_attribute_def
    by (rule clean_report_if clean_intros grows_intros | (use that in \<open>simp add: tier_ok_def\<close>; fail))+
  have s: "clean (case_sum tier_ok tier_ok) (function_step seen)" if "tier_ok seen" for seen
  proof -
    have a: "tier_ok (Some (case seen of Some a \<Rightarrow> a | None \<Rightarrow> \<lparr>fn_tier = None, fn_anchor = Some name\<rparr>))" for name
      using that by (cases seen) (simp_all add: tier_ok_def)
    show ?thesis
      unfolding function_step_def Let_def
      by (rule v a clean_intros grows_intros | assumption | (use that in simp; fail))+
  qed
  show ?thesis
    unfolding parse_function_attributes_def
    by (rule clean_loop [where I = tier_ok] s grows_intros | assumption | (simp add: tier_ok_def; fail))+
qed

lemma clean_misplaced [clean_intros]: "clean (\<lambda>_. a = None) (misplaced a msg)"
  unfolding misplaced_def by (rule clean_intros clean_weaken [OF clean_steps(10)] grows_intros | (simp; fail))+

lemma clean_simple_declarations [clean_intros]:
  assumes g: "grammar_clean g"
  shows "clean given_stmt (var_declaration g)" "clean given_stmt (let_declaration g)" "clean given_stmt (type_declaration g)"
proof -
  note gg = grammar_clean_grows [OF g]
  have i: "clean expr_ok (on [Operator OpEqual] (r_expression g) (ret NullExpr))"
    by (rule clean_intros clean_less [OF g] | (simp add: given_def; fail))+
  show "clean given_stmt (var_declaration g)" "clean given_stmt (let_declaration g)" "clean given_stmt (type_declaration g)"
    unfolding var_declaration_def let_declaration_def type_declaration_def
    by (rule i clean_intros grows_intros g gg | (auto simp: given_stmt_def given_def given_type_def maybe_type_def; fail))+
qed

lemma clean_members:
  assumes c: "clean (\<lambda>(_, ty). R ty) member"
  shows "clean (\<lambda>ms. \<forall>(_, ty) \<in> set ms. R ty) (members msg member)"
  unfolding members_def skip_member_def
  by (rule c clean_loop [where I = "\<lambda>ms. \<forall>(_, ty) \<in> set ms. R ty"] clean_intros grows_intros clean_grows [OF c] | assumption
    | (fastforce; fail))+

lemma clean_type_declarations [clean_intros]:
  assumes g: "grammar_clean g" and a: "schema_ok a"
  shows "clean given_stmt (record_declaration g a)" "clean given_stmt (enum_declaration g a)"
proof -
  note gg = grammar_clean_grows [OF g]
  have r: "clean (\<lambda>(_, ty). given_type ty) (record_member g)" "grows (record_member g)"
    unfolding record_member_def by (rule clean_intros grows_intros g gg | (simp; fail))+
  have e: "clean (\<lambda>(_, ty). maybe_type ty) (enum_member g)" "grows (enum_member g)"
    unfolding enum_member_def
    by (rule clean_bind [where P = maybe_type] clean_intros grows_intros g gg | (simp add: given_facts; fail))+
  show "clean given_stmt (record_declaration g a)" "clean given_stmt (enum_declaration g a)"
    unfolding record_declaration_def enum_declaration_def using a
    by - (rule clean_members [OF r(1)] clean_members [OF e(1)] r e clean_intros grows_intros g gg
      | (force simp: given_stmt_def schema_ok_def given_type_def maybe_type_def; fail))+
qed


section \<open>Blocks\<close>

definition block_ok :: "block_state \<Rightarrow> bool" where
  "block_ok = case_sum (\<lambda>ss. \<forall>s \<in> set ss. given_stmt s) (\<lambda>(ss, e). (\<forall>s \<in> set ss. given_stmt s) \<and> expr_ok e)"

lemma given_stmts [simp]:
  "given_stmt (ExpressionStmt e) \<longleftrightarrow> given e"
  "given_stmt (IfStmt c s s2) \<longleftrightarrow> given c \<and> given_stmt s \<and> stmt_ok s2"
  "given (IfExpr c t e) \<longleftrightarrow> given c \<and> given t \<and> expr_ok e"
  by (auto simp: given_stmt_def given_def)

lemma grows_add [grows_intros]: "grows p \<Longrightarrow> grows (add stmts p)"
  unfolding add_def by (intro grows_intros)

lemma clean_add:
  assumes "clean given_stmt p" and "\<forall>s \<in> set stmts. given_stmt s"
  shows "clean block_ok (add stmts p)"
  unfolding add_def by (rule assms(1) clean_intros grows_intros | (use assms(2) in \<open>auto simp: block_ok_def\<close>; fail))+

lemma clean_else_statement [clean_intros]: "grammar_clean g \<Longrightarrow> clean stmt_ok (else_statement g)"
  unfolding else_statement_def
  by (rule clean_intros clean_less grows_intros | assumption | (simp add: given_stmt_def; fail))+

lemma grows_block_parts [grows_intros]:
  assumes "grammar_grows g"
  shows "grows (block_if g stmts)" "grows (block_block g stmts)" "grows (block_expr g stmts)" "grows (block_statement g stmts)"
  unfolding block_statement_def block_if_def block_block_def block_expr_def by (intro grows_intros assms)+

lemma clean_block_parts:
  assumes g: "grammar_clean g" and s: "\<forall>s \<in> set stmts. given_stmt s"
  shows "clean block_ok (block_if g stmts)" "clean block_ok (block_block g stmts)" "clean block_ok (block_expr g stmts)"
proof -
  note gg = grammar_clean_grows [OF g]
  have i: "clean given_stmt (bind (r_statement g) (\<lambda>then_stmt. bind (else_statement g) (\<lambda>else_stmt.
      ret (IfStmt c then_stmt else_stmt))))" if "given c" for c
    by (rule clean_intros grows_intros g gg | (use that in simp; fail))+
  show "clean block_ok (block_if g stmts)" "clean block_ok (block_block g stmts)" "clean block_ok (block_expr g stmts)"
    unfolding block_if_def block_block_def block_expr_def Let_def
    by (rule clean_add i clean_intros grows_intros g gg | assumption
      | (use s in \<open>auto simp: block_ok_def given_def\<close>; fail))+
qed

lemma clean_block_step:
  assumes g: "grammar_clean g" and s: "\<forall>s \<in> set stmts. given_stmt s"
  shows "clean block_ok (block_step g stmts)"
proof -
  have "tier_ok None" by (simp add: tier_ok_def)
  then show ?thesis
    unfolding block_step_def block_statement_def
    by - (rule clean_add clean_block_parts clean_intros grows_intros g s grammar_clean_grows [OF g] | assumption)+
qed

lemma clean_parse_block_body [clean_intros]:
  assumes g: "grammar_clean g"
  shows "clean (\<lambda>(ss, e). (\<forall>s \<in> set ss. given_stmt s) \<and> expr_ok e) (parse_block_body g)"
proof -
  note gg = grammar_clean_grows [OF g]
  have b: "clean (case_sum (\<lambda>ss. \<forall>s \<in> set ss. given_stmt s) (\<lambda>(ss, e). (\<forall>s \<in> set ss. given_stmt s) \<and> expr_ok e)) (block_step g stmts)"
    if "\<forall>s \<in> set stmts. given_stmt s" for stmts
    using clean_block_step [OF g that] by (simp add: block_ok_def)
  show ?thesis
    unfolding parse_block_body_def
    by (rule clean_loop [where I = "\<lambda>ss. \<forall>s \<in> set ss. given_stmt s"] b clean_intros grows_intros gg | assumption
      | (simp; fail))+
qed

lemma clean_block_stmts [clean_intros]: "grammar_clean g \<Longrightarrow> clean (\<lambda>ss. \<forall>s \<in> set ss. given_stmt s) (block_stmts g)"
  unfolding block_stmts_def
  by (rule clean_intros grows_intros grammar_clean_grows | assumption | (auto simp: given_def; fail))+

lemma clean_block_rule [clean_intros]: "grammar_clean g \<Longrightarrow> clean given (block_rule g)"
  unfolding block_rule_def
  by (rule clean_intros grows_intros grammar_clean_grows | assumption
    | (auto simp: given_def given_stmt_def list_all_iff; fail))+

section \<open>Levels of expressions\<close>

lemma clean_primary_head [clean_intros]:
  assumes g: "grammar_clean g"
  shows "clean given_both (primary_head g)"
  unfolding primary_head_def
  by (rule clean_intros clean_type [THEN clean_weaken] grows_intros g grammar_clean_grows | assumption
    | (auto simp: given_def given_type_def is_type_def; fail))+

lemma clean_unary [clean_intros]:
  assumes g: "grammar_clean g"
  shows "clean given (unary_rule g)"
  unfolding unary_rule_def primary_def
  by (rule clean_loop [where I = given] clean_postfix clean_intros grows_intros g grammar_clean_grows | assumption
    | (simp add: given_def; fail))+

lemma clean_exponent [clean_intros]: "grammar_clean g \<Longrightarrow> clean given (exponent_rule g)"
  unfolding exponent_rule_def
  by (rule clean_intros grows_intros grammar_clean_grows | assumption | (simp add: given_def; fail))+

lemma clean_range: "clean given (equality_expr g) \<Longrightarrow> clean given (range_expr g)"
  unfolding range_expr_def
  by (rule clean_intros grows_intros clean_grows | assumption | (simp add: given_def; fail))+

lemma clean_logical_or [clean_intros]: "grammar_clean g \<Longrightarrow> clean given (logical_or g)"
  unfolding logical_or_def logical_and_def bitwise_or_def bitwise_xor_def bitwise_and_def arrow_expr_def
  by (intro clean_binary_level clean_range)
    (unfold equality_expr_def comparison_expr_def shift_expr_def term_expr_def factor_expr_def,
      intro clean_binary_level clean_exponent)

lemma clean_assignment [clean_intros]: "grammar_clean g \<Longrightarrow> clean given (assignment_rule g)"
  unfolding assignment_rule_def
  by (rule clean_intros clean_weaken [OF clean_steps(10)] grows_intros grammar_clean_grows | assumption
    | (simp add: given_def; fail))+

section \<open>Statements\<close>

definition annotation_ok :: "bound_kind \<times> int option \<times> expr \<Rightarrow> bool" where
  "annotation_ok b \<longleftrightarrow> (case b of (kind, bound, guard) \<Rightarrow>
     bound_ok kind bound \<and> (kind = BoundGuarded \<longleftrightarrow> guard \<noteq> NullExpr) \<and> expr_ok guard)"

lemma grows_bounded_argument [grows_intros]: "grammar_grows g \<Longrightarrow> grows (bounded_argument g)"
  unfolding bounded_argument_def by (intro grows_intros)

lemma clean_bounded_argument: "grammar_clean g \<Longrightarrow> clean annotation_ok (bounded_argument g)"
  unfolding bounded_argument_def
  by (rule clean_intros grows_intros grammar_clean_grows | assumption
    | (simp add: annotation_ok_def bound_ok_def given_def; fail))+

lemma clean_annotation [clean_intros]: "grammar_clean g \<Longrightarrow> clean (\<lambda>(_, b). annotation_ok b) (parse_loop_annotation g)"
  unfolding parse_loop_annotation_def
  by (rule clean_report_if clean_bounded_argument clean_intros grows_intros grammar_clean_grows | assumption
    | (simp add: annotation_ok_def bound_ok_def; fail))+

lemma grows_statements [grows_intros]:
  assumes "grammar_grows g"
  shows "grows (parse_loop_annotation g)" "grows (for_parts g kind bound)" "grows (loop_statement g)" "grows (braced g msg mk)"
    "grows (parenthesised g msg msg')" "grows (expression_statement g)" "grows (parameters typed g)" "grows (statement_rule g)"
    "grows (recurse_declaration g)" "grows (function_rule g a)"
  unfolding parse_loop_annotation_def for_parts_def loop_statement_def braced_def parenthesised_def expression_statement_def
    parameters_def statement_rule_def recurse_declaration_def function_rule_def
  by (intro grows_intros assms)+

lemma clean_statement_parts [clean_intros]:
  assumes g: "grammar_clean g"
  shows "bound_ok kind bound \<Longrightarrow> clean given_stmt (for_parts g kind bound)"
    "(\<And>t ss. \<forall>s \<in> set ss. given_stmt s \<Longrightarrow> given_stmt (mk t ss)) \<Longrightarrow> clean given_stmt (braced g msg mk)"
    "clean given (parenthesised g msg msg')" "clean given_stmt (expression_statement g)"
  unfolding for_parts_def braced_def parenthesised_def expression_statement_def
  by (rule clean_intros grows_intros g grammar_clean_grows | assumption
    | (simp add: given_stmt_def given_def; fail))+

lemma clean_loop_statement [clean_intros]:
  assumes g: "grammar_clean g"
  shows "clean given_stmt (loop_statement g)"
proof -
  have c: "clean (\<lambda>_. True) (case saw of Some attr \<Rightarrow> if b then report_error attr msg else ret () | None \<Rightarrow> ret ())" for saw b msg
    by (rule clean_case_option clean_if clean_ret clean_steps(10) [THEN clean_weaken] TrueI)+
  show ?thesis
    unfolding loop_statement_def
    by (rule c clean_intros grows_intros g grammar_clean_grows | assumption
      | (simp add: annotation_ok_def given_stmt_def; fail))+
qed

lemma clean_train:
  "given e \<Longrightarrow> \<forall>s \<in> set ss. given_stmt s \<Longrightarrow> given_stmt (TrainStmt t e ss)"
  by (auto simp: given_stmt_def given_def list_all_iff)

lemma clean_statement [clean_intros]:
  assumes g: "grammar_clean g"
  shows "clean given_stmt (statement_rule g)"
proof -
  have v: "clean expr_ok (if b then ret NullExpr else r_expression g)" for b
    by (rule clean_intros clean_less g | (simp add: given_def; fail))+
  show ?thesis
    unfolding statement_rule_def
    by (rule v clean_train clean_intros grows_intros g grammar_clean_grows | assumption
      | (simp add: given_stmt_def bound_ok_def; fail) | (simp add: given_stmt_def given_def; fail))+
qed

lemma clean_parameters:
  assumes g: "grammar_clean g"
  shows "clean (\<lambda>ps. length ps \<le> 255 \<and> (\<forall>p \<in> set ps. maybe_type (snd p) \<and> (typed \<longrightarrow> given_type (snd p)))) (parameters typed g)"
proof -
  note gg = grammar_clean_grows [OF g]
  have t: "clean (\<lambda>ty. maybe_type ty \<and> (typed \<longrightarrow> given_type ty))
    (if typed then seq (consume_token (Punctuation Colon) ''Expect ':' after parameter name.'') (r_type g) else optional_type g)"
    by (rule clean_intros clean_less clean_optional_type [THEN clean_weaken] grows_intros g gg | (simp add: given_facts; fail))+
  show ?thesis
    unfolding parameters_def
    by (rule t clean_report_if clean_comma_list [where R = "\<lambda>p. maybe_type (snd p) \<and> (typed \<longrightarrow> given_type (snd p))"]
        clean_intros grows_intros g gg | assumption | (simp; fail))+
qed

lemma clean_functions [clean_intros]:
  assumes g: "grammar_clean g"
  shows "clean given_stmt (recurse_declaration g)" "tier_ok a \<Longrightarrow> clean given_stmt (function_rule g a)"
proof -
  note gg = grammar_clean_grows [OF g]
  have r: "given_stmt (RecurseStmt t n ps ss)"
    if "length ps \<le> 255 \<and> (\<forall>p \<in> set ps. maybe_type (snd p) \<and> (False \<longrightarrow> given_type (snd p)))" "\<forall>s \<in> set ss. given_stmt s" for t n ps ss
    using that by (auto simp: given_stmt_def list_all_iff maybe_type_def)
  have f: "given_stmt (FunctionStmt t gs ps ty ss (Option.bind a fn_tier))"
    if "length gs \<le> 8" "length ps \<le> 255 \<and> (\<forall>p \<in> set ps. maybe_type (snd p) \<and> (True \<longrightarrow> given_type (snd p)))" "maybe_type ty"
      "\<forall>s \<in> set ss. given_stmt s" "tier_ok a" for t gs ps ty ss a
    using that by (auto simp: given_stmt_def list_all_iff maybe_type_def given_type_def tier_ok_def)
  have t: "clean maybe_type (on [Punctuation Arrow] (r_type g) (ret NullExpr))"
    by (rule clean_intros clean_less given_facts g | assumption)+
  show "clean given_stmt (recurse_declaration g)" "tier_ok a \<Longrightarrow> clean given_stmt (function_rule g a)"
    unfolding recurse_declaration_def function_rule_def
    by (rule r f t clean_parameters clean_intros grows_intros g gg | assumption)+
qed

section \<open>The grammar\<close>

lemma clean_declaration:
  assumes g: "grammar_clean g"
  shows "clean given_stmt (declaration_rule g)"
  unfolding declaration_rule_def
  by (rule clean_intros grows_intros g grammar_clean_grows | assumption)+

lemma grammar_is_clean: "grammar_clean (grammar n)"
proof (induction n)
  case 0
  show ?case
    by (simp add: grammar_clean_def grammar_def knot_def clean_def grows_def)
next
  case (Suc n)
  note g = Suc.IH
  have e: "assignment (Suc n) = assignment_rule (grammar n)" "exponent (Suc n) = exponent_rule (grammar n)"
    "unary (Suc n) = unary_rule (grammar n)" "type_expr (Suc n) = type_rule (grammar n)"
    "if_expression (Suc n) = if_rule (grammar n)" "block_expression (Suc n) = block_rule (grammar n)"
    "statement (Suc n) = statement_rule (grammar n)" "function_decl (Suc n) a = function_rule (grammar n) a"
    "parse_match_pattern (Suc n) = pattern_rule (grammar n)" for a
    by (rule ext, simp add: grammar_def)+
  have k: "grammar (Suc n) = knot (assignment (Suc n)) (exponent (Suc n)) (unary (Suc n)) (type_expr (Suc n))
      (if_expression (Suc n)) (block_expression (Suc n)) (statement (Suc n)) (function_decl (Suc n)) (parse_match_pattern (Suc n))"
    by (simp only: grammar_def)
  show ?case
    unfolding k grammar_clean_def knot_def rules.simps e
    by (intro conjI allI impI clean_assignment clean_exponent clean_unary clean_type clean_if_rule clean_block_rule
        clean_statement clean_functions clean_patterns grows_statements grammar_clean_grows g)
qed

theorem parse_program_clean: "clean (\<lambda>stmts. \<forall>st \<in> set stmts. given_stmt st) (parse_program n)"
proof -
  note c = clean_declaration [OF grammar_is_clean]
  show ?thesis
    unfolding parse_program_def
    by (rule c clean_loop [where I = "\<lambda>stmts. \<forall>st \<in> set stmts. given_stmt st"] clean_intros grows_intros clean_grows [OF c]
      | assumption | (auto; fail))+
qed

end
