(* ===== verification/Properties_Parser.thy ===== *)
theory Properties_Parser
  imports T81_Parser_Ends T81_Parser_Clean
begin

text \<open>
  Properties of the parser (\<open>lang/frontend/parser.cpp\<close>).
\<close>

section \<open>Concrete sources\<close>

definition parsed :: "string \<Rightarrow> stmt list \<times> string list" where
  "parsed src = (case parse src of Done stmts s \<Rightarrow> (stmts, map snd (diagnostics s)) | _ \<Rightarrow> ([], []))"

text \<open>A name before the body of a loop is read as the type of a record literal.\<close>

lemma loop_over_name_rejected: "map_prod id length (parsed ''for x in xs { f(x); }'') = ([NullStmt, NullStmt], 2)"
  by code_simp

text \<open>Statements for distributed, infinite and training blocks are known at the top level only.\<close>

lemma distributed_rejected: "hd (snd (parsed ''fn f() { distributed { } }'')) = ''Expect expression.''"
  by code_simp

lemma distributed_accepted: "snd (parsed ''distributed { }'') = []"
  by code_simp

text \<open>The tier of a function inside another is read and dropped.\<close>

lemma inner_tier_dropped:
  "case parsed ''fn f() { @tier(2) fn g() { } }'' of
     ([FunctionStmt _ _ _ _ [FunctionStmt _ _ _ _ _ tier] _], errors) \<Rightarrow> tier = None \<and> errors = []
   | _ \<Rightarrow> False"
  by code_simp

text \<open>A string literal passes for a type.\<close>

lemma string_passes_for_type:
  "case parsed (''let x: '' @ [CHR 0x22] @ ''a'' @ [CHR 0x22] @ '' = 1;'') of
     ([LetStmt _ (SimpleTypeExpr t) _], errors) \<Rightarrow> ttype t = Literal LitString \<and> errors = []
   | _ \<Rightarrow> False"
  by code_simp

text \<open>An index in capitals makes a type of a variable.\<close>

lemma index_in_capitals:
  "case parsed ''let y = a[N];'' of
     ([LetStmt _ _ (GenericTypeExpr _ [SimpleTypeExpr _])], errors) \<Rightarrow> errors = []
   | _ \<Rightarrow> False"
  by code_simp

text \<open>An empty pattern counts as a payload, because the default type of a token is not \<open>Illegal\<close>.\<close>

lemma empty_payload_kept: "has_payload empty_pattern"
  by code_simp

text \<open>The guard of a bounded \<open>for\<close> is read and dropped.\<close>

lemma for_guard_dropped:
  "case parsed ''@bounded(loop(g)) for x in (xs) { }'' of
     ([ForStmt _ _ _ kind bound], errors) \<Rightarrow> kind = BoundGuarded \<and> bound = None \<and> errors = []
   | _ \<Rightarrow> False"
  by code_simp

section \<open>Properties\<close>

text \<open>
  C26: The parser ends on every source, however broken: no loop of it runs without advancing, no recursion goes deeper
  than there are tokens, no exception leaves it, and it has read the source to the end of file.
\<close>

theorem parse_total: "\<exists>stmts s. parse src = Done stmts s \<and> at_end s"
  by (rule parse_ends)



end
