(* ===== verification/Spec2Isabelle.thy ===== *)
theory Spec2Isabelle
  imports Properties_Data Properties_Policy Properties_Runtime Properties_Machine
    Properties_Handlers Properties_Memory Properties_Structures Properties_Compile
    Properties_Numeric Properties_Jit Properties_BigInt Properties_Limb Properties_Lexer
    Properties_Parser
begin

text \<open>
  A model of the T81 virtual machine, of its Axion policy kernel, of the numbers and codecs they use and of
  the lexer and the parser of its language, with the theorems that make them correct.

  \<^bold>\<open>The program.\<close>  A program for the machine is a list of instructions with pools of constants
  (\<open>include/t81/isa/program.hpp\<close>).  The interpreter (\<open>core/vm/vm.cpp\<close>, class \<open>Interpreter\<close>) holds a
  \<open>State\<close> (\<open>include/t81/vm/state.hpp\<close>): one memory of 64-bit words with tags, cut into the segments code,
  stack, heap, tensor and meta; contexts with 243 tagged registers, a stack pointer, a call depth and
  a cognitive tier; tables of symbols, floats, fractions, tensors, options, results, enums, graphs and
  infinite forms, to which registers hold handles; an append-only log of Axion events.  Every step
  schedules a context, fires an injected fault if one is due, asks the Axion engine, runs one
  instruction, raises or lowers the tier of the context, collects garbage every 64 instructions, and
  writes the system registers.  The engine (\<open>kernel/axion/policy_engine.cpp\<close>) evaluates a policy parsed
  from text (\<open>include/t81/axion/policy.hpp\<close>) directly or as bytecode.

  \<^bold>\<open>The theories.\<close>  In the order of their imports:
  \<^item> \<^verbatim>\<open>T81_Prelude\<close>: machine integers, arrays that fail out of range, text of numbers, lemmas on lists
    and maps; \<^verbatim>\<open>T81_Isa\<close>: opcodes, programs and the binary encoding (\<open>core/isa/encoding.cpp\<close>), with the
    round trip; \<^verbatim>\<open>T81_State\<close>: the records of the state; \<^verbatim>\<open>T81_Values\<close>: integer, trit and bit primitives
    (\<open>core/vm/value_ops.cpp\<close>).
  \<^item> \<^verbatim>\<open>T81_Segments\<close> (\<open>core/vm/memory_segments.cpp\<close>), \<^verbatim>\<open>T81_Policy\<close> (lexer and parser of policies),
    \<^verbatim>\<open>T81_Engine\<close> (ethics, policy engine, bytecode, \<open>kernel/axion\<close>), \<^verbatim>\<open>T81_Trace\<close>
    (\<open>core/vm/policy_trace_bridge.cpp\<close>), \<^verbatim>\<open>T81_Tiers\<close> (\<open>core/vm/tier_limits.cpp\<close>,
    \<open>tiers/cog/promotion.cpp\<close>), \<^verbatim>\<open>T81_Sysregs\<close> (\<open>core/vm/runtime_state_helpers.cpp\<close>), \<^verbatim>\<open>T81_Gc\<close>
    (\<open>core/vm/gc_helpers.cpp\<close>), \<^verbatim>\<open>T81_Fraction\<close> (\<open>include/t81/fraction.hpp\<close>), \<^verbatim>\<open>T81_Tensor\<close>
    (\<open>include/t81/tensor.hpp\<close>, \<open>core/vm/tensor_helpers.cpp\<close>), \<^verbatim>\<open>T81_Floats\<close> (conversions on bit
    patterns), \<^verbatim>\<open>T81_Collections\<close> (strings, maps and sets), \<^verbatim>\<open>T81_Tables\<close> (interned tables, order and
    text of values), \<^verbatim>\<open>T81_Distributed\<close> (\<open>experimental/distributed\<close>), \<^verbatim>\<open>T81_Cog\<close> (\<open>experimental/tiers/cog\<close>).
  \<^item> \<^verbatim>\<open>T81_Machine\<close>: the interpreter object as the record \<open>vm\<close>, its register and logging primitives, the
    invariant \<open>vm_wf\<close> and the rules \<open>ub_free\<close> and \<open>wf_intros\<close> with which handlers are shown safe.
  \<^item> \<^verbatim>\<open>T81_Exec_Core\<close>, \<^verbatim>\<open>T81_Exec_Memory\<close>, \<^verbatim>\<open>T81_Exec_Meta\<close>, \<^verbatim>\<open>T81_Exec_Refine\<close>, \<^verbatim>\<open>T81_Exec_Data\<close>,
    \<^verbatim>\<open>T81_Exec_Cog\<close>: one definition per case of the switch of \<open>step\<close>, of type \<open>handler\<close>; every guard, trap,
    event and flag of the case is in it.  \<^verbatim>\<open>T81_Dispatch\<close> is the switch, \<^verbatim>\<open>T81_Step\<close> loading, scheduling,
    fault injection, tier enforcement, the collection cycle, a step and a run.  \<^verbatim>\<open>T81_Jit\<close>
    (\<open>runtime/jit/jit_compiler.cpp\<close>): recording and executing traces, and the step and the run with them.
  \<^item> \<^verbatim>\<open>T81_Compile\<close>, \<^verbatim>\<open>T81_Serialize\<close> (\<open>kernel/axion/policy_serialization.cpp\<close>): the compiler of
    policies to bytecode and their binary form.
  \<^item> \<^verbatim>\<open>T81_Codec\<close> (\<open>src/codec/base81.cpp\<close>, \<open>base243.cpp\<close>), \<^verbatim>\<open>T81_Trits\<close> (\<open>trit_packing.cpp\<close>),
    \<^verbatim>\<open>T81_Balanced\<close> (\<open>base81_balanced.cpp\<close>, \<open>base81_packed.cpp\<close>, \<open>metadata.cpp\<close>, \<open>types/packing.hpp\<close>,
    \<open>types/cell_packed.hpp\<close>): the codecs.  \<^verbatim>\<open>T81_Int\<close>, \<^verbatim>\<open>T81_Int_Div\<close>, \<^verbatim>\<open>T81_Int_Algo\<close>
    (\<open>types/T81Int.hpp\<close>, \<open>types/T81Uint.hpp\<close>): integers of \<open>n\<close> balanced trits, packed four to a byte, with the
    invariant \<open>tint_ok\<close> and the value \<open>ival\<close>.  \<^verbatim>\<open>T81_Cell\<close>: vectors of trits (\<open>ternary/arith.hpp\<close>) and the
    cell of five (\<open>types/cell.hpp\<close>).
  \<^item> \<^verbatim>\<open>T81_Chunks\<close> (digits in base \<open>3 ^ 27\<close>, rounding, the schoolbook and the Karatsuba product),
    \<^verbatim>\<open>T81_Knuth\<close>, \<^verbatim>\<open>T81_Knuth_D\<close>, \<^verbatim>\<open>T81_Knuth_Main\<close> (Algorithm D), \<^verbatim>\<open>T81_BigInt\<close> (limbs and chunks),
    \<^verbatim>\<open>T81_Big_Ring\<close>, \<^verbatim>\<open>T81_Big_Div\<close>, \<^verbatim>\<open>T81_Big_Algo\<close>, \<^verbatim>\<open>T81_Big_Inverse\<close>, \<^verbatim>\<open>T81_Big_Text\<close>: the big
    integers of \<open>types/T81BigInt.hpp\<close>, with the value \<open>big_val\<close>, the invariant \<open>big_ok\<close> that the class states
    and the weaker \<open>big_wf\<close> that survives its one faulty sum.
  \<^item> \<^verbatim>\<open>T81_Limb\<close> (trytes, tables and the carry tree), \<^verbatim>\<open>T81_Limb_Mul\<close> (limbs of 48 trits as trits, and their
    products), \<^verbatim>\<open>T81_Limb54\<close> (limbs of 54 and 27 trits): \<open>types/T81Limb.hpp\<close>, with the value \<open>tryte_val\<close>.
  \<^item> \<^verbatim>\<open>T81_Lexer\<close>, \<^verbatim>\<open>T81_Lexer_Spec\<close>, \<^verbatim>\<open>T81_Lexer_Text\<close> (\<open>lang/frontend/lexer.cpp\<close>): the cursor, the
    scanners and \<open>next_token\<close>; the blanks they skip and how tokens tile a source; texts with spaces.
  \<^item> \<^verbatim>\<open>T81_Ast\<close> (\<open>frontend/ast.hpp\<close>, the cursor over the tokens, parsers as functions of the parser's state that end,
    throw or are stuck), \<^verbatim>\<open>T81_Parser\<close> (\<open>lang/frontend/parser.cpp\<close>: one definition per method, over a record of the
    methods that the recursion goes through), \<^verbatim>\<open>T81_Parser_Total\<close>, \<^verbatim>\<open>T81_Parser_Rules\<close>, \<^verbatim>\<open>T81_Parser_Ends\<close>: a
    calculus of how far a parser advances, with which every rule is shown to end; the fuel of the recursion is the
    number of tokens, which is enough because every rule consumes one before it calls itself.
  \<^item> \<^verbatim>\<open>T81_Parser_Trees\<close> (which trees are complete, and a calculus of what a parser gives when nothing has been
    reported), \<^verbatim>\<open>T81_Parser_Clean\<close>: every rule of the parser gives complete trees.
  \<^item> \<^verbatim>\<open>Properties_Machine\<close>, \<^verbatim>\<open>Properties_Handlers\<close>, \<^verbatim>\<open>Properties_Memory\<close>, \<^verbatim>\<open>Properties_Runtime\<close>,
    \<^verbatim>\<open>Properties_Policy\<close>, \<^verbatim>\<open>Properties_Data\<close>, \<^verbatim>\<open>Properties_Structures\<close>, \<^verbatim>\<open>Properties_Compile\<close>,
    \<^verbatim>\<open>Properties_Numeric\<close>, \<^verbatim>\<open>Properties_Jit\<close>, \<^verbatim>\<open>Properties_BigInt\<close>, \<^verbatim>\<open>Properties_Limb\<close>,
    \<^verbatim>\<open>Properties_Lexer\<close>, \<^verbatim>\<open>Properties_Parser\<close>: the properties and their witnesses.

  \<^bold>\<open>How behaviour is rendered.\<close>  A handler returns \<open>None\<close> where the C++ program has undefined behaviour or
  an exception that nothing catches, and otherwise the trap, if any, and the new machine.  Signed
  64-bit overflow, conversions out of range and subscripts out of range are therefore visible; the
  theorems say when they cannot happen.  \<open>int\<close>, \<open>std::int64_t\<close> and \<open>std::uint64_t\<close> values are words of
  32 and 64 bits with explicit conversions; sizes are natural numbers where they stay below
  \<open>2 ^ 64\<close>, and wrap in the subtractions that the code leaves unchecked.  Doubles and singles are bit
  patterns.  Fractions compute with the integers that big integers denote; the big
  integers themselves are modelled as released (the checks of \<open>verify_invariants\<close> exist in debug builds only),
  with an exception as \<open>Inl\<close>, a loop that does not end as \<open>None\<close>, and chunks as integers, which the lemmas keep
  below 64 bits.  Strings are lists of bytes.

  \<^bold>\<open>Bounds and fuel.\<close>  The promotion loops take as many rounds as there are tiers left (five);
  \<open>find_active\<close> one round per context, as its C++ loop counts; the rendering of a nested
  value stops at the depth guard of the code, after nine levels; \<open>run_to_halt\<close> takes the step budget that
  its caller passes.  The loops that scan text or bytecode recurse on what is left of it.  The loops of
  the numeric types that might not end are partial functions, \<open>None\<close> when they do not end, with
  theorems that they end or do not.

  \<^bold>\<open>What the lemmas show.\<close>  The \<open>safe_\<close> lemmas show for every handler that it has no undefined behaviour
  on a machine that satisfies \<open>vm_wf\<close>, under a condition on its operands collected in \<open>insn_ok\<close>, and keeps
  the invariant; they are composed into \<open>safe_dispatch\<close>, \<open>safe_step\<close> and the theorems on programs.
  The other lemmas of a component state its functional behaviour and are what its properties rest
  on.  The interfaces that several proofs share are locales: an engine and a guarded engine,
  a stack of words, the tables that intern values, a dictionary, a set of elements, a codec between
  bytes and the digits of a radix; each is interpreted on the definitions of the component that
  provides it.

  \<^bold>\<open>Not modelled.\<close>  The 33 opcodes of \<open>unmodelled\<close>: arithmetic on floats, the
  tensor kernels, conversions between floats and fractions, loading a tensor by hash and collapsing
  an infinite form, which need IEEE arithmetic or files.  A program comes without a weights model, so
  that no weights handle resolves.  The address-dependent and I/O parts: the echo of events on
  standard error, the file formats.  The compiler front end after the parser (semantic analyser,
  IR generator), the ternary variant of the modular inverse and the conversions of \<open>T81BigInt\<close> from and to other
  numbers, the rest of the numeric type library (\<open>T81Float\<close> and the containers), the tools and
  the bindings around the machine.
\<close>

end
